(* ===== verification/Kernel_Prelude.thy ===== *)
theory Kernel_Prelude
  imports Main "HOL-Library.Word" "HOL-Library.Monad_Syntax"
begin

unbundle bit_operations_syntax

text \<open>
  Prelude of the development: machine words and the macros of
  \<^verbatim>\<open>kernel/include/util.h\<close>, the option monad in which every kernel operation that can
  fail an \<^verbatim>\<open>assert\<close>/\<^verbatim>\<open>fail\<close> or dereference a pointer is written, the collections of
  rewrite rules the component proofs share, and the theory of doubly linked lists that the
  scheduler queues, the endpoint and notification queues and the capability derivation list
  are instances of.
\<close>

section \<open>Machine words\<close>

type_synonym word_t = "64 word"
type_synonym ptr = "64 word"

abbreviation (input) NULL :: ptr where "NULL \<equiv> 0"

text \<open>\<open>BIT\<close>, \<open>MASK\<close> and the shifts of C on \<open>word_t\<close>. The shift amounts used by the code are
  below the word size wherever a theorem depends on them; \<open>push_bit\<close> and \<open>drop_bit\<close> give 0
  for larger amounts, where C leaves the value undefined.\<close>

definition BIT :: "word_t \<Rightarrow> word_t" where
  "BIT n = push_bit (unat n) 1"

definition MASK :: "word_t \<Rightarrow> word_t" where
  "MASK n = BIT n - 1"

definition shiftl :: "word_t \<Rightarrow> word_t \<Rightarrow> word_t" where
  "shiftl w n = push_bit (unat n) w"

definition shiftr :: "word_t \<Rightarrow> word_t \<Rightarrow> word_t" where
  "shiftr w n = drop_bit (unat n) w"

abbreviation (input) wordBits :: word_t where "wordBits \<equiv> 64"
abbreviation (input) wordRadix :: word_t where "wordRadix \<equiv> 6"

named_theorems word_bounds \<open>bounds on the unsigned value of masked and shifted words\<close>

lemma unat_p2: "n < LENGTH('a::len) \<Longrightarrow> unat (2 ^ n :: 'a word) = 2 ^ n"
  by transfer simp

lemma MASK_eq_mask: "MASK n = mask (unat n)"
  by (simp add: MASK_def BIT_def mask_eq_exp_minus_1 push_bit_eq_mult)

lemma and_MASK_take_bit: "w AND MASK n = take_bit (unat n) w"
  by (simp add: MASK_eq_mask take_bit_eq_mask)

lemma unat_and_MASK [word_bounds]: "unat (w AND MASK n) = unat w mod 2 ^ unat n"
  by (simp only: and_MASK_take_bit unsigned_take_bit_eq) (simp only: take_bit_eq_mod)

lemma unat_shiftr [word_bounds]: "unat (shiftr w n) = unat w div 2 ^ unat n"
  by (simp only: shiftr_def unat_drop_bit_eq) (simp only: drop_bit_eq_div)

lemma unat_BIT [word_bounds]: "unat n < 64 \<Longrightarrow> unat (BIT n) = 2 ^ unat n"
  by (simp add: BIT_def push_bit_eq_mult unat_p2)

lemma bit_BIT: "bit (BIT n) i \<longleftrightarrow> i = unat n \<and> i < 64"
  by (auto simp: BIT_def bit_simps)

lemma shiftr_zero [simp]: "shiftr w 0 = w"
  by (simp add: shiftr_def)

lemma shiftl_zero [simp]: "shiftl w 0 = w"
  by (simp add: shiftl_def)

lemma MASK_zero [simp]: "MASK 0 = 0"
  by (simp add: MASK_def BIT_def)

lemma word_sub_decreases:
  fixes n l :: "'a::len word"
  assumes "l \<noteq> 0" and "l \<le> n"
  shows "unat (n - l) = unat n - unat l" and "unat (n - l) < unat n"
proof -
  from assms(2) show eq: "unat (n - l) = unat n - unat l" by (rule unat_sub)
  from assms have "unat l \<noteq> 0" and "unat l \<le> unat n"
    by (simp_all add: unat_eq_0 word_le_nat_alt)
  with eq show "unat (n - l) < unat n" by linarith
qed

section \<open>Operations that may halt the kernel\<close>

text \<open>
  A kernel operation that contains an \<^verbatim>\<open>assert\<close> or \<^verbatim>\<open>fail\<close>, follows a pointer or loops is a
  function into \<open>option\<close>: \<open>None\<close> is a failed assertion (the kernel calls \<^verbatim>\<open>halt\<close>), a pointer
  to no object, or fuel that ran out. The theorems show \<open>Some\<close> under the kernel's invariants.
\<close>

definition assert_opt :: "bool \<Rightarrow> unit option" where
  "assert_opt P = (if P then Some () else None)"

named_theorems kmonad \<open>rules that run an operation whose sub-operations are known to succeed\<close>

lemma assert_opt_True [simp, kmonad]: "assert_opt True = Some ()"
  by (simp add: assert_opt_def)

lemma assert_opt_False [simp]: "assert_opt False = None"
  by (simp add: assert_opt_def)

lemma assert_opt_Some [simp]: "assert_opt P = Some u \<longleftrightarrow> P"
  by (simp add: assert_opt_def)

lemma assert_opt_holds [kmonad]: "P \<Longrightarrow> assert_opt P = Some ()"
  by simp

lemma bind_Some_conv [kmonad]: "Option.bind (Some x) f = f x"
  by simp

section \<open>Doubly linked lists\<close>

text \<open>
  \<open>dseg nx pv b xs a\<close>: the cells \<open>xs\<close> are linked in this order by the next field \<open>nx\<close> and the
  previous field \<open>pv\<close>, the cell before them is \<open>b\<close> and the cell after them is \<open>a\<close> (\<open>NULL\<close> for
  none). \<open>first_or\<close> and \<open>last_or\<close> give the cell at an end of a segment, or the neighbour
  beyond it when the segment is empty.
\<close>

fun first_or :: "'a \<Rightarrow> 'a list \<Rightarrow> 'a" where
  "first_or a [] = a"
| "first_or a (x # xs) = x"

fun last_or :: "'a \<Rightarrow> 'a list \<Rightarrow> 'a" where
  "last_or b [] = b"
| "last_or b (x # xs) = last_or x xs"

fun dseg :: "('a \<Rightarrow> 'a) \<Rightarrow> ('a \<Rightarrow> 'a) \<Rightarrow> 'a \<Rightarrow> 'a list \<Rightarrow> 'a \<Rightarrow> bool" where
  "dseg nx pv b [] a \<longleftrightarrow> True"
| "dseg nx pv b (x # xs) a \<longleftrightarrow> pv x = b \<and> nx x = first_or a xs \<and> dseg nx pv x xs a"

lemma first_or_append [simp]: "first_or a (xs @ ys) = first_or (first_or a ys) xs"
  by (cases xs) auto

lemma last_or_append [simp]: "last_or b (xs @ ys) = last_or (last_or b xs) ys"
  by (induction xs arbitrary: b) auto

lemma first_or_in: "xs \<noteq> [] \<Longrightarrow> first_or a xs \<in> set xs"
  by (cases xs) auto

lemma last_or_in: "xs \<noteq> [] \<Longrightarrow> last_or b xs \<in> set xs"
  by (induction xs arbitrary: b) (auto, metis list.distinct(1) last_or.simps)

lemma last_or_last: "xs \<noteq> [] \<Longrightarrow> last_or b xs = last xs"
  by (induction xs arbitrary: b) auto

lemma first_or_hd: "xs \<noteq> [] \<Longrightarrow> first_or a xs = hd xs"
  by (cases xs) auto

lemma dseg_append [simp]:
  "dseg nx pv b (xs @ ys) a \<longleftrightarrow>
     dseg nx pv b xs (first_or a ys) \<and> dseg nx pv (last_or b xs) ys a"
  by (induction xs arbitrary: b) auto

lemma dseg_upd_nx [simp]: "u \<notin> set xs \<Longrightarrow> dseg (nx(u := v)) pv b xs a = dseg nx pv b xs a"
  by (induction xs arbitrary: b) auto

lemma dseg_upd_pv [simp]: "u \<notin> set xs \<Longrightarrow> dseg nx (pv(u := v)) b xs a = dseg nx pv b xs a"
  by (induction xs arbitrary: b) auto

lemma dseg_cong:
  assumes "\<And>x. x \<in> set xs \<Longrightarrow> nx' x = nx x \<and> pv' x = pv x"
  shows "dseg nx' pv' b xs a = dseg nx pv b xs a"
  using assms by (induction xs arbitrary: b) auto

text \<open>The links of the members determine the list: a segment is the only one from its start.\<close>

lemma dseg_first_unique:
  "dseg nx pv b xs a \<Longrightarrow> dseg nx pv b' ys a \<Longrightarrow> first_or a xs = first_or a ys \<Longrightarrow>
   a \<notin> set xs \<Longrightarrow> a \<notin> set ys \<Longrightarrow> xs = ys"
proof (induction xs arbitrary: ys b b')
  case Nil
  then show ?case by (cases ys) auto
next
  case (Cons x xs)
  then obtain z zs where ys: "ys = z # zs" by (cases ys) auto
  with Cons.prems have "z = x" by simp
  with Cons.prems ys have "xs = zs"
    by (intro Cons.IH [of x x zs]) auto
  with ys \<open>z = x\<close> show ?case by simp
qed

text \<open>Where a cell sits: its neighbours are the fields' values.\<close>

lemma dseg_split_links:
  "dseg nx pv b (ys @ x # zs) a \<Longrightarrow> pv x = last_or b ys \<and> nx x = first_or a zs"
  by simp

text \<open>A whole queue: no cell twice, none of them \<open>NULL\<close>.\<close>

definition dlist :: "(ptr \<Rightarrow> ptr) \<Rightarrow> (ptr \<Rightarrow> ptr) \<Rightarrow> ptr list \<Rightarrow> bool" where
  "dlist nx pv xs \<longleftrightarrow> dseg nx pv NULL xs NULL \<and> distinct xs \<and> NULL \<notin> set xs"

lemma dlist_Nil [simp]: "dlist nx pv []"
  by (simp add: dlist_def)

lemma dlist_cong:
  assumes "\<And>x. x \<in> set xs \<Longrightarrow> nx' x = nx x \<and> pv' x = pv x"
  shows "dlist nx' pv' xs = dlist nx pv xs"
  using dseg_cong [of xs nx' nx pv' pv NULL NULL] assms by (auto simp: dlist_def)

lemma dlist_prev_NULL:
  assumes "dlist nx pv xs" and "x \<in> set xs"
  shows "pv x = NULL \<longleftrightarrow> first_or NULL xs = x"
proof -
  from assms(2) obtain ys zs where xs: "xs = ys @ x # zs" by (auto dest: split_list)
  show ?thesis
  proof (cases ys)
    case Nil
    with assms xs show ?thesis by (simp add: dlist_def)
  next
    case (Cons y ys')
    then have ne: "ys \<noteq> []" by simp
    with assms xs last_or_in [OF ne, of NULL] have "pv x \<noteq> NULL"
      by (auto simp: dlist_def)
    moreover from assms xs Cons have "first_or NULL xs \<noteq> x" by (auto simp: dlist_def)
    ultimately show ?thesis by simp
  qed
qed

lemma dlist_next_NULL:
  assumes "dlist nx pv xs" and "x \<in> set xs"
  shows "nx x = NULL \<longleftrightarrow> last_or NULL xs = x"
proof -
  from assms(2) obtain ys zs where xs: "xs = ys @ x # zs" by (auto dest: split_list)
  show ?thesis
  proof (cases zs)
    case Nil
    with assms xs show ?thesis by (simp add: dlist_def)
  next
    case (Cons z zs')
    then have ne: "zs \<noteq> []" by simp
    with assms xs first_or_in [OF ne, of NULL] have "nx x \<noteq> NULL"
      by (auto simp: dlist_def)
    moreover from last_or_in [OF ne, of x] assms xs have "last_or NULL xs \<noteq> x"
      by (auto simp: dlist_def)
    ultimately show ?thesis by simp
  qed
qed

text \<open>The sublist left when the cell \<open>x\<close> is taken out of a list without repetitions.\<close>

lemma remove1_split: "x \<notin> set ys \<Longrightarrow> remove1 x (ys @ x # zs) = ys @ zs"
  by (simp add: remove1_append)

section \<open>Linking and unlinking a cell\<close>

text \<open>A cell \<open>z\<close> linked in after \<open>x\<close>, unlinked, or put in the place of \<open>x\<close>. The link fields
  after the operation are given by what they are at each cell, so that the component proofs
  only have to compute them.\<close>

lemma dlist_link_facts:
  assumes "dlist nx pv (ys @ x # zs)"
  shows "nx x = first_or NULL zs" and "pv x = last_or NULL ys" and "x \<noteq> NULL"
    and "x \<notin> set ys" and "x \<notin> set zs" and "set ys \<inter> set zs = {}"
    and "NULL \<notin> set ys" and "NULL \<notin> set zs"
  using assms by (auto simp: dlist_def)

lemma dlist_insert_after:
  assumes d: "dlist nx pv (ys @ x # zs)" and z: "z \<notin> set (ys @ x # zs)" "z \<noteq> NULL"
    and nx': "\<And>p. p \<in> set (ys @ x # z # zs) \<Longrightarrow> nx' p = (if p = x then z else if p = z then nx x else nx p)"
    and pv': "\<And>p. p \<in> set (ys @ x # z # zs) \<Longrightarrow>
                pv' p = (if p = z then x else if p = nx x then z else pv p)"
  shows "dlist nx' pv' (ys @ x # z # zs)"
proof -
  note f = dlist_link_facts [OF d]
  have "dseg nx pv NULL ys x" "dseg nx pv x zs NULL" using d by (auto simp: dlist_def)
  moreover have "dseg nx' pv' NULL ys x = dseg nx pv NULL ys x"
  proof (rule dseg_cong)
    fix p assume p: "p \<in> set ys"
    then have "p \<noteq> nx x" using f first_or_in [of zs NULL] by (cases "zs = []") auto
    with p f z show "nx' p = nx p \<and> pv' p = pv p" by (auto simp: nx' pv')
  qed
  moreover have "dseg nx' pv' z zs NULL" if "dseg nx pv x zs NULL"
  proof (cases zs)
    case (Cons w ws)
    have "dseg nx' pv' w ws NULL = dseg nx pv w ws NULL"
      using f z d Cons by (intro dseg_cong) (auto simp: nx' pv' dlist_def)
    with that Cons f z show ?thesis by (auto simp: nx' pv')
  qed simp
  moreover have "x \<noteq> first_or NULL zs" using f by (cases zs) auto
  ultimately have "dseg nx' pv' NULL (ys @ x # z # zs) NULL"
    using f z last_or_in [of ys NULL] first_or_in [of zs NULL] d
    by (auto simp: nx' pv' dlist_def)
  then show ?thesis using d z by (auto simp: dlist_def)
qed

lemma dlist_unlink:
  assumes d: "dlist nx pv (ys @ x # zs)"
    and nx': "\<And>p. p \<in> set (ys @ zs) \<Longrightarrow> nx' p = (if p = pv x then nx x else nx p)"
    and pv': "\<And>p. p \<in> set (ys @ zs) \<Longrightarrow> pv' p = (if p = nx x then pv x else pv p)"
  shows "dlist nx' pv' (ys @ zs)"
proof -
  note f = dlist_link_facts [OF d]
  have d1: "dseg nx pv NULL ys x" and d2: "dseg nx pv x zs NULL" and dist: "distinct (ys @ x # zs)"
    using d by (auto simp: dlist_def)
  have "dseg nx' pv' NULL ys (first_or NULL zs)"
  proof (cases ys rule: rev_cases)
    case (snoc us u)
    have "dseg nx' pv' NULL us u = dseg nx pv NULL us u"
      using f snoc dist first_or_in [of zs NULL]
      by (intro dseg_cong) (cases "zs = []"; auto simp: nx' pv')
    with d1 snoc f dist first_or_in [of zs NULL] show ?thesis
      by (cases "zs = []") (auto simp: nx' pv')
  qed simp
  moreover have "dseg nx' pv' (last_or NULL ys) zs NULL"
  proof (cases zs)
    case (Cons w ws)
    have "dseg nx' pv' w ws NULL = dseg nx pv w ws NULL"
      using f Cons dist last_or_in [of ys NULL]
      by (intro dseg_cong) (cases "ys = []"; auto simp: nx' pv')
    with d2 Cons f dist last_or_in [of ys NULL] show ?thesis
      by (cases "ys = []") (auto simp: nx' pv')
  qed simp
  ultimately show ?thesis using d by (auto simp: dlist_def)
qed

lemma dlist_append_last:
  assumes d: "dlist nx pv xs" and z: "z \<notin> set xs" "z \<noteq> NULL"
    and nx': "\<And>p. p \<in> set (xs @ [z]) \<Longrightarrow>
                nx' p = (if p = z then NULL else if p = last_or NULL xs then z else nx p)"
    and pv': "\<And>p. p \<in> set (xs @ [z]) \<Longrightarrow> pv' p = (if p = z then last_or NULL xs else pv p)"
  shows "dlist nx' pv' (xs @ [z])"
proof (cases xs rule: rev_cases)
  case Nil
  with z show ?thesis by (simp add: dlist_def nx' pv')
next
  case (snoc ys x)
  from d snoc have dx: "dlist nx pv (ys @ x # [])" by simp
  from dlist_link_facts [OF dx] have "nx x = NULL" "x \<noteq> NULL" by auto
  then have "dlist nx' pv' (ys @ x # z # [])"
    using snoc z d by (intro dlist_insert_after [OF dx]) (auto simp: nx' pv' dlist_def)
  with snoc show ?thesis by simp
qed

lemma dlist_prepend_first:
  assumes d: "dlist nx pv xs" and z: "z \<notin> set xs" "z \<noteq> NULL"
    and nx': "\<And>p. p \<in> set (z # xs) \<Longrightarrow> nx' p = (if p = z then first_or NULL xs else nx p)"
    and pv': "\<And>p. p \<in> set (z # xs) \<Longrightarrow>
                pv' p = (if p = z then NULL else if p = first_or NULL xs then z else pv p)"
  shows "dlist nx' pv' (z # xs)"
proof (cases xs)
  case Nil
  with z show ?thesis by (simp add: dlist_def nx' pv')
next
  case (Cons x ys)
  have "dseg nx' pv' x ys NULL = dseg nx pv x ys NULL"
    using d Cons z by (intro dseg_cong) (auto simp: nx' pv' dlist_def)
  with d Cons z show ?thesis by (auto simp: nx' pv' dlist_def)
qed

text \<open>Renaming the cells of a list: how moving and swapping slots act on it.\<close>

lemma dseg_relabel:
  assumes "\<And>p. p \<in> set xs \<Longrightarrow> nx' (T p) = T (nx p) \<and> pv' (T p) = T (pv p)"
  shows "dseg nx pv b xs a \<Longrightarrow> dseg nx' pv' (T b) (map T xs) (T a)"
  using assms
proof (induction xs arbitrary: b)
  case (Cons x xs)
  have "first_or (T a) (map T xs) = T (first_or a xs)" by (cases xs) auto
  with Cons show ?case by auto
qed simp

lemma dlist_relabel:
  assumes "dlist nx pv xs" and "\<And>p. p \<in> set xs \<Longrightarrow> nx' (T p) = T (nx p) \<and> pv' (T p) = T (pv p)"
    and "inj T" and "T NULL = NULL"
  shows "dlist nx' pv' (map T xs)"
proof -
  have "dseg nx' pv' (T NULL) (map T xs) (T NULL)"
    using assms(1,2) by (intro dseg_relabel) (auto simp: dlist_def)
  moreover have "NULL \<notin> T ` set xs"
    using assms(1,3,4) by (metis dlist_def image_iff injD)
  ultimately show ?thesis
    using assms by (auto simp: dlist_def distinct_map intro: inj_on_subset [of T UNIV])
qed

text \<open>A list is determined by any of its cells.\<close>

lemma dseg_rev: "dseg nx pv b xs a \<Longrightarrow> dseg pv nx a (rev xs) b"
proof (induction xs arbitrary: b)
  case (Cons x xs)
  then have "dseg pv nx a (rev xs) x" by simp
  moreover have "last_or a (rev xs) = first_or a xs" by (induction xs) auto
  ultimately show ?case using Cons.prems by simp
qed simp

lemma dseg_suffix_unique:
  "dseg nx pv b (x # xs) a \<Longrightarrow> dseg nx pv b' (x # ys) a \<Longrightarrow> a \<notin> set (x # xs) \<Longrightarrow>
   a \<notin> set (x # ys) \<Longrightarrow> xs = ys"
  using dseg_first_unique [of nx pv b "x # xs" a b' "x # ys"] by simp

lemma dlist_unique:
  assumes "dlist nx pv xs" and "dlist nx pv ys" and "x \<in> set xs" and "x \<in> set ys"
  shows "xs = ys"
proof -
  from assms(3) obtain xs1 xs2 where xs: "xs = xs1 @ x # xs2" by (auto dest: split_list)
  from assms(4) obtain ys1 ys2 where ys: "ys = ys1 @ x # ys2" by (auto dest: split_list)
  have "xs2 = ys2"
    using assms(1,2) xs ys
    by (intro dseg_suffix_unique [of nx pv "last_or NULL xs1" x xs2 NULL "last_or NULL ys1"])
       (auto simp: dlist_def)
  moreover have "rev xs1 = rev ys1"
  proof (rule dseg_suffix_unique [of pv nx "first_or NULL xs2" x _ NULL "first_or NULL ys2"])
    show "dseg pv nx (first_or NULL xs2) (x # rev xs1) NULL"
      using assms(1) xs dseg_rev [of nx pv NULL "xs1 @ [x]" "first_or NULL xs2"]
      by (auto simp: dlist_def)
    show "dseg pv nx (first_or NULL ys2) (x # rev ys1) NULL"
      using assms(2) ys dseg_rev [of nx pv NULL "ys1 @ [x]" "first_or NULL ys2"]
      by (auto simp: dlist_def)
  qed (use assms(1,2) xs ys in \<open>auto simp: dlist_def\<close>)
  ultimately show ?thesis using xs ys by simp
qed

section \<open>A heap of cells in disjoint lists\<close>

text \<open>Every live cell is on a list of live cells (a cell that is linked to none is a list of its
  own). By \<open>dlist_unique\<close> the lists are disjoint, so the links partition the cells.\<close>

definition chains_wf :: "(ptr \<Rightarrow> ptr) \<Rightarrow> (ptr \<Rightarrow> ptr) \<Rightarrow> ptr set \<Rightarrow> bool" where
  "chains_wf nx pv L \<longleftrightarrow> (\<forall>p\<in>L. \<exists>xs. dlist nx pv xs \<and> p \<in> set xs \<and> set xs \<subseteq> L)"

lemma chains_wfE:
  assumes "chains_wf nx pv L" and "p \<in> L"
  obtains ys zs where "dlist nx pv (ys @ p # zs)" and "set (ys @ p # zs) \<subseteq> L"
proof -
  from assms obtain xs where "dlist nx pv xs" "p \<in> set xs" "set xs \<subseteq> L"
    by (auto simp: chains_wf_def)
  with that split_list [of p xs] show ?thesis by blast
qed

text \<open>An operation that rearranges the cells of some lists \<open>X\<close> among themselves and leaves the
  links of all others alone keeps the partition.\<close>

lemma chains_wf_update:
  assumes wf: "chains_wf nx pv L"
    and closed: "\<And>xs. dlist nx pv xs \<Longrightarrow> set xs \<inter> X \<noteq> {} \<Longrightarrow> set xs \<subseteq> X"
    and same: "\<And>p. p \<notin> X \<Longrightarrow> nx' p = nx p \<and> pv' p = pv p"
    and new: "\<And>p. p \<in> X \<Longrightarrow> \<exists>xs. dlist nx' pv' xs \<and> p \<in> set xs \<and> set xs \<subseteq> X"
    and X: "X \<subseteq> L"
  shows "chains_wf nx' pv' L"
proof (unfold chains_wf_def, rule ballI)
  fix p assume "p \<in> L"
  show "\<exists>xs. dlist nx' pv' xs \<and> p \<in> set xs \<and> set xs \<subseteq> L"
  proof (cases "p \<in> X")
    case True
    with new X show ?thesis by blast
  next
    case False
    from wf \<open>p \<in> L\<close> obtain xs where xs: "dlist nx pv xs" "p \<in> set xs" "set xs \<subseteq> L"
      by (auto simp: chains_wf_def)
    with closed False have "set xs \<inter> X = {}" by blast
    with same have "dlist nx' pv' xs = dlist nx pv xs" by (intro dlist_cong) blast
    with xs show ?thesis by blast
  qed
qed

text \<open>The set of the cells of given lists is closed.\<close>

lemma chain_closed:
  assumes "dlist nx pv ys" and "dlist nx pv xs" and "set xs \<inter> set ys \<noteq> {}"
  shows "set xs \<subseteq> set ys"
  using assms dlist_unique by fastforce

section \<open>Stores of linked cells\<close>

text \<open>
  The interface between a heap of structures and the lists threaded through them: a heap, a
  write through a pointer, and the two link fields. The laws are those of a typed heap. They
  give what a write does to the links, and that a write that leaves the link fields alone
  leaves every list alone. The capability derivation list, the ready queues and the endpoint
  queues are instances.
\<close>

definition link_of :: "('s \<Rightarrow> ptr \<Rightarrow> 'c option) \<Rightarrow> ('c \<Rightarrow> ptr) \<Rightarrow> 's \<Rightarrow> ptr \<Rightarrow> ptr" where
  "link_of cells f s p = (case cells s p of None \<Rightarrow> NULL | Some c \<Rightarrow> f c)"

lemma link_of_Some [simp]: "cells s p = Some c \<Longrightarrow> link_of cells f s p = f c"
  by (simp add: link_of_def)

locale link_store =
  fixes cells :: "'s \<Rightarrow> ptr \<Rightarrow> 'c option"
    and upd :: "ptr \<Rightarrow> ('c \<Rightarrow> 'c) \<Rightarrow> 's \<Rightarrow> 's option"
    and nxt :: "'c \<Rightarrow> ptr" and prv :: "'c \<Rightarrow> ptr"
  assumes write_live: "cells s p = Some c \<Longrightarrow> \<exists>s'. upd p f s = Some s' \<and> cells s' = (cells s)(p \<mapsto> f c)"
    and write_dead: "cells s p = None \<Longrightarrow> upd p f s = None"
begin

lemma write_cells:
  assumes "upd p f s = Some s'"
  obtains c where "cells s p = Some c" and "cells s' = (cells s)(p \<mapsto> f c)"
  using assms write_live [of s p _ f] write_dead [of s p f] by (cases "cells s p") auto

lemma write_links:
  assumes "upd p f s = Some s'"
  obtains c where "cells s p = Some c"
    and "link_of cells nxt s' = (link_of cells nxt s)(p := nxt (f c))"
    and "link_of cells prv s' = (link_of cells prv s)(p := prv (f c))"
proof -
  from assms obtain c where "cells s p = Some c" "cells s' = (cells s)(p \<mapsto> f c)"
    by (rule write_cells)
  then show ?thesis by (intro that) (auto simp: link_of_def fun_eq_iff)
qed

lemma write_keeps_links:
  assumes "upd p f s = Some s'" and "\<And>c. nxt (f c) = nxt c" and "\<And>c. prv (f c) = prv c"
  shows "link_of cells nxt s' = link_of cells nxt s" and "link_of cells prv s' = link_of cells prv s"
    and "dom (cells s') = dom (cells s)"
proof -
  from assms(1) obtain c where "cells s p = Some c" "cells s' = (cells s)(p \<mapsto> f c)"
    by (rule write_cells)
  with assms(2,3) show "link_of cells nxt s' = link_of cells nxt s"
      "link_of cells prv s' = link_of cells prv s" "dom (cells s') = dom (cells s)"
    by (auto simp: link_of_def fun_eq_iff dom_def split: if_splits)
qed

end

end
