(* ===== verification/Kernel_Types.thy ===== *)
theory Kernel_Types
  imports Kernel_Prelude
begin

text \<open>
  The kernel's data: the API constants of the AArch64 build, the capability type, the
  mapping-database node and capability slot, the thread control block, endpoints and
  notifications, and the whole kernel state as one record whose fields are the C globals and
  the typed heaps that pointers refer to.

  The bitfield blocks of \<^verbatim>\<open>structures_64.bf\<close> are datatypes and records with one field per
  bitfield. Their accessors are generated by the build and are read here as record selection
  and update; the generated setters assert that a value fits its field, so the model keeps
  each field as a word (or a truth value for a 1-bit field) and does not truncate.
\<close>

section \<open>Constants\<close>

abbreviation (input) seL4_SlotBits :: word_t where "seL4_SlotBits \<equiv> 5"
abbreviation (input) seL4_TCBBits :: word_t where "seL4_TCBBits \<equiv> 11"
abbreviation (input) seL4_EndpointBits :: word_t where "seL4_EndpointBits \<equiv> 4"
abbreviation (input) seL4_NotificationBits :: word_t where "seL4_NotificationBits \<equiv> 5"
abbreviation (input) seL4_PageTableBits :: word_t where "seL4_PageTableBits \<equiv> 12"
abbreviation (input) seL4_VSpaceBits :: word_t where "seL4_VSpaceBits \<equiv> 12"
abbreviation (input) seL4_ASIDPoolBits :: word_t where "seL4_ASIDPoolBits \<equiv> 12"
abbreviation (input) seL4_MinUntypedBits :: word_t where "seL4_MinUntypedBits \<equiv> 4"
abbreviation (input) seL4_MaxUntypedBits :: word_t where "seL4_MaxUntypedBits \<equiv> 47"
abbreviation (input) seL4_MsgMaxLength :: word_t where "seL4_MsgMaxLength \<equiv> 120"
abbreviation (input) seL4_MsgMaxExtraCaps :: nat where "seL4_MsgMaxExtraCaps \<equiv> 3"
abbreviation (input) CONFIG_NUM_PRIORITIES :: word_t where "CONFIG_NUM_PRIORITIES \<equiv> 256"
abbreviation (input) seL4_MaxPrio :: word_t where "seL4_MaxPrio \<equiv> 255"
abbreviation (input) CONFIG_TIME_SLICE :: word_t where "CONFIG_TIME_SLICE \<equiv> 5"
abbreviation (input) CONFIG_RETYPE_FAN_OUT_LIMIT :: word_t where "CONFIG_RETYPE_FAN_OUT_LIMIT \<equiv> 256"
abbreviation (input) CONFIG_MAX_NUM_WORK_UNITS :: word_t where "CONFIG_MAX_NUM_WORK_UNITS \<equiv> 100"
abbreviation (input) CONFIG_RESET_CHUNK_BITS :: word_t where "CONFIG_RESET_CHUNK_BITS \<equiv> 8"
abbreviation (input) TCB_OFFSET :: word_t where "TCB_OFFSET \<equiv> 1024"

text \<open>Indices of the capability slots of a TCB (\<^verbatim>\<open>enum tcb_cnode_index\<close>).\<close>

abbreviation (input) tcbCTable :: word_t where "tcbCTable \<equiv> 0"
abbreviation (input) tcbVTable :: word_t where "tcbVTable \<equiv> 1"
abbreviation (input) tcbReply :: word_t where "tcbReply \<equiv> 2"
abbreviation (input) tcbCaller :: word_t where "tcbCaller \<equiv> 3"
abbreviation (input) tcbBuffer :: word_t where "tcbBuffer \<equiv> 4"
abbreviation (input) tcbCNodeEntries :: word_t where "tcbCNodeEntries \<equiv> 5"

text \<open>Indices of the saved registers (\<^verbatim>\<open>enum _register\<close>).\<close>

type_synonym register_t = nat

abbreviation (input) capRegister :: register_t where "capRegister \<equiv> 0"
abbreviation (input) badgeRegister :: register_t where "badgeRegister \<equiv> 0"
abbreviation (input) msgInfoRegister :: register_t where "msgInfoRegister \<equiv> 1"
abbreviation (input) SP_EL0 :: register_t where "SP_EL0 \<equiv> 31"
abbreviation (input) ELR_EL1 :: register_t where "ELR_EL1 \<equiv> 32"
abbreviation (input) NextIP :: register_t where "NextIP \<equiv> 32"
abbreviation (input) SPSR_EL1 :: register_t where "SPSR_EL1 \<equiv> 33"
abbreviation (input) FaultIP :: register_t where "FaultIP \<equiv> 34"

abbreviation (input) n_msgRegisters :: nat where "n_msgRegisters \<equiv> 4"

definition msgRegisters :: "register_t list" where
  "msgRegisters = [2, 3, 4, 5]"

section \<open>Errors and faults\<close>

datatype exception_t =
    EXCEPTION_NONE
  | EXCEPTION_FAULT
  | EXCEPTION_LOOKUP_FAULT
  | EXCEPTION_SYSCALL_ERROR
  | EXCEPTION_PREEMPTED

datatype seL4_Error =
    seL4_NoError
  | seL4_InvalidArgument
  | seL4_InvalidCapability
  | seL4_IllegalOperation
  | seL4_RangeError
  | seL4_AlignmentError
  | seL4_FailedLookup
  | seL4_TruncatedMessage
  | seL4_DeleteFirst
  | seL4_RevokeFirst
  | seL4_NotEnoughMemory

record syscall_error_t =
  invalidArgumentNumber :: word_t
  invalidCapNumber :: word_t
  rangeErrorMin :: word_t
  rangeErrorMax :: word_t
  memoryLeft :: word_t
  failedLookupWasSource :: bool
  se_type :: seL4_Error

datatype lookup_fault_t =
    lookup_fault_invalid_root
  | lookup_fault_missing_capability (luf_bitsLeft: word_t)
  | lookup_fault_depth_mismatch (luf_bitsFound: word_t) (luf_bitsLeft: word_t)
  | lookup_fault_guard_mismatch (luf_guardFound: word_t) (luf_bitsLeft: word_t)
      (luf_bitsFound: word_t)

datatype seL4_Fault_t =
    seL4_Fault_NullFault
  | seL4_Fault_CapFault word_t bool
  | seL4_Fault_UnknownSyscall word_t
  | seL4_Fault_UserException word_t word_t
  | seL4_Fault_VMFault word_t word_t bool

section \<open>Capabilities\<close>

datatype vm_page_size_t = ARMSmallPage | ARMLargePage | ARMHugePage

datatype vm_rights_t = VMKernelOnly | VMReadWrite | VMReadOnly

datatype cap_t =
    cap_null_cap
  | cap_untyped_cap (capFreeIndex: word_t) (capIsDevice: bool) (capBlockSize: word_t) (capPtr: ptr)
  | cap_endpoint_cap (capEPBadge: word_t) (capCanGrantReply: bool) (capCanGrant: bool)
      (capCanSend: bool) (capCanReceive: bool) (capEPPtr: ptr)
  | cap_notification_cap (capNtfnBadge: word_t) (capNtfnCanReceive: bool) (capNtfnCanSend: bool)
      (capNtfnPtr: ptr)
  | cap_reply_cap (capReplyCanGrant: bool) (capReplyMaster: bool) (capTCBPtr: ptr)
  | cap_cnode_cap (capCNodeRadix: word_t) (capCNodeGuardSize: word_t) (capCNodeGuard: word_t)
      (capCNodePtr: ptr)
  | cap_thread_cap (capThreadPtr: ptr)
  | cap_irq_control_cap
  | cap_irq_handler_cap (capIRQ: word_t)
  | cap_zombie_cap (capZombieID: word_t) (capZombieType: word_t)
  | cap_domain_cap
  | cap_frame_cap (capFMappedASID: word_t) (capFBasePtr: ptr) (capFSize: vm_page_size_t)
      (capFMappedAddress: word_t) (capFVMRights: vm_rights_t) (capFIsDevice: bool)
  | cap_page_table_cap (capPTMappedASID: word_t) (capPTBasePtr: ptr) (capPTIsMapped: bool)
      (capPTMappedAddress: word_t)
  | cap_vspace_cap (capVSMappedASID: word_t) (capVSBasePtr: ptr) (capVSIsMapped: bool)
  | cap_asid_control_cap
  | cap_asid_pool_cap (capASIDBase: word_t) (capASIDPool: ptr)
  | cap_sgi_signal_cap (capSGIIRQ: word_t) (capSGITarget: word_t)

text \<open>The tags of \<^verbatim>\<open>tagged_union cap capType\<close>; odd tags are architecture capabilities.\<close>

primrec cap_get_capType :: "cap_t \<Rightarrow> nat" where
  "cap_get_capType cap_null_cap = 0"
| "cap_get_capType (cap_untyped_cap _ _ _ _) = 2"
| "cap_get_capType (cap_endpoint_cap _ _ _ _ _ _) = 4"
| "cap_get_capType (cap_notification_cap _ _ _ _) = 6"
| "cap_get_capType (cap_reply_cap _ _ _) = 8"
| "cap_get_capType (cap_cnode_cap _ _ _ _) = 10"
| "cap_get_capType (cap_thread_cap _) = 12"
| "cap_get_capType cap_irq_control_cap = 14"
| "cap_get_capType (cap_irq_handler_cap _) = 16"
| "cap_get_capType (cap_zombie_cap _ _) = 18"
| "cap_get_capType cap_domain_cap = 20"
| "cap_get_capType (cap_frame_cap _ _ _ _ _ _) = 1"
| "cap_get_capType (cap_page_table_cap _ _ _ _) = 3"
| "cap_get_capType (cap_vspace_cap _ _ _) = 9"
| "cap_get_capType cap_asid_control_cap = 11"
| "cap_get_capType (cap_asid_pool_cap _ _) = 13"
| "cap_get_capType (cap_sgi_signal_cap _ _) = 27"

definition isArchCap :: "cap_t \<Rightarrow> bool" where
  "isArchCap c \<longleftrightarrow> cap_get_capType c mod 2 = 1"

abbreviation (input) is_cnode_cap :: "cap_t \<Rightarrow> bool" where
  "is_cnode_cap c \<equiv> cap_get_capType c = 10"

section \<open>Kernel objects\<close>

record mdb_node_t =
  mdbNext :: ptr
  mdbRevocable :: bool
  mdbFirstBadged :: bool
  mdbPrev :: ptr

definition mdb_node_new :: "ptr \<Rightarrow> bool \<Rightarrow> bool \<Rightarrow> ptr \<Rightarrow> mdb_node_t" where
  "mdb_node_new nx rv fb pv =
     \<lparr>mdbNext = nx, mdbRevocable = rv, mdbFirstBadged = fb, mdbPrev = pv\<rparr>"

definition nullMDBNode :: mdb_node_t where
  "nullMDBNode = mdb_node_new 0 False False 0"

record cte_t =
  cte_cap :: cap_t
  cteMDBNode :: mdb_node_t

datatype endpoint_state = EPState_Idle | EPState_Send | EPState_Recv

datatype notification_state = NtfnState_Idle | NtfnState_Waiting | NtfnState_Active

record endpoint_t =
  epQueue_head :: ptr
  epQueue_tail :: ptr
  ep_state :: endpoint_state

record notification_t =
  ntfnBoundTCB :: ptr
  ntfnMsgIdentifier :: word_t
  ntfnQueue_head :: ptr
  ntfnQueue_tail :: ptr
  ntfn_state :: notification_state

datatype tsType_t =
    ThreadState_Inactive
  | ThreadState_Running
  | ThreadState_Restart
  | ThreadState_BlockedOnReceive
  | ThreadState_BlockedOnSend
  | ThreadState_BlockedOnReply
  | ThreadState_BlockedOnNotification
  | ThreadState_IdleThreadState

record thread_state_t =
  blockingIPCBadge :: word_t
  blockingIPCCanGrant :: bool
  blockingIPCCanGrantReply :: bool
  blockingIPCIsCall :: bool
  tcbQueued :: bool
  blockingObject :: ptr
  tsType :: tsType_t

record tcb_t =
  tcbContext :: "register_t \<Rightarrow> word_t"
  tcbState :: thread_state_t
  tcbFlags :: word_t
  tcbBoundNotification :: ptr
  tcbFault :: seL4_Fault_t
  tcbLookupFailure :: lookup_fault_t
  tcbDomain :: word_t
  tcbMCP :: word_t
  tcbPriority :: word_t
  tcbTimeSlice :: word_t
  tcbFaultHandler :: word_t
  tcbIPCBuffer :: word_t
  tcbSchedNext :: ptr
  tcbSchedPrev :: ptr
  tcbEPNext :: ptr
  tcbEPPrev :: ptr

record tcb_queue_t =
  qhead :: ptr
  qend :: ptr

definition TCB_PTR_CTE_PTR :: "ptr \<Rightarrow> word_t \<Rightarrow> ptr" where
  "TCB_PTR_CTE_PTR p i = (p AND NOT (MASK seL4_TCBBits)) + 32 * i"

datatype asid_map_t = asid_map_none | asid_map_vspace (vspace_root: ptr)

datatype pte_t =
    pte_pte_invalid
  | pte_pte_table (pt_base_address: word_t)
  | pte_pte_page (pte_UXN: bool) (page_base_address: word_t) (pte_AP: word_t) (pte_AttrIndx: word_t)
  | pte_pte_4k_page (pte_UXN: bool) (page_base_address: word_t) (pte_AP: word_t)
      (pte_AttrIndx: word_t)

datatype irq_state_t = IRQInactive | IRQSignal | IRQTimer | IRQReserved

section \<open>The machine\<close>

text \<open>Operations on the processor and the devices are recorded, in order, in a log.\<close>

datatype machine_op =
    maskInterrupt bool word_t
  | resetTimer
  | enableFpu
  | disableFpu
  | saveFpuState ptr
  | loadFpuState ptr
  | setGlobalUserVSpace
  | armv_contextSwitch ptr word_t
  | invalidateTranslationASID word_t
  | invalidateTranslationSingle word_t
  | cleanByVA_PoU ptr
  | cleanCacheRange_RAM ptr ptr word_t
  | cleanCacheRange_PoU ptr ptr word_t
  | invalidateCacheRange_RAM ptr ptr word_t
  | cleanInvalidateCacheRange_RAM ptr ptr word_t
  | invalidateCacheRange_I ptr ptr word_t
  | dsb
  | isb
  | clearMemory ptr word_t
  | clearMemory_PT ptr word_t
  | memzero ptr word_t
  | write_eoi word_t
  | setIRQTrigger word_t bool
  | write_sgi_control word_t

section \<open>The kernel state\<close>

text \<open>
  The typed heaps \<open>ctes\<close>, \<open>tcbs\<close>, \<open>eps\<close>, \<open>ntfns\<close>, \<open>ptes\<close> and \<open>asid_pools\<close> map the address of
  each live object to its value, \<open>umem\<close> the address of each word of user frames (the IPC
  buffers among them). The next group are the C globals under their names. The last group
  holds what is fixed at build time or by the platform: the number of domains and of domain
  schedule entries (\<^verbatim>\<open>CONFIG_NUM_DOMAINS\<close>, \<^verbatim>\<open>CONFIG_NUM_DOMAIN_SCHEDULES\<close>), the address
  of \<^verbatim>\<open>intStateIRQNode\<close>, \<^verbatim>\<open>maxIRQ\<close>, the offset between physical and kernel addresses, and
  the values that the registers of the interrupt controller give to successive reads.
\<close>

record kstate =
  ctes :: "ptr \<Rightarrow> cte_t option"
  tcbs :: "ptr \<Rightarrow> tcb_t option"
  eps :: "ptr \<Rightarrow> endpoint_t option"
  ntfns :: "ptr \<Rightarrow> notification_t option"
  ptes :: "ptr \<Rightarrow> pte_t option"
  asid_pools :: "ptr \<Rightarrow> (word_t \<Rightarrow> asid_map_t) option"
  umem :: "ptr \<Rightarrow> word_t option"
  ksReadyQueues :: "word_t \<Rightarrow> tcb_queue_t"
  ksReadyQueuesL1Bitmap :: "word_t \<Rightarrow> word_t"
  ksReadyQueuesL2Bitmap :: "word_t \<Rightarrow> word_t \<Rightarrow> word_t"
  ksCurThread :: ptr
  ksIdleThread :: ptr
  ksSchedulerAction :: ptr
  ksCurFPUOwner :: ptr
  ksWorkUnitsCompleted :: word_t
  intStateIRQTable :: "word_t \<Rightarrow> irq_state_t"
  ksDomSchedule :: "word_t \<Rightarrow> word_t"
  ksDomScheduleIdx :: word_t
  ksDomScheduleStart :: word_t
  ksCurDomain :: word_t
  ksDomainTime :: word_t
  armKSASIDTable :: "word_t \<Rightarrow> ptr"
  current_syscall_error :: syscall_error_t
  current_lookup_fault :: lookup_fault_t
  current_fault :: seL4_Fault_t
  current_extra_caps :: "nat \<Rightarrow> ptr"
  machine_log :: "machine_op list"
  active_irq :: word_t
  gic_reads :: nat
  gic_values :: "nat \<Rightarrow> word_t"
  numDomains :: word_t
  domScheduleLength :: word_t
  intStateIRQNode :: ptr
  maxIRQ :: word_t
  pptrBaseOffset :: word_t

text \<open>A state with empty heaps, from which the concrete states of the examples are built.\<close>

definition blank_queue :: tcb_queue_t where
  "blank_queue = \<lparr>qhead = NULL, qend = NULL\<rparr>"

definition blank_error :: syscall_error_t where
  "blank_error =
     \<lparr>invalidArgumentNumber = 0, invalidCapNumber = 0, rangeErrorMin = 0, rangeErrorMax = 0,
      memoryLeft = 0, failedLookupWasSource = False, se_type = seL4_NoError\<rparr>"

definition blank_tcb :: tcb_t where
  "blank_tcb =
     \<lparr>tcbContext = (\<lambda>_. 0),
      tcbState = \<lparr>blockingIPCBadge = 0, blockingIPCCanGrant = False, blockingIPCCanGrantReply = False,
                  blockingIPCIsCall = False, tcbQueued = False, blockingObject = NULL,
                  tsType = ThreadState_Inactive\<rparr>,
      tcbFlags = 0, tcbBoundNotification = NULL, tcbFault = seL4_Fault_NullFault,
      tcbLookupFailure = lookup_fault_invalid_root, tcbDomain = 0, tcbMCP = 0, tcbPriority = 0,
      tcbTimeSlice = 0, tcbFaultHandler = 0, tcbIPCBuffer = 0, tcbSchedNext = NULL,
      tcbSchedPrev = NULL, tcbEPNext = NULL, tcbEPPrev = NULL\<rparr>"

definition blank_state :: kstate where
  "blank_state =
     \<lparr>ctes = Map.empty, tcbs = Map.empty, eps = Map.empty, ntfns = Map.empty, ptes = Map.empty,
      asid_pools = Map.empty, umem = Map.empty,
      ksReadyQueues = (\<lambda>_. blank_queue), ksReadyQueuesL1Bitmap = (\<lambda>_. 0),
      ksReadyQueuesL2Bitmap = (\<lambda>_ _. 0), ksCurThread = NULL, ksIdleThread = NULL,
      ksSchedulerAction = 0, ksCurFPUOwner = NULL, ksWorkUnitsCompleted = 0,
      intStateIRQTable = (\<lambda>_. IRQInactive), ksDomSchedule = (\<lambda>_. 0), ksDomScheduleIdx = 0,
      ksDomScheduleStart = 0, ksCurDomain = 0, ksDomainTime = 0, armKSASIDTable = (\<lambda>_. NULL),
      current_syscall_error = blank_error, current_lookup_fault = lookup_fault_invalid_root,
      current_fault = seL4_Fault_NullFault, current_extra_caps = (\<lambda>_. NULL), machine_log = [],
      active_irq = 1023, gic_reads = 0, gic_values = (\<lambda>_. 1023), numDomains = 1, domScheduleLength = 1,
      intStateIRQNode = NULL, maxIRQ = 0, pptrBaseOffset = 0\<rparr>"

abbreviation (input) SchedulerAction_ResumeCurrentThread :: ptr where
  "SchedulerAction_ResumeCurrentThread \<equiv> 0"
abbreviation (input) SchedulerAction_ChooseNewThread :: ptr where
  "SchedulerAction_ChooseNewThread \<equiv> 1"

definition do_machine_op :: "machine_op \<Rightarrow> kstate \<Rightarrow> kstate" where
  "do_machine_op m s = s\<lparr>machine_log := machine_log s @ [m]\<rparr>"

section \<open>Access to the heaps\<close>

text \<open>A write through a pointer: \<open>None\<close> when no object of the type lives there.\<close>

definition cte_upd :: "ptr \<Rightarrow> (cte_t \<Rightarrow> cte_t) \<Rightarrow> kstate \<Rightarrow> kstate option" where
  "cte_upd p f s =
     (case ctes s p of None \<Rightarrow> None | Some x \<Rightarrow> Some (s\<lparr>ctes := (ctes s)(p \<mapsto> f x)\<rparr>))"

definition tcb_upd :: "ptr \<Rightarrow> (tcb_t \<Rightarrow> tcb_t) \<Rightarrow> kstate \<Rightarrow> kstate option" where
  "tcb_upd p f s =
     (case tcbs s p of None \<Rightarrow> None | Some x \<Rightarrow> Some (s\<lparr>tcbs := (tcbs s)(p \<mapsto> f x)\<rparr>))"

definition ep_upd :: "ptr \<Rightarrow> (endpoint_t \<Rightarrow> endpoint_t) \<Rightarrow> kstate \<Rightarrow> kstate option" where
  "ep_upd p f s =
     (case eps s p of None \<Rightarrow> None | Some x \<Rightarrow> Some (s\<lparr>eps := (eps s)(p \<mapsto> f x)\<rparr>))"

definition ntfn_upd :: "ptr \<Rightarrow> (notification_t \<Rightarrow> notification_t) \<Rightarrow> kstate \<Rightarrow> kstate option" where
  "ntfn_upd p f s =
     (case ntfns s p of None \<Rightarrow> None | Some x \<Rightarrow> Some (s\<lparr>ntfns := (ntfns s)(p \<mapsto> f x)\<rparr>))"

definition cte_set_cap :: "ptr \<Rightarrow> cap_t \<Rightarrow> kstate \<Rightarrow> kstate option" where
  "cte_set_cap p c = cte_upd p (\<lambda>x. x\<lparr>cte_cap := c\<rparr>)"

definition mdb_upd :: "ptr \<Rightarrow> (mdb_node_t \<Rightarrow> mdb_node_t) \<Rightarrow> kstate \<Rightarrow> kstate option" where
  "mdb_upd p f = cte_upd p (\<lambda>x. x\<lparr>cteMDBNode := f (cteMDBNode x)\<rparr>)"

definition ts_upd :: "ptr \<Rightarrow> (thread_state_t \<Rightarrow> thread_state_t) \<Rightarrow> kstate \<Rightarrow> kstate option" where
  "ts_upd p f = tcb_upd p (\<lambda>t. t\<lparr>tcbState := f (tcbState t)\<rparr>)"

definition setRegister :: "ptr \<Rightarrow> register_t \<Rightarrow> word_t \<Rightarrow> kstate \<Rightarrow> kstate option" where
  "setRegister p r w = tcb_upd p (\<lambda>t. t\<lparr>tcbContext := (tcbContext t)(r := w)\<rparr>)"

definition getRegister :: "ptr \<Rightarrow> register_t \<Rightarrow> kstate \<Rightarrow> word_t option" where
  "getRegister p r s = map_option (\<lambda>t. tcbContext t r) (tcbs s p)"

definition buf_read :: "ptr \<Rightarrow> word_t \<Rightarrow> kstate \<Rightarrow> word_t option" where
  "buf_read b i s = umem s (b + 8 * i)"

definition buf_write :: "ptr \<Rightarrow> word_t \<Rightarrow> word_t \<Rightarrow> kstate \<Rightarrow> kstate option" where
  "buf_write b i w s =
     (case umem s (b + 8 * i) of None \<Rightarrow> None
      | Some _ \<Rightarrow> Some (s\<lparr>umem := (umem s)(b + 8 * i \<mapsto> w)\<rparr>))"

lemma cte_upd_Some [kmonad]: "ctes s p = Some x \<Longrightarrow> cte_upd p f s = Some (s\<lparr>ctes := (ctes s)(p \<mapsto> f x)\<rparr>)"
  by (simp add: cte_upd_def)

lemma tcb_upd_Some [kmonad]: "tcbs s p = Some x \<Longrightarrow> tcb_upd p f s = Some (s\<lparr>tcbs := (tcbs s)(p \<mapsto> f x)\<rparr>)"
  by (simp add: tcb_upd_def)

lemma ep_upd_Some [kmonad]: "eps s p = Some x \<Longrightarrow> ep_upd p f s = Some (s\<lparr>eps := (eps s)(p \<mapsto> f x)\<rparr>)"
  by (simp add: ep_upd_def)

lemma ntfn_upd_Some [kmonad]:
  "ntfns s p = Some x \<Longrightarrow> ntfn_upd p f s = Some (s\<lparr>ntfns := (ntfns s)(p \<mapsto> f x)\<rparr>)"
  by (simp add: ntfn_upd_def)

lemma cte_set_cap_Some [kmonad]:
  "ctes s p = Some x \<Longrightarrow> cte_set_cap p c s = Some (s\<lparr>ctes := (ctes s)(p \<mapsto> x\<lparr>cte_cap := c\<rparr>)\<rparr>)"
  by (simp add: cte_set_cap_def kmonad)

lemma mdb_upd_Some [kmonad]:
  "ctes s p = Some x \<Longrightarrow>
   mdb_upd p f s = Some (s\<lparr>ctes := (ctes s)(p \<mapsto> x\<lparr>cteMDBNode := f (cteMDBNode x)\<rparr>)\<rparr>)"
  by (simp add: mdb_upd_def kmonad)

lemma ts_upd_Some [kmonad]:
  "tcbs s p = Some x \<Longrightarrow>
   ts_upd p f s = Some (s\<lparr>tcbs := (tcbs s)(p \<mapsto> x\<lparr>tcbState := f (tcbState x)\<rparr>)\<rparr>)"
  by (simp add: ts_upd_def kmonad)

lemma setRegister_Some [kmonad]:
  "tcbs s p = Some x \<Longrightarrow>
   setRegister p r w s = Some (s\<lparr>tcbs := (tcbs s)(p \<mapsto> x\<lparr>tcbContext := (tcbContext x)(r := w)\<rparr>)\<rparr>)"
  by (simp add: setRegister_def kmonad)

lemma getRegister_Some [kmonad]: "tcbs s p = Some x \<Longrightarrow> getRegister p r s = Some (tcbContext x r)"
  by (simp add: getRegister_def)

section \<open>The three families of linked lists\<close>

abbreviation mdb_next :: "kstate \<Rightarrow> ptr \<Rightarrow> ptr" where
  "mdb_next \<equiv> link_of ctes (\<lambda>c. mdbNext (cteMDBNode c))"

abbreviation mdb_prev :: "kstate \<Rightarrow> ptr \<Rightarrow> ptr" where
  "mdb_prev \<equiv> link_of ctes (\<lambda>c. mdbPrev (cteMDBNode c))"

abbreviation sched_next :: "kstate \<Rightarrow> ptr \<Rightarrow> ptr" where
  "sched_next \<equiv> link_of tcbs tcbSchedNext"

abbreviation sched_prev :: "kstate \<Rightarrow> ptr \<Rightarrow> ptr" where
  "sched_prev \<equiv> link_of tcbs tcbSchedPrev"

abbreviation ep_next :: "kstate \<Rightarrow> ptr \<Rightarrow> ptr" where
  "ep_next \<equiv> link_of tcbs tcbEPNext"

abbreviation ep_prev :: "kstate \<Rightarrow> ptr \<Rightarrow> ptr" where
  "ep_prev \<equiv> link_of tcbs tcbEPPrev"

interpretation mdb: link_store ctes cte_upd "\<lambda>c. mdbNext (cteMDBNode c)" "\<lambda>c. mdbPrev (cteMDBNode c)"
  by unfold_locales (auto simp: cte_upd_def)

interpretation schedq: link_store tcbs tcb_upd tcbSchedNext tcbSchedPrev
  by unfold_locales (auto simp: tcb_upd_def)

interpretation epq: link_store tcbs tcb_upd tcbEPNext tcbEPPrev
  by unfold_locales (auto simp: tcb_upd_def)

end
