(* ===== verification/Cap_Ops.thy ===== *)
theory Cap_Ops
  imports Kernel_Types
begin

text \<open>
  The operations on capability values: \<^verbatim>\<open>src/object/objecttype.c\<close> and its architecture half
  \<^verbatim>\<open>src/arch/arm/64/object/objecttype.c\<close> as far as they are pure functions, the zombie
  helpers of \<^verbatim>\<open>include/object/structures.h\<close>, and the rights masks of \<^verbatim>\<open>vspace.c\<close>. The
  lemmas say which capabilities refer to the same object, that masking rights and updating
  capability data never amplify authority, and that the packed zombie word round-trips.
\<close>

section \<open>Zombies\<close>

abbreviation (input) ZombieType_ZombieTCB :: word_t where "ZombieType_ZombieTCB \<equiv> 64"
abbreviation (input) TCB_CNODE_RADIX :: word_t where "TCB_CNODE_RADIX \<equiv> 4"

definition ZombieType_ZombieCNode :: "word_t \<Rightarrow> word_t" where
  "ZombieType_ZombieCNode n = n AND MASK wordRadix"

definition Zombie_new :: "word_t \<Rightarrow> word_t \<Rightarrow> word_t \<Rightarrow> cap_t" where
  "Zombie_new number type p =
     (let mask = (if type = ZombieType_ZombieTCB then MASK (TCB_CNODE_RADIX + 1)
                  else MASK (type + 1))
      in cap_zombie_cap ((p AND NOT mask) OR (number AND mask)) type)"

definition cap_zombie_cap_get_capZombieBits :: "cap_t \<Rightarrow> word_t" where
  "cap_zombie_cap_get_capZombieBits c =
     (let type = capZombieType c in
      if type = ZombieType_ZombieTCB then TCB_CNODE_RADIX else ZombieType_ZombieCNode type)"

definition cap_zombie_cap_get_capZombieNumber :: "cap_t \<Rightarrow> word_t" where
  "cap_zombie_cap_get_capZombieNumber c =
     (let radix = cap_zombie_cap_get_capZombieBits c in capZombieID c AND MASK (radix + 1))"

definition cap_zombie_cap_get_capZombiePtr :: "cap_t \<Rightarrow> ptr" where
  "cap_zombie_cap_get_capZombiePtr c =
     (let radix = cap_zombie_cap_get_capZombieBits c in capZombieID c AND NOT (MASK (radix + 1)))"

definition cap_zombie_cap_set_capZombieNumber :: "cap_t \<Rightarrow> word_t \<Rightarrow> cap_t" where
  "cap_zombie_cap_set_capZombieNumber c n =
     (let radix = cap_zombie_cap_get_capZombieBits c;
          p = capZombieID c AND NOT (MASK (radix + 1))
      in cap_zombie_cap (p OR (n AND MASK (radix + 1))) (capZombieType c))"

section \<open>Sizes and addresses of the objects behind capabilities\<close>

abbreviation (input) seL4_UntypedObject :: word_t where "seL4_UntypedObject \<equiv> 0"
abbreviation (input) seL4_TCBObject :: word_t where "seL4_TCBObject \<equiv> 1"
abbreviation (input) seL4_EndpointObject :: word_t where "seL4_EndpointObject \<equiv> 2"
abbreviation (input) seL4_NotificationObject :: word_t where "seL4_NotificationObject \<equiv> 3"
abbreviation (input) seL4_CapTableObject :: word_t where "seL4_CapTableObject \<equiv> 4"
abbreviation (input) seL4_NonArchObjectTypeCount :: word_t where "seL4_NonArchObjectTypeCount \<equiv> 5"
abbreviation (input) seL4_ARM_HugePageObject :: word_t where "seL4_ARM_HugePageObject \<equiv> 5"
abbreviation (input) seL4_ARM_VSpaceObject :: word_t where "seL4_ARM_VSpaceObject \<equiv> 6"
abbreviation (input) seL4_ARM_SmallPageObject :: word_t where "seL4_ARM_SmallPageObject \<equiv> 7"
abbreviation (input) seL4_ARM_LargePageObject :: word_t where "seL4_ARM_LargePageObject \<equiv> 8"
abbreviation (input) seL4_ARM_PageTableObject :: word_t where "seL4_ARM_PageTableObject \<equiv> 9"
abbreviation (input) seL4_ObjectTypeCount :: word_t where "seL4_ObjectTypeCount \<equiv> 10"

abbreviation (input) ARMSmallPageBits :: word_t where "ARMSmallPageBits \<equiv> 12"
abbreviation (input) ARMLargePageBits :: word_t where "ARMLargePageBits \<equiv> 21"
abbreviation (input) ARMHugePageBits :: word_t where "ARMHugePageBits \<equiv> 30"

primrec pageBitsForSize :: "vm_page_size_t \<Rightarrow> word_t" where
  "pageBitsForSize ARMSmallPage = ARMSmallPageBits"
| "pageBitsForSize ARMLargePage = ARMLargePageBits"
| "pageBitsForSize ARMHugePage = ARMHugePageBits"

definition Arch_isFrameType :: "word_t \<Rightarrow> bool" where
  "Arch_isFrameType t \<longleftrightarrow>
     t = seL4_ARM_SmallPageObject \<or> t = seL4_ARM_LargePageObject \<or> t = seL4_ARM_HugePageObject"

definition Arch_getObjectSize :: "word_t \<Rightarrow> word_t option" where
  "Arch_getObjectSize t =
     (if t = seL4_ARM_SmallPageObject then Some ARMSmallPageBits
      else if t = seL4_ARM_LargePageObject then Some ARMLargePageBits
      else if t = seL4_ARM_HugePageObject then Some ARMHugePageBits
      else if t = seL4_ARM_PageTableObject then Some seL4_PageTableBits
      else if t = seL4_ARM_VSpaceObject then Some seL4_VSpaceBits
      else None)"

definition getObjectSize :: "word_t \<Rightarrow> word_t \<Rightarrow> word_t option" where
  "getObjectSize t userObjSize =
     (if t \<ge> seL4_NonArchObjectTypeCount then Arch_getObjectSize t
      else if t = seL4_TCBObject then Some seL4_TCBBits
      else if t = seL4_EndpointObject then Some seL4_EndpointBits
      else if t = seL4_NotificationObject then Some seL4_NotificationBits
      else if t = seL4_CapTableObject then Some (seL4_SlotBits + userObjSize)
      else if t = seL4_UntypedObject then Some userObjSize
      else None)"

definition cap_get_archCapSizeBits :: "cap_t \<Rightarrow> word_t" where
  "cap_get_archCapSizeBits c =
     (case c of
        cap_frame_cap _ _ sz _ _ _ \<Rightarrow> pageBitsForSize sz
      | cap_page_table_cap _ _ _ _ \<Rightarrow> seL4_PageTableBits
      | cap_vspace_cap _ _ _ \<Rightarrow> seL4_VSpaceBits
      | cap_asid_pool_cap _ _ \<Rightarrow> seL4_ASIDPoolBits
      | cap_asid_control_cap \<Rightarrow> 0
      | cap_sgi_signal_cap _ _ \<Rightarrow> 0
      | _ \<Rightarrow> 0)"

definition cap_get_archCapIsPhysical :: "cap_t \<Rightarrow> bool" where
  "cap_get_archCapIsPhysical c =
     (case c of
        cap_frame_cap _ _ _ _ _ _ \<Rightarrow> True
      | cap_page_table_cap _ _ _ _ \<Rightarrow> True
      | cap_vspace_cap _ _ _ \<Rightarrow> True
      | cap_asid_pool_cap _ _ \<Rightarrow> True
      | cap_asid_control_cap \<Rightarrow> False
      | cap_sgi_signal_cap _ _ \<Rightarrow> False
      | _ \<Rightarrow> False)"

definition cap_get_archCapPtr :: "cap_t \<Rightarrow> ptr" where
  "cap_get_archCapPtr c =
     (case c of
        cap_frame_cap _ p _ _ _ _ \<Rightarrow> p
      | cap_page_table_cap _ p _ _ \<Rightarrow> p
      | cap_vspace_cap _ p _ \<Rightarrow> p
      | cap_asid_control_cap \<Rightarrow> NULL
      | cap_asid_pool_cap _ p \<Rightarrow> p
      | cap_sgi_signal_cap _ _ \<Rightarrow> NULL
      | _ \<Rightarrow> NULL)"

definition cap_get_capSizeBits :: "cap_t \<Rightarrow> word_t" where
  "cap_get_capSizeBits c =
     (case c of
        cap_untyped_cap _ _ sz _ \<Rightarrow> sz
      | cap_endpoint_cap _ _ _ _ _ _ \<Rightarrow> seL4_EndpointBits
      | cap_notification_cap _ _ _ _ \<Rightarrow> seL4_NotificationBits
      | cap_cnode_cap radix _ _ _ \<Rightarrow> radix + seL4_SlotBits
      | cap_thread_cap _ \<Rightarrow> seL4_TCBBits
      | cap_zombie_cap _ type \<Rightarrow>
          if type = ZombieType_ZombieTCB then seL4_TCBBits
          else ZombieType_ZombieCNode type + seL4_SlotBits
      | cap_null_cap \<Rightarrow> 0
      | cap_domain_cap \<Rightarrow> 0
      | cap_reply_cap _ _ _ \<Rightarrow> 0
      | cap_irq_control_cap \<Rightarrow> 0
      | cap_irq_handler_cap _ \<Rightarrow> 0
      | _ \<Rightarrow> cap_get_archCapSizeBits c)"

definition cap_get_capIsPhysical :: "cap_t \<Rightarrow> bool" where
  "cap_get_capIsPhysical c =
     (case c of
        cap_untyped_cap _ _ _ _ \<Rightarrow> True
      | cap_endpoint_cap _ _ _ _ _ _ \<Rightarrow> True
      | cap_notification_cap _ _ _ _ \<Rightarrow> True
      | cap_cnode_cap _ _ _ _ \<Rightarrow> True
      | cap_thread_cap _ \<Rightarrow> True
      | cap_zombie_cap _ _ \<Rightarrow> True
      | cap_domain_cap \<Rightarrow> False
      | cap_reply_cap _ _ _ \<Rightarrow> False
      | cap_irq_control_cap \<Rightarrow> False
      | cap_irq_handler_cap _ \<Rightarrow> False
      | _ \<Rightarrow> cap_get_archCapIsPhysical c)"

definition cap_get_capPtr :: "cap_t \<Rightarrow> ptr" where
  "cap_get_capPtr c =
     (case c of
        cap_untyped_cap _ _ _ p \<Rightarrow> p
      | cap_endpoint_cap _ _ _ _ _ p \<Rightarrow> p
      | cap_notification_cap _ _ _ p \<Rightarrow> p
      | cap_cnode_cap _ _ _ p \<Rightarrow> p
      | cap_thread_cap p \<Rightarrow> TCB_PTR_CTE_PTR p 0
      | cap_zombie_cap _ _ \<Rightarrow> cap_zombie_cap_get_capZombiePtr c
      | cap_domain_cap \<Rightarrow> NULL
      | cap_reply_cap _ _ _ \<Rightarrow> NULL
      | cap_irq_control_cap \<Rightarrow> NULL
      | cap_irq_handler_cap _ \<Rightarrow> NULL
      | _ \<Rightarrow> cap_get_archCapPtr c)"

section \<open>Same object, same region\<close>

definition Arch_sameRegionAs :: "cap_t \<Rightarrow> cap_t \<Rightarrow> bool" where
  "Arch_sameRegionAs cap_a cap_b =
     (case (cap_a, cap_b) of
        (cap_frame_cap _ botA szA _ _ _, cap_frame_cap _ botB szB _ _ _) \<Rightarrow>
          let topA = botA + MASK (pageBitsForSize szA);
              topB = botB + MASK (pageBitsForSize szB)
          in botA \<le> botB \<and> topA \<ge> topB \<and> botB \<le> topB
      | (cap_page_table_cap _ pA _ _, cap_page_table_cap _ pB _ _) \<Rightarrow> pA = pB
      | (cap_vspace_cap _ pA _, cap_vspace_cap _ pB _) \<Rightarrow> pA = pB
      | (cap_asid_control_cap, cap_asid_control_cap) \<Rightarrow> True
      | (cap_asid_pool_cap _ pA, cap_asid_pool_cap _ pB) \<Rightarrow> pA = pB
      | (cap_sgi_signal_cap irqA tgA, cap_sgi_signal_cap irqB tgB) \<Rightarrow> irqA = irqB \<and> tgA = tgB
      | _ \<Rightarrow> False)"

definition Arch_sameObjectAs :: "cap_t \<Rightarrow> cap_t \<Rightarrow> bool" where
  "Arch_sameObjectAs cap_a cap_b =
     (case (cap_a, cap_b) of
        (cap_frame_cap _ pA szA _ _ devA, cap_frame_cap _ pB szB _ _ devB) \<Rightarrow>
          pA = pB \<and> szA = szB \<and> devA = devB
      | (cap_sgi_signal_cap _ _, _) \<Rightarrow> False
      | _ \<Rightarrow> Arch_sameRegionAs cap_a cap_b)"

definition Arch_isIRQControlDescendant :: "cap_t \<Rightarrow> bool" where
  "Arch_isIRQControlDescendant c \<longleftrightarrow> cap_get_capType c = 27"

definition sameRegionAs :: "cap_t \<Rightarrow> cap_t \<Rightarrow> bool" where
  "sameRegionAs cap_a cap_b =
     (case cap_a of
        cap_untyped_cap _ _ szA aBase \<Rightarrow>
          if cap_get_capIsPhysical cap_b then
            let bBase = cap_get_capPtr cap_b;
                aTop = aBase + MASK szA;
                bTop = bBase + MASK (cap_get_capSizeBits cap_b)
            in aBase \<le> bBase \<and> bTop \<le> aTop \<and> bBase \<le> bTop
          else False
      | cap_endpoint_cap _ _ _ _ _ pA \<Rightarrow>
          (case cap_b of cap_endpoint_cap _ _ _ _ _ pB \<Rightarrow> pA = pB | _ \<Rightarrow> False)
      | cap_notification_cap _ _ _ pA \<Rightarrow>
          (case cap_b of cap_notification_cap _ _ _ pB \<Rightarrow> pA = pB | _ \<Rightarrow> False)
      | cap_cnode_cap radixA _ _ pA \<Rightarrow>
          (case cap_b of cap_cnode_cap radixB _ _ pB \<Rightarrow> pA = pB \<and> radixA = radixB | _ \<Rightarrow> False)
      | cap_thread_cap pA \<Rightarrow> (case cap_b of cap_thread_cap pB \<Rightarrow> pA = pB | _ \<Rightarrow> False)
      | cap_reply_cap _ _ pA \<Rightarrow> (case cap_b of cap_reply_cap _ _ pB \<Rightarrow> pA = pB | _ \<Rightarrow> False)
      | cap_domain_cap \<Rightarrow> cap_b = cap_domain_cap
      | cap_irq_control_cap \<Rightarrow>
          cap_get_capType cap_b = 14 \<or> cap_get_capType cap_b = 16 \<or>
          Arch_isIRQControlDescendant cap_b
      | cap_irq_handler_cap irqA \<Rightarrow>
          (case cap_b of cap_irq_handler_cap irqB \<Rightarrow> irqA = irqB | _ \<Rightarrow> False)
      | _ \<Rightarrow> if isArchCap cap_a \<and> isArchCap cap_b then Arch_sameRegionAs cap_a cap_b else False)"

definition sameObjectAs :: "cap_t \<Rightarrow> cap_t \<Rightarrow> bool" where
  "sameObjectAs cap_a cap_b =
     (if cap_get_capType cap_a = 2 then False
      else if cap_get_capType cap_a = 14 then False
      else if isArchCap cap_a \<and> isArchCap cap_b then Arch_sameObjectAs cap_a cap_b
      else sameRegionAs cap_a cap_b)"

section \<open>Rights and capability data\<close>

record seL4_CapRights_t =
  capAllowGrantReply :: bool
  capAllowGrant :: bool
  capAllowRead :: bool
  capAllowWrite :: bool

definition rightsFromWord :: "word_t \<Rightarrow> seL4_CapRights_t" where
  "rightsFromWord w =
     \<lparr>capAllowGrantReply = bit w 3, capAllowGrant = bit w 2, capAllowRead = bit w 1,
      capAllowWrite = bit w 0\<rparr>"

definition maskVMRights :: "vm_rights_t \<Rightarrow> seL4_CapRights_t \<Rightarrow> vm_rights_t" where
  "maskVMRights vm_rights r =
     (if vm_rights = VMReadOnly \<and> capAllowRead r then VMReadOnly
      else if vm_rights = VMReadWrite \<and> capAllowRead r then
        (if \<not> capAllowWrite r then VMReadOnly else VMReadWrite)
      else VMKernelOnly)"

definition Arch_maskCapRights :: "seL4_CapRights_t \<Rightarrow> cap_t \<Rightarrow> cap_t" where
  "Arch_maskCapRights r c =
     (case c of
        cap_frame_cap asid p sz va vr dev \<Rightarrow> cap_frame_cap asid p sz va (maskVMRights vr r) dev
      | _ \<Rightarrow> c)"

definition maskCapRights :: "seL4_CapRights_t \<Rightarrow> cap_t \<Rightarrow> cap_t" where
  "maskCapRights r c =
     (if isArchCap c then Arch_maskCapRights r c
      else case c of
        cap_endpoint_cap b gr g sd rc p \<Rightarrow>
          cap_endpoint_cap b (gr \<and> capAllowGrantReply r) (g \<and> capAllowGrant r)
            (sd \<and> capAllowWrite r) (rc \<and> capAllowRead r) p
      | cap_notification_cap b rc sd p \<Rightarrow>
          cap_notification_cap b (rc \<and> capAllowRead r) (sd \<and> capAllowWrite r) p
      | cap_reply_cap g m p \<Rightarrow> cap_reply_cap (g \<and> capAllowGrant r) m p
      | _ \<Rightarrow> c)"

definition hasCancelSendRights :: "cap_t \<Rightarrow> bool" where
  "hasCancelSendRights c =
     (case c of
        cap_endpoint_cap _ gr g sd rc _ \<Rightarrow> sd \<and> rc \<and> gr \<and> g
      | _ \<Rightarrow> False)"

definition Arch_updateCapData :: "bool \<Rightarrow> word_t \<Rightarrow> cap_t \<Rightarrow> cap_t" where
  "Arch_updateCapData preserve data c = c"

text \<open>The word \<^verbatim>\<open>seL4_CNode_CapData\<close>: a guard of 58 bits above a guard size of 6 bits.\<close>

definition seL4_CNode_CapData_get_guardSize :: "word_t \<Rightarrow> word_t" where
  "seL4_CNode_CapData_get_guardSize w = w AND MASK 6"

definition seL4_CNode_CapData_get_guard :: "word_t \<Rightarrow> word_t" where
  "seL4_CNode_CapData_get_guard w = shiftr w 6 AND MASK 58"

definition updateCapData :: "bool \<Rightarrow> word_t \<Rightarrow> cap_t \<Rightarrow> cap_t" where
  "updateCapData preserve newData c =
     (if isArchCap c then Arch_updateCapData preserve newData c
      else case c of
        cap_endpoint_cap b gr g sd rc p \<Rightarrow>
          if \<not> preserve \<and> b = 0 then cap_endpoint_cap newData gr g sd rc p else cap_null_cap
      | cap_notification_cap b rc sd p \<Rightarrow>
          if \<not> preserve \<and> b = 0 then cap_notification_cap newData rc sd p else cap_null_cap
      | cap_cnode_cap radix gsz gd p \<Rightarrow>
          let guardSize = seL4_CNode_CapData_get_guardSize newData in
          if guardSize + radix > wordBits then cap_null_cap
          else
            let guard = seL4_CNode_CapData_get_guard newData AND MASK guardSize in
            cap_cnode_cap radix guardSize guard p
      | _ \<Rightarrow> c)"

text \<open>Reading the badge of a capability of another type fails the accessor's assertion.\<close>

definition cap_endpoint_cap_get_capEPBadge :: "cap_t \<Rightarrow> word_t option" where
  "cap_endpoint_cap_get_capEPBadge c =
     (case c of cap_endpoint_cap b _ _ _ _ _ \<Rightarrow> Some b | _ \<Rightarrow> None)"

definition cap_notification_cap_get_capNtfnBadge :: "cap_t \<Rightarrow> word_t option" where
  "cap_notification_cap_get_capNtfnBadge c =
     (case c of cap_notification_cap b _ _ _ \<Rightarrow> Some b | _ \<Rightarrow> None)"

definition Arch_isCapRevocable :: "cap_t \<Rightarrow> cap_t \<Rightarrow> bool" where
  "Arch_isCapRevocable derivedCap srcCap =
     (case derivedCap of cap_sgi_signal_cap _ _ \<Rightarrow> srcCap = cap_irq_control_cap | _ \<Rightarrow> False)"

definition isCapRevocable :: "cap_t \<Rightarrow> cap_t \<Rightarrow> bool option" where
  "isCapRevocable derivedCap srcCap =
     (if isArchCap derivedCap then Some (Arch_isCapRevocable derivedCap srcCap)
      else case derivedCap of
        cap_endpoint_cap b _ _ _ _ _ \<Rightarrow>
          do { b' \<leftarrow> cap_endpoint_cap_get_capEPBadge srcCap; Some (b \<noteq> b') }
      | cap_notification_cap b _ _ _ \<Rightarrow>
          do { b' \<leftarrow> cap_notification_cap_get_capNtfnBadge srcCap; Some (b \<noteq> b') }
      | cap_irq_handler_cap _ \<Rightarrow> Some (srcCap = cap_irq_control_cap)
      | cap_untyped_cap _ _ _ _ \<Rightarrow> Some True
      | _ \<Rightarrow> Some False)"

definition Arch_isMDBParentOf :: "cap_t \<Rightarrow> cap_t \<Rightarrow> bool \<Rightarrow> bool" where
  "Arch_isMDBParentOf cap_a cap_b firstBadged =
     (case cap_a of cap_sgi_signal_cap _ _ \<Rightarrow> \<not> firstBadged | _ \<Rightarrow> True)"

section \<open>Authority\<close>

text \<open>The rights a capability conveys, and the capability without them.\<close>

datatype right = RSend | RReceive | RGrant | RGrantReply | RMapRead | RMapWrite

definition rights_of :: "cap_t \<Rightarrow> right set" where
  "rights_of c =
     (case c of
        cap_endpoint_cap _ gr g sd rc _ \<Rightarrow>
          (if sd then {RSend} else {}) \<union> (if rc then {RReceive} else {}) \<union>
          (if g then {RGrant} else {}) \<union> (if gr then {RGrantReply} else {})
      | cap_notification_cap _ rc sd _ \<Rightarrow>
          (if sd then {RSend} else {}) \<union> (if rc then {RReceive} else {})
      | cap_reply_cap g _ _ \<Rightarrow> (if g then {RGrant} else {})
      | cap_frame_cap _ _ _ _ vr _ \<Rightarrow>
          (case vr of VMKernelOnly \<Rightarrow> {} | VMReadOnly \<Rightarrow> {RMapRead}
           | VMReadWrite \<Rightarrow> {RMapRead, RMapWrite})
      | _ \<Rightarrow> {})"

definition strip_rights :: "cap_t \<Rightarrow> cap_t" where
  "strip_rights c =
     (case c of
        cap_endpoint_cap b _ _ _ _ p \<Rightarrow> cap_endpoint_cap b False False False False p
      | cap_notification_cap b _ _ p \<Rightarrow> cap_notification_cap b False False p
      | cap_reply_cap _ m p \<Rightarrow> cap_reply_cap False m p
      | cap_frame_cap asid p sz va _ dev \<Rightarrow> cap_frame_cap asid p sz va VMKernelOnly dev
      | _ \<Rightarrow> c)"

text \<open>What a rights mask lets through; a frame is writable only when it is readable too.\<close>

definition rights_allowed :: "seL4_CapRights_t \<Rightarrow> right set" where
  "rights_allowed r =
     (if capAllowWrite r then {RSend} else {}) \<union> (if capAllowRead r then {RReceive, RMapRead} else {}) \<union>
     (if capAllowGrant r then {RGrant} else {}) \<union> (if capAllowGrantReply r then {RGrantReply} else {}) \<union>
     (if capAllowRead r \<and> capAllowWrite r then {RMapWrite} else {})"

lemmas cap_cases = cap_t.split vm_rights_t.split

lemma rights_strip_eq: "rights_of c = rights_of d \<Longrightarrow> strip_rights c = strip_rights d \<Longrightarrow> c = d"
  by (cases c; cases d)
     (auto simp: rights_of_def strip_rights_def split: if_splits vm_rights_t.splits)

lemma rights_mask: "rights_of (maskCapRights r c) = rights_of c \<inter> rights_allowed r"
  by (cases c)
     (auto simp: maskCapRights_def Arch_maskCapRights_def isArchCap_def rights_of_def
                 rights_allowed_def maskVMRights_def split: vm_rights_t.splits)

lemma strip_mask: "strip_rights (maskCapRights r c) = strip_rights c"
  by (cases c)
     (auto simp: maskCapRights_def Arch_maskCapRights_def isArchCap_def strip_rights_def)

text \<open>C14: masking a capability with a rights word leaves exactly the rights that the
  capability had and the mask allows (a frame keeps write access only when the mask allows
  reading and writing), and changes nothing else of it.\<close>

theorem maskCapRights_exact:
  "rights_of (maskCapRights r c) = rights_of c \<inter> rights_allowed r \<and>
   strip_rights (maskCapRights r c) = strip_rights c"
  by (simp add: rights_mask strip_mask)

lemma maskCapRights_idem: "maskCapRights r (maskCapRights r c) = maskCapRights r c"
  by (rule rights_strip_eq) (auto simp: rights_mask strip_mask)

lemma maskCapRights_commute:
  "maskCapRights r (maskCapRights r' c) = maskCapRights r' (maskCapRights r c)"
  by (rule rights_strip_eq) (auto simp: rights_mask strip_mask)

section \<open>Regions\<close>

text \<open>The addresses of the object behind a physical capability.\<close>

definition cap_region :: "cap_t \<Rightarrow> ptr set" where
  "cap_region c = {cap_get_capPtr c .. cap_get_capPtr c + MASK (cap_get_capSizeBits c)}"

lemma sameRegionAs_untyped:
  "sameRegionAs (cap_untyped_cap idx dev sz p) c \<longleftrightarrow>
   cap_get_capIsPhysical c \<and> cap_region c \<noteq> {} \<and>
   cap_region c \<subseteq> cap_region (cap_untyped_cap idx dev sz p)"
  by (auto simp: sameRegionAs_def cap_region_def cap_get_capSizeBits_def [of "cap_untyped_cap _ _ _ _"]
                 cap_get_capPtr_def [of "cap_untyped_cap _ _ _ _"] Let_def)

text \<open>The object a capability names, for the capabilities that \<open>sameObjectAs\<close> can identify.\<close>

datatype object_id =
    OEndpoint ptr | ONotification ptr | OCNode ptr word_t | OThread ptr | OReply ptr | ODomain
  | OIRQ word_t | OFrame ptr vm_page_size_t bool | OPageTable ptr | OVSpace ptr | OASIDControl
  | OASIDPool ptr

definition cap_object :: "cap_t \<Rightarrow> object_id option" where
  "cap_object c =
     (case c of
        cap_endpoint_cap _ _ _ _ _ p \<Rightarrow> Some (OEndpoint p)
      | cap_notification_cap _ _ _ p \<Rightarrow> Some (ONotification p)
      | cap_cnode_cap radix _ _ p \<Rightarrow> Some (OCNode p radix)
      | cap_thread_cap p \<Rightarrow> Some (OThread p)
      | cap_reply_cap _ _ p \<Rightarrow> Some (OReply p)
      | cap_domain_cap \<Rightarrow> Some ODomain
      | cap_irq_handler_cap irq \<Rightarrow> Some (OIRQ irq)
      | cap_frame_cap _ p sz _ _ dev \<Rightarrow> Some (OFrame p sz dev)
      | cap_page_table_cap _ p _ _ \<Rightarrow> Some (OPageTable p)
      | cap_vspace_cap _ p _ \<Rightarrow> Some (OVSpace p)
      | cap_asid_control_cap \<Rightarrow> Some OASIDControl
      | cap_asid_pool_cap _ p \<Rightarrow> Some (OASIDPool p)
      | _ \<Rightarrow> None)"

lemma sameObjectAs_object: "sameObjectAs a b \<longleftrightarrow> cap_object a \<noteq> None \<and> cap_object a = cap_object b"
proof (cases "isArchCap a")
  case True
  then show ?thesis
    by (cases a; simp add: isArchCap_def sameObjectAs_def; cases b)
       (auto simp: sameRegionAs_def Arch_sameObjectAs_def Arch_sameRegionAs_def isArchCap_def
                   cap_object_def)
next
  case False
  then show ?thesis
    by (cases a; simp add: isArchCap_def sameObjectAs_def sameRegionAs_def cap_object_def; cases b)
       (auto simp: isArchCap_def)
qed

text \<open>C16: two capabilities are the same object exactly when they name one object of one kind
  (for a CNode with the same radix, for a frame with the same size and device flag). Untyped,
  IRQ control, zombie, SGI and null capabilities are never the same object as another.\<close>

theorem sameObjectAs_iff_object:
  "sameObjectAs a b \<longleftrightarrow> (\<exists>obj. cap_object a = Some obj \<and> cap_object b = Some obj)"
  by (auto simp: sameObjectAs_object)

text \<open>C15: an untyped capability covers another exactly when the other is backed by memory, its
  region does not wrap around the address space, and the region lies within the untyped's.\<close>

theorem untyped_sameRegionAs_iff_contains:
  "sameRegionAs (cap_untyped_cap idx dev sz p) c \<longleftrightarrow>
   cap_get_capIsPhysical c \<and> cap_region c \<noteq> {} \<and>
   cap_region c \<subseteq> cap_region (cap_untyped_cap idx dev sz p)"
  by (rule sameRegionAs_untyped)

lemma sameObjectAs_sym: "sameObjectAs a b \<Longrightarrow> sameObjectAs b a"
  by (metis sameObjectAs_object)

lemma sameObjectAs_trans: "sameObjectAs a b \<Longrightarrow> sameObjectAs b c \<Longrightarrow> sameObjectAs a c"
  by (metis sameObjectAs_object)

text \<open>Every pair of capabilities to one object is in one region, except SGI signal
  capabilities, whose objects are never shared.\<close>

lemma sameObjectAs_sameRegionAs:
  assumes "sameObjectAs a b" and "cap_region b \<noteq> {}"
  shows "sameRegionAs a b"
  using assms
  by (cases a; simp add: sameObjectAs_def isArchCap_def; cases b)
     (auto simp: sameRegionAs_def isArchCap_def Arch_sameObjectAs_def Arch_sameRegionAs_def
                 cap_region_def cap_get_capPtr_def cap_get_archCapPtr_def cap_get_capSizeBits_def
                 cap_get_archCapSizeBits_def)

section \<open>Updating capability data\<close>

lemma updateCapData_cases:
  "updateCapData preserve d c = cap_null_cap \<or>
   (sameObjectAs c (updateCapData preserve d c) \<or> updateCapData preserve d c = c) \<and>
   rights_of (updateCapData preserve d c) = rights_of c"
  by (cases c)
     (auto simp: updateCapData_def Arch_updateCapData_def isArchCap_def sameObjectAs_object
                 cap_object_def rights_of_def Let_def)

text \<open>Updating the data of a capability never yields more authority: the result is the null
  capability or a capability with the same rights to the same object; a badge that is set is
  never replaced; and the guard of a CNode capability fits in its size, with guard and radix
  together within a word.\<close>

theorem updateCapData_sound:
  "(updateCapData preserve d c = cap_null_cap \<or>
    (sameObjectAs c (updateCapData preserve d c) \<or> updateCapData preserve d c = c) \<and>
    rights_of (updateCapData preserve d c) = rights_of c) \<and>
   updateCapData preserve d (cap_endpoint_cap b gr g sd rc p) =
     (if \<not> preserve \<and> b = 0 then cap_endpoint_cap d gr g sd rc p else cap_null_cap) \<and>
   updateCapData preserve d (cap_notification_cap b rc sd p) =
     (if \<not> preserve \<and> b = 0 then cap_notification_cap d rc sd p else cap_null_cap) \<and>
   (case updateCapData preserve d (cap_cnode_cap rx gs gd p) of
      cap_cnode_cap rx' gs' gd' p' \<Rightarrow>
        rx' = rx \<and> p' = p \<and> gs' = d AND MASK 6 \<and> gs' + rx \<le> wordBits \<and> gd' = gd' AND MASK gs'
    | cap_null_cap \<Rightarrow> (d AND MASK 6) + rx > wordBits
    | _ \<Rightarrow> False)"
  by (intro conjI updateCapData_cases)
     (auto simp: updateCapData_def isArchCap_def Let_def word_bw_assocs
                 seL4_CNode_CapData_get_guardSize_def)

section \<open>The zombie word\<close>

text \<open>The bits of the zombie word that hold the count of slots left: one more than the radix.\<close>

definition zombie_bits :: "word_t \<Rightarrow> word_t" where
  "zombie_bits type = (if type = ZombieType_ZombieTCB then TCB_CNODE_RADIX + 1 else type + 1)"

lemma zombie_bits_get:
  "type = ZombieType_ZombieTCB \<or> type < 64 \<Longrightarrow>
   cap_zombie_cap_get_capZombieBits (cap_zombie_cap w type) + 1 = zombie_bits type"
proof -
  assume "type = ZombieType_ZombieTCB \<or> type < 64"
  moreover have "type AND MASK wordRadix = type" if "type < 64"
  proof -
    from that have "unat type < 64" by (simp add: word_less_nat_alt)
    then have "unat (type AND MASK wordRadix) = unat type" by (simp add: unat_and_MASK)
    then show ?thesis by (simp add: word_unat_eq_iff)
  qed
  ultimately show ?thesis
    by (auto simp: cap_zombie_cap_get_capZombieBits_def ZombieType_ZombieCNode_def
                   zombie_bits_def Let_def)
qed

lemma pack_low: "((p AND NOT m) OR (n AND m)) AND m = n AND (m :: 'a::len word)"
  by (simp add: bit_eq_iff bit_simps) blast

lemma pack_high: "((p AND NOT m) OR (n AND m)) AND NOT m = p AND NOT (m :: 'a::len word)"
  by (simp add: bit_eq_iff bit_simps) blast

text \<open>A zombie packs the address of the dead object and the number of its slots that are
  still to be cleared into one word: both are read back, and storing a new number keeps the
  address, for a dead TCB and for a dead CNode of any radix.\<close>

theorem zombie_roundtrip:
  assumes "type = ZombieType_ZombieTCB \<or> type < 64"
    and "n AND MASK (zombie_bits type) = n" and "m AND MASK (zombie_bits type) = m"
    and "p AND MASK (zombie_bits type) = 0"
  shows "cap_zombie_cap_get_capZombieNumber (Zombie_new n type p) = n \<and>
         cap_zombie_cap_get_capZombiePtr (Zombie_new n type p) = p \<and>
         cap_zombie_cap_set_capZombieNumber (Zombie_new n type p) m = Zombie_new m type p"
proof -
  from assms(4) have p: "p AND NOT (MASK (zombie_bits type)) = p"
    by (metis bit.conj_disj_distrib bit.disj_cancel_right or.left_neutral word_and_max)
  have z: "Zombie_new k type p =
      cap_zombie_cap ((p AND NOT (MASK (zombie_bits type))) OR (k AND MASK (zombie_bits type))) type" for k
    by (simp add: Zombie_new_def zombie_bits_def Let_def)
  note b = zombie_bits_get [OF assms(1)]
  have "cap_zombie_cap_get_capZombieNumber (Zombie_new n type p) = n AND MASK (zombie_bits type)"
    by (simp only: z cap_zombie_cap_get_capZombieNumber_def Let_def b cap_t.sel pack_low)
  moreover have "cap_zombie_cap_get_capZombiePtr (Zombie_new n type p) = p AND NOT (MASK (zombie_bits type))"
    by (simp only: z cap_zombie_cap_get_capZombiePtr_def Let_def b cap_t.sel pack_high)
  moreover have "cap_zombie_cap_set_capZombieNumber (Zombie_new n type p) m = Zombie_new m type p"
    by (simp only: z cap_zombie_cap_set_capZombieNumber_def Let_def b cap_t.sel pack_high)
  ultimately show ?thesis by (simp only: assms(2) p simp_thms)
qed

lemma zombie_roundtrip_witness:
  "cap_zombie_cap_get_capZombieNumber (Zombie_new 5 3 0x1000) = 5 \<and>
   cap_zombie_cap_get_capZombiePtr (Zombie_new 5 3 0x1000) = 0x1000 \<and>
   cap_zombie_cap_set_capZombieNumber (Zombie_new 5 3 0x1000) 4 = Zombie_new 4 3 0x1000"
  by (rule zombie_roundtrip) (simp_all add: zombie_bits_def MASK_def BIT_def)

end
