(* ===== verification/CSpace.thy ===== *)
theory CSpace
  imports Cap_Ops
begin

text \<open>
  Capability lookup, \<^verbatim>\<open>src/kernel/cspace.c\<close>: the guarded page-table walk over CNodes
  (\<open>resolveAddressBits\<close>) and the lookups built on it. The walk is shown to refine a
  specification that reads the address as a list of bits, to terminate because every level
  resolves at least one bit, and to return a slot that exists whenever the CNodes that can be
  reached are well formed.
\<close>

section \<open>The operations\<close>

text \<open>A lookup returns its status, the slot found and the number of bits not yet resolved
  (\<^verbatim>\<open>resolveAddressBits_ret_t\<close>).\<close>

record resolve_ret =
  rr_status :: exception_t
  rr_slot :: ptr
  rr_bitsRemaining :: word_t

definition rr_new :: "exception_t \<Rightarrow> ptr \<Rightarrow> word_t \<Rightarrow> resolve_ret" where
  "rr_new st sl br = \<lparr>rr_status = st, rr_slot = sl, rr_bitsRemaining = br\<rparr>"

definition set_lookup_fault :: "lookup_fault_t \<Rightarrow> kstate \<Rightarrow> kstate" where
  "set_lookup_fault f s = s\<lparr>current_lookup_fault := f\<rparr>"

definition set_error_type :: "seL4_Error \<Rightarrow> kstate \<Rightarrow> kstate" where
  "set_error_type e s = s\<lparr>current_syscall_error := (current_syscall_error s)\<lparr>se_type := e\<rparr>\<rparr>"

text \<open>Pointer arithmetic on an array of slots of 32 bytes.\<close>

definition cte_index :: "ptr \<Rightarrow> word_t \<Rightarrow> ptr" where
  "cte_index p i = p + 32 * i"

text \<open>The loop of \<open>resolveAddressBits\<close>; \<open>ret_bits\<close> is \<^verbatim>\<open>ret.bitsRemaining\<close>, which is set to the
  number of bits asked for on entry and which the fault returns leave as it is.\<close>

function resolve_loop ::
  "word_t \<Rightarrow> word_t \<Rightarrow> word_t \<Rightarrow> cap_t \<Rightarrow> kstate \<Rightarrow> (resolve_ret \<times> kstate) option" where
  "resolve_loop ret_bits capptr n_bits nodeCap s =
     (let radixBits = capCNodeRadix nodeCap;
          guardBits = capCNodeGuardSize nodeCap;
          levelBits = radixBits + guardBits;
          capGuard = capCNodeGuard nodeCap;
          guard = shiftr capptr ((n_bits - guardBits) AND MASK wordRadix) AND MASK guardBits
      in
      if levelBits = 0 then None
      else if guardBits > n_bits \<or> guard \<noteq> capGuard then
        Some (rr_new EXCEPTION_LOOKUP_FAULT NULL ret_bits,
              set_lookup_fault (lookup_fault_guard_mismatch capGuard n_bits guardBits) s)
      else if levelBits > n_bits then
        Some (rr_new EXCEPTION_LOOKUP_FAULT NULL ret_bits,
              set_lookup_fault (lookup_fault_depth_mismatch levelBits n_bits) s)
      else
        let offset = shiftr capptr (n_bits - levelBits) AND MASK radixBits;
            slot = cte_index (capCNodePtr nodeCap) offset
        in
        if n_bits = levelBits then Some (rr_new EXCEPTION_NONE slot 0, s)
        else
          (case ctes s slot of
             None \<Rightarrow> None
           | Some cte \<Rightarrow>
               if \<not> is_cnode_cap (cte_cap cte) then
                 Some (rr_new EXCEPTION_NONE slot (n_bits - levelBits), s)
               else resolve_loop ret_bits capptr (n_bits - levelBits) (cte_cap cte) s))"
  by pat_completeness auto

termination
proof (relation "measure (\<lambda>(ret_bits, capptr, n_bits, nodeCap, s). unat n_bits)", goal_cases)
  case 1
  then show ?case by simp
next
  case (2 ret_bits capptr n_bits nodeCap s radixBits guardBits levelBits capGuard guard offset slot cte)
  then have "levelBits \<noteq> 0" and "\<not> n_bits < levelBits" by auto
  then show ?case using word_sub_decreases(2) [of levelBits n_bits] by simp
qed

declare resolve_loop.simps [simp del]

definition resolveAddressBits ::
  "cap_t \<Rightarrow> word_t \<Rightarrow> word_t \<Rightarrow> kstate \<Rightarrow> (resolve_ret \<times> kstate) option" where
  "resolveAddressBits nodeCap capptr n_bits s =
     (if \<not> is_cnode_cap nodeCap then
        Some (rr_new EXCEPTION_LOOKUP_FAULT NULL n_bits, set_lookup_fault lookup_fault_invalid_root s)
      else resolve_loop n_bits capptr n_bits nodeCap s)"

definition lookupSlot :: "ptr \<Rightarrow> word_t \<Rightarrow> kstate \<Rightarrow> ((exception_t \<times> ptr) \<times> kstate) option" where
  "lookupSlot thread capptr s =
     do { root \<leftarrow> ctes s (TCB_PTR_CTE_PTR thread tcbCTable);
          (res, s) \<leftarrow> resolveAddressBits (cte_cap root) capptr wordBits s;
          Some ((rr_status res, rr_slot res), s) }"

definition lookupCap :: "ptr \<Rightarrow> word_t \<Rightarrow> kstate \<Rightarrow> ((exception_t \<times> cap_t) \<times> kstate) option" where
  "lookupCap thread cPtr s =
     do { ((status, slot), s) \<leftarrow> lookupSlot thread cPtr s;
          if status \<noteq> EXCEPTION_NONE then Some ((status, cap_null_cap), s)
          else do { cte \<leftarrow> ctes s slot; Some ((EXCEPTION_NONE, cte_cap cte), s) } }"

definition lookupCapAndSlot ::
  "ptr \<Rightarrow> word_t \<Rightarrow> kstate \<Rightarrow> ((exception_t \<times> ptr \<times> cap_t) \<times> kstate) option" where
  "lookupCapAndSlot thread cPtr s =
     do { ((status, slot), s) \<leftarrow> lookupSlot thread cPtr s;
          if status \<noteq> EXCEPTION_NONE then Some ((status, NULL, cap_null_cap), s)
          else do { cte \<leftarrow> ctes s slot; Some ((EXCEPTION_NONE, slot, cte_cap cte), s) } }"

definition failed_lookup :: "bool \<Rightarrow> kstate \<Rightarrow> kstate" where
  "failed_lookup isSource s =
     s\<lparr>current_syscall_error :=
         (current_syscall_error s)\<lparr>se_type := seL4_FailedLookup, failedLookupWasSource := isSource\<rparr>\<rparr>"

definition range_error :: "word_t \<Rightarrow> word_t \<Rightarrow> kstate \<Rightarrow> kstate" where
  "range_error mn mx s =
     s\<lparr>current_syscall_error :=
         (current_syscall_error s)\<lparr>se_type := seL4_RangeError, rangeErrorMin := mn, rangeErrorMax := mx\<rparr>\<rparr>"

definition lookupSlotForCNodeOp ::
  "bool \<Rightarrow> cap_t \<Rightarrow> word_t \<Rightarrow> word_t \<Rightarrow> kstate \<Rightarrow> ((exception_t \<times> ptr) \<times> kstate) option" where
  "lookupSlotForCNodeOp isSource root capptr depth s =
     (if \<not> is_cnode_cap root then
        Some ((EXCEPTION_SYSCALL_ERROR, NULL),
              set_lookup_fault lookup_fault_invalid_root (failed_lookup isSource s))
      else if depth < 1 \<or> depth > wordBits then
        Some ((EXCEPTION_SYSCALL_ERROR, NULL), range_error 1 wordBits s)
      else
        do { (res, s) \<leftarrow> resolveAddressBits root capptr depth s;
             if rr_status res \<noteq> EXCEPTION_NONE then
               Some ((EXCEPTION_SYSCALL_ERROR, NULL), failed_lookup isSource s)
             else if rr_bitsRemaining res \<noteq> 0 then
               Some ((EXCEPTION_SYSCALL_ERROR, NULL),
                     set_lookup_fault (lookup_fault_depth_mismatch 0 (rr_bitsRemaining res))
                       (failed_lookup isSource s))
             else Some ((EXCEPTION_NONE, rr_slot res), s) })"

definition lookupSourceSlot ::
  "cap_t \<Rightarrow> word_t \<Rightarrow> word_t \<Rightarrow> kstate \<Rightarrow> ((exception_t \<times> ptr) \<times> kstate) option" where
  "lookupSourceSlot = lookupSlotForCNodeOp True"

definition lookupTargetSlot ::
  "cap_t \<Rightarrow> word_t \<Rightarrow> word_t \<Rightarrow> kstate \<Rightarrow> ((exception_t \<times> ptr) \<times> kstate) option" where
  "lookupTargetSlot = lookupSlotForCNodeOp False"

definition lookupPivotSlot ::
  "cap_t \<Rightarrow> word_t \<Rightarrow> word_t \<Rightarrow> kstate \<Rightarrow> ((exception_t \<times> ptr) \<times> kstate) option" where
  "lookupPivotSlot = lookupSlotForCNodeOp True"

section \<open>Addresses as lists of bits\<close>

text \<open>The low \<open>n\<close> bits of a word, the most significant first, and back.\<close>

definition bits_of :: "word_t \<Rightarrow> nat \<Rightarrow> bool list" where
  "bits_of w n = rev (map (bit w) [0..<n])"

definition of_bits :: "bool list \<Rightarrow> word_t" where
  "of_bits bs = horner_sum of_bool 2 (rev bs)"

lemma length_bits_of [simp]: "length (bits_of w n) = n"
  by (simp add: bits_of_def)

lemma of_bits_bits_of: "of_bits (bits_of w n) = take_bit n w"
  by (simp add: bits_of_def of_bits_def horner_sum_bit_eq_take_bit)

lemma nth_bits_of: "i < n \<Longrightarrow> bits_of w n ! i = bit w (n - Suc i)"
  by (simp add: bits_of_def rev_nth)

lemma drop_bits_of: "drop k (bits_of w n) = bits_of w (n - k)"
  by (rule nth_equalityI) (auto simp: nth_bits_of)

lemma take_bits_of: "k \<le> n \<Longrightarrow> take k (bits_of w n) = bits_of (drop_bit (n - k) w) k"
  by (rule nth_equalityI) (auto simp: nth_bits_of bit_simps)

lemma bits_of_eq_iff: "bits_of w n = bits_of v n \<longleftrightarrow> take_bit n w = take_bit n v"
proof
  assume "bits_of w n = bits_of v n"
  then show "take_bit n w = take_bit n v" by (metis of_bits_bits_of)
next
  assume eq: "take_bit n w = take_bit n v"
  show "bits_of w n = bits_of v n"
  proof (rule nth_equalityI)
    show "length (bits_of w n) = length (bits_of v n)" by simp
    fix i assume "i < length (bits_of w n)"
    then have "i < n" by simp
    then have "bit w (n - Suc i) = bit (take_bit n w) (n - Suc i)"
      and "bit v (n - Suc i) = bit (take_bit n v) (n - Suc i)" by (simp_all add: bit_simps)
    with eq \<open>i < n\<close> show "bits_of w n ! i = bits_of v n ! i" by (simp add: nth_bits_of)
  qed
qed

section \<open>Specification of the walk\<close>

text \<open>The guard is a prefix that has to match, the next bits are the index of the slot, the
  rest is resolved by the CNode in that slot.\<close>

datatype lookup_result = LFault lookup_fault_t | LFound ptr nat

function resolve_spec :: "(ptr \<Rightarrow> cte_t option) \<Rightarrow> cap_t \<Rightarrow> bool list \<Rightarrow> lookup_result option" where
  "resolve_spec cs (cap_cnode_cap radix gsize guard base) bs =
     (let r = unat radix; g = unat gsize in
      if r + g = 0 then None
      else if length bs < g \<or> take g bs \<noteq> bits_of guard g then
        Some (LFault (lookup_fault_guard_mismatch guard (of_nat (length bs)) gsize))
      else if length bs < r + g then
        Some (LFault (lookup_fault_depth_mismatch (radix + gsize) (of_nat (length bs))))
      else
        let slot = cte_index base (of_bits (take r (drop g bs)));
            rest = drop (r + g) bs
        in
        if rest = [] then Some (LFound slot 0)
        else
          (case cs slot of
             None \<Rightarrow> None
           | Some cte \<Rightarrow>
               if is_cnode_cap (cte_cap cte) then resolve_spec cs (cte_cap cte) rest
               else Some (LFound slot (length rest))))"
| "\<not> is_cnode_cap c \<Longrightarrow> resolve_spec cs c bs = Some (LFault lookup_fault_invalid_root)"
proof -
  fix P :: bool and x :: "(ptr \<Rightarrow> cte_t option) \<times> cap_t \<times> bool list"
  assume 1: "\<And>cs radix gsize guard base bs. x = (cs, cap_cnode_cap radix gsize guard base, bs) \<Longrightarrow> P"
    and 2: "\<And>c cs bs. \<not> is_cnode_cap c \<Longrightarrow> x = (cs, c, bs) \<Longrightarrow> P"
  obtain cs c bs where x: "x = (cs, c, bs)" by (cases x)
  show P
  proof (cases "is_cnode_cap c")
    case True
    then obtain radix gsize guard base where "c = cap_cnode_cap radix gsize guard base"
      by (cases c) auto
    with 1 x show P by blast
  next
    case False
    with 2 x show P by blast
  qed
qed auto

termination
  by (relation "measure (\<lambda>(cs, c, bs). length bs)") auto

declare resolve_spec.simps [simp del]

text \<open>What a well-formed CNode capability is: at least one bit is resolved, guard and radix fit
  in a word, and the guard fits in its size.\<close>

definition wf_cnode_cap :: "cap_t \<Rightarrow> bool" where
  "wf_cnode_cap c =
     (case c of
        cap_cnode_cap radix gsize guard base \<Rightarrow>
          0 < unat radix + unat gsize \<and> unat radix + unat gsize \<le> 64 \<and>
          unat gsize < 64 \<and> guard AND MASK gsize = guard
      | _ \<Rightarrow> True)"

text \<open>The slots of a CNode exist.\<close>

definition cnode_slots_ok :: "(ptr \<Rightarrow> cte_t option) \<Rightarrow> cap_t \<Rightarrow> bool" where
  "cnode_slots_ok cs c =
     (case c of
        cap_cnode_cap radix gsize guard base \<Rightarrow>
          list_all (\<lambda>i. cs (cte_index base (of_nat i)) \<noteq> None) [0..<2 ^ unat radix]
      | _ \<Rightarrow> True)"

text \<open>Every capability of the state is well formed and the slots of its CNode exist.\<close>

definition cspace_wf :: "kstate \<Rightarrow> bool" where
  "cspace_wf s \<longleftrightarrow>
     (\<forall>p x. ctes s p = Some x \<longrightarrow> wf_cnode_cap (cte_cap x) \<and> cnode_slots_ok (ctes s) (cte_cap x))"

text \<open>How a result of the specification is returned by the code.\<close>

definition result_of :: "word_t \<Rightarrow> kstate \<Rightarrow> lookup_result \<Rightarrow> resolve_ret \<times> kstate" where
  "result_of n s l =
     (case l of
        LFound slot k \<Rightarrow> (rr_new EXCEPTION_NONE slot (of_nat k), s)
      | LFault f \<Rightarrow>
          (rr_new EXCEPTION_LOOKUP_FAULT NULL n,
           set_lookup_fault f s))"

section \<open>The walk refines its specification\<close>

lemma unat_levelBits:
  "unat (radix :: word_t) + unat gs \<le> 64 \<Longrightarrow> unat (radix + gs) = unat radix + unat gs"
  by (subst unat_word_ariths) simp

lemma shift_mask_bits:
  assumes "unat n \<le> 64" and "unat k \<le> unat n" and "unat k < 64"
  shows "shiftr p ((n - k) AND MASK wordRadix) AND MASK k = of_bits (take (unat k) (bits_of p (unat n)))"
proof -
  have sub: "unat (n - k) = unat n - unat k"
    using assms(2) by (simp add: unat_sub word_le_nat_alt)
  have "take_bit (unat k) (shiftr p ((n - k) AND MASK wordRadix)) =
        take_bit (unat k) (drop_bit (unat n - unat k) p)"
  proof (cases "unat n - unat k = 64")
    case True
    with assms have "unat k = 0" by simp
    then show ?thesis by simp
  next
    case False
    with assms sub have "unat ((n - k) AND MASK wordRadix) = unat n - unat k"
      by (simp add: unat_and_MASK)
    then show ?thesis by (simp add: shiftr_def)
  qed
  then show ?thesis
    using assms(2) by (simp add: and_MASK_take_bit take_bits_of of_bits_bits_of)
qed

lemma index_bits:
  assumes "unat lb \<le> unat n" and "unat lb = unat r + g"
  shows "shiftr p (n - lb) AND MASK r = of_bits (take (unat r) (drop g (bits_of p (unat n))))"
proof -
  have "unat (n - lb) = unat n - unat lb"
    using assms(1) by (simp add: unat_sub word_le_nat_alt)
  then show ?thesis
    using assms
    by (simp add: and_MASK_take_bit shiftr_def drop_bits_of take_bits_of of_bits_bits_of diff_diff_left add.commute)
qed

lemma guard_match:
  assumes "unat n \<le> 64" and "unat k \<le> unat n" and "unat k < 64" and "gd AND MASK k = gd"
  shows "shiftr p ((n - k) AND MASK wordRadix) AND MASK k = gd \<longleftrightarrow>
         take (unat k) (bits_of p (unat n)) = bits_of gd (unat k)"
proof -
  from assms(4) have gd: "take_bit (unat k) gd = gd" by (simp add: and_MASK_take_bit)
  from assms(2) have t: "take (unat k) (bits_of p (unat n)) =
      bits_of (drop_bit (unat n - unat k) p) (unat k)" by (simp add: take_bits_of)
  show ?thesis
    by (simp only: shift_mask_bits [OF assms(1-3)] t of_bits_bits_of bits_of_eq_iff gd)
qed

lemma resolve_loop_refines:
  assumes "\<And>p x. ctes s p = Some x \<Longrightarrow> wf_cnode_cap (cte_cap x)"
  shows "is_cnode_cap c \<Longrightarrow> wf_cnode_cap c \<Longrightarrow> unat n \<le> 64 \<Longrightarrow>
    resolve_loop m p n c s = map_option (result_of m s) (resolve_spec (ctes s) c (bits_of p (unat n)))"
proof (induction "unat n" arbitrary: n c rule: less_induct)
  case less
  from less.prems(1) obtain radix gs gd base where c: "c = cap_cnode_cap radix gs gd base"
    by (cases c) auto
  define lb where "lb = radix + gs"
  from less.prems c have wf: "0 < unat radix + unat gs" "unat radix + unat gs \<le> 64" "unat gs < 64"
      "gd AND MASK gs = gd"
    by (simp_all add: wf_cnode_cap_def)
  then have lb: "unat lb = unat radix + unat gs" by (simp add: lb_def unat_levelBits)
  with wf have lb0: "lb \<noteq> 0" by (metis unat_0 less_numeral_extra(3))
  note cmp = word_less_nat_alt word_le_nat_alt
  have neq: "n = lb \<longleftrightarrow> unat n = unat radix + unat gs" by (simp add: word_unat_eq_iff lb)
  show ?case
  proof (cases "unat gs \<le> unat n \<and> take (unat gs) (bits_of p (unat n)) = bits_of gd (unat gs)")
    case False
    then have "gs > n \<or> shiftr p ((n - gs) AND MASK wordRadix) AND MASK gs \<noteq> gd"
      using guard_match [OF less.prems(3) _ wf(3,4), of p] by (auto simp: cmp)
    with lb0 have "resolve_loop m p n c s = Some (result_of m s (LFault (lookup_fault_guard_mismatch gd n gs)))"
      by (subst resolve_loop.simps, simp add: c Let_def result_of_def lb_def [symmetric])
    moreover from False wf have "resolve_spec (ctes s) c (bits_of p (unat n)) =
        Some (LFault (lookup_fault_guard_mismatch gd n gs))"
      by (subst c, subst resolve_spec.simps(1), simp add: Let_def not_le)
    ultimately show ?thesis by simp
  next
    case match: True
    then have g: "\<not> (gs > n \<or> shiftr p ((n - gs) AND MASK wordRadix) AND MASK gs \<noteq> gd)"
      using guard_match [OF less.prems(3) _ wf(3,4), of p] by (auto simp: cmp)
    show ?thesis
    proof (cases "unat n < unat lb")
      case True
      with g lb0 have "resolve_loop m p n c s = Some (result_of m s (LFault (lookup_fault_depth_mismatch lb n)))"
        by (subst resolve_loop.simps, simp add: c Let_def result_of_def lb_def [symmetric] cmp)
      moreover from match True wf lb have "resolve_spec (ctes s) c (bits_of p (unat n)) =
          Some (LFault (lookup_fault_depth_mismatch lb n))"
        by (subst c, subst resolve_spec.simps(1), simp add: Let_def not_le lb_def)
      ultimately show ?thesis by simp
    next
      case ge: False
      let ?slot = "cte_index base (shiftr p (n - lb) AND MASK radix)"
      have idx: "?slot = cte_index base (of_bits (take (unat radix) (drop (unat gs) (bits_of p (unat n)))))"
        using ge lb by (subst index_bits [where g = "unat gs"]) auto
      have sub: "unat (n - lb) = unat n - unat lb" "n \<noteq> lb \<Longrightarrow> unat (n - lb) < unat n"
        using ge lb0 word_sub_decreases [of lb n] by (auto simp: cmp)
      have rest: "drop (unat radix + unat gs) (bits_of p (unat n)) = bits_of p (unat (n - lb))"
        by (simp add: drop_bits_of sub lb)
      have empty: "bits_of p (unat (n - lb)) = [] \<longleftrightarrow> n = lb"
      proof -
        have "bits_of p (unat (n - lb)) = [] \<longleftrightarrow> unat (n - lb) = 0" by (metis length_0_conv length_bits_of)
        with ge lb neq sub(1) show ?thesis by auto
      qed
      have IH: "resolve_loop m p (n - lb) c' s =
          map_option (result_of m s) (resolve_spec (ctes s) c' (bits_of p (unat (n - lb))))"
        if "n \<noteq> lb" "is_cnode_cap c'" "wf_cnode_cap c'" for c'
        using less.hyps [of "n - lb" c'] that sub less.prems(3) by simp
      have ge': "\<not> n < lb" using ge by (simp add: cmp)
      have code: "resolve_loop m p n c s =
          (if n = lb then Some (rr_new EXCEPTION_NONE ?slot 0, s)
           else case ctes s ?slot of None \<Rightarrow> None
             | Some cte \<Rightarrow>
                 if \<not> is_cnode_cap (cte_cap cte) then Some (rr_new EXCEPTION_NONE ?slot (n - lb), s)
                 else resolve_loop m p (n - lb) (cte_cap cte) s)"
        using g lb0 ge' c
        by (subst resolve_loop.simps) (simp add: Let_def lb_def [symmetric] cong: option.case_cong if_cong)
      have spec: "resolve_spec (ctes s) c (bits_of p (unat n)) =
          (if n = lb then Some (LFound ?slot 0)
           else case ctes s ?slot of None \<Rightarrow> None
             | Some cte \<Rightarrow>
                 if is_cnode_cap (cte_cap cte)
                 then resolve_spec (ctes s) (cte_cap cte) (bits_of p (unat (n - lb)))
                 else Some (LFound ?slot (unat (n - lb))))"
      proof -
        from match ge lb wf have "(unat radix + unat gs = 0) = False"
          and "(unat n < unat gs \<or> take (unat gs) (bits_of p (unat n)) \<noteq> bits_of gd (unat gs)) = False"
          and "(unat n < unat radix + unat gs) = False"
          by auto
        note conds = this
        show ?thesis
          by (subst c, subst resolve_spec.simps(1))
             (simp only: Let_def length_bits_of conds if_False rest empty idx [symmetric])
      qed
      show ?thesis
        unfolding code spec
        using IH assms
        by (auto simp: result_of_def split: option.splits)
    qed
  qed
qed

lemma resolveAddressBits_spec:
  assumes "cspace_wf s" and "wf_cnode_cap root" and "unat n \<le> 64"
  shows "resolveAddressBits root p n s =
         map_option (result_of n s) (resolve_spec (ctes s) root (bits_of p (unat n)))"
proof (cases "is_cnode_cap root")
  case True
  with assms show ?thesis
    by (auto simp: resolveAddressBits_def cspace_wf_def intro!: resolve_loop_refines)
next
  case False
  then show ?thesis
    by (simp add: resolveAddressBits_def resolve_spec.simps(2) result_of_def)
qed

text \<open>A root CNode of four slots whose slot 1 holds a CNode of two slots behind the guard 1.\<close>

definition example_cnodes :: "ptr \<Rightarrow> cte_t option" where
  "example_cnodes =
     (\<lambda>p. if p = 0x1020
          then Some \<lparr>cte_cap = cap_cnode_cap 1 1 1 0x2000, cteMDBNode = nullMDBNode\<rparr>
          else if p \<in> {0x1000, 0x1040, 0x1060, 0x2000, 0x2020}
          then Some \<lparr>cte_cap = cap_null_cap, cteMDBNode = nullMDBNode\<rparr> else None)"

lemma example_cnodes_wf: "cspace_wf (blank_state\<lparr>ctes := example_cnodes\<rparr>)"
  by (auto simp: cspace_wf_def example_cnodes_def wf_cnode_cap_def cnode_slots_ok_def MASK_def
                 BIT_def cte_index_def blank_state_def upt_rec numeral_2_eq_2 split: if_splits)

section \<open>Lookups always return\<close>

lemma index_bound:
  "r + g \<le> n \<Longrightarrow> unat (of_bits (take r (drop g (bits_of p n)))) < 2 ^ r"
  by (simp add: drop_bits_of take_bits_of of_bits_bits_of unsigned_take_bit_eq)

lemma cnode_slot_exists:
  assumes "cnode_slots_ok cs (cap_cnode_cap radix gs gd base)" and "unat i < 2 ^ unat radix"
  shows "cs (cte_index base i) \<noteq> None"
proof -
  from assms(1) have "\<forall>k < 2 ^ unat radix. cs (cte_index base (of_nat k)) \<noteq> None"
    by (auto simp: cnode_slots_ok_def list_all_iff)
  with assms(2) have "cs (cte_index base (of_nat (unat i))) \<noteq> None" by blast
  then show ?thesis by simp
qed

lemma resolve_spec_total:
  assumes wf: "\<And>q x. cs q = Some x \<Longrightarrow> wf_cnode_cap (cte_cap x) \<and> cnode_slots_ok cs (cte_cap x)"
  shows "wf_cnode_cap c \<Longrightarrow> cnode_slots_ok cs c \<Longrightarrow>
    \<exists>l. resolve_spec cs c (bits_of p n) = Some l \<and>
        (\<forall>slot k. l = LFound slot k \<longrightarrow> cs slot \<noteq> None \<and> k < n)"
proof (induction n arbitrary: c rule: less_induct)
  case (less n)
  show ?case
  proof (cases "is_cnode_cap c")
    case False
    then show ?thesis by (simp add: resolve_spec.simps(2))
  next
    case True
    then obtain radix gs gd base where c: "c = cap_cnode_cap radix gs gd base" by (cases c) auto
    let ?r = "unat radix" and ?g = "unat gs"
    let ?slot = "cte_index base (of_bits (take ?r (drop ?g (bits_of p n))))"
    from less.prems c have pos: "0 < ?r + ?g" by (simp add: wf_cnode_cap_def)
    show ?thesis
    proof (cases "n < ?g \<or> take ?g (bits_of p n) \<noteq> bits_of gd ?g \<or> n < ?r + ?g")
      case True
      with pos show ?thesis
        by (subst c, subst resolve_spec.simps(1)) (auto simp: Let_def)
    next
      case False
      then have le: "?r + ?g \<le> n" by simp
      with less.prems c cnode_slot_exists index_bound have slot: "cs ?slot \<noteq> None" by blast
      from False pos have spec: "resolve_spec cs c (bits_of p n) =
          (if bits_of p (n - (?r + ?g)) = [] then Some (LFound ?slot 0)
           else case cs ?slot of None \<Rightarrow> None
             | Some cte \<Rightarrow> if is_cnode_cap (cte_cap cte)
                 then resolve_spec cs (cte_cap cte) (bits_of p (n - (?r + ?g)))
                 else Some (LFound ?slot (length (bits_of p (n - (?r + ?g))))))"
      proof -
        from pos False have "(?r + ?g = 0) = False"
          and "(n < ?g \<or> take ?g (bits_of p n) \<noteq> bits_of gd ?g) = False"
          and "(n < ?r + ?g) = False" by auto
        note conds = this
        show ?thesis
          by (subst c, subst resolve_spec.simps(1))
             (simp only: Let_def length_bits_of drop_bits_of conds if_False)
      qed
      from slot obtain x where x: "cs ?slot = Some x" by blast
      have lt: "n - (?r + ?g) < n" using pos le by linarith
      have "\<exists>l. resolve_spec cs (cte_cap x) (bits_of p (n - (?r + ?g))) = Some l \<and>
          (\<forall>slot k. l = LFound slot k \<longrightarrow> cs slot \<noteq> None \<and> k < n - (?r + ?g))"
        using wf [OF x] by (intro less.IH [OF lt]) auto
      moreover have "\<forall>k. k < n - (?r + ?g) \<longrightarrow> k < n" by auto
      ultimately show ?thesis using x spec pos le by (auto split: if_splits)
    qed
  qed
qed

lemma resolveAddressBits_total:
  assumes wf: "cspace_wf s" and root: "wf_cnode_cap c" "cnode_slots_ok (ctes s) c"
    and n: "unat n \<le> 64"
  obtains l where "resolveAddressBits c p n s = Some (result_of n s l)"
    and "\<And>slot k. l = LFound slot k \<Longrightarrow> ctes s slot \<noteq> None \<and> k < unat n"
proof -
  from wf resolve_spec_total [OF _ root, where n = "unat n" and p = p]
  obtain l where l: "resolve_spec (ctes s) c (bits_of p (unat n)) = Some l"
      "\<forall>slot k. l = LFound slot k \<longrightarrow> ctes s slot \<noteq> None \<and> k < unat n"
    unfolding cspace_wf_def by blast
  from l(1) resolveAddressBits_spec [OF wf root(1) n, of p]
  have "resolveAddressBits c p n s = Some (result_of n s l)" by simp
  with l(2) that show ?thesis by blast
qed

text \<open>C5: on a capability space whose CNode capabilities are well formed and whose CNodes have all
  their slots, \<open>resolveAddressBits\<close> returns what the specification on bit lists gives, and that is
  always a slot or a fault: guards are matched as prefixes, the next radix bits index the slot,
  and the walk goes on with the remaining bits. A slot found exists and comes with the number of
  bits left over; a fault says how many bits were left at the level that failed, while the number
  of bits returned with it is the number asked for.\<close>

theorem resolveAddressBits_refines:
  assumes "cspace_wf s" and "wf_cnode_cap root" and "cnode_slots_ok (ctes s) root" and "unat n \<le> 64"
  shows "\<exists>l. resolve_spec (ctes s) root (bits_of p (unat n)) = Some l \<and>
     resolveAddressBits root p n s = Some (result_of n s l) \<and>
     (\<forall>slot k. l = LFound slot k \<longrightarrow> ctes s slot \<noteq> None \<and> k < unat n)"
  using resolveAddressBits_spec [OF assms(1,2,4), of p] resolve_spec_total [OF _ assms(2,3), where n = "unat n" and p = p] assms(1)
  unfolding cspace_wf_def by fastforce

lemma example_root: "wf_cnode_cap (cap_cnode_cap 2 0 0 0x1000)"
  "cnode_slots_ok (ctes (blank_state\<lparr>ctes := example_cnodes\<rparr>)) (cap_cnode_cap 2 0 0 0x1000)"
  by (simp_all add: wf_cnode_cap_def cnode_slots_ok_def example_cnodes_def cte_index_def upt_rec)

text \<open>The four bits 0111 lead through slot 1 of the root and, behind the guard 1, to slot 1 of the
  CNode in it; the four bits 0101 fail at the second level, with two of the four bits left.\<close>

lemma example_resolve:
  "resolve_spec example_cnodes (cap_cnode_cap 2 0 0 0x1000) (bits_of 7 4) = Some (LFound 0x2020 0)"
  "resolve_spec example_cnodes (cap_cnode_cap 2 0 0 0x1000) (bits_of 5 4) =
     Some (LFault (lookup_fault_guard_mismatch 1 2 1))"
  "resolve_spec example_cnodes (cap_cnode_cap 2 0 0 0x1000) (bits_of 0 64) = Some (LFound 0x1000 62)"
  by (code_simp)+

lemma resolveAddressBits_refines_witness:
  "resolveAddressBits (cap_cnode_cap 2 0 0 0x1000) 7 4 (blank_state\<lparr>ctes := example_cnodes\<rparr>) =
     Some (rr_new EXCEPTION_NONE 0x2020 0, blank_state\<lparr>ctes := example_cnodes\<rparr>) \<and>
   resolveAddressBits (cap_cnode_cap 2 0 0 0x1000) 5 4 (blank_state\<lparr>ctes := example_cnodes\<rparr>) =
     Some (rr_new EXCEPTION_LOOKUP_FAULT NULL 4,
       blank_state\<lparr>ctes := example_cnodes, current_lookup_fault := lookup_fault_guard_mismatch 1 2 1\<rparr>)"
proof -
  have "unat (4 :: word_t) \<le> 64" "ctes (blank_state\<lparr>ctes := example_cnodes\<rparr>) = example_cnodes"
    by simp_all
  with resolveAddressBits_refines [OF example_cnodes_wf example_root, of 4 7]
    resolveAddressBits_refines [OF example_cnodes_wf example_root, of 4 5] example_resolve
  show ?thesis by (simp add: result_of_def set_lookup_fault_def blank_state_def)
qed

text \<open>What a CNode operation makes of the result of a walk: a fault, or bits that are left over, is
  reported as a failed lookup for the side asked for, with the reason in the lookup fault.\<close>

definition cnode_op_result :: "bool \<Rightarrow> kstate \<Rightarrow> lookup_result \<Rightarrow> (exception_t \<times> ptr) \<times> kstate" where
  "cnode_op_result isSource s l =
     (let failed = (\<lambda>f. ((EXCEPTION_SYSCALL_ERROR, NULL),
        s\<lparr>current_syscall_error := (current_syscall_error s)\<lparr>se_type := seL4_FailedLookup,
            failedLookupWasSource := isSource\<rparr>, current_lookup_fault := f\<rparr>))
      in case l of
           LFault f \<Rightarrow> failed f
         | LFound slot k \<Rightarrow>
             if k = 0 then ((EXCEPTION_NONE, slot), s) else failed (lookup_fault_depth_mismatch 0 (of_nat k)))"

text \<open>C6: on a well-formed capability space a CNode operation's slot lookup always returns, and its
  result is this one: for a root that is no CNode a failed lookup with an invalid root; for a
  depth outside 1..64 the range error 1..64; otherwise what the walk over the \<open>d\<close> low bits of the
  address gives: exactly when it ends on a slot with no bit left over, that slot, which exists,
  and an unchanged state; else the \<open>NULL\<close> slot and a failed lookup for the side asked for, whose
  lookup fault is that of the walk or the number of bits left over. Nothing else is changed.\<close>

theorem lookupSlotForCNodeOp_total:
  assumes "cspace_wf s" and "wf_cnode_cap c" and "cnode_slots_ok (ctes s) c"
  shows "\<exists>l. resolve_spec (ctes s) c (bits_of p (unat d)) = Some l \<and>
     (\<forall>slot k. l = LFound slot k \<longrightarrow> ctes s slot \<noteq> None) \<and>
     lookupSlotForCNodeOp isSource c p d s = Some
       (if is_cnode_cap c \<and> (d = 0 \<or> wordBits < d) then
          ((EXCEPTION_SYSCALL_ERROR, NULL),
           s\<lparr>current_syscall_error := (current_syscall_error s)\<lparr>se_type := seL4_RangeError,
               rangeErrorMin := 1, rangeErrorMax := 64\<rparr>\<rparr>)
        else cnode_op_result isSource s l)"
proof -
  have spec: "\<exists>l. resolve_spec (ctes s) c (bits_of p (unat d)) = Some l \<and>
      (\<forall>slot k. l = LFound slot k \<longrightarrow> ctes s slot \<noteq> None \<and> k < unat d)"
    using resolve_spec_total [OF _ assms(2,3), where n = "unat d" and p = p] assms(1)
    unfolding cspace_wf_def by blast
  then obtain l where l: "resolve_spec (ctes s) c (bits_of p (unat d)) = Some l"
    and fnd: "\<And>slot k. l = LFound slot k \<Longrightarrow> ctes s slot \<noteq> None \<and> k < unat d" by blast
  have zero: "(of_nat k :: word_t) = 0 \<longleftrightarrow> k = 0" if "k < unat d" for k
    using that unsigned_less [where 'a = nat, of d] by (simp add: word_unat_eq_iff unat_of_nat take_bit_nat_eq_self)
  have "lookupSlotForCNodeOp isSource c p d s = Some
       (if is_cnode_cap c \<and> (d = 0 \<or> wordBits < d) then ((EXCEPTION_SYSCALL_ERROR, NULL), range_error 1 wordBits s)
        else cnode_op_result isSource s l)"
  proof (cases "is_cnode_cap c \<and> \<not> (d = 0 \<or> wordBits < d)")
    case False
    with l show ?thesis
      by (auto simp: lookupSlotForCNodeOp_def set_lookup_fault_def failed_lookup_def cnode_op_result_def
          resolve_spec.simps(2) word_less_1)
  next
    case True
    then have "unat d \<le> 64" by (auto simp: word_le_nat_alt not_less)
    then have "resolveAddressBits c p d s = Some (result_of d s l)"
      using resolveAddressBits_spec [OF assms(1,2), of d p] l by simp
    with True fnd zero show ?thesis
      by (cases l) (auto simp: lookupSlotForCNodeOp_def result_of_def rr_new_def set_lookup_fault_def
          failed_lookup_def cnode_op_result_def word_less_1)
  qed
  with l fnd show ?thesis by (auto simp: range_error_def)
qed

text \<open>A slot is found at depth 4; at depth 64 the address 0 ends on a slot with 62 bits left over.\<close>

lemma lookupSlotForCNodeOp_total_witness:
  "lookupSlotForCNodeOp True (cap_cnode_cap 2 0 0 0x1000) 7 4 (blank_state\<lparr>ctes := example_cnodes\<rparr>) =
     Some ((EXCEPTION_NONE, 0x2020), blank_state\<lparr>ctes := example_cnodes\<rparr>) \<and>
   (\<exists>s'. lookupSlotForCNodeOp True (cap_cnode_cap 2 0 0 0x1000) 0 64 (blank_state\<lparr>ctes := example_cnodes\<rparr>) =
     Some ((EXCEPTION_SYSCALL_ERROR, NULL), s') \<and> current_lookup_fault s' = lookup_fault_depth_mismatch 0 62)"
proof -
  have "ctes (blank_state\<lparr>ctes := example_cnodes\<rparr>) = example_cnodes" by simp
  with lookupSlotForCNodeOp_total [OF example_cnodes_wf example_root, of 7 4 True]
    lookupSlotForCNodeOp_total [OF example_cnodes_wf example_root, of 0 64 True] example_resolve
  show ?thesis by (simp add: cnode_op_result_def)
qed

end
