(* ===== verification/MDB.thy ===== *)
theory MDB
  imports CSpace
begin

text \<open>
  The capability derivation list, the structural half of \<^verbatim>\<open>src/object/cnode.c\<close>: inserting,
  moving, swapping and removing slots, and the questions asked of a slot's neighbours. The
  slots of the system are partitioned into doubly linked lists; each operation is shown to act
  on the list of its slot the way its name says and to keep the partition.
\<close>

section \<open>Questions about a slot\<close>

definition isMDBParentOf :: "cte_t \<Rightarrow> cte_t \<Rightarrow> bool" where
  "isMDBParentOf cte_a cte_b =
     (if \<not> mdbRevocable (cteMDBNode cte_a) then False
      else if \<not> sameRegionAs (cte_cap cte_a) (cte_cap cte_b) then False
      else if \<not> Arch_isMDBParentOf (cte_cap cte_a) (cte_cap cte_b)
                 (mdbFirstBadged (cteMDBNode cte_b)) then False
      else (case cte_cap cte_a of
              cap_endpoint_cap badge _ _ _ _ _ \<Rightarrow>
                if badge = 0 then True
                else badge = capEPBadge (cte_cap cte_b) \<and> \<not> mdbFirstBadged (cteMDBNode cte_b)
            | cap_notification_cap badge _ _ _ \<Rightarrow>
                if badge = 0 then True
                else badge = capNtfnBadge (cte_cap cte_b) \<and> \<not> mdbFirstBadged (cteMDBNode cte_b)
            | _ \<Rightarrow> True))"

definition ensureNoChildren :: "ptr \<Rightarrow> kstate \<Rightarrow> (exception_t \<times> kstate) option" where
  "ensureNoChildren slot s =
     do { cte \<leftarrow> ctes s slot;
          if mdbNext (cteMDBNode cte) \<noteq> NULL then
            do { nextc \<leftarrow> ctes s (mdbNext (cteMDBNode cte));
                 if isMDBParentOf cte nextc
                 then Some (EXCEPTION_SYSCALL_ERROR, set_error_type seL4_RevokeFirst s)
                 else Some (EXCEPTION_NONE, s) }
          else Some (EXCEPTION_NONE, s) }"

definition ensureEmptySlot :: "ptr \<Rightarrow> kstate \<Rightarrow> (exception_t \<times> kstate) option" where
  "ensureEmptySlot slot s =
     do { cte \<leftarrow> ctes s slot;
          if cte_cap cte \<noteq> cap_null_cap
          then Some (EXCEPTION_SYSCALL_ERROR, set_error_type seL4_DeleteFirst s)
          else Some (EXCEPTION_NONE, s) }"

definition isFinalCapability :: "ptr \<Rightarrow> kstate \<Rightarrow> bool option" where
  "isFinalCapability slot s =
     do { cte \<leftarrow> ctes s slot;
          prevIsSameObject \<leftarrow>
            (if mdbPrev (cteMDBNode cte) = NULL then Some False
             else do { prevc \<leftarrow> ctes s (mdbPrev (cteMDBNode cte));
                       Some (sameObjectAs (cte_cap prevc) (cte_cap cte)) });
          if prevIsSameObject then Some False
          else if mdbNext (cteMDBNode cte) = NULL then Some True
          else do { nextc \<leftarrow> ctes s (mdbNext (cteMDBNode cte));
                    Some (\<not> sameObjectAs (cte_cap cte) (cte_cap nextc)) } }"

definition slotCapLongRunningDelete :: "ptr \<Rightarrow> kstate \<Rightarrow> bool option" where
  "slotCapLongRunningDelete slot s =
     do { cte \<leftarrow> ctes s slot;
          if cte_cap cte = cap_null_cap then Some False
          else do { final \<leftarrow> isFinalCapability slot s;
                    if \<not> final then Some False
                    else Some (case cte_cap cte of
                        cap_thread_cap _ \<Rightarrow> True
                      | cap_zombie_cap _ _ \<Rightarrow> True
                      | cap_cnode_cap _ _ _ _ \<Rightarrow> True
                      | _ \<Rightarrow> False) } }"

section \<open>Inserting, moving and swapping\<close>

definition MAX_FREE_INDEX :: "word_t \<Rightarrow> word_t" where
  "MAX_FREE_INDEX sizeBits = BIT (sizeBits - seL4_MinUntypedBits)"

definition cap_untyped_cap_set_capFreeIndex :: "word_t \<Rightarrow> cap_t \<Rightarrow> cap_t" where
  "cap_untyped_cap_set_capFreeIndex i c =
     (case c of cap_untyped_cap _ dev sz p \<Rightarrow> cap_untyped_cap i dev sz p | _ \<Rightarrow> c)"

definition setUntypedCapAsFull :: "cap_t \<Rightarrow> cap_t \<Rightarrow> ptr \<Rightarrow> kstate \<Rightarrow> kstate option" where
  "setUntypedCapAsFull srcCap newCap srcSlot s =
     (case (srcCap, newCap) of
        (cap_untyped_cap _ _ srcBits srcPtr, cap_untyped_cap _ _ newBits newPtr) \<Rightarrow>
          if srcPtr = newPtr \<and> newBits = srcBits then
            cte_upd srcSlot
              (\<lambda>x. x\<lparr>cte_cap := cap_untyped_cap_set_capFreeIndex (MAX_FREE_INDEX srcBits) (cte_cap x)\<rparr>) s
          else Some s
      | _ \<Rightarrow> Some s)"

definition cteInsert :: "cap_t \<Rightarrow> ptr \<Rightarrow> ptr \<Rightarrow> kstate \<Rightarrow> kstate option" where
  "cteInsert newCap srcSlot destSlot s =
     do { src \<leftarrow> ctes s srcSlot;
          let srcMDB = cteMDBNode src;
          let srcCap = cte_cap src;
          newCapIsRevocable \<leftarrow> isCapRevocable newCap srcCap;
          let newMDB = srcMDB\<lparr>mdbPrev := srcSlot, mdbRevocable := newCapIsRevocable,
                              mdbFirstBadged := newCapIsRevocable\<rparr>;
          dest \<leftarrow> ctes s destSlot;
          assert_opt (cte_cap dest = cap_null_cap);
          assert_opt (mdbNext (cteMDBNode dest) = NULL \<and> mdbPrev (cteMDBNode dest) = NULL);
          s \<leftarrow> setUntypedCapAsFull srcCap newCap srcSlot s;
          s \<leftarrow> cte_set_cap destSlot newCap s;
          s \<leftarrow> mdb_upd destSlot (\<lambda>_. newMDB) s;
          s \<leftarrow> mdb_upd srcSlot (\<lambda>m. m\<lparr>mdbNext := destSlot\<rparr>) s;
          if mdbNext newMDB \<noteq> NULL
          then mdb_upd (mdbNext newMDB) (\<lambda>m. m\<lparr>mdbPrev := destSlot\<rparr>) s
          else Some s }"

text \<open>\<^verbatim>\<open>if (p) mdb_node_ptr_set_mdbNext(&p->cteMDBNode, v)\<close> and its dual.\<close>

definition mdb_set_next_if :: "ptr \<Rightarrow> ptr \<Rightarrow> kstate \<Rightarrow> kstate option" where
  "mdb_set_next_if p v s = (if p \<noteq> NULL then mdb_upd p (\<lambda>m. m\<lparr>mdbNext := v\<rparr>) s else Some s)"

definition mdb_set_prev_if :: "ptr \<Rightarrow> ptr \<Rightarrow> kstate \<Rightarrow> kstate option" where
  "mdb_set_prev_if p v s = (if p \<noteq> NULL then mdb_upd p (\<lambda>m. m\<lparr>mdbPrev := v\<rparr>) s else Some s)"

definition cteMove :: "cap_t \<Rightarrow> ptr \<Rightarrow> ptr \<Rightarrow> kstate \<Rightarrow> kstate option" where
  "cteMove newCap srcSlot destSlot s =
     do { dest \<leftarrow> ctes s destSlot;
          assert_opt (cte_cap dest = cap_null_cap);
          assert_opt (mdbNext (cteMDBNode dest) = NULL \<and> mdbPrev (cteMDBNode dest) = NULL);
          src \<leftarrow> ctes s srcSlot;
          let mdb = cteMDBNode src;
          s \<leftarrow> cte_set_cap destSlot newCap s;
          s \<leftarrow> cte_set_cap srcSlot cap_null_cap s;
          s \<leftarrow> mdb_upd destSlot (\<lambda>_. mdb) s;
          s \<leftarrow> mdb_upd srcSlot (\<lambda>_. nullMDBNode) s;
          s \<leftarrow> mdb_set_next_if (mdbPrev mdb) destSlot s;
          mdb_set_prev_if (mdbNext mdb) destSlot s }"

definition cteSwap :: "cap_t \<Rightarrow> ptr \<Rightarrow> cap_t \<Rightarrow> ptr \<Rightarrow> kstate \<Rightarrow> kstate option" where
  "cteSwap cap1 slot1 cap2 slot2 s =
     do { s \<leftarrow> cte_set_cap slot1 cap2 s;
          s \<leftarrow> cte_set_cap slot2 cap1 s;
          c1 \<leftarrow> ctes s slot1;
          let mdb1 = cteMDBNode c1;
          s \<leftarrow> mdb_set_next_if (mdbPrev mdb1) slot2 s;
          s \<leftarrow> mdb_set_prev_if (mdbNext mdb1) slot2 s;
          c2 \<leftarrow> ctes s slot2;
          let mdb2 = cteMDBNode c2;
          s \<leftarrow> mdb_upd slot1 (\<lambda>_. mdb2) s;
          s \<leftarrow> mdb_upd slot2 (\<lambda>_. mdb1) s;
          s \<leftarrow> mdb_set_next_if (mdbPrev mdb2) slot1 s;
          mdb_set_prev_if (mdbNext mdb2) slot1 s }"

definition capSwapForDelete :: "ptr \<Rightarrow> ptr \<Rightarrow> kstate \<Rightarrow> kstate option" where
  "capSwapForDelete slot1 slot2 s =
     (if slot1 = slot2 then Some s
      else do { c1 \<leftarrow> ctes s slot1;
                c2 \<leftarrow> ctes s slot2;
                cteSwap (cte_cap c1) slot1 (cte_cap c2) slot2 s })"

definition insertNewCap :: "ptr \<Rightarrow> ptr \<Rightarrow> cap_t \<Rightarrow> kstate \<Rightarrow> kstate option" where
  "insertNewCap parent slot c s =
     do { pc \<leftarrow> ctes s parent;
          let nextp = mdbNext (cteMDBNode pc);
          s \<leftarrow> cte_set_cap slot c s;
          s \<leftarrow> mdb_upd slot (\<lambda>_. mdb_node_new nextp True True parent) s;
          s \<leftarrow> mdb_set_prev_if nextp slot s;
          mdb_upd parent (\<lambda>m. m\<lparr>mdbNext := slot\<rparr>) s }"

definition setupReplyMaster :: "ptr \<Rightarrow> kstate \<Rightarrow> kstate option" where
  "setupReplyMaster thread s =
     (let slot = TCB_PTR_CTE_PTR thread tcbReply in
      do { cte \<leftarrow> ctes s slot;
           if cte_cap cte = cap_null_cap then
             do { s \<leftarrow> cte_set_cap slot (cap_reply_cap True True thread) s;
                  s \<leftarrow> mdb_upd slot (\<lambda>_. nullMDBNode) s;
                  s \<leftarrow> mdb_upd slot (\<lambda>m. m\<lparr>mdbRevocable := True\<rparr>) s;
                  mdb_upd slot (\<lambda>m. m\<lparr>mdbFirstBadged := True\<rparr>) s }
           else Some s })"

section \<open>Emptying a slot\<close>

definition setIRQState :: "irq_state_t \<Rightarrow> word_t \<Rightarrow> kstate \<Rightarrow> kstate" where
  "setIRQState irqState irq s =
     do_machine_op (maskInterrupt (irqState = IRQInactive) irq)
       (s\<lparr>intStateIRQTable := (intStateIRQTable s)(irq := irqState)\<rparr>)"

definition deletedIRQHandler :: "word_t \<Rightarrow> kstate \<Rightarrow> kstate" where
  "deletedIRQHandler irq s = setIRQState IRQInactive irq s"

definition Arch_postCapDeletion :: "cap_t \<Rightarrow> kstate \<Rightarrow> kstate" where
  "Arch_postCapDeletion c s = s"

definition postCapDeletion :: "cap_t \<Rightarrow> kstate \<Rightarrow> kstate" where
  "postCapDeletion c s =
     (case c of
        cap_irq_handler_cap irq \<Rightarrow> deletedIRQHandler irq s
      | _ \<Rightarrow> if isArchCap c then Arch_postCapDeletion c s else s)"

definition emptySlot :: "ptr \<Rightarrow> cap_t \<Rightarrow> kstate \<Rightarrow> kstate option" where
  "emptySlot slot cleanupInfo s =
     do { cte \<leftarrow> ctes s slot;
          if cte_cap cte \<noteq> cap_null_cap then
            do { let mdbNode = cteMDBNode cte;
                 let prevp = mdbPrev mdbNode;
                 let nextp = mdbNext mdbNode;
                 s \<leftarrow> mdb_set_next_if prevp nextp s;
                 s \<leftarrow> mdb_set_prev_if nextp prevp s;
                 s \<leftarrow> (if nextp \<noteq> NULL
                     then mdb_upd nextp
                            (\<lambda>m. m\<lparr>mdbFirstBadged := mdbFirstBadged m \<or> mdbFirstBadged mdbNode\<rparr>) s
                     else Some s);
                 s \<leftarrow> cte_set_cap slot cap_null_cap s;
                 s \<leftarrow> mdb_upd slot (\<lambda>_. nullMDBNode) s;
                 Some (postCapDeletion cleanupInfo s) }
          else Some s }"

section \<open>Link writes\<close>

text \<open>A guarded link write on the heap, the same whether the pointer is \<open>NULL\<close> or not, because
  no slot lives at \<open>NULL\<close>.\<close>

definition set_next_heap :: "ptr \<Rightarrow> ptr \<Rightarrow> (ptr \<Rightarrow> cte_t option) \<Rightarrow> ptr \<Rightarrow> cte_t option" where
  "set_next_heap p v cs q =
     (if q = p then map_option (\<lambda>x. x\<lparr>cteMDBNode := (cteMDBNode x)\<lparr>mdbNext := v\<rparr>\<rparr>) (cs q) else cs q)"

definition set_prev_heap :: "ptr \<Rightarrow> ptr \<Rightarrow> (ptr \<Rightarrow> cte_t option) \<Rightarrow> ptr \<Rightarrow> cte_t option" where
  "set_prev_heap p v cs q =
     (if q = p then map_option (\<lambda>x. x\<lparr>cteMDBNode := (cteMDBNode x)\<lparr>mdbPrev := v\<rparr>\<rparr>) (cs q) else cs q)"

lemma set_next_heap_None [simp]: "set_next_heap p v cs q = None \<longleftrightarrow> cs q = None"
  by (simp add: set_next_heap_def)

lemma set_prev_heap_None [simp]: "set_prev_heap p v cs q = None \<longleftrightarrow> cs q = None"
  by (simp add: set_prev_heap_def)

lemma set_next_heap_Some:
  "cs q = Some x \<Longrightarrow> set_next_heap p v cs q =
     Some (x\<lparr>cteMDBNode := (cteMDBNode x)\<lparr>mdbNext := if q = p then v else mdbNext (cteMDBNode x)\<rparr>\<rparr>)"
  by (auto simp: set_next_heap_def)

lemma set_prev_heap_Some:
  "cs q = Some x \<Longrightarrow> set_prev_heap p v cs q =
     Some (x\<lparr>cteMDBNode := (cteMDBNode x)\<lparr>mdbPrev := if q = p then v else mdbPrev (cteMDBNode x)\<rparr>\<rparr>)"
  by (auto simp: set_prev_heap_def)

lemma mdb_set_next_if_run:
  assumes "ctes s NULL = None" and "p \<noteq> NULL \<longrightarrow> ctes s p \<noteq> None"
  shows "mdb_set_next_if p v s = Some (s\<lparr>ctes := set_next_heap p v (ctes s)\<rparr>)"
proof (cases "p = NULL")
  case True
  with assms have "set_next_heap p v (ctes s) = ctes s" by (auto simp: set_next_heap_def)
  with True show ?thesis by (simp add: mdb_set_next_if_def)
next
  case False
  with assms obtain x where x: "ctes s p = Some x" by blast
  then have "set_next_heap p v (ctes s) = (ctes s)(p \<mapsto> x\<lparr>cteMDBNode := (cteMDBNode x)\<lparr>mdbNext := v\<rparr>\<rparr>)"
    by (auto simp: set_next_heap_def)
  with False x show ?thesis by (simp add: mdb_set_next_if_def kmonad)
qed

lemma mdb_set_prev_if_run:
  assumes "ctes s NULL = None" and "p \<noteq> NULL \<longrightarrow> ctes s p \<noteq> None"
  shows "mdb_set_prev_if p v s = Some (s\<lparr>ctes := set_prev_heap p v (ctes s)\<rparr>)"
proof (cases "p = NULL")
  case True
  with assms have "set_prev_heap p v (ctes s) = ctes s" by (auto simp: set_prev_heap_def)
  with True show ?thesis by (simp add: mdb_set_prev_if_def)
next
  case False
  with assms obtain x where x: "ctes s p = Some x" by blast
  then have "set_prev_heap p v (ctes s) = (ctes s)(p \<mapsto> x\<lparr>cteMDBNode := (cteMDBNode x)\<lparr>mdbPrev := v\<rparr>\<rparr>)"
    by (auto simp: set_prev_heap_def)
  with False x show ?thesis by (simp add: mdb_set_prev_if_def kmonad)
qed

lemma mdb_set_links_run:
  assumes "ctes s NULL = None" and "p \<noteq> NULL \<longrightarrow> ctes s p \<noteq> None" and "n \<noteq> NULL \<longrightarrow> ctes s n \<noteq> None"
  shows "do { s' \<leftarrow> mdb_set_next_if p v s; mdb_set_prev_if n w s' } =
         Some (s\<lparr>ctes := set_prev_heap n w (set_next_heap p v (ctes s))\<rparr>)"
  using assms
  by (simp add: mdb_set_next_if_run)
     (subst mdb_set_prev_if_run; simp add: set_next_heap_def)

section \<open>The partition of the slots into lists\<close>

definition mdb_wf :: "kstate \<Rightarrow> bool" where
  "mdb_wf s \<longleftrightarrow> ctes s NULL = None \<and> chains_wf (mdb_next s) (mdb_prev s) (dom (ctes s))"

abbreviation mdb_list :: "kstate \<Rightarrow> ptr list \<Rightarrow> bool" where
  "mdb_list s \<equiv> dlist (mdb_next s) (mdb_prev s)"

text \<open>The capabilities of a state, without their links.\<close>

definition caps_of :: "kstate \<Rightarrow> ptr \<Rightarrow> cap_t option" where
  "caps_of s p = map_option cte_cap (ctes s p)"

lemma mdb_wf_slot:
  assumes "mdb_wf s" and "ctes s p = Some c"
  obtains ys zs where "mdb_list s (ys @ p # zs)" and "set (ys @ p # zs) \<subseteq> dom (ctes s)"
    and "mdbNext (cteMDBNode c) = first_or NULL zs" and "mdbPrev (cteMDBNode c) = last_or NULL ys"
proof -
  from assms have "p \<in> dom (ctes s)" by auto
  with assms(1) obtain ys zs where d: "mdb_list s (ys @ p # zs)" "set (ys @ p # zs) \<subseteq> dom (ctes s)"
    unfolding mdb_wf_def using chains_wfE [of "mdb_next s" "mdb_prev s" "dom (ctes s)" p] by metis
  from dlist_link_facts(1,2) [OF d(1)] assms(2)
  have "mdbNext (cteMDBNode c) = first_or NULL zs" "mdbPrev (cteMDBNode c) = last_or NULL ys" by auto
  with d that show ?thesis by blast
qed

text \<open>The neighbours of a slot exist, are other slots, and point back.\<close>

lemma mdb_wf_next:
  assumes "mdb_wf s" and "ctes s p = Some c" and "mdbNext (cteMDBNode c) \<noteq> NULL"
  obtains d where "ctes s (mdbNext (cteMDBNode c)) = Some d" and "mdbPrev (cteMDBNode d) = p"
    and "mdbNext (cteMDBNode c) \<noteq> p"
proof -
  from assms obtain ys zs where d: "mdb_list s (ys @ p # zs)" "set (ys @ p # zs) \<subseteq> dom (ctes s)"
    "mdbNext (cteMDBNode c) = first_or NULL zs"
    using mdb_wf_slot [of s p c] by metis
  with assms(3) obtain q zs' where zs: "zs = q # zs'" by (cases zs) auto
  with d obtain e where e: "ctes s q = Some e" by auto
  from d zs e have "mdbPrev (cteMDBNode e) = p" "q \<noteq> p" by (auto simp: dlist_def)
  with e zs d(3) show ?thesis by (intro that [of e]) auto
qed

lemma mdb_wf_prev:
  assumes "mdb_wf s" and "ctes s p = Some c" and "mdbPrev (cteMDBNode c) \<noteq> NULL"
  obtains d where "ctes s (mdbPrev (cteMDBNode c)) = Some d" and "mdbNext (cteMDBNode d) = p"
    and "mdbPrev (cteMDBNode c) \<noteq> p"
proof -
  from assms obtain ys zs where d: "mdb_list s (ys @ p # zs)" "set (ys @ p # zs) \<subseteq> dom (ctes s)"
    "mdbPrev (cteMDBNode c) = last_or NULL ys"
    using mdb_wf_slot [of s p c] by metis
  with assms(3) obtain q ys' where ys: "ys = ys' @ [q]" by (cases ys rule: rev_cases) auto
  with d obtain e where e: "ctes s q = Some e" by auto
  from d ys e have "mdbNext (cteMDBNode e) = p" "q \<noteq> p" by (auto simp: dlist_def)
  with e ys d(3) show ?thesis by (intro that [of e]) auto
qed

lemma mdb_wf_nextD:
  assumes "mdb_wf s" and "ctes s p = Some c" and "mdbNext (cteMDBNode c) \<noteq> NULL"
  shows "\<exists>d. ctes s (mdbNext (cteMDBNode c)) = Some d \<and> mdbPrev (cteMDBNode d) = p \<and>
             mdbNext (cteMDBNode c) \<noteq> p"
  using mdb_wf_next [OF assms] by metis

lemma mdb_wf_prevD:
  assumes "mdb_wf s" and "ctes s p = Some c" and "mdbPrev (cteMDBNode c) \<noteq> NULL"
  shows "\<exists>d. ctes s (mdbPrev (cteMDBNode c)) = Some d \<and> mdbNext (cteMDBNode d) = p \<and>
             mdbPrev (cteMDBNode c) \<noteq> p"
  using mdb_wf_prev [OF assms] by metis

section \<open>Insertion\<close>

text \<open>What insertion makes of the capability in the source slot: an untyped capability of which the
  new one is an equal untyped copy is marked full, any other is left alone. \<open>flags_of\<close> reads the
  two flags of a slot's derivation node.\<close>

definition source_after :: "cap_t \<Rightarrow> cap_t \<Rightarrow> cap_t" where
  "source_after srcCap newCap =
     (case (srcCap, newCap) of
        (cap_untyped_cap i dev sz p, cap_untyped_cap j dev' sz' p') \<Rightarrow>
          if sz' = sz \<and> p' = p then cap_untyped_cap (MAX_FREE_INDEX sz) dev sz p else srcCap
      | _ \<Rightarrow> srcCap)"

definition flags_of :: "kstate \<Rightarrow> ptr \<Rightarrow> (bool \<times> bool) option" where
  "flags_of s p = map_option (\<lambda>x. (mdbRevocable (cteMDBNode x), mdbFirstBadged (cteMDBNode x))) (ctes s p)"

lemma setUntypedCapAsFull_run:
  assumes "ctes s src = Some a"
  shows "setUntypedCapAsFull (cte_cap a) newCap src s =
     Some (s\<lparr>ctes := (ctes s)(src \<mapsto> a\<lparr>cte_cap := source_after (cte_cap a) newCap\<rparr>)\<rparr>)"
proof (cases "\<exists>i dev sz p j dev'. cte_cap a = cap_untyped_cap i dev sz p \<and> newCap = cap_untyped_cap j dev' sz p")
  case True
  with assms show ?thesis
    by (auto simp: setUntypedCapAsFull_def source_after_def cap_untyped_cap_set_capFreeIndex_def kmonad)
next
  case False
  then have "setUntypedCapAsFull (cte_cap a) newCap src s = Some s" "source_after (cte_cap a) newCap = cte_cap a"
    by (auto simp: setUntypedCapAsFull_def source_after_def split: cap_t.split)
  then show ?thesis using assms by (simp add: fun_upd_idem)
qed

lemma setUntypedCapAsFull_Some:
  assumes "ctes s src = Some a"
  obtains a' where "setUntypedCapAsFull (cte_cap a) newCap src s = Some (s\<lparr>ctes := (ctes s)(src \<mapsto> a')\<rparr>)"
    and "cteMDBNode a' = cteMDBNode a" and "cte_cap a' = source_after (cte_cap a) newCap"
  by (rule that [OF setUntypedCapAsFull_run [OF assms]]) simp_all

lemma source_after_cases:
  "source_after c newCap = c \<or>
   (\<exists>i dev sz p j dev'. c = cap_untyped_cap i dev sz p \<and> newCap = cap_untyped_cap j dev' sz p \<and>
      source_after c newCap = cap_untyped_cap (MAX_FREE_INDEX sz) dev sz p)"
  by (auto simp: source_after_def split: cap_t.split)

lemma cteInsert_Some:
  assumes wf: "mdb_wf s" and a: "ctes s src = Some a" and b: "ctes s dest = Some b"
    and ne: "src \<noteq> dest" and empty: "cte_cap b = cap_null_cap"
      "mdbNext (cteMDBNode b) = NULL" "mdbPrev (cteMDBNode b) = NULL"
    and rv: "isCapRevocable newCap (cte_cap a) = Some r"
  obtains h a' where "cteInsert newCap src dest s = Some (s\<lparr>ctes := h\<rparr>)"
    and "h = (\<lambda>p. if p = src then Some (a'\<lparr>cteMDBNode := (cteMDBNode a)\<lparr>mdbNext := dest\<rparr>\<rparr>)
              else if p = dest then
                Some \<lparr>cte_cap = newCap,
                      cteMDBNode = (cteMDBNode a)\<lparr>mdbPrev := src, mdbRevocable := r, mdbFirstBadged := r\<rparr>\<rparr>
              else if p = mdbNext (cteMDBNode a) then
                map_option (\<lambda>x. x\<lparr>cteMDBNode := (cteMDBNode x)\<lparr>mdbPrev := dest\<rparr>\<rparr>) (ctes s p)
              else ctes s p)"
    and "cte_cap a' = source_after (cte_cap a) newCap"
proof -
  obtain a' where u: "setUntypedCapAsFull (cte_cap a) newCap src s = Some (s\<lparr>ctes := (ctes s)(src \<mapsto> a')\<rparr>)"
    "cteMDBNode a' = cteMDBNode a"
    "cte_cap a' = source_after (cte_cap a) newCap"
    using setUntypedCapAsFull_Some [OF a] by metis
  let ?n = "mdbNext (cteMDBNode a)"
  have null: "ctes s NULL = None" using wf by (simp add: mdb_wf_def)
  have run: "cteInsert newCap src dest s = Some (s\<lparr>ctes := h\<rparr>)"
    if "h = (\<lambda>p. if p = src then Some (a'\<lparr>cteMDBNode := (cteMDBNode a)\<lparr>mdbNext := dest\<rparr>\<rparr>)
              else if p = dest then
                Some \<lparr>cte_cap = newCap,
                      cteMDBNode = (cteMDBNode a)\<lparr>mdbPrev := src, mdbRevocable := r, mdbFirstBadged := r\<rparr>\<rparr>
              else if p = ?n then
                map_option (\<lambda>x. x\<lparr>cteMDBNode := (cteMDBNode x)\<lparr>mdbPrev := dest\<rparr>\<rparr>) (ctes s p)
              else ctes s p)" for h
  proof (cases "?n = NULL")
    case True
    with a b ne empty rv u null show ?thesis
      by (simp add: cteInsert_def kmonad Let_def that) (auto simp: fun_eq_iff)
  next
    case False
    with wf a obtain d where d: "ctes s ?n = Some d" "mdbPrev (cteMDBNode d) = src" "?n \<noteq> src"
      using mdb_wf_next [of s src a] by metis
    have nd: "?n \<noteq> dest"
    proof
      assume "?n = dest"
      with d b empty have "src = NULL" by simp
      with a null show False by simp
    qed
    from a b d nd ne empty rv u False show ?thesis
      by (simp add: cteInsert_def kmonad Let_def that) (auto simp: fun_eq_iff)
  qed
  show ?thesis by (rule that [OF run [OF refl] refl u(3)])
qed

text \<open>What an insertion after \<open>src\<close> makes of the links, whichever operation performs it.\<close>

definition links_inserted :: "kstate \<Rightarrow> ptr \<Rightarrow> ptr \<Rightarrow> kstate \<Rightarrow> bool" where
  "links_inserted s src dest s' \<longleftrightarrow>
     dom (ctes s') = dom (ctes s) \<and>
     (\<forall>p \<in> dom (ctes s).
        mdb_next s' p = (if p = src then dest else if p = dest then mdb_next s src else mdb_next s p) \<and>
        mdb_prev s' p = (if p = dest then src else if p = mdb_next s src then dest else mdb_prev s p))"

lemma mdb_list_frame:
  assumes "mdb_list s xs" and "\<And>p. p \<in> set xs \<Longrightarrow> ctes s' p = ctes s p"
  shows "mdb_list s' xs"
proof -
  have "mdb_next s' p = mdb_next s p \<and> mdb_prev s' p = mdb_prev s p" if "p \<in> set xs" for p
    using assms(2) [OF that] by (simp add: link_of_def)
  with assms(1) show ?thesis by (subst dlist_cong [of xs]) auto
qed

lemma unlinked_list:
  assumes "ctes s p = Some c" and "p \<noteq> NULL"
    and "mdbNext (cteMDBNode c) = NULL" and "mdbPrev (cteMDBNode c) = NULL"
  shows "mdb_list s [p]"
  using assms by (simp add: dlist_def)

lemma links_inserted_list:
  assumes wf: "mdb_wf s" and l: "mdb_list s (ys @ src # zs)" "set (ys @ src # zs) \<subseteq> dom (ctes s)"
    and b: "ctes s dest = Some b" "mdbNext (cteMDBNode b) = NULL" "mdbPrev (cteMDBNode b) = NULL"
    and ne: "src \<noteq> dest" and ins: "links_inserted s src dest s'"
  shows "mdb_list s' (ys @ src # dest # zs)" and "mdb_wf s'"
proof -
  have d0: "dest \<noteq> NULL" using wf b by (auto simp: mdb_wf_def)
  note ul = unlinked_list [OF b(1) d0 b(2,3)]
  have fresh: "dest \<notin> set (ys @ src # zs)"
  proof
    assume "dest \<in> set (ys @ src # zs)"
    then have "[dest] = ys @ src # zs" using dlist_unique [OF ul l(1)] by auto
    with ne show False by (cases ys) auto
  qed
  show new: "mdb_list s' (ys @ src # dest # zs)"
    by (rule dlist_insert_after [OF l(1) fresh d0])
       (use ins l(2) b in \<open>auto simp: links_inserted_def domIff\<close>)
  have "chains_wf (mdb_next s') (mdb_prev s') (dom (ctes s))"
  proof (rule chains_wf_update [where X = "set (ys @ src # dest # zs) \<inter> dom (ctes s)" and nx = "mdb_next s"
        and pv = "mdb_prev s"])
    show "chains_wf (mdb_next s) (mdb_prev s) (dom (ctes s))" using wf by (simp add: mdb_wf_def)
    show "set xs \<subseteq> set (ys @ src # dest # zs) \<inter> dom (ctes s)"
      if "mdb_list s xs" "set xs \<inter> (set (ys @ src # dest # zs) \<inter> dom (ctes s)) \<noteq> {}" for xs
    proof -
      from that(2) have "set xs \<inter> set (ys @ src # zs) \<noteq> {} \<or> set xs \<inter> set [dest] \<noteq> {}" by auto
      then have "set xs \<subseteq> set (ys @ src # zs) \<or> set xs \<subseteq> set [dest]"
        using chain_closed [OF l(1) that(1)] chain_closed [OF ul that(1)] by blast
      with l(2) b(1) show ?thesis by auto
    qed
    show "mdb_next s' p = mdb_next s p \<and> mdb_prev s' p = mdb_prev s p"
      if "p \<notin> set (ys @ src # dest # zs) \<inter> dom (ctes s)" for p
    proof (cases "p \<in> dom (ctes s)")
      case True
      with that have out: "p \<notin> set (ys @ src # dest # zs)" by blast
      moreover have "p \<noteq> mdb_next s src"
        using out dlist_link_facts(1) [OF l(1)] first_or_in [of zs NULL] wf True
        by (cases "zs = []") (auto simp: mdb_wf_def)
      ultimately show ?thesis using ins True by (auto simp: links_inserted_def)
    next
      case False
      with ins have "p \<notin> dom (ctes s')" by (simp add: links_inserted_def)
      with False show ?thesis by (simp add: link_of_def domIff)
    qed
    show "\<exists>xs. mdb_list s' xs \<and> p \<in> set xs \<and> set xs \<subseteq> set (ys @ src # dest # zs) \<inter> dom (ctes s)"
      if "p \<in> set (ys @ src # dest # zs) \<inter> dom (ctes s)" for p
      using that new l(2) b(1) by (intro exI [of _ "ys @ src # dest # zs"]) auto
  qed auto
  moreover have "dom (ctes s') = dom (ctes s)" using ins by (simp add: links_inserted_def)
  ultimately show "mdb_wf s'" using wf by (auto simp: mdb_wf_def domIff)
qed

lemma cteInsert_list:
  assumes wf: "mdb_wf s" and l: "mdb_list s (ys @ src # zs)" "set (ys @ src # zs) \<subseteq> dom (ctes s)"
    and a: "ctes s src = Some a" and b: "ctes s dest = Some b"
    and ne: "src \<noteq> dest" and empty: "cte_cap b = cap_null_cap"
      "mdbNext (cteMDBNode b) = NULL" "mdbPrev (cteMDBNode b) = NULL"
    and rv: "isCapRevocable newCap (cte_cap a) = Some r"
  shows "\<exists>s'. cteInsert newCap src dest s = Some s' \<and> mdb_wf s' \<and>
           mdb_list s' (ys @ src # dest # zs) \<and>
           caps_of s' = (caps_of s)(src \<mapsto> source_after (cte_cap a) newCap, dest \<mapsto> newCap) \<and>
           flags_of s' = (flags_of s)(dest \<mapsto> (r, r)) \<and>
           s' = s\<lparr>ctes := ctes s'\<rparr> \<and>
           (\<forall>p. p \<notin> set (ys @ src # dest # zs) \<longrightarrow> ctes s' p = ctes s p)"
proof -
  obtain h a' where run: "cteInsert newCap src dest s = Some (s\<lparr>ctes := h\<rparr>)"
    and h: "h = (\<lambda>p. if p = src then Some (a'\<lparr>cteMDBNode := (cteMDBNode a)\<lparr>mdbNext := dest\<rparr>\<rparr>)
              else if p = dest then
                Some \<lparr>cte_cap = newCap,
                      cteMDBNode = (cteMDBNode a)\<lparr>mdbPrev := src, mdbRevocable := r, mdbFirstBadged := r\<rparr>\<rparr>
              else if p = mdbNext (cteMDBNode a) then
                map_option (\<lambda>x. x\<lparr>cteMDBNode := (cteMDBNode x)\<lparr>mdbPrev := dest\<rparr>\<rparr>) (ctes s p)
              else ctes s p)"
    and a': "cte_cap a' = source_after (cte_cap a) newCap"
    by (rule cteInsert_Some [OF wf a b ne empty rv])
  let ?s = "s\<lparr>ctes := h\<rparr>"
  have "mdbNext (cteMDBNode a) \<noteq> src"
    using wf a mdb_wf_next [of s src a] by (cases "mdbNext (cteMDBNode a) = NULL") (auto simp: mdb_wf_def)
  moreover have "dom h = dom (ctes s)" using a b by (auto simp: h dom_def split: if_splits)
  ultimately have "links_inserted s src dest ?s"
    using a b ne by (auto simp: links_inserted_def) (auto simp: h link_of_def split: option.splits)
  note links_inserted_list [OF wf l b empty(2,3) ne this]
  moreover have "caps_of ?s = (caps_of s)(src \<mapsto> source_after (cte_cap a) newCap, dest \<mapsto> newCap)"
    using a' ne by (auto simp: caps_of_def h fun_eq_iff option.map_comp comp_def)
  moreover have "flags_of ?s = (flags_of s)(dest \<mapsto> (r, r))"
    using a ne by (auto simp: flags_of_def h fun_eq_iff option.map_comp comp_def)
  moreover have "ctes ?s p = ctes s p" if "p \<notin> set (ys @ src # dest # zs)" for p
  proof -
    have "mdbNext (cteMDBNode a) = first_or NULL zs"
      using dlist_link_facts(1) [OF l(1)] a by simp
    then have "p = mdbNext (cteMDBNode a) \<Longrightarrow> ctes s p = None"
      using that wf first_or_in [of zs NULL] by (cases "zs = []") (auto simp: mdb_wf_def)
    with that show ?thesis by (auto simp: h)
  qed
  ultimately show ?thesis
    using run by (intro exI [of _ ?s]) simp
qed

lemma insertNewCap_list:
  assumes wf: "mdb_wf s" and l: "mdb_list s (ys @ parent # zs)" "set (ys @ parent # zs) \<subseteq> dom (ctes s)"
    and a: "ctes s parent = Some a" and b: "ctes s slot = Some b" and ne: "parent \<noteq> slot"
    and empty: "mdbNext (cteMDBNode b) = NULL" "mdbPrev (cteMDBNode b) = NULL"
  shows "\<exists>s'. insertNewCap parent slot c s = Some s' \<and> mdb_wf s' \<and>
           mdb_list s' (ys @ parent # slot # zs) \<and> caps_of s' = (caps_of s)(slot \<mapsto> c) \<and>
           s' = s\<lparr>ctes := ctes s'\<rparr>"
proof -
  let ?n = "mdbNext (cteMDBNode a)"
  have null: "ctes s NULL = None" using wf by (simp add: mdb_wf_def)
  define h where "h = (\<lambda>p. if p = parent then Some (a\<lparr>cteMDBNode := (cteMDBNode a)\<lparr>mdbNext := slot\<rparr>\<rparr>)
      else if p = slot then Some \<lparr>cte_cap = c, cteMDBNode = mdb_node_new ?n True True parent\<rparr>
      else if p = ?n then map_option (\<lambda>x. x\<lparr>cteMDBNode := (cteMDBNode x)\<lparr>mdbPrev := slot\<rparr>\<rparr>) (ctes s p)
      else ctes s p)"
  have nd: "?n \<noteq> NULL \<longrightarrow> (\<exists>d. ctes s ?n = Some d \<and> mdbPrev (cteMDBNode d) = parent \<and> ?n \<noteq> parent)"
    using mdb_wf_nextD [OF wf a] by blast
  have p0: "parent \<noteq> NULL" "slot \<noteq> NULL" using a b null by auto
  with nd have np: "?n \<noteq> parent" by auto
  have ns: "?n \<noteq> slot" using nd b empty p0 by auto
  have run: "insertNewCap parent slot c s = Some (s\<lparr>ctes := h\<rparr>)"
  proof (cases "?n = NULL")
    case True
    with a b ne null show ?thesis
      by (simp add: insertNewCap_def kmonad Let_def mdb_set_prev_if_def h_def) (auto simp: fun_eq_iff)
  next
    case False
    with nd obtain d where "ctes s ?n = Some d" by blast
    with a b ne null np ns False show ?thesis
      by (simp add: insertNewCap_def kmonad Let_def mdb_set_prev_if_def h_def) (auto simp: fun_eq_iff)
  qed
  have "dom h = dom (ctes s)" using a b by (auto simp: h_def dom_def split: if_splits)
  then have "links_inserted s parent slot (s\<lparr>ctes := h\<rparr>)"
    using a b ne np ns
    by (auto simp: links_inserted_def) (auto simp: h_def link_of_def mdb_node_new_def split: option.splits)
  note links_inserted_list [OF wf l b empty ne this]
  moreover have "caps_of (s\<lparr>ctes := h\<rparr>) = (caps_of s)(slot \<mapsto> c)"
    using a ne by (auto simp: caps_of_def h_def fun_eq_iff map_option_case split: option.splits)
  ultimately show ?thesis using run by auto
qed

section \<open>Moving and swapping\<close>

definition swap_ptr :: "ptr \<Rightarrow> ptr \<Rightarrow> ptr \<Rightarrow> ptr" where
  "swap_ptr a b p = (if p = a then b else if p = b then a else p)"

lemma swap_ptr_swap [simp]: "swap_ptr a b (swap_ptr a b p) = p"
  by (simp add: swap_ptr_def)

lemma inj_swap_ptr: "inj (swap_ptr a b)"
  by (metis injI swap_ptr_swap)

lemma map_swap_ptr_swap [simp]: "map (swap_ptr a b) (map (swap_ptr a b) xs) = xs"
  by (simp add: comp_def)

text \<open>The links of \<open>s'\<close> are those of \<open>s\<close> with the slots \<open>a\<close> and \<open>b\<close> exchanged.\<close>

definition links_swapped :: "kstate \<Rightarrow> ptr \<Rightarrow> ptr \<Rightarrow> kstate \<Rightarrow> bool" where
  "links_swapped s a b s' \<longleftrightarrow>
     dom (ctes s') = dom (ctes s) \<and>
     (\<forall>p \<in> dom (ctes s).
        mdb_next s' (swap_ptr a b p) = swap_ptr a b (mdb_next s p) \<and>
        mdb_prev s' (swap_ptr a b p) = swap_ptr a b (mdb_prev s p))"

lemma links_swapped_list:
  assumes "links_swapped s a b s'" and "mdb_list s xs" and "set xs \<subseteq> dom (ctes s)"
    and "a \<noteq> NULL" and "b \<noteq> NULL"
  shows "mdb_list s' (map (swap_ptr a b) xs)"
  by (rule dlist_relabel [OF assms(2)])
     (use assms in \<open>auto simp: links_swapped_def inj_swap_ptr swap_ptr_def [of a b NULL]\<close>)

lemma links_swapped_wf:
  assumes sw: "links_swapped s a b s'" and wf: "mdb_wf s"
    and ab: "a \<in> dom (ctes s)" "b \<in> dom (ctes s)"
  shows "mdb_wf s'"
proof -
  have dom: "dom (ctes s') = dom (ctes s)" using sw by (simp add: links_swapped_def)
  have nn: "a \<noteq> NULL" "b \<noteq> NULL" using ab wf by (auto simp: mdb_wf_def)
  have T: "swap_ptr a b q \<in> dom (ctes s)" if "q \<in> dom (ctes s)" for q
    using that ab by (auto simp: swap_ptr_def)
  have "\<exists>xs. mdb_list s' xs \<and> p \<in> set xs \<and> set xs \<subseteq> dom (ctes s)" if p: "p \<in> dom (ctes s)" for p
  proof -
    from wf T [OF p] obtain xs where xs: "mdb_list s xs" "swap_ptr a b p \<in> set xs" "set xs \<subseteq> dom (ctes s)"
      unfolding mdb_wf_def chains_wf_def by blast
    have "mdb_list s' (map (swap_ptr a b) xs)" by (rule links_swapped_list [OF sw xs(1,3) nn])
    moreover have "p \<in> swap_ptr a b ` set xs" using xs(2) by (metis image_eqI swap_ptr_swap)
    ultimately show ?thesis using xs(3) T by (intro exI [of _ "map (swap_ptr a b) xs"]) auto
  qed
  with dom wf show ?thesis by (auto simp: mdb_wf_def chains_wf_def domIff)
qed

text \<open>The neighbours of a slot are different slots, and only they point to it.\<close>

lemma mdb_wf_neighbours:
  assumes "mdb_wf s" and "ctes s p = Some c" and "mdbNext (cteMDBNode c) \<noteq> NULL"
  shows "mdbNext (cteMDBNode c) \<noteq> mdbPrev (cteMDBNode c)"
proof -
  obtain ys zs where d: "mdb_list s (ys @ p # zs)"
    "mdbNext (cteMDBNode c) = first_or NULL zs" "mdbPrev (cteMDBNode c) = last_or NULL ys"
    using mdb_wf_slot [OF assms(1,2)] by metis
  with assms(3) have "first_or NULL zs \<in> set zs" by (metis first_or.simps(1) first_or_in)
  moreover have "last_or NULL ys \<in> insert NULL (set ys)" using last_or_in [of ys NULL] by (cases ys) auto
  ultimately show ?thesis using d assms(3) dlist_link_facts [OF d(1)] by auto
qed

lemma mdb_next_iff:
  assumes "mdb_wf s" and "ctes s p = Some c" and "ctes s q = Some d"
  shows "mdbNext (cteMDBNode c) = q \<longleftrightarrow> mdbPrev (cteMDBNode d) = p"
proof -
  have "p \<noteq> NULL" "q \<noteq> NULL" using assms by (auto simp: mdb_wf_def)
  with assms mdb_wf_nextD [of s p c] mdb_wf_prevD [of s q d] show ?thesis by auto
qed

definition node_swapped :: "ptr \<Rightarrow> ptr \<Rightarrow> mdb_node_t \<Rightarrow> mdb_node_t" where
  "node_swapped a b m = m\<lparr>mdbNext := swap_ptr a b (mdbNext m), mdbPrev := swap_ptr a b (mdbPrev m)\<rparr>"

definition heap_swapped ::
  "(ptr \<Rightarrow> cte_t option) \<Rightarrow> ptr \<Rightarrow> cap_t \<Rightarrow> ptr \<Rightarrow> cap_t \<Rightarrow> ptr \<Rightarrow> cte_t option" where
  "heap_swapped cs a capa b capb p =
     (case (cs p, cs (swap_ptr a b p)) of
        (Some x, Some y) \<Rightarrow>
          Some \<lparr>cte_cap = (if p = a then capa else if p = b then capb else cte_cap x),
                cteMDBNode = node_swapped a b (cteMDBNode y)\<rparr>
      | _ \<Rightarrow> None)"

lemma heap_swapped_Some:
  assumes "cs (swap_ptr a b p) = Some y" and "cs p = Some x"
  shows "heap_swapped cs a capa b capb p =
    Some \<lparr>cte_cap = (if p = a then capa else if p = b then capb else cte_cap x),
          cteMDBNode = node_swapped a b (cteMDBNode y)\<rparr>"
  using assms by (simp add: heap_swapped_def)

lemma heap_swapped_links:
  assumes "ctes s a = Some ca" and "ctes s b = Some cb"
  shows "links_swapped s a b (s\<lparr>ctes := heap_swapped (ctes s) a capa b capb\<rparr>)"
proof -
  let ?h = "heap_swapped (ctes s) a capa b capb"
  have T: "swap_ptr a b p \<in> dom (ctes s)" if "p \<in> dom (ctes s)" for p
    using that assms by (auto simp: swap_ptr_def)
  have "p \<in> dom ?h \<longleftrightarrow> p \<in> dom (ctes s)" for p
    using T [of p] T [of "swap_ptr a b p"]
    by (cases "ctes s p"; cases "ctes s (swap_ptr a b p)") (simp_all add: heap_swapped_def domIff)
  moreover have "mdb_next (s\<lparr>ctes := ?h\<rparr>) (swap_ptr a b p) = swap_ptr a b (mdb_next s p) \<and>
      mdb_prev (s\<lparr>ctes := ?h\<rparr>) (swap_ptr a b p) = swap_ptr a b (mdb_prev s p)"
    if p: "p \<in> dom (ctes s)" for p
  proof -
    from p obtain x where x: "ctes s p = Some x" by blast
    from T [OF p] obtain y where y: "ctes s (swap_ptr a b p) = Some y" by blast
    from x y have "\<exists>c. ?h (swap_ptr a b p) = Some \<lparr>cte_cap = c, cteMDBNode = node_swapped a b (cteMDBNode x)\<rparr>"
      by (simp add: heap_swapped_def)
    then obtain c where "?h (swap_ptr a b p) = Some \<lparr>cte_cap = c, cteMDBNode = node_swapped a b (cteMDBNode x)\<rparr>" ..
    with x show ?thesis by (simp add: link_of_def node_swapped_def)
  qed
  ultimately show ?thesis by (auto simp: links_swapped_def simp del: not_None_eq)
qed

lemma cteMove_run:
  assumes wf: "mdb_wf s" and a: "ctes s src = Some a" and b: "ctes s dest = Some b"
    and ne: "src \<noteq> dest" and empty: "cte_cap b = cap_null_cap" "cteMDBNode b = nullMDBNode"
  shows "cteMove newCap src dest s = Some (s\<lparr>ctes := heap_swapped (ctes s) src cap_null_cap dest newCap\<rparr>)"
proof -
  let ?n = "mdbNext (cteMDBNode a)" and ?p = "mdbPrev (cteMDBNode a)"
  have null: "ctes s NULL = None" using wf by (simp add: mdb_wf_def)
  then have p0: "src \<noteq> NULL" "dest \<noteq> NULL" using a b by auto
  have n: "?n \<noteq> NULL \<Longrightarrow> \<exists>d. ctes s ?n = Some d \<and> mdbPrev (cteMDBNode d) = src \<and> ?n \<noteq> src"
    using mdb_wf_nextD [OF wf a] by blast
  have p: "?p \<noteq> NULL \<Longrightarrow> \<exists>d. ctes s ?p = Some d \<and> mdbNext (cteMDBNode d) = src \<and> ?p \<noteq> src"
    using mdb_wf_prevD [OF wf a] by blast
  have nd: "?n \<noteq> dest" using n b empty p0 by (auto simp: nullMDBNode_def mdb_node_new_def)
  have pd: "?p \<noteq> dest" using p b empty p0 by (auto simp: nullMDBNode_def mdb_node_new_def)
  have np: "?n \<noteq> NULL \<Longrightarrow> ?n \<noteq> ?p" using mdb_wf_neighbours [OF wf a] by blast
  have other: "mdbNext (cteMDBNode x) \<noteq> dest \<and> mdbPrev (cteMDBNode x) \<noteq> dest \<and>
      (mdbNext (cteMDBNode x) = src \<longleftrightarrow> q = ?p) \<and> (mdbPrev (cteMDBNode x) = src \<longleftrightarrow> q = ?n)"
    if "ctes s q = Some x" for q x
  proof -
    have "q \<noteq> NULL" using that null by auto
    moreover have "mdbNext (cteMDBNode b) = NULL" "mdbPrev (cteMDBNode b) = NULL"
      using empty(2) by (simp_all add: nullMDBNode_def mdb_node_new_def)
    ultimately have "mdbNext (cteMDBNode x) \<noteq> dest" "mdbPrev (cteMDBNode x) \<noteq> dest"
      using mdb_next_iff [OF wf that b] mdb_next_iff [OF wf b that] by simp_all
    moreover have "mdbNext (cteMDBNode x) = src \<longleftrightarrow> q = ?p" "mdbPrev (cteMDBNode x) = src \<longleftrightarrow> q = ?n"
      using mdb_next_iff [OF wf that a] mdb_next_iff [OF wf a that] by (simp_all add: eq_commute)
    ultimately show ?thesis by blast
  qed
  have na: "?n \<noteq> src" "?p \<noteq> src" using n p p0 by auto
  have h: "heap_swapped (ctes s) src cap_null_cap dest newCap q =
     (if q = dest then Some \<lparr>cte_cap = newCap, cteMDBNode = cteMDBNode a\<rparr>
      else if q = src then Some \<lparr>cte_cap = cap_null_cap, cteMDBNode = nullMDBNode\<rparr>
      else map_option (\<lambda>x. x\<lparr>cteMDBNode := (cteMDBNode x)
             \<lparr>mdbNext := if q = ?p then dest else mdbNext (cteMDBNode x),
              mdbPrev := if q = ?n then dest else mdbPrev (cteMDBNode x)\<rparr>\<rparr>) (ctes s q))" for q
  proof -
    have "node_swapped src dest (cteMDBNode a) = cteMDBNode a"
      using na nd pd by (simp add: node_swapped_def swap_ptr_def)
    moreover have "node_swapped src dest nullMDBNode = nullMDBNode"
      using p0 by (simp add: node_swapped_def swap_ptr_def nullMDBNode_def mdb_node_new_def)
    moreover have "node_swapped src dest (cteMDBNode x) = (cteMDBNode x)
        \<lparr>mdbNext := if q = ?p then dest else mdbNext (cteMDBNode x),
         mdbPrev := if q = ?n then dest else mdbPrev (cteMDBNode x)\<rparr>" if "ctes s q = Some x" for x
      using other [OF that] by (simp add: node_swapped_def swap_ptr_def)
    ultimately show ?thesis
      using a b ne empty(2) by (cases "ctes s q") (auto simp: heap_swapped_def swap_ptr_def)
  qed
  define h1 where "h1 = (ctes s)(dest \<mapsto> b\<lparr>cte_cap := newCap, cteMDBNode := cteMDBNode a\<rparr>,
                               src \<mapsto> a\<lparr>cte_cap := cap_null_cap, cteMDBNode := nullMDBNode\<rparr>)"
  have fin: "set_prev_heap ?n dest (set_next_heap ?p dest h1) = heap_swapped (ctes s) src cap_null_cap dest newCap"
    using nd pd na b empty ne
    by (intro ext) (auto simp: h h1_def set_next_heap_def set_prev_heap_def option.map_comp comp_def option.map_ident)
  have "cteMove newCap src dest s =
      do { s' \<leftarrow> mdb_set_next_if ?p dest (s\<lparr>ctes := h1\<rparr>); mdb_set_prev_if ?n dest s' }"
    using a b ne empty by (simp add: cteMove_def kmonad Let_def h1_def nullMDBNode_def mdb_node_new_def fun_upd_twist)
  also have "\<dots> = Some (s\<lparr>ctes := set_prev_heap ?n dest (set_next_heap ?p dest h1)\<rparr>)"
    using n p null p0 by (subst mdb_set_links_run) (auto simp: h1_def)
  finally show ?thesis by (simp only: fin)
qed

lemma cteSwap_run:
  assumes wf: "mdb_wf s" and c1: "ctes s slot1 = Some c1" and c2: "ctes s slot2 = Some c2"
    and ne: "slot1 \<noteq> slot2"
  shows "cteSwap cap1 slot1 cap2 slot2 s = Some (s\<lparr>ctes := heap_swapped (ctes s) slot1 cap2 slot2 cap1\<rparr>)"
proof -
  let ?n1 = "mdbNext (cteMDBNode c1)" and ?p1 = "mdbPrev (cteMDBNode c1)"
  let ?n2 = "mdbNext (cteMDBNode c2)" and ?p2 = "mdbPrev (cteMDBNode c2)"
  have null: "ctes s NULL = None" using wf by (simp add: mdb_wf_def)
  then have nn: "slot1 \<noteq> NULL" "slot2 \<noteq> NULL" using c1 c2 by auto
  have ex: "?n1 \<noteq> NULL \<longrightarrow> ctes s ?n1 \<noteq> None" "?p1 \<noteq> NULL \<longrightarrow> ctes s ?p1 \<noteq> None"
    "?n2 \<noteq> NULL \<longrightarrow> ctes s ?n2 \<noteq> None" "?p2 \<noteq> NULL \<longrightarrow> ctes s ?p2 \<noteq> None"
    using mdb_wf_nextD [OF wf c1] mdb_wf_prevD [OF wf c1] mdb_wf_nextD [OF wf c2] mdb_wf_prevD [OF wf c2]
    by auto
  have self: "?n1 \<noteq> slot1" "?p1 \<noteq> slot1" "?n2 \<noteq> slot2" "?p2 \<noteq> slot2"
    using mdb_wf_nextD [OF wf c1] mdb_wf_prevD [OF wf c1] mdb_wf_nextD [OF wf c2] mdb_wf_prevD [OF wf c2] nn
    by auto
  have adj: "?n1 = slot2 \<longleftrightarrow> ?p2 = slot1" "?p1 = slot2 \<longleftrightarrow> ?n2 = slot1"
    using mdb_next_iff [OF wf c1 c2] mdb_next_iff [OF wf c2 c1] by auto
  have both: "\<not> (?n1 = slot2 \<and> ?p1 = slot2)"
    using mdb_wf_neighbours [OF wf c1] nn by auto
  have other: "(mdbNext (cteMDBNode x) = slot1 \<longleftrightarrow> q = ?p1) \<and> (mdbPrev (cteMDBNode x) = slot1 \<longleftrightarrow> q = ?n1) \<and>
      (mdbNext (cteMDBNode x) = slot2 \<longleftrightarrow> q = ?p2) \<and> (mdbPrev (cteMDBNode x) = slot2 \<longleftrightarrow> q = ?n2)"
    if "ctes s q = Some x" for q x
    using mdb_next_iff [OF wf that c1] mdb_next_iff [OF wf c1 that] mdb_next_iff [OF wf that c2]
      mdb_next_iff [OF wf c2 that] by (simp add: eq_commute)
  define h1 where "h1 = (ctes s)(slot1 \<mapsto> c1\<lparr>cte_cap := cap2\<rparr>, slot2 \<mapsto> c2\<lparr>cte_cap := cap1\<rparr>)"
  define h2 where "h2 = set_prev_heap ?n1 slot2 (set_next_heap ?p1 slot2 h1)"
  define m2 where "m2 = (cteMDBNode c2)\<lparr>mdbNext := if slot2 = ?p1 then slot2 else ?n2,
                                         mdbPrev := if slot2 = ?n1 then slot2 else ?p2\<rparr>"
  define h3 where "h3 = h2(slot1 \<mapsto> c1\<lparr>cte_cap := cap2, cteMDBNode := m2\<rparr>,
                           slot2 \<mapsto> \<lparr>cte_cap = cap1, cteMDBNode = cteMDBNode c1\<rparr>)"
  define h4 where "h4 = set_prev_heap (mdbNext m2) slot1 (set_next_heap (mdbPrev m2) slot1 h3)"
  have h2s: "h2 slot1 = Some (c1\<lparr>cte_cap := cap2\<rparr>)"
      "h2 slot2 = Some \<lparr>cte_cap = cap1, cteMDBNode = m2\<rparr>"
    using ne self both by (auto simp: h2_def h1_def m2_def set_prev_heap_def set_next_heap_def)
  have d2: "h2 p = None \<longleftrightarrow> ctes s p = None" for p
    using c1 c2 by (auto simp: h2_def h1_def set_prev_heap_def set_next_heap_def)
  have d3: "h3 p = None \<longleftrightarrow> ctes s p = None" for p
    using c1 c2 d2 by (auto simp: h3_def)
  have "cteSwap cap1 slot1 cap2 slot2 s =
      Option.bind (do { s' \<leftarrow> mdb_set_next_if ?p1 slot2 (s\<lparr>ctes := h1\<rparr>); mdb_set_prev_if ?n1 slot2 s' })
        (\<lambda>s. do { c2 \<leftarrow> ctes s slot2;
             let mdb2 = cteMDBNode c2;
             s \<leftarrow> mdb_upd slot1 (\<lambda>_. mdb2) s;
             s \<leftarrow> mdb_upd slot2 (\<lambda>_. cteMDBNode c1) s;
             s \<leftarrow> mdb_set_next_if (mdbPrev mdb2) slot1 s;
             mdb_set_prev_if (mdbNext mdb2) slot1 s })"
    using c1 c2 ne by (simp add: cteSwap_def kmonad Let_def h1_def)
  also have "do { s' \<leftarrow> mdb_set_next_if ?p1 slot2 (s\<lparr>ctes := h1\<rparr>); mdb_set_prev_if ?n1 slot2 s' } =
      Some (s\<lparr>ctes := h2\<rparr>)"
    using ex null nn by (subst mdb_set_links_run) (auto simp: h1_def h2_def)
  also have "Option.bind (Some (s\<lparr>ctes := h2\<rparr>))
        (\<lambda>s. do { c2 \<leftarrow> ctes s slot2;
             let mdb2 = cteMDBNode c2;
             s \<leftarrow> mdb_upd slot1 (\<lambda>_. mdb2) s;
             s \<leftarrow> mdb_upd slot2 (\<lambda>_. cteMDBNode c1) s;
             s \<leftarrow> mdb_set_next_if (mdbPrev mdb2) slot1 s;
             mdb_set_prev_if (mdbNext mdb2) slot1 s }) =
      do { s' \<leftarrow> mdb_set_next_if (mdbPrev m2) slot1 (s\<lparr>ctes := h3\<rparr>); mdb_set_prev_if (mdbNext m2) slot1 s' }"
    using h2s ne by (simp add: kmonad Let_def h3_def)
  also have "\<dots> = Some (s\<lparr>ctes := h4\<rparr>)"
    using ex null nn c2
    by (subst mdb_set_links_run) (auto simp: d3 h4_def m2_def)
  also have "h4 = heap_swapped (ctes s) slot1 cap2 slot2 cap1"
  proof
    fix q
    consider "q = slot1" | "q = slot2" | "q \<noteq> slot1" "q \<noteq> slot2" by blast
    then show "h4 q = heap_swapped (ctes s) slot1 cap2 slot2 cap1 q"
    proof cases
      case 1
      with ne self adj both c1 c2 nn show ?thesis
        by (auto simp: h4_def h3_def m2_def set_prev_heap_def set_next_heap_def heap_swapped_def
            swap_ptr_def node_swapped_def)
    next
      case 2
      with ne self adj both c1 c2 nn show ?thesis
        by (auto simp: h4_def h3_def m2_def set_prev_heap_def set_next_heap_def heap_swapped_def
            swap_ptr_def node_swapped_def)
    next
      case 3
      then show ?thesis
      proof (cases "ctes s q")
        case None
        then have "h4 q = None" by (simp add: h4_def d3)
        with None show ?thesis by (simp add: heap_swapped_def)
      next
        case (Some x)
        note o = other [OF Some]
        have "h4 q = Some (x\<lparr>cteMDBNode := (cteMDBNode x)
            \<lparr>mdbNext := if q = mdbPrev m2 then slot1 else if q = ?p1 then slot2 else mdbNext (cteMDBNode x),
             mdbPrev := if q = mdbNext m2 then slot1 else if q = ?n1 then slot2 else mdbPrev (cteMDBNode x)\<rparr>\<rparr>)"
          using 3 Some
          by (simp add: h4_def h3_def h2_def h1_def set_prev_heap_Some set_next_heap_Some)
        moreover have "q = mdbPrev m2 \<longleftrightarrow> q = ?p2" "q = mdbNext m2 \<longleftrightarrow> q = ?n2"
          using 3 adj by (auto simp: m2_def)
        ultimately show ?thesis
          using 3 Some o ne by (auto simp: heap_swapped_def swap_ptr_def node_swapped_def)
      qed
    qed
  qed
  finally show ?thesis .
qed

lemma heap_swapped_caps:
  assumes "ctes s a = Some ca" and "ctes s b = Some cb" and "a \<noteq> b"
  shows "caps_of (s\<lparr>ctes := heap_swapped (ctes s) a capa b capb\<rparr>) = (caps_of s)(a \<mapsto> capa, b \<mapsto> capb)"
  using assms
  by (auto simp: caps_of_def heap_swapped_def swap_ptr_def fun_eq_iff map_option_case split: option.splits)

text \<open>Moving and swapping slots: every list of the derivation lists keeps its order, with the two
  slots exchanged in it.\<close>

lemma cteSwap_list:
  assumes wf: "mdb_wf s" and c: "ctes s slot1 = Some c1" "ctes s slot2 = Some c2" and ne: "slot1 \<noteq> slot2"
  shows "\<exists>s'. cteSwap cap1 slot1 cap2 slot2 s = Some s' \<and> mdb_wf s' \<and>
           (\<forall>xs. set xs \<subseteq> dom (ctes s) \<and> mdb_list s xs \<longrightarrow> mdb_list s' (map (swap_ptr slot1 slot2) xs)) \<and>
           caps_of s' = (caps_of s)(slot1 \<mapsto> cap2, slot2 \<mapsto> cap1)"
proof -
  note sw = heap_swapped_links [OF c, of cap2 cap1]
  have nn: "slot1 \<noteq> NULL" "slot2 \<noteq> NULL" using wf c by (auto simp: mdb_wf_def)
  show ?thesis
    using cteSwap_run [OF wf c ne, of cap1 cap2] links_swapped_wf [OF sw wf] c
      links_swapped_list [OF sw _ _ nn] heap_swapped_caps [OF c ne]
    by (intro exI [of _ "s\<lparr>ctes := heap_swapped (ctes s) slot1 cap2 slot2 cap1\<rparr>"]) auto
qed

lemma cteMove_list:
  assumes wf: "mdb_wf s" and a: "ctes s src = Some a" and b: "ctes s dest = Some b"
    and ne: "src \<noteq> dest" and empty: "cte_cap b = cap_null_cap" "cteMDBNode b = nullMDBNode"
    and l: "mdb_list s (ys @ src # zs)" "set (ys @ src # zs) \<subseteq> dom (ctes s)"
  shows "\<exists>s'. cteMove newCap src dest s = Some s' \<and> mdb_wf s' \<and> mdb_list s' (ys @ dest # zs) \<and>
           mdb_list s' [src] \<and> caps_of s' = (caps_of s)(src \<mapsto> cap_null_cap, dest \<mapsto> newCap)"
proof -
  let ?s' = "s\<lparr>ctes := heap_swapped (ctes s) src cap_null_cap dest newCap\<rparr>"
  note sw = heap_swapped_links [OF a b, of cap_null_cap newCap]
  have nn: "src \<noteq> NULL" "dest \<noteq> NULL" using wf a b by (auto simp: mdb_wf_def)
  have ul: "mdb_list s [dest]"
    using b empty nn by (intro unlinked_list) (auto simp: nullMDBNode_def mdb_node_new_def)
  have fresh: "dest \<notin> set (ys @ src # zs)"
  proof
    assume "dest \<in> set (ys @ src # zs)"
    then have "[dest] = ys @ src # zs" using dlist_unique [OF ul l(1)] by auto
    with ne show False by (cases ys) auto
  qed
  have "map (swap_ptr src dest) ys = ys" "map (swap_ptr src dest) zs = zs"
    using fresh dlist_link_facts(4,5) [OF l(1)] by (auto simp: swap_ptr_def intro!: map_idI)
  with links_swapped_list [OF sw l nn] have "mdb_list ?s' (ys @ dest # zs)"
    by (simp add: swap_ptr_def [of src dest src])
  moreover have "mdb_list ?s' [src]"
    using links_swapped_list [OF sw ul _ nn] b ne by (simp add: swap_ptr_def domI)
  ultimately show ?thesis
    using cteMove_run [OF wf a b ne empty, of newCap] links_swapped_wf [OF sw wf] a b
      heap_swapped_caps [OF a b ne] by auto
qed

section \<open>Emptying a slot\<close>

lemma postCapDeletion_ctes [simp]:
  "ctes (postCapDeletion c s) = ctes s"
  by (cases c) (simp_all add: postCapDeletion_def deletedIRQHandler_def setIRQState_def
      do_machine_op_def Arch_postCapDeletion_def)

definition heap_emptied :: "(ptr \<Rightarrow> cte_t option) \<Rightarrow> ptr \<Rightarrow> mdb_node_t \<Rightarrow> ptr \<Rightarrow> cte_t option" where
  "heap_emptied cs slot m q =
     (if q = slot then Some \<lparr>cte_cap = cap_null_cap, cteMDBNode = nullMDBNode\<rparr>
      else map_option (\<lambda>x. x\<lparr>cteMDBNode := (cteMDBNode x)
             \<lparr>mdbNext := (if q = mdbPrev m then mdbNext m else mdbNext (cteMDBNode x)),
              mdbPrev := (if q = mdbNext m then mdbPrev m else mdbPrev (cteMDBNode x)),
              mdbFirstBadged := mdbFirstBadged (cteMDBNode x) \<or> q = mdbNext m \<and> mdbFirstBadged m\<rparr>\<rparr>) (cs q))"

lemma emptySlot_run:
  assumes wf: "mdb_wf s" and c: "ctes s slot = Some c" and nn: "cte_cap c \<noteq> cap_null_cap"
  shows "emptySlot slot info s =
         Some (postCapDeletion info (s\<lparr>ctes := heap_emptied (ctes s) slot (cteMDBNode c)\<rparr>))"
proof -
  let ?n = "mdbNext (cteMDBNode c)" and ?p = "mdbPrev (cteMDBNode c)"
  have null: "ctes s NULL = None" using wf by (simp add: mdb_wf_def)
  then have s0: "slot \<noteq> NULL" using c by auto
  have ex: "?n \<noteq> NULL \<longrightarrow> ctes s ?n \<noteq> None" "?p \<noteq> NULL \<longrightarrow> ctes s ?p \<noteq> None"
    and self: "?n \<noteq> slot" "?p \<noteq> slot"
    using mdb_wf_nextD [OF wf c] mdb_wf_prevD [OF wf c] s0 by auto
  define h1 where "h1 = set_prev_heap ?n ?p (set_next_heap ?p ?n (ctes s))"
  define h2 where "h2 q = (if q = ?n then map_option (\<lambda>x. x\<lparr>cteMDBNode := (cteMDBNode x)
      \<lparr>mdbFirstBadged := mdbFirstBadged (cteMDBNode x) \<or> mdbFirstBadged (cteMDBNode c)\<rparr>\<rparr>) (h1 q) else h1 q)" for q
  have h1s: "h1 slot = Some c" using self c by (simp add: h1_def set_prev_heap_def set_next_heap_def)
  have "emptySlot slot info s =
      Option.bind (do { s' \<leftarrow> mdb_set_next_if ?p ?n s; mdb_set_prev_if ?n ?p s' })
        (\<lambda>s. do { s \<leftarrow> (if ?n \<noteq> NULL
                     then mdb_upd ?n (\<lambda>m. m\<lparr>mdbFirstBadged := mdbFirstBadged m \<or> mdbFirstBadged (cteMDBNode c)\<rparr>) s
                     else Some s);
                 s \<leftarrow> cte_set_cap slot cap_null_cap s;
                 s \<leftarrow> mdb_upd slot (\<lambda>_. nullMDBNode) s;
                 Some (postCapDeletion info s) })"
    using c nn by (simp add: emptySlot_def Let_def)
  also have "do { s' \<leftarrow> mdb_set_next_if ?p ?n s; mdb_set_prev_if ?n ?p s' } = Some (s\<lparr>ctes := h1\<rparr>)"
    using ex null by (simp add: mdb_set_links_run h1_def)
  also have "Option.bind (Some (s\<lparr>ctes := h1\<rparr>))
        (\<lambda>s. do { s \<leftarrow> (if ?n \<noteq> NULL
                     then mdb_upd ?n (\<lambda>m. m\<lparr>mdbFirstBadged := mdbFirstBadged m \<or> mdbFirstBadged (cteMDBNode c)\<rparr>) s
                     else Some s);
                 s \<leftarrow> cte_set_cap slot cap_null_cap s;
                 s \<leftarrow> mdb_upd slot (\<lambda>_. nullMDBNode) s;
                 Some (postCapDeletion info s) }) =
      Option.bind (Some (s\<lparr>ctes := h2\<rparr>))
        (\<lambda>s. do { s \<leftarrow> cte_set_cap slot cap_null_cap s;
                 s \<leftarrow> mdb_upd slot (\<lambda>_. nullMDBNode) s;
                 Some (postCapDeletion info s) })"
  proof (cases "?n = NULL")
    case True
    then have "h2 = h1" using null by (auto simp: h2_def h1_def set_prev_heap_def set_next_heap_def)
    with True show ?thesis by simp
  next
    case False
    with ex have "h1 ?n \<noteq> None" by (simp add: h1_def)
    then obtain d where d: "h1 ?n = Some d" by blast
    then have "h2 = h1(?n \<mapsto> d\<lparr>cteMDBNode := (cteMDBNode d)
        \<lparr>mdbFirstBadged := mdbFirstBadged (cteMDBNode d) \<or> mdbFirstBadged (cteMDBNode c)\<rparr>\<rparr>)"
      by (auto simp: h2_def)
    with False d show ?thesis by (simp add: kmonad)
  qed
  also have "\<dots> = Some (postCapDeletion info (s\<lparr>ctes := h2(slot \<mapsto> c\<lparr>cte_cap := cap_null_cap, cteMDBNode := nullMDBNode\<rparr>)\<rparr>))"
    using h1s self by (simp add: kmonad h2_def)
  also have "h2(slot \<mapsto> c\<lparr>cte_cap := cap_null_cap, cteMDBNode := nullMDBNode\<rparr>) = heap_emptied (ctes s) slot (cteMDBNode c)"
  proof
    fix q
    show "(h2(slot \<mapsto> c\<lparr>cte_cap := cap_null_cap, cteMDBNode := nullMDBNode\<rparr>)) q = heap_emptied (ctes s) slot (cteMDBNode c) q"
      by (cases "ctes s q")
         (auto simp: heap_emptied_def h2_def h1_def set_prev_heap_Some set_next_heap_Some
           intro!: cte_t.equality mdb_node_t.equality)
  qed
  finally show ?thesis .
qed

lemma emptySlot_list:
  assumes wf: "mdb_wf s" and c: "ctes s slot = Some c" "cte_cap c \<noteq> cap_null_cap"
    and l: "mdb_list s (ys @ slot # zs)" "set (ys @ slot # zs) \<subseteq> dom (ctes s)"
  shows "\<exists>s'. emptySlot slot info s = Some s' \<and> mdb_wf s' \<and> mdb_list s' (ys @ zs) \<and>
           mdb_list s' [slot] \<and> caps_of s' = (caps_of s)(slot \<mapsto> cap_null_cap)"
proof -
  let ?h = "heap_emptied (ctes s) slot (cteMDBNode c)"
  let ?s = "postCapDeletion info (s\<lparr>ctes := ?h\<rparr>)"
  have null: "ctes s NULL = None" using wf by (simp add: mdb_wf_def)
  then have s0: "slot \<noteq> NULL" using c by auto
  have dom: "dom (ctes ?s) = dom (ctes s)"
    using c by (auto simp: heap_emptied_def dom_def)
  have eq: "mdb_next ?s q = (if q = slot then NULL else if q = mdb_prev s slot then mdb_next s slot else mdb_next s q) \<and>
            mdb_prev ?s q = (if q = slot then NULL else if q = mdb_next s slot then mdb_prev s slot else mdb_prev s q)"
    if "q \<in> dom (ctes s)" for q
    using that c by (auto simp: link_of_def heap_emptied_def nullMDBNode_def mdb_node_new_def)
  have new: "mdb_list ?s (ys @ zs)"
    by (rule dlist_unlink [OF l(1)]) (use eq l dlist_link_facts [OF l(1)] in \<open>auto simp: subset_iff\<close>)
  have single: "mdb_list ?s [slot]"
    using eq [of slot] c s0 by (auto simp: dlist_def)
  have "chains_wf (mdb_next ?s) (mdb_prev ?s) (dom (ctes s))"
  proof (rule chains_wf_update [where X = "set (ys @ slot # zs)" and nx = "mdb_next s" and pv = "mdb_prev s"])
    show "chains_wf (mdb_next s) (mdb_prev s) (dom (ctes s))" using wf by (simp add: mdb_wf_def)
    show "set xs \<subseteq> set (ys @ slot # zs)" if "mdb_list s xs" "set xs \<inter> set (ys @ slot # zs) \<noteq> {}" for xs
      by (rule chain_closed [OF l(1) that])
    show "mdb_next ?s p = mdb_next s p \<and> mdb_prev ?s p = mdb_prev s p" if out: "p \<notin> set (ys @ slot # zs)" for p
    proof (cases "p \<in> dom (ctes s)")
      case True
      note f = dlist_link_facts [OF l(1)]
      have "p \<noteq> NULL" using True null by auto
      then have "p \<noteq> mdb_next s slot" "p \<noteq> mdb_prev s slot"
        using out f first_or_in [of zs NULL] last_or_in [of ys NULL] by (cases "zs = []"; cases "ys = []"; auto)+
      with eq [OF True] out show ?thesis by auto
    next
      case False
      with dom have "p \<notin> dom (ctes ?s)" by simp
      with False show ?thesis by (simp add: link_of_def domIff del: postCapDeletion_ctes)
    qed
    show "\<exists>xs. mdb_list ?s xs \<and> p \<in> set xs \<and> set xs \<subseteq> set (ys @ slot # zs)" if "p \<in> set (ys @ slot # zs)" for p
    proof (cases "p = slot")
      case True
      with single show ?thesis by (intro exI [of _ "[slot]"]) auto
    next
      case False
      with new that show ?thesis by (intro exI [of _ "ys @ zs"]) auto
    qed
  qed (use l in auto)
  then have "mdb_wf ?s" using dom null by (metis domIff mdb_wf_def)
  moreover have "caps_of ?s = (caps_of s)(slot \<mapsto> cap_null_cap)"
    by (auto simp: caps_of_def heap_emptied_def fun_eq_iff option.map_comp comp_def)
  ultimately show ?thesis using emptySlot_run [OF wf c] new single by blast
qed

section \<open>The properties\<close>

text \<open>Three slots of which the first two hold a badged endpoint capability and its copy.\<close>

definition example_slots :: "ptr \<Rightarrow> cte_t option" where
  "example_slots =
     [0x1000 \<mapsto> \<lparr>cte_cap = cap_endpoint_cap 0 True True True True 0x4000,
               cteMDBNode = mdb_node_new 0x1020 True True 0\<rparr>,
      0x1020 \<mapsto> \<lparr>cte_cap = cap_endpoint_cap 7 True True True True 0x4000,
               cteMDBNode = mdb_node_new 0 True True 0x1000\<rparr>,
      0x1040 \<mapsto> \<lparr>cte_cap = cap_null_cap, cteMDBNode = nullMDBNode\<rparr>]"

definition example_mdb :: kstate where
  "example_mdb = blank_state\<lparr>ctes := example_slots\<rparr>"

lemma ctes_example_mdb [simp]: "ctes example_mdb = example_slots"
  by (simp add: example_mdb_def)

lemma example_lists:
  "mdb_list example_mdb [0x1000, 0x1020]" "mdb_list example_mdb [0x1040]"
  by (simp_all add: dlist_def link_of_def example_slots_def mdb_node_new_def nullMDBNode_def)

lemma dom_example_slots: "dom example_slots = {0x1000, 0x1020, 0x1040}"
  by (auto simp: example_slots_def split: if_splits)

lemma example_mdb_wf: "mdb_wf example_mdb"
proof -
  have "\<exists>xs. mdb_list example_mdb xs \<and> p \<in> set xs \<and> set xs \<subseteq> dom example_slots"
    if "p \<in> dom example_slots" for p
  proof (cases "p = 0x1040")
    case True
    then show ?thesis using example_lists(2) by (intro exI [of _ "[0x1040]"]) (auto simp: dom_example_slots)
  next
    case False
    with that show ?thesis
      using example_lists(1) by (intro exI [of _ "[0x1000, 0x1020]"]) (auto simp: dom_example_slots)
  qed
  then show ?thesis by (simp add: mdb_wf_def chains_wf_def example_slots_def)
qed

text \<open>C1: inserting a capability into an empty slot succeeds and puts the slot right after the
  source in the derivation list of the source. The slot holds exactly the new capability, its two
  flags are whether the capability is revocable, and an untyped source of an equal untyped copy is
  marked full; no other capability or flag changes, no slot outside the list and the destination
  is written at all, so that every other derivation list is what it was, and nothing but the slots
  is changed. The slots stay partitioned into well-formed derivation lists.\<close>

theorem cteInsert_refines_insert_after:
  assumes "mdb_wf s" and "mdb_list s (ys @ src # zs)" and "set (ys @ src # zs) \<subseteq> dom (ctes s)"
    and "ctes s src = Some a" and "ctes s dest = Some b" and "src \<noteq> dest"
    and "cte_cap b = cap_null_cap" and "mdbNext (cteMDBNode b) = NULL"
    and "mdbPrev (cteMDBNode b) = NULL" and "isCapRevocable newCap (cte_cap a) = Some r"
  shows "\<exists>s'. cteInsert newCap src dest s = Some s' \<and> mdb_wf s' \<and>
           mdb_list s' (ys @ src # dest # zs) \<and>
           (\<forall>xs. mdb_list s xs \<and> set xs \<inter> set (ys @ src # dest # zs) = {} \<longrightarrow> mdb_list s' xs) \<and>
           caps_of s' = (caps_of s)(src \<mapsto> source_after (cte_cap a) newCap, dest \<mapsto> newCap) \<and>
           flags_of s' = (flags_of s)(dest \<mapsto> (r, r)) \<and>
           s' = s\<lparr>ctes := ctes s'\<rparr> \<and>
           (\<forall>p. p \<notin> set (ys @ src # dest # zs) \<longrightarrow> ctes s' p = ctes s p)"
proof -
  obtain s' where s': "cteInsert newCap src dest s = Some s'" "mdb_wf s'" "mdb_list s' (ys @ src # dest # zs)"
    "caps_of s' = (caps_of s)(src \<mapsto> source_after (cte_cap a) newCap, dest \<mapsto> newCap)"
    "flags_of s' = (flags_of s)(dest \<mapsto> (r, r))" "s' = s\<lparr>ctes := ctes s'\<rparr>"
    "\<forall>p. p \<notin> set (ys @ src # dest # zs) \<longrightarrow> ctes s' p = ctes s p"
    using cteInsert_list [OF assms] by blast
  have "mdb_list s' xs" if "mdb_list s xs" "set xs \<inter> set (ys @ src # dest # zs) = {}" for xs
    by (rule mdb_list_frame [OF that(1)]) (use s'(7) that(2) in blast)
  with s' show ?thesis by blast
qed

lemma cteInsert_refines_insert_after_witness:
  "\<exists>s'. cteInsert (cap_endpoint_cap 9 True True True True 0x4000) 0x1000 0x1040 example_mdb = Some s' \<and>
        mdb_list s' [0x1000, 0x1040, 0x1020] \<and> flags_of s' 0x1040 = Some (True, True)"
proof -
  let ?c = "cap_endpoint_cap 9 True True True True 0x4000" and ?a = "the (example_slots 0x1000)"
  have r: "isCapRevocable ?c (cte_cap ?a) = Some True"
    by (simp add: isCapRevocable_def isArchCap_def cap_endpoint_cap_get_capEPBadge_def example_slots_def)
  have l: "mdb_list example_mdb ([] @ 0x1000 # [0x1020])" "set ([] @ 0x1000 # [0x1020]) \<subseteq> dom (ctes example_mdb)"
    using example_lists(1) by (simp_all add: dom_example_slots)
  have ab: "ctes example_mdb 0x1000 = Some ?a" "ctes example_mdb 0x1040 = Some (the (example_slots 0x1040))"
    by (simp_all add: example_slots_def)
  show ?thesis
    using cteInsert_refines_insert_after [OF example_mdb_wf l ab _ _ _ _ r]
    by (auto simp: example_slots_def nullMDBNode_def mdb_node_new_def)
qed

text \<open>C2: moving a capability puts the destination slot in the place of the source slot in the
  source's derivation list, empties and unlinks the source, and changes no other capability.\<close>

theorem cteMove_refines_replace:
  assumes "mdb_wf s" and "ctes s src = Some a" and "ctes s dest = Some b" and "src \<noteq> dest"
    and "cte_cap b = cap_null_cap" and "cteMDBNode b = nullMDBNode"
    and "mdb_list s (ys @ src # zs)" and "set (ys @ src # zs) \<subseteq> dom (ctes s)"
  shows "\<exists>s'. cteMove newCap src dest s = Some s' \<and> mdb_wf s' \<and> mdb_list s' (ys @ dest # zs) \<and>
           mdb_list s' [src] \<and> caps_of s' = (caps_of s)(src \<mapsto> cap_null_cap, dest \<mapsto> newCap)"
  using assms by (rule cteMove_list)

lemma cteMove_refines_replace_witness:
  "\<exists>s'. cteMove (cap_endpoint_cap 0 True True True True 0x4000) 0x1000 0x1040 example_mdb = Some s' \<and>
        mdb_list s' [0x1040, 0x1020] \<and> mdb_list s' [0x1000]"
proof -
  let ?c = "cap_endpoint_cap 0 True True True True 0x4000"
  have "\<exists>s'. cteMove ?c 0x1000 0x1040 example_mdb = Some s' \<and> mdb_wf s' \<and>
      mdb_list s' ([] @ 0x1040 # [0x1020]) \<and> mdb_list s' [0x1000] \<and>
      caps_of s' = (caps_of example_mdb)(0x1000 \<mapsto> cap_null_cap, 0x1040 \<mapsto> ?c)"
    using example_lists(1)
    by (intro cteMove_refines_replace [where b = "the (example_slots 0x1040)"] example_mdb_wf)
       (auto simp: dom_example_slots example_slots_def)
  then show ?thesis by auto
qed

text \<open>C3: swapping two slots exchanges them in every derivation list, adjacent or not, in one
  list or in two, stores the two capabilities given, and keeps the partition well formed.\<close>

theorem cteSwap_refines_exchange:
  assumes "mdb_wf s" and "ctes s slot1 = Some c" and "ctes s slot2 = Some d" and "slot1 \<noteq> slot2"
  shows "\<exists>s'. cteSwap cap1 slot1 cap2 slot2 s = Some s' \<and> mdb_wf s' \<and>
           (\<forall>xs. set xs \<subseteq> dom (ctes s) \<and> mdb_list s xs \<longrightarrow> mdb_list s' (map (swap_ptr slot1 slot2) xs)) \<and>
           caps_of s' = (caps_of s)(slot1 \<mapsto> cap2, slot2 \<mapsto> cap1)"
  using assms by (rule cteSwap_list)

lemma cteSwap_refines_exchange_witness:
  "\<exists>s'. cteSwap cap_null_cap 0x1000 cap_domain_cap 0x1020 example_mdb = Some s' \<and>
        mdb_list s' [0x1020, 0x1000]"
proof -
  have "\<exists>s'. cteSwap cap_null_cap 0x1000 cap_domain_cap 0x1020 example_mdb = Some s' \<and> mdb_wf s' \<and>
      (\<forall>xs. set xs \<subseteq> dom (ctes example_mdb) \<and> mdb_list example_mdb xs \<longrightarrow>
         mdb_list s' (map (swap_ptr 0x1000 0x1020) xs)) \<and>
      caps_of s' = (caps_of example_mdb)(0x1000 \<mapsto> cap_domain_cap, 0x1020 \<mapsto> cap_null_cap)"
    by (rule cteSwap_refines_exchange [OF example_mdb_wf, where c = "the (example_slots 0x1000)"
          and d = "the (example_slots 0x1020)"])
       (simp_all add: example_slots_def)
  then obtain s' where s': "cteSwap cap_null_cap 0x1000 cap_domain_cap 0x1020 example_mdb = Some s'"
    "\<forall>xs. set xs \<subseteq> dom (ctes example_mdb) \<and> mdb_list example_mdb xs \<longrightarrow>
       mdb_list s' (map (swap_ptr 0x1000 0x1020) xs)" by blast
  from s'(2) example_lists(1) have "mdb_list s' (map (swap_ptr 0x1000 0x1020) [0x1000, 0x1020])"
    by (intro s'(2) [rule_format]) (simp add: dom_example_slots)
  with s'(1) show ?thesis by (simp add: swap_ptr_def)
qed

text \<open>C4: emptying a slot unlinks it from its derivation list, which closes around it, leaves the
  slot null and unlinked, and changes no other capability; the slots stay partitioned.\<close>

theorem emptySlot_refines_remove:
  assumes "mdb_wf s" and "ctes s slot = Some c" and "cte_cap c \<noteq> cap_null_cap"
    and "mdb_list s (ys @ slot # zs)" and "set (ys @ slot # zs) \<subseteq> dom (ctes s)"
  shows "\<exists>s'. emptySlot slot info s = Some s' \<and> mdb_wf s' \<and> mdb_list s' (ys @ zs) \<and>
           mdb_list s' [slot] \<and> caps_of s' = (caps_of s)(slot \<mapsto> cap_null_cap)"
  using assms by (rule emptySlot_list)

lemma emptySlot_refines_remove_witness:
  "\<exists>s'. emptySlot 0x1000 cap_null_cap example_mdb = Some s' \<and> mdb_list s' [0x1020]"
proof -
  have "\<exists>s'. emptySlot 0x1000 cap_null_cap example_mdb = Some s' \<and> mdb_wf s' \<and> mdb_list s' ([] @ [0x1020]) \<and>
      mdb_list s' [0x1000] \<and> caps_of s' = (caps_of example_mdb)(0x1000 \<mapsto> cap_null_cap)"
    by (rule emptySlot_refines_remove [OF example_mdb_wf, where c = "the (example_slots 0x1000)"])
       (use example_lists in \<open>simp_all add: example_slots_def subset_iff\<close>)
  then show ?thesis by auto
qed

end
