(* ===== verification/Ready_Queues.thy ===== *)
theory Ready_Queues
  imports Kernel_Types
begin

text \<open>
  The ready queues: \<^verbatim>\<open>tcb_queue_*\<close> and the two-level bitmap of \<^verbatim>\<open>include/object/tcb.h\<close>,
  \<^verbatim>\<open>include/kernel/thread.h\<close> and \<^verbatim>\<open>src/object/tcb.c\<close>. The queues refine one list of threads
  per domain and priority: enqueue, append and dequeue are the list operations, and the bitmap
  finds the highest priority of a non-empty queue.
\<close>

section \<open>Index arithmetic\<close>

abbreviation (input) L2_BITMAP_SIZE :: word_t where "L2_BITMAP_SIZE \<equiv> 4"

definition ready_queues_index :: "word_t \<Rightarrow> word_t \<Rightarrow> kstate \<Rightarrow> word_t option" where
  "ready_queues_index dm prio s =
     (if numDomains s > 1 then Some (dm * CONFIG_NUM_PRIORITIES + prio)
      else do { assert_opt (dm = 0); Some prio })"

definition prio_to_l1index :: "word_t \<Rightarrow> word_t" where
  "prio_to_l1index prio = shiftr prio wordRadix"

definition l1index_to_prio :: "word_t \<Rightarrow> word_t" where
  "l1index_to_prio l1index = shiftl l1index wordRadix"

definition invert_l1index :: "word_t \<Rightarrow> word_t option" where
  "invert_l1index l1index =
     (let inverted = L2_BITMAP_SIZE - 1 - l1index in
      do { assert_opt (inverted < L2_BITMAP_SIZE); Some inverted })"

text \<open>Count leading zeros, \<^verbatim>\<open>clzl\<close>.\<close>

definition clzl :: "word_t \<Rightarrow> word_t" where
  "clzl w = of_nat (length (takeWhile Not (map (bit w) (rev [0..<64]))))"

definition getHighestPrio :: "word_t \<Rightarrow> kstate \<Rightarrow> word_t option" where
  "getHighestPrio dm s =
     do { assert_opt (ksReadyQueuesL1Bitmap s dm \<noteq> 0);
          let l1index = wordBits - 1 - clzl (ksReadyQueuesL1Bitmap s dm);
          l1index_inverted \<leftarrow> invert_l1index l1index;
          assert_opt (ksReadyQueuesL2Bitmap s dm l1index_inverted \<noteq> 0);
          let l2index = wordBits - 1 - clzl (ksReadyQueuesL2Bitmap s dm l1index_inverted);
          Some (l1index_to_prio l1index OR l2index) }"

definition isHighestPrio :: "word_t \<Rightarrow> word_t \<Rightarrow> kstate \<Rightarrow> bool option" where
  "isHighestPrio dm prio s =
     (if ksReadyQueuesL1Bitmap s dm = 0 then Some True
      else do { p \<leftarrow> getHighestPrio dm s; Some (prio \<ge> p) })"

definition addToBitmap :: "word_t \<Rightarrow> word_t \<Rightarrow> kstate \<Rightarrow> kstate option" where
  "addToBitmap dm prio s =
     (let l1index = prio_to_l1index prio in
      do { l1index_inverted \<leftarrow> invert_l1index l1index;
           let s = s\<lparr>ksReadyQueuesL1Bitmap := (ksReadyQueuesL1Bitmap s)
                       (dm := ksReadyQueuesL1Bitmap s dm OR BIT l1index)\<rparr>;
           Some (s\<lparr>ksReadyQueuesL2Bitmap := (ksReadyQueuesL2Bitmap s)
             (dm := (ksReadyQueuesL2Bitmap s dm)
               (l1index_inverted :=
                  ksReadyQueuesL2Bitmap s dm l1index_inverted OR BIT (prio AND MASK wordRadix)))\<rparr>) })"

definition removeFromBitmap :: "word_t \<Rightarrow> word_t \<Rightarrow> kstate \<Rightarrow> kstate option" where
  "removeFromBitmap dm prio s =
     (let l1index = prio_to_l1index prio in
      do { l1index_inverted \<leftarrow> invert_l1index l1index;
           let s = s\<lparr>ksReadyQueuesL2Bitmap := (ksReadyQueuesL2Bitmap s)
             (dm := (ksReadyQueuesL2Bitmap s dm)
               (l1index_inverted :=
                  ksReadyQueuesL2Bitmap s dm l1index_inverted AND NOT (BIT (prio AND MASK wordRadix))))\<rparr>;
           Some (if ksReadyQueuesL2Bitmap s dm l1index_inverted = 0
                 then s\<lparr>ksReadyQueuesL1Bitmap := (ksReadyQueuesL1Bitmap s)
                          (dm := ksReadyQueuesL1Bitmap s dm AND NOT (BIT l1index))\<rparr>
                 else s) })"

section \<open>The queues\<close>

definition tcb_queue_empty :: "tcb_queue_t \<Rightarrow> bool" where
  "tcb_queue_empty queue \<longleftrightarrow> qhead queue = NULL"

definition tcb_queue_prepend :: "tcb_queue_t \<Rightarrow> ptr \<Rightarrow> kstate \<Rightarrow> (tcb_queue_t \<times> kstate) option" where
  "tcb_queue_prepend queue tcb s =
     (if tcb_queue_empty queue then Some (queue\<lparr>qend := tcb, qhead := tcb\<rparr>, s)
      else do { s \<leftarrow> tcb_upd tcb (\<lambda>t. t\<lparr>tcbSchedNext := qhead queue\<rparr>) s;
                s \<leftarrow> tcb_upd (qhead queue) (\<lambda>t. t\<lparr>tcbSchedPrev := tcb\<rparr>) s;
                Some (queue\<lparr>qhead := tcb\<rparr>, s) })"

definition tcb_queue_append :: "tcb_queue_t \<Rightarrow> ptr \<Rightarrow> kstate \<Rightarrow> (tcb_queue_t \<times> kstate) option" where
  "tcb_queue_append queue tcb s =
     (if tcb_queue_empty queue then Some (queue\<lparr>qhead := tcb, qend := tcb\<rparr>, s)
      else do { s \<leftarrow> tcb_upd tcb (\<lambda>t. t\<lparr>tcbSchedPrev := qend queue\<rparr>) s;
                s \<leftarrow> tcb_upd (qend queue) (\<lambda>t. t\<lparr>tcbSchedNext := tcb\<rparr>) s;
                Some (queue\<lparr>qend := tcb\<rparr>, s) })"

definition tcb_queue_remove :: "tcb_queue_t \<Rightarrow> ptr \<Rightarrow> kstate \<Rightarrow> (tcb_queue_t \<times> kstate) option" where
  "tcb_queue_remove queue tcb s =
     do { t \<leftarrow> tcbs s tcb;
          let before = tcbSchedPrev t;
          let after = tcbSchedNext t;
          if qhead queue = tcb \<and> qend queue = tcb then
            Some (queue\<lparr>qhead := NULL, qend := NULL\<rparr>, s)
          else if qhead queue = tcb then
            do { s \<leftarrow> tcb_upd after (\<lambda>t. t\<lparr>tcbSchedPrev := NULL\<rparr>) s;
                 s \<leftarrow> tcb_upd tcb (\<lambda>t. t\<lparr>tcbSchedNext := NULL\<rparr>) s;
                 Some (queue\<lparr>qhead := after\<rparr>, s) }
          else if qend queue = tcb then
            do { s \<leftarrow> tcb_upd before (\<lambda>t. t\<lparr>tcbSchedNext := NULL\<rparr>) s;
                 s \<leftarrow> tcb_upd tcb (\<lambda>t. t\<lparr>tcbSchedPrev := NULL\<rparr>) s;
                 Some (queue\<lparr>qend := before\<rparr>, s) }
          else
            do { s \<leftarrow> tcb_upd before (\<lambda>t. t\<lparr>tcbSchedNext := after\<rparr>) s;
                 s \<leftarrow> tcb_upd after (\<lambda>t. t\<lparr>tcbSchedPrev := before\<rparr>) s;
                 s \<leftarrow> tcb_upd tcb (\<lambda>t. t\<lparr>tcbSchedPrev := NULL\<rparr>) s;
                 s \<leftarrow> tcb_upd tcb (\<lambda>t. t\<lparr>tcbSchedNext := NULL\<rparr>) s;
                 Some (queue, s) } }"

definition set_ready_queue :: "word_t \<Rightarrow> tcb_queue_t \<Rightarrow> kstate \<Rightarrow> kstate" where
  "set_ready_queue idx q s = s\<lparr>ksReadyQueues := (ksReadyQueues s)(idx := q)\<rparr>"

definition tcbSchedEnqueue :: "ptr \<Rightarrow> kstate \<Rightarrow> kstate option" where
  "tcbSchedEnqueue tcb s =
     do { t \<leftarrow> tcbs s tcb;
          if \<not> tcbQueued (tcbState t) then
            do { let dm = tcbDomain t;
                 let prio = tcbPriority t;
                 idx \<leftarrow> ready_queues_index dm prio s;
                 let queue = ksReadyQueues s idx;
                 s \<leftarrow> (if tcb_queue_empty queue then addToBitmap dm prio s else Some s);
                 (q, s) \<leftarrow> tcb_queue_prepend queue tcb s;
                 let s = set_ready_queue idx q s;
                 ts_upd tcb (\<lambda>ts. ts\<lparr>tcbQueued := True\<rparr>) s }
          else Some s }"

definition tcbSchedAppend :: "ptr \<Rightarrow> kstate \<Rightarrow> kstate option" where
  "tcbSchedAppend tcb s =
     do { t \<leftarrow> tcbs s tcb;
          if \<not> tcbQueued (tcbState t) then
            do { let dm = tcbDomain t;
                 let prio = tcbPriority t;
                 idx \<leftarrow> ready_queues_index dm prio s;
                 let queue = ksReadyQueues s idx;
                 s \<leftarrow> (if tcb_queue_empty queue then addToBitmap dm prio s else Some s);
                 (q, s) \<leftarrow> tcb_queue_append queue tcb s;
                 let s = set_ready_queue idx q s;
                 ts_upd tcb (\<lambda>ts. ts\<lparr>tcbQueued := True\<rparr>) s }
          else Some s }"

definition tcbSchedDequeue :: "ptr \<Rightarrow> kstate \<Rightarrow> kstate option" where
  "tcbSchedDequeue tcb s =
     do { t \<leftarrow> tcbs s tcb;
          if tcbQueued (tcbState t) then
            do { let dm = tcbDomain t;
                 let prio = tcbPriority t;
                 idx \<leftarrow> ready_queues_index dm prio s;
                 let queue = ksReadyQueues s idx;
                 (new_queue, s) \<leftarrow> tcb_queue_remove queue tcb s;
                 let s = set_ready_queue idx new_queue s;
                 s \<leftarrow> ts_upd tcb (\<lambda>ts. ts\<lparr>tcbQueued := False\<rparr>) s;
                 if tcb_queue_empty new_queue then removeFromBitmap dm prio s else Some s }
          else Some s }"

section \<open>The bitmap\<close>

text \<open>A bit is set exactly for the priorities \<open>ne\<close>, a first-level bit for the words in use.\<close>

definition bitmap_ok :: "word_t \<Rightarrow> (word_t \<Rightarrow> word_t) \<Rightarrow> (nat \<Rightarrow> bool) \<Rightarrow> bool" where
  "bitmap_ok l1 l2 ne \<longleftrightarrow>
     (\<forall>p < 256. bit (l2 (3 - of_nat (p div 64))) (p mod 64) = ne p) \<and>
     (\<forall>i < 64. bit l1 i \<longleftrightarrow> i < 4 \<and> l2 (3 - of_nat i) \<noteq> 0)"

lemma clzl_highest:
  assumes "w \<noteq> 0"
  obtains h where "h < 64" and "bit w h" and "\<And>i. h < i \<Longrightarrow> \<not> bit w i"
    and "wordBits - 1 - clzl w = of_nat h"
proof -
  let ?xs = "map (bit w) (rev [0..<64])"
  define n where "n = length (takeWhile Not ?xs)"
  have len: "length ?xs = 64" by simp
  have nth: "?xs ! i = bit w (63 - i)" if "i < 64" for i
    using that by (simp add: rev_nth)
  have "n < 64"
  proof (rule ccontr)
    assume "\<not> n < 64"
    then have "n = length ?xs"
      using length_takeWhile_le [of Not ?xs] by (simp add: n_def)
    then have "takeWhile Not ?xs = ?xs"
      by (metis n_def takeWhile_eq_take take_all_iff order_refl)
    then have all: "\<forall>b \<in> set ?xs. \<not> b" by (metis takeWhile_eq_all_conv)
    have "\<not> bit w i" for i
    proof (cases "i < 64")
      case True
      with all show ?thesis by auto
    next
      case False
      then show ?thesis using bit_imp_le_length [of w i] by auto
    qed
    with assms show False by (simp add: bit_eq_iff)
  qed
  then have "bit w (63 - n)"
    using nth_length_takeWhile [of Not ?xs] nth [of n] by (simp add: n_def)
  moreover have "\<not> bit w i" if "63 - n < i" for i
  proof (cases "i < 64")
    case True
    with that have "63 - i < n" by simp
    then have "takeWhile Not ?xs ! (63 - i) = ?xs ! (63 - i)" "63 - i < length (takeWhile Not ?xs)"
      by (simp_all add: takeWhile_nth n_def)
    then have "\<not> ?xs ! (63 - i)" by (metis nth_mem set_takeWhileD)
    with nth [of "63 - i"] True show ?thesis by simp
  next
    case False
    then show ?thesis using bit_imp_le_length [of w i] by auto
  qed
  moreover have "wordBits - 1 - clzl w = of_nat (63 - n)"
    using \<open>n < 64\<close> by (simp add: clzl_def n_def [symmetric] of_nat_diff)
  ultimately show ?thesis using that [of "63 - n"] by simp
qed

lemma l2_index_inj: "i < 4 \<Longrightarrow> j < 4 \<Longrightarrow> (3 - of_nat i :: word_t) = 3 - of_nat j \<longleftrightarrow> i = j"
  by (simp add: word_unat_eq_iff [of "of_nat i"] unat_of_nat)

lemma invert_l1index_Some: "i < 4 \<Longrightarrow> invert_l1index (of_nat i) = Some (3 - of_nat i)"
proof -
  assume "i < 4"
  then have "i \<in> {0, 1, 2, 3}" by auto
  then show ?thesis by (auto simp: invert_l1index_def)
qed

lemma prio_to_l1index_of: "unat p < 256 \<Longrightarrow> prio_to_l1index p = of_nat (unat p div 64)"
  by (simp add: prio_to_l1index_def word_unat_eq_iff unat_shiftr unat_of_nat)

lemma bit_BIT_low: "bit (BIT (p AND MASK wordRadix)) j \<longleftrightarrow> j = unat p mod 64"
  using mod_less_divisor [of 64 "unat p"] by (auto simp: bit_BIT unat_and_MASK)

lemma l2_upd_index:
  "q < (256::nat) \<Longrightarrow> k < 4 \<Longrightarrow>
   (f(3 - of_nat k := v)) (3 - of_nat (q div 64) :: word_t) =
   (if q div 64 = k then v else f (3 - of_nat (q div 64)))"
  using l2_index_inj [of "q div 64" k] by auto

lemma bitmap_add:
  assumes ok: "bitmap_ok l1 l2 ne" and p: "unat p < 256"
  defines "i \<equiv> 3 - of_nat (unat p div 64)"
  shows "bitmap_ok (l1 OR BIT (of_nat (unat p div 64))) (l2(i := l2 i OR BIT (p AND MASK wordRadix)))
           (ne(unat p := True))"
proof -
  have k4: "unat p div 64 < 4" using p by simp
  have uk: "unat (of_nat (unat p div 64) :: word_t) = unat p div 64" using k4 by (simp add: unat_of_nat)
  have "l2 i OR BIT (p AND MASK wordRadix) \<noteq> 0"
  proof
    assume "l2 i OR BIT (p AND MASK wordRadix) = 0"
    then have "\<not> bit (l2 i OR BIT (p AND MASK wordRadix)) (unat p mod 64)" by simp
    then show False using bit_BIT_low [of p "unat p mod 64"] by (simp add: bit_or_iff)
  qed
  moreover have "bit ((l2(i := l2 i OR BIT (p AND MASK wordRadix))) (3 - of_nat (q div 64))) (q mod 64) =
      (ne(unat p := True)) q"
    if q: "q < 256" for q
  proof -
    have "q = unat p \<longleftrightarrow> q div 64 = unat p div 64 \<and> q mod 64 = unat p mod 64"
      by (metis mod_div_mult_eq)
    with ok q show ?thesis
      unfolding i_def l2_upd_index [OF q k4] by (auto simp: bitmap_ok_def bit_or_iff bit_BIT_low)
  qed
  moreover have "bit (l1 OR BIT (of_nat (unat p div 64))) j \<longleftrightarrow>
      j < 4 \<and> (l2(i := l2 i OR BIT (p AND MASK wordRadix))) (3 - of_nat j) \<noteq> 0" if "j < 64" for j
    using ok that k4 calculation(1) l2_index_inj [OF _ k4, of j]
    by (cases "j = unat p div 64") (auto simp: bitmap_ok_def i_def bit_or_iff bit_BIT uk)
  ultimately show ?thesis
    unfolding bitmap_ok_def by blast
qed

lemma bitmap_remove:
  assumes ok: "bitmap_ok l1 l2 ne" and p: "unat p < 256"
  defines "i \<equiv> 3 - of_nat (unat p div 64)"
  defines "w \<equiv> l2 i AND NOT (BIT (p AND MASK wordRadix))"
  shows "bitmap_ok (if w = 0 then l1 AND NOT (BIT (of_nat (unat p div 64))) else l1) (l2(i := w))
           (ne(unat p := False))"
proof -
  have k4: "unat p div 64 < 4" using p by simp
  have uk: "unat (of_nat (unat p div 64) :: word_t) = unat p div 64" using k4 by (simp add: unat_of_nat)
  have "bit ((l2(i := w)) (3 - of_nat (q div 64))) (q mod 64) = (ne(unat p := False)) q" if q: "q < 256" for q
  proof -
    have "q = unat p \<longleftrightarrow> q div 64 = unat p div 64 \<and> q mod 64 = unat p mod 64"
      by (metis mod_div_mult_eq)
    with ok q show ?thesis
      unfolding i_def l2_upd_index [OF q k4]
      by (auto simp: bitmap_ok_def w_def i_def bit_and_iff bit_not_iff bit_BIT_low)
  qed
  moreover have "w \<noteq> 0 \<Longrightarrow> l2 i \<noteq> 0" by (auto simp: w_def)
  moreover have "bit (if w = 0 then l1 AND NOT (BIT (of_nat (unat p div 64))) else l1) j \<longleftrightarrow>
      j < 4 \<and> (l2(i := w)) (3 - of_nat j) \<noteq> 0" if "j < 64" for j
    using ok that k4 calculation(2) l2_index_inj [OF _ k4, of j]
    by (cases "j = unat p div 64") (auto simp: bitmap_ok_def i_def bit_and_iff bit_not_iff bit_BIT uk)
  ultimately show ?thesis
    unfolding bitmap_ok_def by blast
qed

lemma l1_l2_to_prio:
  assumes "h < 4" and "k < 64"
  shows "l1index_to_prio (of_nat h) OR of_nat k = of_nat (64 * h + k)"
proof -
  have "\<not> bit (push_bit 6 (of_nat h) :: word_t) n \<or> \<not> bit (of_nat k :: word_t) n" for n
  proof (cases "n < 6")
    case False
    then have "(2::nat) ^ 6 \<le> 2 ^ n" by (intro power_increasing) auto
    with assms(2) have "k div 2 ^ n = 0" by simp
    then have "\<not> bit k n" by (simp add: bit_iff_odd)
    then show ?thesis by (simp add: bit_of_nat_iff)
  qed (simp add: bit_push_bit_iff)
  then have "(push_bit 6 (of_nat h) :: word_t) OR of_nat k = push_bit 6 (of_nat h) + of_nat k"
    by (simp add: disjunctive_add)
  then show ?thesis
    by (simp add: l1index_to_prio_def shiftl_def push_bit_eq_mult)
qed

lemma getHighestPrio_Max:
  assumes ok: "bitmap_ok (ksReadyQueuesL1Bitmap s d) (ksReadyQueuesL2Bitmap s d) ne"
    and some: "q < 256" "ne q"
  shows "getHighestPrio d s = Some (of_nat (Max {p. p < 256 \<and> ne p}))"
proof -
  let ?l1 = "ksReadyQueuesL1Bitmap s d" and ?l2 = "ksReadyQueuesL2Bitmap s d"
  have l1: "bit ?l1 i \<longleftrightarrow> i < 4 \<and> ?l2 (3 - of_nat i) \<noteq> 0" if "i < 64" for i
    using ok that by (simp add: bitmap_ok_def)
  have l2: "bit (?l2 (3 - of_nat (p div 64))) (p mod 64) = ne p" if "p < 256" for p
    using ok that by (simp add: bitmap_ok_def)
  have used: "bit ?l1 (p div 64)" if "p < 256" "ne p" for p
  proof -
    from that l2 have "?l2 (3 - of_nat (p div 64)) \<noteq> 0" by (metis bit_0_eq bot_apply bot_bool_def)
    with that l1 [of "p div 64"] show ?thesis by simp
  qed
  have "?l1 \<noteq> 0" using used [OF some] by auto
  then obtain h where h: "h < 64" "bit ?l1 h" "\<And>i. h < i \<Longrightarrow> \<not> bit ?l1 i"
    "wordBits - 1 - clzl ?l1 = of_nat h" using clzl_highest by metis
  then have h4: "h < 4" "?l2 (3 - of_nat h) \<noteq> 0" using l1 by auto
  from h4(2) obtain k where k: "k < 64" "bit (?l2 (3 - of_nat h)) k"
    "\<And>i. k < i \<Longrightarrow> \<not> bit (?l2 (3 - of_nat h)) i"
    "wordBits - 1 - clzl (?l2 (3 - of_nat h)) = of_nat k" using clzl_highest by metis
  have div: "(64 * h + k) div 64 = h" "(64 * h + k) mod 64 = k" using k(1) by auto
  have "Max {p. p < 256 \<and> ne p} = 64 * h + k"
  proof (rule Max_eqI)
    show "64 * h + k \<in> {p. p < 256 \<and> ne p}"
      using l2 [of "64 * h + k"] h4 k div by simp
    fix p assume "p \<in> {p. p < 256 \<and> ne p}"
    then have p: "p < 256" "ne p" by auto
    from used [OF p] h(3) have "p div 64 \<le> h" by (meson not_le)
    moreover have "p mod 64 \<le> k" if "p div 64 = h"
      using l2 [OF p(1)] p(2) that k(3) by (metis not_le)
    moreover have "p = 64 * (p div 64) + p mod 64" by simp
    ultimately show "p \<le> 64 * h + k"
      using k(1) mod_less_divisor [of 64 p] by (cases "p div 64 = h") linarith+
  qed simp
  with \<open>?l1 \<noteq> 0\<close> h(4) h4 k(4) show ?thesis
    by (simp add: getHighestPrio_def Let_def invert_l1index_Some l1_l2_to_prio [OF h4(1) k(1)])
qed

section \<open>The abstract queues\<close>

text \<open>A list of threads for every domain and priority. \<open>rq_idx\<close> is where its head and tail are.\<close>

type_synonym ready_lists = "word_t \<Rightarrow> word_t \<Rightarrow> ptr list"

definition rq_idx :: "kstate \<Rightarrow> word_t \<Rightarrow> word_t \<Rightarrow> word_t" where
  "rq_idx s d p = (if numDomains s > 1 then d * CONFIG_NUM_PRIORITIES + p else p)"

definition queue_of :: "ptr list \<Rightarrow> tcb_queue_t" where
  "queue_of xs = \<lparr>qhead = first_or NULL xs, qend = last_or NULL xs\<rparr>"

definition in_queue :: "kstate \<Rightarrow> ptr \<Rightarrow> word_t \<Rightarrow> word_t \<Rightarrow> bool" where
  "in_queue s t d p \<longleftrightarrow>
     (case tcbs s t of None \<Rightarrow> False
      | Some T \<Rightarrow> tcbQueued (tcbState T) \<and> tcbDomain T = d \<and> tcbPriority T = p)"

definition rq_set :: "ready_lists \<Rightarrow> word_t \<Rightarrow> word_t \<Rightarrow> ptr list \<Rightarrow> ready_lists" where
  "rq_set rq d p xs = rq(d := (rq d)(p := xs))"

definition tcbs_ok :: "kstate \<Rightarrow> bool" where
  "tcbs_ok s \<longleftrightarrow>
     tcbs s NULL = None \<and> 0 < numDomains s \<and> numDomains s \<le> 256 \<and>
     (\<forall>t T. tcbs s t = Some T \<longrightarrow>
        tcbDomain T < numDomains s \<and> tcbPriority T < 256 \<and>
        (\<not> tcbQueued (tcbState T) \<longrightarrow> tcbSchedNext T = NULL \<and> tcbSchedPrev T = NULL))"

definition ready_queues_ok :: "kstate \<Rightarrow> ready_lists \<Rightarrow> bool" where
  "ready_queues_ok s rq \<longleftrightarrow>
     tcbs_ok s \<and>
     (\<forall>d p. d < numDomains s \<longrightarrow> p < 256 \<longrightarrow>
        ksReadyQueues s (rq_idx s d p) = queue_of (rq d p) \<and>
        dlist (sched_next s) (sched_prev s) (rq d p)) \<and>
     (\<forall>d p t. t \<in> set (rq d p) \<longleftrightarrow> in_queue s t d p) \<and>
     (\<forall>d. d < numDomains s \<longrightarrow>
        bitmap_ok (ksReadyQueuesL1Bitmap s d) (ksReadyQueuesL2Bitmap s d) (\<lambda>p. rq d (of_nat p) \<noteq> []))"

lemma word_below_one:
  assumes "(d :: word_t) < n" and "\<not> 1 < n"
  shows "d = 0"
proof -
  from assms have "unat d = 0" by (simp add: word_less_nat_alt)
  then show ?thesis by (simp add: unat_eq_0)
qed

lemma rq_idx_inj:
  assumes "numDomains s \<le> 256" and "d < numDomains s" and "d' < numDomains s" and "p < 256" and "p' < 256"
  shows "rq_idx s d p = rq_idx s d' p' \<longleftrightarrow> d = d' \<and> p = p'"
proof (cases "numDomains s > 1")
  case True
  have b: "unat d < 256" "unat d' < 256" "unat p < 256" "unat p' < 256"
    using assms by (auto simp: word_less_nat_alt word_le_nat_alt)
  have "unat (x * 256 + y) = unat x * 256 + unat y" if "unat x < 256" "unat y < 256" for x y :: word_t
    using that by (simp add: unat_word_ariths)
  with b have "rq_idx s d p = rq_idx s d' p' \<longleftrightarrow> unat d * 256 + unat p = unat d' * 256 + unat p'"
    using True by (simp add: rq_idx_def word_unat_eq_iff)
  also have "\<dots> \<longleftrightarrow> unat d = unat d' \<and> unat p = unat p'"
  proof
    assume eq: "unat d * 256 + unat p = unat d' * 256 + unat p'"
    then have "(unat d * 256 + unat p) div 256 = (unat d' * 256 + unat p') div 256"
      and "(unat d * 256 + unat p) mod 256 = (unat d' * 256 + unat p') mod 256" by simp_all
    with b show "unat d = unat d' \<and> unat p = unat p'" by simp
  qed simp
  finally show ?thesis by (simp add: word_unat_eq_iff)
next
  case False
  then have "d = 0" "d' = 0" using word_below_one assms by blast+
  with False show ?thesis by (simp add: rq_idx_def)
qed

lemma ready_queues_index_Some:
  assumes "tcbs_ok s" and "d < numDomains s"
  shows "ready_queues_index d p s = Some (rq_idx s d p)"
proof (cases "numDomains s > 1")
  case False
  then have "d = 0" using word_below_one assms(2) by blast
  with False show ?thesis by (simp add: ready_queues_index_def rq_idx_def)
qed (simp add: ready_queues_index_def rq_idx_def)

text \<open>One queue is replaced and everything else about the queues is as before.\<close>

lemma ready_queues_step:
  assumes ok: "ready_queues_ok s rq" and d: "d < numDomains s" and p: "p < 256"
    and nd: "numDomains s' = numDomains s"
    and q: "ksReadyQueues s' = (ksReadyQueues s)(rq_idx s d p := queue_of ys)"
    and ys: "dlist (sched_next s') (sched_prev s') ys"
    and out: "\<And>t. t \<notin> set (rq d p) \<union> set ys \<Longrightarrow> tcbs s' t = tcbs s t"
    and ins: "\<And>t. t \<in> set (rq d p) \<union> set ys \<Longrightarrow>
        \<exists>T T'. tcbs s t = Some T \<and> tcbs s' t = Some T' \<and> tcbDomain T = d \<and> tcbPriority T = p \<and>
               tcbDomain T' = d \<and> tcbPriority T' = p \<and> (tcbQueued (tcbState T') \<longleftrightarrow> t \<in> set ys) \<and>
               (\<not> tcbQueued (tcbState T') \<longrightarrow> tcbSchedNext T' = NULL \<and> tcbSchedPrev T' = NULL)"
    and bm: "bitmap_ok (ksReadyQueuesL1Bitmap s' d) (ksReadyQueuesL2Bitmap s' d)
               ((\<lambda>k. rq d (of_nat k) \<noteq> [])(unat p := ys \<noteq> []))"
    and bm': "\<And>e. e \<noteq> d \<Longrightarrow> ksReadyQueuesL1Bitmap s' e = ksReadyQueuesL1Bitmap s e \<and>
                ksReadyQueuesL2Bitmap s' e = ksReadyQueuesL2Bitmap s e"
  shows "ready_queues_ok s' (rq_set rq d p ys)"
proof -
  have t_ok: "tcbs_ok s" and n256: "numDomains s \<le> 256"
    using ok by (auto simp: ready_queues_ok_def tcbs_ok_def)
  have mem: "t \<in> set (rq e k) \<longleftrightarrow> in_queue s t e k" for t e k
    using ok by (simp add: ready_queues_ok_def)
  have mem': "in_queue s' t e k \<longleftrightarrow> t \<in> set (rq_set rq d p ys e k)" for t e k
  proof (cases "t \<in> set (rq d p) \<union> set ys")
    case True
    from ins [OF True] obtain T T' where "tcbs s t = Some T" "tcbs s' t = Some T'" "tcbDomain T = d"
      "tcbPriority T = p" "tcbDomain T' = d" "tcbPriority T' = p" "tcbQueued (tcbState T') \<longleftrightarrow> t \<in> set ys"
      by blast
    then show ?thesis using mem [of t e k] by (auto simp: in_queue_def rq_set_def)
  next
    case False
    with out [OF False] mem [of t e k] show ?thesis by (auto simp: in_queue_def rq_set_def)
  qed
  have "tcbs_ok s'"
  proof -
    have "NULL \<notin> set (rq d p) \<union> set ys" using ins t_ok by (fastforce simp: tcbs_ok_def)
    then have "tcbs s' NULL = None" using out t_ok by (simp add: tcbs_ok_def)
    moreover have "tcbDomain T' < numDomains s \<and> tcbPriority T' < 256 \<and>
        (\<not> tcbQueued (tcbState T') \<longrightarrow> tcbSchedNext T' = NULL \<and> tcbSchedPrev T' = NULL)"
      if "tcbs s' t = Some T'" for t T'
      using that ins [of t] out [of t] t_ok d p
      by (cases "t \<in> set (rq d p) \<union> set ys") (auto simp: tcbs_ok_def)
    ultimately show ?thesis using t_ok nd by (auto simp: tcbs_ok_def)
  qed
  moreover have "ksReadyQueues s' (rq_idx s' e k) = queue_of (rq_set rq d p ys e k) \<and>
      dlist (sched_next s') (sched_prev s') (rq_set rq d p ys e k)"
    if e: "e < numDomains s'" and k: "k < 256" for e k
  proof (cases "e = d \<and> k = p")
    case True
    then show ?thesis using q ys by (simp add: rq_set_def rq_idx_def nd)
  next
    case False
    have idx: "rq_idx s e k \<noteq> rq_idx s d p" using rq_idx_inj [OF n256 _ d k p, of e] e nd False by auto
    have old: "ksReadyQueues s (rq_idx s e k) = queue_of (rq e k)"
      "dlist (sched_next s) (sched_prev s) (rq e k)"
      using ok e k nd by (simp_all add: ready_queues_ok_def)
    have same: "tcbs s' t = tcbs s t" if "t \<in> set (rq e k)" for t
    proof (rule out)
      show "t \<notin> set (rq d p) \<union> set ys"
      proof
        assume "t \<in> set (rq d p) \<union> set ys"
        from ins [OF this] that False mem [of t e k] show False by (auto simp: in_queue_def)
      qed
    qed
    have "dlist (sched_next s') (sched_prev s') (rq e k)"
      using old(2) same by (subst dlist_cong [where nx = "sched_next s" and pv = "sched_prev s"])
        (auto simp: link_of_def)
    with old(1) idx False q nd show ?thesis by (auto simp: rq_set_def rq_idx_def)
  qed
  moreover have "bitmap_ok (ksReadyQueuesL1Bitmap s' e) (ksReadyQueuesL2Bitmap s' e)
      (\<lambda>k. rq_set rq d p ys e (of_nat k) \<noteq> [])" if e: "e < numDomains s'" for e
  proof (cases "e = d")
    case True
    have "(of_nat k = p) \<longleftrightarrow> k = unat p" if "k < 256" for k
      using that by (auto simp: word_unat_eq_iff unat_of_nat)
    with bm True show ?thesis by (auto simp: bitmap_ok_def rq_set_def)
  next
    case False
    with bm' [OF False] ok e nd show ?thesis by (simp add: ready_queues_ok_def rq_set_def)
  qed
  ultimately show ?thesis by (simp add: ready_queues_ok_def mem')
qed

section \<open>Enqueue, append and dequeue refine the list operations\<close>

lemma ready_queues_okD:
  assumes "ready_queues_ok s rq" and "tcbs s t = Some T"
  shows "tcbDomain T < numDomains s" and "tcbPriority T < 256" and "t \<noteq> NULL"
    and "ready_queues_index (tcbDomain T) (tcbPriority T) s = Some (rq_idx s (tcbDomain T) (tcbPriority T))"
    and "ksReadyQueues s (rq_idx s (tcbDomain T) (tcbPriority T)) = queue_of (rq (tcbDomain T) (tcbPriority T))"
    and "dlist (sched_next s) (sched_prev s) (rq (tcbDomain T) (tcbPriority T))"
    and "t \<in> set (rq (tcbDomain T) (tcbPriority T)) \<longleftrightarrow> tcbQueued (tcbState T)"
    and "bitmap_ok (ksReadyQueuesL1Bitmap s (tcbDomain T)) (ksReadyQueuesL2Bitmap s (tcbDomain T))
           (\<lambda>p. rq (tcbDomain T) (of_nat p) \<noteq> [])"
proof -
  show 1: "tcbDomain T < numDomains s" "tcbPriority T < 256" and "t \<noteq> NULL"
    using assms by (auto simp: ready_queues_ok_def tcbs_ok_def)
  show "ready_queues_index (tcbDomain T) (tcbPriority T) s = Some (rq_idx s (tcbDomain T) (tcbPriority T))"
    using 1 assms by (simp add: ready_queues_ok_def ready_queues_index_Some)
  show "ksReadyQueues s (rq_idx s (tcbDomain T) (tcbPriority T)) = queue_of (rq (tcbDomain T) (tcbPriority T))"
    and "dlist (sched_next s) (sched_prev s) (rq (tcbDomain T) (tcbPriority T))"
    and "bitmap_ok (ksReadyQueuesL1Bitmap s (tcbDomain T)) (ksReadyQueuesL2Bitmap s (tcbDomain T))
           (\<lambda>p. rq (tcbDomain T) (of_nat p) \<noteq> [])"
    using 1 assms by (simp_all add: ready_queues_ok_def)
  show "t \<in> set (rq (tcbDomain T) (tcbPriority T)) \<longleftrightarrow> tcbQueued (tcbState T)"
    using assms by (simp add: ready_queues_ok_def in_queue_def)
qed

lemma queued_member:
  assumes "ready_queues_ok s rq" and "x \<in> set (rq d p)"
  obtains X where "tcbs s x = Some X" and "tcbDomain X = d" and "tcbPriority X = p"
    and "tcbQueued (tcbState X)"
  using assms that by (auto simp: ready_queues_ok_def in_queue_def split: option.splits)

text \<open>The bitmap after an enqueue (the code sets the bits when the queue was empty, when they are
  set already they stay).\<close>

lemma bitmap_same:
  assumes "bitmap_ok l1 l2 ne" and "ne (unat p) = b"
  shows "bitmap_ok l1 l2 (ne(unat p := b))"
  using assms by (simp add: fun_upd_idem)

lemma addToBitmap_run:
  assumes "p < 256"
  shows "addToBitmap d p s = Some (s\<lparr>
    ksReadyQueuesL1Bitmap := (ksReadyQueuesL1Bitmap s)
      (d := ksReadyQueuesL1Bitmap s d OR BIT (of_nat (unat p div 64))),
    ksReadyQueuesL2Bitmap := (ksReadyQueuesL2Bitmap s)
      (d := (ksReadyQueuesL2Bitmap s d)
        (3 - of_nat (unat p div 64) :=
           ksReadyQueuesL2Bitmap s d (3 - of_nat (unat p div 64)) OR BIT (p AND MASK wordRadix)))\<rparr>)"
proof -
  from assms have "unat p < 256" "unat p div 64 < 4" by (auto simp: word_less_nat_alt)
  then show ?thesis by (simp add: addToBitmap_def Let_def prio_to_l1index_of invert_l1index_Some)
qed

text \<open>What a bitmap update leaves alone, and what it makes of the bitmap of the domain.\<close>

definition bitmap_stepped :: "word_t \<Rightarrow> kstate \<Rightarrow> kstate \<Rightarrow> bool" where
  "bitmap_stepped d s s' \<longleftrightarrow>
     (\<exists>l1 l2. s' = s\<lparr>ksReadyQueuesL1Bitmap := (ksReadyQueuesL1Bitmap s)(d := l1),
                      ksReadyQueuesL2Bitmap := (ksReadyQueuesL2Bitmap s)(d := l2)\<rparr>)"

lemma bitmap_steppedD:
  assumes "bitmap_stepped d s s'"
  shows "tcbs s' = tcbs s" and "ksReadyQueues s' = ksReadyQueues s" and "numDomains s' = numDomains s"
    and "e \<noteq> d \<Longrightarrow> ksReadyQueuesL1Bitmap s' e = ksReadyQueuesL1Bitmap s e"
    and "e \<noteq> d \<Longrightarrow> ksReadyQueuesL2Bitmap s' e = ksReadyQueuesL2Bitmap s e"
  using assms by (auto simp: bitmap_stepped_def)

lemma addToBitmap_ok:
  assumes p: "p < 256" and ok: "bitmap_ok (ksReadyQueuesL1Bitmap s d) (ksReadyQueuesL2Bitmap s d) ne"
  obtains s' where "addToBitmap d p s = Some s'" and "bitmap_stepped d s s'"
    and "bitmap_ok (ksReadyQueuesL1Bitmap s' d) (ksReadyQueuesL2Bitmap s' d) (ne(unat p := True))"
proof -
  from p have "unat p < 256" by (simp add: word_less_nat_alt)
  from bitmap_add [OF ok this] show ?thesis
    by (intro that [OF addToBitmap_run [OF p]]) (auto simp: bitmap_stepped_def)
qed

lemma removeFromBitmap_ok:
  assumes p: "p < 256" and ok: "bitmap_ok (ksReadyQueuesL1Bitmap s d) (ksReadyQueuesL2Bitmap s d) ne"
  obtains s' where "removeFromBitmap d p s = Some s'" and "bitmap_stepped d s s'"
    and "bitmap_ok (ksReadyQueuesL1Bitmap s' d) (ksReadyQueuesL2Bitmap s' d) (ne(unat p := False))"
proof -
  let ?k = "3 - of_nat (unat p div 64) :: word_t"
  let ?w = "ksReadyQueuesL2Bitmap s d ?k AND NOT (BIT (p AND MASK wordRadix))"
  let ?l1 = "if ?w = 0 then ksReadyQueuesL1Bitmap s d AND NOT (BIT (of_nat (unat p div 64)))
             else ksReadyQueuesL1Bitmap s d"
  let ?s' = "s\<lparr>ksReadyQueuesL1Bitmap := (ksReadyQueuesL1Bitmap s)(d := ?l1),
               ksReadyQueuesL2Bitmap := (ksReadyQueuesL2Bitmap s)(d := (ksReadyQueuesL2Bitmap s d)(?k := ?w))\<rparr>"
  from p have p': "unat p < 256" "unat p div 64 < 4" by (auto simp: word_less_nat_alt)
  then have "removeFromBitmap d p s = Some ?s'"
    by (simp add: removeFromBitmap_def Let_def prio_to_l1index_of invert_l1index_Some fun_upd_idem)
  moreover have "bitmap_stepped d s ?s'" unfolding bitmap_stepped_def by blast
  ultimately show ?thesis using bitmap_remove [OF ok p'(1)] by (intro that [of ?s']) simp_all
qed

lemma tcbSchedEnqueue_ok:
  assumes ok: "ready_queues_ok s rq" and t: "tcbs s t = Some T" and un: "\<not> tcbQueued (tcbState T)"
  defines "d \<equiv> tcbDomain T" and "p \<equiv> tcbPriority T"
  shows "\<exists>s'. tcbSchedEnqueue t s = Some s' \<and> ready_queues_ok s' (rq_set rq d p (t # rq d p))"
proof -
  note f = ready_queues_okD [OF ok t, folded d_def p_def]
  have links: "tcbSchedNext T = NULL" "tcbSchedPrev T = NULL"
    using ok t un by (auto simp: ready_queues_ok_def tcbs_ok_def)
  have fresh: "t \<notin> set (rq d p)" using f(7) un by simp
  have p256: "unat p < 256" using f(2) by (simp add: word_less_nat_alt)
  let ?q = "queue_of (t # rq d p)"
  show ?thesis
  proof (cases "rq d p")
    case Nil
    obtain s1 where s1: "addToBitmap d p s = Some s1" "bitmap_stepped d s s1"
      "bitmap_ok (ksReadyQueuesL1Bitmap s1 d) (ksReadyQueuesL2Bitmap s1 d) ((\<lambda>k. rq d (of_nat k) \<noteq> [])(unat p := True))"
      using addToBitmap_ok [OF f(2) f(8)] by metis
    note st = bitmap_steppedD [OF s1(2)]
    define s' where "s' = s1\<lparr>ksReadyQueues := (ksReadyQueues s)(rq_idx s d p := ?q),
        tcbs := (tcbs s)(t \<mapsto> T\<lparr>tcbState := (tcbState T)\<lparr>tcbQueued := True\<rparr>\<rparr>)\<rparr>"
    have run: "tcbSchedEnqueue t s = Some s'"
      using t un f(4,5) Nil
      by (simp add: tcbSchedEnqueue_def Let_def d_def [symmetric] p_def [symmetric] tcb_queue_empty_def
          queue_of_def s1(1) tcb_queue_prepend_def set_ready_queue_def kmonad s'_def st)
    moreover have "ready_queues_ok s' (rq_set rq d p (t # rq d p))"
    proof (rule ready_queues_step [OF ok f(1,2)])
      show "dlist (sched_next s') (sched_prev s') (t # rq d p)"
        using links f(3) Nil by (simp add: s'_def dlist_def)
    qed (use t links un Nil s1(3) in \<open>auto simp: s'_def st d_def p_def\<close>)
    ultimately show ?thesis by blast
  next
    case (Cons x xs)
    then have "x \<in> set (rq d p)" by simp
    then obtain X where X: "tcbs s x = Some X" "tcbDomain X = d" "tcbPriority X = p" "tcbQueued (tcbState X)"
      using queued_member [OF ok] by metis
    have xt: "x \<noteq> t" using fresh Cons by auto
    have x0: "x \<noteq> NULL" using ok X by (auto simp: ready_queues_ok_def tcbs_ok_def)
    define s' where "s' = s\<lparr>ksReadyQueues := (ksReadyQueues s)(rq_idx s d p := ?q),
        tcbs := (tcbs s)(x \<mapsto> X\<lparr>tcbSchedPrev := t\<rparr>,
                         t \<mapsto> T\<lparr>tcbSchedNext := x, tcbState := (tcbState T)\<lparr>tcbQueued := True\<rparr>\<rparr>)\<rparr>"
    have run: "tcbSchedEnqueue t s = Some s'"
      using t un f(4,5) Cons X xt x0
      by (simp add: tcbSchedEnqueue_def Let_def d_def [symmetric] p_def [symmetric] tcb_queue_empty_def
          queue_of_def tcb_queue_prepend_def set_ready_queue_def kmonad s'_def fun_upd_twist)
    moreover have "ready_queues_ok s' (rq_set rq d p (t # rq d p))"
    proof (rule ready_queues_step [OF ok f(1,2)])
      show "dlist (sched_next s') (sched_prev s') (t # rq d p)"
        by (rule dlist_prepend_first [OF f(6) fresh f(3)])
           (use links Cons X t xt in \<open>auto simp: s'_def link_of_def split: option.splits\<close>)
      show "bitmap_ok (ksReadyQueuesL1Bitmap s' d) (ksReadyQueuesL2Bitmap s' d)
          ((\<lambda>k. rq d (of_nat k) \<noteq> [])(unat p := t # rq d p \<noteq> []))"
        using f(8) Cons by (intro bitmap_same) (simp_all add: s'_def)
      show "\<exists>U U'. tcbs s u = Some U \<and> tcbs s' u = Some U' \<and> tcbDomain U = d \<and> tcbPriority U = p \<and>
               tcbDomain U' = d \<and> tcbPriority U' = p \<and> (tcbQueued (tcbState U') \<longleftrightarrow> u \<in> set (t # rq d p)) \<and>
               (\<not> tcbQueued (tcbState U') \<longrightarrow> tcbSchedNext U' = NULL \<and> tcbSchedPrev U' = NULL)"
        if "u \<in> set (rq d p) \<union> set (t # rq d p)" for u
      proof (cases "u = t")
        case True
        with t xt show ?thesis by (simp add: s'_def d_def p_def)
      next
        case False
        with that have "u \<in> set (rq d p)" by auto
        then obtain U where "tcbs s u = Some U" "tcbDomain U = d" "tcbPriority U = p" "tcbQueued (tcbState U)"
          using queued_member [OF ok] by metis
        with False that X show ?thesis by (cases "u = x") (auto simp: s'_def)
      qed
    qed (use t Cons in \<open>auto simp: s'_def\<close>)
    ultimately show ?thesis by blast
  qed
qed

lemma tcbSchedAppend_ok:
  assumes ok: "ready_queues_ok s rq" and t: "tcbs s t = Some T" and un: "\<not> tcbQueued (tcbState T)"
  defines "d \<equiv> tcbDomain T" and "p \<equiv> tcbPriority T"
  shows "\<exists>s'. tcbSchedAppend t s = Some s' \<and> ready_queues_ok s' (rq_set rq d p (rq d p @ [t]))"
proof -
  note f = ready_queues_okD [OF ok t, folded d_def p_def]
  have links: "tcbSchedNext T = NULL" "tcbSchedPrev T = NULL"
    using ok t un by (auto simp: ready_queues_ok_def tcbs_ok_def)
  have fresh: "t \<notin> set (rq d p)" using f(7) un by simp
  let ?q = "queue_of (rq d p @ [t])"
  show ?thesis
  proof (cases "rq d p = []")
    case Nil: True
    obtain s1 where s1: "addToBitmap d p s = Some s1" "bitmap_stepped d s s1"
      "bitmap_ok (ksReadyQueuesL1Bitmap s1 d) (ksReadyQueuesL2Bitmap s1 d) ((\<lambda>k. rq d (of_nat k) \<noteq> [])(unat p := True))"
      using addToBitmap_ok [OF f(2) f(8)] by metis
    note st = bitmap_steppedD [OF s1(2)]
    define s' where "s' = s1\<lparr>ksReadyQueues := (ksReadyQueues s)(rq_idx s d p := ?q),
        tcbs := (tcbs s)(t \<mapsto> T\<lparr>tcbState := (tcbState T)\<lparr>tcbQueued := True\<rparr>\<rparr>)\<rparr>"
    have run: "tcbSchedAppend t s = Some s'"
      using t un f(4,5) Nil
      by (simp add: tcbSchedAppend_def Let_def d_def [symmetric] p_def [symmetric] tcb_queue_empty_def
          queue_of_def s1(1) tcb_queue_append_def set_ready_queue_def kmonad s'_def st)
    moreover have "ready_queues_ok s' (rq_set rq d p (rq d p @ [t]))"
    proof (rule ready_queues_step [OF ok f(1,2)])
      show "dlist (sched_next s') (sched_prev s') (rq d p @ [t])"
        using links f(3) Nil by (simp add: s'_def dlist_def)
    qed (use t links un Nil s1(3) in \<open>auto simp: s'_def st d_def p_def\<close>)
    ultimately show ?thesis by blast
  next
    case ne: False
    define x where "x = last_or NULL (rq d p)"
    have "x \<in> set (rq d p)" using last_or_in [OF ne] by (simp add: x_def)
    then obtain X where X: "tcbs s x = Some X" "tcbDomain X = d" "tcbPriority X = p" "tcbQueued (tcbState X)"
      using queued_member [OF ok] by metis
    have xt: "x \<noteq> t" using fresh \<open>x \<in> set (rq d p)\<close> by auto
    have hd0: "first_or NULL (rq d p) \<noteq> NULL"
      using first_or_in [OF ne, of NULL] f(6) by (auto simp: dlist_def)
    define s' where "s' = s\<lparr>ksReadyQueues := (ksReadyQueues s)(rq_idx s d p := ?q),
        tcbs := (tcbs s)(x \<mapsto> X\<lparr>tcbSchedNext := t\<rparr>,
                         t \<mapsto> T\<lparr>tcbSchedPrev := x, tcbState := (tcbState T)\<lparr>tcbQueued := True\<rparr>\<rparr>)\<rparr>"
    have "first_or NULL (rq d p @ [t]) = first_or NULL (rq d p)" using ne by (cases "rq d p") auto
    then have run: "tcbSchedAppend t s = Some s'"
      using t un f(4,5) X xt hd0
      by (simp add: tcbSchedAppend_def Let_def d_def [symmetric] p_def [symmetric] tcb_queue_empty_def
          queue_of_def tcb_queue_append_def set_ready_queue_def kmonad s'_def fun_upd_twist x_def [symmetric])
    moreover have "ready_queues_ok s' (rq_set rq d p (rq d p @ [t]))"
    proof (rule ready_queues_step [OF ok f(1,2)])
      show "dlist (sched_next s') (sched_prev s') (rq d p @ [t])"
        by (rule dlist_append_last [OF f(6) fresh f(3)])
           (use links X t xt in \<open>auto simp: s'_def link_of_def x_def [symmetric] split: option.splits\<close>)
      show "bitmap_ok (ksReadyQueuesL1Bitmap s' d) (ksReadyQueuesL2Bitmap s' d)
          ((\<lambda>k. rq d (of_nat k) \<noteq> [])(unat p := rq d p @ [t] \<noteq> []))"
        using f(8) ne by (intro bitmap_same) (simp_all add: s'_def)
      show "\<exists>U U'. tcbs s u = Some U \<and> tcbs s' u = Some U' \<and> tcbDomain U = d \<and> tcbPriority U = p \<and>
               tcbDomain U' = d \<and> tcbPriority U' = p \<and> (tcbQueued (tcbState U') \<longleftrightarrow> u \<in> set (rq d p @ [t])) \<and>
               (\<not> tcbQueued (tcbState U') \<longrightarrow> tcbSchedNext U' = NULL \<and> tcbSchedPrev U' = NULL)"
        if "u \<in> set (rq d p) \<union> set (rq d p @ [t])" for u
      proof (cases "u = t")
        case True
        with t xt show ?thesis by (simp add: s'_def d_def p_def)
      next
        case False
        with that have "u \<in> set (rq d p)" by auto
        then obtain U where "tcbs s u = Some U" "tcbDomain U = d" "tcbPriority U = p" "tcbQueued (tcbState U)"
          using queued_member [OF ok] by metis
        with False that X show ?thesis by (cases "u = x") (auto simp: s'_def)
      qed
    qed (use t \<open>x \<in> set (rq d p)\<close> in \<open>auto simp: s'_def\<close>)
    ultimately show ?thesis by blast
  qed
qed

text \<open>The heap after a thread was unlinked from between \<open>b\<close> and \<open>a\<close> (either may be \<open>NULL\<close>).\<close>

definition tcb_unlinked :: "(ptr \<Rightarrow> tcb_t option) \<Rightarrow> ptr \<Rightarrow> ptr \<Rightarrow> ptr \<Rightarrow> ptr \<Rightarrow> tcb_t option" where
  "tcb_unlinked ts t b a q =
     (if q = t then map_option (\<lambda>T. T\<lparr>tcbSchedNext := NULL, tcbSchedPrev := NULL\<rparr>) (ts q)
      else map_option (\<lambda>T. T\<lparr>tcbSchedNext := (if q = b then a else tcbSchedNext T),
                             tcbSchedPrev := (if q = a then b else tcbSchedPrev T)\<rparr>) (ts q))"

lemma tcb_unlinked_eqI:
  assumes "\<And>q. ts q = None \<Longrightarrow> h q = None"
    and "\<And>q T. ts q = Some T \<Longrightarrow>
      h q = Some (if q = t then T\<lparr>tcbSchedNext := NULL, tcbSchedPrev := NULL\<rparr>
                  else T\<lparr>tcbSchedNext := (if q = b then a else tcbSchedNext T),
                         tcbSchedPrev := (if q = a then b else tcbSchedPrev T)\<rparr>)"
  shows "tcb_unlinked ts t b a = h"
proof
  fix q
  show "tcb_unlinked ts t b a q = h q"
    using assms(1) [of q] assms(2) [of q] by (cases "ts q") (auto simp: tcb_unlinked_def)
qed

lemma tcb_unlinked_upd:
  assumes T: "ts t = Some T" and null: "ts NULL = None" and nb: "b \<noteq> t" "a \<noteq> t"
    and b: "b \<noteq> NULL \<longrightarrow> ts b \<noteq> None" and a: "a \<noteq> NULL \<longrightarrow> ts a \<noteq> None" and ab: "a \<noteq> NULL \<longrightarrow> a \<noteq> b"
  shows "tcb_unlinked ts t b a =
    (let ts1 = (if b = NULL then ts else ts(b \<mapsto> (the (ts b))\<lparr>tcbSchedNext := a\<rparr>));
         ts2 = (if a = NULL then ts1 else ts1(a \<mapsto> (the (ts a))\<lparr>tcbSchedPrev := b\<rparr>))
     in ts2(t \<mapsto> T\<lparr>tcbSchedNext := NULL, tcbSchedPrev := NULL\<rparr>))"
proof (rule tcb_unlinked_eqI)
  fix q
  show "(let ts1 = (if b = NULL then ts else ts(b \<mapsto> (the (ts b))\<lparr>tcbSchedNext := a\<rparr>));
         ts2 = (if a = NULL then ts1 else ts1(a \<mapsto> (the (ts a))\<lparr>tcbSchedPrev := b\<rparr>))
     in ts2(t \<mapsto> T\<lparr>tcbSchedNext := NULL, tcbSchedPrev := NULL\<rparr>)) q = None" if "ts q = None"
    using that T a b by (auto simp: Let_def)
next
  fix q Q assume q: "ts q = Some Q"
  have "q \<noteq> NULL" using q null by auto
  then show "(let ts1 = (if b = NULL then ts else ts(b \<mapsto> (the (ts b))\<lparr>tcbSchedNext := a\<rparr>));
         ts2 = (if a = NULL then ts1 else ts1(a \<mapsto> (the (ts a))\<lparr>tcbSchedPrev := b\<rparr>))
     in ts2(t \<mapsto> T\<lparr>tcbSchedNext := NULL, tcbSchedPrev := NULL\<rparr>)) q =
     Some (if q = t then Q\<lparr>tcbSchedNext := NULL, tcbSchedPrev := NULL\<rparr>
           else Q\<lparr>tcbSchedNext := (if q = b then a else tcbSchedNext Q),
                  tcbSchedPrev := (if q = a then b else tcbSchedPrev Q)\<rparr>)"
    using q T nb ab by (cases "q = t"; cases "q = b"; cases "q = a"; simp add: Let_def)
qed

lemma tcb_queue_remove_run:
  assumes d: "dlist (sched_next s) (sched_prev s) (ys @ t # zs)"
    and ex: "\<And>u. u \<in> set (ys @ t # zs) \<Longrightarrow> tcbs s u \<noteq> None" and null: "tcbs s NULL = None"
  shows "tcb_queue_remove (queue_of (ys @ t # zs)) t s =
    Some (queue_of (ys @ zs), s\<lparr>tcbs := tcb_unlinked (tcbs s) t (last_or NULL ys) (first_or NULL zs)\<rparr>)"
proof -
  obtain T where T: "tcbs s t = Some T" using ex [of t] by auto
  note f = dlist_link_facts [OF d]
  have links: "tcbSchedNext T = first_or NULL zs" "tcbSchedPrev T = last_or NULL ys"
    using f(1,2) T by auto
  have heads: "first_or t ys = t \<longleftrightarrow> ys = []" "last_or t zs = t \<longleftrightarrow> zs = []"
    using f first_or_in [of ys t] last_or_in [of zs t] by (cases "ys = []"; cases "zs = []"; auto)+
  have qh: "first_or NULL (ys @ t # zs) = first_or t ys" "last_or NULL (ys @ t # zs) = last_or t zs"
    by (cases ys) auto
  consider "ys = []" "zs = []" | z zs' where "ys = []" "zs = z # zs'"
    | y ys' where "zs = []" "ys = ys' @ [y]" | y ys' z zs' where "ys = ys' @ [y]" "zs = z # zs'"
    by (metis list.exhaust rev_exhaust)
  then show ?thesis
  proof cases
    case 1
    have "tcb_unlinked (tcbs s) t NULL NULL q = tcbs s q" for q
      using T links 1 null by (cases "tcbs s q") (auto simp: tcb_unlinked_def)
    then have "tcb_unlinked (tcbs s) t NULL NULL = tcbs s" by blast
    with 1 T show ?thesis by (simp add: tcb_queue_remove_def queue_of_def)
  next
    case 2
    then obtain Z where Z: "tcbs s z = Some Z" using ex [of z] by auto
    have "z \<noteq> t" "z \<noteq> NULL" using f 2 by auto
    moreover have "T\<lparr>tcbSchedNext := NULL, tcbSchedPrev := NULL\<rparr> = T\<lparr>tcbSchedNext := NULL\<rparr>"
      using links 2 by (intro tcb_t.equality) simp_all
    moreover from calculation have "tcb_unlinked (tcbs s) t NULL z = (tcbs s)(z \<mapsto> Z\<lparr>tcbSchedPrev := NULL\<rparr>, t \<mapsto> T\<lparr>tcbSchedNext := NULL\<rparr>)"
      using T Z null f(3) by (simp add: tcb_unlinked_upd Let_def)
    moreover have "tcb_queue_remove (queue_of (ys @ t # zs)) t s =
        do { s \<leftarrow> tcb_upd z (\<lambda>t. t\<lparr>tcbSchedPrev := NULL\<rparr>) s;
             s \<leftarrow> tcb_upd t (\<lambda>t. t\<lparr>tcbSchedNext := NULL\<rparr>) s;
             Some ((queue_of (ys @ t # zs))\<lparr>qhead := z\<rparr>, s) }"
    proof -
      have "qhead (queue_of (ys @ t # zs)) = t" "qend (queue_of (ys @ t # zs)) \<noteq> t"
        using heads 2 by (simp_all add: queue_of_def)
      moreover have "tcbSchedNext T = z" using links 2 by simp
      ultimately show ?thesis using T by (simp add: tcb_queue_remove_def Let_def)
    qed
    moreover have "(queue_of (ys @ t # zs))\<lparr>qhead := z\<rparr> = queue_of (ys @ zs)"
      using 2 by (simp add: queue_of_def)
    ultimately show ?thesis using 2 T Z by (simp add: kmonad)
  next
    case 3
    then obtain Y where Y: "tcbs s y = Some Y" using ex [of y] by auto
    have "y \<noteq> t" "y \<noteq> NULL" using f 3 by auto
    moreover have "T\<lparr>tcbSchedNext := NULL, tcbSchedPrev := NULL\<rparr> = T\<lparr>tcbSchedPrev := NULL\<rparr>"
      using links 3 by (intro tcb_t.equality) simp_all
    moreover from calculation have "tcb_unlinked (tcbs s) t y NULL = (tcbs s)(y \<mapsto> Y\<lparr>tcbSchedNext := NULL\<rparr>, t \<mapsto> T\<lparr>tcbSchedPrev := NULL\<rparr>)"
      using T Y null f(3) by (simp add: tcb_unlinked_upd Let_def)
    moreover have "tcb_queue_remove (queue_of (ys @ t # zs)) t s =
        do { s \<leftarrow> tcb_upd y (\<lambda>t. t\<lparr>tcbSchedNext := NULL\<rparr>) s;
             s \<leftarrow> tcb_upd t (\<lambda>t. t\<lparr>tcbSchedPrev := NULL\<rparr>) s;
             Some ((queue_of (ys @ t # zs))\<lparr>qend := y\<rparr>, s) }"
    proof -
      have "qhead (queue_of (ys @ t # zs)) \<noteq> t" "qend (queue_of (ys @ t # zs)) = t"
        using heads 3 by (simp_all add: queue_of_def qh)
      moreover have "tcbSchedPrev T = y" using links 3 by simp
      ultimately show ?thesis using T by (simp add: tcb_queue_remove_def Let_def)
    qed
    moreover have "(queue_of (ys @ t # zs))\<lparr>qend := y\<rparr> = queue_of (ys @ zs)"
      using 3 by (simp add: queue_of_def)
    ultimately show ?thesis using 3 T Y by (simp add: kmonad)
  next
    case 4
    then obtain Y Z where Y: "tcbs s y = Some Y" and Z: "tcbs s z = Some Z"
      using ex [of y] ex [of z] by auto
    have ne: "y \<noteq> t" "y \<noteq> NULL" "z \<noteq> t" "z \<noteq> NULL" "y \<noteq> z" using f 4 by auto
    have com: "T\<lparr>tcbSchedPrev := NULL, tcbSchedNext := NULL\<rparr> = T\<lparr>tcbSchedNext := NULL, tcbSchedPrev := NULL\<rparr>"
      by (intro tcb_t.equality) simp_all
    have "tcb_unlinked (tcbs s) t y z = (tcbs s)(y \<mapsto> Y\<lparr>tcbSchedNext := z\<rparr>, z \<mapsto> Z\<lparr>tcbSchedPrev := y\<rparr>,
        t \<mapsto> T\<lparr>tcbSchedPrev := NULL, tcbSchedNext := NULL\<rparr>)"
      using T Y Z null ne f(3) by (simp add: tcb_unlinked_upd Let_def com)
    moreover have "tcb_queue_remove (queue_of (ys @ t # zs)) t s =
        do { s \<leftarrow> tcb_upd y (\<lambda>t. t\<lparr>tcbSchedNext := z\<rparr>) s;
             s \<leftarrow> tcb_upd z (\<lambda>t. t\<lparr>tcbSchedPrev := y\<rparr>) s;
             s \<leftarrow> tcb_upd t (\<lambda>t. t\<lparr>tcbSchedPrev := NULL\<rparr>) s;
             s \<leftarrow> tcb_upd t (\<lambda>t. t\<lparr>tcbSchedNext := NULL\<rparr>) s;
             Some (queue_of (ys @ t # zs), s) }"
    proof -
      have "qhead (queue_of (ys @ t # zs)) \<noteq> t" "qend (queue_of (ys @ t # zs)) \<noteq> t"
        using heads 4 by (simp_all add: queue_of_def qh)
      moreover have "tcbSchedNext T = z" "tcbSchedPrev T = y" using links 4 by simp_all
      ultimately show ?thesis using T by (simp add: tcb_queue_remove_def Let_def)
    qed
    moreover have "queue_of (ys @ t # zs) = queue_of (ys @ zs)"
      using 4 by (simp add: queue_of_def)
    ultimately show ?thesis using 4 T Y Z ne by (simp add: kmonad)
  qed
qed

lemma tcbSchedDequeue_ok:
  assumes ok: "ready_queues_ok s rq" and t: "tcbs s t = Some T" and qd: "tcbQueued (tcbState T)"
  defines "d \<equiv> tcbDomain T" and "p \<equiv> tcbPriority T"
  shows "\<exists>s'. tcbSchedDequeue t s = Some s' \<and> ready_queues_ok s' (rq_set rq d p (remove1 t (rq d p)))"
proof -
  note f = ready_queues_okD [OF ok t, folded d_def p_def]
  from f(7) qd obtain ys zs where l: "rq d p = ys @ t # zs" by (auto dest: split_list)
  note dl = f(6) [unfolded l]
  have ty: "t \<notin> set ys" "t \<notin> set zs" using dlist_link_facts [OF dl] by auto
  then have rem: "remove1 t (rq d p) = ys @ zs" by (simp add: l remove1_split)
  have null: "tcbs s NULL = None" using ok by (simp add: ready_queues_ok_def tcbs_ok_def)
  have ex: "tcbs s u \<noteq> None" if "u \<in> set (ys @ t # zs)" for u
  proof -
    from that l have "u \<in> set (rq d p)" by simp
    then show ?thesis by (rule queued_member [OF ok]) simp
  qed
  let ?h = "tcb_unlinked (tcbs s) t (last_or NULL ys) (first_or NULL zs)"
  note rm = tcb_queue_remove_run [OF dl ex null]
  define T' where "T' = T\<lparr>tcbSchedNext := NULL, tcbSchedPrev := NULL, tcbState := (tcbState T)\<lparr>tcbQueued := False\<rparr>\<rparr>"
  define s1 where "s1 = s\<lparr>ksReadyQueues := (ksReadyQueues s)(rq_idx s d p := queue_of (ys @ zs)), tcbs := ?h(t \<mapsto> T')\<rparr>"
  have ht: "?h t = Some (T\<lparr>tcbSchedNext := NULL, tcbSchedPrev := NULL\<rparr>)" using t by (simp add: tcb_unlinked_def)
  have run: "tcbSchedDequeue t s =
      (if tcb_queue_empty (queue_of (ys @ zs)) then removeFromBitmap d p s1 else Some s1)"
    using t qd f(4,5) rm l ht
    by (simp add: tcbSchedDequeue_def Let_def d_def [symmetric] p_def [symmetric] set_ready_queue_def
        kmonad s1_def T'_def)
  have empty: "tcb_queue_empty (queue_of (ys @ zs)) \<longleftrightarrow> ys @ zs = []"
    using first_or_in [of "ys @ zs" NULL] dlist_link_facts(7,8) [OF dl]
    by (cases "ys @ zs = []") (auto simp: tcb_queue_empty_def queue_of_def)
  obtain s' where s': "tcbSchedDequeue t s = Some s'" "bitmap_stepped d s1 s'"
    "bitmap_ok (ksReadyQueuesL1Bitmap s' d) (ksReadyQueuesL2Bitmap s' d)
       ((\<lambda>k. rq d (of_nat k) \<noteq> [])(unat p := ys @ zs \<noteq> []))"
  proof (cases "ys @ zs = []")
    case True
    have "bitmap_ok (ksReadyQueuesL1Bitmap s1 d) (ksReadyQueuesL2Bitmap s1 d) (\<lambda>k. rq d (of_nat k) \<noteq> [])"
      using f(8) by (simp add: s1_def)
    then show ?thesis
    proof (rule removeFromBitmap_ok [OF f(2)])
      fix s2 assume r: "removeFromBitmap d p s1 = Some s2" "bitmap_stepped d s1 s2"
        "bitmap_ok (ksReadyQueuesL1Bitmap s2 d) (ksReadyQueuesL2Bitmap s2 d)
           ((\<lambda>k. rq d (of_nat k) \<noteq> [])(unat p := False))"
      from True have e: "(ys @ zs \<noteq> []) = False" by simp
      from True empty run r(1) have "tcbSchedDequeue t s = Some s2" by simp
      then show ?thesis by (rule that) (simp_all only: r e)
    qed
  next
    case False
    have "bitmap_stepped d s1 s1" unfolding bitmap_stepped_def
      by (intro exI [of _ "ksReadyQueuesL1Bitmap s1 d"] exI [of _ "ksReadyQueuesL2Bitmap s1 d"]) simp
    moreover have "bitmap_ok (ksReadyQueuesL1Bitmap s1 d) (ksReadyQueuesL2Bitmap s1 d)
       ((\<lambda>k. rq d (of_nat k) \<noteq> [])(unat p := ys @ zs \<noteq> []))"
      using False f(8) l by (intro bitmap_same) (simp_all add: s1_def)
    moreover have "tcbSchedDequeue t s = Some s1"
      using False by (simp only: run empty if_False refl)
    ultimately show ?thesis by (intro that [of s1])
  qed
  note st = bitmap_steppedD [OF s'(2)]
  have "ready_queues_ok s' (rq_set rq d p (ys @ zs))"
  proof (rule ready_queues_step [OF ok f(1,2)])
    have cell: "tcbs s' u = Some (U\<lparr>tcbSchedNext := (if u = last_or NULL ys then first_or NULL zs else tcbSchedNext U),
        tcbSchedPrev := (if u = first_or NULL zs then last_or NULL ys else tcbSchedPrev U)\<rparr>)"
      if "tcbs s u = Some U" "u \<noteq> t" for u U
      using that by (simp add: st s1_def tcb_unlinked_def)
    show "dlist (sched_next s') (sched_prev s') (ys @ zs)"
    proof (rule dlist_unlink [OF dl])
      fix u assume u: "u \<in> set (ys @ zs)"
      with ty have "u \<noteq> t" by auto
      moreover obtain U where "tcbs s u = Some U" using ex [of u] u by auto
      ultimately show "sched_next s' u = (if u = sched_prev s t then sched_next s t else sched_next s u)"
        and "sched_prev s' u = (if u = sched_next s t then sched_prev s t else sched_prev s u)"
        using cell dlist_link_facts(1,2) [OF dl] by auto
    qed
    show "\<exists>U U'. tcbs s u = Some U \<and> tcbs s' u = Some U' \<and> tcbDomain U = d \<and> tcbPriority U = p \<and>
             tcbDomain U' = d \<and> tcbPriority U' = p \<and> (tcbQueued (tcbState U') \<longleftrightarrow> u \<in> set (ys @ zs)) \<and>
             (\<not> tcbQueued (tcbState U') \<longrightarrow> tcbSchedNext U' = NULL \<and> tcbSchedPrev U' = NULL)"
      if "u \<in> set (rq d p) \<union> set (ys @ zs)" for u
    proof (cases "u = t")
      case True
      with t ty show ?thesis by (simp add: st s1_def T'_def d_def p_def)
    next
      case False
      with that l have u: "u \<in> set (rq d p)" "u \<in> set (ys @ zs)" by auto
      then obtain U where "tcbs s u = Some U" "tcbDomain U = d" "tcbPriority U = p" "tcbQueued (tcbState U)"
        using queued_member [OF ok] by metis
      with cell [of u U] False u show ?thesis by simp
    qed
    show "tcbs s' u = tcbs s u" if out: "u \<notin> set (rq d p) \<union> set (ys @ zs)" for u
    proof (cases "tcbs s u")
      case None
      with out l show ?thesis by (simp add: st s1_def tcb_unlinked_def)
    next
      case (Some U)
      then have "u \<noteq> NULL" using null by auto
      then have "u \<noteq> last_or NULL ys" "u \<noteq> first_or NULL zs"
        using out l last_or_in [of ys NULL] first_or_in [of zs NULL] by (cases "ys = []"; cases "zs = []"; auto)+
      with cell [OF Some] out l Some show ?thesis by auto
    qed
  qed (use s'(3) in \<open>simp_all add: st s1_def\<close>)
  with s'(1) rem show ?thesis by simp
qed

section \<open>What the queue operations leave alone\<close>

text \<open>The state with everything that belongs to the ready queues erased. Two states that agree on
  it differ in the queues only.\<close>

definition tcb_unqueued :: "tcb_t \<Rightarrow> tcb_t" where
  "tcb_unqueued T =
     T\<lparr>tcbState := (tcbState T)\<lparr>tcbQueued := False\<rparr>, tcbSchedNext := NULL, tcbSchedPrev := NULL\<rparr>"

definition sched_erased :: "kstate \<Rightarrow> kstate" where
  "sched_erased s =
     s\<lparr>tcbs := map_option tcb_unqueued \<circ> tcbs s, ksReadyQueues := \<lambda>_. blank_queue,
       ksReadyQueuesL1Bitmap := \<lambda>_. 0, ksReadyQueuesL2Bitmap := \<lambda>_ _. 0\<rparr>"

lemma tcb_upd_erased:
  assumes "tcb_upd p f s = Some s'" and "\<And>T. tcb_unqueued (f T) = tcb_unqueued T"
  shows "sched_erased s' = sched_erased s"
proof -
  from assms(1) obtain T where T: "tcbs s p = Some T" and s': "s' = s\<lparr>tcbs := (tcbs s)(p \<mapsto> f T)\<rparr>"
    by (auto simp: tcb_upd_def split: option.splits)
  have "map_option tcb_unqueued \<circ> ((tcbs s)(p \<mapsto> f T)) = map_option tcb_unqueued \<circ> tcbs s"
    using T assms(2) by (auto simp: fun_eq_iff)
  then show ?thesis by (simp add: sched_erased_def s')
qed

lemma ts_upd_erased:
  "ts_upd p f s = Some s' \<Longrightarrow> (\<And>S. (f S)\<lparr>tcbQueued := False\<rparr> = S\<lparr>tcbQueued := False\<rparr>) \<Longrightarrow>
   sched_erased s' = sched_erased s"
  unfolding ts_upd_def by (erule tcb_upd_erased) (simp add: tcb_unqueued_def)

lemma bitmap_erased:
  "addToBitmap d p s = Some s' \<Longrightarrow> sched_erased s' = sched_erased s"
  "removeFromBitmap d p s = Some s' \<Longrightarrow> sched_erased s' = sched_erased s"
  by (auto simp: addToBitmap_def removeFromBitmap_def Let_def sched_erased_def bind_eq_Some_conv)

lemma set_ready_queue_erased [simp]: "sched_erased (set_ready_queue i q s) = sched_erased s"
  by (simp add: set_ready_queue_def sched_erased_def)

lemma links_erased:
  "tcb_upd p (tcbSchedNext_update g) s = Some s' \<Longrightarrow> sched_erased s' = sched_erased s"
  "tcb_upd p (tcbSchedPrev_update g) s = Some s' \<Longrightarrow> sched_erased s' = sched_erased s"
  "ts_upd p (tcbQueued_update h) s = Some s' \<Longrightarrow> sched_erased s' = sched_erased s"
  by (erule tcb_upd_erased ts_upd_erased; simp add: tcb_unqueued_def)+

lemma queue_erased:
  "tcb_queue_prepend q t s = Some (q', s') \<Longrightarrow> sched_erased s' = sched_erased s"
  "tcb_queue_append q t s = Some (q', s') \<Longrightarrow> sched_erased s' = sched_erased s"
  "tcb_queue_remove q t s = Some (q', s') \<Longrightarrow> sched_erased s' = sched_erased s"
  by (auto simp: tcb_queue_prepend_def tcb_queue_append_def tcb_queue_remove_def bind_eq_Some_conv
      Let_def split: if_splits dest!: links_erased)

lemma sched_op_erased:
  "tcbSchedEnqueue t s = Some s' \<Longrightarrow> sched_erased s' = sched_erased s"
  "tcbSchedAppend t s = Some s' \<Longrightarrow> sched_erased s' = sched_erased s"
  "tcbSchedDequeue t s = Some s' \<Longrightarrow> sched_erased s' = sched_erased s"
  by (auto simp: tcbSchedEnqueue_def tcbSchedAppend_def tcbSchedDequeue_def bind_eq_Some_conv
      Let_def split: if_splits dest!: links_erased queue_erased bitmap_erased)

text \<open>What the erased state determines.\<close>

lemma sched_erasedD:
  assumes "sched_erased s' = sched_erased s"
  shows "map_option tcb_unqueued (tcbs s' t) = map_option tcb_unqueued (tcbs s t)"
    and "ctes s' = ctes s" and "eps s' = eps s" and "ntfns s' = ntfns s"
    and "ksCurThread s' = ksCurThread s" and "ksIdleThread s' = ksIdleThread s"
    and "ksSchedulerAction s' = ksSchedulerAction s" and "ksCurDomain s' = ksCurDomain s"
    and "ksDomainTime s' = ksDomainTime s" and "numDomains s' = numDomains s"
    and "machine_log s' = machine_log s" and "ksCurFPUOwner s' = ksCurFPUOwner s"
proof -
  from assms have "tcbs (sched_erased s') = tcbs (sched_erased s)" by (rule arg_cong)
  then show "map_option tcb_unqueued (tcbs s' t) = map_option tcb_unqueued (tcbs s t)"
    by (simp add: sched_erased_def fun_eq_iff)
qed (use assms [THEN arg_cong, of ctes] assms [THEN arg_cong, of eps] assms [THEN arg_cong, of ntfns]
       assms [THEN arg_cong, of ksCurThread] assms [THEN arg_cong, of ksIdleThread]
       assms [THEN arg_cong, of ksSchedulerAction] assms [THEN arg_cong, of ksCurDomain]
       assms [THEN arg_cong, of ksDomainTime] assms [THEN arg_cong, of numDomains]
       assms [THEN arg_cong, of machine_log] assms [THEN arg_cong, of ksCurFPUOwner]
     in \<open>simp_all add: sched_erased_def\<close>)

section \<open>The interface of the ready queues\<close>

text \<open>
  What the scheduler relies on: a relation between the state and the lists, the domain and
  priority of each thread, and three operations that are the list operations. A thread that is
  queued already is not queued again, one that is not queued is not removed.
\<close>

locale sched_queues =
  fixes ok :: "'s \<Rightarrow> ready_lists \<Rightarrow> bool"
    and place :: "'s \<Rightarrow> ptr \<Rightarrow> (word_t \<times> word_t) option"
    and enq app deq :: "ptr \<Rightarrow> 's \<Rightarrow> 's option"
  assumes placed: "ok s rq \<Longrightarrow> t \<in> set (rq d p) \<Longrightarrow> place s t = Some (d, p)"
    and once: "ok s rq \<Longrightarrow> distinct (rq d p)"
    and enq_law: "ok s rq \<Longrightarrow> place s t = Some (d, p) \<Longrightarrow> \<exists>s'. enq t s = Some s' \<and> place s' = place s \<and>
      ok s' (if t \<in> set (rq d p) then rq else rq_set rq d p (t # rq d p))"
    and app_law: "ok s rq \<Longrightarrow> place s t = Some (d, p) \<Longrightarrow> \<exists>s'. app t s = Some s' \<and> place s' = place s \<and>
      ok s' (if t \<in> set (rq d p) then rq else rq_set rq d p (rq d p @ [t]))"
    and deq_law: "ok s rq \<Longrightarrow> place s t = Some (d, p) \<Longrightarrow> \<exists>s'. deq t s = Some s' \<and> place s' = place s \<and>
      ok s' (rq_set rq d p (remove1 t (rq d p)))"
begin

lemma one_queue: "ok s rq \<Longrightarrow> t \<in> set (rq d p) \<Longrightarrow> t \<in> set (rq d' p') \<Longrightarrow> d' = d \<and> p' = p"
  using placed [of s rq t d p] placed [of s rq t d' p'] by simp

text \<open>Taking a thread out undoes putting it in.\<close>

lemma enq_deq:
  assumes ok: "ok s rq" and t: "place s t = Some (d, p)" and out: "t \<notin> set (rq d p)"
  shows "\<exists>s'. Option.bind (enq t s) (deq t) = Some s' \<and> ok s' rq"
proof -
  from enq_law [OF ok t] out obtain s1 where s1: "enq t s = Some s1" "place s1 = place s"
    "ok s1 (rq_set rq d p (t # rq d p))" by auto
  from t s1(2) have "place s1 t = Some (d, p)" by simp
  from deq_law [OF s1(3) this] obtain s2 where "deq t s1 = Some s2"
    "ok s2 (rq_set (rq_set rq d p (t # rq d p)) d p (rq d p))"
    by (auto simp: rq_set_def)
  with s1(1) show ?thesis by (simp add: rq_set_def)
qed

text \<open>Round robin: the thread at the head of its queue goes to the end of it.\<close>

lemma rotate:
  assumes ok: "ok s rq" and t: "place s t = Some (d, p)" and hd: "rq d p = t # ts"
  shows "\<exists>s'. Option.bind (deq t s) (app t) = Some s' \<and> place s' = place s \<and>
           ok s' (rq_set rq d p (ts @ [t]))"
proof -
  from deq_law [OF ok t] hd obtain s1 where s1: "deq t s = Some s1" "place s1 = place s"
    "ok s1 (rq_set rq d p ts)" by auto
  moreover have "t \<notin> set ts" using once [OF ok, of d p] hd by simp
  ultimately obtain s2 where "app t s1 = Some s2" "place s2 = place s1"
    "ok s2 (rq_set (rq_set rq d p ts) d p (ts @ [t]))"
    using app_law [of s1 "rq_set rq d p ts" t d p] t by (auto simp: rq_set_def)
  with s1 show ?thesis by (simp add: rq_set_def)
qed

text \<open>A thread taken out is in no queue at all.\<close>

lemma removed:
  assumes ok: "ok s rq" and t: "place s t = Some (d, p)"
  shows "t \<notin> set (rq_set rq d p (remove1 t (rq d p)) d' p')"
proof (cases "d' = d \<and> p' = p")
  case True
  then show ?thesis using once [OF ok, of d p] by (simp add: rq_set_def)
next
  case False
  moreover have "t \<in> set (rq d' p') \<Longrightarrow> d' = d \<and> p' = p"
    using placed [OF ok, of t d' p'] t by simp
  ultimately show ?thesis by (auto simp: rq_set_def)
qed

lemma dequeued:
  assumes ok: "ok s rq" and t: "place s t = Some (d, p)" and "deq t s = Some s'"
  shows "\<exists>rq'. ok s' rq' \<and> (\<forall>d' p'. t \<notin> set (rq' d' p'))"
  using deq_law [OF ok t] removed [OF ok t] assms(3) by auto

end

definition sched_place :: "kstate \<Rightarrow> ptr \<Rightarrow> (word_t \<times> word_t) option" where
  "sched_place s t = map_option (\<lambda>T. (tcbDomain T, tcbPriority T)) (tcbs s t)"

lemma tcb_unqueued_sel [simp]:
  "tcbDomain (tcb_unqueued T) = tcbDomain T" "tcbPriority (tcb_unqueued T) = tcbPriority T"
  "tsType (tcbState (tcb_unqueued T)) = tsType (tcbState T)"
  by (simp_all add: tcb_unqueued_def)

lemma sched_place_erased:
  assumes "sched_erased s' = sched_erased s"
  shows "sched_place s' = sched_place s"
proof (rule ext)
  fix t
  have "sched_place r t = map_option (\<lambda>T. (tcbDomain T, tcbPriority T)) (map_option tcb_unqueued (tcbs r t))" for r
    by (cases "tcbs r t") (simp_all add: sched_place_def)
  then show "sched_place s' t = sched_place s t" by (simp add: sched_erasedD(1) [OF assms])
qed

lemma in_queue_iff:
  assumes "ready_queues_ok s rq" and "tcbs s t = Some T"
  shows "t \<in> set (rq (tcbDomain T) (tcbPriority T)) \<longleftrightarrow> tcbQueued (tcbState T)"
  using assms by (simp add: ready_queues_ok_def in_queue_def)

lemma tcbSchedEnqueue_queue:
  assumes ok: "ready_queues_ok s rq" and pl: "sched_place s t = Some (d, p)"
  shows "\<exists>s'. tcbSchedEnqueue t s = Some s' \<and>
    ready_queues_ok s' (if t \<in> set (rq d p) then rq else rq_set rq d p (t # rq d p))"
proof -
  from pl obtain T where T: "tcbs s t = Some T" "d = tcbDomain T" "p = tcbPriority T"
    by (auto simp: sched_place_def)
  show ?thesis
  proof (cases "tcbQueued (tcbState T)")
    case True
    with T ok show ?thesis by (simp add: tcbSchedEnqueue_def in_queue_iff)
  next
    case False
    with T ok tcbSchedEnqueue_ok [OF ok T(1) False] show ?thesis by (simp add: in_queue_iff)
  qed
qed

lemma tcbSchedAppend_queue:
  assumes ok: "ready_queues_ok s rq" and pl: "sched_place s t = Some (d, p)"
  shows "\<exists>s'. tcbSchedAppend t s = Some s' \<and>
    ready_queues_ok s' (if t \<in> set (rq d p) then rq else rq_set rq d p (rq d p @ [t]))"
proof -
  from pl obtain T where T: "tcbs s t = Some T" "d = tcbDomain T" "p = tcbPriority T"
    by (auto simp: sched_place_def)
  show ?thesis
  proof (cases "tcbQueued (tcbState T)")
    case True
    with T ok show ?thesis by (simp add: tcbSchedAppend_def in_queue_iff)
  next
    case False
    with T ok tcbSchedAppend_ok [OF ok T(1) False] show ?thesis by (simp add: in_queue_iff)
  qed
qed

lemma tcbSchedDequeue_queue:
  assumes ok: "ready_queues_ok s rq" and pl: "sched_place s t = Some (d, p)"
  shows "\<exists>s'. tcbSchedDequeue t s = Some s' \<and> ready_queues_ok s' (rq_set rq d p (remove1 t (rq d p)))"
proof -
  from pl obtain T where T: "tcbs s t = Some T" "d = tcbDomain T" "p = tcbPriority T"
    by (auto simp: sched_place_def)
  show ?thesis
  proof (cases "tcbQueued (tcbState T)")
    case True
    with T ok tcbSchedDequeue_ok [OF ok T(1) True] show ?thesis by simp
  next
    case False
    with T ok show ?thesis by (simp add: tcbSchedDequeue_def in_queue_iff remove1_idem rq_set_def)
  qed
qed

lemma queue_distinct:
  assumes "ready_queues_ok s rq"
  shows "distinct (rq d p)"
proof (cases "rq d p")
  case (Cons t ts)
  then have "t \<in> set (rq d p)" by simp
  then obtain T where "tcbs s t = Some T" "tcbDomain T = d" "tcbPriority T = p"
    using queued_member [OF assms] by metis
  with assms show ?thesis by (auto simp: ready_queues_ok_def tcbs_ok_def dlist_def)
qed simp

interpretation rdy: sched_queues ready_queues_ok sched_place tcbSchedEnqueue tcbSchedAppend tcbSchedDequeue
proof
  fix s rq t d p assume ok: "ready_queues_ok s rq"
  show "distinct (rq d p)" by (rule queue_distinct [OF ok])
  show "sched_place s t = Some (d, p)" if "t \<in> set (rq d p)"
    using queued_member [OF ok that] by (auto simp: sched_place_def)
  assume pl: "sched_place s t = Some (d, p)"
  show "\<exists>s'. tcbSchedEnqueue t s = Some s' \<and> sched_place s' = sched_place s \<and>
      ready_queues_ok s' (if t \<in> set (rq d p) then rq else rq_set rq d p (t # rq d p))"
    using tcbSchedEnqueue_queue [OF ok pl] sched_op_erased(1) sched_place_erased by blast
  show "\<exists>s'. tcbSchedAppend t s = Some s' \<and> sched_place s' = sched_place s \<and>
      ready_queues_ok s' (if t \<in> set (rq d p) then rq else rq_set rq d p (rq d p @ [t]))"
    using tcbSchedAppend_queue [OF ok pl] sched_op_erased(2) sched_place_erased by blast
  show "\<exists>s'. tcbSchedDequeue t s = Some s' \<and> sched_place s' = sched_place s \<and>
      ready_queues_ok s' (rq_set rq d p (remove1 t (rq d p)))"
    using tcbSchedDequeue_queue [OF ok pl] sched_op_erased(3) sched_place_erased by blast
qed

section \<open>The highest priority\<close>

lemma queue_nonempty:
  assumes ok: "ready_queues_ok s rq" and ne: "rq d p \<noteq> []"
  shows "d < numDomains s" and "p < 256" and "unat p < 256"
proof -
  from ne have "hd (rq d p) \<in> set (rq d p)" by simp
  then obtain T where "tcbs s (hd (rq d p)) = Some T" "tcbDomain T = d" "tcbPriority T = p"
    using queued_member [OF ok] by metis
  with ok show "d < numDomains s" "p < 256" by (auto simp: ready_queues_ok_def tcbs_ok_def)
  then show "unat p < 256" by (simp add: word_less_nat_alt)
qed

lemma highest_prio:
  assumes ok: "ready_queues_ok s rq" and d: "d < numDomains s" and q: "rq d q \<noteq> []"
  obtains p where "getHighestPrio d s = Some p" and "rq d p \<noteq> []" and "\<And>p'. rq d p' \<noteq> [] \<Longrightarrow> p' \<le> p"
proof -
  let ?P = "{k. k < 256 \<and> rq d (of_nat k) \<noteq> []}"
  have in_P: "unat p' \<in> ?P" if "rq d p' \<noteq> []" for p' using that queue_nonempty(3) [OF ok that] by simp
  have fin: "finite ?P" by simp
  from in_P [OF q] have "Max ?P \<in> ?P" using Max_in [OF fin] by blast
  then have m: "Max ?P < 256" "rq d (of_nat (Max ?P)) \<noteq> []" by simp_all
  have "bitmap_ok (ksReadyQueuesL1Bitmap s d) (ksReadyQueuesL2Bitmap s d) (\<lambda>k. rq d (of_nat k) \<noteq> [])"
    using ok d by (simp add: ready_queues_ok_def)
  from getHighestPrio_Max [OF this, of "unat q"] in_P [OF q]
  have "getHighestPrio d s = Some (of_nat (Max ?P))" by simp
  then show thesis
  proof (rule that [OF _ m(2)])
    fix p' assume "rq d p' \<noteq> []"
    then have "unat p' \<le> Max ?P" using in_P fin by (intro Max_ge) auto
    moreover have "unat (of_nat (Max ?P) :: word_t) = Max ?P"
      using m(1) by (simp add: unat_of_nat)
    ultimately show "p' \<le> of_nat (Max ?P)" by (simp add: word_le_nat_alt)
  qed
qed

section \<open>Properties\<close>

text \<open>Two threads, at priorities 3 and 100, first unqueued, then in the ready queues.\<close>

definition sched_threads :: kstate where
  "sched_threads = blank_state\<lparr>tcbs := [0x1400 \<mapsto> blank_tcb\<lparr>tcbPriority := 3\<rparr>,
                                        0x2400 \<mapsto> blank_tcb\<lparr>tcbPriority := 100\<rparr>]\<rparr>"

definition sched_example :: kstate where
  "sched_example = the (Option.bind (tcbSchedEnqueue 0x1400 sched_threads) (tcbSchedEnqueue 0x2400))"

lemma sched_threads_ok: "ready_queues_ok sched_threads (\<lambda>_ _. [])"
  by (auto simp: ready_queues_ok_def tcbs_ok_def sched_threads_def blank_state_def blank_tcb_def
      blank_queue_def queue_of_def in_queue_def bitmap_ok_def split: if_splits)

lemma sched_threads_place:
  "sched_place sched_threads 0x1400 = Some (0, 3)" "sched_place sched_threads 0x2400 = Some (0, 100)"
  by (simp_all add: sched_place_def sched_threads_def blank_tcb_def)

lemma sched_example_ok:
  "ready_queues_ok sched_example (rq_set (rq_set (\<lambda>_ _. []) 0 3 [0x1400]) 0 100 [0x2400])"
  "sched_place sched_example = sched_place sched_threads"
proof -
  from rdy.enq_law [OF sched_threads_ok sched_threads_place(1)] obtain s1 where s1:
    "tcbSchedEnqueue 0x1400 sched_threads = Some s1" "sched_place s1 = sched_place sched_threads"
    "ready_queues_ok s1 (rq_set (\<lambda>_ _. []) 0 3 [0x1400])" by auto
  from s1(2) sched_threads_place(2) have "sched_place s1 0x2400 = Some (0, 100)" by simp
  from rdy.enq_law [OF s1(3) this] obtain s2 where s2:
    "tcbSchedEnqueue 0x2400 s1 = Some s2" "sched_place s2 = sched_place s1"
    "ready_queues_ok s2 (rq_set (rq_set (\<lambda>_ _. []) 0 3 [0x1400]) 0 100 [0x2400])"
    by (auto simp: rq_set_def)
  from s1 s2 show "ready_queues_ok sched_example (rq_set (rq_set (\<lambda>_ _. []) 0 3 [0x1400]) 0 100 [0x2400])"
    and "sched_place sched_example = sched_place sched_threads"
    by (simp_all add: sched_example_def)
qed

text \<open>C10: putting a thread into the ready queues prepends it to the list of its domain and
  priority, and changes nothing but the queue links, the queued flag and the bitmap; when the
  thread is queued already nothing changes. The assertion on the bitmap index cannot fail.\<close>

theorem tcbSchedEnqueue_refines_cons:
  assumes "ready_queues_ok s rq" and "sched_place s t = Some (d, p)"
  shows "\<exists>s'. tcbSchedEnqueue t s = Some s' \<and> sched_erased s' = sched_erased s \<and>
    ready_queues_ok s' (if t \<in> set (rq d p) then rq else rq_set rq d p (t # rq d p))"
  using tcbSchedEnqueue_queue [OF assms] sched_op_erased(1) by blast

theorem tcbSchedEnqueue_refines_cons_witness:
  "\<exists>s'. tcbSchedEnqueue 0x1400 sched_threads = Some s' \<and>
     ready_queues_ok s' (rq_set (\<lambda>_ _. []) 0 3 [0x1400])"
  using tcbSchedEnqueue_refines_cons [OF sched_threads_ok sched_threads_place(1)] by auto

text \<open>C11: taking a thread out of the ready queues removes it from the list of its domain and
  priority, wherever in the list it is, and clears the bitmap bits when the list gets empty.\<close>

theorem tcbSchedDequeue_refines_remove:
  assumes "ready_queues_ok s rq" and "sched_place s t = Some (d, p)"
  shows "\<exists>s'. tcbSchedDequeue t s = Some s' \<and> sched_erased s' = sched_erased s \<and>
    ready_queues_ok s' (rq_set rq d p (remove1 t (rq d p)))"
  using tcbSchedDequeue_queue [OF assms] sched_op_erased(3) by blast

theorem tcbSchedDequeue_refines_remove_witness:
  "\<exists>s'. tcbSchedDequeue 0x2400 sched_example = Some s' \<and>
     ready_queues_ok s' (rq_set (\<lambda>_ _. []) 0 3 [0x1400])"
proof -
  from sched_example_ok(2) sched_threads_place(2) have "sched_place sched_example 0x2400 = Some (0, 100)"
    by simp
  moreover have "rq_set (rq_set (rq_set (\<lambda>_ _. []) 0 3 [0x1400]) 0 100 [0x2400]) 0 100 [] =
      rq_set (\<lambda>_ _. []) 0 3 [0x1400 :: ptr]"
    by (auto simp: rq_set_def fun_eq_iff)
  ultimately show ?thesis
    using tcbSchedDequeue_refines_remove [OF sched_example_ok(1)] by (fastforce simp: rq_set_def)
qed

text \<open>C12: round robin. Taking the thread at the head of a ready queue out and appending it, as a
  yield and the end of a time slice do, rotates the list by one.\<close>

theorem dequeue_append_rotates:
  assumes "ready_queues_ok s rq" and "sched_place s t = Some (d, p)" and "rq d p = t # ts"
  shows "\<exists>s'. Option.bind (tcbSchedDequeue t s) (tcbSchedAppend t) = Some s' \<and>
    ready_queues_ok s' (rq_set rq d p (ts @ [t]))"
  using rdy.rotate [OF assms] by blast

theorem dequeue_append_rotates_witness:
  "\<exists>s'. Option.bind (tcbSchedDequeue 0x2400 sched_example) (tcbSchedAppend 0x2400) = Some s'"
proof -
  from sched_example_ok(2) sched_threads_place(2) have "sched_place sched_example 0x2400 = Some (0, 100)"
    by simp
  then show ?thesis
    using dequeue_append_rotates [OF sched_example_ok(1), where t = "0x2400" and ts = "[]"]
    by (auto simp: rq_set_def)
qed

text \<open>C13: the two-level bitmap finds the highest priority of a thread that is ready to run:
  \<open>getHighestPrio\<close> passes its assertions, and its result is the greatest priority whose queue is
  not empty.\<close>

theorem getHighestPrio_greatest:
  assumes "ready_queues_ok s rq" and "d < numDomains s" and "rq d q \<noteq> []"
  shows "\<exists>p. getHighestPrio d s = Some p \<and> rq d p \<noteq> [] \<and> (\<forall>p'. rq d p' \<noteq> [] \<longrightarrow> p' \<le> p)"
  using assms by (rule highest_prio) blast

theorem getHighestPrio_greatest_witness: "getHighestPrio 0 sched_example = Some 100"
proof -
  have dom: "0 < numDomains sched_example" using sched_example_ok(1) by (simp add: ready_queues_ok_def tcbs_ok_def)
  let ?rq = "rq_set (rq_set (\<lambda>_ _. []) 0 3 [0x1400]) 0 100 [0x2400] :: ready_lists"
  from getHighestPrio_greatest [OF sched_example_ok(1) dom, of 100] obtain p where
    p: "getHighestPrio 0 sched_example = Some p" "?rq 0 p \<noteq> []" "\<forall>p'. ?rq 0 p' \<noteq> [] \<longrightarrow> p' \<le> p"
    by (auto simp: rq_set_def)
  from p(2) have "p = 3 \<or> p = 100" by (auto simp: rq_set_def split: if_splits)
  moreover from p(3) have "100 \<le> p" by (simp add: rq_set_def)
  ultimately show ?thesis using p(1) by auto
qed

end
