(* ===== verification/VSpace.thy ===== *)
theory VSpace
  imports CSpace
begin

text \<open>
  Address spaces of \<^verbatim>\<open>src/arch/arm/64/kernel/vspace.c\<close>: the ASID table and pools, the walk of
  the four-level page tables, the IPC buffer of a thread, unmapping of pages and page tables and
  deletion of ASIDs and ASID pools. Operations on the translation hardware go to the machine log.
\<close>

section \<open>ASIDs\<close>

abbreviation (input) asidInvalid :: word_t where "asidInvalid \<equiv> 0"
abbreviation (input) asidLowBits :: word_t where "asidLowBits \<equiv> 9"
abbreviation (input) seL4_PageBits :: word_t where "seL4_PageBits \<equiv> 12"
abbreviation (input) seL4_IPCBufferSizeBits :: word_t where "seL4_IPCBufferSizeBits \<equiv> 10"
abbreviation (input) asidHighBits :: word_t where "asidHighBits \<equiv> 7"

definition ASID_LOW :: "word_t \<Rightarrow> word_t" where
  "ASID_LOW a = a AND MASK asidLowBits"

definition ASID_HIGH :: "word_t \<Rightarrow> word_t" where
  "ASID_HIGH a = shiftr a asidLowBits"

definition findMapForASID :: "word_t \<Rightarrow> kstate \<Rightarrow> asid_map_t option" where
  "findMapForASID asid s =
     (let poolPtr = armKSASIDTable s (ASID_HIGH asid) in
      if poolPtr = NULL then Some asid_map_none
      else do { array \<leftarrow> asid_pools s poolPtr; Some (array (ASID_LOW asid)) })"

text \<open>The root of the address space, or \<open>None\<close> for \<^verbatim>\<open>EXCEPTION_LOOKUP_FAULT\<close>.\<close>

definition findVSpaceForASID :: "word_t \<Rightarrow> kstate \<Rightarrow> (ptr option \<times> kstate) option" where
  "findVSpaceForASID asid s =
     do { asid_map \<leftarrow> findMapForASID asid s;
          case asid_map of
            asid_map_none \<Rightarrow> Some (None, s\<lparr>current_lookup_fault := lookup_fault_invalid_root\<rparr>)
          | asid_map_vspace root \<Rightarrow> Some (Some root, s) }"

definition isVTableRoot :: "cap_t \<Rightarrow> bool" where
  "isVTableRoot c \<longleftrightarrow> (case c of cap_vspace_cap _ _ _ \<Rightarrow> True | _ \<Rightarrow> False)"

definition isValidNativeRoot :: "cap_t \<Rightarrow> bool" where
  "isValidNativeRoot c \<longleftrightarrow> isVTableRoot c \<and> capVSIsMapped c"

definition isValidVTableRoot :: "cap_t \<Rightarrow> bool" where
  "isValidVTableRoot c \<longleftrightarrow> isValidNativeRoot c"

definition setVMRoot :: "ptr \<Rightarrow> kstate \<Rightarrow> kstate option" where
  "setVMRoot tcb s =
     do { slot \<leftarrow> ctes s (TCB_PTR_CTE_PTR tcb tcbVTable);
          let threadRoot = cte_cap slot;
          if \<not> isValidNativeRoot threadRoot then Some (do_machine_op setGlobalUserVSpace s)
          else do {
            let vspaceRoot = capVSBasePtr threadRoot;
            let asid = capVSMappedASID threadRoot;
            (root, s) \<leftarrow> findVSpaceForASID asid s;
            if root \<noteq> Some vspaceRoot then Some (do_machine_op setGlobalUserVSpace s)
            else Some (do_machine_op (armv_contextSwitch vspaceRoot asid) s) } }"

definition setVMRootForFlush :: "ptr \<Rightarrow> word_t \<Rightarrow> kstate \<Rightarrow> (bool \<times> kstate) option" where
  "setVMRootForFlush vspace asid s =
     do { slot \<leftarrow> ctes s (TCB_PTR_CTE_PTR (ksCurThread s) tcbVTable);
          let threadRoot = cte_cap slot;
          if isVTableRoot threadRoot \<and> capVSIsMapped threadRoot \<and> capVSBasePtr threadRoot = vspace
          then Some (False, s)
          else Some (True, do_machine_op (armv_contextSwitch vspace asid) s) }"

definition invalidateTLBByASID :: "word_t \<Rightarrow> kstate \<Rightarrow> kstate" where
  "invalidateTLBByASID asid = do_machine_op (invalidateTranslationASID asid)"

definition invalidateTLBByASIDVA :: "word_t \<Rightarrow> word_t \<Rightarrow> kstate \<Rightarrow> kstate" where
  "invalidateTLBByASIDVA asid vaddr =
     do_machine_op (invalidateTranslationSingle (shiftl asid 48 OR shiftr vaddr seL4_PageBits))"

definition deleteASID :: "word_t \<Rightarrow> ptr \<Rightarrow> kstate \<Rightarrow> kstate option" where
  "deleteASID asid vspace s =
     (let poolPtr = armKSASIDTable s (ASID_HIGH asid) in
      if poolPtr \<noteq> NULL then
        do { array \<leftarrow> asid_pools s poolPtr;
             if array (ASID_LOW asid) = asid_map_vspace vspace then
               do { let s = invalidateTLBByASID asid s;
                    let s = s\<lparr>asid_pools := (asid_pools s)
                                (poolPtr \<mapsto> array(ASID_LOW asid := asid_map_none))\<rparr>;
                    setVMRoot (ksCurThread s) s }
             else Some s }
      else Some s)"

fun deleteASIDPool_loop :: "nat list \<Rightarrow> word_t \<Rightarrow> (word_t \<Rightarrow> asid_map_t) \<Rightarrow> kstate \<Rightarrow> kstate" where
  "deleteASIDPool_loop [] asid_base array s = s"
| "deleteASIDPool_loop (offset # offsets) asid_base array s =
     deleteASIDPool_loop offsets asid_base array
       (case array (of_nat offset) of
          asid_map_vspace _ \<Rightarrow> invalidateTLBByASID (asid_base + of_nat offset) s
        | asid_map_none \<Rightarrow> s)"

definition deleteASIDPool :: "word_t \<Rightarrow> ptr \<Rightarrow> kstate \<Rightarrow> kstate option" where
  "deleteASIDPool asid_base pool s =
     do { assert_opt (asid_base AND MASK asidLowBits = 0);
          if armKSASIDTable s (ASID_HIGH asid_base) = pool then
            do { array \<leftarrow> asid_pools s pool;
                 let s = deleteASIDPool_loop [0..<512] asid_base array s;
                 let s = s\<lparr>armKSASIDTable := (armKSASIDTable s)(ASID_HIGH asid_base := NULL)\<rparr>;
                 setVMRoot (ksCurThread s) s }
          else Some s }"

section \<open>Page tables\<close>

abbreviation (input) PT_INDEX_BITS :: word_t where "PT_INDEX_BITS \<equiv> 9"

definition paddr_to_pptr :: "word_t \<Rightarrow> kstate \<Rightarrow> ptr" where
  "paddr_to_pptr p s = p + pptrBaseOffset s"

definition pptr_to_paddr :: "ptr \<Rightarrow> kstate \<Rightarrow> word_t" where
  "pptr_to_paddr p s = p - pptrBaseOffset s"

definition pte_is_page_type :: "pte_t \<Rightarrow> bool" where
  "pte_is_page_type pte \<longleftrightarrow>
     (case pte of pte_pte_4k_page _ _ _ _ \<Rightarrow> True | pte_pte_page _ _ _ _ \<Rightarrow> True | _ \<Rightarrow> False)"

definition pte_pte_table_ptr_get_present :: "pte_t \<Rightarrow> bool" where
  "pte_pte_table_ptr_get_present pte \<longleftrightarrow> (case pte of pte_pte_table _ \<Rightarrow> True | _ \<Rightarrow> False)"

definition pte_get_page_base_address :: "pte_t \<Rightarrow> word_t option" where
  "pte_get_page_base_address pte =
     do { assert_opt (pte_is_page_type pte); Some (page_base_address pte) }"

text \<open>The address of the entry of a table for a virtual address: entries have 8 bytes.\<close>

definition pt_entry :: "ptr \<Rightarrow> word_t \<Rightarrow> word_t \<Rightarrow> ptr" where
  "pt_entry pt vptr bits = pt + 8 * (shiftr vptr bits AND MASK PT_INDEX_BITS)"

fun lookupPTSlot_loop :: "nat \<Rightarrow> word_t \<Rightarrow> ptr \<Rightarrow> word_t \<Rightarrow> kstate \<Rightarrow> (ptr \<times> word_t) option" where
  "lookupPTSlot_loop level ptBitsLeft ptSlot vptr s =
     do { pte \<leftarrow> ptes s ptSlot;
          case level of
            0 \<Rightarrow> Some (ptSlot, ptBitsLeft)
          | Suc l \<Rightarrow>
              if pte_pte_table_ptr_get_present pte then
                (let bits = ptBitsLeft - PT_INDEX_BITS;
                     pt = paddr_to_pptr (pt_base_address pte) s
                 in lookupPTSlot_loop l bits (pt_entry pt vptr bits) vptr s)
              else Some (ptSlot, ptBitsLeft) }"

declare lookupPTSlot_loop.simps [simp del]

definition lookupPTSlot :: "ptr \<Rightarrow> word_t \<Rightarrow> kstate \<Rightarrow> (ptr \<times> word_t) option" where
  "lookupPTSlot vspace vptr s =
     (let bits = PT_INDEX_BITS * 3 + seL4_PageBits in
      lookupPTSlot_loop 3 bits (pt_entry vspace vptr bits) vptr s)"

definition UPT_LEVEL_SHIFT :: "nat \<Rightarrow> word_t" where
  "UPT_LEVEL_SHIFT n = PT_INDEX_BITS * (3 - of_nat n) + seL4_PageBits"

text \<open>The loop of \<open>unmapPageTable\<close>: the slot that refers to \<open>target_pt\<close> (\<open>None\<close> inside when it
  is not found).\<close>

fun unmapPageTable_loop ::
    "nat \<Rightarrow> nat \<Rightarrow> ptr \<Rightarrow> ptr \<Rightarrow> ptr \<Rightarrow> word_t \<Rightarrow> kstate \<Rightarrow> (ptr \<times> ptr) option option" where
  "unmapPageTable_loop 0 i ptSlot pt target_pt vptr s = Some (Some (ptSlot, pt))"
| "unmapPageTable_loop (Suc n) i ptSlot pt target_pt vptr s =
     (if pt = target_pt then Some (Some (ptSlot, pt))
      else do { let ptSlot = pt_entry pt vptr (UPT_LEVEL_SHIFT i);
                pte \<leftarrow> ptes s ptSlot;
                if \<not> pte_pte_table_ptr_get_present pte then Some None
                else unmapPageTable_loop n (Suc i) ptSlot (paddr_to_pptr (pt_base_address pte) s)
                       target_pt vptr s })"

definition unmapPageTable :: "word_t \<Rightarrow> word_t \<Rightarrow> ptr \<Rightarrow> kstate \<Rightarrow> kstate option" where
  "unmapPageTable asid vptr target_pt s =
     do { (root, s) \<leftarrow> findVSpaceForASID asid s;
          case root of
            None \<Rightarrow> Some s
          | Some pt \<Rightarrow>
              do { r \<leftarrow> unmapPageTable_loop 3 0 NULL pt target_pt vptr s;
                   case r of
                     None \<Rightarrow> Some s
                   | Some (ptSlot, pt) \<Rightarrow>
                       if pt \<noteq> target_pt then Some s
                       else do {
                         assert_opt (ptSlot \<noteq> NULL);
                         let s = s\<lparr>ptes := (ptes s)(ptSlot \<mapsto> pte_pte_invalid)\<rparr>;
                         let s = do_machine_op (cleanByVA_PoU ptSlot) s;
                         Some (invalidateTLBByASID asid s) } } }"

definition unmapPage :: "vm_page_size_t \<Rightarrow> word_t \<Rightarrow> word_t \<Rightarrow> ptr \<Rightarrow> kstate \<Rightarrow> kstate option" where
  "unmapPage page_size asid vptr pptr s =
     do { (root, s) \<leftarrow> findVSpaceForASID asid s;
          case root of
            None \<Rightarrow> Some s
          | Some vspace \<Rightarrow>
              do { (ptSlot, ptBitsLeft) \<leftarrow> lookupPTSlot vspace vptr s;
                   if ptBitsLeft \<noteq> pageBitsForSize page_size then Some s
                   else do {
                     pte \<leftarrow> ptes s ptSlot;
                     if \<not> pte_is_page_type pte then Some s
                     else do {
                       base \<leftarrow> pte_get_page_base_address pte;
                       if base \<noteq> pptr_to_paddr pptr s then Some s
                       else do {
                         let s = s\<lparr>ptes := (ptes s)(ptSlot \<mapsto> pte_pte_invalid)\<rparr>;
                         let s = do_machine_op (cleanByVA_PoU ptSlot) s;
                         assert_opt (asid < BIT 16);
                         Some (invalidateTLBByASIDVA asid vptr s) } } } } }"

section \<open>The IPC buffer\<close>

definition lookupIPCBuffer :: "bool \<Rightarrow> ptr \<Rightarrow> kstate \<Rightarrow> ptr option" where
  "lookupIPCBuffer isReceiver thread s =
     do { t \<leftarrow> tcbs s thread;
          let w_bufferPtr = tcbIPCBuffer t;
          slot \<leftarrow> ctes s (TCB_PTR_CTE_PTR thread tcbBuffer);
          case cte_cap slot of
            cap_frame_cap _ basePtr sz _ vm_rights isDevice \<Rightarrow>
              if isDevice then Some NULL
              else if vm_rights = VMReadWrite \<or> \<not> isReceiver \<and> vm_rights = VMReadOnly then
                Some (basePtr + (w_bufferPtr AND MASK (pageBitsForSize sz)))
              else Some NULL
          | _ \<Rightarrow> Some NULL }"

definition checkValidIPCBuffer :: "word_t \<Rightarrow> cap_t \<Rightarrow> kstate \<Rightarrow> exception_t \<times> kstate" where
  "checkValidIPCBuffer vptr c s =
     (case c of
        cap_frame_cap _ _ _ _ _ isDevice \<Rightarrow>
          if isDevice then (EXCEPTION_SYSCALL_ERROR, set_error_type seL4_IllegalOperation s)
          else if vptr AND MASK seL4_IPCBufferSizeBits \<noteq> 0
          then (EXCEPTION_SYSCALL_ERROR, set_error_type seL4_AlignmentError s)
          else (EXCEPTION_NONE, s)
      | _ \<Rightarrow> (EXCEPTION_SYSCALL_ERROR, set_error_type seL4_IllegalOperation s))"

section \<open>Page table entries and faults\<close>

text \<open>The entry of a user page. The fields that are constant in this configuration (not global,
  access flag set, not shared) are not part of the model's entries.\<close>

definition APFromVMRights :: "vm_rights_t \<Rightarrow> word_t" where
  "APFromVMRights r = (case r of VMKernelOnly \<Rightarrow> 0 | VMReadWrite \<Rightarrow> 1 | VMReadOnly \<Rightarrow> 3)"

record vm_attributes_t =
  armPageCacheable :: bool
  armParityEnabled :: bool
  armExecuteNever :: bool

definition vmAttributesFromWord :: "word_t \<Rightarrow> vm_attributes_t" where
  "vmAttributesFromWord w =
     \<lparr>armPageCacheable = bit w 0, armParityEnabled = bit w 1, armExecuteNever = bit w 2\<rparr>"

definition makeUserPagePTE :: "word_t \<Rightarrow> vm_rights_t \<Rightarrow> vm_attributes_t \<Rightarrow> vm_page_size_t \<Rightarrow> pte_t" where
  "makeUserPagePTE paddr vm_rights attributes page_size =
     (let attridx = (if armPageCacheable attributes then 4 else 0) in
      if page_size = ARMSmallPage then
        pte_pte_4k_page (armExecuteNever attributes) paddr (APFromVMRights vm_rights) attridx
      else pte_pte_page (armExecuteNever attributes) paddr (APFromVMRights vm_rights) attridx)"

datatype vm_fault_type_t = ARMDataAbort | ARMPrefetchAbort

definition getRestartPC :: "ptr \<Rightarrow> kstate \<Rightarrow> word_t option" where
  "getRestartPC thread = getRegister thread FaultIP"

text \<open>The fault address and status registers are arguments.\<close>

definition handleVMFault ::
    "word_t \<Rightarrow> word_t \<Rightarrow> word_t \<Rightarrow> ptr \<Rightarrow> vm_fault_type_t \<Rightarrow> kstate \<Rightarrow> (exception_t \<times> kstate) option" where
  "handleVMFault far dfsr ifsr thread vm_faultType s =
     (case vm_faultType of
        ARMDataAbort \<Rightarrow>
          Some (EXCEPTION_FAULT, s\<lparr>current_fault := seL4_Fault_VMFault far dfsr False\<rparr>)
      | ARMPrefetchAbort \<Rightarrow>
          do { pc \<leftarrow> getRestartPC thread s;
               Some (EXCEPTION_FAULT, s\<lparr>current_fault := seL4_Fault_VMFault pc ifsr True\<rparr>) })"

section \<open>The walk of the page tables\<close>

text \<open>All 512 entries of a table exist; every address space and every table entry leads to such a
  table.\<close>

definition pt_live :: "kstate \<Rightarrow> ptr \<Rightarrow> bool" where
  "pt_live s pt \<longleftrightarrow> (\<forall>i < 512. ptes s (pt + 8 * i) \<noteq> None)"

definition vspaces_wf :: "kstate \<Rightarrow> bool" where
  "vspaces_wf s \<longleftrightarrow>
     (\<forall>asid. findMapForASID asid s \<noteq> None) \<and>
     (\<forall>asid root. findMapForASID asid s = Some (asid_map_vspace root) \<longrightarrow> pt_live s root) \<and>
     (\<forall>slot b. ptes s slot = Some (pte_pte_table b) \<longrightarrow> pt_live s (paddr_to_pptr b s))"

lemma pt_entry_live:
  assumes "pt_live s pt"
  shows "\<exists>pte. ptes s (pt_entry pt vptr bits) = Some pte"
proof -
  have "unat (shiftr vptr bits AND MASK PT_INDEX_BITS) < 512"
    by (simp add: word_bounds)
  then have "shiftr vptr bits AND MASK PT_INDEX_BITS < 512" by (simp add: word_less_nat_alt)
  with assms show ?thesis by (auto simp: pt_live_def pt_entry_def)
qed

text \<open>The walk ends at an entry that is no table, or at the last level; the number of bits left is
  the one of the level.\<close>

lemma lookupPTSlot_loop_total:
  assumes wf: "vspaces_wf s"
  shows "\<exists>pte. ptes s slot = Some pte \<Longrightarrow>
    \<exists>slot' l' pte'. lookupPTSlot_loop l (12 + 9 * of_nat l) slot v s = Some (slot', 12 + 9 * of_nat l') \<and>
      l' \<le> l \<and> ptes s slot' = Some pte' \<and> (0 < l' \<longrightarrow> \<not> pte_pte_table_ptr_get_present pte')"
proof (induction l arbitrary: slot)
  case 0
  then show ?case by (auto simp: lookupPTSlot_loop.simps [of 0] intro!: exI [of _ "0::nat"])
next
  case (Suc l)
  then obtain pte where pte: "ptes s slot = Some pte" by auto
  have step: "12 + 9 * of_nat (Suc l) - 9 = (12 + 9 * of_nat l :: word_t)"
    by (simp add: algebra_simps)
  show ?case
  proof (cases pte)
    case (pte_pte_table b)
    with pte wf have "pt_live s (paddr_to_pptr b s)" by (auto simp: vspaces_wf_def)
    from Suc.IH [OF pt_entry_live [OF this, of v "12 + 9 * of_nat l"]]
    obtain slot' l' pte' where
      "lookupPTSlot_loop l (12 + 9 * of_nat l) (pt_entry (paddr_to_pptr b s) v (12 + 9 * of_nat l)) v s =
         Some (slot', 12 + 9 * of_nat l')"
      "l' \<le> l" "ptes s slot' = Some pte'" "0 < l' \<longrightarrow> \<not> pte_pte_table_ptr_get_present pte'"
      by blast
    with pte pte_pte_table show ?thesis
      unfolding lookupPTSlot_loop.simps [of "Suc l"]
      by (auto simp: pte_pte_table_ptr_get_present_def Let_def step
            simp del: of_nat_Suc intro!: exI [of _ l'])
  next
  qed (use pte in \<open>auto simp: lookupPTSlot_loop.simps [of "Suc l"] pte_pte_table_ptr_get_present_def
         intro!: exI [of _ "Suc l"]\<close>)
qed

lemma lookupPTSlot_total:
  assumes wf: "vspaces_wf s" and live: "pt_live s root"
  obtains slot l pte where "lookupPTSlot root v s = Some (slot, 12 + 9 * of_nat l)" and "l \<le> 3"
    and "ptes s slot = Some pte" and "0 < l \<Longrightarrow> \<not> pte_pte_table_ptr_get_present pte"
  using lookupPTSlot_loop_total [OF wf pt_entry_live [OF live, of v 39], of 3 v]
  by (auto simp: lookupPTSlot_def)

text \<open>Overwriting an entry that is no table by one that is no table does not move any walk.\<close>

lemma lookupPTSlot_loop_leaf:
  assumes "ptes s slot = Some pte" and "\<not> pte_pte_table_ptr_get_present pte"
    and "\<not> pte_pte_table_ptr_get_present pte'"
  shows "lookupPTSlot_loop l bits p v (s\<lparr>ptes := (ptes s)(slot \<mapsto> pte')\<rparr>) = lookupPTSlot_loop l bits p v s"
proof (induction l arbitrary: bits p)
  case 0
  with assms(1) show ?case by (simp add: lookupPTSlot_loop.simps [of 0])
next
  case (Suc l)
  with assms show ?case
    by (cases "ptes s p") (auto simp: lookupPTSlot_loop.simps [of "Suc l"] Let_def paddr_to_pptr_def)
qed

lemma lookupPTSlot_leaf:
  assumes "ptes s slot = Some pte" and "\<not> pte_pte_table_ptr_get_present pte"
    and "\<not> pte_pte_table_ptr_get_present pte'"
  shows "lookupPTSlot root v (s\<lparr>ptes := (ptes s)(slot \<mapsto> pte')\<rparr>) = lookupPTSlot root v s"
  using assms by (simp add: lookupPTSlot_def lookupPTSlot_loop_leaf)

text \<open>What is mapped at an address: the physical base of the frame and the bits of its size.\<close>

definition translation :: "kstate \<Rightarrow> ptr \<Rightarrow> word_t \<Rightarrow> (word_t \<times> word_t) option" where
  "translation s root v =
     do { (slot, bits) \<leftarrow> lookupPTSlot root v s;
          pte \<leftarrow> ptes s slot;
          base \<leftarrow> pte_get_page_base_address pte;
          Some (base, bits) }"

lemma page_no_table: "pte_is_page_type pte \<Longrightarrow> \<not> pte_pte_table_ptr_get_present pte"
  by (cases pte) (simp_all add: pte_is_page_type_def pte_pte_table_ptr_get_present_def)

lemma findVSpaceForASID_cases:
  assumes "vspaces_wf s"
  obtains (fault) "findVSpaceForASID asid s = Some (None, s\<lparr>current_lookup_fault := lookup_fault_invalid_root\<rparr>)"
      and "findMapForASID asid s = Some asid_map_none"
  | (root) r where "findVSpaceForASID asid s = Some (Some r, s)"
      and "findMapForASID asid s = Some (asid_map_vspace r)" and "pt_live s r"
proof -
  from assms have "findMapForASID asid s \<noteq> None" by (simp add: vspaces_wf_def)
  then obtain m where m: "findMapForASID asid s = Some m" by auto
  show ?thesis
  proof (cases m)
    case asid_map_none
    with m fault show ?thesis by (simp add: findVSpaceForASID_def)
  next
    case (asid_map_vspace r)
    moreover from this m assms have "pt_live s r" by (auto simp: vspaces_wf_def)
    ultimately show ?thesis using m root by (simp add: findVSpaceForASID_def)
  qed
qed

lemma lookupPTSlot_loop_cong:
  assumes "ptes s' = ptes s" and "pptrBaseOffset s' = pptrBaseOffset s"
  shows "lookupPTSlot_loop l bits p v s' = lookupPTSlot_loop l bits p v s"
proof (induction l arbitrary: bits p)
  case (Suc l)
  with assms show ?case
    by (cases "ptes s p") (auto simp: lookupPTSlot_loop.simps [of "Suc l"] Let_def paddr_to_pptr_def)
qed (use assms in \<open>simp add: lookupPTSlot_loop.simps [of 0]\<close>)

lemma lookupPTSlot_cong:
  assumes "ptes s' = ptes s" and "pptrBaseOffset s' = pptrBaseOffset s"
  shows "lookupPTSlot root v s' = lookupPTSlot root v s"
  using lookupPTSlot_loop_cong [OF assms] by (simp add: lookupPTSlot_def)

section \<open>Unmapping a page\<close>

text \<open>The page entry at \<open>slot\<close> is erased: what it does to the translations.\<close>

lemma translation_erased:
  assumes slot: "ptes s slot = Some pte" "pte_is_page_type pte" "page_base_address pte = base"
    and s': "ptes s' = (ptes s)(slot \<mapsto> pte_pte_invalid)" "pptrBaseOffset s' = pptrBaseOffset s"
  shows "lookupPTSlot root v s' = lookupPTSlot root v s"
    and "translation s' root v =
      (case lookupPTSlot root v s of
         Some (q, _) \<Rightarrow> if q = slot then None else translation s root v | None \<Rightarrow> None)"
    and "lookupPTSlot root v s = Some (slot, bits) \<Longrightarrow> translation s root v = Some (base, bits)"
proof -
  have inv: "\<not> pte_pte_table_ptr_get_present pte_pte_invalid" "\<not> pte_is_page_type pte_pte_invalid"
    by (simp_all add: pte_pte_table_ptr_get_present_def pte_is_page_type_def)
  have "lookupPTSlot root v s' = lookupPTSlot root v (s\<lparr>ptes := (ptes s)(slot \<mapsto> pte_pte_invalid)\<rparr>)"
    using s' by (intro lookupPTSlot_cong) simp_all
  also have "\<dots> = lookupPTSlot root v s"
    using lookupPTSlot_leaf [OF slot(1) page_no_table [OF slot(2)] inv(1)] .
  finally show l: "lookupPTSlot root v s' = lookupPTSlot root v s" .
  show "translation s' root v =
      (case lookupPTSlot root v s of
         Some (q, _) \<Rightarrow> if q = slot then None else translation s root v | None \<Rightarrow> None)"
    using s'(1) inv(2)
    by (cases "lookupPTSlot root v s") (auto simp: translation_def l pte_get_page_base_address_def)
  show "translation s root v = Some (base, bits)" if "lookupPTSlot root v s = Some (slot, bits)"
    using that slot by (simp add: translation_def pte_get_page_base_address_def)
qed

lemma unmapPage_result:
  assumes wf: "vspaces_wf s" and asid: "asid < BIT 16"
    and root: "findMapForASID asid s = Some (asid_map_vspace r)"
  shows "\<exists>s' slot bits. unmapPage sz asid v p s = Some s' \<and> lookupPTSlot r v s = Some (slot, bits) \<and>
    s' = (if translation s r v = Some (pptr_to_paddr p s, pageBitsForSize sz)
          then s\<lparr>ptes := (ptes s)(slot \<mapsto> pte_pte_invalid),
                 machine_log := machine_log s @ [cleanByVA_PoU slot,
                   invalidateTranslationSingle (shiftl asid 48 OR shiftr v seL4_PageBits)]\<rparr>
          else s) \<and>
    translation s' r v =
      (if translation s r v = Some (pptr_to_paddr p s, pageBitsForSize sz) then None else translation s r v) \<and>
    (\<forall>r' v'. lookupPTSlot r' v' s' = lookupPTSlot r' v' s) \<and>
    (\<forall>r' v'. (\<forall>b. lookupPTSlot r' v' s \<noteq> Some (slot, b)) \<longrightarrow> translation s' r' v' = translation s r' v')"
proof -
  from root have f: "findVSpaceForASID asid s = Some (Some r, s)" by (simp add: findVSpaceForASID_def)
  from wf root have "pt_live s r" by (auto simp: vspaces_wf_def)
  from lookupPTSlot_total [OF wf this, of v] obtain slot bits pte where
    l: "lookupPTSlot r v s = Some (slot, bits)" and pte: "ptes s slot = Some pte" by metis
  have mapped: "translation s r v = Some (pptr_to_paddr p s, pageBitsForSize sz) \<longleftrightarrow>
      bits = pageBitsForSize sz \<and> pte_is_page_type pte \<and> page_base_address pte = pptr_to_paddr p s"
    using l pte by (auto simp: translation_def pte_get_page_base_address_def bind_eq_Some_conv)
  show ?thesis
  proof (cases "translation s r v = Some (pptr_to_paddr p s, pageBitsForSize sz)")
    case False
    then have "unmapPage sz asid v p s = Some s"
      using f l pte unfolding mapped by (auto simp: unmapPage_def pte_get_page_base_address_def)
    with False l show ?thesis by auto
  next
    case True
    with mapped have pg: "bits = pageBitsForSize sz" "pte_is_page_type pte"
      "page_base_address pte = pptr_to_paddr p s" by simp_all
    define s' where "s' = invalidateTLBByASIDVA asid v
      (do_machine_op (cleanByVA_PoU slot) (s\<lparr>ptes := (ptes s)(slot \<mapsto> pte_pte_invalid)\<rparr>))"
    have run: "unmapPage sz asid v p s = Some s'"
      using pg f l pte asid by (simp add: unmapPage_def pte_get_page_base_address_def s'_def)
    have s': "s' = s\<lparr>ptes := (ptes s)(slot \<mapsto> pte_pte_invalid),
        machine_log := machine_log s @ [cleanByVA_PoU slot,
          invalidateTranslationSingle (shiftl asid 48 OR shiftr v seL4_PageBits)]\<rparr>"
      by (simp add: s'_def invalidateTLBByASIDVA_def do_machine_op_def)
    then have "ptes s' = (ptes s)(slot \<mapsto> pte_pte_invalid)" "pptrBaseOffset s' = pptrBaseOffset s"
      by simp_all
    note e = translation_erased [OF pte pg(2,3) this]
    have "translation s' r v = None" by (simp add: e(2) l)
    moreover have "translation s' r' v' = translation s r' v'"
      if "\<forall>b. lookupPTSlot r' v' s \<noteq> Some (slot, b)" for r' v'
      using that by (auto simp: e(2) split: option.splits) (simp add: translation_def)
    ultimately show ?thesis using True run s' l e(1) by (intro exI [of _ s'] exI [of _ slot] exI [of _ bits]) simp
  qed
qed

section \<open>Deleting an ASID\<close>

lemma setVMRoot_run:
  assumes "vspaces_wf s" and "ctes s (TCB_PTR_CTE_PTR t tcbVTable) \<noteq> None"
  obtains lf m where "setVMRoot t s = Some (s\<lparr>current_lookup_fault := lf, machine_log := machine_log s @ [m]\<rparr>)"
proof -
  from assms(2) obtain c where c: "ctes s (TCB_PTR_CTE_PTR t tcbVTable) = Some c" by auto
  let ?root = "cte_cap c"
  have same: "s\<lparr>machine_log := l\<rparr> = s\<lparr>current_lookup_fault := current_lookup_fault s, machine_log := l\<rparr>" for l
    by simp
  show ?thesis
  proof (cases "isValidNativeRoot ?root")
    case False
    with c have "setVMRoot t s = Some (s\<lparr>machine_log := machine_log s @ [setGlobalUserVSpace]\<rparr>)"
      by (simp add: setVMRoot_def do_machine_op_def)
    with that show ?thesis by (simp only: same)
  next
    case True
    from assms(1) show ?thesis
    proof (cases rule: findVSpaceForASID_cases [of s "capVSMappedASID ?root"])
      case fault
      with c True have "setVMRoot t s = Some (s\<lparr>current_lookup_fault := lookup_fault_invalid_root,
          machine_log := machine_log s @ [setGlobalUserVSpace]\<rparr>)"
        by (simp add: setVMRoot_def do_machine_op_def)
      with that show ?thesis by blast
    next
      case (root r)
      with c True have "setVMRoot t s = Some (s\<lparr>machine_log := machine_log s @
          [if r = capVSBasePtr ?root then armv_contextSwitch r (capVSMappedASID ?root) else setGlobalUserVSpace]\<rparr>)"
        by (simp add: setVMRoot_def do_machine_op_def Let_def)
      with that show ?thesis by (simp only: same)
    qed
  qed
qed

lemma findMapForASID_cong:
  "asid_pools s' = asid_pools s \<Longrightarrow> armKSASIDTable s' = armKSASIDTable s \<Longrightarrow>
   findMapForASID a s' = findMapForASID a s"
  by (simp add: findMapForASID_def Let_def)

lemma asid_split: "ASID_HIGH a = ASID_HIGH b \<and> ASID_LOW a = ASID_LOW b \<longleftrightarrow> a = b"
proof
  assume "ASID_HIGH a = ASID_HIGH b \<and> ASID_LOW a = ASID_LOW b"
  then have "unat a div 512 = unat b div 512" "unat a mod 512 = unat b mod 512"
    using unat_shiftr [of a 9] unat_shiftr [of b 9] unat_and_MASK [of a 9] unat_and_MASK [of b 9]
    by (simp_all add: ASID_HIGH_def ASID_LOW_def)
  then have "unat a = unat b" by (metis div_mult_mod_eq)
  then show "a = b" by (simp add: word_unat_eq_iff)
qed simp

text \<open>Different entries of the ASID table are different pools.\<close>

definition asid_pools_wf :: "kstate \<Rightarrow> bool" where
  "asid_pools_wf s \<longleftrightarrow>
     (\<forall>h k. armKSASIDTable s h = armKSASIDTable s k \<longrightarrow> armKSASIDTable s h \<noteq> NULL \<longrightarrow> h = k)"

lemma deleteASID_result:
  assumes wf: "vspaces_wf s" and inj: "asid_pools_wf s"
    and cur: "ctes s (TCB_PTR_CTE_PTR (ksCurThread s) tcbVTable) \<noteq> None"
  shows "\<exists>s'. deleteASID asid vspace s = Some s' \<and>
    findMapForASID asid s' \<noteq> Some (asid_map_vspace vspace) \<and>
    (\<forall>a. a \<noteq> asid \<longrightarrow> findMapForASID a s' = findMapForASID a s) \<and>
    (findMapForASID asid s = Some (asid_map_vspace vspace) \<longrightarrow>
       findMapForASID asid s' = Some asid_map_none \<and>
       (\<exists>m. machine_log s' = machine_log s @ [invalidateTranslationASID asid, m]))"
proof (cases "findMapForASID asid s = Some (asid_map_vspace vspace)")
  case False
  moreover from wf have "findMapForASID asid s \<noteq> None" by (simp add: vspaces_wf_def)
  ultimately have "deleteASID asid vspace s = Some s"
    by (auto simp: deleteASID_def findMapForASID_def Let_def split: if_splits bind_splits)
  with False show ?thesis by auto
next
  case True
  let ?p = "armKSASIDTable s (ASID_HIGH asid)"
  from True obtain array where a: "?p \<noteq> NULL" "asid_pools s ?p = Some array"
    "array (ASID_LOW asid) = asid_map_vspace vspace"
    by (auto simp: findMapForASID_def Let_def bind_eq_Some_conv split: if_splits)
  define s1 where "s1 = (invalidateTLBByASID asid s)\<lparr>asid_pools :=
    (asid_pools s)(?p \<mapsto> array(ASID_LOW asid := asid_map_none))\<rparr>"
  have f1: "findMapForASID b s1 = (if b = asid then Some asid_map_none else findMapForASID b s)" for b
  proof (cases "armKSASIDTable s (ASID_HIGH b) = ?p")
    case True
    then have "ASID_HIGH b = ASID_HIGH asid" using inj a(1) unfolding asid_pools_wf_def by metis
    then show ?thesis using a asid_split [of b asid]
      by (auto simp: findMapForASID_def s1_def invalidateTLBByASID_def do_machine_op_def)
  next
    case False
    then show ?thesis
      by (auto simp: findMapForASID_def s1_def invalidateTLBByASID_def do_machine_op_def Let_def)
  qed
  have "vspaces_wf s1"
    using wf unfolding vspaces_wf_def f1
    by (auto simp: s1_def invalidateTLBByASID_def do_machine_op_def pt_live_def paddr_to_pptr_def
        split: if_splits)
  moreover have "ctes s1 (TCB_PTR_CTE_PTR (ksCurThread s) tcbVTable) \<noteq> None"
    using cur by (simp add: s1_def invalidateTLBByASID_def do_machine_op_def)
  ultimately obtain lf m where run: "setVMRoot (ksCurThread s) s1 =
      Some (s1\<lparr>current_lookup_fault := lf, machine_log := machine_log s1 @ [m]\<rparr>)"
    by (rule setVMRoot_run)
  let ?s' = "s1\<lparr>current_lookup_fault := lf, machine_log := machine_log s1 @ [m]\<rparr>"
  have "ksCurThread (invalidateTLBByASID asid s) = ksCurThread s"
    by (simp add: invalidateTLBByASID_def do_machine_op_def)
  moreover have "(invalidateTLBByASID asid s)\<lparr>asid_pools := (asid_pools (invalidateTLBByASID asid s))
      (?p \<mapsto> array(ASID_LOW asid := asid_map_none))\<rparr> = s1"
    by (simp add: s1_def invalidateTLBByASID_def do_machine_op_def)
  ultimately have "deleteASID asid vspace s = Some ?s'"
    using a run by (simp add: deleteASID_def)
  moreover have "findMapForASID b ?s' = findMapForASID b s1" for b
    by (rule findMapForASID_cong) simp_all
  moreover have "machine_log s1 = machine_log s @ [invalidateTranslationASID asid]"
    by (simp add: s1_def invalidateTLBByASID_def do_machine_op_def)
  ultimately show ?thesis by (auto simp: f1)
qed

lemma deleteASIDPool_loop_log:
  "deleteASIDPool_loop os base array s =
     s\<lparr>machine_log := machine_log s @
         map (\<lambda>k. invalidateTranslationASID (base + of_nat k)) (filter (\<lambda>k. array (of_nat k) \<noteq> asid_map_none) os)\<rparr>"
proof (induction os arbitrary: s)
  case (Cons k os)
  show ?case
    by (cases "array (of_nat k)") (simp_all add: Cons invalidateTLBByASID_def do_machine_op_def)
qed simp

text \<open>An ASID is the base of its pool and an offset below 512.\<close>

lemma word_nat_cast_id: "of_nat (unat (w :: word_t)) = w"
  by simp

lemma asid_of_pool:
  assumes "ASID_HIGH a = ASID_HIGH base" and "base AND MASK asidLowBits = 0"
  shows "a = base + of_nat (unat (ASID_LOW a))" and "unat (ASID_LOW a) < 512"
proof -
  have b: "unat (ASID_HIGH x) = unat x div 512" "unat (ASID_LOW x) = unat x mod 512" for x
    by (simp_all add: ASID_HIGH_def ASID_LOW_def word_bounds)
  from assms(2) have "unat base mod 512 = 0"
    by (metis b(2) ASID_LOW_def unat_0)
  moreover have "unat a div 512 = unat base div 512" using assms(1) b(1) by metis
  ultimately have "unat a = unat base + unat a mod 512"
    by (metis add.commute add.right_neutral div_mult_mod_eq mult.commute)
  then have "of_nat (unat a) = (of_nat (unat base + unat a mod 512) :: word_t)" by (rule arg_cong)
  then have "a = of_nat (unat base + unat a mod 512)" by (simp only: word_nat_cast_id)
  then show "a = base + of_nat (unat (ASID_LOW a))" by (simp add: b(2))
  show "unat (ASID_LOW a) < 512" by (simp add: b(2))
qed

lemma deleteASIDPool_result:
  assumes wf: "vspaces_wf s" and inj: "asid_pools_wf s"
    and cur: "ctes s (TCB_PTR_CTE_PTR (ksCurThread s) tcbVTable) \<noteq> None"
    and al: "base AND MASK asidLowBits = 0"
    and pool: "armKSASIDTable s (ASID_HIGH base) = pool" "pool \<noteq> NULL"
  shows "\<exists>s'. deleteASIDPool base pool s = Some s' \<and>
    (\<forall>a. findMapForASID a s' =
       (if ASID_HIGH a = ASID_HIGH base then Some asid_map_none else findMapForASID a s)) \<and>
    (\<forall>a r. ASID_HIGH a = ASID_HIGH base \<longrightarrow> findMapForASID a s = Some (asid_map_vspace r) \<longrightarrow>
       invalidateTranslationASID a \<in> set (machine_log s'))"
proof -
  have "findMapForASID base s \<noteq> None" using wf by (simp add: vspaces_wf_def)
  with pool obtain array where arr: "asid_pools s pool = Some array"
    by (auto simp: findMapForASID_def Let_def bind_eq_Some_conv)
  define l where "l = map (\<lambda>k. invalidateTranslationASID (base + of_nat k))
    (filter (\<lambda>k. array (of_nat k) \<noteq> asid_map_none) [0..<512])"
  define s1 where "s1 = s\<lparr>machine_log := machine_log s @ l, armKSASIDTable := (armKSASIDTable s)(ASID_HIGH base := NULL)\<rparr>"
  have f1: "findMapForASID a s1 =
      (if ASID_HIGH a = ASID_HIGH base then Some asid_map_none else findMapForASID a s)" for a
    by (simp add: findMapForASID_def s1_def Let_def)
  have "vspaces_wf s1"
    using wf unfolding vspaces_wf_def f1 by (auto simp: s1_def pt_live_def paddr_to_pptr_def split: if_splits)
  moreover have "ctes s1 (TCB_PTR_CTE_PTR (ksCurThread s) tcbVTable) \<noteq> None"
    using cur by (simp add: s1_def)
  ultimately obtain lf m where run: "setVMRoot (ksCurThread s) s1 =
      Some (s1\<lparr>current_lookup_fault := lf, machine_log := machine_log s1 @ [m]\<rparr>)"
    by (rule setVMRoot_run)
  let ?s' = "s1\<lparr>current_lookup_fault := lf, machine_log := machine_log s1 @ [m]\<rparr>"
  have "deleteASIDPool base pool s = Some ?s'"
    using pool al arr run
    by (simp add: deleteASIDPool_def deleteASIDPool_loop_log l_def [symmetric] s1_def [symmetric] del: upt_rec_numeral)
  moreover have "findMapForASID a ?s' = findMapForASID a s1" for a
    by (rule findMapForASID_cong) simp_all
  moreover have "invalidateTranslationASID a \<in> set l"
    if "ASID_HIGH a = ASID_HIGH base" "findMapForASID a s = Some (asid_map_vspace r)" for a r
  proof -
    from that pool arr have "array (ASID_LOW a) = asid_map_vspace r" by (simp add: findMapForASID_def)
    moreover note asid_of_pool [OF that(1) al]
    ultimately show ?thesis unfolding l_def by (force simp del: upt_rec_numeral)
  qed
  moreover have "machine_log s1 = machine_log s @ l" by (simp add: s1_def)
  ultimately show ?thesis by (intro exI [of _ ?s']) (auto simp: f1)
qed

section \<open>The buffer lies in its frame\<close>

lemma frame_offset:
  assumes al: "base AND MASK n = 0" and n: "unat n < 64"
  shows "base \<le> base + (w AND MASK n)" and "base + (w AND MASK n) \<le> base + MASK n"
proof -
  have "unat base mod 2 ^ unat n = 0" using al by (metis unat_and_MASK unat_0)
  moreover have "unat base < 2 ^ unat n * 2 ^ (64 - unat n)"
    using n unsigned_less [of base] by (simp flip: power_add)
  ultimately have room: "unat base + 2 ^ unat n \<le> 2 ^ 64"
  proof -
    assume a: "unat base mod 2 ^ unat n = 0" and b: "unat base < 2 ^ unat n * 2 ^ (64 - unat n)"
    from a obtain k where k: "unat base = 2 ^ unat n * k" by (auto simp: mod_eq_0_iff_dvd)
    with b have "Suc k \<le> 2 ^ (64 - unat n)" by simp
    then have "2 ^ unat n * Suc k \<le> 2 ^ unat n * (2 :: nat) ^ (64 - unat n)" by (rule mult_le_mono2)
    also have "\<dots> = 2 ^ 64" using n by (simp flip: power_add)
    finally show ?thesis using k by simp
  qed
  have m: "unat (MASK n) = 2 ^ unat n - 1"
    using n word_sub_decreases(1) [of 1 "BIT n"] by (simp add: MASK_def unat_BIT word_le_nat_alt)
  have lt: "unat (w AND MASK n) < 2 ^ unat n" by (simp add: word_bounds)
  have "unat (base + x) = unat base + unat x" if "unat x < 2 ^ unat n" for x
    using that room by (subst unat_add_lem [symmetric]) simp
  with lt m show "base \<le> base + (w AND MASK n)" and "base + (w AND MASK n) \<le> base + MASK n"
    by (simp_all add: word_le_nat_alt)
qed

section \<open>Properties\<close>

text \<open>One address space: ASID 1 with one small page of frame \<open>0x9000\<close> at address 0.\<close>

definition vspace_example :: kstate where
  "vspace_example = blank_state
     \<lparr>ptes := \<lambda>p. Some (if p = 0x1000 then pte_pte_table 0x2000
                        else if p = 0x2000 then pte_pte_table 0x3000
                        else if p = 0x3000 then pte_pte_table 0x4000
                        else if p = 0x4000 then pte_pte_4k_page False 0x9000 1 4
                        else pte_pte_invalid),
      asid_pools := [0x5000 \<mapsto> (\<lambda>_. asid_map_none)(1 := asid_map_vspace 0x1000)],
      armKSASIDTable := (\<lambda>_. NULL)(0 := 0x5000),
      ctes := [0x10020 \<mapsto> \<lparr>cte_cap = cap_vspace_cap 1 0x1000 True, cteMDBNode = nullMDBNode\<rparr>,
               0x10080 \<mapsto> \<lparr>cte_cap = cap_frame_cap 1 0x9000 ARMSmallPage 0 VMReadWrite False,
                            cteMDBNode = nullMDBNode\<rparr>],
      tcbs := [0x10400 \<mapsto> blank_tcb\<lparr>tcbIPCBuffer := 0x400\<rparr>], ksCurThread := 0x10400\<rparr>"

lemma vspace_example_wf: "vspaces_wf vspace_example" "asid_pools_wf vspace_example"
  by (auto simp: vspaces_wf_def asid_pools_wf_def vspace_example_def findMapForASID_def pt_live_def
      Let_def split: if_splits)

lemma vspace_example_maps:
  "findMapForASID 1 vspace_example = Some (asid_map_vspace 0x1000)"
  "ctes vspace_example (TCB_PTR_CTE_PTR (ksCurThread vspace_example) tcbVTable) \<noteq> None"
  by (simp_all add: vspace_example_def findMapForASID_def ASID_HIGH_def ASID_LOW_def shiftr_def
      MASK_def BIT_def TCB_PTR_CTE_PTR_def)

text \<open>C17: unmapping a page. When the address translates to the frame, with the size given, in
  the address space of the ASID, exactly the page table entry that translates it is made invalid,
  the entry is cleaned to memory, and then the cached translation of the address is invalidated;
  otherwise nothing changes at all. So the frame is not mapped there afterwards, no walk of any
  page table ends at another entry than before, and every other translation, of any address in any
  address space, is unchanged, except for addresses whose walk ends at the very same entry. No
  assertion fails.\<close>

theorem unmapPage_unmaps:
  assumes "vspaces_wf s" and "asid < BIT 16" and "findMapForASID asid s = Some (asid_map_vspace r)"
  shows "\<exists>s' slot bits. unmapPage sz asid v p s = Some s' \<and> lookupPTSlot r v s = Some (slot, bits) \<and>
    s' = (if translation s r v = Some (pptr_to_paddr p s, pageBitsForSize sz)
          then s\<lparr>ptes := (ptes s)(slot \<mapsto> pte_pte_invalid),
                 machine_log := machine_log s @ [cleanByVA_PoU slot,
                   invalidateTranslationSingle (shiftl asid 48 OR shiftr v seL4_PageBits)]\<rparr>
          else s) \<and>
    translation s' r v =
      (if translation s r v = Some (pptr_to_paddr p s, pageBitsForSize sz) then None else translation s r v) \<and>
    (\<forall>r' v'. lookupPTSlot r' v' s' = lookupPTSlot r' v' s) \<and>
    (\<forall>r' v'. (\<forall>b. lookupPTSlot r' v' s \<noteq> Some (slot, b)) \<longrightarrow> translation s' r' v' = translation s r' v')"
  by (rule unmapPage_result [OF assms])

text \<open>The page of the example is unmapped; another entry of the same table is not touched.\<close>

theorem unmapPage_unmaps_witness:
  "\<exists>s'. unmapPage ARMSmallPage 1 0 0x9000 vspace_example = Some s' \<and>
     translation vspace_example 0x1000 0 = Some (0x9000, 12) \<and> translation s' 0x1000 0 = None \<and>
     ptes s' 0x4000 = Some pte_pte_invalid \<and> ptes s' 0x3000 = Some (pte_pte_table 0x4000)"
proof -
  have p: "pptr_to_paddr 0x9000 vspace_example = 0x9000"
    by (simp add: pptr_to_paddr_def vspace_example_def blank_state_def)
  have l: "lookupPTSlot 0x1000 0 vspace_example = Some (0x4000, 12)"
    by (simp add: lookupPTSlot_def lookupPTSlot_loop.simps numeral_3_eq_3 vspace_example_def blank_state_def
        pt_entry_def shiftr_def MASK_def pte_pte_table_ptr_get_present_def paddr_to_pptr_def Let_def)
  have t: "translation vspace_example 0x1000 0 = Some (0x9000, 12)"
    by (simp add: translation_def l) (simp add: vspace_example_def pte_get_page_base_address_def pte_is_page_type_def)
  have b: "(1 :: word_t) < BIT 16" by (simp add: BIT_def)
  have e: "ptes vspace_example 0x3000 = Some (pte_pte_table 0x4000)" by (simp add: vspace_example_def)
  show ?thesis
    using unmapPage_unmaps [OF vspace_example_wf(1) b vspace_example_maps(1),
      where sz = ARMSmallPage and v = 0 and p = "0x9000"] t l e
    by (auto simp: p)
qed

text \<open>Deleting an ASID. Afterwards the ASID does not lead to the address space, every other
  ASID leads where it did, and when the ASID was in use its translations were invalidated before
  the root of the current thread was set again.\<close>

theorem deleteASID_deletes:
  assumes "vspaces_wf s" and "asid_pools_wf s"
    and "ctes s (TCB_PTR_CTE_PTR (ksCurThread s) tcbVTable) \<noteq> None"
  shows "\<exists>s'. deleteASID asid vspace s = Some s' \<and>
    findMapForASID asid s' \<noteq> Some (asid_map_vspace vspace) \<and>
    (\<forall>a. a \<noteq> asid \<longrightarrow> findMapForASID a s' = findMapForASID a s) \<and>
    (findMapForASID asid s = Some (asid_map_vspace vspace) \<longrightarrow>
       findMapForASID asid s' = Some asid_map_none \<and>
       (\<exists>m. machine_log s' = machine_log s @ [invalidateTranslationASID asid, m]))"
  by (rule deleteASID_result [OF assms])

theorem deleteASID_deletes_witness:
  "\<exists>s'. deleteASID 1 0x1000 vspace_example = Some s' \<and> findMapForASID 1 s' = Some asid_map_none"
  using deleteASID_deletes [OF vspace_example_wf vspace_example_maps(2), where asid = 1 and vspace = "0x1000"]
    vspace_example_maps(1) by blast

text \<open>C18: deleting an ASID pool takes away exactly the ASIDs of the pool and invalidates the
  translations of each of them that was in use.\<close>

theorem deleteASIDPool_deletes:
  assumes "vspaces_wf s" and "asid_pools_wf s"
    and "ctes s (TCB_PTR_CTE_PTR (ksCurThread s) tcbVTable) \<noteq> None"
    and "base AND MASK asidLowBits = 0"
    and "armKSASIDTable s (ASID_HIGH base) = pool" and "pool \<noteq> NULL"
  shows "\<exists>s'. deleteASIDPool base pool s = Some s' \<and>
    (\<forall>a. findMapForASID a s' =
       (if ASID_HIGH a = ASID_HIGH base then Some asid_map_none else findMapForASID a s)) \<and>
    (\<forall>a r. ASID_HIGH a = ASID_HIGH base \<longrightarrow> findMapForASID a s = Some (asid_map_vspace r) \<longrightarrow>
       invalidateTranslationASID a \<in> set (machine_log s'))"
  by (rule deleteASIDPool_result [OF assms])

theorem deleteASIDPool_deletes_witness:
  "\<exists>s'. deleteASIDPool 0 0x5000 vspace_example = Some s' \<and>
     invalidateTranslationASID 1 \<in> set (machine_log s')"
proof -
  have "(0 :: word_t) AND MASK asidLowBits = 0" "armKSASIDTable vspace_example (ASID_HIGH 0) = 0x5000"
    and same: "ASID_HIGH 1 = ASID_HIGH 0"
    by (simp_all add: vspace_example_def ASID_HIGH_def shiftr_def)
  from deleteASIDPool_deletes [OF vspace_example_wf vspace_example_maps(2) this(1,2)]
  show ?thesis using vspace_example_maps(1) same by auto
qed

text \<open>C19: the IPC buffer of a thread is null or lies within the frame of its buffer slot; a device
  frame or a frame without the needed rights is never used, and a receiver's buffer is
  writable.\<close>

theorem lookupIPCBuffer_within_frame:
  assumes "lookupIPCBuffer isReceiver thread s = Some b" and "b \<noteq> NULL"
    and "ctes s (TCB_PTR_CTE_PTR thread tcbBuffer) = Some slot"
    and "capFBasePtr (cte_cap slot) AND MASK (pageBitsForSize (capFSize (cte_cap slot))) = 0"
  shows "\<exists>asid base sz va rights. cte_cap slot = cap_frame_cap asid base sz va rights False \<and>
    rights \<noteq> VMKernelOnly \<and> (isReceiver \<longrightarrow> rights = VMReadWrite) \<and>
    base \<le> b \<and> b \<le> base + MASK (pageBitsForSize sz)"
proof -
  have bits: "unat (pageBitsForSize sz) < 64" for sz by (cases sz) simp_all
  obtain asid base sz va rights dev where f: "cte_cap slot = cap_frame_cap asid base sz va rights dev"
    using assms(1-3) by (cases "cte_cap slot") (auto simp: lookupIPCBuffer_def bind_eq_Some_conv)
  with assms(1-3) obtain w where "b = base + (w AND MASK (pageBitsForSize sz))" "dev = False"
    "rights = VMReadWrite \<or> \<not> isReceiver \<and> rights = VMReadOnly"
    by (auto simp: lookupIPCBuffer_def bind_eq_Some_conv split: if_splits)
  moreover from assms(4) f have "base AND MASK (pageBitsForSize sz) = 0" by simp
  from frame_offset [OF this bits] have "base \<le> base + (w AND MASK (pageBitsForSize sz))"
    "base + (w AND MASK (pageBitsForSize sz)) \<le> base + MASK (pageBitsForSize sz)" for w .
  ultimately show ?thesis using f by auto
qed

theorem lookupIPCBuffer_within_frame_witness:
  "lookupIPCBuffer True 0x10400 vspace_example = Some 0x9400 \<and> (0x9000 :: ptr) \<le> 0x9400"
proof -
  have run: "lookupIPCBuffer True 0x10400 vspace_example = Some 0x9400"
    by (simp add: lookupIPCBuffer_def vspace_example_def TCB_PTR_CTE_PTR_def MASK_def BIT_def)
  have slot: "ctes vspace_example (TCB_PTR_CTE_PTR 0x10400 tcbBuffer) =
      Some \<lparr>cte_cap = cap_frame_cap 1 0x9000 ARMSmallPage 0 VMReadWrite False, cteMDBNode = nullMDBNode\<rparr>"
    by (simp add: vspace_example_def TCB_PTR_CTE_PTR_def MASK_def BIT_def)
  from lookupIPCBuffer_within_frame [OF run _ slot] run show ?thesis
    by (simp add: MASK_def BIT_def)
qed

end
