(* ===== verification/Scheduler.thy ===== *)
theory Scheduler
  imports Ready_Queues VSpace
begin

text \<open>
  The scheduler of \<^verbatim>\<open>src/kernel/thread.c\<close> (without scheduling contexts), the owner of the
  floating point unit (\<^verbatim>\<open>src/machine/fpu.c\<close>) and the domain schedule. The scheduler acts on the
  ready queues through the interface \<open>sched_queues\<close> of \<open>Ready_Queues\<close>.
\<close>

section \<open>Thread states\<close>

definition isRunnable :: "tcb_t \<Rightarrow> bool" where
  "isRunnable thread \<longleftrightarrow>
     (case tsType (tcbState thread) of
        ThreadState_Running \<Rightarrow> True | ThreadState_Restart \<Rightarrow> True | _ \<Rightarrow> False)"

lemma isRunnable_iff:
  "isRunnable T \<longleftrightarrow> tsType (tcbState T) = ThreadState_Running \<or> tsType (tcbState T) = ThreadState_Restart"
  by (simp add: isRunnable_def split: tsType_t.split)

abbreviation (input) isSchedulable :: "tcb_t \<Rightarrow> bool" where
  "isSchedulable \<equiv> isRunnable"

definition isBlocked :: "tcb_t \<Rightarrow> bool" where
  "isBlocked thread \<longleftrightarrow>
     (case tsType (tcbState thread) of
        ThreadState_BlockedOnReceive \<Rightarrow> True | ThreadState_BlockedOnSend \<Rightarrow> True
      | ThreadState_BlockedOnNotification \<Rightarrow> True | ThreadState_BlockedOnReply \<Rightarrow> True
      | _ \<Rightarrow> False)"

definition isStopped :: "tcb_t \<Rightarrow> bool" where
  "isStopped thread \<longleftrightarrow>
     (case tsType (tcbState thread) of
        ThreadState_Inactive \<Rightarrow> True | ThreadState_BlockedOnReceive \<Rightarrow> True
      | ThreadState_BlockedOnSend \<Rightarrow> True | ThreadState_BlockedOnNotification \<Rightarrow> True
      | ThreadState_BlockedOnReply \<Rightarrow> True | _ \<Rightarrow> False)"

definition set_action :: "ptr \<Rightarrow> kstate \<Rightarrow> kstate" where
  "set_action a s = s\<lparr>ksSchedulerAction := a\<rparr>"

definition scheduleTCB :: "ptr \<Rightarrow> kstate \<Rightarrow> kstate option" where
  "scheduleTCB tptr s =
     do { t \<leftarrow> tcbs s tptr;
          Some (if tptr = ksCurThread s \<and> ksSchedulerAction s = SchedulerAction_ResumeCurrentThread \<and>
                   \<not> isSchedulable t
                then set_action SchedulerAction_ChooseNewThread s else s) }"

definition setThreadState :: "ptr \<Rightarrow> tsType_t \<Rightarrow> kstate \<Rightarrow> kstate option" where
  "setThreadState tptr ts s =
     do { s \<leftarrow> ts_upd tptr (\<lambda>t. t\<lparr>tsType := ts\<rparr>) s; scheduleTCB tptr s }"

definition rescheduleRequired :: "kstate \<Rightarrow> kstate option" where
  "rescheduleRequired s =
     do { s \<leftarrow> (if ksSchedulerAction s \<noteq> SchedulerAction_ResumeCurrentThread \<and>
                   ksSchedulerAction s \<noteq> SchedulerAction_ChooseNewThread
                then tcbSchedEnqueue (ksSchedulerAction s) s else Some s);
          Some (set_action SchedulerAction_ChooseNewThread s) }"

definition possibleSwitchTo :: "ptr \<Rightarrow> kstate \<Rightarrow> kstate option" where
  "possibleSwitchTo target s =
     do { t \<leftarrow> tcbs s target;
          if ksCurDomain s \<noteq> tcbDomain t then tcbSchedEnqueue target s
          else if ksSchedulerAction s \<noteq> SchedulerAction_ResumeCurrentThread then
            do { s \<leftarrow> rescheduleRequired s; tcbSchedEnqueue target s }
          else Some (set_action target s) }"

section \<open>The floating point unit\<close>

abbreviation (input) seL4_TCBFlag_fpuDisabled :: word_t where "seL4_TCBFlag_fpuDisabled \<equiv> 1"

definition nativeThreadUsingFPU :: "ptr \<Rightarrow> kstate \<Rightarrow> bool" where
  "nativeThreadUsingFPU thread s \<longleftrightarrow> thread = ksCurFPUOwner s"

definition switchLocalFpuOwner :: "ptr \<Rightarrow> kstate \<Rightarrow> kstate" where
  "switchLocalFpuOwner new_owner s =
     (let s = do_machine_op enableFpu s;
          s = (if ksCurFPUOwner s \<noteq> NULL then do_machine_op (saveFpuState (ksCurFPUOwner s)) s else s);
          s = (if new_owner \<noteq> NULL then do_machine_op (loadFpuState new_owner) s
               else do_machine_op disableFpu s)
      in s\<lparr>ksCurFPUOwner := new_owner\<rparr>)"

definition switchFpuOwner :: "ptr \<Rightarrow> word_t \<Rightarrow> kstate \<Rightarrow> kstate" where
  "switchFpuOwner new_owner cpu s = switchLocalFpuOwner new_owner s"

definition fpuRelease :: "ptr \<Rightarrow> kstate \<Rightarrow> kstate" where
  "fpuRelease thread s = (if nativeThreadUsingFPU thread s then switchFpuOwner NULL 0 s else s)"

definition lazyFPURestore :: "ptr \<Rightarrow> kstate \<Rightarrow> kstate option" where
  "lazyFPURestore thread s =
     do { t \<leftarrow> tcbs s thread;
          Some (if tcbFlags t AND seL4_TCBFlag_fpuDisabled \<noteq> 0 then do_machine_op disableFpu s
                else if nativeThreadUsingFPU thread s then do_machine_op enableFpu s
                else switchLocalFpuOwner thread s) }"

section \<open>Switching threads\<close>

definition Arch_switchToThread :: "ptr \<Rightarrow> kstate \<Rightarrow> kstate option" where
  "Arch_switchToThread tcb = setVMRoot tcb"

definition Arch_switchToIdleThread :: "kstate \<Rightarrow> kstate" where
  "Arch_switchToIdleThread = do_machine_op setGlobalUserVSpace"

definition switchToThread :: "ptr \<Rightarrow> kstate \<Rightarrow> kstate option" where
  "switchToThread thread s =
     do { s \<leftarrow> Arch_switchToThread thread s;
          s \<leftarrow> lazyFPURestore thread s;
          s \<leftarrow> tcbSchedDequeue thread s;
          Some (s\<lparr>ksCurThread := thread\<rparr>) }"

definition switchToIdleThread :: "kstate \<Rightarrow> kstate" where
  "switchToIdleThread s =
     (let s = Arch_switchToIdleThread s in s\<lparr>ksCurThread := ksIdleThread s\<rparr>)"

definition chooseThread :: "kstate \<Rightarrow> kstate option" where
  "chooseThread s =
     (let dm = (if numDomains s > 1 then ksCurDomain s else 0) in
      if ksReadyQueuesL1Bitmap s dm \<noteq> 0 then
        do { prio \<leftarrow> getHighestPrio dm s;
             idx \<leftarrow> ready_queues_index dm prio s;
             let thread = qhead (ksReadyQueues s idx);
             assert_opt (thread \<noteq> NULL);
             t \<leftarrow> tcbs s thread;
             assert_opt (isSchedulable t);
             switchToThread thread s }
      else Some (switchToIdleThread s))"

section \<open>The domain schedule\<close>

abbreviation (input) DSCHED_DOMAIN_SHIFT :: word_t where "DSCHED_DOMAIN_SHIFT \<equiv> 56"

definition DSCHED_MAX_DURATION :: word_t where
  "DSCHED_MAX_DURATION = shiftr (- 1) 8"

definition dschedule_make :: "word_t \<Rightarrow> word_t \<Rightarrow> word_t" where
  "dschedule_make dm duration = shiftl dm DSCHED_DOMAIN_SHIFT OR duration"

definition dschedule_domain :: "word_t \<Rightarrow> word_t" where
  "dschedule_domain sched = shiftr sched DSCHED_DOMAIN_SHIFT"

definition dschedule_duration :: "word_t \<Rightarrow> word_t" where
  "dschedule_duration sched = sched AND DSCHED_MAX_DURATION"

text \<open>An access beyond the array is \<open>None\<close>.\<close>

definition dschedule_at :: "word_t \<Rightarrow> kstate \<Rightarrow> word_t option" where
  "dschedule_at index s = (if index < domScheduleLength s then Some (ksDomSchedule s index) else None)"

definition dschedule_is_end_marker :: "word_t \<Rightarrow> kstate \<Rightarrow> bool option" where
  "dschedule_is_end_marker index s = do { e \<leftarrow> dschedule_at index s; Some (e = 0) }"

definition prepareSetDomain :: "ptr \<Rightarrow> word_t \<Rightarrow> kstate \<Rightarrow> kstate" where
  "prepareSetDomain tptr dm s = (if ksCurDomain s \<noteq> dm then fpuRelease tptr s else s)"

definition prepareNextDomain :: "kstate \<Rightarrow> kstate" where
  "prepareNextDomain = switchLocalFpuOwner NULL"

definition nextDomain :: "kstate \<Rightarrow> kstate option" where
  "nextDomain s =
     do { let s = s\<lparr>ksDomScheduleIdx := ksDomScheduleIdx s + 1\<rparr>;
          at_end \<leftarrow> dschedule_is_end_marker (ksDomScheduleIdx s) s;
          let s = (if at_end then s\<lparr>ksDomScheduleIdx := ksDomScheduleStart s\<rparr> else s);
          let s = s\<lparr>ksWorkUnitsCompleted := 0\<rparr>;
          e \<leftarrow> dschedule_at (ksDomScheduleIdx s) s;
          Some (s\<lparr>ksCurDomain := dschedule_domain e, ksDomainTime := dschedule_duration e\<rparr>) }"

definition scheduleChooseNewThread :: "kstate \<Rightarrow> kstate option" where
  "scheduleChooseNewThread s =
     do { s \<leftarrow> (if ksDomainTime s = 0 then nextDomain (prepareNextDomain s) else Some s);
          chooseThread s }"

section \<open>The scheduler\<close>

text \<open>The branch of \<open>schedule\<close> for a thread that waits in \<open>ksSchedulerAction\<close>.\<close>

definition schedule_candidate :: "ptr \<Rightarrow> bool \<Rightarrow> kstate \<Rightarrow> kstate option" where
  "schedule_candidate candidate was_runnable s =
     do { c \<leftarrow> tcbs s candidate;
          assert_opt (isSchedulable c);
          cur \<leftarrow> tcbs s (ksCurThread s);
          let fastfail = (ksCurThread s = ksIdleThread s \<or> tcbPriority c < tcbPriority cur);
          highest \<leftarrow> (if fastfail then isHighestPrio (ksCurDomain s) (tcbPriority c) s else Some True);
          if fastfail \<and> \<not> highest then
            do { s \<leftarrow> tcbSchedEnqueue candidate s;
                 scheduleChooseNewThread (set_action SchedulerAction_ChooseNewThread s) }
          else if was_runnable \<and> tcbPriority c = tcbPriority cur then
            do { s \<leftarrow> tcbSchedAppend candidate s;
                 scheduleChooseNewThread (set_action SchedulerAction_ChooseNewThread s) }
          else do { assert_opt (candidate \<noteq> ksCurThread s); switchToThread candidate s } }"

definition schedule :: "kstate \<Rightarrow> kstate option" where
  "schedule s =
     do { s \<leftarrow>
       (if ksSchedulerAction s \<noteq> SchedulerAction_ResumeCurrentThread then
          do { cur \<leftarrow> tcbs s (ksCurThread s);
               let was_runnable = isSchedulable cur;
               s \<leftarrow> (if was_runnable then tcbSchedEnqueue (ksCurThread s) s else Some s);
               if ksSchedulerAction s = SchedulerAction_ChooseNewThread then scheduleChooseNewThread s
               else schedule_candidate (ksSchedulerAction s) was_runnable s }
        else Some s);
       Some (set_action SchedulerAction_ResumeCurrentThread s) }"

definition setNextPC :: "ptr \<Rightarrow> word_t \<Rightarrow> kstate \<Rightarrow> kstate option" where
  "setNextPC thread v = setRegister thread NextIP v"

definition updateRestartPC :: "ptr \<Rightarrow> kstate \<Rightarrow> kstate option" where
  "updateRestartPC tcb s = do { pc \<leftarrow> getRegister tcb NextIP s; setRegister tcb FaultIP pc s }"

definition Arch_activateIdleThread :: "ptr \<Rightarrow> kstate \<Rightarrow> kstate" where
  "Arch_activateIdleThread tcb s = s"

definition activateThread :: "kstate \<Rightarrow> kstate option" where
  "activateThread s =
     do { cur \<leftarrow> tcbs s (ksCurThread s);
          case tsType (tcbState cur) of
            ThreadState_Running \<Rightarrow> Some s
          | ThreadState_Restart \<Rightarrow>
              do { pc \<leftarrow> getRestartPC (ksCurThread s) s;
                   s \<leftarrow> setNextPC (ksCurThread s) pc s;
                   setThreadState (ksCurThread s) ThreadState_Running s }
          | ThreadState_IdleThreadState \<Rightarrow> Some (Arch_activateIdleThread (ksCurThread s) s)
          | _ \<Rightarrow> None }"

definition setDomain :: "ptr \<Rightarrow> word_t \<Rightarrow> kstate \<Rightarrow> kstate option" where
  "setDomain tptr dm s =
     do { s \<leftarrow> tcbSchedDequeue tptr s;
          s \<leftarrow> tcb_upd tptr (\<lambda>t. t\<lparr>tcbDomain := dm\<rparr>) s;
          t \<leftarrow> tcbs s tptr;
          s \<leftarrow> (if isSchedulable t then tcbSchedEnqueue tptr s else Some s);
          if tptr = ksCurThread s then rescheduleRequired s else Some s }"

definition setMCPriority :: "ptr \<Rightarrow> word_t \<Rightarrow> kstate \<Rightarrow> kstate option" where
  "setMCPriority tptr mcp = tcb_upd tptr (\<lambda>t. t\<lparr>tcbMCP := mcp\<rparr>)"

definition setPriority :: "ptr \<Rightarrow> word_t \<Rightarrow> kstate \<Rightarrow> kstate option" where
  "setPriority tptr prio s =
     do { s \<leftarrow> tcbSchedDequeue tptr s;
          s \<leftarrow> tcb_upd tptr (\<lambda>t. t\<lparr>tcbPriority := prio\<rparr>) s;
          t \<leftarrow> tcbs s tptr;
          if isRunnable t then
            (if tptr = ksCurThread s then rescheduleRequired s else possibleSwitchTo tptr s)
          else Some s }"

definition timerTick :: "kstate \<Rightarrow> kstate option" where
  "timerTick s =
     do { cur \<leftarrow> tcbs s (ksCurThread s);
          s \<leftarrow> (if tsType (tcbState cur) = ThreadState_Running then
                  (if tcbTimeSlice cur > 1 then
                     tcb_upd (ksCurThread s) (\<lambda>t. t\<lparr>tcbTimeSlice := tcbTimeSlice t - 1\<rparr>) s
                   else do { s \<leftarrow> tcb_upd (ksCurThread s) (\<lambda>t. t\<lparr>tcbTimeSlice := CONFIG_TIME_SLICE\<rparr>) s;
                             s \<leftarrow> tcbSchedAppend (ksCurThread s) s;
                             rescheduleRequired s })
                else Some s);
          if numDomains s > 1 then
            do { let s = s\<lparr>ksDomainTime := ksDomainTime s - 1\<rparr>;
                 if ksDomainTime s = 0 then rescheduleRequired s else Some s }
          else Some s }"

section \<open>What the scheduler leaves alone\<close>

text \<open>The state without everything that belongs to the scheduler: the ready queues, the current
  thread and domain, the pending action, the owner of the FPU and the hardware. What stays is
  untouched by every operation of the scheduler.\<close>

definition rest :: "kstate \<Rightarrow> kstate" where
  "rest s = (sched_erased s)
     \<lparr>ksCurThread := NULL, ksSchedulerAction := 0, ksCurFPUOwner := NULL, ksWorkUnitsCompleted := 0,
      ksDomScheduleIdx := 0, ksCurDomain := 0, ksDomainTime := 0,
      current_lookup_fault := lookup_fault_invalid_root, machine_log := []\<rparr>"

lemma rest_erased: "sched_erased s' = sched_erased s \<Longrightarrow> rest s' = rest s"
  by (simp add: rest_def)

lemma rest_upd [simp]:
  "rest (s\<lparr>ksCurThread := a\<rparr>) = rest s" "rest (s\<lparr>ksSchedulerAction := a\<rparr>) = rest s"
  "rest (s\<lparr>ksCurFPUOwner := a\<rparr>) = rest s" "rest (s\<lparr>ksWorkUnitsCompleted := b\<rparr>) = rest s"
  "rest (s\<lparr>ksDomScheduleIdx := b\<rparr>) = rest s" "rest (s\<lparr>ksCurDomain := b\<rparr>) = rest s"
  "rest (s\<lparr>ksDomainTime := b\<rparr>) = rest s" "rest (s\<lparr>current_lookup_fault := f\<rparr>) = rest s"
  "rest (s\<lparr>machine_log := l\<rparr>) = rest s"
  by (simp_all add: rest_def sched_erased_def)

lemma rest_simps [simp]:
  "rest (do_machine_op m s) = rest s" "rest (set_action a s) = rest s"
  "rest (switchLocalFpuOwner t s) = rest s" "rest (switchToIdleThread s) = rest s"
  "rest (prepareNextDomain s) = rest s" "rest (Arch_switchToIdleThread s) = rest s"
  by (simp_all add: do_machine_op_def set_action_def switchLocalFpuOwner_def switchToIdleThread_def
      prepareNextDomain_def Arch_switchToIdleThread_def Let_def)

lemma restD:
  assumes "rest s' = rest s"
  shows "map_option tcb_unqueued (tcbs s' t) = map_option tcb_unqueued (tcbs s t)"
    and "ctes s' = ctes s" and "ptes s' = ptes s" and "asid_pools s' = asid_pools s"
    and "armKSASIDTable s' = armKSASIDTable s" and "pptrBaseOffset s' = pptrBaseOffset s"
    and "ksIdleThread s' = ksIdleThread s" and "numDomains s' = numDomains s"
    and "ksDomSchedule s' = ksDomSchedule s" and "domScheduleLength s' = domScheduleLength s"
    and "ksDomScheduleStart s' = ksDomScheduleStart s"
proof -
  from assms have "tcbs (rest s') = tcbs (rest s)" by (rule arg_cong)
  then show "map_option tcb_unqueued (tcbs s' t) = map_option tcb_unqueued (tcbs s t)"
    by (simp add: rest_def sched_erased_def fun_eq_iff)
qed (use assms [THEN arg_cong, of ctes] assms [THEN arg_cong, of ptes] assms [THEN arg_cong, of asid_pools]
       assms [THEN arg_cong, of armKSASIDTable] assms [THEN arg_cong, of pptrBaseOffset]
       assms [THEN arg_cong, of ksIdleThread] assms [THEN arg_cong, of numDomains]
       assms [THEN arg_cong, of ksDomSchedule] assms [THEN arg_cong, of domScheduleLength]
       assms [THEN arg_cong, of ksDomScheduleStart]
     in \<open>simp_all add: rest_def sched_erased_def\<close>)

lemma rest_live: "rest s' = rest s \<Longrightarrow> tcbs s' t = None \<longleftrightarrow> tcbs s t = None"
  using restD(1) [of s' s t] by (cases "tcbs s t"; cases "tcbs s' t") auto

lemma rest_thread:
  assumes "rest s' = rest s" and "tcbs s t = Some T"
  obtains T' where "tcbs s' t = Some T'" and "tcb_unqueued T' = tcb_unqueued T"
  using restD(1) [OF assms(1), of t] assms(2) by (cases "tcbs s' t") auto

definition runnable :: "kstate \<Rightarrow> ptr \<Rightarrow> bool" where
  "runnable s t \<longleftrightarrow> (\<exists>T. tcbs s t = Some T \<and> isRunnable T)"

definition thread_prio :: "kstate \<Rightarrow> ptr \<Rightarrow> word_t" where
  "thread_prio s t = (case tcbs s t of Some T \<Rightarrow> tcbPriority T | None \<Rightarrow> 0)"

lemma unqueued_view:
  assumes "tcb_unqueued T' = tcb_unqueued T"
  shows "isRunnable T' = isRunnable T" and "tcbDomain T' = tcbDomain T" and "tcbPriority T' = tcbPriority T"
    and "tcbTimeSlice T' = tcbTimeSlice T" and "tcbFlags T' = tcbFlags T"
proof -
  from assms [THEN arg_cong, of tcbState] have "tsType (tcbState T') = tsType (tcbState T)"
    by (metis tcb_unqueued_sel(3) assms)
  then show "isRunnable T' = isRunnable T" by (simp add: isRunnable_def)
qed (use assms [THEN arg_cong, of tcbDomain] assms [THEN arg_cong, of tcbPriority]
       assms [THEN arg_cong, of tcbTimeSlice] assms [THEN arg_cong, of tcbFlags]
     in \<open>simp_all add: tcb_unqueued_def\<close>)

lemma rest_view:
  assumes "rest s' = rest s"
  shows "runnable s' t = runnable s t" and "thread_prio s' t = thread_prio s t"
    and "sched_place s' t = sched_place s t"
proof -
  consider "tcbs s t = None" "tcbs s' t = None"
    | T T' where "tcbs s t = Some T" "tcbs s' t = Some T'" "tcb_unqueued T' = tcb_unqueued T"
    using restD(1) [OF assms, of t] by (cases "tcbs s t"; cases "tcbs s' t") auto
  then have "runnable s' t = runnable s t \<and> thread_prio s' t = thread_prio s t \<and>
      sched_place s' t = sched_place s t"
  proof cases
    case 2
    note v = unqueued_view [OF 2(3)]
    from 2(1,2) show ?thesis by (simp add: runnable_def thread_prio_def sched_place_def v)
  qed (simp add: runnable_def thread_prio_def sched_place_def)
  then show "runnable s' t = runnable s t" "thread_prio s' t = thread_prio s t"
    "sched_place s' t = sched_place s t" by auto
qed

lemma ready_queues_ok_cong:
  assumes "tcbs s' = tcbs s" "numDomains s' = numDomains s" "ksReadyQueues s' = ksReadyQueues s"
    "ksReadyQueuesL1Bitmap s' = ksReadyQueuesL1Bitmap s" "ksReadyQueuesL2Bitmap s' = ksReadyQueuesL2Bitmap s"
  shows "ready_queues_ok s' rq = ready_queues_ok s rq"
proof -
  have l: "link_of tcbs f s' = link_of tcbs f s" for f :: "tcb_t \<Rightarrow> ptr"
    by (simp add: link_of_def fun_eq_iff assms)
  show ?thesis by (simp add: ready_queues_ok_def tcbs_ok_def rq_idx_def in_queue_def assms l)
qed

section \<open>Switching to a thread\<close>

definition sched_env :: "kstate \<Rightarrow> bool" where
  "sched_env s \<longleftrightarrow>
     vspaces_wf s \<and> (\<forall>t. tcbs s t \<noteq> None \<longrightarrow> ctes s (TCB_PTR_CTE_PTR t tcbVTable) \<noteq> None)"

lemma sched_env_rest:
  assumes r: "rest s' = rest s"
  shows "sched_env s' = sched_env s"
proof -
  have f: "findMapForASID a s' = findMapForASID a s" for a
    by (rule findMapForASID_cong) (simp_all add: restD [OF r])
  show ?thesis
    by (simp add: sched_env_def vspaces_wf_def pt_live_def paddr_to_pptr_def f restD(2-6) [OF r]
        rest_live [OF r])
qed

text \<open>The hardware part of a switch leaves the queues alone.\<close>

lemma hw_switch:
  assumes env: "sched_env s" and t: "tcbs s t = Some T"
  obtains lf l ow where "Option.bind (Arch_switchToThread t s) (lazyFPURestore t) =
    Some (s\<lparr>current_lookup_fault := lf, machine_log := l, ksCurFPUOwner := ow\<rparr>)"
proof -
  from env t have "vspaces_wf s" "ctes s (TCB_PTR_CTE_PTR t tcbVTable) \<noteq> None"
    by (auto simp: sched_env_def)
  then obtain lf m where v: "setVMRoot t s =
      Some (s\<lparr>current_lookup_fault := lf, machine_log := machine_log s @ [m]\<rparr>)"
    by (rule setVMRoot_run)
  let ?l0 = "machine_log s @ [m]"
  let ?s0 = "s\<lparr>current_lookup_fault := lf, machine_log := ?l0\<rparr>"
  let ?r = "\<lambda>l ow. s\<lparr>current_lookup_fault := lf, machine_log := l, ksCurFPUOwner := ow\<rparr>"
  have "lazyFPURestore t ?s0 = Some (?r
      (if tcbFlags T AND seL4_TCBFlag_fpuDisabled \<noteq> 0 then ?l0 @ [disableFpu]
       else if t = ksCurFPUOwner s then ?l0 @ [enableFpu]
       else ?l0 @ [enableFpu] @ (if ksCurFPUOwner s \<noteq> NULL then [saveFpuState (ksCurFPUOwner s)] else []) @
         [if t \<noteq> NULL then loadFpuState t else disableFpu])
      (if tcbFlags T AND seL4_TCBFlag_fpuDisabled \<noteq> 0 then ksCurFPUOwner s else t))"
    using t by (simp add: lazyFPURestore_def do_machine_op_def nativeThreadUsingFPU_def
        switchLocalFpuOwner_def Let_def)
  with v that show ?thesis by (auto simp: Arch_switchToThread_def)
qed

lemma switchToThread_ok:
  assumes env: "sched_env s" and ok: "ready_queues_ok s rq" and pl: "sched_place s t = Some (d, p)"
  shows "\<exists>s'. switchToThread t s = Some s' \<and> ksCurThread s' = t \<and> rest s' = rest s \<and>
    ksSchedulerAction s' = ksSchedulerAction s \<and> ksCurDomain s' = ksCurDomain s \<and>
    ksDomScheduleIdx s' = ksDomScheduleIdx s \<and>
    ready_queues_ok s' (rq_set rq d p (remove1 t (rq d p)))"
proof -
  from pl obtain T where t: "tcbs s t = Some T" by (auto simp: sched_place_def)
  from hw_switch [OF env t] obtain lf l ow where hw: "Option.bind (Arch_switchToThread t s) (lazyFPURestore t) =
      Some (s\<lparr>current_lookup_fault := lf, machine_log := l, ksCurFPUOwner := ow\<rparr>)" (is "_ = Some ?s1")
    by blast
  have "ready_queues_ok ?s1 rq" using ok by (subst ready_queues_ok_cong) simp_all
  moreover have "sched_place ?s1 t = Some (d, p)" using pl by (simp add: sched_place_def)
  ultimately obtain s2 where s2: "tcbSchedDequeue t ?s1 = Some s2" "sched_erased s2 = sched_erased ?s1"
      "ready_queues_ok s2 (rq_set rq d p (remove1 t (rq d p)))"
    using tcbSchedDequeue_queue sched_op_erased(3) by blast
  have "switchToThread t s = Some (s2\<lparr>ksCurThread := t\<rparr>)"
    using hw s2(1) by (simp add: switchToThread_def bind_eq_Some_conv) blast
  moreover have "ready_queues_ok (s2\<lparr>ksCurThread := t\<rparr>) (rq_set rq d p (remove1 t (rq d p)))"
    using s2(3) by (subst ready_queues_ok_cong) simp_all
  moreover have "ksDomScheduleIdx s2 = ksDomScheduleIdx s"
    using s2(2) [THEN arg_cong, of ksDomScheduleIdx] by (simp add: sched_erased_def)
  ultimately show ?thesis
    using sched_erasedD [OF s2(2)] rest_erased [OF s2(2)] by simp
qed

section \<open>Choosing a thread\<close>

lemma bitmap_nonempty:
  assumes ok: "bitmap_ok l1 l2 ne"
  shows "l1 \<noteq> 0 \<longleftrightarrow> (\<exists>p < 256. ne p)"
proof
  assume "l1 \<noteq> 0"
  then obtain i where i: "bit l1 i" by (auto simp: bit_eq_iff)
  then have "i < 64" by (rule bit_imp_le_length [where 'a = 64, simplified])
  with i ok have l: "i < 4" "l2 (3 - of_nat i) \<noteq> 0" by (auto simp: bitmap_ok_def)
  then obtain j where j: "bit (l2 (3 - of_nat i)) j" by (auto simp: bit_eq_iff)
  then have "j < 64" by (rule bit_imp_le_length [where 'a = 64, simplified])
  then have "(64 * i + j) div 64 = i" "(64 * i + j) mod 64 = j" "64 * i + j < 256"
    using l by auto
  with ok j have "ne (64 * i + j)" by (auto simp: bitmap_ok_def)
  with \<open>64 * i + j < 256\<close> show "\<exists>p < 256. ne p" by blast
next
  assume "\<exists>p < 256. ne p"
  then obtain p where p: "p < 256" "ne p" by blast
  with ok have "bit (l2 (3 - of_nat (p div 64))) (p mod 64)" by (auto simp: bitmap_ok_def)
  then have "l2 (3 - of_nat (p div 64)) \<noteq> 0" by auto
  moreover have "p div 64 < 4" using p by auto
  ultimately have "bit l1 (p div 64)" using ok by (auto simp: bitmap_ok_def)
  then show "l1 \<noteq> 0" by auto
qed

text \<open>The abstract choice: the idle thread when every queue of the domain is empty, else the first
  thread of the queue of the highest priority, which leaves the queue.\<close>

definition picks :: "ready_lists \<Rightarrow> word_t \<Rightarrow> ptr \<Rightarrow> ptr \<Rightarrow> ready_lists \<Rightarrow> bool" where
  "picks rq d idle t rq' \<longleftrightarrow>
     (\<forall>p. rq d p = []) \<and> t = idle \<and> rq' = rq \<or>
     (\<exists>p ts. rq d p = t # ts \<and> rq' = rq_set rq d p ts \<and> (\<forall>p'. rq d p' \<noteq> [] \<longrightarrow> p' \<le> p))"

lemma chooseThread_ok:
  assumes env: "sched_env s" and ok: "ready_queues_ok s rq" and dm: "ksCurDomain s < numDomains s"
    and run: "\<And>d p t. t \<in> set (rq d p) \<Longrightarrow> runnable s t"
  shows "\<exists>s' rq'. chooseThread s = Some s' \<and> rest s' = rest s \<and>
    ksSchedulerAction s' = ksSchedulerAction s \<and> ksCurDomain s' = ksCurDomain s \<and>
    ksDomScheduleIdx s' = ksDomScheduleIdx s \<and>
    ready_queues_ok s' rq' \<and> picks rq (ksCurDomain s) (ksIdleThread s) (ksCurThread s') rq'"
proof -
  let ?d = "ksCurDomain s"
  have d: "(if numDomains s > 1 then ksCurDomain s else 0) = ?d"
    using word_below_one [OF dm] by auto
  have bm: "bitmap_ok (ksReadyQueuesL1Bitmap s ?d) (ksReadyQueuesL2Bitmap s ?d) (\<lambda>p. rq ?d (of_nat p) \<noteq> [])"
    using ok dm by (simp add: ready_queues_ok_def)
  show ?thesis
  proof (cases "\<exists>q. rq ?d q \<noteq> []")
    case False
    then have "ksReadyQueuesL1Bitmap s ?d = 0" using bitmap_nonempty [OF bm] by auto
    then have "chooseThread s = Some (switchToIdleThread s)" by (simp add: chooseThread_def d)
    moreover have "ready_queues_ok (switchToIdleThread s) rq"
      using ok by (subst ready_queues_ok_cong)
        (simp_all add: switchToIdleThread_def Arch_switchToIdleThread_def do_machine_op_def)
    moreover have "picks rq ?d (ksIdleThread s) (ksCurThread (switchToIdleThread s)) rq"
      using False by (simp add: picks_def switchToIdleThread_def Arch_switchToIdleThread_def do_machine_op_def)
    ultimately show ?thesis
      by (intro exI [of _ "switchToIdleThread s"] exI [of _ rq])
         (simp, simp add: switchToIdleThread_def Arch_switchToIdleThread_def do_machine_op_def)
  next
    case True
    then obtain q where q: "rq ?d q \<noteq> []" by blast
    then obtain p where p: "getHighestPrio ?d s = Some p" "rq ?d p \<noteq> []"
      "\<And>p'. rq ?d p' \<noteq> [] \<Longrightarrow> p' \<le> p"
      using highest_prio [OF ok dm] by metis
    from p(2) obtain t ts where l: "rq ?d p = t # ts" by (cases "rq ?d p") auto
    then have tin: "t \<in> set (rq ?d p)" by simp
    then have pl: "sched_place s t = Some (?d, p)" by (rule rdy.placed [OF ok])
    from run [OF tin] obtain T where T: "tcbs s t = Some T" "isRunnable T" by (auto simp: runnable_def)
    have p256: "p < 256" using queue_nonempty(2) [OF ok p(2)] .
    have "ksReadyQueuesL1Bitmap s ?d \<noteq> 0"
      using bitmap_nonempty [OF bm] p(2) queue_nonempty(3) [OF ok p(2)]
      by (auto intro!: exI [of _ "unat p"])
    moreover have "ready_queues_index ?d p s = Some (rq_idx s ?d p)"
      using ready_queues_index_Some [of s ?d p] dm ok by (simp add: ready_queues_ok_def)
    moreover have "ksReadyQueues s (rq_idx s ?d p) = queue_of (t # ts)"
      using ok dm p256 l by (simp add: ready_queues_ok_def)
    moreover have "t \<noteq> NULL" using T(1) ok by (auto simp: ready_queues_ok_def tcbs_ok_def)
    ultimately have "chooseThread s = switchToThread t s"
      using p(1) T by (simp add: chooseThread_def d queue_of_def)
    moreover have "rq_set rq ?d p (remove1 t (rq ?d p)) = rq_set rq ?d p ts" using l by simp
    moreover have "picks rq ?d (ksIdleThread s) t (rq_set rq ?d p ts)"
      using l p(3) by (auto simp: picks_def)
    ultimately show ?thesis using switchToThread_ok [OF env ok pl] by auto
  qed
qed

section \<open>The domain schedule stays in bounds\<close>

text \<open>The last entry is an end marker, the index is before it, the starting entry is no end
  marker, and every other entry names a domain and a duration.\<close>

definition dom_sched_ok :: "kstate \<Rightarrow> bool" where
  "dom_sched_ok s \<longleftrightarrow>
     ksDomSchedule s (domScheduleLength s - 1) = 0 \<and>
     ksDomScheduleIdx s < domScheduleLength s - 1 \<and>
     ksDomScheduleStart s < domScheduleLength s \<and> ksDomSchedule s (ksDomScheduleStart s) \<noteq> 0 \<and>
     (\<forall>i < domScheduleLength s. ksDomSchedule s i \<noteq> 0 \<longrightarrow>
        dschedule_domain (ksDomSchedule s i) < numDomains s \<and> dschedule_duration (ksDomSchedule s i) \<noteq> 0)"

lemma word_succ_below:
  fixes i n :: word_t
  assumes "i < n - 1" and "m < n"
  shows "i + 1 < n"
proof -
  have "unat (n - 1) = unat n - 1" using assms(2) word_sub_decreases(1) [of 1 n]
    by (auto simp: word_le_nat_alt word_less_nat_alt)
  with assms(1) have "unat i + 1 < unat n" by (simp add: word_less_nat_alt)
  moreover from this have "unat (i + 1) = unat i + 1"
  proof -
    assume "unat i + 1 < unat n"
    moreover have "unat n < 2 ^ 64" using unsigned_less [of n] by simp
    ultimately show ?thesis by (simp add: unat_word_ariths)
  qed
  ultimately show ?thesis by (simp add: word_less_nat_alt)
qed

lemma word_before_last:
  fixes i n :: word_t
  assumes "i < n" and "i \<noteq> n - 1"
  shows "i < n - 1"
proof -
  have n1: "unat (n - 1) = unat n - 1" using assms(1) word_sub_decreases(1) [of 1 n]
    by (auto simp: word_le_nat_alt word_less_nat_alt)
  from assms(2) have "unat i \<noteq> unat (n - 1)" by (simp add: word_unat_eq_iff)
  with n1 assms(1) show ?thesis by (simp add: word_less_nat_alt)
qed

lemma nextDomain_ok:
  assumes ok: "dom_sched_ok s"
  shows "\<exists>i d t. nextDomain s = Some (s\<lparr>ksDomScheduleIdx := i, ksWorkUnitsCompleted := 0, ksCurDomain := d, ksDomainTime := t\<rparr>) \<and>
    i < domScheduleLength s - 1 \<and> ksDomSchedule s i \<noteq> 0 \<and> d < numDomains s \<and> t \<noteq> 0 \<and>
    d = dschedule_domain (ksDomSchedule s i) \<and> t = dschedule_duration (ksDomSchedule s i) \<and>
    i = (if ksDomSchedule s (ksDomScheduleIdx s + 1) = 0 then ksDomScheduleStart s else ksDomScheduleIdx s + 1)"
proof -
  let ?n = "ksDomScheduleIdx s + 1"
  let ?i = "if ksDomSchedule s ?n = 0 then ksDomScheduleStart s else ?n"
  note f = ok [unfolded dom_sched_ok_def]
  have n: "?n < domScheduleLength s" using f word_succ_below by blast
  have i: "?i < domScheduleLength s" "ksDomSchedule s ?i \<noteq> 0" using f n by auto
  have "?i \<noteq> domScheduleLength s - 1"
  proof
    assume "?i = domScheduleLength s - 1"
    then have "ksDomSchedule s ?i = ksDomSchedule s (domScheduleLength s - 1)" by (rule arg_cong)
    with i(2) f show False by simp
  qed
  with i(1) have "?i < domScheduleLength s - 1" by (rule word_before_last)
  moreover from i f have "dschedule_domain (ksDomSchedule s ?i) < numDomains s"
    "dschedule_duration (ksDomSchedule s ?i) \<noteq> 0" by blast+
  moreover have "nextDomain s = Some (s\<lparr>ksDomScheduleIdx := ?i, ksWorkUnitsCompleted := 0,
      ksCurDomain := dschedule_domain (ksDomSchedule s ?i), ksDomainTime := dschedule_duration (ksDomSchedule s ?i)\<rparr>)"
    using n i(1) by (auto simp: nextDomain_def dschedule_is_end_marker_def dschedule_at_def Let_def)
  ultimately show ?thesis using i(2) by blast
qed

section \<open>The invariant of the scheduler\<close>

definition ready :: "ready_lists \<Rightarrow> ptr set" where
  "ready rq = {t. \<exists>d p. t \<in> set (rq d p)}"

definition idle_thread :: "kstate \<Rightarrow> ptr \<Rightarrow> bool" where
  "idle_thread s t \<longleftrightarrow> (\<exists>T. tcbs s t = Some T \<and> tsType (tcbState T) = ThreadState_IdleThreadState)"

lemma idle_thread_facts: "idle_thread s t \<Longrightarrow> tcbs s t \<noteq> None \<and> \<not> runnable s t"
  by (auto simp: idle_thread_def runnable_def isRunnable_def)

lemma idle_thread_rest:
  assumes "rest s' = rest s"
  shows "idle_thread s' t = idle_thread s t"
proof -
  have "idle_thread r t \<longleftrightarrow> map_option (\<lambda>T. tsType (tcbState T)) (map_option tcb_unqueued (tcbs r t)) =
      Some ThreadState_IdleThreadState" for r
    by (auto simp: idle_thread_def)
  then show ?thesis by (simp only: restD(1) [OF assms])
qed

definition sched_ok :: "kstate \<Rightarrow> ready_lists \<Rightarrow> bool" where
  "sched_ok s rq \<longleftrightarrow>
     ready_queues_ok s rq \<and> sched_env s \<and> (\<forall>t \<in> ready rq. runnable s t) \<and>
     ksCurDomain s < numDomains s \<and> dom_sched_ok s \<and>
     tcbs s (ksCurThread s) \<noteq> None \<and> idle_thread s (ksIdleThread s) \<and>
     tcbs s SchedulerAction_ChooseNewThread = None"

lemma sched_ok_step:
  assumes ok: "sched_ok s rq" and r: "rest s' = rest s" and q: "ready_queues_ok s' rq'"
    and run: "\<And>t. t \<in> ready rq' \<Longrightarrow> runnable s t"
    and cur: "tcbs s (ksCurThread s') \<noteq> None"
    and dm: "ksCurDomain s' = ksCurDomain s \<and> ksDomScheduleIdx s' = ksDomScheduleIdx s \<or>
             ksCurDomain s' < numDomains s \<and> ksDomScheduleIdx s' < domScheduleLength s - 1"
  shows "sched_ok s' rq'"
proof -
  have "dom_sched_ok s'"
    using ok dm by (auto simp: sched_ok_def dom_sched_ok_def restD(8-11) [OF r])
  then show ?thesis
    using ok q run cur dm
    by (auto simp: sched_ok_def sched_env_rest [OF r] rest_view(1) [OF r] restD(7,8) [OF r] rest_live [OF r]
          idle_thread_rest [OF r] simp del: not_None_eq)
qed

lemma ready_rq_set: "ready (rq_set rq d p xs) \<subseteq> ready rq \<union> set xs"
  by (auto simp: ready_def rq_set_def split: if_splits)

lemma ready_cons:
  assumes "set (rq d p) \<subseteq> set xs" and "set xs \<subseteq> insert t (set (rq d p))" and "t \<in> set xs"
  shows "ready (rq_set rq d p xs) = insert t (ready rq)"
proof
  have "set (rq d p) \<subseteq> ready rq" by (auto simp: ready_def)
  then show "ready (rq_set rq d p xs) \<subseteq> insert t (ready rq)"
    using ready_rq_set [of rq d p xs] assms(2) by blast
  show "insert t (ready rq) \<subseteq> ready (rq_set rq d p xs)"
  proof
    fix u assume "u \<in> insert t (ready rq)"
    then consider "u \<in> set xs" | d' p' where "u \<in> set (rq d' p')" "\<not> (d' = d \<and> p' = p)"
      using assms(1,3) by (auto simp: ready_def)
    then show "u \<in> ready (rq_set rq d p xs)"
    proof cases
      case 1
      then have "u \<in> set (rq_set rq d p xs d p)" by (simp add: rq_set_def)
      then show ?thesis unfolding ready_def by blast
    next
      case 2
      then have "u \<in> set (rq_set rq d p xs d' p')" by (auto simp: rq_set_def)
      then show ?thesis unfolding ready_def by blast
    qed
  qed
qed

lemma picks_ready:
  assumes "picks rq d idle t rq'" and ok: "ready_queues_ok s rq" and "idle \<notin> ready rq"
  shows "ready rq = ready rq' \<union> ({t} - {idle})" and "t \<notin> ready rq'"
    and "t = idle \<or> t \<in> ready rq"
proof -
  have split: "ready rq = ready rq' \<union> ({t} - {idle}) \<and> t \<notin> ready rq' \<and> (t = idle \<or> t \<in> ready rq)"
    if h: "rq d p = t # ts" "rq' = rq_set rq d p ts" for p ts
  proof -
    have undo: "rq = rq_set rq' d p (t # ts)" using h by (auto simp: rq_set_def fun_eq_iff)
    have "rq' d p = ts" using h by (simp add: rq_set_def)
    then have "ready (rq_set rq' d p (t # ts)) = insert t (ready rq')" by (intro ready_cons) auto
    with undo have r: "ready rq = insert t (ready rq')" by simp
    have "t \<notin> ready rq'"
    proof
      assume "t \<in> ready rq'"
      then obtain d' p' where m: "t \<in> set (rq' d' p')" by (auto simp: ready_def)
      show False
      proof (cases "d' = d \<and> p' = p")
        case True
        with m h queue_distinct [OF ok, of d p] show False by (auto simp: rq_set_def)
      next
        case False
        with m h have "t \<in> set (rq d' p')" by (auto simp: rq_set_def split: if_splits)
        with False h rdy.one_queue [OF ok, of t d p d' p'] show False by simp
      qed
    qed
    with r assms(3) show ?thesis by auto
  qed
  from assms(1) have "ready rq = ready rq' \<union> ({t} - {idle}) \<and> t \<notin> ready rq' \<and> (t = idle \<or> t \<in> ready rq)"
    unfolding picks_def using split assms(3) by auto
  then show "ready rq = ready rq' \<union> ({t} - {idle})" "t \<notin> ready rq'" "t = idle \<or> t \<in> ready rq" by auto
qed

section \<open>The scheduler\<close>

lemma sched_okD:
  assumes "sched_ok s rq"
  shows "ready_queues_ok s rq" and "sched_env s" and "\<And>t. t \<in> ready rq \<Longrightarrow> runnable s t"
    and "ksCurDomain s < numDomains s" and "dom_sched_ok s" and "tcbs s (ksCurThread s) \<noteq> None"
    and "ksIdleThread s \<notin> ready rq" and "tcbs s (ksIdleThread s) \<noteq> None"
    and "tcbs s SchedulerAction_ChooseNewThread = None" and "\<not> runnable s (ksIdleThread s)"
    and "idle_thread s (ksIdleThread s)"
  using assms idle_thread_facts [of s "ksIdleThread s"] by (auto simp: sched_ok_def)

text \<open>What a choice of a new thread does, in the domain that is current afterwards.\<close>

lemma scheduleChooseNewThread_ok:
  assumes ok: "sched_ok s rq"
  shows "\<exists>s' rq'. scheduleChooseNewThread s = Some s' \<and> sched_ok s' rq' \<and> rest s' = rest s \<and>
    picks rq (ksCurDomain s') (ksIdleThread s) (ksCurThread s') rq' \<and>
    (ksDomainTime s \<noteq> 0 \<longrightarrow> ksCurDomain s' = ksCurDomain s)"
proof -
  note f = sched_okD [OF ok]
  have "\<exists>s1. (if ksDomainTime s = 0 then nextDomain (prepareNextDomain s) else Some s) = Some s1 \<and>
      rest s1 = rest s \<and> ready_queues_ok s1 rq \<and> ksCurDomain s1 < numDomains s \<and>
      ksDomScheduleIdx s1 < domScheduleLength s - 1 \<and> (ksDomainTime s \<noteq> 0 \<longrightarrow> ksCurDomain s1 = ksCurDomain s)"
  proof (cases "ksDomainTime s = 0")
    case False
    then show ?thesis using f by (simp add: dom_sched_ok_def)
  next
    case True
    let ?p = "prepareNextDomain s"
    have r: "rest ?p = rest s" by simp
    have "ksDomScheduleIdx ?p = ksDomScheduleIdx s"
      by (simp add: prepareNextDomain_def switchLocalFpuOwner_def do_machine_op_def Let_def)
    then have "dom_sched_ok ?p" using f(5) by (simp add: dom_sched_ok_def restD(8-11) [OF r])
    from nextDomain_ok [OF this] obtain i d t where n: "nextDomain ?p = Some (?p\<lparr>ksDomScheduleIdx := i,
        ksWorkUnitsCompleted := 0, ksCurDomain := d, ksDomainTime := t\<rparr>)"
      "i < domScheduleLength s - 1" "d < numDomains s" by (auto simp: restD(8-11) [OF r])
    moreover have "ready_queues_ok (?p\<lparr>ksDomScheduleIdx := i, ksWorkUnitsCompleted := 0, ksCurDomain := d,
        ksDomainTime := t\<rparr>) rq"
      using f(1) by (subst ready_queues_ok_cong [of _ s])
        (simp_all add: prepareNextDomain_def switchLocalFpuOwner_def do_machine_op_def Let_def)
    ultimately show ?thesis using True by simp
  qed
  then obtain s1 where s1: "(if ksDomainTime s = 0 then nextDomain (prepareNextDomain s) else Some s) = Some s1"
    "rest s1 = rest s" "ready_queues_ok s1 rq" "ksCurDomain s1 < numDomains s"
    "ksDomScheduleIdx s1 < domScheduleLength s - 1" "ksDomainTime s \<noteq> 0 \<longrightarrow> ksCurDomain s1 = ksCurDomain s"
    by blast
  have "sched_env s1" using f(2) sched_env_rest [OF s1(2)] by simp
  moreover have "ksCurDomain s1 < numDomains s1" using s1(4) restD(8) [OF s1(2)] by simp
  moreover have "runnable s1 t" if "t \<in> set (rq d p)" for d p t
    using f(3) [of t] that by (auto simp: ready_def rest_view(1) [OF s1(2)])
  ultimately obtain s' rq' where s': "chooseThread s1 = Some s'" "rest s' = rest s1"
    "ksCurDomain s' = ksCurDomain s1" "ksDomScheduleIdx s' = ksDomScheduleIdx s1" "ready_queues_ok s' rq'"
    "picks rq (ksCurDomain s1) (ksIdleThread s1) (ksCurThread s') rq'"
    using chooseThread_ok [of s1 rq] s1(3) by blast
  have idle: "ksIdleThread s1 = ksIdleThread s" using restD(7) [OF s1(2)] .
  note pk = picks_ready [OF s'(6) s1(3), unfolded idle, OF f(7)]
  have r: "rest s' = rest s" using s'(2) s1(2) by simp
  have "sched_ok s' rq'"
  proof (rule sched_ok_step [OF ok r s'(5)])
    show "runnable s t" if "t \<in> ready rq'" for t using f(3) pk(1) that by blast
    show "tcbs s (ksCurThread s') \<noteq> None"
      using pk(3) f(3,8) by (auto simp: runnable_def)
  qed (use s1 s' in auto)
  moreover have "scheduleChooseNewThread s = Some s'"
    using s1(1) s'(1) by (simp add: scheduleChooseNewThread_def)
  ultimately show ?thesis using s1(6) s'(3,6) r idle by auto
qed

text \<open>The state with a pending action.\<close>

definition action_ok :: "kstate \<Rightarrow> bool" where
  "action_ok s \<longleftrightarrow>
     ksSchedulerAction s = SchedulerAction_ResumeCurrentThread \<or>
     ksSchedulerAction s = SchedulerAction_ChooseNewThread \<or> runnable s (ksSchedulerAction s)"

definition candidate :: "kstate \<Rightarrow> ptr set" where
  "candidate s =
     (if ksSchedulerAction s = SchedulerAction_ResumeCurrentThread \<or>
         ksSchedulerAction s = SchedulerAction_ChooseNewThread then {} else {ksSchedulerAction s})"

text \<open>The queues once a thread is put into its own: at the head or at the end, unless it is in it.\<close>

definition enqueued :: "kstate \<Rightarrow> ptr \<Rightarrow> ready_lists \<Rightarrow> ready_lists" where
  "enqueued s t rq =
     (\<lambda>d p. if sched_place s t = Some (d, p) \<and> t \<notin> set (rq d p) then t # rq d p else rq d p)"

definition appended :: "kstate \<Rightarrow> ptr \<Rightarrow> ready_lists \<Rightarrow> ready_lists" where
  "appended s t rq =
     (\<lambda>d p. if sched_place s t = Some (d, p) \<and> t \<notin> set (rq d p) then rq d p @ [t] else rq d p)"

lemma enqueued_eq:
  assumes "sched_place s t = Some (d, p)"
  shows "enqueued s t rq = (if t \<in> set (rq d p) then rq else rq_set rq d p (t # rq d p))"
    and "appended s t rq = (if t \<in> set (rq d p) then rq else rq_set rq d p (rq d p @ [t]))"
  using assms by (auto simp: enqueued_def appended_def rq_set_def fun_eq_iff)

lemma ready_enqueued:
  assumes "runnable s t"
  shows "ready (enqueued s t rq) = insert t (ready rq)" and "ready (appended s t rq) = insert t (ready rq)"
proof -
  from assms obtain d p where pl: "sched_place s t = Some (d, p)" by (auto simp: runnable_def sched_place_def)
  have "insert t (ready rq) = ready rq" if "t \<in> set (rq d p)" using that by (auto simp: ready_def)
  moreover have "ready (rq_set rq d p (t # rq d p)) = insert t (ready rq)"
    and "ready (rq_set rq d p (rq d p @ [t])) = insert t (ready rq)" by (intro ready_cons; auto)+
  ultimately show "ready (enqueued s t rq) = insert t (ready rq)" "ready (appended s t rq) = insert t (ready rq)"
    by (auto simp: enqueued_eq [OF pl])
qed

lemma enqueue_exact:
  assumes ok: "sched_ok s rq" and t: "runnable s t"
  shows "tcbSchedEnqueue t s = Some s' \<Longrightarrow> sched_ok s' (enqueued s t rq)"
    and "tcbSchedAppend t s = Some s' \<Longrightarrow> sched_ok s' (appended s t rq)"
proof -
  note f = sched_okD [OF ok]
  from t obtain d p where pl: "sched_place s t = Some (d, p)" by (auto simp: runnable_def sched_place_def)
  have step: "sched_ok s' rq'" if e: "sched_erased s' = sched_erased s" and q: "ready_queues_ok s' rq'"
    and r: "ready rq' = insert t (ready rq)" for rq'
  proof (rule sched_ok_step [OF ok rest_erased [OF e] q])
    have "ksDomScheduleIdx s' = ksDomScheduleIdx s"
      using e [THEN arg_cong, of ksDomScheduleIdx] by (simp add: sched_erased_def)
    then show "ksCurDomain s' = ksCurDomain s \<and> ksDomScheduleIdx s' = ksDomScheduleIdx s \<or>
        ksCurDomain s' < numDomains s \<and> ksDomScheduleIdx s' < domScheduleLength s - 1"
      using sched_erasedD(8) [OF e] by simp
  qed (use r f(3,6) t sched_erasedD(5) [OF e] in auto)
  show "sched_ok s' (enqueued s t rq)" if "tcbSchedEnqueue t s = Some s'"
    using that rdy.enq_law [OF f(1) pl] sched_op_erased(1) [OF that] ready_enqueued(1) [OF t, of rq]
    by (intro step) (auto simp: enqueued_eq [OF pl])
  show "sched_ok s' (appended s t rq)" if "tcbSchedAppend t s = Some s'"
    using that rdy.app_law [OF f(1) pl] sched_op_erased(2) [OF that] ready_enqueued(2) [OF t, of rq]
    by (intro step) (auto simp: enqueued_eq [OF pl])
qed

lemma enqueue_step:
  assumes "sched_ok s rq" and "runnable s t"
    and "tcbSchedEnqueue t s = Some s' \<or> tcbSchedAppend t s = Some s'"
  shows "\<exists>rq'. sched_ok s' rq' \<and> ready rq' = insert t (ready rq)"
  using assms(3) enqueue_exact [OF assms(1,2)] ready_enqueued [OF assms(2)] by blast

lemma enqueue_runs:
  assumes ok: "sched_ok s rq" and t: "runnable s t"
  shows "\<exists>s'. tcbSchedEnqueue t s = Some s'" and "\<exists>s'. tcbSchedAppend t s = Some s'"
proof -
  from t obtain d p where pl: "sched_place s t = Some (d, p)" by (auto simp: runnable_def sched_place_def)
  note f = sched_okD [OF ok]
  from rdy.enq_law [OF f(1) pl] rdy.app_law [OF f(1) pl]
  show "\<exists>s'. tcbSchedEnqueue t s = Some s'" and "\<exists>s'. tcbSchedAppend t s = Some s'" by auto
qed

lemma sched_ok_action [simp]: "sched_ok (set_action a s) rq = sched_ok s rq"
proof -
  have "ready_queues_ok (set_action a s) rq = ready_queues_ok s rq"
    by (rule ready_queues_ok_cong) (simp_all add: set_action_def)
  then show ?thesis
    using sched_env_rest [of "set_action a s" s] rest_view(1) [of "set_action a s" s]
      idle_thread_rest [of "set_action a s" s]
    by (simp add: sched_ok_def dom_sched_ok_def) (simp add: set_action_def)
qed

text \<open>No ready thread of the current domain has a higher priority than \<open>t\<close>; and no thread of the
  current domain is ready.\<close>

definition top :: "kstate \<Rightarrow> ready_lists \<Rightarrow> ptr \<Rightarrow> bool" where
  "top s rq t \<longleftrightarrow>
     (\<forall>u p. u \<in> ready rq \<longrightarrow> sched_place s u = Some (ksCurDomain s, p) \<longrightarrow> p \<le> thread_prio s t)"

definition domain_idle :: "kstate \<Rightarrow> ready_lists \<Rightarrow> bool" where
  "domain_idle s rq \<longleftrightarrow> (\<forall>p. rq (ksCurDomain s) p = [])"

lemma place_prio: "sched_place s t = Some (d, p) \<Longrightarrow> thread_prio s t = p"
  by (auto simp: sched_place_def thread_prio_def)

lemma in_own_queue:
  assumes ok: "ready_queues_ok s rq" and "u \<in> ready rq" and "sched_place s u = Some (d, p)"
  shows "u \<in> set (rq d p)"
proof -
  from assms(2) obtain d' p' where u: "u \<in> set (rq d' p')" by (auto simp: ready_def)
  with rdy.placed [OF ok u] assms(3) show ?thesis by simp
qed

lemma picks_top:
  assumes pk: "picks rq d idle t rq'" and ok: "ready_queues_ok s rq" and idle: "idle \<notin> ready rq"
  shows "t = idle \<and> (\<forall>p. rq' d p = []) \<or>
    t \<noteq> idle \<and> (\<exists>p. sched_place s t = Some (d, p)) \<and>
    (\<forall>u p. u \<in> ready rq' \<longrightarrow> sched_place s u = Some (d, p) \<longrightarrow> p \<le> thread_prio s t)"
proof (cases "\<forall>p. rq d p = []")
  case True
  with pk show ?thesis by (auto simp: picks_def)
next
  case False
  with pk obtain p ts where h: "rq d p = t # ts" "rq' = rq_set rq d p ts" "\<forall>p'. rq d p' \<noteq> [] \<longrightarrow> p' \<le> p"
    by (auto simp: picks_def)
  then have pl: "sched_place s t = Some (d, p)" using rdy.placed [OF ok, of t d p] by simp
  then have tp: "thread_prio s t = p" by (auto simp: sched_place_def thread_prio_def)
  have "t \<in> set (rq d p)" using h(1) by simp
  then have "t \<in> ready rq" unfolding ready_def by blast
  with idle have "t \<noteq> idle" by blast
  moreover have "q \<le> p" if "u \<in> ready rq'" "sched_place s u = Some (d, q)" for u q
  proof -
    have "u \<in> ready rq" using picks_ready(1) [OF pk ok idle] that(1) by blast
    from in_own_queue [OF ok this that(2)] have "rq d q \<noteq> []" by auto
    with h(3) show ?thesis by blast
  qed
  ultimately show ?thesis using pl by (simp add: tp)
qed

lemma isHighestPrio_ok:
  assumes ok: "sched_ok s rq"
  shows "\<exists>b. isHighestPrio (ksCurDomain s) q s = Some b \<and>
    (b \<longrightarrow> (\<forall>p. rq (ksCurDomain s) p \<noteq> [] \<longrightarrow> p \<le> q))"
proof -
  note f = sched_okD [OF ok]
  let ?d = "ksCurDomain s"
  have bm: "bitmap_ok (ksReadyQueuesL1Bitmap s ?d) (ksReadyQueuesL2Bitmap s ?d) (\<lambda>p. rq ?d (of_nat p) \<noteq> [])"
    using f(1,4) by (simp add: ready_queues_ok_def)
  show ?thesis
  proof (cases "\<exists>p. rq ?d p \<noteq> []")
    case True
    then obtain p where ne: "rq ?d p \<noteq> []" by blast
    then have "ksReadyQueuesL1Bitmap s ?d \<noteq> 0"
      using bitmap_nonempty [OF bm] queue_nonempty(3) [OF f(1) ne] by (auto intro!: exI [of _ "unat p"])
    moreover from ne obtain h where "getHighestPrio ?d s = Some h" "\<And>p'. rq ?d p' \<noteq> [] \<Longrightarrow> p' \<le> h"
      using highest_prio [OF f(1,4)] by metis
    ultimately show ?thesis by (auto simp: isHighestPrio_def intro: order_trans)
  next
    case False
    then show ?thesis using bitmap_nonempty [OF bm] by (auto simp: isHighestPrio_def)
  qed
qed

lemma ready_remove:
  assumes ok: "ready_queues_ok s rq" and pl: "sched_place s t = Some (d, p)"
  shows "ready (rq_set rq d p (remove1 t (rq d p))) = ready rq - {t}"
proof -
  have sub: "set (rq d p) \<subseteq> ready rq" by (auto simp: ready_def)
  show ?thesis
  proof (intro set_eqI iffI)
    fix u assume u: "u \<in> ready (rq_set rq d p (remove1 t (rq d p)))"
    have "t \<notin> ready (rq_set rq d p (remove1 t (rq d p)))"
      using rdy.removed [OF ok pl] by (simp add: ready_def)
    moreover have "u \<in> ready rq"
      using u ready_rq_set [of rq d p "remove1 t (rq d p)"] sub set_remove1_subset [of t "rq d p"] by blast
    ultimately show "u \<in> ready rq - {t}" using u by blast
  next
    fix u assume "u \<in> ready rq - {t}"
    then obtain d' p' where "u \<in> set (rq d' p')" "u \<noteq> t" by (auto simp: ready_def)
    then have "u \<in> set (rq_set rq d p (remove1 t (rq d p)) d' p')" by (auto simp: rq_set_def)
    then show "u \<in> ready (rq_set rq d p (remove1 t (rq d p)))" unfolding ready_def by blast
  qed
qed

text \<open>The outcome of a scheduling decision over the threads \<open>pool\<close>: the invariant holds again,
  each thread of the pool is either the current thread or still ready; the current thread is
  the idle thread only when its domain has no ready thread, otherwise it has the highest priority of
  its domain (unless \<open>free\<close>). It belongs to the current domain, unless it is one of \<open>X\<close>, and
  the domain changes only when its time is used up.\<close>

definition scheduled :: "bool \<Rightarrow> ptr set \<Rightarrow> kstate \<Rightarrow> ptr set \<Rightarrow> kstate \<Rightarrow> ready_lists \<Rightarrow> bool" where
  "scheduled free X s pool s' rq' \<longleftrightarrow>
     sched_ok s' rq' \<and> rest s' = rest s \<and>
     ready rq' \<union> ({ksCurThread s'} - {ksIdleThread s}) = pool \<and> ksCurThread s' \<notin> ready rq' \<and>
     (ksDomainTime s \<noteq> 0 \<longrightarrow> ksCurDomain s' = ksCurDomain s) \<and>
     (ksCurThread s' = ksIdleThread s \<and> domain_idle s' rq' \<or>
      ksCurThread s' \<noteq> ksIdleThread s \<and> (free \<or> top s' rq' (ksCurThread s')) \<and>
      (ksCurThread s' \<in> X \<or> (\<exists>p. sched_place s (ksCurThread s') = Some (ksCurDomain s', p))))"

lemma choose_scheduled:
  assumes ok: "sched_ok s rq"
  shows "\<exists>s' rq'. scheduleChooseNewThread s = Some s' \<and> scheduled free X s (ready rq) s' rq'"
proof -
  note f = sched_okD [OF ok]
  from scheduleChooseNewThread_ok [OF ok] obtain s' rq' where s': "scheduleChooseNewThread s = Some s'"
    "sched_ok s' rq'" "rest s' = rest s" "picks rq (ksCurDomain s') (ksIdleThread s) (ksCurThread s') rq'"
    "ksDomainTime s \<noteq> 0 \<longrightarrow> ksCurDomain s' = ksCurDomain s"
    by blast
  note pr = picks_ready [OF s'(4) f(1,7)]
  from picks_top [OF s'(4) f(1,7)]
  have "ksCurThread s' = ksIdleThread s \<and> domain_idle s' rq' \<or>
      ksCurThread s' \<noteq> ksIdleThread s \<and> top s' rq' (ksCurThread s') \<and>
      (\<exists>p. sched_place s (ksCurThread s') = Some (ksCurDomain s', p))"
    by (simp add: domain_idle_def top_def rest_view [OF s'(3)]) blast
  with s' pr show ?thesis unfolding scheduled_def by blast
qed

lemma switch_scheduled:
  assumes ok: "sched_ok s rq" and t: "runnable s t"
    and hi: "free \<or> (\<forall>u p. u \<in> ready rq \<longrightarrow> sched_place s u = Some (ksCurDomain s, p) \<longrightarrow> p \<le> thread_prio s t)"
  shows "\<exists>s' rq'. switchToThread t s = Some s' \<and> scheduled free {t} s (insert t (ready rq)) s' rq'"
proof -
  note f = sched_okD [OF ok]
  from t obtain d p where pl: "sched_place s t = Some (d, p)" by (auto simp: runnable_def sched_place_def)
  let ?rq = "rq_set rq d p (remove1 t (rq d p))"
  from switchToThread_ok [OF f(2,1) pl] obtain s' where s': "switchToThread t s = Some s'" "ksCurThread s' = t"
    "rest s' = rest s" "ksCurDomain s' = ksCurDomain s" "ksDomScheduleIdx s' = ksDomScheduleIdx s"
    "ready_queues_ok s' ?rq" by blast
  note rr = ready_remove [OF f(1) pl]
  have "sched_ok s' ?rq"
    using s' rr f(3) t by (intro sched_ok_step [OF ok s'(3,6)]) (auto simp: runnable_def)
  moreover have "t \<noteq> ksIdleThread s" using t f(10) by auto
  moreover have "top s' ?rq t \<or> free" using hi rr s'(4) by (auto simp: top_def rest_view [OF s'(3)])
  ultimately show ?thesis using s'(1,2,3,4) rr by (auto simp: scheduled_def)
qed

text \<open>The decision once the current thread is back in its queue: \<open>q\<close> is its priority.\<close>

lemma candidate_scheduled:
  assumes ok: "sched_ok s rq" and c: "runnable s c" and cur: "tcbs s (ksCurThread s) = Some C"
    and was: "was_runnable = isRunnable C"
    and hi: "free \<or> ksCurThread s = ksIdleThread s \<or> top s rq (ksCurThread s)"
    and cnd: "tcbs s c = Some T"
  shows "\<exists>s' rq'. schedule_candidate c was_runnable s = Some s' \<and>
    scheduled free {c} s (insert c (ready rq)) s' rq'"
proof -
  note f = sched_okD [OF ok]
  let ?ff = "ksCurThread s = ksIdleThread s \<or> tcbPriority T < tcbPriority C"
  have requeue: "\<exists>s' rq'. Option.bind (opn c s) (\<lambda>s. scheduleChooseNewThread (set_action 1 s)) = Some s' \<and>
      scheduled free {c} s (insert c (ready rq)) s' rq'" if o: "opn = tcbSchedEnqueue \<or> opn = tcbSchedAppend" for opn
  proof -
    from enqueue_runs [OF ok c] o obtain s1 where s1: "opn c s = Some s1" by auto
    then have e: "tcbSchedEnqueue c s = Some s1 \<or> tcbSchedAppend c s = Some s1" using o by auto
    from enqueue_step [OF ok c e] obtain rq1 where rq1: "sched_ok s1 rq1" "ready rq1 = insert c (ready rq)" by blast
    then have "sched_ok (set_action 1 s1) rq1" by simp
    from choose_scheduled [OF this, of free "{c}"] obtain s' rq' where s': "scheduleChooseNewThread (set_action 1 s1) = Some s'"
      "scheduled free {c} (set_action 1 s1) (insert c (ready rq)) s' rq'" using rq1(2) by auto
    have er: "ksDomainTime s1 = ksDomainTime s" "ksCurDomain s1 = ksCurDomain s"
      using e sched_op_erased sched_erasedD(8,9) by blast+
    have "rest s1 = rest s" using e sched_op_erased rest_erased by blast
    then have "scheduled free {c} s (insert c (ready rq)) s' rq'"
      using s'(2) restD(7) [of s1 s] rest_view(3) [of s1 s] er rest_simps(2) [of 1 s1] rest_view(3) [of "set_action 1 s1" s1]
      by (simp add: scheduled_def) (simp add: set_action_def)
    with s1 s'(1) show ?thesis by auto
  qed
  from isHighestPrio_ok [OF ok, of "tcbPriority T"] obtain b where b:
    "isHighestPrio (ksCurDomain s) (tcbPriority T) s = Some b"
    "b \<longrightarrow> (\<forall>p. rq (ksCurDomain s) p \<noteq> [] \<longrightarrow> p \<le> tcbPriority T)" by blast
  have rT: "isRunnable T" using c cnd by (simp add: runnable_def)
  then have c_run: "schedule_candidate c was_runnable s =
      do { highest \<leftarrow> (if ?ff then isHighestPrio (ksCurDomain s) (tcbPriority T) s else Some True);
           if ?ff \<and> \<not> highest then
             do { s \<leftarrow> tcbSchedEnqueue c s;
                  scheduleChooseNewThread (set_action SchedulerAction_ChooseNewThread s) }
           else if was_runnable \<and> tcbPriority T = tcbPriority C then
             do { s \<leftarrow> tcbSchedAppend c s;
                  scheduleChooseNewThread (set_action SchedulerAction_ChooseNewThread s) }
           else do { assert_opt (c \<noteq> ksCurThread s); switchToThread c s } }"
    by (simp add: schedule_candidate_def Let_def cnd cur)
  consider (slow) "?ff" "\<not> b" | (equal) "\<not> (?ff \<and> \<not> b)" "was_runnable" "tcbPriority T = tcbPriority C"
    | (switch) "\<not> (?ff \<and> \<not> b)" "\<not> (was_runnable \<and> tcbPriority T = tcbPriority C)" by blast
  then show ?thesis
  proof cases
    case slow
    then show ?thesis unfolding c_run using requeue [of tcbSchedEnqueue] b(1) by simp
  next
    case equal
    then show ?thesis unfolding c_run using requeue [of tcbSchedAppend] b(1) by (cases ?ff) auto
  next
    case switch
    from rT have ne: "c \<noteq> ksCurThread s" using switch(2) was cur cnd by auto
    have tp: "thread_prio s c = tcbPriority T" "thread_prio s (ksCurThread s) = tcbPriority C"
      using cnd cur by (simp_all add: thread_prio_def)
    have "free \<or> (\<forall>u p. u \<in> ready rq \<longrightarrow> sched_place s u = Some (ksCurDomain s, p) \<longrightarrow> p \<le> thread_prio s c)"
    proof (cases ?ff)
      case True
      with switch(1) have b by simp
      with b(2) have "\<And>p. rq (ksCurDomain s) p \<noteq> [] \<Longrightarrow> p \<le> tcbPriority T" by blast
      moreover have "rq (ksCurDomain s) p \<noteq> []" if "u \<in> ready rq" "sched_place s u = Some (ksCurDomain s, p)" for u p
        using in_own_queue [OF f(1) that] by auto
      ultimately show ?thesis unfolding tp by blast
    next
      case False
      then have le: "tcbPriority C \<le> tcbPriority T" by (auto simp: not_less)
      from False hi have "free \<or> top s rq (ksCurThread s)" by blast
      with le show ?thesis by (auto simp: top_def tp)
    qed
    from switch_scheduled [OF ok c this] obtain s' rq' where
      "switchToThread c s = Some s'" "scheduled free {c} s (insert c (ready rq)) s' rq'" by blast
    then show ?thesis unfolding c_run using switch b(1) ne by (cases ?ff) auto
  qed
qed

definition pool :: "kstate \<Rightarrow> ready_lists \<Rightarrow> ptr set" where
  "pool s rq = ready rq \<union> (if runnable s (ksCurThread s) then {ksCurThread s} else {}) \<union> candidate s"

lemma schedule_ok:
  assumes ok: "sched_ok s rq" and act: "action_ok s"
    and pending: "ksSchedulerAction s \<noteq> SchedulerAction_ResumeCurrentThread"
  defines "free \<equiv> \<not> (ksSchedulerAction s = SchedulerAction_ChooseNewThread \<or>
                    ksCurThread s = ksIdleThread s \<or> top s rq (ksCurThread s))"
  shows "\<exists>s' rq'. schedule s = Some s' \<and>
    ksSchedulerAction s' = SchedulerAction_ResumeCurrentThread \<and> scheduled free (candidate s) s (pool s rq) s' rq'"
proof -
  note f = sched_okD [OF ok]
  from f(6) obtain C where C: "tcbs s (ksCurThread s) = Some C" by auto
  have rC: "runnable s (ksCurThread s) = isRunnable C" using C by (simp add: runnable_def)
  have "\<exists>s1 rq1. (if isRunnable C then tcbSchedEnqueue (ksCurThread s) s else Some s) = Some s1 \<and>
      sched_erased s1 = sched_erased s \<and> sched_ok s1 rq1 \<and>
      ready rq1 = ready rq \<union> (if isRunnable C then {ksCurThread s} else {})"
  proof (cases "isRunnable C")
    case True
    then have r: "runnable s (ksCurThread s)" using rC by simp
    from enqueue_runs(1) [OF ok r] obtain s1 where s1: "tcbSchedEnqueue (ksCurThread s) s = Some s1" by blast
    from enqueue_step [OF ok r disjI1 [OF s1]] show ?thesis using True s1 sched_op_erased(1) [OF s1] by auto
  qed (use ok in auto)
  then obtain s1 rq1 where s1: "(if isRunnable C then tcbSchedEnqueue (ksCurThread s) s else Some s) = Some s1"
    "sched_erased s1 = sched_erased s" "sched_ok s1 rq1"
    "ready rq1 = ready rq \<union> (if isRunnable C then {ksCurThread s} else {})" by blast
  have r1: "rest s1 = rest s" using rest_erased [OF s1(2)] .
  have fin: "scheduled free X s P (set_action 0 s') rq'" if "scheduled free X s1 P s' rq'" for P X s' rq'
    using that r1 restD(7) [OF r1] rest_view(3) [OF r1] sched_erasedD(8,9) [OF s1(2)]
      rest_view [of "set_action 0 s'" s']
    by (simp add: scheduled_def top_def domain_idle_def) (simp add: set_action_def)
  show ?thesis
  proof (cases "ksSchedulerAction s = SchedulerAction_ChooseNewThread")
    case True
    from choose_scheduled [OF s1(3), of free "candidate s"] obtain s' rq' where s':
      "scheduleChooseNewThread s1 = Some s'" "scheduled free (candidate s) s1 (ready rq1) s' rq'" by blast
    have "pool s rq = ready rq1" using True s1(4) rC by (simp add: pool_def candidate_def)
    moreover have "schedule s = Some (set_action 0 s')"
      using pending C s1(1) True s'(1) sched_erasedD(7) [OF s1(2)]
      by (simp add: schedule_def Let_def)
    moreover have "ksSchedulerAction (set_action 0 s') = 0" by (simp add: set_action_def)
    ultimately show ?thesis using fin [OF s'(2)] by auto
  next
    case False
    let ?c = "ksSchedulerAction s"
    from act pending False have c: "runnable s ?c" by (simp add: action_ok_def)
    then have c1: "runnable s1 ?c" by (simp add: rest_view(1) [OF r1])
    from C obtain C1 where C1: "tcbs s1 (ksCurThread s1) = Some C1" "tcb_unqueued C1 = tcb_unqueued C"
      using rest_thread [OF r1 C] sched_erasedD(5) [OF s1(2)] by metis
    from c1 obtain T where T: "tcbs s1 ?c = Some T" "isRunnable T" by (auto simp: runnable_def)
    have was: "isRunnable C = isRunnable C1" using unqueued_view(1) [OF C1(2)] by simp
    have hi: "free \<or> ksCurThread s1 = ksIdleThread s1 \<or> top s1 rq1 (ksCurThread s1)"
    proof -
      have "top s1 rq1 (ksCurThread s1)" if "top s rq (ksCurThread s)"
        unfolding top_def rest_view [OF r1] sched_erasedD(5,8) [OF s1(2)]
      proof (intro allI impI)
        fix u p assume u: "u \<in> ready rq1" "sched_place s u = Some (ksCurDomain s, p)"
        show "p \<le> thread_prio s (ksCurThread s)"
        proof (cases "u \<in> ready rq")
          case True
          with that u show ?thesis by (simp add: top_def)
        next
          case False
          with u(1) s1(4) have "u = ksCurThread s" by (auto split: if_splits)
          with place_prio [OF u(2)] show ?thesis by simp
        qed
      qed
      then show ?thesis using sched_erasedD(5,6) [OF s1(2)] False by (auto simp: free_def)
    qed
    from candidate_scheduled [OF s1(3) c1 C1(1) was hi T(1)] obtain s' rq' where
      s': "schedule_candidate ?c (isRunnable C) s1 = Some s'" "scheduled free {?c} s1 (insert ?c (ready rq1)) s' rq'"
      by blast
    have "candidate s = {?c}" using False pending by (simp add: candidate_def)
    note fin = fin [OF s'(2), folded this]
    have run: "schedule s = Some (set_action 0 s')"
      using pending C s1(1) False s'(1) sched_erasedD(7) [OF s1(2)]
      by (simp add: schedule_def Let_def)
    have "pool s rq = insert ?c (ready rq1)" using False pending s1(4) rC by (auto simp: pool_def candidate_def)
    moreover have "ksSchedulerAction (set_action 0 s') = 0" by (simp add: set_action_def)
    ultimately show ?thesis using fin run by auto
  qed
qed

section \<open>Operations on threads\<close>

text \<open>A write to a thread that leaves the queue links and the queued flag alone, and the place and
  the state as far as the queues need them.\<close>

lemma ready_queues_ok_update:
  assumes ok: "ready_queues_ok s rq" and t: "tcbs s t = Some T"
    and link: "tcbSchedNext T' = tcbSchedNext T" "tcbSchedPrev T' = tcbSchedPrev T"
      "tcbQueued (tcbState T') = tcbQueued (tcbState T)"
    and place: "if tcbQueued (tcbState T) then tcbDomain T' = tcbDomain T \<and> tcbPriority T' = tcbPriority T
                else tcbDomain T' < numDomains s \<and> tcbPriority T' < 256"
  shows "ready_queues_ok (s\<lparr>tcbs := (tcbs s)(t \<mapsto> T')\<rparr>) rq"
proof -
  let ?s = "s\<lparr>tcbs := (tcbs s)(t \<mapsto> T')\<rparr>"
  have l: "sched_next ?s = sched_next s" "sched_prev ?s = sched_prev s"
    using t link by (auto simp: link_of_def fun_eq_iff)
  have q: "in_queue ?s u d p = in_queue s u d p" for u d p
    using t link(3) place by (auto simp: in_queue_def split: if_splits)
  have "tcbs_ok ?s"
    using ok t link place by (auto simp: ready_queues_ok_def tcbs_ok_def split: if_splits)
  with ok show ?thesis by (simp add: ready_queues_ok_def l q rq_idx_def)
qed

lemma sched_ok_update:
  assumes ok: "sched_ok s rq" and t: "tcbs s t = Some T"
    and link: "tcbSchedNext T' = tcbSchedNext T" "tcbSchedPrev T' = tcbSchedPrev T"
      "tcbQueued (tcbState T') = tcbQueued (tcbState T)"
    and place: "if tcbQueued (tcbState T) then tcbDomain T' = tcbDomain T \<and> tcbPriority T' = tcbPriority T
                else tcbDomain T' < numDomains s \<and> tcbPriority T' < 256"
    and run: "t \<in> ready rq \<Longrightarrow> isRunnable T'"
      "t = ksIdleThread s \<Longrightarrow> tsType (tcbState T') = ThreadState_IdleThreadState"
  shows "sched_ok (s\<lparr>tcbs := (tcbs s)(t \<mapsto> T')\<rparr>) rq"
proof -
  let ?s = "s\<lparr>tcbs := (tcbs s)(t \<mapsto> T')\<rparr>"
  note f = sched_okD [OF ok]
  have m: "findMapForASID a ?s = findMapForASID a s" for a by (rule findMapForASID_cong) simp_all
  have "sched_env ?s"
    using f(2) t by (auto simp: sched_env_def vspaces_wf_def pt_live_def paddr_to_pptr_def m split: if_splits)
  moreover have "runnable ?s u" if "u \<in> ready rq" for u
    using f(3) [OF that] run(1) that by (auto simp: runnable_def)
  moreover have "idle_thread ?s (ksIdleThread s)" using f(11) run(2) by (auto simp: idle_thread_def)
  moreover have "t \<noteq> 1" using t f(9) by auto
  ultimately show ?thesis
    using ready_queues_ok_update [OF f(1) t link place] ok by (auto simp: sched_ok_def dom_sched_ok_def)
qed

text \<open>The two ways to make the scheduler run.\<close>

definition requeued :: "kstate \<Rightarrow> ready_lists \<Rightarrow> ready_lists" where
  "requeued s rq =
     (if ksSchedulerAction s = SchedulerAction_ResumeCurrentThread \<or>
         ksSchedulerAction s = SchedulerAction_ChooseNewThread then rq
      else enqueued s (ksSchedulerAction s) rq)"

lemma reschedule_exact:
  assumes ok: "sched_ok s rq" and act: "action_ok s"
  shows "\<exists>s'. rescheduleRequired s = Some s' \<and> sched_ok s' (requeued s rq) \<and> rest s' = rest s \<and>
    ksSchedulerAction s' = SchedulerAction_ChooseNewThread \<and> ksCurThread s' = ksCurThread s \<and>
    ksCurDomain s' = ksCurDomain s \<and> ksDomainTime s' = ksDomainTime s \<and>
    ready (requeued s rq) = ready rq \<union> candidate s"
proof (cases "ksSchedulerAction s = 0 \<or> ksSchedulerAction s = 1")
  case True
  then have "rescheduleRequired s = Some (set_action 1 s)" by (auto simp: rescheduleRequired_def)
  moreover have "candidate s = {}" "requeued s rq = rq" using True by (auto simp: candidate_def requeued_def)
  moreover have "sched_ok (set_action 1 s) rq" using ok by simp
  ultimately show ?thesis using rest_simps(2)
    by (intro exI [of _ "set_action 1 s"]) (simp, simp add: set_action_def)
next
  case False
  let ?c = "ksSchedulerAction s"
  from False act have c: "runnable s ?c" by (auto simp: action_ok_def)
  from enqueue_runs(1) [OF ok c] obtain s1 where s1: "tcbSchedEnqueue ?c s = Some s1" by blast
  have rq: "requeued s rq = enqueued s ?c rq" "candidate s = {?c}"
    using False by (simp_all add: requeued_def candidate_def)
  note e = sched_op_erased(1) [OF s1]
  have "rescheduleRequired s = Some (set_action 1 s1)" using False s1 by (simp add: rescheduleRequired_def)
  moreover have "ksSchedulerAction (set_action 1 s1) = 1" "ksCurThread (set_action 1 s1) = ksCurThread s"
    "ksCurDomain (set_action 1 s1) = ksCurDomain s" "ksDomainTime (set_action 1 s1) = ksDomainTime s"
    using sched_erasedD(5,8,9) [OF e] by (simp_all add: set_action_def)
  ultimately show ?thesis
    using rest_erased [OF e] enqueue_exact(1) [OF ok c s1] ready_enqueued(1) [OF c, of rq]
    by (intro exI [of _ "set_action 1 s1"]) (simp add: rq)
qed

lemma rescheduleRequired_ok:
  assumes "sched_ok s rq" and "action_ok s"
  shows "\<exists>s' rq'. rescheduleRequired s = Some s' \<and> sched_ok s' rq' \<and> rest s' = rest s \<and>
    ksSchedulerAction s' = SchedulerAction_ChooseNewThread \<and> ksCurThread s' = ksCurThread s \<and>
    ksCurDomain s' = ksCurDomain s \<and> ready rq' = ready rq \<union> candidate s"
  using reschedule_exact [OF assms] by blast

lemma possibleSwitchTo_ok:
  assumes ok: "sched_ok s rq" and act: "action_ok s" and t: "runnable s t"
  shows "\<exists>s' rq'. possibleSwitchTo t s = Some s' \<and> sched_ok s' rq' \<and> action_ok s' \<and> rest s' = rest s \<and>
    ksCurThread s' = ksCurThread s \<and> ready rq' \<union> candidate s' = insert t (ready rq \<union> candidate s)"
proof -
  from t obtain T where T: "tcbs s t = Some T" "isRunnable T" by (auto simp: runnable_def)
  consider (other) "ksCurDomain s \<noteq> tcbDomain T"
    | (busy) "ksCurDomain s = tcbDomain T" "ksSchedulerAction s \<noteq> 0"
    | (free) "ksCurDomain s = tcbDomain T" "ksSchedulerAction s = 0" by blast
  then show ?thesis
  proof cases
    case other
    from enqueue_runs(1) [OF ok t] obtain s1 where s1: "tcbSchedEnqueue t s = Some s1" by blast
    note e = sched_op_erased(1) [OF s1]
    from enqueue_step [OF ok t disjI1 [OF s1]] obtain rq1 where "sched_ok s1 rq1" "ready rq1 = insert t (ready rq)"
      by blast
    moreover have "action_ok s1" "candidate s1 = candidate s"
      using act sched_erasedD(7) [OF e] rest_view(1) [OF rest_erased [OF e]]
      by (simp_all add: action_ok_def candidate_def)
    moreover have "possibleSwitchTo t s = Some s1" using T other s1 by (simp add: possibleSwitchTo_def)
    ultimately show ?thesis
      using sched_erasedD(5) [OF e] rest_erased [OF e] by (intro exI [of _ s1] exI [of _ rq1]) simp
  next
    case busy
    from rescheduleRequired_ok [OF ok act] obtain s1 rq1 where s1: "rescheduleRequired s = Some s1" "sched_ok s1 rq1"
      "rest s1 = rest s" "ksSchedulerAction s1 = 1" "ksCurThread s1 = ksCurThread s"
      "ready rq1 = ready rq \<union> candidate s" by blast
    then have t1: "runnable s1 t" using t rest_view(1) [OF s1(3)] by simp
    from enqueue_runs(1) [OF s1(2) t1] obtain s2 where s2: "tcbSchedEnqueue t s1 = Some s2" by blast
    note e = sched_op_erased(1) [OF s2]
    from enqueue_step [OF s1(2) t1 disjI1 [OF s2]] obtain rq2 where rq2: "sched_ok s2 rq2"
      "ready rq2 = insert t (ready rq1)" by blast
    have "ksSchedulerAction s2 = 1" using sched_erasedD(7) [OF e] s1(4) by simp
    then have "action_ok s2" "candidate s2 = {}" by (simp_all add: action_ok_def candidate_def)
    moreover have "possibleSwitchTo t s = Some s2" using T busy s1(1) s2 by (simp add: possibleSwitchTo_def)
    ultimately show ?thesis
      using rq2 s1(3,5,6) sched_erasedD(5) [OF e] rest_erased [OF e]
      by (intro exI [of _ s2] exI [of _ rq2]) auto
  next
    case free
    have "possibleSwitchTo t s = Some (set_action t s)" using T free by (simp add: possibleSwitchTo_def)
    moreover have "action_ok (set_action t s)" using t by (simp add: action_ok_def set_action_def runnable_def)
    moreover have "t \<noteq> 0" "t \<noteq> 1"
      using T(1) sched_okD(1,9) [OF ok] by (auto simp: ready_queues_ok_def tcbs_ok_def)
    then have "candidate (set_action t s) = {t}" by (simp add: candidate_def set_action_def)
    moreover have "candidate s = {}" using free by (simp add: candidate_def)
    moreover have "ksCurThread (set_action t s) = ksCurThread s" by (simp add: set_action_def)
    ultimately show ?thesis using ok by (intro exI [of _ "set_action t s"] exI [of _ rq]) simp
  qed
qed

lemma dequeue_step:
  assumes ok: "sched_ok s rq" and t: "tcbs s t = Some T"
  obtains s' rq' where "tcbSchedDequeue t s = Some s'" and "sched_erased s' = sched_erased s"
    and "sched_ok s' rq'" and "ready rq' = ready rq - {t}"
proof -
  note f = sched_okD [OF ok]
  from t have pl: "sched_place s t = Some (tcbDomain T, tcbPriority T)" by (simp add: sched_place_def)
  let ?rq = "rq_set rq (tcbDomain T) (tcbPriority T) (remove1 t (rq (tcbDomain T) (tcbPriority T)))"
  from tcbSchedDequeue_queue [OF f(1) pl] obtain s' where s': "tcbSchedDequeue t s = Some s'"
    "ready_queues_ok s' ?rq" by blast
  note e = sched_op_erased(3) [OF s'(1)]
  note r = ready_remove [OF f(1) pl]
  have "ksDomScheduleIdx s' = ksDomScheduleIdx s"
    using e [THEN arg_cong, of ksDomScheduleIdx] by (simp add: sched_erased_def)
  then have "sched_ok s' ?rq"
    using f(3,6) r sched_erasedD(5,8) [OF e] by (intro sched_ok_step [OF ok rest_erased [OF e] s'(2)]) auto
  with that [OF s'(1) e] r show ?thesis by blast
qed

text \<open>A thread that is in no ready queue is not marked as queued.\<close>

lemma not_ready_unqueued:
  assumes ok: "ready_queues_ok s rq" and t: "tcbs s t = Some T" and out: "t \<notin> ready rq"
  shows "\<not> tcbQueued (tcbState T)"
  using in_queue_iff [OF ok t] out by (auto simp: ready_def)

text \<open>The thread \<open>t\<close> is taken out of its queue and written; the queues are as before without it.\<close>

lemma dequeue_write:
  assumes ok: "sched_ok s rq" and act: "action_ok s" and t: "tcbs s t = Some T"
    and g: "\<And>X. tcbSchedNext (g X) = tcbSchedNext X" "\<And>X. tcbSchedPrev (g X) = tcbSchedPrev X"
      "\<And>X. tcbState (g X) = tcbState X"
      "\<And>X. tcbDomain X < numDomains s \<Longrightarrow> tcbPriority X < 256 \<Longrightarrow> tcbDomain (g X) < numDomains s \<and> tcbPriority (g X) < 256"
  obtains s' rq' T' where "Option.bind (tcbSchedDequeue t s) (tcb_upd t g) = Some s'" and "sched_ok s' rq'"
    and "action_ok s'" and "candidate s' = candidate s" and "ready rq' = ready rq - {t}"
    and "ksCurThread s' = ksCurThread s" and "ksCurDomain s' = ksCurDomain s"
    and "tcbs s' t = Some (g T')" and "tcb_unqueued T' = tcb_unqueued T"
    and "\<And>u. runnable s' u = runnable s u"
    and "\<And>u. u \<noteq> t \<Longrightarrow> sched_place s' u = sched_place s u"
proof -
  from dequeue_step [OF ok t] obtain s1 rq1 where s1: "tcbSchedDequeue t s = Some s1"
    "sched_erased s1 = sched_erased s" "sched_ok s1 rq1" "ready rq1 = ready rq - {t}" .
  have r: "rest s1 = rest s" using rest_erased [OF s1(2)] .
  from rest_thread [OF r t] obtain T1 where T1: "tcbs s1 t = Some T1" "tcb_unqueued T1 = tcb_unqueued T" .
  note f1 = sched_okD [OF s1(3)]
  have out: "t \<notin> ready rq1" using s1(4) by simp
  have nq: "\<not> tcbQueued (tcbState T1)" by (rule not_ready_unqueued [OF f1(1) T1(1) out])
  have bd: "tcbDomain T1 < numDomains s" "tcbPriority T1 < 256"
    using f1(1) T1(1) restD(8) [OF r] by (auto simp: ready_queues_ok_def tcbs_ok_def)
  let ?s2 = "s1\<lparr>tcbs := (tcbs s1)(t \<mapsto> g T1)\<rparr>"
  have run: "isRunnable (g T1) = isRunnable T1" by (simp add: isRunnable_def g)
  have "sched_ok ?s2 rq1"
  proof (rule sched_ok_update [OF s1(3) T1(1)])
    show "tsType (tcbState (g T1)) = ThreadState_IdleThreadState" if "t = ksIdleThread s1"
      using that f1(11) T1(1) by (simp add: g idle_thread_def)
  qed (use nq bd out g restD(8) [OF r] in auto)
  moreover have rv: "runnable ?s2 u = runnable s u" for u
    using T1(1) rest_view(1) [OF r, of u] by (auto simp: runnable_def run)
  moreover have "sched_place ?s2 u = sched_place s u" if "u \<noteq> t" for u
    using rest_view(3) [OF r, of u] that by (simp add: sched_place_def)
  moreover have "action_ok ?s2"
    using act sched_erasedD(7) [OF s1(2)] by (simp add: action_ok_def rv)
  moreover have "candidate ?s2 = candidate s" using sched_erasedD(7) [OF s1(2)] by (simp add: candidate_def)
  moreover have "Option.bind (tcbSchedDequeue t s) (tcb_upd t g) = Some ?s2"
    using s1(1) T1(1) by (simp add: tcb_upd_def)
  ultimately show ?thesis
    using that [of ?s2 rq1 T1] s1(4) T1(2) sched_erasedD(5,8) [OF s1(2)] by simp
qed

lemma setPriority_ok:
  assumes ok: "sched_ok s rq" and act: "action_ok s" and t: "tcbs s t = Some T" and p: "prio < 256"
  shows "\<exists>s' rq'. setPriority t prio s = Some s' \<and> sched_ok s' rq' \<and> action_ok s' \<and>
    thread_prio s' t = prio \<and> (\<forall>u. u \<noteq> t \<longrightarrow> sched_place s' u = sched_place s u) \<and>
    (\<forall>u. runnable s' u = runnable s u) \<and>
    pool s' rq' = pool s rq \<union> (if isRunnable T then {t} else {})"
proof -
  let ?g = "\<lambda>X. X\<lparr>tcbPriority := prio\<rparr>"
  obtain s1 rq1 T1 where s1: "Option.bind (tcbSchedDequeue t s) (tcb_upd t ?g) = Some s1" "sched_ok s1 rq1"
    "action_ok s1" "candidate s1 = candidate s" "ready rq1 = ready rq - {t}" "ksCurThread s1 = ksCurThread s"
    "ksCurDomain s1 = ksCurDomain s" "tcbs s1 t = Some (?g T1)" "tcb_unqueued T1 = tcb_unqueued T"
    "\<And>u. runnable s1 u = runnable s u" "\<And>u. u \<noteq> t \<Longrightarrow> sched_place s1 u = sched_place s u"
    by (rule dequeue_write [OF ok act t, of ?g]) (use p in auto)
  have rT: "isRunnable (?g T1) = isRunnable T"
    using unqueued_view(1) [OF s1(9)] by (simp add: isRunnable_def)
  have tp: "thread_prio s1 t = prio" using s1(8) by (simp add: thread_prio_def)
  have step: "setPriority t prio s = (if isRunnable T then
      (if t = ksCurThread s1 then rescheduleRequired s1 else possibleSwitchTo t s1) else Some s1)"
    using s1(1,8) rT by (auto simp: setPriority_def bind_eq_Some_conv)
  have fin: "thread_prio s' t = prio \<and> (\<forall>u. u \<noteq> t \<longrightarrow> sched_place s' u = sched_place s u) \<and>
      (\<forall>u. runnable s' u = runnable s u)" if "rest s' = rest s1" for s'
    using tp s1(10,11) rest_view [OF that] by simp
  show ?thesis
  proof (cases "isRunnable T")
    case False
    have "\<not> runnable s t" using False t by (simp add: runnable_def)
    then have "t \<notin> ready rq" using sched_okD(3) [OF ok] by auto
    then have "pool s1 rq1 = pool s rq" using s1(4,5,6,10) by (simp add: pool_def)
    then show ?thesis using step False s1(2,3) fin [of s1] by auto
  next
    case True
    then have t1: "runnable s1 t" using s1(10) t by (simp add: runnable_def)
    show ?thesis
    proof (cases "t = ksCurThread s1")
      case cur: True
      from rescheduleRequired_ok [OF s1(2,3)] obtain s2 rq2 where s2: "rescheduleRequired s1 = Some s2"
        "sched_ok s2 rq2" "rest s2 = rest s1" "ksSchedulerAction s2 = 1" "ksCurThread s2 = ksCurThread s1"
        "ready rq2 = ready rq1 \<union> candidate s1" by blast
      have "action_ok s2" "candidate s2 = {}" using s2(4) by (simp_all add: action_ok_def candidate_def)
      moreover have "runnable s2 t" using t1 rest_view(1) [OF s2(3)] by simp
      ultimately have "pool s2 rq2 = pool s rq \<union> {t}"
        using s2(5,6) s1(4,5,6) cur t1 s1(10) by (auto simp: pool_def)
      then show ?thesis using step True cur s2(1,2) fin [OF s2(3)] \<open>action_ok s2\<close> by auto
    next
      case False
      from possibleSwitchTo_ok [OF s1(2,3) t1] obtain s2 rq2 where s2: "possibleSwitchTo t s1 = Some s2"
        "sched_ok s2 rq2" "action_ok s2" "rest s2 = rest s1" "ksCurThread s2 = ksCurThread s1"
        "ready rq2 \<union> candidate s2 = insert t (ready rq1 \<union> candidate s1)" by blast
      have "pool s2 rq2 = pool s rq \<union> {t}"
        using s2(5,6) s1(4,5,6,10) rest_view(1) [OF s2(4)] by (auto simp: pool_def)
      then show ?thesis using step True False s2(1,2,3) fin [OF s2(4)] by auto
    qed
  qed
qed

lemma pool_runnable:
  assumes "sched_ok s rq" and "action_ok s" and "t \<in> pool s rq"
  shows "runnable s t"
  using assms sched_okD(3) [OF assms(1)]
  by (auto simp: pool_def candidate_def action_ok_def split: if_splits)

lemma setDomain_ok:
  assumes ok: "sched_ok s rq" and act: "action_ok s" and t: "tcbs s t = Some T" and d: "dm < numDomains s"
  shows "\<exists>s' rq'. setDomain t dm s = Some s' \<and> sched_ok s' rq' \<and> action_ok s' \<and>
    sched_place s' t = Some (dm, tcbPriority T) \<and> (\<forall>u. u \<noteq> t \<longrightarrow> sched_place s' u = sched_place s u) \<and>
    (\<forall>u. runnable s' u = runnable s u) \<and> pool s' rq' = pool s rq \<union> (if isRunnable T then {t} else {})"
proof -
  let ?g = "\<lambda>X. X\<lparr>tcbDomain := dm\<rparr>"
  obtain s1 rq1 T1 where s1: "Option.bind (tcbSchedDequeue t s) (tcb_upd t ?g) = Some s1" "sched_ok s1 rq1"
    "action_ok s1" "candidate s1 = candidate s" "ready rq1 = ready rq - {t}" "ksCurThread s1 = ksCurThread s"
    "ksCurDomain s1 = ksCurDomain s" "tcbs s1 t = Some (?g T1)" "tcb_unqueued T1 = tcb_unqueued T"
    "\<And>u. runnable s1 u = runnable s u" "\<And>u. u \<noteq> t \<Longrightarrow> sched_place s1 u = sched_place s u"
    by (rule dequeue_write [OF ok act t, of ?g]) (use d in auto)
  have rT: "isRunnable (?g T1) = isRunnable T"
    using unqueued_view(1) [OF s1(9)] by (simp add: isRunnable_def)
  have "\<exists>s2 rq2. (if isRunnable T then tcbSchedEnqueue t s1 else Some s1) = Some s2 \<and> sched_ok s2 rq2 \<and>
      sched_erased s2 = sched_erased s1 \<and> ready rq2 = ready rq1 \<union> (if isRunnable T then {t} else {})"
  proof (cases "isRunnable T")
    case True
    then have t1: "runnable s1 t" using s1(10) t by (simp add: runnable_def)
    from enqueue_runs(1) [OF s1(2) t1] obtain s2 where s2: "tcbSchedEnqueue t s1 = Some s2" by blast
    from enqueue_step [OF s1(2) t1 disjI1 [OF s2]] show ?thesis using True s2 sched_op_erased(1) [OF s2] by auto
  qed (use s1(2) in auto)
  then obtain s2 rq2 where s2: "(if isRunnable T then tcbSchedEnqueue t s1 else Some s1) = Some s2"
    "sched_ok s2 rq2" "sched_erased s2 = sched_erased s1"
    "ready rq2 = ready rq1 \<union> (if isRunnable T then {t} else {})" by blast
  have r2: "rest s2 = rest s1" using rest_erased [OF s2(3)] .
  have a2: "action_ok s2" "candidate s2 = candidate s1" "ksCurThread s2 = ksCurThread s1"
    using s1(3) sched_erasedD(5,7) [OF s2(3)] rest_view(1) [OF r2] by (simp_all add: action_ok_def candidate_def)
  have step: "setDomain t dm s = (if t = ksCurThread s2 then rescheduleRequired s2 else Some s2)"
  proof -
    from s1(1,8) have "setDomain t dm s = do { s \<leftarrow> (if isRunnable T then tcbSchedEnqueue t s1 else Some s1);
        if t = ksCurThread s then rescheduleRequired s else Some s }"
      using rT by (auto simp: setDomain_def bind_eq_Some_conv)
    then show ?thesis by (simp only: s2(1) bind_Some_conv)
  qed
  have "\<exists>s3 rq3. setDomain t dm s = Some s3 \<and> sched_ok s3 rq3 \<and> action_ok s3 \<and> rest s3 = rest s2 \<and>
      ksCurThread s3 = ksCurThread s2 \<and> ready rq3 \<union> candidate s3 = ready rq2 \<union> candidate s2"
  proof (cases "t = ksCurThread s2")
    case True
    from rescheduleRequired_ok [OF s2(2) a2(1)] obtain s3 rq3 where s3: "rescheduleRequired s2 = Some s3"
      "sched_ok s3 rq3" "rest s3 = rest s2" "ksSchedulerAction s3 = 1" "ksCurThread s3 = ksCurThread s2"
      "ready rq3 = ready rq2 \<union> candidate s2" by blast
    moreover have "action_ok s3" "candidate s3 = {}" using s3(4) by (simp_all add: action_ok_def candidate_def)
    ultimately show ?thesis using step True by auto
  qed (use step s2(2) a2(1) in auto)
  then obtain s3 rq3 where s3: "setDomain t dm s = Some s3" "sched_ok s3 rq3" "action_ok s3" "rest s3 = rest s2"
    "ksCurThread s3 = ksCurThread s2" "ready rq3 \<union> candidate s3 = ready rq2 \<union> candidate s2" by blast
  have r3: "rest s3 = rest s1" using s3(4) r2 by simp
  have "runnable s t = isRunnable T" using t by (simp add: runnable_def)
  then have "t \<in> ready rq \<Longrightarrow> isRunnable T" using sched_okD(3) [OF ok] by blast
  then have "ready rq3 \<union> candidate s3 = ready rq \<union> candidate s \<union> (if isRunnable T then {t} else {})"
    using s3(6) s2(4) a2(2) s1(4,5) by auto
  moreover have "runnable s3 u = runnable s u" for u using rest_view(1) [OF r3] s1(10) by simp
  ultimately have "pool s3 rq3 = pool s rq \<union> (if isRunnable T then {t} else {})"
    using s3(5) a2(3) s1(6) by (auto simp: pool_def)
  moreover have "sched_place s1 t = Some (dm, tcbPriority T)"
    using s1(8) unqueued_view(3) [OF s1(9)] by (simp add: sched_place_def)
  ultimately show ?thesis
    using s3(1-3) rest_view(1,3) [OF r3] s1(10,11) by (intro exI [of _ s3] exI [of _ rq3]) simp
qed

lemma setThreadState_ok:
  assumes ok: "sched_ok s rq" and act: "action_ok s" and t: "tcbs s t = Some T"
    and waiting: "t \<in> ready rq \<union> candidate s \<longrightarrow> ts = ThreadState_Running \<or> ts = ThreadState_Restart"
    and idle: "t = ksIdleThread s \<longrightarrow> ts = ThreadState_IdleThreadState"
  shows "\<exists>s'. setThreadState t ts s = Some s' \<and> sched_ok s' rq \<and> action_ok s' \<and>
    tcbs s' = (tcbs s)(t \<mapsto> T\<lparr>tcbState := (tcbState T)\<lparr>tsType := ts\<rparr>\<rparr>) \<and> candidate s' = candidate s \<and>
    ksCurThread s' = ksCurThread s \<and>
    (t = ksCurThread s \<longrightarrow> ts \<noteq> ThreadState_Running \<longrightarrow> ts \<noteq> ThreadState_Restart \<longrightarrow>
       ksSchedulerAction s' \<noteq> SchedulerAction_ResumeCurrentThread)"
proof -
  let ?T = "T\<lparr>tcbState := (tcbState T)\<lparr>tsType := ts\<rparr>\<rparr>"
  let ?s1 = "s\<lparr>tcbs := (tcbs s)(t \<mapsto> ?T)\<rparr>"
  have run: "isRunnable ?T \<longleftrightarrow> ts = ThreadState_Running \<or> ts = ThreadState_Restart"
    by (auto simp: isRunnable_def split: tsType_t.splits)
  have pl: "tcbDomain T < numDomains s" "tcbPriority T < 256"
    using sched_okD(1) [OF ok] t by (auto simp: ready_queues_ok_def tcbs_ok_def)
  have ok1: "sched_ok ?s1 rq"
    by (rule sched_ok_update [OF ok t]) (use pl waiting idle run in auto)
  have "runnable ?s1 (ksSchedulerAction s)" if "ksSchedulerAction s \<noteq> 0" "ksSchedulerAction s \<noteq> 1"
    using act that waiting run by (auto simp: action_ok_def candidate_def runnable_def split: if_splits)
  then have act1: "action_ok ?s1" by (auto simp: action_ok_def)
  let ?s2 = "if t = ksCurThread s \<and> ksSchedulerAction s = 0 \<and> \<not> isRunnable ?T then set_action 1 ?s1 else ?s1"
  have "setThreadState t ts s = Some ?s2"
    using t by (simp add: setThreadState_def scheduleTCB_def kmonad)
  moreover have "sched_ok (if P then set_action a x else x) rq = sched_ok x rq" for P a x by simp
  then have "sched_ok ?s2 rq" using ok1 by (simp only:)
  moreover have "action_ok ?s2" using act1 by (simp add: action_ok_def set_action_def)
  moreover have "tcbs ?s2 = (tcbs s)(t \<mapsto> ?T)" "ksCurThread ?s2 = ksCurThread s" by (simp_all add: set_action_def)
  moreover have "candidate ?s2 = candidate s" by (simp add: candidate_def set_action_def)
  moreover have "t = ksCurThread s \<longrightarrow> ts \<noteq> ThreadState_Running \<longrightarrow> ts \<noteq> ThreadState_Restart \<longrightarrow>
      ksSchedulerAction ?s2 \<noteq> 0"
    using run by (simp add: set_action_def)
  ultimately show ?thesis by blast
qed

lemma reschedule_queues:
  assumes ok: "sched_ok s rq" and act: "action_ok s"
  shows "\<exists>s'. rescheduleRequired s = Some s' \<and> sched_ok s' (requeued s rq) \<and> action_ok s' \<and>
    ksSchedulerAction s' = SchedulerAction_ChooseNewThread \<and> rest s' = rest s \<and>
    ksCurThread s' = ksCurThread s \<and> ksDomainTime s' = ksDomainTime s \<and>
    ready rq \<subseteq> ready (requeued s rq) \<and> pool s' (requeued s rq) = pool s rq"
proof -
  from reschedule_exact [OF ok act] obtain s1 where s1: "rescheduleRequired s = Some s1"
    "sched_ok s1 (requeued s rq)" "rest s1 = rest s" "ksSchedulerAction s1 = 1" "ksCurThread s1 = ksCurThread s"
    "ksDomainTime s1 = ksDomainTime s" "ready (requeued s rq) = ready rq \<union> candidate s" by blast
  have "action_ok s1" "candidate s1 = {}" using s1(4) by (simp_all add: action_ok_def candidate_def)
  moreover from this have "pool s1 (requeued s rq) = pool s rq"
    using s1(5,7) rest_view(1) [OF s1(3)] by (auto simp: pool_def)
  ultimately show ?thesis using s1 by blast
qed

lemma reschedule_pool:
  assumes "sched_ok s rq" and "action_ok s"
  shows "\<exists>s' rq'. rescheduleRequired s = Some s' \<and> sched_ok s' rq' \<and> action_ok s' \<and>
    ksSchedulerAction s' = SchedulerAction_ChooseNewThread \<and> rest s' = rest s \<and>
    ksCurThread s' = ksCurThread s \<and> ready rq \<subseteq> ready rq' \<and> pool s' rq' = pool s rq"
  using reschedule_queues [OF assms] by blast

lemma requeued_cong:
  assumes "ksSchedulerAction s' = ksSchedulerAction s" and "\<And>t. sched_place s' t = sched_place s t"
  shows "requeued s' = requeued s" and "appended s' = appended s"
  using assms by (simp_all add: requeued_def enqueued_def appended_def fun_eq_iff)

lemma ready_requeued: "ready rq \<subseteq> ready (requeued s rq)"
  by (auto simp: ready_def requeued_def enqueued_def split: if_splits)

text \<open>A thread appended to its queue stays at the end of it.\<close>

lemma requeued_end:
  assumes "sched_place s t = Some (d, p)" and "t \<notin> set (rq d p)"
  shows "\<exists>ts. requeued s (appended s t rq) d p = ts @ [t]"
  using assms by (simp add: requeued_def enqueued_def appended_def)

text \<open>The two halves of a timer tick: the time slice of the current thread, and the domain.\<close>

lemma tick_slice:
  assumes ok: "sched_ok s rq" and act: "action_ok s" and cur: "tcbs s (ksCurThread s) = Some C"
    and run: "tsType (tcbState C) = ThreadState_Running"
  defines "rq' \<equiv> if tcbTimeSlice C > 1 then rq else requeued s (appended s (ksCurThread s) rq)"
  shows "\<exists>s'. (if tcbTimeSlice C > 1 then
        tcb_upd (ksCurThread s) (\<lambda>t. t\<lparr>tcbTimeSlice := tcbTimeSlice t - 1\<rparr>) s
      else do { s \<leftarrow> tcb_upd (ksCurThread s) (\<lambda>t. t\<lparr>tcbTimeSlice := CONFIG_TIME_SLICE\<rparr>) s;
                s \<leftarrow> tcbSchedAppend (ksCurThread s) s;
                rescheduleRequired s }) = Some s' \<and>
    sched_ok s' rq' \<and> action_ok s' \<and> ksCurThread s' = ksCurThread s \<and> numDomains s' = numDomains s \<and>
    ksDomainTime s' = ksDomainTime s \<and> (\<forall>t. sched_place s' t = sched_place s t) \<and> pool s' rq' = pool s rq \<and>
    (\<exists>C'. tcbs s' (ksCurThread s) = Some C' \<and>
       tcbTimeSlice C' = (if tcbTimeSlice C > 1 then tcbTimeSlice C - 1 else CONFIG_TIME_SLICE)) \<and>
    ksSchedulerAction s' =
      (if tcbTimeSlice C > 1 then ksSchedulerAction s else SchedulerAction_ChooseNewThread)"
proof -
  let ?c = "ksCurThread s"
  let ?sl = "if tcbTimeSlice C > 1 then tcbTimeSlice C - 1 else CONFIG_TIME_SLICE"
  let ?s1 = "s\<lparr>tcbs := (tcbs s)(?c \<mapsto> C\<lparr>tcbTimeSlice := ?sl\<rparr>)\<rparr>"
  have rC: "isRunnable C" using run by (simp add: isRunnable_def)
  then have rc: "runnable s ?c" using cur by (simp add: runnable_def)
  have pl: "tcbDomain C < numDomains s" "tcbPriority C < 256"
    using sched_okD(1) [OF ok] cur by (auto simp: ready_queues_ok_def tcbs_ok_def)
  have rC1: "isRunnable (C\<lparr>tcbTimeSlice := ?sl\<rparr>)" using rC by (simp add: isRunnable_def)
  have ok1: "sched_ok ?s1 rq"
    by (rule sched_ok_update [OF ok cur]) (use pl rC1 sched_okD(10) [OF ok] rc in auto)
  have v: "runnable ?s1 u = runnable s u" for u using cur rC rC1 by (simp add: runnable_def)
  have place1: "sched_place ?s1 u = sched_place s u" for u using cur by (simp add: sched_place_def)
  have act1: "action_ok ?s1" using act by (simp add: action_ok_def v)
  have p1: "pool ?s1 rq = pool s rq" by (simp add: pool_def v candidate_def)
  show ?thesis
  proof (cases "tcbTimeSlice C > 1")
    case True
    then have "tcb_upd ?c (\<lambda>t. t\<lparr>tcbTimeSlice := tcbTimeSlice t - 1\<rparr>) s = Some ?s1"
      using cur by (simp add: tcb_upd_def)
    with True ok1 act1 p1 place1 show ?thesis by (intro exI [of _ ?s1]) (simp add: rq'_def)
  next
    case False
    then have u: "tcb_upd ?c (\<lambda>t. t\<lparr>tcbTimeSlice := CONFIG_TIME_SLICE\<rparr>) s = Some ?s1"
      using cur by (simp add: tcb_upd_def)
    have r1: "runnable ?s1 ?c" using v rc by simp
    from enqueue_runs(2) [OF ok1 r1] obtain s2 where s2: "tcbSchedAppend ?c ?s1 = Some s2" by blast
    note e = sched_op_erased(2) [OF s2]
    have place2: "sched_place s2 u = sched_place s u" for u
      using rest_view(3) [OF rest_erased [OF e]] place1 by simp
    have c2: "candidate s2 = candidate s" "ksCurThread s2 = ?c" "ksSchedulerAction s2 = ksSchedulerAction s"
      using sched_erasedD(5,7) [OF e] by (simp_all add: candidate_def)
    have rq: "appended ?s1 ?c rq = appended s ?c rq" "requeued s2 = requeued s"
      using requeued_cong [of ?s1 s] requeued_cong [of s2 s] place1 place2 c2(3) by simp_all
    let ?rq2 = "appended s ?c rq"
    have ok2: "sched_ok s2 ?rq2" using enqueue_exact(2) [OF ok1 r1 s2] rq(1) by simp
    have v2: "runnable s2 u = runnable s u" for u using rest_view(1) [OF rest_erased [OF e]] v by simp
    have "action_ok s2" using act sched_erasedD(7) [OF e] by (simp add: action_ok_def v2)
    from reschedule_queues [OF ok2 this] obtain s3 where s3: "rescheduleRequired s2 = Some s3"
      "sched_ok s3 rq'" "action_ok s3" "ksSchedulerAction s3 = 1" "rest s3 = rest s2"
      "ksCurThread s3 = ksCurThread s2" "ksDomainTime s3 = ksDomainTime s2" "pool s3 rq' = pool s2 ?rq2"
      using False unfolding rq(2) rq'_def by auto
    have "pool s2 ?rq2 = pool s rq" using ready_enqueued(2) [OF rc, of rq] c2 v2 rc by (auto simp: pool_def)
    moreover have r: "rest s3 = rest ?s1" using s3(5) rest_erased [OF e] by simp
    moreover obtain C' where C': "tcbs s3 ?c = Some C'" "tcb_unqueued C' = tcb_unqueued (C\<lparr>tcbTimeSlice := ?sl\<rparr>)"
      by (rule rest_thread [OF r, of ?c]) auto
    moreover have "tcbTimeSlice C' = ?sl" using unqueued_view(4) [OF C'(2)] by simp
    moreover have "ksDomainTime s3 = ksDomainTime s" using s3(7) sched_erasedD(9) [OF e] by simp
    moreover have "sched_place s3 u = sched_place s u" for u using rest_view(3) [OF s3(5)] place2 by simp
    ultimately show ?thesis
      using False u s2 s3(1-4,6,8) c2(2) restD(8) [OF r] by (intro exI [of _ s3]) simp
  qed
qed

lemma sched_ok_domain_time: "sched_ok (s\<lparr>ksDomainTime := t\<rparr>) rq = sched_ok s rq"
  "action_ok (s\<lparr>ksDomainTime := t\<rparr>) = action_ok s" "pool (s\<lparr>ksDomainTime := t\<rparr>) rq = pool s rq"
proof -
  let ?s = "s\<lparr>ksDomainTime := t\<rparr>"
  have r: "rest ?s = rest s" by simp
  have "ready_queues_ok ?s rq = ready_queues_ok s rq" by (rule ready_queues_ok_cong) simp_all
  then show "sched_ok ?s rq = sched_ok s rq"
    by (simp add: sched_ok_def dom_sched_ok_def sched_env_rest [OF r] rest_view(1) [OF r] idle_thread_rest [OF r])
  show "action_ok ?s = action_ok s" "pool ?s rq = pool s rq"
    by (simp_all add: action_ok_def pool_def candidate_def rest_view(1) [OF r])
qed

lemma timerTick_ok:
  assumes ok: "sched_ok s rq" and act: "action_ok s" and cur: "tcbs s (ksCurThread s) = Some C"
  defines "expired \<equiv> tsType (tcbState C) = ThreadState_Running \<and> \<not> tcbTimeSlice C > 1"
    and "turn \<equiv> numDomains s > 1 \<and> ksDomainTime s - 1 = 0"
  defines "rq' \<equiv> if expired then requeued s (appended s (ksCurThread s) rq)
                 else if turn then requeued s rq else rq"
  shows "\<exists>s'. timerTick s = Some s' \<and> sched_ok s' rq' \<and> action_ok s' \<and> ksCurThread s' = ksCurThread s \<and>
    pool s' rq' = pool s rq \<and>
    (\<exists>C'. tcbs s' (ksCurThread s) = Some C' \<and> tcbTimeSlice C' =
       (if tsType (tcbState C) \<noteq> ThreadState_Running then tcbTimeSlice C
        else if tcbTimeSlice C > 1 then tcbTimeSlice C - 1 else CONFIG_TIME_SLICE)) \<and>
    ksSchedulerAction s' = (if expired \<or> turn then SchedulerAction_ChooseNewThread else ksSchedulerAction s) \<and>
    ksDomainTime s' = (if numDomains s > 1 then ksDomainTime s - 1 else ksDomainTime s)"
proof -
  let ?run = "tsType (tcbState C) = ThreadState_Running"
  let ?sl = "if \<not> ?run then tcbTimeSlice C else if tcbTimeSlice C > 1 then tcbTimeSlice C - 1 else CONFIG_TIME_SLICE"
  let ?rq1 = "if expired then requeued s (appended s (ksCurThread s) rq) else rq"
  define slice where "slice = (if ?run then (if tcbTimeSlice C > 1 then
        tcb_upd (ksCurThread s) (\<lambda>t. t\<lparr>tcbTimeSlice := tcbTimeSlice t - 1\<rparr>) s
      else do { s \<leftarrow> tcb_upd (ksCurThread s) (\<lambda>t. t\<lparr>tcbTimeSlice := CONFIG_TIME_SLICE\<rparr>) s;
                s \<leftarrow> tcbSchedAppend (ksCurThread s) s;
                rescheduleRequired s }) else Some s)"
  have "\<exists>s1. slice = Some s1 \<and> sched_ok s1 ?rq1 \<and> action_ok s1 \<and> ksCurThread s1 = ksCurThread s \<and>
      numDomains s1 = numDomains s \<and> ksDomainTime s1 = ksDomainTime s \<and>
      (\<forall>t. sched_place s1 t = sched_place s t) \<and> pool s1 ?rq1 = pool s rq \<and>
      (\<exists>C'. tcbs s1 (ksCurThread s) = Some C' \<and> tcbTimeSlice C' = ?sl) \<and>
      ksSchedulerAction s1 = (if expired then 1 else ksSchedulerAction s)"
  proof (cases ?run)
    case True
    then have "?rq1 = (if tcbTimeSlice C > 1 then rq else requeued s (appended s (ksCurThread s) rq))"
      "?sl = (if tcbTimeSlice C > 1 then tcbTimeSlice C - 1 else CONFIG_TIME_SLICE)"
      "(if expired then 1 else ksSchedulerAction s) = (if tcbTimeSlice C > 1 then ksSchedulerAction s else 1)"
      by (simp_all add: expired_def)
    with tick_slice [OF ok act cur True] show ?thesis unfolding slice_def if_P [OF True] by (simp only:)
  next
    case False
    then show ?thesis using ok act cur by (simp add: slice_def expired_def)
  qed
  then obtain s1 where s1: "slice = Some s1" "sched_ok s1 ?rq1" "action_ok s1" "ksCurThread s1 = ksCurThread s"
    "numDomains s1 = numDomains s" "ksDomainTime s1 = ksDomainTime s" "\<forall>t. sched_place s1 t = sched_place s t"
    "pool s1 ?rq1 = pool s rq" "\<exists>C'. tcbs s1 (ksCurThread s) = Some C' \<and> tcbTimeSlice C' = ?sl"
    "ksSchedulerAction s1 = (if expired then 1 else ksSchedulerAction s)" by blast
  let ?s2 = "s1\<lparr>ksDomainTime := ksDomainTime s - 1\<rparr>"
  have tick: "timerTick s = (if numDomains s > 1 then
      (if ksDomainTime s - 1 = 0 then rescheduleRequired ?s2 else Some ?s2) else Some s1)"
    using cur s1(1,5,6) by (simp add: timerTick_def slice_def Let_def)
  have ok2: "sched_ok ?s2 ?rq1" "action_ok ?s2" "pool ?s2 ?rq1 = pool s rq"
    using s1(2,3,8) by (simp_all add: sched_ok_domain_time)
  consider (one) "\<not> numDomains s > 1" | (expired) "turn" | (running) "numDomains s > 1" "\<not> turn"
    by (auto simp: turn_def)
  then show ?thesis
  proof cases
    case one
    then have "\<not> turn" by (simp add: turn_def)
    moreover from this have "rq' = ?rq1" by (simp add: rq'_def)
    moreover have "timerTick s = Some s1" using tick one by simp
    ultimately show ?thesis using s1 one by (intro exI [of _ s1]) simp
  next
    case expired
    have "sched_place ?s2 t = sched_place s t" for t using s1(7) by (simp add: sched_place_def)
    then have rq: "requeued ?s2 ?rq1 = rq'"
      using expired s1(10) by (simp add: rq'_def requeued_def enqueued_def)
    from reschedule_queues [OF ok2(1,2), unfolded rq] obtain s3 where s3: "rescheduleRequired ?s2 = Some s3"
      "sched_ok s3 rq'" "action_ok s3" "ksSchedulerAction s3 = 1" "rest s3 = rest ?s2"
      "ksCurThread s3 = ksCurThread ?s2" "ksDomainTime s3 = ksDomainTime ?s2" "pool s3 rq' = pool ?s2 ?rq1" by blast
    have "\<exists>C'. tcbs s3 (ksCurThread s) = Some C' \<and> tcbTimeSlice C' = ?sl"
    proof -
      from s1(9) obtain C' where C': "tcbs ?s2 (ksCurThread s) = Some C'" "tcbTimeSlice C' = ?sl" by auto
      obtain D where D: "tcbs s3 (ksCurThread s) = Some D" "tcb_unqueued D = tcb_unqueued C'"
        by (rule rest_thread [OF s3(5) C'(1)])
      have "tcbTimeSlice D = ?sl" using unqueued_view(4) [OF D(2)] C'(2) by (rule trans)
      with D(1) show ?thesis by blast
    qed
    moreover have "timerTick s = Some s3" using tick s3(1) expired by (simp add: turn_def)
    ultimately show ?thesis using s3 s1(4) ok2(3) expired
      by (intro exI [of _ s3]) (simp add: turn_def)
  next
    case running
    then have "timerTick s = Some ?s2" using tick by (simp add: turn_def)
    moreover have "rq' = ?rq1" using running by (simp add: rq'_def)
    ultimately show ?thesis using ok2 s1(4,9,10) running by (intro exI [of _ ?s2]) simp
  qed
qed

lemma activateThread_ok:
  assumes "runnable s (ksCurThread s) \<or> idle_thread s (ksCurThread s)"
  shows "\<exists>s'. activateThread s = Some s'"
proof -
  from assms obtain T where T: "tcbs s (ksCurThread s) = Some T"
    "tsType (tcbState T) = ThreadState_Running \<or> tsType (tcbState T) = ThreadState_Restart \<or>
     tsType (tcbState T) = ThreadState_IdleThreadState"
    by (auto simp: runnable_def isRunnable_iff idle_thread_def)
  then show ?thesis
    by (auto simp: activateThread_def Let_def getRestartPC_def setNextPC_def setThreadState_def scheduleTCB_def kmonad)
qed

lemma scheduled_runnable:
  assumes ok: "sched_ok s rq" and act: "action_ok s" and sch: "scheduled free X s (pool s rq) s' rq'"
  shows "ksCurThread s' = ksIdleThread s \<or> runnable s' (ksCurThread s')"
proof (cases "ksCurThread s' = ksIdleThread s")
  case False
  with sch have "ksCurThread s' \<in> pool s rq" by (auto simp: scheduled_def)
  from pool_runnable [OF ok act this] have "runnable s (ksCurThread s')" .
  moreover have "rest s' = rest s" using sch by (simp add: scheduled_def)
  ultimately show ?thesis using rest_view(1) by blast
qed simp


section \<open>Properties\<close>

text \<open>A state with two running threads, the idle thread and a one-entry domain schedule; the
  thread \<open>0x1400\<close> (priority 3) runs and \<open>0x2400\<close> (priority 100) waits in the action.\<close>

definition sched_state :: kstate where
  "sched_state = blank_state
     \<lparr>ctes := (\<lambda>_. Some \<lparr>cte_cap = cap_null_cap, cteMDBNode = nullMDBNode\<rparr>),
      tcbs := [0x1400 \<mapsto> blank_tcb\<lparr>tcbPriority := 3, tcbTimeSlice := 1,
                 tcbState := (tcbState blank_tcb)\<lparr>tsType := ThreadState_Running\<rparr>\<rparr>,
               0x2400 \<mapsto> blank_tcb\<lparr>tcbPriority := 100,
                 tcbState := (tcbState blank_tcb)\<lparr>tsType := ThreadState_Restart\<rparr>\<rparr>,
               0x3400 \<mapsto> blank_tcb\<lparr>tcbState := (tcbState blank_tcb)\<lparr>tsType := ThreadState_IdleThreadState\<rparr>\<rparr>],
      ksCurThread := 0x1400, ksIdleThread := 0x3400, ksSchedulerAction := 0x2400,
      ksDomSchedule := (\<lambda>_. 0)(0 := 5), ksDomainTime := 5, domScheduleLength := 2\<rparr>"

lemma sched_state_ok: "sched_ok sched_state (\<lambda>_ _. [])" "action_ok sched_state"
  "top sched_state (\<lambda>_ _. []) (ksCurThread sched_state)"
proof -
  have "dschedule_domain 5 = 0" "dschedule_duration 5 = 5"
    by (simp_all add: dschedule_domain_def dschedule_duration_def DSCHED_MAX_DURATION_def shiftr_def
        mask_eq_exp_minus_1)
  then show "sched_ok sched_state (\<lambda>_ _. [])"
    by (auto simp: sched_ok_def ready_queues_ok_def tcbs_ok_def sched_state_def blank_state_def blank_tcb_def
        blank_queue_def queue_of_def in_queue_def bitmap_ok_def sched_env_def vspaces_wf_def pt_live_def
        findMapForASID_def ready_def dom_sched_ok_def idle_thread_def split: if_splits)
  show "action_ok sched_state" "top sched_state (\<lambda>_ _. []) (ksCurThread sched_state)"
    by (simp_all add: action_ok_def sched_state_def runnable_def isRunnable_def blank_tcb_def top_def ready_def)
qed

lemma sched_state_sel: "ksSchedulerAction sched_state = 0x2400" "ksCurThread sched_state = 0x1400"
  "ksIdleThread sched_state = 0x3400" "numDomains sched_state = 1"
  by (simp_all add: sched_state_def blank_state_def)

lemma sched_state_threads:
  "tcbs sched_state 0x1400 = Some (blank_tcb\<lparr>tcbPriority := 3, tcbTimeSlice := 1,
     tcbState := (tcbState blank_tcb)\<lparr>tsType := ThreadState_Running\<rparr>\<rparr>)"
  by (simp add: sched_state_def)

lemma sched_state_pool: "pool sched_state (\<lambda>_ _. []) = {0x1400, 0x2400}"
  by (auto simp: pool_def ready_def candidate_def sched_state_sel runnable_def sched_state_threads
      isRunnable_def)



text \<open>C21: no thread is lost. Whatever the pending action is, every runnable thread that was ready,
  current or waiting in the action is afterwards ready or current, nothing else is, the new
  current thread is in no queue, and \<open>activateThread\<close> can resume it.\<close>

theorem schedule_conserves_threads:
  assumes "sched_ok s rq" and "action_ok s"
    and "ksSchedulerAction s \<noteq> SchedulerAction_ResumeCurrentThread"
  shows "\<exists>s' rq'. schedule s = Some s' \<and> ready_queues_ok s' rq' \<and>
    ready rq' \<union> ({ksCurThread s'} - {ksIdleThread s}) = pool s rq \<and> ksCurThread s' \<notin> ready rq' \<and>
    activateThread s' \<noteq> None"
proof -
  from schedule_ok [OF assms] obtain s' rq' free where s': "schedule s = Some s'"
    "scheduled free (candidate s) s (pool s rq) s' rq'" by blast
  have "rest s' = rest s" using s'(2) by (simp add: scheduled_def)
  then have "ksIdleThread s' = ksIdleThread s" by (rule restD(7))
  then have "activateThread s' \<noteq> None"
    using scheduled_runnable [OF assms(1,2) s'(2)] activateThread_ok [of s'] s'(2) sched_okD(11) [of s' rq']
    by (auto simp: scheduled_def)
  with s' sched_okD(1) [of s' rq'] show ?thesis unfolding scheduled_def by blast
qed

theorem schedule_conserves_threads_witness:
  "\<exists>s' rq'. schedule sched_state = Some s' \<and>
     ready rq' \<union> ({ksCurThread s'} - {0x3400}) = {0x1400, 0x2400} \<and> ksCurThread s' \<notin> ready rq'"
proof -
  have "ksSchedulerAction sched_state \<noteq> 0" by (simp add: sched_state_sel)
  from schedule_conserves_threads [OF sched_state_ok(1,2) this] show ?thesis
    unfolding sched_state_sel sched_state_pool by metis
qed

text \<open>The domain schedule never runs off its array. The index advances by one, or goes back to
  the starting entry at an end marker; the entry it reaches is in bounds and no end marker, and
  the new domain and its time are the ones of the entry.\<close>

theorem nextDomain_in_bounds:
  assumes "dom_sched_ok s"
  shows "\<exists>i d t. nextDomain s = Some (s\<lparr>ksDomScheduleIdx := i, ksWorkUnitsCompleted := 0, ksCurDomain := d,
      ksDomainTime := t\<rparr>) \<and>
    i < domScheduleLength s - 1 \<and> ksDomSchedule s i \<noteq> 0 \<and> d < numDomains s \<and> t \<noteq> 0 \<and>
    d = dschedule_domain (ksDomSchedule s i) \<and> t = dschedule_duration (ksDomSchedule s i) \<and>
    i = (if ksDomSchedule s (ksDomScheduleIdx s + 1) = 0 then ksDomScheduleStart s else ksDomScheduleIdx s + 1)"
  by (rule nextDomain_ok [OF assms])

theorem nextDomain_in_bounds_witness:
  "\<exists>s'. nextDomain sched_state = Some s' \<and> ksDomScheduleIdx s' = 0 \<and> ksDomainTime s' \<noteq> 0"
proof -
  have "dom_sched_ok sched_state" using sched_state_ok(1) by (simp add: sched_ok_def)
  from nextDomain_in_bounds [OF this] show ?thesis
    by (auto simp: sched_state_def blank_state_def)
qed

text \<open>C22: changing the priority of a thread. The thread has the new priority, no other thread's
  priority, domain or state changes, the queues are consistent again, and a runnable thread is
  afterwards ready, current or waiting in the action, even if it was in none of them.\<close>

theorem setPriority_requeues:
  assumes "sched_ok s rq" and "action_ok s" and "tcbs s t = Some T" and "prio < 256"
  shows "\<exists>s' rq'. setPriority t prio s = Some s' \<and> sched_ok s' rq' \<and> action_ok s' \<and>
    thread_prio s' t = prio \<and> (\<forall>u. u \<noteq> t \<longrightarrow> sched_place s' u = sched_place s u) \<and>
    (\<forall>u. runnable s' u = runnable s u) \<and>
    pool s' rq' = pool s rq \<union> (if isRunnable T then {t} else {})"
  by (rule setPriority_ok [OF assms])

theorem setPriority_requeues_witness:
  "\<exists>s'. setPriority 0x1400 7 sched_state = Some s' \<and> thread_prio s' 0x1400 = 7"
  using setPriority_requeues [OF sched_state_ok(1,2) sched_state_threads, of 7] by auto

text \<open>Moving a thread to another domain, with the same guarantees.\<close>

theorem setDomain_requeues:
  assumes "sched_ok s rq" and "action_ok s" and "tcbs s t = Some T" and "dm < numDomains s"
  shows "\<exists>s' rq'. setDomain t dm s = Some s' \<and> sched_ok s' rq' \<and> action_ok s' \<and>
    sched_place s' t = Some (dm, tcbPriority T) \<and> (\<forall>u. u \<noteq> t \<longrightarrow> sched_place s' u = sched_place s u) \<and>
    (\<forall>u. runnable s' u = runnable s u) \<and> pool s' rq' = pool s rq \<union> (if isRunnable T then {t} else {})"
  by (rule setDomain_ok [OF assms])

theorem setDomain_requeues_witness:
  "\<exists>s'. setDomain 0x1400 0 sched_state = Some s' \<and> sched_place s' 0x1400 = Some (0, 3)"
proof -
  have "(0 :: word_t) < numDomains sched_state" by (simp add: sched_state_sel)
  from setDomain_requeues [OF sched_state_ok(1,2) sched_state_threads this] show ?thesis by auto
qed

text \<open>C23: a timer tick takes one unit from the time slice of the running thread. When it was the
  last one, the slice is refilled, the thread goes to the end of its queue, where it stays when the
  thread waiting in the action is put in front of its own queue, and a new choice is forced. With more than one domain, the time
  of the domain goes down as well, and a new choice is forced when it is used up. Otherwise neither the queues
  nor the action change. No thread is lost and the invariant is kept.\<close>

theorem timerTick_preempts:
  assumes "sched_ok s rq" and "action_ok s" and "tcbs s (ksCurThread s) = Some C"
    and "expired \<longleftrightarrow> tsType (tcbState C) = ThreadState_Running \<and> \<not> tcbTimeSlice C > 1"
    and "turn \<longleftrightarrow> numDomains s > 1 \<and> ksDomainTime s - 1 = 0"
  shows "\<exists>s' rq'. timerTick s = Some s' \<and> sched_ok s' rq' \<and> action_ok s' \<and> ksCurThread s' = ksCurThread s \<and>
    pool s' rq' = pool s rq \<and>
    (\<exists>C'. tcbs s' (ksCurThread s) = Some C' \<and> tcbTimeSlice C' =
       (if tsType (tcbState C) \<noteq> ThreadState_Running then tcbTimeSlice C
        else if tcbTimeSlice C > 1 then tcbTimeSlice C - 1 else CONFIG_TIME_SLICE)) \<and>
    ksDomainTime s' = (if numDomains s > 1 then ksDomainTime s - 1 else ksDomainTime s) \<and>
    ksSchedulerAction s' = (if expired \<or> turn then SchedulerAction_ChooseNewThread else ksSchedulerAction s) \<and>
    rq' = (if expired then requeued s (appended s (ksCurThread s) rq) else if turn then requeued s rq else rq) \<and>
    (expired \<longrightarrow> ksCurThread s \<in> ready rq') \<and>
    (expired \<and> ksCurThread s \<notin> ready rq \<longrightarrow>
       (\<exists>ts. rq' (tcbDomain C) (tcbPriority C) = ts @ [ksCurThread s]))"
proof -
  let ?rq = "if expired then requeued s (appended s (ksCurThread s) rq) else if turn then requeued s rq else rq"
  have "sched_place s (ksCurThread s) = Some (tcbDomain C, tcbPriority C)"
    using assms(3) by (simp add: sched_place_def)
  from requeued_end [OF this] have "\<exists>ts. ?rq (tcbDomain C) (tcbPriority C) = ts @ [ksCurThread s]"
    if "expired" "ksCurThread s \<notin> ready rq" using that by (auto simp: ready_def)
  moreover have "ksCurThread s \<in> ready ?rq" if "expired"
    using that assms(3,4) ready_requeued [of "appended s (ksCurThread s) rq" s]
      ready_enqueued(2) [of s "ksCurThread s" rq] by (auto simp: runnable_def isRunnable_def)
  ultimately show ?thesis using timerTick_ok [OF assms(1-3)] unfolding assms(4,5) by blast
qed

text \<open>The slice of the example thread is used up: it is the last of its queue, and the waiting
  thread is in its own.\<close>

theorem timerTick_preempts_witness:
  "\<exists>s' rq'. timerTick sched_state = Some s' \<and> ksSchedulerAction s' = SchedulerAction_ChooseNewThread \<and>
     (\<exists>ts. rq' 0 3 = ts @ [0x1400]) \<and> sched_ok s' rq'"
proof -
  have c: "ksCurThread sched_state = 0x1400" by (simp add: sched_state_sel)
  note h = timerTick_preempts [OF sched_state_ok(1,2), unfolded c, OF sched_state_threads, of True False]
  have "ready (\<lambda>_ _. []) = {}" by (simp add: ready_def)
  then show ?thesis using h by (fastforce simp: sched_state_sel blank_tcb_def)
qed

end
