(* ===== verification/IPC_Queues.thy ===== *)
theory IPC_Queues
  imports Scheduler MDB
begin

text \<open>
  Threads that wait: the queues of endpoints and notifications (\<^verbatim>\<open>tcbEPAppend\<close> and
  \<^verbatim>\<open>tcbEPDequeue\<close> of \<^verbatim>\<open>src/object/tcb.c\<close>), signals (\<^verbatim>\<open>src/object/notification.c\<close>), the
  cancellation of waiting (\<^verbatim>\<open>src/object/endpoint.c\<close>) and the immediate deletion of a capability
  that it needs (\<^verbatim>\<open>cteDeleteOne\<close> of \<^verbatim>\<open>src/object/cnode.c\<close>).
\<close>

section \<open>Queues of waiting threads\<close>

definition tcbEPAppend :: "ptr \<Rightarrow> tcb_queue_t \<Rightarrow> kstate \<Rightarrow> (tcb_queue_t \<times> kstate) option" where
  "tcbEPAppend tcb queue s =
     do { (queue', s) \<leftarrow> (if qhead queue = NULL then Some (queue\<lparr>qhead := tcb\<rparr>, s)
                          else do { s \<leftarrow> tcb_upd (qend queue) (\<lambda>t. t\<lparr>tcbEPNext := tcb\<rparr>) s;
                                    Some (queue, s) });
          s \<leftarrow> tcb_upd tcb (\<lambda>t. t\<lparr>tcbEPPrev := qend queue'\<rparr>) s;
          s \<leftarrow> tcb_upd tcb (\<lambda>t. t\<lparr>tcbEPNext := NULL\<rparr>) s;
          Some (queue'\<lparr>qend := tcb\<rparr>, s) }"

definition tcbEPDequeue :: "ptr \<Rightarrow> tcb_queue_t \<Rightarrow> kstate \<Rightarrow> (tcb_queue_t \<times> kstate) option" where
  "tcbEPDequeue tcb queue s =
     do { t \<leftarrow> tcbs s tcb;
          (queue, s) \<leftarrow> (if tcbEPPrev t \<noteq> NULL then
                           do { s \<leftarrow> tcb_upd (tcbEPPrev t) (\<lambda>p. p\<lparr>tcbEPNext := tcbEPNext t\<rparr>) s;
                                Some (queue, s) }
                         else Some (queue\<lparr>qhead := tcbEPNext t\<rparr>, s));
          t \<leftarrow> tcbs s tcb;
          if tcbEPNext t \<noteq> NULL then
            do { s \<leftarrow> tcb_upd (tcbEPNext t) (\<lambda>n. n\<lparr>tcbEPPrev := tcbEPPrev t\<rparr>) s;
                 Some (queue, s) }
          else Some (queue\<lparr>qend := tcbEPPrev t\<rparr>, s) }"

definition ep_ptr_get_queue :: "ptr \<Rightarrow> kstate \<Rightarrow> tcb_queue_t option" where
  "ep_ptr_get_queue epptr s =
     do { e \<leftarrow> eps s epptr; Some \<lparr>qhead = epQueue_head e, qend = epQueue_tail e\<rparr> }"

definition ep_ptr_set_queue :: "ptr \<Rightarrow> tcb_queue_t \<Rightarrow> kstate \<Rightarrow> kstate option" where
  "ep_ptr_set_queue epptr queue =
     ep_upd epptr (\<lambda>e. e\<lparr>epQueue_head := qhead queue, epQueue_tail := qend queue\<rparr>)"

definition endpoint_ptr_set_state :: "ptr \<Rightarrow> endpoint_state \<Rightarrow> kstate \<Rightarrow> kstate option" where
  "endpoint_ptr_set_state epptr st = ep_upd epptr (\<lambda>e. e\<lparr>ep_state := st\<rparr>)"

definition ntfn_ptr_get_queue :: "ptr \<Rightarrow> kstate \<Rightarrow> tcb_queue_t option" where
  "ntfn_ptr_get_queue ntfnPtr s =
     do { n \<leftarrow> ntfns s ntfnPtr; Some \<lparr>qhead = ntfnQueue_head n, qend = ntfnQueue_tail n\<rparr> }"

definition ntfn_ptr_set_queue :: "ptr \<Rightarrow> tcb_queue_t \<Rightarrow> kstate \<Rightarrow> kstate option" where
  "ntfn_ptr_set_queue ntfnPtr queue =
     ntfn_upd ntfnPtr (\<lambda>n. n\<lparr>ntfnQueue_head := qhead queue, ntfnQueue_tail := qend queue\<rparr>)"

definition notification_ptr_set_state :: "ptr \<Rightarrow> notification_state \<Rightarrow> kstate \<Rightarrow> kstate option" where
  "notification_ptr_set_state ntfnPtr st = ntfn_upd ntfnPtr (\<lambda>n. n\<lparr>ntfn_state := st\<rparr>)"

definition ntfn_set_active :: "ptr \<Rightarrow> word_t \<Rightarrow> kstate \<Rightarrow> kstate option" where
  "ntfn_set_active ntfnPtr badge s =
     do { s \<leftarrow> notification_ptr_set_state ntfnPtr NtfnState_Active s;
          ntfn_upd ntfnPtr (\<lambda>n. n\<lparr>ntfnMsgIdentifier := badge\<rparr>) s }"

section \<open>Binding a notification to a thread\<close>

definition doUnbindNotification :: "ptr \<Rightarrow> ptr \<Rightarrow> kstate \<Rightarrow> kstate option" where
  "doUnbindNotification ntfnPtr tcbptr s =
     do { s \<leftarrow> ntfn_upd ntfnPtr (\<lambda>n. n\<lparr>ntfnBoundTCB := NULL\<rparr>) s;
          tcb_upd tcbptr (\<lambda>t. t\<lparr>tcbBoundNotification := NULL\<rparr>) s }"

definition unbindMaybeNotification :: "ptr \<Rightarrow> kstate \<Rightarrow> kstate option" where
  "unbindMaybeNotification ntfnPtr s =
     do { n \<leftarrow> ntfns s ntfnPtr;
          if ntfnBoundTCB n \<noteq> NULL then doUnbindNotification ntfnPtr (ntfnBoundTCB n) s else Some s }"

definition unbindNotification :: "ptr \<Rightarrow> kstate \<Rightarrow> kstate option" where
  "unbindNotification tcb s =
     do { t \<leftarrow> tcbs s tcb;
          if tcbBoundNotification t \<noteq> NULL then doUnbindNotification (tcbBoundNotification t) tcb s
          else Some s }"

definition bindNotification :: "ptr \<Rightarrow> ptr \<Rightarrow> kstate \<Rightarrow> kstate option" where
  "bindNotification tcb ntfnPtr s =
     do { s \<leftarrow> ntfn_upd ntfnPtr (\<lambda>n. n\<lparr>ntfnBoundTCB := tcb\<rparr>) s;
          tcb_upd tcb (\<lambda>t. t\<lparr>tcbBoundNotification := ntfnPtr\<rparr>) s }"

section \<open>Cancelling\<close>

definition cancelSignal :: "ptr \<Rightarrow> ptr \<Rightarrow> kstate \<Rightarrow> kstate option" where
  "cancelSignal threadPtr ntfnPtr s =
     do { n \<leftarrow> ntfns s ntfnPtr;
          assert_opt (ntfn_state n = NtfnState_Waiting);
          queue \<leftarrow> ntfn_ptr_get_queue ntfnPtr s;
          (queue, s) \<leftarrow> tcbEPDequeue threadPtr queue s;
          s \<leftarrow> ntfn_ptr_set_queue ntfnPtr queue s;
          s \<leftarrow> (if qhead queue = NULL then notification_ptr_set_state ntfnPtr NtfnState_Idle s else Some s);
          setThreadState threadPtr ThreadState_Inactive s }"

text \<open>The loop of \<open>cancelAllIPC\<close> and \<open>cancelAllSignals\<close> over the queue that was cut off the
  object. It follows the links of the threads; on a circular list it would not end (\<open>None\<close>).\<close>

partial_function (option) restart_queue :: "ptr \<Rightarrow> kstate \<Rightarrow> kstate option" where
  "restart_queue thread s =
     (if thread = NULL then Some s
      else do { s \<leftarrow> setThreadState thread ThreadState_Restart s;
                s \<leftarrow> tcbSchedEnqueue thread s;
                t \<leftarrow> tcbs s thread;
                restart_queue (tcbEPNext t) s })"

definition cancelAllIPC :: "ptr \<Rightarrow> kstate \<Rightarrow> kstate option" where
  "cancelAllIPC epptr s =
     do { e \<leftarrow> eps s epptr;
          case ep_state e of
            EPState_Idle \<Rightarrow> Some s
          | _ \<Rightarrow>
              do { let thread = epQueue_head e;
                   s \<leftarrow> endpoint_ptr_set_state epptr EPState_Idle s;
                   s \<leftarrow> ep_upd epptr (\<lambda>e. e\<lparr>epQueue_head := NULL\<rparr>) s;
                   s \<leftarrow> ep_upd epptr (\<lambda>e. e\<lparr>epQueue_tail := NULL\<rparr>) s;
                   s \<leftarrow> restart_queue thread s;
                   rescheduleRequired s } }"

definition cancelAllSignals :: "ptr \<Rightarrow> kstate \<Rightarrow> kstate option" where
  "cancelAllSignals ntfnPtr s =
     do { n \<leftarrow> ntfns s ntfnPtr;
          if ntfn_state n = NtfnState_Waiting then
            do { let thread = ntfnQueue_head n;
                 s \<leftarrow> notification_ptr_set_state ntfnPtr NtfnState_Idle s;
                 s \<leftarrow> ntfn_upd ntfnPtr (\<lambda>n. n\<lparr>ntfnQueue_head := NULL\<rparr>) s;
                 s \<leftarrow> ntfn_upd ntfnPtr (\<lambda>n. n\<lparr>ntfnQueue_tail := NULL\<rparr>) s;
                 s \<leftarrow> restart_queue thread s;
                 rescheduleRequired s }
          else Some s }"

partial_function (option) cancelBadgedSends_loop ::
    "ptr \<Rightarrow> word_t \<Rightarrow> tcb_queue_t \<Rightarrow> kstate \<Rightarrow> (tcb_queue_t \<times> kstate) option" where
  "cancelBadgedSends_loop thread badge queue s =
     (if thread = NULL then Some (queue, s)
      else do { t \<leftarrow> tcbs s thread;
                let b = blockingIPCBadge (tcbState t);
                let nextp = tcbEPNext t;
                if b = badge then
                  do { s \<leftarrow> setThreadState thread ThreadState_Restart s;
                       s \<leftarrow> tcbSchedEnqueue thread s;
                       (queue, s) \<leftarrow> tcbEPDequeue thread queue s;
                       cancelBadgedSends_loop nextp badge queue s }
                else cancelBadgedSends_loop nextp badge queue s })"

definition cancelBadgedSends :: "ptr \<Rightarrow> word_t \<Rightarrow> kstate \<Rightarrow> kstate option" where
  "cancelBadgedSends epptr badge s =
     do { e \<leftarrow> eps s epptr;
          case ep_state e of
            EPState_Idle \<Rightarrow> Some s
          | EPState_Recv \<Rightarrow> Some s
          | EPState_Send \<Rightarrow>
              do { queue \<leftarrow> ep_ptr_get_queue epptr s;
                   s \<leftarrow> endpoint_ptr_set_state epptr EPState_Idle s;
                   s \<leftarrow> ep_upd epptr (\<lambda>e. e\<lparr>epQueue_head := NULL\<rparr>) s;
                   s \<leftarrow> ep_upd epptr (\<lambda>e. e\<lparr>epQueue_tail := NULL\<rparr>) s;
                   (queue, s) \<leftarrow> cancelBadgedSends_loop (qhead queue) badge queue s;
                   s \<leftarrow> ep_ptr_set_queue epptr queue s;
                   s \<leftarrow> (if qhead queue \<noteq> NULL then endpoint_ptr_set_state epptr EPState_Send s else Some s);
                   rescheduleRequired s } }"

section \<open>Immediate deletion of a capability\<close>

text \<open>\<open>Arch_finaliseCap\<close>, and \<open>finaliseCap\<close> with \<open>exposed\<close> set: what remains of the capability and
  the capability to clean up after. The general \<open>finaliseCap\<close> is in \<open>Deletion\<close>.\<close>

definition Arch_finaliseCap :: "cap_t \<Rightarrow> bool \<Rightarrow> kstate \<Rightarrow> ((cap_t \<times> cap_t) \<times> kstate) option" where
  "Arch_finaliseCap c final s =
     do { s \<leftarrow> (case c of
            cap_asid_pool_cap base pl \<Rightarrow> if final then deleteASIDPool base pl s else Some s
          | cap_vspace_cap asid base mapped \<Rightarrow> if final \<and> mapped then deleteASID asid base s else Some s
          | cap_page_table_cap asid base mapped addr \<Rightarrow>
              if final \<and> mapped then unmapPageTable asid addr base s else Some s
          | cap_frame_cap asid base sz addr _ _ \<Rightarrow>
              if asid \<noteq> 0 then unmapPage sz asid addr base s else Some s
          | _ \<Rightarrow> Some s);
          Some ((cap_null_cap, cap_null_cap), s) }"

definition finaliseCap_exposed :: "cap_t \<Rightarrow> bool \<Rightarrow> kstate \<Rightarrow> ((cap_t \<times> cap_t) \<times> kstate) option" where
  "finaliseCap_exposed c final s =
     (if isArchCap c then Arch_finaliseCap c final s
      else
        do { s \<leftarrow> (case c of
               cap_endpoint_cap _ _ _ _ _ epptr \<Rightarrow> if final then cancelAllIPC epptr s else Some s
             | cap_notification_cap _ _ _ ntfn \<Rightarrow>
                 if final then do { s \<leftarrow> unbindMaybeNotification ntfn s; cancelAllSignals ntfn s }
                 else Some s
             | cap_reply_cap _ _ _ \<Rightarrow> Some s
             | cap_null_cap \<Rightarrow> Some s
             | cap_domain_cap \<Rightarrow> Some s
             | _ \<Rightarrow> None);
             Some ((cap_null_cap, cap_null_cap), s) })"

definition capRemovable :: "cap_t \<Rightarrow> ptr \<Rightarrow> bool option" where
  "capRemovable c slot =
     (case c of
        cap_null_cap \<Rightarrow> Some True
      | cap_zombie_cap _ _ \<Rightarrow>
          (let n = cap_zombie_cap_get_capZombieNumber c; z_slot = cap_zombie_cap_get_capZombiePtr c in
           Some (n = 0 \<or> n = 1 \<and> slot = z_slot))
      | _ \<Rightarrow> None)"

definition cteDeleteOne :: "ptr \<Rightarrow> kstate \<Rightarrow> kstate option" where
  "cteDeleteOne slot s =
     do { cte \<leftarrow> ctes s slot;
          if cte_cap cte \<noteq> cap_null_cap then
            do { final \<leftarrow> isFinalCapability slot s;
                 ((remainder, cleanupInfo), s) \<leftarrow> finaliseCap_exposed (cte_cap cte) final s;
                 removable \<leftarrow> capRemovable remainder slot;
                 assert_opt (removable \<and> cleanupInfo = cap_null_cap);
                 emptySlot slot cap_null_cap s }
          else Some s }"

definition deletingIRQHandler :: "word_t \<Rightarrow> kstate \<Rightarrow> kstate option" where
  "deletingIRQHandler irq s = cteDeleteOne (cte_index (intStateIRQNode s) irq) s"

section \<open>Cancelling the wait of a thread\<close>

definition cancelIPC :: "ptr \<Rightarrow> kstate \<Rightarrow> kstate option" where
  "cancelIPC tptr s =
     do { t \<leftarrow> tcbs s tptr;
          let state = tcbState t;
          if tsType state = ThreadState_BlockedOnSend \<or> tsType state = ThreadState_BlockedOnReceive then
            do { let epptr = blockingObject state;
                 e \<leftarrow> eps s epptr;
                 assert_opt (ep_state e \<noteq> EPState_Idle);
                 queue \<leftarrow> ep_ptr_get_queue epptr s;
                 (queue, s) \<leftarrow> tcbEPDequeue tptr queue s;
                 s \<leftarrow> ep_ptr_set_queue epptr queue s;
                 s \<leftarrow> (if qhead queue = NULL then endpoint_ptr_set_state epptr EPState_Idle s else Some s);
                 setThreadState tptr ThreadState_Inactive s }
          else if tsType state = ThreadState_BlockedOnNotification then
            cancelSignal tptr (blockingObject state) s
          else if tsType state = ThreadState_BlockedOnReply then
            do { s \<leftarrow> tcb_upd tptr (\<lambda>t. t\<lparr>tcbFault := seL4_Fault_NullFault\<rparr>) s;
                 slot \<leftarrow> ctes s (TCB_PTR_CTE_PTR tptr tcbReply);
                 let callerCap = mdbNext (cteMDBNode slot);
                 if callerCap \<noteq> NULL then cteDeleteOne callerCap s else Some s }
          else Some s }"

section \<open>Signals\<close>

definition doNBRecvFailedTransfer :: "ptr \<Rightarrow> kstate \<Rightarrow> kstate option" where
  "doNBRecvFailedTransfer thread s = setRegister thread badgeRegister 0 s"

definition sendSignal :: "ptr \<Rightarrow> word_t \<Rightarrow> kstate \<Rightarrow> kstate option" where
  "sendSignal ntfnPtr badge s =
     do { n \<leftarrow> ntfns s ntfnPtr;
          case ntfn_state n of
            NtfnState_Idle \<Rightarrow>
              (let tcb = ntfnBoundTCB n in
               if tcb \<noteq> NULL then
                 do { t \<leftarrow> tcbs s tcb;
                      if tsType (tcbState t) = ThreadState_BlockedOnReceive then
                        do { s \<leftarrow> cancelIPC tcb s;
                             s \<leftarrow> setThreadState tcb ThreadState_Running s;
                             s \<leftarrow> setRegister tcb badgeRegister badge s;
                             possibleSwitchTo tcb s }
                      else ntfn_set_active ntfnPtr badge s }
               else ntfn_set_active ntfnPtr badge s)
          | NtfnState_Waiting \<Rightarrow>
              do { queue \<leftarrow> ntfn_ptr_get_queue ntfnPtr s;
                   let dest = qhead queue;
                   assert_opt (dest \<noteq> NULL);
                   (queue, s) \<leftarrow> tcbEPDequeue dest queue s;
                   s \<leftarrow> ntfn_ptr_set_queue ntfnPtr queue s;
                   s \<leftarrow> (if qhead queue = NULL then notification_ptr_set_state ntfnPtr NtfnState_Idle s
                         else Some s);
                   s \<leftarrow> setThreadState dest ThreadState_Running s;
                   s \<leftarrow> setRegister dest badgeRegister badge s;
                   possibleSwitchTo dest s }
          | NtfnState_Active \<Rightarrow>
              ntfn_upd ntfnPtr (\<lambda>n. n\<lparr>ntfnMsgIdentifier := ntfnMsgIdentifier n OR badge\<rparr>) s }"

definition receiveSignal :: "ptr \<Rightarrow> cap_t \<Rightarrow> bool \<Rightarrow> kstate \<Rightarrow> kstate option" where
  "receiveSignal thread c isBlocking s =
     do { let ntfnPtr = capNtfnPtr c;
          n \<leftarrow> ntfns s ntfnPtr;
          if ntfn_state n = NtfnState_Active then
            do { s \<leftarrow> setRegister thread badgeRegister (ntfnMsgIdentifier n) s;
                 notification_ptr_set_state ntfnPtr NtfnState_Idle s }
          else if isBlocking then
            do { s \<leftarrow> ts_upd thread (\<lambda>ts. ts\<lparr>tsType := ThreadState_BlockedOnNotification\<rparr>) s;
                 s \<leftarrow> ts_upd thread (\<lambda>ts. ts\<lparr>blockingObject := ntfnPtr\<rparr>) s;
                 s \<leftarrow> scheduleTCB thread s;
                 queue \<leftarrow> ntfn_ptr_get_queue ntfnPtr s;
                 (queue, s) \<leftarrow> tcbEPAppend thread queue s;
                 s \<leftarrow> notification_ptr_set_state ntfnPtr NtfnState_Waiting s;
                 ntfn_ptr_set_queue ntfnPtr queue s }
          else doNBRecvFailedTransfer thread s }"

definition completeSignal :: "ptr \<Rightarrow> ptr \<Rightarrow> kstate \<Rightarrow> kstate option" where
  "completeSignal ntfnPtr tcb s =
     do { n \<leftarrow> ntfns s ntfnPtr;
          assert_opt (tcb \<noteq> NULL \<and> ntfn_state n = NtfnState_Active);
          s \<leftarrow> setRegister tcb badgeRegister (ntfnMsgIdentifier n) s;
          notification_ptr_set_state ntfnPtr NtfnState_Idle s }"

end
