(* ===== verification/Wait_Queues.thy ===== *)
theory Wait_Queues
  imports IPC_Queues
begin

text \<open>
  The invariant of waiting: the queue of every endpoint and notification is a doubly linked list
  of exactly the threads whose state says that they wait there, and the state of the object says
  how they wait. The operations on queues refine list operations, and signalling and cancelling
  keep the invariant together with that of the scheduler.
\<close>

section \<open>Queue operations refine list operations\<close>

definition ep_unlinked :: "tcb_t \<Rightarrow> tcb_t" where
  "ep_unlinked T = T\<lparr>tcbEPNext := NULL, tcbEPPrev := NULL\<rparr>"

definition ep_relinked :: "ptr set \<Rightarrow> (ptr \<Rightarrow> tcb_t option) \<Rightarrow> (ptr \<Rightarrow> tcb_t option) \<Rightarrow> bool" where
  "ep_relinked X ts ts' \<longleftrightarrow>
     (\<forall>x. x \<notin> X \<longrightarrow> ts' x = ts x) \<and> (\<forall>x. map_option ep_unlinked (ts' x) = map_option ep_unlinked (ts x))"

lemma ep_unlinked_upd [simp]:
  "ep_unlinked (T\<lparr>tcbEPNext := a\<rparr>) = ep_unlinked T" "ep_unlinked (T\<lparr>tcbEPPrev := a\<rparr>) = ep_unlinked T"
  by (simp_all add: ep_unlinked_def)

lemma ep_relinked_refl [simp]: "ep_relinked X ts ts"
  by (simp add: ep_relinked_def)

abbreviation next_of :: "(ptr \<Rightarrow> tcb_t option) \<Rightarrow> ptr \<Rightarrow> ptr" where
  "next_of \<equiv> link_of (\<lambda>ts. ts) tcbEPNext"

abbreviation prev_of :: "(ptr \<Rightarrow> tcb_t option) \<Rightarrow> ptr \<Rightarrow> ptr" where
  "prev_of \<equiv> link_of (\<lambda>ts. ts) tcbEPPrev"

lemma ep_links_tcbs: "ep_next s = next_of (tcbs s)" "ep_prev s = prev_of (tcbs s)"
  by (simp_all add: link_of_def fun_eq_iff)

lemma link_of_upd [simp]:
  "link_of (\<lambda>ts. ts) f (ts(x \<mapsto> T)) p = (if p = x then f T else link_of (\<lambda>ts. ts) f ts p)"
  by (simp add: link_of_def)

text \<open>A thread is appended.\<close>

lemma tcbEPAppend_ok:
  assumes d: "dlist (next_of (tcbs s)) (prev_of (tcbs s)) xs" and t: "t \<notin> set xs" "t \<noteq> NULL"
    and live: "\<And>x. x \<in> insert t (set xs) \<Longrightarrow> tcbs s x \<noteq> None"
  shows "\<exists>ts. tcbEPAppend t (queue_of xs) s = Some (queue_of (xs @ [t]), s\<lparr>tcbs := ts\<rparr>) \<and>
    dlist (next_of ts) (prev_of ts) (xs @ [t]) \<and> ep_relinked (insert t (set xs)) (tcbs s) ts"
proof -
  from live obtain T where T: "tcbs s t = Some T" by fastforce
  show ?thesis
  proof (cases "xs = []")
    case True
    let ?ts = "(tcbs s)(t \<mapsto> T\<lparr>tcbEPPrev := NULL, tcbEPNext := NULL\<rparr>)"
    have "tcbEPAppend t (queue_of xs) s = Some (\<lparr>qhead = t, qend = t\<rparr>, s\<lparr>tcbs := ?ts\<rparr>)"
      using True T by (simp add: tcbEPAppend_def queue_of_def kmonad)
    moreover have "dlist (next_of ?ts) (prev_of ?ts) [t]" using t by (simp add: dlist_def)
    moreover have "ep_relinked (insert t (set xs)) (tcbs s) ?ts"
      using T by (simp add: ep_relinked_def)
    ultimately show ?thesis using True by (intro exI [of _ ?ts]) (simp add: queue_of_def)
  next
    case False
    let ?l = "last_or NULL xs"
    from False have l: "?l \<in> set xs" by (rule last_or_in)
    with live obtain L where L: "tcbs s ?l = Some L" by fastforce
    from l t have lt: "?l \<noteq> t" by auto
    from False have h: "first_or NULL xs \<noteq> NULL"
      using first_or_in [OF False, of NULL] d by (auto simp: dlist_def)
    let ?ts = "(tcbs s)(?l \<mapsto> L\<lparr>tcbEPNext := t\<rparr>, t \<mapsto> T\<lparr>tcbEPPrev := ?l, tcbEPNext := NULL\<rparr>)"
    have "tcbEPAppend t (queue_of xs) s = Some (\<lparr>qhead = first_or NULL xs, qend = t\<rparr>, s\<lparr>tcbs := ?ts\<rparr>)"
      using h T L lt by (simp add: tcbEPAppend_def queue_of_def kmonad)
    moreover have "dlist (next_of ?ts) (prev_of ?ts) (xs @ [t])"
      by (rule dlist_append_last [OF d t]) (use lt L in auto)
    moreover have "ep_relinked (insert t (set xs)) (tcbs s) ?ts"
      using l lt T L by (auto simp: ep_relinked_def)
    moreover have "first_or NULL (xs @ [t]) = first_or NULL xs" using False by (cases xs) auto
    ultimately show ?thesis by (intro exI [of _ ?ts]) (simp add: queue_of_def)
  qed
qed

text \<open>A thread is taken out, wherever it is. Its own links are left as they are.\<close>

lemma tcbEPDequeue_ok:
  assumes d: "dlist (next_of (tcbs s)) (prev_of (tcbs s)) xs" and t: "t \<in> set xs"
    and live: "\<And>x. x \<in> set xs \<Longrightarrow> tcbs s x \<noteq> None"
  shows "\<exists>ts. tcbEPDequeue t (queue_of xs) s = Some (queue_of (remove1 t xs), s\<lparr>tcbs := ts\<rparr>) \<and>
    dlist (next_of ts) (prev_of ts) (remove1 t xs) \<and> ep_relinked (set xs) (tcbs s) ts \<and> ts t = tcbs s t"
proof -
  from t obtain ys zs where xs: "xs = ys @ t # zs" by (auto dest: split_list)
  note f = dlist_link_facts [OF d [unfolded xs]]
  have rm: "remove1 t xs = ys @ zs" using f xs by (simp add: remove1_split)
  from live t obtain T where T: "tcbs s t = Some T" by fastforce
  with f have T': "tcbEPNext T = first_or NULL zs" "tcbEPPrev T = last_or NULL ys" by auto
  let ?b = "last_or NULL ys" and ?a = "first_or NULL zs"
  have b: "?b = NULL \<longleftrightarrow> ys = []" using last_or_in [of ys NULL] f by (cases "ys = []") auto
  have a: "?a = NULL \<longleftrightarrow> zs = []" using first_or_in [of zs NULL] f by (cases "zs = []") auto
  have bt: "ys \<noteq> [] \<Longrightarrow> ?b \<in> set ys" and at: "zs \<noteq> [] \<Longrightarrow> ?a \<in> set zs" by (auto intro: last_or_in first_or_in)
  have ab: "ys \<noteq> [] \<Longrightarrow> ?a \<noteq> ?b" using bt at a b f by (cases "zs = []") auto
  define ts1 where "ts1 = (if ys = [] then tcbs s else (tcbs s)(?b := map_option (\<lambda>X. X\<lparr>tcbEPNext := ?a\<rparr>) (tcbs s ?b)))"
  define ts2 where "ts2 = (if zs = [] then ts1 else ts1(?a := map_option (\<lambda>X. X\<lparr>tcbEPPrev := ?b\<rparr>) (ts1 ?a)))"
  have tt: "?b \<noteq> t \<or> ys = []" "?a \<noteq> t \<or> zs = []" using bt at f by auto
  have lb: "ys \<noteq> [] \<Longrightarrow> \<exists>B. tcbs s ?b = Some B" using live [of ?b] bt xs by auto
  have la: "zs \<noteq> [] \<Longrightarrow> \<exists>A. tcbs s ?a = Some A" using live [of ?a] at xs by auto
  have r: "(if tcbEPPrev T \<noteq> NULL
      then do { s \<leftarrow> tcb_upd (tcbEPPrev T) (\<lambda>p. p\<lparr>tcbEPNext := tcbEPNext T\<rparr>) s; Some (queue_of xs, s) }
      else Some ((queue_of xs)\<lparr>qhead := tcbEPNext T\<rparr>, s)) =
    Some (\<lparr>qhead = first_or NULL (ys @ zs), qend = last_or NULL xs\<rparr>, s\<lparr>tcbs := ts1\<rparr>)"
  proof (cases "ys = []")
    case True
    then show ?thesis using T' by (simp add: ts1_def queue_of_def xs)
  next
    case False
    then obtain y us where "ys = y # us" by (cases ys) auto
    with False lb b T' show ?thesis by (auto simp: ts1_def queue_of_def xs kmonad)
  qed
  have t1: "ts1 t = Some T" using T tt by (auto simp: ts1_def)
  have la1: "zs \<noteq> [] \<Longrightarrow> \<exists>A. ts1 ?a = Some A" using la ab by (auto simp: ts1_def)
  have "tcbEPDequeue t (queue_of xs) s = Some (queue_of (ys @ zs), s\<lparr>tcbs := ts2\<rparr>)"
  proof (cases "zs = []")
    case True
    then show ?thesis unfolding tcbEPDequeue_def T bind_Some_conv r
      using t1 T' by (simp add: ts2_def queue_of_def)
  next
    case False
    then obtain z us where "zs = z # us" by (cases zs) auto
    with False la1 a T' show ?thesis unfolding tcbEPDequeue_def T bind_Some_conv r
      using t1 by (auto simp: ts2_def queue_of_def xs kmonad)
  qed
  moreover have "dlist (next_of ts2) (prev_of ts2) (ys @ zs)"
  proof (rule dlist_unlink [OF d [unfolded xs]])
    fix p assume p: "p \<in> set (ys @ zs)"
    then have "tcbs s p \<noteq> None" "p \<noteq> t" "p \<noteq> NULL" using live f xs by auto
    then obtain P where P: "tcbs s p = Some P" by auto
    show "next_of ts2 p = (if p = prev_of (tcbs s) t then next_of (tcbs s) t else next_of (tcbs s) p)"
      using P T T' b ab \<open>p \<noteq> NULL\<close> by (auto simp: ts2_def ts1_def link_of_def split: option.splits)
    show "prev_of ts2 p = (if p = next_of (tcbs s) t then prev_of (tcbs s) t else prev_of (tcbs s) p)"
      using P T T' a ab \<open>p \<noteq> NULL\<close> by (auto simp: ts2_def ts1_def link_of_def split: option.splits)
  qed
  moreover have "ep_relinked (set xs) (tcbs s) ts2"
    using bt at by (auto simp: ts2_def ts1_def ep_relinked_def xs option.map_comp comp_def)
  moreover have "ts2 t = tcbs s t" using tt t1 T by (auto simp: ts2_def)
  ultimately show ?thesis using rm by auto
qed

section \<open>The invariant\<close>

text \<open>The objects threads wait at, what an object says of its queue, and what a thread says of its
  waiting.\<close>

datatype wait_obj = Ep ptr | Ntfn ptr

type_synonym wait_lists = "wait_obj \<Rightarrow> ptr list"

primrec ep_mode :: "endpoint_state \<Rightarrow> tsType_t option" where
  "ep_mode EPState_Idle = None"
| "ep_mode EPState_Send = Some ThreadState_BlockedOnSend"
| "ep_mode EPState_Recv = Some ThreadState_BlockedOnReceive"

primrec ntfn_mode :: "notification_state \<Rightarrow> tsType_t option" where
  "ntfn_mode NtfnState_Idle = None"
| "ntfn_mode NtfnState_Waiting = Some ThreadState_BlockedOnNotification"
| "ntfn_mode NtfnState_Active = None"

lemma ep_mode_iff [simp]:
  "ep_mode st = None \<longleftrightarrow> st = EPState_Idle"
  "ep_mode st = Some ThreadState_BlockedOnSend \<longleftrightarrow> st = EPState_Send"
  "ep_mode st = Some ThreadState_BlockedOnReceive \<longleftrightarrow> st = EPState_Recv"
  "ep_mode st \<noteq> Some ThreadState_BlockedOnNotification"
  by (cases st; simp)+

lemma ntfn_mode_iff [simp]:
  "ntfn_mode st = None \<longleftrightarrow> st \<noteq> NtfnState_Waiting"
  "ntfn_mode st = Some m \<longleftrightarrow> st = NtfnState_Waiting \<and> m = ThreadState_BlockedOnNotification"
  by (cases st; auto)+

primrec obj_view :: "kstate \<Rightarrow> wait_obj \<Rightarrow> (tcb_queue_t \<times> tsType_t option) option" where
  "obj_view s (Ep p) =
     map_option (\<lambda>e. (\<lparr>qhead = epQueue_head e, qend = epQueue_tail e\<rparr>, ep_mode (ep_state e))) (eps s p)"
| "obj_view s (Ntfn p) =
     map_option (\<lambda>n. (\<lparr>qhead = ntfnQueue_head n, qend = ntfnQueue_tail n\<rparr>, ntfn_mode (ntfn_state n))) (ntfns s p)"

definition wait_of :: "tcb_t \<Rightarrow> (wait_obj \<times> tsType_t) option" where
  "wait_of T =
     (case tsType (tcbState T) of
        ThreadState_BlockedOnSend \<Rightarrow> Some (Ep (blockingObject (tcbState T)), ThreadState_BlockedOnSend)
      | ThreadState_BlockedOnReceive \<Rightarrow> Some (Ep (blockingObject (tcbState T)), ThreadState_BlockedOnReceive)
      | ThreadState_BlockedOnNotification \<Rightarrow>
          Some (Ntfn (blockingObject (tcbState T)), ThreadState_BlockedOnNotification)
      | _ \<Rightarrow> None)"

definition thread_wait :: "kstate \<Rightarrow> ptr \<Rightarrow> (wait_obj \<times> tsType_t) option" where
  "thread_wait s t = Option.bind (tcbs s t) wait_of"

definition wait_inv ::
    "(wait_obj \<Rightarrow> (tcb_queue_t \<times> tsType_t option) option) \<Rightarrow> (ptr \<Rightarrow> ptr) \<Rightarrow> (ptr \<Rightarrow> ptr) \<Rightarrow>
     (ptr \<Rightarrow> (wait_obj \<times> tsType_t) option) \<Rightarrow> wait_lists \<Rightarrow> bool" where
  "wait_inv ov nx pv tw wq \<longleftrightarrow>
     (\<forall>w. ov w = None \<longrightarrow> wq w = []) \<and>
     (\<forall>w q m. ov w = Some (q, m) \<longrightarrow>
        q = queue_of (wq w) \<and> dlist nx pv (wq w) \<and> (m = None \<longleftrightarrow> wq w = [])) \<and>
     (\<forall>w t. t \<in> set (wq w) \<longleftrightarrow> (\<exists>m. tw t = Some (w, m))) \<and>
     (\<forall>t w m. tw t = Some (w, m) \<longrightarrow> (\<exists>q. ov w = Some (q, Some m)))"

text \<open>The queues are those of the waiting threads \<open>tw\<close>; in a state between two operations these
  are the threads whose state says so. In the middle of an operation a thread may be out of its
  queue while its state is not yet changed.\<close>

definition wait_part :: "kstate \<Rightarrow> (ptr \<Rightarrow> (wait_obj \<times> tsType_t) option) \<Rightarrow> wait_lists \<Rightarrow> bool" where
  "wait_part s tw wq \<longleftrightarrow> wait_inv (obj_view s) (ep_next s) (ep_prev s) tw wq"

definition wait_ok :: "kstate \<Rightarrow> wait_lists \<Rightarrow> bool" where
  "wait_ok s wq \<longleftrightarrow> wait_part s (thread_wait s) wq"

lemma wait_partD:
  assumes "wait_part s tw wq"
  shows "obj_view s w = None \<Longrightarrow> wq w = []"
    and "obj_view s w = Some (q, m) \<Longrightarrow>
          q = queue_of (wq w) \<and> dlist (ep_next s) (ep_prev s) (wq w) \<and> (m = None \<longleftrightarrow> wq w = [])"
    and "t \<in> set (wq w) \<longleftrightarrow> (\<exists>m. tw t = Some (w, m))"
    and "tw t = Some (w, k) \<Longrightarrow> \<exists>q. obj_view s w = Some (q, Some k)"
  using assms by (auto simp: wait_part_def wait_inv_def)

text \<open>One queue changes: the one proof obligation of every operation on queues.\<close>

lemma wait_inv_step:
  assumes inv: "wait_inv ov nx pv tw wq" and ov': "ov' = ov(w \<mapsto> (queue_of ys, m))"
    and m: "m = None \<longleftrightarrow> ys = []" and d: "dlist nx' pv' ys"
    and same: "\<And>t. t \<notin> set (wq w) \<Longrightarrow> t \<notin> set ys \<Longrightarrow> nx' t = nx t \<and> pv' t = pv t"
    and fresh: "\<And>t. t \<in> set ys \<Longrightarrow> t \<notin> set (wq w) \<Longrightarrow> tw t = None"
    and tw': "\<And>t. tw' t = (if t \<in> set ys then Some (w, the m) else if t \<in> set (wq w) then None else tw t)"
  shows "wait_inv ov' nx' pv' tw' (wq(w := ys))"
proof -
  have mem: "t \<in> set (wq u) \<longleftrightarrow> (\<exists>m. tw t = Some (u, m))" for t u using inv by (simp add: wait_inv_def)
  have view: "\<exists>q. ov u = Some (q, Some k)" if "tw t = Some (u, k)" for t u k using inv that by (simp add: wait_inv_def)
  have other: "dlist nx' pv' (wq u) = dlist nx pv (wq u)" if "u \<noteq> w" for u
  proof (rule dlist_cong)
    fix x assume "x \<in> set (wq u)"
    with mem that fresh have "x \<notin> set (wq w)" "x \<notin> set ys" by fastforce+
    then show "nx' x = nx x \<and> pv' x = pv x" by (rule same)
  qed
  show ?thesis unfolding wait_inv_def
  proof (intro conjI allI impI)
    fix u assume "ov' u = None"
    then show "(wq(w := ys)) u = []" using inv by (auto simp: ov' wait_inv_def split: if_splits)
  next
    fix u q k assume "ov' u = Some (q, k)"
    then show "q = queue_of ((wq(w := ys)) u)" "dlist nx' pv' ((wq(w := ys)) u)"
      "(k = None) = ((wq(w := ys)) u = [])"
      using inv other [of u] d m by (auto simp: ov' wait_inv_def split: if_splits)
  next
    fix u t
    show "(t \<in> set ((wq(w := ys)) u)) = (\<exists>m. tw' t = Some (u, m))"
      using mem [of t u] mem [of t w] fresh [of t] by (auto simp: tw')
  next
    fix t u k assume t: "tw' t = Some (u, k)"
    show "\<exists>q. ov' u = Some (q, Some k)"
    proof (cases "t \<in> set ys")
      case True
      then show ?thesis using t m by (cases m) (auto simp: tw' ov')
    next
      case False
      with t have "tw t = Some (u, k)" "t \<notin> set (wq w)" by (auto simp: tw' split: if_splits)
      with view [of t u k] mem [of t w] show ?thesis by (auto simp: ov')
    qed
  qed
qed

section \<open>What the scheduler does not look at\<close>

definition sched_part :: "tcb_t \<Rightarrow> tcb_t" where
  "sched_part T = blank_tcb
     \<lparr>tcbState := (tcbState blank_tcb)\<lparr>tcbQueued := tcbQueued (tcbState T), tsType := tsType (tcbState T)\<rparr>,
      tcbDomain := tcbDomain T, tcbPriority := tcbPriority T,
      tcbSchedNext := tcbSchedNext T, tcbSchedPrev := tcbSchedPrev T\<rparr>"

lemma sched_part_sel [simp]:
  "tcbQueued (tcbState (sched_part T)) = tcbQueued (tcbState T)"
  "tsType (tcbState (sched_part T)) = tsType (tcbState T)"
  "tcbDomain (sched_part T) = tcbDomain T" "tcbPriority (sched_part T) = tcbPriority T"
  "tcbSchedNext (sched_part T) = tcbSchedNext T" "tcbSchedPrev (sched_part T) = tcbSchedPrev T"
  "isRunnable (sched_part T) = isRunnable T"
  by (simp_all add: sched_part_def isRunnable_def)

text \<open>The part of the state the invariant of the scheduler depends on. An operation that leaves it
  alone keeps that invariant.\<close>

definition kept :: "kstate \<Rightarrow> kstate" where
  "kept s = s
     \<lparr>ctes := \<lambda>p. map_option (\<lambda>_. \<lparr>cte_cap = cap_null_cap, cteMDBNode = nullMDBNode\<rparr>) (ctes s p),
      tcbs := \<lambda>t. map_option sched_part (tcbs s t), eps := Map.empty, ntfns := Map.empty,
      umem := Map.empty, current_syscall_error := blank_error,
      current_lookup_fault := lookup_fault_invalid_root, current_fault := seL4_Fault_NullFault,
      current_extra_caps := \<lambda>_. NULL, machine_log := []\<rparr>"

lemma link_of_kept:
  "sched_next (kept s) = sched_next s" "sched_prev (kept s) = sched_prev s"
  by (simp_all add: kept_def link_of_def fun_eq_iff option.case_eq_if option.map_sel)

lemma all_map_option: "(\<forall>T. map_option f u = Some T \<longrightarrow> P T) \<longleftrightarrow> (\<forall>T. u = Some T \<longrightarrow> P (f T))"
  by (cases u) auto

lemma ready_queues_ok_kept: "ready_queues_ok (kept s) rq = ready_queues_ok s rq"
proof -
  have "in_queue (kept s) t d p = in_queue s t d p" for t d p
    by (simp add: in_queue_def kept_def split: option.split)
  moreover have "tcbs_ok (kept s) = tcbs_ok s"
    by (simp add: tcbs_ok_def kept_def all_map_option del: map_option_eq_Some)
  moreover have "rq_idx (kept s) d p = rq_idx s d p" for d p by (simp add: rq_idx_def kept_def)
  ultimately show ?thesis
    by (simp add: ready_queues_ok_def link_of_kept) (simp add: kept_def)
qed

lemma runnable_kept: "runnable (kept s) t = runnable s t"
  by (auto simp: runnable_def kept_def)

lemma sched_env_kept: "sched_env (kept s) = sched_env s"
proof -
  have "findMapForASID a (kept s) = findMapForASID a s" for a
    by (rule findMapForASID_cong) (simp_all add: kept_def)
  then show ?thesis
    by (simp add: sched_env_def vspaces_wf_def pt_live_def paddr_to_pptr_def) (simp add: kept_def)
qed

lemma sched_ok_kept: "sched_ok (kept s) rq = sched_ok s rq"
proof -
  have "idle_thread (kept s) t = idle_thread s t" for t by (auto simp: idle_thread_def kept_def)
  moreover have "dom_sched_ok (kept s) = dom_sched_ok s" by (simp add: dom_sched_ok_def kept_def)
  ultimately show ?thesis
    by (simp add: sched_ok_def ready_queues_ok_kept runnable_kept sched_env_kept) (simp add: kept_def)
qed

lemma kept_sel:
  "ksCurThread (kept s) = ksCurThread s" "ksIdleThread (kept s) = ksIdleThread s"
  "ksSchedulerAction (kept s) = ksSchedulerAction s" "numDomains (kept s) = numDomains s"
  "ksCurDomain (kept s) = ksCurDomain s" "ptes (kept s) = ptes s" "asid_pools (kept s) = asid_pools s"
  by (simp_all add: kept_def)

lemma keptD:
  assumes "kept s' = kept s"
  shows "sched_ok s' rq = sched_ok s rq" and "action_ok s' = action_ok s" and "candidate s' = candidate s"
    and "pool s' rq = pool s rq" and "runnable s' t = runnable s t" and "ksCurThread s' = ksCurThread s"
    and "ksIdleThread s' = ksIdleThread s" and "ksSchedulerAction s' = ksSchedulerAction s"
    and "tcbs s' t = None \<longleftrightarrow> tcbs s t = None" and "ctes s' p = None \<longleftrightarrow> ctes s p = None"
proof -
  show "sched_ok s' rq = sched_ok s rq" by (metis assms sched_ok_kept)
  have r: "runnable s' u = runnable s u" for u by (metis assms runnable_kept)
  have a: "ksSchedulerAction s' = ksSchedulerAction s" by (metis assms kept_sel(3))
  have c: "ksCurThread s' = ksCurThread s" by (metis assms kept_sel(1))
  show "action_ok s' = action_ok s" "candidate s' = candidate s" "pool s' rq = pool s rq"
    "runnable s' t = runnable s t" "ksCurThread s' = ksCurThread s" "ksSchedulerAction s' = ksSchedulerAction s"
    by (simp_all add: action_ok_def candidate_def pool_def r a c)
  show "ksIdleThread s' = ksIdleThread s" by (metis assms kept_sel(2))
  show "tcbs s' t = None \<longleftrightarrow> tcbs s t = None"
    using assms [THEN arg_cong, of "\<lambda>s. tcbs s t"] by (cases "tcbs s t"; cases "tcbs s' t") (simp_all add: kept_def)
  show "ctes s' p = None \<longleftrightarrow> ctes s p = None"
    using assms [THEN arg_cong, of "\<lambda>s. ctes s p"] by (cases "ctes s p"; cases "ctes s' p") (simp_all add: kept_def)
qed

lemma kept_objects [simp]:
  "kept (s\<lparr>eps := e\<rparr>) = kept s" "kept (s\<lparr>ntfns := n\<rparr>) = kept s" "kept (s\<lparr>umem := u\<rparr>) = kept s"
  by (simp_all add: kept_def)

lemma kept_tcbs: "(\<And>t. map_option sched_part (ts t) = map_option sched_part (tcbs s t)) \<Longrightarrow> kept (s\<lparr>tcbs := ts\<rparr>) = kept s"
  by (simp add: kept_def fun_eq_iff)

lemma kept_relinked:
  assumes "ep_relinked X (tcbs s) ts"
  shows "kept (s\<lparr>tcbs := ts\<rparr>) = kept s"
proof (rule kept_tcbs)
  fix t
  have "sched_part (ep_unlinked T) = sched_part T" for T by (simp add: sched_part_def ep_unlinked_def)
  then have "map_option sched_part u = map_option sched_part (map_option ep_unlinked u)" for u
    by (simp add: option.map_comp comp_def)
  then show "map_option sched_part (ts t) = map_option sched_part (tcbs s t)"
    using assms by (metis ep_relinked_def)
qed

section \<open>Blocking on an object and being woken, once for endpoints and notifications\<close>

text \<open>The state without the queues and states of the objects.\<close>

definition objs_erased :: "kstate \<Rightarrow> kstate" where
  "objs_erased s = s
     \<lparr>eps := \<lambda>p. map_option (\<lambda>e. e\<lparr>epQueue_head := NULL, epQueue_tail := NULL, ep_state := EPState_Idle\<rparr>) (eps s p),
      ntfns := \<lambda>p. map_option (\<lambda>n. n\<lparr>ntfnQueue_head := NULL, ntfnQueue_tail := NULL, ntfn_state := NtfnState_Idle\<rparr>) (ntfns s p)\<rparr>"

lemma objs_erasedD:
  assumes "objs_erased s' = objs_erased s"
  shows "tcbs s' = tcbs s" and "kept s' = kept s" and "ctes s' = ctes s" and "umem s' = umem s"
    and "map_option ntfnBoundTCB (ntfns s' p) = map_option ntfnBoundTCB (ntfns s p)"
    and "map_option ntfnMsgIdentifier (ntfns s' p) = map_option ntfnMsgIdentifier (ntfns s p)"
proof -
  show "tcbs s' = tcbs s" "ctes s' = ctes s" "umem s' = umem s"
    using assms [THEN arg_cong, of tcbs] assms [THEN arg_cong, of ctes] assms [THEN arg_cong, of umem]
    by (simp_all add: objs_erased_def)
  have "kept (objs_erased x) = kept x" for x by (simp add: objs_erased_def)
  then show "kept s' = kept s" by (metis assms)
  have e: "map_option f (ntfns (objs_erased x) p) = map_option f (ntfns x p)"
    if "\<And>n a b c. f (n\<lparr>ntfnQueue_head := a, ntfnQueue_tail := b, ntfn_state := c\<rparr>) = f n" for f :: "notification_t \<Rightarrow> 'z" and x
    by (simp add: objs_erased_def option.map_comp comp_def that)
  show "map_option ntfnBoundTCB (ntfns s' p) = map_option ntfnBoundTCB (ntfns s p)"
    using e [of ntfnBoundTCB s'] e [of ntfnBoundTCB s] by (simp add: assms)
  show "map_option ntfnMsgIdentifier (ntfns s' p) = map_option ntfnMsgIdentifier (ntfns s p)"
    using e [of ntfnMsgIdentifier s'] e [of ntfnMsgIdentifier s] by (simp add: assms)
qed

lemma objs_erased_tcbs: "objs_erased (s\<lparr>tcbs := ts\<rparr>) = (objs_erased s)\<lparr>tcbs := ts\<rparr>"
  by (simp add: objs_erased_def)

lemma obj_view_tcbs [simp]: "obj_view (s\<lparr>tcbs := ts\<rparr>) = obj_view s"
  by (rule ext, rename_tac w, case_tac w) simp_all

text \<open>
  The interface of an object that threads wait at: its queue can be read and written, its state
  says how the threads in the queue wait, and neither write touches anything but the object's
  queue and state.
\<close>

locale wait_object =
  fixes obj :: "ptr \<Rightarrow> wait_obj"
    and get :: "ptr \<Rightarrow> kstate \<Rightarrow> tcb_queue_t option"
    and put :: "ptr \<Rightarrow> tcb_queue_t \<Rightarrow> kstate \<Rightarrow> kstate option"
    and put_state :: "ptr \<Rightarrow> 'st \<Rightarrow> kstate \<Rightarrow> kstate option"
    and mode :: "'st \<Rightarrow> tsType_t option" and idle :: 'st
  assumes get_law: "obj_view s (obj p) = Some (q, m) \<Longrightarrow> get p s = Some q"
    and put_law: "obj_view s (obj p) = Some (q, m) \<Longrightarrow>
      \<exists>s'. put p q' s = Some s' \<and> obj_view s' = (obj_view s)(obj p \<mapsto> (q', m)) \<and> objs_erased s' = objs_erased s"
    and state_law: "obj_view s (obj p) = Some (q, m) \<Longrightarrow>
      \<exists>s'. put_state p st s = Some s' \<and> obj_view s' = (obj_view s)(obj p \<mapsto> (q, mode st)) \<and>
           objs_erased s' = objs_erased s"
    and idle_law: "mode idle = None"
begin

text \<open>A waiting thread is taken out of the queue; an object without waiters becomes idle.\<close>

lemma wake:
  assumes inv: "wait_part s tw wq" and t: "t \<in> set (wq (obj p))"
    and live: "\<forall>x \<in> set (wq (obj p)). tcbs s x \<noteq> None"
  shows "\<exists>s'. get p s = Some (queue_of (wq (obj p))) \<and>
    (\<forall>K :: kstate \<Rightarrow> kstate option.
       do { (queue, s) \<leftarrow> tcbEPDequeue t (queue_of (wq (obj p))) s;
            s \<leftarrow> put p queue s;
            s \<leftarrow> (if qhead queue = NULL then put_state p idle s else Some s);
            K s } = K s') \<and>
    wait_part s' (tw(t := None)) (wq(obj p := remove1 t (wq (obj p)))) \<and>
    ep_relinked (set (wq (obj p))) (tcbs s) (tcbs s') \<and> tcbs s' t = tcbs s t \<and>
    objs_erased s' = objs_erased (s\<lparr>tcbs := tcbs s'\<rparr>)"
proof -
  let ?xs = "wq (obj p)" let ?ys = "remove1 t ?xs"
  from t wait_partD(3) [OF inv] obtain k where k: "tw t = Some (obj p, k)" by auto
  from wait_partD(4) [OF inv k] obtain q where v: "obj_view s (obj p) = Some (q, Some k)" ..
  from wait_partD(2) [OF inv v] have q: "q = queue_of ?xs" and d: "dlist (ep_next s) (ep_prev s) ?xs" by auto
  from tcbEPDequeue_ok [OF d [unfolded ep_links_tcbs] t] live obtain ts where
    deq: "tcbEPDequeue t (queue_of ?xs) s = Some (queue_of ?ys, s\<lparr>tcbs := ts\<rparr>)" and
    d': "dlist (next_of ts) (prev_of ts) ?ys" and rl: "ep_relinked (set ?xs) (tcbs s) ts" and tt: "ts t = tcbs s t"
    by auto
  let ?s1 = "s\<lparr>tcbs := ts\<rparr>"
  from put_law [of ?s1 p q "Some k" "queue_of ?ys"] v obtain s2 where
    s2: "put p (queue_of ?ys) ?s1 = Some s2" "obj_view s2 = (obj_view s)(obj p \<mapsto> (queue_of ?ys, Some k))"
        "objs_erased s2 = objs_erased ?s1" by auto
  have nil: "qhead (queue_of ?ys) = NULL \<longleftrightarrow> ?ys = []"
    using d' first_or_in [of ?ys NULL] by (cases "?ys = []") (auto simp: queue_of_def dlist_def)
  let ?m = "if ?ys = [] then None else Some k"
  have "\<exists>s'. (if qhead (queue_of ?ys) = NULL then put_state p idle s2 else Some s2) = Some s' \<and>
      obj_view s' = (obj_view s)(obj p \<mapsto> (queue_of ?ys, ?m)) \<and> objs_erased s' = objs_erased ?s1"
  proof (cases "?ys = []")
    case True
    from state_law [of s2 p "queue_of ?ys" "Some k" idle] s2(2) obtain s3 where
      "put_state p idle s2 = Some s3" "obj_view s3 = (obj_view s2)(obj p \<mapsto> (queue_of ?ys, None))"
      "objs_erased s3 = objs_erased s2" by (auto simp: idle_law)
    with True nil s2 show ?thesis by auto
  next
    case False
    with nil s2 show ?thesis by auto
  qed
  then obtain s' where s': "(if qhead (queue_of ?ys) = NULL then put_state p idle s2 else Some s2) = Some s'"
    "obj_view s' = (obj_view s)(obj p \<mapsto> (queue_of ?ys, ?m))" "objs_erased s' = objs_erased ?s1" by blast
  have ts: "tcbs s' = ts" using objs_erasedD(1) [OF s'(3)] by simp
  have "wait_inv (obj_view s') (next_of ts) (prev_of ts) (tw(t := None)) (wq(obj p := ?ys))"
  proof (rule wait_inv_step [OF inv [unfolded wait_part_def ep_links_tcbs] s'(2) _ d'])
    fix x assume "x \<notin> set ?xs"
    then show "next_of ts x = next_of (tcbs s) x \<and> prev_of ts x = prev_of (tcbs s) x"
      using rl by (simp add: ep_relinked_def link_of_def)
  next
    fix x assume "x \<in> set ?ys" "x \<notin> set ?xs"
    then show "tw x = None" by (auto dest: notin_set_remove1)
  next
    fix x
    have "tw x = Some (obj p, k)" if "x \<in> set ?xs"
      using that wait_partD(3) [OF inv, of x "obj p"] wait_partD(4) [OF inv, of x "obj p"] v by auto
    moreover have "set ?ys = set ?xs - {t}" using d by (simp add: dlist_def)
    moreover have "x \<in> set ?ys \<Longrightarrow> ?ys \<noteq> []" by auto
    ultimately show "(tw(t := None)) x = (if x \<in> set ?ys then Some (obj p, the ?m) else if x \<in> set ?xs then None else tw x)"
      using t by auto
  qed simp
  then have "wait_part s' (tw(t := None)) (wq(obj p := ?ys))" by (simp add: wait_part_def ep_links_tcbs ts)
  moreover have "get p s = Some (queue_of ?xs)" using get_law [OF v] q by simp
  moreover have "do { (queue, s) \<leftarrow> tcbEPDequeue t (queue_of ?xs) s; s \<leftarrow> put p queue s;
      s \<leftarrow> (if qhead queue = NULL then put_state p idle s else Some s); K s } = K s'"
    for K :: "kstate \<Rightarrow> kstate option"
    unfolding deq bind_Some_conv prod.case s2(1) s'(1) ..
  ultimately show ?thesis using rl tt ts s'(3) by (intro exI [of _ s']) simp
qed

text \<open>A thread starts to wait at the end of the queue, in the way the object's state says.\<close>

lemma block:
  assumes inv: "wait_part s tw wq" and v: "obj_view s (obj p) = Some (q, m)"
    and m: "m = None \<or> m = mode st" and st: "mode st = Some k" and t: "tw t = None" "t \<noteq> NULL" "tcbs s t \<noteq> None"
    and live: "\<forall>x \<in> set (wq (obj p)). tcbs s x \<noteq> None"
  shows "\<exists>s'. do { queue \<leftarrow> get p s; (queue, s) \<leftarrow> tcbEPAppend t queue s;
                   s \<leftarrow> put_state p st s; put p queue s } = Some s' \<and>
    wait_part s' (tw(t \<mapsto> (obj p, k))) (wq(obj p := wq (obj p) @ [t])) \<and>
    ep_relinked (insert t (set (wq (obj p)))) (tcbs s) (tcbs s') \<and>
    objs_erased s' = objs_erased (s\<lparr>tcbs := tcbs s'\<rparr>)"
proof -
  let ?xs = "wq (obj p)" let ?ys = "?xs @ [t]"
  from wait_partD(2) [OF inv v] have q: "q = queue_of ?xs" and d: "dlist (ep_next s) (ep_prev s) ?xs"
    and n: "m = None \<longleftrightarrow> ?xs = []" by auto
  from t(1) wait_partD(3) [OF inv, of t "obj p"] have out: "t \<notin> set ?xs" by auto
  from tcbEPAppend_ok [OF d [unfolded ep_links_tcbs] out t(2)] live t(3) obtain ts where
    app: "tcbEPAppend t (queue_of ?xs) s = Some (queue_of ?ys, s\<lparr>tcbs := ts\<rparr>)" and
    d': "dlist (next_of ts) (prev_of ts) ?ys" and rl: "ep_relinked (insert t (set ?xs)) (tcbs s) ts"
    by auto
  let ?s1 = "s\<lparr>tcbs := ts\<rparr>"
  from state_law [of ?s1 p q m st] v obtain s2 where
    s2: "put_state p st ?s1 = Some s2" "obj_view s2 = (obj_view s)(obj p \<mapsto> (q, Some k))"
        "objs_erased s2 = objs_erased ?s1" by (auto simp: st)
  from put_law [of s2 p q "Some k" "queue_of ?ys"] s2(2) obtain s' where
    s': "put p (queue_of ?ys) s2 = Some s'" "obj_view s' = (obj_view s)(obj p \<mapsto> (queue_of ?ys, Some k))"
        "objs_erased s' = objs_erased ?s1" using s2(3) by auto
  have ts: "tcbs s' = ts" using objs_erasedD(1) [OF s'(3)] by simp
  have "wait_inv (obj_view s') (next_of ts) (prev_of ts) (tw(t \<mapsto> (obj p, k))) (wq(obj p := ?ys))"
  proof (rule wait_inv_step [OF inv [unfolded wait_part_def ep_links_tcbs] s'(2) _ d'])
    fix x assume "x \<notin> set ?xs" "x \<notin> set ?ys"
    then show "next_of ts x = next_of (tcbs s) x \<and> prev_of ts x = prev_of (tcbs s) x"
      using rl by (simp add: ep_relinked_def link_of_def)
  next
    fix x assume "x \<in> set ?ys" "x \<notin> set ?xs"
    then show "tw x = None" using t(1) by simp
  next
    fix x
    have "tw x = Some (obj p, k)" if x: "x \<in> set ?xs"
    proof -
      from x wait_partD(3) [OF inv] obtain j where j: "tw x = Some (obj p, j)" by auto
      with wait_partD(4) [OF inv j] v x n m st show ?thesis by auto
    qed
    then show "(tw(t \<mapsto> (obj p, k))) x =
        (if x \<in> set ?ys then Some (obj p, the (Some k)) else if x \<in> set ?xs then None else tw x)"
      by auto
  qed simp
  then have "wait_part s' (tw(t \<mapsto> (obj p, k))) (wq(obj p := ?ys))" by (simp add: wait_part_def ep_links_tcbs ts)
  moreover have "do { queue \<leftarrow> get p s; (queue, s) \<leftarrow> tcbEPAppend t queue s;
                   s \<leftarrow> put_state p st s; put p queue s } = Some s'"
    unfolding get_law [OF v] q app bind_Some_conv prod.case s2(1) s'(1) ..
  ultimately show ?thesis using rl ts s'(3) by (intro exI [of _ s']) simp
qed

end

lemma ep_wait_laws:
  assumes "obj_view s (Ep p) = Some (q, m)"
  shows "ep_ptr_get_queue p s = Some q"
    and "\<exists>s'. ep_ptr_set_queue p q' s = Some s' \<and> obj_view s' = (obj_view s)(Ep p \<mapsto> (q', m)) \<and>
           objs_erased s' = objs_erased s"
    and "\<exists>s'. endpoint_ptr_set_state p st s = Some s' \<and>
           obj_view s' = (obj_view s)(Ep p \<mapsto> (q, ep_mode st)) \<and> objs_erased s' = objs_erased s"
proof -
  from assms obtain e where e: "eps s p = Some e" "q = \<lparr>qhead = epQueue_head e, qend = epQueue_tail e\<rparr>"
    "m = ep_mode (ep_state e)" by auto
  show "ep_ptr_get_queue p s = Some q" using e by (simp add: ep_ptr_get_queue_def)
  have v: "obj_view (s\<lparr>eps := (eps s)(p \<mapsto> e')\<rparr>) =
      (obj_view s)(Ep p \<mapsto> (\<lparr>qhead = epQueue_head e', qend = epQueue_tail e'\<rparr>, ep_mode (ep_state e')))" for e'
    by (rule ext, rename_tac w, case_tac w) simp_all
  have o: "objs_erased (s\<lparr>eps := (eps s)(p \<mapsto> e')\<rparr>) = objs_erased s" for e'
    using e by (auto simp: objs_erased_def fun_eq_iff)
  show "\<exists>s'. ep_ptr_set_queue p q' s = Some s' \<and> obj_view s' = (obj_view s)(Ep p \<mapsto> (q', m)) \<and>
           objs_erased s' = objs_erased s"
    using e by (cases q') (simp add: ep_ptr_set_queue_def kmonad v o)
  show "\<exists>s'. endpoint_ptr_set_state p st s = Some s' \<and>
           obj_view s' = (obj_view s)(Ep p \<mapsto> (q, ep_mode st)) \<and> objs_erased s' = objs_erased s"
    using e by (simp add: endpoint_ptr_set_state_def kmonad v o)
qed

lemma ntfn_wait_laws:
  assumes "obj_view s (Ntfn p) = Some (q, m)"
  shows "ntfn_ptr_get_queue p s = Some q"
    and "\<exists>s'. ntfn_ptr_set_queue p q' s = Some s' \<and> obj_view s' = (obj_view s)(Ntfn p \<mapsto> (q', m)) \<and>
           objs_erased s' = objs_erased s"
    and "\<exists>s'. notification_ptr_set_state p st s = Some s' \<and>
           obj_view s' = (obj_view s)(Ntfn p \<mapsto> (q, ntfn_mode st)) \<and> objs_erased s' = objs_erased s"
proof -
  from assms obtain n where n: "ntfns s p = Some n" "q = \<lparr>qhead = ntfnQueue_head n, qend = ntfnQueue_tail n\<rparr>"
    "m = ntfn_mode (ntfn_state n)" by auto
  show "ntfn_ptr_get_queue p s = Some q" using n by (simp add: ntfn_ptr_get_queue_def)
  have v: "obj_view (s\<lparr>ntfns := (ntfns s)(p \<mapsto> n')\<rparr>) =
      (obj_view s)(Ntfn p \<mapsto> (\<lparr>qhead = ntfnQueue_head n', qend = ntfnQueue_tail n'\<rparr>, ntfn_mode (ntfn_state n')))" for n'
    by (rule ext, rename_tac w, case_tac w) simp_all
  have o: "objs_erased (s\<lparr>ntfns := (ntfns s)(p \<mapsto> n')\<rparr>) = objs_erased s"
    if "ntfnBoundTCB n' = ntfnBoundTCB n" "ntfnMsgIdentifier n' = ntfnMsgIdentifier n" for n'
    using n that by (auto simp: objs_erased_def fun_eq_iff)
  show "\<exists>s'. ntfn_ptr_set_queue p q' s = Some s' \<and> obj_view s' = (obj_view s)(Ntfn p \<mapsto> (q', m)) \<and>
           objs_erased s' = objs_erased s"
    using n by (cases q') (simp add: ntfn_ptr_set_queue_def kmonad v o)
  show "\<exists>s'. notification_ptr_set_state p st s = Some s' \<and>
           obj_view s' = (obj_view s)(Ntfn p \<mapsto> (q, ntfn_mode st)) \<and> objs_erased s' = objs_erased s"
    using n by (simp add: notification_ptr_set_state_def kmonad v o)
qed

interpretation epw: wait_object Ep ep_ptr_get_queue ep_ptr_set_queue endpoint_ptr_set_state ep_mode EPState_Idle
  by unfold_locales (erule ep_wait_laws | simp)+

interpretation ntfnw: wait_object Ntfn ntfn_ptr_get_queue ntfn_ptr_set_queue notification_ptr_set_state
    ntfn_mode NtfnState_Idle
  by unfold_locales (erule ntfn_wait_laws | simp)+

end
