(* ===== verification/Signals.thy ===== *)
theory Signals
  imports Wait_Queues
begin

text \<open>
  Signalling and cancelling keep the invariant of the scheduler and of the wait queues, and do what
  they promise: a signal wakes the first waiter or is remembered in the badge word, and a
  cancelled thread waits nowhere.
\<close>

section \<open>The invariant of inter-process communication\<close>

text \<open>A notification and the thread bound to it name each other.\<close>

definition bound_ok :: "kstate \<Rightarrow> bool" where
  "bound_ok s \<longleftrightarrow>
     (\<forall>p n. ntfns s p = Some n \<longrightarrow> ntfnBoundTCB n \<noteq> NULL \<longrightarrow>
        (\<exists>T. tcbs s (ntfnBoundTCB n) = Some T \<and> tcbBoundNotification T = p)) \<and>
     (\<forall>t T. tcbs s t = Some T \<longrightarrow> tcbBoundNotification T \<noteq> NULL \<longrightarrow>
        (\<exists>n. ntfns s (tcbBoundNotification T) = Some n \<and> ntfnBoundTCB n = t))"

definition ipc_inv :: "kstate \<Rightarrow> ready_lists \<Rightarrow> wait_lists \<Rightarrow> bool" where
  "ipc_inv s rq wq \<longleftrightarrow> sched_ok s rq \<and> action_ok s \<and> wait_ok s wq \<and> bound_ok s"

lemma ipc_invD:
  assumes "ipc_inv s rq wq"
  shows "sched_ok s rq" and "action_ok s" and "wait_ok s wq" and "wait_part s (thread_wait s) wq" and "bound_ok s"
  using assms by (simp_all add: ipc_inv_def wait_ok_def)

text \<open>The part of a thread the wait queues and the bindings depend on.\<close>

definition ipc_part :: "tcb_t \<Rightarrow> ptr \<times> ptr \<times> (wait_obj \<times> tsType_t) option \<times> ptr" where
  "ipc_part T = (tcbEPNext T, tcbEPPrev T, wait_of T, tcbBoundNotification T)"

lemma bound_ok_views:
  "bound_ok s \<longleftrightarrow>
     (\<forall>p t. map_option ntfnBoundTCB (ntfns s p) = Some t \<longrightarrow> t \<noteq> NULL \<longrightarrow>
        map_option tcbBoundNotification (tcbs s t) = Some p) \<and>
     (\<forall>t p. map_option tcbBoundNotification (tcbs s t) = Some p \<longrightarrow> p \<noteq> NULL \<longrightarrow>
        map_option ntfnBoundTCB (ntfns s p) = Some t)"
  by (simp only: bound_ok_def map_option_eq_Some) blast

lemma bound_ok_cong:
  assumes "\<And>u. map_option tcbBoundNotification (tcbs s' u) = map_option tcbBoundNotification (tcbs s u)"
    and "\<And>p. map_option ntfnBoundTCB (ntfns s' p) = map_option ntfnBoundTCB (ntfns s p)"
  shows "bound_ok s' = bound_ok s"
  by (simp only: bound_ok_views assms)

lemma map_option_part:
  assumes "\<And>x. f x = h (g x)" and "map_option g a = map_option g b"
  shows "map_option f a = map_option f b"
  using assms by (cases a; cases b) auto

lemma link_of_map: "link_of cells f s p = (case map_option f (cells s p) of None \<Rightarrow> NULL | Some x \<Rightarrow> x)"
  by (simp add: link_of_def split: option.split)

lemma thread_wait_map: "thread_wait s t = Option.bind (map_option wait_of (tcbs s t)) (\<lambda>x. x)"
  by (cases "tcbs s t") (simp_all add: thread_wait_def)

lemma ipc_frame:
  assumes t: "\<And>t. map_option ipc_part (tcbs s' t) = map_option ipc_part (tcbs s t)"
    and o: "obj_view s' = obj_view s" and b: "\<And>p. map_option ntfnBoundTCB (ntfns s' p) = map_option ntfnBoundTCB (ntfns s p)"
  shows "wait_part s' tw wq = wait_part s tw wq" and "thread_wait s' = thread_wait s" and "bound_ok s' = bound_ok s"
    and "wait_ok s' wq = wait_ok s wq" and "ep_next s' = ep_next s" and "ep_prev s' = ep_prev s"
proof -
  have l: "link_of tcbs f s' = link_of tcbs f s" if "\<And>T. f T = h (ipc_part T)" for f h
    using map_option_part [of f h ipc_part, OF that t] by (simp add: link_of_map fun_eq_iff)
  show n: "ep_next s' = ep_next s" "ep_prev s' = ep_prev s"
    by (rule l [of _ fst], simp add: ipc_part_def) (rule l [of _ "fst \<circ> snd"], simp add: ipc_part_def)
  then show w: "wait_part s' tw wq = wait_part s tw wq" for tw by (simp add: wait_part_def o)
  have "map_option wait_of (tcbs s' t) = map_option wait_of (tcbs s t)" for t
    by (rule map_option_part [of _ "fst \<circ> snd \<circ> snd", OF _ t]) (simp add: ipc_part_def)
  then show th: "thread_wait s' = thread_wait s"
    by (simp add: thread_wait_map fun_eq_iff)
  have "map_option tcbBoundNotification (tcbs s' t) = map_option tcbBoundNotification (tcbs s t)" for t
    by (rule map_option_part [of _ "snd \<circ> snd \<circ> snd", OF _ t]) (simp add: ipc_part_def)
  with b show "bound_ok s' = bound_ok s" by (simp add: bound_ok_views)
  show "wait_ok s' wq = wait_ok s wq" by (simp add: wait_ok_def w th)
qed

section \<open>Steps that keep the invariant\<close>

text \<open>Scheduler operations.\<close>

lemma unqueued_ipc_part: "tcb_unqueued T' = tcb_unqueued T \<Longrightarrow> ipc_part T' = ipc_part T"
proof -
  assume u: "tcb_unqueued T' = tcb_unqueued T"
  have "ipc_part (tcb_unqueued X) = ipc_part X" for X
    by (simp add: ipc_part_def tcb_unqueued_def wait_of_def split: tsType_t.split)
  with u show ?thesis by metis
qed

lemma rest_frame:
  assumes r: "rest s' = rest s"
  shows "wait_part s' tw wq = wait_part s tw wq" and "thread_wait s' = thread_wait s" and "bound_ok s' = bound_ok s"
    and "wait_ok s' wq = wait_ok s wq" and "eps s' = eps s" and "ntfns s' = ntfns s"
    and "map_option tcbContext (tcbs s' t) = map_option tcbContext (tcbs s t)" and "umem s' = umem s"
    and "map_option (\<lambda>T. tsType (tcbState T)) (tcbs s' t) = map_option (\<lambda>T. tsType (tcbState T)) (tcbs s t)"
    and "ep_next s' = ep_next s" and "ep_prev s' = ep_prev s"
proof -
  have t: "map_option ipc_part (tcbs s' t) = map_option ipc_part (tcbs s t)" for t
    using restD(1) [OF r, of t] by (cases "tcbs s t"; cases "tcbs s' t") (auto intro: unqueued_ipc_part)
  show e: "eps s' = eps s" "ntfns s' = ntfns s" "umem s' = umem s"
    using r [THEN arg_cong, of eps] r [THEN arg_cong, of ntfns] r [THEN arg_cong, of umem]
    by (simp_all add: rest_def sched_erased_def)
  then have o: "obj_view s' = obj_view s" by (intro ext, rename_tac w, case_tac w) simp_all
  note f = ipc_frame [OF t o]
  show "wait_part s' tw wq = wait_part s tw wq" "thread_wait s' = thread_wait s" "bound_ok s' = bound_ok s"
    "wait_ok s' wq = wait_ok s wq" "ep_next s' = ep_next s" "ep_prev s' = ep_prev s" by (simp_all add: f e)
  show "map_option tcbContext (tcbs s' t) = map_option tcbContext (tcbs s t)"
    by (rule map_option_part [of _ tcbContext, OF _ restD(1) [OF r]]) (simp add: tcb_unqueued_def)
  show "map_option (\<lambda>T. tsType (tcbState T)) (tcbs s' t) = map_option (\<lambda>T. tsType (tcbState T)) (tcbs s t)"
    by (rule map_option_part [of _ "\<lambda>T. tsType (tcbState T)", OF _ restD(1) [OF r]]) (simp add: tcb_unqueued_def)
qed

definition waiting_to_run :: "kstate \<Rightarrow> ready_lists \<Rightarrow> ptr set" where
  "waiting_to_run s rq = ready rq \<union> candidate s"

lemma waiting_runnable:
  assumes "sched_ok s rq" and "action_ok s" and "t \<in> waiting_to_run s rq"
  shows "runnable s t"
  using assms sched_okD(3) [OF assms(1)]
  by (auto simp: waiting_to_run_def candidate_def action_ok_def split: if_splits)

lemma switch_step:
  assumes inv: "ipc_inv s rq wq" and t: "runnable s t"
  shows "\<exists>s' rq'. possibleSwitchTo t s = Some s' \<and> ipc_inv s' rq' wq \<and> rest s' = rest s \<and>
    waiting_to_run s' rq' = insert t (waiting_to_run s rq)"
proof -
  from possibleSwitchTo_ok [OF ipc_invD(1,2) [OF inv] t] obtain s' rq' where
    "possibleSwitchTo t s = Some s'" "sched_ok s' rq'" "action_ok s'" and r: "rest s' = rest s"
    and "ready rq' \<union> candidate s' = insert t (ready rq \<union> candidate s)" by (elim exE conjE)
  then show ?thesis using ipc_invD [OF inv]
    by (intro exI [of _ s'] exI [of _ rq']) (simp add: ipc_inv_def rest_frame [OF r] waiting_to_run_def)
qed

text \<open>The state of a thread changes, whose wait is accounted for by \<open>tw\<close>.\<close>

lemma state_step:
  assumes ok: "sched_ok s rq" and act: "action_ok s" and t: "tcbs s t = Some T"
    and wait: "t \<in> waiting_to_run s rq \<longrightarrow> ts = ThreadState_Running \<or> ts = ThreadState_Restart"
    and idle: "t = ksIdleThread s \<longrightarrow> ts = ThreadState_IdleThreadState"
  shows "\<exists>s'. setThreadState t ts s = Some s' \<and> sched_ok s' rq \<and> action_ok s' \<and>
    tcbs s' = (tcbs s)(t \<mapsto> T\<lparr>tcbState := (tcbState T)\<lparr>tsType := ts\<rparr>\<rparr>) \<and>
    waiting_to_run s' rq = waiting_to_run s rq \<and> ksCurThread s' = ksCurThread s \<and>
    eps s' = eps s \<and> ntfns s' = ntfns s \<and> ctes s' = ctes s \<and> umem s' = umem s \<and>
    bound_ok s' = bound_ok s \<and> (\<forall>tw wq. wait_part s' tw wq = wait_part s tw wq)"
proof -
  from setThreadState_ok [OF ok act t wait [unfolded waiting_to_run_def] idle] obtain s' where s': "setThreadState t ts s = Some s'"
    "sched_ok s' rq" "action_ok s'" "candidate s' = candidate s" "ksCurThread s' = ksCurThread s"
    and ts: "tcbs s' = (tcbs s)(t \<mapsto> T\<lparr>tcbState := (tcbState T)\<lparr>tsType := ts\<rparr>\<rparr>)"
    by (elim exE conjE)
  have o: "eps s' = eps s" "ntfns s' = ntfns s" "ctes s' = ctes s" "umem s' = umem s"
    using s'(1) t by (auto simp: setThreadState_def scheduleTCB_def kmonad set_action_def)
  have v: "obj_view s' = obj_view s" using o by (intro ext, rename_tac w, case_tac w) simp_all
  have "map_option tcbBoundNotification (tcbs s' u) = map_option tcbBoundNotification (tcbs s u)" for u
    by (simp add: ts t)
  then have "bound_ok s' = bound_ok s" by (simp only: bound_ok_views o)
  moreover have "ep_next s' = ep_next s" "ep_prev s' = ep_prev s"
    using t by (simp_all add: link_of_def fun_eq_iff ts)
  ultimately show ?thesis using s' ts o
    by (intro exI [of _ s']) (simp add: waiting_to_run_def wait_part_def v)
qed

text \<open>A thread that is out of its queue gets a state in which it does not wait in a queue.\<close>

lemma restart_step:
  assumes ok: "sched_ok s rq" and act: "action_ok s" and b: "bound_ok s" and t: "tcbs s t = Some T"
    and part: "wait_part s tw wq" and tw: "tw t = None" "\<And>u. u \<noteq> t \<Longrightarrow> tw u = thread_wait s u"
    and plain: "ts = ThreadState_Running \<or> ts = ThreadState_Restart \<or> ts = ThreadState_Inactive \<or>
                ts = ThreadState_BlockedOnReply"
    and wait: "t \<in> waiting_to_run s rq \<longrightarrow> ts = ThreadState_Running \<or> ts = ThreadState_Restart"
    and idle: "t \<noteq> ksIdleThread s"
  shows "\<exists>s'. setThreadState t ts s = Some s' \<and> ipc_inv s' rq wq \<and>
    tcbs s' = (tcbs s)(t \<mapsto> T\<lparr>tcbState := (tcbState T)\<lparr>tsType := ts\<rparr>\<rparr>) \<and>
    waiting_to_run s' rq = waiting_to_run s rq \<and> ksCurThread s' = ksCurThread s \<and>
    eps s' = eps s \<and> ntfns s' = ntfns s \<and> ctes s' = ctes s \<and> umem s' = umem s"
proof -
  have "t = ksIdleThread s \<longrightarrow> ts = ThreadState_IdleThreadState" using idle by simp
  from state_step [OF ok act t wait this] obtain s' where s': "setThreadState t ts s = Some s'"
    "sched_ok s' rq" "action_ok s'" "tcbs s' = (tcbs s)(t \<mapsto> T\<lparr>tcbState := (tcbState T)\<lparr>tsType := ts\<rparr>\<rparr>)"
    "waiting_to_run s' rq = waiting_to_run s rq" "ksCurThread s' = ksCurThread s"
    "eps s' = eps s" "ntfns s' = ntfns s" "ctes s' = ctes s" "umem s' = umem s"
    "bound_ok s' = bound_ok s" "\<forall>tw wq. wait_part s' tw wq = wait_part s tw wq" by (elim exE conjE)
  have "thread_wait s' = tw"
  proof
    fix u show "thread_wait s' u = tw u"
      using plain tw s'(4) by (cases "u = t") (auto simp: thread_wait_def wait_of_def)
  qed
  with s' b part show ?thesis by (intro exI [of _ s']) (simp add: ipc_inv_def wait_ok_def)
qed

text \<open>A field of a thread changes that neither invariant depends on.\<close>

lemma ipc_inv_thread:
  assumes t: "tcbs s t = Some T" and p: "sched_part T' = sched_part T" "ipc_part T' = ipc_part T"
  shows "ipc_inv (s\<lparr>tcbs := (tcbs s)(t \<mapsto> T')\<rparr>) rq wq = ipc_inv s rq wq"
    and "kept (s\<lparr>tcbs := (tcbs s)(t \<mapsto> T')\<rparr>) = kept s"
proof -
  let ?s = "s\<lparr>tcbs := (tcbs s)(t \<mapsto> T')\<rparr>"
  show k: "kept ?s = kept s" by (rule kept_tcbs) (simp add: t p)
  have f: "map_option ipc_part (tcbs ?s u) = map_option ipc_part (tcbs s u)" for u by (simp add: t p)
  show "ipc_inv ?s rq wq = ipc_inv s rq wq"
    by (simp add: ipc_inv_def keptD [OF k] ipc_frame(3,4) [OF f])
qed

lemma context_parts [simp]:
  "sched_part (T\<lparr>tcbContext := c\<rparr>) = sched_part T" "ipc_part (T\<lparr>tcbContext := c\<rparr>) = ipc_part T"
  by (simp add: sched_part_def) (cases "tsType (tcbState T)"; simp add: ipc_part_def wait_of_def)

lemma kept_waiting:
  assumes "kept s' = kept s"
  shows "waiting_to_run s' rq = waiting_to_run s rq"
  by (simp only: waiting_to_run_def keptD(3) [OF assms])

text \<open>Taking a waiting thread out of its queue.\<close>

lemma thread_wait_live: "thread_wait s t = Some w \<Longrightarrow> tcbs s t \<noteq> None"
  by (cases "tcbs s t") (simp_all add: thread_wait_def)

lemma wait_not_runnable: "thread_wait s t = Some w \<Longrightarrow> \<not> runnable s t"
  by (cases "tcbs s t") (auto simp: thread_wait_def runnable_def isRunnable_iff wait_of_def)

lemma queue_live:
  assumes "ipc_inv s rq wq" and "x \<in> set (wq w)"
  shows "tcbs s x \<noteq> None" and "x \<noteq> ksIdleThread s" and "\<not> runnable s x" and "x \<notin> waiting_to_run s rq"
proof -
  from wait_partD(3) [OF ipc_invD(4) [OF assms(1)], of x w] assms(2) obtain k where
    k: "thread_wait s x = Some (w, k)" by auto
  then show "tcbs s x \<noteq> None" by (rule thread_wait_live)
  from k show n: "\<not> runnable s x" by (rule wait_not_runnable)
  have "idle_thread s (ksIdleThread s)" by (rule sched_okD(11) [OF ipc_invD(1) [OF assms(1)]])
  with k show "x \<noteq> ksIdleThread s" by (auto simp: idle_thread_def thread_wait_def wait_of_def)
  show "x \<notin> waiting_to_run s rq" using waiting_runnable [OF ipc_invD(1,2) [OF assms(1)]] n by blast
qed

lemma relinked_bound:
  assumes rl: "ep_relinked X (tcbs s) (tcbs s')" and o: "objs_erased s' = objs_erased (s\<lparr>tcbs := tcbs s'\<rparr>)"
  shows "bound_ok s' = bound_ok s" and "kept s' = kept s"
    and "map_option tcbContext (tcbs s' u) = map_option tcbContext (tcbs s u)"
    and "map_option ntfnMsgIdentifier (ntfns s' p) = map_option ntfnMsgIdentifier (ntfns s p)"
    and "map_option wait_of (tcbs s' u) = map_option wait_of (tcbs s u)"
proof -
  have e: "map_option ep_unlinked (tcbs s' u) = map_option ep_unlinked (tcbs s u)" for u
    using rl by (simp add: ep_relinked_def)
  have "map_option tcbBoundNotification (tcbs s' u) = map_option tcbBoundNotification (tcbs s u)" for u
    by (rule map_option_part [of _ tcbBoundNotification, OF _ e]) (simp add: ep_unlinked_def)
  moreover have "map_option ntfnBoundTCB (ntfns s' p) = map_option ntfnBoundTCB (ntfns s p)" for p
    using objs_erasedD(5) [OF o] by simp
  ultimately show "bound_ok s' = bound_ok s" by (simp only: bound_ok_views)
  show "kept s' = kept s" using objs_erasedD(2) [OF o] kept_relinked [OF rl] by simp
  show "map_option tcbContext (tcbs s' u) = map_option tcbContext (tcbs s u)"
    by (rule map_option_part [of _ tcbContext, OF _ e]) (simp add: ep_unlinked_def)
  show "map_option ntfnMsgIdentifier (ntfns s' p) = map_option ntfnMsgIdentifier (ntfns s p)"
    using objs_erasedD(6) [OF o] by simp
  show "map_option wait_of (tcbs s' u) = map_option wait_of (tcbs s u)"
    by (rule map_option_part [of _ wait_of, OF _ e]) (simp add: ep_unlinked_def wait_of_def split: tsType_t.split)
qed

section \<open>Delivering a signal to a thread\<close>

definition woken :: "kstate \<Rightarrow> ptr \<Rightarrow> word_t \<Rightarrow> bool" where
  "woken s t badge \<longleftrightarrow>
     (\<exists>T. tcbs s t = Some T \<and> tsType (tcbState T) = ThreadState_Running \<and> tcbContext T badgeRegister = badge)"

text \<open>The end of every delivery: the thread, already out of its queue, gets the badge and may run.\<close>

lemma deliver_step:
  assumes ok: "sched_ok s rq" and act: "action_ok s" and b: "bound_ok s" and t: "tcbs s t = Some T"
    and part: "wait_part s tw wq" and tw: "tw t = None" "\<And>u. u \<noteq> t \<Longrightarrow> tw u = thread_wait s u"
    and idle: "t \<noteq> ksIdleThread s"
  shows "\<exists>s' rq'. do { s \<leftarrow> setThreadState t ThreadState_Running s; s \<leftarrow> setRegister t badgeRegister badge s;
                       possibleSwitchTo t s } = Some s' \<and>
    ipc_inv s' rq' wq \<and> woken s' t badge \<and> waiting_to_run s' rq' = insert t (waiting_to_run s rq) \<and>
    eps s' = eps s \<and> ntfns s' = ntfns s \<and>
    (\<forall>u. u \<noteq> t \<longrightarrow> map_option tcbContext (tcbs s' u) = map_option tcbContext (tcbs s u))"
proof -
  from restart_step [OF ok act b t part tw _ _ idle, of ThreadState_Running] obtain s1 where
    s1: "setThreadState t ThreadState_Running s = Some s1" "ipc_inv s1 rq wq"
      "tcbs s1 = (tcbs s)(t \<mapsto> T\<lparr>tcbState := (tcbState T)\<lparr>tsType := ThreadState_Running\<rparr>\<rparr>)"
      "waiting_to_run s1 rq = waiting_to_run s rq" "eps s1 = eps s" "ntfns s1 = ntfns s" by auto
  define T1 where "T1 = T\<lparr>tcbState := (tcbState T)\<lparr>tsType := ThreadState_Running\<rparr>\<rparr>"
  have t1: "tcbs s1 t = Some T1" using s1(3) by (simp add: T1_def)
  let ?T2 = "T1\<lparr>tcbContext := (tcbContext T1)(badgeRegister := badge)\<rparr>"
  let ?s2 = "s1\<lparr>tcbs := (tcbs s1)(t \<mapsto> ?T2)\<rparr>"
  have inv2: "ipc_inv ?s2 rq wq" and k: "kept ?s2 = kept s1"
    using s1(2) ipc_inv_thread [OF t1, of ?T2] by simp_all
  have "runnable ?s2 t" by (simp add: runnable_def isRunnable_def T1_def)
  from switch_step [OF inv2 this] obtain s' rq' where
    s': "possibleSwitchTo t ?s2 = Some s'" "ipc_inv s' rq' wq" "rest s' = rest ?s2"
      "waiting_to_run s' rq' = insert t (waiting_to_run ?s2 rq)" by blast
  have run: "do { s \<leftarrow> setThreadState t ThreadState_Running s; s \<leftarrow> setRegister t badgeRegister badge s;
                       possibleSwitchTo t s } = Some s'"
    using s1(1) t1 s'(1) by (simp add: kmonad)
  have c: "map_option tcbContext (tcbs s' u) = map_option tcbContext (tcbs ?s2 u)" for u
    by (rule rest_frame(7) [OF s'(3)])
  have "map_option (\<lambda>T. tsType (tcbState T)) (tcbs s' t) = Some ThreadState_Running"
    using rest_frame(9) [OF s'(3), of t] by (simp add: T1_def)
  then have "woken s' t badge" using c [of t] by (auto simp: woken_def)
  moreover have "waiting_to_run s' rq' = insert t (waiting_to_run s rq)"
    using s'(4) kept_waiting [OF k] s1(4) by simp
  moreover have "map_option tcbContext (tcbs s' u) = map_option tcbContext (tcbs s u)" if "u \<noteq> t" for u
    using c [of u] that by (simp add: s1(3))
  moreover have "eps s' = eps s" "ntfns s' = ntfns s" using rest_frame(5,6) [OF s'(3)] s1 by simp_all
  ultimately show ?thesis using run s'(2) by blast
qed

section \<open>Cancelling\<close>

text \<open>What is left of the invariant when a thread was taken out of its queue.\<close>

lemma detached:
  assumes inv: "ipc_inv s rq wq" and rl: "ep_relinked X (tcbs s) (tcbs s')"
    and o: "objs_erased s' = objs_erased (s\<lparr>tcbs := tcbs s'\<rparr>)"
  shows "sched_ok s' rq" and "action_ok s'" and "bound_ok s'" and "thread_wait s' = thread_wait s"
    and "waiting_to_run s' rq = waiting_to_run s rq" and "ksIdleThread s' = ksIdleThread s"
    and "ksCurThread s' = ksCurThread s"
proof -
  note r = relinked_bound [OF rl o]
  note k = keptD [OF r(2)]
  show "sched_ok s' rq" "action_ok s'" "bound_ok s'" "ksIdleThread s' = ksIdleThread s" "ksCurThread s' = ksCurThread s"
    using ipc_invD [OF inv] by (simp_all add: k r(1))
  show "thread_wait s' = thread_wait s" by (simp add: fun_eq_iff thread_wait_map r(5))
  show "waiting_to_run s' rq = waiting_to_run s rq" by (rule kept_waiting [OF r(2)])
qed

lemma wait_ofE:
  assumes "wait_of T = Some (w, k)"
  obtains (send) p where "w = Ep p" "blockingObject (tcbState T) = p" "tsType (tcbState T) = k" "k = ThreadState_BlockedOnSend"
  | (receive) p where "w = Ep p" "blockingObject (tcbState T) = p" "tsType (tcbState T) = k" "k = ThreadState_BlockedOnReceive"
  | (signal) p where "w = Ntfn p" "blockingObject (tcbState T) = p" "tsType (tcbState T) = k"
      "k = ThreadState_BlockedOnNotification"
  using assms by (auto simp: wait_of_def split: tsType_t.splits)

lemma cancelIPC_detach:
  assumes inv: "ipc_inv s rq wq" and t: "thread_wait s t = Some (w, k)" and T: "tcbs s t = Some T"
  shows "\<exists>s1. cancelIPC t s = setThreadState t ThreadState_Inactive s1 \<and>
    wait_part s1 ((thread_wait s)(t := None)) (wq(w := remove1 t (wq w))) \<and>
    ep_relinked (set (wq w)) (tcbs s) (tcbs s1) \<and> tcbs s1 t = Some T \<and>
    objs_erased s1 = objs_erased (s\<lparr>tcbs := tcbs s1\<rparr>)"
proof -
  have wt: "wait_of T = Some (w, k)" using t T by (simp add: thread_wait_def)
  note part = ipc_invD(4) [OF inv]
  have mem: "t \<in> set (wq w)" using wait_partD(3) [OF part] t by blast
  have live': "\<forall>x \<in> set (wq u). tcbs s x \<noteq> None" for u using queue_live(1) [OF inv] by blast
  from wait_partD(4) [OF part t] obtain q where v: "obj_view s w = Some (q, Some k)" ..
  let ?tw = "(thread_wait s)(t := None)" and ?wq = "wq(w := remove1 t (wq w))"
  show ?thesis
    using wt
  proof (cases rule: wait_ofE)
    case (send p)
    from epw.wake [OF part mem [unfolded send(1)] live'] obtain s1 where s1:
      "ep_ptr_get_queue p s = Some (queue_of (wq (Ep p)))"
      "\<forall>K :: kstate \<Rightarrow> kstate option.
         do { (queue, s) \<leftarrow> tcbEPDequeue t (queue_of (wq (Ep p))) s; s \<leftarrow> ep_ptr_set_queue p queue s;
              s \<leftarrow> (if qhead queue = NULL then endpoint_ptr_set_state p EPState_Idle s else Some s); K s } = K s1"
      "wait_part s1 ?tw ?wq" "ep_relinked (set (wq w)) (tcbs s) (tcbs s1)" "tcbs s1 t = tcbs s t"
      "objs_erased s1 = objs_erased (s\<lparr>tcbs := tcbs s1\<rparr>)" unfolding send(1) by (elim exE conjE)
    from v send obtain e where e: "eps s p = Some e" "ep_state e \<noteq> EPState_Idle" by (cases "eps s p") auto
    have "cancelIPC t s = setThreadState t ThreadState_Inactive s1"
      using T e send s1(1) s1(2) [rule_format, of "setThreadState t ThreadState_Inactive"]
      by (simp add: cancelIPC_def kmonad Let_def)
    with s1 T show ?thesis by (intro exI [of _ s1]) simp
  next
    case (receive p)
    from epw.wake [OF part mem [unfolded receive(1)] live'] obtain s1 where s1:
      "ep_ptr_get_queue p s = Some (queue_of (wq (Ep p)))"
      "\<forall>K :: kstate \<Rightarrow> kstate option.
         do { (queue, s) \<leftarrow> tcbEPDequeue t (queue_of (wq (Ep p))) s; s \<leftarrow> ep_ptr_set_queue p queue s;
              s \<leftarrow> (if qhead queue = NULL then endpoint_ptr_set_state p EPState_Idle s else Some s); K s } = K s1"
      "wait_part s1 ?tw ?wq" "ep_relinked (set (wq w)) (tcbs s) (tcbs s1)" "tcbs s1 t = tcbs s t"
      "objs_erased s1 = objs_erased (s\<lparr>tcbs := tcbs s1\<rparr>)" unfolding receive(1) by (elim exE conjE)
    from v receive obtain e where e: "eps s p = Some e" "ep_state e \<noteq> EPState_Idle" by (cases "eps s p") auto
    have "cancelIPC t s = setThreadState t ThreadState_Inactive s1"
      using T e receive s1(1) s1(2) [rule_format, of "setThreadState t ThreadState_Inactive"]
      by (simp add: cancelIPC_def kmonad Let_def)
    with s1 T show ?thesis by (intro exI [of _ s1]) simp
  next
    case (signal p)
    from ntfnw.wake [OF part mem [unfolded signal(1)] live'] obtain s1 where s1:
      "ntfn_ptr_get_queue p s = Some (queue_of (wq (Ntfn p)))"
      "\<forall>K :: kstate \<Rightarrow> kstate option.
         do { (queue, s) \<leftarrow> tcbEPDequeue t (queue_of (wq (Ntfn p))) s; s \<leftarrow> ntfn_ptr_set_queue p queue s;
              s \<leftarrow> (if qhead queue = NULL then notification_ptr_set_state p NtfnState_Idle s else Some s); K s } = K s1"
      "wait_part s1 ?tw ?wq" "ep_relinked (set (wq w)) (tcbs s) (tcbs s1)" "tcbs s1 t = tcbs s t"
      "objs_erased s1 = objs_erased (s\<lparr>tcbs := tcbs s1\<rparr>)" unfolding signal(1) by (elim exE conjE)
    from v signal obtain n where n: "ntfns s p = Some n" "ntfn_state n = NtfnState_Waiting"
      by (cases "ntfns s p"; cases "ntfn_state (the (ntfns s p))") auto
    have "cancelIPC t s = setThreadState t ThreadState_Inactive s1"
      using T n signal s1(1) s1(2) [rule_format, of "setThreadState t ThreadState_Inactive"]
      by (simp add: cancelIPC_def cancelSignal_def kmonad Let_def)
    with s1 T show ?thesis by (intro exI [of _ s1]) simp
  qed
qed

lemma cancelIPC_waiting:
  assumes inv: "ipc_inv s rq wq" and t: "thread_wait s t = Some (w, k)"
  shows "\<exists>s'. cancelIPC t s = Some s' \<and> ipc_inv s' rq (wq(w := remove1 t (wq w))) \<and>
    (\<exists>T'. tcbs s' t = Some T' \<and> tsType (tcbState T') = ThreadState_Inactive) \<and>
    waiting_to_run s' rq = waiting_to_run s rq \<and> ksIdleThread s' = ksIdleThread s \<and>
    (\<forall>p. map_option ntfnMsgIdentifier (ntfns s' p) = map_option ntfnMsgIdentifier (ntfns s p))"
proof -
  from thread_wait_live [OF t] obtain T where T: "tcbs s t = Some T" by auto
  note part = ipc_invD(4) [OF inv]
  have mem: "t \<in> set (wq w)" using wait_partD(3) [OF part] t by blast
  note live = queue_live [OF inv]
  let ?tw = "(thread_wait s)(t := None)" and ?wq = "wq(w := remove1 t (wq w))"
  from cancelIPC_detach [OF inv t T] obtain s1 where s1: "cancelIPC t s = setThreadState t ThreadState_Inactive s1" "wait_part s1 ?tw ?wq"
    and rl: "ep_relinked (set (wq w)) (tcbs s) (tcbs s1)" and t1: "tcbs s1 t = Some T"
    and o: "objs_erased s1 = objs_erased (s\<lparr>tcbs := tcbs s1\<rparr>)" by (elim exE conjE)
  note d = detached [OF inv rl o]
  have "\<exists>s'. setThreadState t ThreadState_Inactive s1 = Some s' \<and> ipc_inv s' rq ?wq \<and>
    tcbs s' = (tcbs s1)(t \<mapsto> T\<lparr>tcbState := (tcbState T)\<lparr>tsType := ThreadState_Inactive\<rparr>\<rparr>) \<and>
    waiting_to_run s' rq = waiting_to_run s1 rq \<and> ksCurThread s' = ksCurThread s1 \<and>
    eps s' = eps s1 \<and> ntfns s' = ntfns s1 \<and> ctes s' = ctes s1 \<and> umem s' = umem s1"
    by (rule restart_step [OF d(1-3) t1 s1(2)]) (use live(2,4) [OF mem] in \<open>simp_all add: d\<close>)
  then obtain s' where s': "setThreadState t ThreadState_Inactive s1 = Some s'" "ipc_inv s' rq ?wq"
    "tcbs s' = (tcbs s1)(t \<mapsto> T\<lparr>tcbState := (tcbState T)\<lparr>tsType := ThreadState_Inactive\<rparr>\<rparr>)"
    "waiting_to_run s' rq = waiting_to_run s1 rq" "ntfns s' = ntfns s1" by (elim exE conjE)
  have "ksIdleThread s' = ksIdleThread s1"
    using s'(1) t1 by (auto simp: setThreadState_def scheduleTCB_def kmonad set_action_def)
  then show ?thesis using s1(1) s' d relinked_bound(4) [OF rl o] by (intro exI [of _ s']) simp
qed

section \<open>Sending and receiving signals\<close>

lemma ntfn_state_step:
  assumes inv: "ipc_inv s rq wq" and n: "ntfns s p = Some n" "ntfn_state n \<noteq> NtfnState_Waiting"
    and n': "ntfnQueue_head n' = ntfnQueue_head n" "ntfnQueue_tail n' = ntfnQueue_tail n"
      "ntfn_state n' \<noteq> NtfnState_Waiting" "ntfnBoundTCB n' = ntfnBoundTCB n"
  shows "ipc_inv (s\<lparr>ntfns := (ntfns s)(p \<mapsto> n')\<rparr>) rq wq"
proof -
  let ?s = "s\<lparr>ntfns := (ntfns s)(p \<mapsto> n')\<rparr>"
  have "ntfn_mode (ntfn_state n') = ntfn_mode (ntfn_state n)" using n(2) n'(3) by (cases "ntfn_state n"; cases "ntfn_state n'") auto
  then have o: "obj_view ?s = obj_view s"
    using n n' by (intro ext, rename_tac w, case_tac w) auto
  have b: "map_option ntfnBoundTCB (ntfns ?s q) = map_option ntfnBoundTCB (ntfns s q)" for q using n n' by simp
  have k: "kept ?s = kept s" by simp
  show ?thesis using inv by (simp add: ipc_inv_def keptD [OF k] ipc_frame(3,4) [OF _ o b])
qed

text \<open>What a signal does, by the state of the notification.\<close>

definition signalled ::
    "kstate \<Rightarrow> ready_lists \<Rightarrow> wait_lists \<Rightarrow> ptr \<Rightarrow> word_t \<Rightarrow> kstate \<Rightarrow> ready_lists \<Rightarrow> wait_lists \<Rightarrow> bool" where
  "signalled s rq wq p badge s' rq' wq' \<longleftrightarrow>
     (\<exists>n n'. ntfns s p = Some n \<and> ntfns s' p = Some n' \<and>
       (case ntfn_state n of
          NtfnState_Waiting \<Rightarrow>
            (\<exists>t ts. wq (Ntfn p) = t # ts \<and> wq' = wq(Ntfn p := ts) \<and> woken s' t badge \<and>
               waiting_to_run s' rq' = insert t (waiting_to_run s rq) \<and>
               ntfnMsgIdentifier n' = ntfnMsgIdentifier n)
        | NtfnState_Active \<Rightarrow>
            wq' = wq \<and> rq' = rq \<and> ntfn_state n' = NtfnState_Active \<and>
            ntfnMsgIdentifier n' = ntfnMsgIdentifier n OR badge
        | NtfnState_Idle \<Rightarrow>
            (case thread_wait s (ntfnBoundTCB n) of
               Some (Ep e, ThreadState_BlockedOnReceive) \<Rightarrow>
                 wq' = wq(Ep e := remove1 (ntfnBoundTCB n) (wq (Ep e))) \<and> woken s' (ntfnBoundTCB n) badge \<and>
                 waiting_to_run s' rq' = insert (ntfnBoundTCB n) (waiting_to_run s rq) \<and>
                 ntfnMsgIdentifier n' = ntfnMsgIdentifier n
             | _ \<Rightarrow> wq' = wq \<and> rq' = rq \<and> ntfn_state n' = NtfnState_Active \<and> ntfnMsgIdentifier n' = badge)))"

lemma sendSignal_waiting:
  assumes inv: "ipc_inv s rq wq" and n: "ntfns s p = Some n" "ntfn_state n = NtfnState_Waiting"
  shows "\<exists>s' rq' wq'. sendSignal p badge s = Some s' \<and> ipc_inv s' rq' wq' \<and> signalled s rq wq p badge s' rq' wq'"
proof -
  note part = ipc_invD(4) [OF inv]
  have v: "obj_view s (Ntfn p) = Some (\<lparr>qhead = ntfnQueue_head n, qend = ntfnQueue_tail n\<rparr>,
      Some ThreadState_BlockedOnNotification)" using n by simp
  from wait_partD(2) [OF part v] have "wq (Ntfn p) \<noteq> []" by simp
  then obtain t ts where q: "wq (Ntfn p) = t # ts" by (cases "wq (Ntfn p)") auto
  then have mem: "t \<in> set (wq (Ntfn p))" by simp
  note live = queue_live [OF inv mem]
  from live(1) obtain T where T: "tcbs s t = Some T" by auto
  from wait_partD(2) [OF part v] q have tn: "t \<noteq> NULL" by (auto simp: dlist_def)
  have "\<forall>x \<in> set (wq (Ntfn p)). tcbs s x \<noteq> None" using queue_live(1) [OF inv] by blast
  from ntfnw.wake [OF part mem this] obtain s1 where s1: "ntfn_ptr_get_queue p s = Some (queue_of (wq (Ntfn p)))"
      "\<forall>K :: kstate \<Rightarrow> kstate option.
         do { (queue, s) \<leftarrow> tcbEPDequeue t (queue_of (wq (Ntfn p))) s; s \<leftarrow> ntfn_ptr_set_queue p queue s;
              s \<leftarrow> (if qhead queue = NULL then notification_ptr_set_state p NtfnState_Idle s else Some s); K s } = K s1"
      "wait_part s1 ((thread_wait s)(t := None)) (wq(Ntfn p := remove1 t (wq (Ntfn p))))"
      "tcbs s1 t = tcbs s t"
    and rl: "ep_relinked (set (wq (Ntfn p))) (tcbs s) (tcbs s1)"
    and o: "objs_erased s1 = objs_erased (s\<lparr>tcbs := tcbs s1\<rparr>)" by (elim exE conjE)
  note d = detached [OF inv rl o]
  have t1: "tcbs s1 t = Some T" using s1(4) T by simp
  have "\<exists>s' rq'. do { s \<leftarrow> setThreadState t ThreadState_Running s1; s \<leftarrow> setRegister t badgeRegister badge s;
                       possibleSwitchTo t s } = Some s' \<and>
    ipc_inv s' rq' (wq(Ntfn p := remove1 t (wq (Ntfn p)))) \<and> woken s' t badge \<and>
    waiting_to_run s' rq' = insert t (waiting_to_run s1 rq) \<and> eps s' = eps s1 \<and> ntfns s' = ntfns s1 \<and>
    (\<forall>u. u \<noteq> t \<longrightarrow> map_option tcbContext (tcbs s' u) = map_option tcbContext (tcbs s1 u))"
    by (rule deliver_step [OF d(1-3) t1 s1(3)]) (use live(2) in \<open>simp_all add: d\<close>)
  then obtain s' rq' where s': "do { s \<leftarrow> setThreadState t ThreadState_Running s1; s \<leftarrow> setRegister t badgeRegister badge s;
                       possibleSwitchTo t s } = Some s'"
    "ipc_inv s' rq' (wq(Ntfn p := remove1 t (wq (Ntfn p))))" "woken s' t badge"
    "waiting_to_run s' rq' = insert t (waiting_to_run s1 rq)" "ntfns s' = ntfns s1" by (elim exE conjE)
  have "sendSignal p badge s = Some s'"
    using n s1(1) q tn s'(1) s1(2) [rule_format, of "\<lambda>s. do { s \<leftarrow> setThreadState t ThreadState_Running s;
      s \<leftarrow> setRegister t badgeRegister badge s; possibleSwitchTo t s }"]
    by (simp add: sendSignal_def kmonad Let_def queue_of_def)
  moreover from relinked_bound(4) [OF rl o, of p] n(1) obtain n' where
    "ntfns s1 p = Some n'" "ntfnMsgIdentifier n' = ntfnMsgIdentifier n" by auto
  then have "signalled s rq wq p badge s' rq' (wq(Ntfn p := ts))"
    using n s' q d(5) by (auto simp: signalled_def)
  moreover have "remove1 t (wq (Ntfn p)) = ts" using q by simp
  ultimately show ?thesis using s'(2) by metis
qed

lemma no_null_thread: "sched_ok s rq \<Longrightarrow> tcbs s NULL = None"
  by (simp add: sched_ok_def ready_queues_ok_def tcbs_ok_def)

lemma wait_of_receive:
  "wait_of T = Some (w, ThreadState_BlockedOnReceive) \<longleftrightarrow>
     tsType (tcbState T) = ThreadState_BlockedOnReceive \<and> w = Ep (blockingObject (tcbState T))"
  by (auto simp: wait_of_def split: tsType_t.split)

lemma sendSignal_bound:
  assumes inv: "ipc_inv s rq wq" and n: "ntfns s p = Some n" "ntfn_state n = NtfnState_Idle"
    and w: "thread_wait s (ntfnBoundTCB n) = Some (Ep e, ThreadState_BlockedOnReceive)"
  shows "\<exists>s' rq' wq'. sendSignal p badge s = Some s' \<and> ipc_inv s' rq' wq' \<and> signalled s rq wq p badge s' rq' wq'"
proof -
  let ?t = "ntfnBoundTCB n" let ?wq = "wq(Ep e := remove1 ?t (wq (Ep e)))"
  from thread_wait_live [OF w] obtain T where T: "tcbs s ?t = Some T" by auto
  with w have ty: "tsType (tcbState T) = ThreadState_BlockedOnReceive" by (simp add: thread_wait_def wait_of_receive)
  have tn: "?t \<noteq> NULL" using T no_null_thread [OF ipc_invD(1) [OF inv]] by auto
  from cancelIPC_waiting [OF inv w] obtain s1 T1 where s1: "cancelIPC ?t s = Some s1" "ipc_inv s1 rq ?wq"
    and t1: "tcbs s1 ?t = Some T1" and in1: "tsType (tcbState T1) = ThreadState_Inactive"
    and wr: "waiting_to_run s1 rq = waiting_to_run s rq"
    and msg: "\<forall>p. map_option ntfnMsgIdentifier (ntfns s1 p) = map_option ntfnMsgIdentifier (ntfns s p)"
    by (elim exE conjE)
  have "idle_thread s1 (ksIdleThread s1)" by (rule sched_okD(11) [OF ipc_invD(1) [OF s1(2)]])
  with t1 in1 have id: "?t \<noteq> ksIdleThread s1" by (auto simp: idle_thread_def)
  have tw: "thread_wait s1 ?t = None" using t1 in1 by (simp add: thread_wait_def wait_of_def)
  have "\<exists>s' rq'. do { s \<leftarrow> setThreadState ?t ThreadState_Running s1; s \<leftarrow> setRegister ?t badgeRegister badge s;
                       possibleSwitchTo ?t s } = Some s' \<and>
    ipc_inv s' rq' ?wq \<and> woken s' ?t badge \<and>
    waiting_to_run s' rq' = insert ?t (waiting_to_run s1 rq) \<and> eps s' = eps s1 \<and> ntfns s' = ntfns s1 \<and>
    (\<forall>u. u \<noteq> ?t \<longrightarrow> map_option tcbContext (tcbs s' u) = map_option tcbContext (tcbs s1 u))"
    by (rule deliver_step [OF ipc_invD(1,2,5) [OF s1(2)] t1 ipc_invD(4) [OF s1(2)]]) (simp_all add: tw id)
  then obtain s' rq' where s': "do { s \<leftarrow> setThreadState ?t ThreadState_Running s1; s \<leftarrow> setRegister ?t badgeRegister badge s;
                       possibleSwitchTo ?t s } = Some s'"
    "ipc_inv s' rq' ?wq" "woken s' ?t badge"
    "waiting_to_run s' rq' = insert ?t (waiting_to_run s1 rq)" "ntfns s' = ntfns s1" by (elim exE conjE)
  have "sendSignal p badge s = Some s'"
    using n T ty tn s1(1) s'(1) by (simp add: sendSignal_def kmonad Let_def)
  moreover from msg [rule_format, of p] n(1) obtain n' where
    "ntfns s1 p = Some n'" "ntfnMsgIdentifier n' = ntfnMsgIdentifier n" by auto
  then have "signalled s rq wq p badge s' rq' ?wq"
    using n s' w wr by (auto simp: signalled_def)
  ultimately show ?thesis using s'(2) by metis
qed

lemma sendSignal_ok:
  assumes inv: "ipc_inv s rq wq" and n: "ntfns s p = Some n"
  shows "\<exists>s' rq' wq'. sendSignal p badge s = Some s' \<and> ipc_inv s' rq' wq' \<and> signalled s rq wq p badge s' rq' wq'"
proof (cases "ntfn_state n")
  case NtfnState_Waiting
  with sendSignal_waiting [OF inv n] show ?thesis .
next
  case NtfnState_Active
  let ?n = "n\<lparr>ntfnMsgIdentifier := ntfnMsgIdentifier n OR badge\<rparr>"
  let ?s = "s\<lparr>ntfns := (ntfns s)(p \<mapsto> ?n)\<rparr>"
  have "ipc_inv ?s rq wq" by (rule ntfn_state_step [OF inv n]) (use NtfnState_Active in simp_all)
  moreover have "sendSignal p badge s = Some ?s" using n NtfnState_Active by (simp add: sendSignal_def kmonad)
  moreover have "signalled s rq wq p badge ?s rq wq" using n NtfnState_Active by (simp add: signalled_def)
  ultimately show ?thesis by metis
next
  case NtfnState_Idle
  let ?t = "ntfnBoundTCB n"
  show ?thesis
  proof (cases "\<exists>e. thread_wait s ?t = Some (Ep e, ThreadState_BlockedOnReceive)")
    case True
    with sendSignal_bound [OF inv n NtfnState_Idle] show ?thesis by blast
  next
    case False
    let ?n = "n\<lparr>ntfn_state := NtfnState_Active, ntfnMsgIdentifier := badge\<rparr>"
    let ?s = "s\<lparr>ntfns := (ntfns s)(p \<mapsto> ?n)\<rparr>"
    have "\<exists>T. tcbs s ?t = Some T" if "?t \<noteq> NULL"
      using ipc_invD(5) [OF inv] n that unfolding bound_ok_def by blast
    moreover have "tsType (tcbState T) \<noteq> ThreadState_BlockedOnReceive" if "tcbs s ?t = Some T" for T
      using False that by (auto simp: thread_wait_def wait_of_receive)
    ultimately have "sendSignal p badge s = ntfn_set_active p badge s"
      using n NtfnState_Idle by (auto simp: sendSignal_def kmonad Let_def)
    then have run: "sendSignal p badge s = Some ?s"
      using n by (simp add: ntfn_set_active_def notification_ptr_set_state_def kmonad)
    have "ipc_inv ?s rq wq" by (rule ntfn_state_step [OF inv n]) (use NtfnState_Idle in simp_all)
    moreover have "signalled s rq wq p badge ?s rq wq" using n NtfnState_Idle False
      by (auto simp: signalled_def split: option.split wait_obj.split tsType_t.split)
    ultimately show ?thesis using run by metis
  qed
qed

section \<open>Receiving signals\<close>

lemma blocked_parts:
  "sched_part (T\<lparr>tcbState := X\<rparr>) = (sched_part T)\<lparr>tcbState := (tcbState blank_tcb)\<lparr>tcbQueued := tcbQueued X, tsType := tsType X\<rparr>\<rparr>"
  by (simp add: sched_part_def)

text \<open>A thread that is not in the scheduler's queues starts to wait: its state is written, the
  scheduler is told, and it joins the queue of the object (shared by signals and messages).\<close>

lemma wait_step:
  assumes inv: "ipc_inv s rq wq" and t: "tcbs s t = Some T" and out: "t \<notin> waiting_to_run s rq"
    and plain: "thread_wait s t = None" and idle: "t \<noteq> ksIdleThread s"
    and X: "tcbQueued X = tcbQueued (tcbState T)" "\<not> isRunnable (T\<lparr>tcbState := X\<rparr>)"
  shows "\<exists>s'. scheduleTCB t (s\<lparr>tcbs := (tcbs s)(t \<mapsto> T\<lparr>tcbState := X\<rparr>)\<rparr>) = Some s' \<and>
    sched_ok s' rq \<and> action_ok s' \<and> bound_ok s' \<and> wait_part s' (thread_wait s) wq \<and>
    tcbs s' = (tcbs s)(t \<mapsto> T\<lparr>tcbState := X\<rparr>) \<and> waiting_to_run s' rq = waiting_to_run s rq \<and>
    obj_view s' = obj_view s \<and> eps s' = eps s \<and> ntfns s' = ntfns s \<and> ctes s' = ctes s \<and> umem s' = umem s \<and>
    ksCurThread s' = ksCurThread s \<and>
    (t = ksCurThread s \<longrightarrow> ksSchedulerAction s' \<noteq> SchedulerAction_ResumeCurrentThread)"
proof -
  let ?T = "T\<lparr>tcbState := X\<rparr>" let ?s = "s\<lparr>tcbs := (tcbs s)(t \<mapsto> ?T)\<rparr>"
  let ?s' = "if t = ksCurThread s \<and> ksSchedulerAction s = 0 then set_action 1 ?s else ?s"
  have run: "scheduleTCB t ?s = Some ?s'" using X(2) by (simp add: scheduleTCB_def)
  have pl: "tcbDomain T < numDomains s" "tcbPriority T < 256"
    using sched_okD(1) [OF ipc_invD(1) [OF inv]] t by (auto simp: ready_queues_ok_def tcbs_ok_def)
  have ok: "sched_ok ?s rq"
    by (rule sched_ok_update [OF ipc_invD(1) [OF inv] t]) (use pl X out idle in \<open>auto simp: waiting_to_run_def\<close>)
  have act: "action_ok ?s"
    using ipc_invD(2) [OF inv] out t by (auto simp: action_ok_def waiting_to_run_def candidate_def runnable_def split: if_splits)
  have o: "obj_view ?s' = obj_view s" by (intro ext, rename_tac w, case_tac w) (simp_all add: set_action_def)
  have l: "ep_next ?s' = ep_next s" "ep_prev ?s' = ep_prev s"
    using t by (auto simp: link_of_def fun_eq_iff set_action_def)
  have "bound_ok ?s' = bound_ok s" by (rule bound_ok_cong) (use t in \<open>auto simp: set_action_def\<close>)
  then have "bound_ok ?s'" using ipc_invD(5) [OF inv] by simp
  moreover have "wait_part ?s' (thread_wait s) wq"
    using ipc_invD(4) [OF inv] by (simp only: wait_part_def o l)
  moreover have "sched_ok (if P then set_action a x else x) rq = sched_ok x rq" for P a x by simp
  then have "sched_ok ?s' rq" using ok by (simp only:)
  moreover have "action_ok ?s'" using act by (simp add: action_ok_def set_action_def)
  moreover have "waiting_to_run ?s' rq = waiting_to_run s rq"
    by (simp add: waiting_to_run_def candidate_def set_action_def)
  moreover have "eps ?s' = eps s" "ntfns ?s' = ntfns s" "ctes ?s' = ctes s" "umem ?s' = umem s"
    "ksCurThread ?s' = ksCurThread s" "tcbs ?s' = (tcbs s)(t \<mapsto> ?T)"
    "t = ksCurThread s \<longrightarrow> ksSchedulerAction ?s' \<noteq> 0" by (simp_all add: set_action_def)
  ultimately show ?thesis using run o by blast
qed

context wait_object
begin

text \<open>A thread that runs blocks on the object (shared by receiving signals, sending and receiving).\<close>

lemma block_step:
  assumes inv: "ipc_inv s rq wq" and t: "tcbs s t = Some T" and out: "t \<notin> waiting_to_run s rq"
    and plain: "thread_wait s t = None" and idl: "t \<noteq> ksIdleThread s"
    and X: "tcbQueued X = tcbQueued (tcbState T)" "wait_of (T\<lparr>tcbState := X\<rparr>) = Some (obj p, k)"
    and v: "obj_view s (obj p) = Some (q, m)" and m: "m = None \<or> m = mode st" and st: "mode st = Some k"
  shows "\<exists>s'. do { s \<leftarrow> scheduleTCB t (s\<lparr>tcbs := (tcbs s)(t \<mapsto> T\<lparr>tcbState := X\<rparr>)\<rparr>);
                   queue \<leftarrow> get p s; (queue, s) \<leftarrow> tcbEPAppend t queue s;
                   s \<leftarrow> put_state p st s; put p queue s } = Some s' \<and>
    ipc_inv s' rq (wq(obj p := wq (obj p) @ [t])) \<and> thread_wait s' t = Some (obj p, k) \<and>
    waiting_to_run s' rq = waiting_to_run s rq \<and> ksCurThread s' = ksCurThread s \<and>
    (t = ksCurThread s \<longrightarrow> ksSchedulerAction s' \<noteq> SchedulerAction_ResumeCurrentThread) \<and>
    map_option tcbState (tcbs s' t) = Some X"
proof -
  let ?T = "T\<lparr>tcbState := X\<rparr>"
  have nr: "\<not> isRunnable ?T" using X(2) by (auto simp: isRunnable_iff wait_of_def)
  from wait_step [OF inv t out plain idl X(1) nr] obtain s1 where
    s1: "scheduleTCB t (s\<lparr>tcbs := (tcbs s)(t \<mapsto> ?T)\<rparr>) = Some s1"
    and ok: "sched_ok s1 rq" "action_ok s1" "bound_ok s1" "wait_part s1 (thread_wait s) wq"
    and ts: "tcbs s1 = (tcbs s)(t \<mapsto> ?T)" and wr: "waiting_to_run s1 rq = waiting_to_run s rq"
    and o: "obj_view s1 = obj_view s" and cur: "ksCurThread s1 = ksCurThread s"
      "t = ksCurThread s \<longrightarrow> ksSchedulerAction s1 \<noteq> 0" by (elim exE conjE)
  have live: "\<forall>x \<in> set (wq (obj p)). tcbs s1 x \<noteq> None" using queue_live(1) [OF inv] by (auto simp: ts)
  have v1: "obj_view s1 (obj p) = Some (q, m)" by (simp add: o v)
  have tn: "t \<noteq> NULL" "tcbs s1 t \<noteq> None" using t ts no_null_thread [OF ipc_invD(1) [OF inv]] by auto
  from block [OF ok(4) v1 m st plain tn live] obtain s' where
    s': "do { queue \<leftarrow> get p s1; (queue, s) \<leftarrow> tcbEPAppend t queue s1; s \<leftarrow> put_state p st s; put p queue s } = Some s'"
    and part: "wait_part s' ((thread_wait s)(t \<mapsto> (obj p, k))) (wq(obj p := wq (obj p) @ [t]))"
    and rl: "ep_relinked (insert t (set (wq (obj p)))) (tcbs s1) (tcbs s')"
    and oe: "objs_erased s' = objs_erased (s1\<lparr>tcbs := tcbs s'\<rparr>)" by (elim exE conjE)
  note r = relinked_bound [OF rl oe]
  have tw: "thread_wait s' = (thread_wait s)(t \<mapsto> (obj p, k))"
    by (rule ext) (simp add: thread_wait_map r(5), simp add: ts X(2))
  then have "ipc_inv s' rq (wq(obj p := wq (obj p) @ [t]))"
    using part ok by (simp add: ipc_inv_def wait_ok_def keptD [OF r(2)] r(1))
  moreover have "thread_wait s' t = Some (obj p, k)" by (simp add: tw)
  moreover have "map_option tcbState (tcbs s' t) = map_option tcbState (tcbs s1 t)"
    by (rule map_option_part [where h = tcbState and g = ep_unlinked])
      (use rl in \<open>simp_all add: ep_relinked_def ep_unlinked_def\<close>)
  then have "map_option tcbState (tcbs s' t) = Some X" by (simp add: ts)
  ultimately show ?thesis using s1 s' wr cur kept_waiting [OF r(2)] keptD(6,8) [OF r(2)]
    by (intro exI [of _ s']) simp
qed

end

definition received ::
    "kstate \<Rightarrow> wait_lists \<Rightarrow> ptr \<Rightarrow> ptr \<Rightarrow> bool \<Rightarrow> kstate \<Rightarrow> wait_lists \<Rightarrow> bool" where
  "received s wq p t isBlocking s' wq' \<longleftrightarrow>
     (\<exists>n. ntfns s p = Some n \<and>
       (if ntfn_state n = NtfnState_Active then
          wq' = wq \<and> map_option (\<lambda>T. tcbContext T badgeRegister) (tcbs s' t) = Some (ntfnMsgIdentifier n) \<and>
          map_option ntfn_state (ntfns s' p) = Some NtfnState_Idle
        else if isBlocking then
          wq' = wq(Ntfn p := wq (Ntfn p) @ [t]) \<and> thread_wait s' t = Some (Ntfn p, ThreadState_BlockedOnNotification) \<and>
          (t = ksCurThread s \<longrightarrow> ksSchedulerAction s' \<noteq> SchedulerAction_ResumeCurrentThread)
        else wq' = wq \<and> map_option (\<lambda>T. tcbContext T badgeRegister) (tcbs s' t) = Some 0))"

lemma receiveSignal_ok:
  assumes inv: "ipc_inv s rq wq" and n: "ntfns s p = Some n" and t: "tcbs s t = Some T"
    and out: "t \<notin> waiting_to_run s rq" and plain: "thread_wait s t = None" and idle: "t \<noteq> ksIdleThread s"
    and c: "capNtfnPtr c = p"
  shows "\<exists>s' wq'. receiveSignal t c isBlocking s = Some s' \<and> ipc_inv s' rq wq' \<and>
    waiting_to_run s' rq = waiting_to_run s rq \<and> received s wq p t isBlocking s' wq'"
proof -
  have reg: "ipc_inv (s\<lparr>tcbs := (tcbs s)(t \<mapsto> T\<lparr>tcbContext := x\<rparr>)\<rparr>) rq wq"
    "waiting_to_run (s\<lparr>tcbs := (tcbs s)(t \<mapsto> T\<lparr>tcbContext := x\<rparr>)\<rparr>) rq = waiting_to_run s rq" for x
    using inv ipc_inv_thread [OF t, of "T\<lparr>tcbContext := x\<rparr>"]
      kept_waiting [OF ipc_inv_thread(2) [OF t, of "T\<lparr>tcbContext := x\<rparr>"]] by simp_all
  consider (active) "ntfn_state n = NtfnState_Active" | (block) "ntfn_state n \<noteq> NtfnState_Active" isBlocking
    | (poll) "ntfn_state n \<noteq> NtfnState_Active" "\<not> isBlocking" by blast
  then show ?thesis
  proof cases
    case active
    let ?s1 = "s\<lparr>tcbs := (tcbs s)(t \<mapsto> T\<lparr>tcbContext := (tcbContext T)(badgeRegister := ntfnMsgIdentifier n)\<rparr>)\<rparr>"
    let ?s = "?s1\<lparr>ntfns := (ntfns s)(p \<mapsto> n\<lparr>ntfn_state := NtfnState_Idle\<rparr>)\<rparr>"
    have "receiveSignal t c isBlocking s = Some ?s"
      using n t c active by (simp add: receiveSignal_def kmonad notification_ptr_set_state_def)
    moreover have n1: "ntfns ?s1 p = Some n" using n by simp
    have "ipc_inv ?s rq wq" using ntfn_state_step [OF reg(1) n1, of "n\<lparr>ntfn_state := NtfnState_Idle\<rparr>"] active by simp
    moreover have "received s wq p t isBlocking ?s wq" using n active by (simp add: received_def)
    moreover have "waiting_to_run ?s rq = waiting_to_run ?s1 rq" by (rule kept_waiting) simp
    ultimately show ?thesis using reg(2) by metis
  next
    case block
    define X where "X = (tcbState T)\<lparr>tsType := ThreadState_BlockedOnNotification, blockingObject := p\<rparr>"
    have X: "tcbQueued X = tcbQueued (tcbState T)"
      "wait_of (T\<lparr>tcbState := X\<rparr>) = Some (Ntfn p, ThreadState_BlockedOnNotification)"
      by (simp_all add: X_def wait_of_def)
    from n obtain q m where v: "obj_view s (Ntfn p) = Some (q, m)" and m: "m = ntfn_mode (ntfn_state n)" by simp
    have m': "m = None \<or> m = ntfn_mode NtfnState_Waiting" using m block by (cases "ntfn_state n") auto
    from ntfnw.block_step [OF inv t out plain idle X v m'] obtain s' where
      s': "do { s \<leftarrow> scheduleTCB t (s\<lparr>tcbs := (tcbs s)(t \<mapsto> T\<lparr>tcbState := X\<rparr>)\<rparr>);
                queue \<leftarrow> ntfn_ptr_get_queue p s; (queue, s) \<leftarrow> tcbEPAppend t queue s;
                s \<leftarrow> notification_ptr_set_state p NtfnState_Waiting s; ntfn_ptr_set_queue p queue s } = Some s'"
      "ipc_inv s' rq (wq(Ntfn p := wq (Ntfn p) @ [t]))" "thread_wait s' t = Some (Ntfn p, ThreadState_BlockedOnNotification)"
      "waiting_to_run s' rq = waiting_to_run s rq" "t = ksCurThread s \<longrightarrow> ksSchedulerAction s' \<noteq> 0"
      by auto
    have "receiveSignal t c isBlocking s = Some s'"
      using n t c block s'(1) by (simp add: receiveSignal_def kmonad X_def)
    moreover have "received s wq p t isBlocking s' (wq(Ntfn p := wq (Ntfn p) @ [t]))"
      using n block s' by (simp add: received_def)
    ultimately show ?thesis using s' by metis
  next
    case poll
    let ?s = "s\<lparr>tcbs := (tcbs s)(t \<mapsto> T\<lparr>tcbContext := (tcbContext T)(badgeRegister := 0)\<rparr>)\<rparr>"
    have "receiveSignal t c isBlocking s = Some ?s"
      using n t c poll by (simp add: receiveSignal_def doNBRecvFailedTransfer_def kmonad)
    moreover have "received s wq p t isBlocking ?s wq" using n poll by (simp add: received_def)
    ultimately show ?thesis using reg by metis
  qed
qed

section \<open>Cancelling every wait at an object\<close>

abbreviation thread_type :: "kstate \<Rightarrow> ptr \<Rightarrow> tsType_t option" where
  "thread_type s t \<equiv> map_option (\<lambda>T. tsType (tcbState T)) (tcbs s t)"

text \<open>One round of the loop.\<close>

lemma requeue_step:
  assumes ok: "sched_ok s rq" and act: "action_ok s" and b: "bound_ok s" and t: "tcbs s t = Some T"
    and part: "wait_part s tw wq" and idle: "t \<noteq> ksIdleThread s"
  shows "\<exists>s1 s' rq'. setThreadState t ThreadState_Restart s = Some s1 \<and> tcbSchedEnqueue t s1 = Some s' \<and>
    sched_ok s' rq' \<and> action_ok s' \<and> bound_ok s' \<and> wait_part s' tw wq \<and>
    waiting_to_run s' rq' = insert t (waiting_to_run s rq) \<and> ep_next s' = ep_next s \<and> ep_prev s' = ep_prev s \<and>
    ksIdleThread s' = ksIdleThread s \<and> thread_wait s' = (thread_wait s)(t := None) \<and>
    (\<forall>u. thread_type s' u = (if u = t then Some ThreadState_Restart else thread_type s u)) \<and>
    eps s' = eps s \<and> ntfns s' = ntfns s"
proof -
  let ?T = "T\<lparr>tcbState := (tcbState T)\<lparr>tsType := ThreadState_Restart\<rparr>\<rparr>"
  have "t \<in> waiting_to_run s rq \<longrightarrow> ThreadState_Restart = ThreadState_Running \<or> ThreadState_Restart = ThreadState_Restart"
    "t = ksIdleThread s \<longrightarrow> ThreadState_Restart = ThreadState_IdleThreadState" using idle by simp_all
  from state_step [OF ok act t this] obtain s1 where s1: "setThreadState t ThreadState_Restart s = Some s1"
    and ok1: "sched_ok s1 rq" "action_ok s1" and ts: "tcbs s1 = (tcbs s)(t \<mapsto> ?T)"
    and wr: "waiting_to_run s1 rq = waiting_to_run s rq" and oo: "eps s1 = eps s" "ntfns s1 = ntfns s"
    and b1: "bound_ok s1 = bound_ok s" and p1: "\<forall>tw wq. wait_part s1 tw wq = wait_part s tw wq" by (elim exE conjE)
  have run1: "runnable s1 t" using ts by (simp add: runnable_def isRunnable_def)
  from enqueue_runs(1) [OF ok1(1) run1] obtain s' where s': "tcbSchedEnqueue t s1 = Some s'" ..
  from enqueue_step [OF ok1(1) run1] s' obtain rq' where rq': "sched_ok s' rq'" "ready rq' = insert t (ready rq)" by blast
  note e = sched_op_erased(1) [OF s']
  note r = rest_erased [OF e]
  note f = rest_frame [OF r]
  have a: "ksSchedulerAction s' = ksSchedulerAction s1" by (rule sched_erasedD(7) [OF e])
  have "action_ok s'" using ok1(2) by (simp add: action_ok_def a rest_view(1) [OF r])
  moreover have "candidate s' = candidate s1" by (simp add: candidate_def a)
  then have "waiting_to_run s' rq' = insert t (waiting_to_run s rq)" using wr rq'(2) by (simp add: waiting_to_run_def)
  moreover have "thread_wait s1 = (thread_wait s)(t := None)"
    by (rule ext) (simp add: thread_wait_def ts wait_of_def)
  then have "thread_wait s' = (thread_wait s)(t := None)" by (simp add: f(2))
  moreover have "thread_type s' u = (if u = t then Some ThreadState_Restart else thread_type s u)" for u
    by (simp add: f(9) ts)
  moreover have "ep_next s1 = ep_next s" "ep_prev s1 = ep_prev s" using t by (auto simp: link_of_def fun_eq_iff ts)
  then have "ep_next s' = ep_next s" "ep_prev s' = ep_prev s" by (simp_all add: f(10,11))
  moreover have "ksIdleThread s1 = ksIdleThread s"
    using s1 t by (auto simp: setThreadState_def scheduleTCB_def kmonad set_action_def)
  then have "ksIdleThread s' = ksIdleThread s" by (simp add: restD(7) [OF r])
  moreover have "bound_ok s'" "wait_part s' tw wq" "eps s' = eps s" "ntfns s' = ntfns s"
    using b b1 p1 part oo by (simp_all add: f)
  ultimately show ?thesis using s1 s' rq'(1) by blast
qed

lemma restart_queue_ok:
  assumes "sched_ok s rq" and "action_ok s" and "bound_ok s" and "wait_part s tw wq"
    and "dseg (ep_next s) (ep_prev s) b ys NULL" and "distinct ys" and "NULL \<notin> set ys"
    and "\<forall>y \<in> set ys. tcbs s y \<noteq> None \<and> y \<noteq> ksIdleThread s"
    and "\<forall>u. tw u = (if u \<in> set ys then None else thread_wait s u)"
  shows "\<exists>s' rq'. restart_queue (first_or NULL ys) s = Some s' \<and> ipc_inv s' rq' wq \<and>
    waiting_to_run s' rq' = waiting_to_run s rq \<union> set ys \<and>
    (\<forall>u. thread_type s' u = (if u \<in> set ys then Some ThreadState_Restart else thread_type s u)) \<and>
    eps s' = eps s \<and> ntfns s' = ntfns s"
  using assms
proof (induction ys arbitrary: s rq b)
  case Nil
  have "tw = thread_wait s" using Nil.prems(9) by auto
  then have "ipc_inv s rq wq" using Nil.prems by (simp add: ipc_inv_def wait_ok_def)
  then show ?case by (intro exI [of _ s] exI [of _ rq]) (simp add: restart_queue.simps [of NULL])
next
  case (Cons y ys)
  from Cons.prems(8) obtain T where T: "tcbs s y = Some T" and yi: "y \<noteq> ksIdleThread s" by auto
  from requeue_step [OF Cons.prems(1-3) T Cons.prems(4) yi] obtain s1 s2 rq2 where
    s1: "setThreadState y ThreadState_Restart s = Some s1" and s2: "tcbSchedEnqueue y s1 = Some s2"
    and ok2: "sched_ok s2 rq2" "action_ok s2" "bound_ok s2" "wait_part s2 tw wq"
    and wr: "waiting_to_run s2 rq2 = insert y (waiting_to_run s rq)"
    and l: "ep_next s2 = ep_next s" "ep_prev s2 = ep_prev s" and id: "ksIdleThread s2 = ksIdleThread s"
    and tw2: "thread_wait s2 = (thread_wait s)(y := None)"
    and ty: "\<forall>u. thread_type s2 u = (if u = y then Some ThreadState_Restart else thread_type s u)"
    and o: "eps s2 = eps s" "ntfns s2 = ntfns s" by (elim exE conjE)
  have seg: "dseg (ep_next s2) (ep_prev s2) y ys NULL" using Cons.prems(5) by (simp add: l)
  have live: "tcbs s2 u \<noteq> None \<longleftrightarrow> tcbs s u \<noteq> None" for u
    using ty [rule_format, of u] T by (cases "tcbs s u"; cases "tcbs s2 u") (auto split: if_splits)
  have ys: "distinct ys" "NULL \<notin> set ys" "\<forall>z \<in> set ys. tcbs s2 z \<noteq> None \<and> z \<noteq> ksIdleThread s2"
    using Cons.prems by (simp_all add: live id del: not_None_eq)
  have tw': "\<forall>u. tw u = (if u \<in> set ys then None else thread_wait s2 u)"
    using Cons.prems(9) by (simp add: tw2)
  from live [of y] T obtain T2 where T2: "tcbs s2 y = Some T2" by auto
  then have nx: "tcbEPNext T2 = first_or NULL ys" using Cons.prems(5) l(1) by (metis dseg.simps(2) link_of_Some)
  have "y \<noteq> NULL" using Cons.prems(7) by auto
  then have step: "restart_queue (first_or NULL (y # ys)) s = restart_queue (first_or NULL ys) s2"
    using s1 s2 T2 nx by (simp add: restart_queue.simps [of y])
  from Cons.IH [OF ok2 seg ys tw'] obtain s' rq' where "restart_queue (first_or NULL ys) s2 = Some s'"
    "ipc_inv s' rq' wq" "waiting_to_run s' rq' = waiting_to_run s2 rq2 \<union> set ys"
    "\<forall>u. thread_type s' u = (if u \<in> set ys then Some ThreadState_Restart else thread_type s2 u)"
    "eps s' = eps s2" "ntfns s' = ntfns s2" by (elim exE conjE)
  then show ?case using step wr ty o by (intro exI [of _ s'] exI [of _ rq']) auto
qed

text \<open>The object has been cut off its queue.\<close>

lemma cut_off:
  assumes inv: "ipc_inv s rq wq" and v: "obj_view s w = Some (q, m)"
    and o: "obj_view s' = (obj_view s)(w \<mapsto> (queue_of [], None))" and e: "objs_erased s' = objs_erased s"
  defines "tw \<equiv> \<lambda>u. if u \<in> set (wq w) then None else thread_wait s u"
  shows "sched_ok s' rq" and "action_ok s'" and "bound_ok s'" and "wait_part s' tw (wq(w := []))"
    and "waiting_to_run s' rq = waiting_to_run s rq" and "ksIdleThread s' = ksIdleThread s" and "tcbs s' = tcbs s"
    and "ep_next s' = ep_next s" and "ep_prev s' = ep_prev s" and "thread_wait s' = thread_wait s"
proof -
  note x = objs_erasedD [OF e]
  show t: "tcbs s' = tcbs s" by (rule x)
  show "waiting_to_run s' rq = waiting_to_run s rq" by (rule kept_waiting [OF x(2)])
  show l: "ep_next s' = ep_next s" "ep_prev s' = ep_prev s" by (simp_all add: ep_links_tcbs t)
  show "sched_ok s' rq" "action_ok s'" "ksIdleThread s' = ksIdleThread s"
    using ipc_invD [OF inv] by (simp_all add: keptD [OF x(2)])
  show "bound_ok s'" using ipc_invD(5) [OF inv] bound_ok_cong [of s' s] x(5) t by simp
  show "thread_wait s' = thread_wait s" by (simp add: thread_wait_def fun_eq_iff t)
  show "wait_part s' tw (wq(w := []))"
    unfolding wait_part_def l
    by (rule wait_inv_step [OF ipc_invD(4) [OF inv, unfolded wait_part_def] o]) (auto simp: tw_def)
qed

lemma reschedule_step:
  assumes inv: "ipc_inv s rq wq"
  shows "\<exists>s' rq'. rescheduleRequired s = Some s' \<and> ipc_inv s' rq' wq \<and> rest s' = rest s \<and>
    waiting_to_run s' rq' = waiting_to_run s rq"
proof -
  from rescheduleRequired_ok [OF ipc_invD(1,2) [OF inv]] obtain s' rq' where
    s': "rescheduleRequired s = Some s'" "sched_ok s' rq'" and r: "rest s' = rest s"
    and a: "ksSchedulerAction s' = 1" and rd: "ready rq' = ready rq \<union> candidate s" by (elim exE conjE)
  have "action_ok s'" "candidate s' = {}" by (simp_all add: action_ok_def candidate_def a)
  then show ?thesis using s' r rd ipc_invD(3,5) [OF inv]
    by (intro exI [of _ s'] exI [of _ rq']) (simp add: ipc_inv_def rest_frame(3,4) [OF r] waiting_to_run_def)
qed

text \<open>The loop and the end of \<open>cancelAllIPC\<close> and \<open>cancelAllSignals\<close>, once the object is cut off.\<close>

lemma restart_all:
  assumes inv: "ipc_inv s rq wq" and v: "obj_view s w = Some (q, m)"
    and o: "obj_view s1 = (obj_view s)(w \<mapsto> (queue_of [], None))" and e: "objs_erased s1 = objs_erased s"
  shows "\<exists>s' rq'. do { s \<leftarrow> restart_queue (qhead q) s1; rescheduleRequired s } = Some s' \<and>
    ipc_inv s' rq' (wq(w := [])) \<and> waiting_to_run s' rq' = waiting_to_run s rq \<union> set (wq w) \<and>
    (\<forall>u. thread_type s' u = (if u \<in> set (wq w) then Some ThreadState_Restart else thread_type s u))"
proof -
  note c = cut_off [OF inv v o e]
  from wait_partD(2) [OF ipc_invD(4) [OF inv] v] have q: "q = queue_of (wq w)"
    and d: "dlist (ep_next s) (ep_prev s) (wq w)" by auto
  have seg: "dseg (ep_next s1) (ep_prev s1) NULL (wq w) NULL" and dn: "distinct (wq w)" "NULL \<notin> set (wq w)"
    using d by (auto simp: dlist_def c)
  have lv: "\<forall>y \<in> set (wq w). tcbs s1 y \<noteq> None \<and> y \<noteq> ksIdleThread s1"
    using queue_live(1,2) [OF inv] by (simp add: c del: not_None_eq)
  have tw: "\<forall>u. (if u \<in> set (wq w) then None else thread_wait s u) = (if u \<in> set (wq w) then None else thread_wait s1 u)"
    by (simp add: c(10))
  from restart_queue_ok [OF c(1-4) seg dn lv tw] obtain s2 rq2 where
    s2: "restart_queue (first_or NULL (wq w)) s1 = Some s2" "ipc_inv s2 rq2 (wq(w := []))"
    "waiting_to_run s2 rq2 = waiting_to_run s1 rq \<union> set (wq w)"
    "\<forall>u. thread_type s2 u = (if u \<in> set (wq w) then Some ThreadState_Restart else thread_type s1 u)"
    by (elim exE conjE)
  from reschedule_step [OF s2(2)] obtain s' rq' where s': "rescheduleRequired s2 = Some s'"
    "ipc_inv s' rq' (wq(w := []))" and r: "rest s' = rest s2"
    and wr: "waiting_to_run s' rq' = waiting_to_run s2 rq2" by (elim exE conjE)
  have "do { s \<leftarrow> restart_queue (qhead q) s1; rescheduleRequired s } = Some s'"
    using s2(1) s'(1) q by (simp add: queue_of_def)
  then show ?thesis using s'(2) s2(3,4) wr
    by (intro exI [of _ s'] exI [of _ rq']) (simp add: c rest_frame(9) [OF r])
qed

lemma cancelAllIPC_ok:
  assumes inv: "ipc_inv s rq wq" and ep: "eps s p = Some e"
  shows "\<exists>s' rq'. cancelAllIPC p s = Some s' \<and> ipc_inv s' rq' (wq(Ep p := [])) \<and>
    waiting_to_run s' rq' = waiting_to_run s rq \<union> set (wq (Ep p)) \<and>
    (\<forall>u. thread_type s' u = (if u \<in> set (wq (Ep p)) then Some ThreadState_Restart else thread_type s u))"
proof (cases "ep_state e = EPState_Idle")
  case True
  have v: "obj_view s (Ep p) = Some (\<lparr>qhead = epQueue_head e, qend = epQueue_tail e\<rparr>, None)" using ep True by simp
  from wait_partD(2) [OF ipc_invD(4) [OF inv] v] have "wq (Ep p) = []" by simp
  moreover from this have "wq(Ep p := []) = wq" by auto
  moreover have "cancelAllIPC p s = Some s" using ep True by (simp add: cancelAllIPC_def)
  ultimately show ?thesis using inv by (intro exI [of _ s] exI [of _ rq]) simp
next
  case False
  let ?e = "e\<lparr>ep_state := EPState_Idle, epQueue_head := NULL, epQueue_tail := NULL\<rparr>"
  let ?s = "s\<lparr>eps := (eps s)(p \<mapsto> ?e)\<rparr>"
  let ?q = "\<lparr>qhead = epQueue_head e, qend = epQueue_tail e\<rparr>"
  have v: "obj_view s (Ep p) = Some (?q, ep_mode (ep_state e))" using ep by simp
  have o: "obj_view ?s = (obj_view s)(Ep p \<mapsto> (queue_of [], None))"
    by (rule ext, rename_tac w, case_tac w) (simp_all add: queue_of_def)
  have x: "objs_erased ?s = objs_erased s" using ep by (auto simp: objs_erased_def fun_eq_iff)
  have "cancelAllIPC p s = do { s \<leftarrow> restart_queue (qhead ?q) ?s; rescheduleRequired s }"
    using ep False by (cases "ep_state e") (simp_all add: cancelAllIPC_def endpoint_ptr_set_state_def kmonad)
  with restart_all [OF inv v o x] show ?thesis by simp
qed

lemma cancelAllSignals_ok:
  assumes inv: "ipc_inv s rq wq" and n: "ntfns s p = Some n"
  shows "\<exists>s' rq'. cancelAllSignals p s = Some s' \<and> ipc_inv s' rq' (wq(Ntfn p := [])) \<and>
    waiting_to_run s' rq' = waiting_to_run s rq \<union> set (wq (Ntfn p)) \<and>
    (\<forall>u. thread_type s' u = (if u \<in> set (wq (Ntfn p)) then Some ThreadState_Restart else thread_type s u))"
proof (cases "ntfn_state n = NtfnState_Waiting")
  case False
  have v: "obj_view s (Ntfn p) = Some (\<lparr>qhead = ntfnQueue_head n, qend = ntfnQueue_tail n\<rparr>, None)" using n False by simp
  from wait_partD(2) [OF ipc_invD(4) [OF inv] v] have "wq (Ntfn p) = []" by simp
  moreover from this have "wq(Ntfn p := []) = wq" by auto
  moreover have "cancelAllSignals p s = Some s" using n False by (simp add: cancelAllSignals_def)
  ultimately show ?thesis using inv by (intro exI [of _ s] exI [of _ rq]) simp
next
  case True
  let ?n = "n\<lparr>ntfn_state := NtfnState_Idle, ntfnQueue_head := NULL, ntfnQueue_tail := NULL\<rparr>"
  let ?s = "s\<lparr>ntfns := (ntfns s)(p \<mapsto> ?n)\<rparr>"
  let ?q = "\<lparr>qhead = ntfnQueue_head n, qend = ntfnQueue_tail n\<rparr>"
  have v: "obj_view s (Ntfn p) = Some (?q, ntfn_mode (ntfn_state n))" using n by simp
  have o: "obj_view ?s = (obj_view s)(Ntfn p \<mapsto> (queue_of [], None))"
    by (rule ext, rename_tac w, case_tac w) (simp_all add: queue_of_def)
  have x: "objs_erased ?s = objs_erased s" using n by (auto simp: objs_erased_def fun_eq_iff)
  have "cancelAllSignals p s = do { s \<leftarrow> restart_queue (qhead ?q) ?s; rescheduleRequired s }"
    using n True by (simp add: cancelAllSignals_def notification_ptr_set_state_def kmonad)
  with restart_all [OF inv v o x] show ?thesis by simp
qed

section \<open>Cancelling the sends with a badge\<close>

lemma wait_part_relinked:
  assumes part: "wait_part s tw wq" and rl: "ep_relinked X (tcbs s) ts" and X: "\<forall>u \<in> X. tw u = None"
  shows "wait_part (s\<lparr>tcbs := ts\<rparr>) tw wq"
proof -
  have "dlist (next_of ts) (prev_of ts) (wq w) = dlist (next_of (tcbs s)) (prev_of (tcbs s)) (wq w)" for w
  proof (rule dlist_cong)
    fix x assume "x \<in> set (wq w)"
    with wait_partD(3) [OF part, of x w] X have "x \<notin> X" by auto
    with rl show "next_of ts x = next_of (tcbs s) x \<and> prev_of ts x = prev_of (tcbs s) x"
      by (simp add: ep_relinked_def link_of_def)
  qed
  then show ?thesis using part by (simp add: wait_part_def wait_inv_def ep_links_tcbs)
qed

abbreviation badge_of :: "kstate \<Rightarrow> ptr \<Rightarrow> word_t option" where
  "badge_of s t \<equiv> map_option (\<lambda>T. blockingIPCBadge (tcbState T)) (tcbs s t)"

text \<open>A thread with the badge restarts and leaves the queue.\<close>

lemma badge_step:
  assumes ok: "sched_ok s rq" and act: "action_ok s" and b: "bound_ok s" and part: "wait_part s tw wq"
    and d: "dlist (ep_next s) (ep_prev s) xs" and y: "y \<in> set xs"
    and live: "\<forall>u \<in> set xs. tcbs s u \<noteq> None \<and> u \<noteq> ksIdleThread s \<and> tw u = None"
  shows "\<exists>s1 s2 s' rq'. setThreadState y ThreadState_Restart s = Some s1 \<and> tcbSchedEnqueue y s1 = Some s2 \<and>
    tcbEPDequeue y (queue_of xs) s2 = Some (queue_of (remove1 y xs), s') \<and>
    sched_ok s' rq' \<and> action_ok s' \<and> bound_ok s' \<and> wait_part s' tw wq \<and>
    dlist (ep_next s') (ep_prev s') (remove1 y xs) \<and> ksIdleThread s' = ksIdleThread s \<and>
    waiting_to_run s' rq' = insert y (waiting_to_run s rq) \<and> thread_wait s' = (thread_wait s)(y := None) \<and>
    (\<forall>u. thread_type s' u = (if u = y then Some ThreadState_Restart else thread_type s u)) \<and>
    (\<forall>u. u \<noteq> y \<longrightarrow> badge_of s' u = badge_of s u) \<and> eps s' = eps s \<and> ntfns s' = ntfns s"
proof -
  from live y obtain T where T: "tcbs s y = Some T" and yi: "y \<noteq> ksIdleThread s" by auto
  from requeue_step [OF ok act b T part yi] obtain s1 s2 rq' where
    s1: "setThreadState y ThreadState_Restart s = Some s1" and s2: "tcbSchedEnqueue y s1 = Some s2"
    and ok2: "sched_ok s2 rq'" "action_ok s2" "bound_ok s2" "wait_part s2 tw wq"
    and wr: "waiting_to_run s2 rq' = insert y (waiting_to_run s rq)"
    and l: "ep_next s2 = ep_next s" "ep_prev s2 = ep_prev s" and id: "ksIdleThread s2 = ksIdleThread s"
    and tw2: "thread_wait s2 = (thread_wait s)(y := None)"
    and ty: "\<forall>u. thread_type s2 u = (if u = y then Some ThreadState_Restart else thread_type s u)"
    and o: "eps s2 = eps s" "ntfns s2 = ntfns s" by (elim exE conjE)
  have bd: "badge_of s2 u = badge_of s u" if "u \<noteq> y" for u
  proof -
    have "tcbs s1 = (tcbs s)(y \<mapsto> T\<lparr>tcbState := (tcbState T)\<lparr>tsType := ThreadState_Restart\<rparr>\<rparr>)"
      using s1 T by (auto simp: setThreadState_def scheduleTCB_def kmonad set_action_def)
    moreover have "badge_of s2 u = badge_of s1 u"
      by (rule map_option_part [of _ "\<lambda>T. blockingIPCBadge (tcbState T)", OF _ sched_erasedD(1) [OF sched_op_erased(1) [OF s2]]])
         (simp add: tcb_unqueued_def)
    ultimately show ?thesis using that by simp
  qed
  have live2: "\<And>u. u \<in> set xs \<Longrightarrow> tcbs s2 u \<noteq> None"
    using ty live T by (metis option.map_disc_iff option.distinct(1))
  have d2: "dlist (next_of (tcbs s2)) (prev_of (tcbs s2)) xs" using d by (simp only: l [symmetric] ep_links_tcbs [symmetric])
  from tcbEPDequeue_ok [OF d2 y live2] obtain ts where
    dq: "tcbEPDequeue y (queue_of xs) s2 = Some (queue_of (remove1 y xs), s2\<lparr>tcbs := ts\<rparr>)" and
    d': "dlist (next_of ts) (prev_of ts) (remove1 y xs)" and rl: "ep_relinked (set xs) (tcbs s2) ts" by auto
  let ?s = "s2\<lparr>tcbs := ts\<rparr>"
  have rl': "ep_relinked (set xs) (tcbs s2) (tcbs ?s)" "objs_erased ?s = objs_erased (s2\<lparr>tcbs := tcbs ?s\<rparr>)"
    using rl by simp_all
  note r = relinked_bound [OF rl']
  have e: "map_option ep_unlinked (ts u) = map_option ep_unlinked (tcbs s2 u)" for u using rl by (simp add: ep_relinked_def)
  have ty': "thread_type ?s u = thread_type s2 u" for u
    using map_option_part [of "\<lambda>T. tsType (tcbState T)" "\<lambda>T. tsType (tcbState T)", OF _ e] by (simp add: ep_unlinked_def)
  have bd': "badge_of ?s u = badge_of s2 u" for u
    using map_option_part [of "\<lambda>T. blockingIPCBadge (tcbState T)" "\<lambda>T. blockingIPCBadge (tcbState T)", OF _ e]
    by (simp add: ep_unlinked_def)
  have "wait_part ?s tw wq" using wait_part_relinked [OF ok2(4) rl] live by blast
  moreover have "thread_wait ?s = (thread_wait s)(y := None)"
    unfolding tw2 [symmetric] by (rule ext) (simp add: thread_wait_map r(5) [simplified])
  moreover have "sched_ok ?s rq'" "action_ok ?s" "bound_ok ?s" "ksIdleThread ?s = ksIdleThread s"
    using ok2 by (simp_all add: keptD [OF r(2)] r(1) id)
  moreover have "waiting_to_run ?s rq' = insert y (waiting_to_run s rq)" using kept_waiting [OF r(2)] wr by simp
  moreover have "dlist (ep_next ?s) (ep_prev ?s) (remove1 y xs)" using d' by (simp only: ep_links_tcbs) simp
  moreover have "\<forall>u. thread_type ?s u = (if u = y then Some ThreadState_Restart else thread_type s u)"
    using ty by (simp only: ty') simp
  moreover have "\<forall>u. u \<noteq> y \<longrightarrow> badge_of ?s u = badge_of s u" using bd by (simp only: bd') simp
  ultimately show ?thesis using s1 s2 dq o
    by (intro exI [of _ s1] exI [of _ s2] exI [of _ ?s] exI [of _ rq']) simp
qed

lemma cancelBadgedSends_loop_ok:
  assumes "sched_ok s rq" and "action_ok s" and "bound_ok s" and "wait_part s tw wq"
    and "dlist (ep_next s) (ep_prev s) (ks @ ys)"
    and "\<forall>u \<in> set (ks @ ys). tcbs s u \<noteq> None \<and> u \<noteq> ksIdleThread s \<and> tw u = None"
    and "\<forall>u \<in> set ys. P u \<longleftrightarrow> badge_of s u \<noteq> Some badge"
  shows "\<exists>s' rq'. cancelBadgedSends_loop (first_or NULL ys) badge (queue_of (ks @ ys)) s =
      Some (queue_of (ks @ filter P ys), s') \<and>
    sched_ok s' rq' \<and> action_ok s' \<and> bound_ok s' \<and> wait_part s' tw wq \<and>
    dlist (ep_next s') (ep_prev s') (ks @ filter P ys) \<and>
    waiting_to_run s' rq' = waiting_to_run s rq \<union> {y \<in> set ys. \<not> P y} \<and>
    thread_wait s' = (\<lambda>u. if u \<in> set ys \<and> \<not> P u then None else thread_wait s u) \<and>
    (\<forall>u. thread_type s' u = (if u \<in> set ys \<and> \<not> P u then Some ThreadState_Restart else thread_type s u)) \<and>
    eps s' = eps s \<and> ntfns s' = ntfns s"
  using assms
proof (induction ys arbitrary: s rq ks)
  case Nil
  then show ?case by (intro exI [of _ s] exI [of _ rq]) (simp add: cancelBadgedSends_loop.simps [of NULL])
next
  case (Cons y ys)
  from Cons.prems(6) obtain T where T: "tcbs s y = Some T" by auto
  from Cons.prems(5) have dist: "distinct (ks @ y # ys)" and yn: "y \<noteq> NULL" and nx: "tcbEPNext T = first_or NULL ys"
    using dlist_link_facts(1) [OF Cons.prems(5)] T by (auto simp: dlist_def)
  have P: "P y \<longleftrightarrow> blockingIPCBadge (tcbState T) \<noteq> badge" using Cons.prems(7) T by simp
  show ?case
  proof (cases "P y")
    case True
    have step: "cancelBadgedSends_loop (first_or NULL (y # ys)) badge (queue_of (ks @ y # ys)) s =
        cancelBadgedSends_loop (first_or NULL ys) badge (queue_of ((ks @ [y]) @ ys)) s"
      using True P T nx yn by (simp add: cancelBadgedSends_loop.simps [of y])
    have pr: "dlist (ep_next s) (ep_prev s) ((ks @ [y]) @ ys)"
      "\<forall>u \<in> set ((ks @ [y]) @ ys). tcbs s u \<noteq> None \<and> u \<noteq> ksIdleThread s \<and> tw u = None"
      "\<forall>u \<in> set ys. P u \<longleftrightarrow> badge_of s u \<noteq> Some badge"
      using Cons.prems(5,6,7) by simp_all
    have "{z \<in> set (y # ys). \<not> P z} = {z \<in> set ys. \<not> P z}" "\<And>u. u \<in> set (y # ys) \<and> \<not> P u \<longleftrightarrow> u \<in> set ys \<and> \<not> P u"
      using True by auto
    with Cons.IH [OF Cons.prems(1-4) pr] show ?thesis using True by (simp only: step) simp
  next
    case False
    have rm: "remove1 y (ks @ y # ys) = ks @ ys" using dist by (simp add: remove1_split)
    have yin: "y \<in> set (ks @ y # ys)" by simp
    from badge_step [OF Cons.prems(1-5) yin Cons.prems(6)] obtain s1 s2 s3 rq3 where
      run: "setThreadState y ThreadState_Restart s = Some s1" "tcbSchedEnqueue y s1 = Some s2"
        "tcbEPDequeue y (queue_of (ks @ y # ys)) s2 = Some (queue_of (ks @ ys), s3)"
      and ok3: "sched_ok s3 rq3" "action_ok s3" "bound_ok s3" "wait_part s3 tw wq" "dlist (ep_next s3) (ep_prev s3) (ks @ ys)"
      and id: "ksIdleThread s3 = ksIdleThread s" and wr: "waiting_to_run s3 rq3 = insert y (waiting_to_run s rq)"
      and tw3: "thread_wait s3 = (thread_wait s)(y := None)"
      and ty: "\<forall>u. thread_type s3 u = (if u = y then Some ThreadState_Restart else thread_type s u)"
      and bd: "\<forall>u. u \<noteq> y \<longrightarrow> badge_of s3 u = badge_of s u" and o: "eps s3 = eps s" "ntfns s3 = ntfns s"
      unfolding rm by (elim exE conjE)
    have step: "cancelBadgedSends_loop (first_or NULL (y # ys)) badge (queue_of (ks @ y # ys)) s =
        cancelBadgedSends_loop (first_or NULL ys) badge (queue_of (ks @ ys)) s3"
      using False P T nx yn run by (simp add: cancelBadgedSends_loop.simps [of y])
    have pr: "\<forall>u \<in> set (ks @ ys). tcbs s3 u \<noteq> None \<and> u \<noteq> ksIdleThread s3 \<and> tw u = None"
    proof
      fix u assume u: "u \<in> set (ks @ ys)"
      with Cons.prems(6) have "tcbs s u \<noteq> None" "u \<noteq> ksIdleThread s" "tw u = None" by auto
      moreover from this ty [rule_format, of u] have "tcbs s3 u \<noteq> None" by (cases "tcbs s3 u") (auto split: if_splits)
      ultimately show "tcbs s3 u \<noteq> None \<and> u \<noteq> ksIdleThread s3 \<and> tw u = None" by (simp add: id)
    qed
    have bp: "\<forall>u \<in> set ys. P u \<longleftrightarrow> badge_of s3 u \<noteq> Some badge"
    proof
      fix u assume u: "u \<in> set ys"
      with dist bd have "badge_of s3 u = badge_of s u" by auto
      with Cons.prems(7) u show "P u \<longleftrightarrow> badge_of s3 u \<noteq> Some badge" by simp
    qed
    from Cons.IH [OF ok3 pr bp] obtain s' rq' where s': "cancelBadgedSends_loop (first_or NULL ys) badge (queue_of (ks @ ys)) s3 =
        Some (queue_of (ks @ filter P ys), s')" "sched_ok s' rq'" "action_ok s'" "bound_ok s'" "wait_part s' tw wq"
      "dlist (ep_next s') (ep_prev s') (ks @ filter P ys)"
      "waiting_to_run s' rq' = waiting_to_run s3 rq3 \<union> {y \<in> set ys. \<not> P y}"
      "thread_wait s' = (\<lambda>u. if u \<in> set ys \<and> \<not> P u then None else thread_wait s3 u)"
      "\<forall>u. thread_type s' u = (if u \<in> set ys \<and> \<not> P u then Some ThreadState_Restart else thread_type s3 u)"
      "eps s' = eps s3" "ntfns s' = ntfns s3" by (elim exE conjE)
    have "thread_wait s' = (\<lambda>u. if u \<in> set (y # ys) \<and> \<not> P u then None else thread_wait s u)"
      using s'(8) False by (auto simp: fun_eq_iff tw3)
    moreover have "\<forall>u. thread_type s' u = (if u \<in> set (y # ys) \<and> \<not> P u then Some ThreadState_Restart else thread_type s u)"
      using s'(9) ty False by auto
    moreover have "waiting_to_run s' rq' = waiting_to_run s rq \<union> {z \<in> set (y # ys). \<not> P z}"
      using s'(7) wr False by auto
    ultimately show ?thesis using s' step o False by (intro exI [of _ s'] exI [of _ rq']) simp
  qed
qed

text \<open>The threads that keep waiting are those whose badge differs, in their order.\<close>

lemma cancelBadgedSends_ok:
  fixes badge :: word_t
  assumes inv: "ipc_inv s rq wq" and ep: "eps s p = Some e" "ep_state e = EPState_Send"
  defines "P \<equiv> \<lambda>u. badge_of s u \<noteq> Some badge"
  shows "\<exists>s' rq'. cancelBadgedSends p badge s = Some s' \<and> ipc_inv s' rq' (wq(Ep p := filter P (wq (Ep p)))) \<and>
    waiting_to_run s' rq' = waiting_to_run s rq \<union> {u \<in> set (wq (Ep p)). \<not> P u} \<and>
    (\<forall>u. thread_type s' u =
       (if u \<in> set (wq (Ep p)) \<and> \<not> P u then Some ThreadState_Restart else thread_type s u))"
proof -
  let ?xs = "wq (Ep p)" let ?ys = "filter P ?xs"
  let ?e = "e\<lparr>ep_state := EPState_Idle, epQueue_head := NULL, epQueue_tail := NULL\<rparr>"
  let ?s = "s\<lparr>eps := (eps s)(p \<mapsto> ?e)\<rparr>"
  let ?tw = "\<lambda>u. if u \<in> set ?xs then None else thread_wait s u"
  have v: "obj_view s (Ep p) = Some (\<lparr>qhead = epQueue_head e, qend = epQueue_tail e\<rparr>, Some ThreadState_BlockedOnSend)"
    using ep by simp
  from wait_partD(2) [OF ipc_invD(4) [OF inv] v] have q: "\<lparr>qhead = epQueue_head e, qend = epQueue_tail e\<rparr> = queue_of ?xs"
    and d: "dlist (ep_next s) (ep_prev s) ?xs" by auto
  have o: "obj_view ?s = (obj_view s)(Ep p \<mapsto> (queue_of [], None))"
    by (rule ext, rename_tac w, case_tac w) (simp_all add: queue_of_def)
  have x: "objs_erased ?s = objs_erased s" using ep by (auto simp: objs_erased_def fun_eq_iff)
  note c = cut_off [OF inv v o x]
  have d1: "dlist (ep_next ?s) (ep_prev ?s) ([] @ ?xs)" using d by (simp only: c append_Nil)
  have lv: "\<forall>u \<in> set ([] @ ?xs). tcbs ?s u \<noteq> None \<and> u \<noteq> ksIdleThread ?s \<and> ?tw u = None"
    using queue_live(1,2) [OF inv] by (simp del: not_None_eq)
  have bp: "\<forall>u \<in> set ?xs. P u \<longleftrightarrow> badge_of ?s u \<noteq> Some badge" by (simp add: P_def)
  from cancelBadgedSends_loop_ok [OF c(1-4) d1 lv bp] obtain s2 rq2 where
    s2: "cancelBadgedSends_loop (first_or NULL ?xs) badge (queue_of ?xs) ?s = Some (queue_of ?ys, s2)"
    and ok2: "sched_ok s2 rq2" "action_ok s2" "bound_ok s2" "wait_part s2 ?tw (wq(Ep p := []))"
    and d2: "dlist (ep_next s2) (ep_prev s2) ?ys"
    and wr: "waiting_to_run s2 rq2 = waiting_to_run ?s rq \<union> {y \<in> set ?xs. \<not> P y}"
    and tw2: "thread_wait s2 = (\<lambda>u. if u \<in> set ?xs \<and> \<not> P u then None else thread_wait ?s u)"
    and ty: "\<forall>u. thread_type s2 u = (if u \<in> set ?xs \<and> \<not> P u then Some ThreadState_Restart else thread_type ?s u)"
    and o2: "eps s2 = eps ?s" unfolding append_Nil by (elim exE conjE)
  let ?m = "if ?ys = [] then EPState_Idle else EPState_Send"
  let ?e3 = "?e\<lparr>epQueue_head := first_or NULL ?ys, epQueue_tail := last_or NULL ?ys, ep_state := ?m\<rparr>"
  let ?s3 = "s2\<lparr>eps := (eps s2)(p \<mapsto> ?e3)\<rparr>"
  have nil: "qhead (queue_of ?ys) = NULL \<longleftrightarrow> ?ys = []"
    using d2 first_or_in [of ?ys NULL] by (cases "?ys = []") (auto simp: queue_of_def dlist_def)
  have put: "ep_ptr_set_queue p (queue_of ?ys) s2 =
      Some (s2\<lparr>eps := (eps s2)(p \<mapsto> ?e\<lparr>epQueue_head := first_or NULL ?ys, epQueue_tail := last_or NULL ?ys\<rparr>)\<rparr>)"
    using o2 by (simp add: ep_ptr_set_queue_def kmonad queue_of_def)
  have ord: "e\<lparr>ep_state := a, epQueue_head := b, epQueue_tail := b'\<rparr> =
      e\<lparr>epQueue_head := b, epQueue_tail := b', ep_state := a\<rparr>" for a b b' by (cases e) simp
  have run: "cancelBadgedSends p badge s = rescheduleRequired ?s3"
  proof (cases "?ys = []")
    case True
    then show ?thesis using ep q s2 put nil o2
      by (simp add: cancelBadgedSends_def ep_ptr_get_queue_def endpoint_ptr_set_state_def kmonad queue_of_def ord)
  next
    case False
    then show ?thesis using ep q s2 put nil o2
      by (simp add: cancelBadgedSends_def ep_ptr_get_queue_def endpoint_ptr_set_state_def kmonad queue_of_def)
  qed
  define s3 where "s3 = ?s3"
  have run3: "cancelBadgedSends p badge s = rescheduleRequired s3" unfolding s3_def by (rule run)
  have ov: "obj_view s3 = (obj_view s2)(Ep p \<mapsto> (queue_of ?ys, ep_mode ?m))"
    by (rule ext, rename_tac w, case_tac w) (simp_all add: queue_of_def s3_def)
  have ts3: "tcbs s3 = tcbs s2" "ntfns s3 = ntfns s2" by (simp_all add: s3_def)
  have l: "ep_next s3 = ep_next s2" "ep_prev s3 = ep_prev s2" by (simp_all only: ep_links_tcbs ts3)
  have st: "thread_wait s u = Some (Ep p, ThreadState_BlockedOnSend)" if "u \<in> set ?xs" for u
    using that wait_partD(3,4) [OF ipc_invD(4) [OF inv]] v by fastforce
  have "wait_inv (obj_view s3) (ep_next s2) (ep_prev s2) (thread_wait s2) (wq(Ep p := [], Ep p := ?ys))"
  proof (rule wait_inv_step [OF ok2(4) [unfolded wait_part_def] ov _ d2])
    fix u show "thread_wait s2 u = (if u \<in> set ?ys then Some (Ep p, the (ep_mode ?m))
        else if u \<in> set ((wq(Ep p := [])) (Ep p)) then None else ?tw u)"
      using st [of u] by (cases "?ys = []") (auto simp: tw2 c(10) filter_empty_conv)
  qed auto
  moreover have "thread_wait s3 = thread_wait s2" by (simp add: thread_wait_def fun_eq_iff ts3)
  ultimately have "wait_ok s3 (wq(Ep p := ?ys))" by (simp add: wait_ok_def wait_part_def l)
  moreover have k: "kept s3 = kept s2" by (simp add: s3_def)
  moreover have "bound_ok s3" using ok2(3) bound_ok_cong [of s3 s2] by (simp add: ts3)
  ultimately have inv3: "ipc_inv s3 rq2 (wq(Ep p := ?ys))" using ok2 by (simp add: ipc_inv_def keptD [OF k])
  from reschedule_step [OF inv3] obtain s' rq' where s': "rescheduleRequired s3 = Some s'"
    "ipc_inv s' rq' (wq(Ep p := ?ys))" and r: "rest s' = rest s3"
    and wr': "waiting_to_run s' rq' = waiting_to_run s3 rq2" by (elim exE conjE)
  have "thread_type s' u = thread_type s2 u" for u using rest_frame(9) [OF r] by (simp add: ts3)
  moreover have "waiting_to_run s' rq' = waiting_to_run s rq \<union> {y \<in> set ?xs. \<not> P y}"
    using wr' wr kept_waiting [OF k] c(5) by simp
  ultimately show ?thesis using run3 s' ty by (intro exI [of _ s'] exI [of _ rq']) simp
qed

section \<open>A concrete state\<close>

text \<open>The thread \<open>0x1400\<close> runs. \<open>0x2400\<close> receives on the endpoint \<open>0x9000\<close> and is bound to the
  notification \<open>0xA000\<close>; \<open>0x4400\<close> and \<open>0x5400\<close> wait for the notification \<open>0xB000\<close>; \<open>0x6400\<close> and
  \<open>0x7400\<close> send on the endpoint \<open>0xC000\<close> with badges 1 and 2.\<close>

definition waiter :: "tsType_t \<Rightarrow> ptr \<Rightarrow> word_t \<Rightarrow> ptr \<Rightarrow> ptr \<Rightarrow> tcb_t" where
  "waiter ty p b nx pv = blank_tcb
     \<lparr>tcbState := (tcbState blank_tcb)\<lparr>tsType := ty, blockingObject := p, blockingIPCBadge := b\<rparr>,
      tcbEPNext := nx, tcbEPPrev := pv\<rparr>"

definition ipc_threads :: "ptr \<Rightarrow> tcb_t option" where
  "ipc_threads =
     [0x1400 \<mapsto> waiter ThreadState_Running 0 0 0 0,
      0x3400 \<mapsto> waiter ThreadState_IdleThreadState 0 0 0 0,
      0x2400 \<mapsto> (waiter ThreadState_BlockedOnReceive 0x9000 0 0 0)\<lparr>tcbBoundNotification := 0xA000\<rparr>,
      0x4400 \<mapsto> waiter ThreadState_BlockedOnNotification 0xB000 0 0x5400 0,
      0x5400 \<mapsto> waiter ThreadState_BlockedOnNotification 0xB000 0 0 0x4400,
      0x6400 \<mapsto> waiter ThreadState_BlockedOnSend 0xC000 1 0x7400 0,
      0x7400 \<mapsto> waiter ThreadState_BlockedOnSend 0xC000 2 0 0x6400]"

definition ipc_state :: kstate where
  "ipc_state = sched_state
     \<lparr>tcbs := ipc_threads,
      eps := [0x9000 \<mapsto> \<lparr>epQueue_head = 0x2400, epQueue_tail = 0x2400, ep_state = EPState_Recv\<rparr>,
              0xC000 \<mapsto> \<lparr>epQueue_head = 0x6400, epQueue_tail = 0x7400, ep_state = EPState_Send\<rparr>],
      ntfns := [0xA000 \<mapsto> \<lparr>ntfnBoundTCB = 0x2400, ntfnMsgIdentifier = 0, ntfnQueue_head = NULL,
                           ntfnQueue_tail = NULL, ntfn_state = NtfnState_Idle\<rparr>,
                0xB000 \<mapsto> \<lparr>ntfnBoundTCB = NULL, ntfnMsgIdentifier = 0, ntfnQueue_head = 0x4400,
                           ntfnQueue_tail = 0x5400, ntfn_state = NtfnState_Waiting\<rparr>],
      ksSchedulerAction := SchedulerAction_ResumeCurrentThread\<rparr>"

definition ipc_queues :: wait_lists where
  "ipc_queues = (\<lambda>_. [])(Ep 0x9000 := [0x2400], Ntfn 0xB000 := [0x4400, 0x5400], Ep 0xC000 := [0x6400, 0x7400])"

lemma ipc_threads_wait:
  "thread_wait ipc_state = [0x2400 \<mapsto> (Ep 0x9000, ThreadState_BlockedOnReceive),
     0x4400 \<mapsto> (Ntfn 0xB000, ThreadState_BlockedOnNotification),
     0x5400 \<mapsto> (Ntfn 0xB000, ThreadState_BlockedOnNotification),
     0x6400 \<mapsto> (Ep 0xC000, ThreadState_BlockedOnSend), 0x7400 \<mapsto> (Ep 0xC000, ThreadState_BlockedOnSend)]"
  by (rule ext) (simp add: thread_wait_def ipc_state_def ipc_threads_def waiter_def wait_of_def)

lemma ipc_objects:
  "obj_view ipc_state = [Ep 0x9000 \<mapsto> (queue_of [0x2400], Some ThreadState_BlockedOnReceive),
     Ntfn 0xA000 \<mapsto> (queue_of [], None),
     Ntfn 0xB000 \<mapsto> (queue_of [0x4400, 0x5400], Some ThreadState_BlockedOnNotification),
     Ep 0xC000 \<mapsto> (queue_of [0x6400, 0x7400], Some ThreadState_BlockedOnSend)]"
  by (rule ext, rename_tac w, case_tac w) (simp_all add: ipc_state_def queue_of_def)

lemma ipc_state_wait: "wait_ok ipc_state ipc_queues"
proof -
  have l: "ep_next ipc_state 0x4400 = 0x5400" "ep_next ipc_state 0x5400 = 0" "ep_prev ipc_state 0x4400 = 0"
    "ep_prev ipc_state 0x5400 = 0x4400" "ep_next ipc_state 0x6400 = 0x7400" "ep_next ipc_state 0x7400 = 0"
    "ep_prev ipc_state 0x6400 = 0" "ep_prev ipc_state 0x7400 = 0x6400" "ep_next ipc_state 0x2400 = 0"
    "ep_prev ipc_state 0x2400 = 0"
    by (simp_all add: link_of_def ipc_state_def ipc_threads_def waiter_def)
  show ?thesis
    unfolding wait_ok_def wait_part_def wait_inv_def ipc_threads_wait ipc_objects
    by (intro conjI) (auto simp: ipc_queues_def dlist_def l split: if_splits)
qed

lemma ipc_state_sched: "sched_ok ipc_state (\<lambda>_ _. [])"
proof -
  have "dschedule_domain 5 = 0" "dschedule_duration 5 = 5"
    by (simp_all add: dschedule_domain_def dschedule_duration_def DSCHED_MAX_DURATION_def shiftr_def
        mask_eq_exp_minus_1)
  then show ?thesis
    by (auto simp: sched_ok_def ready_queues_ok_def tcbs_ok_def sched_state_def blank_state_def blank_tcb_def
        blank_queue_def queue_of_def in_queue_def bitmap_ok_def sched_env_def vspaces_wf_def pt_live_def
        findMapForASID_def ready_def dom_sched_ok_def idle_thread_def ipc_state_def ipc_threads_def waiter_def
        split: if_splits)
qed

lemma ipc_state_inv: "ipc_inv ipc_state (\<lambda>_ _. []) ipc_queues"
proof -
  have "action_ok ipc_state" by (simp add: action_ok_def ipc_state_def)
  moreover have "bound_ok ipc_state"
    by (auto simp: bound_ok_def ipc_state_def ipc_threads_def waiter_def blank_tcb_def split: if_splits)
  ultimately show ?thesis using ipc_state_wait ipc_state_sched by (simp add: ipc_inv_def)
qed

section \<open>Properties\<close>

text \<open>The queue operations of endpoints and notifications. On a doubly linked queue,
  \<open>tcbEPDequeue\<close> takes the thread out wherever it is: the new head and tail and the links of the
  threads that remain are those of the list without it, and nothing else of any thread changes.\<close>

theorem tcbEPDequeue_refines_remove:
  assumes "dlist (next_of (tcbs s)) (prev_of (tcbs s)) xs" and "t \<in> set xs"
    and "\<forall>x \<in> set xs. tcbs s x \<noteq> None"
  shows "\<exists>ts. tcbEPDequeue t (queue_of xs) s = Some (queue_of (remove1 t xs), s\<lparr>tcbs := ts\<rparr>) \<and>
    dlist (next_of ts) (prev_of ts) (remove1 t xs) \<and> ep_relinked (set xs) (tcbs s) ts \<and> ts t = tcbs s t"
  using tcbEPDequeue_ok [OF assms(1,2)] assms(3) by blast

theorem tcbEPDequeue_refines_remove_witness:
  "\<exists>s'. tcbEPDequeue 0x4400 (queue_of [0x4400, 0x5400]) ipc_state = Some (queue_of [0x5400], s')"
proof -
  have d: "dlist (next_of (tcbs ipc_state)) (prev_of (tcbs ipc_state)) [0x4400, 0x5400]"
    by (simp add: dlist_def link_of_def ipc_state_def ipc_threads_def waiter_def)
  have t: "0x4400 \<in> set [0x4400, 0x5400 :: ptr]" and rm: "remove1 0x4400 [0x4400, 0x5400 :: ptr] = [0x5400]"
    by simp_all
  have l: "\<forall>x \<in> set [0x4400, 0x5400]. tcbs ipc_state x \<noteq> None"
    by (simp add: ipc_state_def ipc_threads_def)
  from tcbEPDequeue_refines_remove [OF d t l] show ?thesis unfolding rm by blast
qed

text \<open>C24: a thread that cancels its wait. A thread blocked on an endpoint or a notification is taken
  out of that queue and no other, becomes inactive, the object becomes idle when nobody is left, and
  the invariants of the scheduler, the wait queues and the bindings hold again.\<close>

theorem cancelIPC_leaves_queue:
  assumes "ipc_inv s rq wq" and "thread_wait s t = Some (w, k)"
  shows "\<exists>s'. cancelIPC t s = Some s' \<and> ipc_inv s' rq (wq(w := remove1 t (wq w))) \<and>
    (\<exists>T'. tcbs s' t = Some T' \<and> tsType (tcbState T') = ThreadState_Inactive) \<and>
    waiting_to_run s' rq = waiting_to_run s rq \<and> ksIdleThread s' = ksIdleThread s \<and>
    (\<forall>p. map_option ntfnMsgIdentifier (ntfns s' p) = map_option ntfnMsgIdentifier (ntfns s p))"
  by (rule cancelIPC_waiting [OF assms])

theorem cancelIPC_leaves_queue_witness:
  "\<exists>s'. cancelIPC 0x7400 ipc_state = Some s' \<and> ipc_inv s' (\<lambda>_ _. []) (ipc_queues(Ep 0xC000 := [0x6400]))"
proof -
  have w: "thread_wait ipc_state 0x7400 = Some (Ep 0xC000, ThreadState_BlockedOnSend)"
    by (simp add: ipc_threads_wait)
  have "remove1 0x7400 (ipc_queues (Ep 0xC000)) = [0x6400]" by (simp add: ipc_queues_def)
  then show ?thesis using cancelIPC_leaves_queue [OF ipc_state_inv w] by auto
qed

text \<open>C25: sending a signal. \<open>sendSignal\<close> fails no assertion and keeps the invariants. If threads
  wait, the first of them, and only it, gets the badge and may run, the others keep waiting in
  order; if the bound thread is receiving on an endpoint it is taken out of that queue and gets the
  badge; otherwise the badge is remembered, combined by OR with badges not yet received.\<close>

theorem sendSignal_delivers:
  assumes "ipc_inv s rq wq" and "ntfns s p = Some n"
  shows "\<exists>s' rq' wq'. sendSignal p badge s = Some s' \<and> ipc_inv s' rq' wq' \<and> signalled s rq wq p badge s' rq' wq'"
  by (rule sendSignal_ok [OF assms])

theorem sendSignal_delivers_witness:
  "\<exists>s'. sendSignal 0xB000 5 ipc_state = Some s' \<and> woken s' 0x4400 5"
proof -
  let ?n = "\<lparr>ntfnBoundTCB = NULL, ntfnMsgIdentifier = 0, ntfnQueue_head = 0x4400,
              ntfnQueue_tail = 0x5400, ntfn_state = NtfnState_Waiting\<rparr>"
  have n: "ntfns ipc_state 0xB000 = Some ?n" by (simp add: ipc_state_def)
  have q: "ipc_queues (Ntfn 0xB000) = [0x4400, 0x5400]" by (simp add: ipc_queues_def)
  show ?thesis using sendSignal_delivers [OF ipc_state_inv n, of 5] n q by (auto simp: signalled_def)
qed

text \<open>C26: receiving a signal. A remembered badge is delivered and forgotten; otherwise a blocking
  receive puts the thread at the end of the queue and, if it is the current thread, asks for
  another one to run, and a poll returns the badge 0. The invariants are kept.\<close>

theorem receiveSignal_receives:
  assumes "ipc_inv s rq wq" and "ntfns s p = Some n" and "tcbs s t = Some T" and "t \<notin> waiting_to_run s rq"
    and "thread_wait s t = None" and "t \<noteq> ksIdleThread s" and "capNtfnPtr c = p"
  shows "\<exists>s' wq'. receiveSignal t c isBlocking s = Some s' \<and> ipc_inv s' rq wq' \<and>
    waiting_to_run s' rq = waiting_to_run s rq \<and> received s wq p t isBlocking s' wq'"
  by (rule receiveSignal_ok [OF assms])

theorem receiveSignal_receives_witness:
  "\<exists>s' wq'. receiveSignal 0x1400 (cap_notification_cap 0 True True 0xB000) True ipc_state = Some s' \<and>
     wq' (Ntfn 0xB000) = [0x4400, 0x5400, 0x1400] \<and> ipc_inv s' (\<lambda>_ _. []) wq'"
proof -
  let ?n = "\<lparr>ntfnBoundTCB = NULL, ntfnMsgIdentifier = 0, ntfnQueue_head = 0x4400,
              ntfnQueue_tail = 0x5400, ntfn_state = NtfnState_Waiting\<rparr>"
  have n: "ntfns ipc_state 0xB000 = Some ?n" by (simp add: ipc_state_def)
  have t: "tcbs ipc_state 0x1400 = Some (waiter ThreadState_Running 0 0 0 0)"
    by (simp add: ipc_state_def ipc_threads_def)
  have o: "0x1400 \<notin> waiting_to_run ipc_state (\<lambda>_ _. [])"
    by (simp add: waiting_to_run_def ready_def candidate_def ipc_state_def)
  have w: "thread_wait ipc_state 0x1400 = None" by (simp add: ipc_threads_wait)
  have i: "0x1400 \<noteq> ksIdleThread ipc_state" by (simp add: ipc_state_def sched_state_sel)
  have c: "capNtfnPtr (cap_notification_cap 0 True True 0xB000) = 0xB000" by simp
  from receiveSignal_receives [OF ipc_state_inv n t o w i c, of True] obtain s' wq' where
    s': "receiveSignal 0x1400 (cap_notification_cap 0 True True 0xB000) True ipc_state = Some s'"
    "ipc_inv s' (\<lambda>_ _. []) wq'" and r: "received ipc_state ipc_queues 0xB000 0x1400 True s' wq'"
    by (elim exE conjE)
  from r n have "wq' (Ntfn 0xB000) = [0x4400, 0x5400, 0x1400]" by (auto simp: received_def ipc_queues_def)
  with s' show ?thesis by blast
qed

text \<open>C27: cancelling all communication on an endpoint. The loop over the queue ends; every thread
  that waited, and no other, is set to restart and becomes ready, the queue is empty and the
  endpoint idle.\<close>

theorem cancelAllIPC_restarts_waiters:
  assumes "ipc_inv s rq wq" and "eps s p = Some e"
  shows "\<exists>s' rq'. cancelAllIPC p s = Some s' \<and> ipc_inv s' rq' (wq(Ep p := [])) \<and>
    waiting_to_run s' rq' = waiting_to_run s rq \<union> set (wq (Ep p)) \<and>
    (\<forall>u. thread_type s' u = (if u \<in> set (wq (Ep p)) then Some ThreadState_Restart else thread_type s u))"
  by (rule cancelAllIPC_ok [OF assms])

theorem cancelAllIPC_restarts_waiters_witness:
  "\<exists>s' rq'. cancelAllIPC 0xC000 ipc_state = Some s' \<and>
     waiting_to_run s' rq' = waiting_to_run ipc_state (\<lambda>_ _. []) \<union> {0x6400, 0x7400}"
proof -
  have "eps ipc_state 0xC000 = Some \<lparr>epQueue_head = 0x6400, epQueue_tail = 0x7400, ep_state = EPState_Send\<rparr>"
    by (simp add: ipc_state_def)
  from cancelAllIPC_restarts_waiters [OF ipc_state_inv this] obtain s' rq' where
    "cancelAllIPC 0xC000 ipc_state = Some s'"
    "waiting_to_run s' rq' = waiting_to_run ipc_state (\<lambda>_ _. []) \<union> set (ipc_queues (Ep 0xC000))" by (elim exE conjE)
  moreover have "set (ipc_queues (Ep 0xC000)) = {0x6400, 0x7400}" by (simp add: ipc_queues_def)
  ultimately show ?thesis by metis
qed

text \<open>C28: cancelling the sends that carry a badge. The queue of the endpoint becomes the sublist of
  the senders with another badge, in the same order; exactly the others restart and become
  ready.\<close>

theorem cancelBadgedSends_filters:
  assumes "ipc_inv s rq wq" and "eps s p = Some e" and "ep_state e = EPState_Send"
  shows "\<exists>s' rq'. cancelBadgedSends p badge s = Some s' \<and>
    ipc_inv s' rq' (wq(Ep p := filter (\<lambda>u. badge_of s u \<noteq> Some badge) (wq (Ep p)))) \<and>
    waiting_to_run s' rq' = waiting_to_run s rq \<union> {u \<in> set (wq (Ep p)). \<not> badge_of s u \<noteq> Some badge} \<and>
    (\<forall>u. thread_type s' u =
       (if u \<in> set (wq (Ep p)) \<and> \<not> badge_of s u \<noteq> Some badge then Some ThreadState_Restart else thread_type s u))"
  by (rule cancelBadgedSends_ok [OF assms])

theorem cancelBadgedSends_filters_witness:
  "\<exists>s' rq' wq'. cancelBadgedSends 0xC000 1 ipc_state = Some s' \<and> ipc_inv s' rq' wq' \<and> wq' (Ep 0xC000) = [0x7400]"
proof -
  have e: "eps ipc_state 0xC000 = Some \<lparr>epQueue_head = 0x6400, epQueue_tail = 0x7400, ep_state = EPState_Send\<rparr>"
    by (simp add: ipc_state_def)
  have "filter (\<lambda>u. badge_of ipc_state u \<noteq> Some 1) (ipc_queues (Ep 0xC000)) = [0x7400]"
    by (simp add: ipc_queues_def ipc_state_def ipc_threads_def waiter_def)
  moreover from cancelBadgedSends_filters [OF ipc_state_inv e, of 1] obtain s' rq' where
    "cancelBadgedSends 0xC000 1 ipc_state = Some s'"
    "ipc_inv s' rq' (ipc_queues(Ep 0xC000 := filter (\<lambda>u. badge_of ipc_state u \<noteq> Some 1) (ipc_queues (Ep 0xC000))))"
    unfolding endpoint_t.simps by blast
  ultimately show ?thesis by (metis fun_upd_same)
qed

end
