(* ===== verification/IPC_Transfer.thy ===== *)
theory IPC_Transfer
  imports IPC_Queues
begin

text \<open>
  The transfer of messages: message registers and the IPC buffer (\<^verbatim>\<open>src/object/tcb.c\<close>), fault
  messages and replies (\<^verbatim>\<open>src/api/faults.c\<close>), capability transfer (\<^verbatim>\<open>src/kernel/thread.c\<close>),
  sending and receiving on endpoints (\<^verbatim>\<open>src/object/endpoint.c\<close>) and the delivery of faults
  (\<^verbatim>\<open>src/kernel/faulthandler.c\<close>).
\<close>

section \<open>Message information\<close>

record seL4_MessageInfo_t =
  mi_label :: word_t
  mi_capsUnwrapped :: word_t
  mi_extraCaps :: word_t
  mi_length :: word_t

definition messageInfoFromWord_raw :: "word_t \<Rightarrow> seL4_MessageInfo_t" where
  "messageInfoFromWord_raw w =
     \<lparr>mi_label = shiftr w 12, mi_capsUnwrapped = shiftr w 9 AND MASK 3,
      mi_extraCaps = shiftr w 7 AND MASK 2, mi_length = w AND MASK 7\<rparr>"

definition messageInfoFromWord :: "word_t \<Rightarrow> seL4_MessageInfo_t" where
  "messageInfoFromWord w =
     (let mi = messageInfoFromWord_raw w in
      if mi_length mi > seL4_MsgMaxLength then mi\<lparr>mi_length := seL4_MsgMaxLength\<rparr> else mi)"

definition wordFromMessageInfo :: "seL4_MessageInfo_t \<Rightarrow> word_t" where
  "wordFromMessageInfo mi =
     shiftl (mi_label mi) 12 OR shiftl (mi_capsUnwrapped mi AND MASK 3) 9 OR
     shiftl (mi_extraCaps mi AND MASK 2) 7 OR (mi_length mi AND MASK 7)"

definition seL4_MessageInfo_new :: "word_t \<Rightarrow> word_t \<Rightarrow> word_t \<Rightarrow> word_t \<Rightarrow> seL4_MessageInfo_t" where
  "seL4_MessageInfo_new label unwrapped extra len =
     \<lparr>mi_label = label, mi_capsUnwrapped = unwrapped, mi_extraCaps = extra, mi_length = len\<rparr>"

section \<open>Message registers\<close>

definition setMR :: "ptr \<Rightarrow> ptr \<Rightarrow> word_t \<Rightarrow> word_t \<Rightarrow> kstate \<Rightarrow> (word_t \<times> kstate) option" where
  "setMR receiver receiveIPCBuffer offset reg s =
     (if offset \<ge> of_nat n_msgRegisters then
        if receiveIPCBuffer \<noteq> NULL then
          do { s \<leftarrow> buf_write receiveIPCBuffer (offset + 1) reg s; Some (offset + 1, s) }
        else Some (of_nat n_msgRegisters, s)
      else
        do { s \<leftarrow> setRegister receiver (msgRegisters ! unat offset) reg s; Some (offset + 1, s) })"

text \<open>The loops of \<open>copyMRs\<close>: first the message registers, then the words of the buffers.\<close>

primrec copy_msg_registers :: "ptr \<Rightarrow> ptr \<Rightarrow> nat list \<Rightarrow> kstate \<Rightarrow> kstate option" where
  "copy_msg_registers sender receiver [] s = Some s"
| "copy_msg_registers sender receiver (i # is) s =
     do { v \<leftarrow> getRegister sender (msgRegisters ! i) s;
          s \<leftarrow> setRegister receiver (msgRegisters ! i) v s;
          copy_msg_registers sender receiver is s }"

primrec copy_buffer_words :: "ptr \<Rightarrow> ptr \<Rightarrow> nat list \<Rightarrow> kstate \<Rightarrow> kstate option" where
  "copy_buffer_words sendBuf recvBuf [] s = Some s"
| "copy_buffer_words sendBuf recvBuf (i # is) s =
     do { v \<leftarrow> buf_read sendBuf (of_nat i + 1) s;
          s \<leftarrow> buf_write recvBuf (of_nat i + 1) v s;
          copy_buffer_words sendBuf recvBuf is s }"

definition copyMRs :: "ptr \<Rightarrow> ptr \<Rightarrow> ptr \<Rightarrow> ptr \<Rightarrow> word_t \<Rightarrow> kstate \<Rightarrow> (word_t \<times> kstate) option" where
  "copyMRs sender sendBuf receiver recvBuf n s =
     (let k = min (unat n) n_msgRegisters in
      do { s \<leftarrow> copy_msg_registers sender receiver [0..<k] s;
           if recvBuf = NULL \<or> sendBuf = NULL then Some (of_nat k, s)
           else do { s \<leftarrow> copy_buffer_words sendBuf recvBuf [k..<unat n] s; Some (n, s) } })"

definition getExtraCPtr :: "ptr \<Rightarrow> nat \<Rightarrow> kstate \<Rightarrow> word_t option" where
  "getExtraCPtr bufferPtr i = buf_read bufferPtr (seL4_MsgMaxLength + 2 + of_nat i)"

definition setExtraBadge :: "ptr \<Rightarrow> word_t \<Rightarrow> nat \<Rightarrow> kstate \<Rightarrow> kstate option" where
  "setExtraBadge bufferPtr badge i = buf_write bufferPtr (seL4_MsgMaxLength + 2 + of_nat i) badge"

definition set_extra_cap :: "nat \<Rightarrow> ptr \<Rightarrow> kstate \<Rightarrow> kstate" where
  "set_extra_cap i slot s = s\<lparr>current_extra_caps := (current_extra_caps s)(i := slot)\<rparr>"

fun lookupExtraCaps_loop :: "nat list \<Rightarrow> ptr \<Rightarrow> ptr \<Rightarrow> kstate \<Rightarrow> (exception_t \<times> kstate) option" where
  "lookupExtraCaps_loop [] thread bufferPtr s = Some (EXCEPTION_NONE, s)"
| "lookupExtraCaps_loop (i # is) thread bufferPtr s =
     do { cptr \<leftarrow> getExtraCPtr bufferPtr i s;
          ((status, slot), s) \<leftarrow> lookupSlot thread cptr s;
          if status \<noteq> EXCEPTION_NONE then
            Some (status, s\<lparr>current_fault := seL4_Fault_CapFault cptr False\<rparr>)
          else lookupExtraCaps_loop is thread bufferPtr (set_extra_cap i slot s) }"

definition lookupExtraCaps :: "ptr \<Rightarrow> ptr \<Rightarrow> seL4_MessageInfo_t \<Rightarrow> kstate \<Rightarrow> (exception_t \<times> kstate) option" where
  "lookupExtraCaps thread bufferPtr info s =
     (if bufferPtr = NULL then Some (EXCEPTION_NONE, set_extra_cap 0 NULL s)
      else
        do { let length' = unat (mi_extraCaps info);
             (status, s) \<leftarrow> lookupExtraCaps_loop [0..<length'] thread bufferPtr s;
             if status \<noteq> EXCEPTION_NONE then Some (status, s)
             else Some (EXCEPTION_NONE,
                        if length' < seL4_MsgMaxExtraCaps then set_extra_cap length' NULL s else s) })"

section \<open>Reply capabilities\<close>

definition setupCallerCap :: "ptr \<Rightarrow> ptr \<Rightarrow> bool \<Rightarrow> kstate \<Rightarrow> kstate option" where
  "setupCallerCap sender receiver canGrant s =
     do { s \<leftarrow> setThreadState sender ThreadState_BlockedOnReply s;
          let replySlot = TCB_PTR_CTE_PTR sender tcbReply;
          reply \<leftarrow> ctes s replySlot;
          (case cte_cap reply of
             cap_reply_cap g m t \<Rightarrow> assert_opt (m \<and> g \<and> t = sender)
           | _ \<Rightarrow> None);
          let callerSlot = TCB_PTR_CTE_PTR receiver tcbCaller;
          caller \<leftarrow> ctes s callerSlot;
          assert_opt (cte_cap caller = cap_null_cap);
          cteInsert (cap_reply_cap canGrant False sender) replySlot callerSlot s }"

definition deleteCallerCap :: "ptr \<Rightarrow> kstate \<Rightarrow> kstate option" where
  "deleteCallerCap receiver = cteDeleteOne (TCB_PTR_CTE_PTR receiver tcbCaller)"

section \<open>Deriving a capability\<close>

text \<open>What a copy of a capability may be, the null capability when it may not be copied.\<close>

definition Arch_deriveCap :: "ptr \<Rightarrow> cap_t \<Rightarrow> kstate \<Rightarrow> ((exception_t \<times> cap_t) \<times> kstate) option" where
  "Arch_deriveCap slot c s =
     (case c of
        cap_vspace_cap _ _ mapped \<Rightarrow>
          if mapped then Some ((EXCEPTION_NONE, c), s)
          else Some ((EXCEPTION_SYSCALL_ERROR, cap_null_cap), set_error_type seL4_IllegalOperation s)
      | cap_page_table_cap _ _ mapped _ \<Rightarrow>
          if mapped then Some ((EXCEPTION_NONE, c), s)
          else Some ((EXCEPTION_SYSCALL_ERROR, cap_null_cap), set_error_type seL4_IllegalOperation s)
      | cap_frame_cap _ base sz addr r dev \<Rightarrow> Some ((EXCEPTION_NONE, cap_frame_cap 0 base sz addr r dev), s)
      | cap_asid_control_cap \<Rightarrow> Some ((EXCEPTION_NONE, c), s)
      | cap_asid_pool_cap _ _ \<Rightarrow> Some ((EXCEPTION_NONE, c), s)
      | cap_sgi_signal_cap _ _ \<Rightarrow> Some ((EXCEPTION_NONE, c), s)
      | _ \<Rightarrow> None)"

definition deriveCap :: "ptr \<Rightarrow> cap_t \<Rightarrow> kstate \<Rightarrow> ((exception_t \<times> cap_t) \<times> kstate) option" where
  "deriveCap slot c s =
     (if isArchCap c then Arch_deriveCap slot c s
      else
        case c of
          cap_zombie_cap _ _ \<Rightarrow> Some ((EXCEPTION_NONE, cap_null_cap), s)
        | cap_irq_control_cap \<Rightarrow> Some ((EXCEPTION_NONE, cap_null_cap), s)
        | cap_untyped_cap _ _ _ _ \<Rightarrow>
            do { (status, s) \<leftarrow> ensureNoChildren slot s;
                 Some ((status, if status \<noteq> EXCEPTION_NONE then cap_null_cap else c), s) }
        | cap_reply_cap _ _ _ \<Rightarrow> Some ((EXCEPTION_NONE, cap_null_cap), s)
        | _ \<Rightarrow> Some ((EXCEPTION_NONE, c), s))"

section \<open>Transfer of capabilities\<close>

record cap_transfer_t =
  ctReceiveRoot :: word_t
  ctReceiveIndex :: word_t
  ctReceiveDepth :: word_t

definition loadCapTransfer :: "ptr \<Rightarrow> kstate \<Rightarrow> cap_transfer_t option" where
  "loadCapTransfer buffer s =
     (let offset = seL4_MsgMaxLength + of_nat seL4_MsgMaxExtraCaps + 2 in
      do { r \<leftarrow> buf_read buffer offset s;
           i \<leftarrow> buf_read buffer (offset + 1) s;
           d \<leftarrow> buf_read buffer (offset + 2) s;
           Some \<lparr>ctReceiveRoot = r, ctReceiveIndex = i, ctReceiveDepth = d\<rparr> })"

definition getReceiveSlots :: "ptr \<Rightarrow> ptr \<Rightarrow> kstate \<Rightarrow> (ptr \<times> kstate) option" where
  "getReceiveSlots thread buffer s =
     (if buffer = NULL then Some (NULL, s)
      else
        do { ct \<leftarrow> loadCapTransfer buffer s;
             ((status, cnode), s) \<leftarrow> lookupCap thread (ctReceiveRoot ct) s;
             if status \<noteq> EXCEPTION_NONE then Some (NULL, s)
             else
               do { ((status, slot), s) \<leftarrow> lookupTargetSlot cnode (ctReceiveIndex ct) (ctReceiveDepth ct) s;
                    if status \<noteq> EXCEPTION_NONE then Some (NULL, s)
                    else
                      do { cte \<leftarrow> ctes s slot;
                           Some (if cte_cap cte \<noteq> cap_null_cap then NULL else slot, s) } } })"

text \<open>The loop of \<open>transferCaps\<close> over the extra capabilities; it returns the index it stopped at.\<close>

fun transferCaps_loop ::
    "nat list \<Rightarrow> ptr \<Rightarrow> ptr \<Rightarrow> ptr \<Rightarrow> seL4_MessageInfo_t \<Rightarrow> kstate \<Rightarrow>
     ((seL4_MessageInfo_t \<times> nat) \<times> kstate) option" where
  "transferCaps_loop [] endpoint receiveBuffer destSlot info s = Some ((info, seL4_MsgMaxExtraCaps), s)"
| "transferCaps_loop (i # is) endpoint receiveBuffer destSlot info s =
     (let slot = current_extra_caps s i in
      if slot = NULL then Some ((info, i), s)
      else
        do { cte \<leftarrow> ctes s slot;
             let c = cte_cap cte;
             if cap_get_capType c = 4 \<and> capEPPtr c = endpoint then
               do { s \<leftarrow> setExtraBadge receiveBuffer (capEPBadge c) i s;
                    transferCaps_loop is endpoint receiveBuffer destSlot
                      (info\<lparr>mi_capsUnwrapped := mi_capsUnwrapped info OR BIT (of_nat i)\<rparr>) s }
             else if destSlot = NULL then Some ((info, i), s)
             else
               do { ((status, dc), s) \<leftarrow> deriveCap slot c s;
                    if status \<noteq> EXCEPTION_NONE \<or> dc = cap_null_cap then Some ((info, i), s)
                    else
                      do { s \<leftarrow> cteInsert dc slot destSlot s;
                           transferCaps_loop is endpoint receiveBuffer NULL info s } } })"

definition transferCaps ::
    "seL4_MessageInfo_t \<Rightarrow> ptr \<Rightarrow> ptr \<Rightarrow> ptr \<Rightarrow> kstate \<Rightarrow> (seL4_MessageInfo_t \<times> kstate) option" where
  "transferCaps info endpoint receiver receiveBuffer s =
     (let info = info\<lparr>mi_extraCaps := 0, mi_capsUnwrapped := 0\<rparr> in
      if current_extra_caps s 0 = NULL \<or> receiveBuffer = NULL then Some (info, s)
      else
        do { (destSlot, s) \<leftarrow> getReceiveSlots receiver receiveBuffer s;
             ((info, i), s) \<leftarrow>
               transferCaps_loop [0..<seL4_MsgMaxExtraCaps] endpoint receiveBuffer destSlot info s;
             Some (info\<lparr>mi_extraCaps := of_nat i\<rparr>, s) })"

section \<open>Fault messages\<close>

abbreviation (input) n_exceptionMessage :: nat where "n_exceptionMessage \<equiv> 3"
abbreviation (input) n_syscallMessage :: nat where "n_syscallMessage \<equiv> 12"

datatype message_id = MessageID_Syscall | MessageID_Exception

text \<open>\<open>SYSCALL_MESSAGE\<close> and \<open>EXCEPTION_MESSAGE\<close>: the registers in the order of the message.\<close>

primrec fault_messages :: "message_id \<Rightarrow> register_t list" where
  "fault_messages MessageID_Syscall = [0, 1, 2, 3, 4, 5, 6, 7, FaultIP, SP_EL0, ELR_EL1, SPSR_EL1]"
| "fault_messages MessageID_Exception = [FaultIP, SP_EL0, SPSR_EL1]"

definition Arch_getSanitiseRegisterInfo :: "ptr \<Rightarrow> bool" where
  "Arch_getSanitiseRegisterInfo thread = False"

text \<open>\<open>PSTATE_USER\<close> of a build without \<^verbatim>\<open>CONFIG_DEBUG_BUILD\<close>: asynchronous and fast interrupts
  masked, exception level 0.\<close>

definition PSTATE_USER :: word_t where
  "PSTATE_USER = BIT 6 OR 0 OR BIT 8"

definition sanitiseRegister :: "register_t \<Rightarrow> word_t \<Rightarrow> bool \<Rightarrow> word_t" where
  "sanitiseRegister reg v archInfo =
     (if reg = SPSR_EL1 then
        if archInfo \<and> v AND 0x1f \<in> {0, 4, 5} then v
        else (v AND 0xf0000000) OR PSTATE_USER
      else v)"

primrec lookup_fault_get_lufType :: "lookup_fault_t \<Rightarrow> word_t" where
  "lookup_fault_get_lufType lookup_fault_invalid_root = 0"
| "lookup_fault_get_lufType (lookup_fault_missing_capability _) = 1"
| "lookup_fault_get_lufType (lookup_fault_depth_mismatch _ _) = 2"
| "lookup_fault_get_lufType (lookup_fault_guard_mismatch _ _ _) = 3"

primrec seL4_Fault_get_seL4_FaultType :: "seL4_Fault_t \<Rightarrow> word_t" where
  "seL4_Fault_get_seL4_FaultType seL4_Fault_NullFault = 0"
| "seL4_Fault_get_seL4_FaultType (seL4_Fault_CapFault _ _) = 1"
| "seL4_Fault_get_seL4_FaultType (seL4_Fault_UnknownSyscall _) = 2"
| "seL4_Fault_get_seL4_FaultType (seL4_Fault_UserException _ _) = 3"
| "seL4_Fault_get_seL4_FaultType (seL4_Fault_VMFault _ _ _) = 5"

definition setMRs_lookup_failure ::
    "ptr \<Rightarrow> ptr \<Rightarrow> lookup_fault_t \<Rightarrow> word_t \<Rightarrow> kstate \<Rightarrow> (word_t \<times> kstate) option" where
  "setMRs_lookup_failure receiver receiveIPCBuffer luf offset s =
     do { (i, s) \<leftarrow> setMR receiver receiveIPCBuffer offset (lookup_fault_get_lufType luf + 1) s;
          assert_opt (offset = 3 \<or> offset = 1);
          case luf of
            lookup_fault_invalid_root \<Rightarrow> Some (i, s)
          | lookup_fault_missing_capability bitsLeft \<Rightarrow>
              setMR receiver receiveIPCBuffer (offset + 1) bitsLeft s
          | lookup_fault_depth_mismatch bitsFound bitsLeft \<Rightarrow>
              do { (_, s) \<leftarrow> setMR receiver receiveIPCBuffer (offset + 1) bitsLeft s;
                   setMR receiver receiveIPCBuffer (offset + 2) bitsFound s }
          | lookup_fault_guard_mismatch guardFound bitsLeft bitsFound \<Rightarrow>
              do { (_, s) \<leftarrow> setMR receiver receiveIPCBuffer (offset + 1) bitsLeft s;
                   (_, s) \<leftarrow> setMR receiver receiveIPCBuffer (offset + 2) guardFound s;
                   setMR receiver receiveIPCBuffer (offset + 3) bitsFound s } }"

text \<open>The registers of a fault message go to the message registers and then to the buffer.\<close>

primrec copy_fault_registers :: "ptr \<Rightarrow> ptr \<Rightarrow> message_id \<Rightarrow> nat list \<Rightarrow> kstate \<Rightarrow> kstate option" where
  "copy_fault_registers sender receiver msg [] s = Some s"
| "copy_fault_registers sender receiver msg (i # is) s =
     do { v \<leftarrow> getRegister sender (fault_messages msg ! i) s;
          s \<leftarrow> setRegister receiver (msgRegisters ! i) v s;
          copy_fault_registers sender receiver msg is s }"

primrec copy_fault_words :: "ptr \<Rightarrow> ptr \<Rightarrow> message_id \<Rightarrow> nat list \<Rightarrow> kstate \<Rightarrow> kstate option" where
  "copy_fault_words sender receiveIPCBuffer msg [] s = Some s"
| "copy_fault_words sender receiveIPCBuffer msg (i # is) s =
     do { v \<leftarrow> getRegister sender (fault_messages msg ! i) s;
          s \<leftarrow> buf_write receiveIPCBuffer (of_nat i + 1) v s;
          copy_fault_words sender receiveIPCBuffer msg is s }"

definition copyMRsFault :: "ptr \<Rightarrow> ptr \<Rightarrow> message_id \<Rightarrow> nat \<Rightarrow> ptr \<Rightarrow> kstate \<Rightarrow> kstate option" where
  "copyMRsFault sender receiver msg len receiveIPCBuffer s =
     (let k = min len n_msgRegisters in
      do { s \<leftarrow> copy_fault_registers sender receiver msg [0..<k] s;
           if receiveIPCBuffer \<noteq> NULL then copy_fault_words sender receiveIPCBuffer msg [k..<len] s
           else Some s })"

definition Arch_setMRs_fault :: "ptr \<Rightarrow> ptr \<Rightarrow> ptr \<Rightarrow> seL4_Fault_t \<Rightarrow> kstate \<Rightarrow> (word_t \<times> kstate) option" where
  "Arch_setMRs_fault sender receiver receiveIPCBuffer fault s =
     (case fault of
        seL4_Fault_VMFault addr fsr instructionFault \<Rightarrow>
          do { pc \<leftarrow> getRestartPC sender s;
               (_, s) \<leftarrow> setMR receiver receiveIPCBuffer 0 pc s;
               (_, s) \<leftarrow> setMR receiver receiveIPCBuffer 1 addr s;
               (_, s) \<leftarrow> setMR receiver receiveIPCBuffer 2 (if instructionFault then 1 else 0) s;
               setMR receiver receiveIPCBuffer 3 fsr s }
      | _ \<Rightarrow> None)"

definition setMRs_fault :: "ptr \<Rightarrow> ptr \<Rightarrow> ptr \<Rightarrow> kstate \<Rightarrow> (word_t \<times> kstate) option" where
  "setMRs_fault sender receiver receiveIPCBuffer s =
     do { t \<leftarrow> tcbs s sender;
          case tcbFault t of
            seL4_Fault_CapFault addr inReceivePhase \<Rightarrow>
              do { pc \<leftarrow> getRestartPC sender s;
                   (_, s) \<leftarrow> setMR receiver receiveIPCBuffer 0 pc s;
                   (_, s) \<leftarrow> setMR receiver receiveIPCBuffer 1 addr s;
                   (_, s) \<leftarrow> setMR receiver receiveIPCBuffer 2 (if inReceivePhase then 1 else 0) s;
                   t \<leftarrow> tcbs s sender;
                   setMRs_lookup_failure receiver receiveIPCBuffer (tcbLookupFailure t) 3 s }
          | seL4_Fault_UnknownSyscall n \<Rightarrow>
              do { s \<leftarrow> copyMRsFault sender receiver MessageID_Syscall n_syscallMessage receiveIPCBuffer s;
                   setMR receiver receiveIPCBuffer (of_nat n_syscallMessage) n s }
          | seL4_Fault_UserException number code \<Rightarrow>
              do { s \<leftarrow> copyMRsFault sender receiver MessageID_Exception n_exceptionMessage receiveIPCBuffer s;
                   (_, s) \<leftarrow> setMR receiver receiveIPCBuffer (of_nat n_exceptionMessage) number s;
                   setMR receiver receiveIPCBuffer (of_nat n_exceptionMessage + 1) code s }
          | f \<Rightarrow> Arch_setMRs_fault sender receiver receiveIPCBuffer f s }"

text \<open>A reply to a fault puts the message registers back into the faulting thread.\<close>

primrec reply_fault_registers :: "ptr \<Rightarrow> ptr \<Rightarrow> message_id \<Rightarrow> bool \<Rightarrow> nat list \<Rightarrow> kstate \<Rightarrow> kstate option" where
  "reply_fault_registers sender receiver msg archInfo [] s = Some s"
| "reply_fault_registers sender receiver msg archInfo (i # is) s =
     do { let r = fault_messages msg ! i;
          v \<leftarrow> getRegister sender (msgRegisters ! i) s;
          s \<leftarrow> setRegister receiver r (sanitiseRegister r v archInfo) s;
          reply_fault_registers sender receiver msg archInfo is s }"

primrec reply_fault_words :: "ptr \<Rightarrow> ptr \<Rightarrow> message_id \<Rightarrow> bool \<Rightarrow> nat list \<Rightarrow> kstate \<Rightarrow> kstate option" where
  "reply_fault_words sendBuf receiver msg archInfo [] s = Some s"
| "reply_fault_words sendBuf receiver msg archInfo (i # is) s =
     do { let r = fault_messages msg ! i;
          v \<leftarrow> buf_read sendBuf (of_nat i + 1) s;
          s \<leftarrow> setRegister receiver r (sanitiseRegister r v archInfo) s;
          reply_fault_words sendBuf receiver msg archInfo is s }"

definition copyMRsFaultReply :: "ptr \<Rightarrow> ptr \<Rightarrow> message_id \<Rightarrow> nat \<Rightarrow> kstate \<Rightarrow> kstate option" where
  "copyMRsFaultReply sender receiver msg len s =
     (let archInfo = Arch_getSanitiseRegisterInfo receiver; k = min len n_msgRegisters in
      do { s \<leftarrow> reply_fault_registers sender receiver msg archInfo [0..<k] s;
           if k < len then
             do { sendBuf \<leftarrow> lookupIPCBuffer False sender s;
                  if sendBuf \<noteq> NULL then reply_fault_words sendBuf receiver msg archInfo [k..<len] s
                  else Some s }
           else Some s })"

definition Arch_handleFaultReply :: "ptr \<Rightarrow> ptr \<Rightarrow> seL4_Fault_t \<Rightarrow> kstate \<Rightarrow> (bool \<times> kstate) option" where
  "Arch_handleFaultReply receiver sender fault s =
     (case fault of seL4_Fault_VMFault _ _ _ \<Rightarrow> Some (True, s) | _ \<Rightarrow> None)"

definition handleFaultReply :: "ptr \<Rightarrow> ptr \<Rightarrow> kstate \<Rightarrow> (bool \<times> kstate) option" where
  "handleFaultReply receiver sender s =
     do { w \<leftarrow> getRegister sender msgInfoRegister s;
          let tag = messageInfoFromWord w;
          let label = mi_label tag;
          let len = unat (mi_length tag);
          r \<leftarrow> tcbs s receiver;
          case tcbFault r of
            seL4_Fault_CapFault _ _ \<Rightarrow> Some (True, s)
          | seL4_Fault_UnknownSyscall _ \<Rightarrow>
              do { s \<leftarrow> copyMRsFaultReply sender receiver MessageID_Syscall (min len n_syscallMessage) s;
                   Some (label = 0, s) }
          | seL4_Fault_UserException _ _ \<Rightarrow>
              do { s \<leftarrow> copyMRsFaultReply sender receiver MessageID_Exception (min len n_exceptionMessage) s;
                   Some (label = 0, s) }
          | f \<Rightarrow> Arch_handleFaultReply receiver sender f s }"

section \<open>Transfer of a message\<close>

definition doNormalTransfer ::
    "ptr \<Rightarrow> ptr \<Rightarrow> ptr \<Rightarrow> word_t \<Rightarrow> bool \<Rightarrow> ptr \<Rightarrow> ptr \<Rightarrow> kstate \<Rightarrow> kstate option" where
  "doNormalTransfer sender sendBuffer endpoint badge canGrant receiver receiveBuffer s =
     do { w \<leftarrow> getRegister sender msgInfoRegister s;
          let tag = messageInfoFromWord w;
          s \<leftarrow> (if canGrant then
                  do { (status, s) \<leftarrow> lookupExtraCaps sender sendBuffer tag s;
                       Some (if status \<noteq> EXCEPTION_NONE then set_extra_cap 0 NULL s else s) }
                else Some (set_extra_cap 0 NULL s));
          (msgTransferred, s) \<leftarrow> copyMRs sender sendBuffer receiver receiveBuffer (mi_length tag) s;
          (tag, s) \<leftarrow> transferCaps tag endpoint receiver receiveBuffer s;
          let tag = tag\<lparr>mi_length := msgTransferred\<rparr>;
          s \<leftarrow> setRegister receiver msgInfoRegister (wordFromMessageInfo tag) s;
          setRegister receiver badgeRegister badge s }"

definition doFaultTransfer :: "word_t \<Rightarrow> ptr \<Rightarrow> ptr \<Rightarrow> ptr \<Rightarrow> kstate \<Rightarrow> kstate option" where
  "doFaultTransfer badge sender receiver receiverIPCBuffer s =
     do { (sent, s) \<leftarrow> setMRs_fault sender receiver receiverIPCBuffer s;
          t \<leftarrow> tcbs s sender;
          let msgInfo = seL4_MessageInfo_new (seL4_Fault_get_seL4_FaultType (tcbFault t)) 0 0 sent;
          s \<leftarrow> setRegister receiver msgInfoRegister (wordFromMessageInfo msgInfo) s;
          setRegister receiver badgeRegister badge s }"

definition doIPCTransfer :: "ptr \<Rightarrow> ptr \<Rightarrow> word_t \<Rightarrow> bool \<Rightarrow> ptr \<Rightarrow> kstate \<Rightarrow> kstate option" where
  "doIPCTransfer sender endpoint badge grant receiver s =
     do { receiveBuffer \<leftarrow> lookupIPCBuffer True receiver s;
          t \<leftarrow> tcbs s sender;
          if tcbFault t = seL4_Fault_NullFault then
            do { sendBuffer \<leftarrow> lookupIPCBuffer False sender s;
                 doNormalTransfer sender sendBuffer endpoint badge grant receiver receiveBuffer s }
          else doFaultTransfer badge sender receiver receiveBuffer s }"

definition doReplyTransfer :: "ptr \<Rightarrow> ptr \<Rightarrow> ptr \<Rightarrow> bool \<Rightarrow> kstate \<Rightarrow> kstate option" where
  "doReplyTransfer sender receiver slot grant s =
     do { r \<leftarrow> tcbs s receiver;
          assert_opt (tsType (tcbState r) = ThreadState_BlockedOnReply);
          if tcbFault r = seL4_Fault_NullFault then
            do { s \<leftarrow> doIPCTransfer sender NULL 0 grant receiver s;
                 s \<leftarrow> cteDeleteOne slot s;
                 s \<leftarrow> setThreadState receiver ThreadState_Running s;
                 possibleSwitchTo receiver s }
          else
            do { s \<leftarrow> cteDeleteOne slot s;
                 (restart, s) \<leftarrow> handleFaultReply receiver sender s;
                 s \<leftarrow> tcb_upd receiver (\<lambda>t. t\<lparr>tcbFault := seL4_Fault_NullFault\<rparr>) s;
                 if restart then
                   do { s \<leftarrow> setThreadState receiver ThreadState_Restart s;
                        possibleSwitchTo receiver s }
                 else setThreadState receiver ThreadState_Inactive s } }"

section \<open>Sending and receiving\<close>

definition sendIPC :: "bool \<Rightarrow> bool \<Rightarrow> word_t \<Rightarrow> bool \<Rightarrow> bool \<Rightarrow> ptr \<Rightarrow> ptr \<Rightarrow> kstate \<Rightarrow> kstate option" where
  "sendIPC blocking do_call badge canGrant canGrantReply thread epptr s =
     do { e \<leftarrow> eps s epptr;
          if ep_state e = EPState_Recv then
            do { queue \<leftarrow> ep_ptr_get_queue epptr s;
                 let dest = qhead queue;
                 assert_opt (dest \<noteq> NULL);
                 (queue, s) \<leftarrow> tcbEPDequeue dest queue s;
                 s \<leftarrow> ep_ptr_set_queue epptr queue s;
                 s \<leftarrow> (if qhead queue = NULL then endpoint_ptr_set_state epptr EPState_Idle s else Some s);
                 s \<leftarrow> doIPCTransfer thread epptr badge canGrant dest s;
                 d \<leftarrow> tcbs s dest;
                 let replyCanGrant = blockingIPCCanGrant (tcbState d);
                 s \<leftarrow> setThreadState dest ThreadState_Running s;
                 s \<leftarrow> possibleSwitchTo dest s;
                 if do_call then
                   if canGrant \<or> canGrantReply then setupCallerCap thread dest replyCanGrant s
                   else setThreadState thread ThreadState_Inactive s
                 else Some s }
          else if blocking then
            do { s \<leftarrow> ts_upd thread (\<lambda>ts. ts\<lparr>tsType := ThreadState_BlockedOnSend\<rparr>) s;
                 s \<leftarrow> ts_upd thread (\<lambda>ts. ts\<lparr>blockingObject := epptr\<rparr>) s;
                 s \<leftarrow> ts_upd thread (\<lambda>ts. ts\<lparr>blockingIPCBadge := badge\<rparr>) s;
                 s \<leftarrow> ts_upd thread (\<lambda>ts. ts\<lparr>blockingIPCCanGrant := canGrant\<rparr>) s;
                 s \<leftarrow> ts_upd thread (\<lambda>ts. ts\<lparr>blockingIPCCanGrantReply := canGrantReply\<rparr>) s;
                 s \<leftarrow> ts_upd thread (\<lambda>ts. ts\<lparr>blockingIPCIsCall := do_call\<rparr>) s;
                 s \<leftarrow> scheduleTCB thread s;
                 queue \<leftarrow> ep_ptr_get_queue epptr s;
                 (queue, s) \<leftarrow> tcbEPAppend thread queue s;
                 s \<leftarrow> endpoint_ptr_set_state epptr EPState_Send s;
                 ep_ptr_set_queue epptr queue s }
          else Some s }"

text \<open>\<open>receiveIPC\<close>: a sender waits (\<open>receive_from_sender\<close>), or the receiver does.\<close>

definition receive_from_sender :: "ptr \<Rightarrow> cap_t \<Rightarrow> ptr \<Rightarrow> kstate \<Rightarrow> kstate option" where
  "receive_from_sender thread c epptr s =
     do { queue \<leftarrow> ep_ptr_get_queue epptr s;
          let sender = qhead queue;
          assert_opt (sender \<noteq> NULL);
          (queue, s) \<leftarrow> tcbEPDequeue sender queue s;
          s \<leftarrow> ep_ptr_set_queue epptr queue s;
          s \<leftarrow> (if qhead queue = NULL then endpoint_ptr_set_state epptr EPState_Idle s else Some s);
          t \<leftarrow> tcbs s sender;
          let badge = blockingIPCBadge (tcbState t);
          let canGrant = blockingIPCCanGrant (tcbState t);
          let canGrantReply = blockingIPCCanGrantReply (tcbState t);
          s \<leftarrow> doIPCTransfer sender epptr badge canGrant thread s;
          t \<leftarrow> tcbs s sender;
          let do_call = blockingIPCIsCall (tcbState t);
          if do_call then
            if canGrant \<or> canGrantReply then setupCallerCap sender thread (capCanGrant c) s
            else setThreadState sender ThreadState_Inactive s
          else
            do { s \<leftarrow> setThreadState sender ThreadState_Running s;
                 possibleSwitchTo sender s } }"

definition receiveIPC :: "ptr \<Rightarrow> cap_t \<Rightarrow> bool \<Rightarrow> kstate \<Rightarrow> kstate option" where
  "receiveIPC thread c isBlocking s =
     do { assert_opt (cap_get_capType c = 4);
          let epptr = capEPPtr c;
          t \<leftarrow> tcbs s thread;
          let ntfnPtr = tcbBoundNotification t;
          active \<leftarrow> (if ntfnPtr \<noteq> NULL
                     then do { n \<leftarrow> ntfns s ntfnPtr; Some (ntfn_state n = NtfnState_Active) }
                     else Some False);
          if active then completeSignal ntfnPtr thread s
          else
            do { e \<leftarrow> eps s epptr;
                 if ep_state e = EPState_Send then receive_from_sender thread c epptr s
                 else if isBlocking then
                   do { s \<leftarrow> ts_upd thread (\<lambda>ts. ts\<lparr>tsType := ThreadState_BlockedOnReceive\<rparr>) s;
                        s \<leftarrow> ts_upd thread (\<lambda>ts. ts\<lparr>blockingObject := epptr\<rparr>) s;
                        s \<leftarrow> ts_upd thread (\<lambda>ts. ts\<lparr>blockingIPCCanGrant := capCanGrant c\<rparr>) s;
                        s \<leftarrow> scheduleTCB thread s;
                        queue \<leftarrow> ep_ptr_get_queue epptr s;
                        (queue, s) \<leftarrow> tcbEPAppend thread queue s;
                        s \<leftarrow> endpoint_ptr_set_state epptr EPState_Recv s;
                        ep_ptr_set_queue epptr queue s }
                 else doNBRecvFailedTransfer thread s } }"

section \<open>Replies of the kernel and delivery of faults\<close>

primrec error_number :: "seL4_Error \<Rightarrow> word_t" where
  "error_number seL4_NoError = 0"
| "error_number seL4_InvalidArgument = 1"
| "error_number seL4_InvalidCapability = 2"
| "error_number seL4_IllegalOperation = 3"
| "error_number seL4_RangeError = 4"
| "error_number seL4_AlignmentError = 5"
| "error_number seL4_FailedLookup = 6"
| "error_number seL4_TruncatedMessage = 7"
| "error_number seL4_DeleteFirst = 8"
| "error_number seL4_RevokeFirst = 9"
| "error_number seL4_NotEnoughMemory = 10"

definition setMRs_syscall_error :: "ptr \<Rightarrow> ptr \<Rightarrow> kstate \<Rightarrow> (word_t \<times> kstate) option" where
  "setMRs_syscall_error thread receiveIPCBuffer s =
     (let err = current_syscall_error s in
      case se_type err of
        seL4_InvalidArgument \<Rightarrow> setMR thread receiveIPCBuffer 0 (invalidArgumentNumber err) s
      | seL4_InvalidCapability \<Rightarrow> setMR thread receiveIPCBuffer 0 (invalidCapNumber err) s
      | seL4_IllegalOperation \<Rightarrow> Some (0, s)
      | seL4_RangeError \<Rightarrow>
          do { (_, s) \<leftarrow> setMR thread receiveIPCBuffer 0 (rangeErrorMin err) s;
               setMR thread receiveIPCBuffer 1 (rangeErrorMax err) s }
      | seL4_AlignmentError \<Rightarrow> Some (0, s)
      | seL4_FailedLookup \<Rightarrow>
          do { (_, s) \<leftarrow> setMR thread receiveIPCBuffer 0 (if failedLookupWasSource err then 1 else 0) s;
               setMRs_lookup_failure thread receiveIPCBuffer (current_lookup_fault s) 1 s }
      | seL4_TruncatedMessage \<Rightarrow> Some (0, s)
      | seL4_DeleteFirst \<Rightarrow> Some (0, s)
      | seL4_RevokeFirst \<Rightarrow> Some (0, s)
      | seL4_NotEnoughMemory \<Rightarrow> setMR thread receiveIPCBuffer 0 (memoryLeft err) s
      | seL4_NoError \<Rightarrow> None)"

definition replyFromKernel_error :: "ptr \<Rightarrow> kstate \<Rightarrow> kstate option" where
  "replyFromKernel_error thread s =
     do { ipcBuffer \<leftarrow> lookupIPCBuffer True thread s;
          s \<leftarrow> setRegister thread badgeRegister 0 s;
          (len, s) \<leftarrow> setMRs_syscall_error thread ipcBuffer s;
          setRegister thread msgInfoRegister
            (wordFromMessageInfo (seL4_MessageInfo_new (error_number (se_type (current_syscall_error s))) 0 0 len)) s }"

definition replyFromKernel_success_empty :: "ptr \<Rightarrow> kstate \<Rightarrow> kstate option" where
  "replyFromKernel_success_empty thread s =
     do { s \<leftarrow> setRegister thread badgeRegister 0 s;
          setRegister thread msgInfoRegister (wordFromMessageInfo (seL4_MessageInfo_new 0 0 0 0)) s }"

definition sendFaultIPC :: "ptr \<Rightarrow> kstate \<Rightarrow> (exception_t \<times> kstate) option" where
  "sendFaultIPC tptr s =
     do { let original_lookup_fault = current_lookup_fault s;
          t \<leftarrow> tcbs s tptr;
          let handlerCPtr = tcbFaultHandler t;
          ((status, handlerCap), s) \<leftarrow> lookupCap tptr handlerCPtr s;
          if status \<noteq> EXCEPTION_NONE then
            Some (EXCEPTION_FAULT, s\<lparr>current_fault := seL4_Fault_CapFault handlerCPtr False\<rparr>)
          else
            case handlerCap of
              cap_endpoint_cap badge canGrantReply canGrant canSend canReceive epptr \<Rightarrow>
                if canSend \<and> (canGrant \<or> canGrantReply) then
                  do { s \<leftarrow> tcb_upd tptr (\<lambda>t. t\<lparr>tcbFault := current_fault s\<rparr>) s;
                       s \<leftarrow> (if seL4_Fault_get_seL4_FaultType (current_fault s) = 1
                             then tcb_upd tptr (\<lambda>t. t\<lparr>tcbLookupFailure := original_lookup_fault\<rparr>) s
                             else Some s);
                       s \<leftarrow> sendIPC True True badge canGrant True tptr epptr s;
                       Some (EXCEPTION_NONE, s) }
                else
                  Some (EXCEPTION_FAULT, s\<lparr>current_fault := seL4_Fault_CapFault handlerCPtr False,
                                           current_lookup_fault := lookup_fault_missing_capability 0\<rparr>)
            | _ \<Rightarrow>
                Some (EXCEPTION_FAULT, s\<lparr>current_fault := seL4_Fault_CapFault handlerCPtr False,
                                         current_lookup_fault := lookup_fault_missing_capability 0\<rparr>) }"

definition handleDoubleFault :: "ptr \<Rightarrow> seL4_Fault_t \<Rightarrow> kstate \<Rightarrow> kstate option" where
  "handleDoubleFault tptr ex1 = setThreadState tptr ThreadState_Inactive"

definition handleFault :: "ptr \<Rightarrow> kstate \<Rightarrow> kstate option" where
  "handleFault tptr s =
     do { let fault = current_fault s;
          (status, s) \<leftarrow> sendFaultIPC tptr s;
          if status \<noteq> EXCEPTION_NONE then handleDoubleFault tptr fault s else Some s }"

end
