(* ===== verification/Slots.thy ===== *)
theory Slots
  imports Wait_Queues IPC_Transfer
begin

text \<open>
  The invariant of capability slots. Every capability refers to live objects of its type, the
  slots form derivation lists, null capabilities are in no list, and every thread has its five
  slots. Under it the lookups, the derivation of a copy, the insertion of a capability and the
  deletion of a reply capability return, and they keep it.
\<close>

section \<open>The invariant\<close>

text \<open>The slots inside thread control blocks.\<close>

definition tcb_slots :: "kstate \<Rightarrow> ptr set" where
  "tcb_slots s = {TCB_PTR_CTE_PTR t i |t i. tcbs s t \<noteq> None \<and> i < 5}"

definition cnode_apart :: "kstate \<Rightarrow> cap_t \<Rightarrow> bool" where
  "cnode_apart s c \<longleftrightarrow>
     (is_cnode_cap c \<longrightarrow> (\<forall>i. unat i < 2 ^ unat (capCNodeRadix c) \<longrightarrow> cte_index (capCNodePtr c) i \<notin> tcb_slots s))"

definition refs_ok :: "kstate \<Rightarrow> cap_t \<Rightarrow> bool" where
  "refs_ok s c =
     (case c of
        cap_endpoint_cap _ _ _ _ _ p \<Rightarrow> eps s p \<noteq> None
      | cap_notification_cap _ _ _ p \<Rightarrow> ntfns s p \<noteq> None
      | cap_thread_cap t \<Rightarrow> tcbs s t \<noteq> None
      | cap_reply_cap _ _ t \<Rightarrow> tcbs s t \<noteq> None
      | cap_frame_cap _ base sz _ _ dev \<Rightarrow>
          base AND MASK (pageBitsForSize sz) = 0 \<and>
          (dev \<or> (\<forall>k. unat (8 * k :: word_t) < 2 ^ unat (pageBitsForSize sz) \<longrightarrow> umem s (base + 8 * k) \<noteq> None))
      | _ \<Rightarrow> True)"

definition cap_ok :: "kstate \<Rightarrow> cap_t \<Rightarrow> bool" where
  "cap_ok s c \<longleftrightarrow> wf_cnode_cap c \<and> cnode_slots_ok (ctes s) c \<and> cnode_apart s c \<and> refs_ok s c"

definition slots_ok :: "kstate \<Rightarrow> bool" where
  "slots_ok s \<longleftrightarrow>
     mdb_wf s \<and>
     (\<forall>p x. ctes s p = Some x \<longrightarrow> cap_ok s (cte_cap x) \<and>
        (cte_cap x = cap_null_cap \<longrightarrow> mdbNext (cteMDBNode x) = NULL \<and> mdbPrev (cteMDBNode x) = NULL)) \<and>
     tcb_slots s \<subseteq> dom (ctes s) \<and>
     (\<forall>t T. tcbs s t = Some T \<longrightarrow> tcbIPCBuffer T AND MASK 10 = 0)"

lemma slots_okD:
  assumes "slots_ok s"
  shows "mdb_wf s" and "cspace_wf s" and "ctes s p = Some x \<Longrightarrow> cap_ok s (cte_cap x)"
    and "ctes s p = Some x \<Longrightarrow> cte_cap x = cap_null_cap \<Longrightarrow>
          mdbNext (cteMDBNode x) = NULL \<and> mdbPrev (cteMDBNode x) = NULL"
    and "tcbs s t \<noteq> None \<Longrightarrow> i < 5 \<Longrightarrow> \<exists>x. ctes s (TCB_PTR_CTE_PTR t i) = Some x"
    and "tcbs s t = Some T \<Longrightarrow> tcbIPCBuffer T AND MASK 10 = 0"
  using assms unfolding slots_ok_def cspace_wf_def cap_ok_def tcb_slots_def by (blast | force)+

text \<open>What the invariant depends on.\<close>

definition live :: "kstate \<Rightarrow> ptr set \<times> ptr set \<times> ptr set \<times> ptr set \<times> ptr set" where
  "live s = (dom (ctes s), dom (tcbs s), dom (eps s), dom (ntfns s), dom (umem s))"

lemma dom_eq_None: "dom f = dom g \<Longrightarrow> f x = None \<longleftrightarrow> g x = None"
  by (metis domIff)

lemma liveD:
  assumes "live s' = live s"
  shows "ctes s' p = None \<longleftrightarrow> ctes s p = None" and "tcbs s' p = None \<longleftrightarrow> tcbs s p = None"
    and "eps s' p = None \<longleftrightarrow> eps s p = None" and "ntfns s' p = None \<longleftrightarrow> ntfns s p = None"
    and "umem s' p = None \<longleftrightarrow> umem s p = None"
  using assms unfolding live_def prod.inject by (blast intro: dom_eq_None)+

lemma cap_ok_live:
  assumes l: "live s' = live s"
  shows "cap_ok s' c = cap_ok s c" and "tcb_slots s' = tcb_slots s"
proof -
  show t: "tcb_slots s' = tcb_slots s"
    using liveD(2) [OF l] by (simp add: tcb_slots_def del: not_None_eq)
  show "cap_ok s' c = cap_ok s c"
    using liveD [OF l] t
    by (simp add: cap_ok_def cnode_slots_ok_def cnode_apart_def refs_ok_def split: cap_t.split del: not_None_eq)
qed

lemma slots_ok_step:
  assumes ok: "slots_ok s" and l: "live s' = live s" and wf: "mdb_wf s'"
    and caps: "\<And>p x. ctes s' p = Some x \<Longrightarrow> cap_ok s (cte_cap x) \<and>
      (cte_cap x = cap_null_cap \<longrightarrow> mdbNext (cteMDBNode x) = NULL \<and> mdbPrev (cteMDBNode x) = NULL)"
    and buf: "\<And>t. map_option tcbIPCBuffer (tcbs s' t) = map_option tcbIPCBuffer (tcbs s t)"
  shows "slots_ok s'"
proof -
  have "dom (ctes s') = dom (ctes s)" using l by (simp add: live_def)
  moreover have "tcbIPCBuffer T AND MASK 10 = 0" if "tcbs s' t = Some T" for t T
    using buf [of t] that slots_okD(6) [OF ok] by (cases "tcbs s t") auto
  ultimately show ?thesis
    using ok wf caps by (simp add: slots_ok_def cap_ok_live [OF l])
qed

lemma slots_ok_frame:
  assumes ok: "slots_ok s" and c: "ctes s' = ctes s" and l: "live s' = live s"
    and buf: "\<And>t. map_option tcbIPCBuffer (tcbs s' t) = map_option tcbIPCBuffer (tcbs s t)"
  shows "slots_ok s'"
proof (rule slots_ok_step [OF ok l _ _ buf])
  have "link_of ctes f s' = link_of ctes f s" for f by (rule ext) (simp add: link_of_def c)
  then show "mdb_wf s'" using slots_okD(1) [OF ok] by (simp add: mdb_wf_def c)
  show "cap_ok s (cte_cap x) \<and>
      (cte_cap x = cap_null_cap \<longrightarrow> mdbNext (cteMDBNode x) = NULL \<and> mdbPrev (cteMDBNode x) = NULL)"
    if "ctes s' p = Some x" for p x
    using that slots_okD(3,4) [OF ok] c by auto
qed

section \<open>Lookups\<close>

text \<open>A lookup changes at most the fault and error registers.\<close>

definition quiet :: "kstate \<Rightarrow> kstate" where
  "quiet s = s\<lparr>current_syscall_error := blank_error, current_lookup_fault := lookup_fault_invalid_root,
               current_fault := seL4_Fault_NullFault, current_extra_caps := \<lambda>_. NULL\<rparr>"

lemma quietD:
  assumes "quiet s' = quiet s"
  shows "ctes s' = ctes s" and "tcbs s' = tcbs s" and "eps s' = eps s" and "ntfns s' = ntfns s"
    and "umem s' = umem s" and "live s' = live s"
proof -
  show c: "ctes s' = ctes s" using arg_cong [OF assms, of ctes] by (simp add: quiet_def)
  show t: "tcbs s' = tcbs s" using arg_cong [OF assms, of tcbs] by (simp add: quiet_def)
  show e: "eps s' = eps s" using arg_cong [OF assms, of eps] by (simp add: quiet_def)
  show n: "ntfns s' = ntfns s" using arg_cong [OF assms, of ntfns] by (simp add: quiet_def)
  show u: "umem s' = umem s" using arg_cong [OF assms, of umem] by (simp add: quiet_def)
  show "live s' = live s" by (simp add: live_def c t e n u)
qed

lemma quiet_registers [simp]:
  "quiet (s\<lparr>current_syscall_error := e\<rparr>) = quiet s" "quiet (s\<lparr>current_lookup_fault := l\<rparr>) = quiet s"
  "quiet (s\<lparr>current_fault := f\<rparr>) = quiet s" "quiet (s\<lparr>current_extra_caps := x\<rparr>) = quiet s"
  "quiet (set_lookup_fault l s) = quiet s" "quiet (set_error_type et s) = quiet s"
  "quiet (failed_lookup b s) = quiet s" "quiet (range_error mn mx s) = quiet s"
  "quiet (set_extra_cap i p s) = quiet s"
  by (simp_all add: quiet_def set_lookup_fault_def set_error_type_def failed_lookup_def range_error_def
      set_extra_cap_def)

lemma quiet_slots_ok:
  assumes "quiet s' = quiet s"
  shows "slots_ok s' = slots_ok s"
  using slots_ok_frame [of s s'] slots_ok_frame [of s' s] quietD [OF assms] by auto

text \<open>The lookups also keep the list of extra capabilities.\<close>

definition calm :: "kstate \<Rightarrow> kstate" where
  "calm s = (quiet s)\<lparr>current_extra_caps := current_extra_caps s\<rparr>"

lemma calmD:
  assumes "calm s' = calm s"
  shows "quiet s' = quiet s" and "current_extra_caps s' = current_extra_caps s"
proof -
  show "current_extra_caps s' = current_extra_caps s"
    using arg_cong [OF assms, of current_extra_caps] by (simp add: calm_def)
  show "quiet s' = quiet s"
    using arg_cong [OF assms, of quiet] by (simp add: calm_def quiet_def)
qed

lemma calm_registers [simp]:
  "calm (s\<lparr>current_syscall_error := e\<rparr>) = calm s" "calm (s\<lparr>current_lookup_fault := l\<rparr>) = calm s"
  "calm (s\<lparr>current_fault := f\<rparr>) = calm s"
  "calm (set_lookup_fault l s) = calm s" "calm (set_error_type et s) = calm s"
  "calm (failed_lookup b s) = calm s" "calm (range_error mn mx s) = calm s"
  by (simp_all add: calm_def quiet_def set_lookup_fault_def set_error_type_def failed_lookup_def range_error_def)

lemma of_bits_bound: "length bs \<le> n \<Longrightarrow> unat (of_bits bs) < 2 ^ n"
proof -
  assume l: "length bs \<le> n"
  have "unat (of_bits bs) < 2 ^ length bs"
  proof (cases "length bs < 64")
    case True
    have "of_bits bs = take_bit (length bs) (of_bits bs)"
      by (simp add: of_bits_def take_bit_horner_sum_bit_eq)
    then have "unat (of_bits bs) = take_bit (length bs) (unat (of_bits bs))"
      by (metis unsigned_take_bit_eq)
    then show ?thesis by (metis take_bit_nat_less_exp)
  next
    case False
    then have "(2::nat) ^ 64 \<le> 2 ^ length bs" by (intro power_increasing) auto
    moreover have "unat (of_bits bs) < 2 ^ 64" using unsigned_less [of "of_bits bs"] by simp
    ultimately show ?thesis by linarith
  qed
  also have "\<dots> \<le> 2 ^ n" using l by (intro power_increasing) auto
  finally show ?thesis .
qed

lemma resolve_spec_apart:
  assumes caps: "\<And>p x. ctes s p = Some x \<Longrightarrow> cnode_apart s (cte_cap x)"
  shows "cnode_apart s c \<Longrightarrow> resolve_spec (ctes s) c bs = Some (LFound slot k) \<Longrightarrow> slot \<notin> tcb_slots s"
proof (induction "ctes s" c bs rule: resolve_spec.induct)
  case (1 radix gsize guard base bs)
  let ?i = "of_bits (take (unat radix) (drop (unat gsize) bs))"
  have "unat ?i < 2 ^ unat radix" by (rule of_bits_bound) simp
  with 1(2) have apart: "cte_index base ?i \<notin> tcb_slots s" by (simp add: cnode_apart_def)
  from 1(3) have "slot = cte_index base ?i \<or>
      (\<exists>x. ctes s (cte_index base ?i) = Some x \<and> is_cnode_cap (cte_cap x) \<and>
        resolve_spec (ctes s) (cte_cap x) (drop (unat radix + unat gsize) bs) = Some (LFound slot k) \<and>
        unat radix + unat gsize \<noteq> 0 \<and> \<not> length bs < unat radix + unat gsize \<and>
        \<not> (length bs < unat gsize \<or> take (unat gsize) bs \<noteq> bits_of guard (unat gsize)) \<and>
        drop (unat radix + unat gsize) bs \<noteq> [])"
    by (subst (asm) resolve_spec.simps(1)) (auto simp: Let_def split: if_splits option.splits)
  then show ?case
  proof (elim disjE exE conjE)
    fix x assume x: "ctes s (cte_index base ?i) = Some x" and r: "is_cnode_cap (cte_cap x)"
      "resolve_spec (ctes s) (cte_cap x) (drop (unat radix + unat gsize) bs) = Some (LFound slot k)"
      and c: "unat radix + unat gsize \<noteq> 0" "\<not> length bs < unat radix + unat gsize"
        "\<not> (length bs < unat gsize \<or> take (unat gsize) bs \<noteq> bits_of guard (unat gsize))"
        "drop (unat radix + unat gsize) bs \<noteq> []"
    show ?thesis
      by (rule 1(1) [OF refl refl c(1) c(3) c(2) refl refl c(4) x r(1) caps [OF x] r(2)])
  qed (use apart in simp)
qed (simp_all add: resolve_spec.simps)

lemma resolve_ok:
  assumes ok: "slots_ok s" and c: "cap_ok s c" and n: "unat n \<le> 64"
  shows "\<exists>r s'. resolveAddressBits c p n s = Some (r, s') \<and> calm s' = calm s \<and>
    (if rr_status r = EXCEPTION_NONE then
       \<exists>x. ctes s (rr_slot r) = Some x \<and> rr_slot r \<notin> tcb_slots s \<and> s' = s
     else rr_status r = EXCEPTION_LOOKUP_FAULT)"
proof -
  from c have w: "wf_cnode_cap c" "cnode_slots_ok (ctes s) c" "cnode_apart s c" by (simp_all add: cap_ok_def)
  from resolveAddressBits_total [OF slots_okD(2) [OF ok] w(1,2) n, of p] obtain l
    where r: "resolveAddressBits c p n s = Some (result_of n s l)"
      and l: "\<And>slot k. l = LFound slot k \<Longrightarrow> ctes s slot \<noteq> None \<and> k < unat n" by blast
  from resolveAddressBits_spec [OF slots_okD(2) [OF ok] w(1) n, of p] r
  obtain l' where l': "resolve_spec (ctes s) c (bits_of p (unat n)) = Some l'" "result_of n s l = result_of n s l'"
    by (cases "resolve_spec (ctes s) c (bits_of p (unat n))") auto
  show ?thesis
  proof (cases l)
    case (LFound slot k)
    with l'(2) obtain k' where "l' = LFound slot k'"
      by (cases l') (auto simp: result_of_def rr_new_def)
    with l'(1) have "slot \<notin> tcb_slots s"
      using resolve_spec_apart [of s c "bits_of p (unat n)" slot k'] w(3) slots_okD(3) [OF ok]
      by (auto simp: cap_ok_def)
    with LFound r l show ?thesis by (auto simp: result_of_def rr_new_def)
  next
    case (LFault f)
    with r show ?thesis by (simp add: result_of_def rr_new_def)
  qed
qed

lemma lookupSlot_ok:
  assumes ok: "slots_ok s" and t: "tcbs s t \<noteq> None"
  shows "\<exists>st slot s'. lookupSlot t cptr s = Some ((st, slot), s') \<and> calm s' = calm s \<and>
    (if st = EXCEPTION_NONE then \<exists>x. ctes s slot = Some x \<and> slot \<notin> tcb_slots s \<and> s' = s
     else st = EXCEPTION_LOOKUP_FAULT)"
proof -
  from slots_okD(5) [OF ok t, of tcbCTable] obtain x where x: "ctes s (TCB_PTR_CTE_PTR t tcbCTable) = Some x"
    by auto
  from resolve_ok [OF ok slots_okD(3) [OF ok x], of wordBits cptr] obtain r s' where
    r: "resolveAddressBits (cte_cap x) cptr wordBits s = Some (r, s')" and q: "calm s' = calm s"
    "if rr_status r = EXCEPTION_NONE then
       \<exists>x. ctes s (rr_slot r) = Some x \<and> rr_slot r \<notin> tcb_slots s \<and> s' = s
     else rr_status r = EXCEPTION_LOOKUP_FAULT" by auto
  have "lookupSlot t cptr s = Some ((rr_status r, rr_slot r), s')" by (simp add: lookupSlot_def x r)
  with q show ?thesis by blast
qed

lemma lookupCap_ok:
  assumes ok: "slots_ok s" and t: "tcbs s t \<noteq> None"
  shows "\<exists>st c s'. lookupCap t cptr s = Some ((st, c), s') \<and> calm s' = calm s \<and> cap_ok s c \<and>
    (if st = EXCEPTION_NONE then s' = s else st = EXCEPTION_LOOKUP_FAULT \<and> c = cap_null_cap)"
proof -
  have null: "cap_ok s cap_null_cap"
    by (simp add: cap_ok_def wf_cnode_cap_def cnode_slots_ok_def cnode_apart_def refs_ok_def)
  from lookupSlot_ok [OF ok t, of cptr] obtain st slot s' where l: "lookupSlot t cptr s = Some ((st, slot), s')"
    and q: "calm s' = calm s" and r: "if st = EXCEPTION_NONE then \<exists>x. ctes s slot = Some x \<and> slot \<notin> tcb_slots s \<and> s' = s
     else st = EXCEPTION_LOOKUP_FAULT" by blast
  show ?thesis
  proof (cases "st = EXCEPTION_NONE")
    case True
    with r obtain x where "ctes s slot = Some x" "s' = s" by auto
    with True l slots_okD(3) [OF ok this(1)] show ?thesis by (simp add: lookupCap_def)
  next
    case False
    with l q r null show ?thesis by (simp add: lookupCap_def)
  qed
qed

lemma lookupTargetSlot_ok:
  assumes ok: "slots_ok s" and c: "cap_ok s c"
  shows "\<exists>st slot s'. lookupTargetSlot c p d s = Some ((st, slot), s') \<and> calm s' = calm s \<and>
    (if st = EXCEPTION_NONE then \<exists>x. ctes s slot = Some x \<and> slot \<notin> tcb_slots s else st = EXCEPTION_SYSCALL_ERROR)"
proof (cases "\<not> is_cnode_cap c \<or> d < 1 \<or> d > wordBits")
  case True
  then show ?thesis by (auto simp: lookupTargetSlot_def lookupSlotForCNodeOp_def)
next
  case False
  then have "d \<le> 64" by (simp add: not_less)
  then have "unat d \<le> 64" by (simp add: word_le_nat_alt)
  from resolve_ok [OF ok c this, of p] obtain r s' where r: "resolveAddressBits c p d s = Some (r, s')"
    "calm s' = calm s" "if rr_status r = EXCEPTION_NONE then
       \<exists>x. ctes s (rr_slot r) = Some x \<and> rr_slot r \<notin> tcb_slots s \<and> s' = s
     else rr_status r = EXCEPTION_LOOKUP_FAULT" by blast
  with False show ?thesis
    by (cases "rr_status r = EXCEPTION_NONE") (auto simp: lookupTargetSlot_def lookupSlotForCNodeOp_def)
qed

section \<open>Deriving and inserting a capability\<close>

lemma ensureNoChildren_ok:
  assumes ok: "slots_ok s" and x: "ctes s slot = Some x"
  shows "\<exists>st s'. ensureNoChildren slot s = Some (st, s') \<and> calm s' = calm s \<and>
    (st = EXCEPTION_NONE \<or> st = EXCEPTION_SYSCALL_ERROR)"
proof (cases "mdbNext (cteMDBNode x) = NULL")
  case False
  with mdb_wf_nextD [OF slots_okD(1) [OF ok] x] obtain d where "ctes s (mdbNext (cteMDBNode x)) = Some d" by blast
  with x False show ?thesis by (auto simp: ensureNoChildren_def)
qed (use x in \<open>auto simp: ensureNoChildren_def\<close>)

text \<open>A derived capability is null or a capability to the same object.\<close>

definition derived :: "cap_t \<Rightarrow> cap_t \<Rightarrow> bool" where
  "derived dc c \<longleftrightarrow>
     dc = cap_null_cap \<or>
     c \<noteq> cap_null_cap \<and> (dc = c \<or> (\<exists>asid base sz va r dev.
        c = cap_frame_cap asid base sz va r dev \<and> dc = cap_frame_cap 0 base sz va r dev))"

lemma derived_ok:
  assumes "derived dc c" and "dc \<noteq> cap_null_cap" and "cap_ok s c"
  shows "cap_ok s dc" and "isCapRevocable dc c \<noteq> None" and "c \<noteq> cap_null_cap"
proof -
  show "c \<noteq> cap_null_cap" using assms(1,2) by (auto simp: derived_def)
  show "cap_ok s dc" using assms
    by (auto simp: derived_def cap_ok_def wf_cnode_cap_def cnode_slots_ok_def cnode_apart_def refs_ok_def)
  show "isCapRevocable dc c \<noteq> None" using assms(1,2)
    by (cases c) (auto simp: derived_def isCapRevocable_def isArchCap_def
        cap_endpoint_cap_get_capEPBadge_def cap_notification_cap_get_capNtfnBadge_def)
qed

lemma deriveCap_ok:
  assumes ok: "slots_ok s" and x: "ctes s slot = Some x"
  shows "\<exists>st dc s'. deriveCap slot (cte_cap x) s = Some ((st, dc), s') \<and> calm s' = calm s \<and>
    derived dc (cte_cap x) \<and> (st \<noteq> EXCEPTION_NONE \<longrightarrow> dc = cap_null_cap)"
proof (cases "isArchCap (cte_cap x)")
  case True
  then show ?thesis
    by (cases "cte_cap x") (auto simp: deriveCap_def Arch_deriveCap_def derived_def isArchCap_def)
next
  case False
  from ensureNoChildren_ok [OF ok x] obtain st s' where e: "ensureNoChildren slot s = Some (st, s')"
    and q: "calm s' = calm s" by blast
  from False e q show ?thesis
    by (cases "cte_cap x") (auto simp: deriveCap_def derived_def isArchCap_def)
qed

lemma cteInsert_slots:
  assumes ok: "slots_ok s" and a: "ctes s src = Some a" and b: "ctes s dest = Some b"
    and empty: "cte_cap b = cap_null_cap" and c: "cap_ok s newCap" "newCap \<noteq> cap_null_cap"
    and rv: "isCapRevocable newCap (cte_cap a) \<noteq> None" and src: "cte_cap a \<noteq> cap_null_cap"
  shows "\<exists>s'. cteInsert newCap src dest s = Some s' \<and> slots_ok s' \<and> s' = s\<lparr>ctes := ctes s'\<rparr> \<and>
    dom (ctes s') = dom (ctes s) \<and> caps_of s' dest = Some newCap \<and>
    (\<forall>p. p \<noteq> src \<and> p \<noteq> dest \<longrightarrow> caps_of s' p = caps_of s p) \<and>
    (\<not> (\<exists>i dev sz p. cte_cap a = cap_untyped_cap i dev sz p) \<longrightarrow> caps_of s' src = caps_of s src)"
proof -
  have wf: "mdb_wf s" using slots_okD(1) [OF ok] .
  have ne: "src \<noteq> dest" using a b empty src by auto
  from slots_okD(4) [OF ok b empty] have un: "mdbNext (cteMDBNode b) = NULL" "mdbPrev (cteMDBNode b) = NULL" by auto
  from rv obtain r where rv': "isCapRevocable newCap (cte_cap a) = Some r" by auto
  from mdb_wf_slot [OF wf a] obtain ys zs where l: "mdb_list s (ys @ src # zs)" "set (ys @ src # zs) \<subseteq> dom (ctes s)"
    by metis
  from cteInsert_list [OF wf l a b ne empty un rv'] obtain s' where
    run: "cteInsert newCap src dest s = Some s'" and wf': "mdb_wf s'"
    and caps: "caps_of s' = (caps_of s)(src \<mapsto> source_after (cte_cap a) newCap, dest \<mapsto> newCap)" by blast
  have d: "caps_of s' dest = Some newCap" and o: "\<forall>p. p \<notin> {src, dest} \<longrightarrow> caps_of s' p = caps_of s p"
    using caps ne by simp_all
  have sr: "caps_of s' src = caps_of s src \<or>
            (\<exists>i dev sz p j dev'. cte_cap a = cap_untyped_cap i dev sz p \<and>
               newCap = cap_untyped_cap j dev' sz p \<and>
               caps_of s' src = Some (cap_untyped_cap (MAX_FREE_INDEX sz) dev sz p))"
    using source_after_cases [of "cte_cap a" newCap] caps ne a by (auto simp: caps_of_def)
  obtain h a' where
    r2: "cteInsert newCap src dest s = Some (s\<lparr>ctes := h\<rparr>)" and h: "h = (\<lambda>p. if p = src then Some (a'\<lparr>cteMDBNode := (cteMDBNode a)\<lparr>mdbNext := dest\<rparr>\<rparr>)
              else if p = dest then
                Some \<lparr>cte_cap = newCap,
                      cteMDBNode = (cteMDBNode a)\<lparr>mdbPrev := src, mdbRevocable := r, mdbFirstBadged := r\<rparr>\<rparr>
              else if p = mdbNext (cteMDBNode a) then
                map_option (\<lambda>x. x\<lparr>cteMDBNode := (cteMDBNode x)\<lparr>mdbPrev := dest\<rparr>\<rparr>) (ctes s p)
              else ctes s p)" by (rule cteInsert_Some [OF wf a b ne empty un rv']) blast
  from r2 run have s': "s' = s\<lparr>ctes := h\<rparr>" by simp
  have dom: "dom (ctes s') = dom (ctes s)" using a b by (auto simp: s' h split: if_splits)
  have "slots_ok s'"
  proof (rule slots_ok_step [OF ok _ wf'])
    show "live s' = live s" using dom by (simp add: live_def s')
    show "map_option tcbIPCBuffer (tcbs s' t) = map_option tcbIPCBuffer (tcbs s t)" for t by (simp add: s')
    fix p x assume x: "ctes s' p = Some x"
    have c1: "cte_cap a' \<noteq> cap_null_cap \<and> cap_ok s (cte_cap a')"
    proof -
      have "caps_of s' src = Some (cte_cap a')" "caps_of s src = Some (cte_cap a)"
        by (simp_all add: s' h caps_of_def a)
      with sr consider "cte_cap a' = cte_cap a" | i dev sz p where "cte_cap a' = cap_untyped_cap i dev sz p" by auto
      then show ?thesis
      proof cases
        case 1
        with slots_okD(3) [OF ok a] src show ?thesis by simp
      next
        case 2
        then show ?thesis
          by (simp add: cap_ok_def wf_cnode_cap_def cnode_slots_ok_def cnode_apart_def refs_ok_def)
      qed
    qed
    show "cap_ok s (cte_cap x) \<and>
      (cte_cap x = cap_null_cap \<longrightarrow> mdbNext (cteMDBNode x) = NULL \<and> mdbPrev (cteMDBNode x) = NULL)"
    proof (cases "p = src \<or> p = dest")
      case True
      with x c1 c show ?thesis by (auto simp: s' h split: if_splits)
    next
      case False
      with x obtain y where y: "ctes s p = Some y" "cte_cap x = cte_cap y" "mdbNext (cteMDBNode x) = mdbNext (cteMDBNode y)"
        "p \<noteq> mdbNext (cteMDBNode a) \<Longrightarrow> x = y" by (auto simp: s' h split: if_splits)
      have "p \<noteq> mdbNext (cteMDBNode a)" if "cte_cap y = cap_null_cap"
      proof
        assume e: "p = mdbNext (cteMDBNode a)"
        from wf y(1) have "p \<noteq> NULL" by (auto simp: mdb_wf_def)
        with mdb_wf_nextD [OF wf a] e y(1) have "mdbPrev (cteMDBNode y) = src" by auto
        with slots_okD(4) [OF ok y(1) that] have "src = NULL" by simp
        with wf a show False by (simp add: mdb_wf_def)
      qed
      with y slots_okD(3,4) [OF ok y(1)] show ?thesis by auto
    qed
  qed
  with run s' dom d o sr show ?thesis by (intro exI [of _ s']) auto
qed

end
