(* ===== verification/Messages.thy ===== *)
theory Messages
  imports Slots Signals
begin

text \<open>
  The transfer of a message returns whenever the slots are well formed, delivers the words, the
  label and the badge of the sender to the receiver, and changes nothing else that the
  invariants of scheduling and waiting look at.
\<close>

section \<open>What a transfer may change\<close>

text \<open>The registers of one thread, the words of user memory, capabilities and the fault registers.\<close>

definition msg_erased :: "kstate \<Rightarrow> kstate" where
  "msg_erased s = (quiet s)
     \<lparr>ctes := \<lambda>p. map_option (\<lambda>_. \<lparr>cte_cap = cap_null_cap, cteMDBNode = nullMDBNode\<rparr>) (ctes s p),
      tcbs := \<lambda>t. map_option (\<lambda>T. T\<lparr>tcbContext := \<lambda>_. 0\<rparr>) (tcbs s t),
      umem := \<lambda>a. map_option (\<lambda>_. 0) (umem s a)\<rparr>"

definition msg_step :: "ptr \<Rightarrow> kstate \<Rightarrow> kstate \<Rightarrow> bool" where
  "msg_step r s s' \<longleftrightarrow>
     msg_erased s' = msg_erased s \<and> (\<forall>u. u \<noteq> r \<longrightarrow> tcbs s' u = tcbs s u) \<and> slots_ok s' \<and>
     (\<forall>p \<in> tcb_slots s. caps_of s' p = caps_of s p)"

lemma map_option_dom: "(\<lambda>x. map_option (\<lambda>_. c) (f x)) = (\<lambda>x. map_option (\<lambda>_. c) (g x)) \<Longrightarrow> dom f = dom g"
  by (rule set_eqI) (metis domIff map_option_is_None)

lemma msg_erasedD:
  assumes e: "msg_erased s' = msg_erased s"
  shows "live s' = live s"
    and "map_option (\<lambda>T. T\<lparr>tcbContext := \<lambda>_. 0\<rparr>) (tcbs s' t) = map_option (\<lambda>T. T\<lparr>tcbContext := \<lambda>_. 0\<rparr>) (tcbs s t)"
    and "eps s' = eps s" and "ntfns s' = ntfns s" and "kept s' = kept s"
proof -
  have c: "dom (ctes s') = dom (ctes s)"
    using arg_cong [OF e, of ctes] by (auto simp: msg_erased_def intro!: map_option_dom)
  have t: "(\<lambda>t. map_option (\<lambda>T. T\<lparr>tcbContext := \<lambda>_. 0\<rparr>) (tcbs s' t)) = (\<lambda>t. map_option (\<lambda>T. T\<lparr>tcbContext := \<lambda>_. 0\<rparr>) (tcbs s t))"
    using arg_cong [OF e, of tcbs] by (simp add: msg_erased_def)
  then have td: "dom (tcbs s') = dom (tcbs s)"
    by (intro set_eqI) (metis domIff map_option_is_None)
  have u: "dom (umem s') = dom (umem s)"
    using arg_cong [OF e, of umem] by (auto simp: msg_erased_def intro!: map_option_dom)
  show eps: "eps s' = eps s" using arg_cong [OF e, of eps] by (simp add: msg_erased_def quiet_def)
  show ntfns: "ntfns s' = ntfns s" using arg_cong [OF e, of ntfns] by (simp add: msg_erased_def quiet_def)
  show "map_option (\<lambda>T. T\<lparr>tcbContext := \<lambda>_. 0\<rparr>) (tcbs s' t) = map_option (\<lambda>T. T\<lparr>tcbContext := \<lambda>_. 0\<rparr>) (tcbs s t)"
    using fun_cong [OF t] by simp
  show "live s' = live s" by (simp add: live_def c td u eps ntfns)
  have k: "kept (msg_erased x) = kept x" for x
  proof -
    have "map_option (\<lambda>T. sched_part (T\<lparr>tcbContext := \<lambda>_. 0\<rparr>)) y = map_option sched_part y" for y
      by (cases y) simp_all
    then show ?thesis by (simp add: kept_def msg_erased_def quiet_def option.map_comp comp_def)
  qed
  show "kept s' = kept s" using k [of s'] k [of s] e by simp
qed

lemma msg_erased_inv:
  assumes e: "msg_erased s' = msg_erased s"
  shows "ipc_inv s' rq wq = ipc_inv s rq wq" and "wait_part s' tw wq = wait_part s tw wq"
    and "thread_wait s' = thread_wait s" and "bound_ok s' = bound_ok s"
    and "sched_ok s' rq = sched_ok s rq" and "action_ok s' = action_ok s"
    and "waiting_to_run s' rq = waiting_to_run s rq" and "obj_view s' = obj_view s"
proof -
  note k = keptD [OF msg_erasedD(5) [OF e]]
  have p: "map_option ipc_part (tcbs s' t) = map_option ipc_part (tcbs s t)" for t
    by (rule map_option_part [OF _ msg_erasedD(2) [OF e], where h = ipc_part]) simp
  show o: "obj_view s' = obj_view s"
  proof
    show "obj_view s' w = obj_view s w" for w
      using msg_erasedD(3,4) [OF e] by (cases w) simp_all
  qed
  note f = ipc_frame [OF p o, unfolded msg_erasedD(4) [OF e], OF refl]
  show "wait_part s' tw wq = wait_part s tw wq" "thread_wait s' = thread_wait s" "bound_ok s' = bound_ok s"
    by (fact f)+
  show "sched_ok s' rq = sched_ok s rq" "action_ok s' = action_ok s" by (fact k)+
  show "waiting_to_run s' rq = waiting_to_run s rq" by (rule kept_waiting [OF msg_erasedD(5) [OF e]])
  show "ipc_inv s' rq wq = ipc_inv s rq wq" by (simp add: ipc_inv_def f k)
qed

lemma msg_stepD:
  assumes "msg_step r s s'"
  shows "msg_erased s' = msg_erased s" and "u \<noteq> r \<Longrightarrow> tcbs s' u = tcbs s u" and "slots_ok s'"
    and "p \<in> tcb_slots s \<Longrightarrow> caps_of s' p = caps_of s p"
  using assms by (auto simp: msg_step_def)

lemma msg_step_refl: "slots_ok s \<Longrightarrow> msg_step r s s"
  by (simp add: msg_step_def)

lemma msg_step_trans:
  assumes "msg_step r s s'" and "msg_step r s' s''"
  shows "msg_step r s s''"
  using assms cap_ok_live(2) [OF msg_erasedD(1) [OF msg_stepD(1) [OF assms(1)]]]
  by (auto simp: msg_step_def)

lemma msg_step_tcb:
  assumes "msg_step r s s'" and "tcbs s t = Some T"
  obtains T' where "tcbs s' t = Some T'" and "T' = T\<lparr>tcbContext := tcbContext T'\<rparr>"
proof -
  from msg_erasedD(2) [OF msg_stepD(1) [OF assms(1)], of t] assms(2) obtain T' where
    T': "tcbs s' t = Some T'" "T'\<lparr>tcbContext := \<lambda>_. 0\<rparr> = T\<lparr>tcbContext := \<lambda>_. 0\<rparr>" by auto
  from arg_cong [OF T'(2), of "\<lambda>X. X\<lparr>tcbContext := tcbContext T'\<rparr>"] have "T' = T\<lparr>tcbContext := tcbContext T'\<rparr>" by simp
  with T'(1) show ?thesis by (rule that)
qed

lemma tcb_slotI: "tcbs s t \<noteq> None \<Longrightarrow> i < 5 \<Longrightarrow> TCB_PTR_CTE_PTR t i \<in> tcb_slots s"
  unfolding tcb_slots_def by blast

lemma lookupIPCBuffer_frame:
  assumes "msg_step r s s'" and "tcbs s t \<noteq> None"
  shows "lookupIPCBuffer isR t s' = lookupIPCBuffer isR t s"
proof -
  from assms(2) obtain T where T: "tcbs s t = Some T" by auto
  from msg_step_tcb [OF assms(1) T] obtain T' where "tcbs s' t = Some T'" "T' = T\<lparr>tcbContext := tcbContext T'\<rparr>" .
  then have b: "tcbs s' t = Some T'" "tcbIPCBuffer T' = tcbIPCBuffer T" by (simp, metis tcb_t.select_convs tcb_t.surjective tcb_t.update_convs(1))
  have "TCB_PTR_CTE_PTR t tcbBuffer \<in> tcb_slots s" using assms(2) by (rule tcb_slotI) simp
  from msg_stepD(4) [OF assms(1) this]
  have "map_option cte_cap (ctes s' (TCB_PTR_CTE_PTR t tcbBuffer)) = map_option cte_cap (ctes s (TCB_PTR_CTE_PTR t tcbBuffer))"
    by (simp add: caps_of_def)
  then show ?thesis
    by (cases "ctes s (TCB_PTR_CTE_PTR t tcbBuffer)"; cases "ctes s' (TCB_PTR_CTE_PTR t tcbBuffer)")
      (simp_all add: lookupIPCBuffer_def T b split: cap_t.split)
qed

section \<open>Message buffers\<close>

text \<open>A buffer is null or an aligned kilobyte of live words.\<close>

definition buffer_ok :: "kstate \<Rightarrow> ptr \<Rightarrow> bool" where
  "buffer_ok s b \<longleftrightarrow> b = NULL \<or> b AND MASK 10 = 0 \<and> (\<forall>i < 128. umem s (b + 8 * of_nat i) \<noteq> None)"

lemma buffer_okD:
  assumes "buffer_ok s b" and "b \<noteq> NULL" and "i < 128"
  shows "\<exists>v. umem s (b + 8 * of_nat i) = Some v"
  using assms by (auto simp: buffer_ok_def)

lemma buffer_ok_live:
  assumes "live s' = live s"
  shows "buffer_ok s' b = buffer_ok s b"
  using liveD(5) [OF assms] by (simp add: buffer_ok_def del: not_None_eq)

lemma aligned_iff: "w AND MASK n = 0 \<longleftrightarrow> unat w mod 2 ^ unat n = 0" for w :: word_t
  by (metis unat_and_MASK unat_eq_zero)

lemma aligned_add:
  fixes a b :: word_t
  assumes "a AND MASK n = 0" and "b AND MASK n = 0" and "unat n \<le> 64"
  shows "(a + b) AND MASK n = 0"
proof -
  have d: "(2 :: nat) ^ unat n dvd 2 ^ 64" using assms(3) by (rule le_imp_power_dvd)
  have "unat (a + b) mod 2 ^ unat n = (unat a + unat b) mod 2 ^ unat n"
    using mod_mod_cancel [OF d, of "unat a + unat b"] by (simp add: unat_word_ariths)
  also have "\<dots> = 0" using assms(1,2) by (simp add: aligned_iff mod_add_eq [symmetric])
  finally show ?thesis by (simp add: aligned_iff)
qed

lemma aligned_weaken:
  fixes w :: word_t
  assumes "w AND MASK n = 0" and "unat m \<le> unat n"
  shows "w AND MASK m = 0"
  using assms(1) mod_mod_cancel [OF le_imp_power_dvd [OF assms(2), where a = "2 :: nat"], of "unat w"]
  by (simp add: aligned_iff)

lemma lookupIPCBuffer_ok:
  assumes ok: "slots_ok s" and t: "tcbs s t = Some T"
  shows "\<exists>b. lookupIPCBuffer isR t s = Some b \<and> buffer_ok s b"
proof -
  from slots_okD(5) [OF ok, of t tcbBuffer] t obtain x where x: "ctes s (TCB_PTR_CTE_PTR t tcbBuffer) = Some x" by auto
  define off where "off sz = tcbIPCBuffer T AND MASK (pageBitsForSize sz)" for sz
  have frame: "buffer_ok s (base + off sz)"
    if c: "cte_cap x = cap_frame_cap asid base sz va r False" for asid base sz va r
  proof -
    let ?n = "unat (pageBitsForSize sz)"
    have n: "12 \<le> ?n" "?n \<le> 30" by (cases sz; simp)+
    from slots_okD(3) [OF ok x] c have base: "base AND MASK (pageBitsForSize sz) = 0"
      and mem: "\<And>k. unat (8 * k :: word_t) < 2 ^ ?n \<Longrightarrow> umem s (base + 8 * k) \<noteq> None"
      by (simp_all add: cap_ok_def refs_ok_def)
    have w: "unat (tcbIPCBuffer T) mod 1024 = 0"
      using slots_okD(6) [OF ok t] by (simp add: aligned_iff)
    have o: "unat (off sz) = unat (tcbIPCBuffer T) mod 2 ^ ?n" by (simp add: off_def unat_and_MASK)
    have split: "(2 :: nat) ^ ?n = 1024 * 2 ^ (?n - 10)" by (cases sz) simp_all
    then have o10: "unat (off sz) mod 1024 = 0" using w o by (metis dvd_triv_left mod_mod_cancel)
    have lt: "unat (off sz) < 2 ^ ?n" by (simp add: o)
    obtain q where q: "unat (off sz) = 1024 * q" using o10 by (metis dvdE mod_eq_0_iff_dvd)
    with lt split have "q < 2 ^ (?n - 10)" by simp
    then have room: "unat (off sz) + 1024 \<le> 2 ^ ?n" using q split by simp
    have al: "(base + off sz) AND MASK 10 = 0"
      using aligned_add [OF aligned_weaken [OF base], of 10 "off sz"] n o10 by (simp add: aligned_iff)
    have "umem s (base + off sz + 8 * of_nat i) \<noteq> None" if i: "i < 128" for i
    proof -
      let ?k = "of_nat (128 * q + i) :: word_t"
      have "8 * ?k = of_nat (1024 * q) + 8 * of_nat i" by simp
      also have "of_nat (1024 * q) = off sz"
      proof -
        have "off sz = of_nat (unat (off sz))" by simp
        then show ?thesis by (simp only: q)
      qed
      finally have k: "8 * ?k = off sz + 8 * of_nat i" .
      have "8 * ?k = of_nat (8 * (128 * q + i))" by simp
      then have "unat (8 * ?k) = 8 * (128 * q + i) mod 2 ^ 64" by (simp only: unat_of_nat) simp
      then have "unat (8 * ?k) \<le> 8 * (128 * q + i)" by simp
      also have "\<dots> < 2 ^ ?n" using q room i by simp
      finally have "umem s (base + 8 * ?k) \<noteq> None" by (rule mem)
      then show ?thesis unfolding k by (simp add: add.assoc)
    qed
    with al show ?thesis by (simp add: buffer_ok_def)
  qed
  have null: "buffer_ok s NULL" by (simp add: buffer_ok_def)
  show ?thesis
  proof (cases "cte_cap x")
    case (cap_frame_cap asid base sz va r dev)
    with frame null show ?thesis by (cases dev) (auto simp: lookupIPCBuffer_def t x off_def)
  qed (use null in \<open>auto simp: lookupIPCBuffer_def t x\<close>)
qed

section \<open>Single writes\<close>

lemma msg_stepI:
  assumes ok: "slots_ok s" and e: "msg_erased s' = msg_erased s" and t: "\<And>u. u \<noteq> r \<Longrightarrow> tcbs s' u = tcbs s u"
    and c: "ctes s' = ctes s"
  shows "msg_step r s s'"
proof -
  have "map_option tcbIPCBuffer (tcbs s' t) = map_option tcbIPCBuffer (tcbs s t)" for t
    by (rule map_option_part [OF _ msg_erasedD(2) [OF e], where h = tcbIPCBuffer]) simp
  from slots_ok_frame [OF ok c msg_erasedD(1) [OF e] this] have "slots_ok s'" .
  with e t show ?thesis by (simp add: msg_step_def caps_of_def c)
qed

lemma msg_step_register:
  assumes ok: "slots_ok s" and r: "tcbs s r = Some R"
  shows "msg_step r s (s\<lparr>tcbs := (tcbs s)(r \<mapsto> R\<lparr>tcbContext := c\<rparr>)\<rparr>)"
proof (rule msg_stepI [OF ok])
  have "(\<lambda>t. map_option (\<lambda>T. T\<lparr>tcbContext := \<lambda>_. 0\<rparr>) (((tcbs s)(r \<mapsto> R\<lparr>tcbContext := c\<rparr>)) t)) =
      (\<lambda>t. map_option (\<lambda>T. T\<lparr>tcbContext := \<lambda>_. 0\<rparr>) (tcbs s t))" using r by auto
  then show "msg_erased (s\<lparr>tcbs := (tcbs s)(r \<mapsto> R\<lparr>tcbContext := c\<rparr>)\<rparr>) = msg_erased s"
    by (simp add: msg_erased_def quiet_def del: fun_upd_apply)
qed simp_all

lemma msg_step_umem:
  assumes ok: "slots_ok s" and u: "dom u = dom (umem s)"
  shows "msg_step r s (s\<lparr>umem := u\<rparr>)"
proof (rule msg_stepI [OF ok])
  have "map_option (\<lambda>_. 0 :: word_t) (u a) = map_option (\<lambda>_. 0) (umem s a)" for a
    using u by (cases "u a"; cases "umem s a") auto
  then show "msg_erased (s\<lparr>umem := u\<rparr>) = msg_erased s" by (simp add: msg_erased_def quiet_def)
qed simp_all

lemma msg_step_quiet:
  assumes ok: "slots_ok s" and q: "quiet s' = quiet s"
  shows "msg_step r s s'"
proof (rule msg_stepI [OF ok])
  show "msg_erased s' = msg_erased s" using quietD [OF q] q by (simp add: msg_erased_def)
qed (simp_all add: quietD [OF q])

lemma msg_step_live:
  assumes "msg_step r s s'"
  shows "live s' = live s"
  by (rule msg_erasedD(1) [OF msg_stepD(1) [OF assms]])

lemma buf_write_step:
  assumes ok: "slots_ok s" and b: "buffer_ok s b" "b \<noteq> NULL" and i: "unat i < 128"
  shows "buf_write b i w s = Some (s\<lparr>umem := (umem s)(b + 8 * i \<mapsto> w)\<rparr>)"
    and "msg_step r s (s\<lparr>umem := (umem s)(b + 8 * i \<mapsto> w)\<rparr>)"
proof -
  from buffer_okD [OF b i] obtain v where v: "umem s (b + 8 * i) = Some v" by auto
  then show "buf_write b i w s = Some (s\<lparr>umem := (umem s)(b + 8 * i \<mapsto> w)\<rparr>)" by (simp add: buf_write_def)
  show "msg_step r s (s\<lparr>umem := (umem s)(b + 8 * i \<mapsto> w)\<rparr>)"
    using v by (intro msg_step_umem [OF ok]) auto
qed

lemma buf_read_ok:
  assumes "buffer_ok s b" and "b \<noteq> NULL" and "unat i < 128"
  shows "\<exists>v. buf_read b i s = Some v"
  using buffer_okD [OF assms] by (simp add: buf_read_def)

lemma setMR_step:
  assumes ok: "slots_ok s" and r: "tcbs s r = Some R" and b: "buffer_ok s b" and i: "unat i < 120"
  shows "\<exists>n s'. setMR r b i w s = Some (n, s') \<and> msg_step r s s'"
proof (cases "i < 4")
  case True
  then show ?thesis using msg_step_register [OF ok r] r
    by (simp add: setMR_def kmonad not_le [symmetric] del: fun_upd_apply)
next
  case False
  have i': "unat (i + 1) < 128" using i by (simp add: unat_word_ariths)
  from False show ?thesis
  proof (cases "b = NULL")
    case True
    with False msg_step_refl [OF ok] show ?thesis by (simp add: setMR_def not_less)
  next
    case nb: False
    from False buf_write_step(1) [OF ok b nb i', of w] buf_write_step(2) [OF ok b nb i', where r = r and w = w] nb
    show ?thesis by (simp add: setMR_def not_less)
  qed
qed

section \<open>Copying the words of a message\<close>

lemma copy_msg_registers_run:
  assumes "tcbs s x = Some S" and "tcbs s r = Some R"
  shows "copy_msg_registers x r is s =
    Some (s\<lparr>tcbs := (tcbs s)(r \<mapsto> R\<lparr>tcbContext := \<lambda>g. if g \<in> (\<lambda>i. msgRegisters ! i) ` set is
                                                    then tcbContext S g else tcbContext R g\<rparr>)\<rparr>)"
  using assms
proof (induction "is" arbitrary: s S R)
  case Nil
  then show ?case by (simp add: fun_upd_idem)
next
  case (Cons i "is")
  let ?m = "msgRegisters ! i"
  let ?R = "R\<lparr>tcbContext := (tcbContext R)(?m := tcbContext S ?m)\<rparr>"
  let ?S = "if x = r then ?R else S"
  let ?s = "s\<lparr>tcbs := (tcbs s)(r \<mapsto> ?R)\<rparr>"
  have "tcbs ?s x = Some ?S" "tcbs ?s r = Some ?R" using Cons.prems by auto
  from Cons.IH [OF this]
  show ?case using Cons.prems
    by (auto simp: kmonad fun_eq_iff intro!: arg_cong [where f = "\<lambda>t. s\<lparr>tcbs := t\<rparr>"] ext)
qed

lemma buffer_word:
  fixes b :: word_t
  assumes al: "b AND MASK 10 = 0" and i: "i < 128"
  shows "unat (b + 8 * of_nat i) = unat b + 8 * i" and "unat (b + 8 * of_nat i) div 1024 = unat b div 1024"
proof -
  obtain q where q: "unat b = 1024 * q" using al by (auto simp: aligned_iff)
  moreover have "unat b < 2 ^ 64" using unsigned_less [of b] by simp
  ultimately have q': "q < 2 ^ 54" by simp
  have "unat (8 * of_nat i :: word_t) = 8 * i"
  proof -
    have "8 * of_nat i = (of_nat (8 * i) :: word_t)" by simp
    then have "unat (8 * of_nat i :: word_t) = 8 * i mod 2 ^ 64" by (simp only: unat_of_nat) simp
    then show ?thesis using i by simp
  qed
  then have "unat (b + 8 * of_nat i) = (1024 * q + 8 * i) mod 2 ^ 64" by (simp add: unat_word_ariths q)
  then show u: "unat (b + 8 * of_nat i) = unat b + 8 * i" using q q' i by simp
  show "unat (b + 8 * of_nat i) div 1024 = unat b div 1024" unfolding u q using i by simp
qed

lemma buffers_apart:
  fixes b b' :: word_t
  assumes "b AND MASK 10 = 0" and "b' AND MASK 10 = 0" and "i < 128" and "j < 128"
    and "b + 8 * of_nat i = b' + 8 * of_nat j"
  shows "b = b'" and "i = j"
proof -
  have "unat b div 1024 = unat b' div 1024"
    using buffer_word(2) [OF assms(1,3)] buffer_word(2) [OF assms(2,4)] assms(5) by simp
  moreover have "unat b mod 1024 = 0" "unat b' mod 1024 = 0" using assms(1,2) by (simp_all add: aligned_iff)
  ultimately have eq: "unat b = unat b'" by (metis add.right_neutral mult_div_mod_eq)
  then show "b = b'" by (simp add: word_unat_eq_iff)
  have "unat b + 8 * i = unat b' + 8 * j"
    using buffer_word(1) [OF assms(1,3)] buffer_word(1) [OF assms(2,4)] assms(5) by metis
  with eq show "i = j" by simp
qed

abbreviation word_at :: "ptr \<Rightarrow> nat \<Rightarrow> ptr" where
  "word_at b i \<equiv> b + 8 * of_nat (Suc i)"

lemma copy_buffer_words_run:
  assumes "slots_ok s" and "buffer_ok s sb" "sb \<noteq> NULL" and "buffer_ok s rb" "rb \<noteq> NULL" and "\<forall>i \<in> set is. i < 127"
  shows "\<exists>s'. copy_buffer_words sb rb is s = Some s' \<and> msg_step r s s' \<and> tcbs s' = tcbs s \<and> ctes s' = ctes s \<and>
    current_extra_caps s' = current_extra_caps s \<and>
    (\<forall>a. umem s' a = (if \<exists>i \<in> set is. a = word_at rb i then umem s (sb + (a - rb)) else umem s a))"
  using assms
proof (induction "is" arbitrary: s)
  case Nil
  then show ?case by (auto simp: msg_step_refl)
next
  case (Cons i "is")
  from Cons.prems have i: "Suc i < 128" and al: "sb AND MASK 10 = 0" "rb AND MASK 10 = 0"
    by (auto simp: buffer_ok_def)
  have si: "unat (1 + of_nat i :: word_t) = Suc i" using i by (simp flip: of_nat_Suc add: unat_of_nat del: of_nat_Suc)
  from buffer_okD [OF Cons.prems(2,3) i] obtain v where v: "umem s (word_at sb i) = Some v" by auto
  let ?s = "s\<lparr>umem := (umem s)(word_at rb i \<mapsto> v)\<rparr>"
  have i2: "unat (of_nat i + 1 :: word_t) < 128" using i si by (simp add: add.commute)
  from buf_write_step(1) [OF Cons.prems(1,4,5) i2, of v] buf_write_step(2) [OF Cons.prems(1,4,5) i2, of r v] have w: "buf_write rb (of_nat i + 1) v s = Some ?s"
    and st: "msg_step r s ?s" by (simp_all add: add.commute)
  from v have rd: "buf_read sb (of_nat i + 1) s = Some v" by (simp add: buf_read_def add.commute)
  have ok: "slots_ok ?s" "buffer_ok ?s sb" "buffer_ok ?s rb"
    unfolding buffer_ok_live [OF msg_step_live [OF st]] by (fact msg_stepD(3) [OF st] Cons.prems(2,4))+
  from Cons.IH [OF ok(1,2) Cons.prems(3) ok(3) Cons.prems(5)] Cons.prems(6) obtain s' where
    run: "copy_buffer_words sb rb is ?s = Some s'" and st': "msg_step r ?s s'" and t: "tcbs s' = tcbs ?s" "ctes s' = ctes ?s"
      "current_extra_caps s' = current_extra_caps ?s"
    and u: "\<And>a. umem s' a = (if \<exists>j \<in> set is. a = word_at rb j then umem ?s (sb + (a - rb)) else umem ?s a)"
    by auto
  have "umem s' a = (if \<exists>j \<in> set (i # is). a = word_at rb j then umem s (sb + (a - rb)) else umem s a)" for a
  proof (cases "\<exists>j \<in> set is. a = word_at rb j")
    case True
    then obtain j where j: "j \<in> set is" "a = word_at rb j" by blast
    then have a: "sb + (a - rb) = word_at sb j" by simp
    have "umem ?s (word_at sb j) = umem s (word_at sb j)"
    proof (cases "word_at sb j = word_at rb i")
      case True
      moreover have "Suc j < 128" using j(1) Cons.prems(6) by auto
      ultimately have "sb = rb" using buffers_apart(1) [OF al _ i] by blast
      with True v show ?thesis by simp
    qed simp
    with True u [of a] a show ?thesis by auto
  next
    case False
    with u [of a] v show ?thesis by auto
  qed
  with run rd w st st' t show ?case by (auto intro: msg_step_trans)
qed

section \<open>A message arrives\<close>

text \<open>Word \<open>i\<close> of the message of a thread: in a register, or in its buffer.\<close>

definition msg_word :: "kstate \<Rightarrow> ptr \<Rightarrow> ptr \<Rightarrow> nat \<Rightarrow> word_t option" where
  "msg_word s t b i =
     (if i < n_msgRegisters then map_option (\<lambda>T. tcbContext T (msgRegisters ! i)) (tcbs s t)
      else umem s (word_at b i))"

lemma length_msgRegisters [simp]: "length msgRegisters = 4"
  by (simp add: msgRegisters_def)

lemma take_min_registers [simp]: "take (min k 4) msgRegisters = take k msgRegisters"
  by (cases "k \<le> 4") (simp_all add: min_def)

lemma set_take_registers: "k \<le> 4 \<Longrightarrow> (\<lambda>i. msgRegisters ! i) ` set [0..<k] = set (take k msgRegisters)"
  using nth_image [of k msgRegisters] by simp

lemma copyMRs_ok:
  assumes ok: "slots_ok s" and x: "tcbs s x = Some S" and r: "tcbs s r = Some R"
    and sb: "buffer_ok s sb" and rb: "buffer_ok s rb" and n: "unat n \<le> 120"
  defines "m \<equiv> if rb = NULL \<or> sb = NULL then min (unat n) n_msgRegisters else unat n"
  shows "\<exists>s' R'. copyMRs x sb r rb n s = Some (of_nat m, s') \<and> msg_step r s s' \<and>
    (\<forall>i < m. msg_word s' r rb i = msg_word s x sb i) \<and> tcbs s' r = Some R' \<and>
    (\<forall>g. g \<notin> set (take m msgRegisters) \<longrightarrow> tcbContext R' g = tcbContext R g) \<and>
    (\<forall>a. (\<forall>i < m. n_msgRegisters \<le> i \<longrightarrow> a \<noteq> word_at rb i) \<longrightarrow> umem s' a = umem s a) \<and> ctes s' = ctes s \<and>
    current_extra_caps s' = current_extra_caps s"
proof -
  let ?k = "min (unat n) n_msgRegisters"
  let ?R = "R\<lparr>tcbContext := \<lambda>g. if g \<in> set (take ?k msgRegisters) then tcbContext S g else tcbContext R g\<rparr>"
  let ?s = "s\<lparr>tcbs := (tcbs s)(r \<mapsto> ?R)\<rparr>"
  have regs: "copy_msg_registers x r [0..<?k] s = Some ?s"
    using copy_msg_registers_run [OF x r, of "[0..<?k]"] unfolding set_take_registers [OF min.cobounded2] .
  have st: "msg_step r s ?s" by (rule msg_step_register [OF ok r])
  have reg: "msg_word ?s r b i = msg_word s x b' i" if "i < ?k" for i b b'
    using that x by (auto simp: msg_word_def in_set_conv_nth)
  show ?thesis
  proof (cases "rb = NULL \<or> sb = NULL")
    case True
    then have "copyMRs x sb r rb n s = Some (of_nat m, ?s)" by (auto simp: copyMRs_def regs m_def Let_def)
    moreover have "m = ?k" using True by (simp add: m_def)
    ultimately show ?thesis using st reg by (intro exI [of _ ?s] exI [of _ ?R]) auto
  next
    case False
    then have m: "m = unat n" by (simp add: m_def)
    have b: "buffer_ok ?s sb" "buffer_ok ?s rb"
      unfolding buffer_ok_live [OF msg_step_live [OF st]] by (fact sb rb)+
    have "\<forall>i \<in> set [?k..<unat n]. i < 127" using n by auto
    from copy_buffer_words_run [OF msg_stepD(3) [OF st] b(1) _ b(2) _ this, of r] False obtain s' where
      run: "copy_buffer_words sb rb [?k..<unat n] ?s = Some s'" and st': "msg_step r ?s s'" and t: "tcbs s' = tcbs ?s" "ctes s' = ctes ?s"
      "current_extra_caps s' = current_extra_caps ?s"
      and u: "\<And>a. umem s' a = (if \<exists>i \<in> set [?k..<unat n]. a = word_at rb i then umem ?s (sb + (a - rb)) else umem ?s a)"
      by auto
    have c: "copyMRs x sb r rb n s = Some (of_nat m, s')"
      using False run by (simp add: copyMRs_def regs Let_def m)
    have w: "msg_word s' r rb i = msg_word s x sb i" if "i < m" for i
    proof (cases "i < n_msgRegisters")
      case True
      with reg [of i rb sb] that m t show ?thesis by (simp add: msg_word_def)
    next
      case False
      with that m have "i \<in> set [?k..<unat n]" by auto
      then have "\<exists>j \<in> set [?k..<unat n]. word_at rb i = word_at rb j" by blast
      then have "umem s' (word_at rb i) = umem ?s (sb + (word_at rb i - rb))" unfolding u by simp
      also have "\<dots> = umem s (word_at sb i)" by simp
      finally show ?thesis using False by (simp add: msg_word_def)
    qed
    have f: "umem s' a = umem s a" if "\<forall>i < m. n_msgRegisters \<le> i \<longrightarrow> a \<noteq> word_at rb i" for a
    proof -
      have "\<not> (\<exists>i \<in> set [?k..<unat n]. a = word_at rb i)"
      proof
        assume "\<exists>i \<in> set [?k..<unat n]. a = word_at rb i"
        then obtain i where i: "i \<in> set [?k..<unat n]" "a = word_at rb i" by blast
        from i(1) m have "i < m" "n_msgRegisters \<le> i" by auto
        with that i(2) show False by blast
      qed
      with u [of a] show ?thesis by simp
    qed
    show ?thesis
      using c msg_step_trans [OF st st'] w f t m by (intro exI [of _ s'] exI [of _ ?R]) auto
  qed
qed

section \<open>Message information words\<close>

lemma raw_fields:
  "messageInfoFromWord_raw (wordFromMessageInfo mi) =
     \<lparr>mi_label = mi_label mi AND MASK 52, mi_capsUnwrapped = mi_capsUnwrapped mi AND MASK 3,
      mi_extraCaps = mi_extraCaps mi AND MASK 2, mi_length = mi_length mi AND MASK 7\<rparr>"
  unfolding messageInfoFromWord_raw_def wordFromMessageInfo_def
  by (rule seL4_MessageInfo_t.equality; simp only: seL4_MessageInfo_t.simps; (rule bit_word_eqI)?)
    (auto simp: shiftr_def shiftl_def MASK_eq_mask bit_simps)

lemma and_MASK_less: "w < 2 ^ unat n \<Longrightarrow> unat n < 64 \<Longrightarrow> w AND MASK n = w" for w :: word_t
  by (simp add: word_unat_eq_iff unat_and_MASK word_less_nat_alt unat_p2)

lemma messageInfoFromWord_wordFromMessageInfo:
  assumes "mi_label mi < 2 ^ 52" and "mi_capsUnwrapped mi < 8" and "mi_extraCaps mi < 4" and "mi_length mi \<le> 120"
  shows "messageInfoFromWord (wordFromMessageInfo mi) = mi"
proof -
  have "mi_length mi < 128" using assms(4) by (rule order_le_less_trans) simp
  then show ?thesis using assms
    by (simp add: messageInfoFromWord_def raw_fields Let_def and_MASK_less not_less [symmetric])
qed

lemma wordFromMessageInfo_fields:
  assumes "mi_length mi \<le> 120"
  shows "mi_length (messageInfoFromWord (wordFromMessageInfo mi)) = mi_length mi"
    and "mi_label (messageInfoFromWord (wordFromMessageInfo mi)) = mi_label mi AND MASK 52"
proof -
  have "mi_length mi < 128" using assms by (rule order_le_less_trans) simp
  then show "mi_length (messageInfoFromWord (wordFromMessageInfo mi)) = mi_length mi"
    "mi_label (messageInfoFromWord (wordFromMessageInfo mi)) = mi_label mi AND MASK 52" using assms
    by (simp_all add: messageInfoFromWord_def raw_fields Let_def and_MASK_less not_less [symmetric])
qed

lemma messageInfo_length: "mi_length (messageInfoFromWord w) \<le> 120"
  by (simp add: messageInfoFromWord_def Let_def not_less)

lemma messageInfo_extraCaps: "unat (mi_extraCaps (messageInfoFromWord w)) \<le> 3"
proof -
  have "unat (shiftr w 7 AND MASK 2) < 4" by (simp add: unat_and_MASK)
  then show ?thesis by (simp add: messageInfoFromWord_def messageInfoFromWord_raw_def Let_def)
qed

section \<open>Transfer of capabilities\<close>

text \<open>The extra capabilities up to the first null one name live slots outside threads.\<close>

primrec extra_live :: "kstate \<Rightarrow> nat list \<Rightarrow> bool" where
  "extra_live s [] \<longleftrightarrow> True"
| "extra_live s (i # is) \<longleftrightarrow>
     (current_extra_caps s i \<noteq> NULL \<longrightarrow>
        ctes s (current_extra_caps s i) \<noteq> None \<and> current_extra_caps s i \<notin> tcb_slots s \<and> extra_live s is)"

lemma extra_live_cong:
  assumes "live s' = live s" and "current_extra_caps s' = current_extra_caps s"
  shows "extra_live s' is = extra_live s is"
  using liveD(1) [OF assms(1)] cap_ok_live(2) [OF assms(1)] assms(2)
  by (induction "is") (simp_all del: not_None_eq)

lemma lookupExtraCaps_loop_ok:
  assumes "slots_ok s" and "tcbs s t \<noteq> None" and "buffer_ok s b" and "b \<noteq> NULL" and "k + n \<le> 3"
    and "\<forall>i < k. ctes s (current_extra_caps s i) \<noteq> None \<and> current_extra_caps s i \<notin> tcb_slots s"
  shows "\<exists>st s'. lookupExtraCaps_loop [k..<k + n] t b s = Some (st, s') \<and> quiet s' = quiet s \<and>
    (st = EXCEPTION_NONE \<longrightarrow>
      (\<forall>i < k + n. ctes s' (current_extra_caps s' i) \<noteq> None \<and> current_extra_caps s' i \<notin> tcb_slots s'))"
  using assms
proof (induction n arbitrary: k s)
  case 0
  then show ?case by auto
next
  case (Suc n)
  have list: "[k..<k + Suc n] = k # [Suc k..<Suc k + n]" by (simp add: upt_rec)
  have "unat (120 + 2 + of_nat k :: word_t) < 128"
  proof -
    have "120 + 2 + of_nat k = (of_nat (122 + k) :: word_t)" by simp
    then show ?thesis using Suc.prems(5) by (simp only: unat_of_nat) simp
  qed
  from buf_read_ok [OF Suc.prems(3,4) this] obtain c where c: "getExtraCPtr b k s = Some c"
    by (auto simp: getExtraCPtr_def)
  from lookupSlot_ok [OF Suc.prems(1,2), of c] obtain st slot s1 where l: "lookupSlot t c s = Some ((st, slot), s1)"
    and cs: "calm s1 = calm s" and r: "if st = EXCEPTION_NONE then \<exists>x. ctes s slot = Some x \<and> slot \<notin> tcb_slots s \<and> s1 = s
      else st = EXCEPTION_LOOKUP_FAULT" by blast
  note q = calmD(1) [OF cs]
  show ?case
  proof (cases "st = EXCEPTION_NONE")
    case False
    with l q c show ?thesis unfolding list by simp
  next
    case True
    let ?s = "set_extra_cap k slot s"
    from True r have s1: "s1 = s" and slot: "ctes s slot \<noteq> None" "slot \<notin> tcb_slots s" by auto
    have q2: "quiet ?s = quiet s" by simp
    note f = quietD [OF q2]
    have cec: "current_extra_caps ?s = (current_extra_caps s)(k := slot)" by (simp add: set_extra_cap_def)
    have prem: "\<forall>i < Suc k. ctes ?s (current_extra_caps ?s i) \<noteq> None \<and> current_extra_caps ?s i \<notin> tcb_slots ?s"
      using Suc.prems(6) slot unfolding cec f(1) cap_ok_live(2) [OF f(6)] by (auto simp: less_Suc_eq)
    have pre: "slots_ok ?s" "tcbs ?s t \<noteq> None" "buffer_ok ?s b"
      using Suc.prems(1-3) unfolding quiet_slots_ok [OF q2] f(2) buffer_ok_live [OF f(6)] by auto
    from Suc.prems(5) have "Suc k + n \<le> 3" by simp
    from Suc.IH [OF pre Suc.prems(4) this prem] show ?thesis
      using True l c s1 q2 unfolding list by simp
  qed
qed

lemma lookupExtraCaps_ok:
  assumes ok: "slots_ok s" and t: "tcbs s t \<noteq> None" and b: "buffer_ok s b" and n: "unat (mi_extraCaps info) \<le> 3"
  shows "\<exists>st s'. lookupExtraCaps t b info s = Some (st, s') \<and> quiet s' = quiet s \<and>
    (st = EXCEPTION_NONE \<longrightarrow> extra_live s' [0, 1, 2])"
proof (cases "b = NULL")
  case True
  then show ?thesis by (simp add: lookupExtraCaps_def set_extra_cap_def)
next
  case False
  let ?n = "unat (mi_extraCaps info)"
  from lookupExtraCaps_loop_ok [OF ok t b False, of 0 ?n] n obtain st s' where
    l: "lookupExtraCaps_loop [0..<?n] t b s = Some (st, s')" and q: "quiet s' = quiet s"
    and e: "st = EXCEPTION_NONE \<Longrightarrow> \<forall>i < ?n. ctes s' (current_extra_caps s' i) \<noteq> None \<and> current_extra_caps s' i \<notin> tcb_slots s'"
    by auto
  show ?thesis
  proof (cases "st = EXCEPTION_NONE")
    case st: True
    define s2 where "s2 = (if ?n < 3 then set_extra_cap ?n NULL s' else s')"
    have q2: "quiet s2 = quiet s'" by (simp add: s2_def)
    have run: "lookupExtraCaps t b info s = Some (EXCEPTION_NONE, s2)"
      using False l st by (simp add: lookupExtraCaps_def s2_def Let_def)
    have cec: "current_extra_caps s2 i = (if i = ?n \<and> ?n < 3 then NULL else current_extra_caps s' i)" for i
      by (simp add: s2_def set_extra_cap_def)
    have "i < 3 \<longrightarrow> i < ?n \<or> ?n < 3" for i by auto
    moreover have "extra_live s2 [0, 1, 2]"
      using e [OF st] n unfolding extra_live.simps cec quietD(1) [OF q2] cap_ok_live(2) [OF quietD(6) [OF q2]]
      by (auto simp: le_Suc_eq numeral_3_eq_3)
    ultimately show ?thesis using run q q2 by auto
  next
    case stf: False
    with False l q show ?thesis by (simp add: lookupExtraCaps_def Let_def)
  qed
qed

lemma cteInsert_step:
  assumes ok: "slots_ok s" and a: "ctes s src = Some x" and b: "ctes s dest = Some y"
    and empty: "cte_cap y = cap_null_cap" and d: "derived dc (cte_cap x)" "dc \<noteq> cap_null_cap"
    and out: "src \<notin> tcb_slots s" "dest \<notin> tcb_slots s"
  shows "\<exists>s'. cteInsert dc src dest s = Some s' \<and> msg_step r s s' \<and> s' = s\<lparr>ctes := ctes s'\<rparr>"
proof -
  note dc = derived_ok [OF d slots_okD(3) [OF ok a]]
  from cteInsert_slots [OF ok a b empty dc(1) d(2) dc(2,3)] obtain s' where
    run: "cteInsert dc src dest s = Some s'" and ok': "slots_ok s'" and s': "s' = s\<lparr>ctes := ctes s'\<rparr>"
    and dom: "dom (ctes s') = dom (ctes s)" and c: "\<forall>p. p \<noteq> src \<and> p \<noteq> dest \<longrightarrow> caps_of s' p = caps_of s p" by blast
  have t: "tcbs s' = tcbs s" by (subst s') simp
  have n: "map_option f (ctes s' p) = map_option f (ctes s p)" if "\<And>x y. f x = f y" for f :: "cte_t \<Rightarrow> cte_t" and p
    using dom that by (cases "ctes s' p"; cases "ctes s p") auto
  have "msg_erased s' = msg_erased s" by (subst (1) s') (simp add: msg_erased_def quiet_def n)
  then have "msg_step r s s'" using ok' t c out by (auto simp: msg_step_def)
  with run s' show ?thesis by blast
qed

lemma getReceiveSlots_ok:
  assumes ok: "slots_ok s" and t: "tcbs s r \<noteq> None" and b: "buffer_ok s b"
  shows "\<exists>d s'. getReceiveSlots r b s = Some (d, s') \<and> calm s' = calm s \<and>
    (d \<noteq> NULL \<longrightarrow> d \<notin> tcb_slots s \<and> (\<exists>y. ctes s d = Some y \<and> cte_cap y = cap_null_cap))"
proof (cases "b = NULL")
  case False
  have "\<exists>v. buf_read b (of_nat k) s = Some v" if "k < 128" for k
  proof (rule buf_read_ok [OF b False])
    show "unat (of_nat k :: word_t) < 128" using that by (simp only: unat_of_nat) simp
  qed
  from this [of 125] this [of 126] this [of 127] obtain ct where ct: "loadCapTransfer b s = Some ct"
    by (auto simp: loadCapTransfer_def Let_def)
  from lookupCap_ok [OF ok t, of "ctReceiveRoot ct"] obtain st c s1 where
    l: "lookupCap r (ctReceiveRoot ct) s = Some ((st, c), s1)" and c1: "calm s1 = calm s" and c: "cap_ok s c" by blast
  note q1 = quietD [OF calmD(1) [OF c1]]
  show ?thesis
  proof (cases "st = EXCEPTION_NONE")
    case True
    have "slots_ok s1" "cap_ok s1 c"
      using ok c quiet_slots_ok [OF calmD(1) [OF c1]] cap_ok_live(1) [OF q1(6)] by auto
    from lookupTargetSlot_ok [OF this, of "ctReceiveIndex ct" "ctReceiveDepth ct"] obtain st2 slot s2 where
      l2: "lookupTargetSlot c (ctReceiveIndex ct) (ctReceiveDepth ct) s1 = Some ((st2, slot), s2)"
      and c2: "calm s2 = calm s1" and r: "st2 = EXCEPTION_NONE \<Longrightarrow> \<exists>x. ctes s1 slot = Some x \<and> slot \<notin> tcb_slots s1"
      by meson
    note q2 = quietD [OF calmD(1) [OF c2]]
    show ?thesis
    proof (cases "st2 = EXCEPTION_NONE")
      case t2: True
      from r [OF t2] obtain x where x: "ctes s1 slot = Some x" "slot \<notin> tcb_slots s1" by blast
      then have "slot \<notin> tcb_slots s" by (simp add: cap_ok_live(2) [OF q1(6)])
      with False ct l l2 True t2 c1 c2 x show ?thesis by (auto simp: getReceiveSlots_def q2 q1)
    next
      case f2: False
      with False ct l l2 True c1 c2 show ?thesis by (simp add: getReceiveSlots_def)
    qed
  next
    case False
    with \<open>b \<noteq> NULL\<close> ct l c1 show ?thesis by (simp add: getReceiveSlots_def)
  qed
qed (simp add: getReceiveSlots_def)

lemma transferCaps_loop_ok:
  assumes "slots_ok s" and "buffer_ok s rb" and "rb \<noteq> NULL" and "extra_live s is" and "\<forall>i \<in> set is. i < 3"
    and "dest \<noteq> NULL \<longrightarrow> dest \<notin> tcb_slots s \<and> (\<exists>y. ctes s dest = Some y \<and> cte_cap y = cap_null_cap)"
  shows "\<exists>info' j s'. transferCaps_loop is ep rb dest info s = Some ((info', j), s') \<and> msg_step r s s' \<and>
    j \<le> 3 \<and> mi_label info' = mi_label info \<and> tcbs s' = tcbs s \<and>
    (\<forall>a. (\<forall>k < 3. a \<noteq> rb + 8 * of_nat (122 + k)) \<longrightarrow> umem s' a = umem s a)"
  using assms
proof (induction "is" arbitrary: s info dest)
  case Nil
  then show ?case by (simp add: msg_step_refl)
next
  case (Cons i "is")
  let ?slot = "current_extra_caps s i"
  show ?case
  proof (cases "?slot = NULL")
    case True
    with Cons.prems(1,5) show ?thesis by (simp add: msg_step_refl)
  next
    case False
    with Cons.prems(4) obtain x where x: "ctes s ?slot = Some x" and sl: "?slot \<notin> tcb_slots s" and el: "extra_live s is"
      by auto
    let ?c = "cte_cap x"
    show ?thesis
    proof (cases "cap_get_capType ?c = 4 \<and> capEPPtr ?c = ep")
      case True
      let ?w = "capEPBadge ?c" and ?info = "info\<lparr>mi_capsUnwrapped := mi_capsUnwrapped info OR BIT (of_nat i)\<rparr>"
      let ?s = "s\<lparr>umem := (umem s)(rb + 8 * of_nat (122 + i) \<mapsto> ?w)\<rparr>"
      have i: "i < 3" using Cons.prems(5) by simp
      have e: "120 + 2 + of_nat i = (of_nat (122 + i) :: word_t)" by simp
      have "unat (of_nat (122 + i) :: word_t) < 128" using i by (simp only: unat_of_nat) simp
      from buf_write_step(1) [OF Cons.prems(1-3) this, of ?w] buf_write_step(2) [OF Cons.prems(1-3) this, of r ?w]
      have w: "setExtraBadge rb ?w i s = Some ?s" and st: "msg_step r s ?s" by (simp_all only: setExtraBadge_def e)
      have live: "live ?s = live s" by (rule msg_step_live [OF st])
      have cec: "current_extra_caps ?s = current_extra_caps s" by simp
      have pre: "buffer_ok ?s rb" "extra_live ?s is"
        using Cons.prems(2) el by (simp_all only: buffer_ok_live [OF live] extra_live_cong [OF live cec])
      have dest: "dest \<noteq> NULL \<longrightarrow> dest \<notin> tcb_slots ?s \<and> (\<exists>y. ctes ?s dest = Some y \<and> cte_cap y = cap_null_cap)"
      proof -
        have "ctes ?s = ctes s" by simp
        then show ?thesis using Cons.prems(6) by (simp only: cap_ok_live(2) [OF live])
      qed
      have "\<forall>i \<in> set is. i < 3" using Cons.prems(5) by simp
      from Cons.IH [OF msg_stepD(3) [OF st] pre(1) Cons.prems(3) pre(2) this dest, of ?info] obtain info' j s' where
        run: "transferCaps_loop is ep rb dest ?info ?s = Some ((info', j), s')" and st': "msg_step r ?s s'"
        and j: "j \<le> 3" "mi_label info' = mi_label info" and t: "tcbs s' = tcbs s"
        and u: "\<And>a. \<forall>k < 3. a \<noteq> rb + 8 * of_nat (122 + k) \<Longrightarrow> umem s' a = umem ?s a" by auto
      have "transferCaps_loop (i # is) ep rb dest info s = Some ((info', j), s')"
        using False True x w run by (simp add: Let_def)
      moreover have "umem s' a = umem s a" if "\<forall>k < 3. a \<noteq> rb + 8 * of_nat (122 + k)" for a
        using u [OF that] that i by auto
      ultimately show ?thesis using msg_step_trans [OF st st'] j t by blast
    next
      case other: False
      show ?thesis
      proof (cases "dest = NULL")
        case True
        with False other x Cons.prems(1,5) show ?thesis by (auto simp: Let_def msg_step_refl)
      next
        case dne: False
        with Cons.prems(6) obtain y where y: "ctes s dest = Some y" "cte_cap y = cap_null_cap" "dest \<notin> tcb_slots s" by auto
        from deriveCap_ok [OF Cons.prems(1) x] obtain st dc s1 where dv: "deriveCap ?slot ?c s = Some ((st, dc), s1)"
          and cs: "calm s1 = calm s" and d: "derived dc ?c" by blast
        note q = calmD(1) [OF cs]
        note f = quietD [OF q]
        have m1: "msg_step r s s1" by (rule msg_step_quiet [OF Cons.prems(1) q])
        show ?thesis
        proof (cases "st \<noteq> EXCEPTION_NONE \<or> dc = cap_null_cap")
          case True
          with False other dne x dv Cons.prems(5) m1 show ?thesis by (auto simp: Let_def f)
        next
          case ins: False
          have "ctes s1 ?slot = Some x" "ctes s1 dest = Some y" using x y by (simp_all add: f)
          moreover have "?slot \<notin> tcb_slots s1" "dest \<notin> tcb_slots s1"
            unfolding cap_ok_live(2) [OF f(6)] by (fact sl y(3))+
          ultimately obtain s2 where cr: "cteInsert dc ?slot dest s1 = Some s2" and m2: "msg_step r s1 s2"
            and s2: "s2 = s1\<lparr>ctes := ctes s2\<rparr>"
            using cteInsert_step [OF msg_stepD(3) [OF m1] _ _ y(2) d, of ?slot dest r] ins by blast
          have m: "msg_step r s s2" by (rule msg_step_trans [OF m1 m2])
          have k: "tcbs s2 = tcbs s" "umem s2 = umem s" "current_extra_caps s2 = current_extra_caps s"
            using f calmD(2) [OF cs] by (subst s2, simp)+
          have pre: "buffer_ok s2 rb" "extra_live s2 is"
            using Cons.prems(2) el by (simp_all only: buffer_ok_live [OF msg_step_live [OF m]]
                extra_live_cong [OF msg_step_live [OF m] k(3)])
          have "\<forall>i \<in> set is. i < 3" using Cons.prems(5) by simp
          from Cons.IH [OF msg_stepD(3) [OF m] pre(1) Cons.prems(3) pre(2) this, of NULL info] obtain info' j s' where
            run: "transferCaps_loop is ep rb NULL info s2 = Some ((info', j), s')" and st': "msg_step r s2 s'"
            and j: "j \<le> 3" "mi_label info' = mi_label info" and t: "tcbs s' = tcbs s2"
            and u: "\<And>a. \<forall>k < 3. a \<noteq> rb + 8 * of_nat (122 + k) \<Longrightarrow> umem s' a = umem s2 a" by auto
          have "transferCaps_loop (i # is) ep rb dest info s = Some ((info', j), s')"
            using False other dne x dv ins cr run by (auto simp: Let_def)
          moreover have "umem s' a = umem s a" if "\<forall>k < 3. a \<noteq> rb + 8 * of_nat (122 + k)" for a
            using u [OF that] k by simp
          ultimately show ?thesis using msg_step_trans [OF m st'] j t k by auto
        qed
      qed
    qed
  qed
qed

lemma transferCaps_ok:
  assumes ok: "slots_ok s" and r: "tcbs s r \<noteq> None" and b: "buffer_ok s rb" and e: "extra_live s [0, 1, 2]"
  shows "\<exists>info' s'. transferCaps info ep r rb s = Some (info', s') \<and> msg_step r s s' \<and>
    mi_label info' = mi_label info \<and> tcbs s' = tcbs s \<and>
    (\<forall>a. (\<forall>k < 3. a \<noteq> rb + 8 * of_nat (122 + k)) \<longrightarrow> umem s' a = umem s a)"
proof (cases "current_extra_caps s 0 = NULL \<or> rb = NULL")
  case True
  then show ?thesis using msg_step_refl [OF ok] by (simp add: transferCaps_def Let_def)
next
  case False
  let ?info = "info\<lparr>mi_extraCaps := 0, mi_capsUnwrapped := 0\<rparr>"
  from getReceiveSlots_ok [OF ok r b] obtain d s1 where g: "getReceiveSlots r rb s = Some (d, s1)"
    and cs: "calm s1 = calm s"
    and d: "d \<noteq> NULL \<longrightarrow> d \<notin> tcb_slots s \<and> (\<exists>y. ctes s d = Some y \<and> cte_cap y = cap_null_cap)" by blast
  note q = quietD [OF calmD(1) [OF cs]]
  have m1: "msg_step r s s1" by (rule msg_step_quiet [OF ok calmD(1) [OF cs]])
  have pre: "buffer_ok s1 rb" "extra_live s1 [0, 1, 2]"
    unfolding buffer_ok_live [OF q(6)] extra_live_cong [OF q(6) calmD(2) [OF cs]] by (fact b e)+
  have d1: "d \<noteq> NULL \<longrightarrow> d \<notin> tcb_slots s1 \<and> (\<exists>y. ctes s1 d = Some y \<and> cte_cap y = cap_null_cap)"
    using d by (simp only: cap_ok_live(2) [OF q(6)] q(1))
  from False have rb: "rb \<noteq> NULL" by simp
  have "\<forall>i \<in> set [0, 1, 2]. i < (3 :: nat)" by simp
  from transferCaps_loop_ok [OF msg_stepD(3) [OF m1] pre(1) rb pre(2) this d1, of ep ?info r] obtain info' j s' where
    run: "transferCaps_loop [0, 1, 2] ep rb d ?info s1 = Some ((info', j), s')" and st: "msg_step r s1 s'"
    and l: "mi_label info' = mi_label info" and t: "tcbs s' = tcbs s1"
    and u: "\<And>a. \<forall>k < 3. a \<noteq> rb + 8 * of_nat (122 + k) \<Longrightarrow> umem s' a = umem s1 a" by auto
  have three: "[0..<3] = [0, 1, 2 :: nat]" by (simp add: upt_rec)
  have "transferCaps info ep r rb s = Some (info'\<lparr>mi_extraCaps := of_nat j\<rparr>, s')"
    using False g run by (simp add: transferCaps_def Let_def three)
  with msg_step_trans [OF m1 st] l t u q(2,5) show ?thesis by auto
qed

section \<open>Transfer of a whole message\<close>

text \<open>
  The message of the sender \<open>x\<close> has arrived at \<open>r\<close>: its label, its words (all of them when both
  have a buffer, the register words otherwise), their number and the badge.
\<close>

definition delivered :: "kstate \<Rightarrow> ptr \<Rightarrow> ptr \<Rightarrow> word_t \<Rightarrow> kstate \<Rightarrow> bool" where
  "delivered s x r badge s' \<longleftrightarrow>
     (\<exists>S R' sb rb. tcbs s x = Some S \<and> tcbs s' r = Some R' \<and>
        lookupIPCBuffer False x s = Some sb \<and> lookupIPCBuffer True r s = Some rb \<and>
        (let tag = messageInfoFromWord (tcbContext S msgInfoRegister);
             tag' = messageInfoFromWord (tcbContext R' msgInfoRegister);
             m = (if rb = NULL \<or> sb = NULL then min (unat (mi_length tag)) n_msgRegisters
                  else unat (mi_length tag))
         in mi_label tag' = mi_label tag \<and> unat (mi_length tag') = m \<and>
            tcbContext R' badgeRegister = badge \<and>
            (\<forall>i < m. msg_word s' r rb i = msg_word s x sb i)))"

lemma messageInfo_label: "mi_label (messageInfoFromWord w) AND MASK 52 = mi_label (messageInfoFromWord w)"
proof -
  have "unat w < 2 ^ 64" using unsigned_less [of w] by simp
  then have "unat (shiftr w 12) < 2 ^ 52" by (simp add: unat_shiftr less_mult_imp_div_less)
  then have "shiftr w 12 AND MASK 52 = shiftr w 12" by (simp add: word_unat_eq_iff unat_and_MASK)
  then show ?thesis by (simp add: messageInfoFromWord_def messageInfoFromWord_raw_def Let_def)
qed

lemma doNormalTransfer_ok:
  assumes ok: "slots_ok s" and x: "tcbs s x = Some S" and r: "tcbs s r = Some R"
    and sb: "lookupIPCBuffer False x s = Some sb" and rb: "lookupIPCBuffer True r s = Some rb"
  shows "\<exists>s'. doNormalTransfer x sb ep badge grant r rb s = Some s' \<and> msg_step r s s' \<and> delivered s x r badge s'"
proof -
  let ?tag = "messageInfoFromWord (tcbContext S msgInfoRegister)"
  have bufs: "buffer_ok s sb" "buffer_ok s rb"
    using lookupIPCBuffer_ok [OF ok x, of False] lookupIPCBuffer_ok [OF ok r, of True] sb rb by auto
  from x have "tcbs s x \<noteq> None" by simp
  from lookupExtraCaps_ok [OF ok this bufs(1) messageInfo_extraCaps] obtain st s0 where
    lx: "lookupExtraCaps x sb ?tag s = Some (st, s0)" and q0: "quiet s0 = quiet s"
    and e0: "st = EXCEPTION_NONE \<longrightarrow> extra_live s0 [0, 1, 2]" by blast
  define s1 where "s1 = (if grant then if st \<noteq> EXCEPTION_NONE then set_extra_cap 0 NULL s0 else s0
                         else set_extra_cap 0 NULL s)"
  have q1: "quiet s1 = quiet s" using q0 by (simp add: s1_def)
  note q = quietD [OF q1]
  have e1: "extra_live s1 [0, 1, 2]" using e0 by (auto simp: s1_def set_extra_cap_def)
  have m1: "msg_step r s s1" by (rule msg_step_quiet [OF ok q1])
  have b1: "buffer_ok s1 sb" "buffer_ok s1 rb" unfolding buffer_ok_live [OF q(6)] by (fact bufs)+
  have t1: "tcbs s1 x = Some S" "tcbs s1 r = Some R" using x r q(2) by auto
  define m where "m = (if rb = NULL \<or> sb = NULL then min (unat (mi_length ?tag)) n_msgRegisters
                       else unat (mi_length ?tag))"
  have n120: "unat (mi_length ?tag) \<le> 120" using messageInfo_length [of "tcbContext S msgInfoRegister"]
    by (simp add: word_le_nat_alt)
  then have m120: "m \<le> 120" by (auto simp: m_def)
  from copyMRs_ok [OF msg_stepD(3) [OF m1] t1 b1 n120, folded m_def] obtain s2 R2 where
    cp: "copyMRs x sb r rb (mi_length ?tag) s1 = Some (of_nat m, s2)" and m2: "msg_step r s1 s2"
    and w2: "\<And>i. i < m \<Longrightarrow> msg_word s2 r rb i = msg_word s1 x sb i" and r2: "tcbs s2 r = Some R2"
    and c2: "current_extra_caps s2 = current_extra_caps s1" by blast
  have l2: "live s2 = live s1" by (rule msg_step_live [OF m2])
  have e2: "extra_live s2 [0, 1, 2]" unfolding extra_live_cong [OF l2 c2] by (fact e1)
  have b2: "buffer_ok s2 rb" unfolding buffer_ok_live [OF l2] by (fact b1)
  from r2 have "tcbs s2 r \<noteq> None" by simp
  from transferCaps_ok [OF msg_stepD(3) [OF m2] this b2 e2, of ?tag ep] obtain info s3 where
    tc: "transferCaps ?tag ep r rb s2 = Some (info, s3)" and m3: "msg_step r s2 s3"
    and l3: "mi_label info = mi_label ?tag" and t3: "tcbs s3 = tcbs s2"
    and u3: "\<And>a. \<forall>k < 3. a \<noteq> rb + 8 * of_nat (122 + k) \<Longrightarrow> umem s3 a = umem s2 a" by auto
  define info' where "info' = info\<lparr>mi_length := of_nat m\<rparr>"
  define R4 where "R4 = R2\<lparr>tcbContext := (tcbContext R2)(msgInfoRegister := wordFromMessageInfo info', badgeRegister := badge)\<rparr>"
  define s4 where "s4 = s3\<lparr>tcbs := (tcbs s3)(r \<mapsto> R4)\<rparr>"
  have r3: "tcbs s3 r = Some R2" using t3 r2 by simp
  have m4: "msg_step r s3 s4" unfolding s4_def R4_def by (rule msg_step_register [OF msg_stepD(3) [OF m3] r3])
  have run: "doNormalTransfer x sb ep badge grant r rb s = Some s4"
  proof -
    have ex: "(if grant then do { (status, s) \<leftarrow> lookupExtraCaps x sb ?tag s;
                  Some (if status \<noteq> EXCEPTION_NONE then set_extra_cap 0 NULL s else s) }
               else Some (set_extra_cap 0 NULL s)) = Some s1"
      by (cases grant) (simp_all only: lx s1_def if_True if_False bind_Some_conv prod.case)
    show ?thesis
      unfolding doNormalTransfer_def Let_def getRegister_Some [OF x] bind_Some_conv ex cp tc prod.case
        info'_def [symmetric]
      using r3 by (simp add: kmonad s4_def R4_def)
  qed
  have word: "msg_word s4 r rb i = msg_word s x sb i" if i: "i < m" for i
  proof -
    have "msg_word s4 r rb i = msg_word s2 r rb i"
    proof (cases "i < n_msgRegisters")
      case True
      then have "msgRegisters ! i \<in> set msgRegisters" by (intro nth_mem) simp
      then have "msgRegisters ! i \<noteq> 0" "msgRegisters ! i \<noteq> 1" by (auto simp: msgRegisters_def)
      with True r2 show ?thesis by (simp add: msg_word_def s4_def R4_def)
    next
      case False
      with i have rb': "rb \<noteq> NULL" by (auto simp: m_def split: if_splits)
      with bufs(2) have al: "rb AND MASK 10 = 0" by (simp add: buffer_ok_def)
      have "umem s3 (word_at rb i) = umem s2 (word_at rb i)"
      proof (rule u3, intro allI impI)
        fix k :: nat assume "k < 3"
        with i m120 have "Suc i < 128" "122 + k < 128" "Suc i \<noteq> 122 + k" by auto
        with buffers_apart(2) [OF al al] show "word_at rb i \<noteq> rb + 8 * of_nat (122 + k)" by blast
      qed
      with False show ?thesis by (simp add: msg_word_def s4_def)
    qed
    also have "\<dots> = msg_word s x sb i" using w2 [OF i] by (simp add: msg_word_def q)
    finally show ?thesis .
  qed
  have len: "mi_length info' \<le> 120" "unat (mi_length info') = m"
  proof -
    have "unat (of_nat m :: word_t) = m" using m120 by (simp only: unat_of_nat) simp
    with m120 show "mi_length info' \<le> 120" "unat (mi_length info') = m"
      by (simp_all add: info'_def word_le_nat_alt)
  qed
  have "delivered s x r badge s4"
    unfolding delivered_def Let_def
    using x sb rb word wordFromMessageInfo_fields [OF len(1)] len(2) l3 messageInfo_label
    by (intro exI [of _ S] exI [of _ R4] exI [of _ sb] exI [of _ rb])
      (simp add: s4_def R4_def info'_def m_def)
  with run msg_step_trans [OF m1 msg_step_trans [OF m2 msg_step_trans [OF m3 m4]]] show ?thesis by blast
qed

section \<open>Fault messages\<close>

text \<open>Sequences of writes to the message registers of one receiver.\<close>

definition receptive :: "kstate \<Rightarrow> ptr \<Rightarrow> ptr \<Rightarrow> ptr \<Rightarrow> bool" where
  "receptive s x r b \<longleftrightarrow> slots_ok s \<and> tcbs s x \<noteq> None \<and> tcbs s r \<noteq> None \<and> buffer_ok s b"

definition sends :: "ptr \<Rightarrow> kstate \<Rightarrow> ('a \<times> kstate) option \<Rightarrow> bool" where
  "sends r s m \<longleftrightarrow> (\<exists>n s'. m = Some (n, s') \<and> msg_step r s s')"

definition moves :: "ptr \<Rightarrow> kstate \<Rightarrow> kstate option \<Rightarrow> bool" where
  "moves r s m \<longleftrightarrow> (\<exists>s'. m = Some s' \<and> msg_step r s s')"

lemma receptive_step:
  assumes "receptive s x r b" and "msg_step r s s'"
  shows "receptive s' x r b"
  using assms(1) msg_stepD(3) [OF assms(2)] liveD(2) [OF msg_step_live [OF assms(2)]]
    buffer_ok_live [OF msg_step_live [OF assms(2)]]
  by (simp add: receptive_def del: not_None_eq)

lemma sends_ret: "receptive s x r b \<Longrightarrow> sends r s (Some (n, s))"
  by (simp add: sends_def receptive_def msg_step_refl)

lemma moves_ret: "receptive s x r b \<Longrightarrow> moves r s (Some s)"
  by (simp add: moves_def receptive_def msg_step_refl)

lemma sends_seq:
  assumes r: "receptive s x r b" and m: "sends r s m" and g: "\<And>n s'. receptive s' x r b \<Longrightarrow> sends r s' (g n s')"
  shows "sends r s (Option.bind m (\<lambda>(n, s). g n s))"
proof -
  from m obtain n s' where m: "m = Some (n, s')" "msg_step r s s'" by (auto simp: sends_def)
  from g [OF receptive_step [OF r m(2)], of n] m show ?thesis by (auto simp: sends_def intro: msg_step_trans)
qed

lemma moves_seq:
  assumes r: "receptive s x r b" and m: "moves r s m" and g: "\<And>s'. receptive s' x r b \<Longrightarrow> moves r s' (g s')"
  shows "moves r s (Option.bind m g)"
proof -
  from m obtain s' where m: "m = Some s'" "msg_step r s s'" by (auto simp: moves_def)
  from g [OF receptive_step [OF r m(2)]] m show ?thesis by (auto simp: moves_def intro: msg_step_trans)
qed

lemma moves_sends_seq:
  assumes r: "receptive s x r b" and m: "moves r s m" and g: "\<And>s'. receptive s' x r b \<Longrightarrow> sends r s' (g s')"
  shows "sends r s (Option.bind m g)"
proof -
  from m obtain s' where m: "m = Some s'" "msg_step r s s'" by (auto simp: moves_def)
  from g [OF receptive_step [OF r m(2)]] m show ?thesis by (auto simp: sends_def moves_def intro: msg_step_trans)
qed

lemma sends_moves_seq:
  assumes r: "receptive s x r b" and m: "sends r s m" and g: "\<And>n s'. receptive s' x r b \<Longrightarrow> moves r s' (g n s')"
  shows "moves r s (Option.bind m (\<lambda>(n, s). g n s))"
proof -
  from m obtain n s' where m: "m = Some (n, s')" "msg_step r s s'" by (auto simp: sends_def)
  from g [OF receptive_step [OF r m(2)], of n] m show ?thesis by (auto simp: moves_def intro: msg_step_trans)
qed

lemma setMR_sends: "receptive s x r b \<Longrightarrow> unat i < 120 \<Longrightarrow> sends r s (setMR r b i w s)"
  using setMR_step [of s r _ b i w] by (auto simp: receptive_def sends_def)

lemma setRegister_moves: "receptive s x r b \<Longrightarrow> moves r s (setRegister r g w s)"
  using msg_step_register [of s r] by (auto simp: receptive_def moves_def kmonad)

lemma getRegister_receptive: "receptive s x r b \<Longrightarrow> \<exists>v. getRegister x g s = Some v"
  by (auto simp: receptive_def kmonad)

lemma setMRs_lookup_failure_sends:
  assumes r: "receptive s x r b" and i: "i = 3 \<or> i = 1"
  shows "sends r s (setMRs_lookup_failure r b luf i s)"
proof -
  have "unat i < 120" "unat (i + 1) < 120" "unat (i + 2) < 120" "unat (i + 3) < 120" using i by auto
  note st = setMR_sends [OF _ this(1)] setMR_sends [OF _ this(2)] setMR_sends [OF _ this(3)] setMR_sends [OF _ this(4)]
  show ?thesis
    unfolding setMRs_lookup_failure_def assert_opt_holds [OF i] bind_Some_conv
    by (cases luf; simp only: lookup_fault_t.case; rule sends_seq [OF r st(1) [OF r]])
      (assumption | rule sends_ret sends_seq st)+
qed

lemma copyMRsFault_moves:
  assumes "receptive s x r b" and "k \<le> 12"
  shows "moves r s (copyMRsFault x r msg k b s)"
proof -
  have regs: "moves r s (copy_fault_registers x r msg is s)" if "receptive s x r b" for "is" s
    using that
  proof (induction "is" arbitrary: s)
    case (Cons i "is")
    from getRegister_receptive [OF Cons.prems] obtain v where "getRegister x (fault_messages msg ! i) s = Some v" by blast
    then show ?case
      using moves_seq [OF Cons.prems setRegister_moves [OF Cons.prems] Cons.IH] by simp
  qed (simp add: moves_ret)
  have words: "moves r s (copy_fault_words x b msg is s)"
    if "receptive s x r b" "b \<noteq> NULL" "\<forall>i \<in> set is. i < 12" for "is" s
    using that
  proof (induction "is" arbitrary: s)
    case (Cons i "is")
    from getRegister_receptive [OF Cons.prems(1)] obtain v where v: "getRegister x (fault_messages msg ! i) s = Some v"
      by blast
    have "unat (of_nat i + 1 :: word_t) < 128"
    proof -
      have "of_nat i + 1 = (of_nat (i + 1) :: word_t)" by simp
      then show ?thesis using Cons.prems(3) by (simp only: unat_of_nat) simp
    qed
    then have w: "moves r s (buf_write b (of_nat i + 1) v s)"
      using buf_write_step [of s b "of_nat i + 1"] Cons.prems by (simp add: moves_def receptive_def)
    have "moves r s' (copy_fault_words x b msg is s')" if "receptive s' x r b" for s'
      using Cons.IH [OF that] Cons.prems(2,3) by simp
    with v moves_seq [OF Cons.prems(1) w this] show ?case by simp
  qed (simp add: moves_ret)
  show ?thesis
    unfolding copyMRsFault_def Let_def using assms(2)
    by (intro moves_seq [OF assms(1) regs [OF assms(1)]]) (auto intro: words moves_ret)
qed

lemma setMRs_fault_sends:
  assumes r: "receptive s x r b" and t: "tcbs s x = Some T" and f: "tcbFault T \<noteq> seL4_Fault_NullFault"
  shows "sends r s (setMRs_fault x r b s)"
proof -
  from getRegister_receptive [OF r, of FaultIP] obtain pc where pc: "getRestartPC x s = Some pc"
    by (auto simp: getRestartPC_def)
  note st = setMR_sends [where x = x]
  have live: "\<exists>T'. tcbs s' x = Some T'" if "receptive s' x r b" for s' using that by (auto simp: receptive_def)
  show ?thesis
  proof (cases "tcbFault T")
    case (seL4_Fault_CapFault a p)
    have end_step: "sends r s' (do { t \<leftarrow> tcbs s' x; setMRs_lookup_failure r b (tcbLookupFailure t) 3 s' })"
      if "receptive s' x r b" for s'
      using live [OF that] setMRs_lookup_failure_sends [OF that] by auto
    show ?thesis
      unfolding setMRs_fault_def t bind_Some_conv seL4_Fault_CapFault seL4_Fault_t.case pc
      by (intro sends_seq [OF r st [OF r]])
        (assumption | rule end_step, assumption | rule sends_seq, assumption | rule st, assumption | simp)+
  next
    case (seL4_Fault_UnknownSyscall n)
    show ?thesis
      unfolding setMRs_fault_def t bind_Some_conv seL4_Fault_UnknownSyscall seL4_Fault_t.case
      by (rule moves_sends_seq [OF r copyMRsFault_moves [OF r]]) (auto intro: st)
  next
    case (seL4_Fault_UserException n c)
    show ?thesis
      unfolding setMRs_fault_def t bind_Some_conv seL4_Fault_UserException seL4_Fault_t.case
      by (rule moves_sends_seq [OF r copyMRsFault_moves [OF r]]) (auto intro!: st sends_seq)
  next
    case (seL4_Fault_VMFault a fsr i)
    show ?thesis
      unfolding setMRs_fault_def t bind_Some_conv seL4_Fault_VMFault seL4_Fault_t.case Arch_setMRs_fault_def pc
      by (intro sends_seq [OF r st [OF r]])
        (assumption | rule sends_seq, assumption | rule st, assumption | simp)+
  qed (use f in simp)
qed

lemma doFaultTransfer_ok:
  assumes r: "receptive s x r b" and t: "tcbs s x = Some T" and f: "tcbFault T \<noteq> seL4_Fault_NullFault"
  shows "\<exists>s' R'. doFaultTransfer badge x r b s = Some s' \<and> msg_step r s s' \<and> tcbs s' r = Some R' \<and>
    tcbContext R' badgeRegister = badge \<and>
    mi_label (messageInfoFromWord (tcbContext R' msgInfoRegister)) = seL4_Fault_get_seL4_FaultType (tcbFault T)"
proof -
  from setMRs_fault_sends [OF assms] obtain n s1 where m: "setMRs_fault x r b s = Some (n, s1)" and m1: "msg_step r s s1"
    by (auto simp: sends_def)
  from msg_step_tcb [OF m1 t] obtain T1 where t1: "tcbs s1 x = Some T1" and c: "T1 = T\<lparr>tcbContext := tcbContext T1\<rparr>" .
  have tf: "tcbFault T1 = tcbFault T" by (subst c) simp
  from receptive_step [OF r m1] obtain R where R: "tcbs s1 r = Some R" by (auto simp: receptive_def)
  let ?w = "wordFromMessageInfo (seL4_MessageInfo_new (seL4_Fault_get_seL4_FaultType (tcbFault T)) 0 0 n)"
  define R' where "R' = R\<lparr>tcbContext := (tcbContext R)(msgInfoRegister := ?w, badgeRegister := badge)\<rparr>"
  let ?s = "s1\<lparr>tcbs := (tcbs s1)(r \<mapsto> R')\<rparr>"
  have run: "doFaultTransfer badge x r b s = Some ?s"
    by (simp add: doFaultTransfer_def m t1 tf R kmonad R'_def)
  have "seL4_Fault_get_seL4_FaultType (tcbFault T) AND MASK 52 = seL4_Fault_get_seL4_FaultType (tcbFault T)"
    by (cases "tcbFault T") (simp_all add: MASK_def BIT_def)
  then have "mi_label (messageInfoFromWord ?w) = seL4_Fault_get_seL4_FaultType (tcbFault T)"
    by (simp add: messageInfoFromWord_def raw_fields Let_def seL4_MessageInfo_new_def)
  moreover have "msg_step r s1 ?s" unfolding R'_def by (rule msg_step_register [OF msg_stepD(3) [OF m1] R])
  ultimately show ?thesis using run msg_step_trans [OF m1] by (intro exI [of _ ?s] exI [of _ R']) (simp add: R'_def)
qed

lemma doIPCTransfer_ok:
  assumes ok: "slots_ok s" and x: "tcbs s x = Some S" and r: "tcbs s r = Some R"
  shows "\<exists>s'. doIPCTransfer x ep badge grant r s = Some s' \<and> msg_step r s s' \<and>
    (if tcbFault S = seL4_Fault_NullFault then delivered s x r badge s'
     else \<exists>R'. tcbs s' r = Some R' \<and> tcbContext R' badgeRegister = badge \<and>
       mi_label (messageInfoFromWord (tcbContext R' msgInfoRegister)) = seL4_Fault_get_seL4_FaultType (tcbFault S))"
proof -
  from lookupIPCBuffer_ok [OF ok r, of True] obtain rb where rb: "lookupIPCBuffer True r s = Some rb" "buffer_ok s rb" by blast
  from lookupIPCBuffer_ok [OF ok x, of False] obtain sb where sb: "lookupIPCBuffer False x s = Some sb" by blast
  show ?thesis
  proof (cases "tcbFault S = seL4_Fault_NullFault")
    case True
    with doNormalTransfer_ok [OF ok x r sb rb(1), of ep badge grant] show ?thesis
      by (simp add: doIPCTransfer_def rb sb x)
  next
    case False
    have "receptive s x r rb" using ok x r rb(2) by (simp add: receptive_def)
    from doFaultTransfer_ok [OF this x False, of badge] False show ?thesis
      by (auto simp: doIPCTransfer_def rb x)
  qed
qed

end
