(* ===== verification/Frames.thy ===== *)
theory Frames
  imports Messages
begin

text \<open>
  What the operations on threads, queues and objects leave alone. A relation between states
  that is reflexive and transitive is kept by an operation as soon as its parts keep it; the
  rules for the composition are proved once, in a locale, and used for the relation \<open>same_slots\<close>
  (no slot changes) and for the preservation of the invariant of slots.
\<close>

section \<open>Operations that keep a relation\<close>

definition framed :: "(kstate \<Rightarrow> kstate \<Rightarrow> bool) \<Rightarrow> kstate \<Rightarrow> kstate option \<Rightarrow> bool" where
  "framed R s m \<longleftrightarrow> (\<forall>s'. m = Some s' \<longrightarrow> R s s')"

definition framed_val :: "(kstate \<Rightarrow> kstate \<Rightarrow> bool) \<Rightarrow> kstate \<Rightarrow> ('a \<times> kstate) option \<Rightarrow> bool" where
  "framed_val R s m \<longleftrightarrow> (\<forall>v s'. m = Some (v, s') \<longrightarrow> R s s')"

lemma framedD: "framed R s m \<Longrightarrow> m = Some s' \<Longrightarrow> R s s'"
  by (simp add: framed_def)

lemma framed_valD: "framed_val R s m \<Longrightarrow> m = Some (v, s') \<Longrightarrow> R s s'"
  by (simp add: framed_val_def)

locale frame_relation =
  fixes R :: "kstate \<Rightarrow> kstate \<Rightarrow> bool"
  assumes refl: "R s s" and trans: "R s s' \<Longrightarrow> R s' s'' \<Longrightarrow> R s s''"
begin

lemma fail: "framed R s None" "framed_val R s None"
  by (simp_all add: framed_def framed_val_def)

lemma skip: "framed R s (Some s)" "framed_val R s (Some (v, s))"
  by (simp_all add: framed_def framed_val_def refl)

lemma ret: "R s s' \<Longrightarrow> framed R s (Some s')" "R s s' \<Longrightarrow> framed_val R s (Some (v, s'))"
  by (simp_all add: framed_def framed_val_def)

lemma bind:
  assumes "framed R s m" and "\<And>s'. R s s' \<Longrightarrow> framed R s' (g s')"
  shows "framed R s (Option.bind m g)"
  using assms by (auto simp: framed_def bind_eq_Some_conv intro: trans)

lemma bind_val:
  assumes "framed_val R s m" and "\<And>v s'. R s s' \<Longrightarrow> framed R s' (g v s')"
  shows "framed R s (Option.bind m (\<lambda>(v, s). g v s))"
  using assms by (fastforce simp: framed_def framed_val_def bind_eq_Some_conv intro: trans)

lemma val_bind:
  assumes "framed R s m" and "\<And>s'. R s s' \<Longrightarrow> framed_val R s' (g s')"
  shows "framed_val R s (Option.bind m g)"
  using assms by (fastforce simp: framed_def framed_val_def bind_eq_Some_conv intro: trans)

lemma val_bind_val:
  assumes "framed_val R s m" and "\<And>v s'. R s s' \<Longrightarrow> framed_val R s' (g v s')"
  shows "framed_val R s (Option.bind m (\<lambda>(v, s). g v s))"
  using assms by (fastforce simp: framed_val_def bind_eq_Some_conv intro: trans)

lemma read:
  assumes "\<And>x. m = Some x \<Longrightarrow> framed R s (g x)"
  shows "framed R s (Option.bind m g)"
  using assms by (auto simp: framed_def bind_eq_Some_conv)

lemma val_read:
  assumes "\<And>x. m = Some x \<Longrightarrow> framed_val R s (g x)"
  shows "framed_val R s (Option.bind m g)"
  using assms by (fastforce simp: framed_val_def bind_eq_Some_conv)

lemma cond:
  "(b \<Longrightarrow> framed R s m) \<Longrightarrow> (\<not> b \<Longrightarrow> framed R s n) \<Longrightarrow> framed R s (if b then m else n)"
  "(b \<Longrightarrow> framed_val R s p) \<Longrightarrow> (\<not> b \<Longrightarrow> framed_val R s q) \<Longrightarrow> framed_val R s (if b then p else q)"
  by simp_all

lemma pair:
  "(\<And>a b. framed R s (f a b)) \<Longrightarrow> framed R s (case p of (a, b) \<Rightarrow> f a b)"
  "(\<And>a b. framed_val R s (g a b)) \<Longrightarrow> framed_val R s (case p of (a, b) \<Rightarrow> g a b)"
  "(\<And>a b. framed R s (f' a b s1)) \<Longrightarrow> framed R s ((case p of (a, b) \<Rightarrow> f' a b) s1)"
  by (simp_all split: prod.split)

lemma opt:
  "framed R s m \<Longrightarrow> (\<And>x. framed R s (f x)) \<Longrightarrow> framed R s (case y of None \<Rightarrow> m | Some x \<Rightarrow> f x)"
  "framed_val R s n \<Longrightarrow> (\<And>x. framed_val R s (g x)) \<Longrightarrow> framed_val R s (case y of None \<Rightarrow> n | Some x \<Rightarrow> g x)"
  by (simp_all split: option.split)

lemma states:
  "framed R s m1 \<Longrightarrow> framed R s m2 \<Longrightarrow> framed R s m3 \<Longrightarrow>
     framed R s (case e of EPState_Idle \<Rightarrow> m1 | EPState_Send \<Rightarrow> m2 | EPState_Recv \<Rightarrow> m3)"
  "framed R s m1 \<Longrightarrow> framed R s m2 \<Longrightarrow> framed R s m3 \<Longrightarrow>
     framed R s (case n of NtfnState_Idle \<Rightarrow> m1 | NtfnState_Waiting \<Rightarrow> m2 | NtfnState_Active \<Rightarrow> m3)"
  "framed R s m1 \<Longrightarrow> (\<And>r. framed R s (f r)) \<Longrightarrow>
     framed R s (case a of asid_map_none \<Rightarrow> m1 | asid_map_vspace r \<Rightarrow> f r)"
  "framed_val R s p1 \<Longrightarrow> (\<And>r. framed_val R s (g r)) \<Longrightarrow>
     framed_val R s (case a of asid_map_none \<Rightarrow> p1 | asid_map_vspace r \<Rightarrow> g r)"
  by (simp_all split: endpoint_state.split notification_state.split asid_map_t.split)

lemma start: "framed R s1 m \<Longrightarrow> R s s1 \<Longrightarrow> framed R s m"
  by (auto simp: framed_def intro: trans)

lemma val_start: "framed_val R s1 m \<Longrightarrow> R s s1 \<Longrightarrow> framed_val R s m"
  by (fastforce simp: framed_val_def intro: trans)

lemmas rules = fail skip cond bind_val bind val_bind_val val_bind pair opt states

end

section \<open>Operations that touch no slot\<close>

definition same_slots :: "kstate \<Rightarrow> kstate \<Rightarrow> bool" where
  "same_slots s s' \<longleftrightarrow> ctes s' = ctes s \<and> live s' = live s \<and> ksIdleThread s' = ksIdleThread s \<and>
     (\<forall>t. map_option tcbIPCBuffer (tcbs s' t) = map_option tcbIPCBuffer (tcbs s t))"

interpretation sm: frame_relation same_slots
  by unfold_locales (auto simp: same_slots_def)

lemma same_slots_ok: "same_slots s s' \<Longrightarrow> slots_ok s \<Longrightarrow> slots_ok s'"
  by (rule slots_ok_frame) (auto simp: same_slots_def)

lemma same_slots_tcb_upd:
  assumes "\<And>T. tcbIPCBuffer (f T) = tcbIPCBuffer T"
  shows "framed same_slots s (tcb_upd p f s)"
  using assms by (auto simp: framed_def tcb_upd_def same_slots_def live_def split: option.splits)

lemma same_slots_ts_upd: "framed same_slots s (ts_upd p g s)"
  unfolding ts_upd_def by (rule same_slots_tcb_upd) simp

lemma same_slots_setRegister: "framed same_slots s (setRegister p r w s)"
  unfolding setRegister_def by (rule same_slots_tcb_upd) simp

lemma same_slots_objects: "framed same_slots s (ep_upd p h s)" "framed same_slots s (ntfn_upd p k s)"
  by (auto simp: framed_def ep_upd_def ntfn_upd_def same_slots_def live_def split: option.splits)

lemma same_slots_globals:
  "same_slots s (do_machine_op m s)" "same_slots s (set_action a s)" "same_slots s (set_ready_queue i q s)"
  "same_slots s (s\<lparr>ksReadyQueuesL1Bitmap := b1\<rparr>)" "same_slots s (s\<lparr>ksReadyQueuesL2Bitmap := b2\<rparr>)"
  by (simp_all add: same_slots_def live_def do_machine_op_def set_action_def set_ready_queue_def)

named_theorems same_slots_ops \<open>operations that touch no slot\<close>
named_theorems same_slots_vals \<open>operations with a result that touch no slot\<close>

declare same_slots_ts_upd [same_slots_ops] same_slots_setRegister [same_slots_ops] same_slots_objects [same_slots_ops]

lemma same_slots_bitmap [same_slots_ops]:
  "framed same_slots s (addToBitmap d pr s)" "framed same_slots s (removeFromBitmap d pr s)"
  unfolding addToBitmap_def removeFromBitmap_def Let_def
  by - (rule sm.read, rule sm.ret, simp add: same_slots_def live_def)+

lemma same_slots_queues [same_slots_vals]:
  "framed_val same_slots s (tcb_queue_prepend q t s)" "framed_val same_slots s (tcb_queue_append q t s)"
  "framed_val same_slots s (tcb_queue_remove q t s)"
  "framed_val same_slots s (tcbEPAppend t q s)" "framed_val same_slots s (tcbEPDequeue t q s)"
  unfolding tcb_queue_prepend_def tcb_queue_append_def tcb_queue_remove_def tcbEPAppend_def tcbEPDequeue_def Let_def
  by - (rule sm.rules same_slots_tcb_upd sm.read sm.val_read | simp; fail)+

lemmas same_slots_basic = sm.refl same_slots_globals sm.ret sm.read sm.val_read

lemma same_slots_sched [same_slots_ops]:
  "framed same_slots s (tcbSchedEnqueue t s)" "framed same_slots s (tcbSchedAppend t s)"
  "framed same_slots s (tcbSchedDequeue t s)"
  unfolding tcbSchedEnqueue_def tcbSchedAppend_def tcbSchedDequeue_def Let_def
  by - (rule sm.rules same_slots_ops [THEN sm.start] same_slots_vals [THEN sm.val_start] same_slots_basic)+

lemma same_slots_state [same_slots_ops]:
  "framed same_slots s (scheduleTCB t s)" "framed same_slots s (setThreadState t ts s)"
  "framed same_slots s (rescheduleRequired s)" "framed same_slots s (possibleSwitchTo t s)"
proof -
  have a: "framed same_slots s (scheduleTCB t s)" for s
    unfolding scheduleTCB_def by (auto simp: framed_def bind_eq_Some_conv same_slots_globals sm.refl)
  have b: "framed same_slots s (rescheduleRequired s)" for s
    unfolding rescheduleRequired_def by (rule sm.rules same_slots_ops [THEN sm.start] same_slots_vals [THEN sm.val_start] same_slots_basic)+
  show "framed same_slots s (scheduleTCB t s)" "framed same_slots s (rescheduleRequired s)" by (fact a b)+
  show "framed same_slots s (setThreadState t ts s)"
    unfolding setThreadState_def by (rule sm.rules same_slots_ops [THEN sm.start] same_slots_vals [THEN sm.val_start] a same_slots_basic)+
  show "framed same_slots s (possibleSwitchTo t s)"
    unfolding possibleSwitchTo_def by (rule sm.rules same_slots_ops [THEN sm.start] same_slots_vals [THEN sm.val_start] b same_slots_basic)+
qed

lemma same_slots_queue_objects [same_slots_ops]:
  "framed same_slots s (ep_ptr_set_queue p q s)" "framed same_slots s (endpoint_ptr_set_state p st s)"
  "framed same_slots s (ntfn_ptr_set_queue p q s)" "framed same_slots s (notification_ptr_set_state p st' s)"
  "framed same_slots s (ntfn_set_active p badge s)" "framed same_slots s (doUnbindNotification p t s)"
  "framed same_slots s (unbindMaybeNotification p s)" "framed same_slots s (unbindNotification t s)"
  "framed same_slots s (bindNotification t p s)"
  unfolding ep_ptr_set_queue_def endpoint_ptr_set_state_def ntfn_ptr_set_queue_def notification_ptr_set_state_def
    ntfn_set_active_def doUnbindNotification_def unbindMaybeNotification_def unbindNotification_def bindNotification_def
  by - (rule sm.rules same_slots_ops [THEN sm.start] same_slots_vals [THEN sm.val_start] same_slots_tcb_upd same_slots_basic | simp; fail)+

lemma same_slots_restart_queue [same_slots_ops]: "framed same_slots s (restart_queue t s)"
proof -
  have "same_slots s s'" if "restart_queue t s = Some s'" for s'
  proof (rule restart_queue.raw_induct [where P = "\<lambda>t s s'. same_slots s s'", OF _ that])
    fix f t s s' assume h: "\<And>t s s'. f t s = Some s' \<Longrightarrow> same_slots s s'"
      and run: "(if t = NULL then Some s
        else do { s \<leftarrow> setThreadState t ThreadState_Restart s;
                  s \<leftarrow> tcbSchedEnqueue t s;
                  t \<leftarrow> tcbs s t;
                  f (tcbEPNext t) s }) = Some s'"
    from h have ih: "framed same_slots s (f t s)" for t s by (auto simp: framed_def)
    have "framed same_slots s
       (if t = NULL then Some s
        else do { s \<leftarrow> setThreadState t ThreadState_Restart s;
                  s \<leftarrow> tcbSchedEnqueue t s;
                  t \<leftarrow> tcbs s t;
                  f (tcbEPNext t) s })"
      by (rule sm.rules same_slots_ops [THEN sm.start] same_slots_vals [THEN sm.val_start] ih same_slots_basic)+
    from framedD [OF this run] show "same_slots s s'" .
  qed
  then show ?thesis by (simp add: framed_def)
qed

lemma same_slots_cancelBadgedSends_loop [same_slots_vals]:
  "framed_val same_slots s (cancelBadgedSends_loop t badge q s)"
proof -
  have "same_slots s (snd r)" if "cancelBadgedSends_loop t badge q s = Some r" for r
  proof (rule cancelBadgedSends_loop.raw_induct [where P = "\<lambda>t badge q s r. same_slots s (snd r)", OF _ that])
    fix f t badge q s r assume h: "\<And>t badge q s r. f t badge q s = Some r \<Longrightarrow> same_slots s (snd r)"
      and run: "(if t = NULL then Some (q, s)
        else do { T \<leftarrow> tcbs s t;
                  let b = blockingIPCBadge (tcbState T);
                  let nextp = tcbEPNext T;
                  if b = badge then
                    do { s \<leftarrow> setThreadState t ThreadState_Restart s;
                         s \<leftarrow> tcbSchedEnqueue t s;
                         (q, s) \<leftarrow> tcbEPDequeue t q s;
                         f nextp badge q s }
                  else f nextp badge q s }) = Some r"
    from h have ih: "framed_val same_slots s (f t badge q s)" for t badge q s by (force simp: framed_val_def)
    have "framed_val same_slots s
     (if t = NULL then Some (q, s)
      else do { T \<leftarrow> tcbs s t;
                let b = blockingIPCBadge (tcbState T);
                let nextp = tcbEPNext T;
                if b = badge then
                  do { s \<leftarrow> setThreadState t ThreadState_Restart s;
                       s \<leftarrow> tcbSchedEnqueue t s;
                       (q, s) \<leftarrow> tcbEPDequeue t q s;
                       f nextp badge q s }
                else f nextp badge q s })"
      unfolding Let_def by (rule sm.rules same_slots_ops [THEN sm.start] same_slots_vals [THEN sm.val_start] ih same_slots_basic)+
    from framed_valD [OF this, of "fst r" "snd r"] run show "same_slots s (snd r)" by simp
  qed
  then show ?thesis by (force simp: framed_val_def)
qed

lemma same_slots_cancel [same_slots_ops]:
  "framed same_slots s (cancelSignal t p s)" "framed same_slots s (cancelAllIPC p s)"
  "framed same_slots s (cancelAllSignals p s)" "framed same_slots s (cancelBadgedSends p badge s)"
  unfolding cancelSignal_def cancelAllIPC_def cancelAllSignals_def cancelBadgedSends_def Let_def
  by - (rule sm.rules same_slots_ops [THEN sm.start] same_slots_vals [THEN sm.val_start] same_slots_basic)+

lemma same_slots_signal [same_slots_ops]:
  "framed same_slots s (doNBRecvFailedTransfer t s)" "framed same_slots s (receiveSignal t c b s)"
  "framed same_slots s (completeSignal p t s)"
  unfolding doNBRecvFailedTransfer_def receiveSignal_def completeSignal_def Let_def
  by - (rule sm.rules same_slots_ops [THEN sm.start] same_slots_vals [THEN sm.val_start] same_slots_basic)+

lemma same_slotsI:
  assumes "ctes s' = ctes s" and "tcbs s' = tcbs s" and "eps s' = eps s" and "ntfns s' = ntfns s" and "umem s' = umem s"
    and "ksIdleThread s' = ksIdleThread s"
  shows "same_slots s s'"
  using assms by (simp add: same_slots_def live_def)

lemma same_slots_findVSpaceForASID [same_slots_vals]: "framed_val same_slots s (findVSpaceForASID asid s)"
  unfolding findVSpaceForASID_def by (rule sm.rules same_slots_basic | simp add: same_slotsI; fail)+

lemma same_slots_setVMRoot [same_slots_ops]: "framed same_slots s (setVMRoot t s)"
  unfolding setVMRoot_def Let_def by (rule sm.rules same_slots_ops [THEN sm.start] same_slots_vals [THEN sm.val_start] same_slots_basic)+

lemma same_slots_deleteASIDPool_loop: "same_slots s (deleteASIDPool_loop is b a s)"
proof (induction "is" b a s rule: deleteASIDPool_loop.induct)
  case (2 i "is" b a s)
  have "same_slots s (case a (of_nat i) of asid_map_vspace _ \<Rightarrow> invalidateTLBByASID (b + of_nat i) s | asid_map_none \<Rightarrow> s)"
    by (simp add: invalidateTLBByASID_def same_slots_globals sm.refl split: asid_map_t.split)
  from sm.trans [OF this 2] show ?case by simp
qed (simp add: sm.refl)

lemma same_slots_vspace [same_slots_ops]:
  "framed same_slots s (deleteASID asid v s)" "framed same_slots s (deleteASIDPool b p s)"
  "framed same_slots s (unmapPageTable asid va pt s)" "framed same_slots s (unmapPage sz asid va pg s)"
proof -
  have g: "same_slots s ((deleteASIDPool_loop is b a s)\<lparr>armKSASIDTable := x\<rparr>)" for "is" a x
    by (rule sm.trans [OF same_slots_deleteASIDPool_loop same_slotsI]) simp_all
  show "framed same_slots s (deleteASIDPool b p s)"
    unfolding deleteASIDPool_def Let_def
    by (rule sm.rules g same_slots_ops [THEN sm.start] sm.refl sm.read)+
  show "framed same_slots s (deleteASID asid v s)"
    unfolding deleteASID_def Let_def
    by (rule sm.rules same_slots_ops [THEN sm.start] sm.read
        | simp add: same_slotsI invalidateTLBByASID_def do_machine_op_def; fail)+
  show "framed same_slots s (unmapPageTable asid va pt s)" "framed same_slots s (unmapPage sz asid va pg s)"
    unfolding unmapPageTable_def unmapPage_def Let_def
    by - (rule sm.rules same_slots_ops [THEN sm.start] same_slots_vals [THEN sm.val_start] sm.refl sm.read
        | simp add: sm.ret same_slotsI invalidateTLBByASID_def invalidateTLBByASIDVA_def do_machine_op_def; fail)+
qed

lemma same_slots_finalise [same_slots_vals]:
  "framed_val same_slots s (Arch_finaliseCap c f s)" "framed_val same_slots s (finaliseCap_exposed c f s)"
proof -
  have a: "framed_val same_slots s (Arch_finaliseCap c f s)" for c s
    unfolding Arch_finaliseCap_def
    by (cases c; simp only: cap_t.case) (rule sm.rules same_slots_ops [THEN sm.start] same_slots_vals [THEN sm.val_start] same_slots_basic)+
  then show "framed_val same_slots s (Arch_finaliseCap c f s)" .
  show "framed_val same_slots s (finaliseCap_exposed c f s)"
    unfolding finaliseCap_exposed_def
    by (cases c; simp only: cap_t.case) (rule a sm.rules same_slots_ops [THEN sm.start] same_slots_vals [THEN sm.val_start] same_slots_basic)+
qed

section \<open>Scheduling touches no slot\<close>

lemma same_slots_fpu:
  "same_slots s (switchLocalFpuOwner t s)" "same_slots s (fpuRelease t s)" "same_slots s (switchToIdleThread s)"
  "same_slots s (prepareNextDomain s)" "same_slots s (prepareSetDomain t d s)"
  by (auto simp: switchLocalFpuOwner_def fpuRelease_def switchFpuOwner_def switchToIdleThread_def prepareNextDomain_def
      prepareSetDomain_def Arch_switchToIdleThread_def Let_def do_machine_op_def intro!: same_slotsI)

lemma same_slots_switch [same_slots_ops]:
  "framed same_slots s (lazyFPURestore t s)" "framed same_slots s (Arch_switchToThread t s)"
  "framed same_slots s (switchToThread t s)" "framed same_slots s (chooseThread s)"
proof -
  have l: "framed same_slots s (lazyFPURestore t s)" for t s
    unfolding lazyFPURestore_def
    by (auto simp: framed_def bind_eq_Some_conv same_slots_globals same_slots_fpu sm.refl)
  have a: "framed same_slots s (Arch_switchToThread t s)" for t s
    unfolding Arch_switchToThread_def by (rule same_slots_setVMRoot)
  have w: "framed same_slots s (switchToThread t s)" for t s
    unfolding switchToThread_def
    by (rule l a sm.rules same_slots_ops [THEN sm.start] same_slots_vals [THEN sm.val_start] same_slots_basic | simp add: same_slotsI; fail)+
  show "framed same_slots s (chooseThread s)"
    unfolding chooseThread_def Let_def by (rule w same_slots_fpu sm.rules same_slots_ops [THEN sm.start] same_slots_vals [THEN sm.val_start] same_slots_basic)+
  show "framed same_slots s (lazyFPURestore t s)" "framed same_slots s (Arch_switchToThread t s)"
    "framed same_slots s (switchToThread t s)" by (fact l a w)+
qed

lemma same_slots_nextDomain [same_slots_ops]: "framed same_slots s (nextDomain s)"
  unfolding nextDomain_def Let_def
  by (rule sm.read sm.ret | simp add: same_slotsI; fail)+

lemma same_slots_scheduleChooseNewThread [same_slots_ops]: "framed same_slots s (scheduleChooseNewThread s)"
  unfolding scheduleChooseNewThread_def by (rule same_slots_fpu sm.rules same_slots_ops [THEN sm.start] same_slots_vals [THEN sm.val_start] same_slots_basic)+

lemma same_slots_schedule_candidate [same_slots_ops]: "framed same_slots s (schedule_candidate t b s)"
  unfolding schedule_candidate_def Let_def by (rule sm.rules same_slots_ops [THEN sm.start] same_slots_vals [THEN sm.val_start] same_slots_basic)+

lemma same_slots_schedule [same_slots_ops]: "framed same_slots s (schedule s)"
  unfolding schedule_def Let_def by (rule sm.rules same_slots_ops [THEN sm.start] same_slots_vals [THEN sm.val_start] same_slots_basic)+

lemma same_slots_activate [same_slots_ops]: "framed same_slots s (activateThread s)"
proof -
  have n: "framed same_slots s (setNextPC t v s)" for t v s
    unfolding setNextPC_def by (rule sm.rules same_slots_ops [THEN sm.start] same_slots_vals [THEN sm.val_start] same_slots_basic)+
  have c: "framed same_slots s (case ty of ThreadState_Running \<Rightarrow> Some s | ThreadState_Restart \<Rightarrow> m
      | ThreadState_IdleThreadState \<Rightarrow> Some s | _ \<Rightarrow> None)" if "framed same_slots s m" for ty m
    using that by (simp add: sm.fail sm.skip split: tsType_t.split)
  show ?thesis unfolding activateThread_def Arch_activateIdleThread_def by (rule c n sm.rules same_slots_ops [THEN sm.start] same_slots_vals [THEN sm.val_start] same_slots_basic)+
qed

lemma same_slots_priority [same_slots_ops]:
  "framed same_slots s (setPriority t p s)" "framed same_slots s (setDomain t d s)"
  "framed same_slots s (setMCPriority t m s)" "framed same_slots s (timerTick s)"
  unfolding setPriority_def setDomain_def setMCPriority_def timerTick_def Let_def
  by - (rule same_slots_tcb_upd sm.rules same_slots_ops [THEN sm.start] same_slots_vals [THEN sm.val_start] same_slots_basic | simp add: same_slotsI; fail)+

section \<open>Emptying a slot keeps the invariant of slots\<close>

definition keeps_slots :: "kstate \<Rightarrow> kstate \<Rightarrow> bool" where
  "keeps_slots s s' \<longleftrightarrow> (slots_ok s \<longrightarrow> slots_ok s' \<and> live s' = live s)"

interpretation ks: frame_relation keeps_slots
  by unfold_locales (auto simp: keeps_slots_def)

lemma same_keeps: "framed same_slots s m \<Longrightarrow> framed keeps_slots s m"
  "framed_val same_slots s n \<Longrightarrow> framed_val keeps_slots s n"
proof -
  have "keeps_slots s s'" if "same_slots s s'" for s'
    using that same_slots_ok [OF that] by (simp add: keeps_slots_def same_slots_def)
  then show "framed same_slots s m \<Longrightarrow> framed keeps_slots s m"
    "framed_val same_slots s n \<Longrightarrow> framed_val keeps_slots s n"
    by (auto simp: framed_def framed_val_def)
qed

lemma emptySlot_slots:
  assumes ok: "slots_ok s" and c: "ctes s slot = Some c"
  shows "\<exists>s'. emptySlot slot info s = Some s' \<and> slots_ok s' \<and> live s' = live s \<and> tcbs s' = tcbs s \<and>
    (\<forall>p. caps_of s' p = (if p = slot then Some cap_null_cap else caps_of s p))"
proof (cases "cte_cap c = cap_null_cap")
  case True
  with c ok show ?thesis by (auto simp: emptySlot_def caps_of_def)
next
  case False
  have wf: "mdb_wf s" using slots_okD(1) [OF ok] .
  from mdb_wf_slot [OF wf c] obtain ys zs where l: "mdb_list s (ys @ slot # zs)" "set (ys @ slot # zs) \<subseteq> dom (ctes s)"
    by metis
  let ?h = "heap_emptied (ctes s) slot (cteMDBNode c)"
  define s' where "s' = postCapDeletion info (s\<lparr>ctes := ?h\<rparr>)"
  have run: "emptySlot slot info s = Some s'" unfolding s'_def by (rule emptySlot_run [OF wf c False])
  with emptySlot_list [OF wf c False l, of info] have wf': "mdb_wf s'"
    and caps: "caps_of s' = (caps_of s)(slot \<mapsto> cap_null_cap)" by auto
  have h: "ctes s' = ?h" by (simp add: s'_def)
  have t: "tcbs s' = tcbs s" "eps s' = eps s" "ntfns s' = ntfns s" "umem s' = umem s"
    unfolding s'_def postCapDeletion_def Arch_postCapDeletion_def deletedIRQHandler_def setIRQState_def do_machine_op_def
    by (cases info; simp)+
  have dom: "dom (ctes s') = dom (ctes s)" using c by (auto simp: h heap_emptied_def split: if_splits)
  then have live: "live s' = live s" by (simp add: live_def t)
  have "slots_ok s'"
  proof (rule slots_ok_step [OF ok live wf'])
    show "map_option tcbIPCBuffer (tcbs s' t) = map_option tcbIPCBuffer (tcbs s t)" for t by (simp add: t)
    fix p x assume x: "ctes s' p = Some x"
    show "cap_ok s (cte_cap x) \<and>
      (cte_cap x = cap_null_cap \<longrightarrow> mdbNext (cteMDBNode x) = NULL \<and> mdbPrev (cteMDBNode x) = NULL)"
    proof (cases "p = slot")
      case True
      with x show ?thesis
        by (auto simp: h heap_emptied_def nullMDBNode_def mdb_node_new_def cap_ok_def wf_cnode_cap_def cnode_slots_ok_def
            cnode_apart_def refs_ok_def)
    next
      case pne: False
      with x obtain y where y: "ctes s p = Some y" "cte_cap x = cte_cap y"
        "mdbNext (cteMDBNode x) = (if p = mdbPrev (cteMDBNode c) then mdbNext (cteMDBNode c) else mdbNext (cteMDBNode y))"
        "mdbPrev (cteMDBNode x) = (if p = mdbNext (cteMDBNode c) then mdbPrev (cteMDBNode c) else mdbPrev (cteMDBNode y))"
        by (auto simp: h heap_emptied_def)
      have nz: "p \<noteq> NULL" "slot \<noteq> NULL" using wf y(1) c by (auto simp: mdb_wf_def)
      have "p \<noteq> mdbNext (cteMDBNode c)" "p \<noteq> mdbPrev (cteMDBNode c)" if n: "cte_cap y = cap_null_cap"
        using slots_okD(4) [OF ok y(1) n] mdb_wf_nextD [OF wf c] mdb_wf_prevD [OF wf c] nz y(1) by auto
      with y slots_okD(3,4) [OF ok y(1)] show ?thesis by auto
    qed
  qed
  with run live t caps show ?thesis by auto
qed

lemma keeps_emptySlot: "framed keeps_slots s (emptySlot slot info s)"
proof (cases "ctes s slot")
  case None
  then show ?thesis by (simp add: emptySlot_def framed_def)
next
  case (Some c)
  then show ?thesis using emptySlot_slots [OF _ Some, of info] by (auto simp: framed_def keeps_slots_def)
qed

named_theorems keeps_ops \<open>operations that keep the invariant of slots\<close>

lemma keeps_cteDeleteOne [keeps_ops]: "framed keeps_slots s (cteDeleteOne slot s)"
  unfolding cteDeleteOne_def
  by (rule ks.fail ks.skip ks.cond ks.bind_val same_keeps(2) [OF same_slots_finalise(2)] keeps_emptySlot
      ks.bind ks.pair ks.read)+

lemma keeps_cancelIPC [keeps_ops]: "framed keeps_slots s (cancelIPC t s)"
  unfolding cancelIPC_def Let_def
  by (rule ks.fail ks.skip ks.cond same_slots_ops [THEN same_keeps(1)] same_slots_queues(5) [THEN same_keeps(2)]
      same_slots_tcb_upd [THEN same_keeps(1)] keeps_ops ks.bind_val ks.bind ks.pair ks.read | simp; fail)+

lemma keeps_sendSignal [keeps_ops]: "framed keeps_slots s (sendSignal p badge s)"
  unfolding sendSignal_def Let_def
  by (rule ks.fail ks.skip ks.cond ks.states same_slots_ops [THEN same_keeps(1)]
      same_slots_queues(5) [THEN same_keeps(2)] keeps_ops ks.bind_val ks.bind ks.pair ks.read)+

lemma same_slots_keeps: "framed same_slots s m \<Longrightarrow> m = Some s' \<Longrightarrow> slots_ok s \<Longrightarrow> slots_ok s'"
  using same_keeps(1) by (auto simp: framed_def keeps_slots_def)

lemma keeps_slotsD: "framed keeps_slots s m \<Longrightarrow> m = Some s' \<Longrightarrow> slots_ok s \<Longrightarrow> slots_ok s'"
  by (auto simp: framed_def keeps_slots_def)

end
