(* ===== verification/Endpoints.thy ===== *)
theory Endpoints
  imports Frames
begin

text \<open>
  Sending and receiving on endpoints, replies and faults: under the invariants of waiting
  (\<open>ipc_inv\<close>) and of slots (\<open>slots_ok\<close>) the operations return, keep both, and deliver the message
  to the first thread of the queue, or put the caller at its end.
\<close>

section \<open>Steps shared by sending, receiving and replying\<close>

lemma rest_ctes: "rest s' = rest s \<Longrightarrow> ctes s' = ctes s"
proof -
  assume "rest s' = rest s"
  then have "ctes (rest s') = ctes (rest s)" by (simp only:)
  then show ?thesis by (simp add: rest_def sched_erased_def)
qed

lemma ctes_erased:
  assumes "dom h = dom (ctes s)"
  shows "msg_erased (s\<lparr>ctes := h\<rparr>) = msg_erased s"
proof -
  have "map_option f (h p) = map_option f (ctes s p)" if "\<And>x y. f x = f y" for f :: "cte_t \<Rightarrow> cte_t" and p
    using assms that by (cases "h p"; cases "ctes s p") auto
  then show ?thesis by (simp add: msg_erased_def quiet_def)
qed

text \<open>Making a thread run that no longer waits.\<close>

lemma run_step:
  assumes ok: "sched_ok s rq" and act: "action_ok s" and b: "bound_ok s" and t: "tcbs s t = Some T"
    and part: "wait_part s tw wq" and tw: "tw t = None" "\<And>u. u \<noteq> t \<Longrightarrow> tw u = thread_wait s u"
    and idle: "t \<noteq> ksIdleThread s" and ts: "ts = ThreadState_Running \<or> ts = ThreadState_Restart"
  shows "\<exists>s1 s' rq'. setThreadState t ts s = Some s1 \<and> possibleSwitchTo t s1 = Some s' \<and>
    ipc_inv s' rq' wq \<and> waiting_to_run s' rq' = insert t (waiting_to_run s rq) \<and>
    thread_type s' t = Some ts \<and> (\<forall>u. u \<noteq> t \<longrightarrow> thread_type s' u = thread_type s u) \<and>
    (\<forall>u. map_option tcbContext (tcbs s' u) = map_option tcbContext (tcbs s u)) \<and>
    ctes s' = ctes s \<and> umem s' = umem s \<and> eps s' = eps s \<and> ntfns s' = ntfns s"
proof -
  from restart_step [OF ok act b t part tw _ _ idle, of ts] ts obtain s1 where
    s1: "setThreadState t ts s = Some s1" "ipc_inv s1 rq wq"
      "tcbs s1 = (tcbs s)(t \<mapsto> T\<lparr>tcbState := (tcbState T)\<lparr>tsType := ts\<rparr>\<rparr>)"
      "waiting_to_run s1 rq = waiting_to_run s rq"
    and e1: "eps s1 = eps s" "ntfns s1 = ntfns s" "ctes s1 = ctes s" "umem s1 = umem s" by auto
  have "runnable s1 t" using ts by (auto simp: runnable_def isRunnable_def s1(3))
  from switch_step [OF s1(2) this] obtain s' rq' where
    s': "possibleSwitchTo t s1 = Some s'" "ipc_inv s' rq' wq" and r: "rest s' = rest s1"
    and w: "waiting_to_run s' rq' = insert t (waiting_to_run s1 rq)" by blast
  note f = rest_frame [OF r]
  have "map_option tcbContext (tcbs s' u) = map_option tcbContext (tcbs s u)" for u
    using f(7) [of u] t by (simp add: s1(3))
  moreover have "thread_type s' t = Some ts" using f(9) [of t] by (simp add: s1(3))
  moreover have "thread_type s' u = thread_type s u" if "u \<noteq> t" for u using f(9) [of u] that by (simp add: s1(3))
  moreover have "ctes s' = ctes s" using rest_ctes [OF r] e1 by simp
  ultimately show ?thesis using s1(1,4) s' w f(5,6,8) e1
    by (intro exI [of _ s1] exI [of _ s'] exI [of _ rq']) simp
qed

lemma map_option_doms: "(\<lambda>x. map_option f (a x)) = (\<lambda>x. map_option f (b x)) \<Longrightarrow> dom a = dom b"
  by (rule set_eqI) (metis domIff map_option_is_None)

lemma detached_slots:
  assumes ok: "slots_ok s" and rl: "ep_relinked X (tcbs s) (tcbs s')"
    and o: "objs_erased s' = objs_erased (s\<lparr>tcbs := tcbs s'\<rparr>)"
  shows "same_slots s s'" and "slots_ok s'" and "umem s' = umem s"
proof -
  note e = objs_erasedD [OF o]
  have b: "map_option tcbIPCBuffer (tcbs s' t) = map_option tcbIPCBuffer (tcbs s t)" for t
    by (rule map_option_part [where h = tcbIPCBuffer and g = ep_unlinked])
      (use rl in \<open>simp_all add: ep_relinked_def ep_unlinked_def\<close>)
  have t: "dom (tcbs s') = dom (tcbs s)"
    by (rule set_eqI) (metis b domIff map_option_is_None)
  have "eps (objs_erased s') = eps (objs_erased (s\<lparr>tcbs := tcbs s'\<rparr>))" by (simp only: o)
  then have ep: "dom (eps s') = dom (eps s)"
    by (intro map_option_doms [where f = "\<lambda>e. e\<lparr>epQueue_head := NULL, epQueue_tail := NULL, ep_state := EPState_Idle\<rparr>"])
      (simp add: objs_erased_def)
  have "ntfns (objs_erased s') = ntfns (objs_erased (s\<lparr>tcbs := tcbs s'\<rparr>))" by (simp only: o)
  then have nt: "dom (ntfns s') = dom (ntfns s)"
    by (intro map_option_doms [where f = "\<lambda>n. n\<lparr>ntfnQueue_head := NULL, ntfnQueue_tail := NULL, ntfn_state := NtfnState_Idle\<rparr>"])
      (simp add: objs_erased_def)
  show u: "umem s' = umem s" using e(4) by simp
  have "ksIdleThread (objs_erased s') = ksIdleThread (objs_erased (s\<lparr>tcbs := tcbs s'\<rparr>))" by (simp only: o)
  then have "ksIdleThread s' = ksIdleThread s" by (simp add: objs_erased_def)
  then show "same_slots s s'" using e(3) b t ep nt u by (simp add: same_slots_def live_def)
  then show "slots_ok s'" using ok by (rule same_slots_ok)
qed

section \<open>What the receiver gets\<close>

text \<open>The message of the sender, or the description of its fault.\<close>

definition arrived :: "kstate \<Rightarrow> ptr \<Rightarrow> ptr \<Rightarrow> word_t \<Rightarrow> kstate \<Rightarrow> bool" where
  "arrived s x r badge s' \<longleftrightarrow>
     (\<exists>S. tcbs s x = Some S \<and>
       (if tcbFault S = seL4_Fault_NullFault then delivered s x r badge s'
        else \<exists>R'. tcbs s' r = Some R' \<and> tcbContext R' badgeRegister = badge \<and>
          mi_label (messageInfoFromWord (tcbContext R' msgInfoRegister)) = seL4_Fault_get_seL4_FaultType (tcbFault S)))"

lemma lookupIPCBuffer_same:
  assumes "same_slots s s'"
  shows "lookupIPCBuffer isR t s' = lookupIPCBuffer isR t s"
proof -
  from assms have c: "ctes s' = ctes s" and b: "map_option tcbIPCBuffer (tcbs s' t) = map_option tcbIPCBuffer (tcbs s t)"
    by (auto simp: same_slots_def)
  then show ?thesis
    by (cases "tcbs s t"; cases "tcbs s' t"; cases "ctes s (TCB_PTR_CTE_PTR t tcbBuffer)")
      (simp_all add: lookupIPCBuffer_def split: cap_t.split)
qed

lemma msg_word_cong:
  assumes "map_option tcbContext (tcbs s' t) = map_option tcbContext (tcbs s t)" and "umem s' = umem s"
  shows "msg_word s' t b i = msg_word s t b i"
  unfolding msg_word_def assms(2)
  using map_option_part [OF _ assms(1), of "\<lambda>T. tcbContext T (msgRegisters ! i)" "\<lambda>c. c (msgRegisters ! i)"] by simp

text \<open>Arrival does not depend on what happens to queues and states before and after.\<close>

lemma arrived_cong:
  assumes a: "arrived s1 x r badge s2"
    and x: "same_slots s s1" "map_option tcbContext (tcbs s1 x) = map_option tcbContext (tcbs s x)"
      "map_option tcbFault (tcbs s1 x) = map_option tcbFault (tcbs s x)" "umem s1 = umem s"
    and r: "map_option tcbContext (tcbs s' r) = map_option tcbContext (tcbs s2 r)" "umem s' = umem s2"
  shows "arrived s x r badge s'"
proof -
  from a obtain S1 where S1: "tcbs s1 x = Some S1" by (auto simp: arrived_def)
  with x(2,3) obtain S where S: "tcbs s x = Some S" "tcbContext S = tcbContext S1" "tcbFault S = tcbFault S1"
    by (cases "tcbs s x") auto
  have rc: "(\<exists>R'. tcbs s' r = Some R' \<and> P (tcbContext R')) \<longleftrightarrow> (\<exists>R'. tcbs s2 r = Some R' \<and> P (tcbContext R'))" for P
    using r(1) by (cases "tcbs s' r"; cases "tcbs s2 r") auto
  have d: "delivered s x r badge s'" if del: "delivered s1 x r badge s2"
  proof -
    from del S1 obtain R2 sb rb where R2: "tcbs s2 r = Some R2"
      and lb: "lookupIPCBuffer False x s1 = Some sb" "lookupIPCBuffer True r s1 = Some rb"
      and rest: "let tag = messageInfoFromWord (tcbContext S1 msgInfoRegister);
             tag' = messageInfoFromWord (tcbContext R2 msgInfoRegister);
             m = (if rb = NULL \<or> sb = NULL then min (unat (mi_length tag)) n_msgRegisters
                  else unat (mi_length tag))
         in mi_label tag' = mi_label tag \<and> unat (mi_length tag') = m \<and>
            tcbContext R2 badgeRegister = badge \<and>
            (\<forall>i < m. msg_word s2 r rb i = msg_word s1 x sb i)"
      unfolding delivered_def by auto
    from R2 r(1) obtain R' where R': "tcbs s' r = Some R'" "tcbContext R' = tcbContext R2"
      by (cases "tcbs s' r") auto
    show ?thesis
      unfolding delivered_def
      using S R' lb rest
      by (intro exI [of _ S] exI [of _ R'] exI [of _ sb] exI [of _ rb])
        (simp add: lookupIPCBuffer_same [OF x(1)] msg_word_cong [OF x(2,4)] msg_word_cong [OF r])
  qed
  show ?thesis
  proof (cases "tcbFault S = seL4_Fault_NullFault")
    case True
    with a S S1 d show ?thesis by (auto simp: arrived_def)
  next
    case False
    with a S S1 obtain R2 where "tcbs s2 r = Some R2 \<and> tcbContext R2 badgeRegister = badge \<and>
        mi_label (messageInfoFromWord (tcbContext R2 msgInfoRegister)) = seL4_Fault_get_seL4_FaultType (tcbFault S)"
      by (auto simp: arrived_def)
    moreover from this r(1) obtain R' where "tcbs s' r = Some R'" "tcbContext R' = tcbContext R2"
      by (cases "tcbs s' r") auto
    ultimately show ?thesis using S False by (auto simp: arrived_def)
  qed
qed

lemma doIPCTransfer_arrives:
  assumes "slots_ok s" and "tcbs s x \<noteq> None" and "tcbs s r \<noteq> None"
  shows "\<exists>s'. doIPCTransfer x ep badge grant r s = Some s' \<and> msg_step r s s' \<and> arrived s x r badge s'"
proof -
  from assms obtain S R where x: "tcbs s x = Some S" and r: "tcbs s r = Some R" by auto
  from doIPCTransfer_ok [OF assms(1) x r, of ep badge grant] x show ?thesis by (auto simp: arrived_def)
qed

section \<open>Reply capabilities\<close>

lemma setupCallerCap_ok:
  assumes i: "sched_ok s rq" "action_ok s" "bound_ok s"
    and part: "wait_part s tw wq" and tw: "tw x = None" "\<And>u. u \<noteq> x \<Longrightarrow> tw u = thread_wait s u"
    and ok: "slots_ok s" and x: "tcbs s x = Some X" "x \<noteq> ksIdleThread s"
    and out: "x \<notin> waiting_to_run s rq" and d: "tcbs s d \<noteq> None"
    and master: "caps_of s (TCB_PTR_CTE_PTR x tcbReply) = Some (cap_reply_cap True True x)"
    and free: "caps_of s (TCB_PTR_CTE_PTR d tcbCaller) = Some cap_null_cap"
  shows "\<exists>s'. setupCallerCap x d g s = Some s' \<and> ipc_inv s' rq wq \<and> slots_ok s' \<and>
    thread_type s' x = Some ThreadState_BlockedOnReply \<and>
    caps_of s' (TCB_PTR_CTE_PTR d tcbCaller) = Some (cap_reply_cap g False x) \<and>
    waiting_to_run s' rq = waiting_to_run s rq \<and> ksCurThread s' = ksCurThread s \<and>
    (\<forall>u. u \<noteq> x \<longrightarrow> tcbs s' u = tcbs s u) \<and> map_option tcbContext (tcbs s' x) = map_option tcbContext (tcbs s x) \<and>
    umem s' = umem s"
proof -
  from restart_step [OF i x(1) part tw _ _ x(2), of ThreadState_BlockedOnReply] out obtain s1 where
    s1: "setThreadState x ThreadState_BlockedOnReply s = Some s1" and i1: "ipc_inv s1 rq wq"
    and t1: "tcbs s1 = (tcbs s)(x \<mapsto> X\<lparr>tcbState := (tcbState X)\<lparr>tsType := ThreadState_BlockedOnReply\<rparr>\<rparr>)"
    and w1: "waiting_to_run s1 rq = waiting_to_run s rq" and cur1: "ksCurThread s1 = ksCurThread s"
    and e1: "ctes s1 = ctes s" "umem s1 = umem s" by auto
  have ok1: "slots_ok s1" by (rule same_slots_keeps [OF same_slots_state(2) s1 ok])
  from master obtain a where a: "ctes s1 (TCB_PTR_CTE_PTR x tcbReply) = Some a" "cte_cap a = cap_reply_cap True True x"
    by (auto simp: caps_of_def e1)
  from free obtain b where b: "ctes s1 (TCB_PTR_CTE_PTR d tcbCaller) = Some b" "cte_cap b = cap_null_cap"
    by (auto simp: caps_of_def e1)
  have c: "cap_ok s1 (cap_reply_cap g False x)" "isCapRevocable (cap_reply_cap g False x) (cte_cap a) \<noteq> None"
    by (simp_all add: cap_ok_def wf_cnode_cap_def cnode_slots_ok_def cnode_apart_def refs_ok_def t1
        isCapRevocable_def isArchCap_def)
  from cteInsert_slots [OF ok1 a(1) b c(1) _ c(2)] a(2) obtain s' where
    s': "cteInsert (cap_reply_cap g False x) (TCB_PTR_CTE_PTR x tcbReply) (TCB_PTR_CTE_PTR d tcbCaller) s1 = Some s'"
    and ok': "slots_ok s'" and eq: "s' = s1\<lparr>ctes := ctes s'\<rparr>" and dom: "dom (ctes s') = dom (ctes s1)"
    and cap: "caps_of s' (TCB_PTR_CTE_PTR d tcbCaller) = Some (cap_reply_cap g False x)" by auto
  have er: "msg_erased s' = msg_erased s1" by (subst eq) (rule ctes_erased [OF dom])
  have f: "tcbs s' = tcbs s1" "umem s' = umem s1" "ksCurThread s' = ksCurThread s1" by (subst eq, simp)+
  have run: "setupCallerCap x d g s = Some s'"
    using a(2) b(2) by (simp add: setupCallerCap_def s1 a(1) b(1) s' Let_def)
  have inv': "ipc_inv s' rq wq" using i1 by (simp add: msg_erased_inv(1) [OF er])
  have w': "waiting_to_run s' rq = waiting_to_run s rq" using w1 by (simp add: msg_erased_inv(7) [OF er])
  show ?thesis
    using run inv' ok' cap w' cur1 e1 x(1) by (intro exI [of _ s']) (simp add: f t1)
qed

section \<open>Sending\<close>

text \<open>The outcome of \<open>sendIPC\<close> for the sender \<open>x\<close> on the endpoint \<open>p\<close>.\<close>

definition sent ::
    "kstate \<Rightarrow> ready_lists \<Rightarrow> wait_lists \<Rightarrow> ptr \<Rightarrow> ptr \<Rightarrow> word_t \<Rightarrow> bool \<Rightarrow> bool \<Rightarrow> bool \<Rightarrow>
     kstate \<Rightarrow> ready_lists \<Rightarrow> wait_lists \<Rightarrow> bool" where
  "sent s rq wq x p badge blocking do_call can_reply s' rq' wq' \<longleftrightarrow>
     (\<exists>e. eps s p = Some e \<and>
       (if ep_state e = EPState_Recv then
          \<exists>d ds. wq (Ep p) = d # ds \<and> wq' = wq(Ep p := ds) \<and> arrived s x d badge s' \<and>
            thread_type s' d = Some ThreadState_Running \<and>
            waiting_to_run s' rq' = insert d (waiting_to_run s rq) \<and>
            thread_type s' x =
              (if do_call then Some (if can_reply then ThreadState_BlockedOnReply else ThreadState_Inactive)
               else thread_type s x) \<and>
            (do_call \<and> can_reply \<longrightarrow>
              (\<exists>g. caps_of s' (TCB_PTR_CTE_PTR d tcbCaller) = Some (cap_reply_cap g False x)))
        else if blocking then
          wq' = wq(Ep p := wq (Ep p) @ [x]) \<and> thread_wait s' x = Some (Ep p, ThreadState_BlockedOnSend) \<and>
          badge_of s' x = Some badge \<and> waiting_to_run s' rq' = waiting_to_run s rq \<and>
          (x = ksCurThread s \<longrightarrow> ksSchedulerAction s' \<noteq> SchedulerAction_ResumeCurrentThread)
        else s' = s \<and> rq' = rq \<and> wq' = wq))"

text \<open>A call needs the master reply capability of the caller and a free slot for its copy.\<close>

definition call_ready :: "kstate \<Rightarrow> wait_lists \<Rightarrow> ptr \<Rightarrow> ptr \<Rightarrow> bool" where
  "call_ready s wq x p \<longleftrightarrow>
     caps_of s (TCB_PTR_CTE_PTR x tcbReply) = Some (cap_reply_cap True True x) \<and>
     (\<forall>d \<in> set (wq (Ep p)). caps_of s (TCB_PTR_CTE_PTR d tcbCaller) = Some cap_null_cap)"

lemma stop_step:
  assumes i: "sched_ok s rq" "action_ok s" "bound_ok s"
    and part: "wait_part s tw wq" and tw: "tw t = None" "\<And>u. u \<noteq> t \<Longrightarrow> tw u = thread_wait s u"
    and t: "tcbs s t = Some T" and out: "t \<notin> waiting_to_run s rq" and idle: "t \<noteq> ksIdleThread s"
  shows "\<exists>s'. setThreadState t ThreadState_Inactive s = Some s' \<and> ipc_inv s' rq wq \<and>
    tcbs s' = (tcbs s)(t \<mapsto> T\<lparr>tcbState := (tcbState T)\<lparr>tsType := ThreadState_Inactive\<rparr>\<rparr>) \<and>
    waiting_to_run s' rq = waiting_to_run s rq \<and> umem s' = umem s \<and> ctes s' = ctes s \<and> ksCurThread s' = ksCurThread s"
  using restart_step [OF i t part tw _ _ idle, of ThreadState_Inactive] out by auto

lemma sendIPC_block:
  assumes inv: "ipc_inv s rq wq" and ok: "slots_ok s" and e: "eps s p = Some e" "ep_state e \<noteq> EPState_Recv"
    and x: "tcbs s x = Some X" "x \<noteq> ksIdleThread s" and out: "x \<notin> waiting_to_run s rq" and plain: "thread_wait s x = None"
  shows "\<exists>s'. sendIPC True do_call badge g gr x p s = Some s' \<and> ipc_inv s' rq (wq(Ep p := wq (Ep p) @ [x])) \<and>
    slots_ok s' \<and> sent s rq wq x p badge True do_call r s' rq (wq(Ep p := wq (Ep p) @ [x]))"
proof -
  define Y where "Y = (tcbState X)\<lparr>tsType := ThreadState_BlockedOnSend, blockingObject := p, blockingIPCBadge := badge,
    blockingIPCCanGrant := g, blockingIPCCanGrantReply := gr, blockingIPCIsCall := do_call\<rparr>"
  have Y: "tcbQueued Y = tcbQueued (tcbState X)"
      "wait_of (X\<lparr>tcbState := Y\<rparr>) = Some (Ep p, ThreadState_BlockedOnSend)"
    by (simp_all add: Y_def wait_of_def)
  from e obtain q m where v: "obj_view s (Ep p) = Some (q, m)" and m: "m = ep_mode (ep_state e)" by simp
  have m': "m = None \<or> m = ep_mode EPState_Send" using m e(2) by (cases "ep_state e") auto
  from epw.block_step [OF inv x(1) out plain x(2) Y v m'] obtain s' where
    s': "do { s \<leftarrow> scheduleTCB x (s\<lparr>tcbs := (tcbs s)(x \<mapsto> X\<lparr>tcbState := Y\<rparr>)\<rparr>);
              queue \<leftarrow> ep_ptr_get_queue p s; (queue, s) \<leftarrow> tcbEPAppend x queue s;
              s \<leftarrow> endpoint_ptr_set_state p EPState_Send s; ep_ptr_set_queue p queue s } = Some s'"
    "ipc_inv s' rq (wq(Ep p := wq (Ep p) @ [x]))" "thread_wait s' x = Some (Ep p, ThreadState_BlockedOnSend)"
    "waiting_to_run s' rq = waiting_to_run s rq" "x = ksCurThread s \<longrightarrow> ksSchedulerAction s' \<noteq> 0"
    "map_option tcbState (tcbs s' x) = Some Y" by auto
  have run: "sendIPC True do_call badge g gr x p s = Some s'"
    using e x(1) s'(1) by (simp add: sendIPC_def kmonad Y_def)
  have "framed same_slots s (do { s \<leftarrow> scheduleTCB x (s\<lparr>tcbs := (tcbs s)(x \<mapsto> X\<lparr>tcbState := Y\<rparr>)\<rparr>);
              queue \<leftarrow> ep_ptr_get_queue p s; (queue, s) \<leftarrow> tcbEPAppend x queue s;
              s \<leftarrow> endpoint_ptr_set_state p EPState_Send s; ep_ptr_set_queue p queue s })"
  proof -
    have pre: "same_slots s (s\<lparr>tcbs := (tcbs s)(x \<mapsto> X\<lparr>tcbState := Y\<rparr>)\<rparr>)"
      using x(1) by (auto simp: same_slots_def live_def)
    show ?thesis
      by (rule pre sm.bind_val sm.bind same_slots_ops [THEN sm.start] same_slots_vals [THEN sm.val_start] sm.refl sm.read)+
  qed
  from same_slots_keeps [OF this s'(1) ok] have "slots_ok s'" .
  moreover have "badge_of s' x = Some badge"
    using s'(6) by (cases "tcbs s' x") (auto simp: Y_def)
  ultimately show ?thesis using run s' e by (auto simp: sent_def)
qed

lemma msg_step_idle: "msg_step r s s' \<Longrightarrow> ksIdleThread s' = ksIdleThread s"
  by (rule keptD(7) [OF msg_erasedD(5) [OF msg_stepD(1)]])

lemma not_waiting:
  assumes "ipc_inv s rq wq" and "\<And>w. t \<notin> set (wq w)"
  shows "thread_wait s t = None"
  using wait_partD(3) [OF ipc_invD(4) [OF assms(1)]] assms(2) by (cases "thread_wait s t") auto

text \<open>The first waiting thread \<open>d\<close> takes a message of \<open>x\<close> and \<open>y\<close> (one of them) runs on.\<close>

lemma meet_step:
  assumes inv: "ipc_inv s rq wq" and ok: "slots_ok s" and q: "wq (Ep p) = d # ds"
    and x: "tcbs s x \<noteq> None" and r: "tcbs s r \<noteq> None"
  shows "\<exists>s1 s2. ep_ptr_get_queue p s = Some (queue_of (d # ds)) \<and>
    (\<forall>K :: kstate \<Rightarrow> kstate option.
       do { (queue, s) \<leftarrow> tcbEPDequeue d (queue_of (d # ds)) s;
            s \<leftarrow> ep_ptr_set_queue p queue s;
            s \<leftarrow> (if qhead queue = NULL then endpoint_ptr_set_state p EPState_Idle s else Some s);
            K s } = K s1) \<and>
    tcbs s1 d = tcbs s d \<and> same_slots s s1 \<and> slots_ok s1 \<and>
    doIPCTransfer x p badge g r s1 = Some s2 \<and> msg_step r s1 s2 \<and> arrived s x r badge s2 \<and>
    sched_ok s2 rq \<and> action_ok s2 \<and> bound_ok s2 \<and> thread_wait s2 = thread_wait s \<and>
    wait_part s2 ((thread_wait s)(d := None)) (wq(Ep p := ds)) \<and>
    waiting_to_run s2 rq = waiting_to_run s rq \<and> ksIdleThread s2 = ksIdleThread s \<and> ksCurThread s2 = ksCurThread s \<and>
    (\<forall>u. map_option tcbState (tcbs s2 u) = map_option tcbState (tcbs s u)) \<and>
    (\<forall>c \<in> tcb_slots s. caps_of s2 c = caps_of s c)"
proof -
  have mem: "d \<in> set (wq (Ep p))" using q by simp
  have "\<forall>x \<in> set (wq (Ep p)). tcbs s x \<noteq> None" using queue_live(1) [OF inv] by blast
  from epw.wake [OF ipc_invD(4) [OF inv] mem this] obtain s1 where
    s1: "ep_ptr_get_queue p s = Some (queue_of (wq (Ep p)))"
      "\<forall>K :: kstate \<Rightarrow> kstate option.
         do { (queue, s) \<leftarrow> tcbEPDequeue d (queue_of (wq (Ep p))) s; s \<leftarrow> ep_ptr_set_queue p queue s;
              s \<leftarrow> (if qhead queue = NULL then endpoint_ptr_set_state p EPState_Idle s else Some s); K s } = K s1"
      "wait_part s1 ((thread_wait s)(d := None)) (wq(Ep p := remove1 d (wq (Ep p))))"
      "tcbs s1 d = tcbs s d"
    and rl: "ep_relinked (set (wq (Ep p))) (tcbs s) (tcbs s1)"
    and o: "objs_erased s1 = objs_erased (s\<lparr>tcbs := tcbs s1\<rparr>)" by (elim exE conjE)
  note dt = detached [OF inv rl o]
  note sl = detached_slots [OF ok rl o]
  have part: "map_option f (tcbs s1 u) = map_option f (tcbs s u)" if "\<And>T. f (ep_unlinked T) = f T" for f :: "tcb_t \<Rightarrow> 'z" and u
    by (rule map_option_part [where h = f and g = ep_unlinked]) (use rl that in \<open>simp_all add: ep_relinked_def\<close>)
  have live1: "tcbs s1 u \<noteq> None \<longleftrightarrow> tcbs s u \<noteq> None" for u
    using sl(1) liveD(2) [of s1 s u] by (simp add: same_slots_def)
  from doIPCTransfer_arrives [OF sl(2), of x r p badge g] x r live1 obtain s2 where
    s2: "doIPCTransfer x p badge g r s1 = Some s2" and st: "msg_step r s1 s2" and ar: "arrived s1 x r badge s2" by auto
  have "arrived s x r badge s2"
    by (rule arrived_cong [OF ar sl(1) part part sl(3) refl refl]) (simp_all add: ep_unlinked_def)
  note e = msg_erased_inv [OF msg_stepD(1) [OF st]]
  have "map_option tcbState (tcbs s2 u) = map_option tcbState (tcbs s1 u)" for u
    by (rule map_option_part [OF _ msg_erasedD(2) [OF msg_stepD(1) [OF st]], where h = tcbState]) simp
  moreover have "map_option tcbState (tcbs s1 u) = map_option tcbState (tcbs s u)" for u
    by (rule part) (simp add: ep_unlinked_def)
  ultimately have state: "map_option tcbState (tcbs s2 u) = map_option tcbState (tcbs s u)" for u by simp
  have c1: "ctes s1 = ctes s" "live s1 = live s" using sl(1) by (auto simp: same_slots_def)
  have caps: "caps_of s2 c = caps_of s c" if "c \<in> tcb_slots s" for c
    using msg_stepD(4) [OF st, of c] that c1(1) by (simp add: cap_ok_live(2) [OF c1(2)] caps_of_def)
  have cur: "ksCurThread s2 = ksCurThread s1" by (rule keptD(6) [OF msg_erasedD(5) [OF msg_stepD(1) [OF st]]])
  show ?thesis
    using s1 q s2 st \<open>arrived s x r badge s2\<close> sl state caps dt e msg_step_idle [OF st] cur
    by (intro exI [of _ s1] exI [of _ s2]) simp
qed

end
