(* ===== verification/Rendezvous.thy ===== *)
theory Rendezvous
  imports Endpoints
begin

text \<open>
  The rendezvous of endpoints: sending (with calls), receiving, and the claims about messages.
  The operations return under the invariants of waiting and of slots, keep both, and hand the
  message of the sender to the first thread of the queue or queue the caller.
\<close>

section \<open>Sending\<close>

lemma recv_queue:
  assumes inv: "ipc_inv s rq wq" and e: "eps s p = Some e" and st: "ep_state e \<noteq> EPState_Idle"
  obtains d ds where "wq (Ep p) = d # ds"
proof -
  from e have v: "obj_view s (Ep p) =
      Some (\<lparr>qhead = epQueue_head e, qend = epQueue_tail e\<rparr>, ep_mode (ep_state e))" by simp
  have "wq (Ep p) \<noteq> []" using wait_partD(2) [OF ipc_invD(4) [OF inv] v] st by simp
  then show ?thesis using that by (cases "wq (Ep p)") auto
qed

lemma recv_queue_head:
  assumes inv: "ipc_inv s rq wq" and q: "wq (Ep p) = d # ds"
  shows "qhead (queue_of (d # ds)) = d" and "d \<noteq> NULL" and "tcbs s d \<noteq> None" and "d \<noteq> ksIdleThread s"
    and "thread_wait s d \<noteq> None" and "d \<notin> waiting_to_run s rq"
  using queue_live [OF inv, of d "Ep p"] no_null_thread [OF ipc_invD(1) [OF inv]] q
    wait_partD(3) [OF ipc_invD(4) [OF inv], of d "Ep p"]
  by (auto simp: queue_of_def)

lemma sendIPC_meet:
  assumes inv: "ipc_inv s rq wq" and ok: "slots_ok s" and e: "eps s p = Some e" "ep_state e = EPState_Recv"
    and x: "tcbs s x = Some X" "x \<noteq> ksIdleThread s" and out: "x \<notin> waiting_to_run s rq" and plain: "thread_wait s x = None"
    and call: "do_call \<and> (g \<or> gr) \<longrightarrow> call_ready s wq x p"
  shows "\<exists>s' rq' wq'. sendIPC blocking do_call badge g gr x p s = Some s' \<and> ipc_inv s' rq' wq' \<and>
    slots_ok s' \<and> sent s rq wq x p badge blocking do_call (g \<or> gr) s' rq' wq'"
proof -
  from recv_queue [OF inv e(1)] e(2) obtain d ds where q: "wq (Ep p) = d # ds" by (metis endpoint_state.distinct(3))
  note h = recv_queue_head [OF inv q]
  have dx: "d \<noteq> x" using h(5) plain by auto
  from meet_step [OF inv ok q _ h(3), of x badge g] x(1) obtain s1 s2 where
    get: "ep_ptr_get_queue p s = Some (queue_of (d # ds))"
    and K: "\<And>K :: kstate \<Rightarrow> kstate option.
       do { (queue, s) \<leftarrow> tcbEPDequeue d (queue_of (d # ds)) s;
            s \<leftarrow> ep_ptr_set_queue p queue s;
            s \<leftarrow> (if qhead queue = NULL then endpoint_ptr_set_state p EPState_Idle s else Some s);
            K s } = K s1"
    and "same_slots s s1" "slots_ok s1" and dipc: "doIPCTransfer x p badge g d s1 = Some s2"
    and step: "msg_step d s1 s2" and arr: "arrived s x d badge s2"
    and i2: "sched_ok s2 rq" "action_ok s2" "bound_ok s2" and tw2: "thread_wait s2 = thread_wait s"
    and part: "wait_part s2 ((thread_wait s)(d := None)) (wq(Ep p := ds))"
    and w2: "waiting_to_run s2 rq = waiting_to_run s rq" and idle2: "ksIdleThread s2 = ksIdleThread s"
    and state2: "\<And>u. map_option tcbState (tcbs s2 u) = map_option tcbState (tcbs s u)"
    and caps2: "\<And>c. c \<in> tcb_slots s \<Longrightarrow> caps_of s2 c = caps_of s c" by auto
  from state2 [of d] h(3) obtain D where D: "tcbs s2 d = Some D" by (cases "tcbs s2 d") auto
  have "d \<noteq> ksIdleThread s2" using h(4) idle2 by simp
  from run_step [OF i2(1,2,3) D part _ _ this, of ThreadState_Running] tw2 obtain s3 s4 rq4 where
    s3: "setThreadState d ThreadState_Running s2 = Some s3" and s4: "possibleSwitchTo d s3 = Some s4"
    and i4: "ipc_inv s4 rq4 (wq(Ep p := ds))" and w4: "waiting_to_run s4 rq4 = insert d (waiting_to_run s2 rq)"
    and d4: "thread_type s4 d = Some ThreadState_Running" "\<And>u. u \<noteq> d \<Longrightarrow> thread_type s4 u = thread_type s2 u"
    and c4: "\<And>u. map_option tcbContext (tcbs s4 u) = map_option tcbContext (tcbs s2 u)"
    and e4: "ctes s4 = ctes s2" "umem s4 = umem s2" by auto
  have ok3: "slots_ok s3" by (rule same_slots_keeps [OF same_slots_state(2) s3 msg_stepD(3) [OF step]])
  have ok4: "slots_ok s4" by (rule same_slots_keeps [OF same_slots_state(4) s4 ok3])
  have arr4: "arrived s x d badge s4"
    by (rule arrived_cong [OF arr sm.refl refl refl refl c4 e4(2)])
  have run: "sendIPC blocking do_call badge g gr x p s =
    (if do_call then
       if g \<or> gr then setupCallerCap x d (blockingIPCCanGrant (tcbState D)) s4
       else setThreadState x ThreadState_Inactive s4
     else Some s4)"
    unfolding sendIPC_def
    using e h(1,2) by (simp add: get K dipc D s3 s4 Let_def)
  have type4: "thread_type s4 u = thread_type s u" if "u \<noteq> d" for u
    using d4(2) [OF that] map_option_part [where h = tsType and f = "\<lambda>T. tsType (tcbState T)", OF _ state2 [of u]] by simp
  have x4: "tcbs s4 x \<noteq> None" using type4 [of x] dx x(1) by auto
  have same4: "ksIdleThread s4 = ksIdleThread s"
    using same_slots_state(2) [of s2 d ThreadState_Running] same_slots_state(4) [of s3 d] s3 s4 idle2
    by (simp add: framed_def same_slots_def)
  have plain4: "thread_wait s4 x = None"
  proof (rule not_waiting [OF i4])
    fix w show "x \<notin> set ((wq(Ep p := ds)) w)"
      using wait_partD(3) [OF ipc_invD(4) [OF inv], of x w] plain q by (cases "w = Ep p") auto
  qed
  have out4: "x \<notin> waiting_to_run s4 rq4" using out dx w4 w2 by simp
  from x4 obtain X4 where X4: "tcbs s4 x = Some X4" by auto
  have xi: "x \<noteq> ksIdleThread s4" using x(2) same4 by simp
  show ?thesis
  proof (cases "do_call")
    case False
    then show ?thesis using run i4 ok4 q arr4 d4(1) w4 w2 e type4 [of x] dx
      by (intro exI [of _ s4] exI [of _ rq4] exI [of _ "wq(Ep p := ds)"]) (simp add: sent_def)
  next
    case T: True
    show ?thesis
    proof (cases "g \<or> gr")
      case True
      with call T have ready: "caps_of s (TCB_PTR_CTE_PTR x tcbReply) = Some (cap_reply_cap True True x)"
          "caps_of s (TCB_PTR_CTE_PTR d tcbCaller) = Some cap_null_cap"
        using q by (auto simp: call_ready_def)
      have slots: "TCB_PTR_CTE_PTR x tcbReply \<in> tcb_slots s" "TCB_PTR_CTE_PTR d tcbCaller \<in> tcb_slots s"
        by (rule tcb_slotI; use x h(3) in simp)+
      have caps4: "caps_of s4 c = caps_of s2 c" for c by (simp add: caps_of_def e4)
      from setupCallerCap_ok [OF ipc_invD(1,2,5,4) [OF i4] plain4 refl ok4 X4 xi out4, of d "blockingIPCCanGrant (tcbState D)"]
        ready d4(1) obtain s' where
        s': "setupCallerCap x d (blockingIPCCanGrant (tcbState D)) s4 = Some s'"
          "ipc_inv s' rq4 (wq(Ep p := ds))" "slots_ok s'" "thread_type s' x = Some ThreadState_BlockedOnReply"
          "caps_of s' (TCB_PTR_CTE_PTR d tcbCaller) = Some (cap_reply_cap (blockingIPCCanGrant (tcbState D)) False x)"
          "waiting_to_run s' rq4 = waiting_to_run s4 rq4" "umem s' = umem s4" "\<And>u. u \<noteq> x \<Longrightarrow> tcbs s' u = tcbs s4 u"
        by (auto simp: caps4 caps2 [OF slots(1)] caps2 [OF slots(2)])
      have "arrived s x d badge s'"
        by (rule arrived_cong [OF arr4 sm.refl refl refl refl _ s'(7)]) (simp add: s'(8) [OF dx])
      then show ?thesis using run T True s' q d4(1) w4 w2 e dx
        by (intro exI [of _ s'] exI [of _ rq4] exI [of _ "wq(Ep p := ds)"]) (auto simp: sent_def)
    next
      case False
      from stop_step [OF ipc_invD(1,2,5,4) [OF i4] plain4 refl X4 out4 xi] obtain s' where
        s': "setThreadState x ThreadState_Inactive s4 = Some s'" "ipc_inv s' rq4 (wq(Ep p := ds))"
          "tcbs s' = (tcbs s4)(x \<mapsto> X4\<lparr>tcbState := (tcbState X4)\<lparr>tsType := ThreadState_Inactive\<rparr>\<rparr>)"
          "waiting_to_run s' rq4 = waiting_to_run s4 rq4" "umem s' = umem s4" by auto
      have "arrived s x d badge s'"
        by (rule arrived_cong [OF arr4 sm.refl refl refl refl _ s'(5)]) (simp add: s'(3) dx)
      moreover have "slots_ok s'" by (rule same_slots_keeps [OF same_slots_state(2) s'(1) ok4])
      ultimately show ?thesis using run T False s' q d4(1) w4 w2 e dx
        by (intro exI [of _ s'] exI [of _ rq4] exI [of _ "wq(Ep p := ds)"]) (simp add: sent_def)
    qed
  qed
qed

lemma sendIPC_ok:
  assumes inv: "ipc_inv s rq wq" and ok: "slots_ok s" and e: "eps s p \<noteq> None"
    and x: "tcbs s x \<noteq> None" "x \<noteq> ksIdleThread s" and out: "x \<notin> waiting_to_run s rq" and plain: "thread_wait s x = None"
    and call: "do_call \<and> (g \<or> gr) \<longrightarrow> call_ready s wq x p"
  shows "\<exists>s' rq' wq'. sendIPC blocking do_call badge g gr x p s = Some s' \<and> ipc_inv s' rq' wq' \<and>
    slots_ok s' \<and> sent s rq wq x p badge blocking do_call (g \<or> gr) s' rq' wq'"
proof -
  from e x obtain e' X where e': "eps s p = Some e'" and X: "tcbs s x = Some X" by auto
  show ?thesis
  proof (cases "ep_state e' = EPState_Recv")
    case True
    then show ?thesis by (rule sendIPC_meet [OF inv ok e' _ X x(2) out plain call])
  next
    case False
    show ?thesis
    proof (cases blocking)
      case True
      from sendIPC_block [OF inv ok e' False X x(2) out plain, of do_call badge g gr "g \<or> gr"] True
      show ?thesis by auto
    next
      case nb: False
      then show ?thesis using inv ok e' False
        by (intro exI [of _ s] exI [of _ rq] exI [of _ wq]) (simp add: sendIPC_def sent_def)
    qed
  qed
qed

section \<open>Receiving\<close>

text \<open>The outcome of \<open>receiveIPC\<close> for the receiver \<open>t\<close> with the capability \<open>c\<close> on the endpoint \<open>p\<close>.\<close>

definition signal_pending :: "kstate \<Rightarrow> ptr \<Rightarrow> notification_t option" where
  "signal_pending s t =
     do { T \<leftarrow> tcbs s t;
          n \<leftarrow> (if tcbBoundNotification T = NULL then None else ntfns s (tcbBoundNotification T));
          if ntfn_state n = NtfnState_Active then Some n else None }"

definition taken ::
    "kstate \<Rightarrow> ready_lists \<Rightarrow> wait_lists \<Rightarrow> ptr \<Rightarrow> ptr \<Rightarrow> cap_t \<Rightarrow> bool \<Rightarrow>
     kstate \<Rightarrow> ready_lists \<Rightarrow> wait_lists \<Rightarrow> bool" where
  "taken s rq wq p t c isBlocking s' rq' wq' \<longleftrightarrow>
     (\<exists>e. eps s p = Some e \<and>
       (case signal_pending s t of
          Some n \<Rightarrow>
            wq' = wq \<and> waiting_to_run s' rq' = waiting_to_run s rq \<and>
            map_option (\<lambda>T. tcbContext T badgeRegister) (tcbs s' t) = Some (ntfnMsgIdentifier n) \<and>
            signal_pending s' t = None
        | None \<Rightarrow>
            if ep_state e = EPState_Send then
              \<exists>d ds D. wq (Ep p) = d # ds \<and> wq' = wq(Ep p := ds) \<and> tcbs s d = Some D \<and>
                arrived s d t (blockingIPCBadge (tcbState D)) s' \<and>
                (if blockingIPCIsCall (tcbState D) then
                   waiting_to_run s' rq' = waiting_to_run s rq \<and>
                   (if blockingIPCCanGrant (tcbState D) \<or> blockingIPCCanGrantReply (tcbState D) then
                      thread_type s' d = Some ThreadState_BlockedOnReply \<and>
                      caps_of s' (TCB_PTR_CTE_PTR t tcbCaller) = Some (cap_reply_cap (capCanGrant c) False d)
                    else thread_type s' d = Some ThreadState_Inactive)
                 else
                   thread_type s' d = Some ThreadState_Running \<and>
                   waiting_to_run s' rq' = insert d (waiting_to_run s rq))
            else if isBlocking then
              wq' = wq(Ep p := wq (Ep p) @ [t]) \<and> thread_wait s' t = Some (Ep p, ThreadState_BlockedOnReceive) \<and>
              waiting_to_run s' rq' = waiting_to_run s rq \<and>
              (t = ksCurThread s \<longrightarrow> ksSchedulerAction s' \<noteq> SchedulerAction_ResumeCurrentThread)
            else
              wq' = wq \<and> waiting_to_run s' rq' = waiting_to_run s rq \<and>
              map_option (\<lambda>T. tcbContext T badgeRegister) (tcbs s' t) = Some 0))"

text \<open>The caller at the head of the queue has its master reply capability, the receiver a free slot.\<close>

definition reply_ready :: "kstate \<Rightarrow> wait_lists \<Rightarrow> ptr \<Rightarrow> ptr \<Rightarrow> bool" where
  "reply_ready s wq t p \<longleftrightarrow>
     caps_of s (TCB_PTR_CTE_PTR t tcbCaller) = Some cap_null_cap \<and>
     (\<forall>d \<in> set (wq (Ep p)). caps_of s (TCB_PTR_CTE_PTR d tcbReply) = Some (cap_reply_cap True True d))"

lemma receive_meet:
  assumes inv: "ipc_inv s rq wq" and ok: "slots_ok s" and e: "eps s p = Some e" "ep_state e = EPState_Send"
    and t: "tcbs s t = Some T" and plain: "thread_wait s t = None"
    and ready: "reply_ready s wq t p" and none: "signal_pending s t = None"
  shows "\<exists>s' rq' wq'. receive_from_sender t c p s = Some s' \<and> ipc_inv s' rq' wq' \<and> slots_ok s' \<and>
    taken s rq wq p t c isBlocking s' rq' wq'"
proof -
  from recv_queue [OF inv e(1)] e(2) obtain d ds where q: "wq (Ep p) = d # ds" by (metis endpoint_state.distinct(1))
  note h = recv_queue_head [OF inv q]
  have dt: "d \<noteq> t" using h(5) plain by auto
  from h(3) obtain D where D: "tcbs s d = Some D" by auto
  let ?b = "blockingIPCBadge (tcbState D)" and ?g = "blockingIPCCanGrant (tcbState D)"
  let ?gr = "blockingIPCCanGrantReply (tcbState D)"
  from meet_step [OF inv ok q h(3), of t ?b ?g] t obtain s1 s2 where
    get: "ep_ptr_get_queue p s = Some (queue_of (d # ds))"
    and K: "\<And>K :: kstate \<Rightarrow> kstate option.
       do { (queue, s) \<leftarrow> tcbEPDequeue d (queue_of (d # ds)) s;
            s \<leftarrow> ep_ptr_set_queue p queue s;
            s \<leftarrow> (if qhead queue = NULL then endpoint_ptr_set_state p EPState_Idle s else Some s);
            K s } = K s1"
    and D1: "tcbs s1 d = Some D" and dipc: "doIPCTransfer d p ?b ?g t s1 = Some s2"
    and step: "msg_step t s1 s2" and arr: "arrived s d t ?b s2"
    and i2: "sched_ok s2 rq" "action_ok s2" "bound_ok s2" and tw2: "thread_wait s2 = thread_wait s"
    and part: "wait_part s2 ((thread_wait s)(d := None)) (wq(Ep p := ds))"
    and w2: "waiting_to_run s2 rq = waiting_to_run s rq" and idle2: "ksIdleThread s2 = ksIdleThread s"
    and state2: "\<And>u. map_option tcbState (tcbs s2 u) = map_option tcbState (tcbs s u)"
    and caps2: "\<And>c. c \<in> tcb_slots s \<Longrightarrow> caps_of s2 c = caps_of s c" using D by auto
  have ok2: "slots_ok s2" by (rule msg_stepD(3) [OF step])
  have D2: "tcbs s2 d = Some D" using msg_stepD(2) [OF step dt] D1 by simp
  have idle: "d \<noteq> ksIdleThread s2" using h(4) idle2 by simp
  have out: "d \<notin> waiting_to_run s2 rq" using h(6) w2 by simp
  have tw: "((thread_wait s)(d := None)) d = None"
    "u \<noteq> d \<Longrightarrow> ((thread_wait s)(d := None)) u = thread_wait s2 u" for u by (simp_all add: tw2)
  have run: "receive_from_sender t c p s =
    (if blockingIPCIsCall (tcbState D) then
       if ?g \<or> ?gr then setupCallerCap d t (capCanGrant c) s2 else setThreadState d ThreadState_Inactive s2
     else do { s \<leftarrow> setThreadState d ThreadState_Running s2; possibleSwitchTo d s })"
    unfolding receive_from_sender_def
    using h(1,2) by (simp add: get K D1 dipc D2 Let_def)
  have t2: "tcbs s2 t \<noteq> None" using state2 [of t] t by auto
  show ?thesis
  proof (cases "blockingIPCIsCall (tcbState D)")
    case False
    from run_step [OF i2 D2 part tw idle, of ThreadState_Running] obtain s3 s4 rq4 where
      s3: "setThreadState d ThreadState_Running s2 = Some s3" and s4: "possibleSwitchTo d s3 = Some s4"
      and i4: "ipc_inv s4 rq4 (wq(Ep p := ds))" and w4: "waiting_to_run s4 rq4 = insert d (waiting_to_run s2 rq)"
      and d4: "thread_type s4 d = Some ThreadState_Running"
      and c4: "\<And>u. map_option tcbContext (tcbs s4 u) = map_option tcbContext (tcbs s2 u)"
      and e4: "umem s4 = umem s2" by auto
    have ok3: "slots_ok s3" by (rule same_slots_keeps [OF same_slots_state(2) s3 ok2])
    have ok4: "slots_ok s4" by (rule same_slots_keeps [OF same_slots_state(4) s4 ok3])
    have "arrived s d t ?b s4" by (rule arrived_cong [OF arr sm.refl refl refl refl c4 e4])
    then show ?thesis using False run s3 s4 i4 ok4 w4 w2 d4 q e D none
      by (intro exI [of _ s4] exI [of _ rq4] exI [of _ "wq(Ep p := ds)"]) (simp add: taken_def)
  next
    case T: True
    show ?thesis
    proof (cases "?g \<or> ?gr")
      case True
      have slots: "TCB_PTR_CTE_PTR d tcbReply \<in> tcb_slots s" "TCB_PTR_CTE_PTR t tcbCaller \<in> tcb_slots s"
        by (rule tcb_slotI; use t h(3) in simp)+
      from ready q have "caps_of s (TCB_PTR_CTE_PTR d tcbReply) = Some (cap_reply_cap True True d)"
        "caps_of s (TCB_PTR_CTE_PTR t tcbCaller) = Some cap_null_cap" by (auto simp: reply_ready_def)
      from setupCallerCap_ok [OF i2 part tw ok2 D2 idle out t2, of "capCanGrant c"] this obtain s' where
        s': "setupCallerCap d t (capCanGrant c) s2 = Some s'" "ipc_inv s' rq (wq(Ep p := ds))" "slots_ok s'"
          "thread_type s' d = Some ThreadState_BlockedOnReply"
          "caps_of s' (TCB_PTR_CTE_PTR t tcbCaller) = Some (cap_reply_cap (capCanGrant c) False d)"
          "waiting_to_run s' rq = waiting_to_run s2 rq" "umem s' = umem s2" "\<And>u. u \<noteq> d \<Longrightarrow> tcbs s' u = tcbs s2 u"
        by (auto simp: caps2 [OF slots(1)] caps2 [OF slots(2)])
      have "arrived s d t ?b s'"
        by (rule arrived_cong [OF arr sm.refl refl refl refl _ s'(7)]) (simp add: s'(8) dt [symmetric])
      then show ?thesis using run T True s' q w2 e D none
        by (intro exI [of _ s'] exI [of _ rq] exI [of _ "wq(Ep p := ds)"]) (simp add: taken_def)
    next
      case False
      from stop_step [OF i2 part tw D2 out idle] obtain s' where
        s': "setThreadState d ThreadState_Inactive s2 = Some s'" "ipc_inv s' rq (wq(Ep p := ds))"
          "tcbs s' = (tcbs s2)(d \<mapsto> D\<lparr>tcbState := (tcbState D)\<lparr>tsType := ThreadState_Inactive\<rparr>\<rparr>)"
          "waiting_to_run s' rq = waiting_to_run s2 rq" "umem s' = umem s2" by auto
      have "arrived s d t ?b s'"
        by (rule arrived_cong [OF arr sm.refl refl refl refl _ s'(5)]) (simp add: s'(3) dt [symmetric])
      moreover have "slots_ok s'" by (rule same_slots_keeps [OF same_slots_state(2) s'(1) ok2])
      ultimately show ?thesis using run T False s' q w2 e D none
        by (intro exI [of _ s'] exI [of _ rq] exI [of _ "wq(Ep p := ds)"]) (simp add: taken_def)
    qed
  qed
qed

lemma register_step:
  assumes inv: "ipc_inv s rq wq" and t: "tcbs s t = Some T"
  shows "ipc_inv (s\<lparr>tcbs := (tcbs s)(t \<mapsto> T\<lparr>tcbContext := c\<rparr>)\<rparr>) rq wq"
    and "waiting_to_run (s\<lparr>tcbs := (tcbs s)(t \<mapsto> T\<lparr>tcbContext := c\<rparr>)\<rparr>) rq = waiting_to_run s rq"
  using inv ipc_inv_thread [OF t, of "T\<lparr>tcbContext := c\<rparr>"]
    kept_waiting [OF ipc_inv_thread(2) [OF t, of "T\<lparr>tcbContext := c\<rparr>"]] by simp_all

text \<open>A pending signal of the bound notification is taken first.\<close>

lemma completeSignal_ok:
  assumes inv: "ipc_inv s rq wq" and t: "tcbs s t = Some T" and n: "signal_pending s t = Some n"
  shows "\<exists>s'. completeSignal (tcbBoundNotification T) t s = Some s' \<and> ipc_inv s' rq wq \<and>
    waiting_to_run s' rq = waiting_to_run s rq \<and>
    map_option (\<lambda>T. tcbContext T badgeRegister) (tcbs s' t) = Some (ntfnMsgIdentifier n) \<and> signal_pending s' t = None"
proof -
  let ?p = "tcbBoundNotification T"
  from n t have p: "?p \<noteq> NULL" "ntfns s ?p = Some n" "ntfn_state n = NtfnState_Active"
    by (auto simp: signal_pending_def split: if_splits option.splits bind_splits)
  define s1 where "s1 = s\<lparr>tcbs := (tcbs s)(t \<mapsto> T\<lparr>tcbContext := (tcbContext T)(badgeRegister := ntfnMsgIdentifier n)\<rparr>)\<rparr>"
  define s2 where "s2 = s1\<lparr>ntfns := (ntfns s)(?p \<mapsto> n\<lparr>ntfn_state := NtfnState_Idle\<rparr>)\<rparr>"
  have "t \<noteq> NULL" using no_null_thread [OF ipc_invD(1) [OF inv]] t by auto
  then have "completeSignal ?p t s = Some s2"
    using p t by (simp add: completeSignal_def kmonad notification_ptr_set_state_def s2_def s1_def)
  moreover have "ipc_inv s1 rq wq" and w1: "waiting_to_run s1 rq = waiting_to_run s rq"
    using register_step [OF inv t] by (simp_all add: s1_def)
  moreover have "ntfns s1 ?p = Some n" using p by (simp add: s1_def)
  ultimately have "completeSignal ?p t s = Some s2" "ipc_inv s2 rq wq"
    using ntfn_state_step [of s1 rq wq ?p n "n\<lparr>ntfn_state := NtfnState_Idle\<rparr>"] p
    by (simp_all add: s2_def, simp add: s1_def)
  moreover have "waiting_to_run s2 rq = waiting_to_run s1 rq" unfolding s2_def by (rule kept_waiting) simp
  moreover have "signal_pending s2 t = None"
    by (simp add: signal_pending_def s2_def s1_def)
  ultimately show ?thesis using w1 by (intro exI [of _ s2]) (simp add: s2_def s1_def)
qed

lemma receive_block:
  assumes inv: "ipc_inv s rq wq" and ok: "slots_ok s" and e: "eps s p = Some e" "ep_state e \<noteq> EPState_Send"
    and t: "tcbs s t = Some T" "t \<noteq> ksIdleThread s" and out: "t \<notin> waiting_to_run s rq" and plain: "thread_wait s t = None"
    and none: "signal_pending s t = None"
  shows "\<exists>s'. do { s \<leftarrow> ts_upd t (\<lambda>ts. ts\<lparr>tsType := ThreadState_BlockedOnReceive\<rparr>) s;
                   s \<leftarrow> ts_upd t (\<lambda>ts. ts\<lparr>blockingObject := p\<rparr>) s;
                   s \<leftarrow> ts_upd t (\<lambda>ts. ts\<lparr>blockingIPCCanGrant := capCanGrant c\<rparr>) s;
                   s \<leftarrow> scheduleTCB t s;
                   queue \<leftarrow> ep_ptr_get_queue p s; (queue, s) \<leftarrow> tcbEPAppend t queue s;
                   s \<leftarrow> endpoint_ptr_set_state p EPState_Recv s; ep_ptr_set_queue p queue s } = Some s' \<and>
    ipc_inv s' rq (wq(Ep p := wq (Ep p) @ [t])) \<and> slots_ok s' \<and>
    taken s rq wq p t c True s' rq (wq(Ep p := wq (Ep p) @ [t]))"
proof -
  define Y where "Y = (tcbState T)\<lparr>tsType := ThreadState_BlockedOnReceive, blockingObject := p,
    blockingIPCCanGrant := capCanGrant c\<rparr>"
  have Y: "tcbQueued Y = tcbQueued (tcbState T)"
      "wait_of (T\<lparr>tcbState := Y\<rparr>) = Some (Ep p, ThreadState_BlockedOnReceive)"
    by (simp_all add: Y_def wait_of_def)
  from e obtain q m where v: "obj_view s (Ep p) = Some (q, m)" and m: "m = ep_mode (ep_state e)" by simp
  have m': "m = None \<or> m = ep_mode EPState_Recv" using m e(2) by (cases "ep_state e") auto
  from epw.block_step [OF inv t(1) out plain t(2) Y v m'] obtain s' where
    s': "do { s \<leftarrow> scheduleTCB t (s\<lparr>tcbs := (tcbs s)(t \<mapsto> T\<lparr>tcbState := Y\<rparr>)\<rparr>);
              queue \<leftarrow> ep_ptr_get_queue p s; (queue, s) \<leftarrow> tcbEPAppend t queue s;
              s \<leftarrow> endpoint_ptr_set_state p EPState_Recv s; ep_ptr_set_queue p queue s } = Some s'"
    "ipc_inv s' rq (wq(Ep p := wq (Ep p) @ [t]))" "thread_wait s' t = Some (Ep p, ThreadState_BlockedOnReceive)"
    "waiting_to_run s' rq = waiting_to_run s rq" "t = ksCurThread s \<longrightarrow> ksSchedulerAction s' \<noteq> 0" by auto
  have "framed same_slots s (do { s \<leftarrow> scheduleTCB t (s\<lparr>tcbs := (tcbs s)(t \<mapsto> T\<lparr>tcbState := Y\<rparr>)\<rparr>);
              queue \<leftarrow> ep_ptr_get_queue p s; (queue, s) \<leftarrow> tcbEPAppend t queue s;
              s \<leftarrow> endpoint_ptr_set_state p EPState_Recv s; ep_ptr_set_queue p queue s })"
  proof -
    have pre: "same_slots s (s\<lparr>tcbs := (tcbs s)(t \<mapsto> T\<lparr>tcbState := Y\<rparr>)\<rparr>)"
      using t(1) by (auto simp: same_slots_def live_def)
    show ?thesis
      by (rule pre sm.bind_val sm.bind same_slots_ops [THEN sm.start] same_slots_vals [THEN sm.val_start] sm.refl sm.read)+
  qed
  from same_slots_keeps [OF this s'(1) ok] have "slots_ok s'" .
  then show ?thesis using t(1) s' e none by (intro exI [of _ s']) (simp add: kmonad Y_def taken_def)
qed

lemma receiveIPC_ok:
  assumes inv: "ipc_inv s rq wq" and ok: "slots_ok s" and c: "cap_get_capType c = 4" "eps s (capEPPtr c) \<noteq> None"
    and t: "tcbs s t \<noteq> None" "t \<noteq> ksIdleThread s" and out: "t \<notin> waiting_to_run s rq" and plain: "thread_wait s t = None"
    and ready: "reply_ready s wq t (capEPPtr c)"
  shows "\<exists>s' rq' wq'. receiveIPC t c isBlocking s = Some s' \<and> ipc_inv s' rq' wq' \<and> slots_ok s' \<and>
    taken s rq wq (capEPPtr c) t c isBlocking s' rq' wq'"
proof -
  from c t obtain e T where e: "eps s (capEPPtr c) = Some e" and T: "tcbs s t = Some T" by auto
  let ?p = "tcbBoundNotification T"
  have pend: "signal_pending s t = (if ?p = NULL then None else
      do { n \<leftarrow> ntfns s ?p; if ntfn_state n = NtfnState_Active then Some n else None })"
    by (simp add: signal_pending_def T)
  obtain active where a: "(if ?p \<noteq> NULL then do { n \<leftarrow> ntfns s ?p; Some (ntfn_state n = NtfnState_Active) }
      else Some False) = Some active" and active: "active \<longleftrightarrow> signal_pending s t \<noteq> None"
  proof (cases "?p = NULL")
    case True
    then show ?thesis using that [of False] by (simp add: pend)
  next
    case False
    from ipc_invD(5) [OF inv] T False obtain n where n: "ntfns s ?p = Some n" unfolding bound_ok_def by blast
    show ?thesis by (rule that [of "ntfn_state n = NtfnState_Active"]) (simp_all add: pend n False)
  qed
  show ?thesis
  proof (cases "signal_pending s t")
    case (Some n)
    from completeSignal_ok [OF inv T Some] obtain s' where
      s': "completeSignal ?p t s = Some s'" "ipc_inv s' rq wq" "waiting_to_run s' rq = waiting_to_run s rq"
        "map_option (\<lambda>T. tcbContext T badgeRegister) (tcbs s' t) = Some (ntfnMsgIdentifier n)" "signal_pending s' t = None"
      by auto
    have "slots_ok s'" by (rule same_slots_keeps [OF same_slots_signal(3) s'(1) ok])
    moreover have "receiveIPC t c isBlocking s = Some s'"
      using c(1) T a active Some s'(1) by (simp add: receiveIPC_def Let_def)
    ultimately show ?thesis using s' e Some
      by (intro exI [of _ s'] exI [of _ rq] exI [of _ wq]) (simp add: taken_def)
  next
    case None
    with active have na: "\<not> active" by simp
    have run: "receiveIPC t c isBlocking s =
      (if ep_state e = EPState_Send then receive_from_sender t c (capEPPtr c) s
       else if isBlocking then
         do { s \<leftarrow> ts_upd t (\<lambda>ts. ts\<lparr>tsType := ThreadState_BlockedOnReceive\<rparr>) s;
              s \<leftarrow> ts_upd t (\<lambda>ts. ts\<lparr>blockingObject := capEPPtr c\<rparr>) s;
              s \<leftarrow> ts_upd t (\<lambda>ts. ts\<lparr>blockingIPCCanGrant := capCanGrant c\<rparr>) s;
              s \<leftarrow> scheduleTCB t s;
              queue \<leftarrow> ep_ptr_get_queue (capEPPtr c) s; (queue, s) \<leftarrow> tcbEPAppend t queue s;
              s \<leftarrow> endpoint_ptr_set_state (capEPPtr c) EPState_Recv s; ep_ptr_set_queue (capEPPtr c) queue s }
       else doNBRecvFailedTransfer t s)"
      unfolding receiveIPC_def Let_def using c(1) T a na e by (simp del: not_None_eq)
    consider (send) "ep_state e = EPState_Send" | (block) "ep_state e \<noteq> EPState_Send" isBlocking
      | (poll) "ep_state e \<noteq> EPState_Send" "\<not> isBlocking" by blast
    then show ?thesis
    proof cases
      case send
      with receive_meet [OF inv ok e send T plain ready None] run show ?thesis by simp
    next
      case block
      from receive_block [OF inv ok e block(1) T t(2) out plain None, of c] obtain s' where
        s': "do { s \<leftarrow> ts_upd t (\<lambda>ts. ts\<lparr>tsType := ThreadState_BlockedOnReceive\<rparr>) s;
              s \<leftarrow> ts_upd t (\<lambda>ts. ts\<lparr>blockingObject := capEPPtr c\<rparr>) s;
              s \<leftarrow> ts_upd t (\<lambda>ts. ts\<lparr>blockingIPCCanGrant := capCanGrant c\<rparr>) s;
              s \<leftarrow> scheduleTCB t s;
              queue \<leftarrow> ep_ptr_get_queue (capEPPtr c) s; (queue, s) \<leftarrow> tcbEPAppend t queue s;
              s \<leftarrow> endpoint_ptr_set_state (capEPPtr c) EPState_Recv s; ep_ptr_set_queue (capEPPtr c) queue s } = Some s'"
        and r: "ipc_inv s' rq (wq(Ep (capEPPtr c) := wq (Ep (capEPPtr c)) @ [t]))" "slots_ok s'"
          "taken s rq wq (capEPPtr c) t c True s' rq (wq(Ep (capEPPtr c) := wq (Ep (capEPPtr c)) @ [t]))"
        by (elim exE conjE)
      have "receiveIPC t c isBlocking s = Some s'" using run s' block by (simp only: if_False if_True)
      moreover have "isBlocking = True" using block(2) by simp
      ultimately show ?thesis using r by blast
    next
      case poll
      let ?s = "s\<lparr>tcbs := (tcbs s)(t \<mapsto> T\<lparr>tcbContext := (tcbContext T)(badgeRegister := 0)\<rparr>)\<rparr>"
      have r: "doNBRecvFailedTransfer t s = Some ?s" using T by (simp add: doNBRecvFailedTransfer_def kmonad)
      have "slots_ok ?s" by (rule same_slots_keeps [OF same_slots_signal(1) r ok])
      then show ?thesis using run r poll register_step [OF inv T] e None
        by (intro exI [of _ ?s] exI [of _ rq] exI [of _ wq]) (simp add: taken_def)
    qed
  qed
qed

end
