(* ===== verification/Messaging.thy ===== *)
theory Messaging
  imports Rendezvous
begin

text \<open>
  The claims about messages (round trip of the message word, copying of registers and buffers,
  sending and receiving on endpoints), with a concrete state they are applied to.
\<close>

section \<open>A concrete state\<close>

text \<open>The threads of \<open>ipc_state\<close>, each with its master reply capability and empty other slots.\<close>

definition msg_ctes :: "ptr \<Rightarrow> cte_t option" where
  "msg_ctes p =
     (if p = NULL then None
      else Some \<lparr>cte_cap =
          (if p = 0x1040 then cap_reply_cap True True 0x1400
           else if p = 0x6040 then cap_reply_cap True True 0x6400
           else if p = 0x7040 then cap_reply_cap True True 0x7400
           else cap_null_cap),
        cteMDBNode = nullMDBNode\<rparr>)"

definition msg_state :: kstate where
  "msg_state = ipc_state\<lparr>ctes := msg_ctes\<rparr>"

lemma msg_state_sel:
  "ctes msg_state = msg_ctes" "tcbs msg_state = ipc_threads" "eps msg_state = eps ipc_state"
  "ntfns msg_state = ntfns ipc_state" "ksIdleThread msg_state = 0x3400"
  by (simp_all add: msg_state_def ipc_state_def sched_state_sel)

lemma below_5:
  fixes i :: word_t
  assumes "i < 5"
  shows "i \<in> {0, 1, 2, 3, 4}"
proof -
  from assms have "unat i < 5" by (simp add: word_less_nat_alt)
  then have "unat i \<in> {0, 1, 2, 3, 4}" by auto
  then show ?thesis by (auto simp: word_unat_eq_iff)
qed

lemma msg_slots:
  assumes "t \<in> dom ipc_threads" and "i < 5"
  shows "TCB_PTR_CTE_PTR t i \<noteq> NULL"
  using assms(1) below_5 [OF assms(2)]
  by (auto simp: ipc_threads_def TCB_PTR_CTE_PTR_def MASK_def BIT_def shiftl_def split: if_splits)

lemma msg_state_inv: "ipc_inv msg_state (\<lambda>_ _. []) ipc_queues"
proof -
  have f: "obj_view msg_state = obj_view ipc_state"
    by (rule ext, rename_tac w, case_tac w) (simp_all add: msg_state_def)
  have t: "tcbs msg_state = tcbs ipc_state" "ntfns msg_state = ntfns ipc_state" by (simp_all add: msg_state_def)
  have "wait_ok msg_state ipc_queues" "bound_ok msg_state"
    using ipc_frame(3,4) [of msg_state ipc_state] f t ipc_state_inv by (simp_all add: ipc_inv_def)
  moreover have "ctes msg_state (TCB_PTR_CTE_PTR u tcbVTable) \<noteq> None" if "tcbs msg_state u \<noteq> None" for u
    using msg_slots [of u tcbVTable] that by (auto simp: msg_state_sel msg_ctes_def)
  then have vt: "\<forall>u. tcbs msg_state u \<noteq> None \<longrightarrow> ctes msg_state (TCB_PTR_CTE_PTR u tcbVTable) \<noteq> None" by blast
  have "vspaces_wf msg_state"
    by (auto simp: vspaces_wf_def pt_live_def findMapForASID_def msg_state_def ipc_state_def sched_state_def
        blank_state_def split: if_splits)
  then have env: "sched_env msg_state" using vt unfolding sched_env_def by blast
  have "ready_queues_ok msg_state (\<lambda>_ _. []) = ready_queues_ok ipc_state (\<lambda>_ _. [])"
    by (simp add: msg_state_def ready_queues_ok_def tcbs_ok_def in_queue_def link_of_def bitmap_ok_def rq_idx_def)
  then have "sched_ok msg_state (\<lambda>_ _. [])" using env ipc_state_sched
    by (simp add: sched_ok_def ready_def dom_sched_ok_def idle_thread_def msg_state_def)
  moreover have "action_ok msg_state" by (simp add: action_ok_def msg_state_def ipc_state_def)
  ultimately show ?thesis by (simp add: ipc_inv_def)
qed

lemma msg_state_slots: "slots_ok msg_state"
proof -
  have n: "mdb_next msg_state p = NULL" "mdb_prev msg_state p = NULL" for p
    by (auto simp: link_of_def msg_state_sel msg_ctes_def nullMDBNode_def mdb_node_new_def)
  have "chains_wf (mdb_next msg_state) (mdb_prev msg_state) (dom (ctes msg_state))"
    unfolding chains_wf_def
  proof
    fix p assume "p \<in> dom (ctes msg_state)"
    then show "\<exists>xs. dlist (mdb_next msg_state) (mdb_prev msg_state) xs \<and> p \<in> set xs \<and> set xs \<subseteq> dom (ctes msg_state)"
      by (intro exI [of _ "[p]"]) (auto simp: dlist_def n msg_state_sel msg_ctes_def)
  qed
  then have "mdb_wf msg_state" by (simp add: mdb_wf_def msg_state_sel msg_ctes_def)
  moreover have "tcb_slots msg_state \<subseteq> dom (ctes msg_state)"
    using msg_slots by (fastforce simp: tcb_slots_def msg_state_sel msg_ctes_def)
  moreover have "tcbIPCBuffer T AND MASK 10 = 0" if "tcbs msg_state t = Some T" for t T
    using that by (auto simp: msg_state_sel ipc_threads_def waiter_def blank_tcb_def split: if_splits)
  moreover have "cap_ok msg_state (cte_cap x) \<and>
      (cte_cap x = cap_null_cap \<longrightarrow> mdbNext (cteMDBNode x) = NULL \<and> mdbPrev (cteMDBNode x) = NULL)"
    if "ctes msg_state p = Some x" for p x
    using that
    by (auto simp: msg_state_sel msg_ctes_def cap_ok_def wf_cnode_cap_def cnode_slots_ok_def cnode_apart_def refs_ok_def
        ipc_threads_def nullMDBNode_def mdb_node_new_def split: if_splits)
  ultimately show ?thesis by (simp add: slots_ok_def)
qed

section \<open>Properties\<close>

text \<open>C32: the word in which a message descriptor is passed. Writing the fields of a descriptor
  (label of 52 bits, up to 7 unwrapped and 3 extra capabilities, up to 120 words) into the message
  register and reading it back gives the descriptor.\<close>

theorem messageInfo_roundtrip:
  assumes "mi_label mi < 2 ^ 52" and "mi_capsUnwrapped mi < 8" and "mi_extraCaps mi < 4" and "mi_length mi \<le> 120"
  shows "messageInfoFromWord (wordFromMessageInfo mi) = mi"
  using assms by (rule messageInfoFromWord_wordFromMessageInfo)

theorem messageInfo_roundtrip_witness:
  "messageInfoFromWord (wordFromMessageInfo (seL4_MessageInfo_new 7 1 2 120)) = seL4_MessageInfo_new 7 1 2 120"
  by (rule messageInfo_roundtrip) (simp_all add: seL4_MessageInfo_new_def)

text \<open>C31: the message of a transfer. In a state whose slots are well formed, \<open>copyMRs\<close> copies the
  first words of the message of the sender (the registers, and beyond them the buffers when both
  threads have one, even the same), says how many it has copied, and changes no other register of
  the receiver, no other thread, no other word of user memory and no capability.\<close>

theorem copyMRs_copies:
  assumes "slots_ok s" and "tcbs s x = Some S" and "tcbs s r = Some R"
    and "buffer_ok s sb" and "buffer_ok s rb" and "unat n \<le> 120"
    and "m = (if rb = NULL \<or> sb = NULL then min (unat n) n_msgRegisters else unat n)"
  shows "\<exists>s' R'. copyMRs x sb r rb n s = Some (of_nat m, s') \<and> msg_step r s s' \<and>
    (\<forall>i < m. msg_word s' r rb i = msg_word s x sb i) \<and> tcbs s' r = Some R' \<and>
    (\<forall>g. g \<notin> set (take m msgRegisters) \<longrightarrow> tcbContext R' g = tcbContext R g) \<and>
    (\<forall>a. (\<forall>i < m. n_msgRegisters \<le> i \<longrightarrow> a \<noteq> word_at rb i) \<longrightarrow> umem s' a = umem s a) \<and> ctes s' = ctes s \<and>
    current_extra_caps s' = current_extra_caps s"
  unfolding assms(7) using assms(1-6) by (rule copyMRs_ok)

theorem copyMRs_copies_witness:
  "\<exists>s'. copyMRs 0x1400 NULL 0x2400 NULL 9 msg_state = Some (4, s') \<and> ctes s' = msg_ctes"
proof -
  obtain S R where "tcbs msg_state 0x1400 = Some S" "tcbs msg_state 0x2400 = Some R"
    by (simp add: msg_state_sel ipc_threads_def)
  moreover have "buffer_ok msg_state NULL" by (simp add: buffer_ok_def)
  ultimately show ?thesis
    using copyMRs_copies [OF msg_state_slots, of "0x1400" S "0x2400" R NULL NULL 9 4]
    by (auto simp: msg_state_sel)
qed

text \<open>C29: sending on an endpoint. Under the invariants of waiting and of slots, for a thread that
  is not itself queued anywhere, \<open>sendIPC\<close> returns and keeps the invariants. If a receiver waits,
  the first of the queue leaves it, gets the message or the fault of the sender with the badge and
  runs; a call then leaves the sender waiting for the reply, with a reply capability for it in the
  slot of the receiver, or stops it when it may not grant. If none waits, a blocking send queues
  the thread at the end with its badge, and another changes nothing.\<close>

theorem sendIPC_delivers:
  assumes "ipc_inv s rq wq" and "slots_ok s" and "eps s p \<noteq> None" and "tcbs s x \<noteq> None" and "x \<noteq> ksIdleThread s"
    and "x \<notin> waiting_to_run s rq" and "thread_wait s x = None"
    and "do_call \<and> (g \<or> gr) \<longrightarrow> call_ready s wq x p"
  shows "\<exists>s' rq' wq'. sendIPC blocking do_call badge g gr x p s = Some s' \<and> ipc_inv s' rq' wq' \<and>
    slots_ok s' \<and> sent s rq wq x p badge blocking do_call (g \<or> gr) s' rq' wq'"
  using assms by (rule sendIPC_ok)

lemma msg_state_caller:
  "tcbs msg_state 0x1400 \<noteq> None" "0x1400 \<noteq> ksIdleThread msg_state" "thread_wait msg_state 0x1400 = None"
  "0x1400 \<notin> waiting_to_run msg_state (\<lambda>_ _. [])"
  by (simp_all add: msg_state_sel ipc_threads_def thread_wait_def waiter_def wait_of_def waiting_to_run_def ready_def
      candidate_def msg_state_def ipc_state_def sched_state_sel)

theorem sendIPC_delivers_witness:
  "\<exists>s'. sendIPC True True 5 True False 0x1400 0x9000 msg_state = Some s' \<and>
     thread_type s' 0x2400 = Some ThreadState_Running \<and> thread_type s' 0x1400 = Some ThreadState_BlockedOnReply"
proof -
  have e: "eps msg_state 0x9000 = Some \<lparr>epQueue_head = 0x2400, epQueue_tail = 0x2400, ep_state = EPState_Recv\<rparr>"
    by (simp add: msg_state_sel ipc_state_def)
  have c: "call_ready msg_state ipc_queues 0x1400 0x9000"
    by (simp add: call_ready_def caps_of_def msg_state_sel msg_ctes_def ipc_queues_def TCB_PTR_CTE_PTR_def MASK_def
        BIT_def shiftl_def)
  from sendIPC_delivers [OF msg_state_inv msg_state_slots _ msg_state_caller(1,2,4,3), of "0x9000" True True False True 5]
    e c show ?thesis by (auto simp: sent_def ipc_queues_def)
qed

text \<open>C30: receiving on an endpoint. Under the same invariants \<open>receiveIPC\<close> returns and keeps them.
  A pending signal of the bound notification is taken first; otherwise the first sender of the
  queue is taken, its message or fault and its badge arrive, and it runs on, or waits for the reply
  (the receiver holding the reply capability, with the grant right of its endpoint capability), or
  is stopped; with no sender the thread waits at the end of the queue, or gets badge 0.\<close>

theorem receiveIPC_receives:
  assumes "ipc_inv s rq wq" and "slots_ok s" and "cap_get_capType c = 4" and "eps s (capEPPtr c) \<noteq> None"
    and "tcbs s t \<noteq> None" and "t \<noteq> ksIdleThread s" and "t \<notin> waiting_to_run s rq" and "thread_wait s t = None"
    and "reply_ready s wq t (capEPPtr c)"
  shows "\<exists>s' rq' wq'. receiveIPC t c isBlocking s = Some s' \<and> ipc_inv s' rq' wq' \<and> slots_ok s' \<and>
    taken s rq wq (capEPPtr c) t c isBlocking s' rq' wq'"
  using assms by (rule receiveIPC_ok)

theorem receiveIPC_receives_witness:
  "\<exists>s' rq'. receiveIPC 0x1400 (cap_endpoint_cap 0 True True True True 0xC000) True msg_state = Some s' \<and>
     arrived msg_state 0x6400 0x1400 1 s' \<and> waiting_to_run s' rq' = {0x6400}"
proof -
  let ?c = "cap_endpoint_cap 0 True True True True 0xC000"
  have e: "eps msg_state 0xC000 = Some \<lparr>epQueue_head = 0x6400, epQueue_tail = 0x7400, ep_state = EPState_Send\<rparr>"
    by (simp add: msg_state_sel ipc_state_def)
  have c: "cap_get_capType ?c = 4" "eps msg_state (capEPPtr ?c) \<noteq> None"
    "reply_ready msg_state ipc_queues 0x1400 (capEPPtr ?c)"
    using e by (simp_all add: reply_ready_def caps_of_def msg_state_sel msg_ctes_def ipc_queues_def TCB_PTR_CTE_PTR_def
        MASK_def BIT_def shiftl_def)
  have t: "tcbs msg_state 0x6400 = Some (waiter ThreadState_BlockedOnSend 0xC000 1 0x7400 0)"
    "signal_pending msg_state 0x1400 = None" "waiting_to_run msg_state (\<lambda>_ _. []) = {}"
    by (simp_all add: msg_state_sel ipc_threads_def signal_pending_def waiting_to_run_def ready_def waiter_def blank_tcb_def
      candidate_def msg_state_def ipc_state_def sched_state_sel)
  from receiveIPC_receives [OF msg_state_inv msg_state_slots c(1,2) msg_state_caller(1,2,4,3) c(3), of True]
    e t show ?thesis by (auto simp: taken_def ipc_queues_def waiter_def blank_tcb_def)
qed

end
