(* ===== verification/Deletion.thy ===== *)
theory Deletion
  imports IPC_Transfer
begin

text \<open>
  Deletion of capabilities and of the objects behind them: the general \<open>finaliseCap\<close> of
  \<^verbatim>\<open>src/object/objecttype.c\<close>, suspending and restarting threads (\<^verbatim>\<open>src/kernel/thread.c\<close>),
  the preemption point (\<^verbatim>\<open>src/model/preemption.c\<close>) and the loops of
  \<^verbatim>\<open>src/object/cnode.c\<close> that delete a slot, reduce zombies and revoke the children of a
  capability. Deletion and the reduction of zombies call each other; the depth of the calls and
  the rounds of the loops are bounded by fuel, and \<open>None\<close> is also the result of running out of it.
\<close>

section \<open>Suspending and restarting threads\<close>

definition suspend :: "ptr \<Rightarrow> kstate \<Rightarrow> kstate option" where
  "suspend target s =
     do { s \<leftarrow> cancelIPC target s;
          t \<leftarrow> tcbs s target;
          s \<leftarrow> (if tsType (tcbState t) = ThreadState_Running then updateRestartPC target s else Some s);
          s \<leftarrow> tcbSchedDequeue target s;
          setThreadState target ThreadState_Inactive s }"

definition restart :: "ptr \<Rightarrow> kstate \<Rightarrow> kstate option" where
  "restart target s =
     do { t \<leftarrow> tcbs s target;
          if isStopped t then
            do { s \<leftarrow> cancelIPC target s;
                 s \<leftarrow> setupReplyMaster target s;
                 s \<leftarrow> setThreadState target ThreadState_Restart s;
                 s \<leftarrow> tcbSchedEnqueue target s;
                 possibleSwitchTo target s }
          else Some s }"

definition Arch_prepareThreadDelete :: "ptr \<Rightarrow> kstate \<Rightarrow> kstate" where
  "Arch_prepareThreadDelete thread s = fpuRelease thread s"

section \<open>Finalising a capability\<close>

text \<open>What remains of the capability, and the capability to clean up after.\<close>

definition finaliseCap ::
    "cap_t \<Rightarrow> bool \<Rightarrow> bool \<Rightarrow> kstate \<Rightarrow> ((cap_t \<times> cap_t) \<times> kstate) option" where
  "finaliseCap c final exposed s =
     (if isArchCap c then Arch_finaliseCap c final s
      else case c of
        cap_endpoint_cap _ _ _ _ _ epptr \<Rightarrow>
          do { s \<leftarrow> (if final then cancelAllIPC epptr s else Some s);
               Some ((cap_null_cap, cap_null_cap), s) }
      | cap_notification_cap _ _ _ ntfn \<Rightarrow>
          do { s \<leftarrow> (if final then do { s \<leftarrow> unbindMaybeNotification ntfn s; cancelAllSignals ntfn s }
                     else Some s);
               Some ((cap_null_cap, cap_null_cap), s) }
      | cap_reply_cap _ _ _ \<Rightarrow> Some ((cap_null_cap, cap_null_cap), s)
      | cap_null_cap \<Rightarrow> Some ((cap_null_cap, cap_null_cap), s)
      | cap_domain_cap \<Rightarrow> Some ((cap_null_cap, cap_null_cap), s)
      | _ \<Rightarrow>
          if exposed then None
          else case c of
            cap_cnode_cap radix _ _ cnode \<Rightarrow>
              if final then Some ((Zombie_new (shiftl 1 radix) radix cnode, cap_null_cap), s)
              else Some ((cap_null_cap, cap_null_cap), s)
          | cap_thread_cap tcb \<Rightarrow>
              if final then
                do { let cte_ptr = TCB_PTR_CTE_PTR tcb tcbCTable;
                     s \<leftarrow> unbindNotification tcb s;
                     s \<leftarrow> suspend tcb s;
                     let s = Arch_prepareThreadDelete tcb s;
                     Some ((Zombie_new tcbCNodeEntries ZombieType_ZombieTCB cte_ptr, cap_null_cap), s) }
              else Some ((cap_null_cap, cap_null_cap), s)
          | cap_zombie_cap _ _ \<Rightarrow> Some ((c, cap_null_cap), s)
          | cap_irq_handler_cap irq \<Rightarrow>
              if final then do { s \<leftarrow> deletingIRQHandler irq s; Some ((cap_null_cap, c), s) }
              else Some ((cap_null_cap, cap_null_cap), s)
          | _ \<Rightarrow> Some ((cap_null_cap, cap_null_cap), s))"

definition capCyclicZombie :: "cap_t \<Rightarrow> ptr \<Rightarrow> bool" where
  "capCyclicZombie c slot \<longleftrightarrow> cap_get_capType c = 18 \<and> cap_zombie_cap_get_capZombiePtr c = slot"

section \<open>Preemption\<close>

text \<open>The interrupt controller (\<^verbatim>\<open>gic_v2.h\<close>): the values of the registers \<^verbatim>\<open>hi_pend\<close> and \<^verbatim>\<open>int_ack\<close> are
  part of the state, one for every read.\<close>

abbreviation (input) IRQ_NONE :: word_t where "IRQ_NONE \<equiv> 1023"
abbreviation (input) irqInvalid :: word_t where "irqInvalid \<equiv> 0xFFFF"

definition IRQ_MASK :: word_t where
  "IRQ_MASK = MASK 10"

definition IS_IRQ_VALID :: "word_t \<Rightarrow> bool" where
  "IS_IRQ_VALID x \<longleftrightarrow> x AND IRQ_MASK < 1020"

definition gic_read :: "kstate \<Rightarrow> word_t \<times> kstate" where
  "gic_read s = (gic_values s (gic_reads s), s\<lparr>gic_reads := gic_reads s + 1\<rparr>)"

definition isIRQPending :: "kstate \<Rightarrow> bool \<times> kstate" where
  "isIRQPending s = (let (hi_pend, s) = gic_read s in (IS_IRQ_VALID hi_pend, s))"

definition preemptionPoint :: "kstate \<Rightarrow> exception_t \<times> kstate" where
  "preemptionPoint s =
     (let s = s\<lparr>ksWorkUnitsCompleted := ksWorkUnitsCompleted s + 1\<rparr> in
      if ksWorkUnitsCompleted s \<ge> CONFIG_MAX_NUM_WORK_UNITS then
        let s = s\<lparr>ksWorkUnitsCompleted := 0\<rparr>; (pending, s) = isIRQPending s in
        if pending then (EXCEPTION_PREEMPTED, s) else (EXCEPTION_NONE, s)
      else (EXCEPTION_NONE, s))"

section \<open>Deleting a slot\<close>

text \<open>A slot finaliser returns the status, whether the slot can be emptied, and what to clean up
  after. \<open>delete_slot\<close> is \<open>cteDelete\<close> over a given finaliser.\<close>

type_synonym slot_finaliser = "ptr \<Rightarrow> bool \<Rightarrow> kstate \<Rightarrow> ((exception_t \<times> bool \<times> cap_t) \<times> kstate) option"

definition delete_slot :: "slot_finaliser \<Rightarrow> ptr \<Rightarrow> bool \<Rightarrow> kstate \<Rightarrow> (exception_t \<times> kstate) option" where
  "delete_slot finalise slot exposed s =
     do { ((status, success, cleanupInfo), s) \<leftarrow> finalise slot exposed s;
          if status \<noteq> EXCEPTION_NONE then Some (status, s)
          else if exposed \<or> success then
            do { s \<leftarrow> emptySlot slot cleanupInfo s; Some (EXCEPTION_NONE, s) }
          else Some (EXCEPTION_NONE, s) }"

definition reduceZombie :: "slot_finaliser \<Rightarrow> ptr \<Rightarrow> bool \<Rightarrow> kstate \<Rightarrow> (exception_t \<times> kstate) option" where
  "reduceZombie finalise slot immediate s =
     do { cte \<leftarrow> ctes s slot;
          assert_opt (cap_get_capType (cte_cap cte) = 18);
          let p = cap_zombie_cap_get_capZombiePtr (cte_cap cte);
          let n = cap_zombie_cap_get_capZombieNumber (cte_cap cte);
          let type = capZombieType (cte_cap cte);
          assert_opt (n > 0);
          if immediate then
            do { let endSlot = cte_index p (n - 1);
                 (status, s) \<leftarrow> delete_slot finalise endSlot False s;
                 if status \<noteq> EXCEPTION_NONE then Some (status, s)
                 else
                   do { cte \<leftarrow> ctes s slot;
                        case cte_cap cte of
                          cap_null_cap \<Rightarrow> Some (EXCEPTION_NONE, s)
                        | cap_zombie_cap _ _ \<Rightarrow>
                            do { let ptr2 = cap_zombie_cap_get_capZombiePtr (cte_cap cte);
                                 if p = ptr2 \<and> cap_zombie_cap_get_capZombieNumber (cte_cap cte) = n \<and>
                                    capZombieType (cte_cap cte) = type then
                                   do { endc \<leftarrow> ctes s endSlot;
                                        assert_opt (cte_cap endc = cap_null_cap);
                                        s \<leftarrow> cte_set_cap slot
                                               (cap_zombie_cap_set_capZombieNumber (cte_cap cte) (n - 1)) s;
                                        Some (EXCEPTION_NONE, s) }
                                 else
                                   do { assert_opt (ptr2 = slot \<and> p \<noteq> slot);
                                        Some (EXCEPTION_NONE, s) } }
                        | _ \<Rightarrow> None } }
          else
            do { assert_opt (p \<noteq> slot);
                 pc \<leftarrow> ctes s p;
                 assert_opt (cap_get_capType (cte_cap pc) = 18 \<longrightarrow>
                             p \<noteq> cap_zombie_cap_get_capZombiePtr (cte_cap pc));
                 s \<leftarrow> capSwapForDelete p slot s;
                 Some (EXCEPTION_NONE, s) } }"

text \<open>A round of the loop of \<open>finaliseSlot\<close>; \<open>finalise\<close> stands for the deletions made in it and for
  the rounds that follow. One unit of fuel pays for a round.\<close>

definition finalise_round :: "slot_finaliser \<Rightarrow> slot_finaliser" where
  "finalise_round finalise slot immediate s =
     do { cte \<leftarrow> ctes s slot;
          if cte_cap cte = cap_null_cap then Some ((EXCEPTION_NONE, True, cap_null_cap), s)
          else
            do { final \<leftarrow> isFinalCapability slot s;
                 ((remainder, cleanupInfo), s) \<leftarrow> finaliseCap (cte_cap cte) final False s;
                 removable \<leftarrow> capRemovable remainder slot;
                 if removable then Some ((EXCEPTION_NONE, True, cleanupInfo), s)
                 else
                   do { s \<leftarrow> cte_set_cap slot remainder s;
                        if \<not> immediate \<and> capCyclicZombie remainder slot then
                          Some ((EXCEPTION_NONE, False, cleanupInfo), s)
                        else
                          do { (status, s) \<leftarrow> reduceZombie finalise slot immediate s;
                               if status \<noteq> EXCEPTION_NONE then Some ((status, False, cap_null_cap), s)
                               else
                                 let (status, s) = preemptionPoint s in
                                 if status \<noteq> EXCEPTION_NONE then Some ((status, False, cap_null_cap), s)
                                 else finalise slot immediate s } } } }"

primrec finaliseSlot :: "nat \<Rightarrow> slot_finaliser" where
  "finaliseSlot 0 = (\<lambda>slot immediate s. None)"
| "finaliseSlot (Suc fuel) = finalise_round (finaliseSlot fuel)"

definition cteDelete :: "nat \<Rightarrow> ptr \<Rightarrow> bool \<Rightarrow> kstate \<Rightarrow> (exception_t \<times> kstate) option" where
  "cteDelete fuel = delete_slot (finaliseSlot fuel)"

primrec cteRevoke :: "nat \<Rightarrow> ptr \<Rightarrow> kstate \<Rightarrow> (exception_t \<times> kstate) option" where
  "cteRevoke 0 slot s = None"
| "cteRevoke (Suc fuel) slot s =
     do { cte \<leftarrow> ctes s slot;
          let nextPtr = mdbNext (cteMDBNode cte);
          if nextPtr = NULL then Some (EXCEPTION_NONE, s)
          else
            do { nextc \<leftarrow> ctes s nextPtr;
                 if isMDBParentOf cte nextc then
                   do { (status, s) \<leftarrow> cteDelete fuel nextPtr True s;
                        if status \<noteq> EXCEPTION_NONE then Some (status, s)
                        else
                          let (status, s) = preemptionPoint s in
                          if status \<noteq> EXCEPTION_NONE then Some (status, s)
                          else cteRevoke fuel slot s }
                 else Some (EXCEPTION_NONE, s) } }"

end
