(* ===== verification/Revocation.thy ===== *)
theory Revocation
  imports Deletion
begin

text \<open>
  What deletion and revocation achieve: the fuel of the loops is immaterial once it suffices, the
  general \<open>finaliseCap\<close> agrees with the one used by immediate deletion, a deletion that succeeds
  leaves an empty slot, and revoking a capability whose children each go in one step returns and
  removes exactly its children from the derivation list, or those up to the first preemption point
  that reports an interrupt.
\<close>

section \<open>Fuel\<close>

text \<open>A computation extends another when it returns the same wherever the other returns.\<close>

definition agrees :: "'a option \<Rightarrow> 'a option \<Rightarrow> bool" where
  "agrees a b \<longleftrightarrow> (\<forall>r. a = Some r \<longrightarrow> b = Some r)"

lemma agreesD: "agrees a b \<Longrightarrow> a = Some r \<Longrightarrow> b = Some r"
  by (simp add: agrees_def)

lemma agrees_refl: "agrees a a"
  by (simp add: agrees_def)

lemma agrees_None: "agrees None b"
  by (simp add: agrees_def)

lemma agrees_bind: "agrees a b \<Longrightarrow> (\<And>x. agrees (f x) (g x)) \<Longrightarrow> agrees (Option.bind a f) (Option.bind b g)"
  by (cases a) (auto simp: agrees_def)

lemma agrees_if: "agrees a a' \<Longrightarrow> agrees b b' \<Longrightarrow> agrees (if c then a else b) (if c then a' else b')"
  by simp

lemma agrees_let: "(\<And>x. agrees (f x) (g x)) \<Longrightarrow> agrees (Let v f) (Let v g)"
  by (simp add: Let_def)

lemma agrees_pair: "(\<And>x y. agrees (f x y) (g x y)) \<Longrightarrow> agrees (case p of (x, y) \<Rightarrow> f x y) (case p of (x, y) \<Rightarrow> g x y)"
  by (cases p) simp

lemma agrees_pair_arg:
  "(\<And>x y. agrees (f x y z) (g x y z)) \<Longrightarrow> agrees ((case p of (x, y) \<Rightarrow> f x y) z) ((case p of (x, y) \<Rightarrow> g x y) z)"
  by (cases p) simp

lemmas agrees_rules = agrees_refl agrees_bind agrees_if agrees_let agrees_pair agrees_pair_arg

definition extends :: "slot_finaliser \<Rightarrow> slot_finaliser \<Rightarrow> bool" where
  "extends f g \<longleftrightarrow> (\<forall>slot b s. agrees (g slot b s) (f slot b s))"

lemma delete_slot_extends:
  assumes "extends f g"
  shows "agrees (delete_slot g slot e s) (delete_slot f slot e s)"
proof -
  have "agrees (g slot b s) (f slot b s)" for slot b s using assms by (simp add: extends_def)
  then show ?thesis unfolding delete_slot_def by - (rule agrees_rules | assumption)+
qed

lemma reduceZombie_extends:
  assumes "extends f g"
  shows "agrees (reduceZombie g slot i s) (reduceZombie f slot i s)"
  unfolding reduceZombie_def by (rule delete_slot_extends [OF assms] agrees_rules)+

lemma finalise_round_extends:
  assumes "extends f g"
  shows "extends (finalise_round f) (finalise_round g)"
proof -
  have "agrees (g slot b s) (f slot b s)" for slot b s using assms by (simp add: extends_def)
  note step = this reduceZombie_extends [OF assms]
  show ?thesis unfolding extends_def finalise_round_def by (intro allI) (rule step agrees_rules)+
qed

lemma finaliseSlot_extends: "extends (finaliseSlot (Suc n)) (finaliseSlot n)"
proof (induction n)
  case 0
  show ?case by (simp add: extends_def agrees_None)
next
  case (Suc n)
  then show ?case unfolding finaliseSlot.simps(2) [of "Suc n"] by (metis finaliseSlot.simps(2) finalise_round_extends)
qed

lemma finaliseSlot_more: "n \<le> m \<Longrightarrow> agrees (finaliseSlot n slot b s) (finaliseSlot m slot b s)"
proof (induction m)
  case 0
  then show ?case by (simp add: agrees_refl)
next
  case (Suc m)
  then show ?case using finaliseSlot_extends [of m]
    by (cases "n = Suc m") (simp_all add: agrees_refl extends_def agrees_def del: finaliseSlot.simps)
qed

lemma cteDelete_fuel:
  assumes "cteDelete n slot e s = Some r" and "n \<le> m"
  shows "cteDelete m slot e s = Some r"
proof -
  have "extends (finaliseSlot m) (finaliseSlot n)" using finaliseSlot_more [OF assms(2)] by (simp add: extends_def)
  from agreesD [OF delete_slot_extends [OF this]] assms(1) show ?thesis by (simp only: cteDelete_def)
qed

section \<open>Finalising, immediately or not\<close>

lemma finaliseCap_immediate: "finaliseCap c final True s = finaliseCap_exposed c final s"
  by (cases c) (simp_all add: finaliseCap_def finaliseCap_exposed_def)

section \<open>Capabilities that go in one step\<close>

text \<open>Deleting a capability takes one step when finalising it leaves nothing behind (no zombie, no
  interrupt handler to unlink) and wakes no thread. Copies that are not the \<open>final\<close> one always do;
  so do untyped memory, reply capabilities, mapped and unmapped frames, page tables, and the last capability of
  an endpoint or a notification nobody waits on.\<close>

definition one_step :: "kstate \<Rightarrow> bool \<Rightarrow> cap_t \<Rightarrow> bool" where
  "one_step s final c \<longleftrightarrow>
     (case c of
        cap_zombie_cap _ _ \<Rightarrow> False
      | cap_frame_cap asid _ _ _ _ _ \<Rightarrow> asid < BIT 16
      | cap_endpoint_cap _ _ _ _ _ ep \<Rightarrow>
          final \<longrightarrow> (case eps s ep of Some e \<Rightarrow> ep_state e = EPState_Idle | None \<Rightarrow> False)
      | cap_notification_cap _ _ _ ntfn \<Rightarrow>
          final \<longrightarrow> (case ntfns s ntfn of
                       Some n \<Rightarrow> ntfn_state n \<noteq> NtfnState_Waiting \<and> ntfnBoundTCB n = NULL | None \<Rightarrow> False)
      | cap_page_table_cap asid base mapped _ \<Rightarrow>
          final \<and> mapped \<longrightarrow> findMapForASID asid s \<noteq> Some (asid_map_vspace base)
      | cap_vspace_cap _ _ mapped \<Rightarrow> \<not> (final \<and> mapped)
      | cap_asid_pool_cap _ _ \<Rightarrow> \<not> final
      | cap_thread_cap _ \<Rightarrow> \<not> final
      | cap_cnode_cap _ _ _ _ \<Rightarrow> \<not> final
      | cap_irq_handler_cap _ \<Rightarrow> \<not> final
      | _ \<Rightarrow> True)"

text \<open>The page tables are complete, and no page table entry lies at the null pointer.\<close>

definition tables_ok :: "kstate \<Rightarrow> bool" where
  "tables_ok s \<longleftrightarrow> vspaces_wf s \<and> ptes s NULL = None"

lemma one_step_cong:
  assumes "eps s' = eps s" and "ntfns s' = ntfns s" and "asid_pools s' = asid_pools s"
    and "armKSASIDTable s' = armKSASIDTable s"
  shows "one_step s' = one_step s"
proof (intro ext)
  fix final c
  show "one_step s' final c = one_step s final c"
    by (cases c) (simp_all add: one_step_def assms findMapForASID_cong [OF assms(3,4)])
qed

lemma tables_ok_cong:
  assumes "ptes s' = ptes s" and "asid_pools s' = asid_pools s" and "armKSASIDTable s' = armKSASIDTable s"
    and "pptrBaseOffset s' = pptrBaseOffset s"
  shows "tables_ok s' = tables_ok s"
  by (simp add: tables_ok_def vspaces_wf_def pt_live_def paddr_to_pptr_def assms findMapForASID_cong [OF assms(2,3)])

lemma tables_ok_invalidate:
  assumes "tables_ok s" and "slot \<noteq> NULL"
  shows "tables_ok (s\<lparr>ptes := (ptes s)(slot \<mapsto> pte_pte_invalid), machine_log := l, current_lookup_fault := f\<rparr>)"
proof -
  let ?s = "s\<lparr>ptes := (ptes s)(slot \<mapsto> pte_pte_invalid), machine_log := l, current_lookup_fault := f\<rparr>"
  have live: "pt_live s pt \<Longrightarrow> pt_live ?s pt" for pt by (simp add: pt_live_def)
  have m: "findMapForASID asid ?s = findMapForASID asid s" for asid by (rule findMapForASID_cong) simp_all
  from assms show ?thesis unfolding tables_ok_def vspaces_wf_def m
    by (auto simp: paddr_to_pptr_def intro!: live split: if_splits)
qed

text \<open>The search for the entry of a page table ends at an entry that exists.\<close>

lemma unmapPageTable_loop_ends:
  assumes wf: "vspaces_wf s"
  shows "pt_live s pt \<Longrightarrow> \<exists>r. unmapPageTable_loop n i q pt target v s = Some r \<and>
    (\<forall>q' pt'. r = Some (q', pt') \<longrightarrow> q' = q \<and> pt' = pt \<or> ptes s q' \<noteq> None)"
proof (induction n arbitrary: i q pt)
  case 0
  then show ?case by simp
next
  case (Suc n)
  let ?q = "pt_entry pt v (UPT_LEVEL_SHIFT i)"
  from pt_entry_live [OF Suc.prems] obtain pte where pte: "ptes s ?q = Some pte" by blast
  show ?case
  proof (cases "pt \<noteq> target \<and> pte_pte_table_ptr_get_present pte")
    case True
    then obtain b where b: "pte = pte_pte_table b" by (cases pte) (simp_all add: pte_pte_table_ptr_get_present_def)
    with wf pte have "pt_live s (paddr_to_pptr (pt_base_address pte) s)" by (auto simp: vspaces_wf_def)
    from Suc.IH [OF this, of "Suc i" ?q] pte True show ?thesis by (auto simp: Let_def)
  next
    case False
    with pte show ?thesis by (auto simp: Let_def)
  qed
qed

lemma unmapPageTable_run:
  assumes ok: "tables_ok s" and not_root: "findMapForASID asid s \<noteq> Some (asid_map_vspace target)"
  shows "\<exists>pt l f. unmapPageTable asid v target s =
      Some (s\<lparr>ptes := pt, machine_log := l, current_lookup_fault := f\<rparr>) \<and>
    tables_ok (s\<lparr>ptes := pt, machine_log := l, current_lookup_fault := f\<rparr>)"
proof -
  from ok have wf: "vspaces_wf s" by (simp add: tables_ok_def)
  have same: "tables_ok (s\<lparr>ptes := ptes s, machine_log := machine_log s, current_lookup_fault := f\<rparr>)" for f
    using ok tables_ok_cong [of "s\<lparr>ptes := ptes s, machine_log := machine_log s, current_lookup_fault := f\<rparr>" s] by simp
  show ?thesis
  proof (rule findVSpaceForASID_cases [OF wf, of asid])
    assume "findVSpaceForASID asid s = Some (None, s\<lparr>current_lookup_fault := lookup_fault_invalid_root\<rparr>)"
    then show ?thesis using same [of lookup_fault_invalid_root]
      by (intro exI [of _ "ptes s"] exI [of _ "machine_log s"] exI [of _ lookup_fault_invalid_root])
        (simp add: unmapPageTable_def)
  next
    fix r assume r: "findVSpaceForASID asid s = Some (Some r, s)" "findMapForASID asid s = Some (asid_map_vspace r)"
      "pt_live s r"
    with not_root have ne: "r \<noteq> target" by simp
    from unmapPageTable_loop_ends [OF wf r(3), of 3 0 NULL target v] obtain x where
      x: "unmapPageTable_loop 3 0 NULL r target v s = Some x"
      "\<forall>q' pt'. x = Some (q', pt') \<longrightarrow> q' = NULL \<and> pt' = r \<or> ptes s q' \<noteq> None" by blast
    show ?thesis
    proof (cases "\<exists>q. x = Some (q, target)")
      case True
      then obtain q where q: "x = Some (q, target)" by blast
      with x(2) ne have "ptes s q \<noteq> None" by auto
      with ok have "q \<noteq> NULL" by (auto simp: tables_ok_def)
      with r(1) x(1) q tables_ok_invalidate [OF ok this, where f = "current_lookup_fault s"] show ?thesis
        by (intro exI [of _ "(ptes s)(q \<mapsto> pte_pte_invalid)"]
              exI [of _ "machine_log s @ [cleanByVA_PoU q, invalidateTranslationASID asid]"]
              exI [of _ "current_lookup_fault s"])
          (simp add: unmapPageTable_def do_machine_op_def invalidateTLBByASID_def Let_def)
    next
      case False
      with r(1) x(1) same [of "current_lookup_fault s"] show ?thesis
        by (intro exI [of _ "ptes s"] exI [of _ "machine_log s"] exI [of _ "current_lookup_fault s"])
          (auto simp: unmapPageTable_def split: option.splits)
    qed
  qed
qed

lemma unmapPage_run:
  assumes ok: "tables_ok s" and asid: "asid < BIT 16"
  shows "\<exists>pt l f. unmapPage sz asid v p s = Some (s\<lparr>ptes := pt, machine_log := l, current_lookup_fault := f\<rparr>) \<and>
    tables_ok (s\<lparr>ptes := pt, machine_log := l, current_lookup_fault := f\<rparr>)"
proof -
  from ok have wf: "vspaces_wf s" by (simp add: tables_ok_def)
  have same: "tables_ok (s\<lparr>ptes := ptes s, machine_log := machine_log s, current_lookup_fault := f\<rparr>)" for f
    using ok tables_ok_cong [of "s\<lparr>ptes := ptes s, machine_log := machine_log s, current_lookup_fault := f\<rparr>" s] by simp
  show ?thesis
  proof (rule findVSpaceForASID_cases [OF wf, of asid])
    assume "findVSpaceForASID asid s = Some (None, s\<lparr>current_lookup_fault := lookup_fault_invalid_root\<rparr>)"
    then show ?thesis using same [of lookup_fault_invalid_root]
      by (intro exI [of _ "ptes s"] exI [of _ "machine_log s"] exI [of _ lookup_fault_invalid_root])
        (simp add: unmapPage_def)
  next
    fix r assume r: "findMapForASID asid s = Some (asid_map_vspace r)"
    let ?m = "translation s r v = Some (pptr_to_paddr p s, pageBitsForSize sz)"
    from unmapPage_result [OF wf asid r, of sz v p] obtain s' slot bits where s': "unmapPage sz asid v p s = Some s'"
      "lookupPTSlot r v s = Some (slot, bits)"
      "s' = (if ?m then s\<lparr>ptes := (ptes s)(slot \<mapsto> pte_pte_invalid),
          machine_log := machine_log s @ [cleanByVA_PoU slot,
            invalidateTranslationSingle (shiftl asid 48 OR shiftr v seL4_PageBits)]\<rparr> else s)" by blast
    show ?thesis
    proof (cases ?m)
      case True
      with s'(2) have "ptes s slot \<noteq> None" by (auto simp: translation_def bind_eq_Some_conv)
      with ok have "slot \<noteq> NULL" by (auto simp: tables_ok_def)
      with s'(1,3) True tables_ok_invalidate [OF ok this, where f = "current_lookup_fault s"] show ?thesis
        by (intro exI [of _ "(ptes s)(slot \<mapsto> pte_pte_invalid)"] exI [of _ "machine_log s @ [cleanByVA_PoU slot,
            invalidateTranslationSingle (shiftl asid 48 OR shiftr v seL4_PageBits)]"]
            exI [of _ "current_lookup_fault s"]) simp
    next
      case False
      with s'(1,3) same [of "current_lookup_fault s"] show ?thesis
        by (intro exI [of _ "ptes s"] exI [of _ "machine_log s"] exI [of _ "current_lookup_fault s"]) simp
    qed
  qed
qed

lemma one_step_finalise:
  assumes ok: "tables_ok s" and q: "one_step s final c"
  shows "\<exists>pt l f. finaliseCap c final False s =
      Some ((cap_null_cap, cap_null_cap), s\<lparr>ptes := pt, machine_log := l, current_lookup_fault := f\<rparr>) \<and>
    tables_ok (s\<lparr>ptes := pt, machine_log := l, current_lookup_fault := f\<rparr>)"
proof -
  define one where "one r \<longleftrightarrow> (\<exists>pt l f. r =
      Some ((cap_null_cap, cap_null_cap), s\<lparr>ptes := pt, machine_log := l, current_lookup_fault := f\<rparr>) \<and>
    tables_ok (s\<lparr>ptes := pt, machine_log := l, current_lookup_fault := f\<rparr>))" for r
  have same: "one (Some ((cap_null_cap, cap_null_cap), s))"
    unfolding one_def
    using ok by (intro exI [of _ "ptes s"] exI [of _ "machine_log s"] exI [of _ "current_lookup_fault s"]) simp
  have step: "one (do { s \<leftarrow> x; Some ((cap_null_cap, cap_null_cap), s) })"
    if "\<exists>pt l f. x = Some (s\<lparr>ptes := pt, machine_log := l, current_lookup_fault := f\<rparr>) \<and>
      tables_ok (s\<lparr>ptes := pt, machine_log := l, current_lookup_fault := f\<rparr>)" for x
  proof -
    from that obtain pt l f where "x = Some (s\<lparr>ptes := pt, machine_log := l, current_lookup_fault := f\<rparr>)"
      "tables_ok (s\<lparr>ptes := pt, machine_log := l, current_lookup_fault := f\<rparr>)" by blast
    then show ?thesis unfolding one_def by (intro exI [of _ pt] exI [of _ l] exI [of _ f]) simp
  qed
  have "one (finaliseCap c final False s)"
  proof (cases c)
    case (cap_frame_cap asid base sz addr rts dev)
    with q have "asid < BIT 16" by (simp add: one_step_def)
    from step [OF unmapPage_run [OF ok this, of sz addr base]] same cap_frame_cap show ?thesis
      by (simp add: finaliseCap_def isArchCap_def Arch_finaliseCap_def)
  next
    case (cap_page_table_cap asid base mapped addr)
    with q have "final \<and> mapped \<longrightarrow> findMapForASID asid s \<noteq> Some (asid_map_vspace base)" by (simp add: one_step_def)
    with step [OF unmapPageTable_run [OF ok, of asid base addr]] same cap_page_table_cap show ?thesis
      by (auto simp: finaliseCap_def isArchCap_def Arch_finaliseCap_def)
  qed (use q same in \<open>auto simp: one_step_def finaliseCap_def isArchCap_def Arch_finaliseCap_def cancelAllIPC_def
         cancelAllSignals_def unbindMaybeNotification_def split: option.splits\<close>)
  then show ?thesis by (simp add: one_def)
qed

section \<open>Preemption\<close>

text \<open>What the preemption point looks at, and how a sequence of \<open>n\<close> preemption points ends: the
  status of the last one reached and how many were reached.\<close>

definition preemption_view :: "kstate \<Rightarrow> word_t \<times> nat \<times> (nat \<Rightarrow> word_t)" where
  "preemption_view s = (ksWorkUnitsCompleted s, gic_reads s, gic_values s)"

primrec preemption_run :: "nat \<Rightarrow> kstate \<Rightarrow> exception_t \<times> nat" where
  "preemption_run 0 s = (EXCEPTION_NONE, 0)"
| "preemption_run (Suc n) s =
     (case preemptionPoint s of (st, s') \<Rightarrow>
        if st \<noteq> EXCEPTION_NONE then (st, 1)
        else (case preemption_run n s' of (st, k) \<Rightarrow> (st, Suc k)))"

lemma preemptionPoint_frame:
  assumes "preemptionPoint s = (st, s')"
  shows "\<exists>w g. s' = s\<lparr>ksWorkUnitsCompleted := w, gic_reads := g\<rparr>"
    and "st = EXCEPTION_NONE \<or> st = EXCEPTION_PREEMPTED"
proof -
  have "s' = s\<lparr>ksWorkUnitsCompleted := ksWorkUnitsCompleted s', gic_reads := gic_reads s'\<rparr>"
    using assms by (auto simp: preemptionPoint_def isIRQPending_def gic_read_def Let_def split: if_splits)
  then show "\<exists>w g. s' = s\<lparr>ksWorkUnitsCompleted := w, gic_reads := g\<rparr>" by blast
  show "st = EXCEPTION_NONE \<or> st = EXCEPTION_PREEMPTED"
    using assms by (auto simp: preemptionPoint_def isIRQPending_def gic_read_def Let_def split: if_splits)
qed

lemma preemptionPoint_view:
  assumes "preemption_view t = preemption_view s" and "preemptionPoint t = (st, t')"
  shows "\<exists>s'. preemptionPoint s = (st, s') \<and> preemption_view t' = preemption_view s'"
  using assms
  by (auto simp: preemption_view_def preemptionPoint_def isIRQPending_def gic_read_def Let_def split: if_splits)

lemma preemption_run_view: "preemption_view t = preemption_view s \<Longrightarrow> preemption_run n t = preemption_run n s"
proof (induction n arbitrary: s t)
  case (Suc n)
  obtain st t' where t: "preemptionPoint t = (st, t')" by fastforce
  from preemptionPoint_view [OF Suc.prems t] obtain s' where
    "preemptionPoint s = (st, s')" "preemption_view t' = preemption_view s'" by blast
  with t Suc.IH [of t' s'] show ?case by simp
qed simp

lemma preemption_run_bound:
  "preemption_run n s = (st, k) \<Longrightarrow>
    k \<le> n \<and> (if st = EXCEPTION_NONE then k = n else st = EXCEPTION_PREEMPTED \<and> 0 < k)"
proof (induction n arbitrary: s st k)
  case (Suc n)
  obtain st1 s1 where p: "preemptionPoint s = (st1, s1)" by fastforce
  obtain st2 k2 where r: "preemption_run n s1 = (st2, k2)" by fastforce
  from Suc.IH [OF r] Suc.prems p r preemptionPoint_frame(2) [OF p] show ?case by (auto split: if_splits)
qed simp

text \<open>Without a pending interrupt nothing is preempted.\<close>

lemma preemption_run_none:
  "\<forall>i. \<not> IS_IRQ_VALID (gic_values s i) \<Longrightarrow> preemption_run n s = (EXCEPTION_NONE, n)"
proof (induction n arbitrary: s)
  case (Suc n)
  obtain st s1 where p: "preemptionPoint s = (st, s1)" by fastforce
  then have "st = EXCEPTION_NONE"
    using Suc.prems by (auto simp: preemptionPoint_def isIRQPending_def gic_read_def Let_def split: if_splits)
  moreover have "gic_values s1 = gic_values s" using preemptionPoint_frame(1) [OF p] by auto
  ultimately show ?case using Suc.IH [of s1] Suc.prems p by simp
qed simp

section \<open>Revoking\<close>

text \<open>The slots that follow a parent in the list, as long as they are its children.\<close>

definition child_of :: "kstate \<Rightarrow> ptr \<Rightarrow> ptr \<Rightarrow> bool" where
  "child_of s slot p \<longleftrightarrow>
     (case (ctes s slot, ctes s p) of (Some a, Some b) \<Rightarrow> isMDBParentOf a b | _ \<Rightarrow> False)"

text \<open>Each child goes in one step when its turn comes. It is then the first one after the parent, so
  it is the last reference to its object when neither the parent nor its successor refers to the
  object.\<close>

definition same_object :: "kstate \<Rightarrow> ptr \<Rightarrow> ptr \<Rightarrow> bool" where
  "same_object s p q \<longleftrightarrow>
     (case (caps_of s p, caps_of s q) of (Some c, Some d) \<Rightarrow> sameObjectAs c d | _ \<Rightarrow> False)"

fun one_step_children :: "kstate \<Rightarrow> ptr \<Rightarrow> ptr list \<Rightarrow> bool" where
  "one_step_children s slot [] = True"
| "one_step_children s slot (p # ps) =
     (child_of s slot p \<longrightarrow>
        (case caps_of s p of
           Some c \<Rightarrow> one_step s (\<not> same_object s slot p \<and> (ps \<noteq> [] \<longrightarrow> \<not> same_object s p (hd ps))) c
         | None \<Rightarrow> False) \<and>
        one_step_children s slot ps)"

lemma one_step_children_cong:
  assumes "one_step s' = one_step s" and "caps_of s' slot = caps_of s slot"
  shows "(\<And>q. q \<in> set ps \<Longrightarrow> caps_of s' q = caps_of s q \<and> child_of s' slot q = child_of s slot q) \<Longrightarrow>
    one_step_children s' slot ps = one_step_children s slot ps"
proof (induction ps)
  case (Cons p ps)
  then have "same_object s' slot p = same_object s slot p"
    "ps \<noteq> [] \<longrightarrow> same_object s' p (hd ps) = same_object s p (hd ps)"
    using assms(2) by (auto simp: same_object_def)
  with Cons assms(1) show ?case by (auto split: option.splits)
qed simp

lemma sameRegionAs_null [simp]: "\<not> sameRegionAs c cap_null_cap"
  by (cases c) (simp_all add: sameRegionAs_def cap_get_capIsPhysical_def Arch_isIRQControlDescendant_def isArchCap_def
      cap_get_archCapIsPhysical_def)

lemma child_not_null:
  assumes "isMDBParentOf a b"
  shows "cte_cap b \<noteq> cap_null_cap"
proof -
  from assms have "sameRegionAs (cte_cap a) (cte_cap b)" unfolding isMDBParentOf_def by (metis (full_types))
  then show ?thesis by auto
qed

text \<open>A child that is emptied hands its first-badged mark to its successor, and that does not change
  whose child the successor is.\<close>

lemma child_mark:
  assumes "isMDBParentOf a b" and "cte_cap a' = cte_cap a" "mdbRevocable (cteMDBNode a') = mdbRevocable (cteMDBNode a)"
    and "cte_cap d' = cte_cap d"
    and "mdbFirstBadged (cteMDBNode d') = (mdbFirstBadged (cteMDBNode d) \<or> x \<and> mdbFirstBadged (cteMDBNode b))"
  shows "isMDBParentOf a' d' = isMDBParentOf a d"
proof (cases "mdbFirstBadged (cteMDBNode b)")
  case True
  with assms(1) have "\<not> (\<exists>i t. cte_cap a = cap_sgi_signal_cap i t)"
    "\<forall>bd g h x y p. cte_cap a = cap_endpoint_cap bd g h x y p \<longrightarrow> bd = 0"
    "\<forall>bd x y p. cte_cap a = cap_notification_cap bd x y p \<longrightarrow> bd = 0"
    by (auto simp: isMDBParentOf_def Arch_isMDBParentOf_def split: if_splits)
  with assms(2-4) show ?thesis by (cases "cte_cap a") (simp_all add: isMDBParentOf_def Arch_isMDBParentOf_def)
next
  case False
  with assms(2-5) show ?thesis by (cases "cte_cap a") (simp_all add: isMDBParentOf_def)
qed

lemma mdb_cong:
  assumes "ctes s' = ctes s"
  shows "mdb_wf s' = mdb_wf s" and "mdb_list s' xs = mdb_list s xs" and "caps_of s' = caps_of s"
proof -
  have "mdb_next s' = mdb_next s" "mdb_prev s' = mdb_prev s" by (simp_all add: link_of_def assms fun_eq_iff)
  then show "mdb_wf s' = mdb_wf s" "mdb_list s' xs = mdb_list s xs" "caps_of s' = caps_of s"
    by (simp_all only: mdb_wf_def assms) (simp add: caps_of_def assms fun_eq_iff)
qed

text \<open>Deleting the first child of a capability.\<close>

lemma delete_child:
  assumes wf: "mdb_wf s" and l: "mdb_list s (ys @ slot # p # zs)" "set (ys @ slot # p # zs) \<subseteq> dom (ctes s)"
    and a: "ctes s slot = Some a" and b: "ctes s p = Some b" "isMDBParentOf a b" and tb: "tables_ok s"
    and q: "one_step s (\<not> same_object s slot p \<and> (zs \<noteq> [] \<longrightarrow> \<not> same_object s p (hd zs))) (cte_cap b)"
  shows "\<exists>s' pt lg lf. cteDelete (Suc n) p True s = Some (EXCEPTION_NONE, s') \<and>
    s' = s\<lparr>ctes := heap_emptied (ctes s) p (cteMDBNode b), ptes := pt, machine_log := lg, current_lookup_fault := lf\<rparr> \<and>
    tables_ok s' \<and> mdb_wf s' \<and> mdb_list s' (ys @ slot # zs) \<and> caps_of s' = (caps_of s)(p \<mapsto> cap_null_cap)"
proof -
  have nn: "cte_cap b \<noteq> cap_null_cap" using child_not_null [OF b(2)] .
  have l': "mdb_list s ((ys @ [slot]) @ p # zs)" using l(1) by simp
  note links = dlist_link_facts [OF l']
  have pv: "mdbPrev (cteMDBNode b) = slot" "slot \<noteq> NULL" "mdbNext (cteMDBNode b) = first_or NULL zs"
    using links(1,2) b(1) l(1) by (simp_all add: link_of_def dlist_def)
  let ?final = "\<not> same_object s slot p \<and> (zs \<noteq> [] \<longrightarrow> \<not> same_object s p (hd zs))"
  have fin: "isFinalCapability p s = Some ?final"
  proof (cases zs)
    case Nil
    with b(1) a pv show ?thesis by (simp add: isFinalCapability_def same_object_def caps_of_def)
  next
    case (Cons z zs')
    with l(2) obtain d where "ctes s z = Some d" by auto
    moreover have "z \<noteq> NULL" using links(8) Cons by auto
    ultimately show ?thesis using b(1) a pv Cons by (auto simp: isFinalCapability_def same_object_def caps_of_def)
  qed
  from one_step_finalise [OF tb q] obtain pt lg lf where
    f: "finaliseCap (cte_cap b) ?final False s =
      Some ((cap_null_cap, cap_null_cap), s\<lparr>ptes := pt, machine_log := lg, current_lookup_fault := lf\<rparr>)"
    "tables_ok (s\<lparr>ptes := pt, machine_log := lg, current_lookup_fault := lf\<rparr>)" by blast
  let ?s1 = "s\<lparr>ptes := pt, machine_log := lg, current_lookup_fault := lf\<rparr>"
  have c1: "ctes ?s1 = ctes s" by simp
  note m1 = mdb_cong [OF c1]
  have "mdb_wf ?s1" "ctes ?s1 p = Some b" "mdb_list ?s1 ((ys @ [slot]) @ p # zs)"
    "set ((ys @ [slot]) @ p # zs) \<subseteq> dom (ctes ?s1)" using wf b(1) l' l(2) m1 by auto
  note h = this
  from emptySlot_list [OF h(1,2) nn h(3,4), of cap_null_cap] obtain s' where
    s': "emptySlot p cap_null_cap ?s1 = Some s'" "mdb_wf s'" "mdb_list s' (ys @ slot # zs)"
      "caps_of s' = (caps_of s)(p \<mapsto> cap_null_cap)" using m1(3) by auto
  have s'_eq: "s' = s\<lparr>ctes := heap_emptied (ctes s) p (cteMDBNode b), ptes := pt, machine_log := lg,
      current_lookup_fault := lf\<rparr>"
    using emptySlot_run [OF h(1,2) nn, of cap_null_cap] s'(1) by (simp add: postCapDeletion_def isArchCap_def)
  have "cteDelete (Suc n) p True s = Some (EXCEPTION_NONE, s')"
    using b(1) nn fin f(1) s'(1) by (simp add: cteDelete_def delete_slot_def finalise_round_def capRemovable_def)
  moreover have "tables_ok s'" using f(2) by (subst tables_ok_cong [of _ ?s1]) (simp_all add: s'_eq)
  ultimately show ?thesis using s' s'_eq by blast
qed

text \<open>Everything that revoking leaves alone: all but the slots, the page tables, the hardware and the
  counter of the preemption point.\<close>

definition revoke_rest :: "kstate \<Rightarrow> kstate" where
  "revoke_rest s = s\<lparr>ctes := Map.empty, ptes := Map.empty, machine_log := [],
     current_lookup_fault := lookup_fault_invalid_root, ksWorkUnitsCompleted := 0, gic_reads := 0\<rparr>"

text \<open>One round of the loop: the first child goes, and the preemption point is reached.\<close>

lemma cteRevoke_round:
  assumes wf: "mdb_wf s" and l: "mdb_list s (ys @ slot # p # ps)" "set (ys @ slot # p # ps) \<subseteq> dom (ctes s)"
    and a: "ctes s slot = Some a" and tb: "tables_ok s" and q: "one_step_children s slot (p # ps)"
    and ch: "child_of s slot p" and pp: "preemptionPoint s = (st, t)"
  shows "\<exists>s2 a2. cteRevoke (Suc (Suc n)) slot s =
      (if st \<noteq> EXCEPTION_NONE then Some (st, s2) else cteRevoke (Suc n) slot s2) \<and>
    mdb_wf s2 \<and> mdb_list s2 (ys @ slot # ps) \<and> set (ys @ slot # ps) \<subseteq> dom (ctes s2) \<and>
    ctes s2 slot = Some a2 \<and> tables_ok s2 \<and> one_step_children s2 slot ps \<and>
    (\<forall>r \<in> set ps. child_of s2 slot r = child_of s slot r) \<and>
    caps_of s2 = (caps_of s)(p \<mapsto> cap_null_cap) \<and> revoke_rest s2 = revoke_rest s \<and>
    preemption_view s2 = preemption_view t"
proof -
  from l(2) obtain b where b: "ctes s p = Some b" by auto
  with a ch have par: "isMDBParentOf a b" by (simp add: child_of_def)
  have cb: "caps_of s p = Some (cte_cap b)" using b by (simp add: caps_of_def)
  note f = dlist_link_facts [OF l(1)]
  have nxt: "mdbNext (cteMDBNode a) = p" "p \<noteq> NULL" using f a by (auto simp: link_of_def)
  have pn: "p \<noteq> slot" "p \<notin> set ps" using l(1) by (auto simp: dlist_def)
  from q ch cb have "one_step s (\<not> same_object s slot p \<and> (ps \<noteq> [] \<longrightarrow> \<not> same_object s p (hd ps))) (cte_cap b)" by simp
  from delete_child [OF wf l a b par tb this, of n] obtain s1 pt lg lf where
    s1: "cteDelete (Suc n) p True s = Some (EXCEPTION_NONE, s1)" "tables_ok s1" "mdb_wf s1"
      "mdb_list s1 (ys @ slot # ps)" "caps_of s1 = (caps_of s)(p \<mapsto> cap_null_cap)"
    and s1_eq: "s1 = s\<lparr>ctes := heap_emptied (ctes s) p (cteMDBNode b), ptes := pt, machine_log := lg,
      current_lookup_fault := lf\<rparr>" by blast
  have "preemption_view s = preemption_view s1" by (simp add: s1_eq preemption_view_def)
  from preemptionPoint_view [OF this pp] obtain s2 where s2: "preemptionPoint s1 = (st, s2)"
    "preemption_view t = preemption_view s2" by blast
  from preemptionPoint_frame(1) [OF s2(1)] obtain w g where
    s2_eq: "s2 = s1\<lparr>ksWorkUnitsCompleted := w, gic_reads := g\<rparr>" by blast
  have run: "cteRevoke (Suc (Suc n)) slot s =
      (if st \<noteq> EXCEPTION_NONE then Some (st, s2) else cteRevoke (Suc n) slot s2)"
    using a b nxt par s1(1) s2(1) by (simp add: Let_def del: cteRevoke.simps) (simp add: cteRevoke.simps(2) [of "Suc n"] Let_def)
  have c2: "ctes s2 = ctes s1" by (simp add: s2_eq)
  note m2 = mdb_cong [OF c2]
  have heap: "ctes s2 r = heap_emptied (ctes s) p (cteMDBNode b) r" for r by (simp add: s2_eq s1_eq)
  have dom: "dom (ctes s2) = dom (ctes s)" using b by (auto simp: heap heap_emptied_def dom_def)
  from a pn heap [of slot] obtain a2 where a2: "ctes s2 slot = Some a2" "cte_cap a2 = cte_cap a"
    "mdbRevocable (cteMDBNode a2) = mdbRevocable (cteMDBNode a)" by (auto simp: heap_emptied_def)
  have kids: "child_of s2 slot r = child_of s slot r" if "r \<in> set ps" for r
  proof -
    from that l(2) obtain d where d: "ctes s r = Some d" by auto
    from that pn have "r \<noteq> p" by auto
    with d heap [of r] obtain d2 where d2: "ctes s2 r = Some d2" "cte_cap d2 = cte_cap d"
      "mdbFirstBadged (cteMDBNode d2) =
         (mdbFirstBadged (cteMDBNode d) \<or> r = mdbNext (cteMDBNode b) \<and> mdbFirstBadged (cteMDBNode b))"
      by (auto simp: heap_emptied_def)
    from child_mark [OF par a2(2,3) d2(2,3)] a a2(1) d d2(1) show ?thesis by (simp add: child_of_def)
  qed
  have caps2: "caps_of s2 = (caps_of s)(p \<mapsto> cap_null_cap)" using m2(3) s1(5) by simp
  have "one_step s2 = one_step s" by (rule one_step_cong) (simp_all add: s2_eq s1_eq)
  then have "one_step_children s2 slot ps = one_step_children s slot ps"
    by (rule one_step_children_cong) (use kids caps2 pn in auto)
  with q ch have "one_step_children s2 slot ps" by simp
  moreover have "tables_ok s2" using s1(2) by (subst tables_ok_cong [of s2 s1]) (simp_all add: s2_eq)
  moreover have "revoke_rest s2 = revoke_rest s" by (simp add: s2_eq s1_eq revoke_rest_def)
  moreover have "mdb_wf s2" "mdb_list s2 (ys @ slot # ps)" using s1(3,4) m2 by simp_all
  moreover have "set (ys @ slot # ps) \<subseteq> dom (ctes s2)" using l(2) dom by auto
  moreover have "\<forall>r \<in> set ps. child_of s2 slot r = child_of s slot r" using kids by blast
  moreover have "preemption_view s2 = preemption_view t" using s2(2) by simp
  ultimately show ?thesis using run a2(1) caps2 by blast
qed

lemma cteRevoke_ok:
  assumes "mdb_wf s" and "mdb_list s (ys @ slot # zs)" and "set (ys @ slot # zs) \<subseteq> dom (ctes s)"
    and "ctes s slot = Some a" and "tables_ok s" and "one_step_children s slot zs"
    and "length (takeWhile (child_of s slot) zs) < fuel"
    and "preemption_run (length (takeWhile (child_of s slot) zs)) s = (st, k)"
  shows "\<exists>s'. cteRevoke fuel slot s = Some (st, s') \<and> mdb_wf s' \<and> mdb_list s' (ys @ slot # drop k zs) \<and>
    caps_of s' = (\<lambda>p. if p \<in> set (take k zs) then Some cap_null_cap else caps_of s p) \<and>
    revoke_rest s' = revoke_rest s"
  using assms
proof (induction fuel arbitrary: s zs a k)
  case 0
  then show ?case by simp
next
  case (Suc fuel)
  note P = Suc.prems
  show ?case
  proof (cases "\<exists>p ps. zs = p # ps \<and> child_of s slot p")
    case False
    then have none: "takeWhile (child_of s slot) zs = []" by (cases zs) auto
    have nxt: "mdbNext (cteMDBNode a) = first_or NULL zs" using dlist_link_facts [OF P(2)] P(4) by (simp add: link_of_def)
    have "cteRevoke (Suc fuel) slot s = Some (EXCEPTION_NONE, s)"
    proof (cases zs)
      case Nil
      with nxt P(4) show ?thesis by simp
    next
      case (Cons p ps)
      with False P(3,4) obtain b where "ctes s p = Some b" "\<not> isMDBParentOf a b" by (auto simp: child_of_def)
      with nxt P(4) Cons show ?thesis by (simp add: Let_def)
    qed
    with P none show ?thesis by auto
  next
    case True
    then obtain p ps where zs: "zs = p # ps" "child_of s slot p" by blast
    let ?m = "length (takeWhile (child_of s slot) ps)"
    have len: "length (takeWhile (child_of s slot) zs) = Suc ?m" using zs by simp
    with P(7) obtain n where n: "fuel = Suc n" by (cases fuel) auto
    obtain st1 t where pp: "preemptionPoint s = (st1, t)" by fastforce
    from cteRevoke_round [OF P(1) P(2,3) [unfolded zs(1)] P(4,5) P(6) [unfolded zs(1)] zs(2) pp, of n]
    obtain s2 a2 where run: "cteRevoke (Suc fuel) slot s =
        (if st1 \<noteq> EXCEPTION_NONE then Some (st1, s2) else cteRevoke fuel slot s2)"
      and s2: "mdb_wf s2" "mdb_list s2 (ys @ slot # ps)" "set (ys @ slot # ps) \<subseteq> dom (ctes s2)"
        "ctes s2 slot = Some a2" "tables_ok s2" "one_step_children s2 slot ps"
        "\<forall>r \<in> set ps. child_of s2 slot r = child_of s slot r" "caps_of s2 = (caps_of s)(p \<mapsto> cap_null_cap)"
        "revoke_rest s2 = revoke_rest s" "preemption_view s2 = preemption_view t"
      unfolding n by blast
    show ?thesis
    proof (cases "st1 = EXCEPTION_NONE")
      case False
      with P(8) pp len have "st = st1" "k = 1" by simp_all
      with False run s2 zs show ?thesis by (auto simp: fun_eq_iff)
    next
      case cont: True
      obtain st2 k2 where r: "preemption_run ?m t = (st2, k2)" by fastforce
      with P(8) pp len cont have k: "st = st2" "k = Suc k2" by simp_all
      have same: "takeWhile (child_of s2 slot) ps = takeWhile (child_of s slot) ps"
        by (rule takeWhile_cong [OF refl]) (use s2(7) in auto)
      have "length (takeWhile (child_of s2 slot) ps) < fuel" using P(7) len same by simp
      moreover have "preemption_run (length (takeWhile (child_of s2 slot) ps)) s2 = (st, k2)"
        using r k(1) preemption_run_view [OF s2(10)] same by simp
      ultimately obtain s' where s': "cteRevoke fuel slot s2 = Some (st, s')" "mdb_wf s'"
        "mdb_list s' (ys @ slot # drop k2 ps)"
        "caps_of s' = (\<lambda>p. if p \<in> set (take k2 ps) then Some cap_null_cap else caps_of s2 p)"
        "revoke_rest s' = revoke_rest s2" using Suc.IH [OF s2(1-6)] by blast
      with cont run k zs(1) s2(8,9) show ?thesis by (auto simp: fun_eq_iff)
    qed
  qed
qed

section \<open>Properties\<close>

text \<open>C33: revoking a capability, of any kind, whose children each go in one step (\<open>one_step_children\<close>):
  a child is untyped memory, a reply capability, a frame, or a page table (that is not itself the root of an address
  space), mapped or not; or any other capability, badged or not, to an object that the parent or
  the next capability of the list refers to as well; or the last one to an endpoint or a notification
  nobody waits on. Not covered are children whose deletion needs more: the last capability to a
  thread, CNode, interrupt handler, ASID pool or mapped address space, and zombies.

  Then \<open>cteRevoke\<close> returns with one unit of fuel per child and one more. It deletes the children
  from the front, reaches a preemption point after each, stops at the first of these that reports a
  pending interrupt, and otherwise when no child is left (\<open>preemption_run\<close>). The slots of the \<open>k\<close>
  children it deleted are empty and out of the derivation list, which stays the same otherwise; every other
  capability is unchanged, and so is all of the state but the page tables, the hardware and the
  counters of the preemption point. Without a pending interrupt all children are gone.\<close>

theorem cteRevoke_removes_children:
  assumes "mdb_wf s" and "mdb_list s (ys @ slot # zs)" and "set (ys @ slot # zs) \<subseteq> dom (ctes s)"
    and "ctes s slot = Some a" and "tables_ok s" and "one_step_children s slot zs"
    and "length (takeWhile (child_of s slot) zs) < fuel"
    and "preemption_run (length (takeWhile (child_of s slot) zs)) s = (st, k)"
  shows "\<exists>s'. cteRevoke fuel slot s = Some (st, s') \<and> mdb_wf s' \<and> mdb_list s' (ys @ slot # drop k zs) \<and>
    k \<le> length (takeWhile (child_of s slot) zs) \<and>
    caps_of s' = (\<lambda>p. if p \<in> set (take k zs) then Some cap_null_cap else caps_of s p) \<and>
    revoke_rest s' = revoke_rest s \<and>
    (if st = EXCEPTION_NONE then drop k zs = dropWhile (child_of s slot) zs
     else st = EXCEPTION_PREEMPTED \<and> 0 < k) \<and>
    ((\<forall>i. \<not> IS_IRQ_VALID (gic_values s i)) \<longrightarrow> st = EXCEPTION_NONE)"
proof -
  have "st = EXCEPTION_NONE" if "\<forall>i. \<not> IS_IRQ_VALID (gic_values s i)"
    using preemption_run_none [OF that] assms(8) by simp
  moreover have "drop (length (takeWhile (child_of s slot) zs)) zs = dropWhile (child_of s slot) zs"
    by (metis append_eq_conv_conj takeWhile_dropWhile_id)
  ultimately show ?thesis
    using cteRevoke_ok [OF assms] preemption_run_bound [OF assms(8)] by (auto split: if_splits)
qed

text \<open>An untyped capability with a frame (mapped in an address space that is gone), an idle endpoint
  and a badged copy of it made from its memory; the next capability in the list is no child.\<close>

definition revoke_slots :: "ptr \<Rightarrow> cte_t option" where
  "revoke_slots =
     [0x100 \<mapsto> \<lparr>cte_cap = cap_untyped_cap 0 False 16 0x10000, cteMDBNode = mdb_node_new 0x120 True True 0\<rparr>,
      0x120 \<mapsto> \<lparr>cte_cap = cap_frame_cap 1 0x11000 ARMSmallPage 0x5000 VMReadWrite False,
                cteMDBNode = mdb_node_new 0x140 True True 0x100\<rparr>,
      0x140 \<mapsto> \<lparr>cte_cap = cap_endpoint_cap 0 True True True True 0x10400,
                cteMDBNode = mdb_node_new 0x160 True True 0x120\<rparr>,
      0x160 \<mapsto> \<lparr>cte_cap = cap_endpoint_cap 7 True True True True 0x10400,
                cteMDBNode = mdb_node_new 0x180 False True 0x140\<rparr>,
      0x180 \<mapsto> \<lparr>cte_cap = cap_endpoint_cap 0 True True True True 0x90400,
                cteMDBNode = mdb_node_new 0 True True 0x160\<rparr>]"

definition revoke_example :: kstate where
  "revoke_example = blank_state
     \<lparr>ctes := revoke_slots,
      eps := [0x10400 \<mapsto> \<lparr>epQueue_head = NULL, epQueue_tail = NULL, ep_state = EPState_Idle\<rparr>]\<rparr>"

lemma ctes_revoke_example [simp]: "ctes revoke_example = revoke_slots"
  by (simp add: revoke_example_def)

lemma dom_revoke_slots: "dom revoke_slots = {0x100, 0x120, 0x140, 0x160, 0x180}"
  by (auto simp: revoke_slots_def split: if_splits)

lemma revoke_example_list: "mdb_list revoke_example [0x100, 0x120, 0x140, 0x160, 0x180]"
  by (simp add: dlist_def link_of_def revoke_slots_def mdb_node_new_def)

lemma revoke_example_wf: "mdb_wf revoke_example" "tables_ok revoke_example"
proof -
  have "\<exists>xs. mdb_list revoke_example xs \<and> p \<in> set xs \<and> set xs \<subseteq> dom revoke_slots" if "p \<in> dom revoke_slots" for p
    using that revoke_example_list by (intro exI [of _ "[0x100, 0x120, 0x140, 0x160, 0x180]"]) (auto simp: dom_revoke_slots)
  then show "mdb_wf revoke_example" by (simp add: mdb_wf_def chains_wf_def) (simp add: revoke_slots_def)
  show "tables_ok revoke_example"
    by (simp add: tables_ok_def vspaces_wf_def revoke_example_def blank_state_def findMapForASID_def)
qed

lemma revoke_example_children:
  "child_of revoke_example 0x100 0x120" "child_of revoke_example 0x100 0x140"
  "child_of revoke_example 0x100 0x160" "\<not> child_of revoke_example 0x100 0x180"
  by (simp_all add: child_of_def revoke_slots_def isMDBParentOf_def Arch_isMDBParentOf_def sameRegionAs_def
      mdb_node_new_def MASK_def Let_def cap_get_capIsPhysical_def cap_get_capPtr_def cap_get_capSizeBits_def
      cap_get_archCapIsPhysical_def cap_get_archCapPtr_def cap_get_archCapSizeBits_def BIT_def)

lemma revoke_example_steps: "one_step_children revoke_example 0x100 [0x120, 0x140, 0x160, 0x180]"
  by (simp add: revoke_example_children)
    (simp add: caps_of_def revoke_slots_def one_step_def revoke_example_def same_object_def sameObjectAs_def BIT_def)

theorem cteRevoke_removes_children_witness:
  "\<exists>s'. cteRevoke 4 0x100 revoke_example = Some (EXCEPTION_NONE, s') \<and> mdb_list s' [0x100, 0x180] \<and>
     caps_of s' 0x120 = Some cap_null_cap \<and> caps_of s' 0x160 = Some cap_null_cap \<and>
     caps_of s' 0x180 = caps_of revoke_example 0x180"
proof -
  let ?zs = "[0x120, 0x140, 0x160, 0x180] :: ptr list"
  have n: "takeWhile (child_of revoke_example 0x100) ?zs = [0x120, 0x140, 0x160]"
    by (simp add: revoke_example_children)
  have three: "length (takeWhile (child_of revoke_example 0x100) ?zs) = 3" unfolding n by simp
  have "\<forall>i. \<not> IS_IRQ_VALID (gic_values revoke_example i)"
    by (simp add: revoke_example_def blank_state_def IS_IRQ_VALID_def IRQ_MASK_def MASK_def BIT_def)
  from preemption_run_none [OF this, of 3]
  have pr: "preemption_run (length (takeWhile (child_of revoke_example 0x100) ?zs)) revoke_example = (EXCEPTION_NONE, 3)"
    unfolding three .
  have len: "length (takeWhile (child_of revoke_example 0x100) ?zs) < 4" unfolding n by simp
  have l: "mdb_list revoke_example ([] @ 0x100 # ?zs)" "set ([] @ 0x100 # ?zs) \<subseteq> dom (ctes revoke_example)"
    using revoke_example_list by (simp_all add: dom_revoke_slots)
  have a: "ctes revoke_example 0x100 = Some (the (revoke_slots 0x100))" by (simp add: revoke_slots_def)
  from cteRevoke_removes_children [OF revoke_example_wf(1) l a revoke_example_wf(2) revoke_example_steps len pr]
  obtain s' where s': "cteRevoke 4 0x100 revoke_example = Some (EXCEPTION_NONE, s')"
    "mdb_list s' ([] @ 0x100 # drop 3 ?zs)"
    "caps_of s' = (\<lambda>p. if p \<in> set (take 3 ?zs) then Some cap_null_cap else caps_of revoke_example p)" by blast
  have "drop 3 ?zs = [0x180]" "take 3 ?zs = [0x120, 0x140, 0x160]" by simp_all
  with s' show ?thesis by (intro exI [of _ s']) simp
qed

text \<open>The fuel of deletion is only a bound. Once \<open>cteDelete\<close> returns, it returns the same with
  any larger fuel, so that the result does not depend on how much was given.\<close>

theorem cteDelete_fuel_irrelevant:
  assumes "cteDelete n slot e s = Some r" and "n \<le> m"
  shows "cteDelete m slot e s = Some r"
  using assms by (rule cteDelete_fuel)

theorem cteDelete_fuel_irrelevant_witness:
  "cteDelete 9 0x1040 True example_mdb = Some (EXCEPTION_NONE, example_mdb)"
proof -
  have "cteDelete 1 0x1040 True example_mdb = Some (EXCEPTION_NONE, example_mdb)"
    by (simp add: cteDelete_def delete_slot_def finalise_round_def example_slots_def emptySlot_def)
  then show ?thesis by (rule cteDelete_fuel_irrelevant) simp
qed

end
