(* ===== verification/CNode_Inv.thy ===== *)
theory CNode_Inv
  imports Revocation
begin

text \<open>
  Invocation labels, the arguments of a system call (\<^verbatim>\<open>include/api/syscall.h\<close>) and the
  invocations of CNodes of \<^verbatim>\<open>src/object/cnode.c\<close>: the checks of \<open>decodeCNodeInvocation\<close> in the
  order of the code, every error with the fields it sets, and the operations it ends in.
\<close>

section \<open>Labels and arguments\<close>

text \<open>The labels in the order in which \<^verbatim>\<open>tools/invocation_header_gen.py\<close> numbers the methods of
  \<^verbatim>\<open>libsel4/include/interfaces/object-api.xml\<close> and its AArch64 companions for this build.\<close>

abbreviation (input) UntypedRetype :: word_t where "UntypedRetype \<equiv> 1"
abbreviation (input) TCBReadRegisters :: word_t where "TCBReadRegisters \<equiv> 2"
abbreviation (input) TCBWriteRegisters :: word_t where "TCBWriteRegisters \<equiv> 3"
abbreviation (input) TCBCopyRegisters :: word_t where "TCBCopyRegisters \<equiv> 4"
abbreviation (input) TCBConfigure :: word_t where "TCBConfigure \<equiv> 5"
abbreviation (input) TCBSetPriority :: word_t where "TCBSetPriority \<equiv> 6"
abbreviation (input) TCBSetMCPriority :: word_t where "TCBSetMCPriority \<equiv> 7"
abbreviation (input) TCBSetSchedParams :: word_t where "TCBSetSchedParams \<equiv> 8"
abbreviation (input) TCBSetIPCBuffer :: word_t where "TCBSetIPCBuffer \<equiv> 9"
abbreviation (input) TCBSetSpace :: word_t where "TCBSetSpace \<equiv> 10"
abbreviation (input) TCBSuspend :: word_t where "TCBSuspend \<equiv> 11"
abbreviation (input) TCBResume :: word_t where "TCBResume \<equiv> 12"
abbreviation (input) TCBBindNotification :: word_t where "TCBBindNotification \<equiv> 13"
abbreviation (input) TCBUnbindNotification :: word_t where "TCBUnbindNotification \<equiv> 14"
abbreviation (input) TCBSetTLSBase :: word_t where "TCBSetTLSBase \<equiv> 15"
abbreviation (input) TCBSetFlags :: word_t where "TCBSetFlags \<equiv> 16"
abbreviation (input) CNodeRevoke :: word_t where "CNodeRevoke \<equiv> 17"
abbreviation (input) CNodeDelete :: word_t where "CNodeDelete \<equiv> 18"
abbreviation (input) CNodeCancelBadgedSends :: word_t where "CNodeCancelBadgedSends \<equiv> 19"
abbreviation (input) CNodeCopy :: word_t where "CNodeCopy \<equiv> 20"
abbreviation (input) CNodeMint :: word_t where "CNodeMint \<equiv> 21"
abbreviation (input) CNodeMove :: word_t where "CNodeMove \<equiv> 22"
abbreviation (input) CNodeMutate :: word_t where "CNodeMutate \<equiv> 23"
abbreviation (input) CNodeRotate :: word_t where "CNodeRotate \<equiv> 24"
abbreviation (input) CNodeSaveCaller :: word_t where "CNodeSaveCaller \<equiv> 25"
abbreviation (input) IRQIssueIRQHandler :: word_t where "IRQIssueIRQHandler \<equiv> 26"
abbreviation (input) IRQAckIRQ :: word_t where "IRQAckIRQ \<equiv> 27"
abbreviation (input) IRQSetIRQHandler :: word_t where "IRQSetIRQHandler \<equiv> 28"
abbreviation (input) IRQClearIRQHandler :: word_t where "IRQClearIRQHandler \<equiv> 29"
abbreviation (input) DomainSetSet :: word_t where "DomainSetSet \<equiv> 30"
abbreviation (input) DomainScheduleConfigure :: word_t where "DomainScheduleConfigure \<equiv> 31"
abbreviation (input) DomainScheduleSetStart :: word_t where "DomainScheduleSetStart \<equiv> 32"
abbreviation (input) ARMVSpaceClean_Data :: word_t where "ARMVSpaceClean_Data \<equiv> 33"
abbreviation (input) ARMVSpaceInvalidate_Data :: word_t where "ARMVSpaceInvalidate_Data \<equiv> 34"
abbreviation (input) ARMVSpaceCleanInvalidate_Data :: word_t where "ARMVSpaceCleanInvalidate_Data \<equiv> 35"
abbreviation (input) ARMVSpaceUnify_Instruction :: word_t where "ARMVSpaceUnify_Instruction \<equiv> 36"
abbreviation (input) ARMPageTableMap :: word_t where "ARMPageTableMap \<equiv> 38"
abbreviation (input) ARMPageTableUnmap :: word_t where "ARMPageTableUnmap \<equiv> 39"
abbreviation (input) ARMPageMap :: word_t where "ARMPageMap \<equiv> 40"
abbreviation (input) ARMPageUnmap :: word_t where "ARMPageUnmap \<equiv> 41"
abbreviation (input) ARMPageClean_Data :: word_t where "ARMPageClean_Data \<equiv> 42"
abbreviation (input) ARMPageInvalidate_Data :: word_t where "ARMPageInvalidate_Data \<equiv> 43"
abbreviation (input) ARMPageCleanInvalidate_Data :: word_t where "ARMPageCleanInvalidate_Data \<equiv> 44"
abbreviation (input) ARMPageUnify_Instruction :: word_t where "ARMPageUnify_Instruction \<equiv> 45"
abbreviation (input) ARMPageGetAddress :: word_t where "ARMPageGetAddress \<equiv> 46"
abbreviation (input) ARMASIDControlMakePool :: word_t where "ARMASIDControlMakePool \<equiv> 47"
abbreviation (input) ARMASIDPoolAssign :: word_t where "ARMASIDPoolAssign \<equiv> 48"
abbreviation (input) ARMIRQIssueIRQHandlerTrigger :: word_t where "ARMIRQIssueIRQHandlerTrigger \<equiv> 49"
abbreviation (input) ARMIRQIssueSGISignal :: word_t where "ARMIRQIssueSGISignal \<equiv> 50"

definition getSyscallArg :: "nat \<Rightarrow> ptr \<Rightarrow> kstate \<Rightarrow> word_t option" where
  "getSyscallArg i ipc_buffer s =
     (if i < n_msgRegisters then getRegister (ksCurThread s) (msgRegisters ! i) s
      else do { assert_opt (ipc_buffer \<noteq> NULL); buf_read ipc_buffer (of_nat i + 1) s })"

text \<open>The error returns of the decoders.\<close>

definition syscall_error :: "seL4_Error \<Rightarrow> kstate \<Rightarrow> (exception_t \<times> kstate) option" where
  "syscall_error e s = Some (EXCEPTION_SYSCALL_ERROR, set_error_type e s)"

definition invalid_argument :: "word_t \<Rightarrow> kstate \<Rightarrow> (exception_t \<times> kstate) option" where
  "invalid_argument n s =
     Some (EXCEPTION_SYSCALL_ERROR,
       s\<lparr>current_syscall_error :=
           (current_syscall_error s)\<lparr>se_type := seL4_InvalidArgument, invalidArgumentNumber := n\<rparr>\<rparr>)"

definition invalid_capability :: "word_t \<Rightarrow> kstate \<Rightarrow> (exception_t \<times> kstate) option" where
  "invalid_capability n s =
     Some (EXCEPTION_SYSCALL_ERROR,
       s\<lparr>current_syscall_error :=
           (current_syscall_error s)\<lparr>se_type := seL4_InvalidCapability, invalidCapNumber := n\<rparr>\<rparr>)"

definition missing_capability :: "bool \<Rightarrow> word_t \<Rightarrow> kstate \<Rightarrow> (exception_t \<times> kstate) option" where
  "missing_capability isSource depth s =
     Some (EXCEPTION_SYSCALL_ERROR,
       set_lookup_fault (lookup_fault_missing_capability depth) (failed_lookup isSource s))"

section \<open>Operations\<close>

definition invokeCNodeRevoke :: "nat \<Rightarrow> ptr \<Rightarrow> kstate \<Rightarrow> (exception_t \<times> kstate) option" where
  "invokeCNodeRevoke fuel destSlot = cteRevoke fuel destSlot"

definition invokeCNodeDelete :: "nat \<Rightarrow> ptr \<Rightarrow> kstate \<Rightarrow> (exception_t \<times> kstate) option" where
  "invokeCNodeDelete fuel destSlot = cteDelete fuel destSlot True"

definition invokeCNodeCancelBadgedSends :: "cap_t \<Rightarrow> kstate \<Rightarrow> (exception_t \<times> kstate) option" where
  "invokeCNodeCancelBadgedSends c s =
     (let badge = capEPBadge c in
      if badge \<noteq> 0 then do { s \<leftarrow> cancelBadgedSends (capEPPtr c) badge s; Some (EXCEPTION_NONE, s) }
      else Some (EXCEPTION_NONE, s))"

definition invokeCNodeInsert :: "cap_t \<Rightarrow> ptr \<Rightarrow> ptr \<Rightarrow> kstate \<Rightarrow> (exception_t \<times> kstate) option" where
  "invokeCNodeInsert c srcSlot destSlot s =
     do { s \<leftarrow> cteInsert c srcSlot destSlot s; Some (EXCEPTION_NONE, s) }"

definition invokeCNodeMove :: "cap_t \<Rightarrow> ptr \<Rightarrow> ptr \<Rightarrow> kstate \<Rightarrow> (exception_t \<times> kstate) option" where
  "invokeCNodeMove c srcSlot destSlot s =
     do { s \<leftarrow> cteMove c srcSlot destSlot s; Some (EXCEPTION_NONE, s) }"

definition invokeCNodeRotate ::
    "cap_t \<Rightarrow> cap_t \<Rightarrow> ptr \<Rightarrow> ptr \<Rightarrow> ptr \<Rightarrow> kstate \<Rightarrow> (exception_t \<times> kstate) option" where
  "invokeCNodeRotate cap1 cap2 slot1 slot2 slot3 s =
     (if slot1 = slot3 then do { s \<leftarrow> cteSwap cap1 slot1 cap2 slot2 s; Some (EXCEPTION_NONE, s) }
      else do { s \<leftarrow> cteMove cap2 slot2 slot3 s;
                s \<leftarrow> cteMove cap1 slot1 slot2 s;
                Some (EXCEPTION_NONE, s) })"

definition invokeCNodeSaveCaller :: "ptr \<Rightarrow> kstate \<Rightarrow> (exception_t \<times> kstate) option" where
  "invokeCNodeSaveCaller destSlot s =
     do { let srcSlot = TCB_PTR_CTE_PTR (ksCurThread s) tcbCaller;
          src \<leftarrow> ctes s srcSlot;
          case cte_cap src of
            cap_null_cap \<Rightarrow> Some (EXCEPTION_NONE, s)
          | cap_reply_cap _ master _ \<Rightarrow>
              if \<not> master then do { s \<leftarrow> cteMove (cte_cap src) srcSlot destSlot s; Some (EXCEPTION_NONE, s) }
              else Some (EXCEPTION_NONE, s)
          | _ \<Rightarrow> None }"

section \<open>Decoding\<close>

text \<open>The capability that copy, mint, move and mutate put into the destination: \<open>Inl\<close> an error,
  \<open>Inr\<close> the capability and whether it is moved.\<close>

definition new_cnode_cap ::
    "word_t \<Rightarrow> word_t \<Rightarrow> ptr \<Rightarrow> cap_t \<Rightarrow> ptr \<Rightarrow> kstate \<Rightarrow> ((exception_t + cap_t \<times> bool) \<times> kstate) option" where
  "new_cnode_cap invLabel len srcSlot srcCap buffer s =
     (let truncated = Some (Inl EXCEPTION_SYSCALL_ERROR, set_error_type seL4_TruncatedMessage s) in
      if invLabel = CNodeCopy then
        if len < 5 then truncated
        else do { w \<leftarrow> getSyscallArg 4 buffer s;
                  ((status, dc), s) \<leftarrow> deriveCap srcSlot (maskCapRights (rightsFromWord w) srcCap) s;
                  if status \<noteq> EXCEPTION_NONE then Some (Inl status, s) else Some (Inr (dc, False), s) }
      else if invLabel = CNodeMint then
        if len < 6 then truncated
        else do { w \<leftarrow> getSyscallArg 4 buffer s;
                  capData \<leftarrow> getSyscallArg 5 buffer s;
                  ((status, dc), s) \<leftarrow>
                    deriveCap srcSlot (updateCapData False capData (maskCapRights (rightsFromWord w) srcCap)) s;
                  if status \<noteq> EXCEPTION_NONE then Some (Inl status, s) else Some (Inr (dc, False), s) }
      else if invLabel = CNodeMove then Some (Inr (srcCap, True), s)
      else if invLabel = CNodeMutate then
        if len < 5 then truncated
        else do { capData \<leftarrow> getSyscallArg 4 buffer s;
                  Some (Inr (updateCapData True capData srcCap, True), s) }
      else None)"

definition decode_cnode_copy ::
    "word_t \<Rightarrow> word_t \<Rightarrow> ptr \<Rightarrow> ptr \<Rightarrow> kstate \<Rightarrow> (exception_t \<times> kstate) option" where
  "decode_cnode_copy invLabel len destSlot buffer s =
     (if len < 4 \<or> current_extra_caps s 0 = NULL then syscall_error seL4_TruncatedMessage s
      else
        do { srcIndex \<leftarrow> getSyscallArg 2 buffer s;
             srcDepth \<leftarrow> getSyscallArg 3 buffer s;
             root \<leftarrow> ctes s (current_extra_caps s 0);
             (status, s) \<leftarrow> ensureEmptySlot destSlot s;
             if status \<noteq> EXCEPTION_NONE then Some (status, s)
             else
               do { ((status, srcSlot), s) \<leftarrow> lookupSourceSlot (cte_cap root) srcIndex srcDepth s;
                    if status \<noteq> EXCEPTION_NONE then Some (status, s)
                    else
                      do { src \<leftarrow> ctes s srcSlot;
                           if cte_cap src = cap_null_cap then missing_capability True srcDepth s
                           else
                             do { (new, s) \<leftarrow> new_cnode_cap invLabel len srcSlot (cte_cap src) buffer s;
                                  case new of
                                    Inl status \<Rightarrow> Some (status, s)
                                  | Inr (newCap, isMove) \<Rightarrow>
                                      if newCap = cap_null_cap then syscall_error seL4_IllegalOperation s
                                      else
                                        do { s \<leftarrow> setThreadState (ksCurThread s) ThreadState_Restart s;
                                             if isMove then invokeCNodeMove newCap srcSlot destSlot s
                                             else invokeCNodeInsert newCap srcSlot destSlot s } } } } })"

definition decode_cnode_rotate :: "word_t \<Rightarrow> ptr \<Rightarrow> ptr \<Rightarrow> kstate \<Rightarrow> (exception_t \<times> kstate) option" where
  "decode_cnode_rotate len destSlot buffer s =
     (if len < 8 \<or> current_extra_caps s 0 = NULL \<or> current_extra_caps s 1 = NULL then
        syscall_error seL4_TruncatedMessage s
      else
        do { pivotNewData \<leftarrow> getSyscallArg 2 buffer s;
             pivotIndex \<leftarrow> getSyscallArg 3 buffer s;
             pivotDepth \<leftarrow> getSyscallArg 4 buffer s;
             srcNewData \<leftarrow> getSyscallArg 5 buffer s;
             srcIndex \<leftarrow> getSyscallArg 6 buffer s;
             srcDepth \<leftarrow> getSyscallArg 7 buffer s;
             pivotRoot \<leftarrow> ctes s (current_extra_caps s 0);
             srcRoot \<leftarrow> ctes s (current_extra_caps s 1);
             ((status, srcSlot), s) \<leftarrow> lookupSourceSlot (cte_cap srcRoot) srcIndex srcDepth s;
             if status \<noteq> EXCEPTION_NONE then Some (status, s)
             else
               do { ((status, pivotSlot), s) \<leftarrow> lookupPivotSlot (cte_cap pivotRoot) pivotIndex pivotDepth s;
                    if status \<noteq> EXCEPTION_NONE then Some (status, s)
                    else if pivotSlot = srcSlot \<or> pivotSlot = destSlot then
                      syscall_error seL4_IllegalOperation s
                    else
                      do { (status, s) \<leftarrow>
                             (if srcSlot \<noteq> destSlot then ensureEmptySlot destSlot s else Some (EXCEPTION_NONE, s));
                           if status \<noteq> EXCEPTION_NONE then Some (status, s)
                           else
                             do { src \<leftarrow> ctes s srcSlot;
                                  pivot \<leftarrow> ctes s pivotSlot;
                                  if cte_cap src = cap_null_cap then missing_capability True srcDepth s
                                  else if cte_cap pivot = cap_null_cap then missing_capability False pivotDepth s
                                  else
                                    let newSrcCap = updateCapData True srcNewData (cte_cap src);
                                        newPivotCap = updateCapData True pivotNewData (cte_cap pivot) in
                                    if newSrcCap = cap_null_cap \<or> newPivotCap = cap_null_cap then
                                      syscall_error seL4_IllegalOperation s
                                    else
                                      do { s \<leftarrow> setThreadState (ksCurThread s) ThreadState_Restart s;
                                           invokeCNodeRotate newSrcCap newPivotCap srcSlot pivotSlot destSlot s } } } } })"

definition decodeCNodeInvocation ::
    "nat \<Rightarrow> word_t \<Rightarrow> word_t \<Rightarrow> cap_t \<Rightarrow> ptr \<Rightarrow> kstate \<Rightarrow> (exception_t \<times> kstate) option" where
  "decodeCNodeInvocation fuel invLabel len c buffer s =
     do { assert_opt (cap_get_capType c = 10);
          if invLabel < CNodeRevoke \<or> invLabel > CNodeSaveCaller then syscall_error seL4_IllegalOperation s
          else if len < 2 then syscall_error seL4_TruncatedMessage s
          else
            do { index \<leftarrow> getSyscallArg 0 buffer s;
                 w_bits \<leftarrow> getSyscallArg 1 buffer s;
                 ((status, destSlot), s) \<leftarrow> lookupTargetSlot c index w_bits s;
                 if status \<noteq> EXCEPTION_NONE then Some (status, s)
                 else if invLabel \<ge> CNodeCopy \<and> invLabel \<le> CNodeMutate then
                   decode_cnode_copy invLabel len destSlot buffer s
                 else if invLabel = CNodeRevoke then
                   do { s \<leftarrow> setThreadState (ksCurThread s) ThreadState_Restart s;
                        invokeCNodeRevoke fuel destSlot s }
                 else if invLabel = CNodeDelete then
                   do { s \<leftarrow> setThreadState (ksCurThread s) ThreadState_Restart s;
                        invokeCNodeDelete fuel destSlot s }
                 else if invLabel = CNodeSaveCaller then
                   do { (status, s) \<leftarrow> ensureEmptySlot destSlot s;
                        if status \<noteq> EXCEPTION_NONE then Some (status, s)
                        else
                          do { s \<leftarrow> setThreadState (ksCurThread s) ThreadState_Restart s;
                               invokeCNodeSaveCaller destSlot s } }
                 else if invLabel = CNodeCancelBadgedSends then
                   do { dest \<leftarrow> ctes s destSlot;
                        if \<not> hasCancelSendRights (cte_cap dest) then syscall_error seL4_IllegalOperation s
                        else
                          do { s \<leftarrow> setThreadState (ksCurThread s) ThreadState_Restart s;
                               invokeCNodeCancelBadgedSends (cte_cap dest) s } }
                 else if invLabel = CNodeRotate then decode_cnode_rotate len destSlot buffer s
                 else Some (EXCEPTION_NONE, s) } }"

end
