(* ===== verification/Untyped.thy ===== *)
theory Untyped
  imports CNode_Inv
begin

text \<open>
  Untyped memory: \<^verbatim>\<open>src/object/untyped.c\<close> and the creation of objects in
  \<^verbatim>\<open>src/object/objecttype.c\<close> and its AArch64 half. In the typed heaps an object comes into being
  where the code starts to use cleared memory as that object (the places its \<^verbatim>\<open>AUXUPD\<close> comments
  mark): the heap of its type gets the value of zeroed memory there, and resetting an untyped
  region takes every object of the region out of the heaps.
\<close>

section \<open>Free memory of an untyped object\<close>

definition FREE_INDEX_TO_OFFSET :: "word_t \<Rightarrow> word_t" where
  "FREE_INDEX_TO_OFFSET freeIndex = shiftl freeIndex seL4_MinUntypedBits"

definition GET_FREE_REF :: "word_t \<Rightarrow> word_t \<Rightarrow> word_t" where
  "GET_FREE_REF base freeIndex = base + FREE_INDEX_TO_OFFSET freeIndex"

definition GET_FREE_INDEX :: "word_t \<Rightarrow> word_t \<Rightarrow> word_t" where
  "GET_FREE_INDEX base free = shiftr (free - base) seL4_MinUntypedBits"

definition GET_OFFSET_FREE_PTR :: "word_t \<Rightarrow> word_t \<Rightarrow> ptr" where
  "GET_OFFSET_FREE_PTR base offset = base + offset"

definition OFFSET_TO_FREE_INDEX :: "word_t \<Rightarrow> word_t" where
  "OFFSET_TO_FREE_INDEX offset = shiftr offset seL4_MinUntypedBits"

definition ROUND_DOWN :: "word_t \<Rightarrow> word_t \<Rightarrow> word_t" where
  "ROUND_DOWN n b = shiftl (shiftr n b) b"

definition alignUp :: "word_t \<Rightarrow> word_t \<Rightarrow> word_t" where
  "alignUp baseValue alignment = (baseValue + (BIT alignment - 1)) AND NOT (MASK alignment)"

section \<open>Typed memory\<close>

text \<open>Whether an address is in the region of \<open>2 ^ bits\<close> bytes at \<open>base\<close>, or is that of an element
  of the array of \<open>n\<close> elements of \<open>sz\<close> bytes at \<open>base\<close>.\<close>

definition in_region :: "ptr \<Rightarrow> word_t \<Rightarrow> ptr \<Rightarrow> bool" where
  "in_region base bits a \<longleftrightarrow> unat (a - base) < 2 ^ unat bits"

definition in_array :: "ptr \<Rightarrow> nat \<Rightarrow> nat \<Rightarrow> ptr \<Rightarrow> bool" where
  "in_array base sz n a \<longleftrightarrow> unat (a - base) mod sz = 0 \<and> unat (a - base) < sz * n"

definition typ_region_bytes :: "ptr \<Rightarrow> word_t \<Rightarrow> kstate \<Rightarrow> kstate" where
  "typ_region_bytes base bits s =
     (let out = (\<lambda>a. \<not> in_region base bits a) in
      s\<lparr>ctes := (\<lambda>a. if out a then ctes s a else None), tcbs := (\<lambda>a. if out a then tcbs s a else None),
        eps := (\<lambda>a. if out a then eps s a else None), ntfns := (\<lambda>a. if out a then ntfns s a else None),
        ptes := (\<lambda>a. if out a then ptes s a else None),
        asid_pools := (\<lambda>a. if out a then asid_pools s a else None),
        umem := (\<lambda>a. if out a then umem s a else None)\<rparr>)"

definition new_ctes :: "ptr \<Rightarrow> nat \<Rightarrow> kstate \<Rightarrow> kstate" where
  "new_ctes base n s =
     s\<lparr>ctes := (\<lambda>a. if in_array base 32 n a then Some \<lparr>cte_cap = cap_null_cap, cteMDBNode = nullMDBNode\<rparr>
                    else ctes s a)\<rparr>"

definition new_ptes :: "ptr \<Rightarrow> kstate \<Rightarrow> kstate" where
  "new_ptes base s = s\<lparr>ptes := (\<lambda>a. if in_array base 8 512 a then Some pte_pte_invalid else ptes s a)\<rparr>"

definition new_user_data :: "ptr \<Rightarrow> word_t \<Rightarrow> kstate \<Rightarrow> kstate" where
  "new_user_data base bits s =
     s\<lparr>umem := (\<lambda>a. if in_array base 8 (2 ^ (unat bits - 3)) a then Some 0 else umem s a)\<rparr>"

section \<open>Creating objects\<close>

definition Arch_initContext :: "(register_t \<Rightarrow> word_t) \<Rightarrow> register_t \<Rightarrow> word_t" where
  "Arch_initContext c = c(SPSR_EL1 := PSTATE_USER)"

definition create_frame :: "vm_page_size_t \<Rightarrow> ptr \<Rightarrow> bool \<Rightarrow> kstate \<Rightarrow> cap_t \<times> kstate" where
  "create_frame sz regionBase deviceMemory s =
     (let s = (if deviceMemory then s
               else do_machine_op (cleanCacheRange_RAM regionBase (regionBase + MASK (pageBitsForSize sz))
                      (pptr_to_paddr regionBase s))
                      (new_user_data regionBase (pageBitsForSize sz) s))
      in (cap_frame_cap 0 regionBase sz 0 VMReadWrite deviceMemory, s))"

definition Arch_createObject :: "word_t \<Rightarrow> ptr \<Rightarrow> word_t \<Rightarrow> bool \<Rightarrow> kstate \<Rightarrow> (cap_t \<times> kstate) option" where
  "Arch_createObject t regionBase userSize deviceMemory s =
     (if t = seL4_ARM_SmallPageObject then Some (create_frame ARMSmallPage regionBase deviceMemory s)
      else if t = seL4_ARM_LargePageObject then Some (create_frame ARMLargePage regionBase deviceMemory s)
      else if t = seL4_ARM_HugePageObject then Some (create_frame ARMHugePage regionBase deviceMemory s)
      else if t = seL4_ARM_VSpaceObject then
        Some (cap_vspace_cap 0 regionBase False,
              do_machine_op (cleanCacheRange_PoU regionBase (regionBase + MASK seL4_VSpaceBits)
                                (pptr_to_paddr regionBase s))
                (new_ptes regionBase s))
      else if t = seL4_ARM_PageTableObject then
        Some (cap_page_table_cap 0 regionBase False 0,
              do_machine_op (cleanCacheRange_PoU regionBase (regionBase + MASK seL4_PageTableBits)
                                (pptr_to_paddr regionBase s))
                (new_ptes regionBase s))
      else None)"

definition createObject :: "word_t \<Rightarrow> ptr \<Rightarrow> word_t \<Rightarrow> bool \<Rightarrow> kstate \<Rightarrow> (cap_t \<times> kstate) option" where
  "createObject t regionBase userSize deviceMemory s =
     (if t \<ge> seL4_NonArchObjectTypeCount then Arch_createObject t regionBase userSize deviceMemory s
      else if t = seL4_TCBObject then
        let tcb = regionBase + TCB_OFFSET;
            s = new_ctes regionBase (unat tcbCNodeEntries) s;
            s = s\<lparr>tcbs := (tcbs s)(tcb \<mapsto> blank_tcb
                   \<lparr>tcbContext := Arch_initContext (\<lambda>_. 0), tcbTimeSlice := CONFIG_TIME_SLICE,
                    tcbDomain := ksCurDomain s\<rparr>)\<rparr>
        in Some (cap_thread_cap tcb, s)
      else if t = seL4_EndpointObject then
        Some (cap_endpoint_cap 0 True True True True regionBase,
              s\<lparr>eps := (eps s)(regionBase \<mapsto>
                  \<lparr>epQueue_head = NULL, epQueue_tail = NULL, ep_state = EPState_Idle\<rparr>)\<rparr>)
      else if t = seL4_NotificationObject then
        Some (cap_notification_cap 0 True True regionBase,
              s\<lparr>ntfns := (ntfns s)(regionBase \<mapsto>
                  \<lparr>ntfnBoundTCB = NULL, ntfnMsgIdentifier = 0, ntfnQueue_head = NULL, ntfnQueue_tail = NULL,
                   ntfn_state = NtfnState_Idle\<rparr>)\<rparr>)
      else if t = seL4_CapTableObject then
        Some (cap_cnode_cap userSize 0 0 regionBase, new_ctes regionBase (2 ^ unat userSize) s)
      else if t = seL4_UntypedObject then Some (cap_untyped_cap 0 deviceMemory userSize regionBase, s)
      else None)"

primrec create_loop ::
    "word_t \<Rightarrow> ptr \<Rightarrow> ptr \<Rightarrow> word_t \<Rightarrow> ptr \<Rightarrow> word_t \<Rightarrow> word_t \<Rightarrow> bool \<Rightarrow> nat list \<Rightarrow> kstate \<Rightarrow> kstate option" where
  "create_loop t parent destCNode destOffset regionBase objectSize userSize dev [] s = Some s"
| "create_loop t parent destCNode destOffset regionBase objectSize userSize dev (i # is) s =
     do { (c, s) \<leftarrow> createObject t (regionBase + shiftl (of_nat i) objectSize) userSize dev s;
          s \<leftarrow> insertNewCap parent (cte_index destCNode (destOffset + of_nat i)) c s;
          create_loop t parent destCNode destOffset regionBase objectSize userSize dev is s }"

definition createNewObjects ::
    "word_t \<Rightarrow> ptr \<Rightarrow> ptr \<Rightarrow> word_t \<Rightarrow> word_t \<Rightarrow> ptr \<Rightarrow> word_t \<Rightarrow> bool \<Rightarrow> kstate \<Rightarrow> kstate option" where
  "createNewObjects t parent destCNode destOffset destLength regionBase userSize dev s =
     do { objectSize \<leftarrow> getObjectSize t userSize;
          create_loop t parent destCNode destOffset regionBase objectSize userSize dev
            [0..<unat destLength] s }"

section \<open>Retyping\<close>

text \<open>The loop that clears the region in chunks from its end. The free index of the capability
  follows, so that a preempted reset goes on where it stopped.\<close>

fun reset_loop :: "ptr \<Rightarrow> cap_t \<Rightarrow> ptr \<Rightarrow> nat \<Rightarrow> kstate \<Rightarrow> (exception_t \<times> kstate) option" where
  "reset_loop srcSlot prev_cap regionBase 0 s = Some (EXCEPTION_NONE, s)"
| "reset_loop srcSlot prev_cap regionBase (Suc k) s =
     (let offset = of_nat k * BIT CONFIG_RESET_CHUNK_BITS;
          s = do_machine_op (clearMemory (GET_OFFSET_FREE_PTR regionBase offset) CONFIG_RESET_CHUNK_BITS) s in
      do { s \<leftarrow> cte_set_cap srcSlot
                  (cap_untyped_cap_set_capFreeIndex (OFFSET_TO_FREE_INDEX offset) prev_cap) s;
           let (status, s) = preemptionPoint s;
           if status \<noteq> EXCEPTION_NONE then Some (status, s)
           else reset_loop srcSlot prev_cap regionBase k s })"

definition resetUntypedCap :: "ptr \<Rightarrow> kstate \<Rightarrow> (exception_t \<times> kstate) option" where
  "resetUntypedCap srcSlot s =
     do { src \<leftarrow> ctes s srcSlot;
          let prev_cap = cte_cap src;
          let block_size = capBlockSize prev_cap;
          let regionBase = capPtr prev_cap;
          let offset = FREE_INDEX_TO_OFFSET (capFreeIndex prev_cap);
          let deviceMemory = capIsDevice prev_cap;
          if offset = 0 then Some (EXCEPTION_NONE, s)
          else
            do { let s = typ_region_bytes regionBase block_size s;
                 if deviceMemory \<or> block_size < CONFIG_RESET_CHUNK_BITS then
                   do { let s = (if \<not> deviceMemory then do_machine_op (clearMemory regionBase block_size) s else s);
                        s \<leftarrow> cte_set_cap srcSlot (cap_untyped_cap_set_capFreeIndex 0 prev_cap) s;
                        Some (EXCEPTION_NONE, s) }
                 else
                   reset_loop srcSlot prev_cap regionBase
                     (Suc (unat (ROUND_DOWN (offset - 1) CONFIG_RESET_CHUNK_BITS) div
                           unat (BIT CONFIG_RESET_CHUNK_BITS))) s } }"

definition invokeUntyped_Retype ::
    "ptr \<Rightarrow> bool \<Rightarrow> ptr \<Rightarrow> word_t \<Rightarrow> word_t \<Rightarrow> ptr \<Rightarrow> word_t \<Rightarrow> word_t \<Rightarrow> bool \<Rightarrow> kstate \<Rightarrow>
     (exception_t \<times> kstate) option" where
  "invokeUntyped_Retype srcSlot reset retypeBase newType userSize destCNode destOffset destLength dev s =
     do { src \<leftarrow> ctes s srcSlot;
          let regionBase = capPtr (cte_cap src);
          (status, s) \<leftarrow> (if reset then resetUntypedCap srcSlot s else Some (EXCEPTION_NONE, s));
          if status \<noteq> EXCEPTION_NONE then Some (status, s)
          else
            do { objectSize \<leftarrow> getObjectSize newType userSize;
                 let totalObjectSize = shiftl destLength objectSize;
                 let freeRef = retypeBase + totalObjectSize;
                 src \<leftarrow> ctes s srcSlot;
                 s \<leftarrow> cte_set_cap srcSlot
                        (cap_untyped_cap_set_capFreeIndex (GET_FREE_INDEX regionBase freeRef) (cte_cap src)) s;
                 s \<leftarrow> createNewObjects newType srcSlot destCNode destOffset destLength retypeBase userSize dev s;
                 Some (EXCEPTION_NONE, s) } }"

section \<open>Decoding\<close>

text \<open>The slots of the destination window must be empty.\<close>

primrec ensure_empty_window :: "ptr \<Rightarrow> nat list \<Rightarrow> kstate \<Rightarrow> (exception_t \<times> kstate) option" where
  "ensure_empty_window destCNode [] s = Some (EXCEPTION_NONE, s)"
| "ensure_empty_window destCNode (i # is) s =
     do { (status, s) \<leftarrow> ensureEmptySlot (cte_index destCNode (of_nat i)) s;
          if status \<noteq> EXCEPTION_NONE then Some (status, s) else ensure_empty_window destCNode is s }"

text \<open>The part of \<open>decodeUntypedInvocation\<close> that chooses the memory: where the free part starts,
  whether the objects fit, and the aligned start of the first object.\<close>

definition decode_retype_memory ::
    "ptr \<Rightarrow> cap_t \<Rightarrow> word_t \<Rightarrow> word_t \<Rightarrow> word_t \<Rightarrow> ptr \<Rightarrow> word_t \<Rightarrow> word_t \<Rightarrow> kstate \<Rightarrow>
     (exception_t \<times> kstate) option" where
  "decode_retype_memory slot c newType userObjSize objectSize destCNode nodeOffset nodeWindow s =
     do { (status, s) \<leftarrow> ensureNoChildren slot s;
          let (freeIndex, reset) = (if status \<noteq> EXCEPTION_NONE then (capFreeIndex c, False) else (0, True));
          let freeRef = GET_FREE_REF (capPtr c) freeIndex;
          let untypedFreeBytes = BIT (capBlockSize c) - FREE_INDEX_TO_OFFSET freeIndex;
          if shiftr untypedFreeBytes objectSize < nodeWindow then
            Some (EXCEPTION_SYSCALL_ERROR,
              s\<lparr>current_syscall_error := (current_syscall_error s)
                  \<lparr>se_type := seL4_NotEnoughMemory, memoryLeft := untypedFreeBytes\<rparr>\<rparr>)
          else
            let deviceMemory = capIsDevice c in
            if deviceMemory \<and> \<not> Arch_isFrameType newType \<and> newType \<noteq> seL4_UntypedObject then
              invalid_argument 1 s
            else
              do { let alignedFreeRef = alignUp freeRef objectSize;
                   s \<leftarrow> setThreadState (ksCurThread s) ThreadState_Restart s;
                   invokeUntyped_Retype slot reset alignedFreeRef newType userObjSize destCNode nodeOffset
                     nodeWindow deviceMemory s } }"

definition decode_retype_window ::
    "ptr \<Rightarrow> cap_t \<Rightarrow> word_t \<Rightarrow> word_t \<Rightarrow> word_t \<Rightarrow> cap_t \<Rightarrow> word_t \<Rightarrow> word_t \<Rightarrow> word_t \<Rightarrow> kstate \<Rightarrow>
     (exception_t \<times> kstate) option" where
  "decode_retype_window slot c newType userObjSize objectSize nodeCap nodeDepth nodeOffset nodeWindow s =
     (if cap_get_capType nodeCap \<noteq> 10 then missing_capability False nodeDepth s
      else
        let nodeSize = shiftl 1 (capCNodeRadix nodeCap) in
        if nodeOffset > nodeSize - 1 then
          Some (EXCEPTION_SYSCALL_ERROR, range_error 0 (nodeSize - 1) s)
        else if nodeWindow < 1 \<or> nodeWindow > CONFIG_RETYPE_FAN_OUT_LIMIT then
          Some (EXCEPTION_SYSCALL_ERROR, range_error 1 CONFIG_RETYPE_FAN_OUT_LIMIT s)
        else if nodeWindow > nodeSize - nodeOffset then
          Some (EXCEPTION_SYSCALL_ERROR, range_error 1 (nodeSize - nodeOffset) s)
        else
          do { let destCNode = capCNodePtr nodeCap;
               (status, s) \<leftarrow>
                 ensure_empty_window destCNode [unat nodeOffset..<unat (nodeOffset + nodeWindow)] s;
               if status \<noteq> EXCEPTION_NONE then Some (status, s)
               else decode_retype_memory slot c newType userObjSize objectSize destCNode nodeOffset nodeWindow s })"

definition decodeUntypedInvocation ::
    "word_t \<Rightarrow> word_t \<Rightarrow> ptr \<Rightarrow> cap_t \<Rightarrow> bool \<Rightarrow> ptr \<Rightarrow> kstate \<Rightarrow> (exception_t \<times> kstate) option" where
  "decodeUntypedInvocation invLabel len slot c call buffer s =
     (if invLabel \<noteq> UntypedRetype then syscall_error seL4_IllegalOperation s
      else if len < 6 \<or> current_extra_caps s 0 = NULL then syscall_error seL4_TruncatedMessage s
      else
        do { newType \<leftarrow> getSyscallArg 0 buffer s;
             userObjSize \<leftarrow> getSyscallArg 1 buffer s;
             nodeIndex \<leftarrow> getSyscallArg 2 buffer s;
             nodeDepth \<leftarrow> getSyscallArg 3 buffer s;
             nodeOffset \<leftarrow> getSyscallArg 4 buffer s;
             nodeWindow \<leftarrow> getSyscallArg 5 buffer s;
             let rootSlot = current_extra_caps s 0;
             if newType \<ge> seL4_ObjectTypeCount then invalid_argument 0 s
             else
               do { objectSize \<leftarrow> getObjectSize newType userObjSize;
                    if userObjSize \<ge> wordBits \<or> objectSize > seL4_MaxUntypedBits then
                      Some (EXCEPTION_SYSCALL_ERROR, range_error 0 seL4_MaxUntypedBits s)
                    else if newType = seL4_CapTableObject \<and> userObjSize = 0 then invalid_argument 1 s
                    else if newType = seL4_UntypedObject \<and> userObjSize < seL4_MinUntypedBits then
                      invalid_argument 1 s
                    else
                      do { root \<leftarrow> ctes s rootSlot;
                           ((status, nodeCap), s) \<leftarrow>
                             (if nodeDepth = 0 then Some ((EXCEPTION_NONE, cte_cap root), s)
                              else
                                do { ((status, node), s) \<leftarrow> lookupTargetSlot (cte_cap root) nodeIndex nodeDepth s;
                                     if status \<noteq> EXCEPTION_NONE then Some ((status, cap_null_cap), s)
                                     else do { x \<leftarrow> ctes s node; Some ((EXCEPTION_NONE, cte_cap x), s) } });
                           if status \<noteq> EXCEPTION_NONE then Some (status, s)
                           else
                             decode_retype_window slot c newType userObjSize objectSize nodeCap nodeDepth
                               nodeOffset nodeWindow s } } })"

end
