(* ===== verification/Retype.thy ===== *)
theory Retype
  imports Untyped Messages
begin

text \<open>
  Retyping stays inside the untyped object: the memory chosen by the decoder is aligned, begins
  after the free reference and ends within the object, however large the numbers given by the
  caller; and the creation of objects returns, makes exactly the announced capabilities and
  changes no object outside the chosen memory.
\<close>

section \<open>Alignment\<close>

lemma and_not_mask_push:
  fixes w :: word_t
  shows "w AND NOT (mask n) = push_bit n (drop_bit n w)"
  by (rule bit_eqI) (auto simp: bit_simps)

lemma unat_and_not_mask:
  fixes w :: word_t
  shows "unat (w AND NOT (mask n)) = unat w div 2 ^ n * 2 ^ n"
proof -
  have "w = push_bit n (drop_bit n w) + take_bit n w" by (simp add: bits_ident)
  then have "w - take_bit n w = w AND NOT (mask n)" unfolding and_not_mask_push by (metis add_diff_cancel_right')
  moreover have "unat (take_bit n w) = unat w mod 2 ^ n" by (simp only: unsigned_take_bit_eq) (simp only: take_bit_eq_mod)
  moreover have "unat w mod 2 ^ n \<le> unat w" by simp
  ultimately have "unat (w AND NOT (mask n)) = unat w - unat w mod 2 ^ n"
    by (metis unat_sub word_le_nat_alt)
  then show ?thesis by (simp add: minus_mod_eq_div_mult)
qed

lemma round_up:
  fixes x d :: nat
  assumes "0 < d"
  shows "x \<le> (x + d - 1) div d * d" and "(x + d - 1) div d * d < x + d"
    and "d dvd y \<Longrightarrow> x \<le> y \<Longrightarrow> (x + d - 1) div d * d \<le> y"
proof -
  have "(x + d - 1) div d * d + (x + d - 1) mod d = x + d - 1" by simp
  moreover have "(x + d - 1) mod d < d" using assms by simp
  ultimately show "x \<le> (x + d - 1) div d * d" "(x + d - 1) div d * d < x + d" using assms by linarith+
  assume "d dvd y" "x \<le> y"
  then obtain k where k: "y = k * d" by (metis dvd_def mult.commute)
  with \<open>x \<le> y\<close> assms have "x + d - 1 < Suc k * d" by simp
  then have "(x + d - 1) div d < Suc k" using assms less_mult_imp_div_less by blast
  then show "(x + d - 1) div d * d \<le> y" unfolding k by simp
qed

lemma unat_alignUp:
  assumes n: "unat n < 64" and fits: "unat w + 2 ^ unat n \<le> 2 ^ 64"
  shows "unat (alignUp w n) = (unat w + 2 ^ unat n - 1) div 2 ^ unat n * 2 ^ unat n"
proof -
  have b: "unat (BIT n - 1) = 2 ^ unat n - 1"
    using n by (subst unat_sub) (simp_all add: unat_BIT word_le_nat_alt)
  have "unat (w + (BIT n - 1)) = unat w + 2 ^ unat n - 1"
    using fits by (subst unat_add_lem [THEN iffD1]) (simp_all add: b)
  then show ?thesis by (simp add: alignUp_def MASK_eq_mask unat_and_not_mask)
qed

section \<open>The memory chosen by the decoder\<close>

text \<open>The number \<open>n\<close> of objects of \<open>2 ^ os\<close> bytes fits into the \<open>2 ^ sz\<close> bytes of an aligned region
  after its first \<open>off\<close> bytes; then they fit aligned, too.\<close>

lemma aligned_fit:
  fixes P off n os sz :: nat
  assumes P: "2 ^ sz dvd P" and off: "off \<le> 2 ^ sz" and n: "0 < n" "n \<le> (2 ^ sz - off) div 2 ^ os"
  shows "os \<le> sz" and "(P + off + 2 ^ os - 1) div 2 ^ os * 2 ^ os + n * 2 ^ os \<le> P + 2 ^ sz"
proof -
  have "n * 2 ^ os \<le> (2 ^ sz - off) div 2 ^ os * 2 ^ os" using n(2) by (rule mult_le_mono1)
  also have "\<dots> \<le> 2 ^ sz - off" by simp
  finally have m: "n * 2 ^ os \<le> 2 ^ sz - off" .
  moreover have "1 * 2 ^ os \<le> n * 2 ^ os" using n(1) by (intro mult_le_mono1) simp
  ultimately have "2 ^ os \<le> (2 ^ sz :: nat)" by linarith
  then show os: "os \<le> sz" by simp
  then have "(2 ^ os :: nat) dvd 2 ^ sz" by (rule le_imp_power_dvd)
  with P have d: "2 ^ os dvd P + 2 ^ sz - n * 2 ^ os" by (intro dvd_diff_nat dvd_add) (auto intro: dvd_trans)
  have le: "P + off \<le> P + 2 ^ sz - n * 2 ^ os" using m off by linarith
  have "(P + off + 2 ^ os - 1) div 2 ^ os * 2 ^ os \<le> P + 2 ^ sz - n * 2 ^ os" by (rule round_up(3) [OF _ d le]) simp
  then show "(P + off + 2 ^ os - 1) div 2 ^ os * 2 ^ os + n * 2 ^ os \<le> P + 2 ^ sz" using m by linarith
qed

text \<open>An untyped capability is well formed: its size is in bounds, its object aligned to it and its
  free index within it.\<close>

definition untyped_ok :: "cap_t \<Rightarrow> bool" where
  "untyped_ok c \<longleftrightarrow>
     (case c of
        cap_untyped_cap free dev sz p \<Rightarrow>
          seL4_MinUntypedBits \<le> sz \<and> sz \<le> seL4_MaxUntypedBits \<and> p AND MASK sz = 0 \<and>
          unat free * 16 \<le> 2 ^ unat sz
      | _ \<Rightarrow> False)"

text \<open>Bytes in use: none when the capability has no children.\<close>

definition used_bytes :: "cap_t \<Rightarrow> bool \<Rightarrow> nat" where
  "used_bytes c reset = (if reset then 0 else unat (capFreeIndex c) * 16)"

lemma decode_retype_memory_ok:
  assumes c: "untyped_ok c" and os: "unat objectSize < 64"
    and win: "0 < unat nodeWindow" and kids: "ensureNoChildren slot s = Some (st, s1)"
  defines "reset \<equiv> st = EXCEPTION_NONE"
  defines "base \<equiv> alignUp (capPtr c + of_nat (used_bytes c reset)) objectSize"
  shows "decode_retype_memory slot c newType us objectSize destCNode nodeOffset nodeWindow s =
    (if (2 ^ unat (capBlockSize c) - used_bytes c reset) div 2 ^ unat objectSize < unat nodeWindow then
       Some (EXCEPTION_SYSCALL_ERROR,
         s1\<lparr>current_syscall_error := (current_syscall_error s1)
             \<lparr>se_type := seL4_NotEnoughMemory,
              memoryLeft := of_nat (2 ^ unat (capBlockSize c) - used_bytes c reset)\<rparr>\<rparr>)
     else if capIsDevice c \<and> \<not> Arch_isFrameType newType \<and> newType \<noteq> seL4_UntypedObject then
       invalid_argument 1 s1
     else
       do { s \<leftarrow> setThreadState (ksCurThread s1) ThreadState_Restart s1;
            invokeUntyped_Retype slot reset base newType us destCNode nodeOffset nodeWindow (capIsDevice c) s })"
    and "unat nodeWindow \<le> (2 ^ unat (capBlockSize c) - used_bytes c reset) div 2 ^ unat objectSize \<Longrightarrow>
      2 ^ unat objectSize dvd unat base \<and> unat (capPtr c) + used_bytes c reset \<le> unat base \<and>
      unat base + unat nodeWindow * 2 ^ unat objectSize \<le> unat (capPtr c) + 2 ^ unat (capBlockSize c)"
proof -
  obtain free dev sz p where cc: "c = cap_untyped_cap free dev sz p" using c by (cases c) (auto simp: untyped_ok_def)
  have sz: "unat sz \<le> 47" and free: "unat free * 16 \<le> 2 ^ unat sz"
    using c by (simp_all add: untyped_ok_def cc word_le_nat_alt)
  have dv: "2 ^ unat sz dvd unat p"
    using c aligned_iff [of p sz] by (simp add: untyped_ok_def cc dvd_eq_mod_eq_0)
  have top: "unat p + 2 ^ unat sz \<le> 2 ^ 64"
  proof -
    from dv obtain k where k: "unat p = 2 ^ unat sz * k" by (auto elim: dvdE)
    have e: "(2 :: nat) ^ 64 = 2 ^ unat sz * 2 ^ (64 - unat sz)" using sz by (simp add: power_add [symmetric])
    have "unat p < 2 ^ 64" using unsigned_less [of p] by simp
    then have "2 ^ unat sz * k < 2 ^ unat sz * 2 ^ (64 - unat sz)" using k e by simp
    then have "Suc k \<le> 2 ^ (64 - unat sz)" by simp
    then have "2 ^ unat sz * Suc k \<le> 2 ^ unat sz * 2 ^ (64 - unat sz)" by (rule mult_le_mono2)
    then show ?thesis using k e by simp
  qed
  define used where "used = used_bytes c reset"
  have used: "used \<le> 2 ^ unat sz" using free by (simp add: used_def used_bytes_def cc)
  have big: "(2 :: nat) ^ unat sz \<le> 2 ^ 47" using sz by (rule power_increasing) simp
  have uw: "unat (of_nat used :: word_t) = used" using used big by (subst unat_of_nat) simp
  show "unat nodeWindow \<le> (2 ^ unat (capBlockSize c) - used_bytes c reset) div 2 ^ unat objectSize \<Longrightarrow>
      2 ^ unat objectSize dvd unat base \<and> unat (capPtr c) + used_bytes c reset \<le> unat base \<and>
      unat base + unat nodeWindow * 2 ^ unat objectSize \<le> unat (capPtr c) + 2 ^ unat (capBlockSize c)"
  proof -
    assume "unat nodeWindow \<le> (2 ^ unat (capBlockSize c) - used_bytes c reset) div 2 ^ unat objectSize"
    then have fit: "unat nodeWindow \<le> (2 ^ unat sz - used) div 2 ^ unat objectSize" by (simp add: cc used_def)
    note af = aligned_fit [OF dv used win fit]
    have "1 * 2 ^ unat objectSize \<le> unat nodeWindow * 2 ^ unat objectSize" using win by (intro mult_le_mono1) simp
    moreover have "unat p + used \<le> (unat p + used + 2 ^ unat objectSize - 1) div 2 ^ unat objectSize * 2 ^ unat objectSize"
      by (rule round_up(1)) simp
    ultimately have sum: "unat p + used + 2 ^ unat objectSize \<le> unat p + 2 ^ unat sz" using af(2) by linarith
    have "unat p + used < unat p + used + 2 ^ unat objectSize" by simp
    then have "unat p + used < 2 ^ 64" using sum top by linarith
    then have w: "unat (p + of_nat used) = unat p + used"
      by (subst unat_add_lem [THEN iffD1]) (simp_all add: uw)
    have b: "unat base = (unat p + used + 2 ^ unat objectSize - 1) div 2 ^ unat objectSize * 2 ^ unat objectSize"
      unfolding base_def cc cap_t.sel used_def [unfolded cc, symmetric]
      using unat_alignUp [OF os, of "p + of_nat used"] sum top unfolding w by simp
    show ?thesis using af(2) round_up(1) [of "2 ^ unat objectSize" "unat p + used"] by (simp add: b cc used_def)
  qed
  have foff: "FREE_INDEX_TO_OFFSET (if reset then 0 else free) = of_nat used"
    by (simp add: FREE_INDEX_TO_OFFSET_def shiftl_def used_def used_bytes_def cc push_bit_eq_mult mult.commute)
  have bytes: "BIT sz - of_nat used = of_nat (2 ^ unat sz - used)"
    using used by (simp add: BIT_def push_bit_eq_mult of_nat_diff)
  have ub: "unat (of_nat (2 ^ unat sz - used) :: word_t) = 2 ^ unat sz - used"
    using big by (subst unat_of_nat) simp
  have less: "shiftr (of_nat (2 ^ unat sz - used)) objectSize < nodeWindow \<longleftrightarrow>
      (2 ^ unat sz - used) div 2 ^ unat objectSize < unat nodeWindow"
    by (simp only: word_less_nat_alt unat_shiftr ub)
  show "decode_retype_memory slot c newType us objectSize destCNode nodeOffset nodeWindow s =
    (if (2 ^ unat (capBlockSize c) - used_bytes c reset) div 2 ^ unat objectSize < unat nodeWindow then
       Some (EXCEPTION_SYSCALL_ERROR,
         s1\<lparr>current_syscall_error := (current_syscall_error s1)
             \<lparr>se_type := seL4_NotEnoughMemory,
              memoryLeft := of_nat (2 ^ unat (capBlockSize c) - used_bytes c reset)\<rparr>\<rparr>)
     else if capIsDevice c \<and> \<not> Arch_isFrameType newType \<and> newType \<noteq> seL4_UntypedObject then
       invalid_argument 1 s1
     else
       do { s \<leftarrow> setThreadState (ksCurThread s1) ThreadState_Restart s1;
            invokeUntyped_Retype slot reset base newType us destCNode nodeOffset nodeWindow (capIsDevice c) s })"
  proof (cases "st = EXCEPTION_NONE")
    case True
    then have r: reset by (simp add: reset_def)
    show ?thesis
      using foff less unfolding decode_retype_memory_def kids Let_def cc cap_t.sel base_def True
        used_def [unfolded cc, symmetric] GET_FREE_REF_def
      by (simp add: r bytes del: of_nat_diff)
  next
    case False
    then have r: "\<not> reset" by (simp add: reset_def)
    show ?thesis
      using foff less unfolding decode_retype_memory_def kids Let_def cc cap_t.sel base_def
        used_def [unfolded cc, symmetric] GET_FREE_REF_def
      by (simp add: r bytes False del: of_nat_diff)
  qed
qed

text \<open>The same with the condition as a product, and the start of the memory as a witness.\<close>

lemma retype_memory:
  assumes "untyped_ok c" and "unat objectSize < 64" and "0 < unat nodeWindow"
    and "ensureNoChildren slot s = Some (st, s1)"
  shows "\<exists>base. decode_retype_memory slot c newType us objectSize destCNode nodeOffset nodeWindow s =
    (if 2 ^ unat (capBlockSize c) - used_bytes c (st = EXCEPTION_NONE) < unat nodeWindow * 2 ^ unat objectSize then
       Some (EXCEPTION_SYSCALL_ERROR,
         s1\<lparr>current_syscall_error := (current_syscall_error s1)
             \<lparr>se_type := seL4_NotEnoughMemory,
              memoryLeft := of_nat (2 ^ unat (capBlockSize c) - used_bytes c (st = EXCEPTION_NONE))\<rparr>\<rparr>)
     else if capIsDevice c \<and> \<not> Arch_isFrameType newType \<and> newType \<noteq> seL4_UntypedObject then
       invalid_argument 1 s1
     else
       do { s \<leftarrow> setThreadState (ksCurThread s1) ThreadState_Restart s1;
            invokeUntyped_Retype slot (st = EXCEPTION_NONE) base newType us destCNode nodeOffset nodeWindow
              (capIsDevice c) s }) \<and>
    (unat nodeWindow * 2 ^ unat objectSize \<le> 2 ^ unat (capBlockSize c) - used_bytes c (st = EXCEPTION_NONE) \<longrightarrow>
      2 ^ unat objectSize dvd unat base \<and> unat (capPtr c) + used_bytes c (st = EXCEPTION_NONE) \<le> unat base \<and>
      unat base + unat nodeWindow * 2 ^ unat objectSize \<le> unat (capPtr c) + 2 ^ unat (capBlockSize c))"
proof -
  have d: "(a div 2 ^ k < n) = (a < n * 2 ^ k)" "(n \<le> a div 2 ^ k) = (n * 2 ^ k \<le> a)" for a k n :: nat
    by (simp_all add: less_mult_imp_div_less div_less_iff_less_mult less_eq_div_iff_mult_less_eq)
  show ?thesis
    using decode_retype_memory_ok [OF assms, unfolded d] by blast
qed

section \<open>Properties\<close>

text \<open>C34: retyping stays within the untyped object. For a well-formed untyped capability,
  \<open>NotEnoughMemory\<close> is raised, with the free bytes, exactly when the requested objects do not fit
  into what is free; otherwise the objects are made in memory that is aligned to their size, begins
  after the bytes in use and ends within the object, though the code computes in words that wrap.\<close>

theorem retype_within_untyped:
  assumes "untyped_ok c" and "unat objectSize < 64" and "0 < unat nodeWindow"
    and "ensureNoChildren slot s = Some (st, s1)"
  shows "\<exists>base used. used = (if st = EXCEPTION_NONE then 0 else unat (capFreeIndex c) * 16) \<and>
    decode_retype_memory slot c newType us objectSize destCNode nodeOffset nodeWindow s =
    (if 2 ^ unat (capBlockSize c) - used < unat nodeWindow * 2 ^ unat objectSize then
       Some (EXCEPTION_SYSCALL_ERROR,
         s1\<lparr>current_syscall_error := (current_syscall_error s1)
             \<lparr>se_type := seL4_NotEnoughMemory, memoryLeft := of_nat (2 ^ unat (capBlockSize c) - used)\<rparr>\<rparr>)
     else if capIsDevice c \<and> \<not> Arch_isFrameType newType \<and> newType \<noteq> seL4_UntypedObject then
       invalid_argument 1 s1
     else
       do { s \<leftarrow> setThreadState (ksCurThread s1) ThreadState_Restart s1;
            invokeUntyped_Retype slot (st = EXCEPTION_NONE) base newType us destCNode nodeOffset nodeWindow
              (capIsDevice c) s }) \<and>
    (unat nodeWindow * 2 ^ unat objectSize \<le> 2 ^ unat (capBlockSize c) - used \<longrightarrow>
      2 ^ unat objectSize dvd unat base \<and> unat (capPtr c) + used \<le> unat base \<and>
      unat base + unat nodeWindow * 2 ^ unat objectSize \<le> unat (capPtr c) + 2 ^ unat (capBlockSize c))"
  unfolding used_bytes_def [symmetric] using retype_memory [OF assms] by blast

text \<open>An untyped object of 4096 bytes at \<open>0x10000\<close> without children, and two objects of 1024 bytes.\<close>

definition example_untyped :: cap_t where
  "example_untyped = cap_untyped_cap 3 False 12 0x10000"

definition example_untyped_state :: kstate where
  "example_untyped_state =
     blank_state\<lparr>ctes := [0x1000 \<mapsto> \<lparr>cte_cap = example_untyped, cteMDBNode = nullMDBNode\<rparr>]\<rparr>"

theorem retype_within_untyped_witness:
  "\<exists>base. decode_retype_memory 0x1000 example_untyped 8 0 10 0x2000 0 2 example_untyped_state =
       do { s \<leftarrow> setThreadState (ksCurThread example_untyped_state) ThreadState_Restart example_untyped_state;
            invokeUntyped_Retype 0x1000 True base 8 0 0x2000 0 2 False s } \<and>
     0x10000 \<le> unat base \<and> unat base + 2048 \<le> 0x11000"
proof -
  have "untyped_ok example_untyped"
    by (simp add: untyped_ok_def example_untyped_def MASK_def BIT_def)
  moreover have "ensureNoChildren 0x1000 example_untyped_state = Some (EXCEPTION_NONE, example_untyped_state)"
    by (simp add: ensureNoChildren_def example_untyped_state_def nullMDBNode_def mdb_node_new_def)
  ultimately show ?thesis
    using retype_within_untyped [where c = example_untyped and objectSize = 10 and nodeWindow = 2
        and slot = "0x1000" and st = EXCEPTION_NONE and newType = 8 and us = 0 and destCNode = "0x2000"
        and nodeOffset = 0]
    by (auto simp: example_untyped_def)
qed

end
