(* ===== verification/Interrupts.thy ===== *)
theory Interrupts
  imports CNode_Inv
begin

text \<open>
  Interrupts: the driver of the GICv2 interrupt controller
  (\<^verbatim>\<open>include/arch/arm/arch/machine/gic_v2.h\<close>), the handling of an interrupt and the invocations of
  the control and handler capabilities (\<^verbatim>\<open>src/object/interrupt.c\<close>) with their Arm half
  (\<^verbatim>\<open>src/arch/arm/object/interrupt.c\<close>). On one core an \<^verbatim>\<open>irq_t\<close> is the hardware number of the interrupt.
\<close>

section \<open>The interrupt controller\<close>

text \<open>A valid interrupt once read is remembered until it is acknowledged.\<close>

definition getActiveIRQ :: "kstate \<Rightarrow> word_t \<times> kstate" where
  "getActiveIRQ s =
     (let s = (if \<not> IS_IRQ_VALID (active_irq s) then
                 let (int_ack, s) = gic_read s in s\<lparr>active_irq := int_ack\<rparr>
               else s)
      in (if IS_IRQ_VALID (active_irq s) then active_irq s AND IRQ_MASK else irqInvalid, s))"

definition ackInterrupt :: "word_t \<Rightarrow> kstate \<Rightarrow> kstate option" where
  "ackInterrupt irq s =
     do { assert_opt (IS_IRQ_VALID (active_irq s) \<and> active_irq s AND IRQ_MASK = irq);
          let s = do_machine_op (write_eoi (active_irq s)) s;
          Some (s\<lparr>active_irq := IRQ_NONE\<rparr>) }"

abbreviation (input) GIC_SGI_NUM_TARGETS :: word_t where "GIC_SGI_NUM_TARGETS \<equiv> 8"
abbreviation (input) NUM_SGIS :: word_t where "NUM_SGIS \<equiv> 16"

definition plat_SGITargetValid :: "word_t \<Rightarrow> bool" where
  "plat_SGITargetValid target \<longleftrightarrow> target \<le> GIC_SGI_NUM_TARGETS - 1"

definition plat_sendSGI :: "word_t \<Rightarrow> word_t \<Rightarrow> kstate \<Rightarrow> kstate" where
  "plat_sendSGI irq target =
     do_machine_op (write_sgi_control (shiftl (BIT target) 16 OR shiftl irq 0))"

definition Arch_checkIRQ :: "word_t \<Rightarrow> kstate \<Rightarrow> exception_t \<times> kstate" where
  "Arch_checkIRQ irq_w s =
     (if irq_w > maxIRQ s then (EXCEPTION_SYSCALL_ERROR, range_error 0 (maxIRQ s) s)
      else (EXCEPTION_NONE, s))"

definition isIRQActive :: "word_t \<Rightarrow> kstate \<Rightarrow> bool" where
  "isIRQActive irq s \<longleftrightarrow> intStateIRQTable s irq \<noteq> IRQInactive"

section \<open>Handling an interrupt\<close>

definition handleInterrupt :: "word_t \<Rightarrow> kstate \<Rightarrow> kstate option" where
  "handleInterrupt irq s =
     (if irq > maxIRQ s then ackInterrupt irq (do_machine_op (maskInterrupt True irq) s)
      else
        do { s \<leftarrow> (case intStateIRQTable s irq of
                   IRQSignal \<Rightarrow>
                     do { slot \<leftarrow> ctes s (cte_index (intStateIRQNode s) irq);
                          s \<leftarrow> (case cte_cap slot of
                                 cap_notification_cap badge _ canSend ntfn \<Rightarrow>
                                   if canSend then sendSignal ntfn badge s else Some s
                               | _ \<Rightarrow> Some s);
                          Some (do_machine_op (maskInterrupt True irq) s) }
                 | IRQTimer \<Rightarrow>
                     do { s \<leftarrow> timerTick s; Some (do_machine_op resetTimer s) }
                 | IRQReserved \<Rightarrow> Some s
                 | IRQInactive \<Rightarrow> Some (do_machine_op (maskInterrupt True irq) s));
             ackInterrupt irq s })"

definition checkInterrupt :: "kstate \<Rightarrow> kstate option" where
  "checkInterrupt s =
     (let (irq, s) = getActiveIRQ s in
      if irq \<noteq> irqInvalid then handleInterrupt irq s else Some s)"

section \<open>Invocations of the control capability\<close>

definition invokeIRQControl :: "word_t \<Rightarrow> ptr \<Rightarrow> ptr \<Rightarrow> kstate \<Rightarrow> (exception_t \<times> kstate) option" where
  "invokeIRQControl irq handlerSlot controlSlot s =
     do { let s = setIRQState IRQSignal irq s;
          s \<leftarrow> cteInsert (cap_irq_handler_cap irq) controlSlot handlerSlot s;
          Some (EXCEPTION_NONE, s) }"

definition Arch_invokeIRQControl ::
    "word_t \<Rightarrow> ptr \<Rightarrow> ptr \<Rightarrow> bool \<Rightarrow> kstate \<Rightarrow> (exception_t \<times> kstate) option" where
  "Arch_invokeIRQControl irq handlerSlot controlSlot trigger s =
     invokeIRQControl irq handlerSlot controlSlot (do_machine_op (setIRQTrigger irq trigger) s)"

definition Arch_invokeIssueSGISignal ::
    "word_t \<Rightarrow> word_t \<Rightarrow> ptr \<Rightarrow> ptr \<Rightarrow> kstate \<Rightarrow> (exception_t \<times> kstate) option" where
  "Arch_invokeIssueSGISignal irq target sgiSlot controlSlot s =
     do { s \<leftarrow> cteInsert (cap_sgi_signal_cap irq target) controlSlot sgiSlot s;
          Some (EXCEPTION_NONE, s) }"

text \<open>The destination of a new capability: the slot of the address, which must be empty.\<close>

definition empty_target_slot ::
    "cap_t \<Rightarrow> word_t \<Rightarrow> word_t \<Rightarrow> kstate \<Rightarrow> ((exception_t \<times> ptr) \<times> kstate) option" where
  "empty_target_slot root index depth s =
     do { ((status, destSlot), s) \<leftarrow> lookupTargetSlot root index depth s;
          if status \<noteq> EXCEPTION_NONE then Some ((status, NULL), s)
          else
            do { (status, s) \<leftarrow> ensureEmptySlot destSlot s;
                 Some ((status, destSlot), s) } }"

definition decode_irq_handler_trigger ::
    "word_t \<Rightarrow> ptr \<Rightarrow> ptr \<Rightarrow> kstate \<Rightarrow> (exception_t \<times> kstate) option" where
  "decode_irq_handler_trigger len srcSlot buffer s =
     (if len < 4 \<or> current_extra_caps s 0 = NULL then syscall_error seL4_TruncatedMessage s
      else
        do { irq \<leftarrow> getSyscallArg 0 buffer s;
             trigger \<leftarrow> getSyscallArg 1 buffer s;
             index \<leftarrow> getSyscallArg 2 buffer s;
             depth \<leftarrow> getSyscallArg 3 buffer s;
             root \<leftarrow> ctes s (current_extra_caps s 0);
             let (status, s) = Arch_checkIRQ irq s;
             if status \<noteq> EXCEPTION_NONE then Some (status, s)
             else if isIRQActive irq s then syscall_error seL4_RevokeFirst s
             else
               do { ((status, destSlot), s) \<leftarrow> empty_target_slot (cte_cap root) index depth s;
                    if status \<noteq> EXCEPTION_NONE then Some (status, s)
                    else
                      do { s \<leftarrow> setThreadState (ksCurThread s) ThreadState_Restart s;
                           Arch_invokeIRQControl irq destSlot srcSlot (trigger \<noteq> 0) s } } })"

definition decode_issue_sgi_signal ::
    "word_t \<Rightarrow> ptr \<Rightarrow> ptr \<Rightarrow> kstate \<Rightarrow> (exception_t \<times> kstate) option" where
  "decode_issue_sgi_signal len srcSlot buffer s =
     (if len < 4 \<or> current_extra_caps s 0 = NULL then syscall_error seL4_TruncatedMessage s
      else
        do { irq \<leftarrow> getSyscallArg 0 buffer s;
             target \<leftarrow> getSyscallArg 1 buffer s;
             index \<leftarrow> getSyscallArg 2 buffer s;
             depth \<leftarrow> getSyscallArg 3 buffer s;
             root \<leftarrow> ctes s (current_extra_caps s 0);
             if irq \<ge> NUM_SGIS then Some (EXCEPTION_SYSCALL_ERROR, range_error 0 (NUM_SGIS - 1) s)
             else if \<not> plat_SGITargetValid target then invalid_argument 1 s
             else
               do { ((status, destSlot), s) \<leftarrow> empty_target_slot (cte_cap root) index depth s;
                    if status \<noteq> EXCEPTION_NONE then Some (status, s)
                    else
                      do { s \<leftarrow> setThreadState (ksCurThread s) ThreadState_Restart s;
                           Arch_invokeIssueSGISignal irq target destSlot srcSlot s } } })"

definition Arch_decodeIRQControlInvocation ::
    "word_t \<Rightarrow> word_t \<Rightarrow> ptr \<Rightarrow> ptr \<Rightarrow> kstate \<Rightarrow> (exception_t \<times> kstate) option" where
  "Arch_decodeIRQControlInvocation invLabel len srcSlot buffer s =
     (if invLabel = ARMIRQIssueIRQHandlerTrigger then decode_irq_handler_trigger len srcSlot buffer s
      else if invLabel = ARMIRQIssueSGISignal then decode_issue_sgi_signal len srcSlot buffer s
      else syscall_error seL4_IllegalOperation s)"

definition decodeIRQControlInvocation ::
    "word_t \<Rightarrow> word_t \<Rightarrow> ptr \<Rightarrow> ptr \<Rightarrow> kstate \<Rightarrow> (exception_t \<times> kstate) option" where
  "decodeIRQControlInvocation invLabel len srcSlot buffer s =
     (if invLabel = IRQIssueIRQHandler then
        if len < 3 \<or> current_extra_caps s 0 = NULL then syscall_error seL4_TruncatedMessage s
        else
          do { irq \<leftarrow> getSyscallArg 0 buffer s;
               index \<leftarrow> getSyscallArg 1 buffer s;
               depth \<leftarrow> getSyscallArg 2 buffer s;
               root \<leftarrow> ctes s (current_extra_caps s 0);
               let (status, s) = Arch_checkIRQ irq s;
               if status \<noteq> EXCEPTION_NONE then Some (status, s)
               else if isIRQActive irq s then syscall_error seL4_RevokeFirst s
               else
                 do { ((status, destSlot), s) \<leftarrow> empty_target_slot (cte_cap root) index depth s;
                      if status \<noteq> EXCEPTION_NONE then Some (status, s)
                      else
                        do { s \<leftarrow> setThreadState (ksCurThread s) ThreadState_Restart s;
                             invokeIRQControl irq destSlot srcSlot s } } }
      else Arch_decodeIRQControlInvocation invLabel len srcSlot buffer s)"

section \<open>Invocations of handler and signal capabilities\<close>

definition invokeIRQHandler_AckIRQ :: "word_t \<Rightarrow> kstate \<Rightarrow> kstate" where
  "invokeIRQHandler_AckIRQ irq = do_machine_op (maskInterrupt False irq)"

definition invokeIRQHandler_SetIRQHandler :: "word_t \<Rightarrow> cap_t \<Rightarrow> ptr \<Rightarrow> kstate \<Rightarrow> kstate option" where
  "invokeIRQHandler_SetIRQHandler irq c slot s =
     do { let irqSlot = cte_index (intStateIRQNode s) irq;
          s \<leftarrow> cteDeleteOne irqSlot s;
          cteInsert c slot irqSlot s }"

definition invokeIRQHandler_ClearIRQHandler :: "word_t \<Rightarrow> kstate \<Rightarrow> kstate option" where
  "invokeIRQHandler_ClearIRQHandler irq s = cteDeleteOne (cte_index (intStateIRQNode s) irq) s"

definition decodeIRQHandlerInvocation :: "word_t \<Rightarrow> word_t \<Rightarrow> kstate \<Rightarrow> (exception_t \<times> kstate) option" where
  "decodeIRQHandlerInvocation invLabel irq s =
     (if invLabel = IRQAckIRQ then
        do { s \<leftarrow> setThreadState (ksCurThread s) ThreadState_Restart s;
             Some (EXCEPTION_NONE, invokeIRQHandler_AckIRQ irq s) }
      else if invLabel = IRQSetIRQHandler then
        if current_extra_caps s 0 = NULL then syscall_error seL4_TruncatedMessage s
        else
          do { let slot = current_extra_caps s 0;
               cte \<leftarrow> ctes s slot;
               if cap_get_capType (cte_cap cte) \<noteq> 6 \<or> \<not> capNtfnCanSend (cte_cap cte) then
                 invalid_capability 0 s
               else
                 do { s \<leftarrow> setThreadState (ksCurThread s) ThreadState_Restart s;
                      s \<leftarrow> invokeIRQHandler_SetIRQHandler irq (cte_cap cte) slot s;
                      Some (EXCEPTION_NONE, s) } }
      else if invLabel = IRQClearIRQHandler then
        do { s \<leftarrow> setThreadState (ksCurThread s) ThreadState_Restart s;
             s \<leftarrow> invokeIRQHandler_ClearIRQHandler irq s;
             Some (EXCEPTION_NONE, s) }
      else syscall_error seL4_IllegalOperation s)"

definition invokeSGISignalGenerate :: "word_t \<Rightarrow> word_t \<Rightarrow> kstate \<Rightarrow> exception_t \<times> kstate" where
  "invokeSGISignalGenerate irq target s = (EXCEPTION_NONE, plat_sendSGI irq target s)"

definition decodeSGISignalInvocation :: "cap_t \<Rightarrow> kstate \<Rightarrow> (exception_t \<times> kstate) option" where
  "decodeSGISignalInvocation c s =
     do { s \<leftarrow> setThreadState (ksCurThread s) ThreadState_Restart s;
          Some (invokeSGISignalGenerate (capSGIIRQ c) (capSGITarget c) s) }"

end
