(* ===== verification/Domains.thy ===== *)
theory Domains
  imports CNode_Inv
begin

text \<open>
  The invocations of the domain capability, \<^verbatim>\<open>src/object/domain.c\<close>: moving a thread to a domain
  and configuring the domain schedule. They keep the schedule such that \<open>nextDomain\<close> stays in the
  bounds of its array.
\<close>

section \<open>Operations\<close>

definition invokeDomainSetSet :: "ptr \<Rightarrow> word_t \<Rightarrow> kstate \<Rightarrow> kstate option" where
  "invokeDomainSetSet tcb dm s = setDomain tcb dm (prepareSetDomain tcb dm s)"

definition decodeDomainSetSetInvocation :: "word_t \<Rightarrow> ptr \<Rightarrow> kstate \<Rightarrow> (exception_t \<times> kstate) option" where
  "decodeDomainSetSetInvocation len buffer s =
     (if len = 0 then syscall_error seL4_TruncatedMessage s
      else
        do { dm \<leftarrow> getSyscallArg 0 buffer s;
             if dm \<ge> numDomains s then invalid_argument 0 s
             else if current_extra_caps s 0 = NULL then syscall_error seL4_TruncatedMessage s
             else
               do { x \<leftarrow> ctes s (current_extra_caps s 0);
                    case cte_cap x of
                      cap_thread_cap tcb \<Rightarrow>
                        do { s \<leftarrow> setThreadState (ksCurThread s) ThreadState_Restart s;
                             s \<leftarrow> invokeDomainSetSet tcb dm s;
                             Some (EXCEPTION_NONE, s) }
                    | _ \<Rightarrow> invalid_argument 1 s } })"

text \<open>A write beyond the array is \<open>None\<close>.\<close>

definition invokeDomainScheduleConfigure :: "word_t \<Rightarrow> word_t \<Rightarrow> word_t \<Rightarrow> kstate \<Rightarrow> kstate option" where
  "invokeDomainScheduleConfigure index dm duration s =
     do { assert_opt (index < domScheduleLength s);
          Some (s\<lparr>ksDomSchedule := (ksDomSchedule s)(index := dschedule_make dm duration)\<rparr>) }"

definition decodeDomainScheduleConfigure :: "word_t \<Rightarrow> ptr \<Rightarrow> kstate \<Rightarrow> (exception_t \<times> kstate) option" where
  "decodeDomainScheduleConfigure len buffer s =
     (if len < 3 then syscall_error seL4_TruncatedMessage s
      else
        do { index \<leftarrow> getSyscallArg 0 buffer s;
             dm \<leftarrow> getSyscallArg 1 buffer s;
             duration \<leftarrow> getSyscallArg 2 buffer s;
             if index \<ge> domScheduleLength s - 1 then
               Some (EXCEPTION_SYSCALL_ERROR, range_error 0 (domScheduleLength s - 2) s)
             else if dm \<ge> numDomains s then
               Some (EXCEPTION_SYSCALL_ERROR, range_error 0 (numDomains s - 1) s)
             else if duration > DSCHED_MAX_DURATION then invalid_argument 2 s
             else if duration = 0 \<and> dm \<noteq> 0 then invalid_argument 1 s
             else if index = ksDomScheduleStart s \<and> duration = 0 then invalid_argument 2 s
             else
               do { s \<leftarrow> setThreadState (ksCurThread s) ThreadState_Restart s;
                    s \<leftarrow> invokeDomainScheduleConfigure index dm duration s;
                    Some (EXCEPTION_NONE, s) } })"

definition invokeDomainScheduleSetStart :: "word_t \<Rightarrow> kstate \<Rightarrow> kstate option" where
  "invokeDomainScheduleSetStart index s =
     rescheduleRequired
       (s\<lparr>ksDomScheduleStart := index, ksDomainTime := 0, ksDomScheduleIdx := domScheduleLength s - 2\<rparr>)"

definition decodeDomainScheduleSetStart :: "word_t \<Rightarrow> ptr \<Rightarrow> kstate \<Rightarrow> (exception_t \<times> kstate) option" where
  "decodeDomainScheduleSetStart len buffer s =
     (if len < 1 then syscall_error seL4_TruncatedMessage s
      else
        do { index \<leftarrow> getSyscallArg 0 buffer s;
             if index \<ge> domScheduleLength s then
               Some (EXCEPTION_SYSCALL_ERROR, range_error 0 (domScheduleLength s - 1) s)
             else
               do { at_end \<leftarrow> dschedule_is_end_marker index s;
                    if at_end then invalid_argument 0 s
                    else
                      do { s \<leftarrow> setThreadState (ksCurThread s) ThreadState_Restart s;
                           s \<leftarrow> invokeDomainScheduleSetStart index s;
                           Some (EXCEPTION_NONE, s) } } })"

definition decodeDomainInvocation ::
    "word_t \<Rightarrow> word_t \<Rightarrow> ptr \<Rightarrow> kstate \<Rightarrow> (exception_t \<times> kstate) option" where
  "decodeDomainInvocation invLabel len buffer s =
     (if invLabel = DomainSetSet then decodeDomainSetSetInvocation len buffer s
      else if invLabel = DomainScheduleConfigure then decodeDomainScheduleConfigure len buffer s
      else if invLabel = DomainScheduleSetStart then decodeDomainScheduleSetStart len buffer s
      else syscall_error seL4_IllegalOperation s)"

section \<open>Entries of the schedule\<close>

lemma dschedule_make_fields:
  assumes d: "dm < n" "n \<le> 256" and t: "duration \<le> DSCHED_MAX_DURATION"
  shows "dschedule_domain (dschedule_make dm duration) = dm"
    and "dschedule_duration (dschedule_make dm duration) = duration"
proof -
  have m: "DSCHED_MAX_DURATION = mask 56"
    by (simp add: DSCHED_MAX_DURATION_def shiftr_def mask_eq_exp_minus_1)
  have t': "take_bit 56 duration = duration"
    using t by (simp add: word_unat_eq_iff unsigned_take_bit_eq take_bit_nat_eq_self_iff m mask_eq_exp_minus_1
        word_le_nat_alt)
  have d': "take_bit 8 dm = dm"
    using d by (simp add: word_unat_eq_iff unsigned_take_bit_eq take_bit_nat_eq_self_iff word_le_nat_alt word_less_nat_alt)
  have bd: "\<not> bit dm k" if "8 \<le> k" for k
    using that by (subst d' [symmetric]) (simp add: bit_take_bit_iff)
  have small: "k < 8" if "bit dm k" for k
    by (rule ccontr) (use bd that in auto)
  have bt: "\<not> bit duration k" if "56 \<le> k" for k
    using that by (subst t' [symmetric]) (simp add: bit_take_bit_iff)
  have short: "k < 56" if "bit duration k" for k
    by (rule ccontr) (use bt that in auto)
  show "dschedule_domain (dschedule_make dm duration) = dm"
    by (rule bit_word_eqI) (auto simp: dschedule_domain_def dschedule_make_def shiftl_def shiftr_def bit_simps bd bt dest: small)
  show "dschedule_duration (dschedule_make dm duration) = duration"
    by (rule bit_word_eqI) (auto simp: dschedule_duration_def dschedule_make_def shiftl_def m bit_simps bt dest: short)
qed

section \<open>The schedule stays in bounds\<close>

text \<open>The invariant of the scheduler depends on these parts of the state only.\<close>

lemma sched_ok_cong:
  assumes ok: "sched_ok s rq" and dom: "dom_sched_ok s'"
    and eq: "tcbs s' = tcbs s" "ctes s' = ctes s" "ptes s' = ptes s" "asid_pools s' = asid_pools s"
      "armKSASIDTable s' = armKSASIDTable s" "pptrBaseOffset s' = pptrBaseOffset s" "numDomains s' = numDomains s"
      "ksReadyQueues s' = ksReadyQueues s" "ksReadyQueuesL1Bitmap s' = ksReadyQueuesL1Bitmap s"
      "ksReadyQueuesL2Bitmap s' = ksReadyQueuesL2Bitmap s" "ksCurThread s' = ksCurThread s"
      "ksIdleThread s' = ksIdleThread s" "ksCurDomain s' = ksCurDomain s"
  shows "sched_ok s' rq" and "ksSchedulerAction s' = ksSchedulerAction s \<Longrightarrow> action_ok s' = action_ok s"
proof -
  have "ready_queues_ok s' rq = ready_queues_ok s rq" by (rule ready_queues_ok_cong) (simp_all add: eq)
  moreover have "findMapForASID a s' = findMapForASID a s" for a
    by (rule findMapForASID_cong) (simp_all add: eq)
  ultimately show "sched_ok s' rq"
    using ok dom by (simp add: sched_ok_def sched_env_def vspaces_wf_def pt_live_def paddr_to_pptr_def eq
        idle_thread_def runnable_def)
  show "ksSchedulerAction s' = ksSchedulerAction s \<Longrightarrow> action_ok s' = action_ok s"
    by (simp add: action_ok_def runnable_def eq)
qed

lemma dom_sched_ok_configure:
  assumes ok: "dom_sched_ok s" and i: "index < domScheduleLength s - 1" and d: "dm < numDomains s" "numDomains s \<le> 256"
    and t: "duration \<le> DSCHED_MAX_DURATION" "duration = 0 \<Longrightarrow> dm = 0"
      "index = ksDomScheduleStart s \<Longrightarrow> duration \<noteq> 0"
  shows "dom_sched_ok (s\<lparr>ksDomSchedule := (ksDomSchedule s)(index := dschedule_make dm duration)\<rparr>)"
    and "index < domScheduleLength s"
proof -
  note f = dschedule_make_fields [OF d t(1)]
  have z: "dschedule_duration 0 = 0" by (simp add: dschedule_duration_def)
  have nz: "dschedule_make dm duration \<noteq> 0 \<longleftrightarrow> duration \<noteq> 0"
    using f t(2) z by (auto simp: dschedule_make_def shiftl_def)
  have n0: "domScheduleLength s \<noteq> 0" using ok by (auto simp: dom_sched_ok_def)
  have "domScheduleLength s - 1 < domScheduleLength s"
    using n0 by (simp add: word_less_nat_alt unat_minus_one word_neq_0_conv)
  with i show "index < domScheduleLength s" by (rule less_trans)
  show "dom_sched_ok (s\<lparr>ksDomSchedule := (ksDomSchedule s)(index := dschedule_make dm duration)\<rparr>)"
    using ok i d(1) f nz t(3) by (auto simp: dom_sched_ok_def)
qed

lemma dom_sched_ok_start:
  assumes ok: "dom_sched_ok s" and i: "index < domScheduleLength s" "ksDomSchedule s index \<noteq> 0"
  shows "dom_sched_ok (s\<lparr>ksDomScheduleStart := index, ksDomainTime := d, ksDomScheduleIdx := domScheduleLength s - 2\<rparr>)"
proof -
  have "index \<noteq> domScheduleLength s - 1" using ok i(2) by (auto simp: dom_sched_ok_def)
  with i(1) have "index < domScheduleLength s - 1" by (rule word_before_last)
  then have p: "0 < domScheduleLength s - 1" by (rule le_less_trans [rotated]) simp
  have "domScheduleLength s - 1 - 1 < domScheduleLength s - 1"
    using p unat_minus_one [of "domScheduleLength s - 1"] unfolding word_less_nat_alt unat_0 by fastforce
  then show ?thesis using ok i by (auto simp: dom_sched_ok_def)
qed


section \<open>The invocations\<close>

text \<open>What every outcome of an invocation has in common.\<close>

definition keeps_schedule :: "(exception_t \<times> kstate) option \<Rightarrow> bool" where
  "keeps_schedule r \<longleftrightarrow>
     (\<exists>st s' rq'. r = Some (st, s') \<and> sched_ok s' rq' \<and> action_ok s' \<and>
        (st = EXCEPTION_NONE \<or> st = EXCEPTION_SYSCALL_ERROR))"

lemma keeps_scheduleI:
  "sched_ok s' rq' \<Longrightarrow> action_ok s' \<Longrightarrow> st = EXCEPTION_NONE \<or> st = EXCEPTION_SYSCALL_ERROR \<Longrightarrow>
   keeps_schedule (Some (st, s'))"
  unfolding keeps_schedule_def by blast

text \<open>An error changes only the registers of the error.\<close>

lemma keeps_schedule_error:
  assumes ok: "sched_ok s rq" and act: "action_ok s"
  shows "keeps_schedule (syscall_error e s)" and "keeps_schedule (invalid_argument n s)"
    and "keeps_schedule (Some (EXCEPTION_SYSCALL_ERROR, range_error a b s))"
proof -
  have d: "dom_sched_ok (s\<lparr>current_syscall_error := x\<rparr>)" for x
    using ok by (simp add: sched_ok_def dom_sched_ok_def)
  have "sched_ok (s\<lparr>current_syscall_error := x\<rparr>) rq" and "action_ok (s\<lparr>current_syscall_error := x\<rparr>)" for x
    using sched_ok_cong [OF ok d [of x]] act by simp_all
  then have k: "keeps_schedule (Some (EXCEPTION_SYSCALL_ERROR, s\<lparr>current_syscall_error := x\<rparr>))" for x
    by (intro keeps_scheduleI) simp_all
  show "keeps_schedule (syscall_error e s)" "keeps_schedule (invalid_argument n s)"
    "keeps_schedule (Some (EXCEPTION_SYSCALL_ERROR, range_error a b s))"
    by (simp_all add: syscall_error_def set_error_type_def invalid_argument_def range_error_def k)
qed

lemma getSyscallArg_register:
  assumes "i < 4" and "tcbs s (ksCurThread s) = Some T"
  shows "\<exists>w. getSyscallArg i buffer s = Some w"
  using assms by (simp add: getSyscallArg_def getRegister_def)

text \<open>The current thread is put to \<open>Restart\<close> before an operation is performed.\<close>

lemma restart_current:
  assumes ok: "sched_ok s rq" and act: "action_ok s" and cur: "ksCurThread s \<noteq> ksIdleThread s"
  obtains s1 where "setThreadState (ksCurThread s) ThreadState_Restart s = Some s1" and "sched_ok s1 rq"
    and "action_ok s1" and "dom (tcbs s1) = dom (tcbs s)" and "ksCurThread s1 = ksCurThread s"
proof -
  from ok obtain T where T: "tcbs s (ksCurThread s) = Some T" by (auto simp: sched_ok_def)
  from setThreadState_ok [OF ok act T, of ThreadState_Restart] cur obtain s1 where
    s1: "setThreadState (ksCurThread s) ThreadState_Restart s = Some s1" "sched_ok s1 rq" "action_ok s1"
      "tcbs s1 = (tcbs s)(ksCurThread s \<mapsto> T\<lparr>tcbState := (tcbState T)\<lparr>tsType := ThreadState_Restart\<rparr>\<rparr>)"
      "ksCurThread s1 = ksCurThread s" by auto
  show thesis using T by (intro that [OF s1(1-3) _ s1(5)]) (auto simp: s1(4))
qed

lemma setThreadState_domains:
  assumes "setThreadState t ts s = Some s'"
  shows "numDomains s' = numDomains s" and "ksDomSchedule s' = ksDomSchedule s"
    and "domScheduleLength s' = domScheduleLength s" and "ksDomScheduleStart s' = ksDomScheduleStart s"
proof -
  from assms obtain T where T: "tcbs s t = Some T"
    by (cases "tcbs s t") (simp_all add: setThreadState_def ts_upd_def tcb_upd_def)
  let ?T = "T\<lparr>tcbState := (tcbState T)\<lparr>tsType := ts\<rparr>\<rparr>"
  let ?s1 = "s\<lparr>tcbs := (tcbs s)(t \<mapsto> ?T)\<rparr>"
  have "setThreadState t ts s =
      Some (if t = ksCurThread s \<and> ksSchedulerAction s = 0 \<and> \<not> isRunnable ?T then set_action 1 ?s1 else ?s1)"
    using T by (simp add: setThreadState_def scheduleTCB_def kmonad)
  with assms have "s' = (if t = ksCurThread s \<and> ksSchedulerAction s = 0 \<and> \<not> isRunnable ?T then set_action 1 ?s1 else ?s1)"
    by simp
  then show "numDomains s' = numDomains s" "ksDomSchedule s' = ksDomSchedule s"
    "domScheduleLength s' = domScheduleLength s" "ksDomScheduleStart s' = ksDomScheduleStart s"
    by (simp_all add: set_action_def)
qed

lemma domain_set_ok:
  assumes ok: "sched_ok s rq" and act: "action_ok s" and cur: "ksCurThread s \<noteq> ksIdleThread s"
    and t: "tcbs s t \<noteq> None" and d: "dm < numDomains s"
  shows "keeps_schedule (do { s \<leftarrow> setThreadState (ksCurThread s) ThreadState_Restart s;
                              s \<leftarrow> invokeDomainSetSet t dm s; Some (EXCEPTION_NONE, s) })"
proof -
  obtain s1 where s1:
    "setThreadState (ksCurThread s) ThreadState_Restart s = Some s1" "sched_ok s1 rq" "action_ok s1"
    "dom (tcbs s1) = dom (tcbs s)" "ksCurThread s1 = ksCurThread s"
    by (rule restart_current [OF ok act cur])
  let ?s2 = "prepareSetDomain t dm s1"
  have e: "dom_sched_ok ?s2" "tcbs ?s2 = tcbs s1" "ctes ?s2 = ctes s1" "ptes ?s2 = ptes s1" "asid_pools ?s2 = asid_pools s1"
    "armKSASIDTable ?s2 = armKSASIDTable s1" "pptrBaseOffset ?s2 = pptrBaseOffset s1" "numDomains ?s2 = numDomains s1"
    "ksReadyQueues ?s2 = ksReadyQueues s1" "ksReadyQueuesL1Bitmap ?s2 = ksReadyQueuesL1Bitmap s1"
    "ksReadyQueuesL2Bitmap ?s2 = ksReadyQueuesL2Bitmap s1" "ksCurThread ?s2 = ksCurThread s1"
    "ksIdleThread ?s2 = ksIdleThread s1" "ksCurDomain ?s2 = ksCurDomain s1" "ksSchedulerAction ?s2 = ksSchedulerAction s1"
    using s1(2) by (simp_all add: prepareSetDomain_def fpuRelease_def switchFpuOwner_def switchLocalFpuOwner_def
        do_machine_op_def Let_def sched_ok_def dom_sched_ok_def)
  have k: "sched_ok ?s2 rq" "action_ok ?s2"
    using sched_ok_cong [OF s1(2) e(1-14)] e(15) s1(3) by simp_all
  have "tcbs ?s2 t \<noteq> None" using t s1(4) by (auto simp: e(2) dom_def)
  then obtain T where T: "tcbs ?s2 t = Some T" by auto
  have "numDomains s1 = numDomains s" by (rule setThreadState_domains(1) [OF s1(1)])
  then have d2: "dm < numDomains ?s2" using d e(8) by simp
  from setDomain_ok [OF k T d2] obtain s3 rq3 where
    "setDomain t dm ?s2 = Some s3" "sched_ok s3 rq3" "action_ok s3" by blast
  with s1(1) show ?thesis by (auto simp: invokeDomainSetSet_def intro: keeps_scheduleI)
qed

lemma domain_configure_ok:
  assumes ok: "sched_ok s rq" and act: "action_ok s" and cur: "ksCurThread s \<noteq> ksIdleThread s"
    and i: "index < domScheduleLength s - 1" and d: "dm < numDomains s"
    and t: "duration \<le> DSCHED_MAX_DURATION" "duration = 0 \<Longrightarrow> dm = 0"
      "index = ksDomScheduleStart s \<Longrightarrow> duration \<noteq> 0"
  shows "keeps_schedule (do { s \<leftarrow> setThreadState (ksCurThread s) ThreadState_Restart s;
                              s \<leftarrow> invokeDomainScheduleConfigure index dm duration s; Some (EXCEPTION_NONE, s) })"
proof -
  obtain s1 where s1:
    "setThreadState (ksCurThread s) ThreadState_Restart s = Some s1" "sched_ok s1 rq" "action_ok s1"
    "dom (tcbs s1) = dom (tcbs s)" "ksCurThread s1 = ksCurThread s"
    by (rule restart_current [OF ok act cur])
  note f = setThreadState_domains [OF s1(1)]
  have dk: "dom_sched_ok s1" "numDomains s1 \<le> 256"
    using s1(2) by (auto simp: sched_ok_def ready_queues_ok_def tcbs_ok_def)
  note c = dom_sched_ok_configure [OF dk(1) _ _ dk(2) t(1), of index dm, unfolded f(1,3,4), OF i d t(2,3)]
  have "sched_ok (s1\<lparr>ksDomSchedule := (ksDomSchedule s1)(index := dschedule_make dm duration)\<rparr>) rq"
    "action_ok (s1\<lparr>ksDomSchedule := (ksDomSchedule s1)(index := dschedule_make dm duration)\<rparr>)"
    using sched_ok_cong [OF s1(2) c(1)] s1(3) by simp_all
  then show ?thesis
    using s1(1) c(2) f(3) by (auto simp: invokeDomainScheduleConfigure_def intro: keeps_scheduleI)
qed

lemma domain_start_ok:
  assumes ok: "sched_ok s rq" and act: "action_ok s" and cur: "ksCurThread s \<noteq> ksIdleThread s"
    and i: "index < domScheduleLength s" "ksDomSchedule s index \<noteq> 0"
  shows "keeps_schedule (do { s \<leftarrow> setThreadState (ksCurThread s) ThreadState_Restart s;
                              s \<leftarrow> invokeDomainScheduleSetStart index s; Some (EXCEPTION_NONE, s) })"
proof -
  obtain s1 where s1:
    "setThreadState (ksCurThread s) ThreadState_Restart s = Some s1" "sched_ok s1 rq" "action_ok s1"
    "dom (tcbs s1) = dom (tcbs s)" "ksCurThread s1 = ksCurThread s"
    by (rule restart_current [OF ok act cur])
  note f = setThreadState_domains [OF s1(1)]
  have dk: "dom_sched_ok s1" using s1(2) by (simp add: sched_ok_def)
  note c = dom_sched_ok_start [OF dk, of index 0, unfolded f, OF i]
  let ?s2 = "s1\<lparr>ksDomScheduleStart := index, ksDomainTime := 0, ksDomScheduleIdx := domScheduleLength s1 - 2\<rparr>"
  have k: "sched_ok ?s2 rq" "action_ok ?s2"
    using sched_ok_cong [OF s1(2), of ?s2] c s1(3) f(3) by simp_all
  from reschedule_pool [OF k] obtain s3 rq3 where
    "rescheduleRequired ?s2 = Some s3" "sched_ok s3 rq3" "action_ok s3" by blast
  with s1(1) show ?thesis by (auto simp: invokeDomainScheduleSetStart_def intro: keeps_scheduleI)
qed

lemma decodeDomainInvocation_ok:
  assumes ok: "sched_ok s rq" and act: "action_ok s" and cur: "ksCurThread s \<noteq> ksIdleThread s"
    and xtra: "current_extra_caps s 0 \<noteq> NULL \<Longrightarrow> \<exists>x. ctes s (current_extra_caps s 0) = Some x \<and>
      (\<forall>t. cte_cap x = cap_thread_cap t \<longrightarrow> tcbs s t \<noteq> None)"
  shows "keeps_schedule (decodeDomainInvocation invLabel len buffer s)"
proof -
  note err = keeps_schedule_error [OF ok act]
  obtain T where T: "tcbs s (ksCurThread s) = Some T" using ok by (auto simp: sched_ok_def)
  obtain a0 a1 a2 where a: "getSyscallArg 0 buffer s = Some a0" "getSyscallArg 1 buffer s = Some a1"
    "getSyscallArg 2 buffer s = Some a2"
    using getSyscallArg_register [OF _ T] by (metis one_less_numeral_iff semiring_norm(76,78) zero_less_numeral
        numeral_less_iff)
  have "keeps_schedule (decodeDomainSetSetInvocation len buffer s)"
  proof -
    have "keeps_schedule (do { x \<leftarrow> ctes s (current_extra_caps s 0);
        case cte_cap x of
          cap_thread_cap tcb \<Rightarrow>
            do { s \<leftarrow> setThreadState (ksCurThread s) ThreadState_Restart s;
                 s \<leftarrow> invokeDomainSetSet tcb a0 s;
                 Some (EXCEPTION_NONE, s) }
        | _ \<Rightarrow> invalid_argument 1 s })" if h: "a0 < numDomains s" "current_extra_caps s 0 \<noteq> NULL"
    proof -
      from xtra [OF h(2)] obtain x where x: "ctes s (current_extra_caps s 0) = Some x"
        "\<forall>t. cte_cap x = cap_thread_cap t \<longrightarrow> tcbs s t \<noteq> None" by blast
      show ?thesis
        using x domain_set_ok [OF ok act cur _ h(1)] err(2) by (cases "cte_cap x") simp_all
    qed
    then show ?thesis using err by (simp add: decodeDomainSetSetInvocation_def a not_le)
  qed
  moreover have "keeps_schedule (decodeDomainScheduleConfigure len buffer s)"
    using err domain_configure_ok [OF ok act cur, of a0 a1 a2]
    by (auto simp: decodeDomainScheduleConfigure_def a a(2) [unfolded One_nat_def] not_le not_less)
  moreover have "keeps_schedule (decodeDomainScheduleSetStart len buffer s)"
    using err domain_start_ok [OF ok act cur, of a0]
    by (auto simp: decodeDomainScheduleSetStart_def a dschedule_is_end_marker_def dschedule_at_def not_le)
  ultimately show ?thesis using err by (simp add: decodeDomainInvocation_def)
qed

section \<open>Properties\<close>

text \<open>C35: invocations of the domain capability keep the domain schedule in order. Whatever the label,
  the arguments and the capability passed along, the invocation returns without failing an
  assertion or writing beyond the array, the invariant of the scheduler holds again, and so the
  next \<open>nextDomain\<close> finds an entry in bounds that is no end marker.\<close>

theorem decodeDomainInvocation_keeps_schedule:
  assumes "sched_ok s rq" and "action_ok s" and "ksCurThread s \<noteq> ksIdleThread s"
    and "current_extra_caps s 0 \<noteq> NULL \<Longrightarrow> \<exists>x. ctes s (current_extra_caps s 0) = Some x \<and>
      (\<forall>t. cte_cap x = cap_thread_cap t \<longrightarrow> tcbs s t \<noteq> None)"
  shows "\<exists>st s' rq'. decodeDomainInvocation invLabel len buffer s = Some (st, s') \<and>
    sched_ok s' rq' \<and> action_ok s' \<and> (st = EXCEPTION_NONE \<or> st = EXCEPTION_SYSCALL_ERROR) \<and>
    (\<exists>s''. nextDomain s' = Some s'' \<and> ksDomScheduleIdx s'' < domScheduleLength s' - 1 \<and>
      ksDomSchedule s' (ksDomScheduleIdx s'') \<noteq> 0 \<and> ksCurDomain s'' < numDomains s')"
proof -
  from decodeDomainInvocation_ok [OF assms] obtain st s' rq' where
    r: "decodeDomainInvocation invLabel len buffer s = Some (st, s')" "sched_ok s' rq'" "action_ok s'"
      "st = EXCEPTION_NONE \<or> st = EXCEPTION_SYSCALL_ERROR" unfolding keeps_schedule_def by blast
  from r(2) have "dom_sched_ok s'" by (simp add: sched_ok_def)
  from nextDomain_ok [OF this] r show ?thesis by fastforce
qed

theorem decodeDomainInvocation_keeps_schedule_witness:
  "\<exists>st s' rq'. decodeDomainInvocation 31 3 NULL sched_state = Some (st, s') \<and> sched_ok s' rq'"
proof -
  have "ksCurThread sched_state \<noteq> ksIdleThread sched_state" "current_extra_caps sched_state 0 = NULL"
    by (simp_all add: sched_state_def blank_state_def)
  then show ?thesis
    using decodeDomainInvocation_keeps_schedule [OF sched_state_ok(1,2), of 31 3 NULL] by blast
qed

end
