(* ===== verification/TCB_Inv.thy ===== *)
theory TCB_Inv
  imports CNode_Inv
begin

text \<open>
  The invocations of threads, \<^verbatim>\<open>src/object/tcb.c\<close>: reading, writing and copying registers, setting
  priorities, address spaces, the IPC buffer, the bound notification, flags and the thread-local
  storage register, suspending and resuming. Their Arm half (\<^verbatim>\<open>src/arch/arm/object/tcb.c\<close>)
  transfers nothing more. Deleting the old capabilities of a thread takes fuel.
\<close>

section \<open>Registers\<close>

abbreviation (input) TPIDR_EL0 :: register_t where "TPIDR_EL0 \<equiv> 35"
abbreviation (input) TLS_BASE :: register_t where "TLS_BASE \<equiv> 35"
abbreviation (input) TPIDRRO_EL0 :: register_t where "TPIDRRO_EL0 \<equiv> 36"
abbreviation (input) n_frameRegisters :: nat where "n_frameRegisters \<equiv> 17"
abbreviation (input) n_gpRegisters :: nat where "n_gpRegisters \<equiv> 19"

definition frameRegisters :: "register_t list" where
  "frameRegisters = [FaultIP, SP_EL0, SPSR_EL1, 0, 1, 2, 3, 4, 5, 6, 7, 8, 16, 17, 18, 29, 30]"

definition gpRegisters :: "register_t list" where
  "gpRegisters = [9, 10, 11, 12, 13, 14, 15, 19, 20, 21, 22, 23, 24, 25, 26, 27, 28, TPIDR_EL0, TPIDRRO_EL0]"

definition Arch_decodeTransfer :: "word_t \<Rightarrow> word_t" where
  "Arch_decodeTransfer flags = 0"

definition Arch_performTransfer :: "word_t \<Rightarrow> ptr \<Rightarrow> ptr \<Rightarrow> exception_t" where
  "Arch_performTransfer arch tcb_src tcb_dest = EXCEPTION_NONE"

definition Arch_postModifyRegisters :: "ptr \<Rightarrow> kstate \<Rightarrow> kstate" where
  "Arch_postModifyRegisters tptr s = s"

primrec copy_registers :: "ptr \<Rightarrow> ptr \<Rightarrow> register_t list \<Rightarrow> kstate \<Rightarrow> kstate option" where
  "copy_registers src dest [] s = Some s"
| "copy_registers src dest (r # rs) s =
     do { v \<leftarrow> getRegister src r s;
          s \<leftarrow> setRegister dest r v s;
          copy_registers src dest rs s }"

definition invokeTCB_CopyRegisters ::
    "ptr \<Rightarrow> ptr \<Rightarrow> bool \<Rightarrow> bool \<Rightarrow> bool \<Rightarrow> bool \<Rightarrow> word_t \<Rightarrow> kstate \<Rightarrow> (exception_t \<times> kstate) option" where
  "invokeTCB_CopyRegisters dest src suspendSource resumeTarget transferFrame transferInteger transferArch s =
     do { s \<leftarrow> (if suspendSource then suspend src s else Some s);
          s \<leftarrow> (if resumeTarget then restart dest s else Some s);
          s \<leftarrow> (if transferFrame then
                  do { s \<leftarrow> copy_registers src dest frameRegisters s;
                       pc \<leftarrow> getRestartPC dest s;
                       setNextPC dest pc s }
                else Some s);
          s \<leftarrow> (if transferInteger then copy_registers src dest gpRegisters s else Some s);
          let s = Arch_postModifyRegisters dest s;
          s \<leftarrow> (if dest = ksCurThread s then rescheduleRequired s else Some s);
          Some (Arch_performTransfer transferArch src dest, s) }"

text \<open>The loops of reading and writing: register \<open>i\<close> of a list to or from word \<open>i + off\<close> of the message.\<close>

primrec read_to_registers :: "ptr \<Rightarrow> ptr \<Rightarrow> register_t list \<Rightarrow> nat \<Rightarrow> nat list \<Rightarrow> kstate \<Rightarrow> kstate option" where
  "read_to_registers src thread regs off [] s = Some s"
| "read_to_registers src thread regs off (i # is) s =
     do { v \<leftarrow> getRegister src (regs ! i) s;
          s \<leftarrow> setRegister thread (msgRegisters ! (i + off)) v s;
          read_to_registers src thread regs off is s }"

primrec read_to_buffer :: "ptr \<Rightarrow> ptr \<Rightarrow> register_t list \<Rightarrow> nat \<Rightarrow> nat list \<Rightarrow> kstate \<Rightarrow> kstate option" where
  "read_to_buffer src ipcBuffer regs off [] s = Some s"
| "read_to_buffer src ipcBuffer regs off (i # is) s =
     do { v \<leftarrow> getRegister src (regs ! i) s;
          s \<leftarrow> buf_write ipcBuffer (of_nat (i + off + 1)) v s;
          read_to_buffer src ipcBuffer regs off is s }"

primrec write_registers :: "ptr \<Rightarrow> ptr \<Rightarrow> bool \<Rightarrow> register_t list \<Rightarrow> nat \<Rightarrow> nat list \<Rightarrow> kstate \<Rightarrow> kstate option" where
  "write_registers dest buffer archInfo regs off [] s = Some s"
| "write_registers dest buffer archInfo regs off (i # is) s =
     do { v \<leftarrow> getSyscallArg (i + off) buffer s;
          s \<leftarrow> setRegister dest (regs ! i) (sanitiseRegister (regs ! i) v archInfo) s;
          write_registers dest buffer archInfo regs off is s }"

definition reply_registers :: "ptr \<Rightarrow> ptr \<Rightarrow> nat \<Rightarrow> kstate \<Rightarrow> kstate option" where
  "reply_registers thread src n s =
     do { ipcBuffer \<leftarrow> lookupIPCBuffer True thread s;
          s \<leftarrow> setRegister thread badgeRegister 0 s;
          let i = min n (min n_frameRegisters n_msgRegisters);
          s \<leftarrow> read_to_registers src thread frameRegisters 0 [0..<i] s;
          (j, s) \<leftarrow> (if ipcBuffer \<noteq> NULL \<and> i < n \<and> i < n_frameRegisters then
                      do { s \<leftarrow> read_to_buffer src ipcBuffer frameRegisters 0 [i..<min n n_frameRegisters] s;
                           Some (min n n_frameRegisters, s) }
                    else Some (i, s));
          let i = min n_gpRegisters (min (n - n_frameRegisters) (n_msgRegisters - n_frameRegisters));
          s \<leftarrow> read_to_registers src thread gpRegisters n_frameRegisters [0..<i] s;
          (i, s) \<leftarrow> (if ipcBuffer \<noteq> NULL \<and> i < n_gpRegisters \<and> i + n_frameRegisters < n then
                      do { s \<leftarrow> read_to_buffer src ipcBuffer gpRegisters n_frameRegisters
                                  [i..<min n_gpRegisters (n - n_frameRegisters)] s;
                           Some (min n_gpRegisters (n - n_frameRegisters), s) }
                    else Some (i, s));
          setRegister thread msgInfoRegister
            (wordFromMessageInfo (seL4_MessageInfo_new 0 0 0 (of_nat (i + j)))) s }"

definition invokeTCB_ReadRegisters ::
    "ptr \<Rightarrow> bool \<Rightarrow> word_t \<Rightarrow> word_t \<Rightarrow> bool \<Rightarrow> kstate \<Rightarrow> (exception_t \<times> kstate) option" where
  "invokeTCB_ReadRegisters src suspendSource n arch call s =
     do { let thread = ksCurThread s;
          s \<leftarrow> (if suspendSource then suspend src s else Some s);
          let e = Arch_performTransfer arch src (ksCurThread s);
          if e \<noteq> EXCEPTION_NONE then Some (e, s)
          else
            do { s \<leftarrow> (if call then reply_registers thread src (unat n) s else Some s);
                 s \<leftarrow> setThreadState thread ThreadState_Running s;
                 Some (EXCEPTION_NONE, s) } }"

definition invokeTCB_WriteRegisters ::
    "ptr \<Rightarrow> bool \<Rightarrow> word_t \<Rightarrow> word_t \<Rightarrow> ptr \<Rightarrow> kstate \<Rightarrow> (exception_t \<times> kstate) option" where
  "invokeTCB_WriteRegisters dest resumeTarget n arch buffer s =
     (let e = Arch_performTransfer arch (ksCurThread s) dest in
      if e \<noteq> EXCEPTION_NONE then Some (e, s)
      else
        do { let n = (if n > of_nat n_frameRegisters + of_nat n_gpRegisters
                      then n_frameRegisters + n_gpRegisters else unat n);
             let archInfo = Arch_getSanitiseRegisterInfo dest;
             s \<leftarrow> write_registers dest buffer archInfo frameRegisters 2 [0..<min n_frameRegisters n] s;
             s \<leftarrow> write_registers dest buffer archInfo gpRegisters (n_frameRegisters + 2)
                    [0..<min n_gpRegisters (n - n_frameRegisters)] s;
             pc \<leftarrow> getRestartPC dest s;
             s \<leftarrow> setNextPC dest pc s;
             let s = Arch_postModifyRegisters dest s;
             s \<leftarrow> (if resumeTarget then restart dest s else Some s);
             s \<leftarrow> (if dest = ksCurThread s then rescheduleRequired s else Some s);
             Some (EXCEPTION_NONE, s) })"

definition decodeCopyRegisters :: "cap_t \<Rightarrow> word_t \<Rightarrow> ptr \<Rightarrow> kstate \<Rightarrow> (exception_t \<times> kstate) option" where
  "decodeCopyRegisters c len buffer s =
     (if len < 1 \<or> current_extra_caps s 0 = NULL then syscall_error seL4_TruncatedMessage s
      else
        do { flags \<leftarrow> getSyscallArg 0 buffer s;
             let transferArch = Arch_decodeTransfer (shiftr flags 8);
             x \<leftarrow> ctes s (current_extra_caps s 0);
             case cte_cap x of
               cap_thread_cap srcTCB \<Rightarrow>
                 do { s \<leftarrow> setThreadState (ksCurThread s) ThreadState_Restart s;
                      invokeTCB_CopyRegisters (capThreadPtr c) srcTCB (flags AND BIT 0 \<noteq> 0) (flags AND BIT 1 \<noteq> 0)
                        (flags AND BIT 2 \<noteq> 0) (flags AND BIT 3 \<noteq> 0) transferArch s }
             | _ \<Rightarrow> invalid_capability 1 s })"

definition decodeReadRegisters :: "cap_t \<Rightarrow> word_t \<Rightarrow> bool \<Rightarrow> ptr \<Rightarrow> kstate \<Rightarrow> (exception_t \<times> kstate) option" where
  "decodeReadRegisters c len call buffer s =
     (if len < 2 then syscall_error seL4_TruncatedMessage s
      else
        do { flags \<leftarrow> getSyscallArg 0 buffer s;
             n \<leftarrow> getSyscallArg 1 buffer s;
             if n < 1 \<or> n > of_nat n_frameRegisters + of_nat n_gpRegisters then
               Some (EXCEPTION_SYSCALL_ERROR, range_error 1 (of_nat n_frameRegisters + of_nat n_gpRegisters) s)
             else
               do { let transferArch = Arch_decodeTransfer (shiftr flags 8);
                    let thread = capThreadPtr c;
                    if thread = ksCurThread s then syscall_error seL4_IllegalOperation s
                    else
                      do { s \<leftarrow> setThreadState (ksCurThread s) ThreadState_Restart s;
                           invokeTCB_ReadRegisters (capThreadPtr c) (flags AND BIT 0 \<noteq> 0) n transferArch call s } } })"

definition decodeWriteRegisters :: "cap_t \<Rightarrow> word_t \<Rightarrow> ptr \<Rightarrow> kstate \<Rightarrow> (exception_t \<times> kstate) option" where
  "decodeWriteRegisters c len buffer s =
     (if len < 2 then syscall_error seL4_TruncatedMessage s
      else
        do { flags \<leftarrow> getSyscallArg 0 buffer s;
             w \<leftarrow> getSyscallArg 1 buffer s;
             if len - 2 < w then syscall_error seL4_TruncatedMessage s
             else
               do { let transferArch = Arch_decodeTransfer (shiftr flags 8);
                    let thread = capThreadPtr c;
                    if thread = ksCurThread s then syscall_error seL4_IllegalOperation s
                    else
                      do { s \<leftarrow> setThreadState (ksCurThread s) ThreadState_Restart s;
                           invokeTCB_WriteRegisters thread (flags AND BIT 0 \<noteq> 0) w transferArch buffer s } } })"

section \<open>Priorities\<close>

abbreviation (input) seL4_MinPrio :: word_t where "seL4_MinPrio \<equiv> 0"
abbreviation (input) seL4_MaxPrio :: word_t where "seL4_MaxPrio \<equiv> 255"

definition checkPrio :: "word_t \<Rightarrow> ptr \<Rightarrow> kstate \<Rightarrow> (exception_t \<times> kstate) option" where
  "checkPrio prio auth s =
     do { t \<leftarrow> tcbs s auth;
          let mcp = tcbMCP t;
          assert_opt (mcp \<le> seL4_MaxPrio);
          if prio > mcp then Some (EXCEPTION_SYSCALL_ERROR, range_error seL4_MinPrio mcp s)
          else Some (EXCEPTION_NONE, s) }"

section \<open>Setting what a thread is made of\<close>

abbreviation (input) thread_control_update_priority :: word_t where "thread_control_update_priority \<equiv> 1"
abbreviation (input) thread_control_update_ipc_buffer :: word_t where "thread_control_update_ipc_buffer \<equiv> 2"
abbreviation (input) thread_control_update_space :: word_t where "thread_control_update_space \<equiv> 4"
abbreviation (input) thread_control_update_mcp :: word_t where "thread_control_update_mcp \<equiv> 8"
abbreviation (input) NULL_PRIO :: word_t where "NULL_PRIO \<equiv> 0"

text \<open>One of the slots of a thread: its old capability is deleted, and the new one is put in when
  the capability it comes from and the invoked thread capability are still there. A deletion
  that is preempted gives its status.\<close>

definition install_tcb_cap ::
    "nat \<Rightarrow> ptr \<Rightarrow> ptr \<Rightarrow> word_t \<Rightarrow> cap_t \<Rightarrow> ptr \<Rightarrow> kstate \<Rightarrow> (exception_t \<times> kstate) option" where
  "install_tcb_cap fuel target slot index newCap srcSlot s =
     do { let rootSlot = TCB_PTR_CTE_PTR target index;
          (e, s) \<leftarrow> cteDelete fuel rootSlot True s;
          if e \<noteq> EXCEPTION_NONE then Some (e, s)
          else
            do { src \<leftarrow> ctes s srcSlot;
                 s \<leftarrow> (if sameObjectAs newCap (cte_cap src) then
                         do { sl \<leftarrow> ctes s slot;
                              if sameObjectAs (cap_thread_cap target) (cte_cap sl) then
                                cteInsert newCap srcSlot rootSlot s
                              else Some s }
                       else Some s);
                 Some (EXCEPTION_NONE, s) } }"

definition install_tcb_buffer ::
    "nat \<Rightarrow> ptr \<Rightarrow> ptr \<Rightarrow> word_t \<Rightarrow> cap_t \<Rightarrow> ptr \<Rightarrow> kstate \<Rightarrow> (exception_t \<times> kstate) option" where
  "install_tcb_buffer fuel target slot bufferAddr bufferCap bufferSrcSlot s =
     do { let bufferSlot = TCB_PTR_CTE_PTR target tcbBuffer;
          (e, s) \<leftarrow> cteDelete fuel bufferSlot True s;
          if e \<noteq> EXCEPTION_NONE then Some (e, s)
          else
            do { s \<leftarrow> tcb_upd target (\<lambda>t. t\<lparr>tcbIPCBuffer := bufferAddr\<rparr>) s;
                 s \<leftarrow> (if bufferSrcSlot \<noteq> NULL then
                         do { src \<leftarrow> ctes s bufferSrcSlot;
                              if sameObjectAs bufferCap (cte_cap src) then
                                do { sl \<leftarrow> ctes s slot;
                                     if sameObjectAs (cap_thread_cap target) (cte_cap sl) then
                                       cteInsert bufferCap bufferSrcSlot bufferSlot s
                                     else Some s }
                              else Some s }
                       else Some s);
                 s \<leftarrow> (if target = ksCurThread s then rescheduleRequired s else Some s);
                 Some (EXCEPTION_NONE, s) } }"

definition invokeTCB_ThreadControl ::
    "nat \<Rightarrow> ptr \<Rightarrow> ptr \<Rightarrow> word_t \<Rightarrow> word_t \<Rightarrow> word_t \<Rightarrow> cap_t \<Rightarrow> ptr \<Rightarrow> cap_t \<Rightarrow> ptr \<Rightarrow> word_t \<Rightarrow> cap_t \<Rightarrow> ptr \<Rightarrow>
     word_t \<Rightarrow> kstate \<Rightarrow> (exception_t \<times> kstate) option" where
  "invokeTCB_ThreadControl fuel target slot faultep mcp priority cRoot_newCap cRoot_srcSlot
       vRoot_newCap vRoot_srcSlot bufferAddr bufferCap bufferSrcSlot updateFlags s =
     (let space = updateFlags AND thread_control_update_space \<noteq> 0 in
      do { s \<leftarrow> (if space then tcb_upd target (\<lambda>t. t\<lparr>tcbFaultHandler := faultep\<rparr>) s else Some s);
           s \<leftarrow> (if updateFlags AND thread_control_update_mcp \<noteq> 0 then setMCPriority target mcp s else Some s);
           (e, s) \<leftarrow> (if space then install_tcb_cap fuel target slot tcbCTable cRoot_newCap cRoot_srcSlot s
                    else Some (EXCEPTION_NONE, s));
           if e \<noteq> EXCEPTION_NONE then Some (e, s)
           else
             do { (e, s) \<leftarrow> (if space then install_tcb_cap fuel target slot tcbVTable vRoot_newCap vRoot_srcSlot s
                           else Some (EXCEPTION_NONE, s));
                  if e \<noteq> EXCEPTION_NONE then Some (e, s)
                  else
                    do { (e, s) \<leftarrow> (if updateFlags AND thread_control_update_ipc_buffer \<noteq> 0
                                  then install_tcb_buffer fuel target slot bufferAddr bufferCap bufferSrcSlot s
                                  else Some (EXCEPTION_NONE, s));
                         if e \<noteq> EXCEPTION_NONE then Some (e, s)
                         else
                           do { s \<leftarrow> (if updateFlags AND thread_control_update_priority \<noteq> 0
                                     then setPriority target priority s else Some s);
                                Some (EXCEPTION_NONE, s) } } } })"

section \<open>Decoding\<close>

text \<open>The parameters of \<^verbatim>\<open>SetPriority\<close>, \<^verbatim>\<open>SetMCPriority\<close> and \<^verbatim>\<open>SetSchedParams\<close>: the authority to
  set a priority is the maximum controlled priority of a thread that the caller names.\<close>

definition decodeSetPriority :: "nat \<Rightarrow> cap_t \<Rightarrow> word_t \<Rightarrow> ptr \<Rightarrow> kstate \<Rightarrow> (exception_t \<times> kstate) option" where
  "decodeSetPriority fuel c len buffer s =
     (if len < 1 \<or> current_extra_caps s 0 = NULL then syscall_error seL4_TruncatedMessage s
      else
        do { newPrio \<leftarrow> getSyscallArg 0 buffer s;
             x \<leftarrow> ctes s (current_extra_caps s 0);
             case cte_cap x of
               cap_thread_cap authTCB \<Rightarrow>
                 do { (status, s) \<leftarrow> checkPrio newPrio authTCB s;
                      if status \<noteq> EXCEPTION_NONE then Some (status, s)
                      else
                        do { s \<leftarrow> setThreadState (ksCurThread s) ThreadState_Restart s;
                             invokeTCB_ThreadControl fuel (capThreadPtr c) NULL 0 NULL_PRIO newPrio cap_null_cap NULL
                               cap_null_cap NULL 0 cap_null_cap NULL thread_control_update_priority s } }
             | _ \<Rightarrow> invalid_capability 1 s })"

definition decodeSetMCPriority :: "nat \<Rightarrow> cap_t \<Rightarrow> word_t \<Rightarrow> ptr \<Rightarrow> kstate \<Rightarrow> (exception_t \<times> kstate) option" where
  "decodeSetMCPriority fuel c len buffer s =
     (if len < 1 \<or> current_extra_caps s 0 = NULL then syscall_error seL4_TruncatedMessage s
      else
        do { newMcp \<leftarrow> getSyscallArg 0 buffer s;
             x \<leftarrow> ctes s (current_extra_caps s 0);
             case cte_cap x of
               cap_thread_cap authTCB \<Rightarrow>
                 do { (status, s) \<leftarrow> checkPrio newMcp authTCB s;
                      if status \<noteq> EXCEPTION_NONE then Some (status, s)
                      else
                        do { s \<leftarrow> setThreadState (ksCurThread s) ThreadState_Restart s;
                             invokeTCB_ThreadControl fuel (capThreadPtr c) NULL 0 newMcp NULL_PRIO cap_null_cap NULL
                               cap_null_cap NULL 0 cap_null_cap NULL thread_control_update_mcp s } }
             | _ \<Rightarrow> invalid_capability 1 s })"

definition decodeSetSchedParams :: "nat \<Rightarrow> cap_t \<Rightarrow> word_t \<Rightarrow> ptr \<Rightarrow> kstate \<Rightarrow> (exception_t \<times> kstate) option" where
  "decodeSetSchedParams fuel c len buffer s =
     (if len < 2 \<or> current_extra_caps s 0 = NULL then syscall_error seL4_TruncatedMessage s
      else
        do { newMcp \<leftarrow> getSyscallArg 0 buffer s;
             newPrio \<leftarrow> getSyscallArg 1 buffer s;
             x \<leftarrow> ctes s (current_extra_caps s 0);
             case cte_cap x of
               cap_thread_cap authTCB \<Rightarrow>
                 do { (status, s) \<leftarrow> checkPrio newMcp authTCB s;
                      if status \<noteq> EXCEPTION_NONE then Some (status, s)
                      else
                        do { (status, s) \<leftarrow> checkPrio newPrio authTCB s;
                             if status \<noteq> EXCEPTION_NONE then Some (status, s)
                             else
                               do { s \<leftarrow> setThreadState (ksCurThread s) ThreadState_Restart s;
                                    invokeTCB_ThreadControl fuel (capThreadPtr c) NULL 0 newMcp newPrio
                                      cap_null_cap NULL cap_null_cap NULL 0 cap_null_cap NULL
                                      (thread_control_update_mcp OR thread_control_update_priority) s } } }
             | _ \<Rightarrow> invalid_capability 1 s })"

text \<open>A new IPC buffer: a copy of the frame capability, unless the address is zero.\<close>

definition decode_ipc_buffer ::
    "word_t \<Rightarrow> ptr \<Rightarrow> cap_t \<Rightarrow> kstate \<Rightarrow> ((exception_t \<times> ptr \<times> cap_t) \<times> kstate) option" where
  "decode_ipc_buffer bufferAddr bufferSlot bufferCap s =
     (if bufferAddr = 0 then Some ((EXCEPTION_NONE, NULL, bufferCap), s)
      else
        do { ((status, bufferCap), s) \<leftarrow> deriveCap bufferSlot bufferCap s;
             if status \<noteq> EXCEPTION_NONE then Some ((status, bufferSlot, bufferCap), s)
             else
               let (e, s) = checkValidIPCBuffer bufferAddr bufferCap s in
               Some ((e, bufferSlot, bufferCap), s) })"

text \<open>New roots of the capability space and the address space.\<close>

definition decode_space_roots ::
    "ptr \<Rightarrow> word_t \<Rightarrow> word_t \<Rightarrow> ptr \<Rightarrow> cap_t \<Rightarrow> ptr \<Rightarrow> cap_t \<Rightarrow> kstate \<Rightarrow>
     ((exception_t \<times> cap_t \<times> cap_t) \<times> kstate) option" where
  "decode_space_roots target cRootData vRootData cRootSlot cRootCap vRootSlot vRootCap s =
     (let fail = (\<lambda>s. Some ((EXCEPTION_SYSCALL_ERROR, cap_null_cap, cap_null_cap), set_error_type seL4_IllegalOperation s))
      in
      do { longC \<leftarrow> slotCapLongRunningDelete (TCB_PTR_CTE_PTR target tcbCTable) s;
           long \<leftarrow> (if longC then Some True else slotCapLongRunningDelete (TCB_PTR_CTE_PTR target tcbVTable) s);
           if long then fail s
           else
             do { let cRootCap = (if cRootData \<noteq> 0 then updateCapData False cRootData cRootCap else cRootCap);
                  ((status, cRootCap), s) \<leftarrow> deriveCap cRootSlot cRootCap s;
                  if status \<noteq> EXCEPTION_NONE then Some ((status, cap_null_cap, cap_null_cap), s)
                  else if \<not> is_cnode_cap cRootCap then fail s
                  else
                    do { let vRootCap = (if vRootData \<noteq> 0 then updateCapData False vRootData vRootCap else vRootCap);
                         ((status, vRootCap), s) \<leftarrow> deriveCap vRootSlot vRootCap s;
                         if status \<noteq> EXCEPTION_NONE then Some ((status, cap_null_cap, cap_null_cap), s)
                         else if \<not> isValidVTableRoot vRootCap then fail s
                         else Some ((EXCEPTION_NONE, cRootCap, vRootCap), s) } } })"

definition decodeTCBConfigure ::
    "nat \<Rightarrow> cap_t \<Rightarrow> word_t \<Rightarrow> ptr \<Rightarrow> ptr \<Rightarrow> kstate \<Rightarrow> (exception_t \<times> kstate) option" where
  "decodeTCBConfigure fuel c len slot buffer s =
     (if len < 4 \<or> current_extra_caps s 0 = NULL \<or> current_extra_caps s 1 = NULL \<or> current_extra_caps s 2 = NULL
      then syscall_error seL4_TruncatedMessage s
      else
        do { faultEP \<leftarrow> getSyscallArg 0 buffer s;
             cRootData \<leftarrow> getSyscallArg 1 buffer s;
             vRootData \<leftarrow> getSyscallArg 2 buffer s;
             bufferAddr \<leftarrow> getSyscallArg 3 buffer s;
             let cRootSlot = current_extra_caps s 0;
             let vRootSlot = current_extra_caps s 1;
             cRoot \<leftarrow> ctes s cRootSlot;
             vRoot \<leftarrow> ctes s vRootSlot;
             buf \<leftarrow> ctes s (current_extra_caps s 2);
             ((e, bufferSlot, bufferCap), s) \<leftarrow>
               decode_ipc_buffer bufferAddr (current_extra_caps s 2) (cte_cap buf) s;
             if e \<noteq> EXCEPTION_NONE then Some (e, s)
             else
               do { ((e, cRootCap, vRootCap), s) \<leftarrow>
                      decode_space_roots (capThreadPtr c) cRootData vRootData cRootSlot (cte_cap cRoot)
                        vRootSlot (cte_cap vRoot) s;
                    if e \<noteq> EXCEPTION_NONE then Some (e, s)
                    else
                      do { s \<leftarrow> setThreadState (ksCurThread s) ThreadState_Restart s;
                           invokeTCB_ThreadControl fuel (capThreadPtr c) slot faultEP NULL_PRIO NULL_PRIO
                             cRootCap cRootSlot vRootCap vRootSlot bufferAddr bufferCap bufferSlot
                             (thread_control_update_space OR thread_control_update_ipc_buffer) s } } })"

definition decodeSetIPCBuffer ::
    "nat \<Rightarrow> cap_t \<Rightarrow> word_t \<Rightarrow> ptr \<Rightarrow> ptr \<Rightarrow> kstate \<Rightarrow> (exception_t \<times> kstate) option" where
  "decodeSetIPCBuffer fuel c len slot buffer s =
     (if len < 1 \<or> current_extra_caps s 0 = NULL then syscall_error seL4_TruncatedMessage s
      else
        do { bufferAddr \<leftarrow> getSyscallArg 0 buffer s;
             buf \<leftarrow> ctes s (current_extra_caps s 0);
             ((e, bufferSlot, bufferCap), s) \<leftarrow>
               decode_ipc_buffer bufferAddr (current_extra_caps s 0) (cte_cap buf) s;
             if e \<noteq> EXCEPTION_NONE then Some (e, s)
             else
               do { s \<leftarrow> setThreadState (ksCurThread s) ThreadState_Restart s;
                    invokeTCB_ThreadControl fuel (capThreadPtr c) slot 0 NULL_PRIO NULL_PRIO cap_null_cap NULL
                      cap_null_cap NULL bufferAddr bufferCap bufferSlot thread_control_update_ipc_buffer s } })"

definition decodeSetSpace ::
    "nat \<Rightarrow> cap_t \<Rightarrow> word_t \<Rightarrow> ptr \<Rightarrow> ptr \<Rightarrow> kstate \<Rightarrow> (exception_t \<times> kstate) option" where
  "decodeSetSpace fuel c len slot buffer s =
     (if len < 3 \<or> current_extra_caps s 0 = NULL \<or> current_extra_caps s 1 = NULL
      then syscall_error seL4_TruncatedMessage s
      else
        do { faultEP \<leftarrow> getSyscallArg 0 buffer s;
             cRootData \<leftarrow> getSyscallArg 1 buffer s;
             vRootData \<leftarrow> getSyscallArg 2 buffer s;
             let cRootSlot = current_extra_caps s 0;
             let vRootSlot = current_extra_caps s 1;
             cRoot \<leftarrow> ctes s cRootSlot;
             vRoot \<leftarrow> ctes s vRootSlot;
             ((e, cRootCap, vRootCap), s) \<leftarrow>
               decode_space_roots (capThreadPtr c) cRootData vRootData cRootSlot (cte_cap cRoot)
                 vRootSlot (cte_cap vRoot) s;
             if e \<noteq> EXCEPTION_NONE then Some (e, s)
             else
               do { s \<leftarrow> setThreadState (ksCurThread s) ThreadState_Restart s;
                    invokeTCB_ThreadControl fuel (capThreadPtr c) slot faultEP NULL_PRIO NULL_PRIO
                      cRootCap cRootSlot vRootCap vRootSlot 0 cap_null_cap NULL thread_control_update_space s } })"

section \<open>Notifications, flags and the remaining invocations\<close>

definition invokeTCB_NotificationControl :: "ptr \<Rightarrow> ptr \<Rightarrow> kstate \<Rightarrow> (exception_t \<times> kstate) option" where
  "invokeTCB_NotificationControl tcb ntfnPtr s =
     do { s \<leftarrow> (if ntfnPtr \<noteq> NULL then bindNotification tcb ntfnPtr s else unbindNotification tcb s);
          Some (EXCEPTION_NONE, s) }"

definition decodeBindNotification :: "cap_t \<Rightarrow> kstate \<Rightarrow> (exception_t \<times> kstate) option" where
  "decodeBindNotification c s =
     (if current_extra_caps s 0 = NULL then syscall_error seL4_TruncatedMessage s
      else
        do { let tcb = capThreadPtr c;
             t \<leftarrow> tcbs s tcb;
             if tcbBoundNotification t \<noteq> NULL then syscall_error seL4_IllegalOperation s
             else
               do { x \<leftarrow> ctes s (current_extra_caps s 0);
                    case cte_cap x of
                      cap_notification_cap _ canReceive _ ntfnPtr \<Rightarrow>
                        if \<not> canReceive then syscall_error seL4_IllegalOperation s
                        else
                          do { n \<leftarrow> ntfns s ntfnPtr;
                               if ntfnQueue_head n \<noteq> NULL \<or> ntfnBoundTCB n \<noteq> NULL then
                                 syscall_error seL4_IllegalOperation s
                               else
                                 do { s \<leftarrow> setThreadState (ksCurThread s) ThreadState_Restart s;
                                      invokeTCB_NotificationControl tcb ntfnPtr s } }
                    | _ \<Rightarrow> syscall_error seL4_IllegalOperation s } })"

definition decodeUnbindNotification :: "cap_t \<Rightarrow> kstate \<Rightarrow> (exception_t \<times> kstate) option" where
  "decodeUnbindNotification c s =
     do { let tcb = capThreadPtr c;
          t \<leftarrow> tcbs s tcb;
          if tcbBoundNotification t = NULL then syscall_error seL4_IllegalOperation s
          else
            do { s \<leftarrow> setThreadState (ksCurThread s) ThreadState_Restart s;
                 invokeTCB_NotificationControl tcb NULL s } }"

definition invokeTCB_Suspend :: "ptr \<Rightarrow> kstate \<Rightarrow> (exception_t \<times> kstate) option" where
  "invokeTCB_Suspend thread s = do { s \<leftarrow> suspend thread s; Some (EXCEPTION_NONE, s) }"

definition invokeTCB_Resume :: "ptr \<Rightarrow> kstate \<Rightarrow> (exception_t \<times> kstate) option" where
  "invokeTCB_Resume thread s = do { s \<leftarrow> restart thread s; Some (EXCEPTION_NONE, s) }"

definition invokeSetTLSBase :: "ptr \<Rightarrow> word_t \<Rightarrow> kstate \<Rightarrow> (exception_t \<times> kstate) option" where
  "invokeSetTLSBase thread tls_base s =
     do { s \<leftarrow> setRegister thread TLS_BASE tls_base s;
          s \<leftarrow> (if thread = ksCurThread s then rescheduleRequired s else Some s);
          Some (EXCEPTION_NONE, s) }"

definition decodeSetTLSBase :: "cap_t \<Rightarrow> word_t \<Rightarrow> ptr \<Rightarrow> kstate \<Rightarrow> (exception_t \<times> kstate) option" where
  "decodeSetTLSBase c len buffer s =
     (if len < 1 then syscall_error seL4_TruncatedMessage s
      else
        do { tls_base \<leftarrow> getSyscallArg 0 buffer s;
             s \<leftarrow> setThreadState (ksCurThread s) ThreadState_Restart s;
             invokeSetTLSBase (capThreadPtr c) tls_base s })"

abbreviation (input) seL4_TCBFlag_MASK :: word_t where "seL4_TCBFlag_MASK \<equiv> 1"

text \<open>A reply of one word, as sent by the kernel for \<^verbatim>\<open>SetFlags\<close> and \<^verbatim>\<open>GetAddress\<close>.\<close>

definition reply_word :: "ptr \<Rightarrow> word_t \<Rightarrow> kstate \<Rightarrow> kstate option" where
  "reply_word thread w s =
     do { ipcBuffer \<leftarrow> lookupIPCBuffer True thread s;
          s \<leftarrow> setRegister thread badgeRegister 0 s;
          (len, s) \<leftarrow> setMR thread ipcBuffer 0 w s;
          setRegister thread msgInfoRegister (wordFromMessageInfo (seL4_MessageInfo_new 0 0 0 len)) s }"

definition invokeSetFlags :: "ptr \<Rightarrow> word_t \<Rightarrow> word_t \<Rightarrow> bool \<Rightarrow> kstate \<Rightarrow> kstate option" where
  "invokeSetFlags thread clear set_flags call s =
     do { let cur_thread = ksCurThread s;
          t \<leftarrow> tcbs s thread;
          let flags = (tcbFlags t AND NOT clear) OR (set_flags AND seL4_TCBFlag_MASK);
          s \<leftarrow> tcb_upd thread (\<lambda>t. t\<lparr>tcbFlags := flags\<rparr>) s;
          s \<leftarrow> (if flags AND seL4_TCBFlag_fpuDisabled \<noteq> 0 then Some (fpuRelease thread s)
                else if thread = cur_thread then lazyFPURestore thread s
                else Some s);
          s \<leftarrow> (if call then reply_word cur_thread flags s else Some s);
          setThreadState cur_thread ThreadState_Running s }"

definition decodeSetFlags :: "cap_t \<Rightarrow> word_t \<Rightarrow> bool \<Rightarrow> ptr \<Rightarrow> kstate \<Rightarrow> (exception_t \<times> kstate) option" where
  "decodeSetFlags c len call buffer s =
     (if len < 2 then syscall_error seL4_TruncatedMessage s
      else
        do { clear \<leftarrow> getSyscallArg 0 buffer s;
             set_flags \<leftarrow> getSyscallArg 1 buffer s;
             s \<leftarrow> setThreadState (ksCurThread s) ThreadState_Restart s;
             s \<leftarrow> invokeSetFlags (capThreadPtr c) clear set_flags call s;
             Some (EXCEPTION_NONE, s) })"

definition decodeTCBInvocation ::
    "nat \<Rightarrow> word_t \<Rightarrow> word_t \<Rightarrow> cap_t \<Rightarrow> ptr \<Rightarrow> bool \<Rightarrow> ptr \<Rightarrow> kstate \<Rightarrow> (exception_t \<times> kstate) option" where
  "decodeTCBInvocation fuel invLabel len c slot call buffer s =
     (if invLabel = TCBReadRegisters then decodeReadRegisters c len call buffer s
      else if invLabel = TCBWriteRegisters then decodeWriteRegisters c len buffer s
      else if invLabel = TCBCopyRegisters then decodeCopyRegisters c len buffer s
      else if invLabel = TCBSuspend then
        do { s \<leftarrow> setThreadState (ksCurThread s) ThreadState_Restart s;
             invokeTCB_Suspend (capThreadPtr c) s }
      else if invLabel = TCBResume then
        do { s \<leftarrow> setThreadState (ksCurThread s) ThreadState_Restart s;
             invokeTCB_Resume (capThreadPtr c) s }
      else if invLabel = TCBConfigure then decodeTCBConfigure fuel c len slot buffer s
      else if invLabel = TCBSetPriority then decodeSetPriority fuel c len buffer s
      else if invLabel = TCBSetMCPriority then decodeSetMCPriority fuel c len buffer s
      else if invLabel = TCBSetSchedParams then decodeSetSchedParams fuel c len buffer s
      else if invLabel = TCBSetIPCBuffer then decodeSetIPCBuffer fuel c len slot buffer s
      else if invLabel = TCBSetSpace then decodeSetSpace fuel c len slot buffer s
      else if invLabel = TCBBindNotification then decodeBindNotification c s
      else if invLabel = TCBUnbindNotification then decodeUnbindNotification c s
      else if invLabel = TCBSetTLSBase then decodeSetTLSBase c len buffer s
      else if invLabel = TCBSetFlags then decodeSetFlags c len call buffer s
      else syscall_error seL4_IllegalOperation s)"

end
