(* ===== verification/VSpace_Inv.thy ===== *)
theory VSpace_Inv
  imports TCB_Inv Untyped
begin

text \<open>
  The invocations of address spaces, page tables, frames, ASID control and ASID pools,
  \<^verbatim>\<open>src/arch/arm/64/kernel/vspace.c\<close>: mapping and unmapping, flushing caches, making and using
  ASID pools.
\<close>

section \<open>Page table entries\<close>

text \<open>The last address that user mappings may reach.\<close>

abbreviation (input) USER_TOP :: word_t where "USER_TOP \<equiv> 0x00007fffffffffff"
abbreviation (input) nASIDPools :: nat where "nASIDPools \<equiv> 128"
abbreviation (input) seL4_ASIDPoolBits :: word_t where "seL4_ASIDPoolBits \<equiv> 12"

definition pte_ptr_get_valid :: "pte_t \<Rightarrow> bool" where
  "pte_ptr_get_valid pte \<longleftrightarrow> pte \<noteq> pte_pte_invalid"

definition pte_get_AP :: "pte_t \<Rightarrow> word_t option" where
  "pte_get_AP pte =
     (case pte of
        pte_pte_4k_page _ _ ap _ \<Rightarrow> Some ap
      | pte_pte_page _ _ ap _ \<Rightarrow> Some ap
      | _ \<Rightarrow> None)"

definition vmRightsFromPTE :: "pte_t \<Rightarrow> vm_rights_t option" where
  "vmRightsFromPTE pte =
     do { access_perms \<leftarrow> pte_get_AP pte;
          if access_perms = 0 \<or> access_perms = 2 then Some VMKernelOnly
          else if access_perms = 1 then Some VMReadWrite
          else if access_perms = 3 then Some VMReadOnly
          else None }"

definition checkVPAlignment :: "vm_page_size_t \<Rightarrow> word_t \<Rightarrow> bool" where
  "checkVPAlignment sz w \<longleftrightarrow> w AND MASK (pageBitsForSize sz) = 0"

section \<open>Flushing\<close>

definition doFlush :: "word_t \<Rightarrow> word_t \<Rightarrow> word_t \<Rightarrow> word_t \<Rightarrow> kstate \<Rightarrow> kstate option" where
  "doFlush invLabel start end pstart s =
     (if invLabel = ARMVSpaceClean_Data \<or> invLabel = ARMPageClean_Data then
        Some (do_machine_op (cleanCacheRange_RAM start end pstart) s)
      else if invLabel = ARMVSpaceInvalidate_Data \<or> invLabel = ARMPageInvalidate_Data then
        Some (do_machine_op (invalidateCacheRange_RAM start end pstart) s)
      else if invLabel = ARMVSpaceCleanInvalidate_Data \<or> invLabel = ARMPageCleanInvalidate_Data then
        Some (do_machine_op (cleanInvalidateCacheRange_RAM start end pstart) s)
      else if invLabel = ARMVSpaceUnify_Instruction \<or> invLabel = ARMPageUnify_Instruction then
        Some (do_machine_op isb (do_machine_op (invalidateCacheRange_I start end pstart)
               (do_machine_op dsb (do_machine_op (cleanCacheRange_PoU start end pstart) s))))
      else None)"

definition performVSpaceFlush ::
    "word_t \<Rightarrow> ptr \<Rightarrow> word_t \<Rightarrow> word_t \<Rightarrow> word_t \<Rightarrow> word_t \<Rightarrow> kstate \<Rightarrow> (exception_t \<times> kstate) option" where
  "performVSpaceFlush invLabel vspaceRoot asid start end pstart s =
     (if start < end then
        do { (root_switched, s) \<leftarrow> setVMRootForFlush vspaceRoot asid s;
             s \<leftarrow> doFlush invLabel start end pstart s;
             s \<leftarrow> (if root_switched then setVMRoot (ksCurThread s) s else Some s);
             Some (EXCEPTION_NONE, s) }
      else Some (EXCEPTION_NONE, s))"

definition performPageFlush ::
    "word_t \<Rightarrow> ptr \<Rightarrow> word_t \<Rightarrow> word_t \<Rightarrow> word_t \<Rightarrow> word_t \<Rightarrow> kstate \<Rightarrow> (exception_t \<times> kstate) option" where
  "performPageFlush invLabel vspaceRoot asid start end pstart s =
     (if start < end then
        do { (root_switched, s) \<leftarrow> setVMRootForFlush vspaceRoot asid s;
             s \<leftarrow> doFlush invLabel start end pstart s;
             s \<leftarrow> (if root_switched then setVMRoot (ksCurThread s) s else Some s);
             Some (EXCEPTION_NONE, s) }
      else Some (EXCEPTION_NONE, s))"

section \<open>Mapping and unmapping\<close>

definition performPageTableInvocationMap ::
    "cap_t \<Rightarrow> ptr \<Rightarrow> pte_t \<Rightarrow> ptr \<Rightarrow> kstate \<Rightarrow> (exception_t \<times> kstate) option" where
  "performPageTableInvocationMap c ctSlot pte ptSlot s =
     do { s \<leftarrow> cte_set_cap ctSlot c s;
          let s = s\<lparr>ptes := (ptes s)(ptSlot \<mapsto> pte)\<rparr>;
          Some (EXCEPTION_NONE, do_machine_op (cleanByVA_PoU ptSlot) s) }"

definition cap_page_table_cap_set_capPTIsMapped :: "bool \<Rightarrow> cap_t \<Rightarrow> cap_t" where
  "cap_page_table_cap_set_capPTIsMapped b c =
     cap_page_table_cap (capPTMappedASID c) (capPTBasePtr c) b (capPTMappedAddress c)"

definition performPageTableInvocationUnmap :: "cap_t \<Rightarrow> ptr \<Rightarrow> kstate \<Rightarrow> (exception_t \<times> kstate) option" where
  "performPageTableInvocationUnmap c ctSlot s =
     do { s \<leftarrow> (if capPTIsMapped c then
                  do { let pt = capPTBasePtr c;
                       s \<leftarrow> unmapPageTable (capPTMappedASID c) (capPTMappedAddress c) pt s;
                       Some (new_ptes pt (do_machine_op (clearMemory_PT pt (cap_get_capSizeBits c)) s)) }
                else Some s);
          slot \<leftarrow> ctes s ctSlot;
          s \<leftarrow> cte_set_cap ctSlot (cap_page_table_cap_set_capPTIsMapped False (cte_cap slot)) s;
          Some (EXCEPTION_NONE, s) }"

definition performPageInvocationMap ::
    "word_t \<Rightarrow> cap_t \<Rightarrow> ptr \<Rightarrow> pte_t \<Rightarrow> ptr \<Rightarrow> kstate \<Rightarrow> (exception_t \<times> kstate) option" where
  "performPageInvocationMap asid c ctSlot pte ptSlot s =
     do { old \<leftarrow> ptes s ptSlot;
          let tlbflush_required = pte_ptr_get_valid old;
          s \<leftarrow> cte_set_cap ctSlot c s;
          let s = s\<lparr>ptes := (ptes s)(ptSlot \<mapsto> pte)\<rparr>;
          let s = do_machine_op (cleanByVA_PoU ptSlot) s;
          if tlbflush_required then
            do { assert_opt (asid < BIT 16);
                 Some (EXCEPTION_NONE, invalidateTLBByASIDVA asid (capFMappedAddress c) s) }
          else Some (EXCEPTION_NONE, s) }"

definition cap_frame_cap_set_mapping :: "word_t \<Rightarrow> word_t \<Rightarrow> cap_t \<Rightarrow> cap_t" where
  "cap_frame_cap_set_mapping asid vaddr c =
     cap_frame_cap asid (capFBasePtr c) (capFSize c) vaddr (capFVMRights c) (capFIsDevice c)"

definition performPageInvocationUnmap :: "cap_t \<Rightarrow> ptr \<Rightarrow> kstate \<Rightarrow> (exception_t \<times> kstate) option" where
  "performPageInvocationUnmap c ctSlot s =
     do { s \<leftarrow> (if capFMappedASID c \<noteq> 0 then
                  unmapPage (capFSize c) (capFMappedASID c) (capFMappedAddress c) (capFBasePtr c) s
                else Some s);
          slot \<leftarrow> ctes s ctSlot;
          s \<leftarrow> cte_set_cap ctSlot (cap_frame_cap_set_mapping asidInvalid 0 (cte_cap slot)) s;
          Some (EXCEPTION_NONE, s) }"

definition performPageGetAddress :: "ptr \<Rightarrow> bool \<Rightarrow> kstate \<Rightarrow> (exception_t \<times> kstate) option" where
  "performPageGetAddress base_ptr call s =
     do { let base = pptr_to_paddr base_ptr s;
          let thread = ksCurThread s;
          s \<leftarrow> (if call then reply_word thread base s else Some s);
          s \<leftarrow> setThreadState (ksCurThread s) ThreadState_Running s;
          Some (EXCEPTION_NONE, s) }"

section \<open>ASID pools\<close>

definition performASIDControlInvocation ::
    "ptr \<Rightarrow> ptr \<Rightarrow> ptr \<Rightarrow> word_t \<Rightarrow> kstate \<Rightarrow> (exception_t \<times> kstate) option" where
  "performASIDControlInvocation frame slot parent asid_base s =
     do { let s = typ_region_bytes frame 12 s;
          p \<leftarrow> ctes s parent;
          s \<leftarrow> cte_set_cap parent
                 (cap_untyped_cap_set_capFreeIndex (MAX_FREE_INDEX (capBlockSize (cte_cap p))) (cte_cap p)) s;
          let s = do_machine_op (memzero frame (BIT seL4_ASIDPoolBits)) s;
          let s = s\<lparr>asid_pools := (asid_pools s)(frame \<mapsto> (\<lambda>_. asid_map_none))\<rparr>;
          s \<leftarrow> cteInsert (cap_asid_pool_cap asid_base frame) parent slot s;
          assert_opt (asid_base AND MASK asidLowBits = 0);
          Some (EXCEPTION_NONE, s\<lparr>armKSASIDTable := (armKSASIDTable s)(ASID_HIGH asid_base := frame)\<rparr>) }"

definition performASIDPoolInvocation :: "word_t \<Rightarrow> ptr \<Rightarrow> ptr \<Rightarrow> kstate \<Rightarrow> (exception_t \<times> kstate) option" where
  "performASIDPoolInvocation asid poolPtr vspaceCapSlot s =
     do { x \<leftarrow> ctes s vspaceCapSlot;
          let root = capVSBasePtr (cte_cap x);
          s \<leftarrow> cte_set_cap vspaceCapSlot (cap_vspace_cap asid root True) s;
          array \<leftarrow> asid_pools s poolPtr;
          Some (EXCEPTION_NONE,
            s\<lparr>asid_pools := (asid_pools s)(poolPtr \<mapsto> array(ASID_LOW asid := asid_map_vspace root))\<rparr>) }"

section \<open>Decoding\<close>

text \<open>The address space that a capability stands for: its root, when the ASID still leads to it.\<close>

definition decode_vspace ::
    "cap_t \<Rightarrow> word_t \<Rightarrow> kstate \<Rightarrow> ((exception_t \<times> ptr \<times> word_t) \<times> kstate) option" where
  "decode_vspace c n s =
     (let bad = (\<lambda>s. Some ((EXCEPTION_SYSCALL_ERROR, NULL, 0),
            s\<lparr>current_syscall_error :=
               (current_syscall_error s)\<lparr>se_type := seL4_InvalidCapability, invalidCapNumber := n\<rparr>\<rparr>))
      in
      if \<not> isValidNativeRoot c then bad s
      else
        do { let vspaceRoot = capVSBasePtr c;
             let asid = capVSMappedASID c;
             (root, s) \<leftarrow> findVSpaceForASID asid s;
             case root of
               None \<Rightarrow> Some ((EXCEPTION_SYSCALL_ERROR, NULL, 0), failed_lookup False s)
             | Some r \<Rightarrow>
                 if r \<noteq> vspaceRoot then bad s else Some ((EXCEPTION_NONE, vspaceRoot, asid), s) })"

definition decodeARMVSpaceRootInvocation ::
    "word_t \<Rightarrow> word_t \<Rightarrow> cap_t \<Rightarrow> ptr \<Rightarrow> kstate \<Rightarrow> (exception_t \<times> kstate) option" where
  "decodeARMVSpaceRootInvocation invLabel len c buffer s =
     (if invLabel = ARMVSpaceClean_Data \<or> invLabel = ARMVSpaceInvalidate_Data \<or>
         invLabel = ARMVSpaceCleanInvalidate_Data \<or> invLabel = ARMVSpaceUnify_Instruction then
        if len < 2 then syscall_error seL4_TruncatedMessage s
        else
          do { start \<leftarrow> getSyscallArg 0 buffer s;
               end \<leftarrow> getSyscallArg 1 buffer s;
               if end \<le> start then invalid_argument 1 s
               else if end > USER_TOP then syscall_error seL4_IllegalOperation s
               else
                 do { ((status, vspaceRoot, asid), s) \<leftarrow> decode_vspace c 0 s;
                      if status \<noteq> EXCEPTION_NONE then Some (status, s)
                      else
                        do { (ptSlot, ptBitsLeft) \<leftarrow> lookupPTSlot vspaceRoot start s;
                             pte \<leftarrow> ptes s ptSlot;
                             if \<not> pte_is_page_type pte then
                               do { s \<leftarrow> setThreadState (ksCurThread s) ThreadState_Restart s;
                                    Some (EXCEPTION_NONE, s) }
                             else if ROUND_DOWN start ptBitsLeft \<noteq> ROUND_DOWN (end - 1) ptBitsLeft then
                               Some (EXCEPTION_SYSCALL_ERROR,
                                 range_error start (ROUND_DOWN start ptBitsLeft + MASK ptBitsLeft) s)
                             else
                               do { r \<leftarrow> (if invLabel = ARMVSpaceInvalidate_Data then vmRightsFromPTE pte
                                        else Some VMReadWrite);
                                    if r \<noteq> VMReadWrite then syscall_error seL4_IllegalOperation s
                                    else
                                      do { frame_base \<leftarrow> pte_get_page_base_address pte;
                                           let pstart = frame_base + (start AND MASK ptBitsLeft);
                                           s \<leftarrow> setThreadState (ksCurThread s) ThreadState_Restart s;
                                           performVSpaceFlush invLabel vspaceRoot asid start (end - 1) pstart s } } } } }
      else syscall_error seL4_IllegalOperation s)"

definition decodeARMPageTableInvocation ::
    "word_t \<Rightarrow> word_t \<Rightarrow> ptr \<Rightarrow> cap_t \<Rightarrow> ptr \<Rightarrow> kstate \<Rightarrow> (exception_t \<times> kstate) option" where
  "decodeARMPageTableInvocation invLabel len cte c buffer s =
     (if invLabel = ARMPageTableUnmap then
        do { final \<leftarrow> isFinalCapability cte s;
             if \<not> final then syscall_error seL4_RevokeFirst s
             else
               do { s \<leftarrow> setThreadState (ksCurThread s) ThreadState_Restart s;
                    performPageTableInvocationUnmap c cte s } }
      else if invLabel \<noteq> ARMPageTableMap then syscall_error seL4_IllegalOperation s
      else if len < 2 \<or> current_extra_caps s 0 = NULL then syscall_error seL4_TruncatedMessage s
      else if capPTIsMapped c then invalid_capability 0 s
      else
        do { vaddr \<leftarrow> getSyscallArg 0 buffer s;
             x \<leftarrow> ctes s (current_extra_caps s 0);
             let vspaceRootCap = cte_cap x;
             if isValidNativeRoot vspaceRootCap \<and> vaddr > USER_TOP then invalid_argument 0 s
             else
               do { ((status, vspaceRoot, asid), s) \<leftarrow> decode_vspace vspaceRootCap 1 s;
                    if status \<noteq> EXCEPTION_NONE then Some (status, s)
                    else
                      do { (ptSlot, ptBitsLeft) \<leftarrow> lookupPTSlot vspaceRoot vaddr s;
                           old \<leftarrow> ptes s ptSlot;
                           if ptBitsLeft = seL4_PageBits \<or> pte_ptr_get_valid old then
                             syscall_error seL4_DeleteFirst s
                           else
                             do { let pte = pte_pte_table (pptr_to_paddr (capPTBasePtr c) s);
                                  let c = cap_page_table_cap asid (capPTBasePtr c) True
                                            (vaddr AND NOT (MASK ptBitsLeft));
                                  s \<leftarrow> setThreadState (ksCurThread s) ThreadState_Restart s;
                                  performPageTableInvocationMap c cte pte ptSlot s } } } })"

definition decode_page_map :: "word_t \<Rightarrow> ptr \<Rightarrow> cap_t \<Rightarrow> ptr \<Rightarrow> kstate \<Rightarrow> (exception_t \<times> kstate) option" where
  "decode_page_map len cte c buffer s =
     (if len < 3 \<or> current_extra_caps s 0 = NULL then syscall_error seL4_TruncatedMessage s
      else
        do { vaddr \<leftarrow> getSyscallArg 0 buffer s;
             w \<leftarrow> getSyscallArg 2 buffer s;
             let attributes = vmAttributesFromWord w;
             x \<leftarrow> ctes s (current_extra_caps s 0);
             let frameSize = capFSize c;
             r \<leftarrow> getSyscallArg 1 buffer s;
             let vmRights = maskVMRights (capFVMRights c) (rightsFromWord r);
             ((status, vspaceRoot, asid), s) \<leftarrow> decode_vspace (cte_cap x) 1 s;
             if status \<noteq> EXCEPTION_NONE then Some (status, s)
             else if \<not> checkVPAlignment frameSize vaddr then syscall_error seL4_AlignmentError s
             else
               let frame_asid = capFMappedASID c in
               if frame_asid \<noteq> asidInvalid \<and> frame_asid \<noteq> asid then invalid_capability 1 s
               else if frame_asid \<noteq> asidInvalid \<and> capFMappedAddress c \<noteq> vaddr then invalid_argument 0 s
               else if frame_asid = asidInvalid \<and> vaddr + BIT (pageBitsForSize frameSize) - 1 > USER_TOP then
                 invalid_argument 0 s
               else
                 do { let c = cap_frame_cap_set_mapping asid vaddr c;
                      let base = pptr_to_paddr (capFBasePtr c) s;
                      (ptSlot, ptBitsLeft) \<leftarrow> lookupPTSlot vspaceRoot vaddr s;
                      if ptBitsLeft \<noteq> pageBitsForSize frameSize then
                        Some (EXCEPTION_SYSCALL_ERROR,
                          failed_lookup False (set_lookup_fault (lookup_fault_missing_capability ptBitsLeft) s))
                      else
                        do { s \<leftarrow> setThreadState (ksCurThread s) ThreadState_Restart s;
                             performPageInvocationMap asid c cte (makeUserPagePTE base vmRights attributes frameSize)
                               ptSlot s } } })"

definition decode_page_flush ::
    "word_t \<Rightarrow> word_t \<Rightarrow> cap_t \<Rightarrow> ptr \<Rightarrow> kstate \<Rightarrow> (exception_t \<times> kstate) option" where
  "decode_page_flush invLabel len c buffer s =
     (if len < 2 then syscall_error seL4_TruncatedMessage s
      else if capFMappedASID c = 0 then syscall_error seL4_IllegalOperation s
      else
        do { let vaddr = capFMappedAddress c;
             let asid = capFMappedASID c;
             (root, s) \<leftarrow> findVSpaceForASID asid s;
             case root of
               None \<Rightarrow> Some (EXCEPTION_SYSCALL_ERROR, failed_lookup False s)
             | Some vspaceRoot \<Rightarrow>
                 do { start \<leftarrow> getSyscallArg 0 buffer s;
                      end \<leftarrow> getSyscallArg 1 buffer s;
                      if end \<le> start then invalid_argument 1 s
                      else
                        let page_size = BIT (pageBitsForSize (capFSize c)) in
                        if start \<ge> page_size \<or> end > page_size then invalid_argument 0 s
                        else
                          do { let pstart = pptr_to_paddr (capFBasePtr c) s + start;
                               (ptSlot, ptBitsLeft) \<leftarrow> lookupPTSlot vspaceRoot vaddr s;
                               pte \<leftarrow> ptes s ptSlot;
                               stale \<leftarrow> (if ptBitsLeft \<noteq> pageBitsForSize (capFSize c) \<or> \<not> pte_is_page_type pte
                                        then Some True
                                        else do { base \<leftarrow> pte_get_page_base_address pte;
                                                  Some (base \<noteq> pptr_to_paddr (capFBasePtr c) s) });
                               if stale then invalid_capability 0 s
                               else
                                 do { r \<leftarrow> (if invLabel = ARMPageInvalidate_Data then vmRightsFromPTE pte
                                          else Some VMReadWrite);
                                      if r \<noteq> VMReadWrite then syscall_error seL4_IllegalOperation s
                                      else
                                        do { s \<leftarrow> setThreadState (ksCurThread s) ThreadState_Restart s;
                                             performPageFlush invLabel vspaceRoot asid (vaddr + start)
                                               (vaddr + end - 1) pstart s } } } } })"

definition decodeARMFrameInvocation ::
    "word_t \<Rightarrow> word_t \<Rightarrow> ptr \<Rightarrow> cap_t \<Rightarrow> bool \<Rightarrow> ptr \<Rightarrow> kstate \<Rightarrow> (exception_t \<times> kstate) option" where
  "decodeARMFrameInvocation invLabel len cte c call buffer s =
     (if invLabel = ARMPageMap then decode_page_map len cte c buffer s
      else if invLabel = ARMPageUnmap then
        do { s \<leftarrow> setThreadState (ksCurThread s) ThreadState_Restart s;
             performPageInvocationUnmap c cte s }
      else if invLabel = ARMPageClean_Data \<or> invLabel = ARMPageInvalidate_Data \<or>
              invLabel = ARMPageCleanInvalidate_Data \<or> invLabel = ARMPageUnify_Instruction then
        decode_page_flush invLabel len c buffer s
      else if invLabel = ARMPageGetAddress then
        do { s \<leftarrow> setThreadState (ksCurThread s) ThreadState_Restart s;
             performPageGetAddress (capFBasePtr c) call s }
      else syscall_error seL4_IllegalOperation s)"

text \<open>The first free entry of the table of ASID pools, and the first free ASID of a pool.\<close>

definition free_asid_pool :: "kstate \<Rightarrow> nat option" where
  "free_asid_pool s = find (\<lambda>i. armKSASIDTable s (of_nat i) = NULL) [0..<nASIDPools]"

definition free_asid :: "word_t \<Rightarrow> (word_t \<Rightarrow> asid_map_t) \<Rightarrow> nat option" where
  "free_asid asid array =
     find (\<lambda>i. asid + of_nat i \<noteq> 0 \<and> array (of_nat i) = asid_map_none) [0..<512]"

definition decode_asid_control ::
    "word_t \<Rightarrow> word_t \<Rightarrow> ptr \<Rightarrow> kstate \<Rightarrow> (exception_t \<times> kstate) option" where
  "decode_asid_control invLabel len buffer s =
     (if invLabel \<noteq> ARMASIDControlMakePool then syscall_error seL4_IllegalOperation s
      else if len < 2 \<or> current_extra_caps s 0 = NULL \<or> current_extra_caps s 1 = NULL then
        syscall_error seL4_TruncatedMessage s
      else
        do { index \<leftarrow> getSyscallArg 0 buffer s;
             depth \<leftarrow> getSyscallArg 1 buffer s;
             let parentSlot = current_extra_caps s 0;
             p \<leftarrow> ctes s parentSlot;
             let untyped = cte_cap p;
             r \<leftarrow> ctes s (current_extra_caps s 1);
             case free_asid_pool s of
               None \<Rightarrow> syscall_error seL4_DeleteFirst s
             | Some i \<Rightarrow>
                 do { let asid_base = shiftl (of_nat i) asidLowBits;
                      if cap_get_capType untyped \<noteq> 2 \<or> capBlockSize untyped \<noteq> seL4_ASIDPoolBits \<or>
                         capIsDevice untyped then invalid_capability 1 s
                      else
                        do { (status, s) \<leftarrow> ensureNoChildren parentSlot s;
                             if status \<noteq> EXCEPTION_NONE then Some (status, s)
                             else
                               do { let frame = capPtr untyped;
                                    ((status, destSlot), s) \<leftarrow> lookupTargetSlot (cte_cap r) index depth s;
                                    if status \<noteq> EXCEPTION_NONE then Some (status, s)
                                    else
                                      do { (status, s) \<leftarrow> ensureEmptySlot destSlot s;
                                           if status \<noteq> EXCEPTION_NONE then Some (status, s)
                                           else
                                             do { s \<leftarrow> setThreadState (ksCurThread s) ThreadState_Restart s;
                                                  performASIDControlInvocation frame destSlot parentSlot
                                                    asid_base s } } } } } })"

definition decode_asid_pool :: "word_t \<Rightarrow> cap_t \<Rightarrow> kstate \<Rightarrow> (exception_t \<times> kstate) option" where
  "decode_asid_pool invLabel c s =
     (if invLabel \<noteq> ARMASIDPoolAssign then syscall_error seL4_IllegalOperation s
      else if current_extra_caps s 0 = NULL then syscall_error seL4_TruncatedMessage s
      else
        do { let vspaceCapSlot = current_extra_caps s 0;
             x \<leftarrow> ctes s vspaceCapSlot;
             if \<not> isVTableRoot (cte_cap x) \<or> capVSIsMapped (cte_cap x) then invalid_capability 1 s
             else
               let pool = armKSASIDTable s (ASID_HIGH (capASIDBase c)) in
               if pool = NULL then
                 Some (EXCEPTION_SYSCALL_ERROR, set_lookup_fault lookup_fault_invalid_root (failed_lookup False s))
               else if pool \<noteq> capASIDPool c then invalid_capability 0 s
               else
                 do { let asid = capASIDBase c;
                      array \<leftarrow> asid_pools s pool;
                      case free_asid asid array of
                        None \<Rightarrow> syscall_error seL4_DeleteFirst s
                      | Some i \<Rightarrow>
                          do { s \<leftarrow> setThreadState (ksCurThread s) ThreadState_Restart s;
                               performASIDPoolInvocation (asid + of_nat i) pool vspaceCapSlot s } } })"

definition decodeARMMMUInvocation ::
    "word_t \<Rightarrow> word_t \<Rightarrow> ptr \<Rightarrow> cap_t \<Rightarrow> bool \<Rightarrow> ptr \<Rightarrow> kstate \<Rightarrow> (exception_t \<times> kstate) option" where
  "decodeARMMMUInvocation invLabel len cte c call buffer s =
     (case c of
        cap_vspace_cap _ _ _ \<Rightarrow> decodeARMVSpaceRootInvocation invLabel len c buffer s
      | cap_page_table_cap _ _ _ _ \<Rightarrow> decodeARMPageTableInvocation invLabel len cte c buffer s
      | cap_frame_cap _ _ _ _ _ _ \<Rightarrow> decodeARMFrameInvocation invLabel len cte c call buffer s
      | cap_asid_control_cap \<Rightarrow> decode_asid_control invLabel len buffer s
      | cap_asid_pool_cap _ _ \<Rightarrow> decode_asid_pool invLabel c s
      | _ \<Rightarrow> None)"

section \<open>Flushing one byte\<close>

text \<open>The callers pass the last address of the range, and the test is for a first address below it: a
  request to flush a range of one byte succeeds and flushes nothing.\<close>

lemma flush_one_byte:
  "performVSpaceFlush label root asid v (v + 1 - 1) p s = Some (EXCEPTION_NONE, s)"
  "performPageFlush label root asid v (v + 1 - 1) p s = Some (EXCEPTION_NONE, s)"
  by (simp_all add: performVSpaceFlush_def performPageFlush_def)

end
