(* ===== verification/Syscalls.thy ===== *)
theory Syscalls
  imports Interrupts Domains VSpace_Inv Retype Messaging
begin

text \<open>
  The entry points of the kernel, \<^verbatim>\<open>src/api/syscall.c\<close>, and the choice of the operation that the
  invoked capability stands for, \<open>decodeInvocation\<close> of \<^verbatim>\<open>src/object/objecttype.c\<close>. A system call
  takes the fuel of the deletions that it may perform.
\<close>

section \<open>Invoking a capability\<close>

definition Arch_decodeInvocation ::
    "word_t \<Rightarrow> word_t \<Rightarrow> word_t \<Rightarrow> ptr \<Rightarrow> cap_t \<Rightarrow> bool \<Rightarrow> ptr \<Rightarrow> kstate \<Rightarrow> (exception_t \<times> kstate) option" where
  "Arch_decodeInvocation label len cptr slot c call buffer s =
     (case c of
        cap_sgi_signal_cap _ _ \<Rightarrow> decodeSGISignalInvocation c s
      | _ \<Rightarrow> decodeARMMMUInvocation label len slot c call buffer s)"

definition performInvocation_Endpoint ::
    "ptr \<Rightarrow> word_t \<Rightarrow> bool \<Rightarrow> bool \<Rightarrow> bool \<Rightarrow> bool \<Rightarrow> kstate \<Rightarrow> (exception_t \<times> kstate) option" where
  "performInvocation_Endpoint ep badge canGrant canGrantReply block call s =
     do { s \<leftarrow> sendIPC block call badge canGrant canGrantReply (ksCurThread s) ep s;
          Some (EXCEPTION_NONE, s) }"

definition performInvocation_Notification :: "ptr \<Rightarrow> word_t \<Rightarrow> kstate \<Rightarrow> (exception_t \<times> kstate) option" where
  "performInvocation_Notification ntfn badge s =
     do { s \<leftarrow> sendSignal ntfn badge s;
          Some (EXCEPTION_NONE, s) }"

definition performInvocation_Reply :: "ptr \<Rightarrow> ptr \<Rightarrow> bool \<Rightarrow> kstate \<Rightarrow> (exception_t \<times> kstate) option" where
  "performInvocation_Reply thread slot canGrant s =
     do { s \<leftarrow> doReplyTransfer (ksCurThread s) thread slot canGrant s;
          Some (EXCEPTION_NONE, s) }"

definition decodeInvocation ::
    "nat \<Rightarrow> word_t \<Rightarrow> word_t \<Rightarrow> word_t \<Rightarrow> ptr \<Rightarrow> cap_t \<Rightarrow> bool \<Rightarrow> bool \<Rightarrow> ptr \<Rightarrow> kstate
      \<Rightarrow> (exception_t \<times> kstate) option" where
  "decodeInvocation fuel invLabel len capIndex slot c block call buffer s =
     (if isArchCap c then Arch_decodeInvocation invLabel len capIndex slot c call buffer s
      else
        case c of
          cap_null_cap \<Rightarrow> invalid_capability 0 s
        | cap_zombie_cap _ _ \<Rightarrow> invalid_capability 0 s
        | cap_endpoint_cap badge canGrantReply canGrant canSend canReceive ep \<Rightarrow>
            if \<not> canSend then invalid_capability 0 s
            else
              do { s \<leftarrow> setThreadState (ksCurThread s) ThreadState_Restart s;
                   performInvocation_Endpoint ep badge canGrant canGrantReply block call s }
        | cap_notification_cap badge canReceive canSend ntfn \<Rightarrow>
            if \<not> canSend then invalid_capability 0 s
            else
              do { s \<leftarrow> setThreadState (ksCurThread s) ThreadState_Restart s;
                   performInvocation_Notification ntfn badge s }
        | cap_reply_cap canGrant master caller \<Rightarrow>
            if master then invalid_capability 0 s
            else
              do { s \<leftarrow> setThreadState (ksCurThread s) ThreadState_Restart s;
                   performInvocation_Reply caller slot canGrant s }
        | cap_thread_cap _ \<Rightarrow> decodeTCBInvocation fuel invLabel len c slot call buffer s
        | cap_domain_cap \<Rightarrow> decodeDomainInvocation invLabel len buffer s
        | cap_cnode_cap _ _ _ _ \<Rightarrow> decodeCNodeInvocation fuel invLabel len c buffer s
        | cap_untyped_cap _ _ _ _ \<Rightarrow> decodeUntypedInvocation invLabel len slot c call buffer s
        | cap_irq_control_cap \<Rightarrow> decodeIRQControlInvocation invLabel len slot buffer s
        | cap_irq_handler_cap irq \<Rightarrow> decodeIRQHandlerInvocation invLabel irq s
        | _ \<Rightarrow> None)"

definition handleInvocation :: "nat \<Rightarrow> bool \<Rightarrow> bool \<Rightarrow> kstate \<Rightarrow> (exception_t \<times> kstate) option" where
  "handleInvocation fuel isCall isBlocking s =
     do { let thread = ksCurThread s;
          w \<leftarrow> getRegister thread msgInfoRegister s;
          let info = messageInfoFromWord w;
          cptr \<leftarrow> getRegister thread capRegister s;
          ((status, slot, c), s) \<leftarrow> lookupCapAndSlot thread cptr s;
          if status \<noteq> EXCEPTION_NONE then
            do { let s = s\<lparr>current_fault := seL4_Fault_CapFault cptr False\<rparr>;
                 s \<leftarrow> (if isBlocking then handleFault thread s else Some s);
                 Some (EXCEPTION_NONE, s) }
          else
            do { buffer \<leftarrow> lookupIPCBuffer False thread s;
                 (status, s) \<leftarrow> lookupExtraCaps thread buffer info s;
                 if status \<noteq> EXCEPTION_NONE then
                   do { s \<leftarrow> (if isBlocking then handleFault thread s else Some s);
                        Some (EXCEPTION_NONE, s) }
                 else
                   do { let len = (if mi_length info > of_nat n_msgRegisters \<and> buffer = NULL
                                   then of_nat n_msgRegisters else mi_length info);
                        (status, s) \<leftarrow> decodeInvocation fuel (mi_label info) len cptr slot c isBlocking isCall buffer s;
                        if status = EXCEPTION_PREEMPTED then Some (status, s)
                        else if status = EXCEPTION_SYSCALL_ERROR then
                          do { s \<leftarrow> (if isCall then replyFromKernel_error thread s else Some s);
                               Some (EXCEPTION_NONE, s) }
                        else
                          do { t \<leftarrow> tcbs s thread;
                               if tsType (tcbState t) = ThreadState_Restart then
                                 do { s \<leftarrow> (if isCall then replyFromKernel_success_empty thread s else Some s);
                                      s \<leftarrow> setThreadState thread ThreadState_Running s;
                                      Some (EXCEPTION_NONE, s) }
                               else Some (EXCEPTION_NONE, s) } } } }"

section \<open>Replying, receiving and yielding\<close>

definition handleReply :: "kstate \<Rightarrow> kstate option" where
  "handleReply s =
     do { let callerSlot = TCB_PTR_CTE_PTR (ksCurThread s) tcbCaller;
          cte \<leftarrow> ctes s callerSlot;
          case cte_cap cte of
            cap_reply_cap canGrant master caller \<Rightarrow>
              if master then None
              else
                do { assert_opt (caller \<noteq> ksCurThread s);
                     doReplyTransfer (ksCurThread s) caller callerSlot canGrant s }
          | cap_null_cap \<Rightarrow> Some s
          | _ \<Rightarrow> None }"

text \<open>The fault of a receive phase, with a lookup fault of its own or the one of \<open>lookupCap\<close>.\<close>

definition receive_fault :: "word_t \<Rightarrow> kstate \<Rightarrow> kstate option" where
  "receive_fault epCPtr s = handleFault (ksCurThread s) (s\<lparr>current_fault := seL4_Fault_CapFault epCPtr True\<rparr>)"

definition handleRecv :: "bool \<Rightarrow> kstate \<Rightarrow> kstate option" where
  "handleRecv isBlocking s =
     do { epCPtr \<leftarrow> getRegister (ksCurThread s) capRegister s;
          ((status, c), s) \<leftarrow> lookupCap (ksCurThread s) epCPtr s;
          if status \<noteq> EXCEPTION_NONE then receive_fault epCPtr s
          else
            case c of
              cap_endpoint_cap badge canGrantReply canGrant canSend canReceive ep \<Rightarrow>
                if \<not> canReceive then
                  receive_fault epCPtr (set_lookup_fault (lookup_fault_missing_capability 0) s)
                else
                  do { s \<leftarrow> deleteCallerCap (ksCurThread s) s;
                       receiveIPC (ksCurThread s) c isBlocking s }
            | cap_notification_cap badge canReceive canSend ntfnPtr \<Rightarrow>
                do { ntfn \<leftarrow> ntfns s ntfnPtr;
                     if \<not> canReceive \<or> (ntfnBoundTCB ntfn \<noteq> NULL \<and> ntfnBoundTCB ntfn \<noteq> ksCurThread s) then
                       receive_fault epCPtr (set_lookup_fault (lookup_fault_missing_capability 0) s)
                     else receiveSignal (ksCurThread s) c isBlocking s }
            | _ \<Rightarrow> receive_fault epCPtr (set_lookup_fault (lookup_fault_missing_capability 0) s) }"

definition handleYield :: "kstate \<Rightarrow> kstate option" where
  "handleYield s =
     do { s \<leftarrow> tcbSchedDequeue (ksCurThread s) s;
          s \<leftarrow> tcbSchedAppend (ksCurThread s) s;
          rescheduleRequired s }"

section \<open>The entry points\<close>

datatype syscall_t = SysCall | SysReplyRecv | SysSend | SysNBSend | SysRecv | SysReply | SysYield | SysNBRecv

definition schedule_and_activate :: "kstate \<Rightarrow> kstate option" where
  "schedule_and_activate s = do { s \<leftarrow> schedule s; activateThread s }"

text \<open>An invocation that was preempted serves the interrupt before the kernel is left.\<close>

definition invoke_and_check :: "nat \<Rightarrow> bool \<Rightarrow> bool \<Rightarrow> kstate \<Rightarrow> kstate option" where
  "invoke_and_check fuel isCall isBlocking s =
     do { (ret, s) \<leftarrow> handleInvocation fuel isCall isBlocking s;
          if ret \<noteq> EXCEPTION_NONE then checkInterrupt s else Some s }"

definition handleSyscall :: "nat \<Rightarrow> syscall_t \<Rightarrow> kstate \<Rightarrow> (exception_t \<times> kstate) option" where
  "handleSyscall fuel syscall s =
     do { s \<leftarrow> (case syscall of
                 SysSend \<Rightarrow> invoke_and_check fuel False True s
               | SysNBSend \<Rightarrow> invoke_and_check fuel False False s
               | SysCall \<Rightarrow> invoke_and_check fuel True True s
               | SysRecv \<Rightarrow> handleRecv True s
               | SysReply \<Rightarrow> handleReply s
               | SysReplyRecv \<Rightarrow> do { s \<leftarrow> handleReply s; handleRecv True s }
               | SysNBRecv \<Rightarrow> handleRecv False s
               | SysYield \<Rightarrow> handleYield s);
          s \<leftarrow> schedule_and_activate s;
          Some (EXCEPTION_NONE, s) }"

definition handleInterruptEntry :: "kstate \<Rightarrow> (exception_t \<times> kstate) option" where
  "handleInterruptEntry s =
     do { s \<leftarrow> checkInterrupt s;
          s \<leftarrow> schedule_and_activate s;
          Some (EXCEPTION_NONE, s) }"

definition handleUnknownSyscall :: "word_t \<Rightarrow> kstate \<Rightarrow> (exception_t \<times> kstate) option" where
  "handleUnknownSyscall w s =
     do { let s = s\<lparr>current_fault := seL4_Fault_UnknownSyscall w\<rparr>;
          s \<leftarrow> handleFault (ksCurThread s) s;
          s \<leftarrow> schedule_and_activate s;
          Some (EXCEPTION_NONE, s) }"

definition handleUserLevelFault :: "word_t \<Rightarrow> word_t \<Rightarrow> kstate \<Rightarrow> (exception_t \<times> kstate) option" where
  "handleUserLevelFault w_a w_b s =
     do { let s = s\<lparr>current_fault := seL4_Fault_UserException w_a w_b\<rparr>;
          s \<leftarrow> handleFault (ksCurThread s) s;
          s \<leftarrow> schedule_and_activate s;
          Some (EXCEPTION_NONE, s) }"

text \<open>The fault registers of the processor are arguments, as in \<open>handleVMFault\<close>.\<close>

definition handleVMFaultEvent ::
    "word_t \<Rightarrow> word_t \<Rightarrow> word_t \<Rightarrow> vm_fault_type_t \<Rightarrow> kstate \<Rightarrow> (exception_t \<times> kstate) option" where
  "handleVMFaultEvent far dfsr ifsr vm_faultType s =
     do { (status, s) \<leftarrow> handleVMFault far dfsr ifsr (ksCurThread s) vm_faultType s;
          s \<leftarrow> (if status \<noteq> EXCEPTION_NONE then handleFault (ksCurThread s) s else Some s);
          s \<leftarrow> schedule_and_activate s;
          Some (EXCEPTION_NONE, s) }"

end
