(* ===== verification/Refusal.thy ===== *)
theory Refusal
  imports Syscalls
begin

text \<open>
  What an invocation that is refused does. Every decoder checks all of its arguments before it
  changes anything, so an invocation that ends in a system call error has changed nothing but the
  description of the error. And no other failure status than that error comes out of a decoder, as
  \<open>handleInvocation\<close> relies on: any other status is taken for success there.
\<close>

section \<open>The state apart from the error that is reported\<close>

definition unreported :: "kstate \<Rightarrow> kstate" where
  "unreported s = s\<lparr>current_syscall_error := blank_error, current_lookup_fault := lookup_fault_invalid_root\<rparr>"

named_theorems unreported_simps

lemma unreported_set [unreported_simps]:
  "unreported (set_error_type e s) = unreported s"
  "unreported (set_lookup_fault f s) = unreported s"
  "unreported (failed_lookup b s) = unreported s"
  "unreported (range_error lo hi s) = unreported s"
  "unreported (s\<lparr>current_syscall_error := se\<rparr>) = unreported s"
  "unreported (s\<lparr>current_lookup_fault := f\<rparr>) = unreported s"
  by (simp_all add: unreported_def set_error_type_def set_lookup_fault_def failed_lookup_def range_error_def)

text \<open>The outcome of a step that performs an operation, of a step that only checks, and of a
  decoder, which starts in the state \<open>s\<close>.\<close>

definition performed :: "(exception_t \<times> kstate) option \<Rightarrow> bool" where
  "performed r \<longleftrightarrow> (\<forall>st s'. r = Some (st, s') \<longrightarrow> st = EXCEPTION_NONE \<or> st = EXCEPTION_PREEMPTED)"

definition checked :: "kstate \<Rightarrow> ((exception_t \<times> 'a) \<times> kstate) option \<Rightarrow> bool" where
  "checked s r \<longleftrightarrow> (\<forall>st x s'. r = Some ((st, x), s') \<longrightarrow>
     (st = EXCEPTION_NONE \<or> st = EXCEPTION_SYSCALL_ERROR) \<and> unreported s' = unreported s)"

definition tested :: "kstate \<Rightarrow> (exception_t \<times> kstate) option \<Rightarrow> bool" where
  "tested s r \<longleftrightarrow> (\<forall>st s'. r = Some (st, s') \<longrightarrow>
     (st = EXCEPTION_NONE \<or> st = EXCEPTION_SYSCALL_ERROR) \<and> unreported s' = unreported s)"

definition settled :: "kstate \<Rightarrow> (exception_t \<times> kstate) option \<Rightarrow> bool" where
  "settled s r \<longleftrightarrow> (\<forall>st s'. r = Some (st, s') \<longrightarrow>
     st = EXCEPTION_NONE \<or> st = EXCEPTION_PREEMPTED \<or>
     st = EXCEPTION_SYSCALL_ERROR \<and> unreported s' = unreported s)"

section \<open>Composition\<close>

lemma performed_bind: "(\<And>x. m = Some x \<Longrightarrow> performed (f x)) \<Longrightarrow> performed (Option.bind m f)"
  by (cases m) (auto simp: performed_def)

lemma performed_none [simp]: "performed None" "performed (Some (EXCEPTION_NONE, s))"
  "performed (Some (EXCEPTION_PREEMPTED, s))"
  by (simp_all add: performed_def)

lemma performedD: "performed r \<Longrightarrow> r = Some (st, s') \<Longrightarrow> st \<noteq> EXCEPTION_NONE \<Longrightarrow> st = EXCEPTION_PREEMPTED"
  by (auto simp: performed_def)

lemma settled_performed: "performed r \<Longrightarrow> settled s r"
  by (auto simp: performed_def settled_def)

lemma settled_bind: "(\<And>x. m = Some x \<Longrightarrow> settled s (f x)) \<Longrightarrow> settled s (Option.bind m f)"
  by (cases m) (auto simp: settled_def)

lemma checked_bind: "(\<And>x. m = Some x \<Longrightarrow> checked s (f x)) \<Longrightarrow> checked s (Option.bind m f)"
  by (cases m) (auto simp: checked_def)

lemma checked_values [simp]:
  "checked s None" "checked s (Some ((EXCEPTION_NONE, x), s')) \<longleftrightarrow> unreported s' = unreported s"
  "checked s (Some ((EXCEPTION_SYSCALL_ERROR, x), s')) \<longleftrightarrow> unreported s' = unreported s"
  by (auto simp: checked_def)

lemma settled_after: "unreported s' = unreported s \<Longrightarrow> settled s' r \<Longrightarrow> settled s r"
  by (simp add: settled_def)

lemma settled_values [simp]:
  "settled s None" "settled s (Some (EXCEPTION_NONE, s'))"
  "settled s (Some (EXCEPTION_SYSCALL_ERROR, s')) \<longleftrightarrow> unreported s' = unreported s"
  by (auto simp: settled_def)

lemma settled_refused [simp]:
  "settled s (syscall_error e s') \<longleftrightarrow> unreported s' = unreported s"
  "settled s (invalid_argument n s') \<longleftrightarrow> unreported s' = unreported s"
  "settled s (invalid_capability n s') \<longleftrightarrow> unreported s' = unreported s"
  "settled s (missing_capability b d s') \<longleftrightarrow> unreported s' = unreported s"
  by (simp_all add: syscall_error_def invalid_argument_def invalid_capability_def missing_capability_def
      unreported_simps)

section \<open>Steps that only check\<close>

lemma checkedD:
  "checked s r \<Longrightarrow> r = Some ((st, x), s') \<Longrightarrow>
    (st = EXCEPTION_NONE \<or> st = EXCEPTION_SYSCALL_ERROR) \<and> unreported s' = unreported s"
  by (simp add: checked_def)

lemma testedD:
  "tested s r \<Longrightarrow> r = Some (st, s') \<Longrightarrow>
    (st = EXCEPTION_NONE \<or> st = EXCEPTION_SYSCALL_ERROR) \<and> unreported s' = unreported s"
  by (simp add: tested_def)

lemma resolve_unreported:
  "resolve_loop m capptr n nodeCap s = Some (res, s') \<Longrightarrow> unreported s' = unreported s"
proof (induction m capptr n nodeCap s arbitrary: res s' rule: resolve_loop.induct)
  case (1 m capptr n nodeCap s)
  show ?case
    using 1(2) 1(1) [OF refl refl refl refl refl] 
    by (subst (asm) resolve_loop.simps)
      (auto simp: Let_def unreported_simps split: if_splits option.splits)
qed

lemma lookupSlotForCNodeOp_checked: "checked s (lookupSlotForCNodeOp b root capptr depth s)"
  by (auto simp: checked_def lookupSlotForCNodeOp_def resolveAddressBits_def unreported_simps
      dest!: resolve_unreported split: if_splits bind_splits)

lemma lookup_checked:
  "checked s (lookupTargetSlot root capptr depth s)"
  "checked s (lookupSourceSlot root capptr depth s)"
  "checked s (lookupPivotSlot root capptr depth s)"
  by (simp_all add: lookupTargetSlot_def lookupSourceSlot_def lookupPivotSlot_def lookupSlotForCNodeOp_checked)

lemma ensure_tested: "tested s (ensureEmptySlot slot s)" "tested s (ensureNoChildren slot s)"
  by (auto simp: tested_def ensureEmptySlot_def ensureNoChildren_def unreported_simps
      split: if_splits bind_splits)

lemma deriveCap_checked: "checked s (deriveCap slot c s)"
  by (auto simp: checked_def deriveCap_def Arch_deriveCap_def unreported_simps
      dest!: testedD [OF ensure_tested(2)] split: if_splits cap_t.splits bind_splits)

section \<open>Operations never refuse\<close>

definition finishes :: "((exception_t \<times> 'a) \<times> kstate) option \<Rightarrow> bool" where
  "finishes r \<longleftrightarrow> (\<forall>st x s'. r = Some ((st, x), s') \<longrightarrow> st = EXCEPTION_NONE \<or> st = EXCEPTION_PREEMPTED)"

lemma preemptionPoint_performed: "preemptionPoint s = (st, s') \<Longrightarrow> st = EXCEPTION_NONE \<or> st = EXCEPTION_PREEMPTED"
  by (auto simp: preemptionPoint_def Let_def split: if_splits prod.splits)

lemma delete_slot_performed:
  assumes "\<And>slot b s. finishes (finalise slot b s)"
  shows "performed (delete_slot finalise slot exposed s)"
  using assms by (fastforce simp: performed_def finishes_def delete_slot_def bind_eq_Some_conv split: if_splits)

lemma reduceZombie_performed:
  assumes "\<And>slot b s. finishes (finalise slot b s)"
  shows "performed (reduceZombie finalise slot immediate s)"
  by (auto simp: reduceZombie_def Let_def intro!: performed_bind split: cap_t.split
      dest!: performedD [OF delete_slot_performed [of finalise, OF assms]])

lemma finishes_bind: "(\<And>x. m = Some x \<Longrightarrow> finishes (f x)) \<Longrightarrow> finishes (Option.bind m f)"
  by (cases m) (auto simp: finishes_def)

lemma finishes_values [simp]: "finishes None" "finishes (Some ((EXCEPTION_NONE, x), s))"
  "finishes (Some ((EXCEPTION_PREEMPTED, x), s))"
  by (simp_all add: finishes_def)

lemma finaliseSlot_finishes: "finishes (finaliseSlot fuel slot b s)"
proof (induction fuel arbitrary: slot b s)
  case (Suc fuel)
  have "finishes (finalise_round (finaliseSlot fuel) slot b s)"
    unfolding finalise_round_def Let_def
    by (auto intro!: finishes_bind simp: Suc.IH split: prod.splits
        dest!: preemptionPoint_performed performedD [OF reduceZombie_performed [of "finaliseSlot fuel", OF Suc.IH]])
  then show ?case by simp
qed simp

lemma cteDelete_performed: "performed (cteDelete fuel slot exposed s)"
  by (simp add: cteDelete_def delete_slot_performed finaliseSlot_finishes)

lemma cteRevoke_performed: "performed (cteRevoke fuel slot s)"
proof (induction fuel arbitrary: s)
  case (Suc fuel)
  then show ?case
    by (auto intro!: performed_bind simp: Let_def split: prod.splits
        dest!: preemptionPoint_performed performedD [OF cteDelete_performed])
qed simp

lemma reset_performed: "performed (reset_loop slot c base k s)" "performed (resetUntypedCap slot s)"
proof -
  show loop: "performed (reset_loop slot c base k s)" for slot c base k s
  proof (induction k arbitrary: s)
    case (Suc k)
    then show ?case
      by (auto intro!: performed_bind simp: Let_def split: prod.splits dest!: preemptionPoint_performed)
  qed simp
  show "performed (resetUntypedCap slot s)"
    by (auto simp del: reset_loop.simps simp: resetUntypedCap_def Let_def intro!: performed_bind loop)
qed

text \<open>The operations at the ends of the decoders.\<close>

named_theorems operations

lemmas [operations] =
  invokeCNodeRevoke_def invokeCNodeDelete_def invokeCNodeCancelBadgedSends_def invokeCNodeInsert_def
  invokeCNodeMove_def invokeCNodeRotate_def invokeCNodeSaveCaller_def Arch_invokeIRQControl_def
  invokeIRQControl_def Arch_invokeIssueSGISignal_def invokeSGISignalGenerate_def
  invokeTCB_CopyRegisters_def invokeTCB_ReadRegisters_def invokeTCB_WriteRegisters_def
  invokeTCB_NotificationControl_def invokeTCB_Suspend_def invokeTCB_Resume_def invokeSetTLSBase_def
  Arch_performTransfer_def performVSpaceFlush_def performPageFlush_def performPageTableInvocationMap_def
  performPageTableInvocationUnmap_def performPageInvocationMap_def performPageInvocationUnmap_def
  performPageGetAddress_def performASIDControlInvocation_def performASIDPoolInvocation_def
  performInvocation_Endpoint_def performInvocation_Notification_def performInvocation_Reply_def

lemmas performed_dest = performedD [OF cteDelete_performed] performedD [OF reset_performed(2)]

lemma install_performed:
  "performed (install_tcb_cap fuel target slot index c src s)"
  "performed (install_tcb_buffer fuel target slot addr c src s)"
  by (auto simp: install_tcb_cap_def install_tcb_buffer_def Let_def
      intro!: performed_bind dest!: performed_dest)

lemma invokeTCB_ThreadControl_performed:
  "performed (invokeTCB_ThreadControl fuel target slot fep mcp prio c csrc v vsrc addr b bsrc flags s)"
  unfolding invokeTCB_ThreadControl_def Let_def
  by (auto intro!: performed_bind split: if_splits
      dest!: performedD [OF install_performed(1)] performedD [OF install_performed(2)])

lemma invokeUntyped_Retype_performed:
  "performed (invokeUntyped_Retype slot reset base newType sz node off n dev s)"
  unfolding invokeUntyped_Retype_def Let_def
  by (auto intro!: performed_bind split: if_splits dest!: performed_dest)

lemma operations_performed:
  "performed (invokeCNodeRevoke fuel slot s)" "performed (invokeCNodeDelete fuel slot s)"
  "performed (invokeCNodeCancelBadgedSends c s)" "performed (invokeCNodeInsert c a b s)"
  "performed (invokeCNodeMove c a b s)" "performed (invokeCNodeRotate c d a b e s)"
  "performed (invokeCNodeSaveCaller a s)" "performed (invokeIRQControl irq a b s)"
  "performed (Arch_invokeIRQControl irq a b trigger s)" "performed (Arch_invokeIssueSGISignal irq n a b s)"
  "performed (invokeTCB_CopyRegisters dest src b1 b2 b3 b4 arch s)"
  "performed (invokeTCB_ReadRegisters src b1 n arch b2 s)"
  "performed (invokeTCB_WriteRegisters dest b1 n arch buffer s)"
  "performed (invokeTCB_NotificationControl t a s)" "performed (invokeTCB_Suspend t s)"
  "performed (invokeTCB_Resume t s)" "performed (invokeSetTLSBase t n s)"
  "performed (performVSpaceFlush label a n lo hi pl s)" "performed (performPageFlush label a n lo hi pl s)"
  "performed (performPageTableInvocationMap c a pte b s)" "performed (performPageTableInvocationUnmap c a s)"
  "performed (performPageInvocationMap n c a pte b s)" "performed (performPageInvocationUnmap c a s)"
  "performed (performPageGetAddress a b1 s)" "performed (performASIDControlInvocation a b e n s)"
  "performed (performASIDPoolInvocation n a b s)" "performed (performInvocation_Endpoint a n b1 b2 b3 b4 s)"
  "performed (performInvocation_Notification a n s)" "performed (performInvocation_Reply a b b1 s)"
  by (auto simp: operations Let_def cteRevoke_performed cteDelete_performed split: cap_t.split prod.split
      intro!: performed_bind)

section \<open>Every decoder\<close>

lemmas performing [simp] = settled_performed [OF invokeTCB_ThreadControl_performed]
  settled_performed [OF invokeUntyped_Retype_performed] operations_performed [THEN settled_performed]

lemmas check_dest = checkedD [OF lookup_checked(1)] checkedD [OF lookup_checked(2)] checkedD [OF lookup_checked(3)]
  checkedD [OF deriveCap_checked] testedD [OF ensure_tested(1)] testedD [OF ensure_tested(2)]

lemma decodeDomainInvocation_settled: "settled s (decodeDomainInvocation label len buffer s)"
  by (auto simp: decodeDomainInvocation_def decodeDomainSetSetInvocation_def decodeDomainScheduleConfigure_def
      decodeDomainScheduleSetStart_def Let_def unreported_simps intro!: settled_bind split: cap_t.split)

lemma new_cnode_cap_unreported:
  assumes "new_cnode_cap label len slot c buffer s = Some (r, s')"
  shows "unreported s' = unreported s \<and> (\<forall>st. r = Inl st \<longrightarrow> st = EXCEPTION_SYSCALL_ERROR)"
  using assms
  by (auto simp: new_cnode_cap_def Let_def unreported_simps dest!: check_dest split: if_splits bind_splits)

lemma decode_cnode_copy_settled: "settled s (decode_cnode_copy label len dest buffer s)"
  by (auto simp: decode_cnode_copy_def Let_def unreported_simps dest!: check_dest new_cnode_cap_unreported
      intro!: settled_bind split: sum.split)

lemma decode_cnode_rotate_settled: "settled s (decode_cnode_rotate len dest buffer s)"
  by (auto simp: decode_cnode_rotate_def Let_def unreported_simps dest!: check_dest
      intro!: settled_bind split: if_splits)

lemma decodeCNodeInvocation_settled: "settled s (decodeCNodeInvocation fuel label len c buffer s)"
  by (auto simp: decodeCNodeInvocation_def Let_def dest!: check_dest intro!: settled_bind
      settled_after [OF _ decode_cnode_copy_settled] settled_after [OF _ decode_cnode_rotate_settled])

lemma ensure_empty_window_tested: "tested s (ensure_empty_window cnode is s)"
  by (induction "is" arbitrary: s) (fastforce simp: tested_def dest!: check_dest split: if_splits bind_splits)+

lemma decode_retype_memory_settled:
  "settled s (decode_retype_memory slot c newType sz osz cnode off n s)"
  by (auto simp: decode_retype_memory_def Let_def unreported_simps dest!: check_dest intro!: settled_bind)

lemma decode_retype_window_settled:
  "settled s (decode_retype_window slot c newType sz osz node depth off n s)"
  by (auto simp: decode_retype_window_def Let_def unreported_simps
      dest!: testedD [OF ensure_empty_window_tested] intro!: settled_bind
      settled_after [OF _ decode_retype_memory_settled])

lemma decodeUntypedInvocation_settled: "settled s (decodeUntypedInvocation label len slot c call buffer s)"
  by (auto simp: decodeUntypedInvocation_def Let_def unreported_simps dest!: check_dest intro!: settled_bind
      settled_after [OF _ decode_retype_window_settled] split: if_splits bind_splits)

lemma empty_target_slot_checked: "checked s (empty_target_slot root index depth s)"
  by (auto simp: checked_def empty_target_slot_def dest!: check_dest split: if_splits bind_splits)

lemma Arch_checkIRQ_checks:
  "Arch_checkIRQ irq s = (st, s') \<Longrightarrow>
    (st = EXCEPTION_NONE \<or> st = EXCEPTION_SYSCALL_ERROR) \<and> unreported s' = unreported s"
  by (auto simp: Arch_checkIRQ_def unreported_simps split: if_splits)

lemma decodeIRQControlInvocation_settled:
  "settled s (decodeIRQControlInvocation label len slot buffer s)"
  by (auto simp: decodeIRQControlInvocation_def Arch_decodeIRQControlInvocation_def
      decode_irq_handler_trigger_def decode_issue_sgi_signal_def Let_def unreported_simps
      dest!: Arch_checkIRQ_checks checkedD [OF empty_target_slot_checked] intro!: settled_bind split: prod.split)

lemma decodeIRQHandlerInvocation_settled: "settled s (decodeIRQHandlerInvocation label irq s)"
  by (auto simp: decodeIRQHandlerInvocation_def Let_def intro!: settled_bind)

lemma decodeSGISignalInvocation_settled: "settled s (decodeSGISignalInvocation c s)"
  by (auto simp: decodeSGISignalInvocation_def invokeSGISignalGenerate_def intro!: settled_bind)

lemma checkPrio_tested: "tested s (checkPrio prio auth s)"
  by (auto simp: tested_def checkPrio_def Let_def unreported_simps split: if_splits bind_splits)

lemma decode_priorities_settled:
  "settled s (decodeSetPriority fuel c len buffer s)" "settled s (decodeSetMCPriority fuel c len buffer s)"
  "settled s (decodeSetSchedParams fuel c len buffer s)"
  by (auto simp: decodeSetPriority_def decodeSetMCPriority_def decodeSetSchedParams_def
      dest!: testedD [OF checkPrio_tested] intro!: settled_bind split: cap_t.split)

lemma decode_ipc_buffer_checked: "checked s (decode_ipc_buffer addr slot c s)"
  by (auto simp: checked_def decode_ipc_buffer_def checkValidIPCBuffer_def Let_def unreported_simps
      dest!: check_dest split: if_splits bind_splits cap_t.splits)

lemma decode_space_roots_checked: "checked s (decode_space_roots target cd vd cs c vs v s)"
  unfolding decode_space_roots_def Let_def
  by (auto simp: unreported_simps dest!: check_dest intro!: checked_bind)

lemma decode_space_settled:
  "settled s (decodeTCBConfigure fuel c len slot buffer s)" "settled s (decodeSetIPCBuffer fuel c len slot buffer s)"
  "settled s (decodeSetSpace fuel c len slot buffer s)"
  by (auto simp: decodeTCBConfigure_def decodeSetIPCBuffer_def decodeSetSpace_def Let_def
      dest!: checkedD [OF decode_ipc_buffer_checked] checkedD [OF decode_space_roots_checked] intro!: settled_bind)

lemma decodeTCBInvocation_settled: "settled s (decodeTCBInvocation fuel label len c slot call buffer s)"
  by (auto simp: decodeTCBInvocation_def decodeReadRegisters_def decodeWriteRegisters_def
      decodeCopyRegisters_def decodeBindNotification_def decodeUnbindNotification_def decodeSetTLSBase_def
      decodeSetFlags_def Let_def unreported_simps decode_priorities_settled decode_space_settled
      intro!: settled_bind split: cap_t.split)

lemma findVSpaceForASID_unreported: "findVSpaceForASID asid s = Some (r, s') \<Longrightarrow> unreported s' = unreported s"
  by (auto simp: findVSpaceForASID_def unreported_simps split: bind_splits asid_map_t.splits)

lemma decode_vspace_checked: "checked s (decode_vspace c n s)"
  unfolding decode_vspace_def Let_def
  by (auto simp: unreported_simps dest!: findVSpaceForASID_unreported intro!: checked_bind split: option.split)

lemmas mmu_dest = check_dest checkedD [OF decode_vspace_checked] findVSpaceForASID_unreported

lemma decodeARMVSpaceRootInvocation_settled: "settled s (decodeARMVSpaceRootInvocation label len c buffer s)"
  unfolding decodeARMVSpaceRootInvocation_def Let_def
  by (auto simp: unreported_simps dest!: mmu_dest intro!: settled_bind)

lemma decodeARMPageTableInvocation_settled:
  "settled s (decodeARMPageTableInvocation label len slot c buffer s)"
  unfolding decodeARMPageTableInvocation_def Let_def
  by (auto simp: unreported_simps dest!: mmu_dest intro!: settled_bind)

lemma decode_page_map_settled: "settled s (decode_page_map len slot c buffer s)"
  unfolding decode_page_map_def Let_def
  by (auto simp: unreported_simps dest!: mmu_dest intro!: settled_bind)

lemma decode_page_flush_settled: "settled s (decode_page_flush label len c buffer s)"
  unfolding decode_page_flush_def Let_def
  by (auto simp: unreported_simps dest!: mmu_dest intro!: settled_bind split: option.split)

lemma decode_asid_control_settled: "settled s (decode_asid_control label len buffer s)"
  unfolding decode_asid_control_def Let_def
  by (auto simp: unreported_simps dest!: mmu_dest intro!: settled_bind split: option.split)

lemma decode_asid_pool_settled: "settled s (decode_asid_pool label c s)"
  unfolding decode_asid_pool_def Let_def
  by (auto simp: unreported_simps intro!: settled_bind split: option.split)

lemma decodeARMMMUInvocation_settled: "settled s (decodeARMMMUInvocation label len slot c call buffer s)"
  by (auto simp: decodeARMMMUInvocation_def decodeARMFrameInvocation_def decodeARMVSpaceRootInvocation_settled
      decodeARMPageTableInvocation_settled decode_page_map_settled decode_page_flush_settled
      decode_asid_control_settled decode_asid_pool_settled intro!: settled_bind split: cap_t.split)

lemma decodeInvocation_settled:
  "settled s (decodeInvocation fuel label len index slot c block call buffer s)"
  by (auto simp: decodeInvocation_def Arch_decodeInvocation_def decodeARMMMUInvocation_settled
      decodeSGISignalInvocation_settled decodeTCBInvocation_settled decodeDomainInvocation_settled
      decodeCNodeInvocation_settled decodeUntypedInvocation_settled decodeIRQControlInvocation_settled
      decodeIRQHandlerInvocation_settled intro!: settled_bind split: cap_t.split)

section \<open>Properties\<close>

text \<open>C36: an invocation that ends in a system call error has changed nothing of the kernel: all
  memory, all queues, the scheduler and the machine are as before, whatever the capability, the
  label, the arguments and the state. Only the description of the error is new.\<close>

theorem refused_invocation_changes_nothing:
  assumes "decodeInvocation fuel invLabel len capIndex slot c block call buffer s =
      Some (EXCEPTION_SYSCALL_ERROR, s')"
  shows "s'\<lparr>current_syscall_error := current_syscall_error s, current_lookup_fault := current_lookup_fault s\<rparr> = s"
proof -
  have "unreported s' = unreported s"
    using decodeInvocation_settled [of s fuel invLabel len capIndex slot c block call buffer] assms
    by (simp add: settled_def)
  then show ?thesis by (cases s, cases s') (simp add: unreported_def)
qed

theorem refused_invocation_changes_nothing_witness:
  "\<exists>s'. decodeInvocation 0 CNodeCopy 1 0 0 (cap_cnode_cap 4 0 0 0x1000) True True 0 blank_state =
      Some (EXCEPTION_SYSCALL_ERROR, s') \<and>
    se_type (current_syscall_error s') = seL4_TruncatedMessage \<and>
    s'\<lparr>current_syscall_error := current_syscall_error blank_state,
       current_lookup_fault := current_lookup_fault blank_state\<rparr> = blank_state"
proof -
  have r: "decodeInvocation 0 CNodeCopy 1 0 0 (cap_cnode_cap 4 0 0 0x1000) True True 0 blank_state =
      Some (EXCEPTION_SYSCALL_ERROR, set_error_type seL4_TruncatedMessage blank_state)"
    by (simp add: decodeInvocation_def isArchCap_def decodeCNodeInvocation_def assert_opt_def syscall_error_def)
  show ?thesis
    using r refused_invocation_changes_nothing [OF r] by (auto simp: set_error_type_def)
qed

text \<open>C37: the status of an invocation is one of three: done, refused or preempted. \<open>handleInvocation\<close>
  tests for the last two only, so any other failure status would be taken for success.\<close>

theorem decodeInvocation_status:
  "decodeInvocation fuel invLabel len capIndex slot c block call buffer s = Some (st, s') \<Longrightarrow>
    st \<in> {EXCEPTION_NONE, EXCEPTION_SYSCALL_ERROR, EXCEPTION_PREEMPTED}"
  using decodeInvocation_settled [of s fuel invLabel len capIndex slot c block call buffer]
  by (auto simp: settled_def)

theorem decodeInvocation_status_witness:
  "\<exists>st s'. decodeInvocation 0 DomainScheduleConfigure 2 0 0 cap_domain_cap True True 0 blank_state = Some (st, s') \<and>
    st \<in> {EXCEPTION_NONE, EXCEPTION_SYSCALL_ERROR, EXCEPTION_PREEMPTED}"
proof -
  have r: "decodeInvocation 0 DomainScheduleConfigure 2 0 0 cap_domain_cap True True 0 blank_state =
      Some (EXCEPTION_SYSCALL_ERROR, set_error_type seL4_TruncatedMessage blank_state)"
    by (simp add: decodeInvocation_def isArchCap_def decodeDomainInvocation_def
        decodeDomainScheduleConfigure_def syscall_error_def)
  show ?thesis
    using r decodeInvocation_status [OF r] by blast
qed

end
