(* ===== verification/Round_Robin.thy ===== *)
theory Round_Robin
  imports Syscalls
begin

text \<open>
  Yielding, from the system call to the next thread: \<open>handleSyscall\<close> puts the caller at the end of
  its ready queue and the scheduler takes the first thread of the highest queue. So the threads
  of the highest priority take turns, and each of them runs again after as many yields as the
  queue is long.
\<close>

section \<open>What choosing a thread leaves alone\<close>

lemma setVMRoot_time: "setVMRoot t s = Some s' \<Longrightarrow> ksDomainTime s' = ksDomainTime s"
  by (auto simp: setVMRoot_def findVSpaceForASID_def do_machine_op_def Let_def
      split: if_splits bind_splits asid_map_t.splits)

lemma switchToThread_time: "switchToThread t s = Some s' \<Longrightarrow> ksDomainTime s' = ksDomainTime s"
  by (auto simp: switchToThread_def Arch_switchToThread_def lazyFPURestore_def switchLocalFpuOwner_def
      do_machine_op_def Let_def bind_eq_Some_conv split: if_splits
      dest!: setVMRoot_time sched_op_erased(3) [THEN sched_erasedD(9)])

lemma chooseThread_time: "chooseThread s = Some s' \<Longrightarrow> ksDomainTime s' = ksDomainTime s"
  by (auto simp: chooseThread_def switchToIdleThread_def Arch_switchToIdleThread_def do_machine_op_def
      Let_def bind_eq_Some_conv split: if_splits dest!: switchToThread_time)

section \<open>The turn of a thread\<close>

text \<open>Thread \<open>t\<close> runs, with the highest priority \<open>p\<close> of the current domain \<open>d\<close>, and the threads
  \<open>ts\<close> of the same priority wait for their turn.\<close>

definition turn :: "kstate \<Rightarrow> ready_lists \<Rightarrow> word_t \<Rightarrow> word_t \<Rightarrow> ptr \<Rightarrow> ptr list \<Rightarrow> bool" where
  "turn s rq d p t ts \<longleftrightarrow>
     sched_ok s rq \<and> ksSchedulerAction s = SchedulerAction_ResumeCurrentThread \<and>
     ksCurThread s = t \<and> runnable s t \<and> t \<notin> ready rq \<and> ksCurDomain s = d \<and> ksDomainTime s \<noteq> 0 \<and>
     sched_place s t = Some (d, p) \<and> rq d p = ts \<and> (\<forall>q. rq d q \<noteq> [] \<longrightarrow> q \<le> p)"

text \<open>Activation lets a restarted thread run and keeps everything that a turn is about.\<close>

lemma activate_turn:
  assumes tn: "turn s rq d p t ts"
  shows "\<exists>s'. activateThread s = Some s' \<and> turn s' rq d p t ts"
proof -
  from tn have ok: "sched_ok s rq" and cur: "ksCurThread s = t" and act: "ksSchedulerAction s = 0"
    and new: "t \<notin> ready rq" by (simp_all add: turn_def)
  from tn obtain T where T: "tcbs s t = Some T" and r: "isRunnable T" by (auto simp: turn_def runnable_def)
  show ?thesis
  proof (cases "tsType (tcbState T) = ThreadState_Running")
    case True
    then show ?thesis using T cur tn by (simp add: activateThread_def)
  next
    case False
    then have re: "tsType (tcbState T) = ThreadState_Restart" using r by (simp add: isRunnable_iff)
    let ?T = "T\<lparr>tcbContext := (tcbContext T)(NextIP := tcbContext T FaultIP),
        tcbState := (tcbState T)\<lparr>tsType := ThreadState_Running\<rparr>\<rparr>"
    let ?s = "s\<lparr>tcbs := (tcbs s)(t \<mapsto> ?T)\<rparr>"
    have run: "activateThread s = Some ?s"
      using T cur re act by (simp add: activateThread_def getRestartPC_def getRegister_def setNextPC_def
          setRegister_def tcb_upd_def setThreadState_def scheduleTCB_def ts_upd_def isRunnable_def Let_def)
    have "t \<noteq> ksIdleThread s" using sched_okD(10) [OF ok] tn by (auto simp: turn_def)
    moreover have "if tcbQueued (tcbState T) then tcbDomain ?T = tcbDomain T \<and> tcbPriority ?T = tcbPriority T
        else tcbDomain ?T < numDomains s \<and> tcbPriority ?T < 256"
      using ok T by (auto simp: sched_ok_def ready_queues_ok_def tcbs_ok_def)
    ultimately have "sched_ok ?s rq"
      using new by (intro sched_ok_update [OF ok T]) auto
    then have "turn ?s rq d p t ts"
      using tn T by (auto simp: turn_def runnable_def isRunnable_def sched_place_def)
    then show ?thesis using run by blast
  qed
qed

text \<open>A thread that waits at the end of its queue.\<close>

lemma append_ok:
  assumes ok: "sched_ok s rq" and run: "runnable s t" and pl: "sched_place s t = Some (d, p)"
    and out: "t \<notin> set (rq d p)"
  shows "\<exists>s'. tcbSchedAppend t s = Some s' \<and> sched_erased s' = sched_erased s \<and>
    sched_place s' = sched_place s \<and> sched_ok s' (rq_set rq d p (rq d p @ [t]))"
proof -
  note f = sched_okD [OF ok]
  let ?rq = "rq_set rq d p (rq d p @ [t])"
  from rdy.app_law [OF f(1) pl] out obtain s' where s': "tcbSchedAppend t s = Some s'"
    "sched_place s' = sched_place s" "ready_queues_ok s' ?rq" by auto
  have e: "sched_erased s' = sched_erased s" by (rule sched_op_erased(2) [OF s'(1)])
  note d = sched_erasedD [OF e]
  have ready': "ready ?rq = insert t (ready rq)" by (intro ready_cons) auto
  have "sched_ok s' ?rq"
  proof (rule sched_ok_step [OF ok rest_erased [OF e] s'(3)])
    show "runnable s u" if "u \<in> ready ?rq" for u using that ready' f(3) run by auto
    show "ksCurDomain s' = ksCurDomain s \<and> ksDomScheduleIdx s' = ksDomScheduleIdx s \<or>
        ksCurDomain s' < numDomains s \<and> ksDomScheduleIdx s' < domScheduleLength s - 1"
      using d(8) e [THEN arg_cong, of ksDomScheduleIdx] by (simp add: sched_erased_def)
  qed (use f(6) d(5) in simp)
  with s' e show ?thesis by blast
qed

text \<open>One yield: the caller goes to the end and the next one has its turn.\<close>

lemma yield_turn:
  assumes tn: "turn s rq d p t ts"
  shows "\<exists>s' rq'. handleSyscall fuel SysYield s = Some (EXCEPTION_NONE, s') \<and>
    turn s' rq' d p (hd (ts @ [t])) (tl (ts @ [t]))"
proof -
  from tn have ok: "sched_ok s rq" and cur: "ksCurThread s = t" and act: "ksSchedulerAction s = 0"
    and new: "t \<notin> ready rq" and run: "runnable s t" and pl: "sched_place s t = Some (d, p)"
    and dm: "ksCurDomain s = d" and time: "ksDomainTime s \<noteq> 0" and q: "rq d p = ts"
    and hi: "\<And>q. rq d q \<noteq> [] \<Longrightarrow> q \<le> p" by (auto simp: turn_def)
  note f = sched_okD [OF ok]
  have out: "t \<notin> set (rq d p)" using new by (auto simp: ready_def)
  have same: "rq_set rq d p (remove1 t (rq d p)) = rq"
    using out by (simp add: rq_set_def fun_eq_iff remove1_idem)
  from rdy.deq_law [OF f(1) pl] same obtain s1 where s1: "tcbSchedDequeue t s = Some s1"
    "sched_place s1 = sched_place s" "ready_queues_ok s1 rq" by auto
  have e1: "sched_erased s1 = sched_erased s" by (rule sched_op_erased(3) [OF s1(1)])
  note r1 = rest_erased [OF e1]
  have "sched_ok s1 rq"
    using e1 [THEN arg_cong, of ksDomScheduleIdx] sched_erasedD(5,8) [OF e1] f(3,6)
    by (intro sched_ok_step [OF ok r1 s1(3)]) (simp_all add: sched_erased_def)
  moreover have "runnable s1 t" using run rest_view(1) [OF r1] by simp
  ultimately obtain s2 where s2: "tcbSchedAppend t s1 = Some s2" "sched_place s2 = sched_place s"
    "sched_erased s2 = sched_erased s" "sched_ok s2 (rq_set rq d p (ts @ [t]))"
    using append_ok [of s1 rq t d p] pl s1(2) out q e1 by auto
  let ?rq = "rq_set rq d p (ts @ [t])"
  let ?s2 = "set_action SchedulerAction_ChooseNewThread s2"
  note e2 = s2(3)
  note d2 = sched_erasedD [OF e2]
  have r2: "rest s2 = rest s" by (rule rest_erased [OF e2])
  have ready2: "ready ?rq = insert t (ready rq)" using q by (intro ready_cons) auto
  have ok2: "sched_ok ?s2 ?rq" using s2(4) by simp
  have yielded: "handleYield s = Some ?s2"
    using s1(1) s2(1) cur act d2(5,7) sched_erasedD(5) [OF e1]
    by (simp add: handleYield_def rescheduleRequired_def set_action_def Let_def)
  note g = sched_okD [OF ok2]
  have cur2: "ksCurThread ?s2 = t" "ksSchedulerAction ?s2 = 1" "ksDomainTime ?s2 \<noteq> 0" "ksCurDomain ?s2 = d"
    "ksIdleThread ?s2 = ksIdleThread s"
    using d2 cur dm time by (simp_all add: set_action_def)
  from run have run2: "runnable ?s2 t" using rest_view(1) [of ?s2 s] r2 by simp
  then obtain T where T: "tcbs ?s2 t = Some T" "isRunnable T" by (auto simp: runnable_def)
  have "sched_place ?s2 t = sched_place s2 t" by (simp add: sched_place_def set_action_def)
  then have pl2: "sched_place ?s2 t = Some (d, p)" using pl s2(2) by simp
  have tin: "t \<in> set (?rq d p)" by (simp add: rq_set_def)
  from rdy.enq_law [OF g(1) pl2] tin obtain s3 where s3: "tcbSchedEnqueue t ?s2 = Some s3"
    "sched_place s3 = sched_place ?s2" "ready_queues_ok s3 ?rq" by auto
  have e3: "sched_erased s3 = sched_erased ?s2" by (rule sched_op_erased(1) [OF s3(1)])
  note d3 = sched_erasedD [OF e3]
  have r3: "rest s3 = rest s" using rest_erased [OF e3] r2 by simp
  have env3: "sched_env s3" using f(2) sched_env_rest [OF r3] by simp
  have "runnable s3 u" if "u \<in> set (?rq d' p')" for d' p' u
  proof -
    have "u \<in> ready ?rq" using that by (auto simp: ready_def)
    then show ?thesis using ready2 f(3) run by (auto simp: rest_view(1) [OF r3])
  qed
  moreover have "ksCurDomain s3 < numDomains s3"
    using f(4) d3(8) cur2(4) dm restD(8) [OF r3] by simp
  ultimately obtain s4 rq4 where s4: "chooseThread s3 = Some s4" "rest s4 = rest s3"
    "ksSchedulerAction s4 = ksSchedulerAction s3" "ksCurDomain s4 = ksCurDomain s3"
    "ksDomScheduleIdx s4 = ksDomScheduleIdx s3" "ready_queues_ok s4 rq4"
    "picks ?rq (ksCurDomain s3) (ksIdleThread s3) (ksCurThread s4) rq4"
    using chooseThread_ok [OF env3 s3(3)] by blast
  have d3': "ksCurDomain s3 = d" "ksIdleThread s3 = ksIdleThread s" using d3 cur2 by simp_all
  obtain u us where us: "ts @ [t] = u # us" by (cases ts) auto
  have at: "?rq d p = u # us" by (simp add: rq_set_def us)
  have pick: "ksCurThread s4 = u \<and> rq4 = rq_set ?rq d p us"
  proof -
    from s4(7) at obtain p' ts' where p': "?rq d p' = ksCurThread s4 # ts'" "rq4 = rq_set ?rq d p' ts'"
      "\<And>q. ?rq d q \<noteq> [] \<Longrightarrow> q \<le> p'" unfolding picks_def d3' by fastforce
    have "p \<le> p'" using p'(3) [of p] at by simp
    moreover have "p' \<le> p"
    proof (rule ccontr)
      assume "\<not> p' \<le> p"
      then have "rq d p' \<noteq> []" using p'(1) by (auto simp: rq_set_def split: if_splits)
      with hi [of p'] \<open>\<not> p' \<le> p\<close> show False by simp
    qed
    ultimately have "p' = p" by simp
    with p'(1,2) at show ?thesis by simp
  qed
  have r4: "rest s4 = rest s" using s4(2) r3 by simp
  have undo: "?rq = rq_set rq4 d p (u # us)" using pick at by (auto simp: rq_set_def fun_eq_iff)
  have "rq4 d p = us" using pick by (simp add: rq_set_def)
  then have ready4: "ready ?rq = insert u (ready rq4)" by (subst undo, intro ready_cons) auto
  have "picks ?rq d (ksIdleThread s) u rq4" using s4(7) pick unfolding d3' by simp
  from picks_ready(2) [OF this s3(3)] have new4: "u \<notin> ready rq4" using g(7) cur2(5) by simp
  have old: "v \<in> insert t (ready rq)" if "v \<in> insert u (ready rq4)" for v
  proof -
    have "insert u (ready rq4) = insert t (ready rq)" using ready2 ready4 by metis
    then show ?thesis using that by blast
  qed
  have urun: "runnable s u" using old [of u] f(3) run by blast
  have ok4: "sched_ok s4 rq4"
  proof (rule sched_ok_step [OF ok r4 s4(6)])
    show "runnable s v" if "v \<in> ready rq4" for v using old [of v] that f(3) run by blast
    show "tcbs s (ksCurThread s4) \<noteq> None" using urun pick by (auto simp: runnable_def)
    have "ksDomScheduleIdx s4 = ksDomScheduleIdx s"
      using s4(5) e3 [THEN arg_cong, of ksDomScheduleIdx] e2 [THEN arg_cong, of ksDomScheduleIdx]
      by (simp add: sched_erased_def set_action_def)
    then show "ksCurDomain s4 = ksCurDomain s \<and> ksDomScheduleIdx s4 = ksDomScheduleIdx s \<or>
        ksCurDomain s4 < numDomains s \<and> ksDomScheduleIdx s4 < domScheduleLength s - 1"
      using s4(4) d3'(1) dm by simp
  qed
  have sch: "schedule ?s2 = Some (set_action 0 s4)"
    using T cur2 s3(1) d3(7,9) s4(1) by (simp add: schedule_def scheduleChooseNewThread_def)
  have "turn (set_action 0 s4) rq4 d p u us"
  proof -
    have "ksDomainTime s4 \<noteq> 0" using chooseThread_time [OF s4(1)] d3(9) cur2(3) by simp
    moreover have "sched_place (set_action 0 s4) u = Some (d, p)"
      using rdy.placed [OF s3(3), of u d p] at rest_view [of "set_action 0 s4" s3] s4(2) by simp
    moreover have "runnable (set_action 0 s4) u"
      using urun rest_view(1) [of "set_action 0 s4" s] r4 by simp
    moreover have "q \<le> p" if "rq4 d q \<noteq> []" for q
    proof (cases "q = p")
      case False
      with that pick have "rq d q \<noteq> []" by (auto simp: rq_set_def)
      then show ?thesis by (rule hi)
    qed simp
    ultimately show ?thesis
      using ok4 new4 pick s4(4) d3'(1) \<open>rq4 d p = us\<close>
      by (simp add: turn_def) (simp add: set_action_def)
  qed
  from activate_turn [OF this] obtain s5 where "activateThread (set_action 0 s4) = Some s5" "turn s5 rq4 d p u us"
    by blast
  then show ?thesis
    using yielded sch us by (auto simp: handleSyscall_def schedule_and_activate_def)
qed

section \<open>Any number of yields\<close>

primrec yields :: "nat \<Rightarrow> nat \<Rightarrow> kstate \<Rightarrow> kstate option" where
  "yields fuel 0 s = Some s"
| "yields fuel (Suc n) s = do { (e, s) \<leftarrow> handleSyscall fuel SysYield s; yields fuel n s }"

lemma yields_turn:
  assumes "turn s rq d p t ts"
  shows "\<exists>s' rq'. yields fuel n s = Some s' \<and>
    turn s' rq' d p (hd (rotate n (t # ts))) (tl (rotate n (t # ts)))"
  using assms
proof (induction n arbitrary: s rq t ts)
  case (Suc n)
  let ?u = "hd (ts @ [t])" and ?us = "tl (ts @ [t])"
  from yield_turn [OF Suc.prems] obtain s1 rq1 where s1: "handleSyscall fuel SysYield s = Some (EXCEPTION_NONE, s1)"
    "turn s1 rq1 d p ?u ?us" by blast
  have "?u # ?us = rotate1 (t # ts)" by simp
  then have "rotate n (?u # ?us) = rotate (Suc n) (t # ts)" by (simp add: rotate1_rotate_swap)
  with Suc.IH [OF s1(2)] s1(1) show ?case by auto
qed auto

section \<open>Properties\<close>

text \<open>C38: round robin. The threads of the highest ready priority take turns: after \<open>n\<close> system calls
  \<open>SysYield\<close> the kernel has returned from each of them, and the current thread is number \<open>n\<close> of the
  circle formed by the thread that ran first and the queue of its priority. So none of them
  starves: thread \<open>i\<close> of the queue runs after \<open>i + 1\<close> yields.\<close>

theorem yield_round_robin:
  assumes "sched_ok s rq" and "ksSchedulerAction s = SchedulerAction_ResumeCurrentThread"
    and "runnable s (ksCurThread s)" and "ksCurThread s \<notin> ready rq" and "ksDomainTime s \<noteq> 0"
    and "sched_place s (ksCurThread s) = Some (ksCurDomain s, p)"
    and "\<forall>q. rq (ksCurDomain s) q \<noteq> [] \<longrightarrow> q \<le> p"
  shows "\<exists>s'. yields fuel n s = Some s' \<and>
    ksCurThread s' =
      (ksCurThread s # rq (ksCurDomain s) p) ! (n mod Suc (length (rq (ksCurDomain s) p)))"
proof -
  have "turn s rq (ksCurDomain s) p (ksCurThread s) (rq (ksCurDomain s) p)"
    using assms by (simp add: turn_def)
  from yields_turn [OF this, of fuel n] show ?thesis
    by (auto simp: turn_def hd_rotate_conv_nth)
qed

text \<open>Threads \<open>0x1400\<close> and \<open>0x2400\<close> of priority 3; the second one waits.\<close>

definition yield_state :: kstate where
  "yield_state = sched_state
     \<lparr>tcbs := (tcbs sched_state)(0x2400 \<mapsto> blank_tcb\<lparr>tcbPriority := 3,
        tcbState := (tcbState blank_tcb)\<lparr>tsType := ThreadState_Restart\<rparr>\<rparr>),
      ksSchedulerAction := SchedulerAction_ResumeCurrentThread\<rparr>"

lemma yield_state_ok: "sched_ok yield_state (\<lambda>_ _. [])"
proof -
  have "sched_ok (sched_state\<lparr>tcbs := (tcbs sched_state)(0x2400 \<mapsto> blank_tcb\<lparr>tcbPriority := 3,
        tcbState := (tcbState blank_tcb)\<lparr>tsType := ThreadState_Restart\<rparr>\<rparr>)\<rparr>) (\<lambda>_ _. [])"
    by (rule sched_ok_update [OF sched_state_ok(1)])
      (auto simp: sched_state_def blank_state_def blank_tcb_def ready_def)
  from sched_ok_action [THEN iffD2, OF this, of 0] show ?thesis
    by (simp add: yield_state_def set_action_def)
qed

theorem yield_round_robin_witness:
  "\<exists>s s'. tcbSchedAppend 0x2400 yield_state = Some s \<and> ksCurThread s = 0x1400 \<and>
    yields 0 1 s = Some s' \<and> ksCurThread s' = 0x2400"
proof -
  have st: "tcbs yield_state 0x1400 = Some (blank_tcb\<lparr>tcbPriority := 3, tcbTimeSlice := 1,
        tcbState := (tcbState blank_tcb)\<lparr>tsType := ThreadState_Running\<rparr>\<rparr>)"
    "tcbs yield_state 0x2400 = Some (blank_tcb\<lparr>tcbPriority := 3,
        tcbState := (tcbState blank_tcb)\<lparr>tsType := ThreadState_Restart\<rparr>\<rparr>)"
    "ksCurThread yield_state = 0x1400" "ksSchedulerAction yield_state = 0" "ksCurDomain yield_state = 0"
    "ksDomainTime yield_state = 5"
    by (simp_all add: yield_state_def sched_state_def blank_state_def)
  have run: "runnable yield_state 0x1400" "runnable yield_state 0x2400"
    "sched_place yield_state 0x1400 = Some (0, 3)" "sched_place yield_state 0x2400 = Some (0, 3)"
    using st(1,2) by (simp_all add: runnable_def isRunnable_def sched_place_def blank_tcb_def)
  let ?rq = "rq_set (\<lambda>_ _. []) 0 3 [0x2400]"
  from append_ok [OF yield_state_ok run(2,4)] obtain s where s: "tcbSchedAppend 0x2400 yield_state = Some s"
    "sched_erased s = sched_erased yield_state" "sched_place s = sched_place yield_state" "sched_ok s ?rq"
    by auto
  note d = sched_erasedD [OF s(2)]
  have r: "runnable s 0x1400" using rest_view(1) [OF rest_erased [OF s(2)]] run(1) by simp
  have "0x1400 \<notin> ready ?rq" by (auto simp: ready_def rq_set_def split: if_splits)
  moreover have "\<forall>q. ?rq 0 q \<noteq> [] \<longrightarrow> q \<le> 3" by (simp add: rq_set_def)
  ultimately have "\<exists>s'. yields 0 1 s = Some s' \<and> ksCurThread s' =
      (ksCurThread s # ?rq (ksCurDomain s) 3) ! (1 mod Suc (length (?rq (ksCurDomain s) 3)))"
    using r d(5,7-9) st(3-6) s(3) run(3) by (intro yield_round_robin [OF s(4)]) simp_all
  then obtain s' where "yields 0 1 s = Some s'" "ksCurThread s' = 0x2400"
    using d(5,8) st(3,5) by (auto simp: rq_set_def simp del: yields.simps)
  with s(1) d(5) st(3) show ?thesis by auto
qed

end
