(* ===== verification/Page_Mapping.thy ===== *)
theory Page_Mapping
  imports VSpace_Inv
begin

text \<open>
  What the invocation \<^verbatim>\<open>ARMPageMap\<close> does to the address spaces: the counterpart of \<open>unmapPage\<close> in
  \<open>VSpace\<close>. The walk for the address ends at an entry of the right level, which is overwritten;
  no walk changes its course and no other entry changes.
\<close>

section \<open>Frames\<close>

lemma setThreadState_mem:
  assumes "setThreadState t ts s = Some s'"
  shows "ptes s' = ptes s" and "ctes s' = ctes s" and "pptrBaseOffset s' = pptrBaseOffset s"
    and "asid_pools s' = asid_pools s" and "armKSASIDTable s' = armKSASIDTable s"
  using assms
  by (auto simp: setThreadState_def ts_upd_def tcb_upd_def scheduleTCB_def set_action_def bind_eq_Some_conv
      split: if_splits option.splits)

lemma makeUserPagePTE_page:
  "pte_is_page_type (makeUserPagePTE base r a sz)" "page_base_address (makeUserPagePTE base r a sz) = base"
  "vmRightsFromPTE (makeUserPagePTE base r a sz) = Some r"
  by (cases r; simp add: makeUserPagePTE_def pte_is_page_type_def vmRightsFromPTE_def pte_get_AP_def
      APFromVMRights_def Let_def)+

lemma decode_vspace_valid:
  assumes "decode_vspace c n s = Some ((EXCEPTION_NONE, root, asid), s')"
  shows "s' = s" and "isValidNativeRoot c" and "root = capVSBasePtr c" and "asid = capVSMappedASID c"
    and "findMapForASID asid s = Some (asid_map_vspace root)"
  using assms
  by (auto simp: decode_vspace_def findVSpaceForASID_def Let_def bind_eq_Some_conv
      split: if_splits option.splits asid_map_t.splits)

section \<open>Writing a leaf entry\<close>

text \<open>No table at the last level of a walk through an address space.\<close>

definition leaves_ok :: "kstate \<Rightarrow> bool" where
  "leaves_ok s \<longleftrightarrow>
     (\<forall>asid r v slot pte. findMapForASID asid s = Some (asid_map_vspace r) \<longrightarrow>
        lookupPTSlot r v s = Some (slot, 12) \<longrightarrow> ptes s slot = Some pte \<longrightarrow>
        \<not> pte_pte_table_ptr_get_present pte)"

lemma walk_ends_at_leaf:
  assumes wf: "vspaces_wf s" and lv: "leaves_ok s" and root: "findMapForASID asid s = Some (asid_map_vspace root)"
    and walk: "lookupPTSlot root v s = Some (slot, bits)"
  shows "\<exists>pte. ptes s slot = Some pte \<and> \<not> pte_pte_table_ptr_get_present pte"
proof -
  from wf root have live: "pt_live s root" by (auto simp: vspaces_wf_def)
  obtain slot' l pte where l: "lookupPTSlot root v s = Some (slot', 12 + 9 * of_nat l)" "ptes s slot' = Some pte"
    "0 < l \<Longrightarrow> \<not> pte_pte_table_ptr_get_present pte" by (rule lookupPTSlot_total [OF wf live, of v]) blast
  show ?thesis
  proof (cases l)
    case 0
    with l lv walk root show ?thesis by (auto simp: leaves_ok_def)
  qed (use l walk in auto)
qed

lemma translation_written:
  assumes old: "ptes s slot = Some old" "\<not> pte_pte_table_ptr_get_present old"
    and new: "pte_is_page_type pte" "page_base_address pte = base"
    and s': "ptes s' = (ptes s)(slot \<mapsto> pte)" "pptrBaseOffset s' = pptrBaseOffset s"
  shows "lookupPTSlot r v s' = lookupPTSlot r v s"
    and "lookupPTSlot r v s = Some (slot, bits) \<Longrightarrow> translation s' r v = Some (base, bits)"
    and "\<forall>bits. lookupPTSlot r v s \<noteq> Some (slot, bits) \<Longrightarrow> translation s' r v = translation s r v"
proof -
  have "lookupPTSlot r v s' = lookupPTSlot r v (s\<lparr>ptes := (ptes s)(slot \<mapsto> pte)\<rparr>)"
    by (rule lookupPTSlot_cong) (simp_all add: s')
  then show walk: "lookupPTSlot r v s' = lookupPTSlot r v s"
    using lookupPTSlot_leaf [OF old page_no_table [OF new(1)]] by simp
  show "translation s' r v = Some (base, bits)" if "lookupPTSlot r v s = Some (slot, bits)"
    using that new by (simp add: translation_def walk s' pte_get_page_base_address_def assert_opt_def)
  show "translation s' r v = translation s r v" if "\<forall>bits. lookupPTSlot r v s \<noteq> Some (slot, bits)"
    using that by (cases "lookupPTSlot r v s") (auto simp: translation_def walk s')
qed

lemma performPageInvocationMap_result:
  assumes "performPageInvocationMap asid c cte pte slot s = Some (st, s')"
  shows "\<exists>x l. ctes s cte = Some x \<and>
    s' = s\<lparr>ctes := (ctes s)(cte \<mapsto> x\<lparr>cte_cap := c\<rparr>), ptes := (ptes s)(slot \<mapsto> pte), machine_log := l\<rparr>"
  using assms
  unfolding performPageInvocationMap_def cte_set_cap_def cte_upd_def do_machine_op_def
    invalidateTLBByASIDVA_def Let_def bind_eq_Some_conv
  by (auto simp: assert_opt_def split: if_split_asm option.split_asm)

section \<open>The decoder\<close>

lemma decode_page_map_inv:
  assumes "decode_page_map len cte c buffer s = Some (EXCEPTION_NONE, s')"
  obtains vaddr x root asid slot s1 pte where
    "getSyscallArg 0 buffer s = Some vaddr" and "ctes s (current_extra_caps s 0) = Some x"
    and "decode_vspace (cte_cap x) 1 s = Some ((EXCEPTION_NONE, root, asid), s)"
    and "checkVPAlignment (capFSize c) vaddr"
    and "capFMappedASID c = asidInvalid \<Longrightarrow> vaddr + BIT (pageBitsForSize (capFSize c)) - 1 \<le> USER_TOP"
    and "capFMappedASID c \<noteq> asidInvalid \<Longrightarrow> capFMappedASID c = asid \<and> capFMappedAddress c = vaddr"
    and "lookupPTSlot root vaddr s = Some (slot, pageBitsForSize (capFSize c))"
    and "setThreadState (ksCurThread s) ThreadState_Restart s = Some s1"
    and "\<exists>r a. pte = makeUserPagePTE (pptr_to_paddr (capFBasePtr c) s) (maskVMRights (capFVMRights c) r) a (capFSize c)"
    and "performPageInvocationMap asid (cap_frame_cap_set_mapping asid vaddr c) cte pte slot s1 =
      Some (EXCEPTION_NONE, s')"
proof -
  from assms obtain vaddr w x r st root asid s0 where
    1: "getSyscallArg 0 buffer s = Some vaddr" "getSyscallArg 2 buffer s = Some w"
      "ctes s (current_extra_caps s 0) = Some x" "getSyscallArg 1 buffer s = Some r"
      "decode_vspace (cte_cap x) 1 s = Some ((st, root, asid), s0)"
    and rest: "(if st \<noteq> EXCEPTION_NONE then Some (st, s0)
      else if \<not> checkVPAlignment (capFSize c) vaddr then syscall_error seL4_AlignmentError s0
      else
        if capFMappedASID c \<noteq> asidInvalid \<and> capFMappedASID c \<noteq> asid then invalid_capability 1 s0
        else if capFMappedASID c \<noteq> asidInvalid \<and> capFMappedAddress c \<noteq> vaddr then invalid_argument 0 s0
        else if capFMappedASID c = asidInvalid \<and> vaddr + BIT (pageBitsForSize (capFSize c)) - 1 > USER_TOP
        then invalid_argument 0 s0
        else
          do { (ptSlot, ptBitsLeft) \<leftarrow> lookupPTSlot root vaddr s0;
               if ptBitsLeft \<noteq> pageBitsForSize (capFSize c) then
                 Some (EXCEPTION_SYSCALL_ERROR,
                   failed_lookup False (set_lookup_fault (lookup_fault_missing_capability ptBitsLeft) s0))
               else
                 do { s \<leftarrow> setThreadState (ksCurThread s0) ThreadState_Restart s0;
                      performPageInvocationMap asid (cap_frame_cap_set_mapping asid vaddr c) cte
                        (makeUserPagePTE (pptr_to_paddr (capFBasePtr (cap_frame_cap_set_mapping asid vaddr c)) s0)
                          (maskVMRights (capFVMRights c) (rightsFromWord r)) (vmAttributesFromWord w) (capFSize c))
                        ptSlot s } }) = Some (EXCEPTION_NONE, s')"
    unfolding decode_page_map_def Let_def
    by (auto simp: bind_eq_Some_conv syscall_error_def split: if_split_asm)
  have st: "st = EXCEPTION_NONE" using rest by (auto split: if_split_asm)
  have s0: "s0 = s" using decode_vspace_valid(1) 1(5) st by blast
  have ref: "syscall_error e s \<noteq> Some (EXCEPTION_NONE, s')" "invalid_capability n s \<noteq> Some (EXCEPTION_NONE, s')"
    "invalid_argument n s \<noteq> Some (EXCEPTION_NONE, s')" for e n
    by (simp_all add: syscall_error_def invalid_capability_def invalid_argument_def)
  obtain slot s1 where 2: "checkVPAlignment (capFSize c) vaddr"
      "capFMappedASID c = asidInvalid \<Longrightarrow> vaddr + BIT (pageBitsForSize (capFSize c)) - 1 \<le> USER_TOP"
      "capFMappedASID c \<noteq> asidInvalid \<Longrightarrow> capFMappedASID c = asid \<and> capFMappedAddress c = vaddr"
      "lookupPTSlot root vaddr s = Some (slot, pageBitsForSize (capFSize c))"
      "setThreadState (ksCurThread s) ThreadState_Restart s = Some s1"
    and 3: "performPageInvocationMap asid (cap_frame_cap_set_mapping asid vaddr c) cte
        (makeUserPagePTE (pptr_to_paddr (capFBasePtr c) s) (maskVMRights (capFVMRights c) (rightsFromWord r))
          (vmAttributesFromWord w) (capFSize c)) slot s1 = Some (EXCEPTION_NONE, s')"
    using rest unfolding st s0
    by (auto simp: ref bind_eq_Some_conv not_less cap_frame_cap_set_mapping_def split: if_split_asm)
  show thesis
    by (rule that [OF 1(1,3) 1(5) [unfolded st s0] 2 _ 3]) blast+
qed

lemma decode_page_map_result:
  assumes wf: "vspaces_wf s" and lv: "leaves_ok s"
    and run: "decode_page_map len cte c buffer s = Some (EXCEPTION_NONE, s')"
  shows "\<exists>vaddr x root asid. getSyscallArg 0 buffer s = Some vaddr \<and>
    ctes s (current_extra_caps s 0) = Some x \<and> isValidNativeRoot (cte_cap x) \<and>
    findMapForASID asid s = Some (asid_map_vspace root) \<and> root = capVSBasePtr (cte_cap x) \<and>
    vaddr AND MASK (pageBitsForSize (capFSize c)) = 0 \<and>
    translation s' root vaddr = Some (pptr_to_paddr (capFBasePtr c) s, pageBitsForSize (capFSize c)) \<and>
    (\<exists>slot pte r. lookupPTSlot root vaddr s = Some (slot, pageBitsForSize (capFSize c)) \<and>
       ptes s' slot = Some pte \<and> vmRightsFromPTE pte = Some (maskVMRights (capFVMRights c) r) \<and>
       (\<forall>r' v'. (\<forall>bits. lookupPTSlot r' v' s \<noteq> Some (slot, bits)) \<longrightarrow>
          translation s' r' v' = translation s r' v')) \<and>
    (\<forall>r' v'. lookupPTSlot r' v' s' = lookupPTSlot r' v' s) \<and>
    (\<exists>y. ctes s' cte = Some y \<and> cte_cap y =
       cap_frame_cap asid (capFBasePtr c) (capFSize c) vaddr (capFVMRights c) (capFIsDevice c))"
proof -
  from run obtain vaddr x root asid slot s1 pte where
    v: "getSyscallArg 0 buffer s = Some vaddr" and x: "ctes s (current_extra_caps s 0) = Some x"
    and dv: "decode_vspace (cte_cap x) 1 s = Some ((EXCEPTION_NONE, root, asid), s)"
    and al: "checkVPAlignment (capFSize c) vaddr"
    and walk: "lookupPTSlot root vaddr s = Some (slot, pageBitsForSize (capFSize c))"
    and ts: "setThreadState (ksCurThread s) ThreadState_Restart s = Some s1"
    and pte: "\<exists>r a. pte = makeUserPagePTE (pptr_to_paddr (capFBasePtr c) s) (maskVMRights (capFVMRights c) r) a (capFSize c)"
    and map: "performPageInvocationMap asid (cap_frame_cap_set_mapping asid vaddr c) cte pte slot s1 =
      Some (EXCEPTION_NONE, s')"
    by (rule decode_page_map_inv)
  note m = setThreadState_mem [OF ts] and vs = decode_vspace_valid [OF dv]
  from performPageInvocationMap_result [OF map] obtain y l where y: "ctes s1 cte = Some y"
    and s': "s' = s1\<lparr>ctes := (ctes s1)(cte \<mapsto> y\<lparr>cte_cap := cap_frame_cap_set_mapping asid vaddr c\<rparr>),
      ptes := (ptes s1)(slot \<mapsto> pte), machine_log := l\<rparr>" by blast
  have mem: "ptes s' = (ptes s)(slot \<mapsto> pte)" "pptrBaseOffset s' = pptrBaseOffset s" by (simp_all add: s' m)
  from pte obtain r a where pte': "pte = makeUserPagePTE (pptr_to_paddr (capFBasePtr c) s)
      (maskVMRights (capFVMRights c) r) a (capFSize c)" by blast
  note page = makeUserPagePTE_page [of "pptr_to_paddr (capFBasePtr c) s" "maskVMRights (capFVMRights c) r" a
      "capFSize c", folded pte']
  from walk_ends_at_leaf [OF wf lv vs(5) walk] obtain old where
    old: "ptes s slot = Some old" "\<not> pte_pte_table_ptr_get_present old" by blast
  note tr = translation_written [OF old page(1,2) mem]
  show ?thesis
    using v x vs(2,3,5) al tr(1) tr(2) [OF walk] walk mem(1) page(3) tr(3)
    by (intro exI [of _ vaddr] exI [of _ x] exI [of _ root] exI [of _ asid])
      (auto simp: checkVPAlignment_def s' cap_frame_cap_set_mapping_def)
qed

section \<open>Properties\<close>

text \<open>C39: mapping a frame. When the invocation succeeds, the address given by the caller translates
  to the memory of the frame, with the size of the frame, in the address space of the capability
  that the caller passed, and with no more rights than the frame capability has. The walk of every
  address stays the same, and every other translation too, except for addresses that the same page table
  entry translates. The frame capability records the mapping, so that it can be undone.\<close>

theorem page_map_maps:
  assumes "vspaces_wf s" and "leaves_ok s"
    and "decode_page_map len cte c buffer s = Some (EXCEPTION_NONE, s')"
  shows "\<exists>vaddr x root asid. getSyscallArg 0 buffer s = Some vaddr \<and>
    ctes s (current_extra_caps s 0) = Some x \<and> isValidNativeRoot (cte_cap x) \<and>
    findMapForASID asid s = Some (asid_map_vspace root) \<and> root = capVSBasePtr (cte_cap x) \<and>
    vaddr AND MASK (pageBitsForSize (capFSize c)) = 0 \<and>
    translation s' root vaddr = Some (pptr_to_paddr (capFBasePtr c) s, pageBitsForSize (capFSize c)) \<and>
    (\<exists>slot pte r. lookupPTSlot root vaddr s = Some (slot, pageBitsForSize (capFSize c)) \<and>
       ptes s' slot = Some pte \<and> vmRightsFromPTE pte = Some (maskVMRights (capFVMRights c) r) \<and>
       (\<forall>r' v'. (\<forall>bits. lookupPTSlot r' v' s \<noteq> Some (slot, bits)) \<longrightarrow>
          translation s' r' v' = translation s r' v')) \<and>
    (\<forall>r' v'. lookupPTSlot r' v' s' = lookupPTSlot r' v' s) \<and>
    (\<exists>y. ctes s' cte = Some y \<and> cte_cap y =
       cap_frame_cap asid (capFBasePtr c) (capFSize c) vaddr (capFVMRights c) (capFIsDevice c))"
  by (rule decode_page_map_result [OF assms])

text \<open>A second page of the address space of \<open>vspace_example\<close>: the frame at \<open>0x7000\<close> at address \<open>0x1000\<close>.\<close>

definition map_state :: kstate where
  "map_state = vspace_example
     \<lparr>tcbs := [0x10400 \<mapsto> blank_tcb\<lparr>tcbContext := (\<lambda>_. 0)(2 := 0x1000, 3 := 3)\<rparr>],
      ctes := (ctes vspace_example)
        (0x20000 \<mapsto> \<lparr>cte_cap = cap_frame_cap 0 0x7000 ARMSmallPage 0 VMReadWrite False, cteMDBNode = nullMDBNode\<rparr>),
      current_extra_caps := (\<lambda>_. 0)(0 := 0x10020)\<rparr>"

lemma map_state_mem:
  "ptes map_state = ptes vspace_example" "pptrBaseOffset map_state = 0"
  "findMapForASID a map_state = findMapForASID a vspace_example"
  by (simp_all add: map_state_def vspace_example_def blank_state_def findMapForASID_def)

lemma pt_entry_offset: "pt_entry p v b - p \<le> 0xff8"
proof -
  have "unat (shiftr v b AND MASK PT_INDEX_BITS) < 512" by (simp add: word_bounds)
  then show ?thesis by (simp add: pt_entry_def word_le_nat_alt unat_mult_lem [THEN iffD1])
qed

lemma map_state_walk: "lookupPTSlot r v map_state = lookupPTSlot r v vspace_example"
  by (rule lookupPTSlot_cong) (simp_all add: map_state_mem, simp add: vspace_example_def blank_state_def)

text \<open>The only walk that reaches the last level goes through the three tables.\<close>

lemma vspace_example_ptes:
  "ptes vspace_example 0x1000 = Some (pte_pte_table 0x2000)"
  "ptes vspace_example 0x2000 = Some (pte_pte_table 0x3000)"
  "ptes vspace_example 0x3000 = Some (pte_pte_table 0x4000)"
  "p \<notin> {0x1000, 0x2000, 0x3000} \<Longrightarrow> \<exists>pte. ptes vspace_example p = Some pte \<and> \<not> pte_pte_table_ptr_get_present pte"
  "paddr_to_pptr b vspace_example = b"
  by (simp_all add: vspace_example_def pte_pte_table_ptr_get_present_def paddr_to_pptr_def blank_state_def)

lemma walk_step:
  "ptes s p = Some (pte_pte_table b) \<Longrightarrow>
    lookupPTSlot_loop (Suc l) bits p v s =
      lookupPTSlot_loop l (bits - PT_INDEX_BITS) (pt_entry (paddr_to_pptr b s) v (bits - PT_INDEX_BITS)) v s"
  "ptes s p = Some pte \<Longrightarrow> \<not> pte_pte_table_ptr_get_present pte \<Longrightarrow>
    lookupPTSlot_loop (Suc l) bits p v s = Some (p, bits)"
  "ptes s p \<noteq> None \<Longrightarrow> lookupPTSlot_loop 0 bits p v s = Some (p, bits)"
  by (auto simp: lookupPTSlot_loop.simps [of "Suc l"] lookupPTSlot_loop.simps [of 0]
      pte_pte_table_ptr_get_present_def Let_def)

lemma vspace_example_stop:
  assumes "q \<in> {0x1000, 0x2000, 0x3000}" and "pt_entry q v b \<noteq> q"
  shows "lookupPTSlot_loop (Suc l) bits (pt_entry q v b) v vspace_example = Some (pt_entry q v b, bits)"
proof -
  have "pt_entry q v b \<notin> {0x1000, 0x2000, 0x3000}"
    using pt_entry_offset [of q v b] assms by auto
  from vspace_example_ptes(4) [OF this] show ?thesis by (auto intro: walk_step(2))
qed

lemma vspace_example_leaf:
  assumes "lookupPTSlot 0x1000 v vspace_example = Some (slot, 12)"
  shows "slot = pt_entry 0x4000 v 12"
proof -
  have st: "lookupPTSlot_loop (Suc l) bits (pt_entry q v b) v vspace_example =
      (if pt_entry q v b = q then lookupPTSlot_loop l (bits - 9) (pt_entry (q + 0x1000) v (bits - 9)) v vspace_example
       else Some (pt_entry q v b, bits))" if "q \<in> {0x1000, 0x2000, 0x3000}" for l bits q b
    using vspace_example_stop [OF that] that vspace_example_ptes
    by (auto simp: walk_step(1))
  have "\<exists>pte. ptes vspace_example (pt_entry 0x4000 v 12) = Some pte" by (simp add: vspace_example_def)
  then show ?thesis
    using assms by (auto simp: lookupPTSlot_def Let_def numeral_3_eq_3 st walk_step(3) split: if_splits)
qed

lemma map_state_ok: "vspaces_wf map_state" "leaves_ok map_state"
proof -
  show "vspaces_wf map_state"
    using vspace_example_wf(1)
    by (simp add: vspaces_wf_def pt_live_def map_state_mem paddr_to_pptr_def)
      (simp add: vspace_example_def blank_state_def)
  have root: "r = 0x1000" if "findMapForASID a vspace_example = Some (asid_map_vspace r)" for a r
    using that by (auto simp: findMapForASID_def vspace_example_def Let_def bind_eq_Some_conv split: if_splits)
  have "pt_entry 0x4000 v 12 \<notin> {0x1000, 0x2000, 0x3000}" for v
    using pt_entry_offset [of "0x4000" v 12] by auto
  then show "leaves_ok map_state"
    using vspace_example_ptes(4) vspace_example_leaf root
    unfolding leaves_ok_def map_state_mem map_state_walk by (metis option.inject)
qed

theorem page_map_maps_witness:
  "\<exists>s'. decode_page_map 3 0x20000 (cap_frame_cap 0 0x7000 ARMSmallPage 0 VMReadWrite False) 0 map_state =
      Some (EXCEPTION_NONE, s') \<and> translation s' 0x1000 0x1000 = Some (0x7000, 12)"
proof -
  let ?c = "cap_frame_cap 0 0x7000 ARMSmallPage 0 VMReadWrite False"
  have args: "getSyscallArg 0 0 map_state = Some 0x1000" "getSyscallArg 1 0 map_state = Some 3"
    "getSyscallArg 2 0 map_state = Some 0" "current_extra_caps map_state 0 = 0x10020"
    "ctes map_state 0x10020 = Some \<lparr>cte_cap = cap_vspace_cap 1 0x1000 True, cteMDBNode = nullMDBNode\<rparr>"
    "ctes map_state 0x20000 = Some \<lparr>cte_cap = ?c, cteMDBNode = nullMDBNode\<rparr>"
    "ksCurThread map_state = 0x10400"
    by (simp_all add: getSyscallArg_def map_state_def vspace_example_def getRegister_def msgRegisters_def)
  have "findVSpaceForASID 1 map_state = Some (Some 0x1000, map_state)"
    using vspace_example_maps(1) by (simp add: findVSpaceForASID_def map_state_mem)
  then have dv: "decode_vspace (cap_vspace_cap 1 0x1000 True) 1 map_state = Some ((EXCEPTION_NONE, 0x1000, 1), map_state)"
    by (simp add: decode_vspace_def isValidNativeRoot_def isVTableRoot_def)
  have walk: "lookupPTSlot 0x1000 0x1000 map_state = Some (0x4008, 12)"
    unfolding map_state_walk
    by (simp add: lookupPTSlot_def Let_def numeral_3_eq_3 pt_entry_def shiftr_def MASK_def BIT_def
        walk_step(1) vspace_example_ptes) (simp add: walk_step(3) vspace_example_def)
  have "ptes map_state 0x4008 = Some pte_pte_invalid" "\<exists>s'. setThreadState 0x10400 ThreadState_Restart map_state = Some s'"
    by (simp_all add: map_state_mem vspace_example_def setThreadState_def ts_upd_def tcb_upd_def scheduleTCB_def map_state_def)
  then have "\<exists>s'. decode_page_map 3 0x20000 ?c 0 map_state = Some (EXCEPTION_NONE, s')"
    using walk dv args
    by (auto simp: decode_page_map_def Let_def checkVPAlignment_def performPageInvocationMap_def
        cte_set_cap_def cte_upd_def setThreadState_mem pte_ptr_get_valid_def BIT_def MASK_def)
  then obtain s' where r: "decode_page_map 3 0x20000 ?c 0 map_state = Some (EXCEPTION_NONE, s')" by blast
  have "getSyscallArg 0 0 map_state = Some 0x1000" "capVSBasePtr (cte_cap x) = 0x1000"
    if "ctes map_state (current_extra_caps map_state 0) = Some x" for x
    using that by (auto simp: getSyscallArg_def map_state_def vspace_example_def getRegister_def msgRegisters_def)
  then show ?thesis
    using page_map_maps [OF map_state_ok r] r
    by (auto simp: pptr_to_paddr_def map_state_mem)
qed

end
