(* ===== verification/Interrupt_Signals.thy ===== *)
theory Interrupt_Signals
  imports Interrupts Domains Signals
begin

text \<open>
  A device interrupt becomes a signal: \<open>checkInterrupt\<close> reads the interrupt from the controller,
  sends the signal of the notification that was bound to it, masks it and completes it, so that it
  does not come again before the handler has acknowledged it.
\<close>

section \<open>The controller is left alone by the delivery\<close>

lemma possibleSwitchTo_irq: "possibleSwitchTo t s = Some s' \<Longrightarrow> active_irq s' = active_irq s"
  by (auto simp: possibleSwitchTo_def rescheduleRequired_def set_action_def bind_eq_Some_conv split: if_splits
      dest!: sched_op_erased(1) [THEN arg_cong, of _ _ _ active_irq], auto simp: sched_erased_def)

lemma setThreadState_irq: "setThreadState t ts s = Some s' \<Longrightarrow> active_irq s' = active_irq s"
  by (auto simp: setThreadState_def ts_upd_def tcb_upd_def scheduleTCB_def set_action_def bind_eq_Some_conv
      split: if_splits option.splits)

lemma tcbEPDequeue_irq: "tcbEPDequeue t q s = Some (q', s') \<Longrightarrow> active_irq s' = active_irq s"
  by (auto simp: tcbEPDequeue_def tcb_upd_def bind_eq_Some_conv split: if_splits option.splits)

lemma objects_irq:
  "ep_upd p f s = Some s' \<Longrightarrow> active_irq s' = active_irq s"
  "ntfn_upd p g s = Some s' \<Longrightarrow> active_irq s' = active_irq s"
  "setRegister t r v s = Some s' \<Longrightarrow> active_irq s' = active_irq s"
  by (auto simp: ep_upd_def ntfn_upd_def setRegister_def tcb_upd_def split: option.splits)

lemma queues_irq:
  "ep_ptr_set_queue p q s = Some s' \<Longrightarrow> active_irq s' = active_irq s"
  "ntfn_ptr_set_queue p q s = Some s' \<Longrightarrow> active_irq s' = active_irq s"
  "endpoint_ptr_set_state p e s = Some s' \<Longrightarrow> active_irq s' = active_irq s"
  "notification_ptr_set_state p n s = Some s' \<Longrightarrow> active_irq s' = active_irq s"
  "ntfn_set_active p badge s = Some s' \<Longrightarrow> active_irq s' = active_irq s"
  by (auto simp: ep_ptr_set_queue_def ntfn_ptr_set_queue_def endpoint_ptr_set_state_def ntfn_set_active_def
      notification_ptr_set_state_def bind_eq_Some_conv dest!: objects_irq)

lemmas irq_dest = possibleSwitchTo_irq setThreadState_irq tcbEPDequeue_irq objects_irq queues_irq

lemma cancel_receive_irq:
  assumes "cancelIPC t s = Some s'" and "tcbs s t = Some T" and "tsType (tcbState T) = ThreadState_BlockedOnReceive"
  shows "active_irq s' = active_irq s"
  using assms by (auto simp: cancelIPC_def Let_def bind_eq_Some_conv split: if_splits dest!: irq_dest)

lemma sendSignal_irq:
  assumes "sendSignal p badge s = Some s'"
  shows "active_irq s' = active_irq s"
proof -
  from assms obtain n where n: "ntfns s p = Some n" by (auto simp: sendSignal_def bind_eq_Some_conv)
  show ?thesis
    using assms
    by (cases "ntfn_state n")
      (auto simp: sendSignal_def n Let_def bind_eq_Some_conv split: if_splits dest!: irq_dest
        dest: cancel_receive_irq)
qed

section \<open>The invariant does not mention the controller\<close>

definition irq_erased :: "kstate \<Rightarrow> kstate" where
  "irq_erased s = s\<lparr>active_irq := 0, gic_reads := 0, machine_log := []\<rparr>"

lemma irq_erased_simps [simp]:
  "irq_erased (s\<lparr>active_irq := a\<rparr>) = irq_erased s" "irq_erased (s\<lparr>gic_reads := k\<rparr>) = irq_erased s"
  "irq_erased (do_machine_op m s) = irq_erased s"
  by (simp_all add: irq_erased_def do_machine_op_def)

lemma irq_erasedD:
  assumes "irq_erased s' = irq_erased s"
  shows "\<exists>a k l. s' = s\<lparr>active_irq := a, gic_reads := k, machine_log := l\<rparr>"
  using assms by (intro exI [of _ "active_irq s'"] exI [of _ "gic_reads s'"] exI [of _ "machine_log s'"])
    (cases s, cases s', simp add: irq_erased_def)

lemma ipc_inv_irq:
  assumes inv: "ipc_inv s rq wq" and e: "irq_erased s' = irq_erased s"
  shows "ipc_inv s' rq wq"
proof -
  from irq_erasedD [OF e] obtain a k l where s': "s' = s\<lparr>active_irq := a, gic_reads := k, machine_log := l\<rparr>" by blast
  have ok: "sched_ok s rq" "action_ok s" "wait_ok s wq" "bound_ok s" using inv by (simp_all add: ipc_inv_def)
  have "dom_sched_ok s'" using sched_okD(5) [OF ok(1)] by (simp add: s' dom_sched_ok_def)
  from sched_ok_cong [OF ok(1) this] have "sched_ok s' rq" "action_ok s' = action_ok s" by (simp_all add: s')
  note sched = this
  have bound: "bound_ok s' = bound_ok s" by (rule bound_ok_cong) (simp_all add: s')
  have "obj_view s' = obj_view s" by (rule ext, rename_tac w, case_tac w) (simp_all add: s')
  moreover have "ep_next s' = ep_next s" "ep_prev s' = ep_prev s" "thread_wait s' = thread_wait s"
    by (rule ext, simp add: link_of_def thread_wait_def s')+
  ultimately have "wait_ok s' wq = wait_ok s wq" by (simp add: wait_ok_def wait_part_def)
  with sched bound show ?thesis using ok by (simp add: ipc_inv_def)
qed

lemma signalled_irq:
  assumes e: "irq_erased s1 = irq_erased s" "irq_erased s2' = irq_erased s'"
    and sg: "signalled s1 rq wq p badge s' rq' wq'"
  shows "signalled s rq wq p badge s2' rq' wq'"
proof -
  from irq_erasedD [OF e(1)] obtain a k l where s1: "s1 = s\<lparr>active_irq := a, gic_reads := k, machine_log := l\<rparr>" by blast
  from irq_erasedD [OF e(2)] obtain b m l' where s': "s2' = s'\<lparr>active_irq := b, gic_reads := m, machine_log := l'\<rparr>" by blast
  have views: "thread_wait s1 = thread_wait s" "waiting_to_run s1 = waiting_to_run s" "ntfns s1 = ntfns s"
    "woken s2' = woken s'" "waiting_to_run s2' = waiting_to_run s'" "ntfns s2' = ntfns s'"
    by (simp_all add: fun_eq_iff s1 s' woken_def waiting_to_run_def candidate_def thread_wait_def)
  show ?thesis using sg unfolding signalled_def views .
qed

section \<open>Delivery\<close>

text \<open>The word read from the controller, or the one that was read before and not completed.\<close>

definition irq_word :: "kstate \<Rightarrow> word_t" where
  "irq_word s = (if IS_IRQ_VALID (active_irq s) then active_irq s else gic_values s (gic_reads s))"

lemma getActiveIRQ_valid:
  assumes "IS_IRQ_VALID (irq_word s)"
  obtains s1 where "getActiveIRQ s = (irq_word s AND IRQ_MASK, s1)" and "irq_erased s1 = irq_erased s"
    and "active_irq s1 = irq_word s"
  using assms by (auto simp: irq_word_def getActiveIRQ_def gic_read_def Let_def split: if_splits)

lemma checkInterrupt_result:
  assumes inv: "ipc_inv s rq wq" and v: "IS_IRQ_VALID (irq_word s)"
    and irq: "irq = irq_word s AND IRQ_MASK" "irq \<le> maxIRQ s" "intStateIRQTable s irq = IRQSignal"
    and slot: "ctes s (cte_index (intStateIRQNode s) irq) = Some x"
      "cte_cap x = cap_notification_cap badge r True p" and n: "ntfns s p = Some n"
  shows "\<exists>s' rq' wq' l. checkInterrupt s = Some s' \<and> ipc_inv s' rq' wq' \<and>
    signalled s rq wq p badge s' rq' wq' \<and> active_irq s' = IRQ_NONE \<and>
    machine_log s' = l @ [maskInterrupt True irq, write_eoi (irq_word s)]"
proof -
  obtain s1 where s1: "getActiveIRQ s = (irq, s1)" "irq_erased s1 = irq_erased s" "active_irq s1 = irq_word s"
    using getActiveIRQ_valid [OF v] irq(1) by metis
  have ne: "irq \<noteq> irqInvalid"
  proof
    assume "irq = irqInvalid"
    then have "bit irq 15" by simp
    then show False by (simp add: irq(1) IRQ_MASK_def MASK_eq_mask bit_simps)
  qed
  from irq_erasedD [OF s1(2)] obtain a k l where e: "s1 = s\<lparr>active_irq := a, gic_reads := k, machine_log := l\<rparr>"
    by blast
  have "ntfns s1 p = Some n" using n by (simp add: e)
  from sendSignal_ok [OF ipc_inv_irq [OF inv s1(2)] this, of badge] obtain s2 rq' wq' where
    s2: "sendSignal p badge s1 = Some s2" "ipc_inv s2 rq' wq'" "signalled s1 rq wq p badge s2 rq' wq'" by blast
  have act: "active_irq s2 = irq_word s" using sendSignal_irq [OF s2(1)] s1(3) by simp
  let ?s3 = "do_machine_op (write_eoi (irq_word s)) (do_machine_op (maskInterrupt True irq) s2)"
  let ?s' = "?s3\<lparr>active_irq := IRQ_NONE\<rparr>"
  have "handleInterrupt irq s1 = Some ?s'"
    using irq slot s2(1) v act
    by (simp add: handleInterrupt_def e not_less ackInterrupt_def assert_opt_def do_machine_op_def)
  then have "checkInterrupt s = Some ?s'" by (simp add: checkInterrupt_def s1(1) ne)
  moreover have "ipc_inv ?s' rq' wq'" by (rule ipc_inv_irq [OF s2(2)]) simp
  moreover have "signalled s rq wq p badge ?s' rq' wq'" by (rule signalled_irq [OF s1(2) _ s2(3)]) simp
  moreover have "machine_log ?s' = machine_log s2 @ [maskInterrupt True irq, write_eoi (irq_word s)]"
    by (simp add: do_machine_op_def)
  moreover have "active_irq ?s' = IRQ_NONE" by simp
  ultimately show ?thesis by blast
qed

section \<open>Properties\<close>

text \<open>C40: an interrupt of a device for which a handler has bound a notification. The kernel sends the
  signal of that notification: the badge reaches the first waiting thread or a bound receiver or
  is recorded. The last two operations on the hardware mask the interrupt, then complete it at the controller
  with the word that was read, in this order, and the word is forgotten, so that it is never completed twice. No
  assertion fails, in particular the one of \<open>ackInterrupt\<close>.\<close>

theorem interrupt_delivers_signal:
  assumes "ipc_inv s rq wq" and "IS_IRQ_VALID (irq_word s)"
    and "irq = irq_word s AND IRQ_MASK" and "irq \<le> maxIRQ s" and "intStateIRQTable s irq = IRQSignal"
    and "ctes s (cte_index (intStateIRQNode s) irq) = Some x"
    and "cte_cap x = cap_notification_cap badge r True p" and "ntfns s p = Some n"
  shows "\<exists>s' rq' wq' l. checkInterrupt s = Some s' \<and> ipc_inv s' rq' wq' \<and>
    signalled s rq wq p badge s' rq' wq' \<and> active_irq s' = IRQ_NONE \<and>
    machine_log s' = l @ [maskInterrupt True irq, write_eoi (irq_word s)]"
  by (rule checkInterrupt_result [OF assms])

text \<open>Interrupt 33 is bound to the notification on which threads of \<open>ipc_state\<close> wait.\<close>

definition irq_state :: kstate where
  "irq_state = ipc_state
     \<lparr>maxIRQ := 100, intStateIRQTable := (\<lambda>_. IRQInactive)(33 := IRQSignal), gic_values := \<lambda>_. 33,
      active_irq := IRQ_NONE, intStateIRQNode := 0x100000,
      ctes := (ctes ipc_state)(cte_index 0x100000 33 \<mapsto>
        \<lparr>cte_cap = cap_notification_cap 5 False True 0xB000, cteMDBNode = nullMDBNode\<rparr>)\<rparr>"

lemma irq_state_inv: "ipc_inv irq_state (\<lambda>_ _. []) ipc_queues"
proof -
  let ?s = "ipc_state\<lparr>maxIRQ := 100, intStateIRQTable := (\<lambda>_. IRQInactive)(33 := IRQSignal),
      gic_values := \<lambda>_. 33, active_irq := IRQ_NONE, intStateIRQNode := 0x100000\<rparr>"
  have ok: "sched_ok ipc_state (\<lambda>_ _. [])" "action_ok ipc_state" "wait_ok ipc_state ipc_queues" "bound_ok ipc_state"
    using ipc_state_inv by (simp_all add: ipc_inv_def)
  have "dom_sched_ok ?s" using sched_okD(5) [OF ok(1)] by (simp add: dom_sched_ok_def)
  from sched_ok_cong(1) [OF ok(1) this] have "sched_ok ?s (\<lambda>_ _. [])" by simp
  moreover have "kept irq_state = kept ?s"
  proof -
    have slots: "map_option (\<lambda>_. c) (ctes ipc_state p) = Some c" for c :: cte_t and p
      by (simp add: ipc_state_def sched_state_def)
    have "(\<lambda>p. map_option (\<lambda>_. c) (ctes irq_state p)) = (\<lambda>p. map_option (\<lambda>_. c) (ctes ?s p))" for c :: cte_t
      by (rule ext) (simp add: irq_state_def slots del: map_option_eq_Some)
    then show ?thesis by (simp add: kept_def irq_state_def)
  qed
  ultimately have "sched_ok irq_state (\<lambda>_ _. [])" using sched_ok_kept by metis
  moreover have "action_ok irq_state" using ok(2) by (simp add: action_ok_def runnable_def irq_state_def)
  moreover have "bound_ok irq_state = bound_ok ipc_state" by (rule bound_ok_cong) (simp_all add: irq_state_def)
  moreover have "wait_ok irq_state ipc_queues = wait_ok ipc_state ipc_queues"
  proof -
    have "obj_view irq_state = obj_view ipc_state"
      by (rule ext, rename_tac w, case_tac w) (simp_all add: irq_state_def)
    moreover have "ep_next irq_state = ep_next ipc_state" "ep_prev irq_state = ep_prev ipc_state"
      "thread_wait irq_state = thread_wait ipc_state"
      by (rule ext, simp add: link_of_def thread_wait_def irq_state_def)+
    ultimately show ?thesis by (simp add: wait_ok_def wait_part_def)
  qed
  ultimately show ?thesis using ok by (simp add: ipc_inv_def)
qed

theorem interrupt_delivers_signal_witness:
  "\<exists>s' l. checkInterrupt irq_state = Some s' \<and> woken s' 0x4400 5 \<and>
    machine_log s' = l @ [maskInterrupt True 33, write_eoi 33]"
proof -
  let ?n = "\<lparr>ntfnBoundTCB = NULL, ntfnMsgIdentifier = 0, ntfnQueue_head = 0x4400,
      ntfnQueue_tail = 0x5400, ntfn_state = NtfnState_Waiting\<rparr>"
  have st: "irq_word irq_state = 33" "maxIRQ irq_state = 100" "intStateIRQTable irq_state 33 = IRQSignal"
    "ctes irq_state (cte_index (intStateIRQNode irq_state) 33) =
      Some \<lparr>cte_cap = cap_notification_cap 5 False True 0xB000, cteMDBNode = nullMDBNode\<rparr>"
    "ntfns irq_state 0xB000 = Some ?n"
    by (simp_all add: irq_word_def irq_state_def IS_IRQ_VALID_def IRQ_MASK_def MASK_def BIT_def)
      (simp add: ipc_state_def)
  have "IS_IRQ_VALID 33" "(33 :: word_t) = 33 AND IRQ_MASK"
    by (simp_all add: IS_IRQ_VALID_def IRQ_MASK_def MASK_def BIT_def)
  note word = this
  have "irq_word irq_state AND IRQ_MASK = 33" using word(2) st(1) by simp
  then have irq: "33 = irq_word irq_state AND IRQ_MASK" by simp
  obtain s' rq' wq' l where r: "checkInterrupt irq_state = Some s'"
    "signalled irq_state (\<lambda>_ _. []) ipc_queues 0xB000 5 s' rq' wq'"
    "machine_log s' = l @ [maskInterrupt True 33, write_eoi (irq_word irq_state)]"
    using interrupt_delivers_signal [OF irq_state_inv _ irq _ st(3) st(4) _ st(5), of 5 False] st(1,2) word(1)
    by fastforce
  have q: "ipc_queues (Ntfn 0xB000) = [0x4400, 0x5400]" by (simp add: ipc_queues_def)
  have "woken s' 0x4400 5" using r(2) unfolding signalled_def q st(5) by auto
  then show ?thesis using r st(1) by auto
qed

end
