(* ===== verification/Fastpath_Lookup.thy ===== *)
theory Fastpath_Lookup
  imports CSpace
begin

text \<open>
  The capability lookup of the fast path, \<open>lookup_fp\<close> of \<^verbatim>\<open>include/fastpath/fastpath.h\<close>: a copy of
  the walk over CNodes that shifts the address to the left instead of masking it, tests the
  depth only at the end and reports no fault. It is shown to find the same capability as the
  walk of the slow path, and the null capability where that one reports a fault.
\<close>

section \<open>The lookup\<close>

lemma bits_advance:
  fixes bits g r :: word_t
  assumes "\<not> 64 \<le> bits" and "\<not> 64 \<le> g" and "\<not> 64 \<le> 64 - r"
  shows "unat (bits + (g + r)) = unat bits + unat g + unat r" and "0 < unat r" and "unat r \<le> 64"
proof -
  have "r \<noteq> 0" using assms(3) by auto
  then show "0 < unat r" by (simp add: unat_gt_0)
  show "unat r \<le> 64"
  proof (rule ccontr)
    assume "\<not> unat r \<le> 64"
    then have "unat (64 - r) = 2 ^ 64 + 64 - unat r"
      by (simp add: unat_sub_if_size word_size word_le_nat_alt)
    moreover have "unat (64 - r) < 64" using assms(3) by (simp add: word_le_nat_alt)
    moreover have "unat r < 2 ^ 64" using unsigned_less [where w = r and ?'a = nat] by simp
    ultimately show False by simp
  qed
  note r = \<open>0 < unat r\<close> this
  have "unat bits < 64" "unat g < 64" using assms(1,2) by (simp_all add: word_le_nat_alt)
  then show "unat (bits + (g + r)) = unat bits + unat g + unat r"
    using r by (simp add: unat_word_ariths)
qed

text \<open>The loop; \<open>bits\<close> of the address have been resolved. A shift by the width of the word or more is undefined
  in C: the value is \<open>None\<close>.\<close>

function lookup_fp_loop :: "word_t \<Rightarrow> word_t \<Rightarrow> cap_t \<Rightarrow> kstate \<Rightarrow> cap_t option" where
  "lookup_fp_loop cptr bits cap s =
     (let guardBits = capCNodeGuardSize cap;
          radixBits = capCNodeRadix cap;
          cptr2 = shiftl cptr bits;
          capGuard = capCNodeGuard cap
      in
      if bits \<ge> wordBits \<or> guardBits \<ge> wordBits \<or> wordBits - radixBits \<ge> wordBits then None
      else if guardBits \<noteq> 0 \<and> shiftr cptr2 (wordBits - guardBits) \<noteq> capGuard then Some cap_null_cap
      else
        let radix = shiftr (shiftl cptr2 guardBits) (wordBits - radixBits) in
        (case ctes s (cte_index (capCNodePtr cap) radix) of
           None \<Rightarrow> None
         | Some slot \<Rightarrow>
             let cap = cte_cap slot;
                 bits = bits + (guardBits + radixBits)
             in
             if bits < wordBits \<and> is_cnode_cap cap then lookup_fp_loop cptr bits cap s
             else if bits > wordBits then Some cap_null_cap
             else Some cap))"
  by pat_completeness auto

termination
proof (relation "measure (\<lambda>(cptr, bits, cap, s). 64 - unat bits)", goal_cases)
  case 1
  then show ?case by simp
next
  case (2 cptr bits cap s g r cptr2 gd radix slot cap' bits')
  then have "unat bits < unat bits'" and "unat bits < 64"
    using bits_advance [of bits g r] by (simp_all add: word_le_nat_alt)
  then show ?case by simp
qed

declare lookup_fp_loop.simps [simp del]

definition lookup_fp :: "cap_t \<Rightarrow> word_t \<Rightarrow> kstate \<Rightarrow> cap_t option" where
  "lookup_fp cap cptr s =
     (if \<not> is_cnode_cap cap then Some cap_null_cap else lookup_fp_loop cptr 0 cap s)"

section \<open>Both walks compute the same indices\<close>

lemma fp_guard:
  fixes bits g :: word_t
  assumes "unat bits + unat g \<le> 64" and "g \<noteq> 0" and "unat g < 64"
  shows "shiftr (shiftl p bits) (64 - g) = shiftr p ((64 - bits - g) AND MASK wordRadix) AND MASK g"
proof -
  have g: "0 < unat g" using assms(2) by (simp add: unat_gt_0)
  have s: "unat (64 - g) = 64 - unat g" "unat (64 - bits) = 64 - unat bits"
    "unat (64 - bits - g) = 64 - unat bits - unat g"
    using assms by (simp_all add: unat_sub word_le_nat_alt)
  have "unat ((64 - bits - g) AND MASK wordRadix) = 64 - unat bits - unat g"
    using g by (simp add: unat_and_MASK s(3))
  then show ?thesis
    using assms(1) s g
    by (intro bit_word_eqI) (auto simp: shiftr_def shiftl_def bit_simps and_MASK_take_bit,
        simp_all add: add.commute add.left_commute)
qed

lemma fp_index:
  fixes bits g r :: word_t
  assumes "unat bits + unat g + unat r \<le> 64" and "0 < unat r"
  shows "shiftr (shiftl (shiftl p bits) g) (64 - r) = shiftr p (64 - bits - (r + g)) AND MASK r"
proof -
  have "unat (r + g) = unat r + unat g" using assms(1) by (simp add: unat_word_ariths)
  then have "unat (64 - r) = 64 - unat r" "unat (64 - bits - (r + g)) = 64 - unat bits - unat g - unat r"
    using assms by (simp_all add: unat_sub word_le_nat_alt)
  then show ?thesis
    using assms
    by (intro bit_word_eqI) (auto simp: shiftr_def shiftl_def bit_simps and_MASK_take_bit,
        simp_all add: add.commute add.left_commute)
qed

lemma fp_index_bound: "0 < unat (r :: word_t) \<Longrightarrow> unat r \<le> 64 \<Longrightarrow> unat (shiftr w (64 - r)) < 2 ^ unat r"
proof -
  assume r: "0 < unat r" "unat r \<le> 64"
  then have "unat (64 - r) = 64 - unat r" by (simp add: unat_sub word_le_nat_alt)
  moreover have "unat w < 2 ^ unat r * 2 ^ (64 - unat r)"
    using unsigned_less [where w = w and ?'a = nat] r by (simp flip: power_add)
  ultimately show ?thesis by (simp add: unat_shiftr less_mult_imp_div_less)
qed

section \<open>The fast walk finds what the slow walk finds\<close>

text \<open>The capability that a result of the slow walk stands for.\<close>

definition cap_found :: "kstate \<Rightarrow> resolve_ret \<Rightarrow> cap_t option" where
  "cap_found s ret =
     (if rr_status ret = EXCEPTION_NONE then map_option cte_cap (ctes s (rr_slot ret)) else Some cap_null_cap)"

text \<open>CNodes have at least two slots, as object creation guarantees.\<close>

definition radix_ok :: "cap_t \<Rightarrow> bool" where
  "radix_ok c \<longleftrightarrow> (is_cnode_cap c \<longrightarrow> capCNodeRadix c \<noteq> 0)"

definition cnodes_ok :: "kstate \<Rightarrow> bool" where
  "cnodes_ok s \<longleftrightarrow> cspace_wf s \<and> (\<forall>p x. ctes s p = Some x \<longrightarrow> radix_ok (cte_cap x))"

lemma lookup_fp_loop_result:
  assumes s: "cnodes_ok s"
  shows "is_cnode_cap c \<Longrightarrow> wf_cnode_cap c \<Longrightarrow> cnode_slots_ok (ctes s) c \<Longrightarrow> radix_ok c \<Longrightarrow> unat bits < 64 \<Longrightarrow>
    lookup_fp_loop p bits c s =
      Option.bind (resolve_loop m p (64 - bits) c s) (\<lambda>(ret, _). cap_found s ret)"
proof (induction "64 - unat bits" arbitrary: bits c rule: less_induct)
  case less
  from less.prems(1) obtain r g gd base where c: "c = cap_cnode_cap r g gd base"
    by (cases c) auto
  have wf: "unat r + unat g \<le> 64" "unat g < 64" "gd AND MASK g = gd" and r0: "r \<noteq> 0"
    using less.prems(2,4) by (simp_all add: c wf_cnode_cap_def radix_ok_def)
  then have r: "0 < unat r" "unat r \<le> 64" by (simp_all add: unat_gt_0)
  have range: "\<not> 64 \<le> bits" "\<not> 64 \<le> g" "\<not> 64 \<le> 64 - r"
    using less.prems(5) wf(2) r by (simp_all add: word_le_nat_alt unat_sub)
  define n where "n = 64 - bits"
  have n: "unat n = 64 - unat bits" using less.prems(5) by (simp add: n_def unat_sub word_le_nat_alt)
  have lev: "unat (r + g) = unat r + unat g" "r + g \<noteq> 0"
    using wf r unat_levelBits [of r g] by (auto simp: word_unat_eq_iff)
  note adv = bits_advance(1) [OF range]
  let ?radix = "shiftr (shiftl (shiftl p bits) g) (64 - r)"
  let ?slot = "cte_index base ?radix"
  from cnode_slot_exists [OF less.prems(3) [unfolded c] fp_index_bound [OF r]]
  obtain x where x: "ctes s ?slot = Some x" by blast
  let ?guard = "shiftr p ((n - g) AND MASK wordRadix) AND MASK g"
  have guard: "(g \<noteq> 0 \<and> shiftr (shiftl p bits) (64 - g) \<noteq> gd) = (?guard \<noteq> gd)" if "\<not> n < g"
  proof (cases "g = 0")
    case True
    then show ?thesis using wf(3) by simp
  next
    case False
    have "unat bits + unat g \<le> 64" using that n less.prems(5) by (simp add: word_less_nat_alt)
    from fp_guard [OF this False wf(2), of p] False show ?thesis by (simp add: n_def)
  qed
  have fast: "lookup_fp_loop p bits c s =
      (if g \<noteq> 0 \<and> shiftr (shiftl p bits) (64 - g) \<noteq> gd then Some cap_null_cap
       else if bits + (g + r) < 64 \<and> is_cnode_cap (cte_cap x) then lookup_fp_loop p (bits + (g + r)) (cte_cap x) s
       else if bits + (g + r) > 64 then Some cap_null_cap else Some (cte_cap x))"
    using range x by (cases "g = 0"; subst lookup_fp_loop.simps) (simp_all add: c Let_def)
  show ?case
  proof (cases "n < r + g")
    case True
    then have "unat bits + unat g + unat r > 64" using n lev by (simp add: word_less_nat_alt)
    then have "64 < bits + (g + r)" "\<not> bits + (g + r) < 64" using adv by (simp_all add: word_less_nat_alt)
    then have "lookup_fp_loop p bits c s = Some cap_null_cap" using fast by simp
    moreover have "\<exists>ret s'. resolve_loop m p n c s = Some (ret, s') \<and> rr_status ret \<noteq> EXCEPTION_NONE"
      using True lev(2) by (subst resolve_loop.simps) (simp add: c Let_def rr_new_def)
    ultimately show ?thesis by (auto simp: cap_found_def n_def)
  next
    case False
    then have le: "unat bits + unat g + unat r \<le> 64" using n lev less.prems(5) by (simp add: word_less_nat_alt)
    then have ng: "\<not> n < g" using n by (simp add: word_less_nat_alt)
    have idx: "?radix = shiftr p (n - (r + g)) AND MASK r" using fp_index [OF le r(1), of p] by (simp add: n_def)
    have next_bits: "n - (r + g) = 64 - (bits + (g + r))" "n = r + g \<longleftrightarrow> bits + (g + r) = 64"
      by (auto simp: n_def algebra_simps)
    have over: "\<not> bits + (g + r) > 64" using adv le by (simp add: word_less_nat_alt)
    have slow: "resolve_loop m p n c s =
        (if ?guard \<noteq> gd then Some (rr_new EXCEPTION_LOOKUP_FAULT NULL m, set_lookup_fault (lookup_fault_guard_mismatch gd n g) s)
         else if n = r + g then Some (rr_new EXCEPTION_NONE ?slot 0, s)
         else if \<not> is_cnode_cap (cte_cap x) then Some (rr_new EXCEPTION_NONE ?slot (n - (r + g)), s)
         else resolve_loop m p (n - (r + g)) (cte_cap x) s)"
      using False lev(2) ng x by (subst resolve_loop.simps) (simp add: c Let_def idx)
    have x_ok: "wf_cnode_cap (cte_cap x)" "cnode_slots_ok (ctes s) (cte_cap x)" "radix_ok (cte_cap x)"
      using s x by (auto simp: cnodes_ok_def cspace_wf_def)
    have IH: "lookup_fp_loop p (bits + (g + r)) (cte_cap x) s =
        Option.bind (resolve_loop m p (n - (r + g)) (cte_cap x) s) (\<lambda>(ret, _). cap_found s ret)"
      if "bits + (g + r) < 64" "is_cnode_cap (cte_cap x)"
      unfolding next_bits(1)
      by (rule less.hyps) (use that x_ok adv r less.prems(5) in \<open>auto simp: word_less_nat_alt\<close>)
    have lt: "bits + (g + r) < 64 \<longleftrightarrow> n \<noteq> r + g" using over next_bits(2) by auto
    show ?thesis
      unfolding fast guard [OF ng] n_def [symmetric] slow
      using IH x over by (auto simp: lt cap_found_def rr_new_def)
  qed
qed

lemma lookup_fp_result:
  assumes "cnodes_ok s" and "wf_cnode_cap c" and "cnode_slots_ok (ctes s) c" and "radix_ok c"
  shows "lookup_fp c cptr s =
    Option.bind (resolveAddressBits c cptr wordBits s) (\<lambda>(ret, _). cap_found s ret)"
  using lookup_fp_loop_result [OF assms(1) _ assms(2-4), of 0 cptr]
  by (simp add: lookup_fp_def resolveAddressBits_def cap_found_def rr_new_def)

lemma lookup_fp_lookupCap:
  assumes s: "cnodes_ok s" and root: "ctes s (TCB_PTR_CTE_PTR thread tcbCTable) = Some root"
  shows "\<exists>status cap s'. lookupCap thread cptr s = Some ((status, cap), s') \<and>
    lookup_fp (cte_cap root) cptr s = Some cap \<and>
    (status = EXCEPTION_NONE \<and> s' = s \<or>
     status = EXCEPTION_LOOKUP_FAULT \<and> cap = cap_null_cap \<and> (\<exists>f. s' = set_lookup_fault f s))"
proof -
  have c: "wf_cnode_cap (cte_cap root)" "cnode_slots_ok (ctes s) (cte_cap root)" "radix_ok (cte_cap root)"
    and wf: "cspace_wf s"
    using s root by (auto simp: cnodes_ok_def cspace_wf_def)
  obtain l where l: "resolveAddressBits (cte_cap root) cptr wordBits s = Some (result_of 64 s l)"
    "\<And>slot k. l = LFound slot k \<Longrightarrow> ctes s slot \<noteq> None \<and> k < unat (64 :: word_t)"
    by (rule resolveAddressBits_total [OF wf c(1,2), of 64 cptr]) auto
  note fp = lookup_fp_result [OF s c, of cptr]
  show ?thesis
  proof (cases l)
    case (LFault f)
    with l(1) fp root show ?thesis
      by (auto simp: lookupCap_def lookupSlot_def result_of_def rr_new_def cap_found_def)
  next
    case (LFound slot k)
    with l(1) l(2) [OF LFound] fp root show ?thesis
      by (auto simp: lookupCap_def lookupSlot_def result_of_def rr_new_def cap_found_def)
  qed
qed

section \<open>Properties\<close>

text \<open>C7: the capability lookup of the fast path is equivalent to the one of the system calls: for every
  address it returns, and it returns the capability that \<open>lookupCap\<close> finds; where that one reports a
  lookup fault, a guard that does not match or a depth that does not fit, it returns the null capability, which sends
  the system call to the slow path. No slot outside of the CNodes is read, even where the address is
  overrun, and no shift is undefined.\<close>

theorem lookup_fp_equivalent:
  assumes "cnodes_ok s" and "ctes s (TCB_PTR_CTE_PTR thread tcbCTable) = Some root"
  shows "\<exists>status cap s'. lookupCap thread cptr s = Some ((status, cap), s') \<and>
    lookup_fp (cte_cap root) cptr s = Some cap \<and>
    (status = EXCEPTION_NONE \<and> s' = s \<or>
     status = EXCEPTION_LOOKUP_FAULT \<and> cap = cap_null_cap \<and> (\<exists>f. s' = set_lookup_fault f s))"
  using assms by (rule lookup_fp_lookupCap)

text \<open>The CNode of the example, reached from the thread at \<open>0x8400\<close> through a guard of 60 zeros.\<close>

definition fp_lookup_state :: kstate where
  "fp_lookup_state = blank_state\<lparr>ctes := example_cnodes
     (0x8000 \<mapsto> \<lparr>cte_cap = cap_cnode_cap 2 60 0 0x1000, cteMDBNode = nullMDBNode\<rparr>)\<rparr>"

lemma fp_lookup_caps:
  assumes "ctes fp_lookup_state p = Some x"
  shows "cte_cap x = cap_null_cap \<or> cte_cap x = cap_cnode_cap 2 60 0 0x1000 \<or> cte_cap x = cap_cnode_cap 1 1 1 0x2000"
  using assms by (auto simp: fp_lookup_state_def example_cnodes_def split: if_splits)

lemma fp_lookup_cap_ok:
  assumes "c = cap_null_cap \<or> c = cap_cnode_cap 2 60 0 0x1000 \<or> c = cap_cnode_cap 1 1 1 0x2000"
  shows "wf_cnode_cap c \<and> cnode_slots_ok (ctes fp_lookup_state) c \<and> radix_ok c"
  using assms
  by (elim disjE) (simp_all add: wf_cnode_cap_def radix_ok_def cnode_slots_ok_def fp_lookup_state_def
      example_cnodes_def cte_index_def MASK_def BIT_def upt_rec)

lemma fp_lookup_state_ok: "cnodes_ok fp_lookup_state"
  unfolding cnodes_ok_def cspace_wf_def using fp_lookup_cap_ok [OF fp_lookup_caps] by blast

theorem lookup_fp_equivalent_witness:
  "\<exists>status cap s'. lookupCap 0x8400 7 fp_lookup_state = Some ((status, cap), s') \<and>
    lookup_fp (cap_cnode_cap 2 60 0 0x1000) 7 fp_lookup_state = Some cap"
proof -
  have "ctes fp_lookup_state (TCB_PTR_CTE_PTR 0x8400 tcbCTable) =
      Some \<lparr>cte_cap = cap_cnode_cap 2 60 0 0x1000, cteMDBNode = nullMDBNode\<rparr>"
    by (simp add: fp_lookup_state_def TCB_PTR_CTE_PTR_def MASK_def BIT_def)
  from lookup_fp_equivalent [OF fp_lookup_state_ok this, of 7] show ?thesis by auto
qed

end
