(* ===== verification/Fastpath.thy ===== *)
theory Fastpath
  imports Syscalls Fastpath_Lookup
begin

text \<open>
  The fast path of \<^verbatim>\<open>seL4_Call\<close> and \<^verbatim>\<open>seL4_ReplyRecv\<close>, \<^verbatim>\<open>src/fastpath/fastpath.c\<close>: hand-written copies of the
  most frequent system calls. They test whether the message is short, a partner waits and it may run at
  once; where a test fails they leave for the slow path, that is the entry points of \<open>Syscalls\<close>,
  before anything was changed. Otherwise they write the objects directly, without the general
  operations on queues, capabilities and the scheduler.
\<close>

section \<open>The slow path\<close>

text \<open>The system call has one of the numbers of \<open>syscall_t\<close>, so the branch to \<open>handleUnknownSyscall\<close>, which is an
  entry point of its own in \<open>Syscalls\<close>, is not taken.\<close>

definition slowpath :: "nat \<Rightarrow> syscall_t \<Rightarrow> kstate \<Rightarrow> kstate option" where
  "slowpath fuel syscall s = do { (_, s) \<leftarrow> handleSyscall fuel syscall s; Some s }"

section \<open>Writing the packed words of objects\<close>

text \<open>The first word of a thread state holds the blocking object and the type.\<close>

definition thread_state_ptr_set_tsType_np :: "ptr \<Rightarrow> tsType_t \<Rightarrow> kstate \<Rightarrow> kstate option" where
  "thread_state_ptr_set_tsType_np t ty = ts_upd t (\<lambda>ts. ts\<lparr>blockingObject := 0, tsType := ty\<rparr>)"

definition thread_state_ptr_mset_blockingObject_tsType :: "ptr \<Rightarrow> ptr \<Rightarrow> tsType_t \<Rightarrow> kstate \<Rightarrow> kstate option" where
  "thread_state_ptr_mset_blockingObject_tsType t ep_ref ty =
     ts_upd t (\<lambda>ts. ts\<lparr>blockingObject := ep_ref, tsType := ty\<rparr>)"

definition cap_reply_cap_ptr_new_np :: "ptr \<Rightarrow> bool \<Rightarrow> bool \<Rightarrow> ptr \<Rightarrow> kstate \<Rightarrow> kstate option" where
  "cap_reply_cap_ptr_new_np slot canGrant master tcb = cte_set_cap slot (cap_reply_cap canGrant master tcb)"

definition endpoint_ptr_mset_epQueue_tail_state :: "ptr \<Rightarrow> ptr \<Rightarrow> endpoint_state \<Rightarrow> kstate \<Rightarrow> kstate option" where
  "endpoint_ptr_mset_epQueue_tail_state ep tail st = ep_upd ep (\<lambda>e. e\<lparr>epQueue_tail := tail, ep_state := st\<rparr>)"

definition endpoint_ptr_set_epQueue_head_np :: "ptr \<Rightarrow> ptr \<Rightarrow> kstate \<Rightarrow> kstate option" where
  "endpoint_ptr_set_epQueue_head_np ep head = ep_upd ep (\<lambda>e. e\<lparr>epQueue_head := head\<rparr>)"

definition mdb_node_ptr_mset_mdbNext_mdbRevocable_mdbFirstBadged ::
    "ptr \<Rightarrow> ptr \<Rightarrow> bool \<Rightarrow> bool \<Rightarrow> kstate \<Rightarrow> kstate option" where
  "mdb_node_ptr_mset_mdbNext_mdbRevocable_mdbFirstBadged slot nx rv fb =
     mdb_upd slot (\<lambda>m. m\<lparr>mdbNext := nx, mdbRevocable := rv, mdbFirstBadged := fb\<rparr>)"

definition mdb_node_ptr_set_mdbPrev_np :: "ptr \<Rightarrow> ptr \<Rightarrow> kstate \<Rightarrow> kstate option" where
  "mdb_node_ptr_set_mdbPrev_np slot pv = mdb_upd slot (\<lambda>m. m\<lparr>mdbPrev := pv\<rparr>)"

section \<open>Tests and small steps\<close>

definition isValidVTableRoot_fp :: "cap_t \<Rightarrow> bool" where
  "isValidVTableRoot_fp c \<longleftrightarrow> (case c of cap_vspace_cap _ _ _ \<Rightarrow> capVSIsMapped c | _ \<Rightarrow> False)"

text \<open>One comparison for the length and the number of extra capabilities.\<close>

definition fastpath_mi_check :: "word_t \<Rightarrow> bool" where
  "fastpath_mi_check msgInfo \<longleftrightarrow> msgInfo AND MASK (7 + 2) > 4"

definition fastpath_reply_cap_check :: "cap_t \<Rightarrow> bool" where
  "fastpath_reply_cap_check c \<longleftrightarrow> (case c of cap_reply_cap _ _ _ \<Rightarrow> True | _ \<Rightarrow> False)"

primrec fastpath_copy_mrs_loop :: "nat list \<Rightarrow> ptr \<Rightarrow> ptr \<Rightarrow> kstate \<Rightarrow> kstate option" where
  "fastpath_copy_mrs_loop [] src dest s = Some s"
| "fastpath_copy_mrs_loop (i # is) src dest s =
     do { let reg = msgRegisters ! 0 + i;
          v \<leftarrow> getRegister src reg s;
          s \<leftarrow> setRegister dest reg v s;
          fastpath_copy_mrs_loop is src dest s }"

definition fastpath_copy_mrs :: "word_t \<Rightarrow> ptr \<Rightarrow> ptr \<Rightarrow> kstate \<Rightarrow> kstate option" where
  "fastpath_copy_mrs len = fastpath_copy_mrs_loop [0..<unat len]"

definition switchToThread_fp :: "ptr \<Rightarrow> ptr \<Rightarrow> word_t \<Rightarrow> kstate \<Rightarrow> kstate option" where
  "switchToThread_fp thread vroot stored_hw_asid s =
     do { let asid = stored_hw_asid AND 0xffff;
          let s = do_machine_op (armv_contextSwitch vroot asid) s;
          s \<leftarrow> lazyFPURestore thread s;
          Some (s\<lparr>ksCurThread := thread\<rparr>) }"

text \<open>The processor gets the registers of the thread, but for the first two, which carry the badge
  and the message descriptor. The model writes these two to the saved registers as well: nothing reads
  the saved ones before the next entry to the kernel overwrites them.\<close>

definition fastpath_restore :: "word_t \<Rightarrow> word_t \<Rightarrow> ptr \<Rightarrow> kstate \<Rightarrow> kstate option" where
  "fastpath_restore badge msgInfo cur_thread s =
     do { s \<leftarrow> setRegister cur_thread msgInfoRegister msgInfo s;
          setRegister cur_thread badgeRegister badge s }"

section \<open>Calling\<close>

text \<open>After the point of no return.\<close>

definition fastpath_call_commit ::
    "seL4_MessageInfo_t \<Rightarrow> word_t \<Rightarrow> ptr \<Rightarrow> ptr \<Rightarrow> ptr \<Rightarrow> word_t \<Rightarrow> kstate \<Rightarrow> kstate option" where
  "fastpath_call_commit info badge ep_ptr dest cap_pd stored_hw_asid s =
     do { d \<leftarrow> tcbs s dest;
          s \<leftarrow> endpoint_ptr_set_epQueue_head_np ep_ptr (tcbEPNext d) s;
          s \<leftarrow> (if tcbEPNext d \<noteq> NULL then tcb_upd (tcbEPNext d) (\<lambda>n. n\<lparr>tcbEPPrev := NULL\<rparr>) s
                else endpoint_ptr_mset_epQueue_tail_state ep_ptr 0 EPState_Idle s);
          s \<leftarrow> thread_state_ptr_set_tsType_np (ksCurThread s) ThreadState_BlockedOnReply s;
          let replySlot = TCB_PTR_CTE_PTR (ksCurThread s) tcbReply;
          let callerSlot = TCB_PTR_CTE_PTR dest tcbCaller;
          d \<leftarrow> tcbs s dest;
          let replyCanGrant = blockingIPCCanGrant (tcbState d);
          s \<leftarrow> cap_reply_cap_ptr_new_np callerSlot replyCanGrant False (ksCurThread s) s;
          s \<leftarrow> mdb_node_ptr_set_mdbPrev_np callerSlot replySlot s;
          s \<leftarrow> mdb_node_ptr_mset_mdbNext_mdbRevocable_mdbFirstBadged replySlot callerSlot True True s;
          s \<leftarrow> fastpath_copy_mrs (mi_length info) (ksCurThread s) dest s;
          s \<leftarrow> thread_state_ptr_set_tsType_np dest ThreadState_Running s;
          s \<leftarrow> switchToThread_fp dest cap_pd stored_hw_asid s;
          fastpath_restore badge (wordFromMessageInfo (info\<lparr>mi_capsUnwrapped := 0\<rparr>)) (ksCurThread s) s }"

definition fastpath_call :: "nat \<Rightarrow> word_t \<Rightarrow> word_t \<Rightarrow> kstate \<Rightarrow> kstate option" where
  "fastpath_call fuel cptr msgInfo s =
     do { let info = messageInfoFromWord_raw msgInfo;
          cur \<leftarrow> tcbs s (ksCurThread s);
          if fastpath_mi_check msgInfo \<or> tcbFault cur \<noteq> seL4_Fault_NullFault then slowpath fuel SysCall s
          else
     do { root \<leftarrow> ctes s (TCB_PTR_CTE_PTR (ksCurThread s) tcbCTable);
          ep_cap \<leftarrow> lookup_fp (cte_cap root) cptr s;
          case ep_cap of
            cap_endpoint_cap badge canGrantReply canGrant canSend canReceive ep_ptr \<Rightarrow>
              if \<not> canSend then slowpath fuel SysCall s
              else
     do { ep \<leftarrow> eps s ep_ptr;
          let dest = epQueue_head ep;
          if ep_state ep \<noteq> EPState_Recv then slowpath fuel SysCall s
          else
     do { vt \<leftarrow> ctes s (TCB_PTR_CTE_PTR dest tcbVTable);
          let newVTable = cte_cap vt;
          let cap_pd = capVSBasePtr newVTable;
          if \<not> isValidVTableRoot_fp newVTable then slowpath fuel SysCall s
          else
     do { let asid = capVSMappedASID newVTable;
          asid_map \<leftarrow> findMapForASID asid s;
          if asid_map \<noteq> asid_map_vspace cap_pd then slowpath fuel SysCall s
          else
     do { let dom = (if numDomains s > 1 then ksCurDomain s else 0);
          d \<leftarrow> tcbs s dest;
          highest \<leftarrow> (if tcbPriority d < tcbPriority cur then isHighestPrio dom (tcbPriority d) s else Some True);
          if \<not> highest then slowpath fuel SysCall s
          else if \<not> canGrant \<and> \<not> canGrantReply then slowpath fuel SysCall s
          else if tcbDomain d \<noteq> ksCurDomain s \<and> numDomains s > 1 then slowpath fuel SysCall s
          else fastpath_call_commit info badge ep_ptr dest cap_pd asid s } } } }
          | _ \<Rightarrow> slowpath fuel SysCall s } }"

section \<open>Replying and receiving\<close>

text \<open>The current thread goes to the end of the queue of the endpoint.\<close>

definition fastpath_enqueue :: "ptr \<Rightarrow> kstate \<Rightarrow> kstate option" where
  "fastpath_enqueue ep_ptr s =
     do { ep \<leftarrow> eps s ep_ptr;
          let endpointTail = epQueue_tail ep;
          if endpointTail = NULL then
            do { s \<leftarrow> tcb_upd (ksCurThread s) (\<lambda>t. t\<lparr>tcbEPPrev := NULL\<rparr>) s;
                 s \<leftarrow> tcb_upd (ksCurThread s) (\<lambda>t. t\<lparr>tcbEPNext := NULL\<rparr>) s;
                 s \<leftarrow> endpoint_ptr_set_epQueue_head_np ep_ptr (ksCurThread s) s;
                 endpoint_ptr_mset_epQueue_tail_state ep_ptr (ksCurThread s) EPState_Recv s }
          else
            do { s \<leftarrow> tcb_upd endpointTail (\<lambda>t. t\<lparr>tcbEPNext := ksCurThread s\<rparr>) s;
                 s \<leftarrow> tcb_upd (ksCurThread s) (\<lambda>t. t\<lparr>tcbEPPrev := endpointTail\<rparr>) s;
                 s \<leftarrow> tcb_upd (ksCurThread s) (\<lambda>t. t\<lparr>tcbEPNext := NULL\<rparr>) s;
                 endpoint_ptr_mset_epQueue_tail_state ep_ptr (ksCurThread s) EPState_Recv s } }"

definition fastpath_reply_recv_commit ::
    "seL4_MessageInfo_t \<Rightarrow> bool \<Rightarrow> ptr \<Rightarrow> ptr \<Rightarrow> ptr \<Rightarrow> word_t \<Rightarrow> kstate \<Rightarrow> kstate option" where
  "fastpath_reply_recv_commit info canGrant ep_ptr caller cap_pd stored_hw_asid s =
     do { s \<leftarrow> thread_state_ptr_mset_blockingObject_tsType (ksCurThread s) ep_ptr ThreadState_BlockedOnReceive s;
          s \<leftarrow> ts_upd (ksCurThread s) (\<lambda>ts. ts\<lparr>blockingIPCCanGrant := canGrant\<rparr>) s;
          s \<leftarrow> fastpath_enqueue ep_ptr s;
          let callerSlot = TCB_PTR_CTE_PTR (ksCurThread s) tcbCaller;
          cte \<leftarrow> ctes s callerSlot;
          s \<leftarrow> mdb_node_ptr_mset_mdbNext_mdbRevocable_mdbFirstBadged (mdbPrev (cteMDBNode cte)) 0 True True s;
          s \<leftarrow> cte_set_cap callerSlot cap_null_cap s;
          s \<leftarrow> mdb_upd callerSlot (\<lambda>_. nullMDBNode) s;
          s \<leftarrow> fastpath_copy_mrs (mi_length info) (ksCurThread s) caller s;
          s \<leftarrow> thread_state_ptr_set_tsType_np caller ThreadState_Running s;
          s \<leftarrow> switchToThread_fp caller cap_pd stored_hw_asid s;
          fastpath_restore 0 (wordFromMessageInfo (info\<lparr>mi_capsUnwrapped := 0\<rparr>)) (ksCurThread s) s }"

text \<open>Whether a signal waits in the notification that is bound to the thread.\<close>

definition fastpath_signal_waits :: "tcb_t \<Rightarrow> kstate \<Rightarrow> bool option" where
  "fastpath_signal_waits t s =
     (if tcbBoundNotification t \<noteq> NULL
      then do { n \<leftarrow> ntfns s (tcbBoundNotification t); Some (ntfn_state n = NtfnState_Active) }
      else Some False)"

definition fastpath_reply_recv :: "nat \<Rightarrow> word_t \<Rightarrow> word_t \<Rightarrow> kstate \<Rightarrow> kstate option" where
  "fastpath_reply_recv fuel cptr msgInfo s =
     do { let info = messageInfoFromWord_raw msgInfo;
          cur \<leftarrow> tcbs s (ksCurThread s);
          if fastpath_mi_check msgInfo \<or> tcbFault cur \<noteq> seL4_Fault_NullFault then slowpath fuel SysReplyRecv s
          else
     do { root \<leftarrow> ctes s (TCB_PTR_CTE_PTR (ksCurThread s) tcbCTable);
          ep_cap \<leftarrow> lookup_fp (cte_cap root) cptr s;
          case ep_cap of
            cap_endpoint_cap badge canGrantReply canGrant canSend canReceive ep_ptr \<Rightarrow>
              if \<not> canReceive then slowpath fuel SysReplyRecv s
              else
     do { active \<leftarrow> fastpath_signal_waits cur s;
          if active then slowpath fuel SysReplyRecv s
          else
     do { ep \<leftarrow> eps s ep_ptr;
          if ep_state ep = EPState_Send then slowpath fuel SysReplyRecv s
          else
     do { cte \<leftarrow> ctes s (TCB_PTR_CTE_PTR (ksCurThread s) tcbCaller);
          let callerCap = cte_cap cte;
          if \<not> fastpath_reply_cap_check callerCap then slowpath fuel SysReplyRecv s
          else
     do { let caller = capTCBPtr callerCap;
          c \<leftarrow> tcbs s caller;
          if tcbFault c \<noteq> seL4_Fault_NullFault then slowpath fuel SysReplyRecv s
          else
     do { vt \<leftarrow> ctes s (TCB_PTR_CTE_PTR caller tcbVTable);
          let newVTable = cte_cap vt;
          let cap_pd = capVSBasePtr newVTable;
          if \<not> isValidVTableRoot_fp newVTable then slowpath fuel SysReplyRecv s
          else
     do { let asid = capVSMappedASID newVTable;
          asid_map \<leftarrow> findMapForASID asid s;
          if asid_map \<noteq> asid_map_vspace cap_pd then slowpath fuel SysReplyRecv s
          else
     do { let dom = (if numDomains s > 1 then ksCurDomain s else 0);
          highest \<leftarrow> isHighestPrio dom (tcbPriority c) s;
          if \<not> highest then slowpath fuel SysReplyRecv s
          else if tcbDomain c \<noteq> ksCurDomain s \<and> numDomains s > 1 then slowpath fuel SysReplyRecv s
          else fastpath_reply_recv_commit info canGrant ep_ptr caller cap_pd asid s } } } } } } }
          | _ \<Rightarrow> slowpath fuel SysReplyRecv s } }"

end
