(* ===== verification/Fastpath_Equiv.thy ===== *)
theory Fastpath_Equiv
  imports Fastpath
begin

text \<open>
  The fast path is only an optimisation: in every state of the invariant it has the same effect
  as the system call on the slow path.
\<close>

section \<open>Short messages\<close>

text \<open>The registers of a receiver after a message of at most four words.\<close>

definition short_context :: "tcb_t \<Rightarrow> word_t \<Rightarrow> word_t \<Rightarrow> tcb_t \<Rightarrow> register_t \<Rightarrow> word_t" where
  "short_context S w badge R =
     (\<lambda>g. if g = badgeRegister then badge
          else if g = msgInfoRegister then
            wordFromMessageInfo (messageInfoFromWord_raw w\<lparr>mi_capsUnwrapped := 0\<rparr>)
          else if g \<in> (\<lambda>i. msgRegisters ! i) ` {0..<unat (w AND MASK 7)} then tcbContext S g else tcbContext R g)"

lemma mi_check_fields:
  assumes "\<not> fastpath_mi_check w"
  shows "unat (w AND MASK 7) \<le> 4" and "shiftr w 7 AND MASK 2 = 0"
proof -
  have m: "w AND MASK 9 \<le> 4" using assms by (simp add: fastpath_mi_check_def not_less)
  then have u: "unat w mod 512 \<le> 4"
    by (simp add: word_le_nat_alt unat_and_MASK)
  have "unat w mod 128 = unat w mod 512 mod 128" by (simp add: mod_mod_cancel)
  also have "\<dots> = unat w mod 512" using u by simp
  finally show "unat (w AND MASK 7) \<le> 4" using u by (simp add: unat_and_MASK)
  have "unat w div 128 mod 4 = unat w mod 512 div 128"
    using mod_mult2_eq [of "unat w" 128 4] by simp
  also have "\<dots> = 0" using u by simp
  finally have "unat (shiftr w 7 AND MASK 2) = 0" by (simp add: unat_and_MASK unat_shiftr)
  then show "shiftr w 7 AND MASK 2 = 0" by (simp only: unat_eq_zero)
qed

lemma short_info:
  assumes "\<not> fastpath_mi_check w"
  shows "messageInfoFromWord w = messageInfoFromWord_raw w" and "mi_extraCaps (messageInfoFromWord_raw w) = 0"
    and "mi_length (messageInfoFromWord_raw w) = w AND MASK 7"
  using mi_check_fields [OF assms]
  by (simp_all add: messageInfoFromWord_def messageInfoFromWord_raw_def Let_def word_less_nat_alt)

lemma lookupExtraCaps_none:
  assumes "mi_extraCaps info = 0"
  shows "lookupExtraCaps x b info s = Some (EXCEPTION_NONE, set_extra_cap 0 NULL s)"
  using assms by (simp add: lookupExtraCaps_def)

lemma copyMRs_short:
  assumes "unat n \<le> 4" and "tcbs s x = Some S" and "tcbs s r = Some R"
  shows "copyMRs x sb r rb n s =
    Some (n, s\<lparr>tcbs := (tcbs s)(r \<mapsto> R\<lparr>tcbContext := \<lambda>g. if g \<in> (\<lambda>i. msgRegisters ! i) ` {0..<unat n}
                                                    then tcbContext S g else tcbContext R g\<rparr>)\<rparr>)"
  using assms by (simp add: copyMRs_def copy_msg_registers_run min_def Let_def)

lemma short_transfer:
  assumes w: "\<not> fastpath_mi_check w" and S: "tcbs s x = Some S" "tcbContext S msgInfoRegister = w"
    and R: "tcbs s r = Some R" and x: "tcbFault S = seL4_Fault_NullFault"
    and b: "lookupIPCBuffer True r s = Some rb" "lookupIPCBuffer False x s = Some sb"
  shows "doIPCTransfer x ep badge grant r s =
    Some ((set_extra_cap 0 NULL s)\<lparr>tcbs := (tcbs s)(r \<mapsto> R\<lparr>tcbContext := short_context S w badge R\<rparr>)\<rparr>)"
proof -
  have tag: "messageInfoFromWord_raw w\<lparr>mi_extraCaps := 0, mi_capsUnwrapped := 0, mi_length := w AND MASK 7\<rparr> =
      messageInfoFromWord_raw w\<lparr>mi_capsUnwrapped := 0\<rparr>"
    using short_info [OF w] by (intro seL4_MessageInfo_t.equality) simp_all
  show ?thesis
    using b S R x mi_check_fields(1) [OF w]
    by (auto simp: doIPCTransfer_def doNormalTransfer_def kmonad Let_def short_info [OF w] lookupExtraCaps_none
        copyMRs_short transferCaps_def set_extra_cap_def tag short_context_def fun_eq_iff
        intro!: arg_cong [where f = "\<lambda>c. R\<lparr>tcbContext := c\<rparr>"])
qed

lemma fast_registers:
  assumes "\<forall>i \<in> set is. i < 4" 
  shows "fastpath_copy_mrs_loop is x r s = copy_msg_registers x r is s"
  using assms
proof (induction "is" arbitrary: s)
  case (Cons i "is")
  then have "i \<in> {0, 1, 2, 3}" by auto
  then have "msgRegisters ! 0 + i = msgRegisters ! i" by (auto simp: msgRegisters_def)
  with Cons show ?case by (simp add: Let_def)
qed simp

lemma fast_copy:
  assumes w: "\<not> fastpath_mi_check w" and "tcbs s x = Some S" and "tcbs s r = Some R"
  shows "fastpath_copy_mrs (w AND MASK 7) x r s =
    Some (s\<lparr>tcbs := (tcbs s)(r \<mapsto> R\<lparr>tcbContext := \<lambda>g. if g \<in> (\<lambda>i. msgRegisters ! i) ` {0..<unat (w AND MASK 7)}
                                                    then tcbContext S g else tcbContext R g\<rparr>)\<rparr>)"
  using assms mi_check_fields(1) [OF w]
  by (simp add: fastpath_copy_mrs_def fast_registers copy_msg_registers_run)

section \<open>The pieces of the slow path\<close>

text \<open>The thread behind the head of a queue becomes the head.\<close>

definition unlink_head :: "ptr \<Rightarrow> (ptr \<Rightarrow> tcb_t option) \<Rightarrow> ptr \<Rightarrow> tcb_t option" where
  "unlink_head n m = (if n = NULL then m else m(n := map_option (\<lambda>t. t\<lparr>tcbEPPrev := NULL\<rparr>) (m n)))"

definition ep_unheaded :: "ptr \<Rightarrow> endpoint_t \<Rightarrow> endpoint_t" where
  "ep_unheaded n e = (if n = NULL then e\<lparr>epQueue_head := n, epQueue_tail := NULL, ep_state := EPState_Idle\<rparr>
                      else e\<lparr>epQueue_head := n\<rparr>)"

lemma unlink_other: "t \<noteq> n \<Longrightarrow> unlink_head n m t = m t"
  by (simp add: unlink_head_def)

lemma tcbEPDequeue_head:
  assumes "tcbs s d = Some T" and "tcbEPPrev T = NULL" and "tcbEPNext T \<noteq> NULL \<Longrightarrow> tcbs s (tcbEPNext T) \<noteq> None"
  shows "tcbEPDequeue d q s =
    Some (if tcbEPNext T = NULL then \<lparr>qhead = NULL, qend = NULL\<rparr> else q\<lparr>qhead := tcbEPNext T\<rparr>,
          s\<lparr>tcbs := unlink_head (tcbEPNext T) (tcbs s)\<rparr>)"
  using assms by (auto simp: tcbEPDequeue_def kmonad unlink_head_def)

text \<open>The registers of the FPU after a switch to a thread.\<close>

definition fpu_owner :: "kstate \<Rightarrow> ptr \<Rightarrow> tcb_t \<Rightarrow> ptr" where
  "fpu_owner s t T = (if tcbFlags T AND seL4_TCBFlag_fpuDisabled \<noteq> 0 then ksCurFPUOwner s else t)"

definition fpu_ops :: "kstate \<Rightarrow> ptr \<Rightarrow> tcb_t \<Rightarrow> machine_op list" where
  "fpu_ops s t T =
     (if tcbFlags T AND seL4_TCBFlag_fpuDisabled \<noteq> 0 then [disableFpu]
      else if t = ksCurFPUOwner s then [enableFpu]
      else enableFpu # (if ksCurFPUOwner s \<noteq> NULL then [saveFpuState (ksCurFPUOwner s)] else []) @
           [if t \<noteq> NULL then loadFpuState t else disableFpu])"

lemma lazyFPURestore_run:
  assumes "tcbs s t = Some T"
  shows "lazyFPURestore t s =
    Some (s\<lparr>ksCurFPUOwner := fpu_owner s t T, machine_log := machine_log s @ fpu_ops s t T\<rparr>)"
  using assms
  by (simp add: lazyFPURestore_def fpu_owner_def fpu_ops_def nativeThreadUsingFPU_def switchLocalFpuOwner_def
      do_machine_op_def Let_def)

text \<open>A thread that may run at once, in its address space.\<close>

definition vspace_of :: "kstate \<Rightarrow> ptr \<Rightarrow> word_t \<Rightarrow> ptr \<Rightarrow> bool" where
  "vspace_of s t asid pd \<longleftrightarrow>
     (\<exists>x. ctes s (TCB_PTR_CTE_PTR t tcbVTable) = Some x \<and> isValidVTableRoot_fp (cte_cap x) \<and>
        capVSMappedASID (cte_cap x) = asid \<and> capVSBasePtr (cte_cap x) = pd) \<and>
     findMapForASID asid s = Some (asid_map_vspace pd)"

lemma valid_root_fp: "isValidVTableRoot_fp c = isValidNativeRoot c"
  by (cases c) (simp_all add: isValidVTableRoot_fp_def isValidNativeRoot_def isVTableRoot_def)

lemma setVMRoot_direct:
  assumes "vspace_of s t asid pd"
  shows "setVMRoot t s = Some (s\<lparr>machine_log := machine_log s @ [armv_contextSwitch pd asid]\<rparr>)"
proof -
  from assms obtain x where x: "ctes s (TCB_PTR_CTE_PTR t tcbVTable) = Some x" "isValidNativeRoot (cte_cap x)"
    "capVSMappedASID (cte_cap x) = asid" "capVSBasePtr (cte_cap x) = pd"
    and m: "findMapForASID asid s = Some (asid_map_vspace pd)"
    by (auto simp: vspace_of_def valid_root_fp)
  from m have "findVSpaceForASID asid s = Some (Some pd, s)" by (simp add: findVSpaceForASID_def)
  with x show ?thesis by (simp add: setVMRoot_def Let_def do_machine_op_def)
qed

lemma switchToThread_direct:
  assumes "vspace_of s t asid pd" and "tcbs s t = Some T" and "\<not> tcbQueued (tcbState T)"
  shows "switchToThread t s =
    Some (s\<lparr>ksCurFPUOwner := fpu_owner s t T,
            machine_log := machine_log s @ armv_contextSwitch pd asid # fpu_ops s t T, ksCurThread := t\<rparr>)"
proof -
  let ?s = "s\<lparr>machine_log := machine_log s @ [armv_contextSwitch pd asid]\<rparr>"
  let ?f = "?s\<lparr>ksCurFPUOwner := fpu_owner s t T, machine_log := machine_log ?s @ fpu_ops s t T\<rparr>"
  have "lazyFPURestore t ?s = Some ?f"
    using lazyFPURestore_run [of ?s t T] assms(2) by (simp add: fpu_owner_def fpu_ops_def)
  moreover have "tcbSchedDequeue t ?f = Some ?f" using assms(2,3) by (simp add: tcbSchedDequeue_def)
  ultimately show ?thesis
    by (simp add: switchToThread_def Arch_switchToThread_def setVMRoot_direct [OF assms(1)])
qed

lemma schedule_direct:
  assumes v: "vspace_of s t asid pd" and t: "tcbs s t = Some T" "\<not> tcbQueued (tcbState T)" "tsType (tcbState T) = ThreadState_Running"
    and c: "tcbs s (ksCurThread s) = Some S" "\<not> isRunnable S" "ksCurThread s \<noteq> ksIdleThread s" "t \<noteq> ksCurThread s"
    and a: "ksSchedulerAction s = t" "t \<noteq> SchedulerAction_ResumeCurrentThread" "t \<noteq> SchedulerAction_ChooseNewThread"
    and p: "tcbPriority T < tcbPriority S \<Longrightarrow> isHighestPrio (ksCurDomain s) (tcbPriority T) s = Some True"
  shows "schedule_and_activate s =
    Some (s\<lparr>ksCurFPUOwner := fpu_owner s t T,
            machine_log := machine_log s @ armv_contextSwitch pd asid # fpu_ops s t T, ksCurThread := t,
            ksSchedulerAction := SchedulerAction_ResumeCurrentThread\<rparr>)"
proof -
  have "isRunnable T" by (simp add: isRunnable_def t(3))
  then have "schedule_candidate t False s = switchToThread t s"
    using t c p by (simp add: schedule_candidate_def Let_def)
  then show ?thesis
    using c a t switchToThread_direct [OF v t(1,2)]
    by (simp add: schedule_and_activate_def schedule_def activateThread_def set_action_def Let_def)
qed

section \<open>Calling\<close>

text \<open>The reply capability of a caller, linked behind its master.\<close>

definition reply_linked :: "ptr \<Rightarrow> ptr \<Rightarrow> ptr \<Rightarrow> bool \<Rightarrow> (ptr \<Rightarrow> cte_t option) \<Rightarrow> ptr \<Rightarrow> cte_t option" where
  "reply_linked c d pv grant m =
     m(TCB_PTR_CTE_PTR d tcbCaller \<mapsto>
         \<lparr>cte_cap = cap_reply_cap grant False c,
          cteMDBNode = mdb_node_new NULL False False (TCB_PTR_CTE_PTR c tcbReply)\<rparr>,
       TCB_PTR_CTE_PTR c tcbReply \<mapsto>
         \<lparr>cte_cap = cap_reply_cap True True c, cteMDBNode = mdb_node_new (TCB_PTR_CTE_PTR d tcbCaller) True True pv\<rparr>)"

definition master_free :: "(ptr \<Rightarrow> cte_t option) \<Rightarrow> ptr \<Rightarrow> ptr \<Rightarrow> bool" where
  "master_free m c pv \<longleftrightarrow>
     m (TCB_PTR_CTE_PTR c tcbReply) =
       Some \<lparr>cte_cap = cap_reply_cap True True c, cteMDBNode = mdb_node_new NULL True True pv\<rparr>"

definition caller_free :: "(ptr \<Rightarrow> cte_t option) \<Rightarrow> ptr \<Rightarrow> bool" where
  "caller_free m d \<longleftrightarrow> m (TCB_PTR_CTE_PTR d tcbCaller) = Some \<lparr>cte_cap = cap_null_cap, cteMDBNode = nullMDBNode\<rparr>"

lemma slots_differ:
  assumes "master_free m c pv" and "caller_free m d"
  shows "TCB_PTR_CTE_PTR d tcbCaller \<noteq> TCB_PTR_CTE_PTR c tcbReply"
  using assms by (auto simp: master_free_def caller_free_def)

lemma setupCallerCap_run:
  assumes m: "master_free (ctes s) c pv" and f: "caller_free (ctes s) d"
    and c: "tcbs s c = Some S" and a: "ksSchedulerAction s \<noteq> SchedulerAction_ResumeCurrentThread"
  shows "setupCallerCap c d grant s =
    Some (s\<lparr>tcbs := (tcbs s)(c \<mapsto> S\<lparr>tcbState := (tcbState S)\<lparr>tsType := ThreadState_BlockedOnReply\<rparr>\<rparr>),
            ctes := reply_linked c d pv grant (ctes s)\<rparr>)"
  using m f slots_differ [OF m f] slots_differ [OF m f, symmetric] c a
  by (simp add: setupCallerCap_def setThreadState_def scheduleTCB_def kmonad master_free_def caller_free_def
      cteInsert_def isCapRevocable_def isArchCap_def setUntypedCapAsFull_def cte_set_cap_def mdb_upd_def
      reply_linked_def Let_def mdb_node_new_def nullMDBNode_def)

lemma buffer_cong:
  "tcbs s' t = tcbs s t \<Longrightarrow> ctes s' = ctes s \<Longrightarrow> lookupIPCBuffer b t s' = lookupIPCBuffer b t s"
  by (simp add: lookupIPCBuffer_def)

lemma buffer_thread:
  "tcbs s t = Some T \<Longrightarrow> tcbs s' t = Some T' \<Longrightarrow> tcbIPCBuffer T' = tcbIPCBuffer T \<Longrightarrow> ctes s' = ctes s \<Longrightarrow>
   lookupIPCBuffer b t s' = lookupIPCBuffer b t s"
  by (cases "ctes s (TCB_PTR_CTE_PTR t tcbBuffer)") (auto simp: lookupIPCBuffer_def split: cap_t.split)

definition blocked_on_reply :: "tcb_t \<Rightarrow> tcb_t" where
  "blocked_on_reply S = S\<lparr>tcbState := (tcbState S)\<lparr>tsType := ThreadState_BlockedOnReply\<rparr>\<rparr>"

definition received_short :: "tcb_t \<Rightarrow> word_t \<Rightarrow> word_t \<Rightarrow> tcb_t \<Rightarrow> tcb_t" where
  "received_short S w badge R =
     R\<lparr>tcbContext := short_context S w badge R, tcbState := (tcbState R)\<lparr>tsType := ThreadState_Running\<rparr>\<rparr>"

lemma sendIPC_direct:
  assumes e: "eps s p = Some e" "ep_state e = EPState_Recv" "epQueue_head e = d" "d \<noteq> NULL"
    and c: "tcbs s c = Some S" "c = ksCurThread s" "tcbFault S = seL4_Fault_NullFault" "tcbContext S msgInfoRegister = w"
    and w: "\<not> fastpath_mi_check w"
    and d: "tcbs s d = Some D" "tcbEPPrev D = NULL" "d \<noteq> c" "tcbDomain D = ksCurDomain s"
    and n: "tcbEPNext D \<noteq> NULL \<Longrightarrow> tcbs s (tcbEPNext D) \<noteq> None \<and> tcbEPNext D \<noteq> c \<and> tcbEPNext D \<noteq> d"
    and b: "lookupIPCBuffer True d s = Some rb" "lookupIPCBuffer False c s = Some sb"
    and a: "ksSchedulerAction s = SchedulerAction_ResumeCurrentThread" and g: "canGrant \<or> canGrantReply"
    and m: "master_free (ctes s) c pv" and f: "caller_free (ctes s) d"
  shows "sendIPC True True badge canGrant canGrantReply c p s =
    Some (s\<lparr>eps := (eps s)(p \<mapsto> ep_unheaded (tcbEPNext D) e),
            tcbs := (unlink_head (tcbEPNext D) (tcbs s))(c \<mapsto> blocked_on_reply S, d \<mapsto> received_short S w badge D),
            ctes := reply_linked c d pv (blockingIPCCanGrant (tcbState D)) (ctes s),
            current_extra_caps := (current_extra_caps s)(0 := NULL), ksSchedulerAction := d\<rparr>)"
proof -
  let ?n = "tcbEPNext D"
  let ?m = "unlink_head ?n (tcbs s)"
  let ?e = "(eps s)(p \<mapsto> ep_unheaded ?n e)"
  let ?s1 = "s\<lparr>tcbs := ?m, eps := ?e\<rparr>"
  have m1: "?m c = Some S" "?m d = Some D"
    using c(1) d(1) n by (cases "?n = NULL"; auto simp: unlink_head_def)+
  let ?D = "D\<lparr>tcbContext := short_context S w badge D\<rparr>"
  let ?s2 = "(set_extra_cap 0 NULL ?s1)\<lparr>tcbs := ?m(d \<mapsto> ?D)\<rparr>"
  have t: "doIPCTransfer c p badge canGrant d ?s1 = Some ?s2"
    using short_transfer [OF w, of ?s1 c S d D rb sb p badge canGrant] m1 c d b buffer_cong [of ?s1 d s True]
      buffer_cong [of ?s1 c s False] by simp
  let ?s3 = "set_action d (?s2\<lparr>tcbs := ?m(d \<mapsto> received_short S w badge D)\<rparr>)"
  have "setupCallerCap c d (blockingIPCCanGrant (tcbState D)) ?s3 =
    Some (?s3\<lparr>tcbs := (tcbs ?s3)(c \<mapsto> S\<lparr>tcbState := (tcbState S)\<lparr>tsType := ThreadState_BlockedOnReply\<rparr>\<rparr>),
            ctes := reply_linked c d pv (blockingIPCCanGrant (tcbState D)) (ctes ?s3)\<rparr>)"
    using m f e(4) m1(1) d(3)
    by (intro setupCallerCap_run) (simp_all add: set_action_def set_extra_cap_def)
  moreover have "sendIPC True True badge canGrant canGrantReply c p s =
      setupCallerCap c d (blockingIPCCanGrant (tcbState D)) ?s3"
  proof -
    define q where "q = (if ?n = NULL then \<lparr>qhead = NULL, qend = NULL\<rparr> else \<lparr>qhead = ?n, qend = epQueue_tail e\<rparr>)"
    have q: "tcbEPDequeue d \<lparr>qhead = d, qend = epQueue_tail e\<rparr> s = Some (q, s\<lparr>tcbs := ?m\<rparr>)"
      using tcbEPDequeue_head [OF d(1,2), of "\<lparr>qhead = d, qend = epQueue_tail e\<rparr>"] n by (auto simp: q_def)
    have tail: "e\<lparr>epQueue_head := x, epQueue_tail := epQueue_tail e\<rparr> = e\<lparr>epQueue_head := x\<rparr>" for x
      by (cases e) simp
    have u: "Option.bind (ep_ptr_set_queue p q (s\<lparr>tcbs := ?m\<rparr>))
        (\<lambda>s. if qhead q = NULL then endpoint_ptr_set_state p EPState_Idle s else Some s) = Some ?s1"
      using e(1) by (auto simp: ep_ptr_set_queue_def endpoint_ptr_set_state_def kmonad ep_unheaded_def tail q_def)
    have r: "setThreadState d ThreadState_Running ?s2 = Some (?s2\<lparr>tcbs := ?m(d \<mapsto> received_short S w badge D)\<rparr>)"
      using d(3) c(2) by (simp add: setThreadState_def scheduleTCB_def kmonad received_short_def set_extra_cap_def)
    have "possibleSwitchTo d (?s2\<lparr>tcbs := ?m(d \<mapsto> received_short S w badge D)\<rparr>) = Some ?s3"
      using d(4) a by (simp add: possibleSwitchTo_def received_short_def set_extra_cap_def)
    with r t g show ?thesis
      using e q u [THEN arg_cong, of "\<lambda>x. Option.bind x f" for f :: "kstate \<Rightarrow> kstate option"]
      by (simp add: sendIPC_def ep_ptr_get_queue_def set_extra_cap_def)
  qed
  ultimately show ?thesis
    using d(3) by (simp add: set_action_def set_extra_cap_def blocked_on_reply_def fun_upd_twist)
qed

text \<open>The state in which the receiver of a call runs.\<close>

definition called_state ::
    "ptr \<Rightarrow> ptr \<Rightarrow> ptr \<Rightarrow> word_t \<Rightarrow> word_t \<Rightarrow> word_t \<Rightarrow> ptr \<Rightarrow> endpoint_t \<Rightarrow> tcb_t \<Rightarrow> tcb_t \<Rightarrow> kstate \<Rightarrow> kstate" where
  "called_state p d pv w badge asid pd e S D s =
     s\<lparr>eps := (eps s)(p \<mapsto> ep_unheaded (tcbEPNext D) e),
       tcbs := (unlink_head (tcbEPNext D) (tcbs s))(ksCurThread s \<mapsto> blocked_on_reply S, d \<mapsto> received_short S w badge D),
       ctes := reply_linked (ksCurThread s) d pv (blockingIPCCanGrant (tcbState D)) (ctes s),
       current_extra_caps := (current_extra_caps s)(0 := NULL), ksSchedulerAction := SchedulerAction_ResumeCurrentThread,
       ksCurFPUOwner := fpu_owner s d D,
       machine_log := machine_log s @ armv_contextSwitch pd asid # fpu_ops s d D, ksCurThread := d\<rparr>"

text \<open>What the tests of the fast path and the invariant give.\<close>

definition call_direct ::
    "ptr \<Rightarrow> ptr \<Rightarrow> ptr \<Rightarrow> word_t \<Rightarrow> word_t \<Rightarrow> ptr \<Rightarrow> endpoint_t \<Rightarrow> tcb_t \<Rightarrow> tcb_t \<Rightarrow> kstate \<Rightarrow> bool" where
  "call_direct p d pv w asid pd e S D s \<longleftrightarrow>
     eps s p = Some e \<and> ep_state e = EPState_Recv \<and> epQueue_head e = d \<and> d \<noteq> NULL \<and>
     tcbs s (ksCurThread s) = Some S \<and> tcbFault S = seL4_Fault_NullFault \<and> tcbContext S msgInfoRegister = w \<and>
     \<not> fastpath_mi_check w \<and> ksCurThread s \<noteq> ksIdleThread s \<and>
     tcbs s d = Some D \<and> tcbEPPrev D = NULL \<and> d \<noteq> ksCurThread s \<and> tcbDomain D = ksCurDomain s \<and>
     \<not> tcbQueued (tcbState D) \<and> d \<noteq> SchedulerAction_ChooseNewThread \<and>
     (tcbEPNext D = NULL \<or>
      tcbs s (tcbEPNext D) \<noteq> None \<and> tcbEPNext D \<noteq> ksCurThread s \<and> tcbEPNext D \<noteq> d) \<and>
     (\<exists>b. lookupIPCBuffer True d s = Some b) \<and> (\<exists>b. lookupIPCBuffer False (ksCurThread s) s = Some b) \<and>
     ksSchedulerAction s = SchedulerAction_ResumeCurrentThread \<and>
     master_free (ctes s) (ksCurThread s) pv \<and> caller_free (ctes s) d \<and> vspace_of s d asid pd \<and>
     (tcbPriority S \<le> tcbPriority D \<or> isHighestPrio (ksCurDomain s) (tcbPriority D) s = Some True)"

lemma reply_linked_other:
  assumes "master_free m c pv" and "caller_free m d" and "m x = Some y" and "cte_cap y = c'" and "isArchCap c'"
  shows "reply_linked c d pv g m x = m x"
  using assms by (auto simp: reply_linked_def master_free_def caller_free_def isArchCap_def)

lemma slow_invoke:
  assumes k: "call_direct p d pv w asid pd e S D s"
    and cptr: "lookupCapAndSlot (ksCurThread s) (tcbContext S capRegister) s =
      Some ((EXCEPTION_NONE, slot, cap_endpoint_cap badge canGrantReply canGrant True canReceive p), s)"
    and g: "canGrant \<or> canGrantReply"
  shows "handleInvocation fuel True True s = Some (EXCEPTION_NONE,
      s\<lparr>eps := (eps s)(p \<mapsto> ep_unheaded (tcbEPNext D) e),
        tcbs := (unlink_head (tcbEPNext D) (tcbs s))(ksCurThread s \<mapsto> blocked_on_reply S, d \<mapsto> received_short S w badge D),
        ctes := reply_linked (ksCurThread s) d pv (blockingIPCCanGrant (tcbState D)) (ctes s),
        current_extra_caps := (current_extra_caps s)(0 := NULL), ksSchedulerAction := d\<rparr>)"
proof -
  let ?c = "ksCurThread s"
  let ?S = "S\<lparr>tcbState := (tcbState S)\<lparr>tsType := ThreadState_Restart\<rparr>\<rparr>"
  let ?s1 = "set_extra_cap 0 NULL s"
  let ?s2 = "?s1\<lparr>tcbs := (tcbs s)(?c \<mapsto> ?S)\<rparr>"
  note k = k [unfolded call_direct_def]
  from k obtain rb sb where b: "lookupIPCBuffer True d s = Some rb" "lookupIPCBuffer False ?c s = Some sb" by blast
  have restart: "setThreadState ?c ThreadState_Restart ?s1 = Some ?s2"
    using k by (simp add: setThreadState_def scheduleTCB_def kmonad isRunnable_def set_extra_cap_def)
  have b2: "lookupIPCBuffer True d ?s2 = Some rb" "lookupIPCBuffer False ?c ?s2 = Some sb"
    using b k buffer_cong [of ?s2 d s] buffer_thread [of s ?c S ?s2 ?S] by (simp_all add: set_extra_cap_def)
  have "sendIPC True True badge canGrant canGrantReply ?c p ?s2 =
    Some (?s2\<lparr>eps := (eps ?s2)(p \<mapsto> ep_unheaded (tcbEPNext D) e),
            tcbs := (unlink_head (tcbEPNext D) (tcbs ?s2))(?c \<mapsto> blocked_on_reply ?S, d \<mapsto> received_short ?S w badge D),
            ctes := reply_linked ?c d pv (blockingIPCCanGrant (tcbState D)) (ctes ?s2),
            current_extra_caps := (current_extra_caps ?s2)(0 := NULL), ksSchedulerAction := d\<rparr>)"
    using k b2 g by (intro sendIPC_direct) (auto simp: set_extra_cap_def)
  moreover have "blocked_on_reply ?S = blocked_on_reply S" by (simp add: blocked_on_reply_def)
  moreover have "received_short ?S w badge D = received_short S w badge D"
  proof -
    have "short_context ?S w badge D = short_context S w badge D" by (rule ext) (simp add: short_context_def)
    then show ?thesis by (simp add: received_short_def)
  qed
  moreover have "(unlink_head (tcbEPNext D) (tcbs ?s2))(?c \<mapsto> X) = (unlink_head (tcbEPNext D) (tcbs s))(?c \<mapsto> X)" for X
    using k by (auto simp: unlink_head_def fun_eq_iff)
  ultimately have send: "sendIPC True True badge canGrant canGrantReply ?c p ?s2 =
    Some (s\<lparr>eps := (eps s)(p \<mapsto> ep_unheaded (tcbEPNext D) e),
        tcbs := (unlink_head (tcbEPNext D) (tcbs s))(?c \<mapsto> blocked_on_reply S, d \<mapsto> received_short S w badge D),
        ctes := reply_linked ?c d pv (blockingIPCCanGrant (tcbState D)) (ctes s),
        current_extra_caps := (current_extra_caps s)(0 := NULL), ksSchedulerAction := d\<rparr>)"
    by (simp add: set_extra_cap_def)
  have extra: "lookupExtraCaps ?c sb (messageInfoFromWord w) s = Some (EXCEPTION_NONE, ?s1)"
    using k short_info [of w] by (intro lookupExtraCaps_none) simp
  have "?c \<noteq> d" using k by blast
  then show ?thesis
    using k b(2) cptr extra restart send
    by (simp add: handleInvocation_def kmonad decodeInvocation_def isArchCap_def performInvocation_Endpoint_def
        Let_def blocked_on_reply_def set_extra_cap_def)
qed

lemma slow_call:
  assumes k: "call_direct p d pv w asid pd e S D s"
    and cptr: "lookupCapAndSlot (ksCurThread s) (tcbContext S capRegister) s =
      Some ((EXCEPTION_NONE, slot, cap_endpoint_cap badge canGrantReply canGrant True canReceive p), s)"
    and g: "canGrant \<or> canGrantReply"
  shows "slowpath fuel SysCall s = Some (called_state p d pv w badge asid pd e S D s)"
proof -
  let ?c = "ksCurThread s"
  let ?t = "s\<lparr>eps := (eps s)(p \<mapsto> ep_unheaded (tcbEPNext D) e),
        tcbs := (unlink_head (tcbEPNext D) (tcbs s))(?c \<mapsto> blocked_on_reply S, d \<mapsto> received_short S w badge D),
        ctes := reply_linked ?c d pv (blockingIPCCanGrant (tcbState D)) (ctes s),
        current_extra_caps := (current_extra_caps s)(0 := NULL), ksSchedulerAction := d\<rparr>"
  note inv = slow_invoke [OF k cptr g, of fuel]
  note k' = k [unfolded call_direct_def]
  from k' have m: "master_free (ctes s) ?c pv" "caller_free (ctes s) d" and v: "vspace_of s d asid pd" by blast+
  have "vspace_of ?t d asid pd"
  proof -
    from v obtain x where x: "ctes s (TCB_PTR_CTE_PTR d tcbVTable) = Some x" "isValidVTableRoot_fp (cte_cap x)"
      by (auto simp: vspace_of_def)
    have "isArchCap (cte_cap x)" using x(2) by (cases "cte_cap x") (auto simp: isValidVTableRoot_fp_def isArchCap_def)
    from reply_linked_other [OF m x(1) refl this] v show ?thesis
      by (simp add: vspace_of_def findMapForASID_def Let_def split: if_splits)
  qed
  moreover have "isHighestPrio dm q ?t = isHighestPrio dm q s" for dm q
    by (simp add: isHighestPrio_def getHighestPrio_def)
  ultimately have "schedule_and_activate ?t =
    Some (?t\<lparr>ksCurFPUOwner := fpu_owner ?t d (received_short S w badge D),
            machine_log := machine_log ?t @ armv_contextSwitch pd asid # fpu_ops ?t d (received_short S w badge D),
            ksCurThread := d, ksSchedulerAction := SchedulerAction_ResumeCurrentThread\<rparr>)"
    using k'
    by (intro schedule_direct [where S = "blocked_on_reply S"])
      (auto simp: received_short_def blocked_on_reply_def isRunnable_def)
  moreover have "fpu_owner ?t d (received_short S w badge D) = fpu_owner s d D"
    "fpu_ops ?t d (received_short S w badge D) = fpu_ops s d D"
    by (simp_all add: fpu_owner_def fpu_ops_def received_short_def)
  ultimately show ?thesis
    by (simp add: slowpath_def handleSyscall_def invoke_and_check_def inv called_state_def)
qed

section \<open>The fast path of a call\<close>

text \<open>What the kernel and its users can still read: not the array of extra capabilities, which every
  invocation writes before it reads it, nor the object on which a thread was blocked that is not blocked now.\<close>

definition no_wait_object :: "tcb_t \<Rightarrow> tcb_t" where
  "no_wait_object T =
     (if wait_of T = None then T\<lparr>tcbState := (tcbState T)\<lparr>blockingObject := NULL\<rparr>\<rparr> else T)"

definition fp_view :: "kstate \<Rightarrow> kstate" where
  "fp_view s = s\<lparr>tcbs := \<lambda>t. map_option no_wait_object (tcbs s t), current_extra_caps := \<lambda>_. NULL\<rparr>"

definition blocked_on_reply_fp :: "tcb_t \<Rightarrow> tcb_t" where
  "blocked_on_reply_fp S =
     S\<lparr>tcbState := (tcbState S)\<lparr>blockingObject := NULL, tsType := ThreadState_BlockedOnReply\<rparr>\<rparr>"

definition received_short_fp :: "tcb_t \<Rightarrow> word_t \<Rightarrow> word_t \<Rightarrow> tcb_t \<Rightarrow> tcb_t" where
  "received_short_fp S w badge R =
     R\<lparr>tcbState := (tcbState R)\<lparr>blockingObject := NULL, tsType := ThreadState_Running\<rparr>,
       tcbContext := short_context S w badge R\<rparr>"

lemma views_fp:
  "no_wait_object (blocked_on_reply_fp S) = no_wait_object (blocked_on_reply S)"
  "no_wait_object (received_short_fp S w badge R) = no_wait_object (received_short S w badge R)"
  by (simp_all add: no_wait_object_def wait_of_def blocked_on_reply_fp_def blocked_on_reply_def
      received_short_fp_def received_short_def)

lemma switchToThread_fp_run:
  assumes "tcbs s t = Some T" and "asid AND 0xffff = asid"
  shows "switchToThread_fp t pd asid s =
    Some (s\<lparr>ksCurFPUOwner := fpu_owner s t T,
            machine_log := machine_log s @ armv_contextSwitch pd asid # fpu_ops s t T, ksCurThread := t\<rparr>)"
  using assms lazyFPURestore_run [of "s\<lparr>machine_log := machine_log s @ [armv_contextSwitch pd asid]\<rparr>" t T]
  by (simp add: switchToThread_fp_def do_machine_op_def Let_def fpu_owner_def fpu_ops_def)

text \<open>Copying the message, waking the receiver and restoring its registers.\<close>

definition fast_deliver :: "word_t \<Rightarrow> word_t \<Rightarrow> ptr \<Rightarrow> ptr \<Rightarrow> word_t \<Rightarrow> kstate \<Rightarrow> kstate option" where
  "fast_deliver w badge r pd asid s =
     do { s \<leftarrow> fastpath_copy_mrs (mi_length (messageInfoFromWord_raw w)) (ksCurThread s) r s;
          s \<leftarrow> thread_state_ptr_set_tsType_np r ThreadState_Running s;
          s \<leftarrow> switchToThread_fp r pd asid s;
          fastpath_restore badge (wordFromMessageInfo (messageInfoFromWord_raw w\<lparr>mi_capsUnwrapped := 0\<rparr>)) (ksCurThread s) s }"

lemma fast_deliver_run:
  assumes w: "\<not> fastpath_mi_check w" and S: "tcbs s (ksCurThread s) = Some S" and R: "tcbs s r = Some R"
    and a: "asid AND 0xffff = asid"
  shows "fast_deliver w badge r pd asid s =
    Some (s\<lparr>ksCurFPUOwner := fpu_owner s r R,
            machine_log := machine_log s @ armv_contextSwitch pd asid # fpu_ops s r R, ksCurThread := r,
            tcbs := (tcbs s)(r \<mapsto> received_short_fp S w badge R)\<rparr>)"
proof -
  let ?x = "\<lambda>g. if g \<in> (\<lambda>i. msgRegisters ! i) ` {0..<unat (w AND MASK 7)} then tcbContext S g else tcbContext R g"
  let ?R = "R\<lparr>tcbContext := ?x, tcbState := (tcbState R)\<lparr>blockingObject := NULL, tsType := ThreadState_Running\<rparr>\<rparr>"
  have regs: "?x(Suc 0 := i, 0 := badge) =
      (\<lambda>g. if g = badgeRegister then badge else if g = msgInfoRegister then i else ?x g)" for i
    by auto
  have "fpu_owner (s\<lparr>tcbs := m\<rparr>) r ?R = fpu_owner s r R" "fpu_ops (s\<lparr>tcbs := m\<rparr>) r ?R = fpu_ops s r R" for m
    by (simp_all add: fpu_owner_def fpu_ops_def)
  then show ?thesis
    using short_info(3) [OF w] R switchToThread_fp_run [of "s\<lparr>tcbs := (tcbs s)(r \<mapsto> ?R)\<rparr>" r ?R asid pd] a
    by (simp add: fast_deliver_def fast_copy [OF w S R] thread_state_ptr_set_tsType_np_def kmonad fastpath_restore_def
        received_short_fp_def short_context_def regs)
qed

lemma fast_commit_deliver:
  assumes k: "call_direct p d pv w asid pd e S D s"
  shows "fastpath_call_commit (messageInfoFromWord_raw w) badge p d pd asid s =
    fast_deliver w badge d pd asid
      (s\<lparr>eps := (eps s)(p \<mapsto> ep_unheaded (tcbEPNext D) e),
         tcbs := (unlink_head (tcbEPNext D) (tcbs s))(ksCurThread s \<mapsto> blocked_on_reply_fp S),
         ctes := reply_linked (ksCurThread s) d pv (blockingIPCCanGrant (tcbState D)) (ctes s)\<rparr>)"
proof -
  let ?c = "ksCurThread s"
  let ?n = "tcbEPNext D"
  let ?m = "unlink_head ?n (tcbs s)"
  let ?s1 = "s\<lparr>eps := (eps s)(p \<mapsto> ep_unheaded ?n e), tcbs := ?m\<rparr>"
  let ?s2 = "?s1\<lparr>tcbs := ?m(?c \<mapsto> blocked_on_reply_fp S)\<rparr>"
  note k = k [unfolded call_direct_def]
  have m: "?m ?c = Some S" "?m d = Some D" using k by (auto simp: unlink_head_def)
  have unlink: "Option.bind (endpoint_ptr_set_epQueue_head_np p ?n s)
      (\<lambda>s. if ?n \<noteq> NULL then tcb_upd ?n (\<lambda>n. n\<lparr>tcbEPPrev := NULL\<rparr>) s
           else endpoint_ptr_mset_epQueue_tail_state p 0 EPState_Idle s) = Some ?s1"
    using k by (auto simp: endpoint_ptr_set_epQueue_head_np_def endpoint_ptr_mset_epQueue_tail_state_def kmonad
        ep_unheaded_def unlink_head_def)
  have block: "thread_state_ptr_set_tsType_np ?c ThreadState_BlockedOnReply ?s1 = Some ?s2"
    using m by (simp add: thread_state_ptr_set_tsType_np_def kmonad blocked_on_reply_fp_def)
  from k have mc: "master_free (ctes s) ?c pv" "caller_free (ctes s) d" by blast+
  have reply: "Option.bind (cap_reply_cap_ptr_new_np (TCB_PTR_CTE_PTR d tcbCaller) g False ?c ?s2)
      (\<lambda>s. Option.bind (mdb_node_ptr_set_mdbPrev_np (TCB_PTR_CTE_PTR d tcbCaller) (TCB_PTR_CTE_PTR ?c tcbReply) s)
        (mdb_node_ptr_mset_mdbNext_mdbRevocable_mdbFirstBadged
           (TCB_PTR_CTE_PTR ?c tcbReply) (TCB_PTR_CTE_PTR d tcbCaller) True True)) =
      Some (?s2\<lparr>ctes := reply_linked ?c d pv g (ctes s)\<rparr>)" for g
    using mc slots_differ [OF mc] slots_differ [OF mc, symmetric]
    by (simp add: cap_reply_cap_ptr_new_np_def mdb_node_ptr_set_mdbPrev_np_def master_free_def caller_free_def
        mdb_node_ptr_mset_mdbNext_mdbRevocable_mdbFirstBadged_def cte_set_cap_def mdb_upd_def kmonad reply_linked_def
        mdb_node_new_def nullMDBNode_def)
  show ?thesis
    using k m unlink [THEN arg_cong, of "\<lambda>x. Option.bind x f" for f :: "kstate \<Rightarrow> kstate option"]
      reply [THEN arg_cong, of "\<lambda>x. Option.bind x f" for f :: "kstate \<Rightarrow> kstate option"] block
    by (simp add: fastpath_call_commit_def fast_deliver_def Let_def)
qed

lemma fast_commit:
  assumes k: "call_direct p d pv w asid pd e S D s" and a: "asid AND 0xffff = asid"
  shows "map_option fp_view (fastpath_call_commit (messageInfoFromWord_raw w) badge p d pd asid s) =
    Some (fp_view (called_state p d pv w badge asid pd e S D s))"
proof -
  let ?c = "ksCurThread s"
  let ?m = "unlink_head (tcbEPNext D) (tcbs s)"
  let ?s = "s\<lparr>eps := (eps s)(p \<mapsto> ep_unheaded (tcbEPNext D) e), tcbs := ?m(?c \<mapsto> blocked_on_reply_fp S),
         ctes := reply_linked ?c d pv (blockingIPCCanGrant (tcbState D)) (ctes s)\<rparr>"
  note k' = k [unfolded call_direct_def]
  have m: "?m d = Some D" "d \<noteq> ?c" "?c \<noteq> d" using k' by (auto simp: unlink_head_def)
  have "fast_deliver w badge d pd asid ?s =
    Some (?s\<lparr>ksCurFPUOwner := fpu_owner ?s d D,
            machine_log := machine_log ?s @ armv_contextSwitch pd asid # fpu_ops ?s d D, ksCurThread := d,
            tcbs := (tcbs ?s)(d \<mapsto> received_short_fp (blocked_on_reply_fp S) w badge D)\<rparr>)"
    using k' m a by (intro fast_deliver_run) auto
  moreover have "received_short_fp (blocked_on_reply_fp S) w badge D = received_short_fp S w badge D"
  proof -
    have "short_context (blocked_on_reply_fp S) w badge D = short_context S w badge D"
      by (rule ext) (simp add: short_context_def blocked_on_reply_fp_def)
    then show ?thesis by (simp add: received_short_fp_def)
  qed
  moreover have "fpu_owner ?s d D = fpu_owner s d D" "fpu_ops ?s d D = fpu_ops s d D"
    by (simp_all add: fpu_owner_def fpu_ops_def)
  moreover have "fp_view (?s\<lparr>ksCurFPUOwner := fpu_owner s d D,
            machine_log := machine_log s @ armv_contextSwitch pd asid # fpu_ops s d D, ksCurThread := d,
            tcbs := (tcbs ?s)(d \<mapsto> received_short_fp S w badge D)\<rparr>) =
      fp_view (called_state p d pv w badge asid pd e S D s)"
    by (rule kstate.equality) (use k' in \<open>simp_all add: fp_view_def called_state_def fun_eq_iff views_fp\<close>)
  ultimately show ?thesis by (simp add: fast_commit_deliver [OF k])
qed

section \<open>The tests imply a direct transfer\<close>

text \<open>The reply capabilities of the slots of threads: a thread that may run has given none away, the slot of
  a thread that waits to receive is free, and a reply capability in the slot of a thread is the only copy of the
  master of a thread that waits for the reply.\<close>

definition reply_slots_ok :: "kstate \<Rightarrow> bool" where
  "reply_slots_ok s \<longleftrightarrow>
     (\<forall>t. runnable s t \<longrightarrow> (\<exists>pv. master_free (ctes s) t pv)) \<and>
     (\<forall>t p. thread_wait s t = Some (Ep p, ThreadState_BlockedOnReceive) \<longrightarrow> caller_free (ctes s) t) \<and>
     (\<forall>t x g m r. tcbs s t \<noteq> None \<longrightarrow> ctes s (TCB_PTR_CTE_PTR t tcbCaller) = Some x \<longrightarrow>
        cte_cap x = cap_reply_cap g m r \<longrightarrow>
        (\<exists>pv R. x = \<lparr>cte_cap = cap_reply_cap g False r, cteMDBNode = mdb_node_new NULL False False (TCB_PTR_CTE_PTR r tcbReply)\<rparr> \<and>
           ctes s (TCB_PTR_CTE_PTR r tcbReply) =
             Some \<lparr>cte_cap = cap_reply_cap True True r, cteMDBNode = mdb_node_new (TCB_PTR_CTE_PTR t tcbCaller) True True pv\<rparr> \<and>
           tcbs s r = Some R \<and> tsType (tcbState R) = ThreadState_BlockedOnReply))"

text \<open>Address space identifiers have the width of their field, 16 bits.\<close>

definition asids_fit :: "kstate \<Rightarrow> bool" where
  "asids_fit s \<longleftrightarrow>
     (\<forall>p x. ctes s p = Some x \<longrightarrow> isValidVTableRoot_fp (cte_cap x) \<longrightarrow>
        capVSMappedASID (cte_cap x) AND 0xffff = capVSMappedASID (cte_cap x))"

text \<open>The state at the entry to the kernel.\<close>

definition entry_ok :: "kstate \<Rightarrow> ready_lists \<Rightarrow> wait_lists \<Rightarrow> bool" where
  "entry_ok s rq wq \<longleftrightarrow>
     ipc_inv s rq wq \<and> slots_ok s \<and> cnodes_ok s \<and> reply_slots_ok s \<and> asids_fit s \<and>
     ksSchedulerAction s = SchedulerAction_ResumeCurrentThread \<and> runnable s (ksCurThread s)"

lemma entry_okD:
  assumes "entry_ok s rq wq"
  shows "ipc_inv s rq wq" and "slots_ok s" and "cnodes_ok s" and "reply_slots_ok s" and "asids_fit s"
    and "ksSchedulerAction s = SchedulerAction_ResumeCurrentThread" and "runnable s (ksCurThread s)"
    and "sched_ok s rq" and "wait_part s (thread_wait s) wq"
  using assms ipc_invD by (auto simp: entry_ok_def)

lemma recv_head:
  assumes ok: "entry_ok s rq wq" and e: "eps s p = Some e" "ep_state e = EPState_Recv" "epQueue_head e = d"
  obtains D where "tcbs s d = Some D" and "d \<noteq> NULL" and "tcbEPPrev D = NULL" and "d \<noteq> ksCurThread s"
    and "\<not> tcbQueued (tcbState D)" and "thread_wait s d = Some (Ep p, ThreadState_BlockedOnReceive)"
    and "tcbEPNext D = NULL \<or>
      tcbs s (tcbEPNext D) \<noteq> None \<and> tcbEPNext D \<noteq> ksCurThread s \<and> tcbEPNext D \<noteq> d"
proof -
  note inv = entry_okD(1) [OF ok] and w = entry_okD(9) [OF ok]
  obtain d' ds where q: "wq (Ep p) = d' # ds" by (rule recv_queue [OF inv e(1)]) (simp_all add: e(2))
  have v: "obj_view s (Ep p) = Some (\<lparr>qhead = epQueue_head e, qend = epQueue_tail e\<rparr>, Some ThreadState_BlockedOnReceive)"
    using e by simp
  from wait_partD(2) [OF w v] q e(3) have d: "d' = d" and l: "dlist (ep_next s) (ep_prev s) (d # ds)"
    by (auto simp: queue_of_def)
  from queue_live [OF inv, of d "Ep p"] q d have live: "tcbs s d \<noteq> None" "\<not> runnable s d" "d \<notin> waiting_to_run s rq"
    by simp_all
  from live(1) obtain D where D: "tcbs s d = Some D" by blast
  have links: "tcbEPPrev D = NULL" "tcbEPNext D = first_or NULL ds" and dist: "distinct (d # ds)" "NULL \<notin> set (d # ds)"
    using l D by (simp_all add: dlist_def link_of_def)
  from wait_partD(3) [OF w, of d "Ep p"] q d obtain m where m: "thread_wait s d = Some (Ep p, m)" by auto
  from wait_partD(4) [OF w m] v have "thread_wait s d = Some (Ep p, ThreadState_BlockedOnReceive)" using m by auto
  moreover have "d \<notin> ready rq" using sched_okD(3) [OF entry_okD(8) [OF ok]] live(2) by blast
  from not_ready_unqueued [OF sched_okD(1) [OF entry_okD(8) [OF ok]] D this] have "\<not> tcbQueued (tcbState D)" .
  moreover have "d \<noteq> ksCurThread s" using live(2) entry_okD(7) [OF ok] by blast
  moreover have "tcbEPNext D = NULL \<or>
      tcbs s (tcbEPNext D) \<noteq> None \<and> tcbEPNext D \<noteq> ksCurThread s \<and> tcbEPNext D \<noteq> d"
  proof (cases ds)
    case Nil
    then show ?thesis using links by simp
  next
    case (Cons n ns)
    then have "n \<in> set (wq (Ep p))" using q by simp
    from queue_live [OF inv this] have "tcbs s n \<noteq> None" "n \<noteq> ksCurThread s" using entry_okD(7) [OF ok] by auto
    then show ?thesis using links(2) Cons dist by auto
  qed
  ultimately show ?thesis using that [OF D _ links(1)] dist(2) by auto
qed

lemma call_directI:
  assumes ok: "entry_ok s rq wq" and e: "eps s p = Some e" "ep_state e = EPState_Recv" "epQueue_head e = d"
    and S: "tcbs s (ksCurThread s) = Some S" "tcbFault S = seL4_Fault_NullFault" "\<not> fastpath_mi_check (tcbContext S msgInfoRegister)"
    and v: "vspace_of s d asid pd" and D: "tcbs s d = Some D" "tcbDomain D = ksCurDomain s"
    and prio: "tcbPriority S \<le> tcbPriority D \<or> isHighestPrio (ksCurDomain s) (tcbPriority D) s = Some True"
  shows "\<exists>pv. call_direct p d pv (tcbContext S msgInfoRegister) asid pd e S D s"
proof -
  note sched = entry_okD(8) [OF ok] and slots = entry_okD(2) [OF ok]
  obtain D' where h: "tcbs s d = Some D'" "d \<noteq> NULL" "tcbEPPrev D' = NULL" "d \<noteq> ksCurThread s"
    "\<not> tcbQueued (tcbState D')" "thread_wait s d = Some (Ep p, ThreadState_BlockedOnReceive)"
    "tcbEPNext D' = NULL \<or>
      tcbs s (tcbEPNext D') \<noteq> None \<and> tcbEPNext D' \<noteq> ksCurThread s \<and> tcbEPNext D' \<noteq> d"
    by (rule recv_head [OF ok e])
  have [simp]: "D' = D" using h(1) D(1) by simp
  from entry_okD(4,7) [OF ok] obtain pv where m: "master_free (ctes s) (ksCurThread s) pv"
    by (auto simp: reply_slots_ok_def)
  have f: "caller_free (ctes s) d" using entry_okD(4) [OF ok] h(6) by (auto simp: reply_slots_ok_def)
  have "d \<noteq> SchedulerAction_ChooseNewThread" using sched_okD(9) [OF sched] D(1) by auto
  moreover have "ksCurThread s \<noteq> ksIdleThread s" using sched_okD(10) [OF sched] entry_okD(7) [OF ok] by auto
  moreover have "\<exists>b. lookupIPCBuffer True d s = Some b" "\<exists>b. lookupIPCBuffer False (ksCurThread s) s = Some b"
    using lookupIPCBuffer_ok [OF slots D(1)] lookupIPCBuffer_ok [OF slots S(1)] by blast+
  ultimately show ?thesis
    using h e S v D prio m f entry_okD(6) [OF ok] unfolding call_direct_def by (intro exI [of _ pv]) auto
qed

text \<open>The endpoint capability that the fast path finds is the one that the slow path invokes.\<close>

lemma lookup_fp_slow:
  assumes ok: "entry_ok s rq wq" and root: "ctes s (TCB_PTR_CTE_PTR (ksCurThread s) tcbCTable) = Some root"
    and l: "lookup_fp (cte_cap root) cptr s = Some c" "c \<noteq> cap_null_cap"
  obtains slot where "lookupCapAndSlot (ksCurThread s) cptr s = Some ((EXCEPTION_NONE, slot, c), s)"
    and "lookupCap (ksCurThread s) cptr s = Some ((EXCEPTION_NONE, c), s)"
    and "\<exists>x. ctes s slot = Some x \<and> cte_cap x = c"
proof -
  from lookup_fp_lookupCap [OF entry_okD(3) [OF ok] root, of cptr] l
  have c: "lookupCap (ksCurThread s) cptr s = Some ((EXCEPTION_NONE, c), s)" by auto
  then obtain slot x where "lookupSlot (ksCurThread s) cptr s = Some ((EXCEPTION_NONE, slot), s)" "ctes s slot = Some x"
    "cte_cap x = c"
    by (auto simp: lookupCap_def bind_eq_Some_conv split: if_splits)
  with c that show ?thesis by (auto simp: lookupCapAndSlot_def)
qed

lemma findMapForASID_live: "entry_ok s rq wq \<Longrightarrow> \<exists>m. findMapForASID asid s = Some m"
  using sched_okD(2) [OF entry_okD(8)] by (auto simp: sched_env_def vspaces_wf_def)

lemma endpoint_live:
  assumes "entry_ok s rq wq" and "ctes s slot = Some x" and "cte_cap x = cap_endpoint_cap badge gr g sd rc p"
  shows "\<exists>e. eps s p = Some e"
  using slots_okD(3) [OF entry_okD(2) [OF assms(1)] assms(2)] assms(3) by (auto simp: cap_ok_def refs_ok_def)

lemma one_domain:
  assumes "entry_ok s rq wq"
  shows "(if numDomains s > 1 then ksCurDomain s else 0) = ksCurDomain s"
    and "tcbs s t = Some T \<Longrightarrow> \<not> (tcbDomain T \<noteq> ksCurDomain s \<and> numDomains s > 1) \<Longrightarrow> tcbDomain T = ksCurDomain s"
proof -
  have n: "ksCurDomain s < numDomains s" "0 < numDomains s"
    and t: "tcbs s t = Some T \<Longrightarrow> tcbDomain T < numDomains s"
    using sched_okD(1,4) [OF entry_okD(8) [OF assms]] by (auto simp: ready_queues_ok_def tcbs_ok_def)
  have one: "numDomains s = 1" if "\<not> numDomains s > 1" using that n(2) by (simp add: word_unat_eq_iff word_less_nat_alt)
  show "(if numDomains s > 1 then ksCurDomain s else 0) = ksCurDomain s"
    using n one by (auto simp: word_less_1)
  show "tcbDomain T = ksCurDomain s"
    if "tcbs s t = Some T" "\<not> (tcbDomain T \<noteq> ksCurDomain s \<and> numDomains s > 1)"
    using n t that one by (cases "numDomains s > 1") (auto simp: word_less_1)
qed

lemma fastpath_call_result:
  assumes ok: "entry_ok s rq wq" and S: "tcbs s (ksCurThread s) = Some S"
  shows "map_option fp_view (fastpath_call fuel (tcbContext S capRegister) (tcbContext S msgInfoRegister) s) =
    map_option fp_view (slowpath fuel SysCall s)"
proof -
  let ?c = "ksCurThread s" and ?w = "tcbContext S msgInfoRegister" and ?slow = "slowpath fuel SysCall s"
  note slots = entry_okD(2) [OF ok] and dm = one_domain [OF ok]
  obtain root where root: "ctes s (TCB_PTR_CTE_PTR ?c tcbCTable) = Some root"
    using slots_okD(5) [OF slots, of ?c tcbCTable] S by auto
  obtain c where c: "lookup_fp (cte_cap root) (tcbContext S capRegister) s = Some c"
    using lookup_fp_lookupCap [OF entry_okD(3) [OF ok] root, of "tcbContext S capRegister"] by blast
  show ?thesis
  proof (cases "\<not> (fastpath_mi_check ?w \<or> tcbFault S \<noteq> seL4_Fault_NullFault) \<and>
      (\<exists>badge gr g rc p. c = cap_endpoint_cap badge gr g True rc p)")
    case False
    then show ?thesis using S root c by (auto simp: fastpath_call_def Let_def split: cap_t.split)
  next
    case True
    then obtain badge gr g rc p where cap: "c = cap_endpoint_cap badge gr g True rc p"
      and w: "\<not> fastpath_mi_check ?w" "tcbFault S = seL4_Fault_NullFault" by blast
    obtain slot where slot: "lookupCapAndSlot ?c (tcbContext S capRegister) s = Some ((EXCEPTION_NONE, slot, c), s)"
      "\<exists>x. ctes s slot = Some x \<and> cte_cap x = c"
      by (rule lookup_fp_slow [OF ok root c]) (use cap in auto)
    from slot(2) endpoint_live [OF ok] cap obtain e where e: "eps s p = Some e" by blast
    let ?d = "epQueue_head e"
    show ?thesis
    proof (cases "ep_state e = EPState_Recv")
      case False
      then show ?thesis using S root c cap w e by (simp add: fastpath_call_def Let_def)
    next
      case recv: True
      obtain D where D: "tcbs s ?d = Some D" by (rule recv_head [OF ok e recv refl])
      obtain vt where vt: "ctes s (TCB_PTR_CTE_PTR ?d tcbVTable) = Some vt"
        using slots_okD(5) [OF slots, of ?d tcbVTable] D by auto
      let ?asid = "capVSMappedASID (cte_cap vt)" and ?pd = "capVSBasePtr (cte_cap vt)"
      obtain am where am: "findMapForASID ?asid s = Some am" using findMapForASID_live [OF ok] by blast
      obtain hp where hp: "isHighestPrio (ksCurDomain s) (tcbPriority D) s = Some hp"
        using isHighestPrio_ok [OF entry_okD(8) [OF ok]] by blast
      show ?thesis
      proof (cases "isValidVTableRoot_fp (cte_cap vt) \<and> am = asid_map_vspace ?pd \<and>
          (tcbPriority D < tcbPriority S \<longrightarrow> hp) \<and> (g \<or> gr) \<and> \<not> (tcbDomain D \<noteq> ksCurDomain s \<and> numDomains s > 1)")
        case False
        then show ?thesis
          using S root c cap w e recv vt am D hp by (auto simp: fastpath_call_def Let_def dm(1))
      next
        case go: True
        have v: "vspace_of s ?d ?asid ?pd" using go vt am by (auto simp: vspace_of_def)
        have "tcbPriority S \<le> tcbPriority D \<or> isHighestPrio (ksCurDomain s) (tcbPriority D) s = Some True"
          using go hp by (auto simp: not_less)
        from call_directI [OF ok e recv refl S w(2) w(1) v D dm(2) [OF D] this] go
        obtain pv where k: "call_direct p ?d pv ?w ?asid ?pd e S D s" by auto
        have a: "?asid AND 0xffff = ?asid"
          using entry_okD(5) [OF ok] vt go by (auto simp: asids_fit_def)
        have "fastpath_call fuel (tcbContext S capRegister) ?w s =
            fastpath_call_commit (messageInfoFromWord_raw ?w) badge p ?d ?pd ?asid s"
          using S root c cap w e recv vt am D hp go by (auto simp: fastpath_call_def Let_def dm(1))
        moreover have "?slow = Some (called_state p ?d pv ?w badge ?asid ?pd e S D s)"
          by (rule slow_call [OF k slot(1) [unfolded cap]]) (use go in auto)
        ultimately show ?thesis using fast_commit [OF k a, of badge] by simp
      qed
    qed
  qed
qed

section \<open>A concrete state\<close>

text \<open>The threads of \<open>ipc_state\<close>. The running thread has in slot 0 of its CNode at \<open>0x100000\<close> a capability to the
  endpoint on which \<open>0x2400\<close> waits, which has an address space.\<close>

definition fp_ctes :: "ptr \<Rightarrow> cte_t option" where
  "fp_ctes p =
     (if p = NULL then None
      else if p = 0x1040 then Some \<lparr>cte_cap = cap_reply_cap True True 0x1400, cteMDBNode = mdb_node_new NULL True True NULL\<rparr>
      else Some \<lparr>cte_cap =
          (if p = 0x1000 then cap_cnode_cap 1 63 0 0x100000
           else if p = 0x100000 then cap_endpoint_cap 7 True True True True 0x9000
           else if p = 0x2020 then cap_vspace_cap 1 0x200000 True
           else cap_null_cap),
        cteMDBNode = nullMDBNode\<rparr>)"

definition fp_state :: kstate where
  "fp_state = ipc_state
     \<lparr>ctes := fp_ctes, ptes := \<lambda>_. Some pte_pte_invalid,
      asid_pools := [0x5000 \<mapsto> (\<lambda>_. asid_map_none)(1 := asid_map_vspace 0x200000)],
      armKSASIDTable := (\<lambda>_. NULL)(0 := 0x5000)\<rparr>"

lemma fp_state_sel:
  "ctes fp_state = fp_ctes" "tcbs fp_state = ipc_threads" "eps fp_state = eps ipc_state"
  "ntfns fp_state = ntfns ipc_state" "ksIdleThread fp_state = 0x3400" "ksCurThread fp_state = 0x1400"
  "ksSchedulerAction fp_state = 0"
  by (simp_all add: fp_state_def ipc_state_def sched_state_sel)

lemma fp_state_inv: "ipc_inv fp_state (\<lambda>_ _. []) ipc_queues"
proof -
  have f: "obj_view fp_state = obj_view ipc_state"
    by (rule ext, rename_tac w, case_tac w) (simp_all add: fp_state_def)
  have t: "tcbs fp_state = tcbs ipc_state" "ntfns fp_state = ntfns ipc_state" by (simp_all add: fp_state_def)
  have "wait_ok fp_state ipc_queues" "bound_ok fp_state"
    using ipc_frame(3,4) [of fp_state ipc_state] f t ipc_state_inv by (simp_all add: ipc_inv_def)
  moreover have "ctes fp_state (TCB_PTR_CTE_PTR u tcbVTable) \<noteq> None" if "tcbs fp_state u \<noteq> None" for u
    using msg_slots [of u tcbVTable] that by (auto simp: fp_state_sel fp_ctes_def)
  then have vt: "\<forall>u. tcbs fp_state u \<noteq> None \<longrightarrow> ctes fp_state (TCB_PTR_CTE_PTR u tcbVTable) \<noteq> None" by blast
  have "vspaces_wf fp_state"
    by (auto simp: vspaces_wf_def pt_live_def findMapForASID_def fp_state_def Let_def split: if_splits)
  then have env: "sched_env fp_state" using vt unfolding sched_env_def by blast
  have "ready_queues_ok fp_state (\<lambda>_ _. []) = ready_queues_ok ipc_state (\<lambda>_ _. [])"
    by (simp add: fp_state_def ready_queues_ok_def tcbs_ok_def in_queue_def link_of_def bitmap_ok_def rq_idx_def)
  then have "sched_ok fp_state (\<lambda>_ _. [])" using env ipc_state_sched
    by (simp add: sched_ok_def ready_def dom_sched_ok_def idle_thread_def fp_state_def)
  moreover have "action_ok fp_state" by (simp add: action_ok_def fp_state_sel)
  ultimately show ?thesis by (simp add: ipc_inv_def)
qed

lemma fp_slots: "t \<in> dom ipc_threads \<Longrightarrow> i < 5 \<Longrightarrow> TCB_PTR_CTE_PTR t i < 0x100000"
  using below_5 [of i] by (auto simp: ipc_threads_def TCB_PTR_CTE_PTR_def MASK_def BIT_def split: if_splits)

lemma fp_caps:
  assumes "ctes fp_state p = Some x"
  shows "cte_cap x \<in> {cap_null_cap, cap_cnode_cap 1 63 0 0x100000, cap_endpoint_cap 7 True True True True 0x9000,
    cap_vspace_cap 1 0x200000 True, cap_reply_cap True True 0x1400}"
  using assms by (auto simp: fp_state_sel fp_ctes_def split: if_splits)

lemma fp_cnode:
  "wf_cnode_cap (cap_cnode_cap 1 63 0 0x100000)" "cnode_slots_ok (ctes fp_state) (cap_cnode_cap 1 63 0 0x100000)"
  by (simp_all add: wf_cnode_cap_def cnode_slots_ok_def fp_state_sel fp_ctes_def cte_index_def upt_rec)

lemma fp_apart: "cnode_apart fp_state (cap_cnode_cap 1 63 0 0x100000)"
proof -
  have "cte_index 0x100000 i \<notin> tcb_slots fp_state" if "unat i < 2" for i
  proof
    assume "cte_index 0x100000 i \<in> tcb_slots fp_state"
    then obtain t j where "t \<in> dom ipc_threads" "j < 5" "cte_index 0x100000 i = TCB_PTR_CTE_PTR t j"
      by (auto simp: tcb_slots_def fp_state_sel)
    with fp_slots have "cte_index 0x100000 i < 0x100000" by metis
    moreover have "i = 0 \<or> i = 1" using that by (simp add: word_unat_eq_iff) linarith
    ultimately show False by (auto simp: cte_index_def)
  qed
  then show ?thesis by (simp add: cnode_apart_def)
qed

lemma fp_state_slots: "slots_ok fp_state"
proof -
  have n: "mdb_next fp_state p = NULL" "mdb_prev fp_state p = NULL" for p
    by (auto simp: link_of_def fp_state_sel fp_ctes_def nullMDBNode_def mdb_node_new_def)
  have "chains_wf (mdb_next fp_state) (mdb_prev fp_state) (dom (ctes fp_state))"
    unfolding chains_wf_def
  proof
    fix p assume "p \<in> dom (ctes fp_state)"
    then show "\<exists>xs. dlist (mdb_next fp_state) (mdb_prev fp_state) xs \<and> p \<in> set xs \<and> set xs \<subseteq> dom (ctes fp_state)"
      by (intro exI [of _ "[p]"]) (auto simp: dlist_def n fp_state_sel fp_ctes_def)
  qed
  then have "mdb_wf fp_state" by (simp add: mdb_wf_def fp_state_sel fp_ctes_def)
  moreover have "tcb_slots fp_state \<subseteq> dom (ctes fp_state)"
    using msg_slots by (fastforce simp: tcb_slots_def fp_state_sel fp_ctes_def)
  moreover have "tcbIPCBuffer T AND MASK 10 = 0" if "tcbs fp_state t = Some T" for t T
    using that by (auto simp: fp_state_sel ipc_threads_def waiter_def blank_tcb_def split: if_splits)
  moreover have "cap_ok fp_state (cte_cap x)" if "ctes fp_state p = Some x" for p x
    using fp_caps [OF that] fp_cnode fp_apart
    by (auto simp: cap_ok_def refs_ok_def fp_state_sel ipc_threads_def ipc_state_def wf_cnode_cap_def
        cnode_slots_ok_def cnode_apart_def)
  moreover have "mdbNext (cteMDBNode x) = NULL \<and> mdbPrev (cteMDBNode x) = NULL" if "ctes fp_state p = Some x" for p x
    using n [of p] that by (simp add: link_of_def)
  ultimately show ?thesis by (auto simp: slots_ok_def)
qed

lemma fp_state_cnodes: "cnodes_ok fp_state"
proof -
  have "radix_ok (cte_cap x)" if "ctes fp_state p = Some x" for p x
    using fp_caps [OF that] by (auto simp: radix_ok_def)
  then show ?thesis using slots_okD(2) [OF fp_state_slots] by (simp add: cnodes_ok_def)
qed

lemma fp_state_replies: "reply_slots_ok fp_state"
proof -
  have slots: "TCB_PTR_CTE_PTR 0x1400 tcbReply = 0x1040" "TCB_PTR_CTE_PTR 0x2400 tcbCaller = 0x2060"
    by (simp_all add: TCB_PTR_CTE_PTR_def MASK_def BIT_def)
  have t: "runnable fp_state t \<Longrightarrow> t = 0x1400"
    and w: "thread_wait fp_state t = Some (Ep p, ThreadState_BlockedOnReceive) \<Longrightarrow> t = 0x2400" for t p
    by (auto simp: runnable_def isRunnable_def thread_wait_def wait_of_def fp_state_sel ipc_threads_def waiter_def
        split: if_splits)
  have c: "cte_cap x \<noteq> cap_reply_cap g m r"
    if "tcbs fp_state t \<noteq> None" "ctes fp_state (TCB_PTR_CTE_PTR t tcbCaller) = Some x" for t x g m r
  proof -
    have "TCB_PTR_CTE_PTR t tcbCaller \<noteq> 0x1040"
      using that(1) by (auto simp: fp_state_sel ipc_threads_def TCB_PTR_CTE_PTR_def MASK_def BIT_def split: if_splits)
    then show ?thesis using that(2) by (auto simp: fp_state_sel fp_ctes_def split: if_splits)
  qed
  have "master_free (ctes fp_state) 0x1400 NULL" "caller_free (ctes fp_state) 0x2400"
    by (simp_all add: master_free_def caller_free_def slots fp_state_sel fp_ctes_def)
  with t w have "\<forall>t. runnable fp_state t \<longrightarrow> (\<exists>pv. master_free (ctes fp_state) t pv)"
    "\<forall>t p. thread_wait fp_state t = Some (Ep p, ThreadState_BlockedOnReceive) \<longrightarrow> caller_free (ctes fp_state) t"
    by metis+
  then show ?thesis unfolding reply_slots_ok_def by (intro conjI allI impI; use c in \<open>simp add: not_None_eq\<close>)
qed

lemma fp_state_ok: "entry_ok fp_state (\<lambda>_ _. []) ipc_queues"
proof -
  have "asids_fit fp_state" using fp_caps by (fastforce simp: asids_fit_def isValidVTableRoot_fp_def)
  moreover have "runnable fp_state (ksCurThread fp_state)"
    by (simp add: runnable_def isRunnable_def fp_state_sel ipc_threads_def waiter_def)
  ultimately show ?thesis
    using fp_state_inv fp_state_slots fp_state_cnodes fp_state_replies by (simp add: entry_ok_def fp_state_sel)
qed

lemma fp_look: "lookup_fp (cap_cnode_cap 1 63 0 0x100000) 0 fp_state = Some (cap_endpoint_cap 7 True True True True 0x9000)"
  by (simp add: lookup_fp_def lookup_fp_loop.simps shiftl_def shiftr_def cte_index_def fp_state_sel fp_ctes_def)

lemma fp_facts:
  "eps fp_state 0x9000 = Some \<lparr>epQueue_head = 0x2400, epQueue_tail = 0x2400, ep_state = EPState_Recv\<rparr>"
  "tcbs fp_state 0x1400 = Some (waiter ThreadState_Running 0 0 0 0)"
  "tcbs fp_state 0x2400 = Some ((waiter ThreadState_BlockedOnReceive 0x9000 0 0 0)\<lparr>tcbBoundNotification := 0xA000\<rparr>)"
  "ctes fp_state 0x1000 = Some \<lparr>cte_cap = cap_cnode_cap 1 63 0 0x100000, cteMDBNode = nullMDBNode\<rparr>"
  "ctes fp_state 0x2020 = Some \<lparr>cte_cap = cap_vspace_cap 1 0x200000 True, cteMDBNode = nullMDBNode\<rparr>"
  "findMapForASID 1 fp_state = Some (asid_map_vspace 0x200000)" "ksCurDomain fp_state = 0" "numDomains fp_state = 1"
  "TCB_PTR_CTE_PTR 0x1400 tcbCTable = 0x1000" "TCB_PTR_CTE_PTR 0x2400 tcbVTable = 0x2020"
  by (simp_all add: fp_state_sel fp_ctes_def ipc_threads_def TCB_PTR_CTE_PTR_def MASK_def BIT_def)
    (simp_all add: fp_state_def ipc_state_def findMapForASID_def ASID_HIGH_def ASID_LOW_def shiftr_def MASK_def BIT_def
      sched_state_def blank_state_def)

text \<open>In this state the fast path is taken: the receiver runs.\<close>

lemma fp_call_taken: "map_option ksCurThread (fastpath_call 0 0 0 fp_state) = Some 0x2400"
proof -
  let ?S = "waiter ThreadState_Running 0 0 0 0"
  let ?D = "(waiter ThreadState_BlockedOnReceive 0x9000 0 0 0)\<lparr>tcbBoundNotification := 0xA000\<rparr>"
  have v: "vspace_of fp_state 0x2400 1 0x200000"
    by (simp add: vspace_of_def fp_facts isValidVTableRoot_fp_def)
  have S: "tcbContext ?S r = 0" "tcbFault ?S = seL4_Fault_NullFault" "tcbPriority ?S = 0" "tcbDomain ?D = 0" "tcbPriority ?D = 0" for r
    by (simp_all add: waiter_def blank_tcb_def)
  have w: "\<not> fastpath_mi_check 0" by (simp add: fastpath_mi_check_def)
  have "\<exists>pv. call_direct 0x9000 0x2400 pv (tcbContext ?S msgInfoRegister) 1 0x200000
      \<lparr>epQueue_head = 0x2400, epQueue_tail = 0x2400, ep_state = EPState_Recv\<rparr> ?S ?D fp_state"
    using S w fp_facts(2,3)
    by (intro call_directI [OF fp_state_ok fp_facts(1) _ _ _ _ _ v fp_facts(3)]) (simp_all add: fp_state_sel fp_facts)
  then obtain pv where k: "call_direct 0x9000 0x2400 pv 0 1 0x200000
      \<lparr>epQueue_head = 0x2400, epQueue_tail = 0x2400, ep_state = EPState_Recv\<rparr> ?S ?D fp_state" using S(1) by auto
  have "fastpath_call 0 0 0 fp_state =
      fastpath_call_commit (messageInfoFromWord_raw 0) 7 0x9000 0x2400 0x200000 1 fp_state"
    using S w by (simp add: fastpath_call_def fp_facts fp_state_sel(6) fp_look isValidVTableRoot_fp_def Let_def)
  moreover have "map_option ksCurThread x = Some (ksCurThread z)" if "map_option fp_view x = Some (fp_view z)" for x z
    using that by (cases x) (auto dest: arg_cong [of _ _ ksCurThread] simp: fp_view_def)
  note this [OF fast_commit [OF k, of 7]]
  ultimately show ?thesis by (simp add: called_state_def)
qed

section \<open>Properties\<close>

text \<open>C8: the fast path of \<^verbatim>\<open>seL4_Call\<close> is equivalent to the slow path. In every state of the invariant at the entry to the
  kernel, and for every capability address and message descriptor in the registers of the caller,
  \<open>fastpath_call\<close> ends in the same state as the system call through \<open>handleSyscall\<close>, \<open>decodeInvocation\<close>,
  \<open>sendIPC\<close>, \<open>setupCallerCap\<close>, \<open>schedule\<close> and \<open>activateThread\<close>: the same queues, capabilities, derivation list, registers,
  address space and FPU, thread by thread. Only two things are not compared, which nothing reads: the array of
  extra capabilities and the blocking object of threads that are not blocked.\<close>

theorem fastpath_call_equivalent:
  assumes "entry_ok s rq wq" and "tcbs s (ksCurThread s) = Some S"
  shows "map_option fp_view (fastpath_call fuel (tcbContext S capRegister) (tcbContext S msgInfoRegister) s) =
    map_option fp_view (slowpath fuel SysCall s)"
  using assms by (rule fastpath_call_result)

theorem fastpath_call_equivalent_witness:
  "map_option fp_view (fastpath_call 0 0 0 fp_state) = map_option fp_view (slowpath 0 SysCall fp_state) \<and>
   map_option ksCurThread (fastpath_call 0 0 0 fp_state) = Some 0x2400"
proof -
  have "tcbs fp_state (ksCurThread fp_state) = Some (waiter ThreadState_Running 0 0 0 0)"
    by (simp add: fp_state_sel ipc_threads_def)
  from fastpath_call_equivalent [OF fp_state_ok this, of 0] show ?thesis
    using fp_call_taken by (simp add: waiter_def blank_tcb_def)
qed

end
