(* ===== verification/Fastpath_Reply.thy ===== *)
theory Fastpath_Reply
  imports Fastpath_Equiv
begin

text \<open>
  The fast path of reply and receive: it hands the reply to the caller, deletes the reply capability, puts
  the server at the end of the queue of its endpoint and switches to the caller, with the effect of
  \<open>handleReply\<close>, \<open>handleRecv\<close> and the scheduler.
\<close>

section \<open>Replying on the slow path\<close>

text \<open>The reply capability in the slot of \<open>c\<close> is the only child of the master of \<open>r\<close>.\<close>

definition reply_chain :: "(ptr \<Rightarrow> cte_t option) \<Rightarrow> ptr \<Rightarrow> ptr \<Rightarrow> bool \<Rightarrow> ptr \<Rightarrow> bool" where
  "reply_chain m c r g pv \<longleftrightarrow>
     m (TCB_PTR_CTE_PTR c tcbCaller) = Some \<lparr>cte_cap = cap_reply_cap g False r,
       cteMDBNode = mdb_node_new NULL False False (TCB_PTR_CTE_PTR r tcbReply)\<rparr> \<and>
     m (TCB_PTR_CTE_PTR r tcbReply) = Some \<lparr>cte_cap = cap_reply_cap True True r,
       cteMDBNode = mdb_node_new (TCB_PTR_CTE_PTR c tcbCaller) True True pv\<rparr> \<and>
     TCB_PTR_CTE_PTR r tcbReply \<noteq> NULL"

definition reply_taken :: "ptr \<Rightarrow> ptr \<Rightarrow> ptr \<Rightarrow> (ptr \<Rightarrow> cte_t option) \<Rightarrow> ptr \<Rightarrow> cte_t option" where
  "reply_taken c r pv m =
     m(TCB_PTR_CTE_PTR r tcbReply \<mapsto>
         \<lparr>cte_cap = cap_reply_cap True True r, cteMDBNode = mdb_node_new NULL True True pv\<rparr>,
       TCB_PTR_CTE_PTR c tcbCaller \<mapsto> \<lparr>cte_cap = cap_null_cap, cteMDBNode = nullMDBNode\<rparr>)"

lemma reply_slots_differ: "reply_chain m c r g pv \<Longrightarrow> TCB_PTR_CTE_PTR c tcbCaller \<noteq> TCB_PTR_CTE_PTR r tcbReply"
  by (auto simp: reply_chain_def)

lemma cteDeleteOne_reply:
  assumes "reply_chain (ctes s) c r g pv"
  shows "cteDeleteOne (TCB_PTR_CTE_PTR c tcbCaller) s = Some (s\<lparr>ctes := reply_taken c r pv (ctes s)\<rparr>)"
proof -
  let ?x = "TCB_PTR_CTE_PTR c tcbCaller" and ?y = "TCB_PTR_CTE_PTR r tcbReply"
  note ch = assms [unfolded reply_chain_def] and ne = reply_slots_differ [OF assms]
  have "isFinalCapability ?x s \<noteq> None" using ch by (auto simp: isFinalCapability_def mdb_node_new_def)
  then obtain f where f: "isFinalCapability ?x s = Some f" by blast
  have "emptySlot ?x cap_null_cap s = Some (s\<lparr>ctes := reply_taken c r pv (ctes s)\<rparr>)"
    using ch ne ne [symmetric]
    by (simp add: emptySlot_def mdb_set_next_if_def mdb_set_prev_if_def mdb_upd_def cte_set_cap_def kmonad
        mdb_node_new_def postCapDeletion_def isArchCap_def reply_taken_def Let_def)
  then show ?thesis
    using ch f by (simp add: cteDeleteOne_def finaliseCap_exposed_def isArchCap_def capRemovable_def)
qed

section \<open>The lookup after the reply\<close>

text \<open>Only slots of threads have changed, and the walk over CNodes does not read them.\<close>

lemma resolve_spec_agree:
  assumes caps: "\<And>p x. ctes s p = Some x \<Longrightarrow> cnode_apart s (cte_cap x)"
    and same: "\<And>q. q \<notin> tcb_slots s \<Longrightarrow> m q = ctes s q"
  shows "cnode_apart s c \<Longrightarrow> resolve_spec m c bs = resolve_spec (ctes s) c bs"
proof (induction "ctes s" c bs rule: resolve_spec.induct)
  case (1 radix gsize guard base bs)
  let ?i = "of_bits (take (unat radix) (drop (unat gsize) bs))"
  have "unat ?i < 2 ^ unat radix" by (rule of_bits_bound) simp
  with 1(2) have "cte_index base ?i \<notin> tcb_slots s" by (simp add: cnode_apart_def)
  then have m: "m (cte_index base ?i) = ctes s (cte_index base ?i)" by (rule same)
  have IH: "resolve_spec m (cte_cap x) (drop (unat radix + unat gsize) bs) =
      resolve_spec (ctes s) (cte_cap x) (drop (unat radix + unat gsize) bs)"
    if "ctes s (cte_index base ?i) = Some x" "is_cnode_cap (cte_cap x)"
      "unat radix + unat gsize \<noteq> 0" "\<not> length bs < unat radix + unat gsize"
      "\<not> (length bs < unat gsize \<or> take (unat gsize) bs \<noteq> bits_of guard (unat gsize))"
      "drop (unat radix + unat gsize) bs \<noteq> []" for x
    by (rule 1(1) [OF refl refl that(3) that(5) that(4) refl refl that(6) that(1,2) caps [OF that(1)]])
  show ?case
    by (subst (1 2) resolve_spec.simps(1)) (auto simp: Let_def m IH split: option.split)
qed (simp_all add: resolve_spec.simps)

lemma lookupCap_agree:
  assumes ok: "slots_ok s" and t: "tcbs s t \<noteq> None" and same: "\<And>q. q \<notin> tcb_slots s \<Longrightarrow> ctes s' q = ctes s q"
    and root: "ctes s' (TCB_PTR_CTE_PTR t tcbCTable) = ctes s (TCB_PTR_CTE_PTR t tcbCTable)" and wf: "cspace_wf s'"
    and l: "lookupCap t cptr s = Some ((EXCEPTION_NONE, c), s)"
  shows "lookupCap t cptr s' = Some ((EXCEPTION_NONE, c), s')"
proof -
  obtain x where x: "ctes s (TCB_PTR_CTE_PTR t tcbCTable) = Some x" using slots_okD(5) [OF ok t, of tcbCTable] by auto
  have c: "wf_cnode_cap (cte_cap x)" "cnode_apart s (cte_cap x)"
    using slots_okD(3) [OF ok x] by (simp_all add: cap_ok_def)
  have apart: "cnode_apart s (cte_cap y)" if "ctes s p = Some y" for p y
    using slots_okD(3) [OF ok that] by (simp add: cap_ok_def)
  let ?bs = "bits_of cptr 64"
  have r: "resolveAddressBits (cte_cap x) cptr wordBits s = map_option (result_of 64 s) (resolve_spec (ctes s) (cte_cap x) ?bs)"
    "resolveAddressBits (cte_cap x) cptr wordBits s' = map_option (result_of 64 s') (resolve_spec (ctes s) (cte_cap x) ?bs)"
    using resolveAddressBits_spec [OF slots_okD(2) [OF ok] c(1), of wordBits cptr] resolveAddressBits_spec [OF wf c(1), of wordBits cptr]
      resolve_spec_agree [of s "ctes s'" "cte_cap x" ?bs, OF apart same c(2)] by simp_all
  obtain z where z: "resolve_spec (ctes s) (cte_cap x) ?bs = Some z"
    using l x r(1) by (auto simp: lookupCap_def lookupSlot_def bind_eq_Some_conv)
  have "\<exists>slot k y. z = LFound slot k \<and> ctes s slot = Some y \<and> cte_cap y = c"
    using l x r(1) z
    by (cases z) (auto simp: lookupCap_def lookupSlot_def result_of_def rr_new_def bind_eq_Some_conv)
  with z obtain slot k y where f: "resolve_spec (ctes s) (cte_cap x) ?bs = Some (LFound slot k)"
    "ctes s slot = Some y" "cte_cap y = c" by blast
  have "slot \<notin> tcb_slots s" by (rule resolve_spec_apart [OF apart c(2) f(1)])
  then show ?thesis
    using r(2) f x root same by (simp add: lookupCap_def lookupSlot_def result_of_def rr_new_def)
qed

lemma reply_taken_cspace:
  assumes wf: "cspace_wf s" and ch: "reply_chain (ctes s) c r g pv" and s': "ctes s' = reply_taken c r pv (ctes s)"
  shows "cspace_wf s'"
proof -
  have d: "ctes s' q = None \<longleftrightarrow> ctes s q = None" for q
    using ch by (auto simp: s' reply_taken_def reply_chain_def)
  have slots: "cnode_slots_ok (ctes s') k = cnode_slots_ok (ctes s) k" for k
    by (simp add: cnode_slots_ok_def d del: not_None_eq split: cap_t.split)
  have "\<exists>y. ctes s q = Some y \<and> (cte_cap x = cte_cap y \<or> cte_cap x = cap_null_cap)" if "ctes s' q = Some x" for q x
    using that ch by (auto simp: s' reply_taken_def reply_chain_def split: if_splits)
  moreover have "wf_cnode_cap cap_null_cap \<and> cnode_slots_ok (ctes s) cap_null_cap"
    by (simp add: wf_cnode_cap_def cnode_slots_ok_def)
  ultimately show ?thesis using wf unfolding cspace_wf_def slots by metis
qed

section \<open>The slow path\<close>

text \<open>The server at the end of the queue of its endpoint.\<close>

definition ep_appended :: "ptr \<Rightarrow> endpoint_t \<Rightarrow> endpoint_t" where
  "ep_appended c e =
     e\<lparr>ep_state := EPState_Recv, epQueue_head := if epQueue_head e = NULL then c else epQueue_head e, epQueue_tail := c\<rparr>"

definition link_tail :: "ptr \<Rightarrow> ptr \<Rightarrow> (ptr \<Rightarrow> tcb_t option) \<Rightarrow> ptr \<Rightarrow> tcb_t option" where
  "link_tail lst c m = (if lst = NULL then m else m(lst := map_option (\<lambda>t. t\<lparr>tcbEPNext := c\<rparr>) (m lst)))"

definition blocked_on_receive :: "ptr \<Rightarrow> bool \<Rightarrow> ptr \<Rightarrow> tcb_t \<Rightarrow> tcb_t" where
  "blocked_on_receive p g lst S =
     S\<lparr>tcbState := (tcbState S)\<lparr>tsType := ThreadState_BlockedOnReceive, blockingObject := p, blockingIPCCanGrant := g\<rparr>,
       tcbEPPrev := lst, tcbEPNext := NULL\<rparr>"

text \<open>What the tests of the fast path and the invariant give.\<close>

definition reply_direct ::
    "ptr \<Rightarrow> bool \<Rightarrow> ptr \<Rightarrow> ptr \<Rightarrow> word_t \<Rightarrow> word_t \<Rightarrow> ptr \<Rightarrow> endpoint_t \<Rightarrow> tcb_t \<Rightarrow> tcb_t \<Rightarrow> kstate \<Rightarrow> bool" where
  "reply_direct p g r pv w asid pd e S R s \<longleftrightarrow>
     eps s p = Some e \<and> ep_state e \<noteq> EPState_Send \<and> (epQueue_head e = NULL \<longleftrightarrow> epQueue_tail e = NULL) \<and>
     tcbs s (ksCurThread s) = Some S \<and> tcbFault S = seL4_Fault_NullFault \<and> tcbContext S msgInfoRegister = w \<and>
     \<not> fastpath_mi_check w \<and> ksCurThread s \<noteq> ksIdleThread s \<and>
     (tcbBoundNotification S = NULL \<or>
      (\<exists>n. ntfns s (tcbBoundNotification S) = Some n \<and> ntfn_state n \<noteq> NtfnState_Active)) \<and>
     tcbs s r = Some R \<and> tsType (tcbState R) = ThreadState_BlockedOnReply \<and> tcbFault R = seL4_Fault_NullFault \<and>
     r \<noteq> ksCurThread s \<and> ksCurThread s \<noteq> r \<and> tcbDomain R = ksCurDomain s \<and> \<not> tcbQueued (tcbState R) \<and> r \<noteq> NULL \<and>
     r \<noteq> SchedulerAction_ChooseNewThread \<and>
     (epQueue_tail e = NULL \<or>
      tcbs s (epQueue_tail e) \<noteq> None \<and> epQueue_tail e \<noteq> ksCurThread s \<and> epQueue_tail e \<noteq> r) \<and>
     (\<exists>b. lookupIPCBuffer True r s = Some b) \<and> (\<exists>b. lookupIPCBuffer False (ksCurThread s) s = Some b) \<and>
     ksSchedulerAction s = SchedulerAction_ResumeCurrentThread \<and>
     reply_chain (ctes s) (ksCurThread s) r g pv \<and> vspace_of s r asid pd \<and>
     isHighestPrio (ksCurDomain s) (tcbPriority R) s = Some True"

text \<open>The state between the two halves.\<close>

definition replied_state :: "ptr \<Rightarrow> ptr \<Rightarrow> word_t \<Rightarrow> tcb_t \<Rightarrow> tcb_t \<Rightarrow> kstate \<Rightarrow> kstate" where
  "replied_state r pv w S R s =
     s\<lparr>current_extra_caps := (current_extra_caps s)(0 := NULL), tcbs := (tcbs s)(r \<mapsto> received_short S w 0 R),
       ctes := reply_taken (ksCurThread s) r pv (ctes s), ksSchedulerAction := r\<rparr>"

lemma handleReply_direct:
  assumes k: "reply_direct p g r pv w asid pd e S R s"
  shows "handleReply s = Some (replied_state r pv w S R s)"
proof -
  let ?c = "ksCurThread s" and ?x = "TCB_PTR_CTE_PTR (ksCurThread s) tcbCaller"
  note k = k [unfolded reply_direct_def]
  from k obtain rb sb where b: "lookupIPCBuffer True r s = Some rb" "lookupIPCBuffer False ?c s = Some sb" by blast
  let ?s1 = "(set_extra_cap 0 NULL s)\<lparr>tcbs := (tcbs s)(r \<mapsto> R\<lparr>tcbContext := short_context S w 0 R\<rparr>)\<rparr>"
  have t: "doIPCTransfer ?c NULL 0 g r s = Some ?s1"
    using k b by (intro short_transfer) auto
  have "reply_chain (ctes ?s1) ?c r g pv" using k by (simp add: set_extra_cap_def)
  from cteDeleteOne_reply [OF this]
  have d: "cteDeleteOne ?x ?s1 = Some (?s1\<lparr>ctes := reply_taken ?c r pv (ctes s)\<rparr>)" by (simp add: set_extra_cap_def)
  have "doReplyTransfer ?c r ?x g s = Some (replied_state r pv w S R s)"
    using k t d
    by (simp add: doReplyTransfer_def setThreadState_def scheduleTCB_def kmonad possibleSwitchTo_def set_action_def
        replied_state_def received_short_def set_extra_cap_def)
  then show ?thesis using k by (simp add: handleReply_def reply_chain_def)
qed

lemma replied_lookup:
  assumes k: "reply_direct p g r pv w asid pd e S R s" and ok: "slots_ok s"
    and l: "lookupCap (ksCurThread s) cptr s = Some ((EXCEPTION_NONE, c), s)"
  shows "lookupCap (ksCurThread s) cptr (replied_state r pv w S R s) =
    Some ((EXCEPTION_NONE, c), replied_state r pv w S R s)"
proof (rule lookupCap_agree [OF ok _ _ _ _ l])
  let ?c = "ksCurThread s"
  note k = k [unfolded reply_direct_def]
  show "tcbs s ?c \<noteq> None" using k by simp
  have "TCB_PTR_CTE_PTR ?c tcbCaller \<in> tcb_slots s" "TCB_PTR_CTE_PTR r tcbReply \<in> tcb_slots s"
    using k by (auto intro!: tcb_slotI)
  then show "ctes (replied_state r pv w S R s) q = ctes s q" if "q \<notin> tcb_slots s" for q
    using that by (auto simp: replied_state_def reply_taken_def)
  show "cspace_wf (replied_state r pv w S R s)"
    by (rule reply_taken_cspace [OF slots_okD(2) [OF ok]]) (use k in \<open>auto simp: replied_state_def\<close>)
  obtain x where "ctes s (TCB_PTR_CTE_PTR ?c tcbCTable) = Some x" "is_cnode_cap (cte_cap x)"
    using l by (auto simp: lookupCap_def lookupSlot_def resolveAddressBits_def bind_eq_Some_conv rr_new_def split: if_splits)
  then show "ctes (replied_state r pv w S R s) (TCB_PTR_CTE_PTR ?c tcbCTable) = ctes s (TCB_PTR_CTE_PTR ?c tcbCTable)"
    using k by (auto simp: replied_state_def reply_taken_def reply_chain_def)
qed

definition server_blocked :: "ptr \<Rightarrow> bool \<Rightarrow> endpoint_t \<Rightarrow> ptr \<Rightarrow> tcb_t \<Rightarrow> (ptr \<Rightarrow> tcb_t option) \<Rightarrow> ptr \<Rightarrow> tcb_t option" where
  "server_blocked p cg e c S m =
     (link_tail (epQueue_tail e) c m)(c \<mapsto> blocked_on_receive p cg (epQueue_tail e) S)"

lemma receiveIPC_direct:
  assumes e: "eps s p = Some e" "ep_state e \<noteq> EPState_Send" "epQueue_head e = NULL \<longleftrightarrow> epQueue_tail e = NULL"
    and c: "tcbs s c = Some S" "tcbBoundNotification S = NULL \<or>
      (\<exists>n. ntfns s (tcbBoundNotification S) = Some n \<and> ntfn_state n \<noteq> NtfnState_Active)"
    and lst: "epQueue_tail e = NULL \<or> tcbs s (epQueue_tail e) \<noteq> None \<and> epQueue_tail e \<noteq> c"
    and a: "ksSchedulerAction s \<noteq> SchedulerAction_ResumeCurrentThread"
  shows "receiveIPC c (cap_endpoint_cap badge gr cg sd rc p) True s =
    Some (s\<lparr>tcbs := server_blocked p cg e c S (tcbs s), eps := (eps s)(p \<mapsto> ep_appended c e)\<rparr>)"
proof -
  let ?S = "S\<lparr>tcbState := (tcbState S)\<lparr>tsType := ThreadState_BlockedOnReceive, blockingObject := p,
                blockingIPCCanGrant := cg\<rparr>\<rparr>"
  let ?s = "s\<lparr>tcbs := (tcbs s)(c \<mapsto> ?S)\<rparr>"
  let ?q = "\<lparr>qhead = epQueue_head e, qend = epQueue_tail e\<rparr>"
  have notify: "(if tcbBoundNotification S \<noteq> NULL
      then do { n \<leftarrow> ntfns s (tcbBoundNotification S); Some (ntfn_state n = NtfnState_Active) } else Some False) = Some False"
    using c(2) by auto
  have q: "tcbEPAppend c ?q ?s = Some (?q\<lparr>qhead := if epQueue_head e = NULL then c else epQueue_head e, qend := c\<rparr>,
      s\<lparr>tcbs := server_blocked p cg e c S (tcbs s)\<rparr>)"
  proof (cases "epQueue_tail e = NULL")
    case True
    then show ?thesis using e(3) c(1)
      by (simp add: tcbEPAppend_def kmonad server_blocked_def link_tail_def blocked_on_receive_def)
  next
    case False
    then have t: "tcbs s (epQueue_tail e) \<noteq> None" "epQueue_tail e \<noteq> c" "c \<noteq> epQueue_tail e" "epQueue_head e \<noteq> NULL"
      using lst e(3) by auto
    then show ?thesis using c(1) False
      by (auto simp: tcbEPAppend_def kmonad server_blocked_def link_tail_def blocked_on_receive_def fun_upd_twist [OF t(2)])
  qed
  have "Option.bind (endpoint_ptr_set_state p EPState_Recv x)
      (ep_ptr_set_queue p (?q\<lparr>qhead := if epQueue_head e = NULL then c else epQueue_head e, qend := c\<rparr>)) =
    Some (x\<lparr>eps := (eps x)(p \<mapsto> ep_appended c e)\<rparr>)" if "eps x = eps s" for x
    using e(1) that by (simp add: endpoint_ptr_set_state_def ep_ptr_set_queue_def kmonad ep_appended_def)
  with q c(1) e(1,2) a show ?thesis
    by (simp add: receiveIPC_def notify Let_def kmonad scheduleTCB_def ep_ptr_get_queue_def)
qed

definition replied_and_received ::
    "ptr \<Rightarrow> bool \<Rightarrow> ptr \<Rightarrow> ptr \<Rightarrow> word_t \<Rightarrow> word_t \<Rightarrow> ptr \<Rightarrow> endpoint_t \<Rightarrow> tcb_t \<Rightarrow> tcb_t \<Rightarrow> kstate \<Rightarrow> kstate" where
  "replied_and_received p cg r pv w asid pd e S R s =
     s\<lparr>eps := (eps s)(p \<mapsto> ep_appended (ksCurThread s) e),
       tcbs := server_blocked p cg e (ksCurThread s) S ((tcbs s)(r \<mapsto> received_short S w 0 R)),
       ctes := reply_taken (ksCurThread s) r pv (ctes s),
       current_extra_caps := (current_extra_caps s)(0 := NULL), ksSchedulerAction := SchedulerAction_ResumeCurrentThread,
       ksCurFPUOwner := fpu_owner s r R,
       machine_log := machine_log s @ armv_contextSwitch pd asid # fpu_ops s r R, ksCurThread := r\<rparr>"

lemma reply_taken_vspace:
  assumes v: "vspace_of s t asid pd" and ch: "reply_chain (ctes s) c r g pv"
    and s': "ctes s' = reply_taken c r pv (ctes s)" "asid_pools s' = asid_pools s" "armKSASIDTable s' = armKSASIDTable s"
  shows "vspace_of s' t asid pd"
proof -
  from v obtain x where x: "ctes s (TCB_PTR_CTE_PTR t tcbVTable) = Some x" "isValidVTableRoot_fp (cte_cap x)"
    by (auto simp: vspace_of_def)
  then have "ctes s' (TCB_PTR_CTE_PTR t tcbVTable) = ctes s (TCB_PTR_CTE_PTR t tcbVTable)"
    using ch by (auto simp: s'(1) reply_taken_def reply_chain_def isValidVTableRoot_fp_def)
  with v findMapForASID_cong [OF s'(2,3)] show ?thesis by (simp add: vspace_of_def)
qed

lemma slow_reply_recv:
  assumes k: "reply_direct p g r pv w asid pd e S R s" and ok: "slots_ok s"
    and l: "lookupCap (ksCurThread s) (tcbContext S capRegister) s =
      Some ((EXCEPTION_NONE, cap_endpoint_cap badge gr cg sd True p), s)"
  shows "slowpath fuel SysReplyRecv s = Some (replied_and_received p cg r pv w asid pd e S R s)"
proof -
  let ?c = "ksCurThread s" and ?r = "replied_state r pv w S R s"
  let ?R = "received_short S w 0 R"
  let ?t = "?r\<lparr>tcbs := server_blocked p cg e ?c S (tcbs ?r), eps := (eps s)(p \<mapsto> ep_appended ?c e)\<rparr>"
  note look = replied_lookup [OF k ok l]
  note k' = k [unfolded reply_direct_def]
  have "receiveIPC ?c (cap_endpoint_cap badge gr cg sd True p) True ?r =
    Some (?r\<lparr>tcbs := server_blocked p cg e ?c S (tcbs ?r), eps := (eps ?r)(p \<mapsto> ep_appended ?c e)\<rparr>)"
    using k' by (intro receiveIPC_direct) (auto simp: replied_state_def)
  then have recv: "handleRecv True ?r = Some ?t"
    using look k'
    by (simp add: handleRecv_def kmonad replied_state_def deleteCallerCap_def cteDeleteOne_def reply_taken_def)
  have tr: "tcbs ?t r = Some ?R" "tcbs ?t ?c = Some (blocked_on_receive p cg (epQueue_tail e) S)"
    using k' by (auto simp: server_blocked_def link_tail_def replied_state_def)
  have "vspace_of ?t r asid pd"
    by (rule reply_taken_vspace [of s _ _ _ ?c r g pv]) (use k' in \<open>simp_all add: replied_state_def\<close>)
  moreover have "isHighestPrio dm q ?t = isHighestPrio dm q s" for dm q
    by (simp add: isHighestPrio_def getHighestPrio_def replied_state_def)
  ultimately have "schedule_and_activate ?t =
    Some (?t\<lparr>ksCurFPUOwner := fpu_owner ?t r ?R, machine_log := machine_log ?t @ armv_contextSwitch pd asid # fpu_ops ?t r ?R,
            ksCurThread := r, ksSchedulerAction := SchedulerAction_ResumeCurrentThread\<rparr>)"
    using k' tr
    by (intro schedule_direct [where S = "blocked_on_receive p cg (epQueue_tail e) S"])
      (auto simp: replied_state_def received_short_def blocked_on_receive_def isRunnable_def)
  moreover have "fpu_owner ?t r ?R = fpu_owner s r R" "fpu_ops ?t r ?R = fpu_ops s r R"
    by (simp_all add: fpu_owner_def fpu_ops_def received_short_def replied_state_def)
  ultimately have "slowpath fuel SysReplyRecv s =
    Some (?t\<lparr>ksCurFPUOwner := fpu_owner s r R, machine_log := machine_log ?t @ armv_contextSwitch pd asid # fpu_ops s r R,
            ksCurThread := r, ksSchedulerAction := SchedulerAction_ResumeCurrentThread\<rparr>)"
    by (simp add: slowpath_def handleSyscall_def handleReply_direct [OF k] recv)
  then show ?thesis by (simp add: replied_and_received_def replied_state_def)
qed

section \<open>The fast path\<close>

lemma fast_reply_deliver:
  assumes k: "reply_direct p g r pv w asid pd e S R s"
  shows "fastpath_reply_recv_commit (messageInfoFromWord_raw w) cg p r pd asid s =
    fast_deliver w 0 r pd asid
      (s\<lparr>tcbs := server_blocked p cg e (ksCurThread s) S (tcbs s),
         eps := (eps s)(p \<mapsto> ep_appended (ksCurThread s) e), ctes := reply_taken (ksCurThread s) r pv (ctes s)\<rparr>)"
proof -
  let ?c = "ksCurThread s" and ?x = "TCB_PTR_CTE_PTR (ksCurThread s) tcbCaller" and ?y = "TCB_PTR_CTE_PTR r tcbReply"
  let ?S = "S\<lparr>tcbState := (tcbState S)\<lparr>blockingObject := p, tsType := ThreadState_BlockedOnReceive,
                blockingIPCCanGrant := cg\<rparr>\<rparr>"
  let ?s1 = "s\<lparr>tcbs := (tcbs s)(?c \<mapsto> ?S)\<rparr>"
  let ?s2 = "s\<lparr>tcbs := server_blocked p cg e ?c S (tcbs s), eps := (eps s)(p \<mapsto> ep_appended ?c e)\<rparr>"
  note k = k [unfolded reply_direct_def]
  from k have ch: "reply_chain (ctes s) ?c r g pv" by blast
  let ?s0 = "s\<lparr>tcbs := (tcbs s)(?c \<mapsto> S\<lparr>tcbState := (tcbState S)\<lparr>blockingObject := p, tsType := ThreadState_BlockedOnReceive\<rparr>\<rparr>)\<rparr>"
  have block: "thread_state_ptr_mset_blockingObject_tsType ?c p ThreadState_BlockedOnReceive s = Some ?s0"
    "ts_upd ?c (\<lambda>ts. ts\<lparr>blockingIPCCanGrant := cg\<rparr>) ?s0 = Some ?s1"
    using k by (simp_all add: thread_state_ptr_mset_blockingObject_tsType_def kmonad)
  have S: "?S\<lparr>tcbEPPrev := t, tcbEPNext := NULL\<rparr> = blocked_on_receive p cg t S" for t
    by (simp add: blocked_on_receive_def)
  have queue: "fastpath_enqueue p ?s1 = Some ?s2"
  proof (cases "epQueue_tail e = NULL")
    case True
    have "e\<lparr>epQueue_head := ?c, epQueue_tail := ?c, ep_state := EPState_Recv\<rparr> = ep_appended ?c e"
      using True k by (cases e) (simp add: ep_appended_def)
    then show ?thesis using True k S
      by (simp add: fastpath_enqueue_def kmonad endpoint_ptr_set_epQueue_head_np_def endpoint_ptr_mset_epQueue_tail_state_def
          server_blocked_def link_tail_def)
  next
    case False
    then have t: "tcbs s (epQueue_tail e) \<noteq> None" "epQueue_tail e \<noteq> ?c" "?c \<noteq> epQueue_tail e" "epQueue_head e \<noteq> NULL"
      using k by auto
    have "e\<lparr>epQueue_tail := ?c, ep_state := EPState_Recv\<rparr> = ep_appended ?c e"
      using t(4) by (cases e) (simp add: ep_appended_def)
    then show ?thesis using False k t S
      by (auto simp: fastpath_enqueue_def Let_def kmonad endpoint_ptr_mset_epQueue_tail_state_def server_blocked_def link_tail_def
          fun_upd_twist [OF t(2)])
  qed
  have del: "Option.bind (mdb_node_ptr_mset_mdbNext_mdbRevocable_mdbFirstBadged ?y 0 True True x)
      (\<lambda>s. Option.bind (cte_set_cap ?x cap_null_cap s) (mdb_upd ?x (\<lambda>_. nullMDBNode))) =
    Some (x\<lparr>ctes := reply_taken ?c r pv (ctes s)\<rparr>)" if "ctes x = ctes s" for x
    using ch reply_slots_differ [OF ch] reply_slots_differ [OF ch, symmetric] that
    by (simp add: reply_chain_def mdb_node_ptr_mset_mdbNext_mdbRevocable_mdbFirstBadged_def mdb_upd_def cte_set_cap_def
        kmonad reply_taken_def mdb_node_new_def)
  have "mdbPrev (cteMDBNode y) = ?y" if "ctes s ?x = Some y" for y
    using ch that by (auto simp: reply_chain_def mdb_node_new_def)
  moreover from ch obtain y where "ctes s ?x = Some y" by (auto simp: reply_chain_def)
  ultimately show ?thesis
    using k queue block
      del [THEN arg_cong, of _ "\<lambda>x. Option.bind x f" for f :: "kstate \<Rightarrow> kstate option"]
    by (simp add: fastpath_reply_recv_commit_def fast_deliver_def Let_def)
qed

lemma fast_reply_commit:
  assumes k: "reply_direct p g r pv w asid pd e S R s" and a: "asid AND 0xffff = asid"
  shows "map_option fp_view (fastpath_reply_recv_commit (messageInfoFromWord_raw w) cg p r pd asid s) =
    Some (fp_view (replied_and_received p cg r pv w asid pd e S R s))"
proof -
  let ?c = "ksCurThread s"
  let ?S = "blocked_on_receive p cg (epQueue_tail e) S"
  let ?s = "s\<lparr>tcbs := server_blocked p cg e ?c S (tcbs s), eps := (eps s)(p \<mapsto> ep_appended ?c e),
         ctes := reply_taken ?c r pv (ctes s)\<rparr>"
  note k' = k [unfolded reply_direct_def]
  have t: "tcbs ?s ?c = Some ?S" "tcbs ?s r = Some R" "r \<noteq> ?c" "?c \<noteq> r"
    using k' by (auto simp: server_blocked_def link_tail_def)
  have "fast_deliver w 0 r pd asid ?s =
    Some (?s\<lparr>ksCurFPUOwner := fpu_owner ?s r R,
            machine_log := machine_log ?s @ armv_contextSwitch pd asid # fpu_ops ?s r R, ksCurThread := r,
            tcbs := (tcbs ?s)(r \<mapsto> received_short_fp ?S w 0 R)\<rparr>)"
    using k' t a by (intro fast_deliver_run) simp_all
  moreover have "received_short_fp ?S w 0 R = received_short_fp S w 0 R"
  proof -
    have "short_context ?S w 0 R = short_context S w 0 R" by (rule ext) (simp add: short_context_def blocked_on_receive_def)
    then show ?thesis by (simp add: received_short_fp_def)
  qed
  moreover have "fpu_owner ?s r R = fpu_owner s r R" "fpu_ops ?s r R = fpu_ops s r R"
    by (simp_all add: fpu_owner_def fpu_ops_def)
  moreover have "fp_view (?s\<lparr>ksCurFPUOwner := fpu_owner s r R,
            machine_log := machine_log s @ armv_contextSwitch pd asid # fpu_ops s r R, ksCurThread := r,
            tcbs := (tcbs ?s)(r \<mapsto> received_short_fp S w 0 R)\<rparr>) =
      fp_view (replied_and_received p cg r pv w asid pd e S R s)"
  proof (rule kstate.equality)
    have "epQueue_tail e \<noteq> r" using k' by auto
    then show "tcbs (fp_view (?s\<lparr>ksCurFPUOwner := fpu_owner s r R,
            machine_log := machine_log s @ armv_contextSwitch pd asid # fpu_ops s r R, ksCurThread := r,
            tcbs := (tcbs ?s)(r \<mapsto> received_short_fp S w 0 R)\<rparr>)) =
      tcbs (fp_view (replied_and_received p cg r pv w asid pd e S R s))"
      using t(3,4) by (auto simp: fp_view_def replied_and_received_def fun_eq_iff views_fp server_blocked_def link_tail_def)
  qed (use k' in \<open>simp_all add: fp_view_def replied_and_received_def\<close>)
  ultimately show ?thesis by (simp add: fast_reply_deliver [OF k])
qed

section \<open>The tests imply a direct reply\<close>

lemma ep_tail:
  assumes ok: "entry_ok s rq wq" and e: "eps s p = Some e"
  shows "epQueue_head e = NULL \<longleftrightarrow> epQueue_tail e = NULL"
    and "epQueue_tail e = NULL \<or> thread_wait s (epQueue_tail e) \<noteq> None"
proof -
  note w = entry_okD(9) [OF ok]
  have v: "obj_view s (Ep p) = Some (\<lparr>qhead = epQueue_head e, qend = epQueue_tail e\<rparr>, ep_mode (ep_state e))"
    using e by simp
  from wait_partD(2) [OF w v] have q: "epQueue_head e = first_or NULL (wq (Ep p))" "epQueue_tail e = last_or NULL (wq (Ep p))"
    and l: "NULL \<notin> set (wq (Ep p))"
    by (auto simp: queue_of_def dlist_def)
  show "epQueue_head e = NULL \<longleftrightarrow> epQueue_tail e = NULL"
    using q l first_or_in [of "wq (Ep p)" NULL] last_or_in [of "wq (Ep p)" NULL] by (cases "wq (Ep p) = []") auto
  have "epQueue_tail e \<in> set (wq (Ep p))" if "epQueue_tail e \<noteq> NULL"
    using q(2) that last_or_in [of "wq (Ep p)" NULL] by (cases "wq (Ep p) = []") auto
  then show "epQueue_tail e = NULL \<or> thread_wait s (epQueue_tail e) \<noteq> None"
    using wait_partD(3) [OF w, of "epQueue_tail e" "Ep p"] by auto
qed

lemma reply_directI:
  assumes ok: "entry_ok s rq wq" and e: "eps s p = Some e" "ep_state e \<noteq> EPState_Send"
    and S: "tcbs s (ksCurThread s) = Some S" "tcbFault S = seL4_Fault_NullFault" "\<not> fastpath_mi_check (tcbContext S msgInfoRegister)"
      "tcbBoundNotification S = NULL \<or>
      (\<exists>n. ntfns s (tcbBoundNotification S) = Some n \<and> ntfn_state n \<noteq> NtfnState_Active)"
    and x: "ctes s (TCB_PTR_CTE_PTR (ksCurThread s) tcbCaller) = Some x" "cte_cap x = cap_reply_cap g m r"
    and R: "tcbs s r = Some R" "tcbFault R = seL4_Fault_NullFault" "tcbDomain R = ksCurDomain s"
    and v: "vspace_of s r asid pd" and prio: "isHighestPrio (ksCurDomain s) (tcbPriority R) s = Some True"
  shows "\<exists>pv. reply_direct p g r pv (tcbContext S msgInfoRegister) asid pd e S R s"
proof -
  let ?c = "ksCurThread s"
  note sched = entry_okD(8) [OF ok] and slots = entry_okD(2) [OF ok] and run = entry_okD(7) [OF ok]
  obtain pv where ch: "x = \<lparr>cte_cap = cap_reply_cap g False r, cteMDBNode = mdb_node_new NULL False False (TCB_PTR_CTE_PTR r tcbReply)\<rparr>"
    "ctes s (TCB_PTR_CTE_PTR r tcbReply) =
      Some \<lparr>cte_cap = cap_reply_cap True True r, cteMDBNode = mdb_node_new (TCB_PTR_CTE_PTR ?c tcbCaller) True True pv\<rparr>"
    and b: "tsType (tcbState R) = ThreadState_BlockedOnReply"
    using entry_okD(4) [OF ok, unfolded reply_slots_ok_def] S(1) x R(1) by (metis option.distinct(1) option.sel)
  have "TCB_PTR_CTE_PTR r tcbReply \<noteq> NULL" using ch(2) slots_okD(1) [OF slots] by (auto simp: mdb_wf_def)
  with x(1) ch have "reply_chain (ctes s) ?c r g pv" by (simp add: reply_chain_def)
  moreover have nr: "\<not> runnable s r" "thread_wait s r = None"
    using R(1) b by (simp_all add: runnable_def isRunnable_def thread_wait_def wait_of_def)
  moreover have "r \<noteq> ?c" "?c \<noteq> r" using nr(1) run by auto
  moreover have "r \<notin> ready rq" using sched_okD(3) [OF sched] nr(1) by blast
  from not_ready_unqueued [OF sched_okD(1) [OF sched] R(1) this] have "\<not> tcbQueued (tcbState R)" .
  moreover have "r \<noteq> SchedulerAction_ChooseNewThread" "r \<noteq> NULL"
    using sched_okD(1,9) [OF sched] R(1) by (auto simp: ready_queues_ok_def tcbs_ok_def)
  moreover have "?c \<noteq> ksIdleThread s" using sched_okD(10) [OF sched] run by auto
  moreover have "epQueue_tail e = NULL \<or>
      tcbs s (epQueue_tail e) \<noteq> None \<and> epQueue_tail e \<noteq> ?c \<and> epQueue_tail e \<noteq> r"
    using ep_tail(2) [OF ok e(1)] nr(2) wait_not_runnable [of s ?c] run thread_wait_live [of s "epQueue_tail e"]
    by (auto simp del: not_None_eq)
  moreover have "\<exists>b. lookupIPCBuffer True r s = Some b" "\<exists>b. lookupIPCBuffer False ?c s = Some b"
    using lookupIPCBuffer_ok [OF slots R(1)] lookupIPCBuffer_ok [OF slots S(1)] by blast+
  ultimately show ?thesis
    using e S R v prio b ep_tail(1) [OF ok e(1)] entry_okD(6) [OF ok] unfolding reply_direct_def
    by (intro exI [of _ pv]) (simp del: not_None_eq)
qed

lemma fastpath_reply_recv_result:
  assumes ok: "entry_ok s rq wq" and S: "tcbs s (ksCurThread s) = Some S"
  shows "map_option fp_view (fastpath_reply_recv fuel (tcbContext S capRegister) (tcbContext S msgInfoRegister) s) =
    map_option fp_view (slowpath fuel SysReplyRecv s)"
proof -
  let ?c = "ksCurThread s" and ?w = "tcbContext S msgInfoRegister" and ?slow = "slowpath fuel SysReplyRecv s"
  note slots = entry_okD(2) [OF ok] and dm = one_domain [OF ok]
  obtain root where root: "ctes s (TCB_PTR_CTE_PTR ?c tcbCTable) = Some root"
    using slots_okD(5) [OF slots, of ?c tcbCTable] S by auto
  obtain c where c: "lookup_fp (cte_cap root) (tcbContext S capRegister) s = Some c"
    using lookup_fp_lookupCap [OF entry_okD(3) [OF ok] root, of "tcbContext S capRegister"] by blast
  obtain x where x: "ctes s (TCB_PTR_CTE_PTR ?c tcbCaller) = Some x"
    using slots_okD(5) [OF slots, of ?c tcbCaller] S by auto
  have "tcbBoundNotification S = NULL \<or> (\<exists>n. ntfns s (tcbBoundNotification S) = Some n)"
    using ipc_invD(5) [OF entry_okD(1) [OF ok]] S unfolding bound_ok_def by blast
  then have "fastpath_signal_waits S s \<noteq> None" by (auto simp: fastpath_signal_waits_def)
  then obtain act where act: "fastpath_signal_waits S s = Some act" by blast
  then have act_iff: "\<not> act \<Longrightarrow> tcbBoundNotification S = NULL \<or>
      (\<exists>n. ntfns s (tcbBoundNotification S) = Some n \<and> ntfn_state n \<noteq> NtfnState_Active)"
    by (auto simp: fastpath_signal_waits_def bind_eq_Some_conv split: if_splits)
  show ?thesis
  proof (cases "\<not> (fastpath_mi_check ?w \<or> tcbFault S \<noteq> seL4_Fault_NullFault) \<and> \<not> act \<and>
      (\<exists>badge gr g sd p. c = cap_endpoint_cap badge gr g sd True p)")
    case False
    then show ?thesis using S root c act by (auto simp: fastpath_reply_recv_def Let_def split: cap_t.split)
  next
    case True
    then obtain badge gr cg sd p where cap: "c = cap_endpoint_cap badge gr cg sd True p"
      and w: "\<not> fastpath_mi_check ?w" "tcbFault S = seL4_Fault_NullFault" and nact: "\<not> act" by blast
    obtain slot where l: "lookupCap ?c (tcbContext S capRegister) s = Some ((EXCEPTION_NONE, c), s)"
      "\<exists>x. ctes s slot = Some x \<and> cte_cap x = c"
      by (rule lookup_fp_slow [OF ok root c]) (use cap in auto)
    from l(2) endpoint_live [OF ok] cap obtain e where e: "eps s p = Some e" by blast
    show ?thesis
    proof (cases "ep_state e \<noteq> EPState_Send \<and> fastpath_reply_cap_check (cte_cap x)")
      case False
      then show ?thesis using S root c cap w e x act nact by (auto simp: fastpath_reply_recv_def Let_def)
    next
      case go1: True
      then obtain g m r where rc: "cte_cap x = cap_reply_cap g m r"
        by (cases "cte_cap x") (auto simp: fastpath_reply_cap_check_def)
      obtain R where R: "tcbs s r = Some R"
        using entry_okD(4) [OF ok, unfolded reply_slots_ok_def] S x rc by blast
      obtain vt where vt: "ctes s (TCB_PTR_CTE_PTR r tcbVTable) = Some vt"
        using slots_okD(5) [OF slots, of r tcbVTable] R by auto
      let ?asid = "capVSMappedASID (cte_cap vt)" and ?pd = "capVSBasePtr (cte_cap vt)"
      obtain am where am: "findMapForASID ?asid s = Some am" using findMapForASID_live [OF ok] by blast
      obtain hp where hp: "isHighestPrio (ksCurDomain s) (tcbPriority R) s = Some hp"
        using isHighestPrio_ok [OF entry_okD(8) [OF ok]] by blast
      note known = S root c cap w e x act nact go1 rc R vt am hp
      show ?thesis
      proof (cases "tcbFault R = seL4_Fault_NullFault \<and> isValidVTableRoot_fp (cte_cap vt) \<and> am = asid_map_vspace ?pd \<and>
          hp \<and> \<not> (tcbDomain R \<noteq> ksCurDomain s \<and> numDomains s > 1)")
        case False
        then show ?thesis using known by (auto simp: fastpath_reply_recv_def Let_def dm(1))
      next
        case go: True
        have v: "vspace_of s r ?asid ?pd" using go vt am by (auto simp: vspace_of_def)
        from reply_directI [OF ok e _ S w(2) w(1) act_iff [OF nact] x rc R _ dm(2) [OF R] v] go1 go hp
        obtain pv where k: "reply_direct p g r pv ?w ?asid ?pd e S R s" by auto
        have a: "?asid AND 0xffff = ?asid"
          using entry_okD(5) [OF ok] vt go by (auto simp: asids_fit_def)
        have "fastpath_reply_recv fuel (tcbContext S capRegister) ?w s =
            fastpath_reply_recv_commit (messageInfoFromWord_raw ?w) cg p r ?pd ?asid s"
          using known go by (auto simp: fastpath_reply_recv_def Let_def dm(1))
        moreover have "?slow = Some (replied_and_received p cg r pv ?w ?asid ?pd e S R s)"
          by (rule slow_reply_recv [OF k slots l(1) [unfolded cap]])
        ultimately show ?thesis using fast_reply_commit [OF k a, of cg] by simp
      qed
    qed
  qed
qed

section \<open>Properties\<close>

text \<open>C9: the fast path of \<^verbatim>\<open>seL4_ReplyRecv\<close> is equivalent to the slow path. In every state of the invariant at the entry to
  the kernel, whatever capability the server names and whatever reply capability it has been given,
  \<open>fastpath_reply_recv\<close> ends in the same state as the reply, the deletion of the reply capability, the wait on the endpoint and the
  scheduling decision of \<open>handleReply\<close>, \<open>handleRecv\<close> and \<open>schedule\<close>. What is not compared is what
  \<open>fastpath_call_equivalent\<close> does not compare.\<close>

theorem fastpath_reply_recv_equivalent:
  assumes "entry_ok s rq wq" and "tcbs s (ksCurThread s) = Some S"
  shows "map_option fp_view (fastpath_reply_recv fuel (tcbContext S capRegister) (tcbContext S msgInfoRegister) s) =
    map_option fp_view (slowpath fuel SysReplyRecv s)"
  using assms by (rule fastpath_reply_recv_result)

theorem fastpath_reply_recv_equivalent_witness:
  "map_option fp_view (fastpath_reply_recv 0 0 0 fp_state) = map_option fp_view (slowpath 0 SysReplyRecv fp_state)"
proof -
  have "tcbs fp_state (ksCurThread fp_state) = Some (waiter ThreadState_Running 0 0 0 0)"
    by (simp add: fp_state_sel ipc_threads_def)
  from fastpath_reply_recv_equivalent [OF fp_state_ok this, of 0] show ?thesis
    by (simp add: waiter_def blank_tcb_def)
qed

end
