(* ===== verification/Boot_Regions.thy ===== *)
theory Boot_Regions
  imports Syscalls
begin

text \<open>
  The book-keeping of physical memory during boot (\<^verbatim>\<open>src/kernel/boot.c\<close>): the table
  \<^verbatim>\<open>ndks_boot.reserved\<close> of physical regions that must not become device untyped memory, and
  the table \<^verbatim>\<open>ndks_boot.freemem\<close> of regions that become untyped memory. The tables are arrays
  of fixed size: lists whose length is the size, with \<open>None\<close> for an access out of bounds. The
  lemmas relate the loops over the arrays to functions on lists, and the lists to the set of
  addresses they cover.
\<close>

section \<open>Regions\<close>

record region_t =
  rstart :: word_t
  rend :: word_t

text \<open>The C code has one type for each kind of address, of the same layout.\<close>

type_synonym p_region_t = region_t
type_synonym v_region_t = region_t

definition REG_EMPTY :: region_t where
  "REG_EMPTY = \<lparr>rstart = 0, rend = 0\<rparr>"

definition is_reg_empty :: "region_t \<Rightarrow> bool" where
  "is_reg_empty reg \<longleftrightarrow> rstart reg = rend reg"

definition PPTR_BASE :: word_t where "PPTR_BASE = 0xffffff8000000000"
definition PPTR_TOP :: word_t where "PPTR_TOP = 0xffffffffc0000000"
definition PADDR_BASE :: word_t where "PADDR_BASE = 0"
definition PPTR_BASE_OFFSET :: word_t where "PPTR_BASE_OFFSET = PPTR_BASE - PADDR_BASE"
definition PADDR_TOP :: word_t where "PADDR_TOP = PPTR_TOP - PPTR_BASE_OFFSET"

definition ptrFromPAddr :: "word_t \<Rightarrow> ptr" where
  "ptrFromPAddr paddr = paddr + PPTR_BASE_OFFSET"

definition addrFromPPtr :: "ptr \<Rightarrow> word_t" where
  "addrFromPPtr pptr = pptr - PPTR_BASE_OFFSET"

definition paddr_to_pptr_reg :: "p_region_t \<Rightarrow> region_t" where
  "paddr_to_pptr_reg reg = \<lparr>rstart = ptrFromPAddr (rstart reg), rend = ptrFromPAddr (rend reg)\<rparr>"

definition pptr_to_paddr_reg :: "region_t \<Rightarrow> p_region_t" where
  "pptr_to_paddr_reg reg = \<lparr>rstart = addrFromPPtr (rstart reg), rend = addrFromPPtr (rend reg)\<rparr>"

text \<open>The addresses \<open>[start..end)\<close> of a region that does not wrap, and of a list of regions.\<close>

definition addrs :: "region_t \<Rightarrow> word_t set" where
  "addrs reg = {a. rstart reg \<le> a \<and> a < rend reg}"

definition covered :: "region_t list \<Rightarrow> word_t set" where
  "covered rs = (\<Union>reg \<in> set rs. addrs reg)"

lemma covered_simps [simp]:
  "covered [] = {}" "covered (x # xs) = addrs x \<union> covered xs" "covered (xs @ ys) = covered xs \<union> covered ys"
  by (auto simp: covered_def)

lemma addrs_empty: "rend x \<le> rstart x \<Longrightarrow> addrs x = {}"
  by (auto simp: addrs_def)

lemma addrs_extend:
  "rend x = rstart y \<Longrightarrow> rstart x < rend x \<Longrightarrow> rstart y < rend y \<Longrightarrow>
   addrs (x\<lparr>rend := rend y\<rparr>) = addrs x \<union> addrs y"
  "rend x = rstart y \<Longrightarrow> rstart x < rend x \<Longrightarrow> rstart y < rend y \<Longrightarrow>
   addrs (y\<lparr>rstart := rstart x\<rparr>) = addrs x \<union> addrs y"
  by (auto simp: addrs_def)

section \<open>The state of booting\<close>

text \<open>\<^verbatim>\<open>ndks_boot_t\<close> without the pointer to the boot information frame, which the
  operations here do not use.\<close>

record ndks_boot_t =
  reserved :: "p_region_t list"
  resv_count :: nat
  freemem :: "region_t list"
  slot_pos_cur :: word_t

text \<open>Arrays: an access out of bounds is not defined.\<close>

definition arr_get :: "'a list \<Rightarrow> nat \<Rightarrow> 'a option" where
  "arr_get xs i = (if i < length xs then Some (xs ! i) else None)"

definition arr_set :: "'a list \<Rightarrow> nat \<Rightarrow> 'a \<Rightarrow> 'a list option" where
  "arr_set xs i v = (if i < length xs then Some (xs[i := v]) else None)"

lemma arr_ok [simp]:
  "i < length xs \<Longrightarrow> arr_get xs i = Some (xs ! i)"
  "i < length xs \<Longrightarrow> arr_set xs i v = Some (xs[i := v])"
  by (simp_all add: arr_get_def arr_set_def)

section \<open>Reserving a region\<close>

function shift_down :: "nat \<Rightarrow> nat \<Rightarrow> 'a list \<Rightarrow> 'a list option" where
  "shift_down j n xs =
     (if j < n then
        do { x \<leftarrow> arr_get xs j;
             xs \<leftarrow> arr_set xs (j - 1) x;
             shift_down (Suc j) n xs }
      else Some xs)"
  by pat_completeness auto
termination by (relation "measure (\<lambda>(j, n, xs). n - j)") auto

function shift_up :: "nat \<Rightarrow> nat \<Rightarrow> 'a list \<Rightarrow> 'a list option" where
  "shift_up j i xs =
     (if i < j then
        do { x \<leftarrow> arr_get xs (j - 1);
             xs \<leftarrow> arr_set xs j x;
             shift_up (j - 1) i xs }
      else Some xs)"
  by pat_completeness auto
termination by (relation "measure (\<lambda>(j, i, xs). j - i)") auto

function merge_loop :: "nat \<Rightarrow> ndks_boot_t \<Rightarrow> ndks_boot_t option" where
  "merge_loop i s =
     (if i < resv_count s then
        do { p \<leftarrow> arr_get (reserved s) (i - 1);
             q \<leftarrow> arr_get (reserved s) i;
             if rend p = rstart q then
               do { xs \<leftarrow> arr_set (reserved s) (i - 1) (p\<lparr>rend := rend q\<rparr>);
                    xs \<leftarrow> shift_down (Suc i) (resv_count s) xs;
                    merge_loop i (s\<lparr>reserved := xs, resv_count := resv_count s - 1\<rparr>) }
             else merge_loop (Suc i) s }
      else Some s)"
  by pat_completeness auto
termination by (relation "measure (\<lambda>(i, s). resv_count s - i)") auto

definition merge_regions :: "ndks_boot_t \<Rightarrow> ndks_boot_t option" where
  "merge_regions s = merge_loop 1 s"

declare shift_down.simps [simp del] shift_up.simps [simp del] merge_loop.simps [simp del]

function reserve_loop :: "nat \<Rightarrow> p_region_t \<Rightarrow> ndks_boot_t \<Rightarrow> (bool \<times> ndks_boot_t) option" where
  "reserve_loop i reg s =
     (if i < resv_count s then
        do { e \<leftarrow> arr_get (reserved s) i;
             if rstart e = rend reg then
               do { xs \<leftarrow> arr_set (reserved s) i (e\<lparr>rstart := rstart reg\<rparr>);
                    s \<leftarrow> merge_regions (s\<lparr>reserved := xs\<rparr>);
                    Some (True, s) }
             else if rend e = rstart reg then
               do { xs \<leftarrow> arr_set (reserved s) i (e\<lparr>rend := rend reg\<rparr>);
                    s \<leftarrow> merge_regions (s\<lparr>reserved := xs\<rparr>);
                    Some (True, s) }
             else if rstart e > rend reg then
               if resv_count s + 1 \<ge> length (reserved s) then Some (False, s)
               else
                 do { xs \<leftarrow> shift_up (resv_count s) i (reserved s);
                      xs \<leftarrow> arr_set xs i reg;
                      Some (True, s\<lparr>reserved := xs, resv_count := resv_count s + 1\<rparr>) }
             else reserve_loop (Suc i) reg s }
      else if i + 1 = length (reserved s) then Some (False, s)
      else
        do { xs \<leftarrow> arr_set (reserved s) i reg;
             Some (True, s\<lparr>reserved := xs, resv_count := resv_count s + 1\<rparr>) })"
  by pat_completeness auto
termination by (relation "measure (\<lambda>(i, reg, s). resv_count s - i)") auto

declare reserve_loop.simps [simp del]

definition reserve_region :: "p_region_t \<Rightarrow> ndks_boot_t \<Rightarrow> (bool \<times> ndks_boot_t) option" where
  "reserve_region reg s =
     do { assert_opt (rstart reg \<le> rend reg);
          if rstart reg = rend reg then Some (True, s) else reserve_loop 0 reg s }"

section \<open>Inserting a region of free memory\<close>

function insert_loop :: "nat \<Rightarrow> region_t \<Rightarrow> ndks_boot_t \<Rightarrow> (bool \<times> ndks_boot_t) option" where
  "insert_loop i reg s =
     (if i < length (freemem s) then
        if is_reg_empty (freemem s ! i) then
          do { (_, s) \<leftarrow> reserve_region (pptr_to_paddr_reg reg) s;
               Some (True, s\<lparr>freemem := (freemem s)[i := reg]\<rparr>) }
        else insert_loop (Suc i) reg s
      else None)"
  by pat_completeness auto
termination by (relation "measure (\<lambda>(i, reg, s). length (freemem s) - i)") auto

declare insert_loop.simps [simp del]

definition insert_region :: "region_t \<Rightarrow> ndks_boot_t \<Rightarrow> (bool \<times> ndks_boot_t) option" where
  "insert_region reg s =
     do { assert_opt (rstart reg \<le> rend reg);
          if is_reg_empty reg then Some (True, s) else insert_loop 0 reg s }"

section \<open>The arrays as lists\<close>

text \<open>The entries in use, and the merge of adjacent entries as a function on the list.\<close>

definition resv :: "ndks_boot_t \<Rightarrow> region_t list" where
  "resv s = take (resv_count s) (reserved s)"

fun merge_list :: "region_t list \<Rightarrow> region_t list" where
  "merge_list (x # y # ys) =
     (if rend x = rstart y then merge_list (x\<lparr>rend := rend y\<rparr> # ys) else x # merge_list (y # ys))"
| "merge_list xs = xs"

lemma take_update_mid:
  "i < n \<Longrightarrow> n \<le> length xs \<Longrightarrow> take n (xs[i := e]) = take i xs @ e # drop (Suc i) (take n xs)"
  by (simp only: take_update_swap) (simp add: upd_conv_take_nth_drop)

lemma merge_list_short: "length xs \<le> 1 \<Longrightarrow> merge_list xs = xs"
  by (cases xs rule: merge_list.cases) auto

lemma shift_down_list:
  "1 \<le> j \<Longrightarrow> j \<le> n \<Longrightarrow> n \<le> length xs \<Longrightarrow>
   \<exists>ys. shift_down j n xs = Some ys \<and> length ys = length xs \<and>
        take (n - 1) ys = take (j - 1) xs @ drop j (take n xs)"
proof (induction j n xs rule: shift_down.induct)
  case (1 j n xs)
  show ?case
  proof (cases "j < n")
    case False
    with 1 have "j = n" by simp
    with 1 show ?thesis by (auto simp: shift_down.simps [of n n])
  next
    case True
    let ?xs = "xs[j - 1 := xs ! j]"
    from True 1 have "\<exists>ys. shift_down (Suc j) n ?xs = Some ys \<and> length ys = length ?xs \<and>
        take (n - 1) ys = take j ?xs @ drop (Suc j) (take n ?xs)"
      using "1.IH" [of "xs ! j" ?xs] by simp
    moreover have "take j ?xs = take (j - 1) xs @ [xs ! j]"
      using 1 True by (cases j) (auto simp: take_Suc_conv_app_nth)
    moreover have "drop (Suc j) (take n ?xs) = drop (Suc j) (take n xs)"
      using 1 True by (auto simp: take_update_swap drop_update_cancel)
    moreover have "drop j (take n xs) = xs ! j # drop (Suc j) (take n xs)"
      using 1 True by (simp add: Cons_nth_drop_Suc [symmetric])
    ultimately show ?thesis
      using 1 True by (auto simp: shift_down.simps [of j n])
  qed
qed

lemma shift_up_list:
  "i \<le> j \<Longrightarrow> j < length xs \<Longrightarrow>
   \<exists>ys. shift_up j i xs = Some ys \<and> length ys = length xs \<and>
        take i ys = take i xs \<and> drop (Suc i) (take (Suc j) ys) = drop i (take j xs)
        \<and> drop (Suc j) ys = drop (Suc j) xs"
proof (induction j i xs rule: shift_up.induct)
  case (1 j i xs)
  show ?case
  proof (cases "i < j")
    case False
    with 1 have "i = j" by simp
    with 1 show ?thesis by (auto simp: shift_up.simps [of j j])
  next
    case True
    let ?xs = "xs[j := xs ! (j - 1)]"
    from True 1 have "i \<le> j - 1" "j - 1 < length xs" by simp_all
    then obtain ys where ys: "shift_up (j - 1) i ?xs = Some ys" "length ys = length xs"
      "take i ys = take i ?xs" "drop (Suc i) (take j ys) = drop i (take (j - 1) ?xs)"
      "drop j ys = drop j ?xs"
      using "1.IH" [of "xs ! (j - 1)" ?xs] True "1.prems" by (auto simp: Suc_pred)
    have "ys ! j = xs ! (j - 1)"
      using ys(5) 1 ys(2) by (metis Cons_nth_drop_Suc length_list_update list.inject nth_list_update_eq)
    then have "drop (Suc i) (take (Suc j) ys) = drop (Suc i) (take j ys) @ [xs ! (j - 1)]"
      using 1 True ys(2) by (simp add: take_Suc_conv_app_nth)
    also have "\<dots> = drop i (take (j - 1) xs) @ [xs ! (j - 1)]"
      using ys(4) by simp
    also have "\<dots> = drop i (take j xs)"
      using 1 True by (cases j) (auto simp: take_Suc_conv_app_nth)
    finally have "drop (Suc i) (take (Suc j) ys) = drop i (take j xs)" .
    moreover have "drop (Suc j) ys = drop (Suc j) xs"
      using arg_cong [OF ys(5), of "drop 1"] by (simp add: drop_update_cancel)
    ultimately show ?thesis
      using 1 True ys by (auto simp: shift_up.simps [of j i])
  qed
qed

lemma merge_loop_list:
  "1 \<le> i \<Longrightarrow> resv_count s \<le> length (reserved s) \<Longrightarrow>
   \<exists>s'. merge_loop i s = Some s' \<and> length (reserved s') = length (reserved s) \<and>
        resv_count s' \<le> resv_count s \<and> resv s' = take (i - 1) (resv s) @ merge_list (drop (i - 1) (resv s)) \<and>
        s' = s\<lparr>reserved := reserved s', resv_count := resv_count s'\<rparr>"
proof (induction i s rule: merge_loop.induct)
  case (1 i s)
  let ?n = "resv_count s" and ?xs = "reserved s"
  show ?case
  proof (cases "i < ?n")
    case False
    have "length (drop (i - 1) (resv s)) \<le> 1"
      using False 1 by (simp add: resv_def)
    then have "merge_list (drop (i - 1) (resv s)) = drop (i - 1) (resv s)"
      by (rule merge_list_short)
    with False show ?thesis
      using 1 by (auto simp: merge_loop.simps [of i])
  next
    case True
    let ?p = "?xs ! (i - 1)" and ?q = "?xs ! i"
    have at: "drop (i - 1) (resv s) = ?p # ?q # drop (Suc i) (resv s)"
      using True 1 by (cases i) (simp_all add: resv_def Cons_nth_drop_Suc [symmetric])
    show ?thesis
    proof (cases "rend ?p = rstart ?q")
      case False
      have tk: "take i (resv s) = take (i - 1) (resv s) @ [?p]"
        using True 1 by (cases i) (simp_all add: resv_def take_Suc_conv_app_nth)
      have dr: "drop i (resv s) = ?q # drop (Suc i) (resv s)"
        using True 1 by (simp add: resv_def Cons_nth_drop_Suc [symmetric])
      obtain s' where "merge_loop (Suc i) s = Some s'" "length (reserved s') = length ?xs"
        "resv_count s' \<le> ?n" "resv s' = take i (resv s) @ merge_list (drop i (resv s))"
        "s' = s\<lparr>reserved := reserved s', resv_count := resv_count s'\<rparr>"
        using "1.IH"(2) [OF True, of ?p ?q] 1 True False by auto
      then show ?thesis
        using True False 1 at tk dr by (auto simp: merge_loop.simps [of i])
    next
      case adj: True
      let ?ys = "?xs[i - 1 := ?p\<lparr>rend := rend ?q\<rparr>]"
      obtain zs where zs: "shift_down (Suc i) ?n ?ys = Some zs" "length zs = length ?xs"
        "take (?n - 1) zs = take i ?ys @ drop (Suc i) (take ?n ?ys)"
        using shift_down_list [of "Suc i" ?n ?ys] True 1 by auto
      let ?s = "s\<lparr>reserved := zs, resv_count := ?n - 1\<rparr>"
      have "take i ?ys = take (i - 1) (resv s) @ [?p\<lparr>rend := rend ?q\<rparr>]"
        using True 1 by (cases i) (auto simp: resv_def take_Suc_conv_app_nth)
      moreover have "drop (Suc i) (take ?n ?ys) = drop (Suc i) (resv s)"
        using True 1 by (auto simp: resv_def take_update_swap drop_update_cancel)
      ultimately have rs: "resv ?s = take (i - 1) (resv s) @ ?p\<lparr>rend := rend ?q\<rparr> # drop (Suc i) (resv s)"
        using zs(3) by (simp add: resv_def)
      have len: "length (take (i - 1) (resv s)) = i - 1"
        using True 1 by (simp add: resv_def)
      have "?n - 1 \<le> length ?xs" using 1 by simp
      then obtain s' where "merge_loop i ?s = Some s'" "length (reserved s') = length ?xs"
        "resv_count s' \<le> ?n - 1" "resv s' = take (i - 1) (resv ?s) @ merge_list (drop (i - 1) (resv ?s))"
        "s' = ?s\<lparr>reserved := reserved s', resv_count := resv_count s'\<rparr>"
        using "1.IH"(1) [OF True, of ?p ?q ?ys zs] 1 True adj zs by auto
      then show ?thesis
        using True adj 1 at zs rs len by (auto simp: merge_loop.simps [of i])
    qed
  qed
qed

lemma merge_regions_list:
  assumes "resv_count s \<le> length (reserved s)"
  obtains s' where "merge_regions s = Some s'" and "length (reserved s') = length (reserved s)"
    and "resv_count s' \<le> resv_count s" and "resv s' = merge_list (resv s)"
    and "s' = s\<lparr>reserved := reserved s', resv_count := resv_count s'\<rparr>"
  using merge_loop_list [of 1 s] assms by (auto simp: merge_regions_def)

section \<open>The table of reserved regions stays ordered\<close>

text \<open>\<open>touching\<close>: non-empty regions in order, not overlapping, perhaps adjacent. \<open>apart\<close>: with a gap
  between any two, the state of the table between the operations.\<close>

definition regions_by :: "(word_t \<Rightarrow> word_t \<Rightarrow> bool) \<Rightarrow> region_t list \<Rightarrow> bool" where
  "regions_by R rs \<longleftrightarrow> (\<forall>x \<in> set rs. rstart x < rend x) \<and> sorted_wrt (\<lambda>x y. R (rend x) (rstart y)) rs"

abbreviation touching :: "region_t list \<Rightarrow> bool" where "touching \<equiv> regions_by (\<le>)"
abbreviation apart :: "region_t list \<Rightarrow> bool" where "apart \<equiv> regions_by (<)"

lemma regions_by_simps [simp]:
  "regions_by R []"
  "regions_by R (x # xs) \<longleftrightarrow> rstart x < rend x \<and> (\<forall>y \<in> set xs. R (rend x) (rstart y)) \<and> regions_by R xs"
  by (auto simp: regions_by_def)

lemma regions_by_append:
  "regions_by R (xs @ ys) \<longleftrightarrow>
     regions_by R xs \<and> regions_by R ys \<and> (\<forall>x \<in> set xs. \<forall>y \<in> set ys. R (rend x) (rstart y))"
  by (auto simp: regions_by_def sorted_wrt_append)

lemma apart_touching: "apart rs \<Longrightarrow> touching rs"
  by (induction rs) (auto intro: less_imp_le)

lemma merge_list_start: "r \<in> set (merge_list xs) \<Longrightarrow> \<exists>x \<in> set xs. rstart r = rstart x"
  by (induction xs rule: merge_list.induct) (auto split: if_splits)

lemma merge_list_apart:
  assumes "touching xs"
  shows "apart (merge_list xs) \<and> covered (merge_list xs) = covered xs"
  using assms
proof (induction xs rule: merge_list.induct)
  case (1 x y ys)
  show ?case
  proof (cases "rend x = rstart y")
    case True
    let ?xy = "x\<lparr>rend := rend y\<rparr>"
    have "touching (?xy # ys)"
      using "1.prems" True by auto
    moreover have "addrs ?xy = addrs x \<union> addrs y"
      using "1.prems" True by (simp add: addrs_extend)
    ultimately show ?thesis
      using "1.IH"(1) [OF True] True by auto
  next
    case False
    have "rend x < rstart r" if "r \<in> set (merge_list (y # ys))" for r
      using merge_list_start [OF that] "1.prems" False by fastforce
    then show ?thesis
      using "1.IH"(2) [OF False] "1.prems" False by auto
  qed
qed auto

lemma addrs_disjoint:
  assumes "rstart x < rend x" and "rstart y < rend y" and "addrs x \<inter> addrs y = {}"
  shows "rend x \<le> rstart y \<or> rend y \<le> rstart x"
proof (rule ccontr)
  assume not: "\<not> ?thesis"
  from linear [of "rstart x" "rstart y"] show False
  proof
    assume "rstart x \<le> rstart y"
    with not assms(2) have "rstart y \<in> addrs x \<inter> addrs y" by (simp add: addrs_def not_le)
    with assms(3) show False by simp
  next
    assume "rstart y \<le> rstart x"
    with not assms(1) have "rstart x \<in> addrs x \<inter> addrs y" by (simp add: addrs_def not_le)
    with assms(3) show False by simp
  qed
qed

lemma covered_disjoint:
  assumes "x \<in> set rs" and "rstart x < rend x" and "rstart reg < rend reg" and "addrs reg \<inter> covered rs = {}"
  shows "rend x \<le> rstart reg \<or> rend reg \<le> rstart x"
  using assms addrs_disjoint [of x reg] by (auto simp: covered_def)

text \<open>What reserving a region promises: the table stays ordered, covers the region as well, and
  grows by at most one entry; or nothing changes and the table was full.\<close>

definition reserved_as :: "ndks_boot_t \<Rightarrow> region_t \<Rightarrow> bool \<Rightarrow> ndks_boot_t \<Rightarrow> bool" where
  "reserved_as s reg ok s' \<longleftrightarrow>
     s' = s\<lparr>reserved := reserved s', resv_count := resv_count s'\<rparr> \<and>
     length (reserved s') = length (reserved s) \<and> resv_count s' \<le> resv_count s + 1 \<and>
     resv_count s' < length (reserved s') \<and> apart (resv s') \<and>
     (if ok then covered (resv s') = covered (resv s) \<union> addrs reg
      else s' = s \<and> resv_count s + 1 = length (reserved s))"

lemma reserve_merge:
  assumes "resv_count s < length (reserved s)" and "length xs = length (reserved s)"
    and "touching (take (resv_count s) xs)"
    and "covered (take (resv_count s) xs) = covered (resv s) \<union> addrs reg"
  shows "\<exists>s'. merge_regions (s\<lparr>reserved := xs\<rparr>) = Some s' \<and> reserved_as s reg True s'"
proof -
  let ?t = "s\<lparr>reserved := xs\<rparr>"
  have rs: "resv ?t = take (resv_count s) xs" by (simp add: resv_def)
  obtain s' where s': "merge_regions ?t = Some s'" "length (reserved s') = length xs"
    "resv_count s' \<le> resv_count s" "resv s' = merge_list (resv ?t)"
    "s' = ?t\<lparr>reserved := reserved s', resv_count := resv_count s'\<rparr>"
    by (rule merge_regions_list [of ?t]) (use assms in auto)
  have "apart (resv s')" "covered (resv s') = covered (resv s) \<union> addrs reg"
    using merge_list_apart [of "resv ?t"] assms s' rs by auto
  with s' assms show ?thesis by (auto simp: reserved_as_def)
qed

lemma reserve_loop_correct:
  assumes "apart (resv s)" and "resv_count s < length (reserved s)" and "rstart reg < rend reg"
    and "addrs reg \<inter> covered (resv s) = {}" and "i \<le> resv_count s"
    and "\<And>x. x \<in> set (take i (resv s)) \<Longrightarrow> rend x < rstart reg"
  shows "\<exists>ok s'. reserve_loop i reg s = Some (ok, s') \<and> reserved_as s reg ok s'"
  using assms
proof (induction i reg s rule: reserve_loop.induct)
  case (1 i reg s)
  let ?n = "resv_count s" and ?xs = "reserved s"
  let ?pre = "take i (resv s)"
  have len: "length (resv s) = ?n" using "1.prems" by (simp add: resv_def)
  show ?case
  proof (cases "i < ?n")
    case False
    then have i: "i = ?n" using "1.prems" by simp
    then have pre: "?pre = resv s" using len by simp
    let ?s = "s\<lparr>reserved := ?xs[i := reg], resv_count := Suc ?n\<rparr>"
    have rs: "resv ?s = resv s @ [reg]"
      using i "1.prems" by (simp add: resv_def take_Suc_conv_app_nth)
    have ap: "apart (resv ?s)"
      using "1.prems"(1,3,6) pre unfolding rs by (simp add: regions_by_append)
    show ?thesis
    proof (cases "i + 1 = length ?xs")
      case True
      with False i "1.prems" show ?thesis
        by (intro exI [of _ False]) (simp add: reserve_loop.simps [of i] reserved_as_def)
    next
      case room: False
      then have "reserved_as s reg True ?s"
        using i ap rs "1.prems"(2) by (simp add: reserved_as_def)
      with room False i "1.prems"(2) show ?thesis
        by (intro exI [of _ True] exI [of _ ?s]) (simp add: reserve_loop.simps [of "resv_count s"])
    qed
  next
    case True
    let ?e = "?xs ! i" and ?post = "drop (Suc i) (resv s)"
    have split: "resv s = ?pre @ ?e # ?post"
      using True len "1.prems" by (metis id_take_nth_drop nth_take resv_def)
    have cov: "covered (resv s) = covered ?pre \<union> (addrs ?e \<union> covered ?post)"
      by (subst split) simp
    have upd: "take ?n (?xs[i := e]) = ?pre @ e # ?post" for e
      using True "1.prems"
      by (simp add: resv_def take_update_mid)
    have all: "apart (?pre @ ?e # ?post)" using "1.prems"(1) split by simp
    have e: "rstart ?e < rend ?e"
      using all by (simp add: regions_by_append)
    have mem: "?e \<in> set (resv s)"
      by (subst split) simp
    have after: "rend reg \<le> rstart y" if "y \<in> set ?post" "rstart reg \<le> rend ?e" for y
    proof -
      from that(1) have y: "y \<in> set (resv s)" by (rule in_set_dropD)
      with "1.prems"(1) have "rstart y < rend y" by (simp add: regions_by_def)
      moreover from all that(1) have "rend ?e < rstart y" by (simp add: regions_by_append)
      ultimately show ?thesis
        using covered_disjoint [OF y _ "1.prems"(3,4)] that(2) by auto
    qed
    consider (below) "rstart ?e = rend reg" | (above) "rstart ?e \<noteq> rend reg" "rend ?e = rstart reg"
      | (new) "rstart ?e \<noteq> rend reg" "rend ?e \<noteq> rstart reg" "rend reg < rstart ?e"
      | (skip) "rstart ?e \<noteq> rend reg" "rend ?e \<noteq> rstart reg" "\<not> rend reg < rstart ?e"
      by blast
    then show ?thesis
    proof cases
      case below
      let ?e' = "?e\<lparr>rstart := rstart reg\<rparr>"
      have "touching (?pre @ ?e' # ?post)"
        using apart_touching [OF all] "1.prems"(3,6) e below by (auto simp: regions_by_append less_imp_le)
      moreover have "addrs ?e' = addrs reg \<union> addrs ?e"
        using addrs_extend(2) [of reg ?e] below "1.prems"(3) e by simp
      then have "covered (?pre @ ?e' # ?post) = covered (resv s) \<union> addrs reg"
        by (auto simp: cov)
      ultimately obtain s' where "merge_regions (s\<lparr>reserved := ?xs[i := ?e']\<rparr>) = Some s'"
        and "reserved_as s reg True s'"
        using reserve_merge [of s "?xs[i := ?e']" reg] "1.prems"(2) upd by auto
      with below True "1.prems"(2) show ?thesis by (auto simp: reserve_loop.simps [of i])
    next
      case above
      let ?e' = "?e\<lparr>rend := rend reg\<rparr>"
      have "touching (?pre @ ?e' # ?post)"
        using apart_touching [OF all] "1.prems"(3,6) e above after by (auto simp: regions_by_append less_imp_le)
      moreover have "addrs ?e' = addrs ?e \<union> addrs reg"
        using addrs_extend(1) [of ?e reg] above "1.prems"(3) e by simp
      then have "covered (?pre @ ?e' # ?post) = covered (resv s) \<union> addrs reg"
        by (auto simp: cov)
      ultimately obtain s' where "merge_regions (s\<lparr>reserved := ?xs[i := ?e']\<rparr>) = Some s'"
        and "reserved_as s reg True s'"
        using reserve_merge [of s "?xs[i := ?e']" reg] "1.prems"(2) upd by auto
      with above True "1.prems"(2) show ?thesis by (auto simp: reserve_loop.simps [of i])
    next
      case new
      show ?thesis
      proof (cases "?n + 1 \<ge> length ?xs")
        case full: True
        with new True "1.prems" show ?thesis
          by (auto simp: reserve_loop.simps [of i] reserved_as_def)
      next
        case room: False
        obtain ys where ys: "shift_up ?n i ?xs = Some ys" "length ys = length ?xs"
          "take i ys = take i ?xs" "drop (Suc i) (take (Suc ?n) ys) = drop i (take ?n ?xs)"
          using shift_up_list [of i ?n ?xs] True "1.prems"(2) by auto
        let ?s = "s\<lparr>reserved := ys[i := reg], resv_count := Suc ?n\<rparr>"
        have "resv ?s = take i ys @ reg # drop (Suc i) (take (Suc ?n) ys)"
          using True ys(2) "1.prems"(2) by (simp add: resv_def take_update_mid)
        also have "take i ys = ?pre"
          using ys(3) True by (simp add: resv_def)
        also have "drop (Suc i) (take (Suc ?n) ys) = ?e # ?post"
          using ys(4) True "1.prems"(2) by (simp add: resv_def Cons_nth_drop_Suc [symmetric])
        finally have rs: "resv ?s = ?pre @ reg # ?e # ?post" .
        have "apart (resv ?s)"
          unfolding rs using all "1.prems"(3,6) e new
          by (auto simp: regions_by_append)
        moreover have "covered (resv ?s) = covered (resv s) \<union> addrs reg"
          unfolding rs by (auto simp: cov)
        ultimately show ?thesis
          using new True room ys "1.prems"(2)
          by (auto simp: reserve_loop.simps [of i] reserved_as_def)
      qed
    next
      case skip
      have "rend ?e < rstart reg"
        using covered_disjoint [OF mem e "1.prems"(3,4)] skip by auto
      then have "rend x < rstart reg" if "x \<in> set (take (Suc i) (resv s))" for x
        using that "1.prems"(6) True len
        by (auto simp: take_Suc_conv_app_nth resv_def)
      with skip True "1.prems" have "\<exists>ok s'. reserve_loop (Suc i) reg s = Some (ok, s') \<and> reserved_as s reg ok s'"
        by (intro "1.IH" [of ?e]) auto
      with skip True "1.prems"(2) show ?thesis by (auto simp: reserve_loop.simps [of i])
    qed
  qed
qed

lemma reserve_region_correct:
  assumes "apart (resv s)" and "resv_count s < length (reserved s)" and "rstart reg \<le> rend reg"
    and "addrs reg \<inter> covered (resv s) = {}"
  obtains ok s' where "reserve_region reg s = Some (ok, s')" and "reserved_as s reg ok s'"
proof (cases "rstart reg = rend reg")
  case True
  with assms addrs_empty [of reg] have "reserved_as s reg True s" by (simp add: reserved_as_def)
  with True show ?thesis by (intro that [of True s]) (simp_all add: reserve_region_def)
next
  case False
  with assms(3) have "rstart reg < rend reg" by simp
  with assms reserve_loop_correct [of s reg 0] obtain ok s' where
    "reserve_loop 0 reg s = Some (ok, s')" "reserved_as s reg ok s'" by auto
  with False assms(3) show ?thesis by (intro that) (auto simp: reserve_region_def)
qed

section \<open>Free memory is reserved\<close>

text \<open>Subtracting the offset of the kernel window keeps the order of the addresses above it.\<close>

lemma addrFromPPtr_mono:
  assumes "PPTR_BASE \<le> a" and "PPTR_BASE \<le> b"
  shows "addrFromPPtr a \<le> addrFromPPtr b \<longleftrightarrow> a \<le> b" "addrFromPPtr a < addrFromPPtr b \<longleftrightarrow> a < b"
proof -
  have off: "PPTR_BASE_OFFSET = PPTR_BASE" by (simp add: PPTR_BASE_OFFSET_def PADDR_BASE_def)
  have "unat (addrFromPPtr a) = unat a - unat PPTR_BASE" "unat (addrFromPPtr b) = unat b - unat PPTR_BASE"
    using assms by (simp_all add: addrFromPPtr_def off unat_sub)
  moreover have "unat PPTR_BASE \<le> unat a" "unat PPTR_BASE \<le> unat b"
    using assms by (simp_all add: word_le_nat_alt)
  ultimately show "addrFromPPtr a \<le> addrFromPPtr b \<longleftrightarrow> a \<le> b" "addrFromPPtr a < addrFromPPtr b \<longleftrightarrow> a < b"
    by (simp_all add: word_le_nat_alt word_less_nat_alt diff_less_mono2 less_diff_iff le_diff_iff)
qed

lemma ptrFromPAddr_inverse [simp]:
  "addrFromPPtr (ptrFromPAddr p) = p" "ptrFromPAddr (addrFromPPtr a) = a"
  by (simp_all add: addrFromPPtr_def ptrFromPAddr_def)

lemma inj_addrFromPPtr: "inj addrFromPPtr"
  by (metis injI ptrFromPAddr_inverse(2))

lemma window_below:
  assumes "PPTR_BASE \<le> e" and "p < addrFromPPtr e"
  shows "PPTR_BASE \<le> ptrFromPAddr p"
proof -
  have off: "PPTR_BASE_OFFSET = PPTR_BASE" by (simp add: PPTR_BASE_OFFSET_def PADDR_BASE_def)
  have "unat (addrFromPPtr e) = unat e - unat PPTR_BASE"
    using assms(1) by (simp add: addrFromPPtr_def off unat_sub)
  with assms(2) have "unat p + unat PPTR_BASE < unat e" by (simp add: word_less_nat_alt)
  with unsigned_less [where 'a = nat, of e] have "unat (ptrFromPAddr p) = unat p + unat PPTR_BASE"
    unfolding ptrFromPAddr_def off unat_word_ariths by (intro mod_less) linarith
  then show ?thesis by (simp add: word_le_nat_alt)
qed

lemma addrs_pptr_to_paddr:
  assumes "PPTR_BASE \<le> rstart reg" and "rstart reg \<le> rend reg"
  shows "addrs (pptr_to_paddr_reg reg) = addrFromPPtr ` addrs reg"
proof (intro subset_antisym subsetI)
  fix p assume "p \<in> addrs (pptr_to_paddr_reg reg)"
  then have p: "addrFromPPtr (rstart reg) \<le> addrFromPPtr (ptrFromPAddr p)"
    "addrFromPPtr (ptrFromPAddr p) < addrFromPPtr (rend reg)"
    by (simp_all add: addrs_def pptr_to_paddr_reg_def)
  have e: "PPTR_BASE \<le> rend reg" using assms by (rule order_trans)
  with p(2) have "PPTR_BASE \<le> ptrFromPAddr p" by (intro window_below) simp_all
  with p e assms(1) have "ptrFromPAddr p \<in> addrs reg" by (simp only: addrFromPPtr_mono addrs_def mem_Collect_eq)
  then show "p \<in> addrFromPPtr ` addrs reg" by (rule rev_image_eqI) simp
next
  fix p assume "p \<in> addrFromPPtr ` addrs reg"
  then obtain a where a: "p = addrFromPPtr a" "rstart reg \<le> a" "a < rend reg" by (auto simp: addrs_def)
  have "PPTR_BASE \<le> a" "PPTR_BASE \<le> rend reg" using assms a order_trans by blast+
  with a assms(1) show "p \<in> addrs (pptr_to_paddr_reg reg)"
    by (simp add: addrs_def pptr_to_paddr_reg_def addrFromPPtr_mono)
qed

text \<open>Reserving or inserting a region of the kernel window, with the free slots of the table of free
  regions after the used ones.\<close>

definition free_slots :: "ndks_boot_t \<Rightarrow> region_t list \<Rightarrow> nat \<Rightarrow> bool" where
  "free_slots s fs k \<longleftrightarrow> freemem s = fs @ replicate k REG_EMPTY \<and> (\<forall>x \<in> set fs. rstart x < rend x)"

lemma insert_loop_correct:
  assumes "free_slots s fs (Suc k)" and "i \<le> length fs"
    and "reserve_region (pptr_to_paddr_reg reg) s = Some (ok, s')" and "freemem s' = freemem s"
  shows "insert_loop i reg s = Some (True, s'\<lparr>freemem := fs @ reg # replicate k REG_EMPTY\<rparr>)"
  using assms
proof (induction "length fs - i" arbitrary: i)
  case 0
  then show ?case
    by (simp add: insert_loop.simps [of i] free_slots_def is_reg_empty_def REG_EMPTY_def nth_append list_update_append)
next
  case (Suc n)
  then have i: "i < length fs" by simp
  with Suc.prems(1) have "rstart (fs ! i) < rend (fs ! i)"
    by (simp only: free_slots_def) (blast intro: nth_mem)
  then have "rstart (fs ! i) \<noteq> rend (fs ! i)" by simp
  with i Suc.prems(1) have "\<not> is_reg_empty (freemem s ! i)" "i < length (freemem s)"
    by (simp_all add: free_slots_def is_reg_empty_def nth_append)
  moreover have "insert_loop (Suc i) reg s = Some (True, s'\<lparr>freemem := fs @ reg # replicate k REG_EMPTY\<rparr>)"
    by (rule Suc.hyps(1)) (use Suc i in auto)
  ultimately show ?case by (simp add: insert_loop.simps [of i])
qed

lemma insert_region_correct:
  assumes "free_slots s fs (Suc k)" and "apart (resv s)" and "resv_count s < length (reserved s)"
    and "PPTR_BASE \<le> rstart reg" and "rstart reg < rend reg"
    and "addrFromPPtr ` addrs reg \<inter> covered (resv s) = {}"
  obtains ok t where "insert_region reg s = Some (True, t\<lparr>freemem := fs @ reg # replicate k REG_EMPTY\<rparr>)"
    and "reserved_as s (pptr_to_paddr_reg reg) ok t"
proof -
  from assms have le: "rstart (pptr_to_paddr_reg reg) \<le> rend (pptr_to_paddr_reg reg)"
    using addrFromPPtr_mono(1) [of "rstart reg" "rend reg"] by (simp add: pptr_to_paddr_reg_def)
  have dis: "addrs (pptr_to_paddr_reg reg) \<inter> covered (resv s) = {}"
    using assms by (simp add: addrs_pptr_to_paddr)
  obtain ok t where t: "reserve_region (pptr_to_paddr_reg reg) s = Some (ok, t)"
    "reserved_as s (pptr_to_paddr_reg reg) ok t"
    by (rule reserve_region_correct [OF assms(2,3) le dis])
  then have "freemem t = freemem s" by (metis ndks_boot_t.select_convs(3) ndks_boot_t.surjective
        ndks_boot_t.update_convs(1,2) reserved_as_def)
  with insert_loop_correct [OF assms(1) _ t(1)] have
    "insert_loop 0 reg s = Some (True, t\<lparr>freemem := fs @ reg # replicate k REG_EMPTY\<rparr>)" by simp
  with assms(5) have "insert_region reg s = Some (True, t\<lparr>freemem := fs @ reg # replicate k REG_EMPTY\<rparr>)"
    by (simp add: insert_region_def is_reg_empty_def less_imp_le)
  with t(2) show thesis by (intro that)
qed

end
