(* ===== verification/Boot_Memory.thy ===== *)
theory Boot_Memory
  imports Boot_Regions
begin

text \<open>
  The discovery of free memory during boot (\<^verbatim>\<open>init_freemem\<close>, \<^verbatim>\<open>create_rootserver_objects\<close> and
  their helpers in \<^verbatim>\<open>src/kernel/boot.c\<close>). The two indices that walk over the available
  and the reserved regions are the lists of the regions not yet passed. \<open>carve\<close> is the
  reference: each available region less the reserved ones; the walk is shown to insert exactly
  those regions.
\<close>

section \<open>Checking the regions\<close>

fun check_available_loop :: "p_region_t option \<Rightarrow> p_region_t list \<Rightarrow> bool" where
  "check_available_loop prev [] = True"
| "check_available_loop prev (r # rs) =
     (if rstart r > rend r then False
      else if rstart r = rend r then False
      else if (case prev of None \<Rightarrow> False | Some p \<Rightarrow> rstart r < rend p) then False
      else check_available_loop (Some r) rs)"

definition check_available_memory :: "p_region_t list \<Rightarrow> bool" where
  "check_available_memory available = (if available = [] then False else check_available_loop None available)"

fun check_reserved_loop :: "region_t option \<Rightarrow> region_t list \<Rightarrow> bool" where
  "check_reserved_loop prev [] = True"
| "check_reserved_loop prev (r # rs) =
     (if rstart r > rend r then False
      else if (case prev of None \<Rightarrow> False | Some p \<Rightarrow> rstart r < rend p) then False
      else check_reserved_loop (Some r) rs)"

definition check_reserved_memory :: "region_t list \<Rightarrow> bool" where
  "check_reserved_memory resvd = check_reserved_loop None resvd"

definition ceiling_kernel_window :: "ptr \<Rightarrow> ptr" where
  "ceiling_kernel_window p = (if addrFromPPtr p > PADDR_TOP then PPTR_TOP else p)"

definition avail_reg :: "p_region_t \<Rightarrow> region_t" where
  "avail_reg p = (let reg = paddr_to_pptr_reg p in
     \<lparr>rstart = ceiling_kernel_window (rstart reg), rend = ceiling_kernel_window (rend reg)\<rparr>)"

section \<open>The walk over the available and the reserved regions\<close>

function (sequential) sweep ::
  "region_t list \<Rightarrow> region_t list \<Rightarrow> ndks_boot_t \<Rightarrow> (region_t list \<times> region_t list \<times> ndks_boot_t) option" where
  "sweep (a # avs) (r # rvs) s =
     (if rstart r = rend r then sweep (a # avs) rvs s
      else if rstart a \<ge> rend a then sweep avs (r # rvs) s
      else if rend r \<le> rstart a then
        do { (_, s) \<leftarrow> reserve_region (pptr_to_paddr_reg r) s;
             sweep (a # avs) rvs s }
      else if rstart r \<ge> rend a then
        do { (_, s) \<leftarrow> insert_region a s;
             sweep avs (r # rvs) s }
      else if rstart r \<le> rstart a then
        sweep (a\<lparr>rstart := min (rend a) (rend r)\<rparr> # avs) (r # rvs) s
      else
        do { assert_opt (rstart r < rend a);
             (_, s) \<leftarrow> insert_region (a\<lparr>rend := rstart r\<rparr>) s;
             if rend a > rend r then sweep (a\<lparr>rstart := rend r\<rparr> # avs) (r # rvs) s
             else sweep avs (r # rvs) s })"
| "sweep avs rvs s = Some (avs, rvs, s)"
  by pat_completeness auto
termination
  by (relation "measures [\<lambda>(avs, rvs, s). length avs + length rvs,
                          \<lambda>(avs, rvs, s). case avs of [] \<Rightarrow> 0 | a # _ \<Rightarrow> unat (rend a) - unat (rstart a)]")
     (auto simp: word_less_nat_alt word_le_nat_alt min_def)

fun reserve_rest :: "region_t list \<Rightarrow> ndks_boot_t \<Rightarrow> ndks_boot_t option" where
  "reserve_rest [] s = Some s"
| "reserve_rest (r # rvs) s =
     (if rstart r < rend r then
        do { (_, s) \<leftarrow> reserve_region (pptr_to_paddr_reg r) s; reserve_rest rvs s }
      else reserve_rest rvs s)"

fun insert_rest :: "region_t list \<Rightarrow> ndks_boot_t \<Rightarrow> ndks_boot_t option" where
  "insert_rest [] s = Some s"
| "insert_rest (a # avs) s =
     (if rstart a < rend a then
        do { (_, s) \<leftarrow> insert_region a s; insert_rest avs s }
      else insert_rest avs s)"

definition free_regions :: "region_t list \<Rightarrow> region_t list \<Rightarrow> ndks_boot_t \<Rightarrow> ndks_boot_t option" where
  "free_regions avs rvs s =
     do { (avs, rvs, s) \<leftarrow> sweep avs rvs s;
          s \<leftarrow> reserve_rest rvs s;
          insert_rest avs s }"

section \<open>The reference\<close>

fun carve_one :: "region_t \<Rightarrow> region_t list \<Rightarrow> region_t list" where
  "carve_one a [] = (if rstart a < rend a then [a] else [])"
| "carve_one a (r # rvs) =
     (if rstart r = rend r \<or> rend r \<le> rstart a then carve_one a rvs
      else if rend a \<le> rstart a then []
      else if rend a \<le> rstart r then [a]
      else (if rstart a < rstart r then [a\<lparr>rend := rstart r\<rparr>] else []) @ carve_one (a\<lparr>rstart := rend r\<rparr>) rvs)"

definition carve :: "region_t list \<Rightarrow> region_t list \<Rightarrow> region_t list" where
  "carve avs rvs = concat (map (\<lambda>a. carve_one a rvs) avs)"

definition ordered :: "region_t list \<Rightarrow> bool" where
  "ordered rs \<longleftrightarrow> (\<forall>x \<in> set rs. rstart x \<le> rend x) \<and> sorted_wrt (\<lambda>x y. rend x \<le> rstart y) rs"

lemma ordered_simps [simp]:
  "ordered []"
  "ordered (x # xs) \<longleftrightarrow> rstart x \<le> rend x \<and> (\<forall>y \<in> set xs. rend x \<le> rstart y) \<and> ordered xs"
  by (auto simp: ordered_def)

lemma ordered_after: "ordered (x # xs) \<Longrightarrow> y \<in> set xs \<Longrightarrow> rend x \<le> rstart y \<and> rstart y \<le> rend y"
  by (auto simp: ordered_def)

lemma carve_one_empty: "rend a \<le> rstart a \<Longrightarrow> carve_one a rvs = []"
  by (induction rvs) auto

lemma carve_simps [simp]: "carve [] rvs = []" "carve (a # avs) rvs = carve_one a rvs @ carve avs rvs"
  by (simp_all add: carve_def)

lemma carve_none: "carve avs [] = filter (\<lambda>a. rstart a < rend a) avs"
  by (induction avs) auto

lemma carve_skip: "rstart r = rend r \<or> (\<forall>a \<in> set avs. rend r \<le> rstart a) \<Longrightarrow> carve avs (r # rvs) = carve avs rvs"
  by (induction avs) auto

text \<open>The free part of one region: what the region covers less what the reserved regions cover.\<close>

lemma carve_one_covered:
  "ordered rvs \<Longrightarrow> covered (carve_one a rvs) = addrs a - covered rvs"
proof (induction a rvs rule: carve_one.induct)
  case (1 a)
  then show ?case by (auto simp: addrs_def)
next
  case (2 a r rvs)
  have later: "rend r \<le> p" if "p \<in> covered rvs" for p
    using that ordered_after [OF "2.prems"] by (auto simp: covered_def addrs_def intro: order_trans)
  from "2.prems" have ord: "ordered rvs" "rstart r \<le> rend r" by simp_all
  consider "rstart r = rend r \<or> rend r \<le> rstart a"
    | (empty) "\<not> (rstart r = rend r \<or> rend r \<le> rstart a)" "rend a \<le> rstart a"
    | (over) "\<not> (rstart r = rend r \<or> rend r \<le> rstart a)" "\<not> rend a \<le> rstart a" "rend a \<le> rstart r"
    | (cut) "\<not> (rstart r = rend r \<or> rend r \<le> rstart a)" "\<not> rend a \<le> rstart a" "\<not> rend a \<le> rstart r"
    by blast
  then show ?case
  proof cases
    case 1
    then have "addrs a \<inter> addrs r = {}" by (auto simp: addrs_def)
    with 1 "2.IH"(1) [OF 1 ord(1)] show ?thesis by auto
  next
    case empty
    then show ?thesis by (simp add: addrs_empty)
  next
    case over
    have "addrs a \<inter> (addrs r \<union> covered rvs) = {}"
      using over later ord(2) by (auto simp: addrs_def) (meson leD le_less_trans less_le_trans order_trans)
    with over show ?thesis by auto
  next
    case cut
    have "addrs a - addrs r = addrs (a\<lparr>rend := rstart r\<rparr>) \<union> addrs (a\<lparr>rstart := rend r\<rparr>)"
      using cut ord(2) by (auto simp: addrs_def)
    moreover have "addrs (a\<lparr>rend := rstart r\<rparr>) \<inter> covered rvs = {}"
      using later ord(2) by (auto simp: addrs_def) (meson leD order_trans)
    moreover have "rstart r \<le> rstart a \<Longrightarrow> addrs (a\<lparr>rend := rstart r\<rparr>) = {}"
      by (simp add: addrs_empty)
    ultimately show ?thesis
      using "2.IH"(2) [OF cut ord(1)] cut by auto
  qed
qed

lemma carve_one_within:
  "ordered rvs \<Longrightarrow> touching (carve_one a rvs) \<and> (\<forall>x \<in> set (carve_one a rvs). rstart a \<le> rstart x \<and> rend x \<le> rend a)"
proof (induction a rvs rule: carve_one.induct)
  case (2 a r rvs)
  from "2.prems" have ord: "ordered rvs" "rstart r \<le> rend r" by simp_all
  show ?case
  proof (cases "rstart r = rend r \<or> rend r \<le> rstart a")
    case True
    with "2.IH"(1) [OF True ord(1)] show ?thesis by auto
  next
    case keep: False
    show ?thesis
    proof (cases "rend a \<le> rstart a \<or> rend a \<le> rstart r")
      case True
      with keep show ?thesis by auto
    next
      case False
      with keep "2.IH"(2) [OF keep _ _ ord(1)] ord(2) show ?thesis
        by (auto simp: regions_by_append intro: order_trans)
    qed
  qed
qed auto

section \<open>The walk inserts what the reference gives\<close>

text \<open>\<open>room s fs k n\<close>: the table of free regions holds \<open>fs\<close> and \<open>k\<close> empty slots, and the table
  of reserved regions has room for \<open>n\<close> more regions and one for each of these slots.\<close>

definition room :: "ndks_boot_t \<Rightarrow> region_t list \<Rightarrow> nat \<Rightarrow> nat \<Rightarrow> bool" where
  "room s fs k n \<longleftrightarrow> free_slots s fs k \<and> apart (resv s) \<and> resv_count s + n + k \<le> length (reserved s)"

definition same_rest :: "ndks_boot_t \<Rightarrow> ndks_boot_t \<Rightarrow> bool" where
  "same_rest s t \<longleftrightarrow> slot_pos_cur t = slot_pos_cur s \<and>
     length (reserved t) = length (reserved s) \<and> length (freemem t) = length (freemem s)"

lemma same_rest_refl [simp]: "same_rest s s"
  by (simp add: same_rest_def)

lemma same_rest_trans: "same_rest s t \<Longrightarrow> same_rest t u \<Longrightarrow> same_rest s u"
  by (simp add: same_rest_def)

lemma reserved_as_fields:
  assumes "reserved_as s reg ok t"
  shows "freemem t = freemem s" "slot_pos_cur t = slot_pos_cur s"
    "length (reserved t) = length (reserved s)"
proof -
  from assms have t: "t = s\<lparr>reserved := reserved t, resv_count := resv_count t\<rparr>"
    by (simp add: reserved_as_def)
  show "freemem t = freemem s" "slot_pos_cur t = slot_pos_cur s"
    by (subst t, simp)+
  show "length (reserved t) = length (reserved s)"
    using assms by (simp add: reserved_as_def)
qed

lemma reserve_step:
  assumes "room s fs (Suc k) (Suc n)" and "PPTR_BASE \<le> rstart r" and "rstart r \<le> rend r"
    and "addrFromPPtr ` addrs r \<inter> covered (resv s) = {}"
  obtains ok t where "reserve_region (pptr_to_paddr_reg r) s = Some (ok, t)" and "room t fs (Suc k) n"
    and "covered (resv t) = covered (resv s) \<union> addrFromPPtr ` addrs r" and "same_rest s t"
proof -
  have e: "PPTR_BASE \<le> rend r" using assms(2,3) by (rule order_trans)
  have le: "rstart (pptr_to_paddr_reg r) \<le> rend (pptr_to_paddr_reg r)"
    using addrFromPPtr_mono(1) [OF assms(2) e] assms(3) by (simp add: pptr_to_paddr_reg_def)
  have dis: "addrs (pptr_to_paddr_reg r) \<inter> covered (resv s) = {}"
    using assms by (simp add: addrs_pptr_to_paddr)
  have ap: "apart (resv s)" and cap: "resv_count s < length (reserved s)"
    using assms(1) by (simp_all add: room_def)
  obtain ok t where t: "reserve_region (pptr_to_paddr_reg r) s = Some (ok, t)"
    "reserved_as s (pptr_to_paddr_reg r) ok t"
    by (rule reserve_region_correct [OF ap cap le dis])
  have ok using t(2) assms(1) by (simp add: reserved_as_def room_def split: if_splits)
  with t(2) assms have "room t fs (Suc k) n" "covered (resv t) = covered (resv s) \<union> addrFromPPtr ` addrs r"
    "same_rest s t"
    using reserved_as_fields [OF t(2)]
    by (auto simp: room_def free_slots_def reserved_as_def same_rest_def addrs_pptr_to_paddr)
  with t(1) show thesis by (rule that)
qed

lemma insert_step:
  assumes "room s fs (Suc (Suc k)) n" and "PPTR_BASE \<le> rstart a" and "rstart a < rend a"
    and "addrFromPPtr ` addrs a \<inter> covered (resv s) = {}"
  obtains t where "insert_region a s = Some (True, t)" and "room t (fs @ [a]) (Suc k) n"
    and "covered (resv t) = covered (resv s) \<union> addrFromPPtr ` addrs a" and "same_rest s t"
proof -
  have free: "free_slots s fs (Suc (Suc k))" and ap: "apart (resv s)" and cap: "resv_count s < length (reserved s)"
    using assms(1) by (simp_all add: room_def)
  obtain ok t where t: "insert_region a s = Some (True, t\<lparr>freemem := fs @ a # replicate (Suc k) REG_EMPTY\<rparr>)"
    "reserved_as s (pptr_to_paddr_reg a) ok t"
    by (rule insert_region_correct [OF free ap cap assms(2,3,4)])
  have ok using t(2) assms(1) by (simp add: reserved_as_def room_def split: if_splits)
  let ?t = "t\<lparr>freemem := fs @ a # replicate (Suc k) REG_EMPTY\<rparr>"
  have "room ?t (fs @ [a]) (Suc k) n" "covered (resv ?t) = covered (resv s) \<union> addrFromPPtr ` addrs a"
    "same_rest s ?t"
    using \<open>ok\<close> t(2) assms reserved_as_fields [OF t(2)]
    by (auto simp: room_def free_slots_def reserved_as_def same_rest_def addrs_pptr_to_paddr resv_def)
  with t(1) show thesis by (rule that)
qed

text \<open>The state of the walk, and what every step of it keeps: the free regions that will have been
  inserted in the end, and the memory that will have been reserved.\<close>

definition walk :: "region_t list \<Rightarrow> region_t list \<Rightarrow> ndks_boot_t \<Rightarrow> region_t list \<Rightarrow> nat \<Rightarrow> bool" where
  "walk avs rvs s fs k \<longleftrightarrow>
     room s fs k (length rvs) \<and> length (carve avs rvs) < k \<and> ordered avs \<and> ordered rvs \<and>
     (\<forall>x \<in> set avs \<union> set rvs. PPTR_BASE \<le> rstart x) \<and>
     addrFromPPtr ` (covered avs \<union> covered rvs) \<inter> covered (resv s) = {}"

definition total :: "region_t list \<Rightarrow> region_t list \<Rightarrow> ndks_boot_t \<Rightarrow> word_t set" where
  "total avs rvs s = covered (resv s) \<union> addrFromPPtr ` (covered avs \<union> covered rvs)"

definition walks_to ::
  "region_t list \<Rightarrow> region_t list \<Rightarrow> ndks_boot_t \<Rightarrow> region_t list \<Rightarrow>
   region_t list \<Rightarrow> region_t list \<Rightarrow> ndks_boot_t \<Rightarrow> bool" where
  "walks_to avs rvs s fs avs' rvs' t \<longleftrightarrow>
     (\<exists>fs' k'. walk avs' rvs' t fs' k' \<and> fs' @ carve avs' rvs' = fs @ carve avs rvs \<and>
        total avs' rvs' t = total avs rvs s \<and> same_rest s t)"

lemma image_disjoint:
  "addrFromPPtr ` A \<inter> addrFromPPtr ` B = {} \<longleftrightarrow> A \<inter> B = {}"
  using inj_addrFromPPtr by (simp add: image_Int [symmetric])

lemma covered_above: "ordered rs \<Longrightarrow> (\<And>x. x \<in> set rs \<Longrightarrow> e \<le> rstart x) \<Longrightarrow> p \<in> covered rs \<Longrightarrow> e \<le> p"
  by (auto simp: covered_def addrs_def intro: order_trans)

lemma covered_from_first:
  assumes "ordered (r # rs)" and "p \<in> covered (r # rs)"
  shows "rstart r \<le> p"
proof (rule covered_above [OF assms(1) _ assms(2)])
  fix x assume "x \<in> set (r # rs)"
  with assms(1) show "rstart r \<le> rstart x" by (auto intro: order_trans)
qed

lemma walk_reserve:
  assumes w: "walk avs (r # rvs) s fs k" and below: "\<And>a. a \<in> set avs \<Longrightarrow> rend r \<le> rstart a"
  obtains ok t where "reserve_region (pptr_to_paddr_reg r) s = Some (ok, t)" and "walk avs rvs t fs k"
    and "total avs rvs t = total avs (r # rvs) s" and "same_rest s t"
proof -
  from w obtain k' where k: "k = Suc k'" by (cases k) (auto simp: walk_def)
  have room: "room s fs (Suc k') (Suc (length rvs))" and win: "PPTR_BASE \<le> rstart r"
    and le: "rstart r \<le> rend r" and dis: "addrFromPPtr ` addrs r \<inter> covered (resv s) = {}"
    using w k by (auto simp: walk_def)
  obtain ok t where t: "reserve_region (pptr_to_paddr_reg r) s = Some (ok, t)" "room t fs (Suc k') (length rvs)"
    "covered (resv t) = covered (resv s) \<union> addrFromPPtr ` addrs r" "same_rest s t"
    by (rule reserve_step [OF room win le dis])
  have above: "rend r \<le> p" if "p \<in> covered avs \<union> covered rvs" for p
    using that covered_above [of avs "rend r" p] covered_above [of rvs "rend r" p] below w
    by (auto simp: walk_def)
  have "(covered avs \<union> covered rvs) \<inter> addrs r = {}"
    using above by (auto simp: addrs_def) (meson leD)+
  then have "addrFromPPtr ` (covered avs \<union> covered rvs) \<inter> covered (resv t) = {}"
    using w t(3) image_disjoint [of "covered avs \<union> covered rvs" "addrs r"] by (auto simp: walk_def)
  moreover have "carve avs (r # rvs) = carve avs rvs"
    using below by (intro carve_skip) auto
  ultimately have "walk avs rvs t fs k"
    using w t(2) k by (auto simp: walk_def)
  moreover have "total avs rvs t = total avs (r # rvs) s"
    using t(3) by (auto simp: total_def)
  ultimately show thesis by (rule that [OF t(1) _ _ t(4)])
qed

lemma walk_insert:
  assumes room: "room s fs k (length rvs)" and len: "Suc (length (carve avs rvs)) < k"
    and ord: "ordered avs" "ordered rvs" and win: "\<And>x. x \<in> set avs \<union> set rvs \<Longrightarrow> PPTR_BASE \<le> rstart x"
    and m: "PPTR_BASE \<le> rstart m" "rstart m < rend m"
    and above: "\<And>p. p \<in> covered avs \<union> covered rvs \<Longrightarrow> rend m \<le> p"
    and dis: "addrFromPPtr ` (covered avs \<union> covered rvs \<union> addrs m) \<inter> covered (resv s) = {}"
  obtains t where "insert_region m s = Some (True, t)" and "walk avs rvs t (fs @ [m]) (k - 1)"
    and "total avs rvs t = total avs rvs s \<union> addrFromPPtr ` addrs m" and "same_rest s t"
proof -
  from len obtain k' where k: "k = Suc (Suc k')" by (cases k; cases "k - 1") auto
  have dis': "addrFromPPtr ` addrs m \<inter> covered (resv s) = {}" using dis by auto
  obtain t where t: "insert_region m s = Some (True, t)" "room t (fs @ [m]) (Suc k') (length rvs)"
    "covered (resv t) = covered (resv s) \<union> addrFromPPtr ` addrs m" "same_rest s t"
    by (rule insert_step [OF room [unfolded k] m dis'])
  have "(covered avs \<union> covered rvs) \<inter> addrs m = {}"
    using above by (auto simp: addrs_def) (meson leD)+
  then have "addrFromPPtr ` (covered avs \<union> covered rvs) \<inter> covered (resv t) = {}"
    using dis t(3) image_disjoint [of "covered avs \<union> covered rvs" "addrs m"] by auto
  with t(2) len ord win k have "walk avs rvs t (fs @ [m]) (k - 1)"
    by (auto simp: walk_def)
  moreover have "total avs rvs t = total avs rvs s \<union> addrFromPPtr ` addrs m"
    using t(3) by (auto simp: total_def)
  ultimately show thesis by (rule that [OF t(1) _ _ t(4)])
qed

lemma walks_to_trans:
  assumes "walks_to avs1 rvs1 s1 fs1 avs' rvs' t" and "fs1 @ carve avs1 rvs1 = fs @ carve avs rvs"
    and "total avs1 rvs1 s1 = total avs rvs s" and "same_rest s s1"
  shows "walks_to avs rvs s fs avs' rvs' t"
  using assms same_rest_trans unfolding walks_to_def by metis

lemma walks_to_refl: "walk avs rvs s fs k \<Longrightarrow> walks_to avs rvs s fs avs rvs s"
  unfolding walks_to_def by (intro exI [of _ fs] exI [of _ k]) simp

text \<open>The steps of the walk that change neither table.\<close>

lemma walk_empty_reserved:
  assumes "walk avs (r # rvs) s fs k" and "rstart r = rend r"
  shows "walk avs rvs s fs k" and "carve avs rvs = carve avs (r # rvs)" and "total avs rvs s = total avs (r # rvs) s"
  using assms carve_skip [of r avs rvs] addrs_empty [of r] by (auto simp: walk_def total_def room_def)

lemma walk_empty_available:
  assumes "walk (a # avs) rvs s fs k" and "rend a \<le> rstart a"
  shows "walk avs rvs s fs k" and "carve avs rvs = carve (a # avs) rvs" and "total avs rvs s = total (a # avs) rvs s"
  using assms carve_one_empty [of a rvs] addrs_empty [of a] by (auto simp: walk_def total_def room_def)

lemma walk_trim:
  assumes w: "walk (a # avs) (r # rvs) s fs k" and cut: "rstart r \<le> rstart a" "rstart a < rend r" "rstart a < rend a"
  defines "a' \<equiv> a\<lparr>rstart := min (rend a) (rend r)\<rparr>"
  shows "walk (a' # avs) (r # rvs) s fs k" and "carve (a' # avs) (r # rvs) = carve (a # avs) (r # rvs)"
    and "total (a' # avs) (r # rvs) s = total (a # avs) (r # rvs) s"
proof -
  have sub: "addrs a' \<subseteq> addrs a" and both: "addrs a' \<union> addrs r = addrs a \<union> addrs r"
    using cut by (auto simp: a'_def addrs_def min_def)
  have one: "carve_one a' (r # rvs) = carve_one a (r # rvs)"
  proof (cases "rend r \<le> rend a")
    case True
    with cut show ?thesis by (auto simp: a'_def min_def carve_one_empty)
  next
    case False
    with cut carve_one_empty [of "a\<lparr>rstart := rend r\<rparr>" rvs] show ?thesis
      by (auto simp: a'_def min_def carve_one_empty)
  qed
  then show "carve (a' # avs) (r # rvs) = carve (a # avs) (r # rvs)" by simp
  moreover have "PPTR_BASE \<le> rstart a'" "rstart a' \<le> rend a'" "rend a' = rend a"
    using w cut by (auto simp: a'_def walk_def min_def intro: order_trans)
  moreover have "addrFromPPtr ` (covered (a' # avs) \<union> covered (r # rvs)) \<inter> covered (resv s) = {}"
  proof -
    have "addrFromPPtr ` (covered (a # avs) \<union> covered (r # rvs)) \<inter> covered (resv s) = {}"
      using w by (simp add: walk_def)
    moreover have "covered (a' # avs) \<union> covered (r # rvs) \<subseteq> covered (a # avs) \<union> covered (r # rvs)"
      using sub by auto
    ultimately show ?thesis by (meson disjoint_iff image_mono subset_iff)
  qed
  ultimately show "walk (a' # avs) (r # rvs) s fs k"
    using w by (auto simp: walk_def)
  show "total (a' # avs) (r # rvs) s = total (a # avs) (r # rvs) s"
    using both by (auto simp: total_def)
qed

lemma sweep_correct:
  "walk avs rvs s fs k \<Longrightarrow>
   \<exists>avs' rvs' t. sweep avs rvs s = Some (avs', rvs', t) \<and> (avs' = [] \<or> rvs' = []) \<and>
     walks_to avs rvs s fs avs' rvs' t"
proof (induction avs rvs s arbitrary: fs k rule: sweep.induct)
  case (1 a avs r rvs s)
  note w = "1.prems"
  have ordr: "rstart r \<le> rend r" and orda: "ordered avs" and ordrs: "ordered (r # rvs)"
    and after_a: "\<And>x. x \<in> set avs \<Longrightarrow> rend a \<le> rstart x" and len: "length (carve (a # avs) (r # rvs)) < k"
    and room: "room s fs k (length (r # rvs))" and wina: "PPTR_BASE \<le> rstart a"
    and win: "\<And>x. x \<in> set avs \<union> set (r # rvs) \<Longrightarrow> PPTR_BASE \<le> rstart x"
    and dis: "addrFromPPtr ` (covered avs \<union> covered (r # rvs) \<union> addrs a) \<inter> covered (resv s) = {}"
    using w by (auto simp: walk_def)
  consider (empty_r) "rstart r = rend r"
    | (empty_a) "rstart r \<noteq> rend r" "rstart a \<ge> rend a"
    | (below) "rstart r \<noteq> rend r" "\<not> rstart a \<ge> rend a" "rend r \<le> rstart a"
    | (above) "rstart r \<noteq> rend r" "\<not> rstart a \<ge> rend a" "\<not> rend r \<le> rstart a" "rstart r \<ge> rend a"
    | (trim) "rstart r \<noteq> rend r" "\<not> rstart a \<ge> rend a" "\<not> rend r \<le> rstart a" "\<not> rstart r \<ge> rend a" "rstart r \<le> rstart a"
    | (cut) "rstart r \<noteq> rend r" "\<not> rstart a \<ge> rend a" "\<not> rend r \<le> rstart a" "\<not> rstart r \<ge> rend a" "\<not> rstart r \<le> rstart a"
    by blast
  then show ?case
  proof cases
    case empty_r
    note e = walk_empty_reserved [OF w empty_r]
    from "1.IH"(1) [OF empty_r e(1)] empty_r e(2,3) show ?thesis
      using walks_to_trans [of "a # avs" rvs s fs _ _ _ fs "a # avs" "r # rvs" s] by auto
  next
    case empty_a
    note e = walk_empty_available [OF w empty_a(2)]
    from "1.IH"(2) [OF empty_a e(1)] empty_a e(2,3) show ?thesis
      using walks_to_trans [of avs "r # rvs" s fs _ _ _ fs "a # avs" "r # rvs" s] by auto
  next
    case below
    have all: "rend r \<le> rstart x" if "x \<in> set (a # avs)" for x
      using that below after_a [of x] by auto
    obtain ok t where t: "reserve_region (pptr_to_paddr_reg r) s = Some (ok, t)" "walk (a # avs) rvs t fs k"
      "total (a # avs) rvs t = total (a # avs) (r # rvs) s" "same_rest s t"
      by (rule walk_reserve [OF w all])
    have c: "carve (a # avs) rvs = carve (a # avs) (r # rvs)"
      using carve_skip [of r "a # avs" rvs] all by simp
    from "1.IH"(3) [OF below t(1) refl t(2)] t(1) below show ?thesis
      using walks_to_trans [of "a # avs" rvs t fs _ _ _ fs "a # avs" "r # rvs" s, OF _ _ t(3,4)] c by auto
  next
    case above
    have later: "rend a \<le> p" if "p \<in> covered avs \<union> covered (r # rvs)" for p
      using that covered_above [OF orda after_a, of p] covered_from_first [OF ordrs, of p] above
      by (blast intro: order_trans)
    have c: "carve (a # avs) (r # rvs) = a # carve avs (r # rvs)"
      using above by simp
    have pos: "rstart a < rend a" using above by simp
    obtain t where t: "insert_region a s = Some (True, t)" "walk avs (r # rvs) t (fs @ [a]) (k - 1)"
      "total avs (r # rvs) t = total avs (r # rvs) s \<union> addrFromPPtr ` addrs a" "same_rest s t"
      by (rule walk_insert [OF room _ orda ordrs win wina pos later dis]) (use len c in auto)
    have tot: "total avs (r # rvs) t = total (a # avs) (r # rvs) s"
      using t(3) by (auto simp: total_def)
    from "1.IH"(4) [OF above t(1) refl t(2)] t(1) above show ?thesis
      using walks_to_trans [of avs "r # rvs" t "fs @ [a]" _ _ _ fs "a # avs" "r # rvs" s, OF _ _ tot t(4)] c by auto
  next
    case trim
    then have "rstart a < rend r" "rstart a < rend a" by auto
    note e = walk_trim [OF w trim(5) this]
    let ?a = "a\<lparr>rstart := min (rend a) (rend r)\<rparr>"
    from "1.IH"(5) [OF trim e(1)] obtain avs' rvs' t where
      t: "sweep (?a # avs) (r # rvs) s = Some (avs', rvs', t)" "avs' = [] \<or> rvs' = []"
      "walks_to (?a # avs) (r # rvs) s fs avs' rvs' t" by blast
    have "walks_to (a # avs) (r # rvs) s fs avs' rvs' t"
      using walks_to_trans [OF t(3) _ e(3)] e(2) by simp
    moreover have "sweep (a # avs) (r # rvs) s = Some (avs', rvs', t)"
      using t(1) trim by simp
    ultimately show ?thesis using t(2) by blast
  next
    case cut
    let ?m = "a\<lparr>rend := rstart r\<rparr>" and ?a = "a\<lparr>rstart := rend r\<rparr>"
    have m: "PPTR_BASE \<le> rstart ?m" "rstart ?m < rend ?m" using wina cut by auto
    have laterr: "rstart r \<le> p" if "p \<in> covered avs \<union> covered (r # rvs)" for p
    proof -
      have "rstart r \<le> rend a" using cut by simp
      then have "rstart r \<le> rstart x" if "x \<in> set avs" for x
        using after_a [OF that] by (rule order_trans)
      with that covered_above [OF orda, of "rstart r" p] covered_from_first [OF ordrs, of p] show ?thesis
        by blast
    qed
    have ass: "assert_opt (rstart r < rend a) = Some ()" using cut by simp
    have am: "addrs ?m \<subseteq> addrs a" using cut by (auto simp: addrs_def)
    have c: "carve (a # avs) (r # rvs) = ?m # carve_one ?a rvs @ carve avs (r # rvs)"
      using cut by simp
    show ?thesis
    proof (cases "rend a > rend r")
      case True
      have c': "carve (?a # avs) (r # rvs) = carve_one ?a rvs @ carve avs (r # rvs)"
        by simp
      have orda': "ordered (?a # avs)" using True after_a orda by auto
      have aa: "addrs ?a \<subseteq> addrs a" using cut by (auto simp: addrs_def)
      have win': "\<And>x. x \<in> set (?a # avs) \<union> set (r # rvs) \<Longrightarrow> PPTR_BASE \<le> rstart x"
      proof -
        fix x assume x: "x \<in> set (?a # avs) \<union> set (r # rvs)"
        have "PPTR_BASE \<le> rstart r" by (rule win) simp
        then have "PPTR_BASE \<le> rstart ?a" using ordr by simp
        moreover from x have "x = ?a \<or> x \<in> set avs \<union> set (r # rvs)" by auto
        ultimately show "PPTR_BASE \<le> rstart x" using win by blast
      qed
      have later: "rend ?m \<le> p" if "p \<in> covered (?a # avs) \<union> covered (r # rvs)" for p
      proof (cases "p \<in> addrs ?a")
        case True
        then have "rend r \<le> p" by (simp add: addrs_def)
        with ordr have "rstart r \<le> p" by (rule order_trans)
        then show ?thesis by simp
      next
        case False
        with that laterr [of p] show ?thesis by simp
      qed
      have dis': "addrFromPPtr ` (covered (?a # avs) \<union> covered (r # rvs) \<union> addrs ?m) \<inter> covered (resv s) = {}"
        using dis aa am by auto
      obtain t where t: "insert_region ?m s = Some (True, t)" "walk (?a # avs) (r # rvs) t (fs @ [?m]) (k - 1)"
        "total (?a # avs) (r # rvs) t = total (?a # avs) (r # rvs) s \<union> addrFromPPtr ` addrs ?m" "same_rest s t"
        by (rule walk_insert [OF room _ orda' ordrs win' m later dis']) (use len c c' in auto)
      have "addrs a \<union> addrs r = addrs ?m \<union> addrs ?a \<union> addrs r"
        using cut ordr True by (auto simp: addrs_def)
      then have tot: "total (?a # avs) (r # rvs) t = total (a # avs) (r # rvs) s"
        using t(3) by (auto simp: total_def)
      from "1.IH"(6) [OF cut ass t(1) refl True t(2)] t(1) cut ass True show ?thesis
        using walks_to_trans [of "?a # avs" "r # rvs" t "fs @ [?m]" _ _ _ fs "a # avs" "r # rvs" s, OF _ _ tot t(4)] c c'
        by auto
    next
      case False
      have c': "carve_one ?a rvs = []" using False by (simp add: carve_one_empty)
      have dis': "addrFromPPtr ` (covered avs \<union> covered (r # rvs) \<union> addrs ?m) \<inter> covered (resv s) = {}"
        using dis am by auto
      have later: "rend ?m \<le> p" if "p \<in> covered avs \<union> covered (r # rvs)" for p
        using laterr [OF that] by simp
      obtain t where t: "insert_region ?m s = Some (True, t)" "walk avs (r # rvs) t (fs @ [?m]) (k - 1)"
        "total avs (r # rvs) t = total avs (r # rvs) s \<union> addrFromPPtr ` addrs ?m" "same_rest s t"
        by (rule walk_insert [OF room _ orda ordrs win m later dis']) (use len c c' in auto)
      have "addrs a \<union> addrs r = addrs ?m \<union> addrs r"
        using cut ordr False by (auto simp: addrs_def)
      then have tot: "total avs (r # rvs) t = total (a # avs) (r # rvs) s"
        using t(3) by (auto simp: total_def)
      from "1.IH"(7) [OF cut ass t(1) refl False t(2)] t(1) cut ass False show ?thesis
        using walks_to_trans [of avs "r # rvs" t "fs @ [?m]" _ _ _ fs "a # avs" "r # rvs" s, OF _ _ tot t(4)] c c'
        by auto
    qed
  qed
qed (auto intro: walks_to_refl)

lemma reserve_rest_correct:
  "walk [] rvs s fs k \<Longrightarrow>
   \<exists>t. reserve_rest rvs s = Some t \<and> walk [] [] t fs k \<and> total [] [] t = total [] rvs s \<and> same_rest s t"
proof (induction rvs arbitrary: s)
  case (Cons r rvs)
  show ?case
  proof (cases "rstart r < rend r")
    case True
    obtain ok t where t: "reserve_region (pptr_to_paddr_reg r) s = Some (ok, t)" "walk [] rvs t fs k"
      "total [] rvs t = total [] (r # rvs) s" "same_rest s t"
      by (rule walk_reserve [OF Cons.prems]) auto
    from Cons.IH [OF t(2)] t True show ?thesis by (auto intro: same_rest_trans)
  next
    case False
    then have "rstart r = rend r" using Cons.prems by (auto simp: walk_def)
    note e = walk_empty_reserved [OF Cons.prems this]
    from Cons.IH [OF e(1)] e(3) False show ?thesis by simp
  qed
qed auto

lemma insert_rest_correct:
  "walk avs [] s fs k \<Longrightarrow>
   \<exists>t k'. insert_rest avs s = Some t \<and> walk [] [] t (fs @ carve avs []) k' \<and>
          total [] [] t = total avs [] s \<and> same_rest s t"
proof (induction avs arbitrary: s fs k)
  case (Cons a avs)
  note w = Cons.prems
  show ?case
  proof (cases "rstart a < rend a")
    case True
    have room: "room s fs k (length ([] :: region_t list))" and orda: "ordered avs"
      and win: "\<And>x. x \<in> set avs \<union> set [] \<Longrightarrow> PPTR_BASE \<le> rstart x" and wina: "PPTR_BASE \<le> rstart a"
      and after: "\<And>x. x \<in> set avs \<Longrightarrow> rend a \<le> rstart x"
      and dis: "addrFromPPtr ` (covered avs \<union> covered [] \<union> addrs a) \<inter> covered (resv s) = {}"
      using w by (auto simp: walk_def)
    have len: "Suc (length (carve avs [])) < k" using w True by (simp add: walk_def)
    have later: "rend a \<le> p" if "p \<in> covered avs \<union> covered []" for p
      using that covered_above [OF orda after] by auto
    obtain t where t: "insert_region a s = Some (True, t)" "walk avs [] t (fs @ [a]) (k - 1)"
      "total avs [] t = total avs [] s \<union> addrFromPPtr ` addrs a" "same_rest s t"
      by (rule walk_insert [OF room len orda ordered_simps(1) win wina True later dis])
    have "total avs [] t = total (a # avs) [] s" using t(3) by (auto simp: total_def)
    with Cons.IH [OF t(2)] t True show ?thesis by (auto intro: same_rest_trans)
  next
    case False
    then have "rend a \<le> rstart a" by simp
    note e = walk_empty_available [OF w this]
    from Cons.IH [OF e(1)] e(3) False show ?thesis by simp
  qed
qed auto

text \<open>The whole walk: the regions of the reference are inserted, in order, into the empty table, and
  all memory that was looked at is then reserved.\<close>

lemma free_regions_correct:
  assumes "walk avs rvs s fs k"
  obtains t k' where "free_regions avs rvs s = Some t" and "room t (fs @ carve avs rvs) k' 0" and "0 < k'"
    and "covered (resv t) = covered (resv s) \<union> addrFromPPtr ` (covered avs \<union> covered rvs)" and "same_rest s t"
proof -
  obtain avs' rvs' t fs' k' where t: "sweep avs rvs s = Some (avs', rvs', t)" "avs' = [] \<or> rvs' = []"
    "walk avs' rvs' t fs' k'" "fs' @ carve avs' rvs' = fs @ carve avs rvs"
    "total avs' rvs' t = total avs rvs s" "same_rest s t"
    using sweep_correct [OF assms] by (auto simp: walks_to_def)
  have "\<exists>u k'. free_regions avs rvs s = Some u \<and> walk [] [] u (fs @ carve avs rvs) k' \<and>
      total [] [] u = total avs rvs s \<and> same_rest s u"
  proof (cases "avs' = []")
    case True
    with reserve_rest_correct [of rvs' t fs' k'] t show ?thesis
      by (auto simp: free_regions_def intro: same_rest_trans)
  next
    case False
    with insert_rest_correct [of avs' t fs' k'] t show ?thesis
      by (auto simp: free_regions_def intro: same_rest_trans)
  qed
  then show thesis
    using that by (auto simp: walk_def total_def)
qed

end
