(* ===== verification/Boot_Rootserver.thy ===== *)
theory Boot_Rootserver
  imports Boot_Memory
begin

text \<open>
  The memory of the objects of the initial thread (\<^verbatim>\<open>create_rootserver_objects\<close> and its helpers
  in \<^verbatim>\<open>src/kernel/boot.c\<close>), and the end of \<^verbatim>\<open>init_freemem\<close>, which takes that memory from
  the last free region that is large enough. The sizes are those of AArch64; the root CNode has
  \<^verbatim>\<open>2^13\<close> slots, the value that \<^verbatim>\<open>CMakeLists.txt\<close> of \<^verbatim>\<open>projects/sel4test\<close> sets.
\<close>

section \<open>Sizes\<close>

abbreviation (input) seL4_VSpaceBits :: word_t where "seL4_VSpaceBits \<equiv> 12"
abbreviation (input) seL4_PageTableBits :: word_t where "seL4_PageTableBits \<equiv> 12"
abbreviation (input) seL4_BootInfoFrameBits :: word_t where "seL4_BootInfoFrameBits \<equiv> 12"
abbreviation (input) seL4_ASIDPoolBits :: word_t where "seL4_ASIDPoolBits \<equiv> 12"

definition CONFIG_ROOT_CNODE_SIZE_BITS :: word_t where "CONFIG_ROOT_CNODE_SIZE_BITS = 13"

definition ROUND_UP :: "word_t \<Rightarrow> word_t \<Rightarrow> word_t" where
  "ROUND_UP n b = shiftl (shiftr (n - 1) b + 1) b"

definition get_n_paging :: "v_region_t \<Rightarrow> word_t \<Rightarrow> word_t" where
  "get_n_paging v_reg bits =
     (let start = ROUND_DOWN (rstart v_reg) bits;
          endp = ROUND_UP (rend v_reg) bits
      in (endp - start) div BIT bits)"

definition arch_get_n_paging :: "v_region_t \<Rightarrow> word_t" where
  "arch_get_n_paging it_v_reg = get_n_paging it_v_reg 39 + get_n_paging it_v_reg 30 + get_n_paging it_v_reg 21"

definition calculate_extra_bi_size_bits :: "word_t \<Rightarrow> word_t" where
  "calculate_extra_bi_size_bits extra_size =
     (if extra_size = 0 then 0
      else
        let clzl_ret = clzl (ROUND_UP extra_size seL4_PageBits);
            msb = wordBits - 1 - clzl_ret
        in if extra_size > BIT msb then msb + 1 else msb)"

definition rootserver_max_size_bits :: "word_t \<Rightarrow> word_t" where
  "rootserver_max_size_bits extra_bi_size_bits =
     (let cnode_size_bits = CONFIG_ROOT_CNODE_SIZE_BITS + seL4_SlotBits;
          m = (if cnode_size_bits > seL4_VSpaceBits then cnode_size_bits else seL4_VSpaceBits)
      in if m > extra_bi_size_bits then m else extra_bi_size_bits)"

definition calculate_rootserver_size :: "v_region_t \<Rightarrow> word_t \<Rightarrow> word_t" where
  "calculate_rootserver_size it_v_reg extra_bi_size_bits =
     (let size = BIT (CONFIG_ROOT_CNODE_SIZE_BITS + seL4_SlotBits);
          size = size + BIT seL4_TCBBits;
          size = size + BIT seL4_PageBits;
          size = size + BIT seL4_BootInfoFrameBits;
          size = size + BIT seL4_ASIDPoolBits;
          size = size + (if extra_bi_size_bits > 0 then BIT extra_bi_size_bits else 0);
          size = size + BIT seL4_VSpaceBits
      in size + arch_get_n_paging it_v_reg * BIT seL4_PageTableBits)"

section \<open>The objects of the initial thread\<close>

record rootserver_mem_t =
  rs_cnode :: ptr
  rs_vspace :: ptr
  rs_asid_pool :: ptr
  rs_ipc_buf :: ptr
  rs_boot_info :: ptr
  rs_extra_bi :: ptr
  rs_tcb :: ptr
  rs_paging :: region_t

text \<open>The global variables of booting. \<open>zeroed\<close> lists the memory that \<^verbatim>\<open>memzero\<close> cleared.\<close>

record boot_t =
  ndks_boot :: ndks_boot_t
  rootserver :: rootserver_mem_t
  rootserver_mem :: region_t
  zeroed :: "region_t list"

text \<open>The global variables before booting: memory that the loader cleared. The sizes of the tables,
  \<^verbatim>\<open>MAX_NUM_RESV_REG\<close> and \<^verbatim>\<open>MAX_NUM_FREEMEM_REG\<close>, depend on generated files.\<close>

definition boot_bss :: "nat \<Rightarrow> nat \<Rightarrow> boot_t" where
  "boot_bss max_resv max_free =
     \<lparr>ndks_boot =
        \<lparr>reserved = replicate max_resv REG_EMPTY, resv_count = 0, freemem = replicate max_free REG_EMPTY,
         slot_pos_cur = 0\<rparr>,
      rootserver =
        \<lparr>rs_cnode = 0, rs_vspace = 0, rs_asid_pool = 0, rs_ipc_buf = 0, rs_boot_info = 0, rs_extra_bi = 0,
         rs_tcb = 0, rs_paging = REG_EMPTY\<rparr>,
      rootserver_mem = REG_EMPTY, zeroed = []\<rparr>"

definition alloc_rootserver_obj :: "word_t \<Rightarrow> word_t \<Rightarrow> boot_t \<Rightarrow> (ptr \<times> boot_t) option" where
  "alloc_rootserver_obj size_bits n b =
     (let allocated = rstart (rootserver_mem b) in
      do { assert_opt (allocated mod BIT size_bits = 0);
           let b = b\<lparr>rootserver_mem := (rootserver_mem b)\<lparr>rstart := allocated + n * BIT size_bits\<rparr>\<rparr>;
           assert_opt (rstart (rootserver_mem b) \<le> rend (rootserver_mem b));
           Some (allocated,
                 b\<lparr>zeroed := zeroed b @ [\<lparr>rstart = allocated, rend = allocated + n * BIT size_bits\<rparr>]\<rparr>) })"

definition maybe_alloc_extra_bi :: "word_t \<Rightarrow> word_t \<Rightarrow> boot_t \<Rightarrow> boot_t option" where
  "maybe_alloc_extra_bi cmp_size_bits extra_bi_size_bits b =
     (if extra_bi_size_bits \<ge> cmp_size_bits \<and> rs_extra_bi (rootserver b) = 0 then
        do { (p, b) \<leftarrow> alloc_rootserver_obj extra_bi_size_bits 1 b;
             Some (b\<lparr>rootserver := (rootserver b)\<lparr>rs_extra_bi := p\<rparr>\<rparr>) }
      else Some b)"

text \<open>The objects after the root CNode, and the whole of \<^verbatim>\<open>create_rootserver_objects\<close>.\<close>

definition create_page_objects :: "v_region_t \<Rightarrow> word_t \<Rightarrow> boot_t \<Rightarrow> boot_t option" where
  "create_page_objects it_v_reg extra_bi_size_bits b =
     do { (p, b) \<leftarrow> alloc_rootserver_obj seL4_VSpaceBits 1 b;
          let b = b\<lparr>rootserver := (rootserver b)\<lparr>rs_vspace := p\<rparr>\<rparr>;
          b \<leftarrow> maybe_alloc_extra_bi seL4_PageBits extra_bi_size_bits b;
          (p, b) \<leftarrow> alloc_rootserver_obj seL4_ASIDPoolBits 1 b;
          let b = b\<lparr>rootserver := (rootserver b)\<lparr>rs_asid_pool := p\<rparr>\<rparr>;
          (p, b) \<leftarrow> alloc_rootserver_obj seL4_PageBits 1 b;
          let b = b\<lparr>rootserver := (rootserver b)\<lparr>rs_ipc_buf := p\<rparr>\<rparr>;
          (p, b) \<leftarrow> alloc_rootserver_obj seL4_BootInfoFrameBits 1 b;
          let b = b\<lparr>rootserver := (rootserver b)\<lparr>rs_boot_info := p\<rparr>\<rparr>;
          let n = arch_get_n_paging it_v_reg;
          (p, b) \<leftarrow> alloc_rootserver_obj seL4_PageTableBits n b;
          let b = b\<lparr>rootserver := (rootserver b)\<lparr>rs_paging := \<lparr>rstart = p, rend = p + n * BIT seL4_PageTableBits\<rparr>\<rparr>\<rparr>;
          (p, b) \<leftarrow> alloc_rootserver_obj seL4_TCBBits 1 b;
          let b = b\<lparr>rootserver := (rootserver b)\<lparr>rs_tcb := p\<rparr>\<rparr>;
          assert_opt (rstart (rootserver_mem b) = rend (rootserver_mem b));
          Some b }"

definition create_rootserver_objects :: "ptr \<Rightarrow> v_region_t \<Rightarrow> word_t \<Rightarrow> boot_t \<Rightarrow> boot_t option" where
  "create_rootserver_objects start it_v_reg extra_bi_size_bits b =
     (let cnode_size_bits = CONFIG_ROOT_CNODE_SIZE_BITS + seL4_SlotBits;
          max_bits = rootserver_max_size_bits extra_bi_size_bits;
          size = calculate_rootserver_size it_v_reg extra_bi_size_bits;
          b = b\<lparr>rootserver_mem := \<lparr>rstart = start, rend = start + size\<rparr>\<rparr>
      in do {
        b \<leftarrow> maybe_alloc_extra_bi max_bits extra_bi_size_bits b;
        (p, b) \<leftarrow> alloc_rootserver_obj cnode_size_bits 1 b;
        let b = b\<lparr>rootserver := (rootserver b)\<lparr>rs_cnode := p\<rparr>\<rparr>;
        b \<leftarrow> maybe_alloc_extra_bi seL4_VSpaceBits extra_bi_size_bits b;
        create_page_objects it_v_reg extra_bi_size_bits b })"

definition it_alloc_paging :: "boot_t \<Rightarrow> (ptr \<times> boot_t) option" where
  "it_alloc_paging b =
     (let paging = rs_paging (rootserver b);
          allocated = rstart paging;
          paging = paging\<lparr>rstart := allocated + BIT seL4_PageTableBits\<rparr>
      in do { assert_opt (rstart paging \<le> rend paging);
              Some (allocated, b\<lparr>rootserver := (rootserver b)\<lparr>rs_paging := paging\<rparr>\<rparr>) })"

section \<open>Free memory\<close>

text \<open>The number of the regions up to the last one that is not empty.\<close>

fun skip_empty :: "nat \<Rightarrow> region_t list \<Rightarrow> nat" where
  "skip_empty 0 xs = 0"
| "skip_empty (Suc i) xs = (if is_reg_empty (xs ! i) then skip_empty i xs else Suc i)"

definition set_freemem :: "nat \<Rightarrow> region_t \<Rightarrow> boot_t \<Rightarrow> boot_t option" where
  "set_freemem i reg b =
     do { xs \<leftarrow> arr_set (freemem (ndks_boot b)) i reg;
          Some (b\<lparr>ndks_boot := (ndks_boot b)\<lparr>freemem := xs\<rparr>\<rparr>) }"

fun place_rootserver :: "nat \<Rightarrow> word_t \<Rightarrow> word_t \<Rightarrow> v_region_t \<Rightarrow> word_t \<Rightarrow> boot_t \<Rightarrow> (bool \<times> boot_t) option" where
  "place_rootserver 0 sz max_bits it_v_reg extra_bi_size_bits b = Some (False, b)"
| "place_rootserver (Suc i) sz max_bits it_v_reg extra_bi_size_bits b =
     do { assert_opt (i < length (freemem (ndks_boot b)) - 1);
          e \<leftarrow> arr_get (freemem (ndks_boot b)) (i + 1);
          assert_opt (is_reg_empty e);
          reg \<leftarrow> arr_get (freemem (ndks_boot b)) i;
          let unaligned_start = rend reg - sz;
          let start = ROUND_DOWN unaligned_start max_bits;
          if unaligned_start \<le> rend reg \<and> start \<ge> rstart reg then
            do { b \<leftarrow> create_rootserver_objects start it_v_reg extra_bi_size_bits b;
                 b \<leftarrow> set_freemem (i + 1) \<lparr>rstart = start + sz, rend = rend reg\<rparr> b;
                 b \<leftarrow> set_freemem i (reg\<lparr>rend := start\<rparr>) b;
                 Some (True, b) }
          else
            do { b \<leftarrow> set_freemem (i + 1) reg b;
                 b \<leftarrow> set_freemem i REG_EMPTY b;
                 place_rootserver i sz max_bits it_v_reg extra_bi_size_bits b } }"

definition init_freemem ::
  "p_region_t list \<Rightarrow> region_t list \<Rightarrow> v_region_t \<Rightarrow> word_t \<Rightarrow> boot_t \<Rightarrow> (bool \<times> boot_t) option" where
  "init_freemem available resvd it_v_reg extra_bi_size_bits b =
     (if \<not> check_available_memory available then Some (False, b)
      else if \<not> check_reserved_memory resvd then Some (False, b)
      else
        let n = length (freemem (ndks_boot b));
            nb = (ndks_boot b)\<lparr>freemem := replicate n REG_EMPTY\<rparr>
        in do {
          assert_opt (length available \<le> n);
          nb \<leftarrow> free_regions (map avail_reg available) resvd nb;
          let b = b\<lparr>ndks_boot := nb\<rparr>;
          lastreg \<leftarrow> arr_get (freemem nb) (n - 1);
          if \<not> is_reg_empty lastreg then Some (False, b)
          else
            let sz = calculate_rootserver_size it_v_reg extra_bi_size_bits;
                max_bits = rootserver_max_size_bits extra_bi_size_bits
            in place_rootserver (skip_empty n (freemem nb)) sz max_bits it_v_reg extra_bi_size_bits b })"

section \<open>The objects tile the memory taken for them\<close>

text \<open>\<open>tiles p rs q\<close>: the regions lie one after the other from \<open>p\<close> to \<open>q\<close>.\<close>

fun tiles :: "word_t \<Rightarrow> region_t list \<Rightarrow> word_t \<Rightarrow> bool" where
  "tiles p [] q \<longleftrightarrow> p = q"
| "tiles p (r # rs) q \<longleftrightarrow> rstart r = p \<and> rstart r \<le> rend r \<and> tiles (rend r) rs q"

lemma tiles_le: "tiles p rs q \<Longrightarrow> p \<le> q"
  by (induction rs arbitrary: p) (auto intro: order_trans)

lemma tiles_covered: "tiles p rs q \<Longrightarrow> covered rs = {p..<q}"
proof (induction rs arbitrary: p)
  case (Cons r rs)
  then have "covered rs = {rend r..<q}" "rend r \<le> q" "rstart r = p" "p \<le> rend r"
    using tiles_le [of "rend r" rs q] by auto
  then show ?case by (auto simp: addrs_def)
qed auto

lemma tiles_ordered: "tiles p rs q \<Longrightarrow> ordered rs \<and> (\<forall>x \<in> set rs. p \<le> rstart x)"
proof (induction rs arbitrary: p)
  case (Cons r rs)
  then show ?case by (auto intro: order_trans)
qed simp

definition reg_at :: "ptr \<Rightarrow> nat \<Rightarrow> nat \<Rightarrow> region_t" where
  "reg_at base i j = \<lparr>rstart = base + of_nat i, rend = base + of_nat j\<rparr>"

definition spare :: "boot_t \<Rightarrow> ptr \<Rightarrow> nat \<Rightarrow> nat \<Rightarrow> bool" where
  "spare b base off tot \<longleftrightarrow> rootserver_mem b = reg_at base off tot"

lemma unat_offset: "unat base + tot < 2 ^ 64 \<Longrightarrow> off \<le> tot \<Longrightarrow> unat (base + of_nat off :: word_t) = unat base + off"
  by (simp add: unat_word_ariths unat_of_nat)

lemma alloc_obj:
  assumes sp: "spare b base off tot" and fit: "unat base + tot < 2 ^ 64" "off + unat n * 2 ^ unat bits \<le> tot"
    and al: "2 ^ unat bits dvd unat base + off" and bits: "unat bits < 64"
  obtains b' where "alloc_rootserver_obj bits n b = Some (base + of_nat off, b')"
    and "spare b' base (off + unat n * 2 ^ unat bits) tot"
    and "zeroed b' = zeroed b @ [reg_at base off (off + unat n * 2 ^ unat bits)]"
    and "rootserver b' = rootserver b" and "ndks_boot b' = ndks_boot b"
proof -
  let ?sz = "unat n * 2 ^ unat bits"
  have "unat ((base + of_nat off) mod BIT bits) = 0"
    using fit al bits by (simp add: unat_mod unat_offset [of base tot] unat_BIT mod_eq_0_iff_dvd)
  then have m: "(base + of_nat off) mod BIT bits = 0" by (simp add: unat_eq_0)
  have "n * BIT bits = of_nat (unat n * unat (BIT bits))" by simp
  then have nb: "n * BIT bits = of_nat ?sz" by (simp only: unat_BIT [OF bits])
  then have e: "base + of_nat off + n * BIT bits = base + of_nat (off + ?sz)" by simp
  have le: "base + of_nat (off + ?sz) \<le> base + of_nat tot"
    unfolding word_le_nat_alt using fit by (simp only: unat_offset [of base tot])
  show thesis
  proof (rule that)
    show "alloc_rootserver_obj bits n b = Some (base + of_nat off,
        b\<lparr>rootserver_mem := reg_at base (off + ?sz) tot, zeroed := zeroed b @ [reg_at base off (off + ?sz)]\<rparr>)"
      using sp m le e by (simp add: alloc_rootserver_obj_def spare_def reg_at_def Let_def add.assoc)
  qed (simp_all add: spare_def)
qed

text \<open>The memory the objects need, as a number.\<close>

definition rs_bytes :: "nat \<Rightarrow> nat \<Rightarrow> nat" where
  "rs_bytes extra n = 280576 + (if extra = 0 then 0 else 2 ^ extra) + n * 4096"

text \<open>What the allocation has made of the memory: the objects in it, their alignment, and that they
  lie one after the other and fill it.\<close>

definition object_at :: "region_t list \<Rightarrow> ptr \<Rightarrow> nat \<Rightarrow> bool" where
  "object_at zs p bits \<longleftrightarrow> \<lparr>rstart = p, rend = p + of_nat (2 ^ bits)\<rparr> \<in> set zs \<and> 2 ^ bits dvd unat p"

definition rootserver_ok :: "ptr \<Rightarrow> nat \<Rightarrow> nat \<Rightarrow> region_t list \<Rightarrow> rootserver_mem_t \<Rightarrow> bool" where
  "rootserver_ok start extra n zs rs \<longleftrightarrow>
     tiles start zs (start + of_nat (rs_bytes extra n)) \<and>
     object_at zs (rs_cnode rs) 18 \<and> object_at zs (rs_vspace rs) 12 \<and> object_at zs (rs_asid_pool rs) 12 \<and>
     object_at zs (rs_ipc_buf rs) 12 \<and> object_at zs (rs_boot_info rs) 12 \<and> object_at zs (rs_tcb rs) 11 \<and>
     (extra > 0 \<longrightarrow> object_at zs (rs_extra_bi rs) extra) \<and>
     rs_paging rs \<in> set zs \<and> 2 ^ 12 dvd unat (rstart (rs_paging rs)) \<and>
     rend (rs_paging rs) = rstart (rs_paging rs) + of_nat (n * 4096)"

lemma spare_rootserver [simp]: "spare (b\<lparr>rootserver := r\<rparr>) base off tot = spare b base off tot"
  by (simp add: spare_def)

lemma reg_at_object: "reg_at base off (off + 2 ^ k) = \<lparr>rstart = base + of_nat off, rend = base + of_nat off + of_nat (2 ^ k)\<rparr>"
  by (simp add: reg_at_def add.assoc)

lemma offset_le:
  assumes "unat base + tot < 2 ^ 64" and "i \<le> j" and "j \<le> tot"
  shows "base + of_nat i \<le> (base + of_nat j :: word_t)"
  unfolding word_le_nat_alt using assms by (simp only: unat_offset [of base tot])

lemma tiles_offsets:
  assumes "unat base + tot < 2 ^ 64" and "i \<le> j" and "j \<le> tot" and "tiles (base + of_nat j) zs q"
  shows "tiles (base + of_nat i) (reg_at base i j # zs) q"
  using assms(4) offset_le [OF assms(1-3)] by (simp add: reg_at_def)

lemma alloc_obj_to:
  assumes "spare b base off tot" and "unat base + tot < 2 ^ 64" and "2 ^ unat bits dvd unat base + off"
    and "unat bits < 64" and "off' = off + unat n * 2 ^ unat bits" and "off' \<le> tot"
  obtains b' where "alloc_rootserver_obj bits n b = Some (base + of_nat off, b')" and "spare b' base off' tot"
    and "zeroed b' = zeroed b @ [reg_at base off off']" and "rootserver b' = rootserver b" and "ndks_boot b' = ndks_boot b"
  by (rule alloc_obj [of b base off tot n bits]) (use assms in simp_all)

lemma alloc_page:
  assumes "spare b base off tot" and "unat base + tot < 2 ^ 64" and "4096 dvd unat base" and "4096 dvd off"
    and "off' = off + 4096" and "off' \<le> tot"
  obtains b' where "alloc_rootserver_obj 12 1 b = Some (base + of_nat off, b')" and "spare b' base off' tot"
    and "zeroed b' = zeroed b @ [reg_at base off off']" and "rootserver b' = rootserver b" and "ndks_boot b' = ndks_boot b"
  by (rule alloc_obj [of b base off tot 1 12]) (use assms in simp_all)

lemma object_at_reg:
  assumes "reg_at base off off' \<in> set zs" and "off' = off + 2 ^ k" and "unat base + off < 2 ^ 64" and "2 ^ k dvd unat base + off"
  shows "object_at zs (base + of_nat off) k"
  using assms unat_offset [of base off off] by (simp add: object_at_def reg_at_object)

lemma create_page_objects_correct:
  assumes sp: "spare b base off tot" and tot: "tot = off + unat (arch_get_n_paging it_v_reg) * 4096 + 18432"
    and fit: "unat base + tot < 2 ^ 64" and al: "4096 dvd unat base" "4096 dvd off"
    and hext: "extra < 12 \<or> rs_extra_bi (rootserver b) \<noteq> 0"
  obtains b' zs where "create_page_objects it_v_reg extra b = Some b'" and "zeroed b' = zeroed b @ zs"
    and "ndks_boot b' = ndks_boot b" and "tiles (base + of_nat off) zs (base + of_nat tot)"
    and "object_at zs (rs_vspace (rootserver b')) 12" and "object_at zs (rs_asid_pool (rootserver b')) 12"
    and "object_at zs (rs_ipc_buf (rootserver b')) 12" and "object_at zs (rs_boot_info (rootserver b')) 12"
    and "object_at zs (rs_tcb (rootserver b')) 11" and "rs_paging (rootserver b') \<in> set zs"
    and "4096 dvd unat (rstart (rs_paging (rootserver b')))"
    and "rend (rs_paging (rootserver b')) =
           rstart (rs_paging (rootserver b')) + of_nat (unat (arch_get_n_paging it_v_reg) * 4096)"
    and "rs_cnode (rootserver b') = rs_cnode (rootserver b)" and "rs_extra_bi (rootserver b') = rs_extra_bi (rootserver b)"
proof -
  let ?n = "unat (arch_get_n_paging it_v_reg)"
  have maybe: "maybe_alloc_extra_bi seL4_PageBits extra c = Some c"
    if "rs_extra_bi (rootserver c) = rs_extra_bi (rootserver b)" for c
    using hext that by (auto simp: maybe_alloc_extra_bi_def)
  note page = alloc_page [OF _ fit al(1)]
  let ?v = off and ?a = "off + 4096" and ?i = "off + 8192" and ?b = "off + 12288" and ?p = "off + 16384"
    and ?t = "off + 16384 + ?n * 4096"
  obtain b1 where b1: "alloc_rootserver_obj 12 1 b = Some (base + of_nat ?v, b1)" "spare b1 base ?a tot"
    "zeroed b1 = zeroed b @ [reg_at base ?v ?a]" "rootserver b1 = rootserver b" "ndks_boot b1 = ndks_boot b"
    by (rule page [OF sp al(2), of ?a]) (use tot in simp_all)
  let ?b1 = "b1\<lparr>rootserver := (rootserver b1)\<lparr>rs_vspace := base + of_nat ?v\<rparr>\<rparr>"
  obtain b2 where b2: "alloc_rootserver_obj 12 1 ?b1 = Some (base + of_nat ?a, b2)" "spare b2 base ?i tot"
    "zeroed b2 = zeroed ?b1 @ [reg_at base ?a ?i]" "rootserver b2 = rootserver ?b1" "ndks_boot b2 = ndks_boot ?b1"
    by (rule page [of ?b1 ?a ?i]) (use b1 al tot in simp_all)
  let ?b2 = "b2\<lparr>rootserver := (rootserver b2)\<lparr>rs_asid_pool := base + of_nat ?a\<rparr>\<rparr>"
  obtain b3 where b3: "alloc_rootserver_obj 12 1 ?b2 = Some (base + of_nat ?i, b3)" "spare b3 base ?b tot"
    "zeroed b3 = zeroed ?b2 @ [reg_at base ?i ?b]" "rootserver b3 = rootserver ?b2" "ndks_boot b3 = ndks_boot ?b2"
    by (rule page [of ?b2 ?i ?b]) (use b2 al tot in simp_all)
  let ?b3 = "b3\<lparr>rootserver := (rootserver b3)\<lparr>rs_ipc_buf := base + of_nat ?i\<rparr>\<rparr>"
  obtain b4 where b4: "alloc_rootserver_obj 12 1 ?b3 = Some (base + of_nat ?b, b4)" "spare b4 base ?p tot"
    "zeroed b4 = zeroed ?b3 @ [reg_at base ?b ?p]" "rootserver b4 = rootserver ?b3" "ndks_boot b4 = ndks_boot ?b3"
    by (rule page [of ?b3 ?b ?p]) (use b3 al tot in simp_all)
  let ?b4 = "b4\<lparr>rootserver := (rootserver b4)\<lparr>rs_boot_info := base + of_nat ?b\<rparr>\<rparr>"
  have alp: "2 ^ unat (12 :: word_t) dvd unat base + ?p" using al by simp
  obtain b5 where b5: "alloc_rootserver_obj 12 (arch_get_n_paging it_v_reg) ?b4 = Some (base + of_nat ?p, b5)"
    "spare b5 base ?t tot" "zeroed b5 = zeroed ?b4 @ [reg_at base ?p ?t]" "rootserver b5 = rootserver ?b4"
    "ndks_boot b5 = ndks_boot ?b4"
    by (rule alloc_obj_to [of ?b4 base ?p tot 12 ?t "arch_get_n_paging it_v_reg"]) (use b4 alp tot fit in simp_all)
  let ?b5 = "b5\<lparr>rootserver := (rootserver b5)\<lparr>rs_paging :=
      \<lparr>rstart = base + of_nat ?p, rend = base + of_nat ?p + arch_get_n_paging it_v_reg * BIT 12\<rparr>\<rparr>\<rparr>"
  have alt: "2048 dvd unat base + ?t"
    using al by (auto elim!: dvdE)
  obtain b6 where b6: "alloc_rootserver_obj 11 1 ?b5 = Some (base + of_nat ?t, b6)" "spare b6 base tot tot"
    "zeroed b6 = zeroed ?b5 @ [reg_at base ?t tot]" "rootserver b6 = rootserver ?b5" "ndks_boot b6 = ndks_boot ?b5"
    by (rule alloc_obj_to [of ?b5 base ?t tot 11 tot 1]) (use b5 alt tot fit in simp_all)
  let ?b6 = "b6\<lparr>rootserver := (rootserver b6)\<lparr>rs_tcb := base + of_nat ?t\<rparr>\<rparr>"
  let ?zs = "[reg_at base ?v ?a, reg_at base ?a ?i, reg_at base ?i ?b, reg_at base ?b ?p, reg_at base ?p ?t, reg_at base ?t tot]"
  have full: "rstart (rootserver_mem ?b6) = rend (rootserver_mem ?b6)"
    using b6(2) by (simp add: spare_def reg_at_def)
  have m: "maybe_alloc_extra_bi 12 extra ?b1 = Some ?b1"
    using b1 by (intro maybe) simp
  have run: "create_page_objects it_v_reg extra b = Some ?b6"
    unfolding create_page_objects_def Let_def
    by (simp only: b1(1) m b2(1) b3(1) b4(1) b5(1) b6(1) full bind_Some_conv prod.case simp_thms assert_opt_True)
  have nb: "arch_get_n_paging it_v_reg * BIT 12 = of_nat (?n * 4096)"
    by (simp add: BIT_def push_bit_eq_mult)
  have bound: "unat base + ?v < 2 ^ 64" "unat base + ?a < 2 ^ 64" "unat base + ?i < 2 ^ 64" "unat base + ?b < 2 ^ 64"
    "unat base + ?p < 2 ^ 64" "unat base + ?t < 2 ^ 64"
    using fit tot by simp_all
  have tl: "tiles (base + of_nat off) ?zs (base + of_nat tot)"
    by (intro tiles_offsets [OF fit]) (use tot in simp_all)
  have objs: "object_at ?zs (base + of_nat ?v) 12" "object_at ?zs (base + of_nat ?a) 12" "object_at ?zs (base + of_nat ?i) 12"
    "object_at ?zs (base + of_nat ?b) 12" "object_at ?zs (base + of_nat ?t) 11"
    by (rule object_at_reg [of base ?v ?a] object_at_reg [of base ?a ?i] object_at_reg [of base ?i ?b]
          object_at_reg [of base ?b ?p] object_at_reg [of base ?t tot]; use al alt bound tot in simp)+
  have rs: "rootserver ?b6 = (rootserver b)\<lparr>rs_vspace := base + of_nat ?v, rs_asid_pool := base + of_nat ?a,
      rs_ipc_buf := base + of_nat ?i, rs_boot_info := base + of_nat ?b, rs_tcb := base + of_nat ?t,
      rs_paging := reg_at base ?p ?t\<rparr>"
    by (simp add: b1(4) b2(4) b3(4) b4(4) b5(4) b6(4) nb reg_at_def add.assoc del: of_nat_add of_nat_mult)
       (simp add: add.assoc)
  have z: "zeroed ?b6 = zeroed b @ ?zs"
    by (simp add: b1(3) b2(3) b3(3) b4(3) b5(3) b6(3))
  have ndks: "ndks_boot ?b6 = ndks_boot b"
    by (simp add: b1(5) b2(5) b3(5) b4(5) b5(5) b6(5))
  have pal: "4096 dvd unat (rstart (reg_at base ?p ?t))"
    using unat_offset [of base ?p ?p] bound(5) al by (simp add: reg_at_def)
  have pend: "rend (reg_at base ?p ?t) = rstart (reg_at base ?p ?t) + of_nat (?n * 4096)"
    by (simp add: reg_at_def add.assoc)
  show thesis
    by (rule that [OF run z ndks tl])
       (use objs pal pend in \<open>simp_all add: rs del: of_nat_add of_nat_mult\<close>)
qed

lemma rs_bytes_size:
  fixes extra :: word_t
  assumes "unat extra < 64"
  shows "calculate_rootserver_size it_v_reg extra = of_nat (rs_bytes (unat extra) (unat (arch_get_n_paging it_v_reg)))"
proof -
  have pos: "0 < extra \<longleftrightarrow> unat extra \<noteq> 0"
    by (simp add: word_less_nat_alt)
  have b: "BIT extra = of_nat (2 ^ unat extra)"
    by (simp add: BIT_def push_bit_eq_mult)
  show ?thesis
    unfolding calculate_rootserver_size_def Let_def pos rs_bytes_def CONFIG_ROOT_CNODE_SIZE_BITS_def
    by (simp add: b BIT_def push_bit_eq_mult)
qed

text \<open>The places of the objects, by the size of the extra boot information: below \<open>2 ^ 18\<close> bytes it
  follows the root CNode, from \<open>2 ^ 18\<close> bytes on it precedes it.\<close>

lemma tiles_append: "tiles p xs q \<Longrightarrow> tiles q ys r \<Longrightarrow> tiles p (xs @ ys) r"
  by (induction xs arbitrary: p) auto

lemma object_at_mono: "object_at zs p k \<Longrightarrow> set zs \<subseteq> set ys \<Longrightarrow> object_at ys p k"
  by (auto simp: object_at_def)

definition extra_bytes :: "nat \<Rightarrow> nat" where
  "extra_bytes e = (if e = 0 then 0 else 2 ^ e)"

text \<open>The part of \<^verbatim>\<open>create_rootserver_objects\<close> before the page objects.\<close>

definition create_large_objects :: "word_t \<Rightarrow> boot_t \<Rightarrow> boot_t option" where
  "create_large_objects extra b =
     do { b \<leftarrow> maybe_alloc_extra_bi (rootserver_max_size_bits extra) extra b;
          (p, b) \<leftarrow> alloc_rootserver_obj 18 1 b;
          let b = b\<lparr>rootserver := (rootserver b)\<lparr>rs_cnode := p\<rparr>\<rparr>;
          maybe_alloc_extra_bi seL4_VSpaceBits extra b }"

lemma create_rootserver_objects_split:
  "create_rootserver_objects start it_v_reg extra b =
     do { b \<leftarrow> create_large_objects extra
                (b\<lparr>rootserver_mem := \<lparr>rstart = start, rend = start + calculate_rootserver_size it_v_reg extra\<rparr>\<rparr>);
          create_page_objects it_v_reg extra b }"
  by (simp add: create_rootserver_objects_def create_large_objects_def CONFIG_ROOT_CNODE_SIZE_BITS_def Let_def
      split_def Option.bind_assoc)

lemma max_size_bits: "rootserver_max_size_bits extra = (if extra < 18 then 18 else extra)"
  by (simp add: rootserver_max_size_bits_def CONFIG_ROOT_CNODE_SIZE_BITS_def Let_def)

lemma maybe_alloc_skip: "extra < cmp \<or> rs_extra_bi (rootserver b) \<noteq> 0 \<Longrightarrow> maybe_alloc_extra_bi cmp extra b = Some b"
  by (auto simp: maybe_alloc_extra_bi_def)

lemma create_large_objects_correct:
  fixes start :: ptr and extra :: word_t
  assumes sp: "spare b start 0 tot" and tot: "262144 + extra_bytes (unat extra) \<le> tot" and fit: "unat start + tot < 2 ^ 64"
    and al: "2 ^ 18 dvd unat start" "2 ^ unat extra dvd unat start"
    and extra: "unat extra = 0 \<or> 12 \<le> unat extra" and none: "rs_extra_bi (rootserver b) = 0" and start: "start \<noteq> 0"
    and e64: "unat extra < 64"
  obtains b' zs where "create_large_objects extra b = Some b'" and "zeroed b' = zeroed b @ zs"
    and "ndks_boot b' = ndks_boot b" and "tiles start zs (start + of_nat (262144 + extra_bytes (unat extra)))"
    and "spare b' start (262144 + extra_bytes (unat extra)) tot"
    and "object_at zs (rs_cnode (rootserver b')) 18"
    and "unat extra > 0 \<longrightarrow> object_at zs (rs_extra_bi (rootserver b')) (unat extra)"
    and "extra < 12 \<or> rs_extra_bi (rootserver b') \<noteq> 0"
proof -
  let ?e = "unat extra"
  consider (none) "?e = 0" | (small) "12 \<le> ?e" "?e < 18" | (large) "18 \<le> ?e"
    using extra by linarith
  then show thesis
  proof cases
    case none
    then have e: "extra = 0" by (simp add: unat_eq_0)
    obtain b1 where b1: "alloc_rootserver_obj 18 1 b = Some (start + of_nat 0, b1)" "spare b1 start 262144 tot"
      "zeroed b1 = zeroed b @ [reg_at start 0 262144]" "rootserver b1 = rootserver b" "ndks_boot b1 = ndks_boot b"
      by (rule alloc_obj_to [OF sp fit, of 18 262144 1]) (use al tot in simp_all)
    let ?b1 = "b1\<lparr>rootserver := (rootserver b1)\<lparr>rs_cnode := start\<rparr>\<rparr>"
    have "create_large_objects extra b = Some ?b1"
      using b1(1) by (simp add: create_large_objects_def e max_size_bits maybe_alloc_skip)
    then show thesis
    proof (rule that)
      show "tiles start [reg_at start 0 262144] (start + of_nat (262144 + extra_bytes ?e))"
        using offset_le [OF fit, of 0 262144] tot none by (simp add: extra_bytes_def reg_at_def)
      show "object_at [reg_at start 0 262144] (rs_cnode (rootserver ?b1)) 18"
        using al by (simp add: object_at_def reg_at_def)
    qed (use b1 e in \<open>simp_all add: extra_bytes_def\<close>)
  next
    case small
    then have x: "extra_bytes ?e = 2 ^ ?e" and lt: "extra < 18" "\<not> 18 \<le> extra" "\<not> extra < 12" "12 \<le> extra"
      by (simp_all add: extra_bytes_def word_less_nat_alt word_le_nat_alt)
    have ne: "start + 262144 \<noteq> 0"
      using unat_offset [OF fit, of 262144] tot by (auto simp: unat_eq_0 dest: arg_cong [of _ _ unat])
    obtain b1 where b1: "alloc_rootserver_obj 18 1 b = Some (start + of_nat 0, b1)" "spare b1 start 262144 tot"
      "zeroed b1 = zeroed b @ [reg_at start 0 262144]" "rootserver b1 = rootserver b" "ndks_boot b1 = ndks_boot b"
      by (rule alloc_obj_to [OF sp fit, of 18 262144 1]) (use al tot in simp_all)
    let ?b1 = "b1\<lparr>rootserver := (rootserver b1)\<lparr>rs_cnode := start\<rparr>\<rparr>"
    have "2 ^ ?e dvd (2 ^ 18 :: nat)" using small by (intro le_imp_power_dvd) simp
    then have al2: "2 ^ ?e dvd unat start + 262144" using al(2) by simp
    obtain b2 where b2: "alloc_rootserver_obj extra 1 ?b1 = Some (start + of_nat 262144, b2)"
      "spare b2 start (262144 + 2 ^ ?e) tot"
      "zeroed b2 = zeroed ?b1 @ [reg_at start 262144 (262144 + 2 ^ ?e)]" "rootserver b2 = rootserver ?b1" "ndks_boot b2 = ndks_boot ?b1"
      by (rule alloc_obj_to [of ?b1 start 262144 tot extra "262144 + 2 ^ ?e" 1]) (use b1 al2 tot fit e64 x in simp_all)
    let ?b2 = "b2\<lparr>rootserver := (rootserver b2)\<lparr>rs_extra_bi := start + 262144\<rparr>\<rparr>"
    let ?zs = "[reg_at start 0 262144, reg_at start 262144 (262144 + 2 ^ ?e)]"
    have "create_large_objects extra b = Some ?b2"
      using b1(1,4) b2(1) lt none by (simp add: create_large_objects_def max_size_bits maybe_alloc_extra_bi_def Let_def)
    then show thesis
    proof (rule that)
      show "tiles start ?zs (start + of_nat (262144 + extra_bytes ?e))"
        using offset_le [OF fit, of 0 262144] offset_le [OF fit, of 262144 "262144 + 2 ^ ?e"] tot x
        by (simp add: reg_at_def add.assoc)
      show "object_at ?zs (rs_cnode (rootserver ?b2)) 18"
        using al b2(4) by (simp add: object_at_def reg_at_def)
      have "object_at ?zs (start + of_nat 262144) ?e"
        by (rule object_at_reg [of start 262144 "262144 + 2 ^ ?e"]) (use al2 fit tot in simp_all)
      then show "?e > 0 \<longrightarrow> object_at ?zs (rs_extra_bi (rootserver ?b2)) ?e" by simp
    qed (use b1 b2 x ne in simp_all)
  next
    case large
    then have x: "extra_bytes ?e = 2 ^ ?e" and lt: "\<not> extra < 18" "\<not> extra < 12" "12 \<le> extra"
      by (simp_all add: extra_bytes_def word_less_nat_alt word_le_nat_alt)
    obtain b1 where b1: "alloc_rootserver_obj extra 1 b = Some (start + of_nat 0, b1)" "spare b1 start (2 ^ ?e) tot"
      "zeroed b1 = zeroed b @ [reg_at start 0 (2 ^ ?e)]" "rootserver b1 = rootserver b" "ndks_boot b1 = ndks_boot b"
      by (rule alloc_obj_to [OF sp fit, of extra "2 ^ ?e" 1]) (use al tot e64 x in simp_all)
    let ?b1 = "b1\<lparr>rootserver := (rootserver b1)\<lparr>rs_extra_bi := start\<rparr>\<rparr>"
    have "(2 ^ 18 :: nat) dvd 2 ^ ?e" using large by (intro le_imp_power_dvd) simp
    then have al2: "262144 dvd unat start + 2 ^ ?e" using al(1) by simp
    obtain b2 where b2: "alloc_rootserver_obj 18 1 ?b1 = Some (start + of_nat (2 ^ ?e), b2)"
      "spare b2 start (262144 + 2 ^ ?e) tot"
      "zeroed b2 = zeroed ?b1 @ [reg_at start (2 ^ ?e) (262144 + 2 ^ ?e)]" "rootserver b2 = rootserver ?b1" "ndks_boot b2 = ndks_boot ?b1"
      by (rule alloc_obj_to [of ?b1 start "2 ^ ?e" tot 18 "262144 + 2 ^ ?e" 1]) (use b1 al2 tot fit x in simp_all)
    let ?b2 = "b2\<lparr>rootserver := (rootserver b2)\<lparr>rs_cnode := start + of_nat (2 ^ ?e)\<rparr>\<rparr>"
    let ?zs = "[reg_at start 0 (2 ^ ?e), reg_at start (2 ^ ?e) (262144 + 2 ^ ?e)]"
    have "create_large_objects extra b = Some ?b2"
      using b1(1) b2(1,4) lt none start
      by (simp add: create_large_objects_def max_size_bits maybe_alloc_extra_bi_def Let_def)
    then show thesis
    proof (rule that)
      show "tiles start ?zs (start + of_nat (262144 + extra_bytes ?e))"
        using offset_le [OF fit, of 0 "2 ^ ?e"] offset_le [OF fit, of "2 ^ ?e" "262144 + 2 ^ ?e"] tot x
        by (simp add: reg_at_def add.assoc)
      have "object_at ?zs (start + of_nat (2 ^ ?e)) 18"
        by (rule object_at_reg [of start "2 ^ ?e" "262144 + 2 ^ ?e"]) (use al2 fit tot x in simp_all)
      then show "object_at ?zs (rs_cnode (rootserver ?b2)) 18" by simp
      show "?e > 0 \<longrightarrow> object_at ?zs (rs_extra_bi (rootserver ?b2)) ?e"
        using al b2(4) by (simp add: object_at_def reg_at_def)
    qed (use b1 b2 x start in simp_all)
  qed
qed

lemma create_rootserver_objects_correct:
  fixes start :: ptr and extra :: word_t and it_v_reg :: v_region_t
  assumes fit: "unat start + rs_bytes (unat extra) (unat (arch_get_n_paging it_v_reg)) < 2 ^ 64"
    and al: "2 ^ 18 dvd unat start" "2 ^ unat extra dvd unat start"
    and extra: "unat extra = 0 \<or> 12 \<le> unat extra" and none: "rs_extra_bi (rootserver b) = 0" and start: "start \<noteq> 0"
  obtains b' zs where "create_rootserver_objects start it_v_reg extra b = Some b'"
    and "zeroed b' = zeroed b @ zs" and "ndks_boot b' = ndks_boot b"
    and "rootserver_ok start (unat extra) (unat (arch_get_n_paging it_v_reg)) zs (rootserver b')"
proof -
  let ?e = "unat extra" and ?n = "unat (arch_get_n_paging it_v_reg)"
  let ?tot = "rs_bytes ?e ?n" and ?off = "262144 + extra_bytes ?e"
  have tot: "?tot = ?off + ?n * 4096 + 18432" by (simp add: rs_bytes_def extra_bytes_def)
  have e64: "?e < 64"
  proof (rule ccontr)
    assume "\<not> ?e < 64"
    then have "(2 :: nat) ^ 64 \<le> 2 ^ ?e" by (intro power_increasing) auto
    with \<open>\<not> ?e < 64\<close> have "2 ^ 64 \<le> ?tot" by (simp add: rs_bytes_def)
    with fit show False by linarith
  qed
  let ?b = "b\<lparr>rootserver_mem := \<lparr>rstart = start, rend = start + calculate_rootserver_size it_v_reg extra\<rparr>\<rparr>"
  have sp: "spare ?b start 0 ?tot"
    using rs_bytes_size [OF e64] by (simp add: spare_def reg_at_def)
  have le: "?off \<le> ?tot" using tot by simp
  have none': "rs_extra_bi (rootserver ?b) = 0" using none by simp
  obtain b1 zs1 where b1: "create_large_objects extra ?b = Some b1" "zeroed b1 = zeroed ?b @ zs1"
    "ndks_boot b1 = ndks_boot ?b" "tiles start zs1 (start + of_nat ?off)" "spare b1 start ?off ?tot"
    "object_at zs1 (rs_cnode (rootserver b1)) 18" "?e > 0 \<longrightarrow> object_at zs1 (rs_extra_bi (rootserver b1)) ?e"
    "extra < 12 \<or> rs_extra_bi (rootserver b1) \<noteq> 0"
    by (rule create_large_objects_correct [OF sp le fit al extra none' start e64])
  have "4096 dvd unat start" using al(1) by (rule dvd_trans [rotated]) simp
  moreover have "4096 dvd extra_bytes ?e"
    using extra le_imp_power_dvd [of 12 ?e "2 :: nat"] by (auto simp: extra_bytes_def)
  ultimately have pg: "4096 dvd unat start" "4096 dvd ?off" by simp_all
  obtain b2 zs2 where b2: "create_page_objects it_v_reg extra b1 = Some b2" "zeroed b2 = zeroed b1 @ zs2"
    "ndks_boot b2 = ndks_boot b1" "tiles (start + of_nat ?off) zs2 (start + of_nat ?tot)"
    "object_at zs2 (rs_vspace (rootserver b2)) 12" "object_at zs2 (rs_asid_pool (rootserver b2)) 12"
    "object_at zs2 (rs_ipc_buf (rootserver b2)) 12" "object_at zs2 (rs_boot_info (rootserver b2)) 12"
    "object_at zs2 (rs_tcb (rootserver b2)) 11" "rs_paging (rootserver b2) \<in> set zs2"
    "4096 dvd unat (rstart (rs_paging (rootserver b2)))"
    "rend (rs_paging (rootserver b2)) = rstart (rs_paging (rootserver b2)) + of_nat (?n * 4096)"
    "rs_cnode (rootserver b2) = rs_cnode (rootserver b1)" "rs_extra_bi (rootserver b2) = rs_extra_bi (rootserver b1)"
    by (rule create_page_objects_correct [OF b1(5) tot fit pg b1(8)])
  show thesis
  proof (rule that)
    show "create_rootserver_objects start it_v_reg extra b = Some b2"
      using b1(1) b2(1) by (simp add: create_rootserver_objects_split)
    show "zeroed b2 = zeroed b @ (zs1 @ zs2)" "ndks_boot b2 = ndks_boot b"
      using b1 b2 by simp_all
    show "rootserver_ok start ?e ?n (zs1 @ zs2) (rootserver b2)"
      using tiles_append [OF b1(4) b2(4)] b1(6,7) b2(5-14)
      by (auto simp: rootserver_ok_def intro: object_at_mono)
  qed
qed

end
