(* ===== verification/Boot_Freemem.thy ===== *)
theory Boot_Freemem
  imports Boot_Rootserver
begin

text \<open>
  What \<^verbatim>\<open>init_freemem\<close> (\<^verbatim>\<open>src/kernel/boot.c\<close>) promises: free memory is the available
  memory less the reserved regions, in order and without overlap, except for one piece that the
  objects of the initial thread tile; and all of it is marked as reserved, so that it does not
  become device memory.
\<close>

section \<open>The regions are in order and in the kernel window\<close>

lemma check_available_loop_ordered:
  "check_available_loop prev rs \<Longrightarrow>
   ordered rs \<and> (\<forall>x \<in> set rs. rstart x < rend x) \<and> (\<forall>p. prev = Some p \<longrightarrow> (\<forall>x \<in> set rs. rend p \<le> rstart x))"
proof (induction prev rs rule: check_available_loop.induct)
  case (2 prev r rs)
  then have r: "rstart r < rend r" "check_available_loop (Some r) rs" "\<And>p. prev = Some p \<Longrightarrow> rend p \<le> rstart r"
    by (auto split: if_splits option.splits)
  with 2 have "ordered rs" "\<forall>x \<in> set rs. rstart x < rend x" "\<forall>x \<in> set rs. rend r \<le> rstart x"
    by (auto split: if_splits)
  moreover have "rend p \<le> rstart x" if "prev = Some p" "x \<in> set rs" for p x
  proof -
    have "rend p \<le> rstart r" using r(3) that by simp
    also have "\<dots> \<le> rend r" using r(1) by simp
    also have "\<dots> \<le> rstart x" using calculation that \<open>\<forall>x \<in> set rs. rend r \<le> rstart x\<close> by simp
    finally show ?thesis .
  qed
  ultimately show ?case using r by auto
qed simp

lemma check_reserved_loop_ordered:
  "check_reserved_loop prev rs \<Longrightarrow>
   ordered rs \<and> (\<forall>p. prev = Some p \<longrightarrow> (\<forall>x \<in> set rs. rend p \<le> rstart x))"
proof (induction prev rs rule: check_reserved_loop.induct)
  case (2 prev r rs)
  then have r: "rstart r \<le> rend r" "check_reserved_loop (Some r) rs" "\<And>p. prev = Some p \<Longrightarrow> rend p \<le> rstart r"
    by (auto split: if_splits option.splits)
  with 2 have "ordered rs" "\<forall>x \<in> set rs. rend r \<le> rstart x"
    by (auto split: if_splits)
  moreover have "rend p \<le> rstart x" if "prev = Some p" "x \<in> set rs" for p x
  proof -
    have "rend p \<le> rstart r" using r(3) that by simp
    also have "\<dots> \<le> rend r" using r(1) by simp
    also have "\<dots> \<le> rstart x" using that \<open>\<forall>x \<in> set rs. rend r \<le> rstart x\<close> by simp
    finally show ?thesis .
  qed
  ultimately show ?case using r by auto
qed simp

lemma ceiling_min: "ceiling_kernel_window (ptrFromPAddr p) = ptrFromPAddr (min p PADDR_TOP)"
proof -
  have "ptrFromPAddr PADDR_TOP = PPTR_TOP" by (simp add: ptrFromPAddr_def PADDR_TOP_def)
  then show ?thesis by (auto simp: ceiling_kernel_window_def min_def)
qed

lemma unat_ceiling: "unat (ceiling_kernel_window (ptrFromPAddr p)) = min (unat p) 0x7fc0000000 + 0xffffff8000000000"
proof -
  have top: "PADDR_TOP = 0x7fc0000000"
    by (simp add: PADDR_TOP_def PPTR_TOP_def PPTR_BASE_OFFSET_def PPTR_BASE_def PADDR_BASE_def)
  have off: "PPTR_BASE_OFFSET = 0xffffff8000000000"
    by (simp add: PPTR_BASE_OFFSET_def PPTR_BASE_def PADDR_BASE_def)
  have "unat (min p PADDR_TOP) = min (unat p) 0x7fc0000000"
    by (simp add: top min_def word_le_nat_alt)
  then have "unat (ptrFromPAddr (min p PADDR_TOP)) = min (unat p) 0x7fc0000000 + 0xffffff8000000000"
    unfolding ptrFromPAddr_def off unat_word_ariths by simp
  then show ?thesis by (simp only: ceiling_min)
qed

lemma avail_reg_mono: "p \<le> q \<Longrightarrow> ceiling_kernel_window (ptrFromPAddr p) \<le> ceiling_kernel_window (ptrFromPAddr q)"
  by (simp add: word_le_nat_alt unat_ceiling min_def)

lemma avail_reg_window: "PPTR_BASE \<le> ceiling_kernel_window (ptrFromPAddr p)"
  by (simp add: word_le_nat_alt unat_ceiling PPTR_BASE_def)

lemma avail_reg_ordered: "ordered rs \<Longrightarrow> ordered (map avail_reg rs)"
  by (induction rs) (auto simp: avail_reg_def paddr_to_pptr_reg_def Let_def intro: avail_reg_mono)

lemma carve_covered:
  assumes "ordered rvs"
  shows "covered (carve avs rvs) = covered avs - covered rvs"
  by (induction avs) (auto simp: carve_one_covered [OF assms])

lemma carve_within: "ordered rvs \<Longrightarrow> x \<in> set (carve avs rvs) \<Longrightarrow> \<exists>a \<in> set avs. rstart a \<le> rstart x \<and> rend x \<le> rend a"
  using carve_one_within by (fastforce simp: carve_def)

lemma carve_touching:
  assumes "ordered avs" and "ordered rvs"
  shows "touching (carve avs rvs)"
  using assms(1)
proof (induction avs)
  case (Cons a avs)
  have "rend x \<le> rstart y" if x: "x \<in> set (carve_one a rvs)" and y: "y \<in> set (carve avs rvs)" for x y
  proof -
    obtain c where "c \<in> set avs" "rstart c \<le> rstart y" using carve_within [OF assms(2) y] by auto
    moreover have "rend x \<le> rend a" using carve_one_within [OF assms(2)] x by auto
    moreover have "rend a \<le> rstart c" using Cons.prems \<open>c \<in> set avs\<close> by auto
    ultimately show ?thesis by order
  qed
  with Cons carve_one_within [OF assms(2), of a] show ?case by (auto simp: regions_by_append)
qed simp

section \<open>Taking memory for the objects of the initial thread\<close>

lemma ROUND_DOWN_aligned:
  assumes "unat m < 64"
  shows "unat (ROUND_DOWN u m) \<le> unat u" and "2 ^ unat m dvd unat (ROUND_DOWN u m)"
proof -
  have "unat u div 2 ^ unat m * 2 ^ unat m \<le> unat u" by simp
  also have "\<dots> < 2 ^ 64" using unsigned_less [where 'a = nat, of u] by simp
  finally have "unat u div 2 ^ unat m * 2 ^ unat m < 2 ^ 64" .
  then have "unat (ROUND_DOWN u m) = unat u div 2 ^ unat m * 2 ^ unat m"
    by (simp add: ROUND_DOWN_def shiftl_def push_bit_eq_mult unat_word_ariths unat_shiftr unat_p2 assms)
  then show "unat (ROUND_DOWN u m) \<le> unat u" "2 ^ unat m dvd unat (ROUND_DOWN u m)"
    by simp_all
qed

lemma no_underflow: "a - b \<le> a \<Longrightarrow> b \<le> (a :: word_t) \<and> unat (a - b) = unat a - unat b"
  by (simp add: word_sub_le_iff unat_sub)

text \<open>\<open>placed\<close>: the objects of the initial thread lie in one of the free regions, which is split around
  them; the table of free regions is that of before, with \<open>tail\<close> after it.\<close>

definition placed :: "region_t list \<Rightarrow> region_t list \<Rightarrow> word_t \<Rightarrow> nat \<Rightarrow> nat \<Rightarrow> boot_t \<Rightarrow> boot_t \<Rightarrow> bool" where
  "placed fs tail sz e n b b' \<longleftrightarrow> (\<exists>pre r post start zs.
     fs = pre @ r # post \<and>
     freemem (ndks_boot b') = pre @ r\<lparr>rend := start\<rparr> # \<lparr>rstart = start + sz, rend = rend r\<rparr> # post @ tail \<and>
     rstart r \<le> start \<and> start + sz \<le> rend r \<and> zeroed b' = zeroed b @ zs \<and>
     rootserver_ok start e n zs (rootserver b'))"

lemma placed_here:
  assumes "freemem (ndks_boot b') = fs @ r\<lparr>rend := start\<rparr> # \<lparr>rstart = start + sz, rend = rend r\<rparr> # tail"
    and "rstart r \<le> start" and "start + sz \<le> rend r" and "zeroed b' = zeroed b @ zs"
    and "rootserver_ok start e n zs (rootserver b')"
  shows "placed (fs @ [r]) tail sz e n b b'"
  unfolding placed_def
  by (rule exI [of _ fs], rule exI [of _ r], rule exI [of _ "[]"], rule exI [of _ start], rule exI [of _ zs])
    (use assms in simp)

lemma placed_later:
  assumes "placed fs (r # tail) sz e n b b'"
  shows "placed (fs @ [r]) tail sz e n b b'"
proof -
  from assms obtain pre r' post start zs where x: "fs = pre @ r' # post"
    "freemem (ndks_boot b') = pre @ r'\<lparr>rend := start\<rparr> # \<lparr>rstart = start + sz, rend = rend r'\<rparr> # post @ r # tail"
    "rstart r' \<le> start" "start + sz \<le> rend r'" "zeroed b' = zeroed b @ zs" "rootserver_ok start e n zs (rootserver b')"
    unfolding placed_def by blast
  show ?thesis
    unfolding placed_def
    by (rule exI [of _ pre], rule exI [of _ r'], rule exI [of _ "post @ [r]"], rule exI [of _ start], rule exI [of _ zs])
      (use x in simp)
qed

text \<open>A region from whose end the objects can be taken.\<close>

definition room_for :: "word_t \<Rightarrow> word_t \<Rightarrow> region_t \<Rightarrow> bool" where
  "room_for sz m r \<longleftrightarrow> rend r - sz \<le> rend r \<and> rstart r \<le> ROUND_DOWN (rend r - sz) m"

lemma place_rootserver_correct:
  fixes extra :: word_t and it_v_reg :: v_region_t
  defines "e \<equiv> unat extra" and "sz \<equiv> calculate_rootserver_size it_v_reg extra"
  assumes free: "freemem (ndks_boot b) = fs @ REG_EMPTY # tail"
    and win: "\<And>x. x \<in> set fs \<Longrightarrow> PPTR_BASE \<le> rstart x"
    and extra: "e = 0 \<or> 12 \<le> e" and e64: "e < 64"
    and small: "rs_bytes e (unat (arch_get_n_paging it_v_reg)) < 2 ^ 64" and none: "rs_extra_bi (rootserver b) = 0"
  shows "\<exists>ok b'. place_rootserver (length fs) sz (rootserver_max_size_bits extra) it_v_reg extra b = Some (ok, b') \<and>
     ndks_boot b' = (ndks_boot b)\<lparr>freemem := freemem (ndks_boot b')\<rparr> \<and>
     ok = (\<exists>x \<in> set fs. room_for sz (rootserver_max_size_bits extra) x) \<and>
     (ok \<longrightarrow> placed fs tail sz e (unat (arch_get_n_paging it_v_reg)) b b')"
  using free win none
proof (induction fs arbitrary: b tail rule: rev_induct)
  case Nil
  then show ?case by (intro exI [of _ False] exI [of _ b]) simp
next
  case (snoc r fs)
  let ?m = "rootserver_max_size_bits extra" and ?nb = "ndks_boot b" and ?n = "unat (arch_get_n_paging it_v_reg)"
  let ?u = "rend r - sz" and ?i = "length fs"
  let ?start = "ROUND_DOWN ?u ?m"
  have acc: "freemem ?nb ! Suc ?i = REG_EMPTY" "freemem ?nb ! ?i = r" "Suc ?i < length (freemem ?nb)"
    "?i < length (freemem ?nb) - 1"
    using snoc.prems(1) by (simp_all add: nth_append)
  have emp: "is_reg_empty REG_EMPTY" by (simp add: is_reg_empty_def REG_EMPTY_def)
  have upd: "(freemem ?nb)[Suc ?i := x, ?i := y] = fs @ y # x # tail" for x y
    using snoc.prems(1) by (simp add: list_update_append)
  have szn: "unat sz = rs_bytes e ?n"
    using rs_bytes_size [of extra it_v_reg] e64 small by (simp add: e_def sz_def unat_of_nat)
  show ?case
  proof (cases "?u \<le> rend r \<and> ?start \<ge> rstart r")
    case True
    have m: "unat ?m = max 18 e" "unat ?m < 64"
      using e64 by (auto simp: max_size_bits e_def word_less_nat_alt)
    note rd = ROUND_DOWN_aligned [OF m(2), of ?u]
    have u: "unat ?u = unat (rend r) - unat sz" "unat sz \<le> unat (rend r)"
      using no_underflow [of "rend r" sz] True by (auto simp: word_le_nat_alt)
    have inside: "unat ?start + unat sz \<le> unat (rend r)" using rd(1) u by linarith
    then have fit: "unat ?start + rs_bytes e ?n < 2 ^ 64"
      using unsigned_less [where 'a = nat, of "rend r"] by (simp add: szn)
    have al: "2 ^ 18 dvd unat ?start" "2 ^ e dvd unat ?start"
      using power_le_dvd [OF rd(2) [unfolded m(1)], of 18] power_le_dvd [OF rd(2) [unfolded m(1)], of e] by simp_all
    have ne: "?start \<noteq> 0" using True snoc.prems(2) [of r] by (auto simp: PPTR_BASE_def word_le_nat_alt)
    obtain b1 zs where b1: "create_rootserver_objects ?start it_v_reg extra b = Some b1" "zeroed b1 = zeroed b @ zs"
      "ndks_boot b1 = ndks_boot b" "rootserver_ok ?start e ?n zs (rootserver b1)"
      by (rule create_rootserver_objects_correct [of ?start extra it_v_reg b])
        (use fit al extra snoc.prems(3) ne in \<open>simp_all add: e_def\<close>)
    have le: "?start + sz \<le> rend r"
    proof -
      have "unat (?start + sz) = unat ?start + unat sz"
        using inside unsigned_less [where 'a = nat, of "rend r"] by (simp add: unat_word_ariths)
      with inside show ?thesis by (simp add: word_le_nat_alt)
    qed
    let ?free = "fs @ r\<lparr>rend := ?start\<rparr> # \<lparr>rstart = ?start + sz, rend = rend r\<rparr> # tail"
    let ?b = "b1\<lparr>ndks_boot := ?nb\<lparr>freemem := ?free\<rparr>\<rparr>"
    have "place_rootserver (Suc ?i) sz ?m it_v_reg extra b = Some (True, ?b)"
      using True acc emp b1(1,3) by (simp add: Let_def set_freemem_def upd)
    moreover have "placed (fs @ [r]) tail sz e ?n b ?b"
      by (rule placed_here [where start = ?start and zs = zs]) (use True le b1 in simp_all)
    moreover have "room_for sz ?m r" using True by (simp add: room_for_def)
    ultimately show ?thesis
      by (intro exI [of _ True] exI [of _ ?b]) simp
  next
    case False
    let ?b = "b\<lparr>ndks_boot := ?nb\<lparr>freemem := fs @ REG_EMPTY # r # tail\<rparr>\<rparr>"
    have "place_rootserver (Suc ?i) sz ?m it_v_reg extra b = place_rootserver ?i sz ?m it_v_reg extra ?b"
      using False acc emp by (auto simp: Let_def set_freemem_def upd)
    moreover have "\<exists>ok b'. place_rootserver ?i sz ?m it_v_reg extra ?b = Some (ok, b') \<and>
        ndks_boot b' = (ndks_boot ?b)\<lparr>freemem := freemem (ndks_boot b')\<rparr> \<and>
        ok = (\<exists>x \<in> set fs. room_for sz ?m x) \<and> (ok \<longrightarrow> placed fs (r # tail) sz e ?n ?b b')"
      by (rule snoc.IH) (use snoc.prems in auto)
    then obtain ok b' where b': "place_rootserver ?i sz ?m it_v_reg extra ?b = Some (ok, b')"
      "ndks_boot b' = (ndks_boot ?b)\<lparr>freemem := freemem (ndks_boot b')\<rparr>"
      "ok \<longrightarrow> placed fs (r # tail) sz e ?n ?b b'" "ok = (\<exists>x \<in> set fs. room_for sz ?m x)" by blast
    have "ok \<longrightarrow> placed (fs @ [r]) tail sz e ?n b b'"
      using b'(3) placed_later [of fs r tail sz e ?n ?b b'] by (simp add: placed_def)
    moreover have "ndks_boot b' = ?nb\<lparr>freemem := freemem (ndks_boot b')\<rparr>"
      using b'(2) by (cases "ndks_boot b'") simp
    moreover have "\<not> room_for sz ?m r" using False by (simp add: room_for_def)
    ultimately show ?thesis
      using b'(1,4) by (intro exI [of _ ok] exI [of _ b']) simp
  qed
qed

section \<open>The result\<close>

definition freemem_promise ::
  "p_region_t list \<Rightarrow> region_t list \<Rightarrow> v_region_t \<Rightarrow> word_t \<Rightarrow> boot_t \<Rightarrow> bool \<Rightarrow> boot_t \<Rightarrow> bool" where
  "freemem_promise available resvd it_v_reg extra b ok b' \<longleftrightarrow>
     covered (resv (ndks_boot b')) =
       covered (resv (ndks_boot b)) \<union> addrFromPPtr ` (covered (map avail_reg available) \<union> covered resvd) \<and>
     apart (resv (ndks_boot b')) \<and>
     ok = (\<exists>x \<in> set (carve (map avail_reg available) resvd).
       room_for (calculate_rootserver_size it_v_reg extra) (rootserver_max_size_bits extra) x) \<and>
     (ok \<longrightarrow> (\<exists>start zs. zeroed b' = zeroed b @ zs \<and>
        rootserver_ok start (unat extra) (unat (arch_get_n_paging it_v_reg)) zs (rootserver b') \<and>
        ordered (filter (\<lambda>x. \<not> is_reg_empty x) (freemem (ndks_boot b'))) \<and>
        covered (freemem (ndks_boot b')) \<inter> covered zs = {} \<and>
        covered (freemem (ndks_boot b')) \<union> covered zs = covered (map avail_reg available) - covered resvd))"

lemma skip_empty_used:
  "(\<And>x. x \<in> set fs \<Longrightarrow> rstart x < rend x) \<Longrightarrow> skip_empty (length fs + k) (fs @ replicate k REG_EMPTY @ xs) = length fs"
proof (induction k arbitrary: xs)
  case 0
  show ?case
  proof (cases fs rule: rev_cases)
    case (snoc ys y)
    with 0 [of y] show ?thesis by (auto simp: is_reg_empty_def)
  qed simp
next
  case (Suc k)
  have e: "(fs @ replicate (Suc k) REG_EMPTY @ xs) ! (length fs + k) = REG_EMPTY"
    by (simp only: nth_append) (simp add: nth_append del: replicate_Suc)
  have "skip_empty (length fs + k) (fs @ replicate (Suc k) REG_EMPTY @ xs) = length fs"
    using Suc.IH [of "REG_EMPTY # xs"] Suc.prems by (simp add: replicate_append_same [symmetric])
  with e show ?case by (simp add: is_reg_empty_def REG_EMPTY_def)
qed

lemma ordered_append:
  "ordered (xs @ ys) \<longleftrightarrow> ordered xs \<and> ordered ys \<and> (\<forall>x \<in> set xs. \<forall>y \<in> set ys. rend x \<le> rstart y)"
  by (auto simp: ordered_def sorted_wrt_append)

lemma touching_ordered: "touching rs \<Longrightarrow> ordered rs"
  by (auto simp: regions_by_def ordered_def)

lemma ordered_filter: "ordered rs \<Longrightarrow> ordered (filter P rs)"
  by (auto simp: ordered_def sorted_wrt_filter)

text \<open>A piece taken out of one of the regions.\<close>

lemma touching_split:
  assumes "touching (pre @ r # post)" and "rstart r \<le> p" and "p \<le> q" and "q \<le> rend r"
  defines "zs \<equiv> pre @ r\<lparr>rend := p\<rparr> # \<lparr>rstart = q, rend = rend r\<rparr> # post"
  shows "ordered zs" and "covered zs \<inter> {p..<q} = {}" and "covered zs \<union> {p..<q} = covered (pre @ r # post)"
proof -
  have ord: "ordered (pre @ r # post)" using assms(1) by (rule touching_ordered)
  then have before: "rend x \<le> rstart r" if "x \<in> set pre" for x
    using that by (simp add: ordered_append)
  from ord have after: "rend r \<le> rstart x" if "x \<in> set post" for x
    using that by (simp add: ordered_append)
  have rq: "rstart r \<le> q" "p \<le> rend r" using assms(2-4) by (blast intro: order_trans)+
  show "ordered zs"
    using ord assms(2-4) rq before after by (auto simp: zs_def ordered_append intro: order_trans)
  have pre: "a < p" if a: "a \<in> covered pre" for a
  proof -
    obtain x where "x \<in> set pre" "a < rend x" using a by (auto simp: covered_def addrs_def)
    with before [of x] assms(2) have "a < rend x" "rend x \<le> rstart r" "rstart r \<le> p" by blast+
    then show ?thesis by order
  qed
  have post: "q \<le> a" if a: "a \<in> covered post" for a
  proof -
    obtain x where "x \<in> set post" "rstart x \<le> a" using a by (auto simp: covered_def addrs_def)
    with after [of x] assms(4) have "rstart x \<le> a" "rend r \<le> rstart x" "q \<le> rend r" by blast+
    then show ?thesis by order
  qed
  show "covered zs \<inter> {p..<q} = {}"
    by (auto simp: zs_def addrs_def dest!: pre post)
  have "addrs (r\<lparr>rend := p\<rparr>) \<union> addrs \<lparr>rstart = q, rend = rend r\<rparr> \<union> {p..<q} = addrs r"
    using assms(2-4) rq by (auto simp: addrs_def intro: order_trans)
  then show "covered zs \<union> {p..<q} = covered (pre @ r # post)"
    by (auto simp: zs_def)
qed

lemma init_freemem_correct:
  fixes extra :: word_t and it_v_reg :: v_region_t
  assumes checks: "check_available_memory available" "check_reserved_memory resvd"
    and win: "\<forall>r \<in> set resvd. PPTR_BASE \<le> rstart r"
    and regs: "length available \<le> length (freemem (ndks_boot b))"
    and slots: "length (carve (map avail_reg available) resvd) < length (freemem (ndks_boot b))"
    and table: "apart (resv (ndks_boot b))"
      "resv_count (ndks_boot b) + length resvd + length (freemem (ndks_boot b)) \<le> length (reserved (ndks_boot b))"
    and dis: "addrFromPPtr ` (covered (map avail_reg available) \<union> covered resvd) \<inter> covered (resv (ndks_boot b)) = {}"
    and extra: "unat extra = 0 \<or> 12 \<le> unat extra" and e64: "unat extra < 64"
    and small: "rs_bytes (unat extra) (unat (arch_get_n_paging it_v_reg)) < 2 ^ 64"
    and none: "rs_extra_bi (rootserver b) = 0"
  shows "\<exists>ok b'. init_freemem available resvd it_v_reg extra b = Some (ok, b') \<and>
     freemem_promise available resvd it_v_reg extra b ok b'"
proof -
  let ?avs = "map avail_reg available" and ?nb = "ndks_boot b" and ?n = "length (freemem (ndks_boot b))"
  let ?sz = "calculate_rootserver_size it_v_reg extra" and ?np = "unat (arch_get_n_paging it_v_reg)"
  let ?fs = "carve ?avs resvd" and ?cleared = "?nb\<lparr>freemem := replicate ?n REG_EMPTY\<rparr>"
  have ordr: "ordered resvd"
    using checks(2) check_reserved_loop_ordered by (auto simp: check_reserved_memory_def)
  have orda: "ordered ?avs"
    using checks(1) check_available_loop_ordered by (auto simp: check_available_memory_def split: if_splits intro: avail_reg_ordered)
  have wina: "PPTR_BASE \<le> rstart a" if "a \<in> set ?avs" for a
    using that by (auto simp: avail_reg_def paddr_to_pptr_reg_def Let_def avail_reg_window)
  have "walk ?avs resvd ?cleared [] ?n"
    using ordr orda wina win slots table dis
    by (auto simp: walk_def room_def free_slots_def resv_def)
  then obtain nb k where nb: "free_regions ?avs resvd ?cleared = Some nb" "room nb ?fs k 0" "0 < k"
    "covered (resv nb) = covered (resv ?cleared) \<union> addrFromPPtr ` (covered ?avs \<union> covered resvd)" "same_rest ?cleared nb"
    using free_regions_correct [of ?avs resvd ?cleared "[]" ?n] by auto
  obtain k' where k: "k = Suc k'" using nb(3) by (cases k) auto
  have free: "freemem nb = ?fs @ replicate k REG_EMPTY" and pos: "\<And>x. x \<in> set ?fs \<Longrightarrow> rstart x < rend x"
    using nb(2) by (auto simp: room_def free_slots_def)
  have len: "?n = length ?fs + k"
    using nb(5) free by (simp add: same_rest_def)
  have lastreg: "arr_get (freemem nb) (?n - 1) = Some REG_EMPTY"
  proof -
    have "?n - 1 = length ?fs + k'" using len k by simp
    moreover have "replicate k REG_EMPTY ! k' = REG_EMPTY" using k by (intro nth_replicate) simp
    ultimately show ?thesis using k by (simp add: arr_get_def free nth_append del: replicate_Suc)
  qed
  have emp: "is_reg_empty REG_EMPTY" by (simp add: is_reg_empty_def REG_EMPTY_def)
  have skip: "skip_empty ?n (freemem nb) = length ?fs"
    using skip_empty_used [of ?fs k "[]"] pos by (simp add: len free)
  let ?b = "b\<lparr>ndks_boot := nb\<rparr>" and ?m = "rootserver_max_size_bits extra"
  have winf: "PPTR_BASE \<le> rstart x" if "x \<in> set ?fs" for x
    using carve_within [OF ordr that] wina by (auto intro: order_trans)
  have "\<exists>ok b'. place_rootserver (length ?fs) ?sz ?m it_v_reg extra ?b = Some (ok, b') \<and>
     ndks_boot b' = (ndks_boot ?b)\<lparr>freemem := freemem (ndks_boot b')\<rparr> \<and>
     ok = (\<exists>x \<in> set ?fs. room_for ?sz ?m x) \<and> (ok \<longrightarrow> placed ?fs (replicate k' REG_EMPTY) ?sz (unat extra) ?np ?b b')"
    by (rule place_rootserver_correct [OF _ winf extra e64 small]) (use free k none in auto)
  then obtain ok b' where b': "place_rootserver (length ?fs) ?sz ?m it_v_reg extra ?b = Some (ok, b')"
    "ndks_boot b' = (ndks_boot ?b)\<lparr>freemem := freemem (ndks_boot b')\<rparr>"
    "ok \<longrightarrow> placed ?fs (replicate k' REG_EMPTY) ?sz (unat extra) ?np ?b b'"
    "ok = (\<exists>x \<in> set ?fs. room_for ?sz ?m x)" by blast
  have run: "init_freemem available resvd it_v_reg extra b = Some (ok, b')"
    using checks regs nb(1) lastreg emp skip b'(1) by (simp add: init_freemem_def Let_def)
  have resv': "resv (ndks_boot b') = resv nb"
    by (subst b'(2)) (simp add: resv_def)
  have "freemem_promise available resvd it_v_reg extra b ok b'"
    unfolding freemem_promise_def resv'
  proof (intro conjI impI)
    show "covered (resv nb) = covered (resv ?nb) \<union> addrFromPPtr ` (covered ?avs \<union> covered resvd)"
      using nb(4) by (simp add: resv_def)
    show "apart (resv nb)" using nb(2) by (simp add: room_def)
    show "ok = (\<exists>x \<in> set ?fs. room_for ?sz ?m x)" by (rule b'(4))
  next
    assume ok
    with b'(3) obtain pre r post start zs where x: "?fs = pre @ r # post"
      "freemem (ndks_boot b') = pre @ r\<lparr>rend := start\<rparr> # \<lparr>rstart = start + ?sz, rend = rend r\<rparr> # post @ replicate k' REG_EMPTY"
      "rstart r \<le> start" "start + ?sz \<le> rend r" "zeroed b' = zeroed b @ zs"
      "rootserver_ok start (unat extra) ?np zs (rootserver b')"
      unfolding placed_def by auto
    let ?ys = "pre @ r\<lparr>rend := start\<rparr> # \<lparr>rstart = start + ?sz, rend = rend r\<rparr> # post"
    have tl: "tiles start zs (start + ?sz)"
      using x(6) rs_bytes_size [OF e64] by (simp add: rootserver_ok_def)
    note split = touching_split [OF carve_touching [OF orda ordr, unfolded x(1)] x(3) tiles_le [OF tl] x(4)]
    have fm: "freemem (ndks_boot b') = ?ys @ replicate k' REG_EMPTY" using x(2) by simp
    have none: "covered (replicate k' REG_EMPTY) = {}" "filter (\<lambda>x. \<not> is_reg_empty x) (replicate k' REG_EMPTY) = []"
      using emp by (auto simp: covered_def REG_EMPTY_def addrs_def)
    have cov: "covered (freemem (ndks_boot b')) = covered ?ys"
      unfolding fm covered_simps(3) none by simp
    have "ordered (filter (\<lambda>x. \<not> is_reg_empty x) (freemem (ndks_boot b')))"
    proof -
      have "filter (\<lambda>x. \<not> is_reg_empty x) (freemem (ndks_boot b')) = filter (\<lambda>x. \<not> is_reg_empty x) ?ys"
        unfolding fm by (simp only: filter_append none append_Nil2)
      with ordered_filter [OF split(1)] show ?thesis by (simp only:)
    qed
    moreover have "covered (freemem (ndks_boot b')) \<inter> covered zs = {}"
      unfolding cov tiles_covered [OF tl] by (rule split(2))
    moreover have "covered (freemem (ndks_boot b')) \<union> covered zs = covered ?avs - covered resvd"
      unfolding cov tiles_covered [OF tl] split(3) x(1) [symmetric] by (rule carve_covered [OF ordr])
    ultimately show "\<exists>start zs. zeroed b' = zeroed b @ zs \<and>
        rootserver_ok start (unat extra) ?np zs (rootserver b') \<and>
        ordered (filter (\<lambda>x. \<not> is_reg_empty x) (freemem (ndks_boot b'))) \<and>
        covered (freemem (ndks_boot b')) \<inter> covered zs = {} \<and>
        covered (freemem (ndks_boot b')) \<union> covered zs = covered ?avs - covered resvd"
      using x(5,6) by blast
  qed
  with run show ?thesis by blast
qed

text \<open>One bank of a gigabyte with the kernel at its start and an image that needs three page tables.\<close>

lemma init_freemem_example:
  fixes available resvd :: "region_t list"
  defines "available \<equiv> [\<lparr>rstart = 0x40000000, rend = 0x80000000\<rparr>]"
    and "resvd \<equiv> [\<lparr>rstart = 0xffffff8040000000, rend = 0xffffff8040400000\<rparr>]"
    and "img \<equiv> \<lparr>rstart = 0x400000, rend = 0x600000\<rparr>"
  shows "\<exists>b'. init_freemem available resvd img 0 (boot_bss 5 4) = Some (True, b') \<and>
    freemem_promise available resvd img 0 (boot_bss 5 4) True b'"
proof -
  have av: "map avail_reg available = [\<lparr>rstart = 0xffffff8040000000, rend = 0xffffff8080000000\<rparr>]"
    by (simp add: available_def avail_reg_def paddr_to_pptr_reg_def ceiling_kernel_window_def ptrFromPAddr_def
        addrFromPPtr_def PPTR_BASE_OFFSET_def PPTR_BASE_def PADDR_BASE_def PADDR_TOP_def PPTR_TOP_def Let_def)
  have cv: "carve (map avail_reg available) resvd = [\<lparr>rstart = 0xffffff8040400000, rend = 0xffffff8080000000\<rparr>]"
    unfolding av by (simp add: resvd_def)
  have np: "arch_get_n_paging img = 3"
    by (simp add: img_def arch_get_n_paging_def get_n_paging_def ROUND_UP_def ROUND_DOWN_def shiftr_def shiftl_def
        BIT_def Let_def)
  have fits: "room_for (calculate_rootserver_size img 0) (rootserver_max_size_bits 0)
      \<lparr>rstart = 0xffffff8040400000, rend = 0xffffff8080000000\<rparr>"
    by (simp add: room_for_def calculate_rootserver_size_def rootserver_max_size_bits_def np
        CONFIG_ROOT_CNODE_SIZE_BITS_def ROUND_DOWN_def shiftr_def shiftl_def BIT_def Let_def)
  have "\<exists>ok b'. init_freemem available resvd img 0 (boot_bss 5 4) = Some (ok, b') \<and>
      freemem_promise available resvd img 0 (boot_bss 5 4) ok b'"
  proof (rule init_freemem_correct)
    show "check_available_memory available" "check_reserved_memory resvd" "\<forall>r \<in> set resvd. PPTR_BASE \<le> rstart r"
      by (simp_all add: available_def resvd_def check_available_memory_def check_reserved_memory_def PPTR_BASE_def)
    show "length available \<le> length (freemem (ndks_boot (boot_bss 5 4)))"
      by (simp add: available_def boot_bss_def)
    show "length (carve (map avail_reg available) resvd) < length (freemem (ndks_boot (boot_bss 5 4)))"
      unfolding cv by (simp add: boot_bss_def)
  qed (simp_all add: boot_bss_def resv_def resvd_def np rs_bytes_def)
  then obtain ok b' where b': "init_freemem available resvd img 0 (boot_bss 5 4) = Some (ok, b')"
    "freemem_promise available resvd img 0 (boot_bss 5 4) ok b'" by blast
  from b'(2) have "ok = (\<exists>x \<in> set (carve (map avail_reg available) resvd).
      room_for (calculate_rootserver_size img 0) (rootserver_max_size_bits 0) x)"
    by (simp only: freemem_promise_def)
  with fits have "ok = True" unfolding cv by simp
  then show ?thesis using b' by (intro exI [of _ b']) simp
qed

end
