(* ===== verification/Spec2Isabelle.thy ===== *)
theory Spec2Isabelle
  imports Cap_Ops CSpace MDB Ready_Queues VSpace Scheduler Signals Messaging Retype
    Refusal Round_Robin Page_Mapping Interrupt_Signals Fastpath_Reply Boot_Freemem
begin

text \<open>
  \<^bold>\<open>Verification library for the kernel of the repository\<close>

  The repository is an operating system on the seL4 microkernel. Its C core is the kernel in
  \<^verbatim>\<open>src/kernel\<close>, and this library models the kernel in one configuration: AArch64, one core, no
  hypervisor mode, no SMMU, the scheduler without scheduling contexts (non-MCS), a GICv2
  interrupt controller, an FPU that is switched lazily, and a release build. Paths below are
  relative to \<^verbatim>\<open>src/kernel\<close>.

  \<^bold>\<open>The parts of the program and the theories that model them\<close>

  \<^item> \<open>Kernel_Prelude\<close>: machine words (\<^verbatim>\<open>BIT\<close>, \<^verbatim>\<open>MASK\<close>, shifts of \<^verbatim>\<open>include/util.h\<close>) and the theory
    of doubly linked lists in memory, stated as the locale \<open>link_store\<close> over an abstract store and
    interpreted on the capability slots (in \<open>MDB\<close>) and on the thread queues.
  \<^item> \<open>Kernel_Types\<close>: the data of \<^verbatim>\<open>include/object/structures.h\<close> and of the bitfield files
    \<^verbatim>\<open>structures_64.bf\<close> and \<^verbatim>\<open>structures.bf\<close>, and the global state \<open>kstate\<close>. Memory is a family of
    typed heaps (slots, TCBs, endpoints, notifications, page table entries, ASID pools, user words)
    from 64-bit addresses to optional objects; the C globals are further fields.
  \<^item> \<open>Cap_Ops\<close>: operations on capability values of \<^verbatim>\<open>src/object/objecttype.c\<close> and its AArch64 half.
  \<^item> \<open>CSpace\<close>: capability addresses, \<^verbatim>\<open>src/kernel/cspace.c\<close>.
  \<^item> \<open>MDB\<close>: the derivation list of \<^verbatim>\<open>src/object/cnode.c\<close>.
  \<^item> \<open>Ready_Queues\<close>, \<open>Scheduler\<close>: the ready queues and their bitmap of \<^verbatim>\<open>src/object/tcb.c\<close>, the
    scheduler, the domain schedule and the FPU owner of \<^verbatim>\<open>src/kernel/thread.c\<close> and
    \<^verbatim>\<open>src/machine/fpu.c\<close>.
  \<^item> \<open>IPC_Queues\<close>, \<open>Wait_Queues\<close>, \<open>Signals\<close>: queues of waiting threads, cancellation and signals of
    \<^verbatim>\<open>src/object/endpoint.c\<close> and \<^verbatim>\<open>src/object/notification.c\<close>.
  \<^item> \<open>IPC_Transfer\<close>, \<open>Slots\<close>, \<open>Messages\<close>, \<open>Frames\<close>, \<open>Endpoints\<close>, \<open>Rendezvous\<close>, \<open>Messaging\<close>: the transfer
    of messages and capabilities, fault messages, and the operations on endpoints of
    \<^verbatim>\<open>src/object/endpoint.c\<close>, \<^verbatim>\<open>src/kernel/thread.c\<close>, \<^verbatim>\<open>src/kernel/faulthandler.c\<close> and
    \<^verbatim>\<open>src/api/faults.c\<close>.
  \<^item> \<open>VSpace\<close>: ASIDs, page tables, unmapping and faults of \<^verbatim>\<open>src/arch/arm/64/kernel/vspace.c\<close>.
  \<^item> \<open>Deletion\<close>, \<open>Revocation\<close>: deletion of capabilities and objects, zombies, revocation and the
    preemption point.
  \<^item> \<open>CNode_Inv\<close>, \<open>Untyped\<close>, \<open>Retype\<close>: decoding and performing the invocations of CNodes and of untyped
    memory, and the creation of objects (\<^verbatim>\<open>src/object/cnode.c\<close>, \<^verbatim>\<open>untyped.c\<close>, \<^verbatim>\<open>objecttype.c\<close>).
  \<^item> \<open>TCB_Inv\<close>, \<open>Domains\<close>, \<open>VSpace_Inv\<close>: the invocations of threads (\<^verbatim>\<open>src/object/tcb.c\<close>), of the domain
    schedule (\<^verbatim>\<open>src/object/domain.c\<close>) and of address spaces, page tables, frames and ASID pools
    (\<^verbatim>\<open>src/arch/arm/64/kernel/vspace.c\<close>).
  \<^item> \<open>Interrupts\<close>: delivery of interrupts and the capabilities over them (\<^verbatim>\<open>src/object/interrupt.c\<close>,
    \<^verbatim>\<open>src/arch/arm/object/interrupt.c\<close>). Each read of the interrupt controller takes the next value
    of a stream in the state.
  \<^item> \<open>Syscalls\<close>: the entry points of the kernel (\<^verbatim>\<open>src/api/syscall.c\<close>); \<open>handleSyscall\<close>,
    \<open>handleInterruptEntry\<close> and the fault handlers call everything above, then \<open>schedule\<close> and
    \<open>activateThread\<close>.
  \<^item> \<open>Fastpath_Lookup\<close>, \<open>Fastpath\<close>, \<open>Fastpath_Equiv\<close>, \<open>Fastpath_Reply\<close>: the fast path of call and of reply and receive
    (\<^verbatim>\<open>src/fastpath/fastpath.c\<close>, \<^verbatim>\<open>include/fastpath/fastpath.h\<close> and its AArch64 half), and its equivalence to
    the system calls of \<open>Syscalls\<close>.
  \<^item> \<open>Boot_Regions\<close>, \<open>Boot_Memory\<close>, \<open>Boot_Rootserver\<close>, \<open>Boot_Freemem\<close>: the memory of booting
    (\<^verbatim>\<open>src/kernel/boot.c\<close>), with a state \<open>boot_t\<close> of its own: the tables of reserved and free
    regions, the discovery of free memory, and the objects of the initial thread taken from it.
  \<^item> \<open>Refusal\<close>, \<open>Round_Robin\<close>, \<open>Page_Mapping\<close>, \<open>Interrupt_Signals\<close>: no code of their own, but what
    holds of several parts together: a refused invocation has changed nothing, threads of equal
    priority that yield take turns, a mapped frame translates exactly its address, and the interrupt of
    a device becomes a signal.

  \<^bold>\<open>How the code is translated\<close>

  An operation of the kernel is a function \<open>\<dots> \<Rightarrow> kstate \<Rightarrow> (\<dots> \<times> kstate) option\<close> in the \<open>option\<close> monad.
  \<open>None\<close> stands for what must not happen: a failed \<^verbatim>\<open>assert\<close>, the use of a dangling pointer, the
  impossible case of a \<^verbatim>\<open>switch\<close>, or no fuel left. So a theorem that an operation returns \<open>Some\<close>
  says that it terminates, that its assertions hold and that its pointers are valid. Errors
  that the kernel reports to the user are values: an \<open>exception_t\<close> with the globals
  \<open>current_syscall_error\<close>, \<open>current_lookup_fault\<close> and \<open>current_fault\<close> set as in the code. Operations on
  the machine (caches, TLB, registers) are logged in \<open>machine_log\<close>, in order.

  \<^bold>\<open>What the lemmas show\<close>

  Each part has an abstraction and an invariant: chains of the derivation list (\<open>mdb_wf\<close>), lists of
  ready threads with an exact bitmap (\<open>sched_ok\<close>), queues of waiting threads in agreement with the
  thread states (\<open>wait_part\<close>, \<open>ipc_inv\<close>), well-formed capability slots (\<open>slots_ok\<close>). The lemmas show
  that the operations refine list operations, keep the invariants and return. Booting leaves
  as free memory exactly the available memory less the reserved regions and the memory that
  the initial objects tile (\<open>init_freemem_correct\<close>).

  \<^bold>\<open>Fuel\<close>

  Loops that follow a list or count take structural recursion or a measure. Only the mutual
  recursion of \<open>finaliseSlot\<close>, \<open>reduceZombie\<close> and \<open>cteDelete\<close>, and the loop of \<open>cteRevoke\<close>, take fuel;
  \<open>Revocation\<close> shows that a larger fuel never changes a result and gives fuel that suffices for
  revoking children that each go in one step: one unit per child and one more.

  \<^bold>\<open>Not modelled\<close>

  The other architectures (x86, RISC-V, 32-bit ARM), the MCS scheduler, multicore, the hypervisor,
  SMMU and SMC, boot apart from its memory, the fast paths of signals and faults (compiled in other configurations), drivers of timers and
  serial ports, debugging and printing. Outside the kernel: the C library, the seL4 user libraries
  and the application in C++.
\<close>

end
